(* ===== verification/Prelude.thy ===== *)
theory Prelude
  imports Main "HOL-Library.Word"
begin

text \<open>
  Shared vocabulary of the development: Rust's machine integers as words, its
  \<^verbatim>\<open>Result\<close> as a sum, the checked and saturating integer operations of the standard
  library, \<^verbatim>\<open>Ordering\<close> and the \<^verbatim>\<open>cmp\<close> of integers and byte arrays, big-endian
  byte conversion, and the lemmas that move these to natural numbers.

  Fixed-size byte arrays (\<^verbatim>\<open>[u8; 28]\<close>, \<^verbatim>\<open>[u8; 32]\<close>, \<^verbatim>\<open>[u8; 64]\<close>) are byte lists; where
  a property depends on the size, the size is a hypothesis or an invariant.
  Arithmetic that the source writes with plain operators wraps here, which is what the
  workspace's release profile does; arithmetic it writes with \<^verbatim>\<open>checked_\<close> or
  \<^verbatim>\<open>saturating_\<close> operations uses the definitions below.
\<close>

unbundle bit_operations_syntax

named_theorems unat_simps \<open>facts that move word arithmetic to natural numbers\<close>
named_theorems result_simps \<open>inversion of Result-valued computations\<close>

section \<open>Machine integers\<close>

type_synonym u8 = "8 word"
type_synonym u16 = "16 word"
type_synonym u32 = "32 word"
type_synonym u64 = "64 word"
type_synonym u128 = "128 word"
type_synonym bytes = "u8 list"

definition checked_add :: "'a::len word \<Rightarrow> 'a word \<Rightarrow> 'a word option" where
  "checked_add a b = (if unat a + unat b < 2 ^ LENGTH('a) then Some (a + b) else None)"

definition checked_sub :: "'a::len word \<Rightarrow> 'a word \<Rightarrow> 'a word option" where
  "checked_sub a b = (if b \<le> a then Some (a - b) else None)"

definition checked_mul :: "'a::len word \<Rightarrow> 'a word \<Rightarrow> 'a word option" where
  "checked_mul a b = (if unat a * unat b < 2 ^ LENGTH('a) then Some (a * b) else None)"

definition saturating_add :: "'a::len word \<Rightarrow> 'a word \<Rightarrow> 'a word" where
  "saturating_add a b = (if unat a + unat b < 2 ^ LENGTH('a) then a + b else - 1)"

definition saturating_sub :: "'a::len word \<Rightarrow> 'a word \<Rightarrow> 'a word" where
  "saturating_sub a b = (if b \<le> a then a - b else 0)"

definition saturating_mul :: "'a::len word \<Rightarrow> 'a word \<Rightarrow> 'a word" where
  "saturating_mul a b = (if unat a * unat b < 2 ^ LENGTH('a) then a * b else - 1)"

definition div_ceil :: "'a::len word \<Rightarrow> 'a word \<Rightarrow> 'a word" where
  "div_ceil a b = (if 0 < a mod b then a div b + 1 else a div b)"

lemma checked_add_Some [unat_simps]:
  fixes a :: "'a::len word"
  shows "checked_add a b = Some c \<longleftrightarrow> unat a + unat b < 2 ^ LENGTH('a) \<and> unat c = unat a + unat b"
  by (auto simp: checked_add_def unat_word_ariths word_unat_eq_iff)

lemma checked_add_None [unat_simps]:
  fixes a :: "'a::len word"
  shows "checked_add a b = None \<longleftrightarrow> 2 ^ LENGTH('a) \<le> unat a + unat b"
  by (auto simp: checked_add_def)

lemma checked_sub_Some [unat_simps]:
  "checked_sub a b = Some c \<longleftrightarrow> unat b \<le> unat a \<and> unat c = unat a - unat b"
  by (auto simp: checked_sub_def word_le_nat_alt unat_sub word_unat_eq_iff)

lemma checked_sub_None [unat_simps]:
  "checked_sub a b = None \<longleftrightarrow> unat a < unat b"
  by (auto simp: checked_sub_def word_le_nat_alt)

lemma checked_mul_Some [unat_simps]:
  fixes a :: "'a::len word"
  shows "checked_mul a b = Some c \<longleftrightarrow> unat a * unat b < 2 ^ LENGTH('a) \<and> unat c = unat a * unat b"
  by (auto simp: checked_mul_def unat_word_ariths word_unat_eq_iff)

lemma checked_mul_None [unat_simps]:
  fixes a :: "'a::len word"
  shows "checked_mul a b = None \<longleftrightarrow> 2 ^ LENGTH('a) \<le> unat a * unat b"
  by (auto simp: checked_mul_def)

lemma unat_minus_one_eq: "unat (- 1 :: 'a::len word) = 2 ^ LENGTH('a) - 1"
  by (simp add: unsigned_minus_1_eq_mask mask_eq_exp_minus_1)

lemma unat_saturating_add [unat_simps]:
  fixes a :: "'a::len word"
  shows "unat (saturating_add a b) = min (unat a + unat b) (2 ^ LENGTH('a) - 1)"
  by (auto simp: saturating_add_def unat_word_ariths unat_minus_one_eq)

lemma unat_saturating_sub [unat_simps]:
  "unat (saturating_sub a b) = unat a - unat b"
  by (auto simp: saturating_sub_def word_le_nat_alt unat_sub)

lemma unat_saturating_mul [unat_simps]:
  fixes a :: "'a::len word"
  shows "unat (saturating_mul a b) = min (unat a * unat b) (2 ^ LENGTH('a) - 1)"
  by (auto simp: saturating_mul_def unat_word_ariths unat_minus_one_eq)

lemma unat_div_ceil [unat_simps]:
  fixes a :: "'a::len word"
  assumes "b \<noteq> 0"
  shows "unat (div_ceil a b) = (unat a + unat b - 1) div unat b"
proof -
  let ?a = "unat a" and ?b = "unat b"
  have b: "0 < ?b" using assms by (simp add: unat_gt_0)
  have split: "?a = ?a div ?b * ?b + ?a mod ?b" by simp
  have ceil: "(?a + ?b - 1) div ?b = ?a div ?b + (if ?a mod ?b = 0 then 0 else 1)"
  proof (cases "?a mod ?b = 0")
    case True
    then have "?a + ?b - 1 = (?b - 1) + ?a div ?b * ?b" using split b by linarith
    then have "(?a + ?b - 1) div ?b = ?a div ?b + (?b - 1) div ?b"
      using b by (metis add.commute div_mult_self1 less_numeral_extra(3))
    with True b show ?thesis by simp
  next
    case False
    then have "?a + ?b - 1 = (?a mod ?b - 1) + Suc (?a div ?b) * ?b" using split b by simp
    then have "(?a + ?b - 1) div ?b = Suc (?a div ?b) + (?a mod ?b - 1) div ?b"
      using b by (metis add.commute div_mult_self1 less_numeral_extra(3))
    moreover have "(?a mod ?b - 1) div ?b = 0" using b by (simp add: less_imp_diff_less)
    ultimately show ?thesis using False by simp
  qed
  have "?a div ?b + 1 < 2 ^ LENGTH('a)" if "?a mod ?b \<noteq> 0"
  proof -
    have "?b \<noteq> 1" using that by auto
    then have "?a div ?b \<le> ?a div 2" using b by (intro div_le_mono2) auto
    moreover have "?a \<noteq> 0" using that by (intro notI) simp
    moreover have "?a < 2 ^ LENGTH('a)" by (rule unsigned_less)
    moreover have "1 < (2::nat) ^ LENGTH('a)" by (rule one_less_power) simp_all
    moreover have "?a = 1 \<or> 2 \<le> ?a" using \<open>?a \<noteq> 0\<close> by linarith
    ultimately show ?thesis by linarith
  qed
  then have "unat (a div b + 1) = ?a div ?b + 1" if "?a mod ?b \<noteq> 0"
    using that by (simp add: unat_word_ariths(1) unat_div)
  moreover have "0 < a mod b \<longleftrightarrow> ?a mod ?b \<noteq> 0"
    by (simp add: word_less_nat_alt unat_mod)
  ultimately show ?thesis unfolding ceil
    by (simp add: div_ceil_def unat_div)
qed

lemma unat_surj: "n < 2 ^ LENGTH('a) \<Longrightarrow> \<exists>w :: 'a::len word. unat w = n"
  by (rule exI [of _ "word_of_nat n"], subst unat_of_nat) simp

lemma unat_word_div: "unat (a div b) = unat a div unat b"
  by (simp add: unat_div)

lemma unat_word_mod: "unat (a mod b) = unat a mod unat b"
  by (simp add: unat_mod)

text \<open>\<^verbatim>\<open>u64::from(x)\<close> on a narrower unsigned integer.\<close>

lemma unat_u32_to_u64 [simp]: "unat (ucast (x :: u32) :: u64) = unat x"
  by (simp add: unsigned_ucast_eq take_bit_nat_eq_self unsigned_less [THEN order.strict_trans2])

section \<open>Result\<close>

type_synonym ('a, 'e) result = "'e + 'a"

abbreviation Ok :: "'a \<Rightarrow> ('a, 'e) result" where "Ok \<equiv> Inr"
abbreviation Err :: "'e \<Rightarrow> ('a, 'e) result" where "Err \<equiv> Inl"

text \<open>The \<^verbatim>\<open>?\<close> operator: stop at the first error.\<close>

definition rbind :: "('a, 'e) result \<Rightarrow> ('a \<Rightarrow> ('b, 'e) result) \<Rightarrow> ('b, 'e) result" where
  "rbind r f = (case r of Err e \<Rightarrow> Err e | Ok a \<Rightarrow> f a)"

definition map_err :: "('e \<Rightarrow> 'f) \<Rightarrow> ('a, 'e) result \<Rightarrow> ('a, 'f) result" where
  "map_err f r = (case r of Err e \<Rightarrow> Err (f e) | Ok a \<Rightarrow> Ok a)"

definition ok_or :: "'e \<Rightarrow> 'a option \<Rightarrow> ('a, 'e) result" where
  "ok_or e x = (case x of None \<Rightarrow> Err e | Some a \<Rightarrow> Ok a)"

text \<open>A guard with an early return: \<^verbatim>\<open>if c { return Err(e); }\<close>.\<close>

definition reject_if :: "bool \<Rightarrow> 'e \<Rightarrow> (unit, 'e) result" where
  "reject_if c e = (if c then Err e else Ok ())"

definition is_ok :: "('a, 'e) result \<Rightarrow> bool" where
  "is_ok r = (case r of Ok _ \<Rightarrow> True | Err _ \<Rightarrow> False)"

lemma rbind_simps [simp]:
  "rbind (Ok a) f = f a" "rbind (Err e) f = Err e"
  by (simp_all add: rbind_def)

lemma map_err_simps [simp]:
  "map_err f (Ok a) = Ok a" "map_err f (Err e) = Err (f e)"
  by (simp_all add: map_err_def)

lemma ok_or_simps [simp]:
  "ok_or e (Some a) = Ok a" "ok_or e None = Err e"
  by (simp_all add: ok_or_def)

lemma reject_if_simps [simp]:
  "reject_if True e = Err e" "reject_if False e = Ok ()"
  by (simp_all add: reject_if_def)

lemma is_ok_simps [simp]: "is_ok (Ok a)" "\<not> is_ok (Err e)"
  by (simp_all add: is_ok_def)

lemma rbind_eq_Ok [result_simps]:
  "rbind r f = Ok b \<longleftrightarrow> (\<exists>a. r = Ok a \<and> f a = Ok b)"
  by (cases r) simp_all

lemma rbind_eq_Err [result_simps]:
  "rbind r f = Err e \<longleftrightarrow> r = Err e \<or> (\<exists>a. r = Ok a \<and> f a = Err e)"
  by (cases r) simp_all

lemma rbind_assoc: "rbind (rbind r f) g = rbind r (\<lambda>a. rbind (f a) g)"
  by (cases r) simp_all

lemma rbind_cong_Ok: "(\<And>a. r = Ok a \<Longrightarrow> f a = g a) \<Longrightarrow> rbind r f = rbind r g"
  by (cases r) simp_all

lemma rbind_unit_Ok: "rbind (r :: (unit, 'e) result) (\<lambda>_. k) = Ok b \<longleftrightarrow> r = Ok () \<and> k = Ok b"
  by (cases r) simp_all

lemma rbind_pair_Ok:
  "rbind r (\<lambda>(x, y). f x y) = Ok b \<longleftrightarrow> (\<exists>x y. r = Ok (x, y) \<and> f x y = Ok b)"
  by (cases r) auto

lemma map_err_eq_Ok [result_simps]: "map_err f r = Ok a \<longleftrightarrow> r = Ok a"
  by (cases r) simp_all

lemma map_err_eq_Err [result_simps]: "map_err f r = Err e \<longleftrightarrow> (\<exists>e'. r = Err e' \<and> e = f e')"
  by (cases r) auto

lemma ok_or_eq_Ok [result_simps]: "ok_or e x = Ok a \<longleftrightarrow> x = Some a"
  by (cases x) simp_all

lemma ok_or_eq_Err [result_simps]: "ok_or e x = Err e' \<longleftrightarrow> x = None \<and> e' = e"
  by (cases x) auto

lemma reject_if_eq_Ok [result_simps]: "reject_if c e = Ok u \<longleftrightarrow> \<not> c"
  by (cases c) simp_all

lemma reject_if_eq_Err [result_simps]: "reject_if c e = Err e' \<longleftrightarrow> c \<and> e' = e"
  by (cases c) auto

section \<open>Ordering\<close>

datatype ordering = Less | Equal | Greater

definition cmp :: "'a::linorder \<Rightarrow> 'a \<Rightarrow> ordering" where
  "cmp a b = (if a < b then Less else if a = b then Equal else Greater)"

text \<open>\<^verbatim>\<open>Ord\<close> of byte arrays and slices: lexicographic, a proper prefix first.\<close>

fun cmp_bytes :: "bytes \<Rightarrow> bytes \<Rightarrow> ordering" where
  "cmp_bytes [] [] = Equal"
| "cmp_bytes [] (b # bs) = Less"
| "cmp_bytes (a # as) [] = Greater"
| "cmp_bytes (a # as) (b # bs) = (case cmp a b of Equal \<Rightarrow> cmp_bytes as bs | r \<Rightarrow> r)"

text \<open>\<^verbatim>\<open>match a { Ordering::Equal => b, non_eq => return non_eq }\<close>.\<close>

definition then_with :: "ordering \<Rightarrow> ordering \<Rightarrow> ordering" where
  "then_with a b = (case a of Equal \<Rightarrow> b | r \<Rightarrow> r)"

lemma then_with_simps [simp]:
  "then_with Equal b = b" "then_with Less b = Less" "then_with Greater b = Greater"
  by (simp_all add: then_with_def)

lemma cmp_eq_simps [simp]:
  "cmp a b = Less \<longleftrightarrow> a < b" "cmp a b = Equal \<longleftrightarrow> a = b" "cmp a b = Greater \<longleftrightarrow> b < a"
  by (auto simp: cmp_def)

lemma cmp_refl [simp]: "cmp a a = Equal"
  by (simp add: cmp_def)

text \<open>
  A comparison is a total order when it is antisymmetric (swapping the arguments swaps
  the answer), transitive, and says \<open>Equal\<close> on equal arguments only.
\<close>

locale comparison =
  fixes compare :: "'a \<Rightarrow> 'a \<Rightarrow> ordering"
  assumes compare_equal: "compare x y = Equal \<longleftrightarrow> x = y"
    and compare_swap: "compare x y = Less \<longleftrightarrow> compare y x = Greater"
    and compare_trans: "compare x y = Less \<Longrightarrow> compare y z = Less \<Longrightarrow> compare x z = Less"
begin

lemma compare_self [simp]: "compare x x = Equal"
  by (simp add: compare_equal)

lemma compare_not_less_trans:
  assumes "compare y x \<noteq> Less" and "compare z y \<noteq> Less"
  shows "compare z x \<noteq> Less"
proof
  assume zx: "compare z x = Less"
  show False
  proof (cases "compare y x")
    case Less with assms show False by simp
  next
    case Equal
    then have "y = x" by (simp add: compare_equal)
    with zx assms show False by simp
  next
    case Greater
    then have "compare x y = Less" by (simp add: compare_swap)
    with zx have "compare z y = Less" by (rule compare_trans)
    with assms show False by simp
  qed
qed

lemma compare_less_asym: "compare x y = Less \<Longrightarrow> compare y x \<noteq> Less"
  by (simp add: compare_swap)

lemma compare_less_not_less_trans:
  assumes "compare x y = Less" and "compare z y \<noteq> Less"
  shows "compare x z = Less"
  using assms compare_equal compare_swap compare_trans ordering.exhaust by metis

end

interpretation cmp_linorder: comparison "cmp :: 'a::linorder \<Rightarrow> 'a \<Rightarrow> ordering"
  by unfold_locales (auto simp: cmp_def split: if_splits)

lemma cmp_bytes_equal [simp]: "cmp_bytes as bs = Equal \<longleftrightarrow> as = bs"
  by (induction as bs rule: cmp_bytes.induct) (auto split: ordering.splits)

lemma cmp_bytes_swap: "cmp_bytes as bs = Less \<longleftrightarrow> cmp_bytes bs as = Greater"
proof (induction as bs rule: cmp_bytes.induct)
  case (4 a as b bs)
  consider "a < b" | "a = b" | "b < a" by fastforce
  then show ?case
  proof cases
    case 1
    then show ?thesis by (auto simp: cmp_def)
  next
    case 2
    with 4 show ?thesis by simp
  next
    case 3
    then show ?thesis by (auto simp: cmp_def)
  qed
qed auto

lemma cmp_bytes_Cons_Less:
  "cmp_bytes (a # as) (b # bs) = Less \<longleftrightarrow> a < b \<or> a = b \<and> cmp_bytes as bs = Less"
  by (auto split: ordering.splits)

lemma cmp_bytes_trans:
  "cmp_bytes as bs = Less \<Longrightarrow> cmp_bytes bs cs = Less \<Longrightarrow> cmp_bytes as cs = Less"
proof (induction as arbitrary: bs cs)
  case Nil
  then show ?case by (cases bs; cases cs) auto
next
  case (Cons a as)
  then obtain b bs' where bs: "bs = b # bs'" by (cases bs) auto
  with Cons.prems(2) obtain c cs' where cs: "cs = c # cs'" by (cases cs) auto
  from Cons.prems Cons.IH [of bs' cs'] show ?case
    unfolding bs cs cmp_bytes_Cons_Less by auto
qed

interpretation cmp_byte_array: comparison cmp_bytes
  by unfold_locales (simp, rule cmp_bytes_swap, rule cmp_bytes_trans)

section \<open>Big-endian bytes\<close>

text \<open>\<^verbatim>\<open>to_be_bytes\<close> and \<^verbatim>\<open>from_be_bytes\<close>, most significant byte first.\<close>

fun be_bytes :: "nat \<Rightarrow> nat \<Rightarrow> bytes" where
  "be_bytes 0 v = []"
| "be_bytes (Suc n) v = be_bytes n (v div 256) @ [word_of_nat v]"

definition be_nat :: "bytes \<Rightarrow> nat" where
  "be_nat bs = foldl (\<lambda>acc b. acc * 256 + unat b) 0 bs"

definition u64_to_be_bytes :: "u64 \<Rightarrow> bytes" where
  "u64_to_be_bytes v = be_bytes 8 (unat v)"

lemma length_be_bytes [simp]: "length (be_bytes n v) = n"
  by (induction n arbitrary: v) simp_all

lemma be_nat_snoc: "be_nat (bs @ [b]) = be_nat bs * 256 + unat b"
  by (simp add: be_nat_def)

lemma be_nat_Nil [simp]: "be_nat [] = 0"
  by (simp add: be_nat_def)

lemma be_nat_be_bytes: "v < 256 ^ n \<Longrightarrow> be_nat (be_bytes n v) = v"
proof (induction n arbitrary: v)
  case (Suc n)
  from Suc.prems have "v div 256 < 256 ^ n" by (simp add: less_mult_imp_div_less)
  with Suc.IH show ?case by (simp add: be_nat_snoc unat_of_nat)
qed simp

lemma be_nat_less: "be_nat bs < 256 ^ length bs"
proof (induction bs rule: rev_induct)
  case (snoc b bs)
  have "unat b < 256" using unsigned_less [of b, where 'a = nat] by simp
  with snoc show ?case by (simp add: be_nat_snoc)
qed simp

lemma be_bytes_be_nat: "be_bytes (length bs) (be_nat bs) = bs"
proof (induction bs rule: rev_induct)
  case (snoc b bs)
  have b: "unat b < 256" using unsigned_less [of b, where 'a = nat] by simp
  have div: "(be_nat bs * 256 + unat b) div 256 = be_nat bs" using b by simp
  have "(word_of_nat (be_nat bs * 256 + unat b) :: u8) = b"
    by (rule word_unat_eq_iff [THEN iffD2], subst unat_of_nat) (use b in simp)
  with snoc div show ?case by (simp add: be_nat_snoc)
qed simp

lemma be_bytes_inject:
  "v < 256 ^ n \<Longrightarrow> w < 256 ^ n \<Longrightarrow> be_bytes n v = be_bytes n w \<longleftrightarrow> v = w"
  by (metis be_nat_be_bytes)

lemma length_u64_to_be_bytes [simp]: "length (u64_to_be_bytes v) = 8"
  by (simp add: u64_to_be_bytes_def)

lemma u64_to_be_bytes_inject [simp]: "u64_to_be_bytes v = u64_to_be_bytes w \<longleftrightarrow> v = w"
proof -
  have "unat x < 256 ^ 8" for x :: u64
    using unsigned_less [of x, where 'a = nat] by simp
  then show ?thesis by (simp add: u64_to_be_bytes_def be_bytes_inject word_unat_eq_iff)
qed

end
