(* ===== verification/Consensus_Types.thy ===== *)
theory Consensus_Types
  imports Prelude
begin

text \<open>
  The data of the consensus crate: eras (\<^verbatim>\<open>ade_types/src/era.rs\<close>), the closed error
  types (\<^verbatim>\<open>consensus/errors.rs\<close>), chain points and events (\<^verbatim>\<open>consensus/events.rs\<close>) and
  the header projections (\<^verbatim>\<open>consensus/header_summary.rs\<close>). The newtypes over \<^verbatim>\<open>u64\<close>
  and over byte arrays are type synonyms. Record fields carry a prefix where two structs
  have a field of the same name. Constructors that several enums share (\<^verbatim>\<open>HFC\<close>) are
  written with their type, as in the source.
\<close>

section \<open>Primitive types\<close>

type_synonym SlotNo = u64
type_synonym BlockNo = u64
type_synonym EpochNo = u64
type_synonym Hash28 = bytes
type_synonym Hash32 = bytes
type_synonym VrfVerificationKey = bytes
type_synonym VrfProof = bytes
type_synonym VrfOutput = bytes
type_synonym BlockDistance = u64
type_synonym SecurityParam = u64

section \<open>Eras\<close>

datatype CardanoEra =
  ByronEbb | ByronRegular | Shelley | Allegra | Mary | Alonzo | Babbage | Conway

fun era_as_u8 :: "CardanoEra \<Rightarrow> u8" where
  "era_as_u8 ByronEbb = 0"
| "era_as_u8 ByronRegular = 1"
| "era_as_u8 Shelley = 2"
| "era_as_u8 Allegra = 3"
| "era_as_u8 Mary = 4"
| "era_as_u8 Alonzo = 5"
| "era_as_u8 Babbage = 6"
| "era_as_u8 Conway = 7"

definition is_byron :: "CardanoEra \<Rightarrow> bool" where
  "is_byron era = (case era of ByronEbb \<Rightarrow> True | ByronRegular \<Rightarrow> True | _ \<Rightarrow> False)"

definition is_praos :: "CardanoEra \<Rightarrow> bool" where
  "is_praos era = (case era of Babbage \<Rightarrow> True | Conway \<Rightarrow> True | _ \<Rightarrow> False)"

datatype UnknownEraTag = UnknownEraTag u8

definition era_try_from :: "u8 \<Rightarrow> (CardanoEra, UnknownEraTag) result" where
  "era_try_from tag =
     (if tag = 0 then Ok ByronEbb
      else if tag = 1 then Ok ByronRegular
      else if tag = 2 then Ok Shelley
      else if tag = 3 then Ok Allegra
      else if tag = 4 then Ok Mary
      else if tag = 5 then Ok Alonzo
      else if tag = 6 then Ok Babbage
      else if tag = 7 then Ok Conway
      else Err (UnknownEraTag tag))"

section \<open>Errors\<close>

datatype HFCError =
    EmptyEraList
  | NonMonotonicEras SlotNo SlotNo
  | ZeroSlotLength u8
  | ZeroEpochLength u8
  | SlotBeforeSystemStart SlotNo SlotNo
  | SlotAfterLastEra SlotNo SlotNo

datatype SlotTimeError = OutOfRange SlotNo | HFC HFCError | Overflow

record OutsideForecastRange =
  ofr_requested :: SlotNo
  ofr_horizon :: SlotNo

datatype FieldKind =
  VrfVkey | VrfProof | VrfOutput | KesVkey | KesSignature | OpCertSignature | IssuerVkey

record FieldError =
  fe_field :: FieldKind
  fe_expected :: nat
  fe_actual :: nat

datatype VrfCertError =
    MalformedKey
  | MalformedProof
  | VerificationFailed
  | LeaderValueAboveThreshold bytes bytes

datatype OpCertCounterError = Regression u64 u64

datatype NonceEvolutionError =
    SlotBeforeLast SlotNo SlotNo
  | UninitialisedEpochNonce
  | MissingLastEpochBlockNonce

datatype HeaderValidationError =
    VrfCert VrfCertError
  | OpCertCounter OpCertCounterError
  | Nonce NonceEvolutionError
  | SlotBeforeLastApplied SlotNo SlotNo
  | BlockNoOutOfOrder BlockNo BlockNo
  | BodyHashMismatch Hash32 Hash32
  | EraMismatch u8 u8
  | HFC HFCError
  | OutsideForecastRange OutsideForecastRange
  | MalformedField FieldError
  | VrfKeyhashMismatch Hash32 Hash32
  | KesInvalid
  | OpCertInvalid

datatype LeaderScheduleError =
    UnknownPool
  | OutsideForecastRange OutsideForecastRange
  | HFC HFCError

section \<open>Points, rejections and chain events\<close>

record Point =
  pt_slot :: SlotNo
  pt_hash :: Hash32

datatype ChainSelectionReject =
    ForkBeforeImmutableTip Point Point BlockDistance SecurityParam
  | ExceededRollback BlockDistance SecurityParam
  | HeaderInvalid Point HeaderValidationError
  | TiebreakerLossKeepCurrent Point Point

datatype ChainEvent =
    ChainExtended Point BlockNo
  | RolledBack Point BlockDistance
  | RolledForward Point Point
  | ChainSelected Point "Point option"
  | Rejected ChainSelectionReject

section \<open>Header projections\<close>

datatype HeaderVrf =
    Tpraos VrfProof VrfProof
  | Praos VrfProof VrfOutput

record HeaderKes =
  hk_issuer_vkey :: bytes
  hk_kes_vkey :: bytes
  hk_kes_signature :: bytes
  hk_op_cert_signature :: bytes
  hk_header_body_bytes :: bytes

record HeaderInput =
  hi_slot :: SlotNo
  hi_block_no :: BlockNo
  hi_prev_hash :: Hash32
  hi_body_hash :: Hash32
  hi_issuer_pool :: Hash28
  hi_op_cert_kes_period :: u64
  hi_op_cert_counter :: u64
  hi_vrf_vk :: VrfVerificationKey
  hi_vrf :: HeaderVrf
  hi_kes :: "HeaderKes option"

record ValidatedHeaderSummary =
  vh_slot :: SlotNo
  vh_block_no :: BlockNo
  vh_body_hash :: Hash32
  vh_issuer_pool :: Hash28
  vh_op_cert_counter :: u64
  vh_vrf_leader_output :: VrfOutput

section \<open>Properties of the era tags\<close>

lemma era_try_from_as_u8: "era_try_from (era_as_u8 era) = Ok era"
  by (cases era) (simp_all add: era_try_from_def)

lemma era_try_from_Ok: "era_try_from t = Ok era \<longleftrightarrow> t = era_as_u8 era"
  by (cases era) (auto simp: era_try_from_def split: if_splits)

lemma era_try_from_Err: "era_try_from tag = Err e \<longleftrightarrow> e = UnknownEraTag tag \<and> 8 \<le> tag"
proof -
  have "8 \<le> tag \<longleftrightarrow>
    tag \<noteq> 0 \<and> tag \<noteq> 1 \<and> tag \<noteq> 2 \<and> tag \<noteq> 3 \<and> tag \<noteq> 4 \<and> tag \<noteq> 5 \<and> tag \<noteq> 6 \<and> tag \<noteq> 7"
    by unat_arith
  then show ?thesis
    by (auto simp: era_try_from_def)
qed

end
