(* ===== verification/Era_Schedule.thy ===== *)
theory Era_Schedule
  imports Consensus_Types
begin

text \<open>
  The hard-fork schedule of \<^verbatim>\<open>ade_core/src/consensus/era_schedule.rs\<close>: its constructor,
  slot to era and epoch (\<open>locate\<close>), slot to time (\<open>slot_to_time_ms\<close>,
  \<open>slot_start_time_ms\<close>), time to slot (\<open>slot_at\<close>), the forecast horizon and the
  extension of the schedule to later epochs.

  A \<^verbatim>\<open>for\<close> loop over the eras is a recursive walk over the rest of the list that
  carries the loop's index and the segment start time it accumulates. The lemmas show
  that the walks compute one geometry: a slot's start time and the slot of an instant
  are inverse to each other, the two slot-to-time routines agree, and extending a
  schedule changes no epoch it already answers for.
\<close>

section \<open>Data\<close>

record EraSummary =
  es_era :: CardanoEra
  es_start_slot :: SlotNo
  es_start_epoch :: EpochNo
  es_slot_length_ms :: u32
  es_epoch_length_slots :: u32
  es_safe_zone_slots :: u32
  es_randomness_stabilisation_window_slots :: "u32 option"

record EraSchedule =
  sch_anchor :: Hash32
  sch_system_start_unix_ms :: u64
  sch_eras :: "EraSummary list"

record EraLocation =
  loc_era_index :: u8
  loc_era :: CardanoEra
  loc_epoch :: EpochNo
  loc_relative_slot_in_epoch :: u32

datatype SlotDerivationError =
    BeforeSystemStart u64 u64
  | EmptySchedule
  | ScheduleDoesNotCoverSystemStart u64
  | ZeroSlotLength u8
  | Overflow

abbreviation u64_from :: "u32 \<Rightarrow> u64" where "u64_from \<equiv> ucast"

section \<open>The randomness stabilisation window\<close>

definition praos_rsw_slots :: "u64 \<Rightarrow> u64 \<Rightarrow> u64 \<Rightarrow> u32 option" where
  "praos_rsw_slots security_param asc_numer asc_denom =
     (if asc_numer = 0 then None
      else case checked_mul security_param 4 of
        None \<Rightarrow> None
      | Some k4 \<Rightarrow>
          (case checked_mul k4 asc_denom of
            None \<Rightarrow> None
          | Some num \<Rightarrow>
              (let w = div_ceil num asc_numer
               in if unat w < 2 ^ 32 then Some (ucast w) else None)))"

section \<open>Construction\<close>

fun check_era_geometry :: "nat \<Rightarrow> EraSummary list \<Rightarrow> (unit, HFCError) result" where
  "check_era_geometry idx [] = Ok ()"
| "check_era_geometry idx (era # rest) =
     (if es_slot_length_ms era = 0 then Err (HFCError.ZeroSlotLength (word_of_nat idx))
      else if es_epoch_length_slots era = 0 then Err (ZeroEpochLength (word_of_nat idx))
      else check_era_geometry (Suc idx) rest)"

fun check_era_monotone :: "EraSummary list \<Rightarrow> (unit, HFCError) result" where
  "check_era_monotone (prev # next # rest) =
     (if es_start_slot next \<le> es_start_slot prev
      then Err (NonMonotonicEras (es_start_slot prev) (es_start_slot next))
      else check_era_monotone (next # rest))"
| "check_era_monotone _ = Ok ()"

definition EraSchedule_new ::
  "Hash32 \<Rightarrow> u64 \<Rightarrow> EraSummary list \<Rightarrow> (EraSchedule, HFCError) result" where
  "EraSchedule_new anchor system_start eras =
     (if eras = [] then Err EmptyEraList
      else rbind (check_era_geometry 0 eras) (\<lambda>_.
           rbind (check_era_monotone eras) (\<lambda>_.
           Ok \<lparr>sch_anchor = anchor, sch_system_start_unix_ms = system_start, sch_eras = eras\<rparr>)))"

section \<open>Time to slot and slot to time\<close>

text \<open>
  The start time of the next segment: \<open>t + (next_start - start) * slot_length\<close>, every
  step checked. \<open>slot_at\<close> and \<open>slot_start_time_ms\<close> both contain this expression.
\<close>

definition next_segment_ms ::
  "EraSummary \<Rightarrow> EraSummary \<Rightarrow> u64 \<Rightarrow> (u64, SlotDerivationError) result" where
  "next_segment_ms era next seg_start_ms =
     rbind (ok_or Overflow (checked_sub (es_start_slot next) (es_start_slot era))) (\<lambda>span_slots.
     rbind (ok_or Overflow (checked_mul span_slots (u64_from (es_slot_length_ms era)))) (\<lambda>span_ms.
     ok_or Overflow (checked_add seg_start_ms span_ms)))"

definition slot_in_segment :: "EraSummary \<Rightarrow> u64 \<Rightarrow> u64 \<Rightarrow> (SlotNo, SlotDerivationError) result" where
  "slot_in_segment era seg_start_ms captured_ms =
     rbind (ok_or Overflow (checked_sub captured_ms seg_start_ms)) (\<lambda>elapsed_ms.
     ok_or Overflow (checked_add (es_start_slot era)
       (elapsed_ms div u64_from (es_slot_length_ms era))))"

fun slot_at_walk :: "nat \<Rightarrow> EraSummary list \<Rightarrow> u64 \<Rightarrow> u64 \<Rightarrow> (SlotNo, SlotDerivationError) result" where
  "slot_at_walk i [] seg_start_ms captured_ms = Err EmptySchedule"
| "slot_at_walk i (era # rest) seg_start_ms captured_ms =
     (if es_slot_length_ms era = 0 then Err (SlotDerivationError.ZeroSlotLength (word_of_nat i))
      else case rest of
        [] \<Rightarrow> slot_in_segment era seg_start_ms captured_ms
      | next # _ \<Rightarrow>
          rbind (next_segment_ms era next seg_start_ms) (\<lambda>next_ms.
            if captured_ms < next_ms then slot_in_segment era seg_start_ms captured_ms
            else slot_at_walk (Suc i) rest next_ms captured_ms))"

definition slot_at :: "EraSchedule \<Rightarrow> u64 \<Rightarrow> (SlotNo, SlotDerivationError) result" where
  "slot_at schedule captured_ms =
     (case sch_eras schedule of
        [] \<Rightarrow> Err EmptySchedule
      | first # _ \<Rightarrow>
          (if es_start_slot first \<noteq> 0
           then Err (ScheduleDoesNotCoverSystemStart (es_start_slot first))
           else if captured_ms < sch_system_start_unix_ms schedule
           then Err (BeforeSystemStart captured_ms (sch_system_start_unix_ms schedule))
           else slot_at_walk 0 (sch_eras schedule) (sch_system_start_unix_ms schedule) captured_ms))"

definition start_in_segment :: "EraSummary \<Rightarrow> u64 \<Rightarrow> SlotNo \<Rightarrow> (u64, SlotDerivationError) result" where
  "start_in_segment era seg_start_ms slot =
     rbind (ok_or Overflow (checked_sub slot (es_start_slot era))) (\<lambda>offset.
     rbind (ok_or Overflow (checked_mul offset (u64_from (es_slot_length_ms era)))) (\<lambda>ms.
     ok_or Overflow (checked_add seg_start_ms ms)))"

fun slot_start_walk :: "nat \<Rightarrow> EraSummary list \<Rightarrow> u64 \<Rightarrow> SlotNo \<Rightarrow> (u64, SlotDerivationError) result" where
  "slot_start_walk i [] seg_start_ms slot = Err EmptySchedule"
| "slot_start_walk i (era # rest) seg_start_ms slot =
     (if es_slot_length_ms era = 0 then Err (SlotDerivationError.ZeroSlotLength (word_of_nat i))
      else case rest of
        [] \<Rightarrow> start_in_segment era seg_start_ms slot
      | next # _ \<Rightarrow>
          if slot < es_start_slot next then start_in_segment era seg_start_ms slot
          else rbind (next_segment_ms era next seg_start_ms) (\<lambda>next_ms.
               slot_start_walk (Suc i) rest next_ms slot))"

definition slot_start_time_ms :: "EraSchedule \<Rightarrow> SlotNo \<Rightarrow> (u64, SlotDerivationError) result" where
  "slot_start_time_ms schedule slot =
     (case sch_eras schedule of
        [] \<Rightarrow> Err EmptySchedule
      | first # _ \<Rightarrow>
          (if es_start_slot first \<noteq> 0
           then Err (ScheduleDoesNotCoverSystemStart (es_start_slot first))
           else slot_start_walk 0 (sch_eras schedule) (sch_system_start_unix_ms schedule) slot))"

section \<open>Slot to era and epoch\<close>

fun locate_scan :: "SlotNo \<Rightarrow> nat \<Rightarrow> EraSummary list \<Rightarrow> nat option" where
  "locate_scan slot idx (cur # next # rest) =
     (if es_start_slot cur \<le> slot \<and> slot < es_start_slot next then Some idx
      else locate_scan slot (Suc idx) (next # rest))"
| "locate_scan slot idx _ = None"

definition locate_index :: "SlotNo \<Rightarrow> EraSummary list \<Rightarrow> nat" where
  "locate_index slot eras =
     (case locate_scan slot 0 eras of Some idx \<Rightarrow> idx | None \<Rightarrow> length eras - 1)"

text \<open>
  The epoch length is non-zero in every schedule \<open>EraSchedule_new\<close> returns, and the fields
  are private, so the division by it never panics. \<^verbatim>\<open>chosen_idx as u8\<close> and
  \<^verbatim>\<open>relative_slot_in_epoch as u32\<close> truncate.
\<close>

definition locate :: "EraSchedule \<Rightarrow> SlotNo \<Rightarrow> (EraLocation, HFCError) result" where
  "locate sch slot =
     (case sch_eras sch of
        [] \<Rightarrow> Err EmptyEraList
      | first # _ \<Rightarrow>
          (if slot < es_start_slot first
           then Err (SlotBeforeSystemStart slot (es_start_slot first))
           else
             (let chosen_idx = locate_index slot (sch_eras sch);
                  cur = sch_eras sch ! chosen_idx;
                  slots_into_era = slot - es_start_slot cur;
                  epoch_len = u64_from (es_epoch_length_slots cur);
                  era_epoch_offset = slots_into_era div epoch_len;
                  relative_slot_in_epoch = slots_into_era mod epoch_len
              in rbind (ok_or (SlotAfterLastEra slot (- 1))
                   (checked_add (es_start_epoch cur) era_epoch_offset)) (\<lambda>epoch_value.
                 Ok \<lparr>loc_era_index = word_of_nat chosen_idx,
                     loc_era = es_era cur,
                     loc_epoch = epoch_value,
                     loc_relative_slot_in_epoch = ucast relative_slot_in_epoch\<rparr>))))"

definition epoch_length_slots :: "EraSchedule \<Rightarrow> SlotNo \<Rightarrow> (u32, HFCError) result" where
  "epoch_length_slots sch slot =
     (case sch_eras sch of
        [] \<Rightarrow> Err EmptyEraList
      | first # _ \<Rightarrow>
          (if slot < es_start_slot first
           then Err (SlotBeforeSystemStart slot (es_start_slot first))
           else Ok (es_epoch_length_slots (sch_eras sch ! locate_index slot (sch_eras sch)))))"

text \<open>
  \<^verbatim>\<open>slot_to_time_ms\<close> sums the spans of the eras before the located one, which it indexes
  by the truncated \<^verbatim>\<open>u8\<close> of the location.
\<close>

fun accumulate_ms :: "EraSummary list \<Rightarrow> nat \<Rightarrow> u64 \<Rightarrow> (u64, SlotTimeError) result" where
  "accumulate_ms eras 0 acc_ms = Ok acc_ms"
| "accumulate_ms (prior # next # rest) (Suc n) acc_ms =
     rbind (ok_or SlotTimeError.Overflow (checked_sub (es_start_slot next) (es_start_slot prior))) (\<lambda>span.
     rbind (ok_or SlotTimeError.Overflow (checked_mul span (u64_from (es_slot_length_ms prior)))) (\<lambda>prior_ms.
     rbind (ok_or SlotTimeError.Overflow (checked_add acc_ms prior_ms)) (\<lambda>acc_ms'.
     accumulate_ms (next # rest) n acc_ms')))"
| "accumulate_ms _ (Suc n) acc_ms = Err SlotTimeError.Overflow"

definition slot_to_time_ms :: "EraSchedule \<Rightarrow> SlotNo \<Rightarrow> (u64, SlotTimeError) result" where
  "slot_to_time_ms sch slot =
     rbind (map_err SlotTimeError.HFC (locate sch slot)) (\<lambda>location.
     let era_index = unat (loc_era_index location) in
     rbind (accumulate_ms (sch_eras sch) era_index (sch_system_start_unix_ms sch)) (\<lambda>acc_ms.
     let cur = sch_eras sch ! era_index in
     rbind (ok_or SlotTimeError.Overflow (checked_sub slot (es_start_slot cur))) (\<lambda>slots_into_era.
     rbind (ok_or SlotTimeError.Overflow
              (checked_mul slots_into_era (u64_from (es_slot_length_ms cur)))) (\<lambda>era_ms.
     ok_or SlotTimeError.Overflow (checked_add acc_ms era_ms)))))"

section \<open>Forecast horizon and extension\<close>

definition check_forecast_horizon ::
  "EraSchedule \<Rightarrow> SlotNo \<Rightarrow> (unit, OutsideForecastRange) result" where
  "check_forecast_horizon sch slot =
     (if sch_eras sch = [] then Err \<lparr>ofr_requested = slot, ofr_horizon = 0\<rparr>
      else
        (let last_era = last (sch_eras sch);
             horizon = saturating_add (es_start_slot last_era) (u64_from (es_safe_zone_slots last_era))
         in if horizon < slot then Err \<lparr>ofr_requested = slot, ofr_horizon = horizon\<rparr> else Ok ()))"

text \<open>The summary \<open>extend_to_epoch\<close> appends for epoch \<open>e\<close>; plain arithmetic, so it wraps.\<close>

definition extension_era :: "EraSummary \<Rightarrow> EpochNo \<Rightarrow> EraSummary" where
  "extension_era seed e =
     \<lparr>es_era = es_era seed,
      es_start_slot = es_start_slot seed
        + (e - es_start_epoch seed) * u64_from (es_epoch_length_slots seed),
      es_start_epoch = e,
      es_slot_length_ms = es_slot_length_ms seed,
      es_epoch_length_slots = es_epoch_length_slots seed,
      es_safe_zone_slots = es_epoch_length_slots seed,
      es_randomness_stabilisation_window_slots = es_randomness_stabilisation_window_slots seed\<rparr>"

text \<open>\<open>eras[0]\<close> panics on an empty list, which \<open>EraSchedule_new\<close> never lets through.\<close>

definition extend_to_epoch :: "EraSchedule \<Rightarrow> EpochNo \<Rightarrow> EraSchedule" where
  "extend_to_epoch sch target =
     (let eras = sch_eras sch;
          seed = hd eras;
          last_epoch = es_start_epoch (last eras)
      in if target \<le> last_epoch then sch
         else case EraSchedule_new (sch_anchor sch) (sch_system_start_unix_ms sch)
                     (eras @ map (\<lambda>e. extension_era seed (word_of_nat e))
                        [unat last_epoch + 1 ..< unat target + 1]) of
                Ok extended \<Rightarrow> extended
              | Err _ \<Rightarrow> sch)"

definition extend_to_slot :: "EraSchedule \<Rightarrow> SlotNo \<Rightarrow> EraSchedule" where
  "extend_to_slot sch slot =
     (let seed = hd (sch_eras sch);
          start_slot = es_start_slot seed;
          epoch_len = u64_from (es_epoch_length_slots seed)
      in if epoch_len = 0 \<or> slot < start_slot then sch
         else extend_to_epoch sch (es_start_epoch seed + (slot - start_slot) div epoch_len))"

section \<open>Well-formed schedules\<close>

text \<open>What \<open>EraSchedule_new\<close> guarantees: positive geometry, strictly increasing start slots.\<close>

definition eras_wf :: "EraSummary list \<Rightarrow> bool" where
  "eras_wf eras \<longleftrightarrow> eras \<noteq> []
     \<and> (\<forall>e\<in>set eras. es_slot_length_ms e \<noteq> 0 \<and> es_epoch_length_slots e \<noteq> 0)
     \<and> sorted_wrt (\<lambda>a b. es_start_slot a < es_start_slot b) eras"

lemma check_era_geometry_Ok:
  "check_era_geometry i eras = Ok () \<longleftrightarrow>
     (\<forall>e\<in>set eras. es_slot_length_ms e \<noteq> 0 \<and> es_epoch_length_slots e \<noteq> 0)"
  by (induction eras arbitrary: i) auto

lemma check_era_monotone_Ok:
  "check_era_monotone eras = Ok () \<longleftrightarrow> sorted_wrt (\<lambda>a b. es_start_slot a < es_start_slot b) eras"
proof (induction eras rule: check_era_monotone.induct)
  case (1 prev nxt rest)
  then show ?case by (auto simp: not_le intro: less_trans)
qed auto

lemma EraSchedule_new_Ok [result_simps]:
  "EraSchedule_new anchor start eras = Ok sch \<longleftrightarrow>
     eras_wf eras \<and> sch = \<lparr>sch_anchor = anchor, sch_system_start_unix_ms = start, sch_eras = eras\<rparr>"
  by (auto simp: EraSchedule_new_def eras_wf_def result_simps check_era_geometry_Ok
      check_era_monotone_Ok)

lemma eras_wf_Cons:
  "eras_wf (e # next # rest) \<longleftrightarrow>
     es_slot_length_ms e \<noteq> 0 \<and> es_epoch_length_slots e \<noteq> 0
     \<and> es_start_slot e < es_start_slot next \<and> eras_wf (next # rest)"
  by (auto simp: eras_wf_def intro: less_trans)

lemma eras_wf_single:
  "eras_wf [e] \<longleftrightarrow> es_slot_length_ms e \<noteq> 0 \<and> es_epoch_length_slots e \<noteq> 0"
  by (simp add: eras_wf_def)

lemma eras_wf_last_ge: "eras_wf (e # rest) \<Longrightarrow> es_start_slot e \<le> es_start_slot (last (e # rest))"
  by (cases rest rule: rev_cases) (auto simp: eras_wf_def)

text \<open>Induction over the eras of a well-formed schedule: one era, or an era before another.\<close>

lemma eras_wf_induct [consumes 1, case_names single step]:
  assumes "eras_wf eras"
    and "\<And>e. eras_wf [e] \<Longrightarrow> P [e]"
    and "\<And>e next rest. eras_wf (e # next # rest) \<Longrightarrow> eras_wf (next # rest) \<Longrightarrow> P (next # rest)
           \<Longrightarrow> P (e # next # rest)"
  shows "P eras"
  using assms(1)
proof (induction eras)
  case Nil
  then show ?case by (simp add: eras_wf_def)
next
  case (Cons e rest)
  then show ?case using assms(2,3) by (cases rest) (auto simp: eras_wf_Cons)
qed

section \<open>The located era\<close>

lemma locate_scan_Suc: "locate_scan slot (Suc i) eras = map_option Suc (locate_scan slot i eras)"
  by (induction slot i eras rule: locate_scan.induct) auto

lemma locate_index_single [simp]: "locate_index slot [e] = 0"
  by (simp add: locate_index_def)

lemma locate_index_Cons:
  assumes "es_start_slot e \<le> slot"
  shows "locate_index slot (e # next # rest) =
    (if slot < es_start_slot next then 0 else Suc (locate_index slot (next # rest)))"
  using assms by (auto simp: locate_index_def locate_scan_Suc split: option.splits)

lemma locate_index_less: "eras_wf eras \<Longrightarrow> es_start_slot (hd eras) \<le> slot \<Longrightarrow> locate_index slot eras < length eras"
  by (induction rule: eras_wf_induct) (auto simp: locate_index_Cons)

text \<open>The index selects the era whose slots contain the given one.\<close>

lemma locate_index_bounds:
  assumes "eras_wf eras" and "es_start_slot (hd eras) \<le> slot"
  shows "es_start_slot (eras ! locate_index slot eras) \<le> slot
    \<and> (\<forall>j. locate_index slot eras < j \<longrightarrow> j < length eras \<longrightarrow> slot < es_start_slot (eras ! j))"
  using assms
proof (induction rule: eras_wf_induct)
  case (single e)
  then show ?case by simp
next
  case (step e nxt rest)
  show ?case
  proof (cases "slot < es_start_slot nxt")
    case True
    have "slot < es_start_slot ((nxt # rest) ! j)" if "j < length (nxt # rest)" for j
    proof -
      have "es_start_slot nxt \<le> es_start_slot ((nxt # rest) ! j)"
        using step.hyps(2) that by (cases j) (auto simp: eras_wf_def intro: less_imp_le)
      with True show ?thesis by simp
    qed
    then have "slot < es_start_slot ((e # nxt # rest) ! j)" if "0 < j" "j < length (e # nxt # rest)" for j
      using that by (cases j) auto
    with True step.prems show ?thesis by (simp add: locate_index_Cons)
  next
    case False
    then have ih: "es_start_slot ((nxt # rest) ! locate_index slot (nxt # rest)) \<le> slot
      \<and> (\<forall>j. locate_index slot (nxt # rest) < j \<longrightarrow> j < length (nxt # rest)
            \<longrightarrow> slot < es_start_slot ((nxt # rest) ! j))"
      using step.IH by simp
    show ?thesis
    proof (intro conjI allI impI)
      show "es_start_slot ((e # nxt # rest) ! locate_index slot (e # nxt # rest)) \<le> slot"
        using False ih step.prems by (simp add: locate_index_Cons)
      fix j assume "locate_index slot (e # nxt # rest) < j" and "j < length (e # nxt # rest)"
      then show "slot < es_start_slot ((e # nxt # rest) ! j)"
        using False ih step.prems by (cases j) (auto simp: locate_index_Cons)
    qed
  qed
qed

section \<open>The geometry in natural numbers\<close>

abbreviation slot_ms :: "EraSummary \<Rightarrow> nat" where "slot_ms e \<equiv> unat (es_slot_length_ms e)"
abbreviation start_nat :: "EraSummary \<Rightarrow> nat" where "start_nat e \<equiv> unat (es_start_slot e)"

lemma next_segment_ms_Ok [result_simps]:
  "next_segment_ms e next seg = Ok n \<longleftrightarrow>
     start_nat e \<le> start_nat next
     \<and> unat seg + (start_nat next - start_nat e) * slot_ms e < 2 ^ 64
     \<and> unat n = unat seg + (start_nat next - start_nat e) * slot_ms e"
  by (auto simp: next_segment_ms_def checked_sub_def checked_mul_def checked_add_def
      word_le_nat_alt unat_sub word_unat_eq_iff unat_word_ariths(1,2))

lemma start_in_segment_Ok [result_simps]:
  "start_in_segment e seg slot = Ok t \<longleftrightarrow>
     start_nat e \<le> unat slot
     \<and> unat seg + (unat slot - start_nat e) * slot_ms e < 2 ^ 64
     \<and> unat t = unat seg + (unat slot - start_nat e) * slot_ms e"
proof -
  have "start_in_segment e seg slot = next_segment_ms e (e\<lparr>es_start_slot := slot\<rparr>) seg"
    by (simp add: start_in_segment_def next_segment_ms_def)
  then show ?thesis by (simp add: result_simps)
qed

lemma slot_in_segment_Ok [result_simps]:
  "slot_in_segment e seg t = Ok slot \<longleftrightarrow>
     unat seg \<le> unat t
     \<and> start_nat e + (unat t - unat seg) div slot_ms e < 2 ^ 64
     \<and> unat slot = start_nat e + (unat t - unat seg) div slot_ms e"
  by (auto simp: slot_in_segment_def checked_sub_def checked_add_def
      word_le_nat_alt unat_sub unat_word_div word_unat_eq_iff unat_word_ariths(1))

section \<open>Slot to time and back\<close>

text \<open>The start of a slot is in the segment, at or after the segment's start.\<close>

lemma slot_start_walk_ge:
  "slot_start_walk i eras seg slot = Ok t \<Longrightarrow> unat seg \<le> unat t"
proof (induction eras arbitrary: i seg)
  case (Cons e rest)
  then show ?case
    by (cases rest) (fastforce simp: result_simps split: if_splits)+
qed simp

text \<open>
  \<open>slot_at\<close> computes the end of the segment it stops in and can overflow there, where
  \<open>slot_start_time_ms\<close> does not; no overflow happens when the start time of the last era
  fits in 64 bits.
\<close>

lemma slot_at_walk_slot_start:
  assumes "eras_wf eras"
    and "es_start_slot (hd eras) \<le> slot"
    and "slot_start_walk j eras seg (es_start_slot (last eras)) = Ok t_last"
    and "slot_start_walk i eras seg slot = Ok t"
  shows "slot_at_walk k eras seg t = Ok slot"
  using assms
proof (induction arbitrary: i j k seg rule: eras_wf_induct)
  case (single e)
  then have t: "unat t = unat seg + (unat slot - start_nat e) * slot_ms e" "start_nat e \<le> unat slot"
    by (auto simp: result_simps eras_wf_single)
  then have "unat slot = start_nat e + (unat t - unat seg) div slot_ms e"
    using single by (simp add: eras_wf_single unat_eq_zero)
  moreover have "unat slot < 2 ^ 64" using unsigned_less [of slot, where 'a = nat] by simp
  ultimately show ?case using single t by (simp add: result_simps eras_wf_single)
next
  case (step e nxt rest)
  have len: "es_slot_length_ms e \<noteq> 0" and lt: "start_nat e < start_nat nxt"
    using step.hyps by (simp_all add: eras_wf_Cons word_less_nat_alt)
  have "\<not> es_start_slot (last (nxt # rest)) < es_start_slot nxt"
    using eras_wf_last_ge [OF step.hyps(2)] by simp
  then obtain n where n: "next_segment_ms e nxt seg = Ok n"
      and last: "slot_start_walk (Suc j) (nxt # rest) n (es_start_slot (last (nxt # rest))) = Ok t_last"
    using step.prems(2) len by (auto simp: rbind_eq_Ok split: if_splits)
  have un: "unat n = unat seg + (start_nat nxt - start_nat e) * slot_ms e"
    using n by (simp add: result_simps)
  show ?case
  proof (cases "slot < es_start_slot nxt")
    case True
    then have st: "start_in_segment e seg slot = Ok t" using step.prems(3) len by simp
    then have t: "start_nat e \<le> unat slot" "unat t = unat seg + (unat slot - start_nat e) * slot_ms e"
      by (simp_all add: result_simps)
    have "(unat slot - start_nat e) * slot_ms e < (start_nat nxt - start_nat e) * slot_ms e"
      using True t(1) len by (simp add: word_less_nat_alt diff_less_mono unat_gt_0)
    then have "t < n" using t un by (simp add: word_less_nat_alt)
    moreover have "slot_in_segment e seg t = Ok slot"
      using t len unsigned_less [of slot, where 'a = nat] by (simp add: result_simps unat_eq_zero)
    ultimately show ?thesis using len n by simp
  next
    case False
    then have w: "slot_start_walk (Suc i) (nxt # rest) n slot = Ok t"
      using step.prems(3) len n by simp
    then have "\<not> t < n" using slot_start_walk_ge [of "Suc i" "nxt # rest" n slot t]
      by (simp add: word_less_nat_alt)
    moreover have "slot_at_walk (Suc k) (nxt # rest) n t = Ok slot"
      by (rule step.IH [OF _ last w]) (use False in simp)
    ultimately show ?thesis using len n by simp
  qed
qed

lemma slot_in_segment_floor:
  assumes "slot_in_segment e seg t = Ok slot" and "es_slot_length_ms e \<noteq> 0"
  shows "es_start_slot e \<le> slot \<and> (\<exists>b. start_in_segment e seg slot = Ok b
    \<and> unat b \<le> unat t \<and> unat t < unat b + slot_ms e)"
proof -
  let ?d = "unat t - unat seg" and ?L = "slot_ms e"
  have L: "0 < ?L" using assms(2) by (simp add: unat_gt_0)
  have slot: "unat seg \<le> unat t" "unat slot = start_nat e + ?d div ?L"
    using assms(1) by (simp_all add: result_simps)
  have le: "?d div ?L * ?L \<le> ?d" by simp
  have gt: "?d < ?d div ?L * ?L + ?L" using L by (simp add: dividend_less_div_times add.commute)
  have t: "unat t < 2 ^ 64" using unsigned_less [of t, where 'a = nat] by simp
  have lt: "unat seg + ?d div ?L * ?L < 2 ^ 64" using le slot(1) t by linarith
  then obtain b :: u64 where b: "unat b = unat seg + ?d div ?L * ?L"
    using unat_surj [where 'a = 64] by auto
  then have "start_in_segment e seg slot = Ok b"
    using slot lt by (simp add: start_in_segment_Ok)
  moreover have "unat b \<le> unat t" "unat t < unat b + ?L"
    using b le gt slot(1) by linarith+
  ultimately show ?thesis
    using slot by (auto simp: word_le_nat_alt)
qed

lemma slot_in_segment_before_next:
  assumes "slot_in_segment e seg t = Ok slot" and "next_segment_ms e next seg = Ok n" and "t < n"
  shows "slot < es_start_slot next"
proof -
  have t: "unat seg \<le> unat t" "unat slot = start_nat e + (unat t - unat seg) div slot_ms e"
    using assms(1) by (simp_all add: result_simps)
  have n: "start_nat e \<le> start_nat next" "unat n = unat seg + (start_nat next - start_nat e) * slot_ms e"
    using assms(2) by (simp_all add: result_simps)
  have "unat t - unat seg < (start_nat next - start_nat e) * slot_ms e"
    using assms(3) t(1) n(2) unfolding word_less_nat_alt by linarith
  then have "(unat t - unat seg) div slot_ms e < start_nat next - start_nat e"
    by (rule less_mult_imp_div_less)
  with t n show ?thesis by (simp add: word_less_nat_alt)
qed

text \<open>The slot of an instant starts at or before it, and lasts past it.\<close>

lemma slot_at_walk_floor:
  assumes "eras_wf eras" and "slot_at_walk i eras seg t = Ok slot" and "seg \<le> t"
  shows "es_start_slot (hd eras) \<le> slot \<and> (\<exists>b. slot_start_walk j eras seg slot = Ok b
    \<and> unat b \<le> unat t \<and> unat t < unat b + slot_ms (eras ! locate_index slot eras))"
  using assms
proof (induction arbitrary: i j seg rule: eras_wf_induct)
  case (single e)
  then show ?case using slot_in_segment_floor [of e seg t slot] by (simp add: eras_wf_single)
next
  case (step e nxt rest)
  have len: "es_slot_length_ms e \<noteq> 0" and lt: "start_nat e < start_nat nxt"
    using step.hyps by (simp_all add: eras_wf_Cons word_less_nat_alt)
  from step.prems(1) len obtain n where n: "next_segment_ms e nxt seg = Ok n"
    by (auto simp: rbind_eq_Ok)
  show ?case
  proof (cases "t < n")
    case True
    then have here: "slot_in_segment e seg t = Ok slot" using step.prems(1) len n by simp
    then have "slot < es_start_slot nxt" by (rule slot_in_segment_before_next [OF _ n True])
    then show ?thesis using slot_in_segment_floor [OF here len] len by (simp add: locate_index_Cons)
  next
    case False
    then have "slot_at_walk (Suc i) (nxt # rest) n t = Ok slot" using step.prems(1) len n by simp
    then have ih: "es_start_slot nxt \<le> slot \<and> (\<exists>b. slot_start_walk (Suc j) (nxt # rest) n slot = Ok b
      \<and> unat b \<le> unat t \<and> unat t < unat b + slot_ms ((nxt # rest) ! locate_index slot (nxt # rest)))"
      using step.IH [of "Suc i" n "Suc j"] False by simp
    then have "es_start_slot e \<le> slot" using lt by (simp add: word_le_nat_alt)
    with ih len n show ?thesis by (auto simp: locate_index_Cons)
  qed
qed

lemma slot_at_walk_mono:
  assumes "eras_wf eras" and "seg \<le> t" and "t \<le> t'"
    and "slot_at_walk i eras seg t = Ok slot" and "slot_at_walk j eras seg t' = Ok slot'"
  shows "slot \<le> slot'"
  using assms
proof (induction arbitrary: i j seg rule: eras_wf_induct)
  case (single e)
  then show ?case
    by (auto simp: result_simps eras_wf_single word_le_nat_alt intro: div_le_mono)
next
  case (step e nxt rest)
  have len: "es_slot_length_ms e \<noteq> 0" and lt: "start_nat e < start_nat nxt"
    using step.hyps by (simp_all add: eras_wf_Cons word_less_nat_alt)
  from step.prems(3) len obtain n where n: "next_segment_ms e nxt seg = Ok n"
    by (auto simp: rbind_eq_Ok)
  consider "t' < n" | "t < n" "n \<le> t'" | "n \<le> t" by fastforce
  then show ?case
  proof cases
    case 1
    with step.prems(2) have "t < n" by simp
    with 1 step.prems have "slot_in_segment e seg t = Ok slot" "slot_in_segment e seg t' = Ok slot'"
      using len n by simp_all
    with step.prems(2) show ?thesis by (auto simp: result_simps word_le_nat_alt intro: div_le_mono)
  next
    case 2
    then have "\<not> t' < n" by simp
    with 2 step.prems have here: "slot_in_segment e seg t = Ok slot"
      and later: "slot_at_walk (Suc j) (nxt # rest) n t' = Ok slot'"
      using len n by simp_all
    have "slot < es_start_slot nxt" by (rule slot_in_segment_before_next [OF here n 2(1)])
    moreover have "es_start_slot nxt \<le> slot'"
      using slot_at_walk_floor [OF step.hyps(2) later 2(2)] by simp
    ultimately show ?thesis by simp
  next
    case 3
    with step.prems(2) have "\<not> t < n" "\<not> t' < n" by simp_all
    with step.prems(3,4) have "slot_at_walk (Suc i) (nxt # rest) n t = Ok slot"
      "slot_at_walk (Suc j) (nxt # rest) n t' = Ok slot'"
      using len n by simp_all
    then show ?thesis by (rule step.IH [OF 3 step.prems(2)])
  qed
qed

section \<open>The two slot-to-time routines agree\<close>

lemma accumulate_ms_step:
  "accumulate_ms (prior # next # rest) (Suc n) acc =
     rbind (map_err (\<lambda>_. SlotTimeError.Overflow) (next_segment_ms prior next acc)) (\<lambda>acc'.
     accumulate_ms (next # rest) n acc')"
  by (auto simp: next_segment_ms_def rbind_def ok_or_def split: option.splits)

lemma start_in_segment_as_slot_time:
  "map_err (\<lambda>_. SlotTimeError.Overflow) (start_in_segment e seg slot) =
     rbind (ok_or SlotTimeError.Overflow (checked_sub slot (es_start_slot e))) (\<lambda>d.
     rbind (ok_or SlotTimeError.Overflow (checked_mul d (u64_from (es_slot_length_ms e)))) (\<lambda>ms.
     ok_or SlotTimeError.Overflow (checked_add seg ms)))"
  by (auto simp: start_in_segment_def rbind_def ok_or_def split: option.splits)

lemma accumulate_then_start:
  assumes "eras_wf eras" and "es_start_slot (hd eras) \<le> slot"
  shows "rbind (accumulate_ms eras (locate_index slot eras) seg) (\<lambda>acc.
      map_err (\<lambda>_. SlotTimeError.Overflow) (start_in_segment (eras ! locate_index slot eras) acc slot))
    = map_err (\<lambda>_. SlotTimeError.Overflow) (slot_start_walk i eras seg slot)"
  using assms
proof (induction arbitrary: i seg rule: eras_wf_induct)
  case (single e)
  then show ?case by (simp add: eras_wf_single)
next
  case (step e nxt rest)
  then have len: "es_slot_length_ms e \<noteq> 0" by (simp add: eras_wf_Cons)
  show ?case
  proof (cases "slot < es_start_slot nxt")
    case True
    then show ?thesis using len step.prems by (simp add: locate_index_Cons)
  next
    case False
    then have "es_start_slot nxt \<le> slot" by simp
    with False len step.prems step.IH show ?thesis
      by (cases "next_segment_ms e nxt seg") (simp_all add: locate_index_Cons accumulate_ms_step
          del: accumulate_ms.simps(2))
  qed
qed

lemma slot_to_time_ms_eq:
  assumes wf: "eras_wf (sch_eras sch)" and short: "length (sch_eras sch) \<le> 256"
    and first: "es_start_slot (hd (sch_eras sch)) = 0"
    and loc: "locate sch slot = Ok loc"
  shows "slot_to_time_ms sch slot = map_err (\<lambda>_. SlotTimeError.Overflow) (slot_start_time_ms sch slot)"
proof -
  let ?i = "locate_index slot (sch_eras sch)"
  have "?i < length (sch_eras sch)" using wf first by (intro locate_index_less) simp_all
  with short have "?i < 256" by simp
  moreover have "loc_era_index loc = word_of_nat ?i"
    using loc by (auto simp: locate_def Let_def result_simps split: list.splits if_splits)
  ultimately have i: "unat (loc_era_index loc) = ?i" by (simp add: unat_of_nat)
  have "slot_start_time_ms sch slot
      = slot_start_walk 0 (sch_eras sch) (sch_system_start_unix_ms sch) slot"
    using wf first by (cases "sch_eras sch") (auto simp: slot_start_time_ms_def eras_wf_def)
  then show ?thesis
    using accumulate_then_start [OF wf, of slot "sch_system_start_unix_ms sch" 0] first loc i
    by (simp add: slot_to_time_ms_def start_in_segment_as_slot_time Let_def)
qed

section \<open>Epoch arithmetic\<close>

lemma ucast_u64_u32: "unat (w :: u64) < 2 ^ 32 \<Longrightarrow> unat (ucast w :: u32) = unat w"
  by (simp add: unsigned_ucast_eq take_bit_nat_eq_self)

lemma locate_Ok:
  assumes "eras_wf (sch_eras sch)" and "locate sch slot = Ok loc"
  defines "e \<equiv> sch_eras sch ! locate_index slot (sch_eras sch)"
  shows "es_start_slot (hd (sch_eras sch)) \<le> slot"
    and "es_start_slot e \<le> slot"
    and "loc_era loc = es_era e"
    and "unat (loc_epoch loc) = unat (es_start_epoch e)
           + (unat slot - start_nat e) div unat (es_epoch_length_slots e)"
    and "unat (loc_relative_slot_in_epoch loc) =
           (unat slot - start_nat e) mod unat (es_epoch_length_slots e)"
proof -
  let ?i = "locate_index slot (sch_eras sch)"
  show hd: "es_start_slot (hd (sch_eras sch)) \<le> slot"
    using assms(2) by (auto simp: locate_def split: list.splits if_splits)
  then show le: "es_start_slot e \<le> slot"
    unfolding e_def using locate_index_bounds [OF assms(1)] by blast
  have "e \<in> set (sch_eras sch)"
    unfolding e_def using locate_index_less [OF assms(1) hd] by simp
  then have pos: "0 < unat (es_epoch_length_slots e)"
    using assms(1) by (auto simp: eras_wf_def unat_gt_0)
  have d: "unat (slot - es_start_slot e) = unat slot - start_nat e"
    using le by (simp add: unat_sub)
  have loc: "loc_era loc = es_era e"
      "unat (loc_epoch loc) = unat (es_start_epoch e)
         + unat ((slot - es_start_slot e) div u64_from (es_epoch_length_slots e))"
      "loc_relative_slot_in_epoch loc = ucast ((slot - es_start_slot e) mod u64_from (es_epoch_length_slots e))"
    using assms(2) by (auto simp: locate_def Let_def result_simps unat_simps e_def split: list.splits if_splits)
  show "loc_era loc = es_era e" by (rule loc)
  show "unat (loc_epoch loc) = unat (es_start_epoch e)
      + (unat slot - start_nat e) div unat (es_epoch_length_slots e)"
    using loc(2) by (simp add: unat_word_div d)
  have r: "unat ((slot - es_start_slot e) mod u64_from (es_epoch_length_slots e))
      = (unat slot - start_nat e) mod unat (es_epoch_length_slots e)"
    by (simp add: unat_word_mod d)
  have "(unat slot - start_nat e) mod unat (es_epoch_length_slots e) < 2 ^ 32"
    using pos unsigned_less [of "es_epoch_length_slots e", where 'a = nat]
    by (intro less_trans [OF mod_less_divisor]) simp_all
  then show "unat (loc_relative_slot_in_epoch loc) =
      (unat slot - start_nat e) mod unat (es_epoch_length_slots e)"
    by (simp add: loc(3) r ucast_u64_u32)
qed

text \<open>The part of a location that does not depend on how many summaries the schedule has.\<close>

definition loc_view :: "EraLocation \<Rightarrow> CardanoEra \<times> EpochNo \<times> u32" where
  "loc_view loc = (loc_era loc, loc_epoch loc, loc_relative_slot_in_epoch loc)"

lemma locate_view:
  assumes "eras_wf (sch_eras sch)" and "es_start_slot (hd (sch_eras sch)) \<le> slot"
  defines "e \<equiv> sch_eras sch ! locate_index slot (sch_eras sch)"
  defines "d \<equiv> unat slot - start_nat e" and "len \<equiv> unat (es_epoch_length_slots e)"
  shows "map_sum id loc_view (locate sch slot) =
    (if unat (es_start_epoch e) + d div len < 2 ^ 64
     then Ok (es_era e, word_of_nat (unat (es_start_epoch e) + d div len), word_of_nat (d mod len))
     else Err (SlotAfterLastEra slot (- 1)))"
proof -
  have "es_start_slot e \<le> slot"
    unfolding e_def using locate_index_bounds [OF assms(1,2)] by blast
  then have d: "unat (slot - es_start_slot e) = d"
    by (simp add: unat_sub d_def)
  have q: "(slot - es_start_slot e) div u64_from (es_epoch_length_slots e) = word_of_nat (d div len)"
    by (rule word_unat_eq_iff [THEN iffD2])
       (use unsigned_less [of "slot - es_start_slot e", where 'a = nat] in
         \<open>simp add: unat_word_div d len_def unat_of_nat le_less_trans [OF div_le_dividend]\<close>)
  have r: "(slot - es_start_slot e) mod u64_from (es_epoch_length_slots e) = word_of_nat (d mod len)"
    by (rule word_unat_eq_iff [THEN iffD2])
       (use unsigned_less [of "slot - es_start_slot e", where 'a = nat] in
         \<open>simp add: unat_word_mod d len_def unat_of_nat le_less_trans [OF mod_less_eq_dividend]\<close>)
  have less: "d div len < 2 ^ 64"
    using unsigned_less [of "slot - es_start_slot e", where 'a = nat] d
    by (simp add: le_less_trans [OF div_le_dividend])
  have cast: "(ucast (word_of_nat n :: u64) :: u32) = word_of_nat n" for n
    by (rule word_unat_eq_iff [THEN iffD2]) (simp add: unsigned_ucast_eq unsigned_of_nat take_bit_take_bit min_def)
  have "map_sum id loc_view (locate sch slot) = map_sum id loc_view
      (rbind (ok_or (SlotAfterLastEra slot (- 1)) (checked_add (es_start_epoch e)
          ((slot - es_start_slot e) div u64_from (es_epoch_length_slots e)))) (\<lambda>epoch.
        Ok \<lparr>loc_era_index = word_of_nat (locate_index slot (sch_eras sch)), loc_era = es_era e,
          loc_epoch = epoch, loc_relative_slot_in_epoch =
            ucast ((slot - es_start_slot e) mod u64_from (es_epoch_length_slots e))\<rparr>))"
    using assms(1,2) unfolding e_def
    by (cases "sch_eras sch") (auto simp: locate_def Let_def eras_wf_def)
  then show ?thesis
    using less by (simp add: q r cast loc_view_def checked_add_def unat_of_nat)
qed

section \<open>Extending a schedule\<close>

lemma extend_to_epoch_wf:
  "eras_wf (sch_eras sch) \<Longrightarrow> eras_wf (sch_eras (extend_to_epoch sch target))"
  by (auto simp: extend_to_epoch_def Let_def EraSchedule_new_Ok split: sum.splits)

text \<open>
  A schedule of one era is extended by summaries at consecutive multiples of the epoch
  length. If one of them wrapped around, the start slots would not increase, and
  \<open>EraSchedule_new\<close> would reject the list.
\<close>

definition extended_eras :: "EraSummary \<Rightarrow> nat \<Rightarrow> EraSummary list" where
  "extended_eras seed n =
     seed # map (\<lambda>e. extension_era seed (word_of_nat e))
       [unat (es_start_epoch seed) + 1 ..< unat (es_start_epoch seed) + n + 1]"

lemma length_extended_eras [simp]: "length (extended_eras seed n) = Suc n"
  by (simp add: extended_eras_def)

lemma extended_eras_nth:
  assumes "k \<le> n"
  shows "es_start_slot (extended_eras seed n ! k)
      = es_start_slot seed + word_of_nat k * u64_from (es_epoch_length_slots seed)"
    and "es_start_epoch (extended_eras seed n ! k) = es_start_epoch seed + word_of_nat k"
    and "es_era (extended_eras seed n ! k) = es_era seed"
    and "es_slot_length_ms (extended_eras seed n ! k) = es_slot_length_ms seed"
    and "es_epoch_length_slots (extended_eras seed n ! k) = es_epoch_length_slots seed"
    and "0 < k \<Longrightarrow> es_safe_zone_slots (extended_eras seed n ! k) = es_epoch_length_slots seed"
  using assms by (cases k; simp add: extended_eras_def extension_era_def del: upt_Suc)+

lemma extended_starts:
  assumes wf: "eras_wf (extended_eras seed n)" and "k \<le> n"
  shows "start_nat (extended_eras seed n ! k) = start_nat seed + k * unat (es_epoch_length_slots seed)"
  using assms(2)
proof (induction k)
  case 0
  then show ?case by (simp add: extended_eras_nth)
next
  case (Suc k)
  let ?es = "extended_eras seed n" and ?L = "u64_from (es_epoch_length_slots seed)"
  have "es_start_slot (?es ! k) < es_start_slot (?es ! Suc k)"
    using wf Suc.prems by (auto simp: eras_wf_def sorted_wrt_iff_nth_less)
  moreover have step: "es_start_slot (?es ! Suc k) = es_start_slot (?es ! k) + ?L"
    using Suc.prems by (simp add: extended_eras_nth algebra_simps)
  ultimately have "unat (es_start_slot (?es ! k) + ?L) = start_nat (?es ! k) + unat ?L"
    by (intro unat_plus_simple [THEN iffD1]) simp
  then show ?case using Suc step by simp
qed

lemma extended_epochs:
  assumes "unat (es_start_epoch seed) + n < 2 ^ 64" and "k \<le> n"
  shows "unat (es_start_epoch (extended_eras seed n ! k)) = unat (es_start_epoch seed) + k"
  using assms by (simp add: extended_eras_nth unat_word_ariths(1) unat_of_nat)

lemma extend_to_epoch_single:
  assumes wf: "eras_wf (sch_eras sch)" and single: "sch_eras sch = [seed]"
  obtains "extend_to_epoch sch target = sch"
  | n where "unat (es_start_epoch seed) + n = unat target" and "0 < n"
      and "extend_to_epoch sch target = sch\<lparr>sch_eras := extended_eras seed n\<rparr>"
      and "eras_wf (extended_eras seed n)"
proof -
  let ?n = "unat target - unat (es_start_epoch seed)"
  show ?thesis
  proof (cases "target \<le> es_start_epoch seed \<or> \<not> eras_wf (extended_eras seed ?n)")
    case True
    have "extend_to_epoch sch target = sch"
    proof (cases "target \<le> es_start_epoch seed")
      case False
      with True have "\<not> eras_wf (extended_eras seed ?n)" by simp
      moreover have "[unat (es_start_epoch seed) + 1 ..< unat target + 1] =
          [unat (es_start_epoch seed) + 1 ..< unat (es_start_epoch seed) + ?n + 1]"
        using False by (simp add: word_le_nat_alt not_le)
      ultimately show ?thesis
        by (auto simp: extend_to_epoch_def Let_def single EraSchedule_new_Ok extended_eras_def
            simp del: upt_Suc split: sum.splits)
    qed (simp add: extend_to_epoch_def Let_def single)
    then show ?thesis by (rule that(1))
  next
    case False
    then have n: "unat (es_start_epoch seed) + ?n = unat target" "0 < ?n"
      by (simp_all add: word_le_nat_alt not_le)
    then have list: "[seed] @ map (\<lambda>e. extension_era seed (word_of_nat e))
        [unat (es_start_epoch seed) + 1 ..< unat target + 1] = extended_eras seed ?n"
      by (simp add: extended_eras_def del: upt_Suc)
    have "EraSchedule_new (sch_anchor sch) (sch_system_start_unix_ms sch) (extended_eras seed ?n)
        = Ok (sch\<lparr>sch_eras := extended_eras seed ?n\<rparr>)"
      using False by (simp add: EraSchedule_new_Ok)
    with False list have "extend_to_epoch sch target = sch\<lparr>sch_eras := extended_eras seed ?n\<rparr>"
      by (simp add: extend_to_epoch_def Let_def single del: upt_Suc)
    with n False show ?thesis by (intro that(2) [of ?n]) simp_all
  qed
qed

lemma extend_to_epoch_reaches:
  assumes "sch_eras sch = [seed]" and "unat target = unat (es_start_epoch seed) + n"
    and "eras_wf (extended_eras seed n)" and "0 < n"
  shows "extend_to_epoch sch target = sch\<lparr>sch_eras := extended_eras seed n\<rparr>"
proof -
  have "EraSchedule_new (sch_anchor sch) (sch_system_start_unix_ms sch) (extended_eras seed n)
      = Ok (sch\<lparr>sch_eras := extended_eras seed n\<rparr>)"
    using assms(3) by (simp add: EraSchedule_new_Ok)
  then show ?thesis
    using assms(1,2,4)
    by (simp add: extend_to_epoch_def Let_def word_le_nat_alt extended_eras_def del: upt_Suc)
qed

lemma extended_eras_ne [simp]: "extended_eras seed n \<noteq> []"
  by (simp add: extended_eras_def)

lemma extended_locate_view:
  assumes wf: "eras_wf (extended_eras seed n)" and single: "sch_eras sch = [seed]"
    and n: "unat (es_start_epoch seed) + n < 2 ^ 64"
  shows "map_sum id loc_view (locate (sch\<lparr>sch_eras := extended_eras seed n\<rparr>) slot)
    = map_sum id loc_view (locate sch slot)"
proof (cases "es_start_slot seed \<le> slot")
  case False
  then have "slot < es_start_slot seed" by simp
  then show ?thesis by (simp add: locate_def single extended_eras_def del: upt_Suc)
next
  case True
  let ?es = "extended_eras seed n" and ?L = "unat (es_epoch_length_slots seed)"
  define i where "i = locate_index slot ?es"
  have hd: "es_start_slot (hd ?es) \<le> slot" using True by (simp add: extended_eras_def)
  have i: "i \<le> n" using locate_index_less [OF wf hd] by (simp add: i_def)
  have "es_start_slot (?es ! i) \<le> slot"
    using locate_index_bounds [OF wf hd] by (simp add: i_def)
  then have le: "start_nat seed + i * ?L \<le> unat slot"
    using extended_starts [OF wf i] by (simp add: word_le_nat_alt)
  have geometry: "es_epoch_length_slots (?es ! i) = es_epoch_length_slots seed"
      "es_era (?es ! i) = es_era seed"
      "unat (es_start_epoch (?es ! i)) = unat (es_start_epoch seed) + i"
      "start_nat (?es ! i) = start_nat seed + i * ?L"
    using extended_eras_nth [OF i] extended_epochs [OF n i] extended_starts [OF wf i] by simp_all
  have wf1: "eras_wf [seed]" using wf by (auto simp: eras_wf_def extended_eras_def)
  then have L: "0 < ?L" by (simp add: eras_wf_single unat_gt_0)
  define d where "d = unat slot - start_nat seed"
  have d: "unat slot - (start_nat seed + i * ?L) = d - i * ?L" and dle: "i * ?L \<le> d"
    using le by (simp_all add: d_def)
  have q: "i + (d - i * ?L) div ?L = d div ?L" and r: "(d - i * ?L) mod ?L = d mod ?L"
    using dle L by (auto simp: le_iff_add)
  show ?thesis
    using locate_view [of "sch\<lparr>sch_eras := ?es\<rparr>" slot] locate_view [of sch slot]
      wf wf1 hd True single
    by (simp add: i_def [symmetric] geometry d d_def [symmetric] r q [symmetric] add.assoc)
qed

lemma extend_to_slot_single:
  assumes "eras_wf (sch_eras sch)" and "sch_eras sch = [seed]"
  shows "extend_to_slot sch slot = (if slot < es_start_slot seed then sch
    else extend_to_epoch sch (es_start_epoch seed
      + (slot - es_start_slot seed) div u64_from (es_epoch_length_slots seed)))"
proof -
  have "u64_from (es_epoch_length_slots seed) \<noteq> 0"
    using assms by (simp add: eras_wf_single word_unat_eq_iff)
  then show ?thesis using assms(2) by (simp add: extend_to_slot_def Let_def)
qed

lemma extended_eras_wf:
  assumes "eras_wf [seed]"
    and "start_nat seed + n * unat (es_epoch_length_slots seed) < 2 ^ 64"
  shows "eras_wf (extended_eras seed n)"
proof -
  let ?es = "extended_eras seed n" and ?L = "unat (es_epoch_length_slots seed)"
  have L: "0 < ?L" using assms(1) by (simp add: eras_wf_single unat_gt_0)
  have start: "start_nat (?es ! k) = start_nat seed + k * ?L" if "k \<le> n" for k
  proof -
    have less: "start_nat seed + k * ?L < 2 ^ 64"
      using assms(2) that by (meson add_left_mono le_less_trans mult_le_mono1)
    moreover have "k * 1 \<le> k * ?L" using L by (intro mult_le_mono2) simp
    ultimately have "k < 2 ^ 64" "k * ?L < 2 ^ 64" by linarith+
    with less show ?thesis
      using that by (simp add: extended_eras_nth unat_word_ariths(1,2) unat_of_nat)
  qed
  have "start_nat (?es ! j) < start_nat (?es ! k)" if "j < k" "k \<le> n" for j k
    using start [of j] start [of k] that L by simp
  then have "sorted_wrt (\<lambda>a b. es_start_slot a < es_start_slot b) ?es"
    by (auto simp: sorted_wrt_iff_nth_less word_less_nat_alt)
  moreover have "\<forall>e\<in>set ?es. es_slot_length_ms e \<noteq> 0 \<and> es_epoch_length_slots e \<noteq> 0"
    using assms(1) by (auto simp: in_set_conv_nth extended_eras_nth eras_wf_single)
  ultimately show ?thesis by (auto simp: eras_wf_def extended_eras_def)
qed

lemma horizon_covers:
  "eras \<noteq> [] \<Longrightarrow> unat slot \<le> start_nat (last eras) + unat (es_safe_zone_slots (last eras)) \<Longrightarrow>
    check_forecast_horizon (sch\<lparr>sch_eras := eras\<rparr>) slot = Ok ()"
  using unsigned_less [of slot, where 'a = nat]
  by (auto simp: check_forecast_horizon_def Let_def word_less_nat_alt unat_simps)

section \<open>Properties\<close>

lemma EraSchedule_new_wf: "EraSchedule_new anchor start eras = Ok sch \<Longrightarrow> eras_wf (sch_eras sch)"
  by (auto simp: result_simps)

lemma slot_start_time_ms_Ok:
  "slot_start_time_ms sch slot = Ok t \<longleftrightarrow> sch_eras sch \<noteq> [] \<and> es_start_slot (hd (sch_eras sch)) = 0
     \<and> slot_start_walk 0 (sch_eras sch) (sch_system_start_unix_ms sch) slot = Ok t"
  by (cases "sch_eras sch") (auto simp: slot_start_time_ms_def)

lemma slot_at_Ok:
  "slot_at sch t = Ok slot \<longleftrightarrow> sch_eras sch \<noteq> [] \<and> es_start_slot (hd (sch_eras sch)) = 0
     \<and> sch_system_start_unix_ms sch \<le> t
     \<and> slot_at_walk 0 (sch_eras sch) (sch_system_start_unix_ms sch) t = Ok slot"
  by (cases "sch_eras sch") (auto simp: slot_at_def not_less)

text \<open>A two-era schedule for the concrete instances below: 20 s slots, then 1 s slots from slot 10.\<close>

definition sample_eras :: "EraSummary list" where
  "sample_eras =
    [\<lparr>es_era = ByronRegular, es_start_slot = 0, es_start_epoch = 0, es_slot_length_ms = 20000,
      es_epoch_length_slots = 5, es_safe_zone_slots = 4, es_randomness_stabilisation_window_slots = None\<rparr>,
     \<lparr>es_era = Shelley, es_start_slot = 10, es_start_epoch = 2, es_slot_length_ms = 1000,
      es_epoch_length_slots = 20, es_safe_zone_slots = 8, es_randomness_stabilisation_window_slots = None\<rparr>]"

definition sample_schedule :: EraSchedule where
  "sample_schedule = \<lparr>sch_anchor = [], sch_system_start_unix_ms = 1000, sch_eras = sample_eras\<rparr>"

lemma sample_schedule_new: "EraSchedule_new [] 1000 sample_eras = Ok sample_schedule"
  by (simp add: EraSchedule_new_def sample_schedule_def sample_eras_def)

definition seed_schedule :: EraSchedule where
  "seed_schedule = \<lparr>sch_anchor = [], sch_system_start_unix_ms = 0, sch_eras =
    [\<lparr>es_era = Conway, es_start_slot = 100, es_start_epoch = 7, es_slot_length_ms = 1000,
      es_epoch_length_slots = 50, es_safe_zone_slots = 10, es_randomness_stabilisation_window_slots = None\<rparr>]\<rparr>"

lemma seed_schedule_new: "EraSchedule_new [] 0 (sch_eras seed_schedule) = Ok seed_schedule"
  by (simp add: EraSchedule_new_def seed_schedule_def)

lemmas sample_defs = sample_schedule_def sample_eras_def seed_schedule_def slot_start_time_ms_def slot_at_def
  start_in_segment_def next_segment_ms_def slot_in_segment_def checked_add_def checked_sub_def checked_mul_def

text \<open>
  C4. The start time of a slot leads back to that slot: in every schedule the constructor
  accepts, if \<open>slot_start_time_ms\<close> answers \<open>t\<close> for a slot and the last era starts at a
  representable time, then \<open>slot_at\<close> maps \<open>t\<close> to that slot.
\<close>

theorem slot_at_slot_start_time:
  assumes "EraSchedule_new anchor start eras = Ok sch"
    and "slot_start_time_ms sch (es_start_slot (last (sch_eras sch))) = Ok t_last"
    and "slot_start_time_ms sch slot = Ok t"
  shows "slot_at sch t = Ok slot"
proof -
  note wf = EraSchedule_new_wf [OF assms(1)]
  have walk: "slot_start_walk 0 (sch_eras sch) (sch_system_start_unix_ms sch) slot = Ok t"
    "es_start_slot (hd (sch_eras sch)) = 0" "sch_eras sch \<noteq> []"
    using assms(3) by (simp_all add: slot_start_time_ms_Ok)
  then have "slot_at_walk 0 (sch_eras sch) (sch_system_start_unix_ms sch) t = Ok slot"
    using assms(2) wf by (intro slot_at_walk_slot_start [of _ _ 0 _ t_last 0]) (auto simp: slot_start_time_ms_Ok)
  with walk slot_start_walk_ge [OF walk(1)] show ?thesis
    by (simp add: slot_at_Ok word_le_nat_alt)
qed

theorem slot_at_slot_start_time_witness:
  "slot_start_time_ms sample_schedule 13 = Ok 204000 \<and> slot_at sample_schedule 204000 = Ok 13"
proof -
  have last: "slot_start_time_ms sample_schedule (es_start_slot (last (sch_eras sample_schedule))) = Ok 201000"
    by (simp add: sample_defs)
  have t: "slot_start_time_ms sample_schedule 13 = Ok 204000"
    by (simp add: sample_defs)
  show ?thesis using slot_at_slot_start_time [OF sample_schedule_new last t] t by simp
qed

text \<open>
  The slot of an instant is the slot that contains it: when \<open>slot_at\<close> answers a slot for
  \<open>t\<close>, that slot has a start time, at or before \<open>t\<close>, and \<open>t\<close> is before the start plus the
  slot length of the era the slot lies in.
\<close>

theorem slot_at_contains_instant:
  assumes "EraSchedule_new anchor start eras = Ok sch" and "slot_at sch t = Ok slot"
  shows "\<exists>b. slot_start_time_ms sch slot = Ok b \<and> unat b \<le> unat t
    \<and> unat t < unat b + unat (es_slot_length_ms (sch_eras sch ! locate_index slot (sch_eras sch)))"
proof -
  have at: "sch_system_start_unix_ms sch \<le> t"
      "slot_at_walk 0 (sch_eras sch) (sch_system_start_unix_ms sch) t = Ok slot"
      "es_start_slot (hd (sch_eras sch)) = 0" "sch_eras sch \<noteq> []"
    using assms(2) by (simp_all add: slot_at_Ok)
  show ?thesis
    using slot_at_walk_floor [OF EraSchedule_new_wf [OF assms(1)] at(2,1), of 0] at(3,4)
    by (auto simp: slot_start_time_ms_Ok)
qed

theorem slot_at_contains_instant_witness:
  "\<exists>b. slot_start_time_ms sample_schedule 9 = Ok b \<and> unat b \<le> 199999 \<and> 199999 < unat b + 20000"
proof -
  have at: "slot_at sample_schedule 199999 = Ok 9" by (simp add: sample_defs)
  have i: "locate_index 9 (sch_eras sample_schedule) = 0"
    by (simp add: sample_defs locate_index_def)
  show ?thesis using slot_at_contains_instant [OF sample_schedule_new at] i
    by (simp add: sample_schedule_def sample_eras_def)
qed

text \<open>
  Time to slot is monotone: a later instant is never in an earlier slot, also across
  the boundaries where the slot length changes.
\<close>

theorem slot_at_monotone:
  assumes "EraSchedule_new anchor start eras = Ok sch"
    and "slot_at sch t = Ok slot" and "slot_at sch t' = Ok slot'" and "t \<le> t'"
  shows "slot \<le> slot'"
  using assms(2,3) EraSchedule_new_wf [OF assms(1)] assms(4)
  by (auto simp: slot_at_Ok intro: slot_at_walk_mono)

theorem slot_at_monotone_witness:
  "slot_at sample_schedule 190000 = Ok 9 \<and> slot_at sample_schedule 202500 = Ok 11 \<and> (9 :: u64) \<le> 11"
proof -
  have a: "slot_at sample_schedule 190000 = Ok 9" by (simp add: sample_defs)
  have b: "slot_at sample_schedule 202500 = Ok 11" by (simp add: sample_defs)
  show ?thesis using slot_at_monotone [OF sample_schedule_new a b] a b by simp
qed

text \<open>
  The two slot-to-time routines are one geometry: for a schedule of at most 256 eras that
  starts at slot 0 and a slot that \<open>locate\<close> answers, the method \<open>slot_to_time_ms\<close> (which
  sums spans up to the located era) and the function \<open>slot_start_time_ms\<close> (which walks the
  segments) give the same time, and both overflow together.
\<close>

theorem slot_to_time_ms_agrees:
  assumes "EraSchedule_new anchor start eras = Ok sch" and "length (sch_eras sch) \<le> 256"
    and "es_start_slot (hd (sch_eras sch)) = 0" and "locate sch slot = Ok loc"
  shows "slot_to_time_ms sch slot = map_err (\<lambda>_. SlotTimeError.Overflow) (slot_start_time_ms sch slot)"
  by (rule slot_to_time_ms_eq [OF EraSchedule_new_wf [OF assms(1)] assms(2-4)])

theorem slot_to_time_ms_agrees_witness: "slot_to_time_ms sample_schedule 13 = Ok 204000"
proof -
  have short: "length (sch_eras sample_schedule) \<le> 256" "es_start_slot (hd (sch_eras sample_schedule)) = 0"
    by (simp_all add: sample_defs)
  have loc: "locate sample_schedule 13 = Ok \<lparr>loc_era_index = 1, loc_era = Shelley, loc_epoch = 2,
      loc_relative_slot_in_epoch = 3\<rparr>"
    by (simp add: locate_def locate_index_def sample_defs)
  have "slot_start_time_ms sample_schedule 13 = Ok 204000" by (simp add: sample_defs)
  then show ?thesis using slot_to_time_ms_agrees [OF sample_schedule_new short loc] by simp
qed

text \<open>
  \<open>locate\<close> decomposes a slot: the era it names contains the slot, and era start, whole
  epochs and the relative slot add up to the slot, with the relative slot below the era's
  epoch length. The cast of the relative slot to 32 bits loses nothing.
\<close>

theorem locate_decomposes:
  assumes "EraSchedule_new anchor start eras = Ok sch" and "locate sch slot = Ok loc"
  shows "\<exists>e\<in>set (sch_eras sch). es_start_slot e \<le> slot \<and> loc_era loc = es_era e
    \<and> (\<forall>e'\<in>set (sch_eras sch). es_start_slot e < es_start_slot e' \<longrightarrow> slot < es_start_slot e')
    \<and> unat (es_start_epoch e) \<le> unat (loc_epoch loc)
    \<and> unat slot = unat (es_start_slot e)
        + (unat (loc_epoch loc) - unat (es_start_epoch e)) * unat (es_epoch_length_slots e)
        + unat (loc_relative_slot_in_epoch loc)
    \<and> loc_relative_slot_in_epoch loc < es_epoch_length_slots e"
proof -
  note wf = EraSchedule_new_wf [OF assms(1)]
  let ?es = "sch_eras sch" and ?i = "locate_index slot (sch_eras sch)"
  note loc = locate_Ok [OF wf assms(2)]
  have i: "?i < length ?es" by (rule locate_index_less [OF wf loc(1)])
  then have e: "?es ! ?i \<in> set ?es" by simp
  then have L: "0 < unat (es_epoch_length_slots (?es ! ?i))"
    using wf by (auto simp: eras_wf_def unat_gt_0)
  have later: "slot < es_start_slot e'"
    if e': "e' \<in> set ?es" and lt: "es_start_slot (?es ! ?i) < es_start_slot e'" for e'
  proof -
    obtain j where j: "j < length ?es" "e' = ?es ! j" using e' by (auto simp: in_set_conv_nth)
    have "?i < j"
    proof (rule ccontr)
      assume "\<not> ?i < j"
      then have "j = ?i \<or> es_start_slot (?es ! j) < es_start_slot (?es ! ?i)"
        using wf i by (auto simp: eras_wf_def sorted_wrt_iff_nth_less not_less le_less)
      with lt j show False by auto
    qed
    with locate_index_bounds [OF wf loc(1)] j show ?thesis by blast
  qed
  from e L loc later show ?thesis
    by (intro bexI [of _ "?es ! ?i"]) (auto simp: word_less_nat_alt word_le_nat_alt)
qed

theorem locate_decomposes_witness:
  "\<exists>e\<in>set (sch_eras sample_schedule). es_start_slot e \<le> 53 \<and> es_era e = Shelley
    \<and> unat (es_start_slot e) + (4 - unat (es_start_epoch e)) * unat (es_epoch_length_slots e) + 3 = 53"
proof -
  have loc: "locate sample_schedule 53 = Ok \<lparr>loc_era_index = 1, loc_era = Shelley, loc_epoch = 4,
      loc_relative_slot_in_epoch = 3\<rparr>"
    by (simp add: locate_def locate_index_def sample_defs)
  show ?thesis using locate_decomposes [OF sample_schedule_new loc]
    by (simp add: sample_schedule_def sample_eras_def)
qed

text \<open>
  Extending a schedule changes no answer it already gives: for a schedule with one seed
  era, era, epoch and relative slot of every slot (and the error, where there is one) are
  the same before and after \<open>extend_to_epoch\<close>, for every target; the extended schedule is
  well formed, and extending again to the same target changes nothing.
\<close>

theorem extend_to_epoch_conservative:
  assumes "EraSchedule_new anchor start [seed] = Ok sch"
  shows "map_sum id loc_view (locate (extend_to_epoch sch target) slot) = map_sum id loc_view (locate sch slot)
    \<and> eras_wf (sch_eras (extend_to_epoch sch target))
    \<and> extend_to_epoch (extend_to_epoch sch target) target = extend_to_epoch sch target"
proof -
  have single: "sch_eras sch = [seed]" using assms by (simp add: result_simps)
  note wf = EraSchedule_new_wf [OF assms]
  show ?thesis
    using extend_to_epoch_wf [OF wf, of target]
  proof (cases rule: extend_to_epoch_single [OF wf single, of target])
    case 1
    with wf show ?thesis by simp
  next
    case (2 n)
    let ?ext = "sch\<lparr>sch_eras := extended_eras seed n\<rparr>"
    have n: "unat (es_start_epoch seed) + n < 2 ^ 64"
      using 2(1) unsigned_less [of target, where 'a = nat] by simp
    have "unat (es_start_epoch (last (extended_eras seed n))) = unat target"
      using extended_epochs [OF n, of n] 2(1) by (simp add: last_conv_nth)
    then have "extend_to_epoch ?ext target = ?ext"
      by (simp add: extend_to_epoch_def Let_def word_le_nat_alt)
    then show ?thesis using 2 extended_locate_view [OF 2(4) single n] by simp
  qed
qed

theorem extend_to_epoch_conservative_witness:
  "map_sum id loc_view (locate (extend_to_epoch seed_schedule 9) 217) = Ok (Conway, 9, 17)
    \<and> length (sch_eras (extend_to_epoch seed_schedule 9)) = 3"
proof -
  have seed: "EraSchedule_new [] 0 [hd (sch_eras seed_schedule)] = Ok seed_schedule"
    using seed_schedule_new by (simp add: seed_schedule_def)
  have "locate seed_schedule 217 = Ok \<lparr>loc_era_index = 0, loc_era = Conway, loc_epoch = 9,
      loc_relative_slot_in_epoch = 17\<rparr>"
    by (simp add: locate_def locate_index_def sample_defs)
  moreover have "length (sch_eras (extend_to_epoch seed_schedule 9)) = 3"
    by (simp add: extend_to_epoch_def seed_schedule_def EraSchedule_new_def extension_era_def upt_rec)
  ultimately show ?thesis
    using extend_to_epoch_conservative [OF seed, of 9 217] by (simp add: loc_view_def)
qed

text \<open>
  \<open>extend_to_slot\<close> reaches the slot it is asked for: for a schedule with one seed era and
  a slot at or after its start whose epoch number fits in 64 bits, the extended schedule's
  forecast horizon covers the slot, provided the slot lies past the seed's own epoch or the
  seed's safe zone is at least an epoch long.
\<close>

theorem extend_to_slot_covers:
  assumes new: "EraSchedule_new anchor start [seed] = Ok sch" and ge: "es_start_slot seed \<le> slot"
    and fits: "unat (es_start_epoch seed)
      + (unat slot - unat (es_start_slot seed)) div unat (es_epoch_length_slots seed) < 2 ^ 64"
    and far: "unat (es_epoch_length_slots seed) \<le> unat slot - unat (es_start_slot seed)
      \<or> es_epoch_length_slots seed \<le> es_safe_zone_slots seed"
  shows "check_forecast_horizon (extend_to_slot sch slot) slot = Ok ()"
proof -
  have single: "sch_eras sch = [seed]" using new by (simp add: result_simps)
  note wf = EraSchedule_new_wf [OF new]
  let ?L = "unat (es_epoch_length_slots seed)" and ?d = "unat slot - start_nat seed"
  let ?target = "es_start_epoch seed + (slot - es_start_slot seed) div u64_from (es_epoch_length_slots seed)"
  have L: "0 < ?L" using wf single by (simp add: eras_wf_single unat_gt_0)
  have d: "unat (slot - es_start_slot seed) = ?d" using ge by (simp add: unat_sub)
  have target: "unat ?target = unat (es_start_epoch seed) + ?d div ?L"
    using fits by (simp add: unat_word_ariths(1) unat_word_div d)
  have ext: "extend_to_slot sch slot = extend_to_epoch sch ?target"
    using extend_to_slot_single [OF wf single, of slot] ge by simp
  have dL: "?d div ?L * ?L \<le> ?d" "?d < ?d div ?L * ?L + ?L"
    using L by (simp_all add: dividend_less_div_times add.commute)
  have slot: "unat slot = start_nat seed + ?d" using ge by (simp add: word_le_nat_alt)
  have wfd: "eras_wf (extended_eras seed (?d div ?L))"
  proof (rule extended_eras_wf)
    show "eras_wf [seed]" using wf single by simp
    have "unat slot < 2 ^ 64" using unsigned_less [of slot, where 'a = nat] by simp
    then show "start_nat seed + ?d div ?L * ?L < 2 ^ 64" using slot dL(1) by linarith
  qed
  show ?thesis
  proof (cases "?d div ?L = 0")
    case True
    with far L have "?L \<le> unat (es_safe_zone_slots seed)" by (auto simp: word_le_nat_alt div_eq_0_iff)
    moreover have "extend_to_slot sch slot = sch"
      using ext target True by (simp add: extend_to_epoch_def Let_def single word_le_nat_alt)
    moreover have "sch\<lparr>sch_eras := [seed]\<rparr> = sch" using single by simp
    ultimately show ?thesis
      using horizon_covers [of "[seed]" slot sch] slot dL(2) True by simp
  next
    case False
    let ?n = "?d div ?L"
    have "extend_to_epoch sch ?target = sch\<lparr>sch_eras := extended_eras seed ?n\<rparr>"
      by (rule extend_to_epoch_reaches [OF single target wfd]) (use False in simp)
    moreover have "unat slot \<le> start_nat (last (extended_eras seed ?n))
        + unat (es_safe_zone_slots (last (extended_eras seed ?n)))"
      using extended_starts [OF wfd, of ?n] extended_eras_nth(6) [of ?n ?n seed] False slot dL(2)
      by (simp add: last_conv_nth)
    ultimately show ?thesis using ext horizon_covers [OF extended_eras_ne] by simp
  qed
qed

theorem extend_to_slot_covers_witness:
  "check_forecast_horizon seed_schedule 217 \<noteq> Ok ()
    \<and> check_forecast_horizon (extend_to_slot seed_schedule 217) 217 = Ok ()"
proof -
  have seed: "EraSchedule_new [] 0 [hd (sch_eras seed_schedule)] = Ok seed_schedule"
    using seed_schedule_new by (simp add: seed_schedule_def)
  have "check_forecast_horizon seed_schedule 217 \<noteq> Ok ()"
    by (simp add: check_forecast_horizon_def seed_schedule_def saturating_add_def)
  then show ?thesis
    using extend_to_slot_covers [OF seed, of 217] by (simp add: seed_schedule_def)
qed

lemma ceiling_div_iff:
  fixes n f :: nat
  assumes "0 < f"
  shows "w = (n + f - 1) div f \<longleftrightarrow> n \<le> w * f \<and> w * f < n + f"
proof
  assume w: "w = (n + f - 1) div f"
  have "(n + f - 1) div f * f \<le> n + f - 1" "n + f - 1 < (n + f - 1) div f * f + f"
    using assms by (simp_all add: dividend_less_div_times add.commute)
  with assms show "n \<le> w * f \<and> w * f < n + f" unfolding w by (intro conjI) linarith+
next
  assume w: "n \<le> w * f \<and> w * f < n + f"
  then have "w * f \<le> n + f - 1" "n + f - 1 < (w + 1) * f" by auto
  then show "w = (n + f - 1) div f" by (metis Suc_eq_plus1 assms div_less_iff_less_mult
      less_Suc_eq_le less_eq_div_iff_mult_less_eq nle_le)
qed

text \<open>
  \<open>praos_rsw_slots\<close> computes the randomness stabilisation window \<open>ceil (4 k / f)\<close> for the
  active slot coefficient \<open>f = asc_numer / asc_denom\<close>: it answers \<open>w\<close> exactly when \<open>f\<close> is not
  zero, \<open>4 k\<close> and \<open>4 k * asc_denom\<close> fit in 64 bits and the 32-bit number \<open>w\<close> is the least with
  \<open>4 k * asc_denom \<le> w * asc_numer\<close>.
\<close>

theorem praos_rsw_slots_ceiling:
  "praos_rsw_slots k f_num f_den = Some w \<longleftrightarrow>
     f_num \<noteq> 0 \<and> 4 * unat k < 2 ^ 64 \<and> 4 * unat k * unat f_den < 2 ^ 64
     \<and> 4 * unat k * unat f_den \<le> unat w * unat f_num
     \<and> unat w * unat f_num < 4 * unat k * unat f_den + unat f_num"
proof (cases "f_num = 0 \<or> 2 ^ 64 \<le> 4 * unat k \<or> 2 ^ 64 \<le> 4 * unat k * unat f_den")
  case True
  then show ?thesis
    by (auto simp: praos_rsw_slots_def unat_simps checked_mul_def unat_word_ariths(2) mult.commute
        split: option.splits)
next
  case False
  then have f: "0 < unat f_num" "f_num \<noteq> 0" by (simp_all add: unat_gt_0)
  let ?n = "4 * unat k * unat f_den"
  have k4: "unat (k * 4) = 4 * unat k" using False by (simp add: unat_word_ariths(2))
  then have num: "unat (k * 4 * f_den) = ?n" using False by (simp add: unat_word_ariths(2))
  let ?w = "div_ceil (k * 4 * f_den) f_num"
  have w: "unat ?w = (?n + unat f_num - 1) div unat f_num"
    using unat_div_ceil [OF f(2)] num by simp
  have "praos_rsw_slots k f_num f_den = (if unat ?w < 2 ^ 32 then Some (ucast ?w) else None)"
    using False k4 by (simp add: praos_rsw_slots_def checked_mul_def Let_def mult.commute)
  moreover have "unat w < 2 ^ 32" using unsigned_less [of w, where 'a = nat] by simp
  ultimately have "praos_rsw_slots k f_num f_den = Some w \<longleftrightarrow> unat w = unat ?w"
    by (auto simp: word_unat_eq_iff ucast_u64_u32)
  then show ?thesis
    using False f ceiling_div_iff [OF f(1), of "unat w" ?n] by (simp add: w)
qed

end
