(* ===== verification/Timing_Anchor.thy ===== *)
theory Timing_Anchor
  imports Era_Schedule
begin

text \<open>
  The forge's wall-clock authority in \<^verbatim>\<open>ade_core/src/consensus/era_schedule.rs\<close>: the
  compact projection of a schedule (\<^verbatim>\<open>DerivedTimingAnchor\<close>), the venue's calendar
  (\<^verbatim>\<open>VenueTimingHistory\<close>) and the authority that \<^verbatim>\<open>establish\<close> binds to the durable
  bootstrap facts. The lemmas show that the projection answers exactly as the full
  schedule does on its domain, and that an established authority places the bootstrap
  slot in the bound epoch. The hash \<^verbatim>\<open>ade_crypto::blake2b_256\<close> wraps a third-party crate
  and is a parameter.
\<close>

section \<open>The timing commitment\<close>

type_synonym ScheduleCommitment = Hash32

definition timing_commitment_tag :: bytes where
  "timing_commitment_tag =
    [97, 100, 101, 46, 108, 105, 118, 101, 50, 99, 46, 116, 105, 109, 105, 110, 103, 45,
     115, 99, 104, 101, 100, 117, 108, 101, 46, 118, 49]"

definition timing_commitment_buf :: "EraSchedule \<Rightarrow> bytes" where
  "timing_commitment_buf schedule =
     timing_commitment_tag
     @ u64_to_be_bytes (sch_system_start_unix_ms schedule)
     @ u64_to_be_bytes (word_of_nat (length (sch_eras schedule)))
     @ concat (map (\<lambda>e. u64_to_be_bytes (es_start_slot e)
                       @ u64_to_be_bytes (u64_from (es_slot_length_ms e))) (sch_eras schedule))"

definition schedule_timing_commitment :: "(bytes \<Rightarrow> Hash32) \<Rightarrow> EraSchedule \<Rightarrow> ScheduleCommitment" where
  "schedule_timing_commitment blake2b_256 schedule = blake2b_256 (timing_commitment_buf schedule)"

section \<open>The derived anchor\<close>

datatype TimingAnchorError =
    DomainStartNotDerivable SlotDerivationError
  | BeforeDomainStart u64 u64
  | MalformedSegments
  | Overflow

type_synonym timing_segment = "SlotNo \<times> u32 \<times> u64"

record DerivedTimingAnchor =
  dta_domain_start_ms :: u64
  dta_domain_start_slot :: SlotNo
  dta_segments :: "timing_segment list"
  dta_source_schedule_commitment :: ScheduleCommitment

text \<open>\<^verbatim>\<open>Iterator::rposition\<close>: the index of the last element that satisfies the predicate.\<close>

fun rposition :: "('a \<Rightarrow> bool) \<Rightarrow> 'a list \<Rightarrow> nat option" where
  "rposition p [] = None"
| "rposition p (x # xs) =
     (case rposition p xs of
        Some i \<Rightarrow> Some (Suc i)
      | None \<Rightarrow> if p x then Some 0 else None)"

text \<open>The walk over the full history that gives each segment its true start time.\<close>

fun anchor_segments :: "EraSummary list \<Rightarrow> u64 \<Rightarrow> (timing_segment list, TimingAnchorError) result" where
  "anchor_segments [] seg_ms = Ok []"
| "anchor_segments (e # rest) seg_ms =
     (if es_slot_length_ms e = 0 then Err MalformedSegments
      else case rest of
        [] \<Rightarrow> Ok [(es_start_slot e, es_slot_length_ms e, seg_ms)]
      | next # _ \<Rightarrow>
          rbind (ok_or MalformedSegments (checked_sub (es_start_slot next) (es_start_slot e))) (\<lambda>span.
          rbind (ok_or Overflow (checked_mul span (u64_from (es_slot_length_ms e)))) (\<lambda>ms.
          rbind (ok_or Overflow (checked_add seg_ms ms)) (\<lambda>next_ms.
          rbind (anchor_segments rest next_ms) (\<lambda>more.
          Ok ((es_start_slot e, es_slot_length_ms e, seg_ms) # more))))))"

definition derive ::
  "(bytes \<Rightarrow> Hash32) \<Rightarrow> EraSchedule \<Rightarrow> u64 \<Rightarrow> (DerivedTimingAnchor, TimingAnchorError) result" where
  "derive blake2b_256 schedule domain_start_ms =
     rbind (map_err DomainStartNotDerivable (slot_at schedule domain_start_ms)) (\<lambda>domain_start_slot.
     rbind (anchor_segments (sch_eras schedule) (sch_system_start_unix_ms schedule)) (\<lambda>all.
     rbind (ok_or MalformedSegments
              (rposition (\<lambda>seg. fst seg \<le> domain_start_slot) all)) (\<lambda>first_idx.
     let segments = drop first_idx all in
     if segments = [] then Err MalformedSegments
     else Ok \<lparr>dta_domain_start_ms = domain_start_ms,
              dta_domain_start_slot = domain_start_slot,
              dta_segments = segments,
              dta_source_schedule_commitment = schedule_timing_commitment blake2b_256 schedule\<rparr>)))"

definition derive_for_bootstrap_anchor ::
  "(bytes \<Rightarrow> Hash32) \<Rightarrow> EraSchedule \<Rightarrow> SlotNo \<Rightarrow> (DerivedTimingAnchor, TimingAnchorError) result" where
  "derive_for_bootstrap_anchor blake2b_256 schedule bootstrap_anchor_slot =
     rbind (map_err DomainStartNotDerivable
              (slot_start_time_ms schedule bootstrap_anchor_slot)) (\<lambda>domain_start_ms.
     rbind (derive blake2b_256 schedule domain_start_ms) (\<lambda>anchor.
     if dta_domain_start_slot anchor \<noteq> bootstrap_anchor_slot then Err MalformedSegments
     else Ok anchor))"

definition domain_slot_length_ms :: "DerivedTimingAnchor \<Rightarrow> u32" where
  "domain_slot_length_ms anchor =
     (case dta_segments anchor of [] \<Rightarrow> 1 | (_, l, _) # _ \<Rightarrow> l)"

definition is_derived_from :: "(bytes \<Rightarrow> Hash32) \<Rightarrow> DerivedTimingAnchor \<Rightarrow> EraSchedule \<Rightarrow> bool" where
  "is_derived_from blake2b_256 anchor schedule \<longleftrightarrow>
     dta_source_schedule_commitment anchor = schedule_timing_commitment blake2b_256 schedule"

text \<open>The slot lengths of a derived anchor are non-zero, so the division does not panic.\<close>

fun anchor_walk :: "timing_segment list \<Rightarrow> u64 \<Rightarrow> (SlotNo, TimingAnchorError) result" where
  "anchor_walk [] captured_ms = Err MalformedSegments"
| "anchor_walk ((seg_slot, slot_len, seg_ms) # rest) captured_ms =
     (if (case rest of [] \<Rightarrow> True | (_, _, next_ms) # _ \<Rightarrow> captured_ms < next_ms)
      then rbind (ok_or Overflow (checked_sub captured_ms seg_ms)) (\<lambda>elapsed.
           ok_or Overflow (checked_add seg_slot (elapsed div u64_from slot_len)))
      else anchor_walk rest captured_ms)"

definition anchor_slot_at :: "DerivedTimingAnchor \<Rightarrow> u64 \<Rightarrow> (SlotNo, TimingAnchorError) result" where
  "anchor_slot_at anchor captured_ms =
     (if captured_ms < dta_domain_start_ms anchor
      then Err (BeforeDomainStart captured_ms (dta_domain_start_ms anchor))
      else anchor_walk (dta_segments anchor) captured_ms)"

section \<open>The venue calendar\<close>

record VenueTimingSegment =
  vts_start_slot :: SlotNo
  vts_start_epoch :: EpochNo
  vts_slot_length_ms :: u32
  vts_epoch_length_slots :: u32

record VenueTimingHistory =
  vth_system_start_unix_ms :: u64
  vth_segments :: "VenueTimingSegment list"

definition segment_summary :: "VenueTimingSegment \<Rightarrow> EraSummary" where
  "segment_summary s =
     \<lparr>es_era = Conway,
      es_start_slot = vts_start_slot s,
      es_start_epoch = vts_start_epoch s,
      es_slot_length_ms = vts_slot_length_ms s,
      es_epoch_length_slots = vts_epoch_length_slots s,
      es_safe_zone_slots = vts_epoch_length_slots s,
      es_randomness_stabilisation_window_slots = None\<rparr>"

definition to_schedule :: "VenueTimingHistory \<Rightarrow> (EraSchedule, HFCError) result" where
  "to_schedule history =
     EraSchedule_new (replicate 32 0) (vth_system_start_unix_ms history)
       (map segment_summary (vth_segments history))"

definition epoch_geometry :: "VenueTimingHistory \<Rightarrow> EpochNo \<Rightarrow> (SlotNo \<times> u32) option" where
  "epoch_geometry history epoch =
     (case find (\<lambda>s. vts_start_epoch s \<le> epoch) (rev (vth_segments history)) of
        None \<Rightarrow> None
      | Some seg \<Rightarrow>
          (case checked_sub epoch (vts_start_epoch seg) of
             None \<Rightarrow> None
           | Some offset \<Rightarrow>
               (case checked_mul offset (u64_from (vts_epoch_length_slots seg)) of
                  None \<Rightarrow> None
                | Some span \<Rightarrow>
                    (case checked_add (vts_start_slot seg) span of
                       None \<Rightarrow> None
                     | Some start \<Rightarrow> Some (start, vts_epoch_length_slots seg)))))"

section \<open>The bootstrap-bound authority\<close>

record BootstrapTimingBinding =
  btb_anchor_slot :: SlotNo
  btb_epoch :: EpochNo
  btb_epoch_start_slot :: SlotNo
  btb_epoch_length_slots :: u32

datatype TimingAuthorityError =
    MalformedHistory HFCError
  | NonAlignedSegmentTransition u8 u64 u64
  | EpochNotCovered u64
  | EpochStartSlotMismatch u64 u64 u64
  | EpochLengthMismatch u64 u32 u32
  | AnchorSlotOutsideBootstrapEpoch u64 u64 u64
  | Anchor TimingAnchorError
  | LineageMismatch

record BootstrapBoundTimingAuthority =
  bta_anchor :: DerivedTimingAnchor
  bta_binding :: BootstrapTimingBinding
  bta_slot_cadence_ms :: u32

definition implied_start_slot :: "VenueTimingSegment \<Rightarrow> u64 \<Rightarrow> u64" where
  "implied_start_slot prev epochs =
     (case checked_add (vts_start_slot prev)
             (saturating_mul epochs (u64_from (vts_epoch_length_slots prev))) of
        Some slot \<Rightarrow> slot
      | None \<Rightarrow> - 1)"

fun check_alignment :: "nat \<Rightarrow> VenueTimingSegment list \<Rightarrow> (unit, TimingAuthorityError) result" where
  "check_alignment i (prev # next # rest) =
     rbind (ok_or (NonAlignedSegmentTransition (word_of_nat (i + 1)) (vts_start_slot next) (vts_start_slot prev))
              (checked_sub (vts_start_epoch next) (vts_start_epoch prev))) (\<lambda>epochs.
     let implied = implied_start_slot prev epochs in
     if implied \<noteq> vts_start_slot next
     then Err (NonAlignedSegmentTransition (word_of_nat (i + 1)) (vts_start_slot next) implied)
     else check_alignment (Suc i) (next # rest))"
| "check_alignment i _ = Ok ()"

definition establish ::
  "(bytes \<Rightarrow> Hash32) \<Rightarrow> VenueTimingHistory \<Rightarrow> BootstrapTimingBinding
     \<Rightarrow> (BootstrapBoundTimingAuthority, TimingAuthorityError) result" where
  "establish blake2b_256 history binding =
     rbind (check_alignment 0 (vth_segments history)) (\<lambda>_.
     rbind (map_err MalformedHistory (to_schedule history)) (\<lambda>schedule.
     rbind (ok_or (EpochNotCovered (btb_epoch binding))
              (epoch_geometry history (btb_epoch binding))) (\<lambda>(reconstructed_start, reconstructed_len).
     if reconstructed_start \<noteq> btb_epoch_start_slot binding
     then Err (EpochStartSlotMismatch (btb_epoch binding) (btb_epoch_start_slot binding) reconstructed_start)
     else if reconstructed_len \<noteq> btb_epoch_length_slots binding
     then Err (EpochLengthMismatch (btb_epoch binding) (btb_epoch_length_slots binding) reconstructed_len)
     else
       (let epoch_end = saturating_add (btb_epoch_start_slot binding)
                          (u64_from (btb_epoch_length_slots binding)) in
        if btb_anchor_slot binding < btb_epoch_start_slot binding \<or> epoch_end \<le> btb_anchor_slot binding
        then Err (AnchorSlotOutsideBootstrapEpoch (btb_anchor_slot binding)
                    (btb_epoch_start_slot binding) epoch_end)
        else
          rbind (map_err Anchor
                   (derive_for_bootstrap_anchor blake2b_256 schedule (btb_anchor_slot binding))) (\<lambda>anchor.
          if \<not> is_derived_from blake2b_256 anchor schedule then Err LineageMismatch
          else Ok \<lparr>bta_anchor = anchor, bta_binding = binding,
                   bta_slot_cadence_ms = domain_slot_length_ms anchor\<rparr>)))))"

definition authority_slot_at ::
  "BootstrapBoundTimingAuthority \<Rightarrow> u64 \<Rightarrow> (SlotNo, TimingAnchorError) result" where
  "authority_slot_at authority captured_ms = anchor_slot_at (bta_anchor authority) captured_ms"

section \<open>The projection agrees with the schedule\<close>

lemma anchor_segments_step:
  assumes "es_slot_length_ms e \<noteq> 0" and "es_start_slot e < es_start_slot nxt"
  shows "anchor_segments (e # nxt # rest) seg =
    rbind (map_err (\<lambda>_. Overflow) (next_segment_ms e nxt seg)) (\<lambda>n.
    rbind (anchor_segments (nxt # rest) n) (\<lambda>more.
    Ok ((es_start_slot e, es_slot_length_ms e, seg) # more)))"
  using assms
  by (auto simp: next_segment_ms_def checked_sub_def rbind_def ok_or_def map_err_def
      split: option.splits sum.splits)

lemma anchor_segments_starts:
  "anchor_segments eras seg = Ok all \<Longrightarrow> map fst all = map es_start_slot eras"
proof (induction eras arbitrary: seg all)
  case (Cons e rest)
  then show ?case by (cases rest) (fastforce simp: result_simps split: if_splits)+
qed simp

lemma anchor_segments_hd:
  "anchor_segments (e # rest) seg = Ok all \<Longrightarrow>
     \<exists>more. all = (es_start_slot e, es_slot_length_ms e, seg) # more"
  by (cases rest) (auto simp: result_simps split: if_splits)

text \<open>Before any segment is dropped, the two walks answer alike.\<close>

lemma anchor_walk_full:
  assumes "eras_wf eras" and "anchor_segments eras seg = Ok all"
  shows "anchor_walk all t = map_err (\<lambda>_. Overflow) (slot_at_walk i eras seg t)"
  using assms
proof (induction arbitrary: i seg all rule: eras_wf_induct)
  case (single e)
  then show ?case
    by (auto simp: eras_wf_single slot_in_segment_def rbind_def ok_or_def map_err_def
        split: option.splits)
next
  case (step e nxt rest)
  have len: "es_slot_length_ms e \<noteq> 0" and lt: "es_start_slot e < es_start_slot nxt"
    using step.hyps by (simp_all add: eras_wf_Cons)
  from step.prems obtain n more where n: "next_segment_ms e nxt seg = Ok n"
      and more: "anchor_segments (nxt # rest) n = Ok more"
      and all: "all = (es_start_slot e, es_slot_length_ms e, seg) # more"
    by (auto simp only: anchor_segments_step [OF len lt] result_simps sum.inject)
  obtain more' where "more = (es_start_slot nxt, es_slot_length_ms nxt, n) # more'"
    using anchor_segments_hd [OF more] by blast
  then show ?case
    using step.IH [OF more, of "Suc i"] len n unfolding all
    by (auto simp: slot_in_segment_def rbind_def ok_or_def map_err_def split: option.splits)
qed

lemma rposition_None: "rposition p xs = None \<longleftrightarrow> (\<forall>x\<in>set xs. \<not> p x)"
  by (induction xs) (auto split: option.splits)

lemma anchor_walk_projected:
  assumes "eras_wf eras" and "anchor_segments eras seg = Ok all"
    and "slot_at_walk i eras seg d = Ok s" and "seg \<le> d" and "d \<le> t"
  shows "\<exists>k. rposition (\<lambda>seg. fst seg \<le> s) all = Some k \<and> k < length all
    \<and> anchor_walk (drop k all) t = map_err (\<lambda>_. Overflow) (slot_at_walk j eras seg t)"
  using assms
proof (induction arbitrary: i j seg all rule: eras_wf_induct)
  case (single e)
  have "es_start_slot e \<le> s"
    using slot_at_walk_floor [OF single.hyps(1) single.prems(2,3)] by simp
  then show ?case
    using single anchor_walk_full [OF single.hyps(1) single.prems(1), of t j]
    by (auto split: if_splits)
next
  case (step e nxt rest)
  have len: "es_slot_length_ms e \<noteq> 0" and lt: "es_start_slot e < es_start_slot nxt"
    using step.hyps by (simp_all add: eras_wf_Cons)
  from step.prems(1) obtain n more where n: "next_segment_ms e nxt seg = Ok n"
      and more: "anchor_segments (nxt # rest) n = Ok more"
      and all: "all = (es_start_slot e, es_slot_length_ms e, seg) # more"
    by (auto simp only: anchor_segments_step [OF len lt] result_simps sum.inject)
  show ?case
  proof (cases "d < n")
    case True
    then have here: "slot_in_segment e seg d = Ok s" using step.prems(2) len n by simp
    then have before: "s < es_start_slot nxt" by (rule slot_in_segment_before_next [OF _ n True])
    have "fst x \<in> es_start_slot ` set (nxt # rest)" if "x \<in> set more" for x
      using anchor_segments_starts [OF more] that by (metis imageI list.set_map)
    then have "s < fst x" if "x \<in> set more" for x
      using that before step.hyps(2) by (fastforce simp: eras_wf_def)
    then have "rposition (\<lambda>seg. fst seg \<le> s) more = None"
      by (simp add: rposition_None not_le)
    moreover have "es_start_slot e \<le> s" using slot_in_segment_floor [OF here len] by blast
    ultimately show ?thesis
      using anchor_walk_full [OF step.hyps(1) step.prems(1), of t j] by (simp add: all)
  next
    case False
    then have later: "slot_at_walk (Suc i) (nxt # rest) n d = Ok s" and nd: "n \<le> d"
      using step.prems(2) len n by simp_all
    obtain k where "rposition (\<lambda>seg. fst seg \<le> s) more = Some k" "k < length more"
        "anchor_walk (drop k more) t = map_err (\<lambda>_. Overflow) (slot_at_walk (Suc j) (nxt # rest) n t)"
      using step.IH [OF more later nd step.prems(4), of "Suc j"] by blast
    moreover have "\<not> t < n" using False step.prems(4) by simp
    ultimately show ?thesis using len n by (simp add: all)
  qed
qed

lemma anchor_slot_at_eq:
  assumes wf: "eras_wf (sch_eras sch)" and der: "derive h sch d = Ok a" and le: "d \<le> t"
  shows "anchor_slot_at a t = map_err (\<lambda>_. Overflow) (slot_at sch t)"
proof -
  let ?seg = "sch_system_start_unix_ms sch"
  from der obtain s all k where at: "slot_at sch d = Ok s"
      and all: "anchor_segments (sch_eras sch) ?seg = Ok all"
      and k: "rposition (\<lambda>seg. fst seg \<le> s) all = Some k"
      and a: "dta_domain_start_ms a = d" "dta_segments a = drop k all"
    by (auto simp: derive_def Let_def result_simps split: if_splits)
  have first: "sch_eras sch \<noteq> []" "es_start_slot (hd (sch_eras sch)) = 0" "?seg \<le> d"
      "slot_at_walk 0 (sch_eras sch) ?seg d = Ok s"
    using at by (simp_all add: slot_at_Ok)
  with le have "slot_at sch t = slot_at_walk 0 (sch_eras sch) ?seg t"
    by (cases "sch_eras sch") (auto simp: slot_at_def)
  moreover have "anchor_walk (drop k all) t = map_err (\<lambda>_. Overflow) (slot_at_walk 0 (sch_eras sch) ?seg t)"
    using anchor_walk_projected [OF wf all first(4,3) le, of 0] k by auto
  ultimately show ?thesis using leD [OF le] a by (simp add: anchor_slot_at_def)
qed

lemma derive_domain_start: "derive h sch d = Ok a \<Longrightarrow> dta_domain_start_ms a = d"
  by (auto simp: derive_def Let_def result_simps split: if_splits)

section \<open>The bootstrap slot\<close>

text \<open>An answer of \<open>slot_at\<close> at the start time of a slot is that slot, with no further condition.\<close>

lemma slot_at_walk_at_start:
  assumes "eras_wf eras" and "es_start_slot (hd eras) \<le> slot"
    and "slot_start_walk i eras seg slot = Ok t" and "slot_at_walk k eras seg t = Ok s"
  shows "s = slot"
  using assms
proof (induction arbitrary: i k seg rule: eras_wf_induct)
  case (single e)
  then have len: "es_slot_length_ms e \<noteq> 0"
      and t: "start_in_segment e seg slot = Ok t" "slot_in_segment e seg t = Ok s"
    by (simp_all add: eras_wf_single)
  then have "unat s = unat slot" by (simp add: result_simps unat_eq_zero)
  then show ?case by (simp add: word_unat_eq_iff)
next
  case (step e nxt rest)
  have len: "es_slot_length_ms e \<noteq> 0" and lt: "start_nat e < start_nat nxt"
    using step.hyps by (simp_all add: eras_wf_Cons word_less_nat_alt)
  from step.prems(3) len obtain n where n: "next_segment_ms e nxt seg = Ok n"
    by (auto simp: rbind_eq_Ok)
  then have un: "unat n = unat seg + (start_nat nxt - start_nat e) * slot_ms e"
    by (simp add: result_simps)
  show ?case
  proof (cases "slot < es_start_slot nxt")
    case True
    then have t: "start_nat e \<le> unat slot" "unat t = unat seg + (unat slot - start_nat e) * slot_ms e"
      using step.prems(2) len by (simp_all add: result_simps)
    have "(unat slot - start_nat e) * slot_ms e < (start_nat nxt - start_nat e) * slot_ms e"
      using True t(1) len by (simp add: word_less_nat_alt diff_less_mono unat_gt_0)
    then have "t < n" using t un by (simp add: word_less_nat_alt)
    then have "slot_in_segment e seg t = Ok s" using step.prems(3) len n by simp
    then have "unat s = unat slot" using t len by (simp add: result_simps unat_eq_zero)
    then show ?thesis by (simp add: word_unat_eq_iff)
  next
    case False
    then have w: "slot_start_walk (Suc i) (nxt # rest) n slot = Ok t"
      using step.prems(2) len n by simp
    then have "\<not> t < n" using slot_start_walk_ge [of "Suc i" "nxt # rest" n slot t]
      by (simp add: word_less_nat_alt)
    then have "slot_at_walk (Suc k) (nxt # rest) n t = Ok s" using step.prems(3) len n by simp
    with False w show ?thesis by (intro step.IH) simp_all
  qed
qed

lemma anchor_segments_Err:
  assumes "eras_wf eras" and "anchor_segments eras seg = Err e"
  shows "e = Overflow"
  using assms
proof (induction arbitrary: seg rule: eras_wf_induct)
  case (single e)
  then show ?case by (simp add: eras_wf_single)
next
  case (step e nxt rest)
  then have len: "es_slot_length_ms e \<noteq> 0" and lt: "es_start_slot e < es_start_slot nxt"
    by (simp_all add: eras_wf_Cons)
  from step.prems step.IH show ?case
    by (auto simp only: anchor_segments_step [OF len lt] result_simps sum.inject sum.simps)
qed

lemma derive_cases:
  assumes "eras_wf (sch_eras sch)"
  obtains (not_derivable) e where "derive h sch d = Err (DomainStartNotDerivable e)"
  | (overflow) "derive h sch d = Err Overflow"
  | (derived) a where "derive h sch d = Ok a" and "slot_at sch d = Ok (dta_domain_start_slot a)"
      and "dta_domain_start_ms a = d" and "is_derived_from h a sch"
proof (cases "slot_at sch d")
  case (Inl e)
  then show ?thesis by (intro that(1)) (simp add: derive_def)
next
  case (Inr s)
  let ?segs = "anchor_segments (sch_eras sch) (sch_system_start_unix_ms sch)"
  show ?thesis
  proof (cases ?segs)
    case (Inl e)
    then show ?thesis using anchor_segments_Err [OF assms Inl] \<open>slot_at sch d = Ok s\<close>
      by (intro that(2)) (simp add: derive_def)
  next
    case (Inr all)
    have "sch_system_start_unix_ms sch \<le> d"
        "slot_at_walk 0 (sch_eras sch) (sch_system_start_unix_ms sch) d = Ok s"
      using \<open>slot_at sch d = Ok s\<close> by (simp_all add: slot_at_Ok)
    then obtain k where "rposition (\<lambda>seg. fst seg \<le> s) all = Some k" "k < length all"
      using anchor_walk_projected [OF assms Inr, of 0 d s d] by auto
    with Inr \<open>slot_at sch d = Ok s\<close> show ?thesis
      by (intro that(3) [of "\<lparr>dta_domain_start_ms = d, dta_domain_start_slot = s, dta_segments = drop k all,
            dta_source_schedule_commitment = schedule_timing_commitment h sch\<rparr>"])
         (simp_all add: derive_def is_derived_from_def)
  qed
qed

section \<open>The calendar and the bound epoch\<close>

lemma find_append: "find p (xs @ ys) = (case find p xs of None \<Rightarrow> find p ys | r \<Rightarrow> r)"
  by (induction xs) auto

lemma find_SomeD: "find p xs = Some x \<Longrightarrow> x \<in> set xs \<and> p x"
  by (induction xs) (auto split: if_splits)

lemma find_NoneD: "find p xs = None \<Longrightarrow> x \<in> set xs \<Longrightarrow> \<not> p x"
  by (induction xs) (auto split: if_splits)

lemma unat_implied_start_slot:
  "unat (implied_start_slot prev epochs) =
     min (unat (vts_start_slot prev) + unat epochs * unat (vts_epoch_length_slots prev)) (2 ^ 64 - 1)"
  using unsigned_less [of "vts_start_slot prev", where 'a = nat]
  by (auto simp: implied_start_slot_def checked_add_def unat_saturating_mul unat_word_ariths(1)
      unat_minus_one_eq)

lemma segment_summary_simps [simp]:
  "es_start_slot (segment_summary s) = vts_start_slot s"
  "es_start_epoch (segment_summary s) = vts_start_epoch s"
  "es_slot_length_ms (segment_summary s) = vts_slot_length_ms s"
  "es_epoch_length_slots (segment_summary s) = vts_epoch_length_slots s"
  "es_era (segment_summary s) = Conway"
  by (simp_all add: segment_summary_def)

text \<open>
  In an aligned calendar the segment that \<open>epoch_geometry\<close> finds for an epoch is the one
  \<open>locate\<close> finds for every slot of that epoch.
\<close>

lemma aligned_locate:
  assumes "check_alignment i segs = Ok ()" and "eras_wf (map segment_summary segs)"
    and "find (\<lambda>s. vts_start_epoch s \<le> epoch) (rev segs) = Some seg"
    and "unat es = unat (vts_start_slot seg)
      + (unat epoch - unat (vts_start_epoch seg)) * unat (vts_epoch_length_slots seg)"
    and "es \<le> slot" and "unat slot < min (unat es + unat (vts_epoch_length_slots seg)) (2 ^ 64 - 1)"
  shows "map segment_summary segs ! locate_index slot (map segment_summary segs) = segment_summary seg
    \<and> es_start_slot (hd (map segment_summary segs)) \<le> slot"
  using assms
proof (induction i segs rule: check_alignment.induct)
  case (1 i prev nxt rest)
  let ?L = "unat (vts_epoch_length_slots seg)"
  have wf: "eras_wf (map segment_summary (nxt # rest))" and lt: "vts_start_slot prev < vts_start_slot nxt"
    using "1.prems"(2) by (simp_all add: eras_wf_Cons)
  obtain epochs where sub: "checked_sub (vts_start_epoch nxt) (vts_start_epoch prev) = Some epochs"
      and implied: "implied_start_slot prev epochs = vts_start_slot nxt"
      and rest: "check_alignment (Suc i) (nxt # rest) = Ok ()"
    using "1.prems"(1) by (auto simp: result_simps Let_def split: if_splits)
  then have epochs: "unat (vts_start_epoch nxt) = unat (vts_start_epoch prev) + unat epochs"
    by (simp add: unat_simps)
  show ?case
  proof (cases "find (\<lambda>s. vts_start_epoch s \<le> epoch) (rev (nxt # rest))")
    case None
    then have seg: "seg = prev" and ep: "vts_start_epoch prev \<le> epoch"
      using "1.prems"(3) by (simp_all add: find_append split: if_splits option.splits)
    have "\<not> vts_start_epoch nxt \<le> epoch" using find_NoneD [OF None, of nxt] by simp
    then have "unat epoch - unat (vts_start_epoch prev) + 1 \<le> unat epochs"
      using epochs ep by (simp add: word_le_nat_alt)
    then have "(unat epoch - unat (vts_start_epoch prev)) * ?L + ?L \<le> unat epochs * ?L"
      by (metis add.commute mult_Suc mult_le_mono1 Suc_eq_plus1)
    then have "unat slot < unat (implied_start_slot prev epochs)"
      using "1.prems"(4,6) by (simp add: unat_implied_start_slot seg)
    then have "slot < vts_start_slot nxt" by (simp add: implied word_less_nat_alt)
    moreover have "vts_start_slot prev \<le> slot"
      using "1.prems"(4,5) by (simp add: seg word_le_nat_alt)
    ultimately show ?thesis by (simp add: locate_index_Cons seg)
  next
    case (Some s')
    then have find: "find (\<lambda>s. vts_start_epoch s \<le> epoch) (rev (nxt # rest)) = Some seg"
      using "1.prems"(3) by (simp add: find_append split: option.splits if_splits)
    have ih: "map segment_summary (nxt # rest) ! locate_index slot (map segment_summary (nxt # rest))
        = segment_summary seg \<and> es_start_slot (hd (map segment_summary (nxt # rest))) \<le> slot"
      using "1.IH" [OF refl _ rest wf find "1.prems"(4,5,6)] implied by simp
    then have "vts_start_slot nxt \<le> slot" by simp
    moreover from this lt have "vts_start_slot prev \<le> slot" by simp
    ultimately show ?thesis using ih by (simp add: locate_index_Cons leD)
  qed
qed (auto simp: word_le_nat_alt split: if_splits)

lemma epoch_geometry_Some:
  "epoch_geometry history epoch = Some (start, len) \<longleftrightarrow>
     (\<exists>seg. find (\<lambda>s. vts_start_epoch s \<le> epoch) (rev (vth_segments history)) = Some seg
        \<and> len = vts_epoch_length_slots seg
        \<and> unat start = unat (vts_start_slot seg)
            + (unat epoch - unat (vts_start_epoch seg)) * unat len)"
  (is "?l = ?r")
proof
  assume ?l
  then show ?r
    by (auto simp: epoch_geometry_def unat_simps split: option.splits)
next
  assume ?r
  then obtain seg where seg: "find (\<lambda>s. vts_start_epoch s \<le> epoch) (rev (vth_segments history)) = Some seg"
      "len = vts_epoch_length_slots seg"
      "unat start = unat (vts_start_slot seg) + (unat epoch - unat (vts_start_epoch seg)) * unat len"
    by blast
  then have "vts_start_epoch seg \<le> epoch" using find_SomeD by fastforce
  then have "unat (epoch - vts_start_epoch seg) = unat epoch - unat (vts_start_epoch seg)"
    by (simp add: unat_sub)
  with seg \<open>vts_start_epoch seg \<le> epoch\<close> unsigned_less [of start, where 'a = nat] show ?l
    by (simp add: epoch_geometry_def checked_sub_def checked_mul_def checked_add_def
        unat_word_ariths(1,2) word_unat_eq_iff)
qed

lemma establish_cases:
  assumes "establish h history b = Ok auth"
  obtains sch where "to_schedule history = Ok sch" and "check_alignment 0 (vth_segments history) = Ok ()"
    and "epoch_geometry history (btb_epoch b) = Some (btb_epoch_start_slot b, btb_epoch_length_slots b)"
    and "btb_epoch_start_slot b \<le> btb_anchor_slot b"
    and "unat (btb_anchor_slot b)
      < min (unat (btb_epoch_start_slot b) + unat (btb_epoch_length_slots b)) (2 ^ 64 - 1)"
    and "derive_for_bootstrap_anchor h sch (btb_anchor_slot b) = Ok (bta_anchor auth)"
    and "bta_binding auth = b"
    and "bta_slot_cadence_ms auth = domain_slot_length_ms (bta_anchor auth)"
proof -
  from assms obtain sch where "to_schedule history = Ok sch"
    "check_alignment 0 (vth_segments history) = Ok ()"
    "epoch_geometry history (btb_epoch b) = Some (btb_epoch_start_slot b, btb_epoch_length_slots b)"
    "\<not> btb_anchor_slot b < btb_epoch_start_slot b"
    "\<not> saturating_add (btb_epoch_start_slot b) (u64_from (btb_epoch_length_slots b)) \<le> btb_anchor_slot b"
    "derive_for_bootstrap_anchor h sch (btb_anchor_slot b) = Ok (bta_anchor auth)"
    "bta_binding auth = b" "bta_slot_cadence_ms auth = domain_slot_length_ms (bta_anchor auth)"
    by (auto simp: establish_def result_simps Let_def split: if_splits prod.splits)
  then show ?thesis
    by (intro that) (auto simp: word_le_nat_alt word_less_nat_alt unat_saturating_add)
qed

section \<open>The commitment binds the timing fields\<close>

definition era_timing :: "EraSummary \<Rightarrow> SlotNo \<times> u32" where
  "era_timing e = (es_start_slot e, es_slot_length_ms e)"

lemma concat_blocks_eq:
  assumes "\<And>x. length (f x) = n" and "0 < n"
  shows "concat (map f xs) = concat (map f ys) \<longleftrightarrow> map f xs = map f ys"
proof (induction xs arbitrary: ys)
  have ne: "f z \<noteq> []" for z using assms(1) [of z] assms(2) by auto
  case Nil
  show ?case using ne by (cases ys) auto
next
  have ne: "f z \<noteq> []" for z using assms(1) [of z] assms(2) by auto
  case (Cons x xs)
  show ?case
  proof (cases ys)
    case Nil
    then show ?thesis using ne by simp
  next
    case (Cons y ys')
    then show ?thesis using Cons.IH [of ys'] assms(1) by (simp add: append_eq_append_conv)
  qed
qed

lemma ucast_u32_u64_inject: "(u64_from a = u64_from b) = (a = b)"
  by (metis unat_u32_to_u64 word_unat_eq_iff)

lemma timing_commitment_buf_eq:
  "timing_commitment_buf a = timing_commitment_buf b \<longleftrightarrow>
     sch_system_start_unix_ms a = sch_system_start_unix_ms b
     \<and> map era_timing (sch_eras a) = map era_timing (sch_eras b)"
proof -
  let ?f = "\<lambda>e :: EraSummary. u64_to_be_bytes (es_start_slot e) @ u64_to_be_bytes (u64_from (es_slot_length_ms e))"
  have f: "?f x = ?f y \<longleftrightarrow> era_timing x = era_timing y" for x y
    by (simp add: append_eq_append_conv era_timing_def ucast_u32_u64_inject)
  have maps: "map ?f xs = map ?f ys \<longleftrightarrow> map era_timing xs = map era_timing ys" for xs ys
  proof (induction xs arbitrary: ys)
    case (Cons x xs)
    then show ?case using f by (cases ys) (simp_all del: append_eq_append_conv)
  qed simp
  have "concat (map ?f xs) = concat (map ?f ys) \<longleftrightarrow> map ?f xs = map ?f ys" for xs ys
    by (rule concat_blocks_eq [where f = ?f and n = 16]) simp_all
  then show ?thesis
    unfolding timing_commitment_buf_def using maps [of "sch_eras a" "sch_eras b"]
    by (auto simp: append_eq_append_conv dest: map_eq_imp_length_eq)
qed

lemma slot_at_walk_step:
  "slot_at_walk i (e # nxt # rest) seg t =
     (if es_slot_length_ms e = 0 then Err (SlotDerivationError.ZeroSlotLength (word_of_nat i))
      else rbind (next_segment_ms e nxt seg) (\<lambda>next_ms.
        if t < next_ms then slot_in_segment e seg t
        else slot_at_walk (Suc i) (nxt # rest) next_ms t))"
  by simp

lemma slot_at_walk_timing:
  "map era_timing xs = map era_timing ys \<Longrightarrow> slot_at_walk i xs seg t = slot_at_walk i ys seg t"
proof (induction xs arbitrary: i ys seg)
  case (Cons x xs)
  then obtain y ys' where ys: "ys = y # ys'" by (cases ys) auto
  with Cons.prems have x: "es_start_slot x = es_start_slot y" "es_slot_length_ms x = es_slot_length_ms y"
    by (simp_all add: era_timing_def)
  from Cons.prems ys have rest: "map era_timing xs = map era_timing ys'" by simp
  note ih = Cons.IH [OF rest]
  show ?case
  proof (cases xs)
    case Nil
    with rest ys x show ?thesis by (simp add: slot_in_segment_def)
  next
    case (Cons x' xs')
    with rest obtain y' ys'' where ys': "ys' = y' # ys''" by (cases ys') auto
    with rest Cons have "es_start_slot x' = es_start_slot y'" by (simp add: era_timing_def)
    then have "next_segment_ms x x' = next_segment_ms y y'"
      using x by (simp add: next_segment_ms_def fun_eq_iff)
    moreover have "slot_in_segment x = slot_in_segment y"
      using x by (simp add: slot_in_segment_def fun_eq_iff)
    ultimately show ?thesis
      using ih x unfolding ys ys' Cons slot_at_walk_step by (simp del: slot_at_walk.simps cong: if_cong)
  qed
qed simp

section \<open>Properties\<close>

text \<open>The preprod calendar of the source's tests: 20 s slots until slot 86400, then 1 s slots.\<close>

definition preprod_history :: VenueTimingHistory where
  "preprod_history = \<lparr>vth_system_start_unix_ms = 1654041600000, vth_segments =
    [\<lparr>vts_start_slot = 0, vts_start_epoch = 0, vts_slot_length_ms = 20000, vts_epoch_length_slots = 21600\<rparr>,
     \<lparr>vts_start_slot = 86400, vts_start_epoch = 4, vts_slot_length_ms = 1000, vts_epoch_length_slots = 432000\<rparr>]\<rparr>"

definition preprod_binding :: BootstrapTimingBinding where
  "preprod_binding = \<lparr>btb_anchor_slot = 129700000, btb_epoch = 304, btb_epoch_start_slot = 129686400,
    btb_epoch_length_slots = 432000\<rparr>"

lemmas anchor_defs = derive_def Let_def slot_at_def slot_start_time_ms_def start_in_segment_def
  next_segment_ms_def slot_in_segment_def checked_add_def checked_sub_def checked_mul_def

lemma sample_anchor:
  "derive (\<lambda>_. []) sample_schedule 150000 = Ok \<lparr>dta_domain_start_ms = 150000, dta_domain_start_slot = 7,
    dta_segments = [(0, 20000, 1000), (10, 1000, 201000)], dta_source_schedule_commitment = []\<rparr>"
  by (simp add: anchor_defs sample_schedule_def sample_eras_def schedule_timing_commitment_def)

text \<open>
  The compact anchor equals the full history over its domain: for every schedule the
  constructor accepts and every anchor derived from it, at each instant from the domain
  start on, the anchor gives the slot the full schedule gives, and overflows exactly where
  it does.
\<close>

theorem anchor_agrees_with_schedule:
  assumes "EraSchedule_new bootstrap start eras = Ok sch" and "derive hash sch d = Ok anchor"
    and "d \<le> t"
  shows "anchor_slot_at anchor t = map_err (\<lambda>_. TimingAnchorError.Overflow) (slot_at sch t)"
  by (rule anchor_slot_at_eq [OF EraSchedule_new_wf [OF assms(1)] assms(2,3)])

theorem anchor_agrees_with_schedule_witness:
  "\<exists>anchor. derive (\<lambda>_. []) sample_schedule 150000 = Ok anchor \<and> anchor_slot_at anchor 204500 = Ok 13"
proof -
  have "slot_at sample_schedule 204500 = Ok 13"
    by (simp add: anchor_defs sample_schedule_def sample_eras_def)
  then show ?thesis
    using sample_anchor anchor_agrees_with_schedule [OF sample_schedule_new sample_anchor, of 204500]
    by simp
qed

text \<open>
  The anchor of a bootstrap slot is derived from that slot alone: on success its domain
  starts at exactly that slot and at that slot's start time, and the lineage check accepts it;
  the only failures are that the slot has no representable time or that a later segment
  start overflows. The re-check of the round trip never fires.
\<close>

theorem derive_for_bootstrap_anchor_sound:
  assumes "EraSchedule_new bootstrap start eras = Ok sch"
  shows "case derive_for_bootstrap_anchor hash sch slot of
      Ok anchor \<Rightarrow> dta_domain_start_slot anchor = slot
        \<and> slot_start_time_ms sch slot = Ok (dta_domain_start_ms anchor)
        \<and> is_derived_from hash anchor sch
    | Err e \<Rightarrow> e = TimingAnchorError.Overflow \<or> (\<exists>e'. e = DomainStartNotDerivable e')"
proof (cases "slot_start_time_ms sch slot")
  case (Inl e)
  then show ?thesis by (simp add: derive_for_bootstrap_anchor_def)
next
  case (Inr t)
  note wf = EraSchedule_new_wf [OF assms]
  show ?thesis
  proof (cases rule: derive_cases [OF wf, of hash t])
    case derived: (3 a)
    have "dta_domain_start_slot a = slot"
      using slot_at_walk_at_start [OF wf, of slot 0 "sch_system_start_unix_ms sch" t 0] Inr derived(2)
      by (simp add: slot_start_time_ms_Ok slot_at_Ok)
    with Inr derived show ?thesis by (simp add: derive_for_bootstrap_anchor_def)
  qed (simp_all add: derive_for_bootstrap_anchor_def Inr)
qed

theorem derive_for_bootstrap_anchor_sound_witness:
  "\<exists>anchor. derive_for_bootstrap_anchor (\<lambda>_. []) sample_schedule 12 = Ok anchor
    \<and> dta_domain_start_slot anchor = 12"
proof -
  have "is_ok (derive_for_bootstrap_anchor (\<lambda>_. []) sample_schedule 12)"
    by (simp add: derive_for_bootstrap_anchor_def anchor_defs sample_schedule_def sample_eras_def)
  then show ?thesis
    using derive_for_bootstrap_anchor_sound [OF sample_schedule_new, where hash = "\<lambda>_. []" and slot = 12]
    by (auto simp: is_ok_def split: sum.splits)
qed

text \<open>
  An established authority is bound to the durable bootstrap facts: its calendar is a
  well-formed schedule in which \<open>locate\<close> places the bootstrap slot in the bound epoch, at its
  offset from the bound epoch start; its domain starts at the bootstrap slot; and from there on
  it converts time exactly as that schedule does.
\<close>

theorem establish_binds:
  assumes "establish hash history binding = Ok auth"
  shows "\<exists>sch. to_schedule history = Ok sch
    \<and> map_sum id loc_view (locate sch (btb_anchor_slot binding)) =
        Ok (Conway, btb_epoch binding,
            word_of_nat (unat (btb_anchor_slot binding) - unat (btb_epoch_start_slot binding)))
    \<and> unat (btb_anchor_slot binding) - unat (btb_epoch_start_slot binding)
        < unat (btb_epoch_length_slots binding)
    \<and> dta_domain_start_slot (bta_anchor auth) = btb_anchor_slot binding
    \<and> (\<forall>t. dta_domain_start_ms (bta_anchor auth) \<le> t \<longrightarrow>
         authority_slot_at auth t = map_err (\<lambda>_. TimingAnchorError.Overflow) (slot_at sch t))"
  using assms
proof (cases rule: establish_cases)
  case (1 sch)
  let ?slot = "btb_anchor_slot binding" and ?L = "unat (btb_epoch_length_slots binding)"
  have wf: "eras_wf (map segment_summary (vth_segments history))"
      and eras: "sch_eras sch = map segment_summary (vth_segments history)"
    using 1(1) by (simp_all add: to_schedule_def result_simps)
  obtain seg where seg: "find (\<lambda>s. vts_start_epoch s \<le> btb_epoch binding) (rev (vth_segments history)) = Some seg"
      "btb_epoch_length_slots binding = vts_epoch_length_slots seg"
      "unat (btb_epoch_start_slot binding) = unat (vts_start_slot seg)
        + (unat (btb_epoch binding) - unat (vts_start_epoch seg)) * unat (vts_epoch_length_slots seg)"
    using 1(3) by (auto simp: epoch_geometry_Some)
  have le: "unat (btb_epoch_start_slot binding) \<le> unat ?slot" "unat ?slot < unat (btb_epoch_start_slot binding) + ?L"
    using 1(4,5) by (simp_all add: word_le_nat_alt)
  have at: "sch_eras sch ! locate_index ?slot (sch_eras sch) = segment_summary seg"
      and hd: "es_start_slot (hd (sch_eras sch)) \<le> ?slot"
    using aligned_locate [OF 1(2) wf seg(1,3) 1(4)] 1(5) seg(2) by (simp_all add: eras)
  have ep: "unat (vts_start_epoch seg) \<le> unat (btb_epoch binding)"
    using find_SomeD [OF seg(1)] by (simp add: word_le_nat_alt)
  define r where "r = unat ?slot - unat (btb_epoch_start_slot binding)"
  have r: "r < ?L" using le by (simp add: r_def)
  have "unat ?slot - unat (vts_start_slot seg)
      = r + (unat (btb_epoch binding) - unat (vts_start_epoch seg)) * ?L"
    using le seg(2,3) by (simp add: r_def)
  then have div: "(unat ?slot - unat (vts_start_slot seg)) div ?L = unat (btb_epoch binding) - unat (vts_start_epoch seg)"
      and mod: "(unat ?slot - unat (vts_start_slot seg)) mod ?L = r"
    using r by simp_all
  have loc: "map_sum id loc_view (locate sch ?slot) = Ok (Conway, btb_epoch binding, word_of_nat r)"
    using locate_view [of sch ?slot] wf hd at div mod ep seg(2)
      unsigned_less [of "btb_epoch binding", where 'a = nat] by (simp add: eras)
  have new: "EraSchedule_new (replicate 32 0) (vth_system_start_unix_ms history) (sch_eras sch) = Ok sch"
    using 1(1) eras by (simp add: to_schedule_def)
  obtain d where d: "derive hash sch d = Ok (bta_anchor auth)" "dta_domain_start_ms (bta_anchor auth) = d"
      "dta_domain_start_slot (bta_anchor auth) = ?slot"
    using 1(6) derive_domain_start
    by (fastforce simp: derive_for_bootstrap_anchor_def result_simps split: if_splits)
  show ?thesis
    using 1(1) loc r d anchor_slot_at_eq [OF EraSchedule_new_wf [OF new] d(1)]
    by (intro exI [of _ sch]) (simp add: r_def authority_slot_at_def)
qed

theorem establish_binds_witness:
  "\<exists>auth. establish (\<lambda>_. []) preprod_history preprod_binding = Ok auth
    \<and> dta_domain_start_slot (bta_anchor auth) = 129700000"
proof -
  have "is_ok (establish (\<lambda>_. []) preprod_history preprod_binding)"
    by (simp add: establish_def preprod_history_def preprod_binding_def implied_start_slot_def
        saturating_mul_def saturating_add_def to_schedule_def segment_summary_def EraSchedule_new_def
        epoch_geometry_def derive_for_bootstrap_anchor_def is_derived_from_def schedule_timing_commitment_def
        anchor_defs)
  then obtain auth where auth: "establish (\<lambda>_. []) preprod_history preprod_binding = Ok auth"
    by (auto simp: is_ok_def split: sum.splits)
  show ?thesis using auth establish_binds [OF auth] by (auto simp: preprod_binding_def)
qed

text \<open>
  The timing commitment binds the timing and nothing else: two schedules have the same
  commitment preimage exactly when they agree on the system start and on every segment's
  start slot and slot length, and then \<open>slot_at\<close> answers alike for both at every instant,
  whatever their eras, epochs, safe zones and windows are.
\<close>

theorem timing_commitment_binds:
  "(timing_commitment_buf a = timing_commitment_buf b \<longleftrightarrow>
      sch_system_start_unix_ms a = sch_system_start_unix_ms b
      \<and> map era_timing (sch_eras a) = map era_timing (sch_eras b))
   \<and> (timing_commitment_buf a = timing_commitment_buf b \<longrightarrow> slot_at a t = slot_at b t)"
proof -
  have "slot_at a t = slot_at b t"
    if eq: "sch_system_start_unix_ms a = sch_system_start_unix_ms b"
      "map era_timing (sch_eras a) = map era_timing (sch_eras b)"
  proof (cases "sch_eras a")
    case Nil
    with eq show ?thesis by (simp add: slot_at_def)
  next
    case (Cons x xs)
    with eq(2) obtain y ys where ys: "sch_eras b = y # ys" by (cases "sch_eras b") auto
    with Cons eq(2) have "es_start_slot x = es_start_slot y" by (simp add: era_timing_def)
    with Cons ys eq slot_at_walk_timing [OF eq(2), of 0 "sch_system_start_unix_ms b" t]
    show ?thesis by (simp add: slot_at_def del: slot_at_walk.simps)
  qed
  then show ?thesis by (auto simp: timing_commitment_buf_eq)
qed

theorem timing_commitment_binds_witness:
  "slot_at sample_schedule 202500
     = slot_at (sample_schedule\<lparr>sch_eras := map (es_era_update (\<lambda>_. Conway)) sample_eras\<rparr>) 202500"
proof -
  let ?b = "sample_schedule\<lparr>sch_eras := map (es_era_update (\<lambda>_. Conway)) sample_eras\<rparr>"
  have "timing_commitment_buf sample_schedule = timing_commitment_buf ?b"
    by (simp add: timing_commitment_buf_def sample_schedule_def sample_eras_def)
  with timing_commitment_binds [of sample_schedule ?b 202500] show ?thesis by simp
qed

end
