(* ===== verification/BTree_Map.thy ===== *)
theory BTree_Map
  imports Prelude "HOL-Library.List_Lexorder" "HOL-Library.Product_Lexorder"
begin

text \<open>
  Rust's \<^verbatim>\<open>BTreeMap\<close> as the association list of its entries in key order. Byte-array keys
  are ordered lexicographically and pairs component-wise, as their derived \<^verbatim>\<open>Ord\<close> does.
  The clients use the laws of the locale \<open>ordered_map\<close>, which the association lists
  satisfy: lookup after insertion, preservation of the order invariant, and that two
  well-formed maps with the same lookups are the same value, which is what \<^verbatim>\<open>Eq\<close> on a
  \<^verbatim>\<open>BTreeMap\<close> relies on.
\<close>

type_synonym ('k, 'v) btree_map = "('k \<times> 'v) list"

definition bt_empty :: "('k, 'v) btree_map" where
  "bt_empty = []"

definition bt_get :: "('k::linorder, 'v) btree_map \<Rightarrow> 'k \<Rightarrow> 'v option" where
  "bt_get m k = map_of m k"

fun bt_insert :: "'k::linorder \<Rightarrow> 'v \<Rightarrow> ('k, 'v) btree_map \<Rightarrow> ('k, 'v) btree_map" where
  "bt_insert k v [] = [(k, v)]"
| "bt_insert k v ((k', v') # m) =
     (if k < k' then (k, v) # (k', v') # m
      else if k = k' then (k, v) # m
      else (k', v') # bt_insert k v m)"

definition bt_wf :: "('k::linorder, 'v) btree_map \<Rightarrow> bool" where
  "bt_wf m \<longleftrightarrow> sorted_wrt (<) (map fst m)"

text \<open>What the source relies on of an ordered map.\<close>

locale ordered_map =
  fixes empty :: 'm
    and get :: "'m \<Rightarrow> 'k \<Rightarrow> 'v option"
    and insert :: "'k \<Rightarrow> 'v \<Rightarrow> 'm \<Rightarrow> 'm"
    and wf :: "'m \<Rightarrow> bool"
  assumes wf_empty: "wf empty"
    and get_empty: "get empty k = None"
    and wf_insert: "wf m \<Longrightarrow> wf (insert k v m)"
    and get_insert: "wf m \<Longrightarrow> get (insert k v m) k' = (if k' = k then Some v else get m k')"
    and get_ext: "wf m \<Longrightarrow> wf m' \<Longrightarrow> (\<And>k. get m k = get m' k) \<Longrightarrow> m = m'"
begin

lemma insert_insert_same: "wf m \<Longrightarrow> insert k v (insert k v' m) = insert k v m"
  by (rule get_ext) (simp_all add: wf_insert get_insert)

lemma insert_commute: "wf m \<Longrightarrow> k \<noteq> k' \<Longrightarrow> insert k v (insert k' v' m) = insert k' v' (insert k v m)"
  by (rule get_ext) (simp_all add: wf_insert get_insert)

lemma insert_get_same: "wf m \<Longrightarrow> get m k = Some v \<Longrightarrow> insert k v m = m"
  by (rule get_ext) (simp_all add: wf_insert get_insert)

end

lemma bt_wf_Cons: "bt_wf ((k, v) # m) \<longleftrightarrow> (\<forall>k'\<in>fst ` set m. k < k') \<and> bt_wf m"
  by (auto simp: bt_wf_def)

lemma bt_wf_empty: "bt_wf bt_empty"
  by (simp add: bt_wf_def bt_empty_def)

lemma bt_get_empty: "bt_get bt_empty k = None"
  by (simp add: bt_get_def bt_empty_def)

lemma fst_set_bt_insert: "fst ` set (bt_insert k v m) = Set.insert k (fst ` set m)"
  by (induction k v m rule: bt_insert.induct) auto

lemma bt_wf_insert: "bt_wf m \<Longrightarrow> bt_wf (bt_insert k v m)"
proof (induction k v m rule: bt_insert.induct)
  case (2 k v k' v' m)
  then show ?case by (auto simp: bt_wf_Cons fst_set_bt_insert)
qed (simp add: bt_wf_def)

lemma bt_get_insert: "bt_wf m \<Longrightarrow> bt_get (bt_insert k v m) k' = (if k' = k then Some v else bt_get m k')"
  by (induction k v m rule: bt_insert.induct) (auto simp: bt_get_def bt_wf_Cons)

lemma bt_get_less: "bt_wf ((k', v) # m) \<Longrightarrow> k < k' \<Longrightarrow> bt_get ((k', v) # m) k = None"
  by (force simp: bt_get_def bt_wf_Cons map_of_eq_None_iff)

lemma bt_get_ext: "bt_wf m \<Longrightarrow> bt_wf m' \<Longrightarrow> (\<And>k. bt_get m k = bt_get m' k) \<Longrightarrow> m = m'"
proof (induction m arbitrary: m')
  case Nil
  then have "bt_get m' = Map.empty" by (simp add: fun_eq_iff bt_get_def)
  then show ?case by (cases m') (auto simp: bt_get_def fun_eq_iff split: if_splits)
next
  case (Cons kv m)
  obtain k v where kv: "kv = (k, v)" by (cases kv)
  have "bt_get m' k = Some v" using Cons.prems(3) [of k] by (simp add: kv bt_get_def)
  then obtain k' v' n where m': "m' = (k', v') # n" by (cases m') (auto simp: bt_get_def)
  have "\<not> k < k'" using bt_get_less [of k' v' n k] Cons.prems(2) \<open>bt_get m' k = Some v\<close> by (auto simp: m')
  moreover have "\<not> k' < k"
    using bt_get_less [of k v m k'] Cons.prems(1) Cons.prems(3) [of k'] by (auto simp: kv m' bt_get_def)
  ultimately have k: "k' = k" by simp
  with \<open>bt_get m' k = Some v\<close> have v: "v' = v" by (simp add: m' bt_get_def)
  have "bt_get m x = bt_get n x" for x
  proof (cases "x = k")
    case True
    have "bt_get m k = None" "bt_get n k = None"
      using Cons.prems(1,2) by (auto simp: kv m' k bt_wf_Cons bt_get_def map_of_eq_None_iff)
    with True show ?thesis by simp
  next
    case False
    then show ?thesis using Cons.prems(3) [of x] by (simp add: kv m' k bt_get_def)
  qed
  with Cons.prems have "m = n" by (intro Cons.IH) (auto simp: kv m' bt_wf_Cons)
  then show ?case by (simp add: kv m' k v)
qed

interpretation bt: ordered_map
  "bt_empty :: ('k::linorder, 'v) btree_map" bt_get bt_insert bt_wf
proof unfold_locales
  show "m = m'" if "bt_wf m" "bt_wf m'" "\<And>k. bt_get m k = bt_get m' k"
    for m m' :: "('k, 'v) btree_map"
    using that by (rule bt_get_ext)
qed (simp_all add: bt_wf_empty bt_get_empty bt_wf_insert bt_get_insert)

section \<open>Removal, filtering and size\<close>

definition bt_remove :: "'k::linorder \<Rightarrow> ('k, 'v) btree_map \<Rightarrow> ('k, 'v) btree_map" where
  "bt_remove k m = filter (\<lambda>e. fst e \<noteq> k) m"

text \<open>\<^verbatim>\<open>BTreeMap::retain\<close>.\<close>

definition bt_retain :: "('k \<Rightarrow> 'v \<Rightarrow> bool) \<Rightarrow> ('k::linorder, 'v) btree_map \<Rightarrow> ('k, 'v) btree_map" where
  "bt_retain P m = filter (\<lambda>e. P (fst e) (snd e)) m"

definition bt_contains_key :: "('k::linorder, 'v) btree_map \<Rightarrow> 'k \<Rightarrow> bool" where
  "bt_contains_key m k = (bt_get m k \<noteq> None)"

definition bt_keys :: "('k::linorder, 'v) btree_map \<Rightarrow> 'k list" where
  "bt_keys m = map fst m"

definition bt_values :: "('k::linorder, 'v) btree_map \<Rightarrow> 'v list" where
  "bt_values m = map snd m"

lemma bt_wf_distinct: "bt_wf m \<Longrightarrow> distinct (map fst m)"
  by (simp add: bt_wf_def strict_sorted_iff)

lemma bt_wf_filter: "bt_wf m \<Longrightarrow> bt_wf (filter P m)"
  by (induction m) (auto simp: bt_wf_Cons bt_wf_def)

lemma bt_get_Some: "bt_wf m \<Longrightarrow> bt_get m k = Some v \<longleftrightarrow> (k, v) \<in> set m"
  by (simp add: bt_get_def bt_wf_distinct)

lemma bt_get_None: "bt_get m k = None \<longleftrightarrow> k \<notin> fst ` set m"
  by (simp add: bt_get_def map_of_eq_None_iff)

lemma bt_wf_retain: "bt_wf m \<Longrightarrow> bt_wf (bt_retain P m)"
  by (simp add: bt_retain_def bt_wf_filter)

lemma bt_get_retain:
  assumes "bt_wf m"
  shows "bt_get (bt_retain P m) k =
    (case bt_get m k of None \<Rightarrow> None | Some v \<Rightarrow> if P k v then Some v else None)"
proof (cases "bt_get (bt_retain P m) k")
  case None
  then show ?thesis using assms
    by (force simp: bt_get_None bt_retain_def bt_get_Some [OF assms] image_iff split: option.splits)
next
  case (Some v)
  then have "(k, v) \<in> set m \<and> P k v"
    by (simp add: bt_get_Some [OF bt_wf_retain [OF assms]]) (simp add: bt_retain_def)
  then show ?thesis using Some by (simp add: bt_get_Some [OF assms, symmetric])
qed

lemma bt_remove_retain: "bt_remove k m = bt_retain (\<lambda>k' v. k' \<noteq> k) m"
  by (simp add: bt_remove_def bt_retain_def)

lemma bt_wf_remove: "bt_wf m \<Longrightarrow> bt_wf (bt_remove k m)"
  by (simp add: bt_remove_retain bt_wf_retain)

lemma bt_get_remove: "bt_wf m \<Longrightarrow> bt_get (bt_remove k m) k' = (if k' = k then None else bt_get m k')"
  by (auto simp: bt_remove_retain bt_get_retain split: option.splits)

lemma bt_get_Cons: "bt_get ((k, v) # m) k' = (if k' = k then Some v else bt_get m k')"
  by (simp add: bt_get_def)

lemma bt_get_Nil: "bt_get [] k = None"
  by (simp add: bt_get_def)

lemma bt_wf_Nil: "bt_wf []"
  by (simp add: bt_wf_def)

text \<open>The laws of an ordered map with removal.\<close>

locale ordered_map_remove = ordered_map empty get insert wf
  for empty :: 'm
    and get :: "'m \<Rightarrow> 'k \<Rightarrow> 'v option"
    and insert :: "'k \<Rightarrow> 'v \<Rightarrow> 'm \<Rightarrow> 'm"
    and wf :: "'m \<Rightarrow> bool" +
  fixes remove :: "'k \<Rightarrow> 'm \<Rightarrow> 'm"
  assumes wf_remove: "wf m \<Longrightarrow> wf (remove k m)"
    and get_remove: "wf m \<Longrightarrow> get (remove k m) k' = (if k' = k then None else get m k')"
begin

lemma remove_absent: "wf m \<Longrightarrow> get m k = None \<Longrightarrow> remove k m = m"
  by (rule get_ext) (simp_all add: wf_remove get_remove)

lemma remove_insert: "wf m \<Longrightarrow> get m k = None \<Longrightarrow> remove k (insert k v m) = m"
  by (rule get_ext) (simp_all add: wf_remove wf_insert get_remove get_insert)

lemma insert_remove: "wf m \<Longrightarrow> get m k = Some v \<Longrightarrow> insert k v (remove k m) = m"
  by (rule get_ext) (simp_all add: wf_remove wf_insert get_remove get_insert)

lemma remove_commute: "wf m \<Longrightarrow> remove k (remove k' m) = remove k' (remove k m)"
  by (rule get_ext) (simp_all add: wf_remove get_remove)

end

interpretation btr: ordered_map_remove
  "bt_empty :: ('k::linorder, 'v) btree_map" bt_get bt_insert bt_wf bt_remove
  by unfold_locales (simp_all add: bt_wf_remove bt_get_remove)

lemma length_bt_insert:
  "length (bt_insert k v m) = (if k \<in> fst ` set m then length m else Suc (length m))" if "bt_wf m"
  using that
proof (induction k v m rule: bt_insert.induct)
  case (2 k v k' v' m)
  then show ?case by (auto simp: bt_wf_Cons)
qed simp

lemma length_bt_remove:
  assumes "bt_wf m"
  shows "length (bt_remove k m) = (if k \<in> fst ` set m then length m - 1 else length m)"
  using assms
proof (induction m)
  case (Cons e m)
  obtain k' v' where e: "e = (k', v')" by (cases e)
  have "bt_remove k' m = m" if "k' \<notin> fst ` set m"
    using that unfolding bt_remove_def by (intro filter_True) (auto simp: image_iff)
  moreover have "length m \<noteq> 0" if "k \<in> fst ` set m" using that by (cases m) auto
  ultimately show ?case using Cons by (auto simp: e bt_wf_Cons bt_remove_def)
qed (simp add: bt_remove_def)

text \<open>A sum over the entries of a map changes by the summand of the entry that is inserted
  or removed.\<close>

lemma sum_list_bt_insert:
  fixes f :: "'k::linorder \<times> 'v \<Rightarrow> 'a::comm_monoid_add"
  assumes "bt_wf m" "bt_get m k = None"
  shows "sum_list (map f (bt_insert k v m)) = f (k, v) + sum_list (map f m)"
  using assms
proof (induction k v m rule: bt_insert.induct)
  case (2 k v k' v' m)
  then show ?case by (auto simp: bt_wf_Cons bt_get_Cons ac_simps split: if_splits)
qed simp

lemma sum_list_bt_remove:
  fixes f :: "'k::linorder \<times> 'v \<Rightarrow> 'a::comm_monoid_add"
  assumes "bt_wf m" "bt_get m k = Some v"
  shows "sum_list (map f m) = f (k, v) + sum_list (map f (bt_remove k m))"
proof -
  have "sum_list (map f (bt_insert k v (bt_remove k m))) = f (k, v) + sum_list (map f (bt_remove k m))"
    using assms by (intro sum_list_bt_insert) (simp_all add: bt_wf_remove bt_get_remove)
  then show ?thesis using assms by (simp add: btr.insert_remove)
qed

end
