(* ===== verification/Praos_State.thy ===== *)
theory Praos_State
  imports Consensus_Types BTree_Map
begin

text \<open>
  The Praos chain-dependent state: \<^verbatim>\<open>ade_core/src/consensus/praos_state.rs\<close> (op-cert
  counters, the five nonces and the bookkeeping fields), \<^verbatim>\<open>nonce.rs\<close> (the two nonce
  transitions) and \<^verbatim>\<open>op_cert.rs\<close>. The hash \<^verbatim>\<open>blake2b_256\<close> is a parameter. The lemmas
  give the state invariant (the counter map is a well-formed ordered map), that counters
  never decrease, and what a whole epoch of headers does to the nonces.
\<close>

section \<open>Data\<close>

type_synonym Nonce = Hash32

definition Nonce_ZERO :: Nonce where
  "Nonce_ZERO = replicate 32 0"

type_synonym OpCertCounterMap = "(Hash28 \<times> u64, u64) btree_map"

definition op_cert_get :: "OpCertCounterMap \<Rightarrow> Hash28 \<Rightarrow> u64 \<Rightarrow> u64 option" where
  "op_cert_get counters pool kes_period = bt_get counters (pool, kes_period)"

definition upsert_strict ::
  "OpCertCounterMap \<Rightarrow> Hash28 \<Rightarrow> u64 \<Rightarrow> u64 \<Rightarrow> (OpCertCounterMap, OpCertCounterError) result" where
  "upsert_strict counters pool kes_period counter =
     (case bt_get counters (pool, kes_period) of
        Some existing \<Rightarrow>
          if counter < existing then Err (Regression existing counter)
          else if counter = existing then Ok counters
          else Ok (bt_insert (pool, kes_period) counter counters)
      | None \<Rightarrow> Ok (bt_insert (pool, kes_period) counter counters))"

record PraosChainDepState =
  ps_evolving_nonce :: Nonce
  ps_candidate_nonce :: Nonce
  ps_epoch_nonce :: Nonce
  ps_previous_epoch_nonce :: Nonce
  ps_lab_nonce :: Nonce
  ps_last_epoch_block :: "EpochNo option"
  ps_last_epoch_block_nonce :: "Nonce option"
  ps_last_slot :: "SlotNo option"
  ps_last_block_no :: "BlockNo option"
  ps_op_cert_counters :: OpCertCounterMap

definition praos_genesis :: "Nonce \<Rightarrow> PraosChainDepState" where
  "praos_genesis initial_nonce =
     \<lparr>ps_evolving_nonce = initial_nonce,
      ps_candidate_nonce = initial_nonce,
      ps_epoch_nonce = initial_nonce,
      ps_previous_epoch_nonce = initial_nonce,
      ps_lab_nonce = initial_nonce,
      ps_last_epoch_block = None,
      ps_last_epoch_block_nonce = None,
      ps_last_slot = None,
      ps_last_block_no = None,
      ps_op_cert_counters = bt_empty\<rparr>"

definition praos_empty :: PraosChainDepState where
  "praos_empty = praos_genesis Nonce_ZERO"

definition overlay_recovered_eta0 :: "PraosChainDepState \<Rightarrow> Nonce \<Rightarrow> PraosChainDepState" where
  "overlay_recovered_eta0 st eta0 =
     (if ps_epoch_nonce st \<noteq> Nonce_ZERO then st
      else st\<lparr>ps_epoch_nonce := eta0, ps_evolving_nonce := eta0\<rparr>)"

section \<open>Op-cert observations\<close>

record OpCertObservation =
  oc_pool :: Hash28
  oc_kes_period :: u64
  oc_counter :: u64

definition apply_op_cert ::
  "PraosChainDepState \<Rightarrow> OpCertObservation \<Rightarrow> (PraosChainDepState, OpCertCounterError) result" where
  "apply_op_cert st observation =
     rbind (upsert_strict (ps_op_cert_counters st) (oc_pool observation)
              (oc_kes_period observation) (oc_counter observation)) (\<lambda>counters.
     Ok (st\<lparr>ps_op_cert_counters := counters\<rparr>))"

section \<open>Nonce evolution\<close>

datatype NonceInput =
    HeaderContribution SlotNo Hash32 VrfOutput SlotNo
  | EpochBoundary EpochNo

text \<open>The operands are 32-byte arrays, so the 64-byte buffer is their concatenation.\<close>

definition combine :: "(bytes \<Rightarrow> Hash32) \<Rightarrow> Nonce \<Rightarrow> Nonce \<Rightarrow> Nonce" where
  "combine blake2b_256 a b = blake2b_256 (a @ b)"

definition nonce_value :: "VrfOutput \<Rightarrow> Nonce" where
  "nonce_value vrf_nonce_output = take 32 vrf_nonce_output"

definition apply_header_contribution ::
  "(bytes \<Rightarrow> Hash32) \<Rightarrow> PraosChainDepState \<Rightarrow> SlotNo \<Rightarrow> Hash32 \<Rightarrow> VrfOutput \<Rightarrow> SlotNo
     \<Rightarrow> (PraosChainDepState, NonceEvolutionError) result" where
  "apply_header_contribution blake2b_256 st slot prev_block_hash vrf_nonce_output freeze_boundary =
     rbind (case ps_last_slot st of
              Some last_slot \<Rightarrow> reject_if (slot \<le> last_slot) (SlotBeforeLast last_slot slot)
            | None \<Rightarrow> Ok ()) (\<lambda>_.
     let evolving_next = combine blake2b_256 (ps_evolving_nonce st) (nonce_value vrf_nonce_output);
         candidate_next = (if slot < freeze_boundary then evolving_next else ps_candidate_nonce st)
     in Ok (st\<lparr>ps_evolving_nonce := evolving_next,
               ps_lab_nonce := prev_block_hash,
               ps_candidate_nonce := candidate_next,
               ps_last_slot := Some slot\<rparr>))"

definition apply_epoch_boundary ::
  "(bytes \<Rightarrow> Hash32) \<Rightarrow> PraosChainDepState \<Rightarrow> EpochNo \<Rightarrow> (PraosChainDepState, NonceEvolutionError) result" where
  "apply_epoch_boundary blake2b_256 st new_epoch =
     (if ps_epoch_nonce st = Nonce_ZERO \<and> ps_candidate_nonce st = Nonce_ZERO
      then Err UninitialisedEpochNonce
      else rbind (ok_or MissingLastEpochBlockNonce (ps_last_epoch_block_nonce st)) (\<lambda>last_epoch_block_nonce.
        Ok (st\<lparr>ps_epoch_nonce := combine blake2b_256 (ps_candidate_nonce st) last_epoch_block_nonce,
               ps_previous_epoch_nonce := ps_epoch_nonce st,
               ps_last_epoch_block_nonce := Some (ps_lab_nonce st),
               ps_last_epoch_block := Some (saturating_sub new_epoch 1)\<rparr>)))"

definition apply_nonce_input ::
  "(bytes \<Rightarrow> Hash32) \<Rightarrow> PraosChainDepState \<Rightarrow> NonceInput \<Rightarrow> (PraosChainDepState, NonceEvolutionError) result" where
  "apply_nonce_input blake2b_256 st input =
     (case input of
        HeaderContribution slot prev_block_hash vrf_nonce_output freeze_boundary \<Rightarrow>
          apply_header_contribution blake2b_256 st slot prev_block_hash vrf_nonce_output freeze_boundary
      | EpochBoundary new_epoch \<Rightarrow> apply_epoch_boundary blake2b_256 st new_epoch)"

section \<open>Counters\<close>

definition counters_le :: "OpCertCounterMap \<Rightarrow> OpCertCounterMap \<Rightarrow> bool" where
  "counters_le m m' \<longleftrightarrow> (\<forall>k v. bt_get m k = Some v \<longrightarrow> (\<exists>v'. bt_get m' k = Some v' \<and> v \<le> v'))"

lemma counters_le_refl [simp]: "counters_le m m"
  by (simp add: counters_le_def)

lemma counters_le_trans: "counters_le a b \<Longrightarrow> counters_le b c \<Longrightarrow> counters_le a c"
  unfolding counters_le_def by (meson order_trans)

lemma upsert_strict_Ok:
  assumes "bt_wf m" and "upsert_strict m pool period counter = Ok m'"
  shows "bt_wf m'" and "bt_get m' (pool, period) = Some counter"
    and "k \<noteq> (pool, period) \<Longrightarrow> bt_get m' k = bt_get m k" and "counters_le m m'"
  using assms
  by (auto simp: upsert_strict_def counters_le_def bt.wf_insert bt.get_insert
      split: option.splits if_splits)

lemma upsert_strict_Err:
  "upsert_strict m pool period counter = Err e \<longleftrightarrow>
     (\<exists>existing. bt_get m (pool, period) = Some existing \<and> counter < existing
        \<and> e = Regression existing counter)"
  by (auto simp: upsert_strict_def split: option.splits if_splits)

text \<open>Observing the same certificate again changes nothing.\<close>

lemma upsert_strict_idem:
  "bt_wf m \<Longrightarrow> upsert_strict m pool period counter = Ok m' \<Longrightarrow>
     upsert_strict m' pool period counter = Ok m'"
  using upsert_strict_Ok(2) [of m pool period counter m'] by (simp add: upsert_strict_def)

section \<open>An epoch of headers\<close>

text \<open>A header's contribution: slot, previous hash and nonce output.\<close>

type_synonym contribution = "SlotNo \<times> Hash32 \<times> VrfOutput"

fun apply_contributions ::
  "(bytes \<Rightarrow> Hash32) \<Rightarrow> SlotNo \<Rightarrow> contribution list \<Rightarrow> PraosChainDepState
     \<Rightarrow> (PraosChainDepState, NonceEvolutionError) result" where
  "apply_contributions h freeze [] st = Ok st"
| "apply_contributions h freeze ((slot, prev, out) # rest) st =
     rbind (apply_nonce_input h st (HeaderContribution slot prev out freeze)) (\<lambda>st'.
     apply_contributions h freeze rest st')"

definition slots_increasing :: "SlotNo option \<Rightarrow> SlotNo list \<Rightarrow> bool" where
  "slots_increasing last_slot slots \<longleftrightarrow>
     sorted_wrt (<) slots \<and> (case last_slot of Some l \<Rightarrow> (\<forall>s\<in>set slots. l < s) | None \<Rightarrow> True)"

definition mix_all :: "(bytes \<Rightarrow> Hash32) \<Rightarrow> Nonce \<Rightarrow> contribution list \<Rightarrow> Nonce" where
  "mix_all h n hs = foldl (\<lambda>acc (_, _, out). combine h acc (nonce_value out)) n hs"

lemma apply_header_contribution_Ok [result_simps]:
  "apply_header_contribution h st slot prev out freeze = Ok st' \<longleftrightarrow>
     (\<forall>l. ps_last_slot st = Some l \<longrightarrow> l < slot)
     \<and> st' = st\<lparr>ps_evolving_nonce := combine h (ps_evolving_nonce st) (nonce_value out),
          ps_lab_nonce := prev,
          ps_candidate_nonce := (if slot < freeze then combine h (ps_evolving_nonce st) (nonce_value out)
            else ps_candidate_nonce st),
          ps_last_slot := Some slot\<rparr>"
  by (auto simp: apply_header_contribution_def Let_def result_simps not_le split: option.splits)

lemma mix_all_Cons: "mix_all h n ((s, p, out) # hs) = mix_all h (combine h n (nonce_value out)) hs"
  by (simp add: mix_all_def)

definition candidate_after :: "(bytes \<Rightarrow> Hash32) \<Rightarrow> SlotNo \<Rightarrow> PraosChainDepState \<Rightarrow> contribution list \<Rightarrow> Nonce" where
  "candidate_after h freeze st hs =
     (let early = filter (\<lambda>c. fst c < freeze) hs
      in if early = [] then ps_candidate_nonce st else mix_all h (ps_evolving_nonce st) early)"

text \<open>
  A run of contributions is accepted exactly when the slots increase strictly; it then
  mixes every output into the evolving nonce and the outputs before the freeze boundary
  into the candidate.
\<close>

lemma apply_contributions_Ok:
  "apply_contributions h freeze hs st = Ok st' \<longleftrightarrow>
     slots_increasing (ps_last_slot st) (map fst hs)
     \<and> st' = (if hs = [] then st else st\<lparr>
          ps_evolving_nonce := mix_all h (ps_evolving_nonce st) hs,
          ps_lab_nonce := fst (snd (last hs)),
          ps_candidate_nonce := candidate_after h freeze st hs,
          ps_last_slot := Some (fst (last hs))\<rparr>)"
proof (induction hs arbitrary: st)
  case Nil
  then show ?case by (auto simp: slots_increasing_def split: option.splits)
next
  case (Cons c hs)
  obtain slot prev out where c: "c = (slot, prev, out)" by (cases c)
  let ?ev = "combine h (ps_evolving_nonce st) (nonce_value out)"
  let ?st1 = "st\<lparr>ps_evolving_nonce := ?ev, ps_lab_nonce := prev,
      ps_candidate_nonce := (if slot < freeze then ?ev else ps_candidate_nonce st),
      ps_last_slot := Some slot\<rparr>"
  have inc: "slots_increasing (ps_last_slot st) (map fst (c # hs)) \<longleftrightarrow>
      (\<forall>l. ps_last_slot st = Some l \<longrightarrow> l < slot) \<and> slots_increasing (Some slot) (map fst hs)"
    by (auto simp: c slots_increasing_def split: option.splits)
  have step: "apply_contributions h freeze (c # hs) st = Ok st' \<longleftrightarrow>
      (\<forall>l. ps_last_slot st = Some l \<longrightarrow> l < slot) \<and> apply_contributions h freeze hs ?st1 = Ok st'"
    by (auto simp: c apply_nonce_input_def result_simps)
  have frozen: "filter (\<lambda>c. fst c < freeze) hs = []"
    if "\<not> slot < freeze" "slots_increasing (Some slot) (map fst hs)"
    using that by (fastforce simp: slots_increasing_def filter_empty_conv)
  have cand: "candidate_after h freeze st (c # hs) = candidate_after h freeze ?st1 hs"
    if "slots_increasing (Some slot) (map fst hs)"
    using frozen [OF _ that] by (auto simp: candidate_after_def c mix_all_Cons Let_def) (simp_all add: mix_all_def)
  show ?case
    unfolding step Cons.IH inc using cand
    by (auto simp: c mix_all_Cons candidate_after_def) (simp_all add: mix_all_def)
qed

section \<open>Properties\<close>

text \<open>
  C37. The nonce of the next epoch is fixed at the freeze boundary: when an epoch's headers are
  applied in order and the epoch tick follows, the new epoch nonce is the candidate combined
  with the last-epoch-block nonce, where the candidate mixes exactly the outputs of the headers
  before the freeze boundary; later headers only reach the evolving nonce. The previous epoch
  nonce and the next combine operand are rotated, and the slots were strictly increasing.
\<close>

theorem epoch_nonce_frozen:
  assumes "apply_contributions hash freeze hs st = Ok st1"
    and "apply_nonce_input hash st1 (EpochBoundary e) = Ok st2"
  shows "slots_increasing (ps_last_slot st) (map fst hs)
    \<and> (\<exists>leb. ps_last_epoch_block_nonce st = Some leb
         \<and> ps_epoch_nonce st2 = combine hash (candidate_after hash freeze st hs) leb)
    \<and> ps_previous_epoch_nonce st2 = ps_epoch_nonce st
    \<and> ps_last_epoch_block_nonce st2 = Some (if hs = [] then ps_lab_nonce st else fst (snd (last hs)))
    \<and> ps_evolving_nonce st2 = mix_all hash (ps_evolving_nonce st) hs
    \<and> ps_op_cert_counters st2 = ps_op_cert_counters st"
  using assms
  by (auto simp: apply_contributions_Ok apply_nonce_input_def apply_epoch_boundary_def result_simps
      candidate_after_def mix_all_def split: if_splits)

definition sample_praos :: PraosChainDepState where
  "sample_praos = (praos_genesis [1])\<lparr>ps_last_epoch_block_nonce := Some [2]\<rparr>"

theorem epoch_nonce_frozen_witness:
  "\<exists>st1 st2. apply_contributions id 15 [(10, [3], [4]), (20, [5], [6])] sample_praos = Ok st1
    \<and> apply_nonce_input id st1 (EpochBoundary 1) = Ok st2
    \<and> ps_epoch_nonce st2 = [1, 4, 2] \<and> ps_evolving_nonce st2 = [1, 4, 6]"
proof -
  let ?hs = "[(10, [3], [4]), (20, [5], [6])] :: contribution list"
  have "length [1 :: u8] \<noteq> length Nonce_ZERO" by (simp add: Nonce_ZERO_def)
  then have ne: "[1] \<noteq> Nonce_ZERO" by metis
  have "is_ok (rbind (apply_contributions id 15 ?hs sample_praos) (\<lambda>st1.
      apply_nonce_input id st1 (EpochBoundary 1)))"
    by (simp add: apply_nonce_input_def apply_header_contribution_def apply_epoch_boundary_def Let_def
        sample_praos_def praos_genesis_def ne)
  then obtain st1 st2 where st1: "apply_contributions id 15 ?hs sample_praos = Ok st1"
      and st2: "apply_nonce_input id st1 (EpochBoundary 1) = Ok st2"
    by (fastforce simp: is_ok_def result_simps split: sum.splits)
  show ?thesis using st1 st2 epoch_nonce_frozen [OF st1 st2]
    by (auto simp: sample_praos_def praos_genesis_def candidate_after_def mix_all_def combine_def nonce_value_def)
qed

text \<open>
  The op-cert counters are monotone: an observation is rejected exactly when its counter is
  below the recorded one for its pool and KES period, and the error carries both; otherwise the
  counter becomes the recorded one, no other entry changes, no counter decreases, the map
  stays ordered, nothing else of the state changes, and repeating the observation is accepted
  without effect.
\<close>

theorem apply_op_cert_monotone:
  assumes "bt_wf (ps_op_cert_counters st)"
  shows "case apply_op_cert st obs of
      Err e \<Rightarrow> (\<exists>existing. op_cert_get (ps_op_cert_counters st) (oc_pool obs) (oc_kes_period obs) = Some existing
        \<and> oc_counter obs < existing \<and> e = Regression existing (oc_counter obs))
    | Ok st' \<Rightarrow> op_cert_get (ps_op_cert_counters st') (oc_pool obs) (oc_kes_period obs) = Some (oc_counter obs)
        \<and> (\<forall>p k. (p, k) \<noteq> (oc_pool obs, oc_kes_period obs) \<longrightarrow>
             op_cert_get (ps_op_cert_counters st') p k = op_cert_get (ps_op_cert_counters st) p k)
        \<and> counters_le (ps_op_cert_counters st) (ps_op_cert_counters st')
        \<and> bt_wf (ps_op_cert_counters st')
        \<and> st'\<lparr>ps_op_cert_counters := ps_op_cert_counters st\<rparr> = st
        \<and> apply_op_cert st' obs = Ok st'"
proof (cases "apply_op_cert st obs")
  case (Inl e)
  then have "upsert_strict (ps_op_cert_counters st) (oc_pool obs) (oc_kes_period obs) (oc_counter obs) = Err e"
    by (simp add: apply_op_cert_def result_simps)
  with Inl show ?thesis by (simp add: upsert_strict_Err op_cert_get_def)
next
  case (Inr st')
  then obtain m where m: "upsert_strict (ps_op_cert_counters st) (oc_pool obs) (oc_kes_period obs)
      (oc_counter obs) = Ok m" "st' = st\<lparr>ps_op_cert_counters := m\<rparr>"
    by (auto simp: apply_op_cert_def result_simps)
  note u = upsert_strict_Ok [OF assms m(1)]
  have "apply_op_cert st' obs = Ok st'"
    using upsert_strict_idem [OF assms m(1)] by (simp add: apply_op_cert_def m(2))
  with Inr m(2) u show ?thesis by (simp add: op_cert_get_def)
qed

theorem apply_op_cert_monotone_witness:
  "\<exists>st'. apply_op_cert (praos_genesis [1]) \<lparr>oc_pool = [9], oc_kes_period = 3, oc_counter = 5\<rparr> = Ok st'
    \<and> op_cert_get (ps_op_cert_counters st') [9] 3 = Some 5"
proof -
  let ?obs = "\<lparr>oc_pool = [9], oc_kes_period = 3, oc_counter = 5\<rparr> :: OpCertObservation"
  have wf: "bt_wf (ps_op_cert_counters (praos_genesis [1]))"
    by (simp add: praos_genesis_def bt.wf_empty)
  have "is_ok (apply_op_cert (praos_genesis [1]) ?obs)"
    by (simp add: apply_op_cert_def upsert_strict_def praos_genesis_def bt.get_empty)
  then show ?thesis using apply_op_cert_monotone [OF wf, of ?obs]
    by (auto simp: is_ok_def split: sum.splits)
qed

end
