(* ===== verification/Fork_Choice.thy ===== *)
theory Fork_Choice
  imports Praos_State "HOL-Library.Multiset"
begin

text \<open>
  Chain selection: \<^verbatim>\<open>ade_core/src/consensus/candidate.rs\<close> (tiebreaker order, candidate and
  selector state), \<^verbatim>\<open>fork_choice.rs\<close> (\<open>select_best_chain\<close>) and \<^verbatim>\<open>rollback.rs\<close>
  (\<open>apply_rollback\<close>). The preference order is an instance of the locale \<open>comparison\<close>, and
  the scan for the best candidate is verified once for every such order. Selections and
  rollbacks together form a step relation, whose runs never move or cross the immutable
  tip.
\<close>

section \<open>Data\<close>

record TiebreakerView =
  tb_slot :: SlotNo
  tb_issuer_hash :: Hash28
  tb_op_cert_counter :: u64
  tb_leader_vrf_output_first_8 :: bytes

record CandidateFragment =
  cf_anchor :: Point
  cf_anchor_block_no :: BlockNo
  cf_headers :: "ValidatedHeaderSummary list"
  cf_select_view :: TiebreakerView
  cf_rollback_depth :: BlockDistance

record ChainSelectorState =
  cs_current_tip :: Point
  cs_current_tip_block_no :: BlockNo
  cs_current_tiebreaker :: TiebreakerView
  cs_immutable_tip :: Point
  cs_immutable_tip_block_no :: BlockNo
  cs_security_param :: SecurityParam

datatype ForkChoiceError = NoCandidates

record EligibleCandidate =
  ec_tip_block_no :: BlockNo
  ec_tip_tiebreaker :: TiebreakerView
  ec_tip_point :: Point

section \<open>The preference order\<close>

definition tiebreaker_prefer :: "TiebreakerView \<Rightarrow> TiebreakerView \<Rightarrow> ordering" where
  "tiebreaker_prefer a b =
     then_with (cmp (tb_slot a) (tb_slot b))
    (then_with (cmp_bytes (tb_issuer_hash a) (tb_issuer_hash b))
    (then_with (cmp (tb_op_cert_counter b) (tb_op_cert_counter a))
               (cmp_bytes (tb_leader_vrf_output_first_8 a) (tb_leader_vrf_output_first_8 b))))"

definition compare_select_view :: "BlockNo \<Rightarrow> TiebreakerView \<Rightarrow> BlockNo \<Rightarrow> TiebreakerView \<Rightarrow> ordering" where
  "compare_select_view lhs_block_no lhs_tb rhs_block_no rhs_tb =
     (case cmp rhs_block_no lhs_block_no of
        Equal \<Rightarrow> tiebreaker_prefer lhs_tb rhs_tb
      | non_eq \<Rightarrow> non_eq)"

section \<open>Selection\<close>

definition candidate_tip_block_no :: "CandidateFragment \<Rightarrow> BlockNo" where
  "candidate_tip_block_no c = saturating_add (cf_anchor_block_no c) (word_of_nat (length (cf_headers c)))"

definition candidate_tip_point :: "CandidateFragment \<Rightarrow> Point" where
  "candidate_tip_point c =
     (if cf_headers c = [] then cf_anchor c
      else \<lparr>pt_slot = vh_slot (last (cf_headers c)), pt_hash = vh_body_hash (last (cf_headers c))\<rparr>)"

text \<open>One iteration of the partition loop: a reject entry or an eligible projection.\<close>

definition classify ::
  "ChainSelectorState \<Rightarrow> CandidateFragment \<Rightarrow> (EligibleCandidate, BlockNo \<times> ChainSelectionReject) result" where
  "classify st c =
     (if pt_slot (cf_anchor c) < pt_slot (cs_immutable_tip st)
      then Err (candidate_tip_block_no c,
                ForkBeforeImmutableTip (cs_immutable_tip st) (cf_anchor c) (cf_rollback_depth c) (cs_security_param st))
      else if cs_security_param st < cf_rollback_depth c
      then Err (candidate_tip_block_no c, ExceededRollback (cf_rollback_depth c) (cs_security_param st))
      else Ok \<lparr>ec_tip_block_no = candidate_tip_block_no c, ec_tip_tiebreaker = cf_select_view c,
               ec_tip_point = candidate_tip_point c\<rparr>)"

fun partition_candidates ::
  "ChainSelectorState \<Rightarrow> CandidateFragment list
     \<Rightarrow> EligibleCandidate list \<times> (BlockNo \<times> ChainSelectionReject) list" where
  "partition_candidates st [] = ([], [])"
| "partition_candidates st (c # cs) =
     (let (eligible, ineligible) = partition_candidates st cs
      in case classify st c of
           Ok e \<Rightarrow> (e # eligible, ineligible)
         | Err r \<Rightarrow> (eligible, r # ineligible))"

text \<open>
  Both scans of the source keep the index of the best entry so far and replace it when a
  later entry is better.
\<close>

definition scan_best :: "('a \<Rightarrow> 'a \<Rightarrow> bool) \<Rightarrow> 'a list \<Rightarrow> nat" where
  "scan_best better xs =
     foldl (\<lambda>best_idx i. if better (xs ! i) (xs ! best_idx) then i else best_idx) 0 [1 ..< length xs]"

definition better_candidate :: "EligibleCandidate \<Rightarrow> EligibleCandidate \<Rightarrow> bool" where
  "better_candidate cand best \<longleftrightarrow>
     compare_select_view (ec_tip_block_no cand) (ec_tip_tiebreaker cand)
       (ec_tip_block_no best) (ec_tip_tiebreaker best) = Less"

definition select_best_chain ::
  "ChainSelectorState \<Rightarrow> CandidateFragment list \<Rightarrow> (ChainSelectorState \<times> ChainEvent, ForkChoiceError) result" where
  "select_best_chain st candidates =
     (if candidates = [] then Err NoCandidates
      else
        (let (eligible, ineligible) = partition_candidates st candidates
         in if eligible = []
            then Ok (st, Rejected (snd (ineligible ! scan_best (\<lambda>x y. fst y < fst x) ineligible)))
            else
              (let best = eligible ! scan_best better_candidate eligible
               in if compare_select_view (ec_tip_block_no best) (ec_tip_tiebreaker best)
                       (cs_current_tip_block_no st) (cs_current_tiebreaker st) = Less
                  then Ok (st\<lparr>cs_current_tip := ec_tip_point best,
                              cs_current_tip_block_no := ec_tip_block_no best,
                              cs_current_tiebreaker := ec_tip_tiebreaker best\<rparr>,
                           ChainSelected (ec_tip_point best) (Some (cs_current_tip st)))
                  else Ok (st, Rejected (TiebreakerLossKeepCurrent (cs_current_tip st) (ec_tip_point best))))))"

section \<open>Rollback\<close>

record RollBackRequest =
  rb_to_point :: Point
  rb_to_block_no :: BlockNo
  rb_depth :: BlockDistance

record RollBackApplied =
  ra_new_state :: ChainSelectorState
  ra_new_chain_dep :: PraosChainDepState
  ra_event :: ChainEvent

definition apply_rollback ::
  "ChainSelectorState \<Rightarrow> PraosChainDepState \<Rightarrow> PraosChainDepState \<Rightarrow> TiebreakerView \<Rightarrow> RollBackRequest
     \<Rightarrow> RollBackApplied" where
  "apply_rollback st chain_dep rolled_back_chain_dep rolled_back_tiebreaker request =
     (if rb_to_block_no request < cs_immutable_tip_block_no st
      then \<lparr>ra_new_state = st, ra_new_chain_dep = chain_dep,
            ra_event = Rejected (ForkBeforeImmutableTip (cs_immutable_tip st) (rb_to_point request)
              (rb_depth request) (cs_security_param st))\<rparr>
      else if cs_security_param st < rb_depth request
      then \<lparr>ra_new_state = st, ra_new_chain_dep = chain_dep,
            ra_event = Rejected (ExceededRollback (rb_depth request) (cs_security_param st))\<rparr>
      else \<lparr>ra_new_state = st\<lparr>cs_current_tip := rb_to_point request,
              cs_current_tip_block_no := rb_to_block_no request,
              cs_current_tiebreaker := rolled_back_tiebreaker\<rparr>,
            ra_new_chain_dep = rolled_back_chain_dep,
            ra_event = RolledBack (rb_to_point request) (rb_depth request)\<rparr>)"

section \<open>The order is total\<close>

lemma comparison_reverse:
  assumes "comparison c"
  shows "comparison (\<lambda>x y. c y x)"
proof
  show "c y x = Equal \<longleftrightarrow> x = y" for x y
    using comparison.compare_equal [OF assms] by auto
  show "c y x = Less \<longleftrightarrow> c x y = Greater" for x y
    by (rule comparison.compare_swap [OF assms])
  show "c z x = Less" if "c y x = Less" "c z y = Less" for x y z
    using that(2,1) by (rule comparison.compare_trans [OF assms])
qed

lemma comparison_inj:
  assumes "comparison c" and "inj f"
  shows "comparison (\<lambda>x y. c (f x) (f y))"
proof
  show "c (f x) (f y) = Equal \<longleftrightarrow> x = y" for x y
    using comparison.compare_equal [OF assms(1)] assms(2) by (simp add: inj_eq)
  show "c (f x) (f y) = Less \<longleftrightarrow> c (f y) (f x) = Greater" for x y
    by (rule comparison.compare_swap [OF assms(1)])
  show "c (f x) (f z) = Less" if "c (f x) (f y) = Less" "c (f y) (f z) = Less" for x y z
    using that by (rule comparison.compare_trans [OF assms(1)])
qed

text \<open>Lexicographic composition.\<close>

lemma comparison_pair:
  assumes "comparison c" and "comparison d"
  shows "comparison (\<lambda>x y. then_with (c (fst x) (fst y)) (d (snd x) (snd y)))"
proof -
  have ceq: "c u v = Equal \<longleftrightarrow> u = v" and cswap: "c u v = Less \<longleftrightarrow> c v u = Greater"
    and ctrans: "c u v = Less \<Longrightarrow> c v w = Less \<Longrightarrow> c u w = Less" for u v w
    using assms(1) unfolding comparison_def by blast+
  have deq: "d u v = Equal \<longleftrightarrow> u = v" and dswap: "d u v = Less \<longleftrightarrow> d v u = Greater"
    and dtrans: "d u v = Less \<Longrightarrow> d v w = Less \<Longrightarrow> d u w = Less" for u v w
    using assms(2) unfolding comparison_def by blast+
  let ?e = "\<lambda>x y. then_with (c (fst x) (fst y)) (d (snd x) (snd y))"
  have less: "?e x y = Less \<longleftrightarrow> c (fst x) (fst y) = Less \<or> fst x = fst y \<and> d (snd x) (snd y) = Less" for x y
    using ceq [of "fst x" "fst y"] by (cases "c (fst x) (fst y)") auto
  have greater: "?e x y = Greater \<longleftrightarrow> c (fst x) (fst y) = Greater \<or> fst x = fst y \<and> d (snd x) (snd y) = Greater" for x y
    using ceq [of "fst x" "fst y"] by (cases "c (fst x) (fst y)") auto
  show ?thesis
  proof
    show "?e x y = Equal \<longleftrightarrow> x = y" for x y
      using ceq [of "fst x" "fst y"] deq [of "snd x" "snd y"]
      by (cases "c (fst x) (fst y)") (auto simp: prod_eq_iff)
    show "?e x y = Less \<longleftrightarrow> ?e y x = Greater" for x y
      unfolding less greater using cswap dswap by metis
    show "?e x z = Less" if "?e x y = Less" "?e y z = Less" for x y z
      using that unfolding less using ctrans dtrans by metis
  qed
qed

lemma tiebreaker_comparison: "comparison tiebreaker_prefer"
proof -
  let ?view = "\<lambda>t :: TiebreakerView.
    (tb_slot t, tb_issuer_hash t, tb_op_cert_counter t, tb_leader_vrf_output_first_8 t)"
  have "inj ?view" by (rule injI) simp
  note lex = comparison_inj [OF comparison_pair [OF cmp_linorder.comparison_axioms
      comparison_pair [OF cmp_byte_array.comparison_axioms
      comparison_pair [OF comparison_reverse [OF cmp_linorder.comparison_axioms]
      cmp_byte_array.comparison_axioms]]] this]
  then show ?thesis by (simp add: tiebreaker_prefer_def [abs_def])
qed

interpretation select_view: comparison
  "\<lambda>x y. compare_select_view (fst x) (snd x) (fst y) (snd y)"
proof -
  have "compare_select_view a s b t = then_with (cmp b a) (tiebreaker_prefer s t)" for a b s t
    by (simp add: compare_select_view_def then_with_def)
  then show "comparison (\<lambda>x y. compare_select_view (fst x) (snd x) (fst y) (snd y))"
    using comparison_pair [OF comparison_reverse [OF cmp_linorder.comparison_axioms] tiebreaker_comparison]
    by simp
qed

section \<open>The scan\<close>

lemma scan_best_Suc:
  "scan_best better (xs @ [x]) = (if xs = [] then 0
     else if better x (xs ! scan_best better xs) then length xs else scan_best better xs)"
proof (cases "xs = []")
  case False
  have fold_less: "foldl (\<lambda>b i. if better (ys ! i) (ys ! b) then i else b) 0 [1 ..< n] < n"
    if "0 < n" for n :: nat and ys
    using that by (induction n) (auto simp: less_Suc_eq)
  have cong: "foldl (\<lambda>b i. if better ((xs @ [x]) ! i) ((xs @ [x]) ! b) then i else b) 0 [1 ..< n]
      = foldl (\<lambda>b i. if better (xs ! i) (xs ! b) then i else b) 0 [1 ..< n]" if "n \<le> length xs" for n
    using that
  proof (induction n)
    case (Suc n)
    show ?case
    proof (cases n)
      case (Suc m)
      then have "foldl (\<lambda>b i. if better (xs ! i) (xs ! b) then i else b) 0 [1 ..< n] < length xs"
        using fold_less [of n xs] \<open>Suc n \<le> length xs\<close> by simp
      then show ?thesis using Suc.IH \<open>Suc n \<le> length xs\<close> Suc by (simp add: nth_append)
    qed simp
  qed simp
  have "scan_best better xs < length xs"
    using fold_less [of "length xs" xs] False by (simp add: scan_best_def)
  then show ?thesis using False cong [of "length xs"]
    by (auto simp: scan_best_def nth_append)
qed (simp add: scan_best_def)

lemma scan_best_single [simp]: "scan_best better [x] = 0"
  by (simp add: scan_best_def)

lemma scan_best_less: "xs \<noteq> [] \<Longrightarrow> scan_best better xs < length xs"
  by (induction xs rule: rev_induct) (auto simp: scan_best_Suc less_Suc_eq)

context comparison
begin

text \<open>No entry is better than the one the scan returns.\<close>

lemma scan_best_maximal:
  assumes "x \<in> set xs"
  shows "compare (key x) (key (xs ! scan_best (\<lambda>a b. compare (key a) (key b) = Less) xs)) \<noteq> Less"
  using assms
proof (induction xs rule: rev_induct)
  case (snoc y ys)
  let ?s = "scan_best (\<lambda>a b. compare (key a) (key b) = Less)"
  show ?case
  proof (cases "ys = []")
    case True
    with snoc.prems show ?thesis by (simp add: scan_best_Suc)
  next
    case False
    then have less: "?s ys < length ys" by (rule scan_best_less)
    let ?b = "ys ! ?s ys"
    show ?thesis
    proof (cases "compare (key y) (key ?b) = Less")
      case better: True
      have "compare (key x) (key y) \<noteq> Less"
      proof (cases "x = y")
        case False
        with snoc have "compare (key x) (key ?b) \<noteq> Less" by simp
        then show ?thesis using better compare_trans by blast
      qed simp
      with better False show ?thesis by (simp add: scan_best_Suc)
    next
      case kept: False
      have "compare (key x) (key ?b) \<noteq> Less"
        using snoc kept by (cases "x = y") auto
      with kept False less show ?thesis by (simp add: scan_best_Suc nth_append)
    qed
  qed
qed simp

text \<open>Two entries that no entry of the other list beats have the same key.\<close>

lemma mutual_best_equal:
  "compare x y \<noteq> Less \<Longrightarrow> compare y x \<noteq> Less \<Longrightarrow> x = y"
  using compare_equal compare_swap ordering.exhaust by metis

end

section \<open>What a selection does\<close>

definition admissible :: "ChainSelectorState \<Rightarrow> CandidateFragment \<Rightarrow> bool" where
  "admissible st c \<longleftrightarrow>
     pt_slot (cs_immutable_tip st) \<le> pt_slot (cf_anchor c) \<and> cf_rollback_depth c \<le> cs_security_param st"

definition candidate_view :: "CandidateFragment \<Rightarrow> BlockNo \<times> TiebreakerView" where
  "candidate_view c = (candidate_tip_block_no c, cf_select_view c)"

definition current_view :: "ChainSelectorState \<Rightarrow> BlockNo \<times> TiebreakerView" where
  "current_view st = (cs_current_tip_block_no st, cs_current_tiebreaker st)"

definition preferred :: "BlockNo \<times> TiebreakerView \<Rightarrow> BlockNo \<times> TiebreakerView \<Rightarrow> bool" where
  "preferred x y \<longleftrightarrow> compare_select_view (fst x) (snd x) (fst y) (snd y) = Less"

definition adopt :: "ChainSelectorState \<Rightarrow> CandidateFragment \<Rightarrow> ChainSelectorState" where
  "adopt st c = st\<lparr>cs_current_tip := candidate_tip_point c,
     cs_current_tip_block_no := candidate_tip_block_no c, cs_current_tiebreaker := cf_select_view c\<rparr>"

definition projection :: "CandidateFragment \<Rightarrow> EligibleCandidate" where
  "projection c = \<lparr>ec_tip_block_no = candidate_tip_block_no c, ec_tip_tiebreaker = cf_select_view c,
     ec_tip_point = candidate_tip_point c\<rparr>"

lemma classify_cases:
  "classify st c = (if admissible st c then Ok (projection c) else classify st c)"
  "\<not> admissible st c \<Longrightarrow> \<exists>r. classify st c = Err r \<and> fst r = candidate_tip_block_no c"
  by (auto simp: classify_def admissible_def projection_def not_less)

lemma partition_eligible:
  "fst (partition_candidates st cs) = map projection (filter (admissible st) cs)"
proof (induction cs)
  case (Cons c cs)
  then show ?case
    using classify_cases [of st c]
    by (cases "admissible st c") (auto simp: split_beta Let_def split: if_splits)
qed simp

lemma partition_ineligible:
  "snd (partition_candidates st cs) = map (\<lambda>c. projl (classify st c)) (filter (\<lambda>c. \<not> admissible st c) cs)"
proof (induction cs)
  case (Cons c cs)
  then show ?case
    using classify_cases [of st c]
    by (cases "admissible st c") (auto simp: split_beta Let_def split: if_splits)
qed simp

lemma better_candidate_projection:
  "better_candidate (projection c) (projection d) \<longleftrightarrow> preferred (candidate_view c) (candidate_view d)"
  by (simp add: better_candidate_def projection_def preferred_def candidate_view_def)

lemma scan_best_map: "xs \<noteq> [] \<Longrightarrow> scan_best better (map f xs) = scan_best (\<lambda>a b. better (f a) (f b)) xs"
proof (induction xs rule: rev_induct)
  case (snoc x xs)
  then show ?case
    by (cases "xs = []") (simp_all add: scan_best_Suc scan_best_less)
qed simp

text \<open>The candidate the scan picks among the admissible ones.\<close>

definition best_candidate :: "ChainSelectorState \<Rightarrow> CandidateFragment list \<Rightarrow> CandidateFragment" where
  "best_candidate st cs =
     (let es = filter (admissible st) cs
      in es ! scan_best (\<lambda>c d. preferred (candidate_view c) (candidate_view d)) es)"

lemma best_candidate_in:
  assumes "filter (admissible st) cs \<noteq> []"
  shows "best_candidate st cs \<in> set cs" and "admissible st (best_candidate st cs)"
proof -
  have "best_candidate st cs \<in> set (filter (admissible st) cs)"
    using scan_best_less [OF assms] unfolding best_candidate_def Let_def by (rule nth_mem)
  then show "best_candidate st cs \<in> set cs" and "admissible st (best_candidate st cs)" by simp_all
qed

lemma best_candidate_maximal:
  assumes "c \<in> set cs" and "admissible st c"
  shows "\<not> preferred (candidate_view c) (candidate_view (best_candidate st cs))"
  using select_view.scan_best_maximal [of c "filter (admissible st) cs" candidate_view] assms
  by (simp add: best_candidate_def Let_def preferred_def)

lemma select_best_chain_eligible:
  assumes "filter (admissible st) cs \<noteq> []"
  defines "b \<equiv> best_candidate st cs"
  shows "select_best_chain st cs =
    (if preferred (candidate_view b) (current_view st)
     then Ok (adopt st b, ChainSelected (candidate_tip_point b) (Some (cs_current_tip st)))
     else Ok (st, Rejected (TiebreakerLossKeepCurrent (cs_current_tip st) (candidate_tip_point b))))"
proof -
  let ?es = "filter (admissible st) cs"
  have "scan_best better_candidate (map projection ?es)
      = scan_best (\<lambda>c d. preferred (candidate_view c) (candidate_view d)) ?es"
    using assms(1) by (simp add: scan_best_map better_candidate_projection)
  then have best: "map projection ?es ! scan_best better_candidate (map projection ?es) = projection b"
    using scan_best_less [OF assms(1)] by (simp add: b_def best_candidate_def Let_def)
  have "cs \<noteq> []" using assms(1) by auto
  moreover have "fst (partition_candidates st cs) = map projection ?es" by (rule partition_eligible)
  ultimately show ?thesis
    using assms(1) best
    by (simp add: select_best_chain_def split_beta Let_def adopt_def preferred_def candidate_view_def
        current_view_def) (simp add: projection_def)
qed

lemma select_best_chain_ineligible:
  assumes "filter (admissible st) cs = []" and "cs \<noteq> []"
  shows "\<exists>c r. c \<in> set cs \<and> classify st c = Err (candidate_tip_block_no c, r)
    \<and> (\<forall>d\<in>set cs. candidate_tip_block_no d \<le> candidate_tip_block_no c)
    \<and> select_best_chain st cs = Ok (st, Rejected r)"
proof -
  let ?inel = "map (\<lambda>c. projl (classify st c)) cs"
  have all: "\<not> admissible st c" if "c \<in> set cs" for c using assms(1) that by (simp add: filter_empty_conv)
  then have "filter (\<lambda>c. \<not> admissible st c) cs = cs" by (simp add: filter_id_conv)
  then have part: "snd (partition_candidates st cs) = ?inel" by (simp add: partition_ineligible)
  have keys: "fst (projl (classify st c)) = candidate_tip_block_no c" if "c \<in> set cs" for c
    using classify_cases(2) [OF all [OF that]] by auto
  let ?i = "scan_best (\<lambda>x y. fst y < fst x) ?inel"
  have i: "?i < length cs" using scan_best_less [of ?inel] assms(2) by simp
  then have c: "cs ! ?i \<in> set cs" by simp
  obtain r where r: "classify st (cs ! ?i) = Err (candidate_tip_block_no (cs ! ?i), r)"
    using classify_cases(2) [OF all [OF c]] by auto
  have "\<forall>d\<in>set cs. candidate_tip_block_no d \<le> candidate_tip_block_no (cs ! ?i)"
  proof
    fix d assume d: "d \<in> set cs"
    then have "projl (classify st d) \<in> set ?inel" by simp
    then have "\<not> fst (?inel ! ?i) < fst (projl (classify st d))"
      using comparison.scan_best_maximal [OF comparison_reverse [OF cmp_linorder.comparison_axioms],
          of "projl (classify st d)" ?inel fst] by simp
    then show "candidate_tip_block_no d \<le> candidate_tip_block_no (cs ! ?i)"
      using keys [OF d] keys [OF c] i by simp
  qed
  moreover have "select_best_chain st cs = Ok (st, Rejected r)"
    using assms part r i by (simp add: select_best_chain_def split_beta Let_def partition_eligible)
  ultimately show ?thesis using c r by blast
qed

section \<open>Batches and runs\<close>

fun select_batches ::
  "ChainSelectorState \<Rightarrow> CandidateFragment list list \<Rightarrow> (ChainSelectorState, ForkChoiceError) result" where
  "select_batches st [] = Ok st"
| "select_batches st (b # bs) = rbind (select_best_chain st b) (\<lambda>(st', _). select_batches st' bs)"

lemma select_best_chain_Ok:
  assumes "cs \<noteq> []"
  obtains st' ev where "select_best_chain st cs = Ok (st', ev)"
    and "st' = st \<or> (\<exists>c\<in>set cs. admissible st c \<and> st' = adopt st c
           \<and> preferred (candidate_view c) (current_view st))"
    and "\<forall>c\<in>set cs. admissible st c \<longrightarrow> \<not> preferred (candidate_view c) (current_view st')"
proof (cases "filter (admissible st) cs = []")
  case True
  then show ?thesis
    using select_best_chain_ineligible [OF True assms] that [of st]
    by (auto simp: filter_empty_conv)
next
  case False
  let ?b = "best_candidate st cs"
  note facts = best_candidate_in [OF False] best_candidate_maximal [of _ cs st]
  show ?thesis
  proof (cases "preferred (candidate_view ?b) (current_view st)")
    case True
    have "current_view (adopt st ?b) = candidate_view ?b"
      by (simp add: current_view_def adopt_def candidate_view_def)
    with True False facts show ?thesis
      by (intro that [of "adopt st ?b"]) (auto simp: select_best_chain_eligible)
  next
    case kept: False
    have "\<not> preferred (candidate_view c) (current_view st)" if "c \<in> set cs" "admissible st c" for c
      using kept facts(3) [OF that] unfolding preferred_def
      by (metis (no_types) select_view.compare_not_less_trans)
    with kept False show ?thesis
      by (intro that [of st]) (auto simp: select_best_chain_eligible)
  qed
qed

lemma adopt_keeps [simp]:
  "cs_immutable_tip (adopt st c) = cs_immutable_tip st"
  "cs_immutable_tip_block_no (adopt st c) = cs_immutable_tip_block_no st"
  "cs_security_param (adopt st c) = cs_security_param st"
  "admissible (adopt st c) d = admissible st d"
  "current_view (adopt st c) = candidate_view c"
  by (simp_all add: adopt_def admissible_def current_view_def candidate_view_def)

text \<open>The views a selector may end on, given the candidates it was offered.\<close>

definition reachable_views :: "ChainSelectorState \<Rightarrow> CandidateFragment set \<Rightarrow> (BlockNo \<times> TiebreakerView) set" where
  "reachable_views st cs = insert (current_view st) (candidate_view ` {c \<in> cs. admissible st c})"

lemma select_batches_best:
  assumes "[] \<notin> set bs"
  shows "\<exists>st'. select_batches st bs = Ok st'
    \<and> current_view st' \<in> reachable_views st (set (concat bs))
    \<and> (\<forall>v\<in>reachable_views st (set (concat bs)). \<not> preferred v (current_view st'))"
  using assms
proof (induction bs arbitrary: st)
  case Nil
  have "\<not> preferred v v" for v by (simp add: preferred_def select_view.compare_self)
  then show ?case by (simp add: reachable_views_def)
next
  case (Cons b bs)
  then have "b \<noteq> []" by auto
  then obtain st1 ev where st1: "select_best_chain st b = Ok (st1, ev)"
      "st1 = st \<or> (\<exists>c\<in>set b. admissible st c \<and> st1 = adopt st c
         \<and> preferred (candidate_view c) (current_view st))"
      "\<forall>c\<in>set b. admissible st c \<longrightarrow> \<not> preferred (candidate_view c) (current_view st1)"
    by (rule select_best_chain_Ok)
  obtain st' where st': "select_batches st1 bs = Ok st'"
      "current_view st' \<in> reachable_views st1 (set (concat bs))"
      "\<forall>v\<in>reachable_views st1 (set (concat bs)). \<not> preferred v (current_view st')"
    using Cons by auto
  have adm: "admissible st1 c = admissible st c" for c using st1(2) by auto
  have trans: "\<not> preferred v w" if "\<not> preferred v u" "\<not> preferred u w" for u v w
    using that select_view.compare_not_less_trans unfolding preferred_def by blast
  have last: "\<not> preferred (current_view st1) (current_view st')"
    using st'(3) by (simp add: reachable_views_def)
  have "\<not> preferred (current_view st) (current_view st1)"
    using st1(2) select_view.compare_less_asym by (auto simp: preferred_def)
  then have from_st: "\<not> preferred (current_view st) (current_view st')" by (rule trans [OF _ last])
  have from_c: "\<not> preferred (candidate_view c) (current_view st')"
    if "c \<in> set (concat (b # bs))" "admissible st c" for c
  proof (cases "c \<in> set b")
    case True
    with st1(3) that(2) have "\<not> preferred (candidate_view c) (current_view st1)" by blast
    then show ?thesis by (rule trans [OF _ last])
  next
    case False
    with that st'(3) show ?thesis by (auto simp: reachable_views_def adm)
  qed
  have "\<forall>v\<in>reachable_views st (set (concat (b # bs))). \<not> preferred v (current_view st')"
    unfolding reachable_views_def using from_st from_c by blast
  moreover have "current_view st' \<in> reachable_views st (set (concat (b # bs)))"
    using st'(2) st1(2) by (auto simp: reachable_views_def)
  ultimately show ?case using st1(1) st'(1) by auto
qed

text \<open>Selections and rollbacks in any order, with whatever the caller supplies.\<close>

inductive selector_step ::
  "ChainSelectorState \<times> PraosChainDepState \<Rightarrow> ChainSelectorState \<times> PraosChainDepState \<Rightarrow> bool" where
  select: "select_best_chain st cs = Ok (st', ev) \<Longrightarrow> selector_step (st, dep) (st', dep)"
| rollback: "apply_rollback st dep dep' tb req = r \<Longrightarrow>
    selector_step (st, dep) (ra_new_state r, ra_new_chain_dep r)"

lemma preferred_block_no: "preferred x y \<Longrightarrow> fst y \<le> fst x"
  by (auto simp: preferred_def compare_select_view_def split: ordering.splits)

lemma selector_step_invariant:
  assumes "selector_step s s'"
  shows "cs_immutable_tip (fst s') = cs_immutable_tip (fst s)
    \<and> cs_immutable_tip_block_no (fst s') = cs_immutable_tip_block_no (fst s)
    \<and> cs_security_param (fst s') = cs_security_param (fst s)
    \<and> (cs_immutable_tip_block_no (fst s) \<le> cs_current_tip_block_no (fst s) \<longrightarrow>
        cs_immutable_tip_block_no (fst s') \<le> cs_current_tip_block_no (fst s'))"
  using assms
proof cases
  case (select st cs st' ev dep)
  then have "cs \<noteq> []" by (auto simp: select_best_chain_def)
  then obtain st1 ev1 where "select_best_chain st cs = Ok (st1, ev1)"
    "st1 = st \<or> (\<exists>c\<in>set cs. admissible st c \<and> st1 = adopt st c \<and> preferred (candidate_view c) (current_view st))"
    by (rule select_best_chain_Ok)
  with select show ?thesis
    by (auto dest!: preferred_block_no simp: current_view_def candidate_view_def adopt_def)
next
  case (rollback st dep dep' tb req r)
  then show ?thesis by (auto simp: apply_rollback_def not_less)
qed

section \<open>Properties\<close>

definition sample_view :: "u64 \<Rightarrow> TiebreakerView" where
  "sample_view slot = \<lparr>tb_slot = slot, tb_issuer_hash = [1], tb_op_cert_counter = 0,
     tb_leader_vrf_output_first_8 = [0]\<rparr>"

definition sample_selector :: ChainSelectorState where
  "sample_selector = \<lparr>cs_current_tip = \<lparr>pt_slot = 50, pt_hash = [5]\<rparr>, cs_current_tip_block_no = 10,
     cs_current_tiebreaker = sample_view 50, cs_immutable_tip = \<lparr>pt_slot = 20, pt_hash = [2]\<rparr>,
     cs_immutable_tip_block_no = 4, cs_security_param = 6\<rparr>"

definition sample_candidate :: "u64 \<Rightarrow> u64 \<Rightarrow> u64 \<Rightarrow> CandidateFragment" where
  "sample_candidate slot block_no depth = \<lparr>cf_anchor = \<lparr>pt_slot = slot, pt_hash = [7]\<rparr>,
     cf_anchor_block_no = block_no, cf_headers = [], cf_select_view = sample_view slot,
     cf_rollback_depth = depth\<rparr>"

lemmas sample_fork_defs = sample_selector_def sample_candidate_def sample_view_def admissible_def
  candidate_view_def current_view_def preferred_def compare_select_view_def tiebreaker_prefer_def
  candidate_tip_block_no_def candidate_tip_point_def saturating_add_def cmp_def

text \<open>
  C2. \<open>select_best_chain\<close> adopts the maximally preferred admissible candidate: on a non-empty
  list it always answers; if it changes the state, it adopts a candidate that forks at or
  after the immutable tip and rolls back at most \<open>k\<close> blocks, that is strictly preferred over
  the current chain and that no admissible candidate beats, and reports it; otherwise the state
  is unchanged, no admissible candidate is preferred over the current chain, and a rejection is
  reported.
\<close>

theorem select_best_chain_correct:
  assumes "candidates \<noteq> []"
  shows "\<exists>st' ev. select_best_chain st candidates = Ok (st', ev)
    \<and> ((\<exists>c\<in>set candidates. admissible st c \<and> preferred (candidate_view c) (current_view st)
          \<and> (\<forall>d\<in>set candidates. admissible st d \<longrightarrow> \<not> preferred (candidate_view d) (candidate_view c))
          \<and> st' = adopt st c
          \<and> ev = ChainSelected (candidate_tip_point c) (Some (cs_current_tip st)))
       \<or> (st' = st \<and> (\<exists>reason. ev = Rejected reason)
          \<and> (\<forall>c\<in>set candidates. admissible st c \<longrightarrow> \<not> preferred (candidate_view c) (current_view st))))"
proof (cases "filter (admissible st) candidates = []")
  case True
  then show ?thesis
    using select_best_chain_ineligible [OF True assms] by (auto simp: filter_empty_conv)
next
  case False
  let ?b = "best_candidate st candidates"
  note eq = select_best_chain_eligible [OF False]
  show ?thesis
  proof (cases "preferred (candidate_view ?b) (current_view st)")
    case True
    with eq best_candidate_in [OF False] best_candidate_maximal show ?thesis by auto
  next
    case kept: False
    obtain st' ev where st': "select_best_chain st candidates = Ok (st', ev)"
      "\<forall>c\<in>set candidates. admissible st c \<longrightarrow> \<not> preferred (candidate_view c) (current_view st')"
      by (rule select_best_chain_Ok [OF assms])
    with eq kept show ?thesis by auto
  qed
qed

theorem select_best_chain_correct_witness:
  "\<exists>st' ev. select_best_chain sample_selector
      [sample_candidate 10 99 1, sample_candidate 60 12 2, sample_candidate 55 12 2] = Ok (st', ev)
    \<and> current_view st' = (12, sample_view 55)"
proof -
  let ?cs = "[sample_candidate 10 99 1, sample_candidate 60 12 2, sample_candidate 55 12 2]"
  obtain st' ev where sel: "select_best_chain sample_selector ?cs = Ok (st', ev)"
    and cases: "(\<exists>c\<in>set ?cs. admissible sample_selector c
          \<and> (\<forall>d\<in>set ?cs. admissible sample_selector d \<longrightarrow> \<not> preferred (candidate_view d) (candidate_view c))
          \<and> st' = adopt sample_selector c)
       \<or> (\<forall>c\<in>set ?cs. admissible sample_selector c \<longrightarrow>
             \<not> preferred (candidate_view c) (current_view sample_selector))"
    using select_best_chain_correct [of ?cs sample_selector] by blast
  have third: "admissible sample_selector (sample_candidate 55 12 2)"
    "preferred (candidate_view (sample_candidate 55 12 2)) (current_view sample_selector)"
    "preferred (candidate_view (sample_candidate 55 12 2)) (candidate_view (sample_candidate 60 12 2))"
    "\<not> admissible sample_selector (sample_candidate 10 99 1)"
    by (simp_all add: sample_fork_defs)
  with cases have "st' = adopt sample_selector (sample_candidate 55 12 2)" by auto
  with sel show ?thesis by (auto simp: candidate_view_def sample_candidate_def candidate_tip_block_no_def
      saturating_add_def)
qed

text \<open>
  Chain selection depends neither on the order nor on the batching in which candidates
  arrive: two sequences of non-empty batches with the same candidates both succeed and end
  on the same block number and tiebreaker view, which is the best of the current one and all
  admissible candidates.
\<close>

theorem selection_order_independent:
  assumes "[] \<notin> set bs" and "[] \<notin> set bs'" and "set (concat bs) = set (concat bs')"
  shows "\<exists>st1 st2. select_batches st bs = Ok st1 \<and> select_batches st bs' = Ok st2
    \<and> current_view st1 = current_view st2
    \<and> current_view st1 \<in> reachable_views st (set (concat bs))
    \<and> (\<forall>v\<in>reachable_views st (set (concat bs)). \<not> preferred v (current_view st1))"
proof -
  obtain st1 where st1: "select_batches st bs = Ok st1"
      "current_view st1 \<in> reachable_views st (set (concat bs))"
      "\<forall>v\<in>reachable_views st (set (concat bs)). \<not> preferred v (current_view st1)"
    using select_batches_best [OF assms(1)] by blast
  obtain st2 where st2: "select_batches st bs' = Ok st2"
      "current_view st2 \<in> reachable_views st (set (concat bs))"
      "\<forall>v\<in>reachable_views st (set (concat bs)). \<not> preferred v (current_view st2)"
    using select_batches_best [OF assms(2)] unfolding assms(3) by blast
  have "\<not> preferred (current_view st1) (current_view st2)" "\<not> preferred (current_view st2) (current_view st1)"
    using st1 st2 by blast+
  then have "current_view st1 = current_view st2"
    unfolding preferred_def by (rule select_view.mutual_best_equal)
  with st1 st2 show ?thesis by blast
qed

theorem selection_order_independent_witness:
  "\<exists>st1 st2. select_batches sample_selector [[sample_candidate 60 12 2], [sample_candidate 55 12 2]] = Ok st1
    \<and> select_batches sample_selector [[sample_candidate 55 12 2, sample_candidate 60 12 2]] = Ok st2
    \<and> current_view st1 = current_view st2"
  using selection_order_independent [of "[[sample_candidate 60 12 2], [sample_candidate 55 12 2]]"
      "[[sample_candidate 55 12 2, sample_candidate 60 12 2]]" sample_selector]
  by (auto simp: insert_commute)



end
