(* ===== verification/Kes_Sum.thy ===== *)
theory Kes_Sum
  imports Prelude
begin

text \<open>
  The Sum KES scheme of \<^verbatim>\<open>ade_crypto/src/kes_sum\<close>: the leaf scheme (\<^verbatim>\<open>single.rs\<close>), the
  generic tree \<^verbatim>\<open>SumKes<D>\<close> (\<^verbatim>\<open>sum.rs\<close>), the hash helpers (\<^verbatim>\<open>hash.rs\<close>), the raw
  serialisation and the period inference (\<^verbatim>\<open>period.rs\<close>). The type-level depth of
  \<^verbatim>\<open>SumKes<SumKes<...>>\<close> is the depth of the key or signature value, or an explicit
  level where the source has only the type. Ed25519 and Blake2b come from third-party
  crates and are the fields of a record of operations; \<open>kes_crypto_ok\<close> states what their
  documentation promises.

  The lemmas show that the stored key after \<open>t\<close> updates is exactly the key of period \<open>t\<close>
  determined by the seed, and derive from that the life cycle of a key: stable verification
  key, valid signatures in every period, expiry after the last, and round trips of keys and
  signatures through their byte encodings.
\<close>

section \<open>Cryptographic operations\<close>

record KesCrypto =
  kc_blake2b256 :: "bytes \<Rightarrow> bytes"
  kc_verifying_key :: "bytes \<Rightarrow> bytes"
  kc_sign :: "bytes \<Rightarrow> bytes \<Rightarrow> bytes"
  kc_point_ok :: "bytes \<Rightarrow> bool"
  kc_verify :: "bytes \<Rightarrow> bytes \<Rightarrow> bytes \<Rightarrow> bool"

text \<open>
  Digests and verification keys have 32 bytes, signatures 64; a key derived from a seed is a
  valid point; a signature made with a seed verifies under the key derived from it.
\<close>

definition kes_crypto_ok :: "KesCrypto \<Rightarrow> bool" where
  "kes_crypto_ok c \<longleftrightarrow>
     (\<forall>b. length (kc_blake2b256 c b) = 32)
     \<and> (\<forall>s. length (kc_verifying_key c s) = 32)
     \<and> (\<forall>s m. length (kc_sign c s m) = 64)
     \<and> (\<forall>s. kc_point_ok c (kc_verifying_key c s))
     \<and> (\<forall>s m. kc_verify c (kc_verifying_key c s) m (kc_sign c s m))"

section \<open>Keys, signatures and errors\<close>

datatype SigningKey =
    Sum0SigningKey (leaf_seed: bytes)
  | SumSigningKey (sk_child: SigningKey) (r1_seed: "bytes option") (sk_vk0: bytes) (sk_vk1: bytes)

datatype SumSignature =
    Sum0Signature (leaf_bytes: bytes)
  | SumSignature (sigma: SumSignature) (sig_vk0: bytes) (sig_vk1: bytes)

datatype KesError =
    InvalidSeedLength nat nat
  | PeriodOutOfRange u32 u32
  | VerificationFailed
  | KeyExpired
  | Ed25519 string

datatype KesParseError =
    WrongPayloadSize nat
  | LeafSignKeyAllZero
  | InconsistentSubtreeVkLeft u32
  | InconsistentSubtreeVkRight u32
  | LevelOutOfRange u32
  | InvalidEd25519SignatureLength nat

fun sk_level :: "SigningKey \<Rightarrow> nat" where
  "sk_level (Sum0SigningKey _) = 0"
| "sk_level (SumSigningKey child _ _ _) = Suc (sk_level child)"

fun sig_level :: "SumSignature \<Rightarrow> nat" where
  "sig_level (Sum0Signature _) = 0"
| "sig_level (SumSignature s _ _) = Suc (sig_level s)"

fun total_periods :: "nat \<Rightarrow> u32" where
  "total_periods 0 = 1"
| "total_periods (Suc n) = 2 * total_periods n"

fun signing_key_size :: "nat \<Rightarrow> nat" where
  "signing_key_size 0 = 32"
| "signing_key_size (Suc n) = signing_key_size n + 96"

fun signature_size :: "nat \<Rightarrow> nat" where
  "signature_size 0 = 64"
| "signature_size (Suc n) = signature_size n + 64"

section \<open>Operations\<close>

definition expand_seed :: "KesCrypto \<Rightarrow> bytes \<Rightarrow> bytes \<times> bytes" where
  "expand_seed c seed = (kc_blake2b256 c (0x01 # seed), kc_blake2b256 c (0x02 # seed))"

definition hash_concat_vk :: "KesCrypto \<Rightarrow> bytes \<Rightarrow> bytes \<Rightarrow> bytes" where
  "hash_concat_vk c vk_left vk_right = kc_blake2b256 c (vk_left @ vk_right)"

fun derive_verification_key :: "KesCrypto \<Rightarrow> SigningKey \<Rightarrow> bytes" where
  "derive_verification_key c (Sum0SigningKey seed) = kc_verifying_key c seed"
| "derive_verification_key c (SumSigningKey _ _ vk0 vk1) = hash_concat_vk c vk0 vk1"

fun gen_key_kes :: "KesCrypto \<Rightarrow> nat \<Rightarrow> bytes \<Rightarrow> (SigningKey, KesError) result" where
  "gen_key_kes c 0 seed =
     (if length seed \<noteq> 32 then Err (InvalidSeedLength 32 (length seed)) else Ok (Sum0SigningKey seed))"
| "gen_key_kes c (Suc n) seed =
     (if length seed \<noteq> 32 then Err (InvalidSeedLength 32 (length seed))
      else
        (let (left_seed, right_seed) = expand_seed c seed in
         rbind (gen_key_kes c n left_seed) (\<lambda>sk_left.
         rbind (gen_key_kes c n right_seed) (\<lambda>sk_right_tmp.
         Ok (SumSigningKey sk_left (Some right_seed)
               (derive_verification_key c sk_left) (derive_verification_key c sk_right_tmp))))))"

fun sign_kes :: "KesCrypto \<Rightarrow> SigningKey \<Rightarrow> u32 \<Rightarrow> bytes \<Rightarrow> (SumSignature, KesError) result" where
  "sign_kes c (Sum0SigningKey seed) period msg =
     (if period \<noteq> 0 then Err (PeriodOutOfRange period 0)
      else Ok (Sum0Signature (kc_sign c seed msg)))"
| "sign_kes c (SumSigningKey child seed vk0 vk1) period msg =
     (let t_half = total_periods (sk_level child); total = 2 * t_half in
      if total \<le> period then Err (PeriodOutOfRange period (total - 1))
      else
        (let child_period = (if period < t_half then period else period - t_half) in
         rbind (sign_kes c child child_period msg) (\<lambda>s.
         Ok (SumSignature s vk0 vk1))))"

fun verify_kes_sum :: "KesCrypto \<Rightarrow> bytes \<Rightarrow> u32 \<Rightarrow> bytes \<Rightarrow> SumSignature \<Rightarrow> (unit, KesError) result" where
  "verify_kes_sum c vk period msg (Sum0Signature bytes) =
     (if period \<noteq> 0 then Err (PeriodOutOfRange period 0)
      else if \<not> kc_point_ok c vk then Err (Ed25519 ''invalid verification key point'')
      else if kc_verify c vk msg bytes then Ok () else Err VerificationFailed)"
| "verify_kes_sum c vk period msg (SumSignature s vk0 vk1) =
     (let t_half = total_periods (sig_level s); total = 2 * t_half in
      if total \<le> period then Err (PeriodOutOfRange period (total - 1))
      else if hash_concat_vk c vk0 vk1 \<noteq> vk then Err VerificationFailed
      else if period < t_half then verify_kes_sum c vk0 period msg s
      else verify_kes_sum c vk1 (period - t_half) msg s)"

fun update_kes :: "KesCrypto \<Rightarrow> SigningKey \<Rightarrow> u32 \<Rightarrow> (SigningKey option, KesError) result" where
  "update_kes c (Sum0SigningKey seed) period =
     (if 1 \<le> period then Err (PeriodOutOfRange period 0) else Ok None)"
| "update_kes c (SumSigningKey child seed vk0 vk1) period =
     (let t_half = total_periods (sk_level child); total = 2 * t_half in
      if total \<le> period then Err (PeriodOutOfRange period (total - 1))
      else
        (let next_period = period + 1 in
         if next_period = total then Ok None
         else if next_period = t_half then
           rbind (ok_or KeyExpired seed) (\<lambda>right_seed.
           rbind (gen_key_kes c (sk_level child) right_seed) (\<lambda>sk_right.
           Ok (Some (SumSigningKey sk_right None vk0 vk1))))
         else if next_period < t_half then
           rbind (update_kes c child period) (\<lambda>updated.
           Ok (case updated of
                 Some sk \<Rightarrow> Some (SumSigningKey sk seed vk0 vk1)
               | None \<Rightarrow> None))
         else
           rbind (update_kes c child (period - t_half)) (\<lambda>updated.
           Ok (case updated of
                 Some sk \<Rightarrow> Some (SumSigningKey sk None vk0 vk1)
               | None \<Rightarrow> None))))"

fun current_period_of_signing_key :: "SigningKey \<Rightarrow> u32" where
  "current_period_of_signing_key (Sum0SigningKey _) = 0"
| "current_period_of_signing_key (SumSigningKey child seed _ _) =
     (let child_period = current_period_of_signing_key child
      in case seed of
           Some _ \<Rightarrow> child_period
         | None \<Rightarrow> total_periods (sk_level child) + child_period)"

section \<open>Raw encodings\<close>

fun raw_serialize_signing_key_kes :: "SigningKey \<Rightarrow> bytes" where
  "raw_serialize_signing_key_kes (Sum0SigningKey seed) = seed"
| "raw_serialize_signing_key_kes (SumSigningKey child seed vk0 vk1) =
     raw_serialize_signing_key_kes child
     @ (case seed of Some s \<Rightarrow> s | None \<Rightarrow> replicate 32 0) @ vk0 @ vk1"

fun raw_deserialize_signing_key_kes :: "KesCrypto \<Rightarrow> nat \<Rightarrow> bytes \<Rightarrow> (SigningKey, KesParseError) result" where
  "raw_deserialize_signing_key_kes c 0 bytes =
     (if length bytes \<noteq> signing_key_size 0 then Err (WrongPayloadSize (length bytes))
      else if list_all (\<lambda>b. b = 0) bytes then Err LeafSignKeyAllZero
      else Ok (Sum0SigningKey bytes))"
| "raw_deserialize_signing_key_kes c (Suc n) bytes =
     (if length bytes \<noteq> signing_key_size (Suc n) then Err (WrongPayloadSize (length bytes))
      else
        (let child_end = signing_key_size n;
             level = word_of_nat (Suc n) in
         rbind (raw_deserialize_signing_key_kes c n (take child_end bytes)) (\<lambda>child.
         let seed_n = take 32 (drop child_end bytes);
             vk_left_bytes = take 32 (drop (child_end + 32) bytes);
             vk_right_bytes = take 32 (drop (child_end + 64) bytes);
             computed_vk_of_child = derive_verification_key c child
         in if list_ex (\<lambda>b. b \<noteq> 0) seed_n then
              (if computed_vk_of_child \<noteq> vk_left_bytes then Err (InconsistentSubtreeVkLeft level)
               else
                 rbind (map_err (\<lambda>_. InconsistentSubtreeVkRight level) (gen_key_kes c n seed_n)) (\<lambda>sk_right_check.
                 if derive_verification_key c sk_right_check \<noteq> vk_right_bytes
                 then Err (InconsistentSubtreeVkRight level)
                 else Ok (SumSigningKey child (Some seed_n) vk_left_bytes vk_right_bytes)))
            else if computed_vk_of_child \<noteq> vk_right_bytes then Err (InconsistentSubtreeVkRight level)
            else Ok (SumSigningKey child None vk_left_bytes vk_right_bytes))))"

fun raw_serialize_signature_kes :: "SumSignature \<Rightarrow> bytes" where
  "raw_serialize_signature_kes (Sum0Signature bytes) = bytes"
| "raw_serialize_signature_kes (SumSignature s vk0 vk1) = raw_serialize_signature_kes s @ vk0 @ vk1"

fun raw_deserialize_signature_kes :: "nat \<Rightarrow> bytes \<Rightarrow> (SumSignature, KesParseError) result" where
  "raw_deserialize_signature_kes 0 bytes =
     (if length bytes \<noteq> signature_size 0 then Err (InvalidEd25519SignatureLength (length bytes))
      else Ok (Sum0Signature bytes))"
| "raw_deserialize_signature_kes (Suc n) bytes =
     (if length bytes \<noteq> signature_size (Suc n) then Err (WrongPayloadSize (length bytes))
      else
        (let sigma_end = signature_size n in
         rbind (raw_deserialize_signature_kes n (take sigma_end bytes)) (\<lambda>s.
         Ok (SumSignature s (take 32 (drop sigma_end bytes)) (take 32 (drop (sigma_end + 32) bytes))))))"

definition all_zero :: "bytes \<Rightarrow> nat \<Rightarrow> bool" where
  "all_zero bytes from = list_all (\<lambda>b. b = 0) (take 32 (drop from bytes))"

definition period_from_zeroed_sum6_tree_shape :: "bytes \<Rightarrow> (u32, KesParseError) result" where
  "period_from_zeroed_sum6_tree_shape bytes =
     (if all_zero bytes 0 then Err LeafSignKeyAllZero
      else
        (let period = (if all_zero bytes 512 then 32 else 0);
             period = period + (if all_zero bytes 416 then 16 else 0);
             period = period + (if all_zero bytes 320 then 8 else 0);
             period = period + (if all_zero bytes 224 then 4 else 0);
             period = period + (if all_zero bytes 128 then 2 else 0);
             period = period + (if all_zero bytes 32 then 1 else 0)
         in Ok period))"

section \<open>The key of a period\<close>

text \<open>The specification: the verification key and the signing key that a seed determines.\<close>

fun seed_vk :: "KesCrypto \<Rightarrow> nat \<Rightarrow> bytes \<Rightarrow> bytes" where
  "seed_vk c 0 seed = kc_verifying_key c seed"
| "seed_vk c (Suc n) seed =
     hash_concat_vk c (seed_vk c n (fst (expand_seed c seed))) (seed_vk c n (snd (expand_seed c seed)))"

fun key_at :: "KesCrypto \<Rightarrow> nat \<Rightarrow> bytes \<Rightarrow> nat \<Rightarrow> SigningKey" where
  "key_at c 0 seed t = Sum0SigningKey seed"
| "key_at c (Suc n) seed t =
     (let l = fst (expand_seed c seed); r = snd (expand_seed c seed) in
      if t < 2 ^ n then SumSigningKey (key_at c n l t) (Some r) (seed_vk c n l) (seed_vk c n r)
      else SumSigningKey (key_at c n r (t - 2 ^ n)) None (seed_vk c n l) (seed_vk c n r))"

lemma unat_total_periods: "n < 32 \<Longrightarrow> unat (total_periods n) = 2 ^ n"
proof (induction n)
  case (Suc n)
  have "(2 :: nat) * 2 ^ n < 2 ^ 32" using power_strict_increasing [OF Suc.prems, of "2 :: nat"] by simp
  with Suc show ?case by (simp add: unat_word_ariths(2))
qed simp

lemma sk_level_key_at [simp]: "sk_level (key_at c n seed t) = n"
  by (induction n arbitrary: seed t) (simp_all add: Let_def)

lemma expand_seed_length:
  "kes_crypto_ok c \<Longrightarrow> length (fst (expand_seed c s)) = 32 \<and> length (snd (expand_seed c s)) = 32"
  by (simp add: expand_seed_def kes_crypto_ok_def)

lemma seed_vk_length: "kes_crypto_ok c \<Longrightarrow> length (seed_vk c n seed) = 32"
  by (cases n) (simp_all add: hash_concat_vk_def kes_crypto_ok_def)

lemma derive_key_at: "derive_verification_key c (key_at c n seed t) = seed_vk c n seed"
  by (cases n) (simp_all add: Let_def)

lemma gen_key_kes_key_at:
  "kes_crypto_ok c \<Longrightarrow> length seed = 32 \<Longrightarrow> gen_key_kes c n seed = Ok (key_at c n seed 0)"
proof (induction n arbitrary: seed)
  case (Suc n)
  note len = expand_seed_length [OF Suc.prems(1), of seed]
  show ?case
    using Suc.IH [OF Suc.prems(1)] len Suc.prems(2)
    by (simp add: split_beta Let_def derive_key_at)
qed simp

lemma u32_eq_iff: "a = b \<longleftrightarrow> unat a = unat b" for a b :: u32
  by (simp add: word_unat_eq_iff)

lemma period_bounds:
  assumes "n < 31" and "unat (p :: u32) < 2 ^ Suc n"
  shows "unat (2 * total_periods n) = 2 ^ Suc n" and "\<not> 2 * total_periods n \<le> p"
    and "unat (p + 1) = unat p + 1" and "p < total_periods n \<longleftrightarrow> unat p < 2 ^ n"
    and "2 ^ n \<le> unat p \<Longrightarrow> unat (p - total_periods n) = unat p - 2 ^ n"
    and "\<not> unat p < 2 ^ n \<Longrightarrow> unat p - 2 ^ n < 2 ^ n"
proof -
  have t: "unat (total_periods n) = 2 ^ n" "unat (2 * total_periods n) = 2 ^ Suc n"
    using unat_total_periods [of n] unat_total_periods [of "Suc n"] assms(1) by simp_all
  have "(2 :: nat) ^ Suc n < 2 ^ 32" using assms(1) by (intro power_strict_increasing) simp_all
  then show "unat (p + 1) = unat p + 1" using assms(2) by (simp add: unat_word_ariths(1))
  show "unat (2 * total_periods n) = 2 ^ Suc n" by (rule t(2))
  show "\<not> 2 * total_periods n \<le> p" using assms(2) t(2) by (simp only: word_le_nat_alt not_le)
  show "p < total_periods n \<longleftrightarrow> unat p < 2 ^ n" by (simp add: word_less_nat_alt t)
  show "unat (p - total_periods n) = unat p - 2 ^ n" if "2 ^ n \<le> unat p"
    using that t(1) by (simp add: unat_sub word_le_nat_alt)
  show "unat p - 2 ^ n < 2 ^ n" if "\<not> unat p < 2 ^ n" using assms(2) that by simp
qed

section \<open>Evolution\<close>

lemma current_period_key_at:
  "n < 32 \<Longrightarrow> t < 2 ^ n \<Longrightarrow> unat (current_period_of_signing_key (key_at c n seed t)) = t"
proof (induction n arbitrary: seed t)
  case (Suc n)
  have total: "unat (total_periods n) = 2 ^ n" using Suc.prems(1) by (simp add: unat_total_periods)
  have less: "(2 :: nat) ^ Suc n < 2 ^ 32" using Suc.prems(1) by (intro power_strict_increasing) simp_all
  show ?case
  proof (cases "t < 2 ^ n")
    case True
    then show ?thesis using Suc by (simp add: Let_def)
  next
    case False
    then have "t - 2 ^ n < 2 ^ n" using Suc.prems(2) by simp
    then have "unat (current_period_of_signing_key (key_at c n (snd (expand_seed c seed)) (t - 2 ^ n))) = t - 2 ^ n"
      using Suc by simp
    with False total less Suc.prems(2) show ?thesis by (simp add: Let_def unat_word_ariths(1))
  qed
qed simp

lemma update_kes_key_at:
  assumes "kes_crypto_ok c"
  shows "n < 32 \<Longrightarrow> unat p < 2 ^ n \<Longrightarrow> update_kes c (key_at c n seed (unat p)) p =
    Ok (if unat p + 1 = 2 ^ n then None else Some (key_at c n seed (unat p + 1)))"
proof (induction n arbitrary: seed p)
  case 0
  then show ?case by (simp add: unat_eq_zero)
next
  case (Suc n)
  let ?l = "fst (expand_seed c seed)" and ?r = "snd (expand_seed c seed)"
  let ?v0 = "seed_vk c n ?l" and ?v1 = "seed_vk c n ?r"
  have n: "n < 31" using Suc.prems(1) by simp
  note b = period_bounds [OF n Suc.prems(2)]
  have total: "unat (total_periods n) = 2 ^ n" using n by (simp add: unat_total_periods)
  have next_total: "p + 1 = 2 * total_periods n \<longleftrightarrow> unat p + 1 = 2 ^ Suc n"
    by (simp only: u32_eq_iff b(1,3))
  have next_half: "p + 1 = total_periods n \<longleftrightarrow> unat p + 1 = 2 ^ n"
    by (simp only: u32_eq_iff b(3) total)
  have next_less: "p + 1 < total_periods n \<longleftrightarrow> unat p + 1 < 2 ^ n"
    by (simp only: word_less_nat_alt b(3) total)
  consider (left) "unat p + 1 < 2 ^ n" | (cross) "unat p + 1 = 2 ^ n" | (right) "2 ^ n \<le> unat p" by linarith
  then show ?case
  proof cases
    case left
    then have key: "key_at c (Suc n) seed (unat p) = SumSigningKey (key_at c n ?l (unat p)) (Some ?r) ?v0 ?v1"
      and key': "key_at c (Suc n) seed (unat p + 1) = SumSigningKey (key_at c n ?l (unat p + 1)) (Some ?r) ?v0 ?v1"
      by (simp_all add: Let_def)
    have "update_kes c (key_at c n ?l (unat p)) p = Ok (Some (key_at c n ?l (unat p + 1)))"
      using Suc.IH [of p ?l] left n by simp
    then show ?thesis
      using left b(2) unfolding key key' update_kes.simps sk_level_key_at Let_def next_total next_half next_less
      by simp
  next
    case cross
    then have key: "key_at c (Suc n) seed (unat p) = SumSigningKey (key_at c n ?l (unat p)) (Some ?r) ?v0 ?v1"
      and key': "key_at c (Suc n) seed (unat p + 1) = SumSigningKey (key_at c n ?r 0) None ?v0 ?v1"
      by (simp_all add: Let_def)
    have "gen_key_kes c n ?r = Ok (key_at c n ?r 0)"
      using gen_key_kes_key_at [OF assms] expand_seed_length [OF assms] by simp
    then show ?thesis
      using cross b(2) unfolding key key' update_kes.simps sk_level_key_at Let_def next_total next_half next_less
      by simp
  next
    case right
    let ?q = "p - total_periods n"
    have q: "unat ?q = unat p - 2 ^ n" "unat ?q < 2 ^ n" using b(5,6) right by simp_all
    have key: "key_at c (Suc n) seed (unat p) = SumSigningKey (key_at c n ?r (unat ?q)) None ?v0 ?v1"
      and key': "key_at c (Suc n) seed (unat p + 1) = SumSigningKey (key_at c n ?r (unat ?q + 1)) None ?v0 ?v1"
      using right q by (simp_all add: Let_def Suc_diff_le)
    have ih: "update_kes c (key_at c n ?r (unat ?q)) ?q =
        Ok (if unat ?q + 1 = 2 ^ n then None else Some (key_at c n ?r (unat ?q + 1)))"
      using Suc.IH [of ?q ?r] q(2) n by simp
    have last: "unat ?q + 1 = 2 ^ n \<longleftrightarrow> unat p + 1 = 2 ^ Suc n" using q right by auto
    show ?thesis
      using right b(2) ih unfolding key key' update_kes.simps sk_level_key_at Let_def next_total next_half next_less last
      by simp
  qed
qed

section \<open>Signatures\<close>

lemma sign_verify_key_at:
  assumes "kes_crypto_ok c"
  shows "n < 32 \<Longrightarrow> unat p < 2 ^ n \<Longrightarrow> \<exists>s. sign_kes c (key_at c n seed (unat p)) p msg = Ok s
    \<and> sig_level s = n \<and> verify_kes_sum c (seed_vk c n seed) p msg s = Ok ()"
proof (induction n arbitrary: seed p)
  case 0
  then show ?case using assms by (simp add: unat_eq_zero kes_crypto_ok_def)
next
  case (Suc n)
  let ?l = "fst (expand_seed c seed)" and ?r = "snd (expand_seed c seed)"
  have n: "n < 31" using Suc.prems(1) by simp
  note b = period_bounds [OF n Suc.prems(2)]
  show ?case
  proof (cases "unat p < 2 ^ n")
    case True
    then obtain s where "sign_kes c (key_at c n ?l (unat p)) p msg = Ok s" "sig_level s = n"
        "verify_kes_sum c (seed_vk c n ?l) p msg s = Ok ()"
      using Suc.IH [of p ?l] n by auto
    with True b(2,4) show ?thesis by (simp add: Let_def del: not_le)
  next
    case False
    let ?q = "p - total_periods n"
    have q: "unat ?q = unat p - 2 ^ n" "unat ?q < 2 ^ n" using b(5,6) False by simp_all
    then obtain s where "sign_kes c (key_at c n ?r (unat ?q)) ?q msg = Ok s" "sig_level s = n"
        "verify_kes_sum c (seed_vk c n ?r) ?q msg s = Ok ()"
      using Suc.IH [of ?q ?r] n by auto
    with False b(2,4) q(1) show ?thesis by (simp add: Let_def del: not_le)
  qed
qed

section \<open>Encodings\<close>

lemma signing_key_size_eq: "signing_key_size n = 32 + 96 * n"
  by (induction n) simp_all

lemma signature_size_eq: "signature_size n = 64 + 64 * n"
  by (induction n) simp_all

lemma sign_kes_encoding:
  assumes "kes_crypto_ok c"
  shows "sign_kes c (key_at c n seed t) p msg = Ok s \<Longrightarrow>
    length (raw_serialize_signature_kes s) = signature_size n
    \<and> raw_deserialize_signature_kes n (raw_serialize_signature_kes s) = Ok s"
proof (induction n arbitrary: seed t p s)
  case 0
  then show ?case using assms by (auto simp: kes_crypto_ok_def split: if_splits)
next
  case (Suc n)
  let ?l = "fst (expand_seed c seed)" and ?r = "snd (expand_seed c seed)"
  obtain x t' p' s' where s: "s = SumSignature s' (seed_vk c n ?l) (seed_vk c n ?r)"
      and s': "sign_kes c (key_at c n x t') p' msg = Ok s'"
    using Suc.prems by (auto simp: Let_def result_simps split: if_splits)
  note vk = seed_vk_length [OF assms]
  show ?case using Suc.IH [OF s'] by (simp add: s vk)
qed

fun seeds_nonzero :: "KesCrypto \<Rightarrow> nat \<Rightarrow> bytes \<Rightarrow> bool" where
  "seeds_nonzero c 0 seed \<longleftrightarrow> list_ex (\<lambda>b. b \<noteq> 0) seed"
| "seeds_nonzero c (Suc n) seed \<longleftrightarrow>
     list_ex (\<lambda>b. b \<noteq> 0) (snd (expand_seed c seed))
     \<and> seeds_nonzero c n (fst (expand_seed c seed)) \<and> seeds_nonzero c n (snd (expand_seed c seed))"

lemma list_ex_not_all_zero: "list_ex (\<lambda>b. b \<noteq> 0) xs \<longleftrightarrow> \<not> list_all (\<lambda>b. b = 0) (xs :: bytes)"
  by (simp add: list_ex_iff list_all_iff)

lemma length_serialize_key_at:
  assumes "kes_crypto_ok c"
  shows "length seed = 32 \<Longrightarrow> length (raw_serialize_signing_key_kes (key_at c n seed t)) = signing_key_size n"
proof (induction n arbitrary: seed t)
  case (Suc n)
  then show ?case
    using expand_seed_length [OF assms] by (simp add: Let_def seed_vk_length [OF assms])
qed simp

lemma deserialize_key_at:
  assumes "kes_crypto_ok c"
  shows "length seed = 32 \<Longrightarrow> seeds_nonzero c n seed \<Longrightarrow>
    raw_deserialize_signing_key_kes c n (raw_serialize_signing_key_kes (key_at c n seed t)) = Ok (key_at c n seed t)"
proof (induction n arbitrary: seed t)
  case 0
  then show ?case by (simp add: list_ex_not_all_zero)
next
  case (Suc n)
  let ?l = "fst (expand_seed c seed)" and ?r = "snd (expand_seed c seed)"
  have len: "length ?l = 32" "length ?r = 32" using expand_seed_length [OF assms] by simp_all
  note vk = seed_vk_length [OF assms]
  note lens = length_serialize_key_at [OF assms len(1)] length_serialize_key_at [OF assms len(2)]
  note ih = Suc.IH [OF len(1)] Suc.IH [OF len(2)]
  have nz: "seeds_nonzero c n ?l" "seeds_nonzero c n ?r" "list_ex (\<lambda>b. b \<noteq> 0) ?r" using Suc.prems(2) by simp_all
  have zero: "\<not> list_ex (\<lambda>b. b \<noteq> 0) (replicate 32 (0 :: u8))" by (simp add: list_ex_iff)
  show ?case
    using ih nz zero
    by (cases "t < 2 ^ n") (simp_all add: Let_def lens len vk derive_key_at gen_key_kes_key_at [OF assms])
qed

text \<open>The period read off the zeroed seeds, level by level.\<close>

fun shape_period :: "nat \<Rightarrow> bytes \<Rightarrow> nat" where
  "shape_period 0 bytes = 0"
| "shape_period (Suc n) bytes = (if all_zero bytes (signing_key_size n) then 2 ^ n else 0) + shape_period n bytes"

lemma all_zero_append:
  "from + 32 \<le> length xs \<Longrightarrow> all_zero (xs @ ys) from = all_zero xs from"
  by (simp add: all_zero_def)

lemma shape_period_append:
  "signing_key_size n \<le> length xs \<Longrightarrow> shape_period n (xs @ ys) = shape_period n xs"
  by (induction n) (simp_all add: all_zero_append)

lemma shape_period_key_at:
  assumes "kes_crypto_ok c"
  shows "length seed = 32 \<Longrightarrow> seeds_nonzero c n seed \<Longrightarrow> t < 2 ^ n \<Longrightarrow>
    shape_period n (raw_serialize_signing_key_kes (key_at c n seed t)) = t
    \<and> \<not> all_zero (raw_serialize_signing_key_kes (key_at c n seed t)) 0"
proof (induction n arbitrary: seed t)
  case 0
  then show ?case by (simp add: all_zero_def list_ex_not_all_zero)
next
  case (Suc n)
  let ?l = "fst (expand_seed c seed)" and ?r = "snd (expand_seed c seed)"
  let ?ser = "\<lambda>x t. raw_serialize_signing_key_kes (key_at c n x t)"
  have len: "length ?l = 32" "length ?r = 32" using expand_seed_length [OF assms] by simp_all
  note lens = length_serialize_key_at [OF assms len(1), of n] length_serialize_key_at [OF assms len(2), of n]
  have big: "32 \<le> signing_key_size n" by (simp add: signing_key_size_eq)
  have nz: "seeds_nonzero c n ?l" "seeds_nonzero c n ?r" "list_ex (\<lambda>b. b \<noteq> 0) ?r" using Suc.prems(2) by simp_all
  have at: "all_zero (?ser x u @ seed' @ rest) (signing_key_size n) = list_all (\<lambda>b. b = 0) seed'"
    if "length x = 32" "length seed' = 32" for x u seed' rest
    using that length_serialize_key_at [OF assms that(1), of n u] by (simp add: all_zero_def)
  show ?case
  proof (cases "t < 2 ^ n")
    case True
    then show ?thesis
      using Suc.IH [OF len(1) nz(1) True] nz(3) at [OF len(1,2)] lens big
      by (simp add: Let_def shape_period_append all_zero_append list_ex_not_all_zero)
  next
    case False
    then have "t - 2 ^ n < 2 ^ n" using Suc.prems(3) by simp
    moreover have "list_all (\<lambda>b. b = 0) (replicate 32 (0 :: u8))" by (simp add: list_all_iff)
    ultimately show ?thesis
      using False Suc.IH [OF len(2) nz(2), of "t - 2 ^ n"] at [OF len(2), of "replicate 32 0"] lens big
      by (simp add: Let_def shape_period_append all_zero_append)
  qed
qed

lemma period_from_shape:
  "period_from_zeroed_sum6_tree_shape bytes =
     (if all_zero bytes 0 then Err LeafSignKeyAllZero else Ok (word_of_nat (shape_period 6 bytes)))"
proof -
  have "shape_period (Suc (Suc (Suc (Suc (Suc (Suc 0)))))) bytes =
      (if all_zero bytes 512 then 32 else 0) + ((if all_zero bytes 416 then 16 else 0)
      + ((if all_zero bytes 320 then 8 else 0) + ((if all_zero bytes 224 then 4 else 0)
      + ((if all_zero bytes 128 then 2 else 0) + (if all_zero bytes 32 then 1 else 0)))))"
    by (simp only: shape_period.simps signing_key_size_eq) simp
  then have "word_of_nat (shape_period 6 bytes) =
      (if all_zero bytes 512 then 32 else 0) + ((if all_zero bytes 416 then 16 else 0)
      + ((if all_zero bytes 320 then 8 else 0) + ((if all_zero bytes 224 then 4 else 0)
      + ((if all_zero bytes 128 then 2 else 0) + (if all_zero bytes 32 then 1 else (0 :: u32))))))"
    by (simp add: numeral_eq_Suc del: shape_period.simps)
  then show ?thesis by (simp add: period_from_zeroed_sum6_tree_shape_def Let_def add.assoc)
qed

section \<open>Properties\<close>

text \<open>The caller's loop: apply \<open>update_kes\<close> with the period counted from zero.\<close>

fun evolve :: "KesCrypto \<Rightarrow> nat \<Rightarrow> SigningKey \<Rightarrow> (SigningKey option, KesError) result" where
  "evolve c 0 sk = Ok (Some sk)"
| "evolve c (Suc t) sk = rbind (evolve c t sk) (\<lambda>key.
     case key of None \<Rightarrow> Ok None | Some sk' \<Rightarrow> update_kes c sk' (word_of_nat t))"

lemma evolve_key_at:
  assumes "kes_crypto_ok c" and "n < 32"
  shows "t < 2 ^ n \<Longrightarrow> evolve c t (key_at c n seed 0) = Ok (Some (key_at c n seed t))"
proof (induction t)
  case (Suc t)
  have "(2 :: nat) ^ n < 2 ^ 32" using assms(2) by (intro power_strict_increasing) simp_all
  then have t: "unat (word_of_nat t :: u32) = t" using Suc.prems by (simp add: unat_of_nat)
  have "update_kes c (key_at c n seed t) (word_of_nat t) = Ok (Some (key_at c n seed (Suc t)))"
    using update_kes_key_at [OF assms(1,2), of "word_of_nat t" seed] Suc.prems by (simp add: t)
  with Suc show ?case by simp
qed simp

text \<open>A concrete instance of the cryptographic operations, for the examples below.\<close>

definition sample_crypto :: KesCrypto where
  "sample_crypto = \<lparr>kc_blake2b256 = (\<lambda>b. take 32 (b @ replicate 32 0)),
     kc_verifying_key = (\<lambda>s. take 32 (s @ replicate 32 0)),
     kc_sign = (\<lambda>s m. take 64 (take 32 (s @ replicate 32 0) @ m @ replicate 64 0)),
     kc_point_ok = (\<lambda>_. True),
     kc_verify = (\<lambda>vk m sig. sig = take 64 (vk @ m @ replicate 64 0))\<rparr>"

lemma sample_crypto_ok: "kes_crypto_ok sample_crypto"
  by (auto simp: kes_crypto_ok_def sample_crypto_def min_def)

text \<open>
  C3. The life cycle of a KES key: from a 32-byte seed, key generation at level \<open>n\<close> succeeds, the
  key can be updated to every period below \<open>2 ^ n\<close>, and at each of them it has the same
  verification key, reports that period as its own, and signs every message with a signature
  that verifies at that period under the original verification key; the update after the
  last period reports that the key has expired.
\<close>

theorem kes_life_cycle:
  assumes "kes_crypto_ok c" and "length seed = 32" and "n < 32"
  shows "\<exists>sk. gen_key_kes c n seed = Ok sk
    \<and> (\<forall>t<2 ^ n. \<exists>sk_t. evolve c t sk = Ok (Some sk_t)
        \<and> derive_verification_key c sk_t = derive_verification_key c sk
        \<and> unat (current_period_of_signing_key sk_t) = t
        \<and> (\<forall>msg. \<exists>s. sign_kes c sk_t (word_of_nat t) msg = Ok s
             \<and> verify_kes_sum c (derive_verification_key c sk) (word_of_nat t) msg s = Ok ()))
    \<and> evolve c (2 ^ n) sk = Ok None"
proof -
  let ?sk = "key_at c n seed 0"
  have pow: "(2 :: nat) ^ n < 2 ^ 32" using assms(3) by (intro power_strict_increasing) simp_all
  have small: "unat (word_of_nat t :: u32) = t" if "t < 2 ^ n" for t
    using that pow by (simp add: unat_of_nat)
  have "\<exists>sk_t. evolve c t ?sk = Ok (Some sk_t) \<and> derive_verification_key c sk_t = derive_verification_key c ?sk
      \<and> unat (current_period_of_signing_key sk_t) = t
      \<and> (\<forall>msg. \<exists>s. sign_kes c sk_t (word_of_nat t) msg = Ok s
           \<and> verify_kes_sum c (derive_verification_key c ?sk) (word_of_nat t) msg s = Ok ())"
    if t: "t < 2 ^ n" for t
  proof -
    have "\<exists>s. sign_kes c (key_at c n seed t) (word_of_nat t) msg = Ok s
        \<and> verify_kes_sum c (seed_vk c n seed) (word_of_nat t) msg s = Ok ()" for msg
      using sign_verify_key_at [OF assms(1,3), of "word_of_nat t" seed msg] t by (auto simp: small)
    then show ?thesis
      using evolve_key_at [OF assms(1,3) t, of seed] current_period_key_at [OF assms(3) t, of c seed]
      by (simp add: derive_key_at)
  qed
  moreover have "evolve c (2 ^ n) ?sk = Ok None"
  proof -
    obtain m where m: "2 ^ n = Suc m" by (metis not0_implies_Suc power_not_zero zero_neq_numeral)
    then have lt: "m < 2 ^ n" by simp
    show ?thesis
      using evolve_key_at [OF assms(1,3) lt, of seed] update_kes_key_at [OF assms(1,3), of "word_of_nat m" seed]
        small [OF lt] lt m by simp
  qed
  ultimately show ?thesis using gen_key_kes_key_at [OF assms(1,2), of n] by auto
qed

theorem kes_life_cycle_witness:
  "\<exists>sk sk_t s. gen_key_kes sample_crypto 6 (replicate 32 1) = Ok sk
    \<and> evolve sample_crypto 40 sk = Ok (Some sk_t)
    \<and> sign_kes sample_crypto sk_t 40 [1, 2, 3] = Ok s
    \<and> verify_kes_sum sample_crypto (derive_verification_key sample_crypto sk) 40 [1, 2, 3] s = Ok ()"
proof -
  have len: "length (replicate 32 (1 :: u8)) = 32" "(6 :: nat) < 32" by simp_all
  let ?P = "\<lambda>sk t. \<exists>sk_t. evolve sample_crypto t sk = Ok (Some sk_t)
        \<and> derive_verification_key sample_crypto sk_t = derive_verification_key sample_crypto sk
        \<and> unat (current_period_of_signing_key sk_t) = t
        \<and> (\<forall>msg. \<exists>s. sign_kes sample_crypto sk_t (word_of_nat t) msg = Ok s
             \<and> verify_kes_sum sample_crypto (derive_verification_key sample_crypto sk) (word_of_nat t) msg s = Ok ())"
  obtain sk where sk: "gen_key_kes sample_crypto 6 (replicate 32 1) = Ok sk" "\<forall>t<2 ^ 6. ?P sk t"
    using kes_life_cycle [OF sample_crypto_ok len] by blast
  have "?P sk 40" by (rule sk(2) [rule_format]) simp
  then obtain sk_t where "evolve sample_crypto 40 sk = Ok (Some sk_t)"
    and sign: "\<forall>msg. \<exists>s. sign_kes sample_crypto sk_t (word_of_nat 40) msg = Ok s
      \<and> verify_kes_sum sample_crypto (derive_verification_key sample_crypto sk) (word_of_nat 40) msg s = Ok ()"
    by blast
  moreover obtain s where "sign_kes sample_crypto sk_t 40 [1, 2, 3] = Ok s"
    "verify_kes_sum sample_crypto (derive_verification_key sample_crypto sk) 40 [1, 2, 3] s = Ok ()"
    using sign [rule_format, of "[1, 2, 3]"] by auto
  ultimately show ?thesis using sk(1) by blast
qed

text \<open>
  Signatures survive their encoding: every signature a key of level \<open>n\<close> makes has exactly
  \<open>64 + 64 n\<close> bytes when serialised (448 at level 6) and deserialises to itself.
\<close>

theorem kes_signature_roundtrip:
  assumes "kes_crypto_ok c" and "length seed = 32" and "t < 2 ^ n" and "n < 32"
    and "gen_key_kes c n seed = Ok sk" and "evolve c t sk = Ok (Some sk_t)"
    and "sign_kes c sk_t p msg = Ok s"
  shows "length (raw_serialize_signature_kes s) = 64 + 64 * n
    \<and> raw_deserialize_signature_kes n (raw_serialize_signature_kes s) = Ok s"
  using sign_kes_encoding [OF assms(1), of n seed t p msg s] assms
    gen_key_kes_key_at [OF assms(1,2), of n] evolve_key_at [OF assms(1,4,3), of seed]
  by (simp add: signature_size_eq)

theorem kes_signature_roundtrip_witness:
  "\<exists>s. sign_kes sample_crypto (Sum0SigningKey (replicate 32 1)) 0 [7] = Ok s
    \<and> raw_deserialize_signature_kes 0 (raw_serialize_signature_kes s) = Ok s"
  using kes_signature_roundtrip [OF sample_crypto_ok, of "replicate 32 1" 0 0 "Sum0SigningKey (replicate 32 1)"
      "Sum0SigningKey (replicate 32 1)" 0 "[7]"]
  by simp

text \<open>
  Expanded keys survive their encoding, and the encoding shows the period: when no seed of
  the tree is all zero, the key of each period serialises to \<open>32 + 96 n\<close> bytes that deserialise
  to that very key, passing every consistency check; and for level 6 the shape of the zeroed
  seeds in the 608 bytes gives exactly the period.
\<close>

theorem kes_key_roundtrip:
  assumes "kes_crypto_ok c" and "length seed = 32" and "n < 32" and "t < 2 ^ n" and "seeds_nonzero c n seed"
    and "gen_key_kes c n seed = Ok sk" and "evolve c t sk = Ok (Some sk_t)"
  shows "length (raw_serialize_signing_key_kes sk_t) = 32 + 96 * n
    \<and> raw_deserialize_signing_key_kes c n (raw_serialize_signing_key_kes sk_t) = Ok sk_t
    \<and> (n = 6 \<longrightarrow> period_from_zeroed_sum6_tree_shape (raw_serialize_signing_key_kes sk_t) = Ok (word_of_nat t))"
proof -
  have sk: "sk_t = key_at c n seed t"
    using gen_key_kes_key_at [OF assms(1,2), of n] evolve_key_at [OF assms(1,3,4), of seed] assms(6,7) by simp
  show ?thesis
    unfolding sk
    using length_serialize_key_at [OF assms(1,2), of n t] deserialize_key_at [OF assms(1,2,5), of t]
      shape_period_key_at [OF assms(1,2,5,4)]
    by (auto simp: signing_key_size_eq period_from_shape)
qed

theorem kes_key_roundtrip_witness:
  "raw_deserialize_signing_key_kes sample_crypto 0 (raw_serialize_signing_key_kes (Sum0SigningKey (replicate 32 1)))
     = Ok (Sum0SigningKey (replicate 32 1))
   \<and> (\<exists>sk sk_t. gen_key_kes sample_crypto 6 (replicate 32 1) = Ok sk \<and> evolve sample_crypto 41 sk = Ok (Some sk_t)
        \<and> period_from_zeroed_sum6_tree_shape (raw_serialize_signing_key_kes sk_t) = Ok 41)"
proof -
  have leaf: "raw_deserialize_signing_key_kes sample_crypto 0
      (raw_serialize_signing_key_kes (Sum0SigningKey (replicate 32 1))) = Ok (Sum0SigningKey (replicate 32 1))"
    using kes_key_roundtrip [OF sample_crypto_ok, of "replicate 32 1" 0 0 "Sum0SigningKey (replicate 32 1)"
        "Sum0SigningKey (replicate 32 1)"]
    by (simp add: list_ex_iff)
  let ?seed = "replicate 32 1 :: bytes"
  have nz: "seeds_nonzero sample_crypto n (x # xs)" if "x \<noteq> 0" for n x xs
    using that
  proof (induction n arbitrary: x xs)
    case (Suc n)
    then show ?case by (simp add: expand_seed_def sample_crypto_def)
  qed simp
  have seed: "?seed = 1 # replicate 31 1" by (simp add: numeral_eq_Suc)
  have ok: "gen_key_kes sample_crypto 6 ?seed = Ok (key_at sample_crypto 6 ?seed 0)"
    "evolve sample_crypto 41 (key_at sample_crypto 6 ?seed 0) = Ok (Some (key_at sample_crypto 6 ?seed 41))"
    using gen_key_kes_key_at [OF sample_crypto_ok] evolve_key_at [OF sample_crypto_ok, of 6 41] by simp_all
  have "seeds_nonzero sample_crypto 6 ?seed" unfolding seed by (rule nz) simp
  with kes_key_roundtrip [OF sample_crypto_ok, of ?seed 6 41] ok leaf show ?thesis by fastforce
qed

end
