(* ===== verification/Crypto_Verify.thy ===== *)
theory Crypto_Verify
  imports Kes_Sum Consensus_Types
begin

text \<open>
  The verification surface of \<^verbatim>\<open>ade_crypto\<close> that consensus calls: \<^verbatim>\<open>error.rs\<close>,
  \<^verbatim>\<open>ed25519.rs\<close>, \<^verbatim>\<open>vrf.rs\<close> and \<^verbatim>\<open>kes.rs\<close>. The third-party primitives (Ed25519 and
  Blake2b through \<open>KesCrypto\<close>, the VRF of the crate \<^verbatim>\<open>cardano-crypto\<close> as a function that
  returns the output of a valid proof) are the fields of the record \<open>Crypto\<close>.
\<close>

section \<open>Data\<close>

datatype CryptoError =
    InvalidInputLength nat nat string
  | VerificationFailed string
  | MalformedKey string string
  | MalformedSignature string string
  | MalformedProof string
  | VrfOutputExtractionFailed string
  | KesExpiredPeriod u32 u32
  | KesMalformedPath u8 string
  | UnsupportedAlgorithm string

record Crypto =
  cr_kes :: KesCrypto
  cr_vrf_verify :: "bytes \<Rightarrow> bytes \<Rightarrow> bytes \<Rightarrow> bytes option"

abbreviation blake2b_256 :: "Crypto \<Rightarrow> bytes \<Rightarrow> Hash32" where
  "blake2b_256 c \<equiv> kc_blake2b256 (cr_kes c)"

type_synonym KesPeriod = u32

record OperationalCertData =
  ocd_hot_vkey :: bytes
  ocd_sequence_number :: u64
  ocd_kes_period :: u64
  ocd_cold_signature :: bytes

section \<open>Length-checked construction\<close>

definition VrfVerificationKey_from_bytes :: "bytes \<Rightarrow> (bytes, CryptoError) result" where
  "VrfVerificationKey_from_bytes bytes =
     (if length bytes \<noteq> 32 then Err (MalformedKey ''vrf_ecvrf'' ''expected 32 bytes'') else Ok bytes)"

definition VrfProof_from_bytes :: "bytes \<Rightarrow> (bytes, CryptoError) result" where
  "VrfProof_from_bytes bytes =
     (if length bytes \<noteq> 80 then Err (MalformedProof ''expected 80 bytes'') else Ok bytes)"

definition Ed25519VerificationKey_from_bytes :: "bytes \<Rightarrow> (bytes, CryptoError) result" where
  "Ed25519VerificationKey_from_bytes bytes =
     (if length bytes \<noteq> 32 then Err (MalformedKey ''ed25519'' ''expected 32 bytes'') else Ok bytes)"

definition Ed25519Signature_from_bytes :: "bytes \<Rightarrow> (bytes, CryptoError) result" where
  "Ed25519Signature_from_bytes bytes =
     (if length bytes \<noteq> 64 then Err (MalformedSignature ''ed25519'' ''expected 64 bytes'') else Ok bytes)"

definition ByronExtendedVerificationKey_from_bytes :: "bytes \<Rightarrow> (bytes, CryptoError) result" where
  "ByronExtendedVerificationKey_from_bytes bytes =
     (if length bytes \<noteq> 64 then Err (MalformedKey ''ed25519_extended'' ''expected 64 bytes'') else Ok bytes)"

definition SUM6_MAX_PERIOD :: u32 where "SUM6_MAX_PERIOD = 63"
definition SUM6_SIGNATURE_SIZE :: nat where "SUM6_SIGNATURE_SIZE = 448"

definition KesSignature_from_bytes :: "bytes \<Rightarrow> (bytes, CryptoError) result" where
  "KesSignature_from_bytes bytes =
     (if length bytes \<noteq> SUM6_SIGNATURE_SIZE then Err (MalformedSignature ''kes_sum6'' ''expected 448 bytes'')
      else Ok bytes)"

definition KesVerificationKey_from_bytes :: "bytes \<Rightarrow> (bytes, CryptoError) result" where
  "KesVerificationKey_from_bytes bytes =
     (if length bytes \<noteq> 32 then Err (MalformedKey ''kes_sum6'' ''expected 32 bytes'') else Ok bytes)"

definition KesPeriod_new :: "u32 \<Rightarrow> (KesPeriod, CryptoError) result" where
  "KesPeriod_new period =
     (if SUM6_MAX_PERIOD < period then Err (KesExpiredPeriod period SUM6_MAX_PERIOD) else Ok period)"

section \<open>Verification\<close>

definition verify_ed25519 :: "Crypto \<Rightarrow> bytes \<Rightarrow> bytes \<Rightarrow> bytes \<Rightarrow> (bool, CryptoError) result" where
  "verify_ed25519 c vk msg sig =
     (if \<not> kc_point_ok (cr_kes c) vk then Err (MalformedKey ''ed25519'' ''invalid point encoding'')
      else Ok (kc_verify (cr_kes c) vk msg sig))"

definition verify_byron_bootstrap :: "Crypto \<Rightarrow> bytes \<Rightarrow> bytes \<Rightarrow> bytes \<Rightarrow> (bool, CryptoError) result" where
  "verify_byron_bootstrap c xvk msg sig = verify_ed25519 c (take 32 xvk) msg sig"

definition verify_vrf :: "Crypto \<Rightarrow> VrfVerificationKey \<Rightarrow> VrfProof \<Rightarrow> bytes \<Rightarrow> (VrfOutput, CryptoError) result" where
  "verify_vrf c vk proof alpha =
     (case cr_vrf_verify c vk proof alpha of
        Some output \<Rightarrow> Ok output
      | None \<Rightarrow> Err (CryptoError.VerificationFailed ''vrf_ecvrf''))"

definition verify_kes :: "Crypto \<Rightarrow> bytes \<Rightarrow> KesPeriod \<Rightarrow> bytes \<Rightarrow> bytes \<Rightarrow> (bool, CryptoError) result" where
  "verify_kes c vk period sig_bytes msg =
     (if length sig_bytes \<noteq> SUM6_SIGNATURE_SIZE
      then Err (MalformedSignature ''kes_sum6'' ''wrong signature length'')
      else rbind (map_err (\<lambda>_. MalformedSignature ''kes_sum6'' ''failed to deserialize KES signature'')
             (raw_deserialize_signature_kes 6 sig_bytes)) (\<lambda>signature.
           case verify_kes_sum (cr_kes c) vk period msg signature of
             Ok _ \<Rightarrow> Ok True
           | Err _ \<Rightarrow> Ok False))"

definition verify_kes_signature :: "Crypto \<Rightarrow> bytes \<Rightarrow> KesPeriod \<Rightarrow> bytes \<Rightarrow> bytes \<Rightarrow> (unit, CryptoError) result" where
  "verify_kes_signature c vk period msg sig =
     rbind (verify_kes c vk period sig msg) (\<lambda>valid.
     if valid then Ok () else Err (CryptoError.VerificationFailed ''kes_sum6''))"

definition build_opcert_signable :: "OperationalCertData \<Rightarrow> bytes" where
  "build_opcert_signable opcert =
     ocd_hot_vkey opcert @ u64_to_be_bytes (ocd_sequence_number opcert) @ u64_to_be_bytes (ocd_kes_period opcert)"

definition verify_opcert :: "Crypto \<Rightarrow> bytes \<Rightarrow> OperationalCertData \<Rightarrow> (bool, CryptoError) result" where
  "verify_opcert c cold_vk opcert =
     verify_ed25519 c cold_vk (build_opcert_signable opcert) (ocd_cold_signature opcert)"

section \<open>Lemmas\<close>

lemma raw_deserialize_signature_Ok:
  "raw_deserialize_signature_kes n bytes = Ok s \<Longrightarrow> sig_level s = n \<and> length bytes = signature_size n"
  by (induction n arbitrary: bytes s) (auto simp: Let_def result_simps split: if_splits)

lemma raw_deserialize_signature_total:
  "length bytes = signature_size n \<Longrightarrow> \<exists>s. raw_deserialize_signature_kes n bytes = Ok s"
proof (induction n arbitrary: bytes)
  case (Suc n)
  then obtain s where "raw_deserialize_signature_kes n (take (signature_size n) bytes) = Ok s" by fastforce
  with Suc.prems show ?case by (simp add: Let_def)
qed simp

lemma raw_serialize_deserialize_signature:
  "raw_deserialize_signature_kes n bytes = Ok s \<Longrightarrow> raw_serialize_signature_kes s = bytes"
proof (induction n arbitrary: bytes s)
  case (Suc n)
  let ?k = "signature_size n"
  from Suc.prems obtain s' where len: "length bytes = ?k + 64"
      and s': "raw_deserialize_signature_kes n (take ?k bytes) = Ok s'"
      and s: "s = SumSignature s' (take 32 (drop ?k bytes)) (take 32 (drop (?k + 32) bytes))"
    by (auto simp: Let_def result_simps split: if_splits)
  have "raw_serialize_signature_kes s = take ?k bytes @ take 32 (drop ?k bytes) @ take 32 (drop (?k + 32) bytes)"
    using Suc.IH [OF s'] by (simp add: s)
  also have "take 32 (drop (?k + 32) bytes) = drop 32 (drop ?k bytes)" using len by (simp add: add.commute)
  also have "take ?k bytes @ take 32 (drop ?k bytes) @ drop 32 (drop ?k bytes) = bytes"
    by (simp only: append_take_drop_id)
  finally show ?case .
qed (auto split: if_splits)

text \<open>A well-formed KES signature is never reported as malformed.\<close>

lemma verify_kes_total: "length sig = 448 \<Longrightarrow> \<exists>valid. verify_kes c vk period sig msg = Ok valid"
  using raw_deserialize_signature_total [of sig 6]
  by (auto simp: verify_kes_def SUM6_SIGNATURE_SIZE_def signature_size_eq split: sum.splits)

text \<open>The certified fields determine the signed bytes.\<close>

lemma build_opcert_signable_inject:
  "length (ocd_hot_vkey a) = 32 \<Longrightarrow> length (ocd_hot_vkey b) = 32 \<Longrightarrow>
     build_opcert_signable a = build_opcert_signable b \<longleftrightarrow>
       ocd_hot_vkey a = ocd_hot_vkey b \<and> ocd_sequence_number a = ocd_sequence_number b
       \<and> ocd_kes_period a = ocd_kes_period b"
  by (simp add: build_opcert_signable_def append_eq_append_conv)

end
