(* ===== verification/Vrf_Fixed_Point.thy ===== *)
theory Vrf_Fixed_Point
  imports Consensus_Types
begin

text \<open>
  The Q.123 fixed-point arithmetic of \<^verbatim>\<open>ade_core/src/consensus/vrf_cert.rs\<close>, on \<^verbatim>\<open>u128\<close>
  as 128-bit words: the 256-bit product, the shift, the restoring division and the Taylor
  series for logarithm and exponential, up to the leader threshold
  \<open>1 - (1 - f) ^ \<sigma>\<close> and the predicate \<open>is_leader\<close>. The lemmas give each primitive its
  value over the natural numbers and carry order through the series. The loops with 128
  and 18 iterations are recursion and folds over exactly that many steps.
\<close>

section \<open>The arithmetic\<close>

definition FP_BITS :: nat where "FP_BITS = 123"
definition ONE_Q :: u128 where "ONE_Q = push_bit FP_BITS 1"

abbreviation u128_max :: u128 where "u128_max \<equiv> - 1"

definition mul_u128_full :: "u128 \<Rightarrow> u128 \<Rightarrow> u128 \<times> u128" where
  "mul_u128_full a b =
     (let a_lo = ucast (ucast a :: u64) :: u128;
          a_hi = drop_bit 64 a;
          b_lo = ucast (ucast b :: u64) :: u128;
          b_hi = drop_bit 64 b;
          ll = a_lo * b_lo;
          lh = a_lo * b_hi;
          hl = a_hi * b_lo;
          hh = a_hi * b_hi;
          mid = drop_bit 64 ll + (lh AND 0xFFFFFFFFFFFFFFFF) + (hl AND 0xFFFFFFFFFFFFFFFF);
          lo = push_bit 64 mid OR (ll AND 0xFFFFFFFFFFFFFFFF);
          hi = hh + drop_bit 64 lh + drop_bit 64 hl + drop_bit 64 mid
      in (hi, lo))"

definition shr_u256 :: "u128 \<Rightarrow> u128 \<Rightarrow> nat \<Rightarrow> u128" where
  "shr_u256 hi lo shift =
     (if shift = 0 then lo
      else if shift < 128 then drop_bit shift lo OR push_bit (128 - shift) hi
      else if shift = 128 then hi
      else drop_bit (shift - 128) hi)"

definition mul_q :: "u128 \<Rightarrow> u128 \<Rightarrow> u128" where
  "mul_q a b =
     (let (hi, lo) = mul_u128_full a b
      in if push_bit FP_BITS 1 \<le> hi then u128_max else shr_u256 hi lo FP_BITS)"

fun div_loop :: "nat \<Rightarrow> u128 \<Rightarrow> u128 \<Rightarrow> u128 \<Rightarrow> u128 \<Rightarrow> u128" where
  "div_loop 0 hi lo divisor quot = quot"
| "div_loop (Suc n) hi lo divisor quot =
     (let new_hi = push_bit 1 hi OR drop_bit 127 lo;
          new_lo = push_bit 1 lo;
          quot' = push_bit 1 quot
      in if divisor \<le> new_hi then div_loop n (new_hi - divisor) new_lo divisor (quot' OR 1)
         else div_loop n new_hi new_lo divisor quot')"

definition div_u256_by_u128 :: "u128 \<Rightarrow> u128 \<Rightarrow> u128 \<Rightarrow> u128" where
  "div_u256_by_u128 hi lo divisor =
     (if divisor = 0 then u128_max
      else if divisor \<le> hi then u128_max
      else div_loop 128 hi lo divisor 0)"

definition div_q :: "u128 \<Rightarrow> u128 \<Rightarrow> u128" where
  "div_q a b =
     (if b = 0 then u128_max
      else div_u256_by_u128 (drop_bit (128 - FP_BITS) a) (push_bit FP_BITS a) b)"

definition rational_to_q :: "u128 \<Rightarrow> u128 \<Rightarrow> u128" where
  "rational_to_q num den =
     (if den = 0 then u128_max
      else (let (hi, lo) = mul_u128_full num ONE_Q in div_u256_by_u128 hi lo den))"

definition q_to_high_be8 :: "u128 \<Rightarrow> bytes" where
  "q_to_high_be8 q =
     (let clamped = (if ONE_Q \<le> q then ONE_Q - 1 else q);
          bits = ucast (drop_bit (FP_BITS - 64) clamped) :: u64
      in u64_to_be_bytes bits)"

section \<open>The leader threshold\<close>

record StakeFraction =
  sf_numer :: u64
  sf_denom :: u64

record ActiveSlotsCoeff =
  asc_numer :: u32
  asc_denom :: u32

definition leader_value_q :: "VrfOutput \<Rightarrow> u128" where
  "leader_value_q output =
     push_bit (FP_BITS - 64) (ucast (word_of_nat (be_nat (take 8 output)) :: u64))"

definition abs_ln_one_minus_f :: "ActiveSlotsCoeff \<Rightarrow> u128" where
  "abs_ln_one_minus_f asc =
     (let f_q = rational_to_q (ucast (asc_numer asc)) (ucast (asc_denom asc))
      in snd (foldl (\<lambda>(trm, sm) n. (mul_q trm f_q, saturating_add sm (trm div word_of_nat n)))
                (f_q, 0) [1 ..< 19]))"

definition exp_pos_q :: "u128 \<Rightarrow> u128" where
  "exp_pos_q x =
     snd (foldl (\<lambda>(trm, sm) n. let trm' = mul_q trm x div word_of_nat n
                                 in (trm', saturating_add sm trm'))
            (ONE_Q, ONE_Q) [1 ..< 19])"

definition exp_neg_q :: "u128 \<Rightarrow> u128" where
  "exp_neg_q y = (let e = exp_pos_q y in if e = 0 then 0 else div_q ONE_Q e)"

definition one_minus_one_minus_f_pow_sigma :: "ActiveSlotsCoeff \<Rightarrow> StakeFraction \<Rightarrow> u128" where
  "one_minus_one_minus_f_pow_sigma asc sigma =
     (let abs_ln = abs_ln_one_minus_f asc;
          sigma_q = rational_to_q (ucast (sf_numer sigma)) (ucast (sf_denom sigma));
          exponent = mul_q sigma_q abs_ln;
          pow = exp_neg_q exponent
      in saturating_sub ONE_Q pow)"

definition is_leader :: "VrfOutput \<Rightarrow> StakeFraction \<Rightarrow> ActiveSlotsCoeff \<Rightarrow> bool" where
  "is_leader output sigma asc =
     (if sf_numer sigma = 0 \<or> sf_denom sigma = 0 then False
      else if asc_denom asc = 0 then False
      else if asc_denom asc \<le> asc_numer asc then True
      else if asc_numer asc = 0 then False
      else leader_value_q output < one_minus_one_minus_f_pow_sigma asc sigma)"

definition check_leader_claim ::
  "VrfOutput \<Rightarrow> StakeFraction \<Rightarrow> ActiveSlotsCoeff \<Rightarrow> (unit, VrfCertError) result" where
  "check_leader_claim output sigma asc =
     (if is_leader output sigma asc then Ok ()
      else Err (LeaderValueAboveThreshold (take 8 output)
                  (q_to_high_be8 (one_minus_one_minus_f_pow_sigma asc sigma))))"

section \<open>Words as numbers\<close>

lemma unat_u128_less: "unat (x :: u128) < 2 ^ 128"
  using unsigned_less [of x, where 'a = nat] by simp

lemma unat_ucast_up:
  "unat (ucast (x :: u32) :: u128) = unat x" "unat (ucast (y :: u64) :: u128) = unat y"
  using unsigned_less [of x, where 'a = nat] unsigned_less [of y, where 'a = nat]
  by (simp_all add: unsigned_ucast_eq take_bit_nat_eq_self)

lemma unat_drop_bit_div: "unat (drop_bit n w) = unat w div 2 ^ n" for w :: "'a::len word"
proof -
  have "unat w < 2 ^ LENGTH('a)" by (rule unsigned_less)
  then show ?thesis
    unfolding unsigned_drop_bit_eq by (simp add: drop_bit_eq_div take_bit_nat_eq_self)
qed

lemma unat_push_bit_mod: "unat (push_bit n w) = unat w * 2 ^ n mod 2 ^ LENGTH('a)" for w :: "'a::len word"
  unfolding unsigned_push_bit_eq by (simp add: push_bit_eq_mult take_bit_eq_mod)

lemma unat_low64:
  "unat (ucast (ucast (a :: u128) :: u64) :: u128) = unat a mod 2 ^ 64"
  "unat ((a :: u128) AND 0xFFFFFFFFFFFFFFFF) = unat a mod 2 ^ 64"
proof -
  show "unat (ucast (ucast a :: u64) :: u128) = unat a mod 2 ^ 64"
    unfolding unsigned_ucast_eq by (simp add: take_bit_eq_mod unat_word_mod)
  have "(0xFFFFFFFFFFFFFFFF :: u128) = mask 64" by (simp add: mask_eq_exp_minus_1)
  then show "unat (a AND 0xFFFFFFFFFFFFFFFF) = unat a mod 2 ^ 64"
    by (simp only: take_bit_eq_mask [symmetric]) (simp only: unsigned_take_bit_eq, simp add: take_bit_eq_mod)
qed

text \<open>Bitwise or of a shifted number and one below the shift is their sum.\<close>

lemma nat_or_disjoint:
  fixes a b :: nat
  assumes "b < 2 ^ n"
  shows "a * 2 ^ n OR b = a * 2 ^ n + b"
proof -
  have b: "take_bit n b = b" using assms by (simp add: take_bit_nat_eq_self)
  have "push_bit n a + take_bit n b = push_bit n a OR take_bit n b"
    by (rule disjunctive_add) (auto simp: bit_push_bit_iff bit_take_bit_iff)
  then show ?thesis by (simp add: b push_bit_eq_mult)
qed

lemma unat_or_disjoint:
  assumes "unat (x :: 'a::len word) = a * 2 ^ n" and "unat y < 2 ^ n"
  shows "unat (x OR y) = a * 2 ^ n + unat y"
  by (simp only: unsigned_or_eq assms(1) nat_or_disjoint [OF assms(2)])

section \<open>The product\<close>

lemma mul_split:
  fixes A B :: nat
  assumes "A < 2 ^ 128" and "B < 2 ^ 128"
  defines "al \<equiv> A mod 2 ^ 64" and "ah \<equiv> A div 2 ^ 64" and "bl \<equiv> B mod 2 ^ 64" and "bh \<equiv> B div 2 ^ 64"
  shows "A * B = ah * bh * 2 ^ 128 + (al * bh + ah * bl) * 2 ^ 64 + al * bl"
    and "al < 2 ^ 64" and "ah < 2 ^ 64" and "bl < 2 ^ 64" and "bh < 2 ^ 64"
proof -
  have A: "A = ah * 2 ^ 64 + al" and B: "B = bh * 2 ^ 64 + bl"
    by (simp_all add: al_def ah_def bl_def bh_def)
  show "A * B = ah * bh * 2 ^ 128 + (al * bh + ah * bl) * 2 ^ 64 + al * bl"
    unfolding A B by (simp add: algebra_simps)
  show "al < 2 ^ 64" "ah < 2 ^ 64" "bl < 2 ^ 64" "bh < 2 ^ 64"
    using assms(1,2) by (simp_all add: al_def ah_def bl_def bh_def less_mult_imp_div_less)
qed

lemma mul_less_square: "x < 2 ^ 64 \<Longrightarrow> y < 2 ^ 64 \<Longrightarrow> x * y < 2 ^ 128" for x y :: nat
  using mult_strict_mono [of x "2 ^ 64" y "2 ^ 64"] by simp

lemma carry_sum:
  fixes K :: nat
  assumes "lh = lq * K + lr" and "hl = hq * K + hr" and "ll = q * K + r" and "q + lr + hr = mq * K + mr"
  shows "hh * (K * K) + (lh + hl) * K + ll = (hh + lq + hq + mq) * (K * K) + (mr * K + r)"
proof -
  have "(lh + hl) * K + ll = (lq + hq) * (K * K) + (q + lr + hr) * K + r"
    unfolding assms(1-3) by (simp add: algebra_simps)
  then show ?thesis unfolding assms(4) by (simp add: algebra_simps)
qed

lemma mul_u128_full_exact:
  assumes "mul_u128_full a b = (hi, lo)"
  shows "unat a * unat b = unat hi * 2 ^ 128 + unat lo"
proof -
  define al ah bl bh where "al = unat a mod 2 ^ 64" and "ah = unat a div 2 ^ 64"
    and "bl = unat b mod 2 ^ 64" and "bh = unat b div 2 ^ 64"
  note split = mul_split [OF unat_u128_less [of a] unat_u128_less [of b],
      folded al_def ah_def bl_def bh_def]
  note sq = mul_less_square
  define ll lh hl hh where "ll = al * bl" and "lh = al * bh" and "hl = ah * bl" and "hh = ah * bh"
  have bounds: "ll < 2 ^ 128" "lh < 2 ^ 128" "hl < 2 ^ 128" "hh < 2 ^ 128"
    unfolding ll_def lh_def hl_def hh_def by (intro sq split(2-5))+
  let ?ll = "ucast (ucast a :: u64) * ucast (ucast b :: u64) :: u128"
  let ?lh = "ucast (ucast a :: u64) * drop_bit 64 b :: u128"
  let ?hl = "drop_bit 64 a * ucast (ucast b :: u64) :: u128"
  let ?hh = "drop_bit 64 a * drop_bit 64 b"
  have prods: "unat ?ll = ll" "unat ?lh = lh" "unat ?hl = hl" "unat ?hh = hh"
    using bounds by (simp_all add: unat_word_ariths(2) unat_low64 unat_drop_bit_div
        ll_def lh_def hl_def hh_def al_def ah_def bl_def bh_def)
  let ?mid = "drop_bit 64 ?ll + (?lh AND 0xFFFFFFFFFFFFFFFF) + (?hl AND 0xFFFFFFFFFFFFFFFF)"
  define mid where "mid = ll div 2 ^ 64 + lh mod 2 ^ 64 + hl mod 2 ^ 64"
  have "ll div 2 ^ 64 < 2 ^ 64" using bounds(1) by (simp add: less_mult_imp_div_less)
  moreover have "lh mod 2 ^ 64 < 2 ^ 64" "hl mod 2 ^ 64 < 2 ^ 64" by simp_all
  ultimately have mid_less: "mid < 3 * 2 ^ 64" by (simp add: mid_def)
  have mid: "unat ?mid = mid"
    using mid_less by (simp add: unat_word_ariths(1) unat_drop_bit_div unat_low64 prods mid_def)
  define m where "m = ?mid"
  have m: "unat m = mid" using mid by (simp add: m_def)
  let ?lo = "push_bit 64 m OR (?ll AND 0xFFFFFFFFFFFFFFFF)"
  have push: "unat (push_bit 64 m) = mid mod 2 ^ 64 * 2 ^ 64"
    using mult_mod_left [of mid "2 ^ 64" "2 ^ 64"] by (simp add: unat_push_bit_mod m)
  have lo: "unat ?lo = mid mod 2 ^ 64 * 2 ^ 64 + ll mod 2 ^ 64"
    by (subst unat_or_disjoint [OF push]) (simp_all add: unat_low64 prods)
  have total: "unat a * unat b = hh * 2 ^ 128 + (lh + hl) * 2 ^ 64 + ll"
    using split(1) by (simp add: ll_def lh_def hl_def hh_def)
  have lh: "lh = lh div 2 ^ 64 * 2 ^ 64 + lh mod 2 ^ 64" and hl: "hl = hl div 2 ^ 64 * 2 ^ 64 + hl mod 2 ^ 64"
    and ll: "ll = ll div 2 ^ 64 * 2 ^ 64 + ll mod 2 ^ 64"
    and md: "mid = mid div 2 ^ 64 * 2 ^ 64 + mid mod 2 ^ 64" by simp_all
  define hi' where "hi' = hh + lh div 2 ^ 64 + hl div 2 ^ 64 + mid div 2 ^ 64"
  have sum: "unat a * unat b = hi' * 2 ^ 128 + (mid mod 2 ^ 64 * 2 ^ 64 + ll mod 2 ^ 64)"
    using total carry_sum [OF lh hl ll, of "mid div 2 ^ 64" "mid mod 2 ^ 64" hh] md
    unfolding hi'_def by (simp add: mid_def)
  have "unat a * unat b < 2 ^ 128 * 2 ^ 128"
    using mult_strict_mono [OF unat_u128_less [of a] unat_u128_less [of b]] by simp
  then have hi_less: "hi' < 2 ^ 128" using sum by simp
  have hi: "unat (?hh + drop_bit 64 ?lh + drop_bit 64 ?hl + drop_bit 64 m) = hi'"
    using hi_less by (simp add: unat_word_ariths(1) unat_drop_bit_div prods m hi'_def)
  have "(hi, lo) = (?hh + drop_bit 64 ?lh + drop_bit 64 ?hl + drop_bit 64 m, ?lo)"
    using assms unfolding mul_u128_full_def Let_def m_def by simp
  then show ?thesis using sum hi lo by simp
qed

text \<open>\<open>mul_q\<close> is the floor of the product, saturated at the largest 128-bit value.\<close>

lemma unat_ONE_Q: "unat ONE_Q = 2 ^ 123"
  by (simp add: ONE_Q_def FP_BITS_def unat_push_bit_mod)

lemma mul_q_unfold:
  "mul_q a b = (let (hi, lo) = mul_u128_full a b in if ONE_Q \<le> hi then u128_max else shr_u256 hi lo FP_BITS)"
  by (simp only: mul_q_def ONE_Q_def)

lemma unat_mul_q: "unat (mul_q a b) = min (unat a * unat b div 2 ^ 123) (2 ^ 128 - 1)"
proof -
  obtain hi lo where p: "mul_u128_full a b = (hi, lo)" by (cases "mul_u128_full a b")
  note exact = mul_u128_full_exact [OF p]
  have lo: "unat lo < 2 ^ 128" by (rule unat_u128_less)
  have quot: "unat a * unat b div 2 ^ 123 = unat hi * 2 ^ 5 + unat lo div 2 ^ 123"
  proof -
    have "unat hi * 2 ^ 128 + unat lo = unat lo + unat hi * 2 ^ 5 * 2 ^ 123" by simp
    then show ?thesis unfolding exact by (simp only: div_mult_self1) simp
  qed
  have lo5: "unat lo div 2 ^ 123 < 2 ^ 5" using lo by (simp add: less_mult_imp_div_less)
  show ?thesis
  proof (cases "ONE_Q \<le> hi")
    case True
    then have "2 ^ 123 \<le> unat hi"
      by (simp add: word_le_nat_alt unat_ONE_Q)
    then have "2 ^ 128 - 1 \<le> unat a * unat b div 2 ^ 123" unfolding quot by simp
    then show ?thesis using True p by (simp add: mul_q_unfold unat_minus_one_eq)
  next
    case False
    then have hi: "unat hi < 2 ^ 123"
      by (simp add: word_le_nat_alt unat_ONE_Q)
    have push: "unat (push_bit 5 hi) = unat hi * 2 ^ 5" using hi by (simp only: unat_push_bit_mod) simp
    have "unat (push_bit 5 hi OR drop_bit 123 lo) = unat hi * 2 ^ 5 + unat (drop_bit 123 lo)"
      by (rule unat_or_disjoint [OF push]) (use lo5 in \<open>simp add: unat_drop_bit_div\<close>)
    then have "unat (shr_u256 hi lo FP_BITS) = unat a * unat b div 2 ^ 123"
      using quot by (simp add: shr_u256_def FP_BITS_def unat_drop_bit_div or.commute)
    moreover have "unat a * unat b div 2 ^ 123 < 2 ^ 128" using hi lo5 unfolding quot by simp
    ultimately show ?thesis using False p by (simp add: mul_q_unfold)
  qed
qed

lemma mul_q_mono: "a \<le> a' \<Longrightarrow> b \<le> b' \<Longrightarrow> mul_q a b \<le> mul_q a' b'"
  unfolding word_le_nat_alt unat_mul_q
  by (intro min.mono div_le_mono mult_le_mono) simp_all

section \<open>The division\<close>

text \<open>
  Each step shifts one bit of the dividend into the remainder. While the divisor is at
  most \<open>2 ^ 127\<close> the remainder stays below it and the shift loses no bit.
\<close>

lemma shift_bit_in:
  fixes l :: nat
  assumes "n < 128"
  shows "l div 2 ^ (127 - n) = l div 2 ^ 127 * 2 ^ n + (2 * l mod 2 ^ 128) div 2 ^ (128 - n)"
proof -
  define m where "m = 127 - n"
  have m: "m + n = 127" "128 - n = Suc m" using assms by (simp_all add: m_def)
  define t r where "t = l div 2 ^ 127" and "r = l mod 2 ^ 127"
  have "(2 :: nat) ^ n * 2 ^ m = 2 ^ 127" by (simp only: power_add [symmetric] add.commute [of n m] m(1))
  then have l: "l = r + t * 2 ^ n * 2 ^ m"
    by (simp only: t_def r_def mult.assoc mod_div_mult_eq)
  have "2 * l mod 2 ^ 128 = 2 * r"
    using mult_mod_right [of 2 l "2 ^ 127"] by (simp add: r_def)
  moreover have "2 * r div 2 ^ Suc m = r div 2 ^ m" by simp
  moreover have "l div 2 ^ m = r div 2 ^ m + t * 2 ^ n" by (subst l) simp
  ultimately show ?thesis using m by (simp add: t_def m_def)
qed

lemma div_loop_correct:
  assumes "n \<le> 128" and "0 < unat d" and "unat d \<le> 2 ^ 127" and "unat hi < unat d"
    and "unat q < 2 ^ (128 - n)"
  shows "unat (div_loop n hi lo d q) =
    unat q * 2 ^ n + (unat hi * 2 ^ n + unat lo div 2 ^ (128 - n)) div unat d"
  using assms
proof (induction n arbitrary: hi lo q)
  case 0
  then show ?case using unat_u128_less [of lo] by simp
next
  case (Suc n)
  let ?D = "unat d"
  define h2 where "h2 = push_bit 1 hi OR drop_bit 127 lo"
  define l2 where "l2 = push_bit 1 lo"
  have loop: "div_loop (Suc n) hi lo d q = (if d \<le> h2 then div_loop n (h2 - d) l2 d (push_bit 1 q OR 1)
      else div_loop n h2 l2 d (push_bit 1 q))"
    by (simp only: div_loop.simps Let_def h2_def l2_def)
  define t where "t = unat lo div 2 ^ 127"
  have hi: "unat (push_bit 1 hi) = unat hi * 2 ^ 1" using Suc.prems(3,4) by (simp only: unat_push_bit_mod) simp
  have t: "t < 2" using unat_u128_less [of lo] by (simp add: t_def less_mult_imp_div_less)
  have h2: "unat h2 = 2 * unat hi + t"
    unfolding h2_def using unat_or_disjoint [OF hi, of "drop_bit 127 lo"] t
    by (simp add: unat_drop_bit_div t_def)
  have l2: "unat l2 = 2 * unat lo mod 2 ^ 128" by (simp only: l2_def unat_push_bit_mod) (simp add: mult.commute)
  have n: "n < 128" using Suc.prems(1) by simp
  then have "128 - n = Suc (127 - n)" by simp
  then have pow: "(2 :: nat) ^ (128 - n) = 2 * 2 ^ (127 - n)" by simp
  have q2: "unat (push_bit 1 q) = unat q * 2 ^ 1"
  proof -
    have "unat q * 2 < 2 ^ (128 - n)" using Suc.prems(5) pow by simp
    moreover have "(2 :: nat) ^ (128 - n) \<le> 2 ^ 128" by (rule power_increasing) simp_all
    ultimately have "unat q * 2 < 2 ^ 128" by (rule less_le_trans)
    then show ?thesis by (simp only: unat_push_bit_mod) simp
  qed
  have q: "unat q < 2 ^ (127 - n)" using Suc.prems(5) by simp
  define X where "X = unat l2 div 2 ^ (128 - n)"
  have goal: "unat hi * 2 ^ Suc n + unat lo div 2 ^ (128 - Suc n) = unat h2 * 2 ^ n + X"
    using shift_bit_in [OF n, of "unat lo"] by (simp add: h2 X_def l2 t_def algebra_simps)
  have h2_less: "unat h2 < 2 * ?D" using h2 t Suc.prems(4) by simp
  show ?case
  proof (cases "d \<le> h2")
    case True
    then have le: "?D \<le> unat h2" by (simp add: word_le_nat_alt)
    have sub: "unat (h2 - d) = unat h2 - ?D" using True by (simp add: unat_sub)
    have q1: "unat (push_bit 1 q OR 1) = 2 * unat q + 1"
      using unat_or_disjoint [OF q2, of 1] by simp
    have "unat (div_loop n (h2 - d) l2 d (push_bit 1 q OR 1))
        = (2 * unat q + 1) * 2 ^ n + ((unat h2 - ?D) * 2 ^ n + X) div ?D"
      using Suc.IH [of "h2 - d" "push_bit 1 q OR 1" l2] n Suc.prems(2,3) sub q1 q pow le h2_less
      by (simp add: X_def)
    moreover have "unat h2 * 2 ^ n = (unat h2 - ?D) * 2 ^ n + 2 ^ n * ?D"
      using le by (metis add.commute le_add_diff_inverse distrib_right mult.commute)
    then have "unat h2 * 2 ^ n + X = ((unat h2 - ?D) * 2 ^ n + X) + 2 ^ n * ?D" by simp
    then have "(unat h2 * 2 ^ n + X) div ?D = 2 ^ n + ((unat h2 - ?D) * 2 ^ n + X) div ?D"
      using Suc.prems(2) by (simp only: div_mult_self1 neq0_conv)
    ultimately show ?thesis
      unfolding loop goal using True by (simp add: algebra_simps)
  next
    case False
    then have "unat h2 < ?D" by (simp add: word_le_nat_alt)
    then have "unat (div_loop n h2 l2 d (push_bit 1 q)) = 2 * unat q * 2 ^ n + (unat h2 * 2 ^ n + X) div ?D"
      using Suc.IH [of h2 "push_bit 1 q" l2] n Suc.prems(2,3) q2 q pow by (simp add: X_def)
    then show ?thesis
      unfolding loop goal using False by (simp add: algebra_simps)
  qed
qed

lemma unat_div_u256:
  assumes "0 < unat d" and "unat d \<le> 2 ^ 127"
  shows "unat (div_u256_by_u128 hi lo d) =
    (if unat d \<le> unat hi then 2 ^ 128 - 1 else (unat hi * 2 ^ 128 + unat lo) div unat d)"
proof (cases "d \<le> hi")
  case True
  then show ?thesis using assms by (auto simp: div_u256_by_u128_def word_le_nat_alt unat_minus_one_eq)
next
  case False
  then show ?thesis
    using assms div_loop_correct [of 128 d hi 0 lo]
    by (auto simp: div_u256_by_u128_def word_le_nat_alt)
qed

lemma unat_div_u256_min:
  assumes "0 < unat d" and "unat d \<le> 2 ^ 127"
  shows "unat (div_u256_by_u128 hi lo d) = min ((unat hi * 2 ^ 128 + unat lo) div unat d) (2 ^ 128 - 1)"
proof (cases "unat d \<le> unat hi")
  case True
  then have "unat d * 2 ^ 128 \<le> unat hi * 2 ^ 128 + unat lo" by (simp add: mult.commute trans_le_add1)
  then have "2 ^ 128 \<le> (unat hi * 2 ^ 128 + unat lo) div unat d"
    using assms(1) by (simp add: less_eq_div_iff_mult_less_eq mult.commute)
  with True show ?thesis using assms by (simp add: unat_div_u256)
next
  case False
  have "unat hi * 2 ^ 128 + unat lo < unat d * 2 ^ 128"
    using False unat_u128_less [of lo] by (simp add: not_le)
  then have "(unat hi * 2 ^ 128 + unat lo) div unat d < 2 ^ 128"
    by (simp add: less_mult_imp_div_less mult.commute)
  with False show ?thesis using assms by (simp add: unat_div_u256)
qed

lemma unat_rational_to_q:
  assumes "0 < unat den" and "unat den \<le> 2 ^ 127"
  shows "unat (rational_to_q num den) = min (unat num * 2 ^ 123 div unat den) (2 ^ 128 - 1)"
proof -
  obtain hi lo where p: "mul_u128_full num ONE_Q = (hi, lo)" by (cases "mul_u128_full num ONE_Q")
  have "unat hi * 2 ^ 128 + unat lo = unat num * 2 ^ 123"
    using mul_u128_full_exact [OF p] by (simp add: unat_ONE_Q)
  moreover have "den \<noteq> 0" using assms by auto
  ultimately show ?thesis
    using unat_div_u256_min [OF assms, of hi lo] p by (simp add: rational_to_q_def)
qed

lemma unat_reciprocal:
  assumes "unat ONE_Q \<le> unat e" and "unat e \<le> 2 ^ 127"
  shows "unat (div_q ONE_Q e) = 2 ^ 246 div unat e"
proof -
  have e: "0 < unat e" using assms(1) by (simp add: unat_ONE_Q)
  then have "e \<noteq> 0" by auto
  moreover have "unat (drop_bit (128 - FP_BITS) ONE_Q) * 2 ^ 128 + unat (push_bit FP_BITS ONE_Q) = 2 ^ 246"
    by (simp add: unat_drop_bit_div unat_push_bit_mod unat_ONE_Q FP_BITS_def)
  ultimately have "unat (div_q ONE_Q e) = min (2 ^ 246 div unat e) (2 ^ 128 - 1)"
    using unat_div_u256_min [OF e assms(2)] by (simp add: div_q_def)
  moreover have "2 ^ 246 div unat e \<le> 2 ^ 246 div 2 ^ 123"
    using assms(1) by (intro div_le_mono2) (simp_all add: unat_ONE_Q)
  ultimately show ?thesis by simp
qed

section \<open>The series\<close>

abbreviation ln_step :: "u128 \<Rightarrow> u128 \<times> u128 \<Rightarrow> nat \<Rightarrow> u128 \<times> u128" where
  "ln_step f \<equiv> \<lambda>(trm, sm) n. (mul_q trm f, saturating_add sm (trm div word_of_nat n))"

abbreviation exp_step :: "u128 \<Rightarrow> u128 \<times> u128 \<Rightarrow> nat \<Rightarrow> u128 \<times> u128" where
  "exp_step x \<equiv> \<lambda>(trm, sm) n. let trm' = mul_q trm x div word_of_nat n in (trm', saturating_add sm trm')"

lemma saturating_add_mono: "a \<le> a' \<Longrightarrow> b \<le> b' \<Longrightarrow> saturating_add a b \<le> saturating_add a' b'"
  for a b :: "'a::len word"
  by (simp add: word_le_nat_alt unat_saturating_add min_le_iff_disj add_mono)

lemma word_div_mono: "a \<le> a' \<Longrightarrow> a div c \<le> a' div c" for a c :: "'a::len word"
  by (simp add: word_le_nat_alt unat_word_div div_le_mono)

lemma exp_fold_mono:
  assumes "x \<le> x'" and "fst p \<le> fst p'" and "snd p \<le> snd p'"
  shows "snd (foldl (exp_step x) p ns) \<le> snd (foldl (exp_step x') p' ns)"
  using assms
proof (induction ns arbitrary: p p')
  case (Cons n ns)
  have "fst (exp_step x p n) \<le> fst (exp_step x' p' n)"
    using Cons.prems by (simp add: split_beta Let_def word_div_mono mul_q_mono)
  moreover have "snd (exp_step x p n) \<le> snd (exp_step x' p' n)"
    using Cons.prems by (simp add: split_beta Let_def word_div_mono mul_q_mono saturating_add_mono)
  ultimately show ?case
    using Cons.IH [OF Cons.prems(1), of "exp_step x p n" "exp_step x' p' n"] by simp
qed simp

lemma exp_pos_q_mono: "x \<le> x' \<Longrightarrow> exp_pos_q x \<le> exp_pos_q x'"
  unfolding exp_pos_q_def by (rule exp_fold_mono) simp_all

lemma exp_fold_ge: "snd p \<le> snd (foldl (exp_step x) p ns)"
proof (induction ns arbitrary: p)
  case (Cons n ns)
  have "snd p \<le> snd (exp_step x p n)"
    using unat_u128_less [of "snd p"]
    by (simp add: split_beta Let_def word_le_nat_alt unat_saturating_add)
  also have "\<dots> \<le> snd (foldl (exp_step x) (exp_step x p n) ns)" by (rule Cons.IH)
  finally show ?case by simp
qed simp

lemma exp_pos_q_ge_one: "ONE_Q \<le> exp_pos_q x"
  using exp_fold_ge [of "(ONE_Q, ONE_Q)" x "[1 ..< 19]"] by (simp add: exp_pos_q_def)

text \<open>For an argument of at most one, every term from the second on is at most half the one before.\<close>

lemma mul_q_le: "unat x \<le> 2 ^ 123 \<Longrightarrow> unat (mul_q t x) \<le> unat t"
proof -
  assume "unat x \<le> 2 ^ 123"
  then have "unat t * unat x div 2 ^ 123 \<le> unat t * 2 ^ 123 div 2 ^ 123"
    by (intro div_le_mono mult_le_mono) simp_all
  then show ?thesis by (simp add: unat_mul_q)
qed

lemma exp_fold_bound:
  assumes "unat x \<le> 2 ^ 123" and "\<forall>n\<in>set ns. 2 \<le> n \<and> n < 2 ^ 128" and "unat (fst p) + unat (snd p) \<le> B"
  shows "unat (snd (foldl (exp_step x) p ns)) \<le> B"
  using assms(2,3)
proof (induction ns arbitrary: p)
  case (Cons n ns)
  let ?t = "mul_q (fst p) x div word_of_nat n"
  have n: "unat (word_of_nat n :: u128) = n" using Cons.prems(1) by (simp add: unat_of_nat)
  have "unat ?t \<le> unat (fst p) div n"
    unfolding unat_word_div n by (rule div_le_mono [OF mul_q_le [OF assms(1)]])
  also have "\<dots> \<le> unat (fst p) div 2" using Cons.prems(1) by (intro div_le_mono2) simp_all
  finally have "2 * unat ?t \<le> unat (fst p)" by simp
  then have "unat (fst (exp_step x p n)) + unat (snd (exp_step x p n)) \<le> B"
    using Cons.prems(2) by (simp add: split_beta Let_def unat_saturating_add)
  then show ?case using Cons.IH [of "exp_step x p n"] Cons.prems(1) by simp
qed simp

lemma exp_pos_q_bound:
  assumes "unat x \<le> 2 ^ 123"
  shows "unat (exp_pos_q x) \<le> 2 ^ 127"
proof -
  let ?p = "exp_step x (ONE_Q, ONE_Q) 1"
  have "[1 ..< 19] = 1 # [2 ..< 19]" by (simp add: upt_rec numeral_2_eq_2)
  then have eq: "exp_pos_q x = snd (foldl (exp_step x) ?p [2 ..< 19])" by (simp add: exp_pos_q_def)
  have "unat (mul_q ONE_Q x) \<le> 2 ^ 123" using mul_q_le [OF assms, of ONE_Q] by (simp add: unat_ONE_Q)
  then have p: "unat (fst ?p) + unat (snd ?p) \<le> 3 * 2 ^ 123"
    by (simp add: Let_def unat_saturating_add unat_ONE_Q)
  have "unat (exp_pos_q x) \<le> 3 * 2 ^ 123"
    unfolding eq by (rule exp_fold_bound [OF assms _ p]) auto
  then show ?thesis by simp
qed

lemma exp_neg_q_antimono:
  assumes "y \<le> y'" and "unat y' \<le> 2 ^ 123"
  shows "exp_neg_q y' \<le> exp_neg_q y"
proof -
  have y: "unat y \<le> 2 ^ 123" using assms by (simp add: word_le_nat_alt)
  have ge: "unat ONE_Q \<le> unat (exp_pos_q z)" for z using exp_pos_q_ge_one by (simp add: word_le_nat_alt)
  then have pos: "0 < unat (exp_pos_q z)" for z by (rule less_le_trans [rotated]) (simp add: unat_ONE_Q)
  then have ne: "exp_pos_q z \<noteq> 0" for z by (metis unat_0 less_irrefl)
  have "2 ^ 246 div unat (exp_pos_q y') \<le> 2 ^ 246 div unat (exp_pos_q y)"
    using exp_pos_q_mono [OF assms(1)] pos by (intro div_le_mono2) (simp_all add: word_le_nat_alt)
  then show ?thesis
    using ne by (simp add: exp_neg_q_def Let_def word_le_nat_alt
        unat_reciprocal [OF ge exp_pos_q_bound [OF y]] unat_reciprocal [OF ge exp_pos_q_bound [OF assms(2)]])
qed

text \<open>For \<open>f \<le> 1 / 2\<close> the logarithm series is at most one.\<close>

lemma ln_fold_bound:
  assumes "unat f \<le> 2 ^ 122" and "\<forall>n\<in>set ns. 1 \<le> n \<and> n < 2 ^ 128" and "2 * unat (fst p) + unat (snd p) \<le> B"
  shows "unat (snd (foldl (ln_step f) p ns)) \<le> B"
  using assms(2,3)
proof (induction ns arbitrary: p)
  case (Cons n ns)
  have "unat (fst p) * unat f div 2 ^ 123 \<le> unat (fst p) * 2 ^ 122 div 2 ^ 123"
    using assms(1) by (intro div_le_mono mult_le_mono) simp_all
  also have "\<dots> = unat (fst p) div 2" by simp
  finally have "2 * unat (mul_q (fst p) f) \<le> unat (fst p)" by (simp add: unat_mul_q)
  moreover have "unat (fst p div word_of_nat n) \<le> unat (fst p)" by (simp add: unat_word_div)
  ultimately have "2 * unat (fst (ln_step f p n)) + unat (snd (ln_step f p n)) \<le> B"
    using Cons.prems(2) by (simp add: split_beta unat_saturating_add)
  then show ?case using Cons.IH [of "ln_step f p n"] Cons.prems(1) by simp
qed simp

lemma abs_ln_bound:
  assumes "asc_denom asc \<noteq> 0" and "2 * unat (asc_numer asc) \<le> unat (asc_denom asc)"
  shows "unat (abs_ln_one_minus_f asc) \<le> 2 ^ 123"
proof -
  let ?f = "rational_to_q (ucast (asc_numer asc)) (ucast (asc_denom asc))"
  have d: "0 < unat (asc_denom asc)" "unat (asc_denom asc) < 2 ^ 32"
    using assms(1) unsigned_less [of "asc_denom asc", where 'a = nat] by (simp_all add: unat_gt_0)
  have "unat (asc_numer asc) * 2 ^ 123 div unat (asc_denom asc) \<le> 2 ^ 122"
  proof -
    have "unat (asc_numer asc) * 2 ^ 123 \<le> unat (asc_denom asc) * 2 ^ 122" using assms(2) by simp
    then show ?thesis using d(1) by (metis div_le_mono nonzero_mult_div_cancel_left less_numeral_extra(3))
  qed
  then have f: "unat ?f \<le> 2 ^ 122"
    using unat_rational_to_q [of "ucast (asc_denom asc)" "ucast (asc_numer asc)"] d
    by (simp add: unat_ucast_up)
  show ?thesis
    unfolding abs_ln_one_minus_f_def Let_def
    by (rule ln_fold_bound [OF f]) (use f in auto)
qed

section \<open>Order of the threshold\<close>

lemma fraction_floor_mono:
  fixes a b a' b' K :: nat
  assumes "0 < b" and "0 < b'" and "a * b' \<le> a' * b"
  shows "a * K div b \<le> a' * K div b'"
proof -
  have "a * K div b * b \<le> a * K" by simp
  then have "a * K div b * b * b' \<le> a * K * b'" by (rule mult_le_mono1)
  also have "\<dots> \<le> a' * K * b" using mult_le_mono1 [OF assms(3), of K] by (simp add: ac_simps)
  finally have "(a * K div b * b') * b \<le> (a' * K) * b" by (simp add: ac_simps)
  then have "a * K div b * b' \<le> a' * K" using assms(1) by simp
  then show ?thesis using assms(2) by (simp add: less_eq_div_iff_mult_less_eq)
qed

definition sigma_le :: "StakeFraction \<Rightarrow> StakeFraction \<Rightarrow> bool" where
  "sigma_le s s' \<longleftrightarrow> unat (sf_numer s) * unat (sf_denom s') \<le> unat (sf_numer s') * unat (sf_denom s)"

lemma unat_sigma_q:
  assumes "sf_denom s \<noteq> 0"
  shows "unat (rational_to_q (ucast (sf_numer s)) (ucast (sf_denom s))) =
    min (unat (sf_numer s) * 2 ^ 123 div unat (sf_denom s)) (2 ^ 128 - 1)"
proof -
  have "0 < unat (sf_denom s)" "unat (sf_denom s) < 2 ^ 64"
    using assms unsigned_less [of "sf_denom s", where 'a = nat] by (simp_all add: unat_gt_0)
  then show ?thesis
    using unat_rational_to_q [of "ucast (sf_denom s)" "ucast (sf_numer s)"] by (simp add: unat_ucast_up)
qed

lemma threshold_mono:
  assumes "sf_denom s \<noteq> 0" and "sf_denom s' \<noteq> 0" and "sigma_le s s'" and "sf_numer s' \<le> sf_denom s'"
    and "asc_denom asc \<noteq> 0" and "2 * unat (asc_numer asc) \<le> unat (asc_denom asc)"
  shows "one_minus_one_minus_f_pow_sigma asc s \<le> one_minus_one_minus_f_pow_sigma asc s'"
proof -
  let ?q = "\<lambda>s. rational_to_q (ucast (sf_numer s)) (ucast (sf_denom s)) :: u128"
  have pos: "0 < unat (sf_denom s)" "0 < unat (sf_denom s')" using assms(1,2) by (simp_all add: unat_gt_0)
  have "unat (sf_numer s) * 2 ^ 123 div unat (sf_denom s) \<le> unat (sf_numer s') * 2 ^ 123 div unat (sf_denom s')"
    using fraction_floor_mono [OF pos] assms(3) by (simp add: sigma_le_def)
  then have q: "?q s \<le> ?q s'"
    unfolding word_le_nat_alt unat_sigma_q [OF assms(1)] unat_sigma_q [OF assms(2)] by simp
  note ln = abs_ln_bound [OF assms(5,6)]
  have "unat (sf_numer s') * 2 ^ 123 div unat (sf_denom s') \<le> unat (sf_denom s') * 2 ^ 123 div unat (sf_denom s')"
    using assms(4) by (intro div_le_mono mult_le_mono1) (simp add: word_le_nat_alt)
  then have "unat (?q s') \<le> 2 ^ 123" using pos by (simp add: unat_sigma_q [OF assms(2)])
  then have e: "unat (mul_q (?q s') (abs_ln_one_minus_f asc)) \<le> 2 ^ 123"
    using mul_q_le [OF ln, of "?q s'"] by simp
  have "exp_neg_q (mul_q (?q s') (abs_ln_one_minus_f asc)) \<le> exp_neg_q (mul_q (?q s) (abs_ln_one_minus_f asc))"
    by (rule exp_neg_q_antimono [OF mul_q_mono [OF q] e]) simp
  then show ?thesis
    by (simp add: one_minus_one_minus_f_pow_sigma_def Let_def word_le_nat_alt unat_saturating_sub)
qed

lemma unat_leader_value_q: "unat (leader_value_q output) = be_nat (take 8 output) * 2 ^ 59"
proof -
  have "be_nat (take 8 output) < 256 ^ length (take 8 output)" by (rule be_nat_less)
  also have "\<dots> \<le> 256 ^ 8" by (rule power_increasing) simp_all
  finally have less: "be_nat (take 8 output) < 2 ^ 64" by simp
  then have "unat (ucast (word_of_nat (be_nat (take 8 output)) :: u64) :: u128) = be_nat (take 8 output)"
    by (simp add: unat_ucast_up unat_of_nat)
  moreover have "be_nat (take 8 output) * 2 ^ 59 < 2 ^ 128" using less by simp
  ultimately show ?thesis
    unfolding leader_value_q_def unat_push_bit_mod by (simp add: FP_BITS_def)
qed

text \<open>A pool with at least a thousandth of the stake leads on the smallest output.\<close>

lemma ln_fold_ge: "snd p \<le> snd (foldl (ln_step f) p ns)"
proof (induction ns arbitrary: p)
  case (Cons n ns)
  have "snd p \<le> snd (ln_step f p n)"
    using unat_u128_less [of "snd p"] by (simp add: split_beta word_le_nat_alt unat_saturating_add)
  also have "\<dots> \<le> snd (foldl (ln_step f) (ln_step f p n) ns)" by (rule Cons.IH)
  finally show ?case by simp
qed simp

lemma abs_ln_ge: "rational_to_q (ucast (asc_numer asc)) (ucast (asc_denom asc)) \<le> abs_ln_one_minus_f asc"
proof -
  let ?f = "rational_to_q (ucast (asc_numer asc)) (ucast (asc_denom asc))"
  have "[1 ..< 19] = 1 # [2 ..< 19]" by (simp add: upt_rec numeral_2_eq_2)
  then have "abs_ln_one_minus_f asc = snd (foldl (ln_step ?f) (ln_step ?f (?f, 0) 1) [2 ..< 19])"
    by (simp add: abs_ln_one_minus_f_def Let_def)
  moreover have "snd (ln_step ?f (?f, 0) 1) = ?f"
    using unat_u128_less [of ?f] by (simp add: word_unat_eq_iff unat_saturating_add)
  ultimately show ?thesis using ln_fold_ge [of "ln_step ?f (?f, 0) 1" ?f "[2 ..< 19]"] by simp
qed

lemma exp_pos_q_ge: 
  assumes "unat x \<le> 2 ^ 123"
  shows "2 ^ 123 + unat x \<le> unat (exp_pos_q x)"
proof -
  let ?p = "exp_step x (ONE_Q, ONE_Q) 1"
  have "[1 ..< 19] = 1 # [2 ..< 19]" by (simp add: upt_rec numeral_2_eq_2)
  then have eq: "exp_pos_q x = snd (foldl (exp_step x) ?p [2 ..< 19])" by (simp add: exp_pos_q_def)
  have "unat (snd ?p) = 2 ^ 123 + unat x"
    using assms by (simp add: Let_def unat_saturating_add unat_ONE_Q unat_mul_q)
  moreover have "unat (snd ?p) \<le> unat (exp_pos_q x)"
    unfolding eq word_le_nat_alt [symmetric] by (rule exp_fold_ge)
  ultimately show ?thesis by simp
qed

lemma threshold_pos:
  assumes "sf_denom s \<noteq> 0" and "sf_numer s \<le> sf_denom s" and "asc_denom asc \<noteq> 0"
    and "2 * unat (asc_numer asc) \<le> unat (asc_denom asc)"
    and "unat (sf_denom s) \<le> 1000 * unat (sf_numer s)" and "unat (asc_denom asc) \<le> 1000 * unat (asc_numer asc)"
  shows "0 < one_minus_one_minus_f_pow_sigma asc s"
proof -
  let ?f = "rational_to_q (ucast (asc_numer asc)) (ucast (asc_denom asc)) :: u128"
  let ?q = "rational_to_q (ucast (sf_numer s)) (ucast (sf_denom s)) :: u128"
  let ?x = "mul_q ?q (abs_ln_one_minus_f asc)"
  have floor: "2 ^ 100 \<le> n * 2 ^ 123 div d" if "d \<le> 1000 * n" "0 < d" for n d :: nat
  proof -
    have "2 ^ 100 * d \<le> 2 ^ 100 * (1000 * n)" using that(1) by (rule mult_le_mono2)
    then have "2 ^ 100 * d \<le> n * 2 ^ 123" by simp
    then show ?thesis using that(2) by (simp add: less_eq_div_iff_mult_less_eq)
  qed
  have "unat (asc_denom asc) < 2 ^ 32" "0 < unat (asc_denom asc)" "0 < unat (sf_denom s)"
    using assms(1,3) unsigned_less [of "asc_denom asc", where 'a = nat] by (simp_all add: unat_gt_0)
  then have f: "2 ^ 100 \<le> unat ?f" and q: "2 ^ 100 \<le> unat ?q"
    using unat_rational_to_q [of "ucast (asc_denom asc)" "ucast (asc_numer asc)"] floor [OF assms(6)] floor [OF assms(5)]
    by (simp_all add: unat_ucast_up unat_sigma_q [OF assms(1)])
  have "2 ^ 100 \<le> unat (abs_ln_one_minus_f asc)" using f abs_ln_ge [of asc] by (simp add: word_le_nat_alt)
  with q have "2 ^ 100 * 2 ^ 100 \<le> unat ?q * unat (abs_ln_one_minus_f asc)" by (rule mult_le_mono)
  then have "2 ^ 100 * 2 ^ 100 div 2 ^ 123 \<le> unat ?q * unat (abs_ln_one_minus_f asc) div 2 ^ 123"
    by (rule div_le_mono)
  then have x: "0 < unat ?x" by (simp add: unat_mul_q)
  note ln = abs_ln_bound [OF assms(3,4)]
  have "unat (sf_numer s) * 2 ^ 123 div unat (sf_denom s) \<le> unat (sf_denom s) * 2 ^ 123 div unat (sf_denom s)"
    using assms(2) by (intro div_le_mono mult_le_mono1) (simp add: word_le_nat_alt)
  then have "unat ?q \<le> 2 ^ 123" using assms(1) by (simp add: unat_sigma_q [OF assms(1)] unat_eq_zero)
  then have x1: "unat ?x \<le> 2 ^ 123" using mul_q_le [OF ln, of ?q] by simp
  have e: "2 ^ 123 < unat (exp_pos_q ?x)" using exp_pos_q_ge [OF x1] x by simp
  then have "unat (exp_neg_q ?x) = 2 ^ 246 div unat (exp_pos_q ?x)"
    using unat_reciprocal [OF _ exp_pos_q_bound [OF x1]] by (auto simp: exp_neg_q_def Let_def unat_ONE_Q)
  moreover have "2 ^ 246 div unat (exp_pos_q ?x) < 2 ^ 123"
    using e by (intro less_mult_imp_div_less) (simp add: less_le_trans [OF mult_strict_left_mono])
  ultimately show ?thesis
    by (simp add: one_minus_one_minus_f_pow_sigma_def Let_def word_less_nat_alt unat_saturating_sub unat_ONE_Q)
qed

lemma is_leader_zero_output:
  assumes "sf_denom s \<noteq> 0" and "sf_numer s \<le> sf_denom s" and "asc_denom asc \<noteq> 0"
    and "2 * unat (asc_numer asc) \<le> unat (asc_denom asc)"
    and "unat (sf_denom s) \<le> 1000 * unat (sf_numer s)" and "unat (asc_denom asc) \<le> 1000 * unat (asc_numer asc)"
  shows "is_leader (replicate 64 0) s asc"
proof -
  have "be_nat (replicate 8 0) = 0" by (simp add: be_nat_def numeral_eq_Suc)
  then have "unat (leader_value_q (replicate 64 0)) = 0" by (simp add: unat_leader_value_q)
  then have "leader_value_q (replicate 64 0) = 0" by (simp only: unat_eq_zero)
  moreover have "0 < unat (asc_denom asc)" "0 < unat (sf_denom s)" using assms(1,3) by (simp_all add: unat_gt_0)
  then have "sf_numer s \<noteq> 0" "asc_numer asc \<noteq> 0" using assms(5,6) by (auto simp: unat_eq_zero)
  ultimately show ?thesis using threshold_pos [OF assms] assms by (simp add: is_leader_def)
qed

section \<open>Properties\<close>

text \<open>
  The 256-bit product is exact: the two halves that \<open>mul_u128_full\<close> builds from 64-bit
  partial products, with wrapping additions, are the high and low words of the true product,
  and the fixed-point product is its floor after the shift, saturated at the largest value.
\<close>

theorem mul_u128_full_is_product:
  "unat (fst (mul_u128_full a b)) * 2 ^ 128 + unat (snd (mul_u128_full a b)) = unat a * unat b
   \<and> unat (mul_q a b) = min (unat a * unat b div 2 ^ 123) (2 ^ 128 - 1)"
  using mul_u128_full_exact [of a b] by (cases "mul_u128_full a b") (simp add: unat_mul_q)

text \<open>
  The restoring division is exact for every divisor up to \<open>2 ^ 127\<close>: the quotient of the
  256-bit dividend, saturated at the largest 128-bit value when it does not fit.
\<close>

theorem div_u256_exact:
  assumes "divisor \<noteq> 0" and "unat divisor \<le> 2 ^ 127"
  shows "unat (div_u256_by_u128 hi lo divisor)
    = min ((unat hi * 2 ^ 128 + unat lo) div unat divisor) (2 ^ 128 - 1)"
  using assms by (intro unat_div_u256_min) (simp_all add: unat_gt_0)

theorem div_u256_exact_witness: "unat (div_u256_by_u128 1 5 7) = (2 ^ 128 + 5) div 7"
  using div_u256_exact [of 7 1 5] by simp

lemma div_loop_zero: "d \<noteq> 0 \<Longrightarrow> div_loop n 0 0 d 0 = 0"
  by (induction n) (simp_all add: Let_def word_le_nat_alt unat_eq_zero)

lemma div_loop_lost: "push_bit 1 hi = 0 \<Longrightarrow> d \<noteq> 0 \<Longrightarrow> div_loop (Suc n) hi 0 d 0 = 0"
  by (simp only: div_loop.simps Let_def) (simp add: div_loop_zero word_le_nat_alt unat_eq_zero)

text \<open>
  Above \<open>2 ^ 127\<close> the division is wrong: the shift of the remainder drops its top bit. Dividing
  \<open>2 ^ 255\<close> by \<open>2 ^ 127 + 1\<close> returns 0, where the quotient is \<open>2 ^ 128 - 2\<close>.
\<close>

theorem div_u256_drops_bit:
  "div_u256_by_u128 0x80000000000000000000000000000000 0 0x80000000000000000000000000000001 = 0
   \<and> unat (0x80000000000000000000000000000000 :: u128) * 2 ^ 128
       div unat (0x80000000000000000000000000000001 :: u128) = 2 ^ 128 - 2"
proof -
  have "unat (push_bit 1 (0x80000000000000000000000000000000 :: u128)) = unat (0 :: u128)"
    by (simp only: unat_push_bit_mod) simp
  then have "push_bit 1 (0x80000000000000000000000000000000 :: u128) = 0"
    by (simp only: word_unat_eq_iff)
  then have "div_loop (Suc 127) 0x80000000000000000000000000000000 0 0x80000000000000000000000000000001 0 = 0"
    by (rule div_loop_lost) simp
  then show ?thesis by (simp add: div_u256_by_u128_def del: div_loop.simps)
qed

text \<open>
  C40. Leader eligibility is monotone: for an active slot coefficient of at most one half, a pool
  that leads a slot still leads it with at least as much relative stake (at most the total) and
  with a VRF output whose leading 64 bits are no larger.
\<close>

theorem is_leader_monotone:
  assumes "is_leader output sigma asc"
    and "be_nat (take 8 output') \<le> be_nat (take 8 output)"
    and "sf_denom sigma' \<noteq> 0" and "sf_numer sigma' \<le> sf_denom sigma'" and "sigma_le sigma sigma'"
    and "2 * unat (asc_numer asc) \<le> unat (asc_denom asc)"
  shows "is_leader output' sigma' asc"
proof -
  have sigma: "sf_numer sigma \<noteq> 0" "sf_denom sigma \<noteq> 0" and asc: "asc_denom asc \<noteq> 0"
    using assms(1) by (auto simp: is_leader_def split: if_splits)
  have "0 < unat (asc_denom asc)" using asc by (simp add: unat_gt_0)
  then have lt: "\<not> asc_denom asc \<le> asc_numer asc" using assms(6) by (simp add: word_le_nat_alt)
  have "sf_numer sigma' \<noteq> 0"
    using assms(5) sigma assms(3) by (auto simp: sigma_le_def unat_eq_zero)
  have "leader_value_q output' \<le> leader_value_q output"
    using assms(2) by (simp add: word_le_nat_alt unat_leader_value_q)
  also have "\<dots> < one_minus_one_minus_f_pow_sigma asc sigma"
    using assms(1) lt by (auto simp: is_leader_def split: if_splits)
  also have "\<dots> \<le> one_minus_one_minus_f_pow_sigma asc sigma'"
    by (rule threshold_mono [OF sigma(2) assms(3,5,4) asc assms(6)])
  finally show ?thesis
    using assms(1,3) lt asc \<open>sf_numer sigma' \<noteq> 0\<close> by (auto simp: is_leader_def split: if_splits)
qed

theorem is_leader_monotone_witness:
  "is_leader (replicate 64 0) \<lparr>sf_numer = 1, sf_denom = 1\<rparr> \<lparr>asc_numer = 1, asc_denom = 2\<rparr>"
proof -
  let ?half = "\<lparr>asc_numer = 1, asc_denom = 2\<rparr>" and ?third = "\<lparr>sf_numer = 1, sf_denom = 3\<rparr>"
  have "is_leader (replicate 64 0) ?third ?half"
    by (rule is_leader_zero_output) simp_all
  then show ?thesis
    using is_leader_monotone [of "replicate 64 0" ?third ?half "replicate 64 0" "\<lparr>sf_numer = 1, sf_denom = 1\<rparr>"]
    by (simp add: sigma_le_def)
qed

end
