(* ===== verification/Vrf_Cert.thy ===== *)
theory Vrf_Cert
  imports Crypto_Verify Vrf_Fixed_Point Praos_State
begin

text \<open>
  The VRF inputs and certificates of \<^verbatim>\<open>ade_core/src/consensus/vrf_cert.rs\<close>: the role-tagged
  TPraos input, the hashed Praos input, the verification of both kinds of proof, the range
  extension of the single Praos output and the era dispatch. The fixed-point threshold of the
  same file is in the theory \<open>Vrf_Fixed_Point\<close>.
\<close>

datatype VrfRole = NonceContribution | LeaderEligibility

definition tag_byte :: "VrfRole \<Rightarrow> u8" where
  "tag_byte role = (case role of NonceContribution \<Rightarrow> 0x4E | LeaderEligibility \<Rightarrow> 0x4C)"

definition vrf_input :: "SlotNo \<Rightarrow> Nonce \<Rightarrow> VrfRole \<Rightarrow> bytes" where
  "vrf_input slot epoch_nonce role = u64_to_be_bytes slot @ epoch_nonce @ [tag_byte role]"

record VerifiedVrf =
  vv_role :: VrfRole
  vv_slot :: SlotNo
  vv_output :: VrfOutput

definition map_crypto_error :: "CryptoError \<Rightarrow> VrfCertError" where
  "map_crypto_error e =
     (case e of
        CryptoError.MalformedKey _ _ \<Rightarrow> VrfCertError.MalformedKey
      | CryptoError.MalformedProof _ \<Rightarrow> VrfCertError.MalformedProof
      | CryptoError.VerificationFailed _ \<Rightarrow> VrfCertError.VerificationFailed
      | _ \<Rightarrow> VrfCertError.VerificationFailed)"

definition verify_vrf_cert ::
  "Crypto \<Rightarrow> VrfVerificationKey \<Rightarrow> VrfProof \<Rightarrow> SlotNo \<Rightarrow> Nonce \<Rightarrow> VrfRole \<Rightarrow> (VerifiedVrf, VrfCertError) result" where
  "verify_vrf_cert c vk proof slot epoch_nonce role =
     (case verify_vrf c vk proof (vrf_input slot epoch_nonce role) of
        Ok output \<Rightarrow> Ok \<lparr>vv_role = role, vv_slot = slot, vv_output = output\<rparr>
      | Err e \<Rightarrow> Err (map_crypto_error e))"

definition leader_value_bytes :: "VrfOutput \<Rightarrow> bytes" where
  "leader_value_bytes output = output"

definition PRAOS_LEADER_TAG :: u8 where "PRAOS_LEADER_TAG = 0x4C"
definition PRAOS_NONCE_TAG :: u8 where "PRAOS_NONCE_TAG = 0x4E"

definition praos_vrf_input :: "Crypto \<Rightarrow> SlotNo \<Rightarrow> Nonce \<Rightarrow> bytes" where
  "praos_vrf_input c slot epoch_nonce = blake2b_256 c (u64_to_be_bytes slot @ epoch_nonce)"

definition verify_praos_vrf ::
  "Crypto \<Rightarrow> VrfVerificationKey \<Rightarrow> VrfProof \<Rightarrow> SlotNo \<Rightarrow> Nonce \<Rightarrow> (VrfOutput, VrfCertError) result" where
  "verify_praos_vrf c vk proof slot epoch_nonce =
     map_err map_crypto_error (verify_vrf c vk proof (praos_vrf_input c slot epoch_nonce))"

definition praos_leader_value :: "Crypto \<Rightarrow> VrfOutput \<Rightarrow> VrfOutput" where
  "praos_leader_value c output = blake2b_256 c (PRAOS_LEADER_TAG # output) @ replicate 32 0"

definition praos_nonce_value :: "Crypto \<Rightarrow> VrfOutput \<Rightarrow> Nonce" where
  "praos_nonce_value c output = blake2b_256 c (blake2b_256 c (PRAOS_NONCE_TAG # output))"

datatype ExpectedVrfInput = Praos bytes | Tpraos bytes

definition alpha_bytes :: "ExpectedVrfInput \<Rightarrow> bytes" where
  "alpha_bytes input = (case input of ExpectedVrfInput.Praos a \<Rightarrow> a | ExpectedVrfInput.Tpraos a \<Rightarrow> a)"

definition leader_vrf_input :: "Crypto \<Rightarrow> CardanoEra \<Rightarrow> SlotNo \<Rightarrow> Nonce \<Rightarrow> ExpectedVrfInput" where
  "leader_vrf_input c era slot epoch_nonce =
     (if is_praos era then ExpectedVrfInput.Praos (praos_vrf_input c slot epoch_nonce)
      else ExpectedVrfInput.Tpraos (vrf_input slot epoch_nonce VrfRole.LeaderEligibility))"

definition leader_value_for :: "Crypto \<Rightarrow> ExpectedVrfInput \<Rightarrow> VrfOutput \<Rightarrow> VrfOutput" where
  "leader_value_for c input output =
     (case input of
        ExpectedVrfInput.Praos _ \<Rightarrow> praos_leader_value c output
      | ExpectedVrfInput.Tpraos _ \<Rightarrow> output)"

section \<open>Lemmas\<close>

text \<open>A TPraos input determines slot, nonce and role: no proof serves two roles or slots.\<close>

lemma vrf_input_inject:
  "length n = 32 \<Longrightarrow> length n' = 32 \<Longrightarrow>
     vrf_input slot n role = vrf_input slot' n' role' \<longleftrightarrow> slot = slot' \<and> n = n' \<and> role = role'"
  by (cases role; cases role') (auto simp: vrf_input_def append_eq_append_conv tag_byte_def)

lemma length_vrf_input: "length n = 32 \<Longrightarrow> length (vrf_input slot n role) = 41"
  by (simp add: vrf_input_def)

lemma verify_vrf_Err: "verify_vrf c vk proof alpha = Err e \<Longrightarrow> e = CryptoError.VerificationFailed ''vrf_ecvrf''"
  by (auto simp: verify_vrf_def split: option.splits)

lemma verify_vrf_cert_Ok [result_simps]:
  "verify_vrf_cert c vk proof slot n role = Ok v \<longleftrightarrow>
     (\<exists>out. verify_vrf c vk proof (vrf_input slot n role) = Ok out
        \<and> v = \<lparr>vv_role = role, vv_slot = slot, vv_output = out\<rparr>)"
  by (auto simp: verify_vrf_cert_def split: sum.splits)

lemma verify_praos_vrf_Ok [result_simps]:
  "verify_praos_vrf c vk proof slot n = Ok out \<longleftrightarrow>
     verify_vrf c vk proof (praos_vrf_input c slot n) = Ok out"
  by (simp add: verify_praos_vrf_def result_simps)

end
