(* ===== verification/Header_Validate.thy ===== *)
theory Header_Validate
  imports Era_Schedule Vrf_Cert
begin

text \<open>
  Header admission: \<^verbatim>\<open>ade_core/src/consensus/ledger_view.rs\<close>, \<^verbatim>\<open>kes_check.rs\<close> and
  \<^verbatim>\<open>header_validate.rs\<close>. The ledger view is a record of the trait's methods. The ten steps
  of \<open>validate_and_apply_header\<close> are in the source's order; the VRF step, the threshold step
  and the freeze boundary have definitions of their own.
\<close>

section \<open>The ledger view\<close>

record LedgerView =
  lv_total_active_stake :: "EpochNo \<Rightarrow> u64 option"
  lv_pool_active_stake :: "EpochNo \<Rightarrow> Hash28 \<Rightarrow> u64 option"
  lv_pool_vrf_keyhash :: "EpochNo \<Rightarrow> Hash28 \<Rightarrow> Hash32 option"
  lv_active_slots_coeff :: "EpochNo \<Rightarrow> ActiveSlotsCoeff option"

section \<open>KES and operational certificate\<close>

definition SLOTS_PER_KES_PERIOD :: u64 where "SLOTS_PER_KES_PERIOD = 129600"

definition expect_size :: "FieldKind \<Rightarrow> nat \<Rightarrow> nat \<Rightarrow> (unit, FieldError) result" where
  "expect_size kind actual expected =
     (if actual = expected then Ok ()
      else Err \<lparr>fe_field = kind, fe_expected = expected, fe_actual = actual\<rparr>)"

definition verify_header_kes ::
  "Crypto \<Rightarrow> HeaderKes \<Rightarrow> SlotNo \<Rightarrow> u64 \<Rightarrow> u64 \<Rightarrow> (unit, HeaderValidationError) result" where
  "verify_header_kes c kes slot op_cert_counter op_cert_kes_period =
     rbind (map_err MalformedField (expect_size IssuerVkey (length (hk_issuer_vkey kes)) 32)) (\<lambda>_.
     rbind (map_err MalformedField (expect_size KesVkey (length (hk_kes_vkey kes)) 32)) (\<lambda>_.
     rbind (map_err MalformedField (expect_size KesSignature (length (hk_kes_signature kes)) 448)) (\<lambda>_.
     rbind (map_err MalformedField (expect_size OpCertSignature (length (hk_op_cert_signature kes)) 64)) (\<lambda>_.
     let opcert = \<lparr>ocd_hot_vkey = hk_kes_vkey kes,
                   ocd_sequence_number = op_cert_counter,
                   ocd_kes_period = op_cert_kes_period,
                   ocd_cold_signature = hk_op_cert_signature kes\<rparr> in
     rbind (case verify_opcert c (hk_issuer_vkey kes) opcert of
              Ok True \<Rightarrow> Ok ()
            | Ok False \<Rightarrow> Err OpCertInvalid
            | Err _ \<Rightarrow> Err OpCertInvalid) (\<lambda>_.
     let current_kes_period = slot div SLOTS_PER_KES_PERIOD;
         evolution = saturating_sub current_kes_period op_cert_kes_period in
     rbind (map_err (\<lambda>_. KesInvalid) (KesPeriod_new (ucast evolution))) (\<lambda>period.
     case verify_kes c (hk_kes_vkey kes) period (hk_kes_signature kes) (hk_header_body_bytes kes) of
       Ok True \<Rightarrow> Ok ()
     | Ok False \<Rightarrow> Err KesInvalid
     | Err _ \<Rightarrow> Err KesInvalid))))))"

section \<open>Header admission\<close>

datatype LeaderEligibility = Enforce | TrustDurable

record HeaderApplied =
  ha_new_state :: PraosChainDepState
  ha_summary :: ValidatedHeaderSummary

text \<open>Step 6: the output for the threshold and the output for the nonce.\<close>

definition header_vrf_outputs ::
  "Crypto \<Rightarrow> PraosChainDepState \<Rightarrow> HeaderInput \<Rightarrow> (VrfOutput \<times> VrfOutput, HeaderValidationError) result" where
  "header_vrf_outputs c st header =
     (case hi_vrf header of
        HeaderVrf.Tpraos nonce_proof leader_proof \<Rightarrow>
          rbind (map_err VrfCert (verify_vrf_cert c (hi_vrf_vk header) nonce_proof (hi_slot header)
                   (ps_epoch_nonce st) VrfRole.NonceContribution)) (\<lambda>verified_nonce.
          rbind (map_err VrfCert (verify_vrf_cert c (hi_vrf_vk header) leader_proof (hi_slot header)
                   (ps_epoch_nonce st) VrfRole.LeaderEligibility)) (\<lambda>verified_leader.
          Ok (vv_output verified_leader, vv_output verified_nonce)))
      | HeaderVrf.Praos proof output \<Rightarrow>
          rbind (map_err VrfCert (verify_praos_vrf c (hi_vrf_vk header) proof (hi_slot header)
                   (ps_epoch_nonce st))) (\<lambda>recomputed.
          if recomputed \<noteq> output then Err (VrfCert VrfCertError.VerificationFailed)
          else Ok (praos_leader_value c recomputed, praos_nonce_value c recomputed @ replicate 32 0)))"

text \<open>Step 7: the leader threshold.\<close>

definition check_header_leader ::
  "LedgerView \<Rightarrow> EpochNo \<Rightarrow> Hash28 \<Rightarrow> VrfOutput \<Rightarrow> (unit, HeaderValidationError) result" where
  "check_header_leader lv epoch pool leader_value_output =
     (let failed = VrfCert VrfCertError.VerificationFailed in
      rbind (ok_or failed (lv_pool_active_stake lv epoch pool)) (\<lambda>pool_stake.
      rbind (ok_or failed (lv_total_active_stake lv epoch)) (\<lambda>total_stake.
      if total_stake = 0 then Err failed
      else rbind (ok_or failed (lv_active_slots_coeff lv epoch)) (\<lambda>asc.
           map_err VrfCert (check_leader_claim leader_value_output
             \<lparr>sf_numer = pool_stake, sf_denom = total_stake\<rparr> asc)))))"

definition CANDIDATE_FREEZE_INERT :: SlotNo where "CANDIDATE_FREEZE_INERT = - 1"

definition freeze_boundary_of :: "EraSchedule \<Rightarrow> EraLocation \<Rightarrow> SlotNo \<Rightarrow> SlotNo" where
  "freeze_boundary_of sch location slot =
     (let i = unat (loc_era_index location) in
      case (if i < length (sch_eras sch)
            then map_option (\<lambda>rsw. (es_epoch_length_slots (sch_eras sch ! i), rsw))
                   (es_randomness_stabilisation_window_slots (sch_eras sch ! i))
            else None) of
        Some (epoch_length, rsw) \<Rightarrow>
          (let epoch_start = saturating_sub slot (u64_from (loc_relative_slot_in_epoch location));
               first_slot_next_epoch = saturating_add epoch_start (u64_from epoch_length)
           in saturating_sub first_slot_next_epoch (u64_from rsw))
      | None \<Rightarrow> CANDIDATE_FREEZE_INERT)"

definition validate_and_apply_header ::
  "Crypto \<Rightarrow> PraosChainDepState \<Rightarrow> HeaderInput \<Rightarrow> LedgerView \<Rightarrow> EraSchedule \<Rightarrow> LeaderEligibility
     \<Rightarrow> (HeaderApplied, HeaderValidationError) result" where
  "validate_and_apply_header c st header lv sch eligibility =
     rbind (map_err HeaderValidationError.OutsideForecastRange (check_forecast_horizon sch (hi_slot header))) (\<lambda>_.
     rbind (case ps_last_slot st of
              Some last_slot \<Rightarrow> reject_if (hi_slot header \<le> last_slot)
                (SlotBeforeLastApplied last_slot (hi_slot header))
            | None \<Rightarrow> Ok ()) (\<lambda>_.
     rbind (case ps_last_block_no st of
              Some last_no \<Rightarrow> reject_if (hi_block_no header \<le> last_no)
                (BlockNoOutOfOrder last_no (hi_block_no header))
            | None \<Rightarrow> Ok ()) (\<lambda>_.
     rbind (case op_cert_get (ps_op_cert_counters st) (hi_issuer_pool header) (hi_op_cert_kes_period header) of
              Some existing \<Rightarrow> reject_if (hi_op_cert_counter header < existing)
                (OpCertCounter (Regression existing (hi_op_cert_counter header)))
            | None \<Rightarrow> Ok ()) (\<lambda>_.
     rbind (map_err HeaderValidationError.HFC (locate sch (hi_slot header))) (\<lambda>location.
     let epoch = loc_epoch location in
     rbind (case lv_pool_vrf_keyhash lv epoch (hi_issuer_pool header) of
              Some expected \<Rightarrow>
                (let actual = blake2b_256 c (hi_vrf_vk header)
                 in reject_if (actual \<noteq> expected) (VrfKeyhashMismatch expected actual))
            | None \<Rightarrow> Ok ()) (\<lambda>_.
     rbind (header_vrf_outputs c st header) (\<lambda>(leader_value_output, nonce_output).
     rbind (if eligibility = Enforce
            then check_header_leader lv epoch (hi_issuer_pool header) leader_value_output
            else Ok ()) (\<lambda>_.
     rbind (case hi_kes header of
              Some kes \<Rightarrow> verify_header_kes c kes (hi_slot header) (hi_op_cert_counter header)
                (hi_op_cert_kes_period header)
            | None \<Rightarrow> Ok ()) (\<lambda>_.
     rbind (map_err OpCertCounter (apply_op_cert st
              \<lparr>oc_pool = hi_issuer_pool header, oc_kes_period = hi_op_cert_kes_period header,
               oc_counter = hi_op_cert_counter header\<rparr>)) (\<lambda>after_op_cert.
     rbind (map_err HeaderValidationError.Nonce (apply_nonce_input (blake2b_256 c) after_op_cert
              (HeaderContribution (hi_slot header) (hi_prev_hash header) nonce_output
                 (freeze_boundary_of sch location (hi_slot header))))) (\<lambda>after_nonce.
     Ok \<lparr>ha_new_state = after_nonce\<lparr>ps_last_block_no := Some (hi_block_no header)\<rparr>,
         ha_summary = \<lparr>vh_slot = hi_slot header, vh_block_no = hi_block_no header,
           vh_body_hash = hi_body_hash header, vh_issuer_pool = hi_issuer_pool header,
           vh_op_cert_counter = hi_op_cert_counter header,
           vh_vrf_leader_output = leader_value_output\<rparr>\<rparr>)))))))))))"

section \<open>What an accepted header satisfies\<close>

text \<open>Inversion of the optional guards and of the two updates.\<close>

lemma guard_Some_Ok:
  "(case x of None \<Rightarrow> Ok () | Some a \<Rightarrow> g a) = (Ok u :: (unit, 'e) result) \<longleftrightarrow> (\<forall>a. x = Some a \<longrightarrow> g a = Ok ())"
  by (cases x) simp_all

lemma guard_if_Ok:
  "(if b then r else Ok ()) = (Ok u :: (unit, 'e) result) \<longleftrightarrow> (b \<longrightarrow> r = Ok ())"
  by simp

lemma rbind_location_Ok:
  "rbind (map_err g (locate sch slot)) f = Ok b \<longleftrightarrow> (\<exists>loc. locate sch slot = Ok loc \<and> f loc = Ok b)"
  by (simp add: result_simps)

lemma header_updates_Ok:
  "rbind (map_err OpCertCounter (apply_op_cert st \<lparr>oc_pool = p, oc_kes_period = k, oc_counter = n\<rparr>)) (\<lambda>st1.
     rbind (map_err HeaderValidationError.Nonce
       (apply_nonce_input hash st1 (HeaderContribution slot prev out freeze))) f) = Ok r \<longleftrightarrow>
   (\<exists>counters. upsert_strict (ps_op_cert_counters st) p k n = Ok counters
     \<and> (\<forall>l. ps_last_slot st = Some l \<longrightarrow> l < slot)
     \<and> f (st\<lparr>ps_op_cert_counters := counters,
           ps_evolving_nonce := combine hash (ps_evolving_nonce st) (nonce_value out),
           ps_lab_nonce := prev,
           ps_candidate_nonce := (if slot < freeze
             then combine hash (ps_evolving_nonce st) (nonce_value out) else ps_candidate_nonce st),
           ps_last_slot := Some slot\<rparr>) = Ok r)"
  by (cases "upsert_strict (ps_op_cert_counters st) p k n")
    (simp_all add: apply_op_cert_def apply_nonce_input_def rbind_eq_Ok map_err_eq_Ok apply_header_contribution_Ok)

text \<open>The state and summary an admitted header leaves.\<close>

definition header_admitted ::
  "Crypto \<Rightarrow> PraosChainDepState \<Rightarrow> HeaderInput \<Rightarrow> EraSchedule \<Rightarrow> EraLocation \<Rightarrow> VrfOutput \<Rightarrow> VrfOutput
     \<Rightarrow> OpCertCounterMap \<Rightarrow> HeaderApplied" where
  "header_admitted c st h sch location leader_out nonce_out counters =
     (let evolving = combine (blake2b_256 c) (ps_evolving_nonce st) (nonce_value nonce_out) in
      \<lparr>ha_new_state = st\<lparr>ps_op_cert_counters := counters,
           ps_evolving_nonce := evolving,
           ps_lab_nonce := hi_prev_hash h,
           ps_candidate_nonce := (if hi_slot h < freeze_boundary_of sch location (hi_slot h)
             then evolving else ps_candidate_nonce st),
           ps_last_slot := Some (hi_slot h),
           ps_last_block_no := Some (hi_block_no h)\<rparr>,
       ha_summary = \<lparr>vh_slot = hi_slot h, vh_block_no = hi_block_no h, vh_body_hash = hi_body_hash h,
           vh_issuer_pool = hi_issuer_pool h, vh_op_cert_counter = hi_op_cert_counter h,
           vh_vrf_leader_output = leader_out\<rparr>\<rparr>)"

lemma header_steps:
  "validate_and_apply_header c st h lv sch elig = Ok applied \<longleftrightarrow>
   (\<exists>location leader_out nonce_out counters.
      check_forecast_horizon sch (hi_slot h) = Ok ()
    \<and> (\<forall>l. ps_last_slot st = Some l \<longrightarrow> l < hi_slot h)
    \<and> (\<forall>l. ps_last_block_no st = Some l \<longrightarrow> l < hi_block_no h)
    \<and> (\<forall>n. op_cert_get (ps_op_cert_counters st) (hi_issuer_pool h) (hi_op_cert_kes_period h) = Some n
           \<longrightarrow> n \<le> hi_op_cert_counter h)
    \<and> locate sch (hi_slot h) = Ok location
    \<and> (\<forall>k. lv_pool_vrf_keyhash lv (loc_epoch location) (hi_issuer_pool h) = Some k \<longrightarrow>
           blake2b_256 c (hi_vrf_vk h) = k)
    \<and> header_vrf_outputs c st h = Ok (leader_out, nonce_out)
    \<and> (elig = Enforce \<longrightarrow> check_header_leader lv (loc_epoch location) (hi_issuer_pool h) leader_out = Ok ())
    \<and> (\<forall>k. hi_kes h = Some k \<longrightarrow>
           verify_header_kes c k (hi_slot h) (hi_op_cert_counter h) (hi_op_cert_kes_period h) = Ok ())
    \<and> upsert_strict (ps_op_cert_counters st) (hi_issuer_pool h) (hi_op_cert_kes_period h)
           (hi_op_cert_counter h) = Ok counters
    \<and> applied = header_admitted c st h sch location leader_out nonce_out counters)"
  unfolding validate_and_apply_header_def header_admitted_def Let_def
  by (simp only: rbind_unit_Ok rbind_location_Ok rbind_pair_Ok header_updates_Ok map_err_eq_Ok
      guard_Some_Ok guard_if_Ok reject_if_eq_Ok not_le not_less not_not sum.inject
      eq_commute [of applied]) blast

lemma verify_opcert_True:
  "verify_opcert c vk cert = Ok True \<longleftrightarrow>
     kc_point_ok (cr_kes c) vk \<and> kc_verify (cr_kes c) vk (build_opcert_signable cert) (ocd_cold_signature cert)"
  by (simp add: verify_opcert_def verify_ed25519_def)

lemma verify_kes_True:
  "verify_kes c vk period sig msg = Ok True \<longleftrightarrow>
     (\<exists>s. raw_deserialize_signature_kes 6 sig = Ok s \<and> verify_kes_sum (cr_kes c) vk period msg s = Ok ())"
proof (cases "raw_deserialize_signature_kes 6 sig")
  case (Inr s)
  then have "length sig = 448" using raw_deserialize_signature_Ok [OF Inr] by (simp add: signature_size_eq)
  with Inr show ?thesis
    by (cases "verify_kes_sum (cr_kes c) vk period msg s") (simp_all add: verify_kes_def SUM6_SIGNATURE_SIZE_def)
qed (simp add: verify_kes_def)

lemma expect_size_Ok: "expect_size kind n m = Ok u \<longleftrightarrow> n = m"
  by (simp add: expect_size_def)

lemma bool_verdict_Ok:
  "(case r of Err _ \<Rightarrow> Err e | Ok b \<Rightarrow> (case b of True \<Rightarrow> Ok () | False \<Rightarrow> Err e)) = (Ok u :: (unit, 'e) result) \<longleftrightarrow> r = Ok True"
  by (auto split: sum.splits bool.splits)

text \<open>The certificate and the KES evolution of a header.\<close>

definition header_opcert :: "HeaderKes \<Rightarrow> u64 \<Rightarrow> u64 \<Rightarrow> OperationalCertData" where
  "header_opcert kes counter period =
     \<lparr>ocd_hot_vkey = hk_kes_vkey kes, ocd_sequence_number = counter, ocd_kes_period = period,
      ocd_cold_signature = hk_op_cert_signature kes\<rparr>"

definition header_evolution :: "SlotNo \<Rightarrow> u64 \<Rightarrow> u64" where
  "header_evolution slot period = saturating_sub (slot div SLOTS_PER_KES_PERIOD) period"

definition kes_evidence :: "Crypto \<Rightarrow> HeaderKes \<Rightarrow> SlotNo \<Rightarrow> u64 \<Rightarrow> u64 \<Rightarrow> bool" where
  "kes_evidence c kes slot counter period \<longleftrightarrow>
     length (hk_issuer_vkey kes) = 32 \<and> length (hk_kes_vkey kes) = 32
     \<and> length (hk_op_cert_signature kes) = 64
     \<and> kc_point_ok (cr_kes c) (hk_issuer_vkey kes)
     \<and> kc_verify (cr_kes c) (hk_issuer_vkey kes) (build_opcert_signable (header_opcert kes counter period))
         (hk_op_cert_signature kes)
     \<and> unat (header_evolution slot period) mod 2 ^ 32 < 64
     \<and> (\<exists>s. raw_deserialize_signature_kes 6 (hk_kes_signature kes) = Ok s
          \<and> verify_kes_sum (cr_kes c) (hk_kes_vkey kes) (ucast (header_evolution slot period))
              (hk_header_body_bytes kes) s = Ok ())"

lemma KesPeriod_new_Ok: "KesPeriod_new p = Ok q \<longleftrightarrow> unat p < 64 \<and> q = p"
  by (auto simp: KesPeriod_new_def SUM6_MAX_PERIOD_def word_less_nat_alt)

lemma verify_header_kes_Ok:
  "verify_header_kes c kes slot counter period = Ok () \<longleftrightarrow> kes_evidence c kes slot counter period"
proof -
  have evo: "unat (ucast (header_evolution slot period) :: u32) = unat (header_evolution slot period) mod 2 ^ 32"
    by (simp add: unsigned_ucast_eq take_bit_eq_mod)
  have len: "raw_deserialize_signature_kes 6 (hk_kes_signature kes) = Ok s \<Longrightarrow> length (hk_kes_signature kes) = 448" for s
    using raw_deserialize_signature_Ok [of 6 "hk_kes_signature kes"] by (simp add: signature_size_eq)
  show ?thesis
    unfolding verify_header_kes_def kes_evidence_def Let_def header_evolution_def [symmetric]
    by (simp only: rbind_unit_Ok rbind_eq_Ok map_err_eq_Ok expect_size_Ok bool_verdict_Ok KesPeriod_new_Ok
        verify_opcert_True verify_kes_True evo header_opcert_def OperationalCertData.simps) (use len in blast)
qed

definition vrf_evidence :: "Crypto \<Rightarrow> Nonce \<Rightarrow> HeaderInput \<Rightarrow> VrfOutput \<Rightarrow> VrfOutput \<Rightarrow> bool" where
  "vrf_evidence c eta0 h leader_out nonce_out \<longleftrightarrow>
     (case hi_vrf h of
        HeaderVrf.Tpraos nonce_proof leader_proof \<Rightarrow>
          cr_vrf_verify c (hi_vrf_vk h) nonce_proof (vrf_input (hi_slot h) eta0 VrfRole.NonceContribution) = Some nonce_out
          \<and> cr_vrf_verify c (hi_vrf_vk h) leader_proof (vrf_input (hi_slot h) eta0 VrfRole.LeaderEligibility) = Some leader_out
      | HeaderVrf.Praos proof output \<Rightarrow>
          cr_vrf_verify c (hi_vrf_vk h) proof (praos_vrf_input c (hi_slot h) eta0) = Some output
          \<and> leader_out = praos_leader_value c output
          \<and> nonce_out = praos_nonce_value c output @ replicate 32 0)"

lemma verify_vrf_Ok: "verify_vrf c vk proof alpha = Ok out \<longleftrightarrow> cr_vrf_verify c vk proof alpha = Some out"
  by (auto simp: verify_vrf_def split: option.splits)

lemma header_vrf_outputs_Ok:
  "header_vrf_outputs c st h = Ok (leader_out, nonce_out) \<longleftrightarrow>
     vrf_evidence c (ps_epoch_nonce st) h leader_out nonce_out"
  by (cases "hi_vrf h") (auto simp: header_vrf_outputs_def vrf_evidence_def result_simps verify_vrf_Ok)

definition leader_evidence :: "LedgerView \<Rightarrow> EpochNo \<Rightarrow> Hash28 \<Rightarrow> VrfOutput \<Rightarrow> bool" where
  "leader_evidence lv epoch pool leader_out \<longleftrightarrow>
     (\<exists>stake total asc. lv_pool_active_stake lv epoch pool = Some stake
        \<and> lv_total_active_stake lv epoch = Some total \<and> total \<noteq> 0
        \<and> lv_active_slots_coeff lv epoch = Some asc
        \<and> is_leader leader_out \<lparr>sf_numer = stake, sf_denom = total\<rparr> asc)"

lemma check_header_leader_Ok:
  "check_header_leader lv epoch pool leader_out = Ok () \<longleftrightarrow> leader_evidence lv epoch pool leader_out"
  by (auto simp: check_header_leader_def leader_evidence_def check_leader_claim_def result_simps Let_def)

text \<open>Header admission over a sequence of headers.\<close>

fun apply_headers ::
  "Crypto \<Rightarrow> LedgerView \<Rightarrow> EraSchedule \<Rightarrow> LeaderEligibility \<Rightarrow> PraosChainDepState \<Rightarrow> HeaderInput list
     \<Rightarrow> (PraosChainDepState, HeaderValidationError) result" where
  "apply_headers c lv sch elig st [] = Ok st"
| "apply_headers c lv sch elig st (h # hs) =
     rbind (validate_and_apply_header c st h lv sch elig) (\<lambda>applied.
     apply_headers c lv sch elig (ha_new_state applied) hs)"

lemma slots_increasing_Nil [simp]: "slots_increasing l []"
  by (simp add: slots_increasing_def split: option.splits)

lemma slots_increasing_Cons:
  "slots_increasing l (s # ss) \<longleftrightarrow> (\<forall>p. l = Some p \<longrightarrow> p < s) \<and> slots_increasing (Some s) ss"
  by (cases l) (auto simp: slots_increasing_def intro: less_trans)

lemma header_admitted_fields [simp]:
  "ps_last_slot (ha_new_state (header_admitted c st h sch loc lo no m)) = Some (hi_slot h)"
  "ps_last_block_no (ha_new_state (header_admitted c st h sch loc lo no m)) = Some (hi_block_no h)"
  "ps_op_cert_counters (ha_new_state (header_admitted c st h sch loc lo no m)) = m"
  "ps_epoch_nonce (ha_new_state (header_admitted c st h sch loc lo no m)) = ps_epoch_nonce st"
  "vh_vrf_leader_output (ha_summary (header_admitted c st h sch loc lo no m)) = lo"
  by (simp_all add: header_admitted_def Let_def)

section \<open>Properties\<close>


definition sample_cr :: Crypto where
  "sample_cr = \<lparr>cr_kes = sample_crypto, cr_vrf_verify = (\<lambda>_ _ _. Some (replicate 64 0))\<rparr>"

definition sample_ledger :: LedgerView where
  "sample_ledger = \<lparr>lv_total_active_stake = (\<lambda>_. Some 2), lv_pool_active_stake = (\<lambda>_ _. Some 1),
     lv_pool_vrf_keyhash = (\<lambda>_ _. None),
     lv_active_slots_coeff = (\<lambda>_. Some \<lparr>asc_numer = 1, asc_denom = 2\<rparr>)\<rparr>"

definition sample_header :: "SlotNo \<Rightarrow> BlockNo \<Rightarrow> HeaderInput" where
  "sample_header slot no = \<lparr>hi_slot = slot, hi_block_no = no, hi_prev_hash = [], hi_body_hash = [],
     hi_issuer_pool = [7], hi_op_cert_kes_period = 0, hi_op_cert_counter = no, hi_vrf_vk = [],
     hi_vrf = HeaderVrf.Tpraos [] [], hi_kes = None\<rparr>"

lemma sample_header_admitted:
  assumes "slot \<in> {13, 15}" and "\<forall>l. ps_last_slot st = Some l \<longrightarrow> l < slot"
    and "\<forall>l. ps_last_block_no st = Some l \<longrightarrow> l < no"
    and "\<forall>n. bt_get (ps_op_cert_counters st) ([7], 0) = Some n \<longrightarrow> n \<le> no"
  shows "is_ok (validate_and_apply_header sample_cr st (sample_header slot no) sample_ledger sample_schedule Enforce)"
proof -
  have "is_leader (replicate 64 0) \<lparr>sf_numer = 1, sf_denom = 2\<rparr> \<lparr>asc_numer = 1, asc_denom = 2\<rparr>"
    by (rule is_leader_zero_output) simp_all
  then have l: "leader_evidence sample_ledger e [7] (replicate 64 0)" for e
    by (simp add: leader_evidence_def sample_ledger_def)
  have hz: "check_forecast_horizon sample_schedule slot = Ok ()" 
    using assms(1) by (auto simp: check_forecast_horizon_def sample_schedule_def sample_eras_def saturating_add_def)
  obtain loc where loc: "locate sample_schedule slot = Ok loc"
    using assms(1) by (auto simp: locate_def sample_schedule_def sample_eras_def locate_index_def checked_add_def)
  obtain m where m: "upsert_strict (ps_op_cert_counters st) [7] 0 no = Ok m"
    using assms(4) by (cases "upsert_strict (ps_op_cert_counters st) [7] 0 no") (auto simp: upsert_strict_Err)
  have v: "vrf_evidence sample_cr (ps_epoch_nonce st) (sample_header slot no) (replicate 64 0) (replicate 64 0)"
    by (simp add: vrf_evidence_def sample_header_def sample_cr_def)
  have "validate_and_apply_header sample_cr st (sample_header slot no) sample_ledger sample_schedule Enforce
      = Ok (header_admitted sample_cr st (sample_header slot no) sample_schedule loc
          (replicate 64 0) (replicate 64 0) m)"
    unfolding header_steps header_vrf_outputs_Ok check_header_leader_Ok
    using assms hz loc m v l
    by (intro exI [of _ loc] exI [of _ "replicate 64 0"] exI [of _ m] conjI)
      (simp_all add: sample_header_def sample_ledger_def op_cert_get_def)
  then show ?thesis by simp
qed


text \<open>
  Chain-dependent state along a chain: when a sequence of headers is accepted one after the
  other, their slots and their block numbers are strictly increasing and above the state's
  last ones, the final state records the last header's slot and block number, every op-cert
  counter is at least what it was, the counter map stays ordered, and the epoch nonce that every
  VRF proof was checked against is the same throughout.
\<close>

theorem header_run_monotone:
  assumes "bt_wf (ps_op_cert_counters st)"
    and "apply_headers c lv sch elig st hs = Ok st'"
  shows "slots_increasing (ps_last_slot st) (map hi_slot hs)
    \<and> slots_increasing (ps_last_block_no st) (map hi_block_no hs)
    \<and> ps_last_slot st' = (if hs = [] then ps_last_slot st else Some (hi_slot (last hs)))
    \<and> ps_last_block_no st' = (if hs = [] then ps_last_block_no st else Some (hi_block_no (last hs)))
    \<and> bt_wf (ps_op_cert_counters st') \<and> counters_le (ps_op_cert_counters st) (ps_op_cert_counters st')
    \<and> ps_epoch_nonce st' = ps_epoch_nonce st
    \<and> (\<forall>h\<in>set hs. \<exists>leader_out nonce_out. vrf_evidence c (ps_epoch_nonce st) h leader_out nonce_out)"
  using assms
proof (induction hs arbitrary: st)
  case (Cons h hs)
  from Cons.prems(2) obtain applied where a: "validate_and_apply_header c st h lv sch elig = Ok applied"
      and rest: "apply_headers c lv sch elig (ha_new_state applied) hs = Ok st'"
    by (auto simp: result_simps)
  then obtain loc lo no m where s:
      "\<forall>l. ps_last_slot st = Some l \<longrightarrow> l < hi_slot h" "\<forall>l. ps_last_block_no st = Some l \<longrightarrow> l < hi_block_no h"
      "vrf_evidence c (ps_epoch_nonce st) h lo no"
      and m: "upsert_strict (ps_op_cert_counters st) (hi_issuer_pool h) (hi_op_cert_kes_period h)
           (hi_op_cert_counter h) = Ok m"
      and app: "applied = header_admitted c st h sch loc lo no m"
    unfolding header_steps header_vrf_outputs_Ok by blast
  note u = upsert_strict_Ok [OF Cons.prems(1) m]
  have "bt_wf (ps_op_cert_counters (ha_new_state applied))" using u(1) by (simp add: app)
  note ih = Cons.IH [OF this rest]
  show ?case using ih s u(4)
    by (auto simp: app slots_increasing_Cons intro: counters_le_trans)
qed simp

theorem header_run_monotone_witness:
  "\<exists>st'. apply_headers sample_cr sample_ledger sample_schedule Enforce (praos_genesis [1])
      [sample_header 13 4, sample_header 15 5] = Ok st' \<and> ps_last_slot st' = Some 15"
proof -
  let ?st = "praos_genesis [1]"
  have wf: "bt_wf (ps_op_cert_counters ?st)" by (simp add: praos_genesis_def bt.wf_empty)
  have "is_ok (validate_and_apply_header sample_cr ?st (sample_header 13 4) sample_ledger sample_schedule Enforce)"
    by (rule sample_header_admitted) (simp_all add: praos_genesis_def bt.get_empty)
  then obtain a where a: "validate_and_apply_header sample_cr ?st (sample_header 13 4) sample_ledger
      sample_schedule Enforce = Ok a" by (auto simp: is_ok_def split: sum.splits)
  then obtain loc lo no m where m: "upsert_strict (ps_op_cert_counters ?st) [7] 0 4 = Ok m"
      and app: "a = header_admitted sample_cr ?st (sample_header 13 4) sample_schedule loc lo no m"
    unfolding header_steps by (auto simp: sample_header_def)
  have "is_ok (validate_and_apply_header sample_cr (ha_new_state a) (sample_header 15 5) sample_ledger
      sample_schedule Enforce)"
    using upsert_strict_Ok(2) [OF wf m]
    by (intro sample_header_admitted) (simp_all add: app, simp_all add: sample_header_def)
  then obtain b where "validate_and_apply_header sample_cr (ha_new_state a) (sample_header 15 5) sample_ledger
      sample_schedule Enforce = Ok b" by (auto simp: is_ok_def split: sum.splits)
  with a have r: "apply_headers sample_cr sample_ledger sample_schedule Enforce ?st
      [sample_header 13 4, sample_header 15 5] = Ok (ha_new_state b)" by simp
  show ?thesis using r header_run_monotone [OF wf r] by (simp add: sample_header_def)
qed

text \<open>
  \<open>TrustDurable\<close> drops exactly the leader threshold: a header is accepted under \<open>Enforce\<close> with
  a given state and summary if and only if it is accepted under \<open>TrustDurable\<close> with the same state
  and summary and the ledger view of its epoch grants the slot to its issuer.
\<close>

theorem trust_durable_is_enforce_without_threshold:
  "validate_and_apply_header c st h lv sch Enforce = Ok applied \<longleftrightarrow>
     validate_and_apply_header c st h lv sch TrustDurable = Ok applied
     \<and> (\<exists>loc. locate sch (hi_slot h) = Ok loc
          \<and> leader_evidence lv (loc_epoch loc) (hi_issuer_pool h) (vh_vrf_leader_output (ha_summary applied)))"
  unfolding header_steps header_vrf_outputs_Ok check_header_leader_Ok
  by (auto simp: header_admitted_fields(5)) blast

lemma header_vrf_outputs_Err:
  "header_vrf_outputs c st h = Err e \<Longrightarrow> e = VrfCert VrfCertError.VerificationFailed"
  by (cases "hi_vrf h")
    (auto simp: header_vrf_outputs_def verify_vrf_cert_def verify_praos_vrf_def result_simps map_crypto_error_def
      dest!: verify_vrf_Err split: sum.splits if_splits)

lemma check_header_leader_Err:
  "check_header_leader lv epoch pool out = Err e \<Longrightarrow> \<exists>v. e = VrfCert v"
  by (auto simp: check_header_leader_def result_simps Let_def split: if_splits)

lemma bool_verdict_Err:
  "(case r of Err _ \<Rightarrow> Err e | Ok b \<Rightarrow> (case b of True \<Rightarrow> Ok () | False \<Rightarrow> Err e)) = Err e' \<Longrightarrow> e' = e"
  by (auto split: sum.splits bool.splits)

lemma verify_header_kes_Err:
  assumes "verify_header_kes c kes slot n p = Err e"
  shows "e \<in> {KesInvalid, OpCertInvalid} \<union> range MalformedField"
  using assms unfolding verify_header_kes_def Let_def rbind_eq_Err map_err_eq_Err
  by (elim disjE exE conjE) (auto dest!: bool_verdict_Err)

lemma apply_header_contribution_Err:
  "apply_header_contribution hash st slot prev out freeze = Err e \<Longrightarrow> \<exists>l. ps_last_slot st = Some l \<and> slot \<le> l"
  by (auto simp: apply_header_contribution_def result_simps Let_def split: option.splits)

lemma apply_op_cert_last_slot: "apply_op_cert st obs = Ok st' \<Longrightarrow> ps_last_slot st' = ps_last_slot st"
  by (auto simp: apply_op_cert_def result_simps)

text \<open>
  The errors of header admission are a closed set: a rejected header never reports a nonce
  error (the slot guard already excludes the only nonce failure of a header), a body hash
  mismatch or an era mismatch; a threshold error arises only under \<open>Enforce\<close>; and every guard's
  error names the violated bound, so that a slot, block-number, counter or key error is
  reported only when that condition really fails.
\<close>

theorem header_rejection_closed:
  assumes "validate_and_apply_header c st h lv sch elig = Err e"
  shows "case e of
      Nonce _ \<Rightarrow> False | BodyHashMismatch _ _ \<Rightarrow> False | EraMismatch _ _ \<Rightarrow> False
    | SlotBeforeLastApplied l s \<Rightarrow> ps_last_slot st = Some l \<and> s = hi_slot h \<and> s \<le> l
    | BlockNoOutOfOrder l n \<Rightarrow> ps_last_block_no st = Some l \<and> n = hi_block_no h \<and> n \<le> l
    | OpCertCounter r \<Rightarrow> (\<exists>n. op_cert_get (ps_op_cert_counters st) (hi_issuer_pool h) (hi_op_cert_kes_period h) = Some n
        \<and> hi_op_cert_counter h < n \<and> r = Regression n (hi_op_cert_counter h))
    | VrfKeyhashMismatch k k' \<Rightarrow> k' = blake2b_256 c (hi_vrf_vk h) \<and> k \<noteq> k'
        \<and> (\<exists>epoch. lv_pool_vrf_keyhash lv epoch (hi_issuer_pool h) = Some k)
    | VrfCert v \<Rightarrow> elig = Enforce \<or> v = VrfCertError.VerificationFailed
    | HeaderValidationError.OutsideForecastRange r \<Rightarrow> check_forecast_horizon sch (hi_slot h) = Err r
    | HeaderValidationError.HFC r \<Rightarrow> locate sch (hi_slot h) = Err r
    | _ \<Rightarrow> hi_kes h \<noteq> None"
  using assms
  unfolding validate_and_apply_header_def Let_def rbind_eq_Err split_paired_Ex prod.case
  apply (elim disjE exE conjE)
  subgoal by (auto simp: result_simps)
  subgoal by (auto simp: result_simps split: option.splits)
  subgoal by (auto simp: result_simps split: option.splits)
  subgoal by (auto simp: result_simps split: option.splits)
  subgoal by (auto simp: result_simps)
  subgoal by (auto simp: result_simps split: option.splits)
  subgoal by (auto dest: header_vrf_outputs_Err)
  subgoal by (auto dest: check_header_leader_Err split: prod.splits if_splits)
  subgoal by (auto dest: verify_header_kes_Err split: option.splits)
  subgoal by (auto simp: result_simps apply_op_cert_def upsert_strict_Err op_cert_get_def)
  subgoal by (auto simp: map_err_eq_Err map_err_eq_Ok reject_if_eq_Ok guard_Some_Ok apply_nonce_input_def
      dest!: apply_op_cert_last_slot apply_header_contribution_Err)
  subgoal by simp
  done

theorem header_rejection_closed_witness:
  "validate_and_apply_header sample_cr ((praos_genesis [1])\<lparr>ps_last_slot := Some 14\<rparr>) (sample_header 13 4)
     sample_ledger sample_schedule Enforce = Err (SlotBeforeLastApplied 14 13) \<and> (13 :: SlotNo) \<le> 14"
proof -
  let ?st = "(praos_genesis [1])\<lparr>ps_last_slot := Some 14\<rparr>"
  have e: "validate_and_apply_header sample_cr ?st (sample_header 13 4) sample_ledger sample_schedule Enforce
      = Err (SlotBeforeLastApplied 14 13)"
    by (simp add: validate_and_apply_header_def sample_header_def check_forecast_horizon_def sample_schedule_def
        sample_eras_def saturating_add_def)
  then show ?thesis using header_rejection_closed [OF e] by (simp add: sample_header_def)
qed

end
