(* ===== verification/Leader_Check.thy ===== *)
theory Leader_Check
  imports Header_Validate
begin

text \<open>
  The producer's side of leadership: \<^verbatim>\<open>leader_schedule.rs\<close> (the threshold context of a slot and
  a pool), \<^verbatim>\<open>leader_check.rs\<close> (the verdict on a VRF proof) and \<^verbatim>\<open>opcert_validate.rs\<close> (the
  certificate a producer may forge with), all of \<^verbatim>\<open>ade_core/src/consensus\<close>. The properties
  relate these decisions to what header admission later checks.
\<close>

section \<open>Leader schedule query\<close>

record LeaderScheduleQuery =
  lq_slot :: SlotNo
  lq_pool :: Hash28

record LeaderScheduleAnswer =
  la_slot :: SlotNo
  la_pool :: Hash28
  la_epoch :: EpochNo
  la_expected_vrf_input :: ExpectedVrfInput
  la_stake_fraction :: "u64 \<times> u64"
  la_asc :: ActiveSlotsCoeff

definition query_leader_schedule ::
  "Crypto \<Rightarrow> LeaderScheduleQuery \<Rightarrow> LedgerView \<Rightarrow> EraSchedule \<Rightarrow> PraosChainDepState
     \<Rightarrow> (LeaderScheduleAnswer, LeaderScheduleError) result" where
  "query_leader_schedule c query lv sch st =
     rbind (map_err LeaderScheduleError.OutsideForecastRange (check_forecast_horizon sch (lq_slot query))) (\<lambda>_.
     rbind (map_err LeaderScheduleError.HFC (locate sch (lq_slot query))) (\<lambda>location.
     let epoch = loc_epoch location in
     rbind (reject_if (lv_pool_vrf_keyhash lv epoch (lq_pool query) = None) UnknownPool) (\<lambda>_.
     rbind (ok_or UnknownPool (lv_pool_active_stake lv epoch (lq_pool query))) (\<lambda>pool_stake.
     rbind (ok_or UnknownPool (lv_total_active_stake lv epoch)) (\<lambda>total_stake.
     rbind (reject_if (total_stake = 0) UnknownPool) (\<lambda>_.
     rbind (ok_or UnknownPool (lv_active_slots_coeff lv epoch)) (\<lambda>asc.
     Ok \<lparr>la_slot = lq_slot query, la_pool = lq_pool query, la_epoch = epoch,
         la_expected_vrf_input = leader_vrf_input c (loc_era location) (lq_slot query) (ps_epoch_nonce st),
         la_stake_fraction = (pool_stake, total_stake), la_asc = asc\<rparr>)))))))"

section \<open>Leader check\<close>

definition is_leader_for_vrf_output :: "Crypto \<Rightarrow> LeaderScheduleAnswer \<Rightarrow> VrfOutput \<Rightarrow> bool" where
  "is_leader_for_vrf_output c answer output =
     (let sigma = \<lparr>sf_numer = fst (la_stake_fraction answer), sf_denom = snd (la_stake_fraction answer)\<rparr>;
          leader_value = leader_value_for c (la_expected_vrf_input answer) output
      in is_leader leader_value sigma (la_asc answer))"

type_synonym VrfOutputFingerprint = bytes
type_synonym LeaderProofFingerprint = bytes

definition VrfOutputFingerprint_of :: "VrfOutput \<Rightarrow> VrfOutputFingerprint" where
  "VrfOutputFingerprint_of output = take 8 output"

definition LeaderProofFingerprint_of :: "VrfOutput \<Rightarrow> LeaderProofFingerprint" where
  "LeaderProofFingerprint_of output = take 8 output"

datatype LeaderCheckVerdict =
    Eligible SlotNo VrfOutput LeaderProofFingerprint
  | NotEligible SlotNo VrfOutputFingerprint

datatype LeaderCheckError =
    VrfInputMismatch bytes bytes
  | AnswerSlotMismatch u64 u64
  | VrfVerificationFailed
  | ZeroStakeDenominator

definition verify_and_evaluate_leader ::
  "Crypto \<Rightarrow> CardanoEra \<Rightarrow> SlotNo \<Rightarrow> Nonce \<Rightarrow> VrfVerificationKey \<Rightarrow> VrfProof \<Rightarrow> LeaderScheduleAnswer
     \<Rightarrow> (LeaderCheckVerdict, LeaderCheckError) result" where
  "verify_and_evaluate_leader c era slot eta0 vrf_vk vrf_proof answer =
     rbind (reject_if (la_slot answer \<noteq> slot) (AnswerSlotMismatch slot (la_slot answer))) (\<lambda>_.
     let expected = leader_vrf_input c era slot eta0 in
     rbind (reject_if (expected \<noteq> la_expected_vrf_input answer)
              (VrfInputMismatch (take 8 (alpha_bytes expected))
                 (take 8 (alpha_bytes (la_expected_vrf_input answer))))) (\<lambda>_.
     rbind (reject_if (snd (la_stake_fraction answer) = 0) ZeroStakeDenominator) (\<lambda>_.
     rbind (map_err (\<lambda>_. VrfVerificationFailed) (verify_vrf c vrf_vk vrf_proof (alpha_bytes expected))) (\<lambda>vrf_output.
     let fingerprint = VrfOutputFingerprint_of vrf_output in
     if is_leader_for_vrf_output c answer vrf_output
     then Ok (Eligible slot vrf_output (LeaderProofFingerprint_of vrf_output))
     else Ok (NotEligible slot fingerprint)))))"

section \<open>Operational certificate acceptance\<close>

record OperationalCert =
  opc_hot_vkey :: bytes
  opc_sequence_number :: u64
  opc_kes_period :: u64
  opc_sigma :: bytes

definition HOT_VKEY_LEN :: nat where "HOT_VKEY_LEN = 32"
definition SIGMA_LEN :: nat where "SIGMA_LEN = 64"

datatype OpCertError =
    BadColdSignature
  | PeriodMismatch u64 u64
  | CounterRepeat u64
  | CounterRegression u64 u64
  | BadHotVkeyLength nat
  | BadSigmaLength nat
  | MalformedColdVk

definition opcert_validate ::
  "Crypto \<Rightarrow> OperationalCert \<Rightarrow> bytes \<Rightarrow> u64 \<Rightarrow> u64 option \<Rightarrow> (unit, OpCertError) result" where
  "opcert_validate c opcert cold_vk expected_period prev_counter =
     rbind (reject_if (length (opc_hot_vkey opcert) \<noteq> HOT_VKEY_LEN)
              (BadHotVkeyLength (length (opc_hot_vkey opcert)))) (\<lambda>_.
     rbind (reject_if (length (opc_sigma opcert) \<noteq> SIGMA_LEN) (BadSigmaLength (length (opc_sigma opcert)))) (\<lambda>_.
     let opcert_data = \<lparr>ocd_hot_vkey = opc_hot_vkey opcert,
                        ocd_sequence_number = opc_sequence_number opcert,
                        ocd_kes_period = opc_kes_period opcert,
                        ocd_cold_signature = opc_sigma opcert\<rparr> in
     rbind (case verify_opcert c cold_vk opcert_data of
              Ok True \<Rightarrow> Ok ()
            | Ok False \<Rightarrow> Err BadColdSignature
            | Err _ \<Rightarrow> Err MalformedColdVk) (\<lambda>_.
     rbind (reject_if (opc_kes_period opcert \<noteq> expected_period)
              (PeriodMismatch (opc_kes_period opcert) expected_period)) (\<lambda>_.
     case prev_counter of
       Some prev \<Rightarrow>
         rbind (reject_if (opc_sequence_number opcert = prev) (CounterRepeat prev)) (\<lambda>_.
         reject_if (opc_sequence_number opcert < prev) (CounterRegression (opc_sequence_number opcert) prev))
     | None \<Rightarrow> Ok ()))))"

section \<open>Inversion\<close>

lemma query_leader_schedule_Ok:
  "query_leader_schedule c q lv sch st = Ok answer \<longleftrightarrow>
     (\<exists>loc stake total asc. check_forecast_horizon sch (lq_slot q) = Ok () \<and> locate sch (lq_slot q) = Ok loc
        \<and> lv_pool_vrf_keyhash lv (loc_epoch loc) (lq_pool q) \<noteq> None
        \<and> lv_pool_active_stake lv (loc_epoch loc) (lq_pool q) = Some stake
        \<and> lv_total_active_stake lv (loc_epoch loc) = Some total \<and> total \<noteq> 0
        \<and> lv_active_slots_coeff lv (loc_epoch loc) = Some asc
        \<and> answer = \<lparr>la_slot = lq_slot q, la_pool = lq_pool q, la_epoch = loc_epoch loc,
             la_expected_vrf_input = leader_vrf_input c (loc_era loc) (lq_slot q) (ps_epoch_nonce st),
             la_stake_fraction = (stake, total), la_asc = asc\<rparr>)"
  unfolding query_leader_schedule_def Let_def
  by (simp only: rbind_unit_Ok rbind_eq_Ok map_err_eq_Ok ok_or_eq_Ok reject_if_eq_Ok sum.inject
      eq_commute [of answer]) blast

lemma verify_and_evaluate_leader_Ok:
  "verify_and_evaluate_leader c era slot eta0 vk proof answer = Ok verdict \<longleftrightarrow>
     la_slot answer = slot \<and> la_expected_vrf_input answer = leader_vrf_input c era slot eta0
     \<and> snd (la_stake_fraction answer) \<noteq> 0
     \<and> (\<exists>out. cr_vrf_verify c vk proof (alpha_bytes (leader_vrf_input c era slot eta0)) = Some out
          \<and> verdict = (if is_leader_for_vrf_output c answer out then Eligible slot out (take 8 out)
              else NotEligible slot (take 8 out)))"
  by (auto simp: verify_and_evaluate_leader_def Let_def result_simps verify_vrf_Ok VrfOutputFingerprint_of_def
      LeaderProofFingerprint_of_def split: if_splits)

lemma opcert_validate_Ok:
  "opcert_validate c cert cold_vk period prev_counter = Ok () \<longleftrightarrow>
     length (opc_hot_vkey cert) = 32 \<and> length (opc_sigma cert) = 64
     \<and> kc_point_ok (cr_kes c) cold_vk
     \<and> kc_verify (cr_kes c) cold_vk (opc_hot_vkey cert @ u64_to_be_bytes (opc_sequence_number cert)
         @ u64_to_be_bytes (opc_kes_period cert)) (opc_sigma cert)
     \<and> opc_kes_period cert = period
     \<and> (\<forall>prev. prev_counter = Some prev \<longrightarrow> prev < opc_sequence_number cert)"
proof -
  have counter: "(case prev_counter of None \<Rightarrow> Ok () | Some prev \<Rightarrow>
        rbind (reject_if (n = prev) (CounterRepeat prev)) (\<lambda>_. reject_if (n < prev) (CounterRegression n prev))) = Ok ()
      \<longleftrightarrow> (\<forall>prev. prev_counter = Some prev \<longrightarrow> prev < n)" for n :: u64
    by (cases prev_counter) (auto simp: result_simps)
  have verdict: "(case r of Err _ \<Rightarrow> Err MalformedColdVk
        | Ok b \<Rightarrow> (case b of True \<Rightarrow> Ok () | False \<Rightarrow> Err BadColdSignature)) = Ok () \<longleftrightarrow> r = Ok True"
    for r :: "(bool, CryptoError) result"
    by (auto split: sum.splits bool.splits)
  show ?thesis
    unfolding opcert_validate_def Let_def
    by (simp only: rbind_unit_Ok reject_if_eq_Ok verdict counter verify_opcert_True build_opcert_signable_def
        OperationalCertData.simps HOT_VKEY_LEN_def SIGMA_LEN_def not_not) blast
qed

section \<open>Properties\<close>

text \<open>
  C5. Producer and validator agree on leadership in the Praos eras: take the schedule answer of a
  slot and pool, a VRF proof under the registered key, and the verdict of the leader check on it.
  If the verdict is \<open>Eligible\<close>, a header that carries this proof and the verdict's output is
  accepted by header admission exactly when it extends the state (slot, block number, op-cert
  counter) and its certificate and KES signature verify. If the verdict is \<open>NotEligible\<close>, header
  admission rejects every header that carries this proof.
\<close>

theorem leader_check_agrees_with_admission:
  assumes "query_leader_schedule c \<lparr>lq_slot = hi_slot h, lq_pool = hi_issuer_pool h\<rparr> lv sch st = Ok answer"
    and "locate sch (hi_slot h) = Ok loc" and "is_praos (loc_era loc)"
    and "lv_pool_vrf_keyhash lv (loc_epoch loc) (hi_issuer_pool h) = Some (blake2b_256 c (hi_vrf_vk h))"
    and "verify_and_evaluate_leader c (loc_era loc) (hi_slot h) (ps_epoch_nonce st) (hi_vrf_vk h) proof answer
           = Ok verdict"
    and "hi_vrf h = HeaderVrf.Praos proof output"
  shows "case verdict of
      Eligible slot out fingerprint \<Rightarrow> output = out \<longrightarrow>
        (is_ok (validate_and_apply_header c st h lv sch Enforce) \<longleftrightarrow>
           (\<forall>l. ps_last_slot st = Some l \<longrightarrow> l < hi_slot h)
         \<and> (\<forall>l. ps_last_block_no st = Some l \<longrightarrow> l < hi_block_no h)
         \<and> (\<forall>n. op_cert_get (ps_op_cert_counters st) (hi_issuer_pool h) (hi_op_cert_kes_period h) = Some n
               \<longrightarrow> n \<le> hi_op_cert_counter h)
         \<and> (\<forall>kes. hi_kes h = Some kes \<longrightarrow>
              kes_evidence c kes (hi_slot h) (hi_op_cert_counter h) (hi_op_cert_kes_period h)))
    | NotEligible slot fingerprint \<Rightarrow> \<not> is_ok (validate_and_apply_header c st h lv sch Enforce)"
proof -
  from assms(1,2) obtain stake total asc where q:
      "check_forecast_horizon sch (hi_slot h) = Ok ()"
      "lv_pool_active_stake lv (loc_epoch loc) (hi_issuer_pool h) = Some stake"
      "lv_total_active_stake lv (loc_epoch loc) = Some total" "total \<noteq> 0"
      "lv_active_slots_coeff lv (loc_epoch loc) = Some asc"
      "la_expected_vrf_input answer = leader_vrf_input c (loc_era loc) (hi_slot h) (ps_epoch_nonce st)"
      "la_stake_fraction answer = (stake, total)" "la_asc answer = asc"
    unfolding query_leader_schedule_Ok by auto
  have praos: "leader_vrf_input c (loc_era loc) (hi_slot h) (ps_epoch_nonce st)
      = ExpectedVrfInput.Praos (praos_vrf_input c (hi_slot h) (ps_epoch_nonce st))"
    using assms(3) by (simp add: leader_vrf_input_def)
  from assms(5) obtain out where out: "cr_vrf_verify c (hi_vrf_vk h) proof
        (praos_vrf_input c (hi_slot h) (ps_epoch_nonce st)) = Some out"
      and verdict: "verdict = (if is_leader_for_vrf_output c answer out then Eligible (hi_slot h) out (take 8 out)
              else NotEligible (hi_slot h) (take 8 out))"
    unfolding verify_and_evaluate_leader_Ok praos by (auto simp: alpha_bytes_def)
  have leader: "is_leader_for_vrf_output c answer out \<longleftrightarrow>
      leader_evidence lv (loc_epoch loc) (hi_issuer_pool h) (praos_leader_value c out)"
    using q praos by (simp add: is_leader_for_vrf_output_def leader_evidence_def leader_value_for_def)
  have vrf: "vrf_evidence c (ps_epoch_nonce st) h lo no \<longleftrightarrow> output = out
      \<and> lo = praos_leader_value c out \<and> no = praos_nonce_value c out @ replicate 32 0" for lo no
    using out by (auto simp: vrf_evidence_def assms(6))
  have counter: "(\<exists>m. upsert_strict (ps_op_cert_counters st) p k n = Ok m) \<longleftrightarrow>
      (\<forall>e. op_cert_get (ps_op_cert_counters st) p k = Some e \<longrightarrow> e \<le> n)" for p k n
    by (cases "upsert_strict (ps_op_cert_counters st) p k n")
      (auto simp: upsert_strict_def op_cert_get_def split: option.splits if_splits)
  have "is_ok (validate_and_apply_header c st h lv sch Enforce) \<longleftrightarrow>
      (\<exists>applied. validate_and_apply_header c st h lv sch Enforce = Ok applied)"
    by (simp add: is_ok_def split: sum.splits)
  also have "\<dots> \<longleftrightarrow>
      output = out \<and> leader_evidence lv (loc_epoch loc) (hi_issuer_pool h) (praos_leader_value c out)
      \<and> (\<forall>l. ps_last_slot st = Some l \<longrightarrow> l < hi_slot h) \<and> (\<forall>l. ps_last_block_no st = Some l \<longrightarrow> l < hi_block_no h)
      \<and> (\<forall>n. op_cert_get (ps_op_cert_counters st) (hi_issuer_pool h) (hi_op_cert_kes_period h) = Some n
               \<longrightarrow> n \<le> hi_op_cert_counter h)
      \<and> (\<forall>kes. hi_kes h = Some kes \<longrightarrow>
              kes_evidence c kes (hi_slot h) (hi_op_cert_counter h) (hi_op_cert_kes_period h))"
    unfolding header_steps header_vrf_outputs_Ok check_header_leader_Ok verify_header_kes_Ok vrf
    using q(1) assms(2,4) counter by auto
  finally show ?thesis using verdict leader by auto
qed

definition zero_cr :: Crypto where
  "zero_cr = \<lparr>cr_kes = sample_crypto\<lparr>kc_blake2b256 := (\<lambda>_. replicate 32 0)\<rparr>,
     cr_vrf_verify = (\<lambda>_ _ _. Some (replicate 64 0))\<rparr>"

definition praos_header :: HeaderInput where
  "praos_header = (sample_header 105 4)\<lparr>hi_vrf := HeaderVrf.Praos [] (replicate 64 0)\<rparr>"

theorem leader_check_agrees_with_admission_witness:
  "is_ok (validate_and_apply_header zero_cr (praos_genesis [1]) praos_header
     (sample_ledger\<lparr>lv_pool_vrf_keyhash := \<lambda>_ _. Some (replicate 32 0)\<rparr>) seed_schedule Enforce)"
proof -
  let ?lv = "sample_ledger\<lparr>lv_pool_vrf_keyhash := \<lambda>_ _. Some (replicate 32 0)\<rparr>"
  let ?st = "praos_genesis [1]"
  let ?loc = "\<lparr>loc_era_index = 0, loc_era = Conway, loc_epoch = 7, loc_relative_slot_in_epoch = 5\<rparr>"
  let ?answer = "\<lparr>la_slot = 105, la_pool = [7], la_epoch = 7,
     la_expected_vrf_input = leader_vrf_input zero_cr Conway 105 (ps_epoch_nonce ?st),
     la_stake_fraction = (1, 2), la_asc = \<lparr>asc_numer = 1, asc_denom = 2\<rparr>\<rparr>"
  have loc: "locate seed_schedule 105 = Ok ?loc"
    by (simp add: locate_def seed_schedule_def locate_index_def checked_add_def)
  have hz: "check_forecast_horizon seed_schedule 105 = Ok ()"
    by (simp add: check_forecast_horizon_def seed_schedule_def saturating_add_def)
  have q: "query_leader_schedule zero_cr \<lparr>lq_slot = 105, lq_pool = [7]\<rparr> ?lv seed_schedule ?st = Ok ?answer"
    unfolding query_leader_schedule_Ok using loc hz by (auto simp: sample_ledger_def)
  have zero: "praos_leader_value zero_cr (replicate 64 0) = replicate 64 0"
    by (simp add: praos_leader_value_def zero_cr_def replicate_add [symmetric])
  have "is_leader (replicate 64 0) \<lparr>sf_numer = 1, sf_denom = 2\<rparr> \<lparr>asc_numer = 1, asc_denom = 2\<rparr>"
    by (rule is_leader_zero_output) simp_all
  then have "is_leader_for_vrf_output zero_cr ?answer (replicate 64 0)"
    using zero by (simp add: is_leader_for_vrf_output_def leader_vrf_input_def leader_value_for_def is_praos_def)
  then have v: "verify_and_evaluate_leader zero_cr Conway 105 (ps_epoch_nonce ?st) [] [] ?answer
      = Ok (Eligible 105 (replicate 64 0) (take 8 (replicate 64 0)))"
    unfolding verify_and_evaluate_leader_Ok by (auto simp: zero_cr_def)
  show ?thesis
    using leader_check_agrees_with_admission [of zero_cr praos_header ?lv seed_schedule ?st ?answer ?loc "[]"
        "Eligible 105 (replicate 64 0) (take 8 (replicate 64 0))" "replicate 64 0"] q loc v
    by (simp add: praos_header_def sample_header_def praos_genesis_def op_cert_get_def bt.get_empty
        is_praos_def zero_cr_def)
qed

text \<open>
  A certificate is accepted for forging exactly when the key and signature have their sizes, the
  cold key signed hot key, counter and period, the period is the expected one, and the
  counter is above the previous one, if there is one; and an accepted certificate is never accepted
  again with its own counter as the previous one.
\<close>

theorem opcert_validate_accepts:
  "(opcert_validate c cert cold_vk period prev_counter = Ok () \<longleftrightarrow>
     length (opc_hot_vkey cert) = 32 \<and> length (opc_sigma cert) = 64
     \<and> kc_point_ok (cr_kes c) cold_vk
     \<and> kc_verify (cr_kes c) cold_vk (opc_hot_vkey cert @ u64_to_be_bytes (opc_sequence_number cert)
         @ u64_to_be_bytes (opc_kes_period cert)) (opc_sigma cert)
     \<and> opc_kes_period cert = period
     \<and> prev_counter \<in> insert None (Some ` {..<opc_sequence_number cert}))
   \<and> opcert_validate c cert cold_vk period (Some (opc_sequence_number cert)) \<noteq> Ok ()"
  unfolding opcert_validate_Ok by (cases prev_counter) auto

text \<open>
  C39. A producer that follows the key schedule produces headers whose KES evidence verifies: generate
  a level-6 key from a 32-byte seed, have the cold key certify its verification key from a KES
  period on, evolve the key once per KES period, and sign the header body at the evolution of
  the header's slot; for every slot within the 64 periods of the certificate the header's
  certificate and KES check succeeds.
\<close>

theorem produced_header_passes_kes:
  assumes "kes_crypto_ok (cr_kes c)" and "length seed = 32" and "length cold_vk = 32"
    and "gen_key_kes (cr_kes c) 6 seed = Ok sk"
    and "opc_hot_vkey cert = derive_verification_key (cr_kes c) sk"
    and "opcert_validate c cert cold_vk period prev_counter = Ok ()"
    and "unat period \<le> unat slot div 129600" and "unat slot div 129600 < unat period + 64"
  shows "\<exists>sk_t s. evolve (cr_kes c) (unat slot div 129600 - unat period) sk = Ok (Some sk_t)
    \<and> sign_kes (cr_kes c) sk_t (word_of_nat (unat slot div 129600 - unat period)) body = Ok s
    \<and> verify_header_kes c
        \<lparr>hk_issuer_vkey = cold_vk, hk_kes_vkey = opc_hot_vkey cert,
         hk_kes_signature = raw_serialize_signature_kes s, hk_op_cert_signature = opc_sigma cert,
         hk_header_body_bytes = body\<rparr> slot (opc_sequence_number cert) (opc_kes_period cert) = Ok ()"
proof -
  let ?t = "unat slot div 129600 - unat period"
  have t: "?t < 2 ^ 6" using assms(8) by simp
  have evo: "unat (header_evolution slot period) = ?t"
    by (simp add: header_evolution_def SLOTS_PER_KES_PERIOD_def unat_saturating_sub unat_div)
  have p: "ucast (header_evolution slot period) = (word_of_nat ?t :: u32)"
    unfolding evo [symmetric] by (simp add: of_nat_unat)
  have u: "unat (word_of_nat ?t :: u32) = ?t" using t by (simp add: unat_of_nat)
  have sk: "sk = key_at (cr_kes c) 6 seed 0" using assms(4) gen_key_kes_key_at [OF assms(1,2)] by simp
  have ev: "evolve (cr_kes c) ?t sk = Ok (Some (key_at (cr_kes c) 6 seed ?t))"
    unfolding sk by (rule evolve_key_at) (use assms(1) t in simp_all)
  obtain s where s: "sign_kes (cr_kes c) (key_at (cr_kes c) 6 seed ?t) (word_of_nat ?t) body = Ok s"
      "verify_kes_sum (cr_kes c) (seed_vk (cr_kes c) 6 seed) (word_of_nat ?t) body s = Ok ()"
    using sign_verify_key_at [OF assms(1), of 6 "word_of_nat ?t" seed body] t u by auto
  have enc: "raw_deserialize_signature_kes 6 (raw_serialize_signature_kes s) = Ok s"
    using sign_kes_encoding [OF assms(1) s(1)] by simp
  have "verify_header_kes c
        \<lparr>hk_issuer_vkey = cold_vk, hk_kes_vkey = opc_hot_vkey cert,
         hk_kes_signature = raw_serialize_signature_kes s, hk_op_cert_signature = opc_sigma cert,
         hk_header_body_bytes = body\<rparr> slot (opc_sequence_number cert) (opc_kes_period cert) = Ok ()"
    using assms(3,5,6) enc s(2) t
    unfolding verify_header_kes_Ok kes_evidence_def opcert_validate_Ok header_opcert_def build_opcert_signable_def
    by (auto simp: evo p sk derive_key_at)
  with ev s(1) show ?thesis by blast
qed

definition sample_opcert :: "bytes \<Rightarrow> OperationalCert" where
  "sample_opcert hot = \<lparr>opc_hot_vkey = hot, opc_sequence_number = 3, opc_kes_period = 1,
     opc_sigma = take 64 (replicate 32 5 @ (hot @ u64_to_be_bytes 3 @ u64_to_be_bytes 1) @ replicate 64 0)\<rparr>"

theorem produced_header_passes_kes_witness:
  "\<exists>sk s hot. gen_key_kes sample_crypto 6 (replicate 32 1) = Ok sk \<and> hot = derive_verification_key sample_crypto sk
    \<and> opcert_validate sample_cr (sample_opcert hot) (replicate 32 5) 1 (Some 2) = Ok ()
    \<and> verify_header_kes sample_cr
        \<lparr>hk_issuer_vkey = replicate 32 5, hk_kes_vkey = hot,
         hk_kes_signature = raw_serialize_signature_kes s, hk_op_cert_signature = opc_sigma (sample_opcert hot),
         hk_header_body_bytes = [9]\<rparr> 300000 3 1 = Ok ()"
proof -
  let ?sk = "key_at sample_crypto 6 (replicate 32 1) 0"
  let ?hot = "derive_verification_key sample_crypto ?sk"
  have kes: "cr_kes sample_cr = sample_crypto" by (simp add: sample_cr_def)
  have gen: "gen_key_kes sample_crypto 6 (replicate 32 1) = Ok ?sk"
    by (rule gen_key_kes_key_at [OF sample_crypto_ok]) simp
  have len: "length ?hot = 32"
    unfolding derive_key_at by (rule seed_vk_length [OF sample_crypto_ok])
  have cert: "opcert_validate sample_cr (sample_opcert ?hot) (replicate 32 5) 1 (Some 2) = Ok ()"
    unfolding opcert_validate_Ok using len by (simp add: sample_opcert_def kes sample_crypto_def)
  show ?thesis
    using produced_header_passes_kes [of sample_cr "replicate 32 1" "replicate 32 5" ?sk "sample_opcert ?hot" 1
        "Some 2" 300000 "[9]"] sample_crypto_ok gen cert
    by (auto simp: kes sample_opcert_def)
qed

end
