(* ===== verification/Cbor.thy ===== *)
theory Cbor
  imports Consensus_Types
begin

text \<open>
  The CBOR reader and writer of \<^verbatim>\<open>ade_codec/src/cbor/mod.rs\<close> with its error type
  (\<^verbatim>\<open>error.rs\<close>). A reader takes the data and an offset and returns the value with the
  advanced offset; the offset a failed read leaves behind is not modelled, since every
  caller returns the error. Offsets are natural numbers: a slice has less than \<open>2 ^ 63\<close>
  bytes, so that no sum of an offset and a size wraps where the source adds without a
  check, and its checked addition of a length fails only where the sum exceeds the data.
  A writer returns the extended buffer.
\<close>

type_synonym usize = nat

section \<open>Data\<close>

datatype CodecError =
    UnknownEraTag u8
  | UnknownCertTag u64 usize
  | UnexpectedEof usize usize
  | InvalidCborStructure usize string
  | TrailingBytes usize usize
  | UnexpectedCborType usize string u8
  | InvalidLength usize string
  | DuplicateMapKey usize

definition MAJOR_UNSIGNED :: u8 where "MAJOR_UNSIGNED = 0"
definition MAJOR_NEGATIVE :: u8 where "MAJOR_NEGATIVE = 1"
definition MAJOR_BYTES :: u8 where "MAJOR_BYTES = 2"
definition MAJOR_TEXT :: u8 where "MAJOR_TEXT = 3"
definition MAJOR_ARRAY :: u8 where "MAJOR_ARRAY = 4"
definition MAJOR_MAP :: u8 where "MAJOR_MAP = 5"
definition MAJOR_TAG :: u8 where "MAJOR_TAG = 6"
definition MAJOR_SIMPLE :: u8 where "MAJOR_SIMPLE = 7"

definition AI_ONE_BYTE :: u8 where "AI_ONE_BYTE = 24"
definition AI_TWO_BYTES :: u8 where "AI_TWO_BYTES = 25"
definition AI_FOUR_BYTES :: u8 where "AI_FOUR_BYTES = 26"
definition AI_EIGHT_BYTES :: u8 where "AI_EIGHT_BYTES = 27"
definition AI_INDEFINITE :: u8 where "AI_INDEFINITE = 31"
definition BREAK_BYTE :: u8 where "BREAK_BYTE = 0xff"

lemmas cbor_consts = MAJOR_UNSIGNED_def MAJOR_NEGATIVE_def MAJOR_BYTES_def MAJOR_TEXT_def MAJOR_ARRAY_def
  MAJOR_MAP_def MAJOR_TAG_def MAJOR_SIMPLE_def AI_ONE_BYTE_def AI_TWO_BYTES_def AI_FOUR_BYTES_def
  AI_EIGHT_BYTES_def AI_INDEFINITE_def BREAK_BYTE_def

datatype IntWidth = Inline | I8 | I16 | I32 | I64

datatype ContainerEncoding = Definite u64 IntWidth | Indefinite

type_synonym 'a reader = "bytes \<Rightarrow> usize \<Rightarrow> ('a \<times> usize, CodecError) result"

section \<open>Reading\<close>

definition peek_byte :: "bytes \<Rightarrow> usize \<Rightarrow> (u8, CodecError) result" where
  "peek_byte data offset = (if offset < length data then Ok (data ! offset) else Err (UnexpectedEof offset 1))"

definition read_byte :: "u8 reader" where
  "read_byte data offset = rbind (peek_byte data offset) (\<lambda>b. Ok (b, offset + 1))"

definition decode_initial :: "(u8 \<times> u8) reader" where
  "decode_initial data offset = rbind (read_byte data offset) (\<lambda>(b, offset). Ok ((drop_bit 5 b, b AND 0x1f), offset))"

text \<open>The bound check and the big-endian read of \<open>n\<close> bytes that each width of the argument has.\<close>

definition read_be :: "usize \<Rightarrow> nat reader" where
  "read_be n data offset =
     (if length data < offset + n then Err (UnexpectedEof offset n)
      else Ok (be_nat (take n (drop offset data)), offset + n))"

definition decode_argument :: "bytes \<Rightarrow> usize \<Rightarrow> u8 \<Rightarrow> usize \<Rightarrow> ((u64 \<times> IntWidth) \<times> usize, CodecError) result" where
  "decode_argument data offset ai start_offset =
     (if ai \<le> 23 then Ok ((ucast ai, Inline), offset)
      else if ai = AI_ONE_BYTE then rbind (read_byte data offset) (\<lambda>(b, offset). Ok ((ucast b, I8), offset))
      else if ai = AI_TWO_BYTES then rbind (read_be 2 data offset) (\<lambda>(v, offset). Ok ((word_of_nat v, I16), offset))
      else if ai = AI_FOUR_BYTES then rbind (read_be 4 data offset) (\<lambda>(v, offset). Ok ((word_of_nat v, I32), offset))
      else if ai = AI_EIGHT_BYTES then rbind (read_be 8 data offset) (\<lambda>(v, offset). Ok ((word_of_nat v, I64), offset))
      else Err (InvalidCborStructure start_offset ''reserved additional info value (28-30)''))"

definition peek_major :: "bytes \<Rightarrow> usize \<Rightarrow> (u8, CodecError) result" where
  "peek_major data offset = rbind (peek_byte data offset) (\<lambda>b. Ok (drop_bit 5 b))"

definition read_uint :: "(u64 \<times> IntWidth) reader" where
  "read_uint data start =
     rbind (decode_initial data start) (\<lambda>((major, ai), offset).
     if major \<noteq> MAJOR_UNSIGNED then Err (UnexpectedCborType start ''unsigned integer'' major)
     else decode_argument data offset ai start)"

text \<open>The payload of a definite-length string: the checked bound, then the copy.\<close>

definition read_payload :: "bytes \<Rightarrow> usize \<Rightarrow> usize \<Rightarrow> (bytes \<times> usize, CodecError) result" where
  "read_payload data offset len =
     (if length data < offset + len then Err (UnexpectedEof offset len)
      else Ok (take len (drop offset data), offset + len))"

definition read_bytes :: "(bytes \<times> IntWidth) reader" where
  "read_bytes data start =
     rbind (decode_initial data start) (\<lambda>((major, ai), offset).
     if major \<noteq> MAJOR_BYTES then Err (UnexpectedCborType start ''byte string'' major)
     else if ai = AI_INDEFINITE
     then Err (InvalidCborStructure start ''indefinite-length byte string not supported'')
     else rbind (decode_argument data offset ai start) (\<lambda>((len, width), offset).
          rbind (read_payload data offset (unat len)) (\<lambda>(bytes, offset).
          Ok ((bytes, width), offset))))"

text \<open>
  \<^verbatim>\<open>String::from_utf8\<close>: the well-formed sequences of the Unicode standard (no overlong
  form, no surrogate, nothing above U+10FFFF). A \<^verbatim>\<open>String\<close> is its bytes.
\<close>

definition utf8_cont :: "u8 \<Rightarrow> bool" where
  "utf8_cont b \<longleftrightarrow> 0x80 \<le> b \<and> b \<le> 0xbf"

fun utf8_valid :: "bytes \<Rightarrow> bool" where
  "utf8_valid [] = True"
| "utf8_valid (a # bs) =
     (if a \<le> 0x7f then utf8_valid bs
      else if 0xc2 \<le> a \<and> a \<le> 0xdf then
        (case bs of b # bs' \<Rightarrow> utf8_cont b \<and> utf8_valid bs' | _ \<Rightarrow> False)
      else if 0xe0 \<le> a \<and> a \<le> 0xef then
        (case bs of b # c # bs' \<Rightarrow> utf8_cont b \<and> (a = 0xe0 \<longrightarrow> 0xa0 \<le> b) \<and> (a = 0xed \<longrightarrow> b \<le> 0x9f)
             \<and> utf8_cont c \<and> utf8_valid bs' | _ \<Rightarrow> False)
      else if 0xf0 \<le> a \<and> a \<le> 0xf4 then
        (case bs of b # c # d # bs' \<Rightarrow> utf8_cont b \<and> (a = 0xf0 \<longrightarrow> 0x90 \<le> b) \<and> (a = 0xf4 \<longrightarrow> b \<le> 0x8f)
             \<and> utf8_cont c \<and> utf8_cont d \<and> utf8_valid bs' | _ \<Rightarrow> False)
      else False)"

definition read_text :: "(bytes \<times> IntWidth) reader" where
  "read_text data start =
     rbind (decode_initial data start) (\<lambda>((major, ai), offset).
     if major \<noteq> MAJOR_TEXT then Err (UnexpectedCborType start ''text string'' major)
     else if ai = AI_INDEFINITE
     then Err (InvalidCborStructure start ''indefinite-length text string not supported'')
     else rbind (decode_argument data offset ai start) (\<lambda>((len, width), offset).
          rbind (read_payload data offset (unat len)) (\<lambda>(raw, offset).
          if utf8_valid raw then Ok ((raw, width), offset)
          else Err (InvalidCborStructure start ''invalid UTF-8 in text string''))))"

definition read_bool :: "bool reader" where
  "read_bool data start =
     rbind (read_byte data start) (\<lambda>(b, offset).
     if b = 0xf4 then Ok (False, offset)
     else if b = 0xf5 then Ok (True, offset)
     else Err (InvalidCborStructure start ''expected CBOR boolean (0xf4/0xf5)''))"

definition read_array_header :: "ContainerEncoding reader" where
  "read_array_header data start =
     rbind (decode_initial data start) (\<lambda>((major, ai), offset).
     if major \<noteq> MAJOR_ARRAY then Err (UnexpectedCborType start ''array'' major)
     else if ai = AI_INDEFINITE then Ok (Indefinite, offset)
     else rbind (decode_argument data offset ai start) (\<lambda>((count, width), offset).
          Ok (Definite count width, offset)))"

definition read_map_header :: "ContainerEncoding reader" where
  "read_map_header data start =
     rbind (decode_initial data start) (\<lambda>((major, ai), offset).
     if major \<noteq> MAJOR_MAP then Err (UnexpectedCborType start ''map'' major)
     else if ai = AI_INDEFINITE then Ok (Indefinite, offset)
     else rbind (decode_argument data offset ai start) (\<lambda>((count, width), offset).
          Ok (Definite count width, offset)))"

definition read_tag :: "(u64 \<times> IntWidth) reader" where
  "read_tag data start =
     rbind (decode_initial data start) (\<lambda>((major, ai), offset).
     if major \<noteq> MAJOR_TAG then Err (UnexpectedCborType start ''tag'' major)
     else decode_argument data offset ai start)"

definition read_any_int :: "(u64 \<times> bool \<times> IntWidth) reader" where
  "read_any_int data start =
     rbind (decode_initial data start) (\<lambda>((major, ai), offset).
     if major = MAJOR_UNSIGNED
     then rbind (decode_argument data offset ai start) (\<lambda>((val, width), offset). Ok ((val, False, width), offset))
     else if major = MAJOR_NEGATIVE
     then rbind (decode_argument data offset ai start) (\<lambda>((val, width), offset). Ok ((val, True, width), offset))
     else Err (UnexpectedCborType start ''integer'' major))"

definition is_break :: "bytes \<Rightarrow> usize \<Rightarrow> (bool, CodecError) result" where
  "is_break data offset = rbind (peek_byte data offset) (\<lambda>b. Ok (b = BREAK_BYTE))"

section \<open>Skipping\<close>

text \<open>
  The stack of items still owed by each open container, the innermost first (the source
  pushes and pops at the end of a vector); \<open>None\<close> is a container that ends with a break.
\<close>

type_synonym owed = "u128 option list"

definition skip_bytes :: "bytes \<Rightarrow> usize \<Rightarrow> usize \<Rightarrow> (usize, CodecError) result" where
  "skip_bytes data offset n =
     (if length data < offset + n then Err (UnexpectedEof offset n) else Ok (offset + n))"

definition skip_simple :: "bytes \<Rightarrow> usize \<Rightarrow> u8 \<Rightarrow> usize \<Rightarrow> (usize, CodecError) result" where
  "skip_simple data offset ai start =
     (if ai \<le> 23 then Ok offset
      else if ai = AI_ONE_BYTE then rbind (read_byte data offset) (\<lambda>(_, offset). Ok offset)
      else if ai = AI_TWO_BYTES then skip_bytes data offset 2
      else if ai = AI_FOUR_BYTES then skip_bytes data offset 4
      else if ai = AI_EIGHT_BYTES then skip_bytes data offset 8
      else if ai = AI_INDEFINITE
      then Err (InvalidCborStructure start ''unexpected break code outside indefinite container'')
      else Err (InvalidCborStructure start ''reserved additional info in simple/float''))"

definition skip_head :: "bytes \<Rightarrow> usize \<Rightarrow> owed \<Rightarrow> (usize \<times> owed, CodecError) result" where
  "skip_head data start owed =
     rbind (decode_initial data start) (\<lambda>((major, ai), offset).
     if major = MAJOR_UNSIGNED \<or> major = MAJOR_NEGATIVE then
       (if ai < AI_ONE_BYTE then Ok (offset, owed)
        else rbind (decode_argument data offset ai start) (\<lambda>(_, offset). Ok (offset, owed)))
     else if major = MAJOR_BYTES \<or> major = MAJOR_TEXT then
       (if ai = AI_INDEFINITE then Ok (offset, None # owed)
        else rbind (decode_argument data offset ai start) (\<lambda>((len, _), offset).
             rbind (skip_bytes data offset (unat len)) (\<lambda>offset. Ok (offset, owed))))
     else if major = MAJOR_ARRAY then
       (if ai = AI_INDEFINITE then Ok (offset, None # owed)
        else rbind (decode_argument data offset ai start) (\<lambda>((count, _), offset).
             Ok (offset, Some (ucast count) # owed)))
     else if major = MAJOR_MAP then
       (if ai = AI_INDEFINITE then Ok (offset, None # owed)
        else rbind (decode_argument data offset ai start) (\<lambda>((count, _), offset).
             Ok (offset, Some (ucast count * 2) # owed)))
     else if major = MAJOR_TAG then
       rbind (decode_argument data offset ai start) (\<lambda>(_, offset). Ok (offset, Some 1 # owed))
     else rbind (skip_simple data offset ai start) (\<lambda>offset. Ok (offset, owed)))"

text \<open>
  The inner loop: close the containers that owe nothing. \<open>None\<close> in the result: every container
  is closed and the walk is over.
\<close>

fun skip_unwind :: "bytes \<Rightarrow> usize \<Rightarrow> owed \<Rightarrow> (usize \<times> owed option, CodecError) result" where
  "skip_unwind data offset [] = Ok (offset, None)"
| "skip_unwind data offset (Some n # owed) =
     (if n = 0 then skip_unwind data offset owed else Ok (offset, Some (Some (n - 1) # owed)))"
| "skip_unwind data offset (None # owed) =
     rbind (peek_byte data offset) (\<lambda>b.
     if b = BREAK_BYTE then skip_unwind data (offset + 1) owed
     else Ok (offset, Some (None # owed)))"

text \<open>Every successful read moves forward and stays inside the data.\<close>

lemma peek_byte_Ok [result_simps]: "peek_byte data offset = Ok b \<longleftrightarrow> offset < length data \<and> b = data ! offset"
  by (auto simp: peek_byte_def)

lemma read_byte_Ok [result_simps]:
  "read_byte data offset = Ok (b, e) \<longleftrightarrow> offset < length data \<and> b = data ! offset \<and> e = offset + 1"
  by (auto simp: read_byte_def result_simps)

lemma decode_initial_Ok [result_simps]:
  "decode_initial data offset = Ok (p, e) \<longleftrightarrow>
     offset < length data \<and> e = offset + 1 \<and> p = (drop_bit 5 (data ! offset), data ! offset AND 0x1f)"
  by (auto simp: decode_initial_def result_simps)

lemma read_be_Ok [result_simps]:
  "read_be n data offset = Ok (v, e) \<longleftrightarrow>
     offset + n \<le> length data \<and> e = offset + n \<and> v = be_nat (take n (drop offset data))"
  by (auto simp: read_be_def)

lemma skip_bytes_Ok [result_simps]:
  "skip_bytes data offset n = Ok e \<longleftrightarrow> offset + n \<le> length data \<and> e = offset + n"
  by (auto simp: skip_bytes_def)

lemma decode_argument_bounds:
  "decode_argument data offset ai start = Ok (p, e) \<Longrightarrow> offset \<le> length data \<Longrightarrow> offset \<le> e \<and> e \<le> length data"
  by (auto simp: decode_argument_def result_simps split: if_splits)

lemma skip_simple_bounds:
  "skip_simple data offset ai start = Ok e \<Longrightarrow> offset \<le> length data \<Longrightarrow> offset \<le> e \<and> e \<le> length data"
  by (auto simp: skip_simple_def result_simps split: if_splits)

declare rbind_pair_Ok [result_simps]

lemma skip_head_bounds:
  assumes "skip_head data start owed = Ok (e, owed')"
  shows "start < e" and "e \<le> length data" 
proof -
  from assms obtain major ai offset where i: "decode_initial data start = Ok ((major, ai), offset)"
    unfolding skip_head_def by (auto simp: rbind_eq_Ok)
  then have o: "start < offset" "offset \<le> length data" by (auto simp: result_simps)
  have "offset \<le> e \<and> e \<le> length data"
    using assms o decode_argument_bounds [of data offset ai start] skip_simple_bounds [of data offset ai start]
    unfolding skip_head_def i rbind_simps prod.case
    by (auto simp: result_simps split: if_splits) 
  with o show "start < e" "e \<le> length data" by simp_all
qed

lemma skip_unwind_bounds:
  "skip_unwind data offset owed = Ok (e, r) \<Longrightarrow> offset \<le> length data \<Longrightarrow> offset \<le> e \<and> e \<le> length data"
  by (induction data offset owed rule: skip_unwind.induct) (auto simp: result_simps split: if_splits)

lemma rbind_cong [fundef_cong]:
  "r = r' \<Longrightarrow> (\<And>a. r' = Ok a \<Longrightarrow> f a = g a) \<Longrightarrow> rbind r f = rbind r' g"
  by (cases r') simp_all

text \<open>
  The outer loop: read one head, close what is complete, and go on while a container is open.
  Every round consumes at least one byte, so the loop ends.
\<close>

function skip_walk :: "bytes \<Rightarrow> usize \<Rightarrow> owed \<Rightarrow> (usize, CodecError) result" where
  "skip_walk data offset owed =
     rbind (skip_head data offset owed) (\<lambda>(offset, owed).
     rbind (skip_unwind data offset owed) (\<lambda>(offset, remaining).
     case remaining of
       None \<Rightarrow> Ok offset
     | Some owed \<Rightarrow> skip_walk data offset owed))"
  by pat_completeness auto
termination
proof (relation "measure (\<lambda>(data, offset, owed). length data - offset)", simp)
  fix data :: bytes and offset :: usize and owed :: owed and p offset1 owed1 q offset2 remaining owed2
  assume "skip_head data offset owed = Ok p" "(offset1, owed1) = p"
    and "skip_unwind data offset1 owed1 = Ok q" "(offset2, remaining) = q" "remaining = Some owed2"
  then have h: "skip_head data offset owed = Ok (offset1, owed1)"
    and u: "skip_unwind data offset1 owed1 = Ok (offset2, remaining)" by simp_all
  note b = skip_head_bounds [OF h]
  have "offset1 \<le> offset2" using skip_unwind_bounds [OF u] b by simp
  with b have "length data - offset2 < length data - offset" by linarith
  then show "((data, offset2, owed2), data, offset, owed) \<in> measure (\<lambda>(data, offset, owed). length data - offset)"
    by simp
qed

declare skip_walk.simps [simp del]

definition skip_item :: "(usize \<times> usize) reader" where
  "skip_item data start = rbind (skip_walk data start []) (\<lambda>offset. Ok ((start, offset), offset))"

section \<open>Writing\<close>

definition canonical_width :: "u64 \<Rightarrow> IntWidth" where
  "canonical_width value =
     (if value \<le> 23 then Inline else if value \<le> 0xff then I8 else if value \<le> 0xffff then I16
      else if value \<le> 0xffffffff then I32 else I64)"

definition write_argument :: "bytes \<Rightarrow> u8 \<Rightarrow> u64 \<Rightarrow> IntWidth \<Rightarrow> bytes" where
  "write_argument buf major value width =
     (let m = push_bit 5 major in
      case width of
        Inline \<Rightarrow> buf @ [m OR ucast value]
      | I8 \<Rightarrow> buf @ [m OR AI_ONE_BYTE] @ [ucast value]
      | I16 \<Rightarrow> buf @ [m OR AI_TWO_BYTES] @ be_bytes 2 (unat (ucast value :: u16))
      | I32 \<Rightarrow> buf @ [m OR AI_FOUR_BYTES] @ be_bytes 4 (unat (ucast value :: u32))
      | I64 \<Rightarrow> buf @ [m OR AI_EIGHT_BYTES] @ be_bytes 8 (unat value))"

definition write_uint_canonical :: "bytes \<Rightarrow> u64 \<Rightarrow> bytes" where
  "write_uint_canonical buf value = write_argument buf MAJOR_UNSIGNED value (canonical_width value)"

definition write_uint :: "bytes \<Rightarrow> u64 \<Rightarrow> IntWidth \<Rightarrow> bytes" where
  "write_uint buf value width = write_argument buf MAJOR_UNSIGNED value width"

definition write_bytes_canonical :: "bytes \<Rightarrow> bytes \<Rightarrow> bytes" where
  "write_bytes_canonical buf bytes =
     (let len = word_of_nat (length bytes) in
      write_argument buf MAJOR_BYTES len (canonical_width len) @ bytes)"

definition write_bytes :: "bytes \<Rightarrow> bytes \<Rightarrow> IntWidth \<Rightarrow> bytes" where
  "write_bytes buf bytes width = write_argument buf MAJOR_BYTES (word_of_nat (length bytes)) width @ bytes"

definition write_text_canonical :: "bytes \<Rightarrow> bytes \<Rightarrow> bytes" where
  "write_text_canonical buf text =
     (let len = word_of_nat (length text) in
      write_argument buf MAJOR_TEXT len (canonical_width len) @ text)"

definition write_bool :: "bytes \<Rightarrow> bool \<Rightarrow> bytes" where
  "write_bool buf b = buf @ [if b then 0xf5 else 0xf4]"

definition write_array_header :: "bytes \<Rightarrow> ContainerEncoding \<Rightarrow> bytes" where
  "write_array_header buf encoding =
     (case encoding of
        Definite count width \<Rightarrow> write_argument buf MAJOR_ARRAY count width
      | Indefinite \<Rightarrow> buf @ [push_bit 5 MAJOR_ARRAY OR AI_INDEFINITE])"

definition write_map_header :: "bytes \<Rightarrow> ContainerEncoding \<Rightarrow> bytes" where
  "write_map_header buf encoding =
     (case encoding of
        Definite count width \<Rightarrow> write_argument buf MAJOR_MAP count width
      | Indefinite \<Rightarrow> buf @ [push_bit 5 MAJOR_MAP OR AI_INDEFINITE])"

definition write_tag :: "bytes \<Rightarrow> u64 \<Rightarrow> IntWidth \<Rightarrow> bytes" where
  "write_tag buf value width = write_argument buf MAJOR_TAG value width"

definition write_break :: "bytes \<Rightarrow> bytes" where
  "write_break buf = buf @ [BREAK_BYTE]"

definition write_null :: "bytes \<Rightarrow> bytes" where
  "write_null buf = buf @ [0xf6]"

definition write_positive_bignum :: "bytes \<Rightarrow> bytes \<Rightarrow> bytes" where
  "write_positive_bignum buf value =
     (let start = (if list_ex (\<lambda>b. b \<noteq> 0) value then length (takeWhile (\<lambda>b. b = 0) value) else length value - 1)
      in write_bytes_canonical (write_tag buf 2 (canonical_width 2)) (drop start value))"

definition write_hfc_bound :: "bytes \<Rightarrow> u64 \<Rightarrow> u64 \<Rightarrow> u128 \<Rightarrow> bytes" where
  "write_hfc_bound buf epoch slot relative_time_pico =
     (let buf = write_array_header buf (Definite 3 (canonical_width 3));
          buf = (if relative_time_pico = 0 then write_uint_canonical buf 0
                 else write_positive_bignum buf (be_bytes 16 (unat relative_time_pico)))
      in write_uint_canonical (write_uint_canonical buf slot) epoch)"

definition write_hfc_past :: "bytes \<Rightarrow> u64 \<Rightarrow> u64 \<Rightarrow> u128 \<Rightarrow> u64 \<Rightarrow> u64 \<Rightarrow> u128 \<Rightarrow> bytes" where
  "write_hfc_past buf start_epoch start_slot start_time_pico end_epoch end_slot end_time_pico =
     write_hfc_bound
       (write_hfc_bound (write_array_header buf (Definite 2 (canonical_width 2))) start_epoch start_slot start_time_pico)
       end_epoch end_slot end_time_pico"

section \<open>Heads survive the wire\<close>

text \<open>The values a width can carry.\<close>

definition width_fits :: "u64 \<Rightarrow> IntWidth \<Rightarrow> bool" where
  "width_fits v w \<longleftrightarrow>
     (case w of Inline \<Rightarrow> v \<le> 23 | I8 \<Rightarrow> v \<le> 0xff | I16 \<Rightarrow> v \<le> 0xffff | I32 \<Rightarrow> v \<le> 0xffffffff | I64 \<Rightarrow> True)"

definition width_size :: "IntWidth \<Rightarrow> nat" where
  "width_size w = (case w of Inline \<Rightarrow> 1 | I8 \<Rightarrow> 2 | I16 \<Rightarrow> 3 | I32 \<Rightarrow> 5 | I64 \<Rightarrow> 9)"

lemma head_byte:
  fixes major ai :: u8
  assumes "major \<le> 7" and "ai \<le> 31"
  shows "drop_bit 5 (push_bit 5 major OR ai) = major" and "(push_bit 5 major OR ai) AND 0x1f = ai"
proof -
  have m: "major \<in> {0, 1, 2, 3, 4, 5, 6, 7}"
    using assms(1) by (auto simp: word_le_nat_alt word_unat_eq_iff)
  have z: "drop_bit 5 ai = 0"
    using assms(2) by (simp add: word_unat_eq_iff drop_bit_eq_div unat_div word_le_nat_alt)
  have a: "ai AND 0x1f = ai"
  proof -
    have "(0x1f :: u8) = mask 5" by (simp add: mask_eq_exp_minus_1)
    then have "ai AND 0x1f = take_bit 5 ai" by (simp add: take_bit_eq_mask)
    also have "\<dots> = ai" using assms(2) by (simp add: word_unat_eq_iff unsigned_take_bit_eq take_bit_nat_def word_le_nat_alt)
    finally show ?thesis .
  qed
  show "drop_bit 5 (push_bit 5 major OR ai) = major" using m z by auto
  show "(push_bit 5 major OR ai) AND 0x1f = ai" using m a by (auto simp: bit.conj_disj_distrib2)
qed

definition width_ai :: "u64 \<Rightarrow> IntWidth \<Rightarrow> u8" where
  "width_ai v w = (case w of Inline \<Rightarrow> ucast v | I8 \<Rightarrow> AI_ONE_BYTE | I16 \<Rightarrow> AI_TWO_BYTES
     | I32 \<Rightarrow> AI_FOUR_BYTES | I64 \<Rightarrow> AI_EIGHT_BYTES)"

definition width_payload :: "u64 \<Rightarrow> IntWidth \<Rightarrow> bytes" where
  "width_payload v w = be_bytes (width_size w - 1) (unat v)"

lemma unat_ucast_narrow: "unat (v :: 'a::len word) < 2 ^ LENGTH('b) \<Longrightarrow> unat (ucast v :: 'b::len word) = unat v"
  by (simp add: unsigned_ucast_eq take_bit_nat_eq_self)

lemma unat_u8_to_u64 [simp]: "unat (ucast (b :: u8) :: u64) = unat b"
  using unsigned_less [of b, where 'a = nat] by (intro unat_ucast_narrow) simp

lemma write_argument_eq:
  assumes "width_fits v w"
  shows "write_argument buf major v w = buf @ (push_bit 5 major OR width_ai v w) # width_payload v w"
proof -
  have "unat (ucast v :: u16) = unat v" if "v \<le> 0xffff"
    using that by (intro unat_ucast_narrow) (simp add: word_le_nat_alt)
  moreover have "unat (ucast v :: u32) = unat v" if "v \<le> 0xffffffff"
    using that by (intro unat_ucast_narrow) (simp add: word_le_nat_alt)
  moreover have "(ucast v :: u8) = word_of_nat (unat v)" by (simp add: of_nat_unat)
  ultimately show ?thesis using assms
    by (cases w) (simp_all add: write_argument_def width_payload_def width_ai_def width_size_def width_fits_def)
qed

lemma width_ai_bound: "width_fits v w \<Longrightarrow> width_ai v w \<le> 27"
proof (cases w)
  case Inline
  assume "width_fits v w"
  with Inline have v: "unat v \<le> 23" by (simp add: width_fits_def word_le_nat_alt)
  then have "unat (ucast v :: u8) = unat v" by (intro unat_ucast_narrow) simp
  with v Inline show ?thesis by (simp add: width_ai_def word_le_nat_alt)
qed (simp_all add: width_ai_def cbor_consts)

lemma length_write_argument:
  "width_fits v w \<Longrightarrow> length (write_argument buf major v w) = length buf + width_size w"
  by (cases w) (simp_all add: write_argument_eq width_payload_def width_size_def)

lemma decode_argument_written:
  assumes "width_fits v w" and "data = pre @ width_payload v w @ rest" and "offset = length pre"
  shows "decode_argument data offset (width_ai v w) start = Ok ((v, w), offset + width_size w - 1)"
proof -
  have be: "be_nat (width_payload v w) = unat v" if "unat v < 256 ^ (width_size w - 1)"
    using that by (simp add: width_payload_def be_nat_be_bytes)
  have len: "length (width_payload v w) = width_size w - 1" by (simp add: width_payload_def)
  have wu: "word_of_nat (unat v) = v" by simp
  show ?thesis
  proof (cases w)
    case Inline
    then have v: "unat v \<le> 23" using assms(1) by (simp add: width_fits_def word_le_nat_alt)
    then have u: "unat (ucast v :: u8) = unat v" by (intro unat_ucast_narrow) simp
    have "(ucast (ucast v :: u8) :: u64) = v"
      by (simp only: word_unat_eq_iff unat_u8_to_u64 u)
    with Inline v u show ?thesis by (simp add: decode_argument_def width_ai_def width_size_def word_le_nat_alt)
  next
    case I8
    then have v: "unat v < 256" using assms(1) by (simp add: width_fits_def word_le_nat_alt)
    have "width_payload v w = [ucast v]" by (simp add: width_payload_def width_size_def I8 of_nat_unat)
    moreover have "unat (ucast v :: u8) = unat v" using v by (intro unat_ucast_narrow) simp
    then have "(ucast (ucast v :: u8) :: u64) = v" by (simp only: word_unat_eq_iff unat_u8_to_u64)
    ultimately show ?thesis using assms(2,3) I8
      by (simp add: decode_argument_def width_ai_def width_size_def read_byte_def peek_byte_def cbor_consts)
  next
    case I16
    then have "unat v < 256 ^ 2" using assms(1) by (simp add: width_fits_def word_le_nat_alt)
    then show ?thesis using assms(2,3) I16 be len wu
      by (simp add: decode_argument_def width_ai_def width_size_def read_be_def cbor_consts)
  next
    case I32
    then have "unat v < 256 ^ 4" using assms(1) by (simp add: width_fits_def word_le_nat_alt)
    then show ?thesis using assms(2,3) I32 be len wu
      by (simp add: decode_argument_def width_ai_def width_size_def read_be_def cbor_consts)
  next
    case I64
    have "unat v < 256 ^ 8" using unsigned_less [of v, where 'a = nat] by simp
    then show ?thesis using assms(2,3) I64 be len wu
      by (simp add: decode_argument_def width_ai_def width_size_def read_be_def cbor_consts)
  qed
qed

lemma decode_initial_written:
  assumes "width_fits v w" and "major \<le> 7"
  shows "decode_initial (write_argument buf major v w @ rest) (length buf) = Ok ((major, width_ai v w), length buf + 1)"
proof -
  have "width_ai v w \<le> 31" using width_ai_bound [OF assms(1)] by (simp add: word_le_nat_alt)
  from head_byte [OF assms(2) this] show ?thesis
    by (simp add: decode_initial_def read_byte_def peek_byte_def write_argument_eq [OF assms(1)] nth_append)
qed

lemma decode_argument_after_initial:
  assumes "width_fits v w"
  shows "decode_argument (write_argument buf major v w @ rest) (Suc (length buf)) (width_ai v w) start
    = Ok ((v, w), length (write_argument buf major v w))"
proof -
  have "write_argument buf major v w @ rest
      = (buf @ [push_bit 5 major OR width_ai v w]) @ width_payload v w @ rest"
    by (simp add: write_argument_eq [OF assms])
  moreover have "Suc (length buf) + width_size w - 1 = length (write_argument buf major v w)"
    unfolding length_write_argument [OF assms] by (cases w) (simp_all add: width_size_def)
  ultimately show ?thesis
    using decode_argument_written [OF assms,
        of _ "buf @ [push_bit 5 major OR width_ai v w]" rest "Suc (length buf)" start] by simp
qed

lemma width_ai_definite: "width_fits v w \<Longrightarrow> width_ai v w \<noteq> AI_INDEFINITE"
  using width_ai_bound [of v w] by (auto simp: cbor_consts)

lemma canonical_width_fits: "width_fits v (canonical_width v)"
  by (simp add: canonical_width_def width_fits_def)

lemmas written_head_simps = decode_initial_written decode_argument_after_initial width_ai_definite canonical_width_fits

text \<open>The converse: what was read is exactly what writing it again produces.\<close>

lemma initial_byte_split: "push_bit 5 (drop_bit 5 b) OR (b AND 0x1f) = b" for b :: u8
proof -
  have "(0x1f :: u8) = mask 5" by (simp add: mask_eq_exp_minus_1)
  then have "b AND 0x1f = take_bit 5 b" by (simp add: take_bit_eq_mask)
  then show ?thesis by (auto intro!: bit_eqI simp: bit_simps)
qed

lemma slice_Suc: "n < length xs \<Longrightarrow> take (Suc k) (drop n xs) = xs ! n # take k (drop (Suc n) xs)"
  by (simp add: Cons_nth_drop_Suc [symmetric])

lemma be_bytes_of_slice:
  assumes "length bs = n" and "n \<le> 8"
  shows "be_bytes n (unat (word_of_nat (be_nat bs) :: u64)) = bs" and "unat (word_of_nat (be_nat bs) :: u64) < 256 ^ n"
proof -
  have "be_nat bs < 256 ^ n" using be_nat_less [of bs] assms by simp
  moreover have "(256 :: nat) ^ n \<le> 256 ^ 8" using assms(2) by (intro power_increasing) simp_all
  ultimately have "be_nat bs < 2 ^ 64" by simp
  then have "unat (word_of_nat (be_nat bs) :: u64) = be_nat bs" by (simp add: unat_of_nat)
  with be_bytes_be_nat [of bs] \<open>be_nat bs < 256 ^ n\<close> assms
  show "be_bytes n (unat (word_of_nat (be_nat bs) :: u64)) = bs" "unat (word_of_nat (be_nat bs) :: u64) < 256 ^ n"
    by simp_all
qed

lemma decode_argument_rewrites:
  assumes "decode_argument data offset ai start = Ok ((v, w), e)" and "offset \<le> length data"
  shows "width_fits v w" and "width_ai v w = ai" and "e = offset + width_size w - 1"
    and "take (e - offset) (drop offset data) = width_payload v w" and "e \<le> length data"
proof -
  have wide: "width_fits v w \<and> width_ai v w = ai \<and> e = offset + width_size w - 1
      \<and> take (e - offset) (drop offset data) = width_payload v w"
    if "read_be n data offset = Ok (x, e)" "v = word_of_nat x" "(n, w, ai) \<in> {(2, I16, 25), (4, I32, 26), (8, I64, 27)}"
    for n x
  proof -
    from that have x: "x = be_nat (take n (drop offset data))" "e = offset + n" "offset + n \<le> length data"
      by (auto simp: result_simps)
    with that(3) have "length (take n (drop offset data)) = n" "n \<le> 8" by auto
    from be_bytes_of_slice [OF this] that x show ?thesis
      by (auto simp: width_fits_def width_ai_def width_size_def width_payload_def cbor_consts word_le_nat_alt)
  qed
  have inline: "width_fits v w \<and> width_ai v w = ai" if "v = ucast ai" "w = Inline" "ai \<le> 23"
  proof -
    have "unat (ucast (ucast ai :: u64) :: u8) = unat ai"
      using unsigned_less [of ai, where 'a = nat] by (subst unat_ucast_narrow) simp_all
    then have "(ucast (ucast ai :: u64) :: u8) = ai" by (simp only: word_unat_eq_iff)
    with that show ?thesis by (simp add: width_fits_def width_ai_def word_le_nat_alt)
  qed
  have one: "width_fits v w \<and> width_ai v w = ai \<and> take 1 (drop offset data) = width_payload v w"
    if "v = ucast (data ! offset)" "w = I8" "ai = 24" "offset < length data"
  proof -
    have "unat (data ! offset) < 256" using unsigned_less [of "data ! offset", where 'a = nat] by simp
    moreover have "take 1 (drop offset data) = [data ! offset]" using that(4) by (simp add: slice_Suc)
    ultimately show ?thesis using that
      by (simp add: width_fits_def width_ai_def width_payload_def width_size_def word_le_nat_alt cbor_consts)
  qed
  have "width_fits v w \<and> width_ai v w = ai \<and> e = offset + width_size w - 1
      \<and> take (e - offset) (drop offset data) = width_payload v w"
  proof (cases "ai \<le> 23")
    case True
    then show ?thesis using assms(1) inline
      by (auto simp: decode_argument_def width_size_def width_payload_def)
  next
    case False
    then show ?thesis using assms(1) one wide [of 2] wide [of 4] wide [of 8]
      by (auto simp: decode_argument_def cbor_consts rbind_pair_Ok read_byte_Ok width_size_def split: if_splits)
  qed
  then show "width_fits v w" "width_ai v w = ai" "e = offset + width_size w - 1"
    "take (e - offset) (drop offset data) = width_payload v w" by blast+
  show "e \<le> length data" using decode_argument_bounds [OF assms] by simp
qed

lemma head_slice:
  assumes "decode_initial data start = Ok ((major, ai), offset)"
    and "decode_argument data offset ai start = Ok ((v, w), e)"
  shows "take (e - start) (drop start data) = write_argument [] major v w"
    and "width_fits v w" and "start + width_size w = e" and "e \<le> length data"
proof -
  from assms(1) have i: "start < length data" "offset = Suc start" "major = drop_bit 5 (data ! start)"
      "ai = data ! start AND 0x1f" by (auto simp: result_simps)
  then have "offset \<le> length data" by simp
  note r = decode_argument_rewrites [OF assms(2) this]
  have sz: "0 < width_size w" by (cases w) (simp_all add: width_size_def)
  with r(3) i(2) show e: "start + width_size w = e" by simp
  with sz i(2) have "e - start = Suc (e - offset)" by simp
  then have "take (e - start) (drop start data) = data ! start # width_payload v w"
    using i(1,2) r(4) by (simp add: slice_Suc)
  also have "data ! start = push_bit 5 major OR width_ai v w"
    unfolding r(2) i(3,4) by (rule initial_byte_split [symmetric])
  finally show "take (e - start) (drop start data) = write_argument [] major v w"
    by (simp add: write_argument_eq [OF r(1)])
  show "width_fits v w" "e \<le> length data" by (fact r)+
qed

lemma write_argument_append: "write_argument buf major v w = buf @ write_argument [] major v w"
  by (cases w) (simp_all add: write_argument_def Let_def)

lemma width_size_pos: "0 < width_size w"
  by (cases w) (simp_all add: width_size_def)

lemma read_bytes_written:
  assumes "length bytes < 2 ^ 64" and "width_fits (word_of_nat (length bytes)) w"
  shows "read_bytes (write_bytes buf bytes w @ rest) (length buf) = Ok ((bytes, w), length (write_bytes buf bytes w))"
proof -
  have "unat (word_of_nat (length bytes) :: u64) = length bytes" using assms(1) by (simp add: unat_of_nat)
  moreover have "MAJOR_BYTES \<le> 7" by (simp add: cbor_consts)
  ultimately show ?thesis
    by (simp add: read_bytes_def write_bytes_def read_payload_def decode_initial_written [OF assms(2)]
        decode_argument_after_initial [OF assms(2)] width_ai_definite [OF assms(2)])
qed

lemma read_bytes_exact:
  assumes "read_bytes data start = Ok ((bs, w), e)"
  shows "start < e" and "e \<le> length data" and "take (e - start) (drop start data) = write_bytes [] bs w"
    and "length bs < 2 ^ 64" and "width_fits (word_of_nat (length bs)) w"
    and "length bs \<le> e" and "take (length bs) (drop (e - length bs) data) = bs"
proof -
  from assms obtain ai offset n h where i: "decode_initial data start = Ok ((MAJOR_BYTES, ai), offset)"
      "decode_argument data offset ai start = Ok ((n, w), h)"
      and r: "bs = take (unat n) (drop h data)" "e = h + unat n" "h + unat n \<le> length data"
    by (auto simp: read_bytes_def read_payload_def rbind_pair_Ok split: if_splits)
  note head = head_slice [OF i]
  have len: "length bs = unat n" using r by simp
  have n: "word_of_nat (length bs) = n" by (simp add: len)
  have sh: "start < h" using head(3) width_size_pos [of w] by simp
  then show "start < e" "e \<le> length data" "length bs \<le> e" using r len by simp_all
  show "length bs < 2 ^ 64" using len unsigned_less [of n, where 'a = nat] by simp
  show "width_fits (word_of_nat (length bs)) w" using head(2) n by simp
  show "take (length bs) (drop (e - length bs) data) = bs" using r len by simp
  have "e - start = (h - start) + unat n" "drop h data = drop (h - start) (drop start data)"
    using sh r by simp_all
  then have "take (e - start) (drop start data) = take (h - start) (drop start data) @ bs"
    using r(1) by (simp only: take_add)
  then show "take (e - start) (drop start data) = write_bytes [] bs w"
    using head(1) n by (simp add: write_bytes_def)
qed

text \<open>A bignum keeps its value and starts with a non-zero byte unless it is zero.\<close>

lemma be_nat_drop_zeros: "be_nat (dropWhile (\<lambda>b. b = 0) bs) = be_nat bs"
  by (induction bs) (simp_all add: be_nat_def)

lemma write_positive_bignum_minimal:
  assumes "be_nat value \<noteq> 0"
  obtains bs where "write_positive_bignum buf value = write_bytes_canonical (write_tag buf 2 (canonical_width 2)) bs"
    and "be_nat bs = be_nat value" and "hd bs \<noteq> 0"
proof -
  have "be_nat (dropWhile (\<lambda>b. b = 0) value) \<noteq> 0" using assms by (simp add: be_nat_drop_zeros)
  then have ne: "dropWhile (\<lambda>b. b = 0) value \<noteq> []" by (metis be_nat_Nil)
  then have "list_ex (\<lambda>b. b \<noteq> 0) value" by (auto simp: list_ex_iff dropWhile_eq_Nil_conv)
  then have "write_positive_bignum buf value
      = write_bytes_canonical (write_tag buf 2 (canonical_width 2)) (dropWhile (\<lambda>b. b = 0) value)"
    by (simp add: write_positive_bignum_def Let_def dropWhile_eq_drop)
  then show ?thesis by (rule that) (use hd_dropWhile [OF ne] in \<open>simp_all add: be_nat_drop_zeros\<close>)
qed

section \<open>Properties\<close>

text \<open>
  Heads survive the wire: an integer, tag, array or map header written with a width that holds
  its value is read back as that value and width, whatever precedes and follows it, and the
  reader stops right after it; indefinite headers and booleans are read back as well. The canonical
  width always holds the value and no width that holds it is shorter.
\<close>

theorem cbor_head_roundtrip:
  assumes "width_fits v w"
  shows "read_uint (write_uint buf v w @ rest) (length buf) = Ok ((v, w), length (write_uint buf v w))
    \<and> read_any_int (write_uint buf v w @ rest) (length buf) = Ok ((v, False, w), length (write_uint buf v w))
    \<and> read_tag (write_tag buf v w @ rest) (length buf) = Ok ((v, w), length (write_tag buf v w))
    \<and> read_array_header (write_array_header buf (Definite v w) @ rest) (length buf)
        = Ok (Definite v w, length (write_array_header buf (Definite v w)))
    \<and> read_map_header (write_map_header buf (Definite v w) @ rest) (length buf)
        = Ok (Definite v w, length (write_map_header buf (Definite v w)))
    \<and> read_array_header (write_array_header buf Indefinite @ rest) (length buf) = Ok (Indefinite, length buf + 1)
    \<and> read_map_header (write_map_header buf Indefinite @ rest) (length buf) = Ok (Indefinite, length buf + 1)
    \<and> read_bool (write_bool buf b @ rest) (length buf) = Ok (b, length buf + 1)
    \<and> width_fits v (canonical_width v) \<and> width_size (canonical_width v) \<le> width_size w"
proof -
  have m: "MAJOR_UNSIGNED \<le> 7" "MAJOR_TAG \<le> 7" "MAJOR_ARRAY \<le> 7" "MAJOR_MAP \<le> 7" by (simp_all add: cbor_consts)
  have minimal: "width_size (canonical_width v) \<le> width_size w"
    using assms by (cases w) (auto simp: canonical_width_def width_size_def width_fits_def word_le_nat_alt)
  note simps = decode_argument_after_initial [OF assms] width_ai_definite [OF assms]
    decode_initial_written [OF assms m(1)] decode_initial_written [OF assms m(2)]
    decode_initial_written [OF assms m(3)] decode_initial_written [OF assms m(4)]
  have indef: "decode_initial (buf @ [push_bit 5 major OR AI_INDEFINITE] @ rest) (length buf)
      = Ok ((major, AI_INDEFINITE), Suc (length buf))" if "major \<le> 7" for major
    using head_byte [OF that, of AI_INDEFINITE]
    by (simp add: decode_initial_def read_byte_def peek_byte_def nth_append) (simp add: cbor_consts)
  show ?thesis
    using minimal canonical_width_fits [of v] indef [OF m(3)] indef [OF m(4)]
    by (simp add: read_uint_def write_uint_def read_any_int_def read_tag_def write_tag_def read_array_header_def
        write_array_header_def read_map_header_def write_map_header_def simps read_bool_def write_bool_def
        read_byte_def peek_byte_def nth_append)
qed

theorem cbor_head_roundtrip_witness:
  "read_uint [0x19, 0x00, 0x05, 0xff] 0 = Ok ((5, I16), 3)"
proof -
  have "width_fits 5 I16" by (simp add: width_fits_def)
  moreover have "be_bytes 2 5 = [0, 5]" by (simp add: numeral_2_eq_2)
  ultimately show ?thesis using cbor_head_roundtrip [of 5 I16 "[]" "[0xff]"]
    by (simp add: write_uint_def write_argument_def cbor_consts)
qed

text \<open>
  Strings survive the wire: a byte string written with any width that holds its length, or with
  the canonical one, is read back unchanged with the reader right after it, and so is a text
  string whose bytes are UTF-8; a text string whose bytes are not UTF-8 is refused.
\<close>

theorem cbor_string_roundtrip:
  assumes "length bytes < 2 ^ 64" and "width_fits (word_of_nat (length bytes)) w"
  shows "read_bytes (write_bytes buf bytes w @ rest) (length buf)
        = Ok ((bytes, w), length (write_bytes buf bytes w))
    \<and> read_bytes (write_bytes_canonical buf bytes @ rest) (length buf)
        = Ok ((bytes, canonical_width (word_of_nat (length bytes))), length (write_bytes_canonical buf bytes))
    \<and> read_text (write_text_canonical buf bytes @ rest) (length buf)
        = (if utf8_valid bytes
           then Ok ((bytes, canonical_width (word_of_nat (length bytes))), length (write_text_canonical buf bytes))
           else Err (InvalidCborStructure (length buf) ''invalid UTF-8 in text string''))"
proof -
  let ?n = "word_of_nat (length bytes) :: u64"
  have n: "unat ?n = length bytes" using assms(1) by (simp add: unat_of_nat)
  have m: "MAJOR_BYTES \<le> 7" "MAJOR_TEXT \<le> 7" by (simp_all add: cbor_consts)
  have pay: "read_payload (h @ bytes @ rest) (length h) (length bytes) = Ok (bytes, length (h @ bytes))" for h
    by (simp add: read_payload_def)
  note c = canonical_width_fits [of ?n]
  note simps = decode_initial_written [OF assms(2) m(1)] decode_initial_written [OF c m(1)]
    decode_initial_written [OF c m(2)] decode_argument_after_initial [OF assms(2)] decode_argument_after_initial [OF c]
    width_ai_definite [OF assms(2)] width_ai_definite [OF c] n pay
  show ?thesis
    by (simp add: read_bytes_def write_bytes_def write_bytes_canonical_def read_text_def write_text_canonical_def
        Let_def simps)
qed

theorem cbor_string_roundtrip_witness:
  "read_bytes [0x43, 1, 2, 3] 0 = Ok (([1, 2, 3], Inline), 4)"
proof -
  have "width_fits (word_of_nat (length [1 :: u8, 2, 3])) Inline" by (simp add: width_fits_def)
  from cbor_string_roundtrip [OF _ this, of "[]" "[]"] show ?thesis
    by (simp add: write_bytes_def write_argument_def cbor_consts)
qed

text \<open>
  Reading keeps enough to reproduce the wire: when an integer, tag, definite container header or
  byte string is read, the bytes it consumed are inside the data and are exactly what
  writing the returned value with the returned width produces, also when the encoding on the wire
  is not the canonical one.
\<close>

theorem cbor_reread_is_verbatim:
  "(case read_uint data start of Err _ \<Rightarrow> True | Ok ((v, w), e) \<Rightarrow>
      start < e \<and> e \<le> length data \<and> take (e - start) (drop start data) = write_uint [] v w)
   \<and> (case read_tag data start of Err _ \<Rightarrow> True | Ok ((v, w), e) \<Rightarrow>
      start < e \<and> e \<le> length data \<and> take (e - start) (drop start data) = write_tag [] v w)
   \<and> (case read_array_header data start of Err _ \<Rightarrow> True | Ok (enc, e) \<Rightarrow>
      start < e \<and> e \<le> length data \<and> take (e - start) (drop start data) = write_array_header [] enc)
   \<and> (case read_map_header data start of Err _ \<Rightarrow> True | Ok (enc, e) \<Rightarrow>
      start < e \<and> e \<le> length data \<and> take (e - start) (drop start data) = write_map_header [] enc)
   \<and> (case read_bytes data start of Err _ \<Rightarrow> True | Ok ((bs, w), e) \<Rightarrow>
      start < e \<and> e \<le> length data \<and> take (e - start) (drop start data) = write_bytes [] bs w)"
  (is "?uint \<and> ?tag \<and> ?array \<and> ?map \<and> ?bytes")
proof (intro conjI)
  have grows: "start < e" if "start + width_size w = e" for w e using that by (cases w) (auto simp: width_size_def)
  have num: "start < e \<and> e \<le> length data \<and> take (e - start) (drop start data) = write_argument [] major v w"
    if "decode_initial data start = Ok ((major, ai), offset)" "decode_argument data offset ai start = Ok ((v, w), e)"
    for major ai offset v w e
    using head_slice [OF that] grows [OF head_slice(3) [OF that]] by blast
  have indef: "start < e \<and> e \<le> length data \<and> take (e - start) (drop start data) = [push_bit 5 major OR AI_INDEFINITE]"
    if "decode_initial data start = Ok ((major, AI_INDEFINITE), e)" for major e
    using that initial_byte_split [of "data ! start"] by (auto simp: result_simps slice_Suc)
  show ?uint using num [of MAJOR_UNSIGNED]
    by (auto simp: read_uint_def write_uint_def rbind_pair_Ok split: sum.splits if_splits)
  show ?tag using num [of MAJOR_TAG]
    by (auto simp: read_tag_def write_tag_def rbind_pair_Ok split: sum.splits if_splits)
  show ?array using num [of MAJOR_ARRAY] indef [of MAJOR_ARRAY]
    by (auto simp: read_array_header_def write_array_header_def rbind_pair_Ok split: sum.splits if_splits)
  show ?map using num [of MAJOR_MAP] indef [of MAJOR_MAP]
    by (auto simp: read_map_header_def write_map_header_def rbind_pair_Ok split: sum.splits if_splits)
  show ?bytes using read_bytes_exact [of data start]
    by (cases "read_bytes data start") auto
qed

end
