(* ===== verification/Cbor_Skip.thy ===== *)
theory Cbor_Skip
  imports Cbor
begin

text \<open>
  What \<open>skip_item\<close> accepts, as a grammar of encoded items over offsets, and the two envelopes
  that are built on it: \<^verbatim>\<open>ade_codec/src/cbor/tag24.rs\<close> (CBOR-in-CBOR) and
  \<^verbatim>\<open>envelope.rs\<close> (era tag and block). The grammar has two readings of an indefinite map: with
  \<open>pairs\<close> set, its items come in key/value pairs, as in the recursive formulation that
  \<^verbatim>\<open>skip_differential_tests.rs\<close> keeps as the reference; without it, they come one by one, as
  the iterative walk reads them.
\<close>

section \<open>Encoded items\<close>

definition simple_size :: "u8 \<Rightarrow> nat option" where
  "simple_size ai = (if ai \<le> 23 then Some 0 else if ai = 24 then Some 1 else if ai = 25 then Some 2
     else if ai = 26 then Some 4 else if ai = 27 then Some 8 else None)"

inductive
  cbor_item :: "bool \<Rightarrow> bytes \<Rightarrow> usize \<Rightarrow> usize \<Rightarrow> bool" and
  cbor_items :: "bool \<Rightarrow> bytes \<Rightarrow> nat \<Rightarrow> usize \<Rightarrow> usize \<Rightarrow> bool" and
  cbor_until_break :: "bool \<Rightarrow> bytes \<Rightarrow> usize \<Rightarrow> usize \<Rightarrow> bool" and
  cbor_pairs_until_break :: "bool \<Rightarrow> bytes \<Rightarrow> usize \<Rightarrow> usize \<Rightarrow> bool"
  for pairs :: bool and data :: bytes where
  integer: "decode_initial data s = Ok ((m, ai), p) \<Longrightarrow> m \<in> {0, 1} \<Longrightarrow>
     decode_argument data p ai s = Ok (vw, e) \<Longrightarrow> cbor_item pairs data s e"
| strings: "decode_initial data s = Ok ((m, ai), p) \<Longrightarrow> m \<in> {2, 3} \<Longrightarrow> ai \<noteq> 31 \<Longrightarrow>
     decode_argument data p ai s = Ok ((n, w), q) \<Longrightarrow> q + unat n \<le> length data \<Longrightarrow>
     cbor_item pairs data s (q + unat n)"
| indefinite: "decode_initial data s = Ok ((m, 31), p) \<Longrightarrow> m \<in> {2, 3, 4} \<or> m = 5 \<and> \<not> pairs \<Longrightarrow>
     cbor_until_break pairs data p e \<Longrightarrow> cbor_item pairs data s e"
| indefinite_map: "decode_initial data s = Ok ((5, 31), p) \<Longrightarrow> pairs \<Longrightarrow>
     cbor_pairs_until_break pairs data p e \<Longrightarrow> cbor_item pairs data s e"
| array: "decode_initial data s = Ok ((4, ai), p) \<Longrightarrow> ai \<noteq> 31 \<Longrightarrow>
     decode_argument data p ai s = Ok ((n, w), q) \<Longrightarrow> cbor_items pairs data (unat n) q e \<Longrightarrow> cbor_item pairs data s e"
| map: "decode_initial data s = Ok ((5, ai), p) \<Longrightarrow> ai \<noteq> 31 \<Longrightarrow>
     decode_argument data p ai s = Ok ((n, w), q) \<Longrightarrow> cbor_items pairs data (2 * unat n) q e \<Longrightarrow> cbor_item pairs data s e"
| tagged: "decode_initial data s = Ok ((6, ai), p) \<Longrightarrow>
     decode_argument data p ai s = Ok (vw, q) \<Longrightarrow> cbor_item pairs data q e \<Longrightarrow> cbor_item pairs data s e"
| simple: "decode_initial data s = Ok ((7, ai), p) \<Longrightarrow> simple_size ai = Some k \<Longrightarrow> p + k \<le> length data \<Longrightarrow>
     cbor_item pairs data s (p + k)"
| items_none: "cbor_items pairs data 0 s s"
| items_more: "cbor_item pairs data s p \<Longrightarrow> cbor_items pairs data n p e \<Longrightarrow> cbor_items pairs data (Suc n) s e"
| break_here: "s < length data \<Longrightarrow> data ! s = 0xff \<Longrightarrow> cbor_until_break pairs data s (s + 1)"
| break_later: "s < length data \<Longrightarrow> data ! s \<noteq> 0xff \<Longrightarrow> cbor_item pairs data s p \<Longrightarrow>
     cbor_until_break pairs data p e \<Longrightarrow> cbor_until_break pairs data s e"
| pairs_here: "s < length data \<Longrightarrow> data ! s = 0xff \<Longrightarrow> cbor_pairs_until_break pairs data s (s + 1)"
| pairs_later: "s < length data \<Longrightarrow> data ! s \<noteq> 0xff \<Longrightarrow> cbor_item pairs data s p \<Longrightarrow> cbor_item pairs data p q \<Longrightarrow>
     cbor_pairs_until_break pairs data q e \<Longrightarrow> cbor_pairs_until_break pairs data s e"

lemmas cbor_grammar_intros =
  cbor_item_cbor_items_cbor_until_break_cbor_pairs_until_break.intros
lemmas cbor_grammar_induct =
  cbor_item_cbor_items_cbor_until_break_cbor_pairs_until_break.inducts

inductive_simps items_0: "cbor_items pairs data 0 s e"
inductive_simps items_Suc: "cbor_items pairs data (Suc n) s e"
inductive_simps until_break_iff: "cbor_until_break pairs data s e"
inductive_simps pairs_until_break_iff: "cbor_pairs_until_break pairs data s e"
inductive_cases item_cases: "cbor_item pairs data s e"

inductive_simps item_iff: "cbor_item pairs data s e"

section \<open>The walk follows the grammar\<close>

text \<open>What the stack of open containers still expects from an offset on.\<close>

fun closes :: "bytes \<Rightarrow> usize \<Rightarrow> owed \<Rightarrow> usize \<Rightarrow> bool" where
  "closes data s [] e \<longleftrightarrow> e = s"
| "closes data s (Some n # owed) e \<longleftrightarrow> (\<exists>p. cbor_items False data (unat n) s p \<and> closes data p owed e)"
| "closes data s (None # owed) e \<longleftrightarrow> (\<exists>p. cbor_until_break False data s p \<and> closes data p owed e)"

lemma closes_append: "closes data s (os @ owed) e \<longleftrightarrow> (\<exists>p. closes data s os p \<and> closes data p owed e)"
proof (induction os arbitrary: s)
  case (Cons a os)
  then show ?case by (cases a) auto
qed simp

lemma skip_head_owed:
  "skip_head data s owed = rbind (skip_head data s []) (\<lambda>(h, os). Ok (h, os @ owed))"
proof (cases "decode_initial data s")
  case (Inr r)
  then obtain m ai p where r: "r = ((m, ai), p)" by (metis surj_pair)
  show ?thesis
  proof (cases "decode_argument data p ai s")
    case (Inl e)
    then show ?thesis by (cases "skip_simple data p ai s") (simp_all add: skip_head_def Inr r)
  next
    case (Inr q)
    then obtain n w q' where q: "q = ((n, w), q')" by (metis surj_pair)
    show ?thesis
      by (cases "skip_simple data p ai s"; cases "skip_bytes data q' (unat n)")
        (simp_all add: skip_head_def \<open>decode_initial data s = Ok r\<close> r Inr q)
  qed
qed (simp add: skip_head_def)

lemma major_cases: "drop_bit 5 b \<in> {0, 1, 2, 3, 4, 5, 6, 7}" for b :: u8
proof -
  have "unat (drop_bit 5 b) < 8" using unsigned_less [of b, where 'a = nat] by (simp add: unat_div drop_bit_eq_div)
  then show ?thesis by (auto simp: word_unat_eq_iff)
qed

lemma skip_simple_Ok:
  "skip_simple data p ai s = Ok e \<longleftrightarrow> (\<exists>k. simple_size ai = Some k \<and> (k = 0 \<or> p + k \<le> length data) \<and> e = p + k)"
  by (auto simp: skip_simple_def simple_size_def cbor_consts result_simps)

lemma unat_u64_to_u128: "unat (ucast (n :: u64) :: u128) = unat n"
  using unsigned_less [of n, where 'a = nat] by (intro unat_ucast_narrow) simp

lemma unat_map_count: "unat (ucast (n :: u64) * 2 :: u128) = 2 * unat n"
proof -
  have "unat n < 2 ^ 64" using unsigned_less [of n, where 'a = nat] by simp
  then show ?thesis by (simp add: unat_word_ariths unat_u64_to_u128)
qed

lemma argument_31: "decode_argument data p 31 s \<noteq> Ok r"
  by (simp add: decode_argument_def cbor_consts)

lemma item_head:
  "cbor_item False data s e \<longleftrightarrow> (\<exists>h os. skip_head data s [] = Ok (h, os) \<and> closes data h os e)"
proof (cases "decode_initial data s")
  case (Inl err)
  note it = item_iff [of False data s e]
  from Inl show ?thesis by (auto simp: skip_head_def it)
next
  case (Inr r)
  note it = item_iff [of False data s e]
  from Inr obtain m ai p where r: "r = ((m, ai), p)" by (metis surj_pair)
  with Inr have i: "decode_initial data s = Ok ((m, ai), p)" "p \<le> length data" "m = drop_bit 5 (data ! s)"
    by (auto simp: result_simps)
  have inl: "decode_argument data p ai s = Ok ((ucast ai, Inline), p)" if "ai < AI_ONE_BYTE"
    using that by (simp add: decode_argument_def cbor_consts word_less_nat_alt word_le_nat_alt)
  have "m \<in> {0, 1, 2, 3, 4, 5, 6, 7}" unfolding i(3) by (rule major_cases)
  then consider "m = 0 \<or> m = 1" | "m = 2 \<or> m = 3" | "m = 4" | "m = 5" | "m = 6" | "m = 7" by auto
  then show ?thesis
  proof cases
    case 1
    then show ?thesis using inl by (auto simp: it skip_head_def i(1) cbor_consts rbind_eq_Ok)
  next
    case 2
    then show ?thesis
      by (auto simp: it skip_head_def i(1) cbor_consts rbind_pair_Ok rbind_eq_Ok skip_bytes_Ok argument_31)
  next
    case 3
    then show ?thesis
      by (auto simp: it skip_head_def i(1) cbor_consts rbind_pair_Ok unat_u64_to_u128 argument_31)
  next
    case 4
    then show ?thesis
      by (auto simp: it skip_head_def i(1) cbor_consts rbind_pair_Ok unat_map_count argument_31)
  next
    case 5
    then show ?thesis
      by (auto simp: it skip_head_def i(1) cbor_consts rbind_eq_Ok items_Suc items_0)
  next
    case 6
    then show ?thesis using i(2)
      by (auto simp: it skip_head_def i(1) cbor_consts rbind_eq_Ok skip_simple_Ok)
  qed
qed

lemma item_not_break: "cbor_item pairs data s e \<Longrightarrow> s < length data \<and> data ! s \<noteq> 0xff"
  by (erule item_cases) (auto simp: result_simps simple_size_def)

lemma unat_minus_one_word: "n \<noteq> 0 \<Longrightarrow> unat n = Suc (unat (n - 1))" for n :: u128
  using unat_minus_one [of n] by (simp add: unat_gt_0)

lemma unwind_closes:
  "closes data s owed e \<longleftrightarrow>
     (\<exists>p r. skip_unwind data s owed = Ok (p, r) \<and>
        (case r of None \<Rightarrow> e = p | Some owed' \<Rightarrow> \<exists>q. cbor_item False data p q \<and> closes data q owed' e))"
proof (induction data s owed rule: skip_unwind.induct)
  case (2 data s n owed)
  show ?case
  proof (cases "n = 0")
    case True
    with 2 show ?thesis by (simp add: items_0)
  next
    case False
    then show ?thesis using unat_minus_one_word [OF False] by (auto simp: items_Suc)
  qed
next
  case (3 data s owed)
  show ?case
  proof (cases "s < length data")
    case True
    then have peek: "peek_byte data s = Ok (data ! s)" by (simp add: peek_byte_def)
    show ?thesis
    proof (cases "data ! s = 0xff")
      case brk: True
      have "cbor_until_break False data s p \<longleftrightarrow> p = s + 1" for p
        using True brk by (subst until_break_iff) auto
      with 3 [of BREAK_BYTE] show ?thesis by (simp add: peek brk BREAK_BYTE_def)
    next
      case False
      have "cbor_until_break False data s p \<longleftrightarrow>
          (\<exists>q. cbor_item False data s q \<and> cbor_until_break False data q p)" for p
        using True False by (subst until_break_iff) auto
      with False show ?thesis by (auto simp: peek BREAK_BYTE_def)
    qed
  next
    case False
    then show ?thesis by (simp add: peek_byte_def until_break_iff [of _ _ s])
  qed
qed simp

lemma skip_walk_closes:
  "skip_walk data s owed = Ok e \<longleftrightarrow> (\<exists>p. cbor_item False data s p \<and> closes data p owed e)"
proof (induction data s owed rule: skip_walk.induct)
  case (1 data s owed)
  have "(\<exists>p. cbor_item False data s p \<and> closes data p owed e) \<longleftrightarrow>
      (\<exists>h os. skip_head data s [] = Ok (h, os) \<and> closes data h (os @ owed) e)"
    unfolding item_head closes_append by blast
  also have "\<dots> \<longleftrightarrow> (\<exists>h owed'. skip_head data s owed = Ok (h, owed') \<and> closes data h owed' e)"
    unfolding skip_head_owed [of data s owed] by (auto simp: rbind_pair_Ok)
  also have "\<dots> \<longleftrightarrow> skip_walk data s owed = Ok e"
    unfolding skip_walk.simps [of data s owed] rbind_pair_Ok
    using 1 by (subst unwind_closes) (fastforce split: option.splits)
  finally show ?case by blast
qed

lemma skip_item_Ok:
  "skip_item data s = Ok (r, e) \<longleftrightarrow> r = (s, e) \<and> cbor_item False data s e"
  by (auto simp: skip_item_def rbind_eq_Ok skip_walk_closes)

text \<open>Reading key/value pairs is a special case of reading items one by one.\<close>

lemma pairs_lenient:
  "cbor_item pairs data s e \<Longrightarrow> cbor_item False data s e"
  "cbor_items pairs data n s e \<Longrightarrow> cbor_items False data n s e"
  "cbor_until_break pairs data s e \<Longrightarrow> cbor_until_break False data s e"
  "cbor_pairs_until_break pairs data s e \<Longrightarrow> cbor_until_break False data s e"
proof (induction rule: cbor_grammar_induct)
  case (pairs_later s p q e)
  then show ?case using item_not_break [of False data p q] by (meson break_later)
qed (auto intro: cbor_grammar_intros simp del: One_nat_def)

text \<open>An item is the same item inside a longer buffer.\<close>

lemma decode_initial_local:
  "decode_initial data s = Ok (r, p) \<Longrightarrow> decode_initial (pre @ data @ post) (length pre + s) = Ok (r, length pre + p)"
  by (auto simp: result_simps nth_append)

lemma decode_argument_local:
  "decode_argument data p ai s = Ok (r, q) \<Longrightarrow>
     decode_argument (pre @ data @ post) (length pre + p) ai s' = Ok (r, length pre + q)"
  by (auto simp: decode_argument_def result_simps nth_append split: if_splits)

lemma item_local:
  "cbor_item pairs data s e \<Longrightarrow> cbor_item pairs (pre @ data @ post) (length pre + s) (length pre + e)"
  "cbor_items pairs data n s e \<Longrightarrow> cbor_items pairs (pre @ data @ post) n (length pre + s) (length pre + e)"
  "cbor_until_break pairs data s e \<Longrightarrow> cbor_until_break pairs (pre @ data @ post) (length pre + s) (length pre + e)"
  "cbor_pairs_until_break pairs data s e \<Longrightarrow>
     cbor_pairs_until_break pairs (pre @ data @ post) (length pre + s) (length pre + e)"
proof (induction rule: cbor_grammar_induct)
  case (strings s m ai p n w q)
  then have "cbor_item pairs (pre @ data @ post) (length pre + s) (length pre + q + unat n)"
    by (intro cbor_grammar_intros(2) [OF decode_initial_local _ _ decode_argument_local]) simp_all
  then show ?case by (simp add: add_ac)
next
  case (simple s ai p k)
  then have "cbor_item pairs (pre @ data @ post) (length pre + s) (length pre + p + k)"
    by (intro cbor_grammar_intros(8) [OF decode_initial_local]) simp_all
  then show ?case by (simp add: add_ac)
next
  case (break_here s)
  then show ?case using cbor_grammar_intros(11) [of "length pre + s" "pre @ data @ post"] by (simp add: nth_append)
next
  case (pairs_here s)
  then show ?case using cbor_grammar_intros(13) [of "length pre + s" "pre @ data @ post"] by (simp add: nth_append)
next
  case (break_later s p e)
  then have "length pre + s < length (pre @ data @ post)" "(pre @ data @ post) ! (length pre + s) \<noteq> 0xff"
    by (simp_all add: nth_append)
  with break_later show ?case by (blast intro: cbor_grammar_intros(12))
next
  case (pairs_later s p q e)
  then have "length pre + s < length (pre @ data @ post)" "(pre @ data @ post) ! (length pre + s) \<noteq> 0xff"
    by (simp_all add: nth_append)
  with pairs_later show ?case by (blast intro: cbor_grammar_intros(14))
qed (blast intro: cbor_grammar_intros decode_initial_local decode_argument_local)+

lemma skip_walk_bounds: "skip_walk data s owed = Ok e \<Longrightarrow> s < e \<and> e \<le> length data"
proof (induction data s owed rule: skip_walk.induct)
  case (1 data s owed)
  from 1(2) obtain h owed1 p r where h: "skip_head data s owed = Ok (h, owed1)"
      and u: "skip_unwind data h owed1 = Ok (p, r)"
      and rest: "case r of None \<Rightarrow> e = p | Some owed2 \<Rightarrow> skip_walk data p owed2 = Ok e"
    by (subst (asm) skip_walk.simps) (auto simp: rbind_pair_Ok split: option.splits)
  have "s < p" "p \<le> length data" using skip_head_bounds [OF h] skip_unwind_bounds [OF u] by linarith+
  with 1(1) [OF h refl u refl] rest show ?case by (cases r) auto
qed

lemma item_bounds: "cbor_item pairs data s e \<Longrightarrow> s < e \<and> e \<le> length data"
  using skip_walk_bounds [of data s "[]" e] by (auto simp: skip_walk_closes dest: pairs_lenient(1))

section \<open>Incomplete data\<close>

text \<open>
  A reader is settled if more data can only change its answer when the answer was that the data
  ends too early.
\<close>

definition ends_early :: "('a, CodecError) result \<Rightarrow> bool" where
  "ends_early r \<longleftrightarrow> (\<exists>offset needed. r = Err (UnexpectedEof offset needed))"

definition settled :: "(bytes \<Rightarrow> ('a, CodecError) result) \<Rightarrow> bool" where
  "settled d \<longleftrightarrow> (\<forall>data post. ends_early (d data) \<or> d (data @ post) = d data)"

lemma ends_early_simps [simp]:
  "\<not> ends_early (Ok a)" "ends_early (Err (UnexpectedEof offset needed))"
  "\<not> ends_early (Err (InvalidCborStructure offset m))"
  by (simp_all add: ends_early_def)

lemma ends_early_rbind: "ends_early r \<Longrightarrow> ends_early (rbind r f)"
  by (auto simp: ends_early_def)

lemma settled_const: "settled (\<lambda>data. r)"
  by (simp add: settled_def)

lemma settled_rbind:
  assumes "settled d" and "\<And>a. settled (f a)"
  shows "settled (\<lambda>data. rbind (d data) (\<lambda>a. f a data))"
  unfolding settled_def
proof (intro allI)
  fix data post
  from assms(1) have "ends_early (d data) \<or> d (data @ post) = d data" unfolding settled_def by blast
  then consider e where "d data = Err e" "ends_early (d data)" | e where "d data = Err e" "d (data @ post) = Err e"
    | a where "d data = Ok a" "d (data @ post) = Ok a"
    by (cases "d data") auto
  then show "ends_early (rbind (d data) (\<lambda>a. f a data)) \<or>
      rbind (d (data @ post)) (\<lambda>a. f a (data @ post)) = rbind (d data) (\<lambda>a. f a data)"
  proof cases
    case (1 e)
    then show ?thesis by (auto simp: ends_early_def)
  next
    case (2 e)
    then show ?thesis by simp
  next
    case (3 a)
    moreover from assms(2) have "ends_early (f a data) \<or> f a (data @ post) = f a data" unfolding settled_def by blast
    ultimately show ?thesis by simp
  qed
qed

lemma settled_if: "settled d \<Longrightarrow> settled d' \<Longrightarrow> settled (\<lambda>data. if c then d data else d' data)"
  by (simp add: settled_def)

lemma settled_pair: "(\<And>a b. settled (f a b)) \<Longrightarrow> settled (\<lambda>data. case p of (a, b) \<Rightarrow> f a b data)"
  by (cases p) simp

lemma settled_pair_arg:
  "(\<And>a b. settled (f a b x)) \<Longrightarrow> settled (\<lambda>data. (case p of (a, b) \<Rightarrow> \<lambda>x. f a b x data) x)"
  by (cases p) simp

lemma settled_peek_byte: "settled (\<lambda>data. peek_byte data offset)"
  by (auto simp: settled_def peek_byte_def nth_append)

lemma settled_read_be: "settled (\<lambda>data. read_be n data offset)"
  by (auto simp: settled_def read_be_def)

lemma settled_skip_bytes: "settled (\<lambda>data. skip_bytes data offset n)"
  by (auto simp: settled_def skip_bytes_def)

lemmas settled_intros = settled_const settled_rbind settled_if settled_pair settled_pair_arg settled_peek_byte
  settled_read_be settled_skip_bytes

lemma settled_read_byte: "settled (\<lambda>data. read_byte data offset)"
  unfolding read_byte_def by (intro settled_intros)

lemma settled_decode_initial: "settled (\<lambda>data. decode_initial data offset)"
  unfolding decode_initial_def Let_def by (intro settled_intros settled_read_byte)

lemma settled_decode_argument: "settled (\<lambda>data. decode_argument data offset ai start)"
  unfolding decode_argument_def Let_def by (intro settled_intros settled_read_byte)

lemma settled_skip_simple: "settled (\<lambda>data. skip_simple data offset ai start)"
  unfolding skip_simple_def by (intro settled_intros settled_read_byte)

lemma settled_skip_head: "settled (\<lambda>data. skip_head data start owed)"
  unfolding skip_head_def
  by (intro settled_intros settled_decode_initial settled_decode_argument settled_skip_simple)

lemma settled_skip_unwind: "settled (\<lambda>data. skip_unwind data offset owed)"
proof (induction owed arbitrary: offset)
  case (Cons n owed)
  then show ?case by (cases n) (auto intro!: settled_intros)
qed (simp add: settled_const)

lemma settled_skip_walk: "settled (\<lambda>data. skip_walk data offset owed)"
  unfolding settled_def
proof (intro allI)
  fix data post
  show "ends_early (skip_walk data offset owed) \<or> skip_walk (data @ post) offset owed = skip_walk data offset owed"
  proof (induction data offset owed rule: skip_walk.induct)
    case (1 data offset owed)
    note w = skip_walk.simps [of _ offset owed]
    have h: "ends_early (skip_head data offset owed) \<or> skip_head (data @ post) offset owed = skip_head data offset owed"
      using settled_skip_head unfolding settled_def by blast
    show ?case
    proof (cases "skip_head data offset owed")
      case (Inl e)
      with h show ?thesis by (auto simp: w ends_early_def)
    next
      case (Inr p)
      obtain h' owed1 where "p = (h', owed1)" by (cases p)
      with Inr h have hd: "skip_head data offset owed = Ok (h', owed1)" "skip_head (data @ post) offset owed = Ok (h', owed1)"
        by simp_all
      have u: "ends_early (skip_unwind data h' owed1) \<or> skip_unwind (data @ post) h' owed1 = skip_unwind data h' owed1"
        using settled_skip_unwind unfolding settled_def by blast
      show ?thesis
      proof (cases "skip_unwind data h' owed1")
        case (Inl e)
        with u hd show ?thesis by (auto simp: w ends_early_def)
      next
        case (Inr q)
        obtain s r where "q = (s, r)" by (cases q)
        with Inr u have un: "skip_unwind data h' owed1 = Ok (s, r)" "skip_unwind (data @ post) h' owed1 = Ok (s, r)"
          by simp_all
        show ?thesis using 1 [OF hd(1) refl un(1) refl] hd un by (cases r) (simp_all add: w)
      qed
    qed
  qed
qed

lemma settled_skip_item: "settled (\<lambda>data. skip_item data offset)"
  unfolding skip_item_def by (intro settled_intros settled_skip_walk)

lemma skip_item_proper_prefix:
  assumes "skip_item (data @ post) 0 = Ok (r, length (data @ post))" and "post \<noteq> []"
  shows "ends_early (skip_item data 0)"
proof (rule ccontr)
  assume "\<not> ends_early (skip_item data 0)"
  with settled_skip_item [of 0] assms(1) have "skip_item data 0 = Ok (r, length (data @ post))"
    unfolding settled_def by metis
  then have "cbor_item False data 0 (length (data @ post))" by (simp add: skip_item_Ok)
  from item_bounds [OF this] assms(2) show False by simp
qed

text \<open>A read looks at nothing behind the place where it ends.\<close>

lemma decode_initial_take: "decode_initial data s = Ok (r, p) \<Longrightarrow> p \<le> n \<Longrightarrow> decode_initial (take n data) s = Ok (r, p)"
  by (auto simp: result_simps)

lemma decode_argument_take:
  "decode_argument data p ai s = Ok (r, q) \<Longrightarrow> q \<le> n \<Longrightarrow> decode_argument (take n data) p ai s = Ok (r, q)"
  by (auto simp: decode_argument_def result_simps drop_take min_def split: if_splits)

lemma skip_bytes_take: "skip_bytes data p k = Ok q \<Longrightarrow> q \<le> n \<Longrightarrow> skip_bytes (take n data) p k = Ok q"
  by (auto simp: skip_bytes_def split: if_splits)

lemma skip_simple_take:
  "skip_simple data p ai s = Ok q \<Longrightarrow> q \<le> n \<Longrightarrow> skip_simple (take n data) p ai s = Ok q"
  by (auto simp: skip_simple_def result_simps split: if_splits)

lemma skip_head_take:
  assumes "skip_head data s owed = Ok (h, owed')" and "h \<le> n"
  shows "skip_head (take n data) s owed = Ok (h, owed')"
proof -
  from assms(1) obtain major ai p where i: "decode_initial data s = Ok ((major, ai), p)"
    unfolding skip_head_def by (auto simp: rbind_eq_Ok)
  have "p \<le> h" using skip_head_bounds(1) [OF assms(1)] i by (simp add: result_simps)
  with assms(2) have i': "decode_initial (take n data) s = Ok ((major, ai), p)"
    by (intro decode_initial_take [OF i]) simp
  note bodies = assms(1) [unfolded skip_head_def i rbind_simps prod.case]
  have simple: "skip_simple (take n data) p ai s = Ok h" if "skip_simple data p ai s = Ok h"
    using that assms(2) by (rule skip_simple_take)
  show ?thesis
  proof (cases "\<exists>v w q. decode_argument data p ai s = Ok ((v, w), q) \<and> q \<le> n")
    case True
    then obtain v w q where arg: "decode_argument data p ai s = Ok ((v, w), q)" "q \<le> n" by blast
    note arg' = decode_argument_take [OF arg]
    have "skip_bytes (take n data) q (unat v) = Ok h" if "skip_bytes data q (unat v) = Ok h"
      using that assms(2) by (rule skip_bytes_take)
    with simple bodies show ?thesis
      unfolding skip_head_def i' rbind_simps prod.case arg(1) arg'
        MAJOR_UNSIGNED_def MAJOR_NEGATIVE_def MAJOR_BYTES_def MAJOR_TEXT_def MAJOR_ARRAY_def MAJOR_MAP_def MAJOR_TAG_def
      by (auto simp: rbind_eq_Ok split: if_split_asm)
  next
    case False
    with simple bodies assms(2) show ?thesis
      unfolding skip_head_def i' rbind_simps prod.case
        MAJOR_UNSIGNED_def MAJOR_NEGATIVE_def MAJOR_BYTES_def MAJOR_TEXT_def MAJOR_ARRAY_def MAJOR_MAP_def MAJOR_TAG_def
      by (force simp: rbind_eq_Ok skip_bytes_def split: if_split_asm)
  qed
qed

lemma skip_unwind_take:
  "skip_unwind data p owed = Ok (q, r) \<Longrightarrow> q < n \<or> r = None \<and> q \<le> n \<Longrightarrow> p \<le> length data \<Longrightarrow>
     skip_unwind (take n data) p owed = Ok (q, r)"
proof (induction data p owed rule: skip_unwind.induct)
  case (3 data p owed)
  then have p: "p < length data" by (auto simp: result_simps)
  then have "p < n"
    using 3(2,3) skip_unwind_bounds [of data "p + 1" owed q r] by (auto simp: result_simps split: if_splits)
  with 3 p show ?case by (auto simp: peek_byte_def split: if_splits)
qed (auto split: if_splits)

lemma skip_walk_take: "skip_walk data s owed = Ok e \<Longrightarrow> e \<le> n \<Longrightarrow> skip_walk (take n data) s owed = Ok e"
proof (induction data s owed rule: skip_walk.induct)
  case (1 data s owed)
  from 1(2) obtain h owed1 p r where h: "skip_head data s owed = Ok (h, owed1)"
      and u: "skip_unwind data h owed1 = Ok (p, r)"
      and rest: "case r of None \<Rightarrow> e = p | Some owed2 \<Rightarrow> skip_walk data p owed2 = Ok e"
    by (subst (asm) skip_walk.simps) (auto simp: rbind_pair_Ok split: option.splits)
  have "p < e \<or> r = None \<and> p \<le> e" using rest skip_walk_bounds by (cases r) (auto simp: Cbor_Skip.skip_walk_bounds)
  moreover have "h \<le> p" using skip_head_bounds [OF h] skip_unwind_bounds [OF u] by linarith
  ultimately have "skip_head (take n data) s owed = Ok (h, owed1)" "skip_unwind (take n data) h owed1 = Ok (p, r)"
    using 1(3) skip_head_bounds(2) [OF h] skip_head_take [OF h, of n] skip_unwind_take [OF u, of n] by auto
  with 1(1) [OF h refl u refl] 1(3) rest show ?case by (subst skip_walk.simps) (auto split: option.splits)
qed

lemma skip_item_take: "skip_item data 0 = Ok (r, e) \<Longrightarrow> skip_item (take e data) 0 = Ok (r, e)"
  by (auto simp: skip_item_def rbind_eq_Ok intro: skip_walk_take)

section \<open>Codecs of the primitive types\<close>

text \<open>\<^verbatim>\<open>ade_codec/src/primitives.rs\<close>: the newtypes over integers, the two hash sizes and opaque items.\<close>

definition SlotNo_ade_encode :: "SlotNo \<Rightarrow> bytes \<Rightarrow> bytes" where
  "SlotNo_ade_encode v buf = write_uint_canonical buf v"
definition SlotNo_ade_decode :: "SlotNo reader" where
  "SlotNo_ade_decode data offset = rbind (read_uint data offset) (\<lambda>((val, _), offset). Ok (val, offset))"
definition BlockNo_ade_encode :: "BlockNo \<Rightarrow> bytes \<Rightarrow> bytes" where
  "BlockNo_ade_encode v buf = write_uint_canonical buf v"
definition BlockNo_ade_decode :: "BlockNo reader" where
  "BlockNo_ade_decode data offset = rbind (read_uint data offset) (\<lambda>((val, _), offset). Ok (val, offset))"
definition EpochNo_ade_encode :: "EpochNo \<Rightarrow> bytes \<Rightarrow> bytes" where
  "EpochNo_ade_encode v buf = write_uint_canonical buf v"
definition EpochNo_ade_decode :: "EpochNo reader" where
  "EpochNo_ade_decode data offset = rbind (read_uint data offset) (\<lambda>((val, _), offset). Ok (val, offset))"
definition Hash28_ade_encode :: "Hash28 \<Rightarrow> bytes \<Rightarrow> bytes" where
  "Hash28_ade_encode h buf = write_bytes_canonical buf h"
definition Hash28_ade_decode :: "Hash28 reader" where
  "Hash28_ade_decode data offset =
     rbind (read_bytes data offset) (\<lambda>((bytes, _), offset).
     if length bytes \<noteq> 28 then Err (InvalidLength (offset - length bytes) ''Hash28 must be exactly 28 bytes'')
     else Ok (bytes, offset))"
definition Hash32_ade_encode :: "Hash32 \<Rightarrow> bytes \<Rightarrow> bytes" where
  "Hash32_ade_encode h buf = write_bytes_canonical buf h"
definition Hash32_ade_decode :: "Hash32 reader" where
  "Hash32_ade_decode data offset =
     rbind (read_bytes data offset) (\<lambda>((bytes, _), offset).
     if length bytes \<noteq> 32 then Err (InvalidLength (offset - length bytes) ''Hash32 must be exactly 32 bytes'')
     else Ok (bytes, offset))"
definition RawCbor_ade_encode :: "bytes \<Rightarrow> bytes \<Rightarrow> bytes" where
  "RawCbor_ade_encode raw buf = buf @ raw"
definition RawCbor_ade_decode :: "bytes reader" where
  "RawCbor_ade_decode data offset =
     rbind (skip_item data offset) (\<lambda>((start, stop), offset). Ok (take (stop - start) (drop start data), offset))"

section \<open>Tag 24\<close>

definition TAG24_FIRST :: u8 where "TAG24_FIRST = 0xd8"
definition TAG24_SECOND :: u8 where "TAG24_SECOND = 0x18"

datatype TagEnvelopeError =
    NotTag24 "u8 option"
  | NotByteString usize
  | Truncated usize usize
  | TagTrailingBytes usize usize

definition wrap_tag24 :: "bytes \<Rightarrow> bytes" where
  "wrap_tag24 inner = write_bytes_canonical (write_tag [] 24 I8) inner"

definition first_byte :: "bytes \<Rightarrow> u8 option" where
  "first_byte wire = (case wire of [] \<Rightarrow> None | b # _ \<Rightarrow> Some b)"

definition unwrap_tag24 :: "bytes \<Rightarrow> (bytes, TagEnvelopeError) result" where
  "unwrap_tag24 wire =
     (if length wire < 2 \<or> wire ! 0 \<noteq> TAG24_FIRST \<or> wire ! 1 \<noteq> TAG24_SECOND
      then Err (NotTag24 (first_byte wire))
      else rbind (map_err (\<lambda>_. NotTag24 (first_byte wire)) (read_tag wire 0)) (\<lambda>((tag, _), offset).
           if tag \<noteq> 24 then Err (NotTag24 (first_byte wire))
           else let bytes_start = offset in
           rbind (map_err (\<lambda>e. case e of
                      UnexpectedEof offset needed \<Rightarrow> Truncated offset needed
                    | _ \<Rightarrow> NotByteString bytes_start) (read_bytes wire offset)) (\<lambda>((inner, _), offset).
           if offset \<noteq> length wire then Err (TagTrailingBytes offset (length wire))
           else let inner_len = length inner in
           Ok (take inner_len (drop (offset - inner_len) wire)))))"

section \<open>The block envelope\<close>

record BlockEnvelope =
  be_era :: CardanoEra
  be_block_start :: usize
  be_block_end :: usize

definition decode_block_envelope :: "bytes \<Rightarrow> (BlockEnvelope, CodecError) result" where
  "decode_block_envelope data =
     (if data = [] then Err (UnexpectedEof 0 1)
      else
      rbind (read_array_header data 0) (\<lambda>(encoding, offset).
      rbind (case encoding of
               Definite n _ \<Rightarrow>
                 if n = 2 then Ok ()
                 else Err (InvalidCborStructure 0
                        (if n < 2 then ''block envelope array has fewer than 2 elements''
                         else ''block envelope array has more than 2 elements''))
             | Indefinite \<Rightarrow> Err (InvalidCborStructure 0 ''block envelope must be definite-length array'')) (\<lambda>_.
      rbind (read_uint data offset) (\<lambda>((tag_value, _), offset).
      rbind (reject_if (255 < tag_value) (CodecError.UnknownEraTag 255)) (\<lambda>_.
      rbind (map_err (\<lambda>e. case e of UnknownEraTag.UnknownEraTag tag \<Rightarrow> CodecError.UnknownEraTag tag)
               (era_try_from (ucast tag_value))) (\<lambda>era.
      let block_start = offset in
      rbind (skip_item data offset) (\<lambda>((_, block_end), offset).
      if offset \<noteq> length data then Err (TrailingBytes offset (length data))
      else Ok \<lparr>be_era = era, be_block_start = block_start, be_block_end = block_end\<rparr>)))))))"

definition encode_block_envelope :: "CardanoEra \<Rightarrow> bytes \<Rightarrow> bytes" where
  "encode_block_envelope era block_bytes =
     write_uint_canonical (write_array_header [] (Definite 2 Inline)) (ucast (era_as_u8 era)) @ block_bytes"

section \<open>The codec contract\<close>

text \<open>
  The contract of the traits \<^verbatim>\<open>AdeEncode\<close> and \<^verbatim>\<open>AdeDecode\<close> (\<^verbatim>\<open>ade_codec/src/traits.rs\<close>): encoding
  appends to the buffer, and decoding at the place where a valid value was encoded gives it
  back and stops after it, whatever follows.
\<close>

locale ade_codec =
  fixes encode :: "'a \<Rightarrow> bytes \<Rightarrow> bytes" and decode :: "'a reader" and valid :: "'a \<Rightarrow> bool"
  assumes encode_appends: "encode v buf = buf @ encode v []"
    and decode_encode: "valid v \<Longrightarrow> decode (encode v buf @ rest) (length buf) = Ok (v, length (encode v buf))"
begin

lemma prefix_free:
  assumes "valid v" and "valid v'" and "encode v [] @ rest = encode v' [] @ rest'"
  shows "v = v' \<and> rest = rest'"
proof -
  have "v = v'" using decode_encode [OF assms(1), of "[]" rest] decode_encode [OF assms(2), of "[]" rest'] assms(3) by simp
  with assms(3) show ?thesis by simp
qed

text \<open>A sequence of values, encoded one after the other and decoded by count.\<close>

definition encode_all :: "'a list \<Rightarrow> bytes \<Rightarrow> bytes" where
  "encode_all vs buf = foldl (\<lambda>b v. encode v b) buf vs"

primrec decode_count :: "nat \<Rightarrow> 'a list reader" where
  "decode_count 0 data offset = Ok ([], offset)"
| "decode_count (Suc n) data offset =
     rbind (decode data offset) (\<lambda>(v, offset). rbind (decode_count n data offset) (\<lambda>(vs, offset). Ok (v # vs, offset)))"

lemma encode_all_appends: "\<exists>bs. encode_all vs buf = buf @ bs"
proof (induction vs arbitrary: buf)
  case (Cons v vs)
  then show ?case using encode_appends [of v buf] by (metis append_assoc encode_all_def foldl_Cons)
qed (simp add: encode_all_def)

lemma decode_encode_all:
  "list_all valid vs \<Longrightarrow>
     decode_count (length vs) (encode_all vs buf @ rest) (length buf) = Ok (vs, length (encode_all vs buf))"
proof (induction vs arbitrary: buf)
  case (Cons v vs)
  obtain bs where bs: "encode_all vs (encode v buf) = encode v buf @ bs" using encode_all_appends by blast
  have "decode (encode v buf @ bs @ rest) (length buf) = Ok (v, length (encode v buf))"
    using Cons.prems by (simp add: decode_encode)
  with Cons.IH [of "encode v buf"] Cons.prems bs show ?case by (simp add: encode_all_def)
qed (simp add: encode_all_def)

end

lemma write_uint_canonical_codec:
  "write_uint_canonical buf v = buf @ write_uint_canonical [] v"
  "read_uint (write_uint_canonical buf v @ rest) (length buf)
     = Ok ((v, canonical_width v), length (write_uint_canonical buf v))"
proof -
  have "MAJOR_UNSIGNED \<le> 7" by (simp add: cbor_consts)
  then show "read_uint (write_uint_canonical buf v @ rest) (length buf)
     = Ok ((v, canonical_width v), length (write_uint_canonical buf v))"
    by (simp add: read_uint_def write_uint_canonical_def written_head_simps)
  show "write_uint_canonical buf v = buf @ write_uint_canonical [] v"
    unfolding write_uint_canonical_def by (rule write_argument_append)
qed

lemma write_bytes_canonical_eq:
  "write_bytes_canonical buf bs = write_bytes buf bs (canonical_width (word_of_nat (length bs)))"
  by (simp add: write_bytes_canonical_def write_bytes_def Let_def)

lemma write_bytes_canonical_codec:
  "write_bytes_canonical buf bs = buf @ write_bytes_canonical [] bs"
  "length bs < 2 ^ 64 \<Longrightarrow> read_bytes (write_bytes_canonical buf bs @ rest) (length buf)
     = Ok ((bs, canonical_width (word_of_nat (length bs))), length (write_bytes_canonical buf bs))"
  unfolding write_bytes_canonical_eq
  by (simp add: write_bytes_def, rule write_argument_append) (simp add: read_bytes_written canonical_width_fits)

interpretation slot_codec: ade_codec SlotNo_ade_encode SlotNo_ade_decode "\<lambda>_. True"
  by unfold_locales (simp_all add: SlotNo_ade_encode_def SlotNo_ade_decode_def
      write_uint_canonical_codec(2), rule write_uint_canonical_codec(1))

interpretation block_no_codec: ade_codec BlockNo_ade_encode BlockNo_ade_decode "\<lambda>_. True"
  by unfold_locales (simp_all add: BlockNo_ade_encode_def BlockNo_ade_decode_def
      write_uint_canonical_codec(2), rule write_uint_canonical_codec(1))

interpretation epoch_codec: ade_codec EpochNo_ade_encode EpochNo_ade_decode "\<lambda>_. True"
  by unfold_locales (simp_all add: EpochNo_ade_encode_def EpochNo_ade_decode_def
      write_uint_canonical_codec(2), rule write_uint_canonical_codec(1))

interpretation hash28_codec: ade_codec Hash28_ade_encode Hash28_ade_decode "\<lambda>h. length h = 28"
  by unfold_locales (simp_all add: Hash28_ade_encode_def Hash28_ade_decode_def
      write_bytes_canonical_codec(2), rule write_bytes_canonical_codec(1))

interpretation hash32_codec: ade_codec Hash32_ade_encode Hash32_ade_decode "\<lambda>h. length h = 32"
  by unfold_locales (simp_all add: Hash32_ade_encode_def Hash32_ade_decode_def
      write_bytes_canonical_codec(2), rule write_bytes_canonical_codec(1))

interpretation raw_codec: ade_codec RawCbor_ade_encode RawCbor_ade_decode "\<lambda>raw. cbor_item False raw 0 (length raw)"
proof unfold_locales
  fix raw buf rest :: bytes
  assume "cbor_item False raw 0 (length raw)"
  from item_local(1) [OF this, of buf rest]
  have "skip_item (buf @ raw @ rest) (length buf) = Ok ((length buf, length buf + length raw), length buf + length raw)"
    by (simp add: skip_item_Ok)
  then show "RawCbor_ade_decode (RawCbor_ade_encode raw buf @ rest) (length buf)
      = Ok (raw, length (RawCbor_ade_encode raw buf))"
    by (simp add: RawCbor_ade_decode_def RawCbor_ade_encode_def)
qed (simp add: RawCbor_ade_encode_def)

section \<open>Properties\<close>


text \<open>
  The iterative skip accepts everything the recursive formulation accepts, with the same range:
  an item in which indefinite maps hold key/value pairs is skipped as that item.
\<close>

theorem skip_item_covers_reference:
  "cbor_item True data s e \<Longrightarrow> skip_item data s = Ok ((s, e), e)"
  using pairs_lenient(1) [of True data s e] by (simp add: skip_item_Ok)

lemma small_int_item:
  assumes "s < length data" and "data ! s \<le> 23" and "e = s + 1"
  shows "cbor_item pairs data s e"
proof -
  have z: "drop_bit 5 (data ! s) = 0"
    using assms(2) by (simp add: word_unat_eq_iff drop_bit_eq_div unat_div word_le_nat_alt)
  with initial_byte_split [of "data ! s"] have "data ! s AND 0x1f = data ! s" by simp
  with assms z have "decode_initial data s = Ok ((0, data ! s), s + 1)" by (simp add: decode_initial_Ok)
  moreover have "decode_argument data (s + 1) (data ! s) s = Ok ((ucast (data ! s), Inline), s + 1)"
    using assms(2) by (simp add: decode_argument_def)
  ultimately show ?thesis using assms(3) cbor_grammar_intros(1) [of data s 0] by simp
qed

theorem skip_item_covers_reference_witness: "skip_item [0xbf, 1, 2, 0xff] 0 = Ok ((0, 4), 4)"
proof -
  let ?d = "[0xbf, 1, 2, 0xff] :: bytes"
  have "cbor_item True ?d 1 2" by (rule small_int_item) simp_all
  moreover have "cbor_item True ?d 2 3" by (rule small_int_item) simp_all
  moreover have "cbor_pairs_until_break True ?d 3 4" using cbor_grammar_intros(13) [of 3 ?d] by simp
  ultimately have "cbor_pairs_until_break True ?d 1 4" by (intro cbor_grammar_intros(14) [of 1 ?d True 2 3]) simp_all
  moreover have "decode_initial ?d 0 = Ok ((5, 31), 1)" by (simp add: decode_initial_def read_byte_def peek_byte_def)
  ultimately have "cbor_item True ?d 0 4" by (intro cbor_grammar_intros(4)) simp_all
  then show ?thesis by (rule skip_item_covers_reference)
qed

text \<open>
  The converse fails on indefinite maps: the walk checks for the break before every item, so it
  accepts an indefinite map that ends after a key, which the recursive formulation rejects.
\<close>

theorem skip_item_accepts_odd_map:
  "skip_item [0xbf, 1, 0xff] 0 = Ok ((0, 3), 3) \<and> \<not> cbor_item True [0xbf, 1, 0xff] 0 e"
proof -
  let ?d = "[0xbf, 1, 0xff] :: bytes"
  have i: "decode_initial ?d 0 = Ok ((5, 31), 1)" by (simp add: decode_initial_def read_byte_def peek_byte_def)
  have "cbor_item False ?d 1 2" by (rule small_int_item) simp_all
  moreover have "cbor_until_break False ?d 2 3" using cbor_grammar_intros(11) [of 2 ?d] by simp
  ultimately have "cbor_until_break False ?d 1 3" by (intro cbor_grammar_intros(12) [of 1 ?d False 2]) simp_all
  with i have "cbor_item False ?d 0 3" using cbor_grammar_intros(3) [of ?d 0 5 1 False 3] by simp
  moreover have "\<not> cbor_item True ?d 0 e"
  proof
    assume "cbor_item True ?d 0 e"
    then have "cbor_pairs_until_break True ?d 1 e" by (subst (asm) item_iff) (use i in auto)
    then obtain p q where p: "cbor_item True ?d 1 p" and q: "cbor_item True ?d p q"
      by (subst (asm) pairs_until_break_iff) auto
    from p have "p = 2" by (subst (asm) item_iff) (auto simp: result_simps decode_argument_def)
    with item_not_break [OF q] show False by simp
  qed
  ultimately show ?thesis by (simp add: skip_item_Ok)
qed

lemma write_tag24: "write_tag [] 24 I8 = [0xd8, 0x18]"
  by (simp add: write_tag_def write_argument_def cbor_consts)

lemma read_tag24: "read_tag (0xd8 # 0x18 # rest) 0 = Ok ((24, I8), 2)"
  by (simp add: read_tag_def decode_initial_def read_byte_def peek_byte_def decode_argument_def cbor_consts)

lemma unwrap_written:
  assumes "length inner < 2 ^ 64" and "width_fits (word_of_nat (length inner)) w"
  shows "unwrap_tag24 (write_bytes [0xd8, 0x18] inner w) = Ok inner"
proof -
  obtain rest where rest: "write_bytes [0xd8, 0x18] inner w = 0xd8 # 0x18 # rest @ inner"
    by (metis append_Cons append_Nil append_assoc write_bytes_def write_argument_append)
  have "read_bytes (0xd8 # 0x18 # rest @ inner) 2 = Ok ((inner, w), length (0xd8 # 0x18 # rest @ inner))"
    using read_bytes_written [OF assms, of "[0xd8, 0x18]" "[]"] by (simp add: rest numeral_2_eq_2)
  then show ?thesis
    by (simp add: rest unwrap_tag24_def TAG24_FIRST_def TAG24_SECOND_def read_tag24)
qed

lemma unwrap_wrap_tag24:
  assumes "length inner < 2 ^ 64"
  shows "unwrap_tag24 (wrap_tag24 inner) = Ok inner"
proof -
  have "wrap_tag24 inner = write_bytes [0xd8, 0x18] inner (canonical_width (word_of_nat (length inner)))"
    by (simp add: wrap_tag24_def write_tag24 write_bytes_canonical_def write_bytes_def Let_def)
  with unwrap_written [OF assms canonical_width_fits] show ?thesis by simp
qed

text \<open>
  The tag-24 envelope is exact: wrapping and unwrapping gives the inner bytes back, and the
  only inputs that unwrap to given bytes are the tag, a definite byte-string head of some width
  that holds their length, and those bytes, with nothing before or after.
\<close>

theorem unwrap_tag24_exact:
  assumes "length inner < 2 ^ 64"
  shows "unwrap_tag24 (wrap_tag24 inner) = Ok inner
    \<and> (unwrap_tag24 wire = Ok inner \<longleftrightarrow>
         (\<exists>w. width_fits (word_of_nat (length inner)) w \<and> wire = write_bytes [0xd8, 0x18] inner w))"
proof -
  have bwd: "\<exists>w. width_fits (word_of_nat (length inner)) w \<and> wire = write_bytes [0xd8, 0x18] inner w"
    if ok: "unwrap_tag24 wire = Ok inner"
  proof -
    from ok have two: "2 \<le> length wire" "wire ! 0 = 0xd8" "wire ! 1 = 0x18"
      by (auto simp: unwrap_tag24_def TAG24_FIRST_def TAG24_SECOND_def split: if_splits)
    then obtain rest where wire: "wire = 0xd8 # 0x18 # rest"
      by (cases wire; cases "tl wire") auto
    from ok obtain bs w where b: "read_bytes wire 2 = Ok ((bs, w), length wire)"
        and inner: "inner = take (length bs) (drop (length wire - length bs) wire)"
      by (auto simp: wire unwrap_tag24_def TAG24_FIRST_def TAG24_SECOND_def read_tag24 result_simps Let_def split: if_splits)
    note ex = read_bytes_exact [OF b]
    have "inner = bs" using inner ex(7) by simp
    moreover have "drop 2 wire = write_bytes [] bs w" using ex(3) by simp
    then have "wire = write_bytes [0xd8, 0x18] bs w"
      using wire write_argument_append [of "[0xd8, 0x18]"] by (simp add: write_bytes_def)
    ultimately show ?thesis using ex(5) by blast
  qed
  with unwrap_written [OF assms] bwd unwrap_wrap_tag24 [OF assms] show ?thesis by auto
qed

theorem unwrap_tag24_exact_witness: "unwrap_tag24 [0xd8, 0x18, 0x42, 1, 2] = Ok [1, 2]"
proof -
  have "wrap_tag24 [1, 2] = [0xd8, 0x18, 0x42, 1, 2]"
    by (simp add: wrap_tag24_def write_tag24 write_bytes_canonical_def write_argument_def canonical_width_def cbor_consts)
  then show ?thesis using unwrap_tag24_exact [of "[1, 2]"] by simp
qed

lemma u64_narrow_wide: "\<not> 255 < (v :: u64) \<Longrightarrow> ucast (ucast v :: u8) = v"
proof -
  assume "\<not> 255 < v"
  then have "unat (ucast v :: u8) = unat v" by (intro unat_ucast_narrow) (simp add: word_less_nat_alt)
  then show ?thesis by (simp only: word_unat_eq_iff unat_u8_to_u64)
qed

lemma decode_block_envelope_exact:
  assumes "decode_block_envelope data = Ok env"
  shows "cbor_item False data (be_block_start env) (length data)" and "be_block_end env = length data"
    and "\<exists>w w'. take (be_block_start env) data
       = write_uint (write_array_header [] (Definite 2 w)) (ucast (era_as_u8 (be_era env))) w'"
proof -
  from assms obtain w p v w' q era where
      a: "read_array_header data 0 = Ok (Definite 2 w, p)" and u: "read_uint data p = Ok ((v, w'), q)"
      and v: "\<not> 255 < v" "era_try_from (ucast v) = Ok era"
      and sk: "skip_item data q = Ok ((q, length data), length data)"
      and env: "env = \<lparr>be_era = era, be_block_start = q, be_block_end = length data\<rparr>"
    unfolding decode_block_envelope_def
    by (auto simp: rbind_pair_Ok rbind_unit_Ok rbind_eq_Ok map_err_eq_Ok reject_if_eq_Ok Let_def skip_item_Ok
        split: if_splits ContainerEncoding.splits)
  show "cbor_item False data (be_block_start env) (length data)" "be_block_end env = length data"
    using sk by (simp_all add: env skip_item_Ok)
  have "take p data = write_array_header [] (Definite 2 w)" "p \<le> length data"
    using a head_slice [of data 0 MAJOR_ARRAY]
    by (auto simp: read_array_header_def write_array_header_def rbind_pair_Ok split: if_splits)
  moreover obtain ai o1 where i: "decode_initial data p = Ok ((MAJOR_UNSIGNED, ai), o1)"
      "decode_argument data o1 ai p = Ok ((v, w'), q)"
    using u by (auto simp: read_uint_def rbind_pair_Ok split: if_splits)
  moreover have "take (q - p) (drop p data) = write_uint [] v w'" "p \<le> q"
    using head_slice(1,3) [OF i] by (auto simp: write_uint_def)
  moreover have "take q data = take p data @ take (q - p) (drop p data)"
    using \<open>p \<le> q\<close> by (metis le_add_diff_inverse take_add)
  moreover have "v = ucast (era_as_u8 era)" using v u64_narrow_wide [OF v(1)] by (simp add: era_try_from_Ok)
  ultimately show "\<exists>w w'. take (be_block_start env) data
       = write_uint (write_array_header [] (Definite 2 w)) (ucast (era_as_u8 (be_era env))) w'"
    using write_argument_append [of "take p data" MAJOR_UNSIGNED v w']
    by (intro exI [of _ w] exI [of _ w']) (simp add: env write_uint_def)
qed

text \<open>
  Producer and validator share one block envelope: an era and a block that is one encoded item
  are decoded from their envelope as that era and exactly the block's bytes; and whatever
  decodes is a two-element array head, the tag of the reported era (each with some width) and one
  item that ends with the input.
\<close>

theorem block_envelope_roundtrip:
  assumes "cbor_item False block 0 (length block)"
  shows "decode_block_envelope (encode_block_envelope era block)
      = Ok \<lparr>be_era = era, be_block_start = 2, be_block_end = length (encode_block_envelope era block)\<rparr>
    \<and> drop 2 (encode_block_envelope era block) = block
    \<and> (case decode_block_envelope data of
          Err _ \<Rightarrow> True
        | Ok env \<Rightarrow> cbor_item False data (be_block_start env) (length data) \<and> be_block_end env = length data
            \<and> (\<exists>w w'. take (be_block_start env) data
                 = write_uint (write_array_header [] (Definite 2 w)) (ucast (era_as_u8 (be_era env))) w'))"
proof -
  have tag: "unat (era_as_u8 era) \<le> 7" by (cases era) simp_all
  have e: "encode_block_envelope era block = [0x82, era_as_u8 era] @ block"
    by (cases era) (simp_all add: encode_block_envelope_def write_uint_canonical_def write_array_header_def
        write_argument_def canonical_width_def cbor_consts)
  have hdr: "read_array_header ([0x82, era_as_u8 era] @ block) 0 = Ok (Definite 2 Inline, 1)"
    by (simp add: read_array_header_def decode_initial_def read_byte_def peek_byte_def decode_argument_def cbor_consts)
  have uint: "read_uint ([0x82, era_as_u8 era] @ block) 1 = Ok ((ucast (era_as_u8 era), Inline), 2)"
    by (cases era) (simp_all add: read_uint_def decode_initial_def read_byte_def peek_byte_def decode_argument_def cbor_consts)
  have back_era: "era_try_from (ucast (ucast (era_as_u8 era) :: u64)) = Ok era"
    by (cases era) (simp_all add: era_try_from_def)
  have small: "\<not> 255 < (ucast (era_as_u8 era) :: u64)" using tag by (simp add: word_less_nat_alt)
  have "cbor_item False ([0x82, era_as_u8 era] @ block) 2 (2 + length block)"
    using item_local(1) [OF assms, of "[0x82, era_as_u8 era]" "[]"] by (simp add: numeral_2_eq_2)
  then have skip: "skip_item ([0x82, era_as_u8 era] @ block) 2 = Ok ((2, 2 + length block), 2 + length block)"
    by (simp add: skip_item_Ok)
  have "decode_block_envelope (encode_block_envelope era block)
      = Ok \<lparr>be_era = era, be_block_start = 2, be_block_end = length (encode_block_envelope era block)\<rparr>
    \<and> drop 2 (encode_block_envelope era block) = block" unfolding e
    using hdr uint back_era small skip by (simp add: decode_block_envelope_def Let_def)
  then show ?thesis using decode_block_envelope_exact [of data] by (cases "decode_block_envelope data") auto
qed

theorem block_envelope_roundtrip_witness:
  "decode_block_envelope (encode_block_envelope Conway [5]) = Ok \<lparr>be_era = Conway, be_block_start = 2, be_block_end = 3\<rparr>"
proof -
  have "cbor_item False [5] 0 (length [5 :: u8])" by (rule small_int_item) simp_all
  from block_envelope_roundtrip [OF this, of Conway] show ?thesis
    by (simp add: encode_block_envelope_def write_uint_canonical_def write_array_header_def
        write_argument_def canonical_width_def cbor_consts)
qed

text \<open>
  The codecs of the primitive types are exact: a slot, block or epoch number, a hash of the
  right size and an opaque item are decoded from their encoding unchanged, wherever it stands
  in a buffer and whatever follows.
\<close>

theorem primitive_codecs_roundtrip:
  assumes "length h28 = 28" and "length h32 = 32" and "cbor_item False raw 0 (length raw)"
  shows "SlotNo_ade_decode (SlotNo_ade_encode n buf @ rest) (length buf) = Ok (n, length (SlotNo_ade_encode n buf))
    \<and> BlockNo_ade_decode (BlockNo_ade_encode n buf @ rest) (length buf) = Ok (n, length (BlockNo_ade_encode n buf))
    \<and> EpochNo_ade_decode (EpochNo_ade_encode n buf @ rest) (length buf) = Ok (n, length (EpochNo_ade_encode n buf))
    \<and> Hash28_ade_decode (Hash28_ade_encode h28 buf @ rest) (length buf) = Ok (h28, length (Hash28_ade_encode h28 buf))
    \<and> Hash32_ade_decode (Hash32_ade_encode h32 buf @ rest) (length buf) = Ok (h32, length (Hash32_ade_encode h32 buf))
    \<and> RawCbor_ade_decode (RawCbor_ade_encode raw buf @ rest) (length buf) = Ok (raw, length (RawCbor_ade_encode raw buf))"
  using assms slot_codec.decode_encode block_no_codec.decode_encode epoch_codec.decode_encode
    hash28_codec.decode_encode hash32_codec.decode_encode raw_codec.decode_encode by simp

theorem primitive_codecs_roundtrip_witness:
  "RawCbor_ade_decode (RawCbor_ade_encode [5] [9] @ [7]) 1 = Ok ([5], 2)"
proof -
  have "cbor_item False [5] 0 (length [5 :: u8])" by (rule small_int_item) simp_all
  from primitive_codecs_roundtrip [OF _ _ this, of "replicate 28 0" "replicate 32 0" 0 "[9]" "[7]"]
  show ?thesis by (simp add: RawCbor_ade_encode_def numeral_2_eq_2)
qed

end
