(* ===== verification/Net_Codec.thy ===== *)
theory Net_Codec
  imports Cbor_Skip
begin

text \<open>
  The codec helpers of the mini-protocol layer: \<^verbatim>\<open>codec/error.rs\<close> and
  \<^verbatim>\<open>codec/primitives.rs\<close> of \<^verbatim>\<open>ade_network\<close>, thin wrappers of the CBOR primitives that
  annotate errors with the protocol. The predicate \<open>reads\<close> says that a decoder reads given bytes as
  a value wherever they stand; its composition rules carry the round trips of whole messages.
\<close>

named_theorems codec_bytes \<open>what an encoder appends\<close>
named_theorems codec_reads \<open>what a decoder reads\<close>

section \<open>Errors\<close>

datatype ProtocolKind =
    Handshake
  | ChainSync
  | BlockFetch
  | TxSubmission2
  | KeepAlive
  | PeerSharing
  | N2cHandshake
  | LocalChainSync
  | LocalTxSubmission
  | LocalStateQuery
  | LocalTxMonitor

datatype NetCodecError =
    Truncated usize usize
  | UnknownTag ProtocolKind u64
  | InvalidUtf8 ProtocolKind string
  | InvalidProtocolMessage ProtocolKind string
  | InvalidIntegerRange ProtocolKind string u64
  | MalformedCbor ProtocolKind CodecError

text \<open>
  A function of this crate may also panic. A panic is a failure value of its own, which no error
  handling of the source maps to anything else.
\<close>

datatype 'e failure = Fail 'e | Panic string

text \<open>
  \<^verbatim>\<open>Vec::with_capacity\<close> panics when the allocation exceeds \<^verbatim>\<open>isize::MAX\<close> bytes. A
  smaller allocation is taken to succeed.
\<close>

definition capacity_overflow :: "u64 \<Rightarrow> nat \<Rightarrow> bool" where
  "capacity_overflow n elem_size = (2 ^ 63 - 1 < unat n * elem_size)"

type_synonym 'a net_reader = "bytes \<Rightarrow> usize \<Rightarrow> ('a \<times> usize, NetCodecError) result"

section \<open>Decode helpers\<close>

definition decode_array_header :: "ProtocolKind \<Rightarrow> u64 net_reader" where
  "decode_array_header protocol data offset =
     rbind (map_err (MalformedCbor protocol) (read_array_header data offset)) (\<lambda>(enc, offset).
     case enc of
       Definite count _ \<Rightarrow> Ok (count, offset)
     | Indefinite \<Rightarrow> Err (InvalidProtocolMessage protocol ''indefinite-length array not allowed''))"

definition decode_array_of_len :: "ProtocolKind \<Rightarrow> u64 \<Rightarrow> unit net_reader" where
  "decode_array_of_len protocol expected data offset =
     rbind (decode_array_header protocol data offset) (\<lambda>(got, offset).
     if got \<noteq> expected then Err (InvalidProtocolMessage protocol ''wrong array length'') else Ok ((), offset))"

datatype ArrayHead = Definite u64 | Indefinite

definition decode_array_head_two_form :: "ProtocolKind \<Rightarrow> ArrayHead net_reader" where
  "decode_array_head_two_form protocol data offset =
     rbind (map_err (MalformedCbor protocol) (read_array_header data offset)) (\<lambda>(enc, offset).
     Ok (case enc of
           ContainerEncoding.Definite count _ \<Rightarrow> ArrayHead.Definite count
         | ContainerEncoding.Indefinite \<Rightarrow> ArrayHead.Indefinite, offset))"

definition try_consume_break :: "bytes \<Rightarrow> usize \<Rightarrow> bool \<times> usize" where
  "try_consume_break data offset =
     (if offset < length data \<and> data ! offset = 0xff then (True, offset + 1) else (False, offset))"

definition decode_u64 :: "ProtocolKind \<Rightarrow> u64 net_reader" where
  "decode_u64 protocol data offset =
     rbind (map_err (MalformedCbor protocol) (read_uint data offset)) (\<lambda>((val, _), offset). Ok (val, offset))"

definition decode_u16 :: "ProtocolKind \<Rightarrow> string \<Rightarrow> u16 net_reader" where
  "decode_u16 protocol field data offset =
     rbind (decode_u64 protocol data offset) (\<lambda>(v, offset).
     if 0xffff < v then Err (InvalidIntegerRange protocol field v) else Ok (ucast v, offset))"

definition decode_u32 :: "ProtocolKind \<Rightarrow> string \<Rightarrow> u32 net_reader" where
  "decode_u32 protocol field data offset =
     rbind (decode_u64 protocol data offset) (\<lambda>(v, offset).
     if 0xffffffff < v then Err (InvalidIntegerRange protocol field v) else Ok (ucast v, offset))"

definition decode_bytes :: "ProtocolKind \<Rightarrow> bytes net_reader" where
  "decode_bytes protocol data offset =
     rbind (map_err (MalformedCbor protocol) (read_bytes data offset)) (\<lambda>((bytes, _), offset). Ok (bytes, offset))"

definition decode_text :: "ProtocolKind \<Rightarrow> string \<Rightarrow> bytes net_reader" where
  "decode_text protocol field data offset =
     (case read_text data offset of
        Ok r \<Rightarrow> Ok (fst (fst r), snd r)
      | Err source \<Rightarrow>
          (case source of
             InvalidCborStructure _ detail \<Rightarrow>
               (if detail = ''invalid UTF-8 in text string'' then Err (InvalidUtf8 protocol field)
                else Err (MalformedCbor protocol source))
           | _ \<Rightarrow> Err (MalformedCbor protocol source)))"

definition decode_bool :: "ProtocolKind \<Rightarrow> bool net_reader" where
  "decode_bool protocol data offset = map_err (MalformedCbor protocol) (read_bool data offset)"

definition require_consumed :: "ProtocolKind \<Rightarrow> bytes \<Rightarrow> usize \<Rightarrow> (unit, NetCodecError) result" where
  "require_consumed protocol data offset =
     (if offset \<noteq> length data then Err (InvalidProtocolMessage protocol ''trailing bytes after message'')
      else Ok ())"

text \<open>The \<^verbatim>\<open>for _ in 0..n\<close> loop that reads \<open>n\<close> elements into a vector.\<close>

primrec read_count ::
  "nat \<Rightarrow> (bytes \<Rightarrow> usize \<Rightarrow> ('a \<times> usize, 'e) result) \<Rightarrow> bytes \<Rightarrow> usize \<Rightarrow> ('a list \<times> usize, 'e) result" where
  "read_count 0 d data offset = Ok ([], offset)"
| "read_count (Suc n) d data offset =
     rbind (d data offset) (\<lambda>(v, offset).
     rbind (read_count n d data offset) (\<lambda>(vs, offset). Ok (v # vs, offset)))"

section \<open>Encode helpers\<close>

definition encode_array_header :: "bytes \<Rightarrow> u64 \<Rightarrow> bytes" where
  "encode_array_header buf len = write_array_header buf (ContainerEncoding.Definite len (canonical_width len))"

definition encode_u64 :: "bytes \<Rightarrow> u64 \<Rightarrow> bytes" where
  "encode_u64 buf value = write_uint_canonical buf value"

definition encode_bytes :: "bytes \<Rightarrow> bytes \<Rightarrow> bytes" where
  "encode_bytes buf bytes = write_bytes_canonical buf bytes"

definition encode_text :: "bytes \<Rightarrow> bytes \<Rightarrow> bytes" where
  "encode_text buf text = write_text_canonical buf text"

definition encode_bool :: "bytes \<Rightarrow> bool \<Rightarrow> bytes" where
  "encode_bool buf b = write_bool buf b"

definition encode_null :: "bytes \<Rightarrow> bytes" where
  "encode_null buf = write_null buf"

section \<open>Reading back\<close>

definition reads :: "(bytes \<Rightarrow> usize \<Rightarrow> ('a \<times> usize, 'e) result) \<Rightarrow> bytes \<Rightarrow> 'a \<Rightarrow> bool" where
  "reads decode bs v \<longleftrightarrow>
     (\<forall>pre rest. decode (pre @ bs @ rest) (length pre) = Ok (v, length pre + length bs))"

lemma reads_return: "reads (\<lambda>data offset. Ok (v, offset)) [] v"
  by (simp add: reads_def)

lemma reads_bind:
  assumes "reads d bs v" and "reads (d' v) bs' w"
  shows "reads (\<lambda>data offset. rbind (d data offset) (\<lambda>(v, offset). d' v data offset)) (bs @ bs') w"
  unfolding reads_def
proof (intro allI)
  fix pre rest
  have "d' v ((pre @ bs) @ bs' @ rest) (length (pre @ bs)) = Ok (w, length (pre @ bs) + length bs')"
    using assms(2) unfolding reads_def by blast
  moreover have "d (pre @ bs @ bs' @ rest) (length pre) = Ok (v, length pre + length bs)"
    using assms(1) unfolding reads_def by blast
  ultimately show "rbind (d (pre @ (bs @ bs') @ rest) (length pre)) (\<lambda>(v, offset). d' v (pre @ (bs @ bs') @ rest) offset)
      = Ok (w, length pre + length (bs @ bs'))"
    by simp
qed

lemma reads_bind_return:
  assumes "reads d bs v"
  shows "reads (\<lambda>data offset. rbind (d data offset) (\<lambda>(v, offset). Ok (f v, offset))) bs (f v)"
  using assms by (simp add: reads_def)

lemma reads_encoder:
  assumes "\<And>buf. enc buf = buf @ bs" and "\<And>buf rest. d (enc buf @ rest) (length buf) = Ok (v, length (enc buf))"
  shows "reads d bs v"
  using assms(2) unfolding assms(1) reads_def by simp

lemma reads_start: "reads d bs v \<Longrightarrow> d bs 0 = Ok (v, length bs)"
  unfolding reads_def by (metis append.left_neutral append.right_neutral add_0 list.size(3))

lemma reads_at: "reads d bs v \<Longrightarrow> d (pre @ bs @ rest) (length pre) = Ok (v, length pre + length bs)"
  by (simp add: reads_def)

lemma reads_map_err: "reads d bs v \<Longrightarrow> reads (\<lambda>data offset. map_err f (d data offset)) bs v"
  by (simp add: reads_def)

lemma reads_count:
  "(\<And>v. v \<in> set vs \<Longrightarrow> reads d (enc v) v) \<Longrightarrow> reads (read_count (length vs) d) (concat (map enc vs)) vs"
proof (induction vs)
  case (Cons v vs)
  have "reads (read_count (length vs) d) (concat (map enc vs)) vs" by (rule Cons.IH) (use Cons.prems in simp)
  from reads_bind [OF Cons.prems [of v] reads_bind_return [OF this]]
  show ?case by simp
qed (simp add: reads_def)

definition array_bytes :: "u64 \<Rightarrow> bytes" where "array_bytes n = encode_array_header [] n"
definition uint_bytes :: "u64 \<Rightarrow> bytes" where "uint_bytes v = encode_u64 [] v"
definition string_bytes :: "bytes \<Rightarrow> bytes" where "string_bytes bs = encode_bytes [] bs"
definition text_bytes :: "bytes \<Rightarrow> bytes" where "text_bytes bs = encode_text [] bs"
definition bool_bytes :: "bool \<Rightarrow> bytes" where "bool_bytes b = encode_bool [] b"

lemma encode_appends [codec_bytes]:
  "encode_array_header buf n = buf @ array_bytes n"
  "encode_u64 buf v = buf @ uint_bytes v"
  "encode_bytes buf bs = buf @ string_bytes bs"
  "encode_text buf bs = buf @ text_bytes bs"
  "encode_bool buf b = buf @ bool_bytes b"
  unfolding array_bytes_def uint_bytes_def string_bytes_def text_bytes_def bool_bytes_def
    encode_array_header_def encode_u64_def encode_bytes_def encode_text_def encode_bool_def
    write_array_header_def write_uint_canonical_def write_bytes_canonical_def write_text_canonical_def write_bool_def Let_def
  by (simp_all) (metis append.assoc write_argument_append)+

text \<open>The readers of the CBOR layer on what the encode helpers write.\<close>

lemma reads_written:
  "reads read_uint (uint_bytes v) (v, canonical_width v)"
  "reads read_array_header (array_bytes v) (ContainerEncoding.Definite v (canonical_width v))"
  "reads read_bool (bool_bytes b) b"
proof -
  have m: "MAJOR_ARRAY \<le> 7" by (simp add: cbor_consts)
  show "reads read_uint (uint_bytes v) (v, canonical_width v)"
    by (rule reads_encoder [OF encode_appends(2)]) (simp add: encode_u64_def write_uint_canonical_codec(2))
  show "reads read_array_header (array_bytes v) (ContainerEncoding.Definite v (canonical_width v))"
    by (rule reads_encoder [OF encode_appends(1)])
      (simp add: encode_array_header_def read_array_header_def write_array_header_def written_head_simps m)
  show "reads read_bool (bool_bytes b) b"
    by (simp add: reads_def bool_bytes_def encode_bool_def write_bool_def read_bool_def read_byte_def peek_byte_def nth_append)
qed

lemma reads_written_strings:
  assumes "length bs < 2 ^ 64"
  shows "reads read_bytes (string_bytes bs) (bs, canonical_width (word_of_nat (length bs)))"
    and "utf8_valid bs \<Longrightarrow> reads read_text (text_bytes bs) (bs, canonical_width (word_of_nat (length bs)))"
proof -
  let ?n = "word_of_nat (length bs) :: u64"
  have n: "unat ?n = length bs" using assms by (simp add: unat_of_nat)
  have pay: "read_payload (h @ bs @ rest) (length h) (length bs) = Ok (bs, length (h @ bs))" for h rest
    by (simp add: read_payload_def)
  have m: "MAJOR_TEXT \<le> 7" by (simp add: cbor_consts)
  show "reads read_bytes (string_bytes bs) (bs, canonical_width ?n)"
    by (rule reads_encoder [OF encode_appends(3)]) (simp add: encode_bytes_def write_bytes_canonical_codec(2) [OF assms])
  show "reads read_text (text_bytes bs) (bs, canonical_width ?n)" if "utf8_valid bs"
    by (rule reads_encoder [OF encode_appends(4)])
      (simp add: that encode_text_def read_text_def write_text_canonical_def Let_def written_head_simps m n pay)
qed

lemma decode_reads [codec_reads]:
  "reads (decode_array_header p) (array_bytes n) n"
  "reads (decode_u64 p) (uint_bytes v) v"
  "length bs < 2 ^ 64 \<Longrightarrow> reads (decode_bytes p) (string_bytes bs) bs"
  "length bs < 2 ^ 64 \<Longrightarrow> utf8_valid bs \<Longrightarrow> reads (decode_text p field) (text_bytes bs) bs"
  "reads (decode_bool p) (bool_bytes b) b"
  using reads_written(1) [of v] reads_written(2) [of n] reads_written(3) [of b] reads_written_strings [of bs]
  by (simp_all add: reads_def decode_array_header_def decode_u64_def decode_bytes_def decode_text_def decode_bool_def)

lemma decode_small_reads [codec_reads]:
  "reads (decode_u16 p field) (uint_bytes (ucast (v :: u16))) v"
  "reads (decode_u32 p field) (uint_bytes (ucast (w :: u32))) w"
proof -
  have u: "unat (ucast v :: u64) = unat v" "unat (ucast w :: u64) = unat w"
    using unsigned_less [of v, where 'a = nat] unsigned_less [of w, where 'a = nat]
    by (simp_all add: unat_ucast_narrow)
  then have "(ucast v :: u64) \<le> 0xffff" "(ucast w :: u64) \<le> 0xffffffff"
    using unsigned_less [of v, where 'a = nat] unsigned_less [of w, where 'a = nat]
    by (simp_all add: word_le_nat_alt)
  moreover have "ucast (ucast v :: u64) = v" "ucast (ucast w :: u64) = w"
    using u unsigned_less [of v, where 'a = nat] unsigned_less [of w, where 'a = nat]
    by (simp_all add: word_unat_eq_iff unat_ucast_narrow)
  ultimately show "reads (decode_u16 p field) (uint_bytes (ucast v)) v"
    "reads (decode_u32 p field) (uint_bytes (ucast w)) w"
    using decode_reads(2) [of p "ucast v"] decode_reads(2) [of p "ucast w"]
    by (simp_all add: reads_def decode_u16_def decode_u32_def not_less)
qed

definition map_bytes :: "u64 \<Rightarrow> bytes" where
  "map_bytes n = write_map_header [] (ContainerEncoding.Definite n (canonical_width n))"

lemma map_header_bytes [codec_bytes]:
  "write_map_header buf (ContainerEncoding.Definite n (canonical_width n)) = buf @ map_bytes n"
  unfolding map_bytes_def write_map_header_def by (simp, rule write_argument_append)

lemma reads_map_header: "reads read_map_header (map_bytes n) (ContainerEncoding.Definite n (canonical_width n))"
proof (rule reads_encoder [OF map_header_bytes])
  have "MAJOR_MAP \<le> 7" by (simp add: cbor_consts)
  then show "read_map_header (write_map_header buf (ContainerEncoding.Definite n (canonical_width n)) @ rest) (length buf)
      = Ok (ContainerEncoding.Definite n (canonical_width n),
          length (write_map_header buf (ContainerEncoding.Definite n (canonical_width n))))" for buf rest
    by (simp add: read_map_header_def write_map_header_def written_head_simps)
qed

lemma foldl_append_with: "(\<And>b x. f b x = b @ g x) \<Longrightarrow> foldl f buf xs = buf @ concat (map g xs)"
  by (induction xs arbitrary: buf) simp_all

lemmas foldl_append_bytes = foldl_append_with [where f = "\<lambda>buf x. buf @ g x" for g, OF refl]

end
