(* ===== verification/Handshake_Codec.thy ===== *)
theory Handshake_Codec
  imports Net_Codec
begin

text \<open>
  The wire codecs of the two handshakes: \<^verbatim>\<open>codec/handshake.rs\<close> (node to node) and
  \<^verbatim>\<open>codec/n2c_handshake.rs\<close> (node to client) of \<^verbatim>\<open>ade_network\<close>. Version parameters are
  opaque bytes, one CBOR item each. A version table is read into a vector whose capacity is
  reserved from the announced length; the source takes 32 bytes for an entry.
\<close>

section \<open>Node-to-node messages\<close>

type_synonym VersionParams = bytes
type_synonym VersionTable = "(u16 \<times> VersionParams) list"

datatype RefuseReason =
    VersionMismatch "u16 list"
  | HandshakeDecodeError u16 bytes
  | Refused u16 bytes

datatype HandshakeMessage =
    ProposeVersions VersionTable
  | AcceptVersion u16 VersionParams
  | Refuse RefuseReason
  | QueryReply VersionTable

subsection \<open>Encode\<close>

definition encode_version_table :: "bytes \<Rightarrow> VersionTable \<Rightarrow> bytes" where
  "encode_version_table buf table =
     (let len = word_of_nat (length table) in
      foldl (\<lambda>buf (ver, params). encode_u64 buf (ucast ver) @ params)
        (write_map_header buf (ContainerEncoding.Definite len (canonical_width len))) table)"

definition encode_refuse_reason :: "bytes \<Rightarrow> RefuseReason \<Rightarrow> bytes" where
  "encode_refuse_reason buf reason =
     (case reason of
        VersionMismatch vs \<Rightarrow>
          foldl (\<lambda>buf v. encode_u64 buf (ucast v))
            (encode_array_header (encode_u64 (encode_array_header buf 2) 0) (word_of_nat (length vs))) vs
      | HandshakeDecodeError version reason \<Rightarrow>
          encode_text (encode_u64 (encode_u64 (encode_array_header buf 3) 1) (ucast version)) reason
      | Refused version reason \<Rightarrow>
          encode_text (encode_u64 (encode_u64 (encode_array_header buf 3) 2) (ucast version)) reason)"

definition encode_handshake_message :: "HandshakeMessage \<Rightarrow> bytes" where
  "encode_handshake_message msg =
     (case msg of
        ProposeVersions table \<Rightarrow> encode_version_table (encode_u64 (encode_array_header [] 2) 0) table
      | AcceptVersion ver params \<Rightarrow> encode_u64 (encode_u64 (encode_array_header [] 3) 1) (ucast ver) @ params
      | Refuse reason \<Rightarrow> encode_refuse_reason (encode_u64 (encode_array_header [] 2) 2) reason
      | QueryReply table \<Rightarrow> encode_version_table (encode_u64 (encode_array_header [] 2) 3) table)"

subsection \<open>Decode\<close>

text \<open>A version number with its range check, and the parameters as the raw bytes of one item.\<close>

definition decode_version :: "u16 net_reader" where
  "decode_version data offset =
     rbind (decode_u32 Handshake ''version number'' data offset) (\<lambda>(v, offset).
     if 0xffff < v then Err (InvalidIntegerRange Handshake ''version number'' (ucast v)) else Ok (ucast v, offset))"

definition decode_item :: "ProtocolKind \<Rightarrow> bytes net_reader" where
  "decode_item protocol data start =
     rbind (map_err (MalformedCbor protocol) (skip_item data start)) (\<lambda>((_, end_offset), offset).
     Ok (take (end_offset - start) (drop start data), offset))"

definition decode_version_entry :: "(u16 \<times> VersionParams) net_reader" where
  "decode_version_entry data offset =
     rbind (decode_version data offset) (\<lambda>(v, offset).
     rbind (decode_item Handshake data offset) (\<lambda>(params, offset). Ok ((v, params), offset)))"

definition decode_version_table ::
  "bytes \<Rightarrow> usize \<Rightarrow> (VersionTable \<times> usize, NetCodecError failure) result" where
  "decode_version_table data offset =
     rbind (map_err (\<lambda>source. Fail (MalformedCbor Handshake source)) (read_map_header data offset)) (\<lambda>(enc, offset).
     case enc of
       ContainerEncoding.Indefinite \<Rightarrow>
         Err (Fail (InvalidProtocolMessage Handshake ''indefinite-length version table not allowed''))
     | ContainerEncoding.Definite len _ \<Rightarrow>
         (if capacity_overflow len 32 then Err (Panic ''capacity overflow'')
          else map_err Fail (read_count (unat len) decode_version_entry data offset)))"

definition decode_refuse_reason :: "RefuseReason net_reader" where
  "decode_refuse_reason data offset =
     rbind (decode_array_header Handshake data offset) (\<lambda>(arr_len, offset).
     if arr_len < 1 then Err (InvalidProtocolMessage Handshake ''refuse reason has zero-length array'')
     else rbind (decode_u64 Handshake data offset) (\<lambda>(tag, offset).
       if (tag, arr_len) = (0, 2) then
         rbind (decode_array_header Handshake data offset) (\<lambda>(n, offset).
         rbind (read_count (unat n) decode_version data offset) (\<lambda>(vs, offset). Ok (VersionMismatch vs, offset)))
       else if (tag, arr_len) = (1, 3) then
         rbind (decode_version data offset) (\<lambda>(v, offset).
         rbind (decode_text Handshake ''handshake decode error reason'' data offset) (\<lambda>(reason, offset).
         Ok (HandshakeDecodeError v reason, offset)))
       else if (tag, arr_len) = (2, 3) then
         rbind (decode_version data offset) (\<lambda>(v, offset).
         rbind (decode_text Handshake ''refused reason'' data offset) (\<lambda>(reason, offset).
         Ok (Refused v reason, offset)))
       else Err (UnknownTag Handshake tag)))"

definition decode_handshake_body ::
  "bytes \<Rightarrow> usize \<Rightarrow> (HandshakeMessage \<times> usize, NetCodecError failure) result" where
  "decode_handshake_body bytes offset =
     rbind (map_err Fail (decode_array_header Handshake bytes offset)) (\<lambda>(arr_len, offset).
     if arr_len < 1 then Err (Fail (InvalidProtocolMessage Handshake ''empty outer array''))
     else rbind (map_err Fail (decode_u64 Handshake bytes offset)) (\<lambda>(tag, offset).
       if (tag, arr_len) = (0, 2) then
         rbind (decode_version_table bytes offset) (\<lambda>(table, offset). Ok (ProposeVersions table, offset))
       else if (tag, arr_len) = (1, 3) then
         rbind (map_err Fail (decode_version bytes offset)) (\<lambda>(v, offset).
         rbind (map_err Fail (decode_item Handshake bytes offset)) (\<lambda>(params, offset).
         Ok (AcceptVersion v params, offset)))
       else if (tag, arr_len) = (2, 2) then
         rbind (map_err Fail (decode_refuse_reason bytes offset)) (\<lambda>(reason, offset). Ok (Refuse reason, offset))
       else if (tag, arr_len) = (3, 2) then
         rbind (decode_version_table bytes offset) (\<lambda>(table, offset). Ok (QueryReply table, offset))
       else Err (Fail (UnknownTag Handshake tag))))"

definition decode_handshake_message :: "bytes \<Rightarrow> (HandshakeMessage, NetCodecError failure) result" where
  "decode_handshake_message bytes =
     (if bytes = [] then Err (Fail (Truncated 1 0))
      else rbind (decode_handshake_body bytes 0) (\<lambda>(msg, offset).
           rbind (map_err Fail (require_consumed Handshake bytes offset)) (\<lambda>_. Ok msg)))"

section \<open>Node-to-client messages\<close>

definition N2C_WIRE_FLAG :: u32 where "N2C_WIRE_FLAG = 0x8000"

definition version_to_wire :: "u16 \<Rightarrow> u32" where
  "version_to_wire v = ucast v OR N2C_WIRE_FLAG"

definition wire_to_version :: "u32 \<Rightarrow> (u16, NetCodecError) result" where
  "wire_to_version w =
     (if w AND N2C_WIRE_FLAG = 0
      then Err (InvalidProtocolMessage N2cHandshake ''N2C version number missing 0x8000 wire flag'')
      else let semantic = w AND NOT N2C_WIRE_FLAG in
        if 0xffff < semantic
        then Err (InvalidIntegerRange N2cHandshake ''n2c version (semantic)'' (ucast semantic))
        else Ok (ucast semantic))"

type_synonym N2cVersionTable = "(u16 \<times> bytes) list"

datatype N2cRefuseReason =
    VersionMismatch "u16 list"
  | HandshakeDecodeError u16 bytes
  | Refused u16 bytes

datatype N2cHandshakeMessage =
    ProposeVersions N2cVersionTable
  | AcceptVersion u16 bytes
  | Refuse N2cRefuseReason
  | QueryReply N2cVersionTable

definition encode_table :: "bytes \<Rightarrow> N2cVersionTable \<Rightarrow> bytes" where
  "encode_table buf table =
     (let len = word_of_nat (length table) in
      foldl (\<lambda>buf (ver, params). encode_u64 buf (ucast (version_to_wire ver)) @ params)
        (write_map_header buf (ContainerEncoding.Definite len (canonical_width len))) table)"

definition encode_refuse :: "bytes \<Rightarrow> N2cRefuseReason \<Rightarrow> bytes" where
  "encode_refuse buf reason =
     (case reason of
        N2cRefuseReason.VersionMismatch vs \<Rightarrow>
          foldl (\<lambda>buf v. encode_u64 buf (ucast (version_to_wire v)))
            (encode_array_header (encode_u64 (encode_array_header buf 2) 0) (word_of_nat (length vs))) vs
      | N2cRefuseReason.HandshakeDecodeError version reason \<Rightarrow>
          encode_text (encode_u64 (encode_u64 (encode_array_header buf 3) 1) (ucast (version_to_wire version))) reason
      | N2cRefuseReason.Refused version reason \<Rightarrow>
          encode_text (encode_u64 (encode_u64 (encode_array_header buf 3) 2) (ucast (version_to_wire version))) reason)"

definition encode_n2c_handshake_message :: "N2cHandshakeMessage \<Rightarrow> bytes" where
  "encode_n2c_handshake_message msg =
     (case msg of
        N2cHandshakeMessage.ProposeVersions table \<Rightarrow> encode_table (encode_u64 (encode_array_header [] 2) 0) table
      | N2cHandshakeMessage.AcceptVersion ver params \<Rightarrow>
          encode_u64 (encode_u64 (encode_array_header [] 3) 1) (ucast (version_to_wire ver)) @ params
      | N2cHandshakeMessage.Refuse reason \<Rightarrow> encode_refuse (encode_u64 (encode_array_header [] 2) 2) reason
      | N2cHandshakeMessage.QueryReply table \<Rightarrow> encode_table (encode_u64 (encode_array_header [] 2) 3) table)"

definition decode_wire_version :: "u16 net_reader" where
  "decode_wire_version data offset =
     rbind (decode_u32 N2cHandshake ''version number'' data offset) (\<lambda>(v, offset).
     rbind (wire_to_version v) (\<lambda>version. Ok (version, offset)))"

definition decode_table_entry :: "(u16 \<times> bytes) net_reader" where
  "decode_table_entry data offset =
     rbind (decode_wire_version data offset) (\<lambda>(v, offset).
     rbind (decode_item N2cHandshake data offset) (\<lambda>(params, offset). Ok ((v, params), offset)))"

definition decode_table ::
  "bytes \<Rightarrow> usize \<Rightarrow> (N2cVersionTable \<times> usize, NetCodecError failure) result" where
  "decode_table data offset =
     rbind (map_err (\<lambda>source. Fail (MalformedCbor N2cHandshake source)) (read_map_header data offset)) (\<lambda>(enc, offset).
     case enc of
       ContainerEncoding.Indefinite \<Rightarrow>
         Err (Fail (InvalidProtocolMessage N2cHandshake ''indefinite-length version table not allowed''))
     | ContainerEncoding.Definite len _ \<Rightarrow>
         (if capacity_overflow len 32 then Err (Panic ''capacity overflow'')
          else map_err Fail (read_count (unat len) decode_table_entry data offset)))"

definition decode_refuse :: "N2cRefuseReason net_reader" where
  "decode_refuse data offset =
     rbind (decode_array_header N2cHandshake data offset) (\<lambda>(arr_len, offset).
     if arr_len < 1 then Err (InvalidProtocolMessage N2cHandshake ''refuse reason has zero-length array'')
     else rbind (decode_u64 N2cHandshake data offset) (\<lambda>(tag, offset).
       if (tag, arr_len) = (0, 2) then
         rbind (decode_array_header N2cHandshake data offset) (\<lambda>(n, offset).
         rbind (read_count (unat n) decode_wire_version data offset) (\<lambda>(vs, offset).
         Ok (N2cRefuseReason.VersionMismatch vs, offset)))
       else if (tag, arr_len) = (1, 3) then
         rbind (decode_wire_version data offset) (\<lambda>(version, offset).
         rbind (decode_text N2cHandshake ''handshake decode error reason'' data offset) (\<lambda>(reason, offset).
         Ok (N2cRefuseReason.HandshakeDecodeError version reason, offset)))
       else if (tag, arr_len) = (2, 3) then
         rbind (decode_wire_version data offset) (\<lambda>(version, offset).
         rbind (decode_text N2cHandshake ''refused reason'' data offset) (\<lambda>(reason, offset).
         Ok (N2cRefuseReason.Refused version reason, offset)))
       else Err (UnknownTag N2cHandshake tag)))"

definition decode_n2c_handshake_body ::
  "bytes \<Rightarrow> usize \<Rightarrow> (N2cHandshakeMessage \<times> usize, NetCodecError failure) result" where
  "decode_n2c_handshake_body bytes offset =
     rbind (map_err Fail (decode_array_header N2cHandshake bytes offset)) (\<lambda>(arr_len, offset).
     if arr_len < 1 then Err (Fail (InvalidProtocolMessage N2cHandshake ''empty outer array''))
     else rbind (map_err Fail (decode_u64 N2cHandshake bytes offset)) (\<lambda>(tag, offset).
       if (tag, arr_len) = (0, 2) then
         rbind (decode_table bytes offset) (\<lambda>(table, offset). Ok (N2cHandshakeMessage.ProposeVersions table, offset))
       else if (tag, arr_len) = (1, 3) then
         rbind (map_err Fail (decode_wire_version bytes offset)) (\<lambda>(v, offset).
         rbind (map_err Fail (decode_item N2cHandshake bytes offset)) (\<lambda>(params, offset).
         Ok (N2cHandshakeMessage.AcceptVersion v params, offset)))
       else if (tag, arr_len) = (2, 2) then
         rbind (map_err Fail (decode_refuse bytes offset)) (\<lambda>(reason, offset).
         Ok (N2cHandshakeMessage.Refuse reason, offset))
       else if (tag, arr_len) = (3, 2) then
         rbind (decode_table bytes offset) (\<lambda>(table, offset). Ok (N2cHandshakeMessage.QueryReply table, offset))
       else Err (Fail (UnknownTag N2cHandshake tag))))"

definition decode_n2c_handshake_message :: "bytes \<Rightarrow> (N2cHandshakeMessage, NetCodecError failure) result" where
  "decode_n2c_handshake_message bytes =
     (if bytes = [] then Err (Fail (Truncated 1 0))
      else rbind (decode_n2c_handshake_body bytes 0) (\<lambda>(msg, offset).
           rbind (map_err Fail (require_consumed N2cHandshake bytes offset)) (\<lambda>_. Ok msg)))"

section \<open>Reading back\<close>

lemma reads_item [codec_reads]:
  assumes "cbor_item False item 0 (length item)"
  shows "reads (decode_item p) item item"
  unfolding reads_def
proof (intro allI)
  fix pre rest :: bytes
  from item_local(1) [OF assms, of pre rest]
  have "skip_item (pre @ item @ rest) (length pre) = Ok ((length pre, length pre + length item), length pre + length item)"
    by (simp add: skip_item_Ok)
  then show "decode_item p (pre @ item @ rest) (length pre) = Ok (item, length pre + length item)"
    by (simp add: decode_item_def)
qed

lemma reads_version [codec_reads]: "reads decode_version (uint_bytes (ucast v)) v"
proof -
  have u: "unat (ucast v :: u32) = unat v" using unsigned_less [of v, where 'a = nat] by (simp add: unat_ucast_narrow)
  then have le: "(ucast v :: u32) \<le> 0xffff" and again: "ucast (ucast v :: u32) = v"
    using unsigned_less [of v, where 'a = nat]
    by (simp_all add: word_le_nat_alt word_unat_eq_iff unat_ucast_narrow)
  have "(ucast (ucast v :: u32) :: u64) = ucast v"
    using u unsigned_less [of v, where 'a = nat] by (simp add: word_unat_eq_iff unat_ucast_narrow)
  with decode_small_reads(2) [of Handshake "''version number''" "ucast v"] le again show ?thesis
    by (simp add: reads_def decode_version_def not_less)
qed

lemma bit_wire_flag: "bit (0x8000 :: u32) n \<longleftrightarrow> n = 15"
proof -
  have "bit (push_bit 15 1 :: u32) n \<longleftrightarrow> n = 15" unfolding bit_push_bit_iff bit_1_iff by auto
  then show ?thesis by simp
qed

lemma wire_version_roundtrip:
  assumes "v < 0x8000"
  shows "wire_to_version (version_to_wire v) = Ok v"
proof -
  have "take_bit 15 v = v"
    using assms by (simp add: word_unat_eq_iff unsigned_take_bit_eq take_bit_nat_eq_self word_less_nat_alt)
  then have "\<not> bit v 15" by (metis bit_take_bit_iff less_irrefl)
  then have "(ucast v OR 0x8000) AND NOT 0x8000 = (ucast v :: u32)"
    by (intro bit_word_eqI) (simp only: bit_and_iff bit_or_iff bit_not_iff bit_wire_flag, auto simp: bit_simps)
  moreover have "(ucast v OR 0x8000) AND 0x8000 = (0x8000 :: u32)"
    by (intro bit_word_eqI) (auto simp: bit_simps bit_wire_flag)
  moreover have u: "unat (ucast v :: u32) = unat v" using unsigned_less [of v, where 'a = nat] by (simp add: unat_ucast_narrow)
  moreover have "(ucast v :: u32) \<le> 0xffff" "ucast (ucast v :: u32) = v"
    using u unsigned_less [of v, where 'a = nat]
    by (simp_all add: word_le_nat_alt word_unat_eq_iff unat_ucast_narrow)
  ultimately show ?thesis
    by (simp add: wire_to_version_def version_to_wire_def N2C_WIRE_FLAG_def Let_def not_less)
qed

lemma reads_wire_version [codec_reads]:
  assumes "v < 0x8000"
  shows "reads decode_wire_version (uint_bytes (ucast (version_to_wire v))) v"
  using decode_small_reads(2) [of N2cHandshake "''version number''" "version_to_wire v"] wire_version_roundtrip [OF assms]
  by (simp add: reads_def decode_wire_version_def)

text \<open>The messages a codec carries faithfully: parameters that are one item each, texts in UTF-8.\<close>

definition params_ok :: "bytes \<Rightarrow> bool" where
  "params_ok params \<longleftrightarrow> cbor_item False params 0 (length params)"

definition text_ok :: "bytes \<Rightarrow> bool" where
  "text_ok text \<longleftrightarrow> length text < 2 ^ 64 \<and> utf8_valid text"

definition table_ok :: "(u16 \<times> bytes) list \<Rightarrow> bool" where
  "table_ok table \<longleftrightarrow> length table * 32 < 2 ^ 63 \<and> (\<forall>e\<in>set table. params_ok (snd e))"

fun refuse_ok :: "RefuseReason \<Rightarrow> bool" where
  "refuse_ok (RefuseReason.VersionMismatch vs) \<longleftrightarrow> length vs < 2 ^ 64"
| "refuse_ok (RefuseReason.HandshakeDecodeError _ text) \<longleftrightarrow> text_ok text"
| "refuse_ok (RefuseReason.Refused _ text) \<longleftrightarrow> text_ok text"

fun handshake_ok :: "HandshakeMessage \<Rightarrow> bool" where
  "handshake_ok (HandshakeMessage.ProposeVersions table) \<longleftrightarrow> table_ok table"
| "handshake_ok (HandshakeMessage.AcceptVersion _ params) \<longleftrightarrow> params_ok params"
| "handshake_ok (HandshakeMessage.Refuse reason) \<longleftrightarrow> refuse_ok reason"
| "handshake_ok (HandshakeMessage.QueryReply table) \<longleftrightarrow> table_ok table"

lemma reads_counted_table:
  assumes "length table * 32 < 2 ^ 63" and "\<And>e. e \<in> set table \<Longrightarrow> reads entry (enc e) e"
  shows "reads (\<lambda>data offset. rbind (map_err f (read_map_header data offset)) (\<lambda>(enc, offset).
      case enc of
        ContainerEncoding.Indefinite \<Rightarrow> Err g
      | ContainerEncoding.Definite len _ \<Rightarrow>
          (if capacity_overflow len 32 then Err h else map_err Fail (read_count (unat len) entry data offset))))
    (map_bytes (word_of_nat (length table)) @ concat (map enc table)) table"
proof -
  have n: "unat (word_of_nat (length table) :: u64) = length table" "\<not> capacity_overflow (word_of_nat (length table)) 32"
    using assms(1) by (simp_all add: unat_of_nat capacity_overflow_def)
  show ?thesis
    by (rule reads_bind [OF reads_map_err [OF reads_map_header]]) (simp add: n reads_map_err reads_count assms(2))
qed

lemma reads_entry:
  assumes "reads version bs v" and "params_ok params"
  shows "reads (\<lambda>data offset. rbind (version data offset) (\<lambda>(v, offset).
      rbind (decode_item p data offset) (\<lambda>(params, offset). Ok ((v, params), offset)))) (bs @ params) (v, params)"
  by (rule reads_bind [OF assms(1)], rule reads_bind_return, rule reads_item) (use assms(2) in \<open>simp add: params_ok_def\<close>)

lemma reads_version_table:
  assumes "table_ok table"
  shows "reads decode_version_table
    (map_bytes (word_of_nat (length table)) @ concat (map (\<lambda>e. uint_bytes (ucast (fst e)) @ snd e) table)) table"
  unfolding decode_version_table_def [abs_def]
proof (rule reads_counted_table)
  show "reads decode_version_entry (uint_bytes (ucast (fst e)) @ snd e) e" if "e \<in> set table" for e
    using reads_entry [OF reads_version, of "snd e" Handshake "fst e"] assms that
    by (simp add: decode_version_entry_def [abs_def] table_ok_def)
qed (use assms in \<open>simp add: table_ok_def\<close>)

lemma version_table_bytes [codec_bytes]:
  "encode_version_table buf table = buf @ map_bytes (word_of_nat (length table))
     @ concat (map (\<lambda>e. uint_bytes (ucast (fst e)) @ snd e) table)"
  by (simp add: encode_version_table_def Let_def codec_bytes split_def foldl_append_bytes)

lemmas reads_head = reads_bind [OF decode_reads(1)] reads_bind [OF reads_map_err [OF decode_reads(1)]]
lemmas reads_tag = reads_bind [OF decode_reads(2)] reads_bind [OF reads_map_err [OF decode_reads(2)]]

lemma refuse_reason_bytes:
  "encode_refuse_reason buf reason = buf @ encode_refuse_reason [] reason"
  by (cases reason) (simp_all add: encode_refuse_reason_def codec_bytes foldl_append_bytes)

lemma reads_refuse_reason:
  assumes "refuse_ok reason"
  shows "reads decode_refuse_reason (encode_refuse_reason [] reason) reason"
proof (cases reason)
  case (VersionMismatch vs)
  have n: "unat (word_of_nat (length vs) :: u64) = length vs" using assms VersionMismatch by (simp add: unat_of_nat)
  have vs: "reads (read_count (length vs) decode_version) (concat (map (\<lambda>v. uint_bytes (ucast v)) vs)) vs"
    by (rule reads_count) (rule reads_version)
  have "encode_refuse_reason [] reason = array_bytes 2 @ uint_bytes 0 @ array_bytes (word_of_nat (length vs))
      @ concat (map (\<lambda>v. uint_bytes (ucast v)) vs)"
    by (simp add: VersionMismatch encode_refuse_reason_def codec_bytes foldl_append_bytes)
  then show ?thesis
    unfolding decode_refuse_reason_def [abs_def] VersionMismatch
    by simp (rule reads_head, simp, rule reads_tag, simp, rule reads_head, simp add: n, rule reads_bind_return [OF vs])
next
  case (HandshakeDecodeError v why)
  then have t: "reads (decode_text p field) (text_bytes why) why" for p field
    using assms by (simp add: text_ok_def decode_reads)
  have "encode_refuse_reason [] reason = array_bytes 3 @ uint_bytes 1 @ uint_bytes (ucast v) @ text_bytes why"
    by (simp add: HandshakeDecodeError encode_refuse_reason_def codec_bytes)
  then show ?thesis
    unfolding decode_refuse_reason_def [abs_def] HandshakeDecodeError
    by simp (rule reads_head, simp, rule reads_tag, simp, rule reads_bind [OF reads_version], rule reads_bind_return [OF t])
next
  case (Refused v why)
  then have t: "reads (decode_text p field) (text_bytes why) why" for p field
    using assms by (simp add: text_ok_def decode_reads)
  have "encode_refuse_reason [] reason = array_bytes 3 @ uint_bytes 2 @ uint_bytes (ucast v) @ text_bytes why"
    by (simp add: Refused encode_refuse_reason_def codec_bytes)
  then show ?thesis
    unfolding decode_refuse_reason_def [abs_def] Refused
    by simp (rule reads_head, simp, rule reads_tag, simp, rule reads_bind [OF reads_version], rule reads_bind_return [OF t])
qed

lemma reads_handshake_body:
  assumes "handshake_ok msg"
  shows "reads decode_handshake_body (encode_handshake_message msg) msg"
proof (cases msg)
  case (ProposeVersions table)
  with assms have "reads decode_version_table (encode_version_table [] table) table"
    by (simp add: reads_version_table codec_bytes)
  note t = reads_bind_return [OF this]
  have "encode_handshake_message msg = array_bytes 2 @ uint_bytes 0 @ encode_version_table [] table"
    by (simp add: ProposeVersions encode_handshake_message_def codec_bytes)
  then show ?thesis
    unfolding decode_handshake_body_def [abs_def] ProposeVersions
    by simp (rule reads_head, simp, rule reads_tag, simp, rule t)
next
  case (AcceptVersion v params)
  with assms have "reads (decode_item Handshake) params params" by (simp add: params_ok_def reads_item)
  note t = reads_bind_return [OF reads_map_err [OF this]]
  have "encode_handshake_message msg = array_bytes 3 @ uint_bytes 1 @ uint_bytes (ucast v) @ params"
    by (simp add: AcceptVersion encode_handshake_message_def codec_bytes)
  then show ?thesis
    unfolding decode_handshake_body_def [abs_def] AcceptVersion
    by simp (rule reads_head, simp, rule reads_tag, simp, rule reads_bind [OF reads_map_err [OF reads_version]], rule t)
next
  case (Refuse reason)
  with assms have "reads decode_refuse_reason (encode_refuse_reason [] reason) reason" by (simp add: reads_refuse_reason)
  note t = reads_bind_return [OF reads_map_err [OF this]]
  have "encode_handshake_message msg = array_bytes 2 @ uint_bytes 2 @ encode_refuse_reason [] reason"
    by (simp add: Refuse encode_handshake_message_def encode_appends refuse_reason_bytes [of "uint_bytes _"]
        refuse_reason_bytes [of "_ @ _"])
  then show ?thesis
    unfolding decode_handshake_body_def [abs_def] Refuse
    by simp (rule reads_head, simp, rule reads_tag, simp, rule t)
next
  case (QueryReply table)
  with assms have "reads decode_version_table (encode_version_table [] table) table"
    by (simp add: reads_version_table codec_bytes)
  note t = reads_bind_return [OF this]
  have "encode_handshake_message msg = array_bytes 2 @ uint_bytes 3 @ encode_version_table [] table"
    by (simp add: QueryReply encode_handshake_message_def codec_bytes)
  then show ?thesis
    unfolding decode_handshake_body_def [abs_def] QueryReply
    by simp (rule reads_head, simp, rule reads_tag, simp, rule t)
qed

text \<open>The node-to-client messages, whose versions leave the wire flag free.\<close>

definition n2c_table_ok :: "(u16 \<times> bytes) list \<Rightarrow> bool" where
  "n2c_table_ok table \<longleftrightarrow> table_ok table \<and> (\<forall>e\<in>set table. fst e < 0x8000)"

fun n2c_refuse_ok :: "N2cRefuseReason \<Rightarrow> bool" where
  "n2c_refuse_ok (VersionMismatch vs) \<longleftrightarrow> length vs < 2 ^ 64 \<and> (\<forall>v\<in>set vs. v < 0x8000)"
| "n2c_refuse_ok (HandshakeDecodeError v text) \<longleftrightarrow> v < 0x8000 \<and> text_ok text"
| "n2c_refuse_ok (Refused v text) \<longleftrightarrow> v < 0x8000 \<and> text_ok text"

fun n2c_handshake_ok :: "N2cHandshakeMessage \<Rightarrow> bool" where
  "n2c_handshake_ok (ProposeVersions table) \<longleftrightarrow> n2c_table_ok table"
| "n2c_handshake_ok (AcceptVersion v params) \<longleftrightarrow> v < 0x8000 \<and> params_ok params"
| "n2c_handshake_ok (Refuse reason) \<longleftrightarrow> n2c_refuse_ok reason"
| "n2c_handshake_ok (QueryReply table) \<longleftrightarrow> n2c_table_ok table"

lemma table_bytes [codec_bytes]:
  "encode_table buf table = buf @ map_bytes (word_of_nat (length table))
     @ concat (map (\<lambda>e. uint_bytes (ucast (version_to_wire (fst e))) @ snd e) table)"
  by (simp add: encode_table_def Let_def codec_bytes split_def foldl_append_bytes)

lemma refuse_bytes: "encode_refuse buf reason = buf @ encode_refuse [] reason"
  by (cases reason) (simp_all add: encode_refuse_def codec_bytes foldl_append_bytes)

lemma reads_table:
  assumes "n2c_table_ok table"
  shows "reads decode_table (encode_table [] table) table"
  unfolding decode_table_def [abs_def] table_bytes append_Nil
proof (rule reads_counted_table)
  show "reads decode_table_entry (uint_bytes (ucast (version_to_wire (fst e))) @ snd e) e" if "e \<in> set table" for e
    using reads_entry [OF reads_wire_version, of "fst e" "snd e" N2cHandshake] assms that
    by (simp add: decode_table_entry_def [abs_def] n2c_table_ok_def table_ok_def)
qed (use assms in \<open>simp add: table_ok_def n2c_table_ok_def\<close>)

lemma reads_refuse:
  assumes "n2c_refuse_ok reason"
  shows "reads decode_refuse (encode_refuse [] reason) reason"
proof (cases reason)
  case (VersionMismatch vs)
  have n: "unat (word_of_nat (length vs) :: u64) = length vs" using assms VersionMismatch by (simp add: unat_of_nat)
  have vs: "reads (read_count (length vs) decode_wire_version) (concat (map (\<lambda>v. uint_bytes (ucast (version_to_wire v))) vs)) vs"
    by (rule reads_count) (use assms VersionMismatch in \<open>simp add: reads_wire_version\<close>)
  have "encode_refuse [] reason = array_bytes 2 @ uint_bytes 0 @ array_bytes (word_of_nat (length vs))
      @ concat (map (\<lambda>v. uint_bytes (ucast (version_to_wire v))) vs)"
    by (simp add: VersionMismatch encode_refuse_def codec_bytes foldl_append_bytes)
  then show ?thesis
    unfolding decode_refuse_def [abs_def] VersionMismatch
    by simp (rule reads_head, simp, rule reads_tag, simp, rule reads_head, simp add: n, rule reads_bind_return [OF vs])
next
  case (HandshakeDecodeError v why)
  then have t: "reads (decode_text p field) (text_bytes why) why" "v < 0x8000" for p field
    using assms by (simp_all add: text_ok_def decode_reads)
  have "encode_refuse [] reason = array_bytes 3 @ uint_bytes 1 @ uint_bytes (ucast (version_to_wire v)) @ text_bytes why"
    by (simp add: HandshakeDecodeError encode_refuse_def codec_bytes)
  then show ?thesis
    unfolding decode_refuse_def [abs_def] HandshakeDecodeError
    by simp (rule reads_head, simp, rule reads_tag, simp, rule reads_bind [OF reads_wire_version [OF t(2)]],
        rule reads_bind_return [OF t(1)])
next
  case (Refused v why)
  then have t: "reads (decode_text p field) (text_bytes why) why" "v < 0x8000" for p field
    using assms by (simp_all add: text_ok_def decode_reads)
  have "encode_refuse [] reason = array_bytes 3 @ uint_bytes 2 @ uint_bytes (ucast (version_to_wire v)) @ text_bytes why"
    by (simp add: Refused encode_refuse_def codec_bytes)
  then show ?thesis
    unfolding decode_refuse_def [abs_def] Refused
    by simp (rule reads_head, simp, rule reads_tag, simp, rule reads_bind [OF reads_wire_version [OF t(2)]],
        rule reads_bind_return [OF t(1)])
qed

lemma reads_n2c_body:
  assumes "n2c_handshake_ok msg"
  shows "reads decode_n2c_handshake_body (encode_n2c_handshake_message msg) msg"
proof (cases msg)
  case (ProposeVersions table)
  with assms have t: "reads decode_table (encode_table [] table) table" by (simp add: reads_table)
  have "encode_n2c_handshake_message msg = array_bytes 2 @ uint_bytes 0 @ encode_table [] table"
    by (simp add: ProposeVersions encode_n2c_handshake_message_def codec_bytes)
  then show ?thesis
    unfolding decode_n2c_handshake_body_def [abs_def] ProposeVersions
    by simp (rule reads_head, simp, rule reads_tag, simp, rule reads_bind_return [OF t])
next
  case (AcceptVersion v params)
  with assms have t: "reads (decode_item N2cHandshake) params params" "v < 0x8000"
    by (simp_all add: params_ok_def reads_item)
  have "encode_n2c_handshake_message msg = array_bytes 3 @ uint_bytes 1 @ uint_bytes (ucast (version_to_wire v)) @ params"
    by (simp add: AcceptVersion encode_n2c_handshake_message_def codec_bytes)
  then show ?thesis
    unfolding decode_n2c_handshake_body_def [abs_def] AcceptVersion
    by simp (rule reads_head, simp, rule reads_tag, simp,
        rule reads_bind [OF reads_map_err [OF reads_wire_version [OF t(2)]]],
        rule reads_bind_return [OF reads_map_err [OF t(1)]])
next
  case (Refuse reason)
  with assms have t: "reads decode_refuse (encode_refuse [] reason) reason" by (simp add: reads_refuse)
  have "encode_n2c_handshake_message msg = array_bytes 2 @ uint_bytes 2 @ encode_refuse [] reason"
    by (simp add: Refuse encode_n2c_handshake_message_def encode_appends refuse_bytes [of "_ @ _"])
  then show ?thesis
    unfolding decode_n2c_handshake_body_def [abs_def] Refuse
    by simp (rule reads_head, simp, rule reads_tag, simp, rule reads_bind_return [OF reads_map_err [OF t]])
next
  case (QueryReply table)
  with assms have t: "reads decode_table (encode_table [] table) table" by (simp add: reads_table)
  have "encode_n2c_handshake_message msg = array_bytes 2 @ uint_bytes 3 @ encode_table [] table"
    by (simp add: QueryReply encode_n2c_handshake_message_def codec_bytes)
  then show ?thesis
    unfolding decode_n2c_handshake_body_def [abs_def] QueryReply
    by simp (rule reads_head, simp, rule reads_tag, simp, rule reads_bind_return [OF t])
qed

lemma array_bytes_ne: "array_bytes n \<noteq> []"
  by (simp add: array_bytes_def encode_array_header_def write_array_header_def write_argument_def Let_def split: IntWidth.split)

lemma encoded_handshake_ne:
  "encode_handshake_message msg \<noteq> []" "encode_n2c_handshake_message msg' \<noteq> []"
  by (cases msg; simp add: encode_handshake_message_def codec_bytes refuse_reason_bytes [of "_ @ _"] array_bytes_ne)
    (cases msg'; simp add: encode_n2c_handshake_message_def codec_bytes refuse_bytes [of "_ @ _"] array_bytes_ne)

lemma decode_encoded_handshake:
  "handshake_ok msg \<Longrightarrow> decode_handshake_message (encode_handshake_message msg) = Ok msg"
  using reads_start [OF reads_handshake_body [of msg]]
  by (simp add: decode_handshake_message_def require_consumed_def encoded_handshake_ne)

section \<open>Properties\<close>

text \<open>
  Handshake messages survive the wire: every node-to-node message whose parameters are one
  item each and whose texts are UTF-8 is decoded from its encoding unchanged, and so is every
  node-to-client message whose versions in addition leave bit 15 to the wire flag.
\<close>

theorem handshake_codec_roundtrip:
  assumes "handshake_ok msg" and "n2c_handshake_ok msg'"
  shows "decode_handshake_message (encode_handshake_message msg) = Ok msg
    \<and> decode_n2c_handshake_message (encode_n2c_handshake_message msg') = Ok msg'"
  using decode_encoded_handshake [OF assms(1)] reads_start [OF reads_n2c_body [OF assms(2)]]
  by (simp add: decode_n2c_handshake_message_def require_consumed_def encoded_handshake_ne)

theorem handshake_codec_roundtrip_witness:
  "decode_handshake_message (encode_handshake_message (HandshakeMessage.ProposeVersions [(14, [1])]))
     = Ok (HandshakeMessage.ProposeVersions [(14, [1])])
   \<and> decode_n2c_handshake_message (encode_n2c_handshake_message (AcceptVersion 16 [1])) = Ok (AcceptVersion 16 [1])"
proof -
  have "params_ok [1]" by (simp add: params_ok_def small_int_item)
  then have "handshake_ok (HandshakeMessage.ProposeVersions [(14, [1])])" "n2c_handshake_ok (AcceptVersion 16 [1])"
    by (simp_all add: table_ok_def)
  then show ?thesis by (rule handshake_codec_roundtrip)
qed

text \<open>
  A short message makes the decoder panic: the version table reserves its capacity from the
  announced length before any entry is read, so that 11 bytes that announce \<open>2 ^ 64 - 1\<close> entries
  overflow the capacity, in both handshakes.
\<close>

theorem handshake_table_panics:
  "decode_handshake_message ([0x82, 0, 0xbb] @ replicate 8 0xff) = Err (Panic ''capacity overflow'')
   \<and> decode_n2c_handshake_message ([0x82, 0, 0xbb] @ replicate 8 0xff) = Err (Panic ''capacity overflow'')"
proof -
  let ?m = "[0x82, 0, 0xbb, 0xff, 0xff, 0xff, 0xff, 0xff, 0xff, 0xff, 0xff] :: bytes"
  have "read_array_header ?m 0 = Ok (ContainerEncoding.Definite 2 Inline, 1)"
    by (simp add: read_array_header_def decode_initial_def read_byte_def peek_byte_def decode_argument_def cbor_consts)
  moreover have "read_uint ?m 1 = Ok ((0, Inline), 2)"
    by (simp add: read_uint_def decode_initial_def read_byte_def peek_byte_def decode_argument_def cbor_consts)
  moreover have "read_map_header ?m 2 = Ok (ContainerEncoding.Definite (- 1) I64, 11)"
    by (simp add: read_map_header_def decode_initial_def read_byte_def peek_byte_def decode_argument_def cbor_consts
        read_be_def be_nat_def)
  moreover have "capacity_overflow (- 1) 32" by (simp add: capacity_overflow_def unat_minus_one_eq)
  ultimately show ?thesis
    by (simp add: decode_handshake_message_def decode_n2c_handshake_message_def decode_handshake_body_def
        decode_n2c_handshake_body_def decode_array_header_def decode_u64_def decode_version_table_def decode_table_def
        eval_nat_numeral)
qed

end
