(* ===== verification/Handshake.thy ===== *)
theory Handshake
  imports Handshake_Codec
begin

text \<open>
  Version negotiation: \<^verbatim>\<open>handshake/agency.rs\<close>, \<^verbatim>\<open>state.rs\<close>, \<^verbatim>\<open>selection.rs\<close>,
  \<^verbatim>\<open>transition.rs\<close> and \<^verbatim>\<open>version_table.rs\<close> of \<^verbatim>\<open>ade_network\<close>, for both handshakes. The two
  selection routines of the source are the same nested loops over different data types; they
  share the definitions of the loops here.
\<close>

section \<open>Data\<close>

datatype HandshakeAgency = ClientHasAgency | ServerHasAgency | NobodyHasAgency

datatype PeerSharingFlag = NoPeerSharing | PeerSharingPublic

record VersionData =
  vd_network_magic :: u32
  vd_initiator_only_diffusion :: bool
  vd_peer_sharing :: PeerSharingFlag
  vd_query :: bool
  vd_peras_support :: bool

record N2cVersionData =
  n2c_network_magic :: u32
  n2c_query :: bool

datatype HandshakeState = Idle | Proposed | Done | Refused

datatype N2nHandshakeOutput =
    Reply HandshakeMessage
  | Selected u16 VersionData
  | Refused RefuseReason
  | Done

datatype N2cHandshakeOutput =
    Reply N2cHandshakeMessage
  | Selected u16 N2cVersionData
  | Refused N2cRefuseReason
  | Done

datatype HandshakeError =
    IllegalTransition HandshakeState string string
  | UnknownVersion u16
  | VersionMismatch "u16 list" "u16 list"
  | MalformedMessage string

datatype ('v, 'd) SelectionOutcome = Selected 'v 'd | Mismatch "'v list"

section \<open>Selection\<close>

text \<open>The inner loop over the supported versions and the outer loop over the proposed ones.\<close>

fun select_local :: "u16 \<Rightarrow> (u16 \<times> 'd) list \<Rightarrow> (u16 \<times> 'd) option \<Rightarrow> (u16 \<times> 'd) option" where
  "select_local pv [] best = best"
| "select_local pv ((v_local, data_local) # supported) best =
     select_local pv supported
       (if v_local = pv \<and> (case best of Some (b, _) \<Rightarrow> b < pv | None \<Rightarrow> True) then Some (pv, data_local) else best)"

fun select_proposed :: "(u16 \<times> bytes) list \<Rightarrow> (u16 \<times> 'd) list \<Rightarrow> (u16 \<times> 'd) option \<Rightarrow> (u16 \<times> 'd) option" where
  "select_proposed [] supported best = best"
| "select_proposed ((pv, _) # proposed) supported best =
     select_proposed proposed supported (select_local pv supported best)"

definition select_n2n_version :: "VersionTable \<Rightarrow> (u16 \<times> VersionData) list \<Rightarrow> (u16, VersionData) SelectionOutcome" where
  "select_n2n_version proposed supported =
     (case select_proposed proposed supported None of
        Some (v, d) \<Rightarrow> SelectionOutcome.Selected v d
      | None \<Rightarrow> Mismatch (map fst supported))"

definition select_n2c_version :: "N2cVersionTable \<Rightarrow> (u16 \<times> N2cVersionData) list \<Rightarrow> (u16, N2cVersionData) SelectionOutcome" where
  "select_n2c_version proposed supported =
     (case select_proposed proposed supported None of
        Some (v, d) \<Rightarrow> SelectionOutcome.Selected v d
      | None \<Rightarrow> Mismatch (map fst supported))"

definition proposed_n2n_versions :: "VersionTable \<Rightarrow> u16 list" where
  "proposed_n2n_versions proposed = map fst proposed"

definition proposed_n2c_versions :: "N2cVersionTable \<Rightarrow> u16 list" where
  "proposed_n2c_versions proposed = map fst proposed"

definition supported_n2n_versions :: "(u16 \<times> VersionData) list \<Rightarrow> u16 list" where
  "supported_n2n_versions supported = map fst supported"

definition supported_n2c_versions :: "(u16 \<times> N2cVersionData) list \<Rightarrow> u16 list" where
  "supported_n2c_versions supported = map fst supported"

section \<open>Transition\<close>

fun n2n_message_tag :: "HandshakeMessage \<Rightarrow> string" where
  "n2n_message_tag (HandshakeMessage.ProposeVersions _) = ''ProposeVersions''"
| "n2n_message_tag (HandshakeMessage.AcceptVersion _ _) = ''AcceptVersion''"
| "n2n_message_tag (HandshakeMessage.Refuse _) = ''Refuse''"
| "n2n_message_tag (HandshakeMessage.QueryReply _) = ''QueryReply''"

fun n2c_message_tag :: "N2cHandshakeMessage \<Rightarrow> string" where
  "n2c_message_tag (N2cHandshakeMessage.ProposeVersions _) = ''ProposeVersions''"
| "n2c_message_tag (N2cHandshakeMessage.AcceptVersion _ _) = ''AcceptVersion''"
| "n2c_message_tag (N2cHandshakeMessage.Refuse _) = ''Refuse''"
| "n2c_message_tag (N2cHandshakeMessage.QueryReply _) = ''QueryReply''"

fun handshake_agency_tag :: "HandshakeAgency \<Rightarrow> string" where
  "handshake_agency_tag ClientHasAgency = ''ClientHasAgency''"
| "handshake_agency_tag ServerHasAgency = ''ServerHasAgency''"
| "handshake_agency_tag NobodyHasAgency = ''NobodyHasAgency''"

definition n2n_transition ::
  "HandshakeState \<Rightarrow> HandshakeAgency \<Rightarrow> (u16 \<times> VersionData) list \<Rightarrow> HandshakeMessage
     \<Rightarrow> (HandshakeState \<times> N2nHandshakeOutput, HandshakeError) result" where
  "n2n_transition state agency supported msg =
     (case (state, msg, agency) of
        (Idle, HandshakeMessage.ProposeVersions table, ClientHasAgency) \<Rightarrow>
          (if table = [] then Err (MalformedMessage ''ProposeVersions carried an empty version table'')
           else (case select_n2n_version table supported of
                   SelectionOutcome.Selected v data \<Rightarrow> Ok (HandshakeState.Done, N2nHandshakeOutput.Selected v data)
                 | Mismatch _ \<Rightarrow>
                     Err (VersionMismatch (proposed_n2n_versions table) (supported_n2n_versions supported))))
      | (Proposed, HandshakeMessage.AcceptVersion ver _, ServerHasAgency) \<Rightarrow>
          (case map_of supported ver of
             Some data_local \<Rightarrow> Ok (HandshakeState.Done, N2nHandshakeOutput.Selected ver data_local)
           | None \<Rightarrow> Err (UnknownVersion ver))
      | (Proposed, HandshakeMessage.Refuse reason, ServerHasAgency) \<Rightarrow>
          Ok (HandshakeState.Refused, N2nHandshakeOutput.Refused reason)
      | (Proposed, HandshakeMessage.QueryReply _, ServerHasAgency) \<Rightarrow>
          Ok (HandshakeState.Refused, N2nHandshakeOutput.Refused (RefuseReason.VersionMismatch []))
      | _ \<Rightarrow> Err (IllegalTransition state (n2n_message_tag msg) (handshake_agency_tag agency)))"

definition n2c_transition ::
  "HandshakeState \<Rightarrow> HandshakeAgency \<Rightarrow> (u16 \<times> N2cVersionData) list \<Rightarrow> N2cHandshakeMessage
     \<Rightarrow> (HandshakeState \<times> N2cHandshakeOutput, HandshakeError) result" where
  "n2c_transition state agency supported msg =
     (case (state, msg, agency) of
        (Idle, N2cHandshakeMessage.ProposeVersions table, ClientHasAgency) \<Rightarrow>
          (if table = [] then Err (MalformedMessage ''ProposeVersions carried an empty version table'')
           else (case select_n2c_version table supported of
                   SelectionOutcome.Selected v data \<Rightarrow> Ok (HandshakeState.Done, N2cHandshakeOutput.Selected v data)
                 | Mismatch _ \<Rightarrow>
                     Err (VersionMismatch (proposed_n2c_versions table) (supported_n2c_versions supported))))
      | (Proposed, N2cHandshakeMessage.AcceptVersion ver _, ServerHasAgency) \<Rightarrow>
          (case map_of supported ver of
             Some data_local \<Rightarrow> Ok (HandshakeState.Done, N2cHandshakeOutput.Selected ver data_local)
           | None \<Rightarrow> Err (UnknownVersion ver))
      | (Proposed, N2cHandshakeMessage.Refuse reason, ServerHasAgency) \<Rightarrow>
          Ok (HandshakeState.Refused, N2cHandshakeOutput.Refused reason)
      | (Proposed, N2cHandshakeMessage.QueryReply _, ServerHasAgency) \<Rightarrow>
          Ok (HandshakeState.Refused, N2cHandshakeOutput.Refused (N2cRefuseReason.VersionMismatch []))
      | _ \<Rightarrow> Err (IllegalTransition state (n2c_message_tag msg) (handshake_agency_tag agency)))"

section \<open>The supported versions\<close>

definition MAINNET_NETWORK_MAGIC :: u32 where "MAINNET_NETWORK_MAGIC = 764824073"

definition n2n :: "u32 \<Rightarrow> VersionData" where
  "n2n version_magic = \<lparr>vd_network_magic = version_magic, vd_initiator_only_diffusion = False,
     vd_peer_sharing = NoPeerSharing, vd_query = False, vd_peras_support = False\<rparr>"

definition N2N_SUPPORTED :: "(u16 \<times> VersionData) list" where
  "N2N_SUPPORTED =
     [(11, n2n MAINNET_NETWORK_MAGIC), (12, n2n MAINNET_NETWORK_MAGIC), (13, n2n MAINNET_NETWORK_MAGIC),
      (14, n2n MAINNET_NETWORK_MAGIC), (15, n2n MAINNET_NETWORK_MAGIC), (16, n2n MAINNET_NETWORK_MAGIC)]"

definition n2n_supported_for_magic :: "u32 \<Rightarrow> (u16 \<times> VersionData) list" where
  "n2n_supported_for_magic network_magic = map (\<lambda>(version, _). (version, n2n network_magic)) N2N_SUPPORTED"

definition encode_n2n_version_params :: "u16 \<Rightarrow> u32 \<Rightarrow> VersionParams" where
  "encode_n2n_version_params version network_magic =
     (let field_count = (if 16 \<le> version then 5 else 4);
          buf = encode_array_header [] field_count;
          buf = encode_u64 buf (ucast network_magic);
          buf = encode_bool buf True;
          buf = encode_u64 buf 0;
          buf = encode_bool buf False
      in if 16 \<le> version then encode_bool buf False else buf)"

definition n2c :: "u32 \<Rightarrow> N2cVersionData" where
  "n2c version_magic = \<lparr>n2c_network_magic = version_magic, n2c_query = False\<rparr>"

definition N2C_SUPPORTED :: "(u16 \<times> N2cVersionData) list" where
  "N2C_SUPPORTED =
     [(16, n2c MAINNET_NETWORK_MAGIC), (17, n2c MAINNET_NETWORK_MAGIC), (18, n2c MAINNET_NETWORK_MAGIC),
      (19, n2c MAINNET_NETWORK_MAGIC), (20, n2c MAINNET_NETWORK_MAGIC), (21, n2c MAINNET_NETWORK_MAGIC),
      (22, n2c MAINNET_NETWORK_MAGIC), (23, n2c MAINNET_NETWORK_MAGIC)]"

section \<open>Lemmas\<close>

definition best_ok :: "u16 set \<Rightarrow> (u16 \<times> 'd) list \<Rightarrow> (u16 \<times> 'd) option \<Rightarrow> bool" where
  "best_ok seen supported best \<longleftrightarrow>
     (case best of
        None \<Rightarrow> \<forall>v\<in>seen. map_of supported v = None
      | Some (b, d) \<Rightarrow> b \<in> seen \<and> map_of supported b = Some d \<and> (\<forall>v\<in>seen. map_of supported v \<noteq> None \<longrightarrow> v \<le> b))"

lemma select_local_eq:
  "select_local pv supported best =
     (if case best of Some (b, _) \<Rightarrow> b < pv | None \<Rightarrow> True
      then case map_of supported pv of Some d \<Rightarrow> Some (pv, d) | None \<Rightarrow> best
      else best)"
  by (induction pv supported best rule: select_local.induct) (auto split: option.splits)

lemma select_local_ok:
  "best_ok seen supported best \<Longrightarrow> best_ok (insert pv seen) supported (select_local pv supported best)"
  by (cases "map_of supported pv"; cases best)
    (auto simp: best_ok_def select_local_eq not_less intro: order.trans less_imp_le)

lemma select_proposed_ok:
  "best_ok seen supported best \<Longrightarrow>
     best_ok (seen \<union> fst ` set proposed) supported (select_proposed proposed supported best)"
proof (induction proposed supported best arbitrary: seen rule: select_proposed.induct)
  case (2 pv uu proposed supported best)
  from "2.IH" [OF select_local_ok [OF "2.prems", of pv]] show ?case by simp
qed simp

lemma select_proposed_best: "best_ok (fst ` set proposed) supported (select_proposed proposed supported None)"
  using select_proposed_ok [of "{}" supported None proposed] by (simp add: best_ok_def)

text \<open>The highest common version, with the first entry the supported list has for it.\<close>

definition highest_common :: "u16 list \<Rightarrow> u16 list \<Rightarrow> u16 \<Rightarrow> bool" where
  "highest_common proposed supported v \<longleftrightarrow>
     v \<in> set proposed \<and> v \<in> set supported \<and> (\<forall>w\<in>set proposed \<inter> set supported. w \<le> v)"

lemma highest_common_commute: "highest_common ps ss v = highest_common ss ps v"
  by (auto simp: highest_common_def)

lemma map_of_dom: "map_of xs v \<noteq> None \<longleftrightarrow> v \<in> set (map fst xs)"
  by (simp add: map_of_eq_None_iff)

lemma select_proposed_Some:
  "select_proposed proposed supported None = Some (v, d) \<longleftrightarrow>
     highest_common (map fst proposed) (map fst supported) v \<and> map_of supported v = Some d"
proof
  assume "select_proposed proposed supported None = Some (v, d)"
  with select_proposed_best [of proposed supported] map_of_dom [of supported]
  show "highest_common (map fst proposed) (map fst supported) v \<and> map_of supported v = Some d"
    by (auto simp: best_ok_def highest_common_def)
next
  assume h: "highest_common (map fst proposed) (map fst supported) v \<and> map_of supported v = Some d"
  show "select_proposed proposed supported None = Some (v, d)"
  proof (cases "select_proposed proposed supported None")
    case None
    with select_proposed_best [of proposed supported] h show ?thesis
      by (auto simp: best_ok_def highest_common_def)
  next
    case (Some p)
    obtain b d' where p: "p = (b, d')" by (cases p)
    with Some select_proposed_best [of proposed supported] h
    have b: "b \<in> set (map fst proposed)" "map_of supported b = Some d'" "v \<le> b"
      by (auto simp: best_ok_def highest_common_def)
    moreover have "b \<le> v"
      using h b map_of_dom [of supported b] by (auto simp: highest_common_def)
    ultimately have "b = v" by simp
    with Some p b h show ?thesis by simp
  qed
qed

lemma select_proposed_None:
  "select_proposed proposed supported None = None \<longleftrightarrow> set (map fst proposed) \<inter> set (map fst supported) = {}"
proof
  assume "select_proposed proposed supported None = None"
  with select_proposed_best [of proposed supported] have "\<forall>v\<in>set (map fst proposed). map_of supported v = None"
    by (simp add: best_ok_def)
  then show "set (map fst proposed) \<inter> set (map fst supported) = {}" by (metis map_of_dom disjoint_iff)
next
  assume "set (map fst proposed) \<inter> set (map fst supported) = {}"
  then have "\<not> highest_common (map fst proposed) (map fst supported) v" for v by (auto simp: highest_common_def)
  then show "select_proposed proposed supported None = None"
    by (cases "select_proposed proposed supported None") (auto simp: select_proposed_Some)
qed

section \<open>Properties\<close>

text \<open>
  The responder picks the highest common version: on a proposal with at least one version it
  either selects the version \<open>v\<close> that both tables have and that no common version exceeds,
  with its own data for \<open>v\<close>, or reports a mismatch with both version lists, and it does so exactly
  when no version is common. The version does not depend on which side proposes. An initiator that
  receives the acceptance of \<open>v\<close> selects \<open>v\<close> with its own data if it supports \<open>v\<close>, and refuses it as
  unknown otherwise.
\<close>

theorem handshake_selects_highest_common:
  assumes "table \<noteq> []"
  shows "(case n2n_transition Idle ClientHasAgency supported (HandshakeMessage.ProposeVersions table) of
      Ok r \<Rightarrow> \<exists>v d. r = (HandshakeState.Done, N2nHandshakeOutput.Selected v d)
        \<and> highest_common (map fst table) (map fst supported) v
        \<and> highest_common (map fst supported) (map fst table) v \<and> map_of supported v = Some d
    | Err e \<Rightarrow> e = HandshakeError.VersionMismatch (map fst table) (map fst supported)
        \<and> set (map fst table) \<inter> set (map fst supported) = {})
    \<and> n2n_transition Proposed ServerHasAgency own (HandshakeMessage.AcceptVersion v params)
      = (if v \<in> set (map fst own)
         then Ok (HandshakeState.Done, N2nHandshakeOutput.Selected v (the (map_of own v)))
         else Err (UnknownVersion v))"
proof -
  have "(v \<in> set (map fst own)) = (map_of own v \<noteq> None)" using map_of_dom [of own v] by blast
  then have accept: "n2n_transition Proposed ServerHasAgency own (HandshakeMessage.AcceptVersion v params)
      = (if v \<in> set (map fst own)
         then Ok (HandshakeState.Done, N2nHandshakeOutput.Selected v (the (map_of own v)))
         else Err (UnknownVersion v))"
    by (cases "map_of own v") (simp_all add: n2n_transition_def del: set_map)
  show ?thesis
  proof (cases "select_proposed table supported None")
    case None
    with assms have "n2n_transition Idle ClientHasAgency supported (HandshakeMessage.ProposeVersions table)
        = Err (HandshakeError.VersionMismatch (map fst table) (map fst supported))"
      by (simp add: n2n_transition_def select_n2n_version_def proposed_n2n_versions_def supported_n2n_versions_def)
    with None accept show ?thesis by (simp add: select_proposed_None)
  next
    case (Some p)
    obtain b d where p: "p = (b, d)" by (cases p)
    with Some assms have "n2n_transition Idle ClientHasAgency supported (HandshakeMessage.ProposeVersions table)
        = Ok (HandshakeState.Done, N2nHandshakeOutput.Selected b d)"
      by (simp add: n2n_transition_def select_n2n_version_def)
    with Some p accept show ?thesis
      by (simp add: select_proposed_Some highest_common_commute [of "map fst supported"])
  qed
qed

theorem handshake_selects_highest_common_witness:
  "\<exists>d. n2n_transition Idle ClientHasAgency N2N_SUPPORTED
     (HandshakeMessage.ProposeVersions [(14, [1]), (13, [1]), (99, [1])])
   = Ok (HandshakeState.Done, N2nHandshakeOutput.Selected 14 d) \<and> map_of N2N_SUPPORTED 14 = Some d"
proof -
  let ?t = "[(14, [1]), (13, [1]), (99, [1])] :: VersionTable"
  have "n2n_transition Idle ClientHasAgency N2N_SUPPORTED (HandshakeMessage.ProposeVersions ?t)
      = Ok (HandshakeState.Done, N2nHandshakeOutput.Selected 14 (n2n MAINNET_NETWORK_MAGIC))"
    by (simp add: n2n_transition_def select_n2n_version_def N2N_SUPPORTED_def)
  moreover have "?t \<noteq> []" by simp
  ultimately show ?thesis using handshake_selects_highest_common [of ?t N2N_SUPPORTED] by simp
qed

end
