(* ===== verification/Mux_Frame.thy ===== *)
theory Mux_Frame
  imports Prelude
begin

text \<open>
  The multiplexer's frames: \<^verbatim>\<open>mux/frame.rs\<close> and the frame buffer of
  \<^verbatim>\<open>session/demux.rs\<close> of \<^verbatim>\<open>ade_network\<close>. Decoding is exact: what decodes is the encoding of
  the frame followed by the remaining bytes. The buffer yields the frames of the byte stream,
  however the stream was cut into chunks.
\<close>

section \<open>Frames\<close>

datatype MuxMode = Initiator | Responder

type_synonym MiniProtocolId = u16

datatype MuxError =
    Truncated nat nat
  | PayloadTooLarge nat
  | InvalidMiniProtocolId u16

definition MiniProtocolId_MAX :: u16 where "MiniProtocolId_MAX = 0x7FFF"

definition MiniProtocolId_new :: "u16 \<Rightarrow> (MiniProtocolId, MuxError) result" where
  "MiniProtocolId_new i = (if MiniProtocolId_MAX < i then Err (InvalidMiniProtocolId i) else Ok i)"

record MuxHeader =
  mh_timestamp :: u32
  mh_mode :: MuxMode
  mh_mini_protocol_id :: MiniProtocolId
  mh_length :: u16

record MuxFrame =
  mf_header :: MuxHeader
  mf_payload :: bytes

definition HEADER_LEN :: nat where "HEADER_LEN = 8"
definition MAX_PAYLOAD :: nat where "MAX_PAYLOAD = 65535"
definition MODE_BIT :: u16 where "MODE_BIT = 0x8000"
definition ID_MASK :: u16 where "ID_MASK = 0x7FFF"

definition encode_frame :: "MuxFrame \<Rightarrow> (bytes, MuxError) result" where
  "encode_frame frame =
     (if MAX_PAYLOAD < length (mf_payload frame) then Err (PayloadTooLarge (length (mf_payload frame)))
      else let len = mh_length (mf_header frame) in
      if unat len \<noteq> length (mf_payload frame)
      then Err (Truncated (unat len) (length (mf_payload frame)))
      else
        (let mode_bit = (case mh_mode (mf_header frame) of Initiator \<Rightarrow> 0 | Responder \<Rightarrow> MODE_BIT);
             id_word = mode_bit OR (mh_mini_protocol_id (mf_header frame) AND ID_MASK)
         in Ok (be_bytes 4 (unat (mh_timestamp (mf_header frame))) @ be_bytes 2 (unat id_word)
                  @ be_bytes 2 (unat len) @ mf_payload frame)))"

text \<open>The end of the payload is at most \<open>8 + 65535\<close>, so the checked addition of the source succeeds.\<close>

definition decode_frame :: "bytes \<Rightarrow> (MuxFrame \<times> bytes, MuxError) result" where
  "decode_frame bytes =
     (if length bytes < HEADER_LEN then Err (Truncated HEADER_LEN (length bytes))
      else
        (let timestamp = word_of_nat (be_nat (take 4 bytes));
             id_word = word_of_nat (be_nat (take 2 (drop 4 bytes))) :: u16;
             mode = (if id_word AND MODE_BIT \<noteq> 0 then Responder else Initiator);
             mini_protocol_id = id_word AND ID_MASK;
             len = word_of_nat (be_nat (take 2 (drop 6 bytes))) :: u16;
             payload_end = HEADER_LEN + unat len
         in if length bytes < payload_end then Err (Truncated payload_end (length bytes))
            else Ok (\<lparr>mf_header = \<lparr>mh_timestamp = timestamp, mh_mode = mode,
                        mh_mini_protocol_id = mini_protocol_id, mh_length = len\<rparr>,
                      mf_payload = take (unat len) (drop HEADER_LEN bytes)\<rparr>,
                     drop payload_end bytes)))"

section \<open>The frame buffer\<close>

record FrameBuffer =
  fb_pending :: bytes

definition FrameBuffer_new :: FrameBuffer where
  "FrameBuffer_new = \<lparr>fb_pending = []\<rparr>"

definition append_bytes :: "FrameBuffer \<Rightarrow> bytes \<Rightarrow> FrameBuffer" where
  "append_bytes fb bytes = fb\<lparr>fb_pending := fb_pending fb @ bytes\<rparr>"

definition pull_one_frame :: "FrameBuffer \<Rightarrow> (MuxFrame option \<times> FrameBuffer, MuxError) result" where
  "pull_one_frame fb =
     (if length (fb_pending fb) < HEADER_LEN then Ok (None, fb)
      else case decode_frame (fb_pending fb) of
        Ok parsed \<Rightarrow>
          (let frame = fst parsed; consumed = HEADER_LEN + length (mf_payload frame)
           in Ok (Some frame, fb\<lparr>fb_pending := drop consumed (fb_pending fb)\<rparr>))
      | Err e \<Rightarrow> (case e of Truncated _ _ \<Rightarrow> Ok (None, fb) | _ \<Rightarrow> Err e))"

lemma pull_one_frame_shrinks:
  assumes "pull_one_frame fb = Ok (Some frame, fb')"
  shows "length (fb_pending fb') < length (fb_pending fb)"
  using assms
  by (auto simp: pull_one_frame_def HEADER_LEN_def Let_def split: if_splits sum.splits MuxError.splits)

function pull_all_complete_frames :: "FrameBuffer \<Rightarrow> (MuxFrame list \<times> FrameBuffer, MuxError) result" where
  "pull_all_complete_frames fb =
     (case pull_one_frame fb of
        Err e \<Rightarrow> Err e
      | Ok (None, fb') \<Rightarrow> Ok ([], fb')
      | Ok (Some f, fb') \<Rightarrow>
          rbind (pull_all_complete_frames fb') (\<lambda>(out, fb''). Ok (f # out, fb'')))"
  by pat_completeness auto
termination
  by (relation "measure (\<lambda>fb. length (fb_pending fb))") (auto dest: pull_one_frame_shrinks)

declare pull_all_complete_frames.simps [simp del]

section \<open>Decoding is exact\<close>

lemma bit_mode: "bit (0x8000 :: u16) n \<longleftrightarrow> n = 15"
proof -
  have "bit (push_bit 15 1 :: u16) n \<longleftrightarrow> n = 15" unfolding bit_push_bit_iff bit_1_iff by auto
  then show ?thesis by simp
qed

lemma bit_id_mask: "bit (0x7FFF :: u16) n \<longleftrightarrow> n < 15"
proof -
  have "(0x7FFF :: u16) = mask 15" by (simp add: mask_eq_exp_minus_1)
  then show ?thesis by (simp only: bit_mask_iff) auto
qed

definition id_word :: "MuxMode \<Rightarrow> u16 \<Rightarrow> u16" where
  "id_word mode i = (case mode of Initiator \<Rightarrow> 0 | Responder \<Rightarrow> 0x8000) OR (i AND 0x7FFF)"

lemma bit_id_word: "bit (id_word mode i) n \<longleftrightarrow> (n = 15 \<and> mode = Responder) \<or> (n < 15 \<and> bit i n)"
  unfolding id_word_def
  by (cases mode; simp only: MuxMode.case bit_or_iff bit_and_iff bit_mode bit_id_mask bit_0_eq bot_apply) auto

lemma mode_bit_set: "w AND 0x8000 \<noteq> 0 \<longleftrightarrow> bit w 15" for w :: u16
  unfolding bit_eq_iff by (simp only: bit_and_iff bit_mode bit_0_eq bot_apply) auto

lemma id_word_mode: "id_word mode i AND 0x8000 \<noteq> 0 \<longleftrightarrow> mode = Responder"
  by (simp add: mode_bit_set bit_id_word)

lemma id_word_id:
  assumes "i \<le> 0x7FFF"
  shows "id_word mode i AND 0x7FFF = i"
proof -
  have "take_bit 15 i = i"
    using assms by (simp add: word_unat_eq_iff unsigned_take_bit_eq take_bit_nat_eq_self word_le_nat_alt)
  then have "bit i n \<Longrightarrow> n < 15" for n by (metis bit_take_bit_iff)
  then show ?thesis
    by (intro bit_word_eqI) (simp only: bit_and_iff bit_id_mask bit_id_word, auto)
qed

lemma id_word_split: "id_word (if w AND 0x8000 \<noteq> 0 then Responder else Initiator) (w AND 0x7FFF) = w"
  unfolding mode_bit_set
proof (rule bit_word_eqI)
  fix n assume "n < LENGTH(16)"
  then have "n = 15 \<or> n < 15" by auto
  then show "bit (id_word (if bit w 15 then Responder else Initiator) (w AND 0x7FFF)) n = bit w n"
    by (simp only: bit_id_word bit_and_iff bit_id_mask) auto
qed

lemma encode_frame_Ok:
  "encode_frame f = Ok enc \<longleftrightarrow> unat (mh_length (mf_header f)) = length (mf_payload f)
     \<and> enc = be_bytes 4 (unat (mh_timestamp (mf_header f)))
         @ be_bytes 2 (unat (id_word (mh_mode (mf_header f)) (mh_mini_protocol_id (mf_header f))))
         @ be_bytes 2 (unat (mh_length (mf_header f))) @ mf_payload f"
proof -
  have "unat (mh_length (mf_header f)) \<le> 65535" using unsigned_less [of "mh_length (mf_header f)", where 'a = nat] by simp
  then show ?thesis
    unfolding encode_frame_def MODE_BIT_def ID_MASK_def id_word_def by (auto simp: Let_def MAX_PAYLOAD_def)
qed

lemma be_word:
  "length bs = 4 \<Longrightarrow> be_bytes 4 (unat (word_of_nat (be_nat bs) :: u32)) = bs"
  "length bs = 2 \<Longrightarrow> be_bytes 2 (unat (word_of_nat (be_nat bs) :: u16)) = bs"
  using be_nat_less [of bs] be_bytes_be_nat [of bs] by (auto simp: unat_of_nat)

lemma word_be:
  "word_of_nat (be_nat (be_bytes 4 (unat (t :: u32)))) = t"
  "word_of_nat (be_nat (be_bytes 2 (unat (w :: u16)))) = w"
  using unsigned_less [of t, where 'a = nat] unsigned_less [of w, where 'a = nat] by (simp_all add: be_nat_be_bytes)

lemma take_header: "take (8 + n) bs = take 4 bs @ take 2 (drop 4 bs) @ take 2 (drop 6 bs) @ take n (drop 8 bs)"
proof -
  have "8 + n = 4 + (2 + (2 + n))" by simp
  then show ?thesis by (simp only: take_add drop_drop) simp
qed

lemma decode_frame_encoded:
  assumes "decode_frame bs = Ok (f, rest)"
  shows "encode_frame f = Ok (take (8 + length (mf_payload f)) bs)" and "bs = take (8 + length (mf_payload f)) bs @ rest"
    and "mh_mini_protocol_id (mf_header f) \<le> 0x7FFF"
proof -
  let ?t = "word_of_nat (be_nat (take 4 bs)) :: u32" and ?w = "word_of_nat (be_nat (take 2 (drop 4 bs))) :: u16"
  let ?n = "word_of_nat (be_nat (take 2 (drop 6 bs))) :: u16"
  have len: "8 + unat ?n \<le> length bs" and rest: "rest = drop (8 + unat ?n) bs"
    and f: "f = \<lparr>mf_header = \<lparr>mh_timestamp = ?t, mh_mode = (if ?w AND 0x8000 \<noteq> 0 then Responder else Initiator),
        mh_mini_protocol_id = ?w AND 0x7FFF, mh_length = ?n\<rparr>, mf_payload = take (unat ?n) (drop 8 bs)\<rparr>"
    using assms unfolding decode_frame_def MODE_BIT_def ID_MASK_def HEADER_LEN_def Let_def
    by (auto split: if_splits)
  then have p: "length (mf_payload f) = unat ?n" by simp
  have "take (8 + unat ?n) bs = take 4 bs @ take 2 (drop 4 bs) @ take 2 (drop 6 bs) @ take (unat ?n) (drop 8 bs)"
    by (rule take_header)
  moreover have "be_bytes 2 (unat (id_word (if ?w AND 0x8000 \<noteq> 0 then Responder else Initiator) (?w AND 0x7FFF)))
      = take 2 (drop 4 bs)"
    unfolding id_word_split using len by (intro be_word) simp
  ultimately show "encode_frame f = Ok (take (8 + length (mf_payload f)) bs)"
    unfolding encode_frame_Ok p using len by (simp add: f be_word)
  show "bs = take (8 + length (mf_payload f)) bs @ rest" by (simp add: p rest)
  have "?w AND 0x7FFF \<le> 0x7FFF" by (rule word_and_le1)
  then show "mh_mini_protocol_id (mf_header f) \<le> 0x7FFF" by (simp add: f)
qed

lemma decode_encode_frame:
  assumes "encode_frame f = Ok enc" and "mh_mini_protocol_id (mf_header f) \<le> 0x7FFF"
  shows "decode_frame (enc @ rest) = Ok (f, rest)"
proof -
  let ?h = "mf_header f"
  let ?a = "be_bytes 4 (unat (mh_timestamp ?h))" and ?c = "be_bytes 2 (unat (mh_length ?h))"
    and ?b = "be_bytes 2 (unat (id_word (mh_mode ?h) (mh_mini_protocol_id ?h)))"
  have n: "unat (mh_length ?h) = length (mf_payload f)" and enc: "enc @ rest = ?a @ ?b @ ?c @ mf_payload f @ rest"
    using assms(1) by (simp_all add: encode_frame_Ok)
  have parts: "take 4 (enc @ rest) = ?a" "take 2 (drop 4 (enc @ rest)) = ?b" "take 2 (drop 6 (enc @ rest)) = ?c"
    "drop 8 (enc @ rest) = mf_payload f @ rest" "length (enc @ rest) = 8 + length (mf_payload f) + length rest"
    unfolding enc by simp_all
  have m: "(if id_word (mh_mode ?h) (mh_mini_protocol_id ?h) AND 0x8000 \<noteq> 0 then Responder else Initiator) = mh_mode ?h"
    by (cases "mh_mode ?h") (simp_all add: id_word_mode)
  have "drop (8 + length (mf_payload f)) (enc @ rest) = rest"
    using parts(4) by (metis add.commute append_eq_conv_conj drop_drop)
  then show ?thesis
    using m n
    unfolding decode_frame_def HEADER_LEN_def MODE_BIT_def ID_MASK_def Let_def parts word_be id_word_id [OF assms(2)]
    by simp
qed

lemma decode_frame_Err: "decode_frame bs = Err e \<Longrightarrow> \<exists>needed got. e = Truncated needed got"
  by (auto simp: decode_frame_def Let_def split: if_splits)

section \<open>The buffer yields the stream's frames\<close>

lemma pull_one_frame_eq:
  "pull_one_frame \<lparr>fb_pending = bs\<rparr> =
     (case decode_frame bs of
        Ok (f, rest) \<Rightarrow> Ok (Some f, \<lparr>fb_pending = rest\<rparr>)
      | Err _ \<Rightarrow> Ok (None, \<lparr>fb_pending = bs\<rparr>))"
proof (cases "decode_frame bs")
  case (Inl e)
  then show ?thesis using decode_frame_Err [of bs e] by (auto simp: pull_one_frame_def)
next
  case (Inr r)
  obtain f rest where r: "r = (f, rest)" by (cases r)
  with Inr have d: "decode_frame bs = Ok (f, rest)" by simp
  note e = decode_frame_encoded [OF d]
  have "drop (8 + length (mf_payload f)) bs = rest"
    using e(1,2) by (metis append_eq_conv_conj append_take_drop_id same_append_eq)
  moreover have "\<not> length bs < 8" using d by (auto simp: decode_frame_def HEADER_LEN_def)
  ultimately show ?thesis using d by (simp add: pull_one_frame_def HEADER_LEN_def)
qed

text \<open>A stream that is a sequence of encoded frames and an incomplete rest.\<close>

definition framed :: "bytes \<Rightarrow> MuxFrame list \<Rightarrow> bytes \<Rightarrow> bool" where
  "framed bs fs tail \<longleftrightarrow>
     (\<exists>encs. map encode_frame fs = map Inr encs \<and> bs = concat encs @ tail)
     \<and> (\<forall>f\<in>set fs. mh_mini_protocol_id (mf_header f) \<le> 0x7FFF) \<and> (\<forall>r. decode_frame tail \<noteq> Ok r)"

lemma framed_Nil: "framed bs [] tail \<longleftrightarrow> bs = tail \<and> (\<forall>r. decode_frame tail \<noteq> Ok r)"
  by (auto simp: framed_def)

lemma framed_Cons: "framed bs (f # fs) tail \<longleftrightarrow> (\<exists>rest. decode_frame bs = Ok (f, rest) \<and> framed rest fs tail)"
proof
  assume "framed bs (f # fs) tail"
  then obtain enc encs where "encode_frame f = Ok enc" "map encode_frame fs = map Inr encs"
    "bs = enc @ concat encs @ tail" "mh_mini_protocol_id (mf_header f) \<le> 0x7FFF"
    "\<forall>f\<in>set fs. mh_mini_protocol_id (mf_header f) \<le> 0x7FFF" "\<forall>r. decode_frame tail \<noteq> Ok r"
    by (auto simp: framed_def Cons_eq_map_conv)
  then show "\<exists>rest. decode_frame bs = Ok (f, rest) \<and> framed rest fs tail"
    by (auto simp: framed_def decode_encode_frame)
next
  assume "\<exists>rest. decode_frame bs = Ok (f, rest) \<and> framed rest fs tail"
  then obtain rest where d: "decode_frame bs = Ok (f, rest)" and fr: "framed rest fs tail" by blast
  note e = decode_frame_encoded [OF d]
  from fr obtain encs where encs: "map encode_frame fs = map Inr encs" "rest = concat encs @ tail"
    by (auto simp: framed_def)
  have "map encode_frame (f # fs) = map Inr (take (8 + length (mf_payload f)) bs # encs)"
    using e(1) encs(1) by simp
  moreover have "bs = concat (take (8 + length (mf_payload f)) bs # encs) @ tail" using e(2) encs(2) by simp
  ultimately have "\<exists>encs. map encode_frame (f # fs) = map Inr encs \<and> bs = concat encs @ tail" by (intro exI conjI)
  with fr e(3) show "framed bs (f # fs) tail" unfolding framed_def by auto
qed

lemma framed_append:
  "framed bs fs tail \<Longrightarrow> framed (tail @ bs') fs' tail' \<Longrightarrow> framed (bs @ bs') (fs @ fs') tail'"
  by (auto simp: framed_def) (metis append.assoc concat_append map_append)

lemma pull_all_framed:
  "\<exists>fs tail. pull_all_complete_frames fb = Ok (fs, \<lparr>fb_pending = tail\<rparr>) \<and> framed (fb_pending fb) fs tail"
proof (induction fb rule: pull_all_complete_frames.induct)
  case (1 fb)
  obtain bs where fb: "fb = \<lparr>fb_pending = bs\<rparr>" by (cases fb) auto
  show ?case
  proof (cases "decode_frame bs")
    case (Inl e)
    then show ?thesis
      by (subst pull_all_complete_frames.simps) (simp add: fb pull_one_frame_eq framed_Nil)
  next
    case (Inr r)
    obtain f rest where r: "r = (f, rest)" by (cases r)
    with Inr fb have "pull_one_frame fb = Ok (Some f, \<lparr>fb_pending = rest\<rparr>)" by (simp add: pull_one_frame_eq)
    with "1.IH" obtain fs tail where "pull_all_complete_frames \<lparr>fb_pending = rest\<rparr> = Ok (fs, \<lparr>fb_pending = tail\<rparr>)"
      "framed rest fs tail" by fastforce
    with Inr r show ?thesis
      by (subst pull_all_complete_frames.simps) (auto simp: fb pull_one_frame_eq framed_Cons)
  qed
qed

lemma framed_unique: "framed bs fs tail \<Longrightarrow> framed bs fs' tail' \<Longrightarrow> fs = fs' \<and> tail = tail'"
proof (induction fs arbitrary: bs fs')
  case Nil
  then show ?case by (cases fs') (auto simp: framed_Nil framed_Cons)
next
  case (Cons f fs)
  then show ?case by (cases fs') (auto simp: framed_Nil framed_Cons)
qed

lemma pull_all_iff_framed:
  "pull_all_complete_frames fb = Ok (fs, fb') \<longleftrightarrow> framed (fb_pending fb) fs (fb_pending fb')"
  using pull_all_framed [of fb] framed_unique by (metis (no_types, lifting) FrameBuffer.cases FrameBuffer.select_convs(1) Inr_inject prod.inject)

text \<open>Pulling after every chunk that arrives.\<close>

fun feed_chunks :: "FrameBuffer \<Rightarrow> bytes list \<Rightarrow> (MuxFrame list \<times> FrameBuffer, MuxError) result" where
  "feed_chunks fb [] = Ok ([], fb)"
| "feed_chunks fb (chunk # chunks) =
     rbind (pull_all_complete_frames (append_bytes fb chunk)) (\<lambda>(fs, fb).
     rbind (feed_chunks fb chunks) (\<lambda>(fs', fb). Ok (fs @ fs', fb)))"

lemma feed_chunks_framed:
  assumes "\<forall>r. decode_frame (fb_pending fb) \<noteq> Ok r"
  shows "\<exists>fs fb'. feed_chunks fb chunks = Ok (fs, fb') \<and> framed (fb_pending fb @ concat chunks) fs (fb_pending fb')"
  using assms
proof (induction chunks arbitrary: fb)
  case (Cons chunk chunks)
  obtain fs tail where p: "pull_all_complete_frames (append_bytes fb chunk) = Ok (fs, \<lparr>fb_pending = tail\<rparr>)"
    "framed (fb_pending fb @ chunk) fs tail"
    using pull_all_framed [of "append_bytes fb chunk"] by (auto simp: append_bytes_def)
  then have "\<forall>r. decode_frame tail \<noteq> Ok r" by (simp add: framed_def)
  with Cons.IH [of "\<lparr>fb_pending = tail\<rparr>"] obtain fs' fb' where
    "feed_chunks \<lparr>fb_pending = tail\<rparr> chunks = Ok (fs', fb')" "framed (tail @ concat chunks) fs' (fb_pending fb')" by auto
  with p framed_append [OF p(2)] show ?case by auto
qed (simp add: framed_Nil)

section \<open>Properties\<close>

text \<open>
  The multiplexer's byte stream carries exactly its frames: however a stream is cut into chunks,
  pulling frames after every chunk yields a list of frames and a pending rest if and only if the
  stream is the concatenation of the encodings of these frames, with 15-bit protocol ids,
  followed by that rest, and the rest does not hold a complete frame.
\<close>

theorem mux_stream_exact:
  "feed_chunks FrameBuffer_new chunks = Ok (fs, fb) \<longleftrightarrow>
     (\<exists>encs. map encode_frame fs = map Inr encs \<and> concat chunks = concat encs @ fb_pending fb)
     \<and> list_all (\<lambda>f. mh_mini_protocol_id (mf_header f) < 0x8000) fs
     \<and> \<not> is_ok (decode_frame (fb_pending fb))"
proof -
  have "\<forall>r. decode_frame [] \<noteq> Ok r" by (simp add: decode_frame_def HEADER_LEN_def)
  then obtain fs' fb' where f: "feed_chunks FrameBuffer_new chunks = Ok (fs', fb')"
    "framed (concat chunks) fs' (fb_pending fb')"
    using feed_chunks_framed [of FrameBuffer_new chunks] by (auto simp: FrameBuffer_new_def)
  have 1: "feed_chunks FrameBuffer_new chunks = Ok (fs, fb) \<longleftrightarrow> framed (concat chunks) fs (fb_pending fb)"
  proof
    assume "framed (concat chunks) fs (fb_pending fb)"
    with framed_unique [OF f(2)] have "fs' = fs" "fb' = fb" by (auto intro: FrameBuffer.equality)
    with f(1) show "feed_chunks FrameBuffer_new chunks = Ok (fs, fb)" by simp
  qed (use f in simp)
  have 2: "(i :: u16) \<le> 0x7FFF \<longleftrightarrow> i < 0x8000" for i by (simp add: word_le_nat_alt word_less_nat_alt less_Suc_eq_le [symmetric])
  have 3: "(\<forall>r. decode_frame (fb_pending fb) \<noteq> Ok r) \<longleftrightarrow> \<not> is_ok (decode_frame (fb_pending fb))"
    by (cases "decode_frame (fb_pending fb)") auto
  show ?thesis unfolding 1 framed_def 2 3 list_all_iff ..
qed

end
