(* ===== verification/Session.thy ===== *)
theory Session
  imports Handshake Mux_Frame Cbor_Skip
begin

text \<open>
  The session reducer of \<^verbatim>\<open>ade_network/src/session\<close> (\<^verbatim>\<open>event.rs\<close>, \<^verbatim>\<open>state.rs\<close>,
  \<^verbatim>\<open>core.rs\<close>): a connection negotiates a version, then carries the mini-protocols; a message
  longer than a frame is cut into frames on the way out and put together again on the way in.
  The source updates the state in place; the reducer here returns the effects and the new state.
  An error is fatal to the connection (\<^verbatim>\<open>mux_pump.rs\<close> drops the peer on every one), so an error
  result carries no state. \<open>Panic\<close> is a Rust panic, which only the handshake decoder can raise.
\<close>

section \<open>Events and effects\<close>

datatype AcceptedMiniProtocol =
    Handshake
  | ChainSync
  | BlockFetch
  | TxSubmission
  | LocalChainSync
  | LocalTxSubmission
  | LocalStateQuery
  | KeepAlive
  | LocalTxMonitor
  | PeerSharing

definition HANDSHAKE_ID :: u16 where "HANDSHAKE_ID = 0"
definition CHAIN_SYNC_ID :: u16 where "CHAIN_SYNC_ID = 2"
definition BLOCK_FETCH_ID :: u16 where "BLOCK_FETCH_ID = 3"
definition TX_SUBMISSION_ID :: u16 where "TX_SUBMISSION_ID = 4"
definition LOCAL_CHAIN_SYNC_ID :: u16 where "LOCAL_CHAIN_SYNC_ID = 5"
definition LOCAL_TX_SUBMISSION_ID :: u16 where "LOCAL_TX_SUBMISSION_ID = 6"
definition LOCAL_STATE_QUERY_ID :: u16 where "LOCAL_STATE_QUERY_ID = 7"
definition KEEP_ALIVE_ID :: u16 where "KEEP_ALIVE_ID = 8"
definition LOCAL_TX_MONITOR_ID :: u16 where "LOCAL_TX_MONITOR_ID = 9"
definition PEER_SHARING_ID :: u16 where "PEER_SHARING_ID = 10"

lemmas protocol_ids =
  HANDSHAKE_ID_def CHAIN_SYNC_ID_def BLOCK_FETCH_ID_def TX_SUBMISSION_ID_def LOCAL_CHAIN_SYNC_ID_def
  LOCAL_TX_SUBMISSION_ID_def LOCAL_STATE_QUERY_ID_def KEEP_ALIVE_ID_def LOCAL_TX_MONITOR_ID_def PEER_SHARING_ID_def

definition AcceptedMiniProtocol_ALL :: "AcceptedMiniProtocol list" where
  "AcceptedMiniProtocol_ALL =
     [Handshake, ChainSync, BlockFetch, TxSubmission, LocalChainSync, LocalTxSubmission,
      LocalStateQuery, KeepAlive, LocalTxMonitor, PeerSharing]"

fun protocol_id :: "AcceptedMiniProtocol \<Rightarrow> u16" where
  "protocol_id Handshake = HANDSHAKE_ID"
| "protocol_id ChainSync = CHAIN_SYNC_ID"
| "protocol_id BlockFetch = BLOCK_FETCH_ID"
| "protocol_id TxSubmission = TX_SUBMISSION_ID"
| "protocol_id LocalChainSync = LOCAL_CHAIN_SYNC_ID"
| "protocol_id LocalTxSubmission = LOCAL_TX_SUBMISSION_ID"
| "protocol_id LocalStateQuery = LOCAL_STATE_QUERY_ID"
| "protocol_id KeepAlive = KEEP_ALIVE_ID"
| "protocol_id LocalTxMonitor = LOCAL_TX_MONITOR_ID"
| "protocol_id PeerSharing = PEER_SHARING_ID"

definition from_id :: "u16 \<Rightarrow> AcceptedMiniProtocol option" where
  "from_id i =
     (if i = HANDSHAKE_ID then Some Handshake
      else if i = CHAIN_SYNC_ID then Some ChainSync
      else if i = BLOCK_FETCH_ID then Some BlockFetch
      else if i = TX_SUBMISSION_ID then Some TxSubmission
      else if i = LOCAL_CHAIN_SYNC_ID then Some LocalChainSync
      else if i = LOCAL_TX_SUBMISSION_ID then Some LocalTxSubmission
      else if i = LOCAL_STATE_QUERY_ID then Some LocalStateQuery
      else if i = KEEP_ALIVE_ID then Some KeepAlive
      else if i = LOCAL_TX_MONITOR_ID then Some LocalTxMonitor
      else if i = PEER_SHARING_ID then Some PeerSharing
      else None)"

datatype ByteChunkIn =
    Inbound bytes
  | OutboundFrame AcceptedMiniProtocol bytes MuxMode u32
  | HandshakeStartInitiator HandshakeMessage

datatype SessionEffect =
    SendBytes bytes
  | DeliverPeerFrame AcceptedMiniProtocol bytes
  | HandshakeComplete u16 VersionData

datatype SessionError =
    UnknownMiniProtocolId u16
  | PreHandshakeMiniProtocolFrame u16
  | PostHandshakeHandshakeFrame
  | Mux MuxError
  | HandshakeFailed HandshakeError
  | OutboundPayloadTooLarge usize
  | ProtocolPayloadMalformed u16 string
  | ReassemblyBufferOverflow u16 usize usize

datatype HandshakeRole = Initiator | Responder

section \<open>State\<close>

record HandshakeProgress =
  hp_role :: HandshakeRole
  hp_inner :: HandshakeState
  hp_buffer :: FrameBuffer
  hp_proposal_sent :: bool

record ProtoBuffers =
  pb_handshake :: bytes
  pb_chain_sync :: bytes
  pb_block_fetch :: bytes
  pb_tx_submission :: bytes
  pb_local_chain_sync :: bytes
  pb_local_tx_submission :: bytes
  pb_local_state_query :: bytes
  pb_keep_alive :: bytes
  pb_local_tx_monitor :: bytes
  pb_peer_sharing :: bytes

record ConnectedState =
  cs_negotiated_version :: u16
  cs_negotiated_params :: VersionData
  cs_buffer :: FrameBuffer
  cs_next_outbound_seq :: u64
  cs_proto_buffers :: ProtoBuffers

datatype SessionState = Handshaking HandshakeProgress | Connected ConnectedState

definition new_initiator :: SessionState where
  "new_initiator = Handshaking \<lparr>hp_role = Initiator, hp_inner = Idle, hp_buffer = FrameBuffer_new,
     hp_proposal_sent = False\<rparr>"

definition new_responder :: SessionState where
  "new_responder = Handshaking \<lparr>hp_role = Responder, hp_inner = Idle, hp_buffer = FrameBuffer_new,
     hp_proposal_sent = False\<rparr>"

fun is_handshaking :: "SessionState \<Rightarrow> bool" where
  "is_handshaking (Handshaking _) = True"
| "is_handshaking (Connected _) = False"

fun is_connected :: "SessionState \<Rightarrow> bool" where
  "is_connected (Handshaking _) = False"
| "is_connected (Connected _) = True"

definition ProtoBuffers_new :: ProtoBuffers where
  "ProtoBuffers_new = \<lparr>pb_handshake = [], pb_chain_sync = [], pb_block_fetch = [], pb_tx_submission = [],
     pb_local_chain_sync = [], pb_local_tx_submission = [], pb_local_state_query = [], pb_keep_alive = [],
     pb_local_tx_monitor = [], pb_peer_sharing = []\<rparr>"

definition ConnectedState_new :: "u16 \<Rightarrow> VersionData \<Rightarrow> ConnectedState" where
  "ConnectedState_new negotiated_version negotiated_params =
     \<lparr>cs_negotiated_version = negotiated_version, cs_negotiated_params = negotiated_params,
      cs_buffer = FrameBuffer_new, cs_next_outbound_seq = 0, cs_proto_buffers = ProtoBuffers_new\<rparr>"

text \<open>The mutable reference \<^verbatim>\<open>get_mut\<close> returns is read and written by these two functions.\<close>

fun get_buffer :: "ProtoBuffers \<Rightarrow> AcceptedMiniProtocol \<Rightarrow> bytes" where
  "get_buffer b Handshake = pb_handshake b"
| "get_buffer b ChainSync = pb_chain_sync b"
| "get_buffer b BlockFetch = pb_block_fetch b"
| "get_buffer b TxSubmission = pb_tx_submission b"
| "get_buffer b LocalChainSync = pb_local_chain_sync b"
| "get_buffer b LocalTxSubmission = pb_local_tx_submission b"
| "get_buffer b LocalStateQuery = pb_local_state_query b"
| "get_buffer b KeepAlive = pb_keep_alive b"
| "get_buffer b LocalTxMonitor = pb_local_tx_monitor b"
| "get_buffer b PeerSharing = pb_peer_sharing b"

fun set_buffer :: "ProtoBuffers \<Rightarrow> AcceptedMiniProtocol \<Rightarrow> bytes \<Rightarrow> ProtoBuffers" where
  "set_buffer b Handshake bs = b\<lparr>pb_handshake := bs\<rparr>"
| "set_buffer b ChainSync bs = b\<lparr>pb_chain_sync := bs\<rparr>"
| "set_buffer b BlockFetch bs = b\<lparr>pb_block_fetch := bs\<rparr>"
| "set_buffer b TxSubmission bs = b\<lparr>pb_tx_submission := bs\<rparr>"
| "set_buffer b LocalChainSync bs = b\<lparr>pb_local_chain_sync := bs\<rparr>"
| "set_buffer b LocalTxSubmission bs = b\<lparr>pb_local_tx_submission := bs\<rparr>"
| "set_buffer b LocalStateQuery bs = b\<lparr>pb_local_state_query := bs\<rparr>"
| "set_buffer b KeepAlive bs = b\<lparr>pb_keep_alive := bs\<rparr>"
| "set_buffer b LocalTxMonitor bs = b\<lparr>pb_local_tx_monitor := bs\<rparr>"
| "set_buffer b PeerSharing bs = b\<lparr>pb_peer_sharing := bs\<rparr>"

section \<open>The reducer\<close>

definition MAX_REASSEMBLY_TAIL_BYTES :: usize where "MAX_REASSEMBLY_TAIL_BYTES = 16 * 1024 * 1024"
definition MAX_OUTBOUND_PAYLOAD_BYTES :: usize where "MAX_OUTBOUND_PAYLOAD_BYTES = 16 * 1024 * 1024"

fun codec_error_detail :: "CodecError \<Rightarrow> string" where
  "codec_error_detail (UnexpectedEof _ _) = ''unexpected_eof''"
| "codec_error_detail (UnknownEraTag _) = ''unknown_era_tag''"
| "codec_error_detail (UnknownCertTag _ _) = ''unknown_cert_tag''"
| "codec_error_detail (InvalidCborStructure _ _) = ''invalid_cbor_structure''"
| "codec_error_detail (TrailingBytes _ _) = ''trailing_bytes''"
| "codec_error_detail (UnexpectedCborType _ _ _) = ''unexpected_cbor_type''"
| "codec_error_detail (InvalidLength _ _) = ''invalid_length''"
| "codec_error_detail (DuplicateMapKey _) = ''duplicate_map_key''"

text \<open>Every complete item at the head of the buffer is delivered; the loop ends because an item has at least one byte.\<close>

function drain_protocol_items ::
  "AcceptedMiniProtocol \<Rightarrow> bytes \<Rightarrow> (SessionEffect list \<times> bytes, SessionError failure) result" where
  "drain_protocol_items proto buf =
     (if buf = [] then Ok ([], buf)
      else case skip_item buf 0 of
        Ok (_, offset) \<Rightarrow>
          rbind (drain_protocol_items proto (drop offset buf)) (\<lambda>(effects, buf').
            Ok (DeliverPeerFrame proto (take offset buf) # effects, buf'))
      | Err (UnexpectedEof _ _) \<Rightarrow> Ok ([], buf)
      | Err e \<Rightarrow> Err (Fail (ProtocolPayloadMalformed (protocol_id proto) (codec_error_detail e))))"
  by pat_completeness auto
termination
  by (relation "measure (\<lambda>(proto, buf). length buf)") (auto simp: skip_item_Ok dest!: item_bounds)

declare drain_protocol_items.simps [simp del]

definition encode_inner_frame ::
  "AcceptedMiniProtocol \<Rightarrow> bytes \<Rightarrow> MuxMode \<Rightarrow> u32 \<Rightarrow> (bytes, SessionError failure) result" where
  "encode_inner_frame mini_protocol payload mode timestamp =
     (if MAX_PAYLOAD < length payload then Err (Fail (OutboundPayloadTooLarge (length payload)))
      else (case MiniProtocolId_new (protocol_id mini_protocol) of
        Err _ \<Rightarrow> Err (Panic ''closed registry id'')
      | Ok mini_protocol_id \<Rightarrow>
          map_err (\<lambda>e. Fail (Mux e)) (encode_frame
            \<lparr>mf_header = \<lparr>mh_timestamp = timestamp, mh_mode = mode, mh_mini_protocol_id = mini_protocol_id,
               mh_length = word_of_nat (length payload)\<rparr>, mf_payload = payload\<rparr>)))"

definition handshake_agency :: "HandshakeRole \<Rightarrow> HandshakeState \<Rightarrow> HandshakeAgency" where
  "handshake_agency role hs_state =
     (case (role, hs_state) of
        (Responder, Idle) \<Rightarrow> ClientHasAgency
      | (Initiator, Proposed) \<Rightarrow> ServerHasAgency
      | _ \<Rightarrow> NobodyHasAgency)"

text \<open>Only \<open>Reply\<close> goes round the loop again; every round removes a frame from the buffer.\<close>

function drain_handshake_frames ::
  "SessionState \<Rightarrow> (SessionEffect list \<times> SessionState, SessionError failure) result" where
  "drain_handshake_frames (Connected c) = Ok ([], Connected c)"
| "drain_handshake_frames (Handshaking p) =
     (case pull_one_frame (hp_buffer p) of
        Err e \<Rightarrow> Err (Fail (Mux e))
      | Ok (None, buffer) \<Rightarrow> Ok ([], Handshaking (p\<lparr>hp_buffer := buffer\<rparr>))
      | Ok (Some frame, buffer) \<Rightarrow>
          (let i = mh_mini_protocol_id (mf_header frame) in
           if i \<noteq> HANDSHAKE_ID
           then Err (Fail (if from_id i = None then UnknownMiniProtocolId i else PreHandshakeMiniProtocolFrame i))
           else
             rbind (map_err (\<lambda>e. case e of
                 Panic m \<Rightarrow> Panic m
               | Fail _ \<Rightarrow> Fail (HandshakeFailed (MalformedMessage ''handshake frame failed decode'')))
               (decode_handshake_message (mf_payload frame))) (\<lambda>msg.
             rbind (map_err (\<lambda>e. Fail (HandshakeFailed e))
                 (n2n_transition (hp_inner p) (handshake_agency (hp_role p) (hp_inner p)) N2N_SUPPORTED msg))
               (\<lambda>(new_state, output).
             case output of
               N2nHandshakeOutput.Reply reply \<Rightarrow>
                 rbind (encode_inner_frame Handshake (encode_handshake_message reply) MuxMode.Responder 0) (\<lambda>bytes.
                 rbind (drain_handshake_frames (Handshaking (p\<lparr>hp_buffer := buffer, hp_inner := new_state\<rparr>)))
                   (\<lambda>(effects, state). Ok (SendBytes bytes # effects, state)))
             | N2nHandshakeOutput.Selected version params \<Rightarrow>
                 rbind (if hp_role p = Responder
                        then rbind (encode_inner_frame Handshake
                               (encode_handshake_message (HandshakeMessage.AcceptVersion version [0x01])) MuxMode.Responder 0)
                               (\<lambda>bytes. Ok [SendBytes bytes])
                        else Ok [])
                   (\<lambda>sent. Ok (sent @ [HandshakeComplete version params],
                               Connected (ConnectedState_new version params)))
             | _ \<Rightarrow> Err (Fail (HandshakeFailed (MalformedMessage ''handshake refused'')))))))"
  by pat_completeness auto
termination
  by (relation "measure (\<lambda>s. case s of Handshaking p \<Rightarrow> length (fb_pending (hp_buffer p)) | Connected _ \<Rightarrow> 0)")
     (auto dest: pull_one_frame_shrinks)

declare drain_handshake_frames.simps [simp del]

text \<open>One frame of a connected session: the body of the loop of \<^verbatim>\<open>drain_connected_frames\<close>.\<close>

definition dispatch_frame ::
  "ProtoBuffers \<Rightarrow> MuxFrame \<Rightarrow> (SessionEffect list \<times> ProtoBuffers, SessionError failure) result" where
  "dispatch_frame buffers frame =
     (let i = mh_mini_protocol_id (mf_header frame) in
      case from_id i of
        None \<Rightarrow> Err (Fail (UnknownMiniProtocolId i))
      | Some Handshake \<Rightarrow> Err (Fail PostHandshakeHandshakeFrame)
      | Some proto \<Rightarrow>
          rbind (drain_protocol_items proto (get_buffer buffers proto @ mf_payload frame)) (\<lambda>(effects, buf).
          if MAX_REASSEMBLY_TAIL_BYTES < length buf
          then Err (Fail (ReassemblyBufferOverflow (protocol_id proto) (length buf) MAX_REASSEMBLY_TAIL_BYTES))
          else Ok (effects, set_buffer buffers proto buf)))"

function drain_connected_frames ::
  "ConnectedState \<Rightarrow> (SessionEffect list \<times> ConnectedState, SessionError failure) result" where
  "drain_connected_frames c =
     (case pull_one_frame (cs_buffer c) of
        Err e \<Rightarrow> Err (Fail (Mux e))
      | Ok (None, buffer) \<Rightarrow> Ok ([], c\<lparr>cs_buffer := buffer\<rparr>)
      | Ok (Some frame, buffer) \<Rightarrow>
          rbind (dispatch_frame (cs_proto_buffers c) frame) (\<lambda>(effects, buffers).
          rbind (drain_connected_frames (c\<lparr>cs_buffer := buffer, cs_proto_buffers := buffers\<rparr>)) (\<lambda>(more, c').
          Ok (effects @ more, c'))))"
  by pat_completeness auto
termination
  by (relation "measure (\<lambda>c. length (fb_pending (cs_buffer c)))") (auto dest: pull_one_frame_shrinks)

declare drain_connected_frames.simps [simp del]

definition handle_inbound ::
  "SessionState \<Rightarrow> bytes \<Rightarrow> (SessionEffect list \<times> SessionState, SessionError failure) result" where
  "handle_inbound state bytes =
     (case state of
        Handshaking progress \<Rightarrow>
          drain_handshake_frames (Handshaking (progress\<lparr>hp_buffer := append_bytes (hp_buffer progress) bytes\<rparr>))
      | Connected connected \<Rightarrow>
          rbind (drain_connected_frames (connected\<lparr>cs_buffer := append_bytes (cs_buffer connected) bytes\<rparr>))
            (\<lambda>(effects, c). Ok (effects, Connected c)))"

text \<open>\<^verbatim>\<open>slice::chunks\<close>: consecutive pieces of the given size, the last one possibly shorter.\<close>

function slice_chunks :: "nat \<Rightarrow> 'a list \<Rightarrow> 'a list list" where
  "slice_chunks n xs = (if xs = [] \<or> n = 0 then [] else take n xs # slice_chunks n (drop n xs))"
  by pat_completeness auto
termination by (relation "measure (\<lambda>(n, xs). length xs)") auto

declare slice_chunks.simps [simp del]

fun encode_frames ::
  "AcceptedMiniProtocol \<Rightarrow> MuxMode \<Rightarrow> u32 \<Rightarrow> bytes list \<Rightarrow> (bytes, SessionError failure) result" where
  "encode_frames mini_protocol mode timestamp [] = Ok []"
| "encode_frames mini_protocol mode timestamp (chunk # chunks) =
     rbind (encode_inner_frame mini_protocol chunk mode timestamp) (\<lambda>frame.
     rbind (encode_frames mini_protocol mode timestamp chunks) (\<lambda>frames. Ok (frame @ frames)))"

definition handle_outbound ::
  "SessionState \<Rightarrow> AcceptedMiniProtocol \<Rightarrow> bytes \<Rightarrow> MuxMode \<Rightarrow> u32
     \<Rightarrow> (SessionEffect list \<times> SessionState, SessionError failure) result" where
  "handle_outbound state mini_protocol payload mode timestamp =
     (if MAX_OUTBOUND_PAYLOAD_BYTES < length payload then Err (Fail (OutboundPayloadTooLarge (length payload)))
      else
        (let state = (case state of
             Connected c \<Rightarrow> Connected (c\<lparr>cs_next_outbound_seq := cs_next_outbound_seq c + 1\<rparr>)
           | Handshaking p \<Rightarrow> Handshaking p) in
         if \<not> is_connected state \<and> mini_protocol \<noteq> Handshake
         then Err (Fail (PreHandshakeMiniProtocolFrame (protocol_id mini_protocol)))
         else
           rbind (if payload = [] then encode_inner_frame mini_protocol [] mode timestamp
                  else encode_frames mini_protocol mode timestamp (slice_chunks MAX_PAYLOAD payload)) (\<lambda>frames.
           Ok ([SendBytes frames], state))))"

definition handle_handshake_start_initiator ::
  "SessionState \<Rightarrow> HandshakeMessage \<Rightarrow> (SessionEffect list \<times> SessionState, SessionError failure) result" where
  "handle_handshake_start_initiator state proposal =
     (case state of
        Connected _ \<Rightarrow> Err (Fail PostHandshakeHandshakeFrame)
      | Handshaking p \<Rightarrow>
          (if hp_role p \<noteq> Initiator
           then Err (Fail (HandshakeFailed (MalformedMessage ''responder cannot start initiator handshake'')))
           else if hp_proposal_sent p
           then Err (Fail (HandshakeFailed (MalformedMessage ''initiator already sent proposal'')))
           else
             rbind (encode_inner_frame Handshake (encode_handshake_message proposal) MuxMode.Initiator 0) (\<lambda>frame_bytes.
             Ok ([SendBytes frame_bytes], Handshaking (p\<lparr>hp_inner := Proposed, hp_proposal_sent := True\<rparr>)))))"

definition step ::
  "SessionState \<Rightarrow> ByteChunkIn \<Rightarrow> (SessionEffect list \<times> SessionState, SessionError failure) result" where
  "step state event =
     (case event of
        Inbound bytes \<Rightarrow> handle_inbound state bytes
      | OutboundFrame mini_protocol payload mode timestamp \<Rightarrow>
          handle_outbound state mini_protocol payload mode timestamp
      | HandshakeStartInitiator proposal \<Rightarrow> handle_handshake_start_initiator state proposal)"

text \<open>The pump's loop: the events in order, up to the first error.\<close>

fun run_session ::
  "SessionState \<Rightarrow> ByteChunkIn list \<Rightarrow> (SessionEffect list \<times> SessionState, SessionError failure) result" where
  "run_session state [] = Ok ([], state)"
| "run_session state (event # events) =
     rbind (step state event) (\<lambda>(effects, state).
     rbind (run_session state events) (\<lambda>(more, state). Ok (effects @ more, state)))"

section \<open>Items\<close>

definition whole_item :: "bytes \<Rightarrow> bool" where
  "whole_item bs \<longleftrightarrow> skip_item bs 0 = Ok ((0, length bs), length bs)"

definition incomplete :: "bytes \<Rightarrow> bool" where
  "incomplete bs \<longleftrightarrow> bs = [] \<or> ends_early (skip_item bs 0)"

lemma whole_item_ne: "whole_item bs \<Longrightarrow> bs \<noteq> []"
  using item_bounds [of False bs 0] by (auto simp: whole_item_def skip_item_Ok)

lemma whole_item_append: "whole_item bs \<Longrightarrow> skip_item (bs @ rest) 0 = Ok ((0, length bs), length bs)"
  using settled_skip_item [of 0] unfolding whole_item_def settled_def by (metis ends_early_simps(1))

lemma skip_item_whole: "skip_item bs 0 = Ok (r, e) \<Longrightarrow> whole_item (take e bs)"
  using skip_item_take [of bs r e] item_bounds [of False bs 0 e] by (auto simp: whole_item_def skip_item_Ok)

lemma whole_item_prefix: "whole_item (bs @ rest) \<Longrightarrow> rest \<noteq> [] \<Longrightarrow> incomplete bs"
  unfolding whole_item_def incomplete_def by (blast intro: skip_item_proper_prefix)

lemma drain_items_Nil: "incomplete buf \<Longrightarrow> drain_protocol_items proto buf = Ok ([], buf)"
  by (subst drain_protocol_items.simps) (auto simp: incomplete_def ends_early_def)

lemma drain_items_Cons:
  "whole_item item \<Longrightarrow> drain_protocol_items proto (item @ buf) =
     rbind (drain_protocol_items proto buf) (\<lambda>(effects, tail). Ok (DeliverPeerFrame proto item # effects, tail))"
  using whole_item_ne whole_item_append by (subst drain_protocol_items.simps) auto

lemma drain_items_whole:
  "drain_protocol_items proto buf = Ok (effects, tail) \<longleftrightarrow>
     (\<exists>items. effects = map (DeliverPeerFrame proto) items \<and> buf = concat items @ tail
        \<and> (\<forall>item\<in>set items. whole_item item) \<and> incomplete tail)" (is "?l buf effects \<longleftrightarrow> ?r buf effects")
proof
  show "?l buf effects \<Longrightarrow> ?r buf effects"
  proof (induction proto buf arbitrary: effects rule: drain_protocol_items.induct)
    case (1 proto buf)
    show ?case
    proof (cases "incomplete buf")
      case True
      with 1(2) have "effects = []" "tail = buf" by (simp_all add: drain_items_Nil)
      with True show ?thesis by (intro exI [of _ "[]"]) simp
    next
      case False
      with 1(2) obtain r e effects' where skip: "skip_item buf 0 = Ok (r, e)"
        and rest: "drain_protocol_items proto (drop e buf) = Ok (effects', tail)"
        and eff: "effects = DeliverPeerFrame proto (take e buf) # effects'"
        by (subst (asm) drain_protocol_items.simps)
           (auto simp: incomplete_def rbind_pair_Ok ends_early_def split: sum.splits CodecError.splits)
      have "buf \<noteq> []" using False by (auto simp: incomplete_def)
      from 1(1) [OF this skip refl rest] obtain items where
        "effects' = map (DeliverPeerFrame proto) items" "drop e buf = concat items @ tail"
        "\<forall>item\<in>set items. whole_item item" "incomplete tail" by blast
      with eff skip_item_whole [OF skip] show ?thesis
        by (intro exI [of _ "take e buf # items"]) (auto, metis append_take_drop_id)
    qed
  qed
  assume "?r buf effects"
  then obtain items where "effects = map (DeliverPeerFrame proto) items" "buf = concat items @ tail"
    "\<forall>item\<in>set items. whole_item item" "incomplete tail" by blast
  then show "?l buf effects"
    by (induction items arbitrary: buf effects) (auto simp: drain_items_Nil drain_items_Cons)
qed

section \<open>Frames of a connected session\<close>

fun dispatch_frames ::
  "ProtoBuffers \<Rightarrow> MuxFrame list \<Rightarrow> (SessionEffect list \<times> ProtoBuffers, SessionError failure) result" where
  "dispatch_frames buffers [] = Ok ([], buffers)"
| "dispatch_frames buffers (f # fs) =
     rbind (dispatch_frame buffers f) (\<lambda>(effects, buffers).
     rbind (dispatch_frames buffers fs) (\<lambda>(more, buffers). Ok (effects @ more, buffers)))"

lemma dispatch_frames_append:
  "dispatch_frames buffers (fs @ fs') =
     rbind (dispatch_frames buffers fs) (\<lambda>(effects, buffers).
     rbind (dispatch_frames buffers fs') (\<lambda>(more, buffers). Ok (effects @ more, buffers)))"
proof (induction fs arbitrary: buffers)
  case Nil
  show ?case by (cases "dispatch_frames buffers fs'") auto
next
  case (Cons f fs)
  then show ?case by (auto simp: rbind_assoc split_def intro!: rbind_cong_Ok)
qed

lemma drain_connected_dispatch:
  "framed (fb_pending (cs_buffer c)) fs tail \<Longrightarrow>
   drain_connected_frames c = rbind (dispatch_frames (cs_proto_buffers c) fs) (\<lambda>(effects, buffers).
     Ok (effects, c\<lparr>cs_buffer := \<lparr>fb_pending = tail\<rparr>, cs_proto_buffers := buffers\<rparr>))"
proof (induction fs arbitrary: c)
  case Nil
  then obtain bs where b: "cs_buffer c = \<lparr>fb_pending = bs\<rparr>" "bs = tail" "\<forall>r. decode_frame tail \<noteq> Ok r"
    by (cases "cs_buffer c") (auto simp: framed_Nil)
  then obtain e where "decode_frame tail = Err e" by (cases "decode_frame tail") auto
  with b show ?case by (subst drain_connected_frames.simps) (simp add: pull_one_frame_eq)
next
  case (Cons f fs)
  then obtain bs rest where b: "cs_buffer c = \<lparr>fb_pending = bs\<rparr>" "decode_frame bs = Ok (f, rest)" "framed rest fs tail"
    by (cases "cs_buffer c") (auto simp: framed_Cons)
  have "drain_connected_frames (c\<lparr>cs_buffer := \<lparr>fb_pending = rest\<rparr>, cs_proto_buffers := buffers\<rparr>) =
      rbind (dispatch_frames buffers fs) (\<lambda>(effects, buffers).
        Ok (effects, c\<lparr>cs_buffer := \<lparr>fb_pending = tail\<rparr>, cs_proto_buffers := buffers\<rparr>))" for buffers
    using Cons.IH [of "c\<lparr>cs_buffer := \<lparr>fb_pending = rest\<rparr>, cs_proto_buffers := buffers\<rparr>"] b(3) by simp
  with b(1,2) show ?case
    by (subst drain_connected_frames.simps)
       (auto simp: pull_one_frame_eq rbind_assoc split_def intro!: rbind_cong_Ok)
qed

lemma stream_framed: "\<exists>fs tail. framed bs fs tail"
  using pull_all_framed [of "\<lparr>fb_pending = bs\<rparr>"] by auto

lemma step_inbound_dispatch:
  "framed (fb_pending (cs_buffer c) @ bs) fs tail \<Longrightarrow>
   step (Connected c) (Inbound bs) = rbind (dispatch_frames (cs_proto_buffers c) fs) (\<lambda>(effects, buffers).
     Ok (effects, Connected (c\<lparr>cs_buffer := \<lparr>fb_pending = tail\<rparr>, cs_proto_buffers := buffers\<rparr>)))"
  using drain_connected_dispatch [of "c\<lparr>cs_buffer := append_bytes (cs_buffer c) bs\<rparr>" fs tail]
  by (auto simp: step_def handle_inbound_def append_bytes_def rbind_assoc split_def intro!: rbind_cong_Ok)

lemma step_inbound_append:
  "step (Connected c) (Inbound (a @ b)) =
     rbind (step (Connected c) (Inbound a)) (\<lambda>(effects, state).
     rbind (step state (Inbound b)) (\<lambda>(more, state). Ok (effects @ more, state)))"
proof -
  obtain fs t where f: "framed (fb_pending (cs_buffer c) @ a) fs t" using stream_framed by blast
  obtain fs' t' where f': "framed (t @ b) fs' t'" using stream_framed by blast
  have ff: "framed (fb_pending (cs_buffer c) @ a @ b) (fs @ fs') t'" using framed_append [OF f f'] by simp
  have 2: "step (Connected (c\<lparr>cs_buffer := \<lparr>fb_pending = t\<rparr>, cs_proto_buffers := buffers\<rparr>)) (Inbound b) =
      rbind (dispatch_frames buffers fs') (\<lambda>(effects, buffers).
        Ok (effects, Connected (c\<lparr>cs_buffer := \<lparr>fb_pending = t'\<rparr>, cs_proto_buffers := buffers\<rparr>)))" for buffers
    using step_inbound_dispatch [of "c\<lparr>cs_buffer := \<lparr>fb_pending = t\<rparr>, cs_proto_buffers := buffers\<rparr>" b fs' t'] f' by simp
  show ?thesis
    unfolding step_inbound_dispatch [OF ff] step_inbound_dispatch [OF f] dispatch_frames_append
    by (auto simp: rbind_assoc 2 split_def intro!: rbind_cong_Ok)
qed

lemma step_inbound_connected:
  "step (Connected c) (Inbound bs) = Ok (effects, state) \<Longrightarrow> \<exists>c'. state = Connected c'"
  by (auto simp: step_def handle_inbound_def rbind_pair_Ok)

lemma run_inbound_concat:
  "run_session (Connected c) (map Inbound (chunk # chunks)) = step (Connected c) (Inbound (concat (chunk # chunks)))"
proof (induction chunks arbitrary: c chunk)
  case Nil
  show ?case by (cases "step (Connected c) (Inbound chunk)") auto
next
  case (Cons chunk' chunks)
  have "run_session state (map Inbound (chunk' # chunks)) = step state (Inbound (concat (chunk' # chunks)))"
    if "step (Connected c) (Inbound chunk) = Ok (effects, state)" for effects state
    using step_inbound_connected [OF that] Cons.IH by auto
  then show ?case
    using step_inbound_append [of c chunk "concat (chunk' # chunks)"]
    by (auto simp: split_def intro!: rbind_cong_Ok)
qed

end
