(* ===== verification/Session_Transport.thy ===== *)
theory Session_Transport
  imports Session
begin

text \<open>
  What a connected session guarantees: messages of any length survive segmentation and
  reassembly, the streams of the mini-protocols are conserved, and the chunks in which the bytes
  arrive do not matter.
\<close>

section \<open>Segmentation and reassembly\<close>

lemma get_set_buffer: "get_buffer (set_buffer b p bs) q = (if q = p then bs else get_buffer b q)"
  by (cases p; cases q) simp_all

lemma set_set_buffer: "set_buffer (set_buffer b p bs) p bs' = set_buffer b p bs'"
  by (cases p) simp_all

lemma set_get_buffer: "set_buffer b p (get_buffer b p) = b"
  by (cases p) simp_all

lemma from_id_protocol_id: "from_id i = Some p \<longleftrightarrow> protocol_id p = i"
  by (cases p) (auto simp: from_id_def protocol_ids)

lemma protocol_id_small: "protocol_id p \<le> 0x7FFF"
  by (cases p) (simp_all add: protocol_ids)

definition inner_frame :: "AcceptedMiniProtocol \<Rightarrow> MuxMode \<Rightarrow> u32 \<Rightarrow> bytes \<Rightarrow> MuxFrame" where
  "inner_frame p mode timestamp payload =
     \<lparr>mf_header = \<lparr>mh_timestamp = timestamp, mh_mode = mode, mh_mini_protocol_id = protocol_id p,
        mh_length = word_of_nat (length payload)\<rparr>, mf_payload = payload\<rparr>"

lemma inner_frame_simps [simp]:
  "mh_mini_protocol_id (mf_header (inner_frame p mode timestamp payload)) = protocol_id p"
  "mf_payload (inner_frame p mode timestamp payload) = payload"
  by (simp_all add: inner_frame_def)

lemma encode_inner_frame_Ok:
  assumes "length payload \<le> MAX_PAYLOAD"
  obtains enc where "encode_inner_frame p payload mode timestamp = Ok enc"
    and "encode_frame (inner_frame p mode timestamp payload) = Ok enc"
proof -
  have "unat (word_of_nat (length payload) :: u16) = length payload"
    using assms by (simp add: MAX_PAYLOAD_def unat_of_nat)
  then obtain enc where "encode_frame (inner_frame p mode timestamp payload) = Ok enc"
    by (auto simp: encode_frame_Ok inner_frame_def)
  moreover from this have "encode_inner_frame p payload mode timestamp = Ok enc"
    using assms protocol_id_small [of p]
    by (simp add: encode_inner_frame_def inner_frame_def MiniProtocolId_new_def MiniProtocolId_MAX_def not_less)
  ultimately show thesis using that by blast
qed

lemma encode_frames_framed:
  assumes "\<forall>chunk\<in>set chunks. length chunk \<le> MAX_PAYLOAD"
  shows "\<exists>frames. encode_frames p mode timestamp chunks = Ok frames
    \<and> framed frames (map (inner_frame p mode timestamp) chunks) []"
  using assms
proof (induction chunks)
  case Nil
  have "decode_frame [] \<noteq> Ok r" for r by (simp add: decode_frame_def HEADER_LEN_def)
  then show ?case by (simp add: framed_Nil)
next
  case (Cons chunk chunks)
  then obtain frames where f: "encode_frames p mode timestamp chunks = Ok frames"
    "framed frames (map (inner_frame p mode timestamp) chunks) []" by auto
  from Cons obtain enc where e: "encode_inner_frame p chunk mode timestamp = Ok enc"
    "encode_frame (inner_frame p mode timestamp chunk) = Ok enc"
    using encode_inner_frame_Ok by (metis list.set_intros(1))
  then have "decode_frame (enc @ frames) = Ok (inner_frame p mode timestamp chunk, frames)"
    using protocol_id_small by (intro decode_encode_frame) simp_all
  with f e show ?case by (auto simp: framed_Cons)
qed

lemma slice_chunks_pieces:
  assumes "0 < n"
  shows "concat (slice_chunks n xs) = xs \<and> (\<forall>piece\<in>set (slice_chunks n xs). piece \<noteq> [] \<and> length piece \<le> n)
    \<and> (slice_chunks n xs = [] \<longleftrightarrow> xs = [])"
  using assms
proof (induction n xs rule: slice_chunks.induct)
  case (1 n xs)
  then show ?case by (subst (1 2 3) slice_chunks.simps) (auto simp: append_take_drop_id)
qed

lemma dispatch_frame_proto:
  assumes "p \<noteq> Handshake" "incomplete tail" "length tail \<le> MAX_REASSEMBLY_TAIL_BYTES"
    and "drain_protocol_items p (get_buffer b p @ bs) = Ok (effects, tail)"
  shows "dispatch_frame b (inner_frame p mode timestamp bs) = Ok (effects, set_buffer b p tail)"
proof -
  have "from_id (protocol_id p) = Some p" by (simp add: from_id_protocol_id)
  with assms show ?thesis by (cases p) (simp_all add: dispatch_frame_def)
qed

lemma dispatch_segments:
  assumes "p \<noteq> Handshake" "segments \<noteq> []" "\<forall>s\<in>set segments. s \<noteq> []"
    and "whole_item (get_buffer b p @ concat segments)"
    and "length (get_buffer b p @ concat segments) \<le> MAX_REASSEMBLY_TAIL_BYTES"
  shows "dispatch_frames b (map (inner_frame p mode timestamp) segments)
    = Ok ([DeliverPeerFrame p (get_buffer b p @ concat segments)], set_buffer b p [])"
  using assms
proof (induction segments arbitrary: b)
  case (Cons s segments)
  show ?case
  proof (cases "segments = []")
    case True
    with Cons.prems have "drain_protocol_items p (get_buffer b p @ s) = Ok ([DeliverPeerFrame p (get_buffer b p @ s)], [])"
      using drain_items_Cons [of "get_buffer b p @ s" p "[]"] by (simp add: drain_items_Nil incomplete_def)
    with True Cons.prems(1) dispatch_frame_proto [of p "[]" b s] show ?thesis by (simp add: incomplete_def)
  next
    case False
    with Cons.prems(3) have "concat segments \<noteq> []" by (cases segments) auto
    with Cons.prems(4) have "incomplete (get_buffer b p @ s)" using whole_item_prefix [of "get_buffer b p @ s"] by simp
    with Cons.prems(1,5) have "dispatch_frame b (inner_frame p mode timestamp s) = Ok ([], set_buffer b p (get_buffer b p @ s))"
      by (intro dispatch_frame_proto) (simp_all add: drain_items_Nil)
    with False Cons.prems Cons.IH [of "set_buffer b p (get_buffer b p @ s)"] show ?thesis
      by (simp add: get_set_buffer set_set_buffer)
  qed
qed simp

text \<open>
  A message that is one CBOR item of at most 16 MiB, sent on a connected session for any protocol
  but the handshake, reaches the other side as one delivery of exactly these bytes.
\<close>

lemma transport_roundtrip:
  assumes "whole_item payload" and "length payload \<le> MAX_OUTBOUND_PAYLOAD_BYTES" and "proto \<noteq> Handshake"
    and "fb_pending (cs_buffer receiver) = []" and "get_buffer (cs_proto_buffers receiver) proto = []"
  shows "\<exists>frames sender'. step (Connected sender) (OutboundFrame proto payload mode timestamp)
        = Ok ([SendBytes frames], Connected sender')
      \<and> (\<forall>chunks. concat chunks = frames \<longrightarrow>
          run_session (Connected receiver) (map Inbound chunks)
            = Ok ([DeliverPeerFrame proto payload], Connected receiver))"
proof -
  let ?segments = "slice_chunks MAX_PAYLOAD payload"
  have ne: "payload \<noteq> []" using assms(1) by (rule whole_item_ne)
  have seg: "concat ?segments = payload" "\<forall>s\<in>set ?segments. s \<noteq> []" "\<forall>s\<in>set ?segments. length s \<le> MAX_PAYLOAD"
    "?segments \<noteq> []" using slice_chunks_pieces [of MAX_PAYLOAD payload] ne by (auto simp: MAX_PAYLOAD_def)
  obtain frames where f: "encode_frames proto mode timestamp ?segments = Ok frames"
    "framed frames (map (inner_frame proto mode timestamp) ?segments) []"
    using encode_frames_framed [OF seg(3)] by blast
  have sent: "\<exists>sender'. step (Connected sender) (OutboundFrame proto payload mode timestamp)
      = Ok ([SendBytes frames], Connected sender')"
    using f(1) ne assms(2) by (simp add: step_def handle_outbound_def)
  have "get_buffer (cs_proto_buffers receiver) proto @ concat ?segments = payload" using assms(5) seg(1) by simp
  with assms(1,2) have d: "dispatch_frames (cs_proto_buffers receiver) (map (inner_frame proto mode timestamp) ?segments)
      = Ok ([DeliverPeerFrame proto payload], set_buffer (cs_proto_buffers receiver) proto [])"
    using dispatch_segments [OF assms(3) seg(4,2), of "cs_proto_buffers receiver"]
    by (simp add: MAX_OUTBOUND_PAYLOAD_BYTES_def MAX_REASSEMBLY_TAIL_BYTES_def)
  have "cs_buffer receiver = \<lparr>fb_pending = []\<rparr>" using assms(4) by (cases "cs_buffer receiver") simp
  moreover have "set_buffer (cs_proto_buffers receiver) proto [] = cs_proto_buffers receiver"
    using set_get_buffer [of "cs_proto_buffers receiver" proto] assms(5) by simp
  ultimately have recv: "step (Connected receiver) (Inbound frames) = Ok ([DeliverPeerFrame proto payload], Connected receiver)"
    using step_inbound_dispatch [of receiver frames] f(2) d by simp
  have "run_session (Connected receiver) (map Inbound chunks) = Ok ([DeliverPeerFrame proto payload], Connected receiver)"
    if "concat chunks = frames" for chunks
  proof (cases chunks)
    case Nil
    with that f(2) seg(4) show ?thesis
      by (cases ?segments) (auto simp: framed_Cons decode_frame_def HEADER_LEN_def)
  next
    case (Cons chunk rest)
    with that recv run_inbound_concat [of receiver chunk rest] show ?thesis by simp
  qed
  with sent show ?thesis by blast
qed

section \<open>Conservation\<close>

definition delivered :: "AcceptedMiniProtocol \<Rightarrow> SessionEffect list \<Rightarrow> bytes list" where
  "delivered p effects = concat (map (\<lambda>e. case e of DeliverPeerFrame q bs \<Rightarrow> if q = p then [bs] else [] | _ \<Rightarrow> []) effects)"

definition carried :: "AcceptedMiniProtocol \<Rightarrow> MuxFrame list \<Rightarrow> bytes" where
  "carried p fs = concat (map (\<lambda>f. if mh_mini_protocol_id (mf_header f) = protocol_id p then mf_payload f else []) fs)"

lemma delivered_simps [simp]:
  "delivered p [] = []" "delivered p (es @ es') = delivered p es @ delivered p es'"
  "delivered p (map (DeliverPeerFrame q) items) = (if q = p then items else [])"
  by (simp_all add: delivered_def) (induction items; simp)+

lemma carried_simps [simp]:
  "carried p [] = []"
  "carried p (f # fs) = (if mh_mini_protocol_id (mf_header f) = protocol_id p then mf_payload f else []) @ carried p fs"
  by (simp_all add: carried_def)

definition buffers_ok :: "ProtoBuffers \<Rightarrow> bool" where
  "buffers_ok b \<longleftrightarrow> (\<forall>p. incomplete (get_buffer b p) \<and> length (get_buffer b p) \<le> MAX_REASSEMBLY_TAIL_BYTES)"

lemma dispatch_frame_conserves:
  assumes "dispatch_frame b f = Ok (effects, b')"
  obtains p items tail where "mh_mini_protocol_id (mf_header f) = protocol_id p" "p \<noteq> Handshake"
    "effects = map (DeliverPeerFrame p) items" "get_buffer b p @ mf_payload f = concat items @ tail"
    "\<forall>item\<in>set items. whole_item item" "incomplete tail" "length tail \<le> MAX_REASSEMBLY_TAIL_BYTES"
    "b' = set_buffer b p tail"
proof -
  let ?i = "mh_mini_protocol_id (mf_header f)"
  from assms obtain p where p: "from_id ?i = Some p" "p \<noteq> Handshake"
    by (cases "from_id ?i") (auto simp: dispatch_frame_def split: AcceptedMiniProtocol.splits)
  with assms obtain tail where d: "drain_protocol_items p (get_buffer b p @ mf_payload f) = Ok (effects, tail)"
    "length tail \<le> MAX_REASSEMBLY_TAIL_BYTES" "b' = set_buffer b p tail"
    by (cases p) (auto simp: dispatch_frame_def rbind_pair_Ok not_less split: if_splits)
  from d(1) show thesis
    unfolding drain_items_whole using that [of p _ tail] p d(2,3) by (auto simp: from_id_protocol_id)
qed

lemma dispatch_frames_conserves:
  assumes "dispatch_frames b fs = Ok (effects, b')" and "buffers_ok b"
  shows "buffers_ok b' \<and> get_buffer b p @ carried p fs = concat (delivered p effects) @ get_buffer b' p
    \<and> (\<forall>item\<in>set (delivered p effects). whole_item item)"
  using assms
proof (induction fs arbitrary: b effects)
  case (Cons f fs)
  then obtain es b1 es' where 1: "dispatch_frame b f = Ok (es, b1)" and 2: "dispatch_frames b1 fs = Ok (es', b')"
    and eff: "effects = es @ es'" by (auto simp: rbind_pair_Ok)
  from 1 obtain q items tail where q: "mh_mini_protocol_id (mf_header f) = protocol_id q"
    "es = map (DeliverPeerFrame q) items" "get_buffer b q @ mf_payload f = concat items @ tail"
    "\<forall>item\<in>set items. whole_item item" "incomplete tail" "length tail \<le> MAX_REASSEMBLY_TAIL_BYTES"
    "b1 = set_buffer b q tail" by (rule dispatch_frame_conserves) blast
  have inj: "protocol_id q = protocol_id p \<longleftrightarrow> q = p" by (metis from_id_protocol_id option.inject)
  have "buffers_ok b1" using Cons.prems(2) q by (simp add: buffers_ok_def get_set_buffer)
  note IH = Cons.IH [OF 2 this]
  show ?case
  proof (cases "q = p")
    case True
    then have "get_buffer b p @ mf_payload f @ carried p fs = concat items @ tail @ carried p fs" using q(3) by simp
    with True IH q eff show ?thesis by (auto simp: get_set_buffer)
  next
    case False
    with IH q eff inj show ?thesis by (auto simp: get_set_buffer)
  qed
qed simp

lemma run_inbound_feed:
  assumes "run_session (Connected c) (map Inbound chunks) = Ok (effects, state)"
    and "\<forall>r. decode_frame (fb_pending (cs_buffer c)) \<noteq> Ok r"
  shows "\<exists>fs c'. feed_chunks (cs_buffer c) chunks = Ok (fs, cs_buffer c') \<and> state = Connected c'
    \<and> dispatch_frames (cs_proto_buffers c) fs = Ok (effects, cs_proto_buffers c')"
  using assms
proof (induction chunks arbitrary: c effects)
  case Nil
  then show ?case by auto
next
  case (Cons chunk chunks)
  from Cons.prems(1) obtain es s es' where s: "step (Connected c) (Inbound chunk) = Ok (es, s)"
    "run_session s (map Inbound chunks) = Ok (es', state)" "effects = es @ es'" by (auto simp: rbind_pair_Ok)
  obtain fs tail where f: "pull_all_complete_frames (append_bytes (cs_buffer c) chunk) = Ok (fs, \<lparr>fb_pending = tail\<rparr>)"
    "framed (fb_pending (cs_buffer c) @ chunk) fs tail"
    using pull_all_framed [of "append_bytes (cs_buffer c) chunk"] by (auto simp: append_bytes_def)
  from s(1) obtain b where d: "dispatch_frames (cs_proto_buffers c) fs = Ok (es, b)"
    "s = Connected (c\<lparr>cs_buffer := \<lparr>fb_pending = tail\<rparr>, cs_proto_buffers := b\<rparr>)"
    unfolding step_inbound_dispatch [OF f(2)] by (auto simp: rbind_pair_Ok)
  have "\<forall>r. decode_frame tail \<noteq> Ok r" using f(2) by (simp add: framed_def)
  with Cons.IH [of "c\<lparr>cs_buffer := \<lparr>fb_pending = tail\<rparr>, cs_proto_buffers := b\<rparr>" es'] s(2) d(2)
  obtain fs' c' where "feed_chunks \<lparr>fb_pending = tail\<rparr> chunks = Ok (fs', cs_buffer c')" "state = Connected c'"
    "dispatch_frames b fs' = Ok (es', cs_proto_buffers c')" by auto
  with f(1) d(1) s(3) show ?case by (auto simp: dispatch_frames_append)
qed

text \<open>
  C33. Conservation: while a connected session reads without an error, for every mini-protocol the
  payloads of its frames, in order, are exactly the delivered messages followed by what the
  reassembly buffer holds. Every delivered message is one complete CBOR item, and the
  buffer holds no complete item and at most 16 MiB.
\<close>

theorem session_conserves_streams:
  assumes "run_session (Connected (ConnectedState_new version params)) (map Inbound chunks) = Ok (effects, Connected c)"
  shows "\<exists>fs. feed_chunks FrameBuffer_new chunks = Ok (fs, cs_buffer c)
    \<and> (\<forall>p. carried p fs = concat (delivered p effects) @ get_buffer (cs_proto_buffers c) p
         \<and> list_all whole_item (delivered p effects)
         \<and> incomplete (get_buffer (cs_proto_buffers c) p)
         \<and> length (get_buffer (cs_proto_buffers c) p) \<le> MAX_REASSEMBLY_TAIL_BYTES)"
proof -
  have b: "get_buffer ProtoBuffers_new p = []" for p by (cases p) (simp_all add: ProtoBuffers_new_def)
  then have ok: "buffers_ok ProtoBuffers_new" by (simp add: buffers_ok_def incomplete_def)
  have "\<forall>r. decode_frame [] \<noteq> Ok r" by (simp add: decode_frame_def HEADER_LEN_def)
  with run_inbound_feed [OF assms] obtain fs where
    "feed_chunks FrameBuffer_new chunks = Ok (fs, cs_buffer c)"
    "dispatch_frames ProtoBuffers_new fs = Ok (effects, cs_proto_buffers c)"
    by (auto simp: ConnectedState_new_def FrameBuffer_new_def)
  with dispatch_frames_conserves [OF this(2) ok] show ?thesis
    by (auto simp: b buffers_ok_def list_all_iff)
qed

theorem session_conserves_streams_witness:
  "\<exists>effects c fs. run_session (Connected (ConnectedState_new 14 (n2n 1))) (map Inbound [[0, 0, 0, 0, 0, 2, 0, 3, 0x81], [0x00, 0x82]])
     = Ok (effects, Connected c) \<and> effects = [DeliverPeerFrame ChainSync [0x81, 0x00]]
   \<and> feed_chunks FrameBuffer_new [[0, 0, 0, 0, 0, 2, 0, 3, 0x81], [0x00, 0x82]] = Ok (fs, cs_buffer c)
   \<and> carried ChainSync fs = concat (delivered ChainSync effects) @ get_buffer (cs_proto_buffers c) ChainSync"
proof -
  let ?f = "inner_frame ChainSync MuxMode.Initiator 0 [0x81, 0x00, 0x82]"
  let ?bs = "[0, 0, 0, 0, 0, 2, 0, 3, 0x81, 0x00, 0x82] :: bytes"
  have "decode_frame ?bs = Ok (?f, [])"
    by (simp add: decode_frame_def HEADER_LEN_def be_nat_def MODE_BIT_def ID_MASK_def inner_frame_def protocol_ids)
  then have f: "framed ?bs [?f] []"
    by (auto simp: framed_Cons framed_Nil decode_frame_def [of "[]"] HEADER_LEN_def)
  have "whole_item [0x81, 0x00]" unfolding whole_item_def by code_simp
  moreover have "skip_item [0x82] 0 = Err (UnexpectedEof 1 1)" by code_simp
  then have "incomplete [0x82]" by (simp add: incomplete_def)
  ultimately have "drain_protocol_items ChainSync ([0x81, 0x00] @ [0x82])
      = Ok ([DeliverPeerFrame ChainSync [0x81, 0x00]], [0x82])"
    by (simp only: drain_items_Cons drain_items_Nil) simp
  then have d: "dispatch_frames ProtoBuffers_new [?f]
      = Ok ([DeliverPeerFrame ChainSync [0x81, 0x00]], ProtoBuffers_new\<lparr>pb_chain_sync := [0x82]\<rparr>)"
    using dispatch_frame_proto [of ChainSync "[0x82]" ProtoBuffers_new "[0x81, 0x00, 0x82]"] \<open>incomplete [0x82]\<close>
    by (simp add: MAX_REASSEMBLY_TAIL_BYTES_def ProtoBuffers_new_def)
  let ?c = "ConnectedState_new 14 (n2n 1)"
  have run: "run_session (Connected ?c) (map Inbound [[0, 0, 0, 0, 0, 2, 0, 3, 0x81], [0x00, 0x82]])
      = Ok ([DeliverPeerFrame ChainSync [0x81, 0x00]],
          Connected (?c\<lparr>cs_buffer := \<lparr>fb_pending = []\<rparr>, cs_proto_buffers := ProtoBuffers_new\<lparr>pb_chain_sync := [0x82]\<rparr>\<rparr>))"
    using step_inbound_dispatch [of ?c ?bs "[?f]" "[]"] f d
    by (simp only: run_inbound_concat) (simp add: ConnectedState_new_def FrameBuffer_new_def)
  from session_conserves_streams [OF run] run show ?thesis by blast
qed

text \<open>
  Where the network cuts the stream does not matter: a connected session that reads the same
  bytes in other chunks emits the same effects and ends in the same state, or fails with the same
  error.
\<close>

theorem session_chunking:
  assumes "concat chunks = concat chunks'" and "chunks \<noteq> []" and "chunks' \<noteq> []"
  shows "run_session (Connected c) (map Inbound chunks) = run_session (Connected c) (map Inbound chunks')"
  using assms run_inbound_concat [of c "hd chunks" "tl chunks"] run_inbound_concat [of c "hd chunks'" "tl chunks'"]
  by simp

theorem session_chunking_witness:
  "run_session (Connected (ConnectedState_new 14 (n2n 1))) (map Inbound [[0, 0, 0, 0, 0, 0], [0, 0]])
     = run_session (Connected (ConnectedState_new 14 (n2n 1))) (map Inbound [[], replicate 8 0])"
  by (rule session_chunking) (simp_all add: eval_nat_numeral)

end
