(* ===== verification/Session_Handshake.thy ===== *)
theory Session_Handshake
  imports Session_Transport
begin

text \<open>
  The way from a new session to a connected one: nothing is delivered before the handshake
  completes, the two sides agree on the version, and what follows the answer in the same
  chunk is lost.
\<close>

section \<open>The handshake gate\<close>

definition is_send :: "SessionEffect \<Rightarrow> bool" where
  "is_send e \<longleftrightarrow> (\<exists>bs. e = SendBytes bs)"

definition is_complete :: "SessionEffect \<Rightarrow> bool" where
  "is_complete e \<longleftrightarrow> (\<exists>v d. e = HandshakeComplete v d)"

text \<open>
  What a history of effects says of the state: while the handshake runs only bytes were sent; a
  connected session has completed it once, before anything else, with a supported version.
\<close>

definition gated :: "SessionEffect list \<Rightarrow> SessionState \<Rightarrow> bool" where
  "gated effects state \<longleftrightarrow>
     (case state of
        Handshaking _ \<Rightarrow> list_all is_send effects
      | Connected c \<Rightarrow>
          (\<exists>pre post. effects = pre @ HandshakeComplete (cs_negotiated_version c) (cs_negotiated_params c) # post
             \<and> list_all is_send pre \<and> \<not> list_ex is_complete post
             \<and> (cs_negotiated_version c, cs_negotiated_params c) \<in> set N2N_SUPPORTED))"

lemma n2n_transition_Selected:
  assumes "n2n_transition s agency supported msg = Ok (s', N2nHandshakeOutput.Selected v d)"
  shows "(v, d) \<in> set supported"
  using assms
  by (auto simp: n2n_transition_def select_n2n_version_def select_proposed_Some split: HandshakeState.splits HandshakeMessage.splits
      HandshakeAgency.splits option.splits if_splits SelectionOutcome.splits dest: map_of_SomeD)

lemma n2n_transition_not_Reply: "n2n_transition s agency supported msg \<noteq> Ok (s', N2nHandshakeOutput.Reply r)"
  by (auto simp: n2n_transition_def split: HandshakeState.splits HandshakeMessage.splits
      HandshakeAgency.splits option.splits SelectionOutcome.splits)

lemma drain_handshake_gated:
  assumes "drain_handshake_frames (Handshaking p) = Ok (effects, state)"
  shows "gated effects state"
proof -
  from assms obtain frame buffer where pull: "pull_one_frame (hp_buffer p) = Ok (frame, buffer)"
    by (auto simp: drain_handshake_frames.simps split: sum.splits)
  show ?thesis
  proof (cases frame)
    case None
    with pull assms show ?thesis by (auto simp: drain_handshake_frames.simps gated_def)
  next
    case (Some f)
    note body = trans [OF drain_handshake_frames.simps(2) [of p, symmetric] assms,
        unfolded pull Some sum.case prod.case option.case Let_def]
    then obtain msg new_state out where
      tr: "n2n_transition (hp_inner p) (handshake_agency (hp_role p) (hp_inner p)) N2N_SUPPORTED msg = Ok (new_state, out)"
      and out: "case out of N2nHandshakeOutput.Refused _ \<Rightarrow> False | N2nHandshakeOutput.Done \<Rightarrow> False
        | N2nHandshakeOutput.Selected v d \<Rightarrow> (effects = [HandshakeComplete v d]
             \<or> (\<exists>bs. effects = [SendBytes bs, HandshakeComplete v d])) \<and> state = Connected (ConnectedState_new v d)
        | N2nHandshakeOutput.Reply _ \<Rightarrow> True"
      apply (clarsimp simp: rbind_pair_Ok rbind_eq_Ok map_err_eq_Ok split: if_split_asm)
      subgoal for msg new_state out by (cases out) (force simp: rbind_eq_Ok split: if_split_asm)+
      done
    then obtain v d where "out = N2nHandshakeOutput.Selected v d"
      using n2n_transition_not_Reply by (cases out) auto
    with tr out n2n_transition_Selected [OF tr [unfolded this]]
    show ?thesis by (auto simp: gated_def ConnectedState_new_def is_send_def Cons_eq_append_conv ex_disj_distrib conj_disj_distribR)
  qed
qed

lemma step_handshaking_gated:
  assumes "step (Handshaking p) event = Ok (effects, state)"
  shows "gated effects state"
proof (cases event)
  case (Inbound bs)
  with assms show ?thesis by (auto simp: step_def handle_inbound_def intro: drain_handshake_gated)
qed (use assms in \<open>auto simp: step_def handle_outbound_def handle_handshake_start_initiator_def
      rbind_eq_Ok gated_def is_send_def split: if_splits\<close>)

lemma dispatch_frames_deliver: "dispatch_frames b fs = Ok (effects, b') \<Longrightarrow> \<not> list_ex is_complete effects"
proof (induction fs arbitrary: b effects)
  case (Cons f fs)
  then obtain es b1 es' where 1: "dispatch_frame b f = Ok (es, b1)" and 2: "dispatch_frames b1 fs = Ok (es', b')"
    and eff: "effects = es @ es'" by (auto simp: rbind_pair_Ok)
  from 1 have "\<not> list_ex is_complete es"
    by (rule dispatch_frame_conserves) (auto simp: list_ex_iff is_complete_def)
  with Cons.IH [OF 2] eff show ?case by simp
qed simp

lemma step_connected_keeps:
  assumes "step (Connected c) event = Ok (effects, state)"
  shows "\<exists>c'. state = Connected c' \<and> cs_negotiated_version c' = cs_negotiated_version c
    \<and> cs_negotiated_params c' = cs_negotiated_params c \<and> \<not> list_ex is_complete effects"
proof (cases event)
  case (Inbound bs)
  obtain fs tail where f: "framed (fb_pending (cs_buffer c) @ bs) fs tail" using stream_framed by blast
  from assms show ?thesis
    unfolding Inbound step_inbound_dispatch [OF f] by (auto simp: rbind_pair_Ok dest: dispatch_frames_deliver)
qed (use assms in \<open>auto simp: step_def handle_outbound_def handle_handshake_start_initiator_def rbind_eq_Ok is_complete_def
      split: if_splits\<close>)

lemma gated_step:
  assumes "gated effects state" and "step state event = Ok (further, state')"
  shows "gated (effects @ further) state'"
proof (cases state)
  case (Handshaking p)
  with assms(2) have "gated further state'" by (auto intro: step_handshaking_gated)
  moreover have "list_all is_send effects" using assms(1) Handshaking by (simp add: gated_def)
  ultimately show ?thesis
    by (auto simp: gated_def split: SessionState.splits) (metis append.assoc list_all_append)
next
  case (Connected c)
  with assms(1) obtain pre post where
    "effects = pre @ HandshakeComplete (cs_negotiated_version c) (cs_negotiated_params c) # post" "list_all is_send pre"
    "\<not> list_ex is_complete post" "(cs_negotiated_version c, cs_negotiated_params c) \<in> set N2N_SUPPORTED"
    by (auto simp: gated_def)
  with Connected assms(2) step_connected_keeps [of c event further state'] show ?thesis
    by (auto simp: gated_def) (metis list_ex_append)
qed

lemma run_session_gated:
  "gated effects state \<Longrightarrow> run_session state events = Ok (further, state') \<Longrightarrow> gated (effects @ further) state'"
proof (induction events arbitrary: effects state further)
  case (Cons event events)
  then obtain es s es' where "step state event = Ok (es, s)" "run_session s events = Ok (es', state')" "further = es @ es'"
    by (auto simp: rbind_pair_Ok)
  with Cons.IH [OF gated_step [OF Cons.prems(1)]] show ?case by fastforce
qed simp

text \<open>
  C32. The handshake gate: whatever events a new session handles without an error, while it is
  handshaking it has only sent bytes, and when it is connected the handshake completed
  exactly once, with the pinned version and parameters, which are an entry of the supported
  table, and before that nothing but sending happened: no frame is delivered early.
\<close>

theorem session_gate:
  assumes "start = new_initiator \<or> start = new_responder" and "run_session start events = Ok (effects, state)"
  shows "case state of
      Handshaking _ \<Rightarrow> list_all is_send effects
    | Connected c \<Rightarrow>
        (\<exists>pre post. effects = pre @ HandshakeComplete (cs_negotiated_version c) (cs_negotiated_params c) # post
           \<and> list_all is_send pre \<and> \<not> list_ex is_complete post
           \<and> (cs_negotiated_version c, cs_negotiated_params c) \<in> set N2N_SUPPORTED)"
proof -
  have "gated [] start" using assms(1) by (auto simp: gated_def new_initiator_def new_responder_def)
  from run_session_gated [OF this assms(2)] show ?thesis by (simp add: gated_def)
qed

section \<open>A complete handshake\<close>

lemma handshake_frame:
  assumes "handshake_ok msg" and "length (encode_handshake_message msg) \<le> MAX_PAYLOAD"
  obtains bs where "encode_inner_frame Handshake (encode_handshake_message msg) mode timestamp = Ok bs"
    and "\<And>rest. decode_frame (bs @ rest) = Ok (inner_frame Handshake mode timestamp (encode_handshake_message msg), rest)"
proof -
  obtain bs where "encode_inner_frame Handshake (encode_handshake_message msg) mode timestamp = Ok bs"
    "encode_frame (inner_frame Handshake mode timestamp (encode_handshake_message msg)) = Ok bs"
    using encode_inner_frame_Ok [OF assms(2)] by blast
  with that decode_encode_frame [OF this(2)] protocol_id_small show thesis by (simp add: HANDSHAKE_ID_def)
qed

lemma drain_handshake_selects:
  assumes "decode_frame (fb_pending (hp_buffer p)) = Ok (inner_frame Handshake mode timestamp (encode_handshake_message msg), rest)"
    and "handshake_ok msg"
    and "n2n_transition (hp_inner p) (handshake_agency (hp_role p) (hp_inner p)) N2N_SUPPORTED msg
      = Ok (s, N2nHandshakeOutput.Selected v d)"
  shows "drain_handshake_frames (Handshaking p) =
      (if hp_role p = Responder
       then rbind (encode_inner_frame Handshake (encode_handshake_message (HandshakeMessage.AcceptVersion v [0x01]))
              MuxMode.Responder 0)
              (\<lambda>bytes. Ok ([SendBytes bytes, HandshakeComplete v d], Connected (ConnectedState_new v d)))
       else Ok ([HandshakeComplete v d], Connected (ConnectedState_new v d)))"
proof -
  obtain buf where "hp_buffer p = \<lparr>fb_pending = buf\<rparr>" by (cases "hp_buffer p")
  with assms show ?thesis
    by (simp add: drain_handshake_frames.simps pull_one_frame_eq decode_encoded_handshake Let_def rbind_assoc)
qed

lemma accept_message_ok: "handshake_ok (HandshakeMessage.AcceptVersion v [0x01])"
  "length (encode_handshake_message (HandshakeMessage.AcceptVersion v [0x01])) \<le> MAX_PAYLOAD"
proof -
  have "length (uint_bytes w) \<le> 9" "length (array_bytes w) \<le> 9" for w
    by (simp_all add: uint_bytes_def array_bytes_def encode_u64_def encode_array_header_def write_uint_canonical_def
        write_array_header_def length_write_argument canonical_width_fits width_size_def split: IntWidth.split)
  note len = this(1) [of 1] this(1) [of "ucast v"] this(2) [of 3]
  show "length (encode_handshake_message (HandshakeMessage.AcceptVersion v [0x01])) \<le> MAX_PAYLOAD"
    using len by (simp add: encode_handshake_message_def codec_bytes MAX_PAYLOAD_def)
  show "handshake_ok (HandshakeMessage.AcceptVersion v [0x01])" by (simp add: params_ok_def small_int_item)
qed

text \<open>The initiator that has sent its proposal, and the responder's answer to it.\<close>

definition waiting_initiator :: SessionState where
  "waiting_initiator = Handshaking \<lparr>hp_role = Initiator, hp_inner = Proposed, hp_buffer = FrameBuffer_new,
     hp_proposal_sent = True\<rparr>"

lemma initiator_starts:
  assumes "encode_inner_frame Handshake (encode_handshake_message msg) MuxMode.Initiator 0 = Ok proposal"
  shows "step new_initiator (HandshakeStartInitiator msg) = Ok ([SendBytes proposal], waiting_initiator)"
  using assms by (simp add: step_def handle_handshake_start_initiator_def new_initiator_def waiting_initiator_def)

lemma initiator_completes:
  assumes "map_of N2N_SUPPORTED v = Some d"
  obtains answer where "encode_inner_frame Handshake
      (encode_handshake_message (HandshakeMessage.AcceptVersion v [0x01])) MuxMode.Responder 0 = Ok answer"
    and "\<And>rest. step waiting_initiator (Inbound (answer @ rest))
      = Ok ([HandshakeComplete v d], Connected (ConnectedState_new v d))"
proof -
  obtain answer where ans: "encode_inner_frame Handshake
      (encode_handshake_message (HandshakeMessage.AcceptVersion v [0x01])) MuxMode.Responder 0 = Ok answer"
    "\<And>rest. decode_frame (answer @ rest) = Ok (inner_frame Handshake MuxMode.Responder 0
      (encode_handshake_message (HandshakeMessage.AcceptVersion v [0x01])), rest)"
    using handshake_frame [OF accept_message_ok] by blast
  have "step waiting_initiator (Inbound (answer @ rest)) = Ok ([HandshakeComplete v d], Connected (ConnectedState_new v d))" for rest
    using ans(2) [of rest] assms
    by (simp add: waiting_initiator_def step_def handle_inbound_def FrameBuffer_new_def append_bytes_def
        drain_handshake_selects [OF _ accept_message_ok(1)] handshake_agency_def n2n_transition_def)
  with that ans(1) show thesis by blast
qed

text \<open>
  C34. Two sessions agree: when an initiator proposes a version table that has a version in common
  with the supported ones, its proposal makes a new responder complete the handshake with the
  highest common version and answer, and the answer makes the initiator complete it with the same
  version and the same parameters.
\<close>

theorem session_handshake_agreement:
  assumes "handshake_ok (HandshakeMessage.ProposeVersions table)"
    and "length (encode_handshake_message (HandshakeMessage.ProposeVersions table)) \<le> MAX_PAYLOAD"
    and "highest_common (map fst table) (map fst N2N_SUPPORTED) v"
  shows "\<exists>proposal waiting answer d.
      step new_initiator (HandshakeStartInitiator (HandshakeMessage.ProposeVersions table)) = Ok ([SendBytes proposal], waiting)
    \<and> step new_responder (Inbound proposal) = Ok ([SendBytes answer, HandshakeComplete v d], Connected (ConnectedState_new v d))
    \<and> step waiting (Inbound answer) = Ok ([HandshakeComplete v d], Connected (ConnectedState_new v d))
    \<and> map_of N2N_SUPPORTED v = Some d"
proof -
  have "v \<in> set (map fst N2N_SUPPORTED)" "table \<noteq> []" using assms(3) by (auto simp: highest_common_def)
  then obtain d where d: "map_of N2N_SUPPORTED v = Some d" using map_of_dom by (metis not_None_eq)
  with assms(3) have sel: "select_proposed table N2N_SUPPORTED None = Some (v, d)" by (simp add: select_proposed_Some)
  obtain proposal where pr: "encode_inner_frame Handshake
      (encode_handshake_message (HandshakeMessage.ProposeVersions table)) MuxMode.Initiator 0 = Ok proposal"
    "decode_frame (proposal @ []) = Ok (inner_frame Handshake MuxMode.Initiator 0
      (encode_handshake_message (HandshakeMessage.ProposeVersions table)), [])"
    using handshake_frame [OF assms(1,2)] by blast
  obtain answer where ans: "encode_inner_frame Handshake
      (encode_handshake_message (HandshakeMessage.AcceptVersion v [0x01])) MuxMode.Responder 0 = Ok answer"
    "step waiting_initiator (Inbound (answer @ [])) = Ok ([HandshakeComplete v d], Connected (ConnectedState_new v d))"
    using initiator_completes [OF d] by blast
  have "step new_responder (Inbound proposal)
      = Ok ([SendBytes answer, HandshakeComplete v d], Connected (ConnectedState_new v d))"
    using pr(2) ans(1) \<open>table \<noteq> []\<close> sel
    by (simp add: step_def handle_inbound_def new_responder_def FrameBuffer_new_def append_bytes_def
        drain_handshake_selects [OF _ assms(1)] handshake_agency_def n2n_transition_def select_n2n_version_def)
  with initiator_starts [OF pr(1)] ans(2) d show ?thesis by (metis append_Nil2)
qed

theorem session_handshake_agreement_witness:
  "\<exists>proposal waiting answer d.
      step new_initiator (HandshakeStartInitiator (HandshakeMessage.ProposeVersions [(9, [1]), (14, [1])]))
        = Ok ([SendBytes proposal], waiting)
    \<and> step new_responder (Inbound proposal) = Ok ([SendBytes answer, HandshakeComplete 14 d], Connected (ConnectedState_new 14 d))
    \<and> step waiting (Inbound answer) = Ok ([HandshakeComplete 14 d], Connected (ConnectedState_new 14 d))
    \<and> map_of N2N_SUPPORTED 14 = Some d"
proof (rule session_handshake_agreement)
  show "handshake_ok (HandshakeMessage.ProposeVersions [(9, [1]), (14, [1])])"
    by (simp add: table_ok_def params_ok_def small_int_item)
  show "length (encode_handshake_message (HandshakeMessage.ProposeVersions [(9, [1]), (14, [1])])) \<le> MAX_PAYLOAD"
    by (simp add: encode_handshake_message_def encode_version_table_def encode_array_header_def encode_u64_def
        write_uint_canonical_def write_array_header_def write_map_header_def write_argument_def canonical_width_def
        MAX_PAYLOAD_def Let_def)
  show "highest_common (map fst [(9, [1 :: u8]), (14, [1])]) (map fst N2N_SUPPORTED) 14"
    by (simp add: highest_common_def N2N_SUPPORTED_def)
qed

text \<open>
  Bytes behind the answer are lost: when the acceptance and further frames arrive at a waiting
  initiator in one chunk, the further bytes are discarded with the old buffer, whatever they
  are; when they arrive in a chunk of their own they are handled by the new connected state.
\<close>

theorem session_discards_after_handshake:
  "\<exists>answer. \<forall>rest.
     run_session waiting_initiator [Inbound (answer @ rest)]
       = Ok ([HandshakeComplete 14 (n2n MAINNET_NETWORK_MAGIC)],
             Connected (ConnectedState_new 14 (n2n MAINNET_NETWORK_MAGIC)))
   \<and> run_session waiting_initiator [Inbound answer, Inbound rest]
       = rbind (step (Connected (ConnectedState_new 14 (n2n MAINNET_NETWORK_MAGIC))) (Inbound rest)) (\<lambda>(effects, state).
           Ok (HandshakeComplete 14 (n2n MAINNET_NETWORK_MAGIC) # effects, state))"
proof -
  let ?d = "n2n MAINNET_NETWORK_MAGIC"
  have "map_of N2N_SUPPORTED 14 = Some ?d" by (simp add: N2N_SUPPORTED_def)
  then obtain answer where a: "\<And>rest. step waiting_initiator (Inbound (answer @ rest))
      = Ok ([HandshakeComplete 14 ?d], Connected (ConnectedState_new 14 ?d))"
    using initiator_completes by blast
  with a [of "[]"] show ?thesis
    by (intro exI [of _ answer]) (auto simp: rbind_assoc split_def intro!: rbind_cong_Ok)
qed

theorem session_gate_witness:
  "\<exists>events effects c. run_session new_initiator events = Ok (effects, Connected c)
     \<and> (\<exists>pre post. effects = pre @ HandshakeComplete (cs_negotiated_version c) (cs_negotiated_params c) # post
           \<and> list_all is_send pre \<and> \<not> list_ex is_complete post
           \<and> (cs_negotiated_version c, cs_negotiated_params c) \<in> set N2N_SUPPORTED)"
proof -
  obtain d where d: "map_of N2N_SUPPORTED 14 = Some d" by (simp add: N2N_SUPPORTED_def)
  obtain answer where "step waiting_initiator (Inbound (answer @ []))
      = Ok ([HandshakeComplete 14 d], Connected (ConnectedState_new 14 d))"
    using initiator_completes [OF d] by blast
  moreover obtain proposal where "encode_inner_frame Handshake
      (encode_handshake_message (HandshakeMessage.AcceptVersion 0 [0x01])) MuxMode.Initiator 0 = Ok proposal"
    using encode_inner_frame_Ok [OF accept_message_ok(2)] by blast
  ultimately have run: "run_session new_initiator [HandshakeStartInitiator (HandshakeMessage.AcceptVersion 0 [0x01]), Inbound answer]
      = Ok ([SendBytes proposal, HandshakeComplete 14 d], Connected (ConnectedState_new 14 d))"
    by (simp add: initiator_starts)
  from session_gate [OF disjI1 [OF refl] this, unfolded SessionState.case] run show ?thesis by blast
qed

end
