(* ===== verification/Mini_Protocol.thy ===== *)
theory Mini_Protocol
  imports Prelude
begin

text \<open>
  What the mini-protocol state machines of \<^verbatim>\<open>ade_network\<close> share. Each is a pure function from a
  state, the agency of the sender, the negotiated version and a message to the next state and an
  output. The locale \<open>mini_protocol\<close> states the discipline their documentation promises: only the
  party that holds agency in a state may send, and nobody may send in a terminal state. The
  locale \<open>exchange_protocol\<close> adds that a conversation is made of exchanges that start and end in
  one resting state. The lemmas about whole conversations are proved once here.
\<close>

named_theorems protocol_simps \<open>the transition tables of the mini-protocols\<close>

section \<open>Conversations\<close>

fun run_protocol ::
  "('s \<Rightarrow> 'a \<Rightarrow> u16 \<Rightarrow> 'm \<Rightarrow> ('s \<times> 'o, 'e) result) \<Rightarrow> u16 \<Rightarrow> 's \<Rightarrow> ('a \<times> 'm) list
     \<Rightarrow> ('s \<times> 'o list, 'e) result" where
  "run_protocol transition version state [] = Ok (state, [])"
| "run_protocol transition version state (am # ams) =
     rbind (transition state (fst am) version (snd am)) (\<lambda>(state', out).
     rbind (run_protocol transition version state' ams) (\<lambda>(state'', outs).
     Ok (state'', out # outs)))"

lemma run_protocol_Cons:
  "run_protocol tr v s (am # ams) = Ok (s'', outs) \<longleftrightarrow>
     (\<exists>s' out outs'. tr s (fst am) v (snd am) = Ok (s', out)
        \<and> run_protocol tr v s' ams = Ok (s'', outs') \<and> outs = out # outs')"
  by (auto simp: result_simps split: prod.splits)

lemma run_protocol_append:
  "run_protocol tr v s (ams @ bms) = Ok (s'', outs) \<longleftrightarrow>
     (\<exists>s' outs1 outs2. run_protocol tr v s ams = Ok (s', outs1)
        \<and> run_protocol tr v s' bms = Ok (s'', outs2) \<and> outs = outs1 @ outs2)"
  by (induction ams arbitrary: s outs) (force simp: run_protocol_Cons simp del: run_protocol.simps(2))+

lemma run_protocol_length:
  "run_protocol tr v s ams = Ok (s', outs) \<Longrightarrow> length outs = length ams"
  by (induction ams arbitrary: s outs) (auto simp: run_protocol_Cons simp del: run_protocol.simps(2))

declare run_protocol.simps(2) [simp del]

text \<open>
  The conversations a set of exchanges generates: messages and outputs of each exchange, one after
  the other.
\<close>

inductive conversation ::
  "(('a \<times> 'm) list \<Rightarrow> 'o list \<Rightarrow> bool) \<Rightarrow> ('a \<times> 'm) list \<Rightarrow> 'o list \<Rightarrow> bool"
  for exchange :: "('a \<times> 'm) list \<Rightarrow> 'o list \<Rightarrow> bool" where
  empty: "conversation exchange [] []"
| step: "exchange ams outs \<Longrightarrow> conversation exchange ams' outs'
    \<Longrightarrow> conversation exchange (ams @ ams') (outs @ outs')"

section \<open>Agency\<close>

text \<open>
  What the protocols promise of every conversation from any state: each accepted message comes from
  the holder of agency in the state reached before it, not from nobody, and under a supported version.
\<close>

definition agency_discipline ::
  "('s \<Rightarrow> 'a \<Rightarrow> u16 \<Rightarrow> 'm \<Rightarrow> ('s \<times> 'o, 'e) result) \<Rightarrow> ('s \<Rightarrow> 'a) \<Rightarrow> 'a \<Rightarrow> u16 \<Rightarrow> bool" where
  "agency_discipline transition holder neither max_version \<longleftrightarrow>
     (\<forall>v s ams a m bms r. run_protocol transition v s (ams @ (a, m) # bms) = Ok r \<longrightarrow>
        (\<exists>s' outs. run_protocol transition v s ams = Ok (s', outs) \<and> a = holder s' \<and> a \<noteq> neither \<and> v \<le> max_version))"

locale mini_protocol =
  fixes transition :: "'s \<Rightarrow> 'a \<Rightarrow> u16 \<Rightarrow> 'm \<Rightarrow> ('s \<times> 'o, 'e) result"
    and holder :: "'s \<Rightarrow> 'a"
    and neither :: 'a
    and max_version :: u16
  assumes sender_holds_agency: "transition s a v m = Ok r \<Longrightarrow> a = holder s"
    and nobody_sends: "transition s neither v m \<noteq> Ok r"
    and version_bound: "transition s a v m = Ok r \<Longrightarrow> v \<le> max_version"
begin

lemma terminal_silent:
  assumes "holder s = neither"
  shows "transition s a v m \<noteq> Ok r"
  using sender_holds_agency nobody_sends assms by metis

lemma run_agency:
  assumes "run_protocol transition v s (ams @ (a, m) # bms) = Ok r"
  shows "\<exists>s' outs. run_protocol transition v s ams = Ok (s', outs) \<and> a = holder s' \<and> a \<noteq> neither
    \<and> v \<le> max_version"
proof -
  obtain s'' outs where r: "r = (s'', outs)" by (cases r)
  from assms obtain s' outs1 r' where run: "run_protocol transition v s ams = Ok (s', outs1)"
    and tr: "transition s' a v m = Ok r'"
    unfolding r run_protocol_append run_protocol_Cons by auto
  have "a \<noteq> neither" using tr nobody_sends by metis
  with run tr show ?thesis using sender_holds_agency version_bound by blast
qed

lemma discipline: "agency_discipline transition holder neither max_version"
  unfolding agency_discipline_def using run_agency by blast

lemma run_from_terminal:
  assumes "holder s = neither" and "run_protocol transition v s ams = Ok r"
  shows "ams = [] \<and> r = (s, [])"
  using assms by (cases ams) (auto simp: run_protocol.simps rbind_eq_Ok terminal_silent)

end

section \<open>Exchanges\<close>

locale exchange_protocol = mini_protocol transition holder neither max_version
  for transition :: "'s \<Rightarrow> 'a \<Rightarrow> u16 \<Rightarrow> 'm \<Rightarrow> ('s \<times> 'o, 'e) result"
    and holder :: "'s \<Rightarrow> 'a" and neither :: 'a and max_version :: u16 +
  fixes resting :: 's
    and exchange :: "('a \<times> 'm) list \<Rightarrow> 'o list \<Rightarrow> bool"
  assumes exchange_runs: "v \<le> max_version \<Longrightarrow> exchange ams outs
      \<Longrightarrow> run_protocol transition v resting ams = Ok (resting, outs)"
    and run_exchanges: "run_protocol transition v resting ams = Ok (resting, outs) \<Longrightarrow> ams \<noteq> []
      \<Longrightarrow> \<exists>ams1 outs1 ams2 outs2. exchange ams1 outs1 \<and> ams = ams1 @ ams2 \<and> outs = outs1 @ outs2
            \<and> ams1 \<noteq> [] \<and> run_protocol transition v resting ams2 = Ok (resting, outs2)"
begin

lemma conversation_runs:
  assumes "v \<le> max_version" and "conversation exchange ams outs"
  shows "run_protocol transition v resting ams = Ok (resting, outs)"
  using assms(2) by induction (auto simp: run_protocol_append dest: exchange_runs [OF assms(1)])

lemma run_conversation:
  "run_protocol transition v resting ams = Ok (resting, outs) \<Longrightarrow> conversation exchange ams outs"
proof (induction "length ams" arbitrary: ams outs rule: less_induct)
  case less
  show ?case
  proof (cases "ams = []")
    case True
    with less.prems show ?thesis by (auto intro: conversation.empty)
  next
    case False
    from run_exchanges [OF less.prems this] obtain ams1 outs1 ams2 outs2 where
      ex: "exchange ams1 outs1" "ams = ams1 @ ams2" "outs = outs1 @ outs2" "ams1 \<noteq> []"
      and rest: "run_protocol transition v resting ams2 = Ok (resting, outs2)"
      by blast
    from ex have "length ams2 < length ams" by simp
    from less.hyps [OF this rest] ex show ?thesis by (simp add: conversation.step)
  qed
qed

lemma run_iff_conversation:
  "v \<le> max_version \<Longrightarrow>
     run_protocol transition v resting ams = Ok (resting, outs) \<longleftrightarrow> conversation exchange ams outs"
  using conversation_runs run_conversation by blast

end

end
