(* ===== verification/Chain_Sync.thy ===== *)
theory Chain_Sync
  imports Mini_Protocol Consensus_Types
begin

text \<open>
  The node-to-node chain-sync state machine: \<^verbatim>\<open>chain_sync/agency.rs\<close>, \<^verbatim>\<open>signal.rs\<close>,
  \<^verbatim>\<open>state.rs\<close> and \<^verbatim>\<open>transition.rs\<close> of \<^verbatim>\<open>ade_network\<close>, with the message types of
  \<^verbatim>\<open>codec/chain_sync.rs\<close>.
\<close>

section \<open>Data\<close>

datatype ChainPoint = Origin | Block SlotNo Hash32

record Tip =
  tip_point :: ChainPoint
  tip_block_no :: u64

datatype ChainSyncMessage =
    RequestNext
  | AwaitReply
  | RollForward bytes Tip
  | RollBackward ChainPoint Tip
  | FindIntersect "ChainPoint list"
  | IntersectFound ChainPoint Tip
  | IntersectNotFound Tip
  | Done

datatype ChainSyncAgency = Client | Server | Neither

datatype ForkChoiceSignal =
    RollForward bytes Tip
  | RollBackward ChainPoint Tip
  | Intersected ChainPoint Tip
  | NoIntersection Tip

datatype ChainSyncState = Idle | CanAwait | MustReply | Intersect | Done

datatype ChainSyncOutput = Reply ChainSyncMessage | Signal ForkChoiceSignal | Done

datatype ChainSyncError =
    IllegalTransition ChainSyncState string string
  | InvalidForVersion u16 string
  | MalformedMessage string

section \<open>Transition\<close>

definition MAX_CHAIN_SYNC_VERSION :: u16 where "MAX_CHAIN_SYNC_VERSION = 100"

fun chain_sync_message_tag :: "ChainSyncMessage \<Rightarrow> string" where
  "chain_sync_message_tag RequestNext = ''RequestNext''"
| "chain_sync_message_tag AwaitReply = ''AwaitReply''"
| "chain_sync_message_tag (ChainSyncMessage.RollForward _ _) = ''RollForward''"
| "chain_sync_message_tag (ChainSyncMessage.RollBackward _ _) = ''RollBackward''"
| "chain_sync_message_tag (FindIntersect _) = ''FindIntersect''"
| "chain_sync_message_tag (IntersectFound _ _) = ''IntersectFound''"
| "chain_sync_message_tag (IntersectNotFound _) = ''IntersectNotFound''"
| "chain_sync_message_tag ChainSyncMessage.Done = ''Done''"

fun chain_sync_agency_tag :: "ChainSyncAgency \<Rightarrow> string" where
  "chain_sync_agency_tag Client = ''Client''"
| "chain_sync_agency_tag Server = ''Server''"
| "chain_sync_agency_tag Neither = ''Neither''"

definition chain_sync_transition ::
  "ChainSyncState \<Rightarrow> ChainSyncAgency \<Rightarrow> u16 \<Rightarrow> ChainSyncMessage
     \<Rightarrow> (ChainSyncState \<times> ChainSyncOutput, ChainSyncError) result" where
  "chain_sync_transition state agency version msg =
     (if MAX_CHAIN_SYNC_VERSION < version then Err (InvalidForVersion version (chain_sync_message_tag msg))
      else case (state, agency, msg) of
        (Idle, Client, RequestNext) \<Rightarrow> Ok (CanAwait, Reply RequestNext)
      | (Idle, Client, FindIntersect points) \<Rightarrow>
          (if points = [] then Err (MalformedMessage ''FindIntersect carried an empty points list'')
           else Ok (Intersect, Reply (FindIntersect points)))
      | (Idle, Client, ChainSyncMessage.Done) \<Rightarrow> Ok (ChainSyncState.Done, ChainSyncOutput.Done)
      | (CanAwait, Server, ChainSyncMessage.RollForward header tip) \<Rightarrow>
          Ok (Idle, Signal (ForkChoiceSignal.RollForward header tip))
      | (CanAwait, Server, ChainSyncMessage.RollBackward point tip) \<Rightarrow>
          Ok (Idle, Signal (ForkChoiceSignal.RollBackward point tip))
      | (CanAwait, Server, AwaitReply) \<Rightarrow> Ok (MustReply, Reply AwaitReply)
      | (MustReply, Server, ChainSyncMessage.RollForward header tip) \<Rightarrow>
          Ok (Idle, Signal (ForkChoiceSignal.RollForward header tip))
      | (MustReply, Server, ChainSyncMessage.RollBackward point tip) \<Rightarrow>
          Ok (Idle, Signal (ForkChoiceSignal.RollBackward point tip))
      | (Intersect, Server, IntersectFound point tip) \<Rightarrow> Ok (Idle, Signal (Intersected point tip))
      | (Intersect, Server, IntersectNotFound tip) \<Rightarrow> Ok (Idle, Signal (NoIntersection tip))
      | (state, agency, msg) \<Rightarrow>
          Err (IllegalTransition state (chain_sync_message_tag msg) (chain_sync_agency_tag agency)))"

section \<open>Specification\<close>

text \<open>The holder of agency in each state, as \<^verbatim>\<open>agency.rs\<close> documents it.\<close>

fun chain_sync_holder :: "ChainSyncState \<Rightarrow> ChainSyncAgency" where
  "chain_sync_holder Idle = Client"
| "chain_sync_holder CanAwait = Server"
| "chain_sync_holder MustReply = Server"
| "chain_sync_holder Intersect = Server"
| "chain_sync_holder ChainSyncState.Done = Neither"

inductive roll_signal :: "ChainSyncMessage \<Rightarrow> ForkChoiceSignal \<Rightarrow> bool" where
  "roll_signal (ChainSyncMessage.RollForward header tip) (ForkChoiceSignal.RollForward header tip)"
| "roll_signal (ChainSyncMessage.RollBackward point tip) (ForkChoiceSignal.RollBackward point tip)"

inductive intersect_signal :: "ChainSyncMessage \<Rightarrow> ForkChoiceSignal \<Rightarrow> bool" where
  "intersect_signal (IntersectFound point tip) (Intersected point tip)"
| "intersect_signal (IntersectNotFound tip) (NoIntersection tip)"

inductive chain_sync_exchange :: "(ChainSyncAgency \<times> ChainSyncMessage) list \<Rightarrow> ChainSyncOutput list \<Rightarrow> bool" where
  next_block: "roll_signal m sig \<Longrightarrow>
    chain_sync_exchange [(Client, RequestNext), (Server, m)] [Reply RequestNext, Signal sig]"
| next_awaited: "roll_signal m sig \<Longrightarrow>
    chain_sync_exchange [(Client, RequestNext), (Server, AwaitReply), (Server, m)]
      [Reply RequestNext, Reply AwaitReply, Signal sig]"
| intersect: "points \<noteq> [] \<Longrightarrow> intersect_signal m sig \<Longrightarrow>
    chain_sync_exchange [(Client, FindIntersect points), (Server, m)] [Reply (FindIntersect points), Signal sig]"

section \<open>Lemmas\<close>

lemma chain_sync_transition_Ok [protocol_simps]:
  "chain_sync_transition s a v m = Ok (s', out) \<longleftrightarrow> v \<le> 100 \<and>
     (case s of
        Idle \<Rightarrow> a = Client \<and>
          (m = RequestNext \<and> s' = CanAwait \<and> out = Reply m
           \<or> (\<exists>points. m = FindIntersect points \<and> points \<noteq> [] \<and> s' = Intersect \<and> out = Reply m)
           \<or> m = ChainSyncMessage.Done \<and> s' = ChainSyncState.Done \<and> out = ChainSyncOutput.Done)
      | CanAwait \<Rightarrow> a = Server \<and>
          (m = AwaitReply \<and> s' = MustReply \<and> out = Reply m
           \<or> (\<exists>sig. roll_signal m sig \<and> s' = Idle \<and> out = Signal sig))
      | MustReply \<Rightarrow> a = Server \<and> (\<exists>sig. roll_signal m sig \<and> s' = Idle \<and> out = Signal sig)
      | Intersect \<Rightarrow> a = Server \<and> (\<exists>sig. intersect_signal m sig \<and> s' = Idle \<and> out = Signal sig)
      | ChainSyncState.Done \<Rightarrow> False)"
  unfolding chain_sync_transition_def MAX_CHAIN_SYNC_VERSION_def
  by (cases s; cases a; cases m)
    (auto simp: roll_signal.simps intersect_signal.simps not_less split: if_splits)

lemma chain_sync_exchange_runs:
  assumes "v \<le> 100" and "chain_sync_exchange ams outs"
  shows "run_protocol chain_sync_transition v Idle ams = Ok (Idle, outs)"
  using assms(2,1) by cases (auto simp: run_protocol_Cons protocol_simps)

lemma chain_sync_must_reply:
  assumes "run_protocol chain_sync_transition v MustReply ams = Ok (Idle, outs)"
  obtains m sig ams2 outs2 where "roll_signal m sig" "ams = (Server, m) # ams2" "outs = Signal sig # outs2"
    "run_protocol chain_sync_transition v Idle ams2 = Ok (Idle, outs2)"
  using assms by (cases ams) (auto simp: run_protocol_Cons protocol_simps)

lemma chain_sync_can_await:
  assumes "run_protocol chain_sync_transition v CanAwait ams = Ok (Idle, outs)"
  shows "\<exists>ams1 outs1 ams2 outs2. chain_sync_exchange ((Client, RequestNext) # ams1) (Reply RequestNext # outs1)
    \<and> ams = ams1 @ ams2 \<and> outs = outs1 @ outs2 \<and> run_protocol chain_sync_transition v Idle ams2 = Ok (Idle, outs2)"
proof (cases ams)
  case (Cons am bms)
  with assms obtain s' out outs' where tr: "chain_sync_transition CanAwait (fst am) v (snd am) = Ok (s', out)"
    and run: "run_protocol chain_sync_transition v s' bms = Ok (Idle, outs')" and outs: "outs = out # outs'"
    by (auto simp: run_protocol_Cons)
  show ?thesis
  proof (cases "s' = MustReply")
    case True
    with run obtain m sig ams2 outs2 where "roll_signal m sig" "bms = (Server, m) # ams2"
      "outs' = Signal sig # outs2" "run_protocol chain_sync_transition v Idle ams2 = Ok (Idle, outs2)"
      using chain_sync_must_reply by metis
    with True tr Cons outs show ?thesis
      by (intro exI [of _ "[am, (Server, m)]"] exI [of _ "[out, Signal sig]"] exI [of _ ams2] exI [of _ outs2])
        (cases am, auto simp: protocol_simps intro: chain_sync_exchange.intros)
  next
    case False
    with tr run Cons outs show ?thesis
      by (intro exI [of _ "[am]"] exI [of _ "[out]"] exI [of _ bms] exI [of _ outs'])
        (cases am, auto simp: protocol_simps intro: chain_sync_exchange.intros)
  qed
qed (use assms in simp)

lemma chain_sync_intersect:
  assumes "run_protocol chain_sync_transition v Intersect ams = Ok (Idle, outs)"
  obtains m sig ams2 outs2 where "intersect_signal m sig" "ams = (Server, m) # ams2" "outs = Signal sig # outs2"
    "run_protocol chain_sync_transition v Idle ams2 = Ok (Idle, outs2)"
  using assms by (cases ams) (auto simp: run_protocol_Cons protocol_simps)

lemma chain_sync_done:
  "run_protocol chain_sync_transition v ChainSyncState.Done ams \<noteq> Ok (Idle, outs)"
  by (cases ams) (auto simp: run_protocol_Cons protocol_simps)

lemma chain_sync_run_exchanges:
  assumes run: "run_protocol chain_sync_transition v Idle ams = Ok (Idle, outs)" and ne: "ams \<noteq> []"
  shows "\<exists>ams1 outs1 ams2 outs2. chain_sync_exchange ams1 outs1 \<and> ams = ams1 @ ams2 \<and> outs = outs1 @ outs2
    \<and> ams1 \<noteq> [] \<and> run_protocol chain_sync_transition v Idle ams2 = Ok (Idle, outs2)"
proof -
  obtain am bms where ams: "ams = am # bms" using ne by (cases ams) auto
  with run obtain s' out outs' where tr: "chain_sync_transition Idle (fst am) v (snd am) = Ok (s', out)"
    and run': "run_protocol chain_sync_transition v s' bms = Ok (Idle, outs')" and outs: "outs = out # outs'"
    by (auto simp: run_protocol_Cons)
  consider "am = (Client, RequestNext)" "s' = CanAwait" "out = Reply RequestNext"
    | points where "am = (Client, FindIntersect points)" "points \<noteq> []" "s' = Intersect"
        "out = Reply (FindIntersect points)"
    using tr run' by (cases am) (auto simp: protocol_simps chain_sync_done)
  then show ?thesis
  proof cases
    case 1
    with run' ams outs show ?thesis using chain_sync_can_await by (metis append_Cons list.distinct(1))
  next
    case 2
    with run' obtain m sig ams2 outs2 where "intersect_signal m sig" "bms = (Server, m) # ams2"
      "outs' = Signal sig # outs2" "run_protocol chain_sync_transition v Idle ams2 = Ok (Idle, outs2)"
      using chain_sync_intersect by metis
    with 2 ams outs show ?thesis
      by (intro exI [of _ "[am, (Server, m)]"] exI [of _ "[out, Signal sig]"] exI [of _ ams2] exI [of _ outs2])
        (auto intro: chain_sync_exchange.intros)
  qed
qed

interpretation chain_sync: exchange_protocol
  chain_sync_transition chain_sync_holder Neither 100 Idle chain_sync_exchange
proof
  show "a = chain_sync_holder s" if "chain_sync_transition s a v m = Ok r" for s a v m r
    using that by (cases r; cases s) (auto simp: protocol_simps)
  show "chain_sync_transition s Neither v m \<noteq> Ok r" for s v m r
    by (cases r; cases s) (auto simp: protocol_simps)
  show "v \<le> 100" if "chain_sync_transition s a v m = Ok r" for s a v m r
    using that by (cases r) (auto simp: protocol_simps)
qed (rule chain_sync_exchange_runs chain_sync_run_exchanges; assumption)+

section \<open>Properties\<close>

text \<open>
  C35. The chain-sync machine accepts exactly the conversations of the protocol: a message sequence
  leads from \<open>Idle\<close> back to \<open>Idle\<close> with given outputs if and only if it is a sequence of
  exchanges, each a \<open>RequestNext\<close> answered by one roll, possibly after one \<open>AwaitReply\<close>, or a
  \<open>FindIntersect\<close> with at least one point answered by one intersection reply, and the signals are
  those replies in order, each carrying the reply's own header, point and tip.
\<close>

theorem chain_sync_language:
  assumes "version \<le> 100"
  shows "run_protocol chain_sync_transition version Idle ams = Ok (Idle, outs)
    \<longleftrightarrow> conversation chain_sync_exchange ams outs"
  using assms by (rule chain_sync.run_iff_conversation)

theorem chain_sync_language_witness:
  "run_protocol chain_sync_transition 14 Idle
     [(Client, FindIntersect [Origin]), (Server, IntersectNotFound \<lparr>tip_point = Origin, tip_block_no = 0\<rparr>),
      (Client, RequestNext), (Server, AwaitReply),
      (Server, ChainSyncMessage.RollForward [1] \<lparr>tip_point = Origin, tip_block_no = 0\<rparr>)]
   = Ok (Idle, [Reply (FindIntersect [Origin]), Signal (NoIntersection \<lparr>tip_point = Origin, tip_block_no = 0\<rparr>),
       Reply RequestNext, Reply AwaitReply,
       Signal (ForkChoiceSignal.RollForward [1] \<lparr>tip_point = Origin, tip_block_no = 0\<rparr>)])"
proof -
  let ?t = "\<lparr>tip_point = Origin, tip_block_no = 0\<rparr>"
  have "conversation chain_sync_exchange
    ([(Client, FindIntersect [Origin]), (Server, IntersectNotFound ?t)]
      @ [(Client, RequestNext), (Server, AwaitReply), (Server, ChainSyncMessage.RollForward [1] ?t)] @ [])
    ([Reply (FindIntersect [Origin]), Signal (NoIntersection ?t)]
      @ [Reply RequestNext, Reply AwaitReply, Signal (ForkChoiceSignal.RollForward [1] ?t)] @ [])"
    by (intro conversation.intros chain_sync_exchange.intros roll_signal.intros intersect_signal.intros) simp
  with chain_sync_language [of 14] show ?thesis by simp
qed

end
