(* ===== verification/Block_Fetch.thy ===== *)
theory Block_Fetch
  imports Mini_Protocol Consensus_Types
begin

text \<open>
  The node-to-node block-fetch state machine: \<^verbatim>\<open>block_fetch/agency.rs\<close>, \<^verbatim>\<open>event.rs\<close>,
  \<^verbatim>\<open>state.rs\<close> and \<^verbatim>\<open>transition.rs\<close> of \<^verbatim>\<open>ade_network\<close>, with the message types of
  \<^verbatim>\<open>codec/block_fetch.rs\<close>.
\<close>

section \<open>Data\<close>

datatype FetchPoint = Origin | Block SlotNo Hash32

record Range =
  range_from :: FetchPoint
  range_to :: FetchPoint

datatype BlockFetchMessage =
    RequestRange Range
  | ClientDone
  | StartBatch
  | NoBlocks
  | Block bytes
  | BatchDone

datatype BlockFetchAgency = Client | Server | Neither

datatype BatchDeliveryEvent = BatchStarted | BlockDelivered bytes | NoBlocks | BatchCompleted

datatype BlockFetchState = Idle | Busy | Streaming | Done

datatype BlockFetchOutput = Reply BlockFetchMessage | Event BatchDeliveryEvent | Done

datatype BlockFetchError =
    IllegalTransition BlockFetchState string BlockFetchAgency
  | InvalidForVersion u16 string
  | MalformedMessage string

section \<open>Transition\<close>

definition MAX_BLOCK_FETCH_VERSION :: u16 where "MAX_BLOCK_FETCH_VERSION = 100"

fun block_fetch_message_tag :: "BlockFetchMessage \<Rightarrow> string" where
  "block_fetch_message_tag (RequestRange _) = ''RequestRange''"
| "block_fetch_message_tag ClientDone = ''ClientDone''"
| "block_fetch_message_tag StartBatch = ''StartBatch''"
| "block_fetch_message_tag BlockFetchMessage.NoBlocks = ''NoBlocks''"
| "block_fetch_message_tag (BlockFetchMessage.Block _) = ''Block''"
| "block_fetch_message_tag BatchDone = ''BatchDone''"

definition inverted_range :: "Range \<Rightarrow> bool" where
  "inverted_range rng =
     (case (range_from rng, range_to rng) of
        (FetchPoint.Block s_from _, FetchPoint.Block s_to _) \<Rightarrow> s_to < s_from
      | _ \<Rightarrow> False)"

definition block_fetch_transition ::
  "BlockFetchState \<Rightarrow> BlockFetchAgency \<Rightarrow> u16 \<Rightarrow> BlockFetchMessage
     \<Rightarrow> (BlockFetchState \<times> BlockFetchOutput, BlockFetchError) result" where
  "block_fetch_transition state agency version msg =
     (if MAX_BLOCK_FETCH_VERSION < version then Err (InvalidForVersion version (block_fetch_message_tag msg))
      else case (state, agency, msg) of
        (Idle, Client, RequestRange rng) \<Rightarrow>
          (if inverted_range rng then Err (MalformedMessage ''BlockFetch range is inverted (from > to)'')
           else Ok (Busy, Reply (RequestRange rng)))
      | (Idle, Client, ClientDone) \<Rightarrow> Ok (BlockFetchState.Done, BlockFetchOutput.Done)
      | (Busy, Server, StartBatch) \<Rightarrow> Ok (Streaming, Event BatchStarted)
      | (Busy, Server, BlockFetchMessage.NoBlocks) \<Rightarrow> Ok (Idle, Event BatchDeliveryEvent.NoBlocks)
      | (Streaming, Server, BlockFetchMessage.Block bytes) \<Rightarrow> Ok (Streaming, Event (BlockDelivered bytes))
      | (Streaming, Server, BatchDone) \<Rightarrow> Ok (Idle, Event BatchCompleted)
      | (state, agency, msg) \<Rightarrow> Err (IllegalTransition state (block_fetch_message_tag msg) agency))"

section \<open>Specification\<close>

text \<open>The holder of agency in each state, as \<^verbatim>\<open>agency.rs\<close> documents it.\<close>

fun block_fetch_holder :: "BlockFetchState \<Rightarrow> BlockFetchAgency" where
  "block_fetch_holder Idle = Client"
| "block_fetch_holder Busy = Server"
| "block_fetch_holder Streaming = Server"
| "block_fetch_holder BlockFetchState.Done = Neither"

inductive block_fetch_exchange :: "(BlockFetchAgency \<times> BlockFetchMessage) list \<Rightarrow> BlockFetchOutput list \<Rightarrow> bool" where
  no_blocks: "\<not> inverted_range rng \<Longrightarrow>
    block_fetch_exchange [(Client, RequestRange rng), (Server, BlockFetchMessage.NoBlocks)]
      [Reply (RequestRange rng), Event BatchDeliveryEvent.NoBlocks]"
| batch: "\<not> inverted_range rng \<Longrightarrow>
    block_fetch_exchange
      ([(Client, RequestRange rng), (Server, StartBatch)]
        @ map (\<lambda>b. (Server, BlockFetchMessage.Block b)) blocks @ [(Server, BatchDone)])
      ([Reply (RequestRange rng), Event BatchStarted]
        @ map (\<lambda>b. Event (BlockDelivered b)) blocks @ [Event BatchCompleted])"

section \<open>Lemmas\<close>

lemma block_fetch_transition_Ok [protocol_simps]:
  "block_fetch_transition s a v m = Ok (s', out) \<longleftrightarrow> v \<le> 100 \<and>
     (case s of
        Idle \<Rightarrow> a = Client \<and>
          ((\<exists>rng. m = RequestRange rng \<and> \<not> inverted_range rng \<and> s' = Busy \<and> out = Reply m)
           \<or> m = ClientDone \<and> s' = BlockFetchState.Done \<and> out = BlockFetchOutput.Done)
      | Busy \<Rightarrow> a = Server \<and>
          (m = StartBatch \<and> s' = Streaming \<and> out = Event BatchStarted
           \<or> m = BlockFetchMessage.NoBlocks \<and> s' = Idle \<and> out = Event BatchDeliveryEvent.NoBlocks)
      | Streaming \<Rightarrow> a = Server \<and>
          ((\<exists>b. m = BlockFetchMessage.Block b \<and> s' = Streaming \<and> out = Event (BlockDelivered b))
           \<or> m = BatchDone \<and> s' = Idle \<and> out = Event BatchCompleted)
      | BlockFetchState.Done \<Rightarrow> False)"
  unfolding block_fetch_transition_def MAX_BLOCK_FETCH_VERSION_def
  by (cases s; cases a; cases m) (auto simp: not_less split: if_splits)

lemma block_fetch_stream_runs:
  "v \<le> 100 \<Longrightarrow> run_protocol block_fetch_transition v Streaming
     (map (\<lambda>b. (Server, BlockFetchMessage.Block b)) blocks @ [(Server, BatchDone)])
   = Ok (Idle, map (\<lambda>b. Event (BlockDelivered b)) blocks @ [Event BatchCompleted])"
  by (induction blocks) (auto simp: run_protocol_Cons protocol_simps)

lemma block_fetch_exchange_runs:
  assumes "v \<le> 100" and "block_fetch_exchange ams outs"
  shows "run_protocol block_fetch_transition v Idle ams = Ok (Idle, outs)"
  using assms(2,1) by cases (auto simp: run_protocol_Cons protocol_simps block_fetch_stream_runs)

lemma block_fetch_streaming:
  "run_protocol block_fetch_transition v Streaming ams = Ok (Idle, outs) \<Longrightarrow>
     \<exists>blocks ams2 outs2. ams = map (\<lambda>b. (Server, BlockFetchMessage.Block b)) blocks @ (Server, BatchDone) # ams2
       \<and> outs = map (\<lambda>b. Event (BlockDelivered b)) blocks @ Event BatchCompleted # outs2
       \<and> run_protocol block_fetch_transition v Idle ams2 = Ok (Idle, outs2)"
proof (induction ams arbitrary: outs)
  case (Cons am ams)
  then obtain s' out outs' where tr: "block_fetch_transition Streaming (fst am) v (snd am) = Ok (s', out)"
    and run: "run_protocol block_fetch_transition v s' ams = Ok (Idle, outs')" and outs: "outs = out # outs'"
    by (auto simp: run_protocol_Cons)
  show ?case
  proof (cases "snd am = BatchDone")
    case True
    with tr run outs show ?thesis
      by (intro exI [of _ "[]"] exI [of _ ams] exI [of _ outs']) (cases am, auto simp: protocol_simps)
  next
    case False
    with tr obtain b where b: "am = (Server, BlockFetchMessage.Block b)" "s' = Streaming"
      "out = Event (BlockDelivered b)"
      by (cases am) (auto simp: protocol_simps)
    with Cons.IH run obtain blocks ams2 outs2 where
      "ams = map (\<lambda>b. (Server, BlockFetchMessage.Block b)) blocks @ (Server, BatchDone) # ams2"
      "outs' = map (\<lambda>b. Event (BlockDelivered b)) blocks @ Event BatchCompleted # outs2"
      "run_protocol block_fetch_transition v Idle ams2 = Ok (Idle, outs2)"
      by metis
    with b outs show ?thesis
      by (intro exI [of _ "b # blocks"] exI [of _ ams2] exI [of _ outs2]) simp
  qed
qed simp

lemma block_fetch_run_exchanges:
  assumes run: "run_protocol block_fetch_transition v Idle ams = Ok (Idle, outs)" and ne: "ams \<noteq> []"
  shows "\<exists>ams1 outs1 ams2 outs2. block_fetch_exchange ams1 outs1 \<and> ams = ams1 @ ams2 \<and> outs = outs1 @ outs2
    \<and> ams1 \<noteq> [] \<and> run_protocol block_fetch_transition v Idle ams2 = Ok (Idle, outs2)"
proof -
  have stuck: "run_protocol block_fetch_transition v BlockFetchState.Done bms \<noteq> Ok (Idle, os)" for bms os
    by (cases bms) (auto simp: run_protocol_Cons protocol_simps)
  obtain rng bms outs' where ams: "ams = (Client, RequestRange rng) # bms" "\<not> inverted_range rng"
    and run': "run_protocol block_fetch_transition v Busy bms = Ok (Idle, outs')"
    and outs: "outs = Reply (RequestRange rng) # outs'"
    using run ne by (cases ams) (auto simp: run_protocol_Cons protocol_simps stuck)
  from run' consider
      cms outs'' where "bms = (Server, BlockFetchMessage.NoBlocks) # cms"
        "outs' = Event BatchDeliveryEvent.NoBlocks # outs''"
        "run_protocol block_fetch_transition v Idle cms = Ok (Idle, outs'')"
    | cms outs'' where "bms = (Server, StartBatch) # cms" "outs' = Event BatchStarted # outs''"
        "run_protocol block_fetch_transition v Streaming cms = Ok (Idle, outs'')"
    by (cases bms) (auto simp: run_protocol_Cons protocol_simps)
  then show ?thesis
  proof cases
    case 1
    with ams outs show ?thesis
      by (intro exI [of _ "take 2 ams"] exI [of _ "take 2 outs"] exI [of _ cms] exI [of _ outs''])
        (auto intro: block_fetch_exchange.no_blocks)
  next
    case 2
    from block_fetch_streaming [OF 2(3)] obtain blocks ams2 outs2 where s:
      "cms = map (\<lambda>b. (Server, BlockFetchMessage.Block b)) blocks @ (Server, BatchDone) # ams2"
      "outs'' = map (\<lambda>b. Event (BlockDelivered b)) blocks @ Event BatchCompleted # outs2"
      "run_protocol block_fetch_transition v Idle ams2 = Ok (Idle, outs2)" by blast
    with 2 ams outs block_fetch_exchange.batch [OF ams(2), of blocks] show ?thesis
      by fastforce
  qed
qed

interpretation block_fetch: exchange_protocol
  block_fetch_transition block_fetch_holder Neither 100 Idle block_fetch_exchange
proof
  show "a = block_fetch_holder s" if "block_fetch_transition s a v m = Ok r" for s a v m r
    using that by (cases r; cases s) (auto simp: protocol_simps)
  show "block_fetch_transition s Neither v m \<noteq> Ok r" for s v m r
    by (cases r; cases s) (auto simp: protocol_simps)
  show "v \<le> 100" if "block_fetch_transition s a v m = Ok r" for s a v m r
    using that by (cases r) (auto simp: protocol_simps)
qed (rule block_fetch_exchange_runs block_fetch_run_exchanges; assumption)+

section \<open>Properties\<close>

text \<open>
  The block-fetch machine accepts exactly the conversations of the protocol: a message sequence
  leads from \<open>Idle\<close> back to \<open>Idle\<close> with given outputs if and only if it is a sequence of exchanges,
  each a request for a range that is not inverted, answered by \<open>NoBlocks\<close> or by one batch, and
  every batch delivers its blocks, byte for byte and in order, between one start and one
  completion.
\<close>

theorem block_fetch_language:
  assumes "version \<le> 100"
  shows "run_protocol block_fetch_transition version Idle ams = Ok (Idle, outs)
    \<longleftrightarrow> conversation block_fetch_exchange ams outs"
  using assms by (rule block_fetch.run_iff_conversation)

theorem block_fetch_language_witness:
  "conversation block_fetch_exchange
     [(Client, RequestRange \<lparr>range_from = Origin, range_to = Origin\<rparr>), (Server, StartBatch),
      (Server, BlockFetchMessage.Block [1]), (Server, BatchDone)]
     [Reply (RequestRange \<lparr>range_from = Origin, range_to = Origin\<rparr>), Event BatchStarted,
      Event (BlockDelivered [1]), Event BatchCompleted]"
proof -
  have "run_protocol block_fetch_transition 14 Idle
      [(Client, RequestRange \<lparr>range_from = Origin, range_to = Origin\<rparr>), (Server, StartBatch),
       (Server, BlockFetchMessage.Block [1]), (Server, BatchDone)]
    = Ok (Idle, [Reply (RequestRange \<lparr>range_from = Origin, range_to = Origin\<rparr>), Event BatchStarted,
        Event (BlockDelivered [1]), Event BatchCompleted])"
    by (simp add: run_protocol_Cons protocol_simps inverted_range_def)
  with block_fetch_language [of 14] show ?thesis by simp
qed

end
