(* ===== verification/Tx_Submission.thy ===== *)
theory Tx_Submission
  imports Mini_Protocol Consensus_Types
begin

text \<open>
  The node-to-node tx-submission2 state machine: \<^verbatim>\<open>tx_submission/agency.rs\<close>,
  \<^verbatim>\<open>event.rs\<close>, \<^verbatim>\<open>state.rs\<close> and \<^verbatim>\<open>transition.rs\<close> of \<^verbatim>\<open>ade_network\<close>, with the message types
  of \<^verbatim>\<open>codec/tx_submission.rs\<close>. Counts of list elements are natural numbers.
\<close>

section \<open>Data\<close>

record TxSubmissionTxId =
  txid_era :: u64
  txid_id :: Hash32

record TxIdAndSize =
  tis_tx_id :: TxSubmissionTxId
  tis_size :: u32

datatype TxSubmission2Message =
    Init
  | RequestTxIds bool u16 u16
  | ReplyTxIds "TxIdAndSize list"
  | RequestTxs "TxSubmissionTxId list"
  | ReplyTxs "bytes list"
  | Done

datatype TxSubmission2Agency = Client | Server | Neither

datatype InventoryEvent =
    ServerOpened
  | IdsRequested bool u16 u16
  | IdsDelivered "TxIdAndSize list"
  | TxsRequested "TxSubmissionTxId list"
  | TxsDelivered "bytes list"

datatype TxSubmission2State =
    Init
  | Idle
  | TxIdsBlocking u16
  | TxIdsNonBlocking u16
  | TxsRequested nat
  | Done

datatype TxSubmission2Output = Event InventoryEvent | Done

datatype TxSubmission2Error =
    IllegalTransition TxSubmission2State string TxSubmission2Agency
  | InvalidForVersion u16 string
  | MalformedMessage string

section \<open>Transition\<close>

definition MAX_TX_SUBMISSION_VERSION :: u16 where "MAX_TX_SUBMISSION_VERSION = 100"

fun tx_submission_message_tag :: "TxSubmission2Message \<Rightarrow> string" where
  "tx_submission_message_tag TxSubmission2Message.Init = ''Init''"
| "tx_submission_message_tag (RequestTxIds _ _ _) = ''RequestTxIds''"
| "tx_submission_message_tag (ReplyTxIds _) = ''ReplyTxIds''"
| "tx_submission_message_tag (RequestTxs _) = ''RequestTxs''"
| "tx_submission_message_tag (ReplyTxs _) = ''ReplyTxs''"
| "tx_submission_message_tag TxSubmission2Message.Done = ''Done''"

definition tx_submission2_transition ::
  "TxSubmission2State \<Rightarrow> TxSubmission2Agency \<Rightarrow> u16 \<Rightarrow> TxSubmission2Message
     \<Rightarrow> (TxSubmission2State \<times> TxSubmission2Output, TxSubmission2Error) result" where
  "tx_submission2_transition state agency version msg =
     (if MAX_TX_SUBMISSION_VERSION < version
      then Err (InvalidForVersion version (tx_submission_message_tag msg))
      else case (state, agency, msg) of
        (TxSubmission2State.Init, Client, TxSubmission2Message.Init) \<Rightarrow> Ok (Idle, Event ServerOpened)
      | (Idle, Server, RequestTxIds blocking ack req) \<Rightarrow>
          Ok (if blocking then TxIdsBlocking req else TxIdsNonBlocking req,
              Event (IdsRequested blocking ack req))
      | (TxIdsBlocking req, Client, ReplyTxIds entries) \<Rightarrow>
          (if entries = [] then Err (MalformedMessage ''blocking ReplyTxIds must be non-empty'')
           else if unat req < length entries
           then Err (MalformedMessage ''ReplyTxIds count exceeds requested req'')
           else Ok (Idle, Event (IdsDelivered entries)))
      | (TxIdsNonBlocking req, Client, ReplyTxIds entries) \<Rightarrow>
          (if unat req < length entries
           then Err (MalformedMessage ''ReplyTxIds count exceeds requested req'')
           else Ok (Idle, Event (IdsDelivered entries)))
      | (Idle, Server, RequestTxs ids) \<Rightarrow>
          (if ids = [] then Err (MalformedMessage ''RequestTxs must request at least one tx'')
           else Ok (TxSubmission2State.TxsRequested (length ids), Event (InventoryEvent.TxsRequested ids)))
      | (TxSubmission2State.TxsRequested req_count, Client, ReplyTxs tx_bytes) \<Rightarrow>
          (if req_count < length tx_bytes
           then Err (MalformedMessage ''ReplyTxs count exceeds requested req_count'')
           else Ok (Idle, Event (TxsDelivered tx_bytes)))
      | (Idle, Server, TxSubmission2Message.Done) \<Rightarrow> Ok (TxSubmission2State.Done, TxSubmission2Output.Done)
      | (state, agency, msg) \<Rightarrow> Err (IllegalTransition state (tx_submission_message_tag msg) agency))"

section \<open>Specification\<close>

text \<open>The holder of agency in each state, as \<^verbatim>\<open>agency.rs\<close> documents it.\<close>

fun tx_submission_holder :: "TxSubmission2State \<Rightarrow> TxSubmission2Agency" where
  "tx_submission_holder TxSubmission2State.Init = Client"
| "tx_submission_holder Idle = Server"
| "tx_submission_holder (TxIdsBlocking _) = Client"
| "tx_submission_holder (TxIdsNonBlocking _) = Client"
| "tx_submission_holder (TxSubmission2State.TxsRequested _) = Client"
| "tx_submission_holder TxSubmission2State.Done = Neither"

inductive tx_submission_exchange ::
  "(TxSubmission2Agency \<times> TxSubmission2Message) list \<Rightarrow> TxSubmission2Output list \<Rightarrow> bool" where
  ids: "length entries \<le> unat req \<Longrightarrow> (blocking \<longrightarrow> entries \<noteq> []) \<Longrightarrow>
    tx_submission_exchange [(Server, RequestTxIds blocking ack req), (Client, ReplyTxIds entries)]
      [Event (IdsRequested blocking ack req), Event (IdsDelivered entries)]"
| txs: "ids \<noteq> [] \<Longrightarrow> length txs \<le> length ids \<Longrightarrow>
    tx_submission_exchange [(Server, RequestTxs ids), (Client, ReplyTxs txs)]
      [Event (InventoryEvent.TxsRequested ids), Event (TxsDelivered txs)]"

section \<open>Lemmas\<close>

lemma tx_submission2_transition_Ok [protocol_simps]:
  "tx_submission2_transition s a v m = Ok (s', out) \<longleftrightarrow> v \<le> 100 \<and>
     (case s of
        TxSubmission2State.Init \<Rightarrow>
          a = Client \<and> m = TxSubmission2Message.Init \<and> s' = Idle \<and> out = Event ServerOpened
      | Idle \<Rightarrow> a = Server \<and>
          ((\<exists>blocking ack req. m = RequestTxIds blocking ack req \<and> out = Event (IdsRequested blocking ack req)
              \<and> s' = (if blocking then TxIdsBlocking req else TxIdsNonBlocking req))
           \<or> (\<exists>ids. m = RequestTxs ids \<and> ids \<noteq> [] \<and> s' = TxSubmission2State.TxsRequested (length ids)
              \<and> out = Event (InventoryEvent.TxsRequested ids))
           \<or> m = TxSubmission2Message.Done \<and> s' = TxSubmission2State.Done \<and> out = TxSubmission2Output.Done)
      | TxIdsBlocking req \<Rightarrow> a = Client \<and>
          (\<exists>entries. m = ReplyTxIds entries \<and> entries \<noteq> [] \<and> length entries \<le> unat req \<and> s' = Idle
             \<and> out = Event (IdsDelivered entries))
      | TxIdsNonBlocking req \<Rightarrow> a = Client \<and>
          (\<exists>entries. m = ReplyTxIds entries \<and> length entries \<le> unat req \<and> s' = Idle
             \<and> out = Event (IdsDelivered entries))
      | TxSubmission2State.TxsRequested req_count \<Rightarrow> a = Client \<and>
          (\<exists>txs. m = ReplyTxs txs \<and> length txs \<le> req_count \<and> s' = Idle \<and> out = Event (TxsDelivered txs))
      | TxSubmission2State.Done \<Rightarrow> False)"
  unfolding tx_submission2_transition_def MAX_TX_SUBMISSION_VERSION_def
  by (cases s; cases a; cases m) (auto simp: not_less split: if_splits)

lemma tx_submission_exchange_runs:
  assumes "v \<le> 100" and "tx_submission_exchange ams outs"
  shows "run_protocol tx_submission2_transition v Idle ams = Ok (Idle, outs)"
  using assms(2,1) by cases (auto simp: run_protocol_Cons protocol_simps)

lemma tx_submission_run_exchanges:
  assumes run: "run_protocol tx_submission2_transition v Idle ams = Ok (Idle, outs)" and ne: "ams \<noteq> []"
  shows "\<exists>ams1 outs1 ams2 outs2. tx_submission_exchange ams1 outs1 \<and> ams = ams1 @ ams2 \<and> outs = outs1 @ outs2
    \<and> ams1 \<noteq> [] \<and> run_protocol tx_submission2_transition v Idle ams2 = Ok (Idle, outs2)"
proof -
  have stuck: "run_protocol tx_submission2_transition v TxSubmission2State.Done bms \<noteq> Ok (Idle, os)" for bms os
    by (cases bms) (auto simp: run_protocol_Cons protocol_simps)
  obtain am bms where ams: "ams = am # bms" using ne by (cases ams) auto
  with run obtain s' out outs' where tr: "tx_submission2_transition Idle (fst am) v (snd am) = Ok (s', out)"
    and run': "run_protocol tx_submission2_transition v s' bms = Ok (Idle, outs')" and outs: "outs = out # outs'"
    by (auto simp: run_protocol_Cons)
  have mid: "s' \<noteq> Idle" "s' \<noteq> TxSubmission2State.Done" using tr run' stuck by (auto simp: protocol_simps split: if_splits)
  with run' obtain bm cms out2 outs2 where
    bms: "bms = bm # cms" "outs' = out2 # outs2" "tx_submission2_transition s' (fst bm) v (snd bm) = Ok (Idle, out2)"
      "run_protocol tx_submission2_transition v Idle cms = Ok (Idle, outs2)"
    using tr by (cases bms; cases s') (auto simp: run_protocol_Cons protocol_simps)
  have "tx_submission_exchange [am, bm] [out, out2]"
    using tr bms(3) by (cases am; cases bm)
      (auto simp: protocol_simps intro: tx_submission_exchange.intros split: if_splits)
  with ams outs bms show ?thesis
    by (intro exI [of _ "[am, bm]"] exI [of _ "[out, out2]"] exI [of _ cms] exI [of _ outs2]) simp
qed

interpretation tx_submission: exchange_protocol
  tx_submission2_transition tx_submission_holder Neither 100 Idle tx_submission_exchange
proof
  show "a = tx_submission_holder s" if "tx_submission2_transition s a v m = Ok r" for s a v m r
    using that by (cases r; cases s) (auto simp: protocol_simps)
  show "tx_submission2_transition s Neither v m \<noteq> Ok r" for s v m r
    by (cases r; cases s) (auto simp: protocol_simps)
  show "v \<le> 100" if "tx_submission2_transition s a v m = Ok r" for s a v m r
    using that by (cases r) (auto simp: protocol_simps)
qed (rule tx_submission_exchange_runs tx_submission_run_exchanges; assumption)+

section \<open>Properties\<close>

text \<open>
  The tx-submission machine accepts exactly the conversations of the protocol: after \<open>Init\<close>, a
  message sequence leads back to \<open>Idle\<close> with given outputs if and only if it is a sequence of
  exchanges, each a request for ids answered by at most as many ids as asked for (and at
  least one when the request blocks) or a request for at least one transaction answered by at
  most as many transactions.
\<close>

theorem tx_submission_language:
  assumes "version \<le> 100"
  shows "run_protocol tx_submission2_transition version TxSubmission2State.Init
           ((Client, TxSubmission2Message.Init) # ams) = Ok (Idle, Event ServerOpened # outs)
    \<longleftrightarrow> conversation tx_submission_exchange ams outs"
  using assms tx_submission.run_iff_conversation [OF assms, of ams outs]
  by (simp add: run_protocol_Cons protocol_simps)

theorem tx_submission_language_witness:
  "conversation tx_submission_exchange
     [(Server, RequestTxIds True 0 2), (Client, ReplyTxIds [\<lparr>tis_tx_id = \<lparr>txid_era = 6, txid_id = [1]\<rparr>, tis_size = 9\<rparr>])]
     [Event (IdsRequested True 0 2), Event (IdsDelivered [\<lparr>tis_tx_id = \<lparr>txid_era = 6, txid_id = [1]\<rparr>, tis_size = 9\<rparr>])]"
proof -
  have "run_protocol tx_submission2_transition 14 TxSubmission2State.Init
      [(Client, TxSubmission2Message.Init), (Server, RequestTxIds True 0 2),
       (Client, ReplyTxIds [\<lparr>tis_tx_id = \<lparr>txid_era = 6, txid_id = [1]\<rparr>, tis_size = 9\<rparr>])]
    = Ok (Idle, [Event ServerOpened, Event (IdsRequested True 0 2),
        Event (IdsDelivered [\<lparr>tis_tx_id = \<lparr>txid_era = 6, txid_id = [1]\<rparr>, tis_size = 9\<rparr>])])"
    by (simp add: run_protocol.simps tx_submission2_transition_def MAX_TX_SUBMISSION_VERSION_def)
  with tx_submission_language [of 14] show ?thesis by simp
qed

end
