(* ===== verification/Keep_Alive.thy ===== *)
theory Keep_Alive
  imports Mini_Protocol
begin

text \<open>
  The keep-alive state machine: \<^verbatim>\<open>keep_alive/agency.rs\<close>, \<^verbatim>\<open>event.rs\<close>, \<^verbatim>\<open>state.rs\<close> and
  \<^verbatim>\<open>transition.rs\<close> of \<^verbatim>\<open>ade_network\<close>, with the message type of \<^verbatim>\<open>codec/keep_alive.rs\<close>.
\<close>

section \<open>Data\<close>

type_synonym KeepAliveCookie = u16

datatype KeepAliveMessage = KeepAlive KeepAliveCookie | ResponseKeepAlive KeepAliveCookie | Done

datatype KeepAliveAgency = Client | Server | Neither

datatype KeepAliveEvent = PingSent KeepAliveCookie | PongReceived KeepAliveCookie

datatype KeepAliveState = ClientIdle | ServerHasAgency KeepAliveCookie | Done

datatype KeepAliveOutput = Event KeepAliveEvent | Done

datatype KeepAliveError =
    IllegalTransition KeepAliveState string KeepAliveAgency
  | InvalidForVersion u16 string
  | MalformedMessage string

section \<open>Transition\<close>

definition MAX_KEEP_ALIVE_VERSION :: u16 where "MAX_KEEP_ALIVE_VERSION = 100"

fun keep_alive_message_tag :: "KeepAliveMessage \<Rightarrow> string" where
  "keep_alive_message_tag (KeepAlive _) = ''KeepAlive''"
| "keep_alive_message_tag (ResponseKeepAlive _) = ''ResponseKeepAlive''"
| "keep_alive_message_tag KeepAliveMessage.Done = ''Done''"

definition keep_alive_transition ::
  "KeepAliveState \<Rightarrow> KeepAliveAgency \<Rightarrow> u16 \<Rightarrow> KeepAliveMessage
     \<Rightarrow> (KeepAliveState \<times> KeepAliveOutput, KeepAliveError) result" where
  "keep_alive_transition state agency version msg =
     (if MAX_KEEP_ALIVE_VERSION < version then Err (InvalidForVersion version (keep_alive_message_tag msg))
      else case (state, agency, msg) of
        (ClientIdle, Client, KeepAlive cookie) \<Rightarrow> Ok (ServerHasAgency cookie, Event (PingSent cookie))
      | (ServerHasAgency cookie, Server, ResponseKeepAlive resp_cookie) \<Rightarrow>
          (if cookie \<noteq> resp_cookie
           then Err (MalformedMessage ''ResponseKeepAlive cookie does not match request'')
           else Ok (ClientIdle, Event (PongReceived cookie)))
      | (ClientIdle, Client, KeepAliveMessage.Done) \<Rightarrow> Ok (KeepAliveState.Done, KeepAliveOutput.Done)
      | (state, agency, msg) \<Rightarrow> Err (IllegalTransition state (keep_alive_message_tag msg) agency))"

section \<open>Specification\<close>

text \<open>The holder of agency in each state, as \<^verbatim>\<open>agency.rs\<close> documents it.\<close>

fun keep_alive_holder :: "KeepAliveState \<Rightarrow> KeepAliveAgency" where
  "keep_alive_holder ClientIdle = Client"
| "keep_alive_holder (ServerHasAgency _) = Server"
| "keep_alive_holder KeepAliveState.Done = Neither"

inductive keep_alive_exchange :: "(KeepAliveAgency \<times> KeepAliveMessage) list \<Rightarrow> KeepAliveOutput list \<Rightarrow> bool" where
  "keep_alive_exchange [(Client, KeepAlive cookie), (Server, ResponseKeepAlive cookie)]
     [Event (PingSent cookie), Event (PongReceived cookie)]"

section \<open>Lemmas\<close>

lemma keep_alive_transition_Ok [protocol_simps]:
  "keep_alive_transition s a v m = Ok (s', out) \<longleftrightarrow> v \<le> 100 \<and>
     (case s of
        ClientIdle \<Rightarrow> a = Client \<and>
          ((\<exists>cookie. m = KeepAlive cookie \<and> s' = ServerHasAgency cookie \<and> out = Event (PingSent cookie))
           \<or> m = KeepAliveMessage.Done \<and> s' = KeepAliveState.Done \<and> out = KeepAliveOutput.Done)
      | ServerHasAgency cookie \<Rightarrow>
          a = Server \<and> m = ResponseKeepAlive cookie \<and> s' = ClientIdle \<and> out = Event (PongReceived cookie)
      | KeepAliveState.Done \<Rightarrow> False)"
  unfolding keep_alive_transition_def MAX_KEEP_ALIVE_VERSION_def
  by (cases s; cases a; cases m) (auto simp: not_less split: if_splits)

lemma keep_alive_run_exchanges:
  assumes run: "run_protocol keep_alive_transition v ClientIdle ams = Ok (ClientIdle, outs)" and ne: "ams \<noteq> []"
  shows "\<exists>ams1 outs1 ams2 outs2. keep_alive_exchange ams1 outs1 \<and> ams = ams1 @ ams2 \<and> outs = outs1 @ outs2
    \<and> ams1 \<noteq> [] \<and> run_protocol keep_alive_transition v ClientIdle ams2 = Ok (ClientIdle, outs2)"
proof -
  have stuck: "run_protocol keep_alive_transition v KeepAliveState.Done bms \<noteq> Ok (ClientIdle, os)" for bms os
    by (cases bms) (auto simp: run_protocol_Cons protocol_simps)
  obtain cookie bms outs' where ams: "ams = (Client, KeepAlive cookie) # bms" "outs = Event (PingSent cookie) # outs'"
    and run': "run_protocol keep_alive_transition v (ServerHasAgency cookie) bms = Ok (ClientIdle, outs')"
    using run ne by (cases ams) (auto simp: run_protocol_Cons protocol_simps stuck)
  from run' obtain cms outs2 where "bms = (Server, ResponseKeepAlive cookie) # cms"
    "outs' = Event (PongReceived cookie) # outs2"
    "run_protocol keep_alive_transition v ClientIdle cms = Ok (ClientIdle, outs2)"
    by (cases bms) (auto simp: run_protocol_Cons protocol_simps)
  with ams show ?thesis
    by (intro exI [of _ "take 2 ams"] exI [of _ "take 2 outs"] exI [of _ cms] exI [of _ outs2])
      (auto intro: keep_alive_exchange.intros)
qed

interpretation keep_alive: exchange_protocol
  keep_alive_transition keep_alive_holder Neither 100 ClientIdle keep_alive_exchange
proof
  show "a = keep_alive_holder s" if "keep_alive_transition s a v m = Ok r" for s a v m r
    using that by (cases r; cases s) (auto simp: protocol_simps)
  show "keep_alive_transition s Neither v m \<noteq> Ok r" for s v m r
    by (cases r; cases s) (auto simp: protocol_simps)
  show "v \<le> 100" if "keep_alive_transition s a v m = Ok r" for s a v m r
    using that by (cases r) (auto simp: protocol_simps)
  show "run_protocol keep_alive_transition v ClientIdle ams = Ok (ClientIdle, outs)"
    if "v \<le> 100" "keep_alive_exchange ams outs" for v ams outs
    using that(2,1) by cases (auto simp: run_protocol_Cons protocol_simps)
qed (rule keep_alive_run_exchanges)

end
