(* ===== verification/Peer_Sharing.thy ===== *)
theory Peer_Sharing
  imports Mini_Protocol
begin

text \<open>
  The peer-sharing state machine: \<^verbatim>\<open>peer_sharing/agency.rs\<close>, \<^verbatim>\<open>event.rs\<close>, \<^verbatim>\<open>state.rs\<close>
  and \<^verbatim>\<open>transition.rs\<close> of \<^verbatim>\<open>ade_network\<close>, with the message types of
  \<^verbatim>\<open>codec/peer_sharing.rs\<close>.
\<close>

section \<open>Data\<close>

datatype PeerAddress = V4 u32 u16 | V6 bytes u16 u32 u32

datatype PeerSharingMessage = ShareRequest u8 | SharePeers "PeerAddress list" | Done

datatype PeerSharingAgency = Client | Server | Neither

datatype PeerSharingEvent = SharingRequested u8 | PeersShared "PeerAddress list"

datatype PeerSharingState = Idle | Busy u8 | Done

datatype PeerSharingOutput = Event PeerSharingEvent | Done

datatype PeerSharingError =
    IllegalTransition PeerSharingState string PeerSharingAgency
  | InvalidForVersion u16 string
  | MalformedMessage string

section \<open>Transition\<close>

definition MAX_PEER_SHARING_VERSION :: u16 where "MAX_PEER_SHARING_VERSION = 100"

fun peer_sharing_message_tag :: "PeerSharingMessage \<Rightarrow> string" where
  "peer_sharing_message_tag (ShareRequest _) = ''ShareRequest''"
| "peer_sharing_message_tag (SharePeers _) = ''SharePeers''"
| "peer_sharing_message_tag PeerSharingMessage.Done = ''Done''"

definition peer_sharing_transition ::
  "PeerSharingState \<Rightarrow> PeerSharingAgency \<Rightarrow> u16 \<Rightarrow> PeerSharingMessage
     \<Rightarrow> (PeerSharingState \<times> PeerSharingOutput, PeerSharingError) result" where
  "peer_sharing_transition state agency version msg =
     (if MAX_PEER_SHARING_VERSION < version then Err (InvalidForVersion version (peer_sharing_message_tag msg))
      else case (state, agency, msg) of
        (Idle, Client, ShareRequest amount) \<Rightarrow> Ok (Busy amount, Event (SharingRequested amount))
      | (Busy amount, Server, SharePeers peers) \<Rightarrow>
          (if unat amount < length peers
           then Err (MalformedMessage ''SharePeers count exceeds requested amount'')
           else Ok (Idle, Event (PeersShared peers)))
      | (Idle, Client, PeerSharingMessage.Done) \<Rightarrow> Ok (PeerSharingState.Done, PeerSharingOutput.Done)
      | (state, agency, msg) \<Rightarrow> Err (IllegalTransition state (peer_sharing_message_tag msg) agency))"

section \<open>Specification\<close>

text \<open>The holder of agency in each state, as \<^verbatim>\<open>agency.rs\<close> documents it.\<close>

fun peer_sharing_holder :: "PeerSharingState \<Rightarrow> PeerSharingAgency" where
  "peer_sharing_holder Idle = Client"
| "peer_sharing_holder (Busy _) = Server"
| "peer_sharing_holder PeerSharingState.Done = Neither"

inductive peer_sharing_exchange :: "(PeerSharingAgency \<times> PeerSharingMessage) list \<Rightarrow> PeerSharingOutput list \<Rightarrow> bool" where
  "length peers \<le> unat amount \<Longrightarrow>
   peer_sharing_exchange [(Client, ShareRequest amount), (Server, SharePeers peers)]
     [Event (SharingRequested amount), Event (PeersShared peers)]"

section \<open>Lemmas\<close>

lemma peer_sharing_transition_Ok [protocol_simps]:
  "peer_sharing_transition s a v m = Ok (s', out) \<longleftrightarrow> v \<le> 100 \<and>
     (case s of
        Idle \<Rightarrow> a = Client \<and>
          ((\<exists>amount. m = ShareRequest amount \<and> s' = Busy amount \<and> out = Event (SharingRequested amount))
           \<or> m = PeerSharingMessage.Done \<and> s' = PeerSharingState.Done \<and> out = PeerSharingOutput.Done)
      | Busy amount \<Rightarrow> a = Server \<and>
          (\<exists>peers. m = SharePeers peers \<and> length peers \<le> unat amount \<and> s' = Idle \<and> out = Event (PeersShared peers))
      | PeerSharingState.Done \<Rightarrow> False)"
  unfolding peer_sharing_transition_def MAX_PEER_SHARING_VERSION_def
  by (cases s; cases a; cases m) (auto simp: not_less split: if_splits)

lemma peer_sharing_run_exchanges:
  assumes run: "run_protocol peer_sharing_transition v Idle ams = Ok (Idle, outs)" and ne: "ams \<noteq> []"
  shows "\<exists>ams1 outs1 ams2 outs2. peer_sharing_exchange ams1 outs1 \<and> ams = ams1 @ ams2 \<and> outs = outs1 @ outs2
    \<and> ams1 \<noteq> [] \<and> run_protocol peer_sharing_transition v Idle ams2 = Ok (Idle, outs2)"
proof -
  have stuck: "run_protocol peer_sharing_transition v PeerSharingState.Done bms \<noteq> Ok (Idle, os)" for bms os
    by (cases bms) (auto simp: run_protocol_Cons protocol_simps)
  obtain amount bms outs' where ams: "ams = (Client, ShareRequest amount) # bms"
      "outs = Event (SharingRequested amount) # outs'"
    and run': "run_protocol peer_sharing_transition v (Busy amount) bms = Ok (Idle, outs')"
    using run ne by (cases ams) (auto simp: run_protocol_Cons protocol_simps stuck)
  from run' obtain peers cms outs2 where "bms = (Server, SharePeers peers) # cms" "length peers \<le> unat amount"
    "outs' = Event (PeersShared peers) # outs2"
    "run_protocol peer_sharing_transition v Idle cms = Ok (Idle, outs2)"
    by (cases bms) (auto simp: run_protocol_Cons protocol_simps)
  with ams show ?thesis
    by (intro exI [of _ "take 2 ams"] exI [of _ "take 2 outs"] exI [of _ cms] exI [of _ outs2])
      (auto intro: peer_sharing_exchange.intros)
qed

interpretation peer_sharing: exchange_protocol
  peer_sharing_transition peer_sharing_holder Neither 100 Idle peer_sharing_exchange
proof
  show "a = peer_sharing_holder s" if "peer_sharing_transition s a v m = Ok r" for s a v m r
    using that by (cases r; cases s) (auto simp: protocol_simps)
  show "peer_sharing_transition s Neither v m \<noteq> Ok r" for s v m r
    by (cases r; cases s) (auto simp: protocol_simps)
  show "v \<le> 100" if "peer_sharing_transition s a v m = Ok r" for s a v m r
    using that by (cases r) (auto simp: protocol_simps)
  show "run_protocol peer_sharing_transition v Idle ams = Ok (Idle, outs)"
    if "v \<le> 100" "peer_sharing_exchange ams outs" for v ams outs
    using that(2,1) by cases (auto simp: run_protocol_Cons protocol_simps)
qed (rule peer_sharing_run_exchanges)

end
