(* ===== verification/Protocol_Codec.thy ===== *)
theory Protocol_Codec
  imports Chain_Sync Block_Fetch Tx_Submission Keep_Alive Peer_Sharing Handshake_Codec
begin

text \<open>
  The wire codecs of the five node-to-node mini-protocols: \<^verbatim>\<open>codec/chain_sync.rs\<close>,
  \<^verbatim>\<open>codec/block_fetch.rs\<close>, \<^verbatim>\<open>codec/tx_submission.rs\<close>, \<^verbatim>\<open>codec/keep_alive.rs\<close> and
  \<^verbatim>\<open>codec/peer_sharing.rs\<close> of \<^verbatim>\<open>ade_network\<close>. Every message is a definite array that starts
  with a tag. All decoders open and close in the same way, which is written once in
  \<open>decode_tagged\<close>; what differs is the match on tag and array length. Shown: decoding what was encoded
  gives the message, and the encoding is one CBOR item, which is what the session layer carries.
\<close>

section \<open>Shared parts\<close>

text \<open>The frame of every decoder: the emptiness check, the outer array, the tag, the fields, no trailing bytes.\<close>

definition decode_tagged :: "ProtocolKind \<Rightarrow> (u64 \<times> u64 \<Rightarrow> 'a net_reader) \<Rightarrow> bytes \<Rightarrow> ('a, NetCodecError) result" where
  "decode_tagged protocol body bytes =
     (if bytes = [] then Err (Truncated 1 0)
      else rbind (decode_array_header protocol bytes 0) (\<lambda>(arr_len, offset).
        if arr_len < 1 then Err (InvalidProtocolMessage protocol ''empty outer array'')
        else rbind (decode_u64 protocol bytes offset) (\<lambda>(tag, offset).
          rbind (body (tag, arr_len) bytes offset) (\<lambda>(msg, offset).
          rbind (require_consumed protocol bytes offset) (\<lambda>_. Ok msg)))))"

text \<open>
  The loop over an indefinite array up to its break byte. The number bounds the rounds: every
  element takes at least one byte, so the bytes left are enough and the last alternative is not reached.
\<close>

primrec read_until_break ::
  "nat \<Rightarrow> (bytes \<Rightarrow> usize \<Rightarrow> 'e) \<Rightarrow> (bytes \<Rightarrow> usize \<Rightarrow> ('a \<times> usize, 'e) result) \<Rightarrow> bytes \<Rightarrow> usize
     \<Rightarrow> ('a list \<times> usize, 'e) result" where
  "read_until_break 0 eof d data offset =
     (case try_consume_break data offset of
        (True, offset) \<Rightarrow> Ok ([], offset)
      | (False, offset) \<Rightarrow> Err (eof data offset))"
| "read_until_break (Suc k) eof d data offset =
     (case try_consume_break data offset of
        (True, offset) \<Rightarrow> Ok ([], offset)
      | (False, offset) \<Rightarrow>
          (if length data \<le> offset then Err (eof data offset)
           else rbind (d data offset) (\<lambda>(v, offset).
                rbind (read_until_break k eof d data offset) (\<lambda>(vs, offset). Ok (v # vs, offset)))))"

section \<open>Chain-sync\<close>

definition encode_chain_point :: "bytes \<Rightarrow> ChainPoint \<Rightarrow> bytes" where
  "encode_chain_point buf p =
     (case p of
        ChainPoint.Origin \<Rightarrow> encode_array_header buf 0
      | ChainPoint.Block slot hash \<Rightarrow> encode_bytes (encode_u64 (encode_array_header buf 2) slot) hash)"

definition encode_tip :: "bytes \<Rightarrow> Tip \<Rightarrow> bytes" where
  "encode_tip buf t = encode_u64 (encode_chain_point (encode_array_header buf 2) (tip_point t)) (tip_block_no t)"

definition encode_chain_sync_message :: "ChainSyncMessage \<Rightarrow> bytes" where
  "encode_chain_sync_message msg =
     (case msg of
        RequestNext \<Rightarrow> encode_u64 (encode_array_header [] 1) 0
      | AwaitReply \<Rightarrow> encode_u64 (encode_array_header [] 1) 1
      | ChainSyncMessage.RollForward header tip \<Rightarrow>
          encode_tip (encode_u64 (encode_array_header [] 3) 2 @ header) tip
      | ChainSyncMessage.RollBackward point tip \<Rightarrow>
          encode_tip (encode_chain_point (encode_u64 (encode_array_header [] 3) 3) point) tip
      | FindIntersect points \<Rightarrow>
          foldl encode_chain_point
            (encode_array_header (encode_u64 (encode_array_header [] 2) 4) (word_of_nat (length points))) points
      | IntersectFound point tip \<Rightarrow>
          encode_tip (encode_chain_point (encode_u64 (encode_array_header [] 3) 5) point) tip
      | IntersectNotFound tip \<Rightarrow> encode_tip (encode_u64 (encode_array_header [] 2) 6) tip
      | ChainSyncMessage.Done \<Rightarrow> encode_u64 (encode_array_header [] 1) 7)"

definition decode_chain_point :: "ChainPoint net_reader" where
  "decode_chain_point data offset =
     rbind (decode_array_header ProtocolKind.ChainSync data offset) (\<lambda>(arr_len, offset).
     if arr_len = 0 then Ok (ChainPoint.Origin, offset)
     else if arr_len = 2 then
       rbind (decode_u64 ProtocolKind.ChainSync data offset) (\<lambda>(slot, offset).
       rbind (decode_bytes ProtocolKind.ChainSync data offset) (\<lambda>(hash_bytes, offset).
       if length hash_bytes \<noteq> 32
       then Err (InvalidProtocolMessage ProtocolKind.ChainSync ''point hash not 32 bytes'')
       else Ok (ChainPoint.Block slot hash_bytes, offset)))
     else Err (InvalidProtocolMessage ProtocolKind.ChainSync ''point array must be 0 or 2 elements''))"

definition decode_tip :: "Tip net_reader" where
  "decode_tip data offset =
     rbind (decode_array_header ProtocolKind.ChainSync data offset) (\<lambda>(n, offset).
     if n \<noteq> 2 then Err (InvalidProtocolMessage ProtocolKind.ChainSync ''tip array must be 2 elements'')
     else rbind (decode_chain_point data offset) (\<lambda>(point, offset).
          rbind (decode_u64 ProtocolKind.ChainSync data offset) (\<lambda>(block_no, offset).
          Ok (\<lparr>tip_point = point, tip_block_no = block_no\<rparr>, offset))))"

definition decode_find_intersect_points :: "ChainPoint list net_reader" where
  "decode_find_intersect_points data offset =
     rbind (decode_array_head_two_form ProtocolKind.ChainSync data offset) (\<lambda>(head, offset).
     case head of
       ArrayHead.Definite n \<Rightarrow> read_count (unat n) decode_chain_point data offset
     | ArrayHead.Indefinite \<Rightarrow>
         read_until_break (length data - offset)
           (\<lambda>_ _. InvalidProtocolMessage ProtocolKind.ChainSync ''indefinite FindIntersect points list missing break'')
           decode_chain_point data offset)"

definition decode_chain_sync_message :: "bytes \<Rightarrow> (ChainSyncMessage, NetCodecError) result" where
  "decode_chain_sync_message = decode_tagged ProtocolKind.ChainSync (\<lambda>(tag, arr_len) bytes offset.
     if (tag, arr_len) = (0, 1) then Ok (RequestNext, offset)
     else if (tag, arr_len) = (1, 1) then Ok (AwaitReply, offset)
     else if (tag, arr_len) = (2, 3) then
       rbind (decode_item ProtocolKind.ChainSync bytes offset) (\<lambda>(header, offset).
       rbind (decode_tip bytes offset) (\<lambda>(tip, offset). Ok (ChainSyncMessage.RollForward header tip, offset)))
     else if (tag, arr_len) = (3, 3) then
       rbind (decode_chain_point bytes offset) (\<lambda>(point, offset).
       rbind (decode_tip bytes offset) (\<lambda>(tip, offset). Ok (ChainSyncMessage.RollBackward point tip, offset)))
     else if (tag, arr_len) = (4, 2) then
       rbind (decode_find_intersect_points bytes offset) (\<lambda>(points, offset). Ok (FindIntersect points, offset))
     else if (tag, arr_len) = (5, 3) then
       rbind (decode_chain_point bytes offset) (\<lambda>(point, offset).
       rbind (decode_tip bytes offset) (\<lambda>(tip, offset). Ok (IntersectFound point tip, offset)))
     else if (tag, arr_len) = (6, 2) then
       rbind (decode_tip bytes offset) (\<lambda>(tip, offset). Ok (IntersectNotFound tip, offset))
     else if (tag, arr_len) = (7, 1) then Ok (ChainSyncMessage.Done, offset)
     else Err (UnknownTag ProtocolKind.ChainSync tag))"

definition chain_sync_wire_era_index :: "CardanoEra \<Rightarrow> u8" where
  "chain_sync_wire_era_index era = saturating_sub (era_as_u8 era) 1"

definition compose_rollforward_header :: "CardanoEra \<Rightarrow> bytes \<Rightarrow> bytes" where
  "compose_rollforward_header era header_cbor =
     encode_u64 (encode_array_header [] 2) (ucast (chain_sync_wire_era_index era)) @ wrap_tag24 header_cbor"

definition decompose_rollforward_header :: "bytes \<Rightarrow> (u8 \<times> bytes, NetCodecError) result" where
  "decompose_rollforward_header payload =
     rbind (decode_array_header ProtocolKind.ChainSync payload 0) (\<lambda>(arr, off).
     if arr \<noteq> 2 then Err (InvalidProtocolMessage ProtocolKind.ChainSync
       ''rollforward header must be a 2-element [era_idx, tag24] array'')
     else rbind (decode_u64 ProtocolKind.ChainSync payload off) (\<lambda>(era_idx, off).
          rbind (map_err (\<lambda>_. InvalidProtocolMessage ProtocolKind.ChainSync
              ''rollforward header inner is not tag24(bytes(..))'') (unwrap_tag24 (drop off payload))) (\<lambda>inner.
          Ok (ucast era_idx, inner))))"

section \<open>Block-fetch\<close>

definition encode_fetch_point :: "bytes \<Rightarrow> FetchPoint \<Rightarrow> bytes" where
  "encode_fetch_point buf p =
     (case p of
        FetchPoint.Origin \<Rightarrow> encode_array_header buf 0
      | FetchPoint.Block slot hash \<Rightarrow> encode_bytes (encode_u64 (encode_array_header buf 2) slot) hash)"

definition encode_block_fetch_message :: "BlockFetchMessage \<Rightarrow> bytes" where
  "encode_block_fetch_message msg =
     (case msg of
        RequestRange r \<Rightarrow>
          encode_fetch_point (encode_fetch_point (encode_u64 (encode_array_header [] 3) 0) (range_from r)) (range_to r)
      | ClientDone \<Rightarrow> encode_u64 (encode_array_header [] 1) 1
      | StartBatch \<Rightarrow> encode_u64 (encode_array_header [] 1) 2
      | BlockFetchMessage.NoBlocks \<Rightarrow> encode_u64 (encode_array_header [] 1) 3
      | BlockFetchMessage.Block bytes \<Rightarrow> encode_u64 (encode_array_header [] 2) 4 @ bytes
      | BatchDone \<Rightarrow> encode_u64 (encode_array_header [] 1) 5)"

definition decode_fetch_point :: "FetchPoint net_reader" where
  "decode_fetch_point data offset =
     rbind (decode_array_header ProtocolKind.BlockFetch data offset) (\<lambda>(arr_len, offset).
     if arr_len = 0 then Ok (FetchPoint.Origin, offset)
     else if arr_len = 2 then
       rbind (decode_u64 ProtocolKind.BlockFetch data offset) (\<lambda>(slot, offset).
       rbind (decode_bytes ProtocolKind.BlockFetch data offset) (\<lambda>(hash_bytes, offset).
       if length hash_bytes \<noteq> 32
       then Err (InvalidProtocolMessage ProtocolKind.BlockFetch ''point hash not 32 bytes'')
       else Ok (FetchPoint.Block slot hash_bytes, offset)))
     else Err (InvalidProtocolMessage ProtocolKind.BlockFetch ''point array must be 0 or 2 elements''))"

definition decode_block_fetch_message :: "bytes \<Rightarrow> (BlockFetchMessage, NetCodecError) result" where
  "decode_block_fetch_message = decode_tagged ProtocolKind.BlockFetch (\<lambda>(tag, arr_len) bytes offset.
     if (tag, arr_len) = (0, 3) then
       rbind (decode_fetch_point bytes offset) (\<lambda>(from, offset).
       rbind (decode_fetch_point bytes offset) (\<lambda>(to, offset).
       Ok (RequestRange \<lparr>range_from = from, range_to = to\<rparr>, offset)))
     else if (tag, arr_len) = (1, 1) then Ok (ClientDone, offset)
     else if (tag, arr_len) = (2, 1) then Ok (StartBatch, offset)
     else if (tag, arr_len) = (3, 1) then Ok (BlockFetchMessage.NoBlocks, offset)
     else if (tag, arr_len) = (4, 2) then
       rbind (decode_item ProtocolKind.BlockFetch bytes offset) (\<lambda>(body, offset).
       Ok (BlockFetchMessage.Block body, offset))
     else if (tag, arr_len) = (5, 1) then Ok (BatchDone, offset)
     else Err (UnknownTag ProtocolKind.BlockFetch tag))"

definition compose_blockfetch_block :: "bytes \<Rightarrow> bytes" where
  "compose_blockfetch_block storage_block = wrap_tag24 storage_block"

definition decompose_blockfetch_block :: "bytes \<Rightarrow> (bytes, TagEnvelopeError) result" where
  "decompose_blockfetch_block payload = unwrap_tag24 payload"

section \<open>Transaction submission\<close>

definition encode_tx_submission_txid :: "bytes \<Rightarrow> TxSubmissionTxId \<Rightarrow> bytes" where
  "encode_tx_submission_txid buf i = encode_bytes (encode_u64 (encode_array_header buf 2) (txid_era i)) (txid_id i)"

definition decode_tx_submission_txid :: "TxSubmissionTxId net_reader" where
  "decode_tx_submission_txid data offset =
     rbind (decode_array_header TxSubmission2 data offset) (\<lambda>(arr, offset).
     if arr \<noteq> 2 then Err (InvalidProtocolMessage TxSubmission2 ''tx-submission2 txid must be [eraIndex, hash]'')
     else rbind (decode_u64 TxSubmission2 data offset) (\<lambda>(era, offset).
          rbind (decode_bytes TxSubmission2 data offset) (\<lambda>(bytes, offset).
          if length bytes \<noteq> 32
          then Err (InvalidProtocolMessage TxSubmission2 ''tx-submission2 txid hash not 32 bytes'')
          else Ok (\<lparr>txid_era = era, txid_id = bytes\<rparr>, offset))))"

definition write_seq_header :: "bytes \<Rightarrow> bytes" where
  "write_seq_header buf = write_array_header buf ContainerEncoding.Indefinite"

definition write_seq_footer :: "bytes \<Rightarrow> bytes" where
  "write_seq_footer buf = write_break buf"

definition decode_seq :: "'a net_reader \<Rightarrow> 'a list net_reader" where
  "decode_seq element data offset =
     rbind (map_err (MalformedCbor TxSubmission2) (read_array_header data offset)) (\<lambda>(enc, offset).
     case enc of
       ContainerEncoding.Definite n _ \<Rightarrow> read_count (unat n) element data offset
     | ContainerEncoding.Indefinite \<Rightarrow>
         read_until_break (length data - offset) (\<lambda>data offset. Truncated (offset + 1) (length data)) element data offset)"

definition encode_tx_id_and_size :: "bytes \<Rightarrow> TxIdAndSize \<Rightarrow> bytes" where
  "encode_tx_id_and_size buf e =
     encode_u64 (encode_tx_submission_txid (encode_array_header buf 2) (tis_tx_id e)) (ucast (tis_size e))"

definition encode_tx_submission_message :: "TxSubmission2Message \<Rightarrow> bytes" where
  "encode_tx_submission_message msg =
     (case msg of
        TxSubmission2Message.Init \<Rightarrow> encode_u64 (encode_array_header [] 1) 6
      | RequestTxIds blocking ack req \<Rightarrow>
          encode_u64 (encode_u64 (encode_bool (encode_u64 (encode_array_header [] 4) 0) blocking) (ucast ack)) (ucast req)
      | ReplyTxIds entries \<Rightarrow>
          write_seq_footer (foldl encode_tx_id_and_size (write_seq_header (encode_u64 (encode_array_header [] 2) 1)) entries)
      | RequestTxs ids \<Rightarrow>
          write_seq_footer (foldl encode_tx_submission_txid (write_seq_header (encode_u64 (encode_array_header [] 2) 2)) ids)
      | ReplyTxs txs \<Rightarrow>
          write_seq_footer (foldl (@) (write_seq_header (encode_u64 (encode_array_header [] 2) 3)) txs)
      | TxSubmission2Message.Done \<Rightarrow> encode_u64 (encode_array_header [] 1) 4)"

definition decode_tx_id_and_size :: "TxIdAndSize net_reader" where
  "decode_tx_id_and_size d off =
     rbind (decode_array_header TxSubmission2 d off) (\<lambda>(pair_len, off).
     if pair_len \<noteq> 2 then Err (InvalidProtocolMessage TxSubmission2 ''txid/size pair must be 2 elements'')
     else rbind (decode_tx_submission_txid d off) (\<lambda>(tx_id, off).
          rbind (decode_u32 TxSubmission2 ''tx size'' d off) (\<lambda>(size, off).
          Ok (\<lparr>tis_tx_id = tx_id, tis_size = size\<rparr>, off))))"

definition decode_tx_submission_message :: "bytes \<Rightarrow> (TxSubmission2Message, NetCodecError) result" where
  "decode_tx_submission_message = decode_tagged TxSubmission2 (\<lambda>(tag, arr_len) bytes offset.
     if (tag, arr_len) = (6, 1) then Ok (TxSubmission2Message.Init, offset)
     else if (tag, arr_len) = (0, 4) then
       rbind (decode_bool TxSubmission2 bytes offset) (\<lambda>(blocking, offset).
       rbind (decode_u16 TxSubmission2 ''ack'' bytes offset) (\<lambda>(ack, offset).
       rbind (decode_u16 TxSubmission2 ''req'' bytes offset) (\<lambda>(req, offset).
       Ok (RequestTxIds blocking ack req, offset))))
     else if (tag, arr_len) = (1, 2) then
       rbind (decode_seq decode_tx_id_and_size bytes offset) (\<lambda>(entries, offset). Ok (ReplyTxIds entries, offset))
     else if (tag, arr_len) = (2, 2) then
       rbind (decode_seq decode_tx_submission_txid bytes offset) (\<lambda>(ids, offset). Ok (RequestTxs ids, offset))
     else if (tag, arr_len) = (3, 2) then
       rbind (decode_seq (decode_item TxSubmission2) bytes offset) (\<lambda>(txs, offset). Ok (ReplyTxs txs, offset))
     else if (tag, arr_len) = (4, 1) then Ok (TxSubmission2Message.Done, offset)
     else Err (UnknownTag TxSubmission2 tag))"

section \<open>Keep-alive\<close>

definition encode_keep_alive_message :: "KeepAliveMessage \<Rightarrow> bytes" where
  "encode_keep_alive_message msg =
     (case msg of
        KeepAliveMessage.KeepAlive c \<Rightarrow> encode_u64 (encode_u64 (encode_array_header [] 2) 0) (ucast c)
      | ResponseKeepAlive c \<Rightarrow> encode_u64 (encode_u64 (encode_array_header [] 2) 1) (ucast c)
      | KeepAliveMessage.Done \<Rightarrow> encode_u64 (encode_array_header [] 1) 2)"

definition decode_keep_alive_message :: "bytes \<Rightarrow> (KeepAliveMessage, NetCodecError) result" where
  "decode_keep_alive_message = decode_tagged ProtocolKind.KeepAlive (\<lambda>(tag, arr_len) bytes offset.
     if (tag, arr_len) = (0, 2) then
       rbind (decode_u16 ProtocolKind.KeepAlive ''cookie'' bytes offset) (\<lambda>(c, offset).
       Ok (KeepAliveMessage.KeepAlive c, offset))
     else if (tag, arr_len) = (1, 2) then
       rbind (decode_u16 ProtocolKind.KeepAlive ''cookie'' bytes offset) (\<lambda>(c, offset). Ok (ResponseKeepAlive c, offset))
     else if (tag, arr_len) = (2, 1) then Ok (KeepAliveMessage.Done, offset)
     else Err (UnknownTag ProtocolKind.KeepAlive tag))"

section \<open>Peer sharing\<close>

definition encode_peer_address :: "bytes \<Rightarrow> PeerAddress \<Rightarrow> bytes" where
  "encode_peer_address buf p =
     (case p of
        V4 addr port \<Rightarrow> encode_u64 (encode_u64 (encode_u64 (encode_array_header buf 3) 0) (ucast addr)) (ucast port)
      | V6 addr port flowinfo scope \<Rightarrow>
          encode_u64 (encode_u64 (encode_u64 (encode_bytes (encode_u64 (encode_array_header buf 5) 1) addr)
            (ucast port)) (ucast flowinfo)) (ucast scope))"

definition decode_peer_address :: "PeerAddress net_reader" where
  "decode_peer_address data offset =
     rbind (decode_array_header ProtocolKind.PeerSharing data offset) (\<lambda>(arr_len, offset).
     if arr_len < 1 then Err (InvalidProtocolMessage ProtocolKind.PeerSharing ''empty peer address array'')
     else rbind (decode_u64 ProtocolKind.PeerSharing data offset) (\<lambda>(tag, offset).
       if (tag, arr_len) = (0, 3) then
         rbind (decode_u32 ProtocolKind.PeerSharing ''ipv4 address'' data offset) (\<lambda>(addr, offset).
         rbind (decode_u16 ProtocolKind.PeerSharing ''port'' data offset) (\<lambda>(port, offset).
         Ok (V4 addr port, offset)))
       else if (tag, arr_len) = (1, 5) then
         rbind (decode_bytes ProtocolKind.PeerSharing data offset) (\<lambda>(raw, offset).
         if length raw \<noteq> 16 then Err (InvalidProtocolMessage ProtocolKind.PeerSharing ''ipv6 address not 16 bytes'')
         else rbind (decode_u16 ProtocolKind.PeerSharing ''port'' data offset) (\<lambda>(port, offset).
              rbind (decode_u32 ProtocolKind.PeerSharing ''flowinfo'' data offset) (\<lambda>(flowinfo, offset).
              rbind (decode_u32 ProtocolKind.PeerSharing ''scope'' data offset) (\<lambda>(scope, offset).
              Ok (V6 raw port flowinfo scope, offset)))))
       else Err (UnknownTag ProtocolKind.PeerSharing tag)))"

definition encode_peer_sharing_message :: "PeerSharingMessage \<Rightarrow> bytes" where
  "encode_peer_sharing_message msg =
     (case msg of
        ShareRequest amount \<Rightarrow> encode_u64 (encode_u64 (encode_array_header [] 2) 0) (ucast amount)
      | SharePeers peers \<Rightarrow>
          foldl encode_peer_address
            (encode_array_header (encode_u64 (encode_array_header [] 2) 1) (word_of_nat (length peers))) peers
      | PeerSharingMessage.Done \<Rightarrow> encode_u64 (encode_array_header [] 1) 2)"

definition decode_peer_sharing_message :: "bytes \<Rightarrow> (PeerSharingMessage, NetCodecError) result" where
  "decode_peer_sharing_message = decode_tagged ProtocolKind.PeerSharing (\<lambda>(tag, arr_len) bytes offset.
     if (tag, arr_len) = (0, 2) then
       rbind (decode_u64 ProtocolKind.PeerSharing bytes offset) (\<lambda>(amount_v, offset).
       if 0xff < amount_v then Err (InvalidIntegerRange ProtocolKind.PeerSharing ''amount'' amount_v)
       else Ok (ShareRequest (ucast amount_v), offset))
     else if (tag, arr_len) = (1, 2) then
       rbind (decode_array_header ProtocolKind.PeerSharing bytes offset) (\<lambda>(n, offset).
       rbind (read_count (unat n) decode_peer_address bytes offset) (\<lambda>(peers, offset).
       Ok (SharePeers peers, offset)))
     else if (tag, arr_len) = (2, 1) then Ok (PeerSharingMessage.Done, offset)
     else Err (UnknownTag ProtocolKind.PeerSharing tag))"

section \<open>Reading back\<close>

lemma decode_tagged_reads:
  assumes "reads (body (tag, n)) bs msg" and "n \<noteq> 0"
  shows "decode_tagged p body (array_bytes n @ uint_bytes tag @ bs) = Ok msg"
proof -
  have "decode_array_header p (array_bytes n @ uint_bytes tag @ bs) 0 = Ok (n, length (array_bytes n))"
    using reads_at [OF decode_reads(1) [of p n], of "[]" "uint_bytes tag @ bs"] by simp
  moreover have "decode_u64 p (array_bytes n @ uint_bytes tag @ bs) (length (array_bytes n))
      = Ok (tag, length (array_bytes n) + length (uint_bytes tag))"
    using reads_at [OF decode_reads(2) [of p tag], of "array_bytes n" bs] by simp
  moreover have "body (tag, n) (array_bytes n @ uint_bytes tag @ bs) (length (array_bytes n) + length (uint_bytes tag))
      = Ok (msg, length (array_bytes n @ uint_bytes tag @ bs))"
    using reads_at [OF assms(1), of "array_bytes n @ uint_bytes tag" "[]"] by simp
  ultimately show ?thesis using array_bytes_ne [of n] assms(2) by (simp add: decode_tagged_def require_consumed_def)
qed

lemma reads_until_break:
  assumes "\<And>v. v \<in> set vs \<Longrightarrow> reads d (enc v) v \<and> enc v \<noteq> [] \<and> hd (enc v) \<noteq> 0xff"
  shows "reads (\<lambda>data offset. read_until_break (length data - offset) eof d data offset) (concat (map enc vs) @ [0xff]) vs"
proof -
  have "read_until_break k eof d (pre @ (concat (map enc vs) @ [0xff]) @ rest) (length pre)
      = Ok (vs, length pre + length (concat (map enc vs) @ [0xff]))"
    if "length (concat (map enc vs)) \<le> k" for pre rest k
    using assms that
  proof (induction vs arbitrary: k pre)
    case Nil
    show ?case by (cases k) (simp_all add: try_consume_break_def nth_append)
  next
    case (Cons v vs)
    let ?data = "pre @ (concat (map enc (v # vs)) @ [0xff]) @ rest"
    have v: "reads d (enc v) v" "enc v \<noteq> []" "hd (enc v) \<noteq> 0xff" using Cons.prems(1) [of v] by simp_all
    then have k: "0 < k" "length (concat (map enc vs)) \<le> k - 1" using Cons.prems(2) by (cases "enc v"; simp)+
    have "?data ! length pre \<noteq> 0xff" using v(2,3) by (cases "enc v") (simp_all add: nth_append)
    moreover have "d ?data (length pre) = Ok (v, length pre + length (enc v))"
      using reads_at [OF v(1), of pre "(concat (map enc vs) @ [0xff]) @ rest"] by simp
    moreover have "read_until_break (k - 1) eof d ?data (length pre + length (enc v))
        = Ok (vs, length pre + length (enc v) + length (concat (map enc vs) @ [0xff]))"
      using Cons.IH [of "k - 1" "pre @ enc v"] Cons.prems(1) k(2) by simp
    ultimately show ?case using k(1) v(2) by (cases k) (simp_all add: try_consume_break_def)
  qed
  from this [of "Suc (length (concat (map enc vs)) + length rest)" for rest] show ?thesis
    by (auto simp: reads_def simp del: read_until_break.simps)
qed

lemma head_not_break: "array_bytes n \<noteq> []" "hd (array_bytes n) \<noteq> 0xff"
proof -
  show "array_bytes n \<noteq> []" by (rule array_bytes_ne)
  have "read_array_header (array_bytes n) 0 = Ok (ContainerEncoding.Definite n (canonical_width n), length (array_bytes n))"
    by (rule reads_start [OF reads_written(2)])
  then show "hd (array_bytes n) \<noteq> 0xff"
    using array_bytes_ne [of n]
    by (auto simp: read_array_header_def result_simps cbor_consts hd_conv_nth split: if_splits)
qed

section \<open>Items\<close>

lemma items_concat:
  assumes "\<forall>x\<in>set xs. params_ok x"
  shows "cbor_items False (pre @ concat xs @ rest) (length xs) (length pre) (length pre + length (concat xs))"
  using assms
proof (induction xs arbitrary: pre)
  case Nil
  show ?case by (simp add: items_0)
next
  case (Cons x xs)
  then have "cbor_item False (pre @ x @ concat xs @ rest) (length pre) (length pre + length x)"
    using item_local(1) [of False x 0 "length x" pre "concat xs @ rest"] by (simp add: params_ok_def)
  moreover have "cbor_items False (pre @ x @ concat xs @ rest) (length xs) (length (pre @ x)) (length (pre @ x) + length (concat xs))"
    using Cons.IH [of "pre @ x"] Cons.prems by simp
  ultimately show ?case by (simp add: items_Suc) (metis add.assoc)
qed

lemma item_array:
  assumes "length xs = unat n" and "\<forall>x\<in>set xs. params_ok x"
  shows "params_ok (array_bytes n @ concat xs)"
proof -
  let ?data = "array_bytes n @ concat xs"
  have "read_array_header ?data 0 = Ok (ContainerEncoding.Definite n (canonical_width n), length (array_bytes n))"
    using reads_at [OF reads_written(2) [of n], of "[]" "concat xs"] by simp
  then obtain ai p w where "decode_initial ?data 0 = Ok ((4, ai), p)" "ai \<noteq> 31"
    "decode_argument ?data p ai 0 = Ok ((n, w), length (array_bytes n))"
    by (auto simp: read_array_header_def rbind_eq_Ok cbor_consts split: if_splits)
  moreover have "cbor_items False ?data (unat n) (length (array_bytes n)) (length ?data)"
    using items_concat [OF assms(2), of "array_bytes n" "[]"] assms(1) by simp
  ultimately show ?thesis unfolding params_ok_def by (rule cbor_grammar_intros(5))
qed

lemma item_uint: "params_ok (uint_bytes v)"
proof -
  have "read_uint (uint_bytes v) 0 = Ok ((v, canonical_width v), length (uint_bytes v))"
    by (rule reads_start [OF reads_written(1)])
  then obtain ai p vw where "decode_initial (uint_bytes v) 0 = Ok ((0, ai), p)"
    "decode_argument (uint_bytes v) p ai 0 = Ok (vw, length (uint_bytes v))"
    by (auto simp: read_uint_def rbind_eq_Ok cbor_consts split: if_splits)
  then show ?thesis unfolding params_ok_def by (intro cbor_grammar_intros(1)) auto
qed

lemma item_string:
  assumes "length bs < 2 ^ 64"
  shows "params_ok (string_bytes bs)"
proof -
  have "read_bytes (string_bytes bs) 0
      = Ok ((bs, canonical_width (word_of_nat (length bs))), length (string_bytes bs))"
    by (rule reads_start [OF reads_written_strings(1) [OF assms]])
  then obtain ai p n w q where i: "decode_initial (string_bytes bs) 0 = Ok ((2, ai), p)" "ai \<noteq> 31"
    "decode_argument (string_bytes bs) p ai 0 = Ok ((n, w), q)" and e: "q + unat n = length (string_bytes bs)"
    by (auto simp: read_bytes_def read_payload_def rbind_eq_Ok cbor_consts split: if_splits)
  show ?thesis unfolding params_ok_def e [symmetric] by (rule cbor_grammar_intros(2) [OF i(1) _ i(2,3)]) (simp_all add: e)
qed

lemma item_bool: "params_ok (bool_bytes b)"
proof -
  have "skip_item [0xf4] 0 = Ok ((0, 1), 1)" "skip_item [0xf5] 0 = Ok ((0, 1), 1)" by code_simp+
  then show ?thesis by (simp add: skip_item_Ok params_ok_def bool_bytes_def encode_bool_def write_bool_def)
qed

lemma items_until_break:
  assumes "\<forall>x\<in>set xs. params_ok x"
  shows "cbor_until_break False (pre @ concat xs @ 0xff # rest) (length pre) (length pre + length (concat xs) + 1)"
  using assms
proof (induction xs arbitrary: pre)
  case Nil
  show ?case by (simp add: until_break_iff [of _ _ "length pre"] nth_append)
next
  case (Cons x xs)
  let ?data = "pre @ concat (x # xs) @ 0xff # rest"
  have x: "cbor_item False ?data (length pre) (length pre + length x)"
    using item_local(1) [of False x 0 "length x" pre "concat xs @ 0xff # rest"] Cons.prems by (simp add: params_ok_def)
  have "cbor_until_break False ?data (length pre + length x) (length pre + length x + length (concat xs) + 1)"
    using Cons.IH [of "pre @ x"] Cons.prems by simp
  with x item_not_break [OF x] show ?case
    by (subst until_break_iff) (auto simp: add.assoc)
qed

lemma item_sequence:
  assumes "\<forall>x\<in>set xs. params_ok x"
  shows "params_ok (0x9f # concat xs @ [0xff])"
proof -
  have "decode_initial (0x9f # concat xs @ [0xff]) 0 = Ok ((4, 31), 1)"
    by (simp add: decode_initial_def read_byte_def peek_byte_def)
  moreover have "cbor_until_break False (0x9f # concat xs @ [0xff]) 1 (length (0x9f # concat xs @ [0xff]))"
    using items_until_break [OF assms, of "[0x9f]" "[]"] by simp
  ultimately show ?thesis unfolding params_ok_def by (intro cbor_grammar_intros(3)) auto
qed

lemma item_tag24:
  assumes "length inner < 2 ^ 64"
  shows "params_ok (wrap_tag24 inner)"
proof -
  have w: "wrap_tag24 inner = [0xd8, 0x18] @ string_bytes inner"
    using encode_appends(3) [of "[0xd8, 0x18]" inner] by (simp add: wrap_tag24_def write_tag24 encode_bytes_def)
  have "decode_initial ([0xd8, 0x18] @ string_bytes inner) 0 = Ok ((6, 24), 1)"
    by (simp add: decode_initial_def read_byte_def peek_byte_def)
  moreover have "decode_argument ([0xd8, 0x18] @ string_bytes inner) 1 24 0 = Ok ((24, I8), 2)"
    by (simp add: decode_argument_def read_byte_def peek_byte_def cbor_consts)
  moreover have "cbor_item False ([0xd8, 0x18] @ string_bytes inner) 2 (length ([0xd8, 0x18] @ string_bytes inner))"
    using item_local(1) [of False "string_bytes inner" 0 "length (string_bytes inner)" "[0xd8, 0x18]" "[]"]
      item_string [OF assms] by (simp add: params_ok_def numeral_2_eq_2)
  ultimately show ?thesis unfolding params_ok_def w by (rule cbor_grammar_intros(7))
qed

section \<open>Messages that survive the wire\<close>

fun chain_point_ok :: "ChainPoint \<Rightarrow> bool" where
  "chain_point_ok ChainPoint.Origin \<longleftrightarrow> True"
| "chain_point_ok (ChainPoint.Block _ hash) \<longleftrightarrow> length hash = 32"

fun chain_sync_ok :: "ChainSyncMessage \<Rightarrow> bool" where
  "chain_sync_ok (ChainSyncMessage.RollForward header tip) \<longleftrightarrow> params_ok header \<and> chain_point_ok (tip_point tip)"
| "chain_sync_ok (ChainSyncMessage.RollBackward point tip) \<longleftrightarrow> chain_point_ok point \<and> chain_point_ok (tip_point tip)"
| "chain_sync_ok (FindIntersect points) \<longleftrightarrow> length points < 2 ^ 64 \<and> list_all chain_point_ok points"
| "chain_sync_ok (IntersectFound point tip) \<longleftrightarrow> chain_point_ok point \<and> chain_point_ok (tip_point tip)"
| "chain_sync_ok (IntersectNotFound tip) \<longleftrightarrow> chain_point_ok (tip_point tip)"
| "chain_sync_ok _ \<longleftrightarrow> True"

fun fetch_point_ok :: "FetchPoint \<Rightarrow> bool" where
  "fetch_point_ok FetchPoint.Origin \<longleftrightarrow> True"
| "fetch_point_ok (FetchPoint.Block _ hash) \<longleftrightarrow> length hash = 32"

fun block_fetch_ok :: "BlockFetchMessage \<Rightarrow> bool" where
  "block_fetch_ok (RequestRange r) \<longleftrightarrow> fetch_point_ok (range_from r) \<and> fetch_point_ok (range_to r)"
| "block_fetch_ok (BlockFetchMessage.Block bytes) \<longleftrightarrow> params_ok bytes"
| "block_fetch_ok _ \<longleftrightarrow> True"

fun tx_submission_ok :: "TxSubmission2Message \<Rightarrow> bool" where
  "tx_submission_ok (ReplyTxIds entries) \<longleftrightarrow> list_all (\<lambda>e. length (txid_id (tis_tx_id e)) = 32) entries"
| "tx_submission_ok (RequestTxs ids) \<longleftrightarrow> list_all (\<lambda>i. length (txid_id i) = 32) ids"
| "tx_submission_ok (ReplyTxs txs) \<longleftrightarrow> list_all params_ok txs"
| "tx_submission_ok _ \<longleftrightarrow> True"

fun peer_address_ok :: "PeerAddress \<Rightarrow> bool" where
  "peer_address_ok (V4 _ _) \<longleftrightarrow> True"
| "peer_address_ok (V6 addr _ _ _) \<longleftrightarrow> length addr = 16"

fun peer_sharing_ok :: "PeerSharingMessage \<Rightarrow> bool" where
  "peer_sharing_ok (SharePeers peers) \<longleftrightarrow> length peers < 2 ^ 64 \<and> list_all peer_address_ok peers"
| "peer_sharing_ok _ \<longleftrightarrow> True"

text \<open>
  What a decoder reads back and carries as one item. The second half of each lemma on encodings is
  the decomposition into items.
\<close>

definition sound :: "(bytes \<Rightarrow> usize \<Rightarrow> ('a \<times> usize, 'e) result) \<Rightarrow> (bytes \<Rightarrow> 'a \<Rightarrow> bytes) \<Rightarrow> 'a \<Rightarrow> bool" where
  "sound d enc v \<longleftrightarrow> (\<forall>buf. enc buf v = buf @ enc [] v) \<and> reads d (enc [] v) v \<and> params_ok (enc [] v)"

lemma sound_append: "sound d enc v \<Longrightarrow> enc buf v = buf @ enc [] v"
  unfolding sound_def by blast

lemma sound_reads: "sound d enc v \<Longrightarrow> reads d (enc [] v) v"
  unfolding sound_def by blast

lemma sound_item: "sound d enc v \<Longrightarrow> params_ok (enc [] v)"
  unfolding sound_def by blast

lemma soundI: "(\<And>buf. enc buf v = buf @ bs) \<Longrightarrow> reads d bs v \<Longrightarrow> params_ok bs \<Longrightarrow> sound d enc v"
  unfolding sound_def by simp

lemma foldl_sound:
  "\<forall>v\<in>set vs. sound d enc v \<Longrightarrow> foldl enc buf vs = buf @ concat (map (enc []) vs)"
proof (induction vs arbitrary: buf)
  case (Cons v vs)
  then have "enc buf v = buf @ enc [] v" by (intro sound_append [of d]) simp
  with Cons show ?case by simp
qed simp

lemma item_pair: "params_ok a \<Longrightarrow> params_ok b \<Longrightarrow> params_ok (array_bytes 2 @ a @ b)"
  using item_array [of "[a, b]" 2] by simp

lemma chain_point_sound:
  assumes "chain_point_ok p"
  shows "sound decode_chain_point encode_chain_point p"
proof (cases p)
  case Origin
  have "reads decode_chain_point (array_bytes 0) ChainPoint.Origin"
    using decode_reads(1) [of ProtocolKind.ChainSync 0] by (simp add: reads_def decode_chain_point_def)
  moreover have "params_ok (array_bytes 0)" using item_array [of "[]" 0] by simp
  ultimately show ?thesis unfolding Origin by (intro soundI) (simp_all add: encode_chain_point_def codec_bytes)
next
  case (Block slot hash)
  with assms have h: "length hash = 32" "reads (decode_bytes q) (string_bytes hash) hash" for q
    by (simp_all add: decode_reads)
  have "reads decode_chain_point (array_bytes 2 @ uint_bytes slot @ string_bytes hash) (ChainPoint.Block slot hash)"
    unfolding decode_chain_point_def [abs_def]
    by (rule reads_head(1), simp, rule reads_tag(1)) (use h in \<open>auto simp: reads_def\<close>)
  moreover have "params_ok (array_bytes 2 @ uint_bytes slot @ string_bytes hash)"
    using h by (intro item_pair item_uint item_string) simp
  ultimately show ?thesis unfolding Block by (intro soundI) (simp_all add: encode_chain_point_def codec_bytes)
qed

lemma tip_sound:
  assumes "chain_point_ok (tip_point t)"
  shows "sound decode_tip encode_tip t"
proof -
  note p = chain_point_sound [OF assms]
  let ?bs = "array_bytes 2 @ encode_chain_point [] (tip_point t) @ uint_bytes (tip_block_no t)"
  have "reads decode_tip ?bs t"
    unfolding decode_tip_def [abs_def]
    by (rule reads_head(1), simp, rule reads_bind [OF sound_reads [OF p]])
      (use decode_reads(2) [of ProtocolKind.ChainSync "tip_block_no t"] in \<open>simp add: reads_def\<close>)
  moreover have "params_ok ?bs" by (intro item_pair item_uint sound_item [OF p])
  ultimately show ?thesis
    by (intro soundI) (simp_all add: encode_tip_def codec_bytes sound_append [OF p, of "_ @ _"])
qed

lemma tagged_message:
  assumes "enc = array_bytes n @ uint_bytes tag @ concat parts" and "Suc (length parts) = unat n"
    and "\<forall>x\<in>set parts. params_ok x" and "reads (body (tag, n)) (concat parts) msg"
  shows "decode_tagged p body enc = Ok msg \<and> params_ok enc"
proof -
  have "n \<noteq> 0" using assms(2) by auto
  then show ?thesis
    using decode_tagged_reads [of body tag n "concat parts" msg p, OF assms(4)] item_array [of "uint_bytes tag # parts" n] assms(1-3) item_uint by simp
qed

lemma reads_counted:
  assumes "length vs < 2 ^ 64" and "\<forall>v\<in>set vs. sound d enc v"
  shows "reads (\<lambda>data offset. read_count (unat (word_of_nat (length vs) :: u64)) d data offset) (concat (map (enc []) vs)) vs"
    and "params_ok (array_bytes (word_of_nat (length vs)) @ concat (map (enc []) vs))"
proof -
  have n: "unat (word_of_nat (length vs) :: u64) = length vs" using assms(1) by (simp add: unat_of_nat)
  show "reads (\<lambda>data offset. read_count (unat (word_of_nat (length vs) :: u64)) d data offset) (concat (map (enc []) vs)) vs"
    unfolding n using assms(2) by (intro reads_count sound_reads) simp
  show "params_ok (array_bytes (word_of_nat (length vs)) @ concat (map (enc []) vs))"
    by (rule item_array) (use assms(2) n in \<open>auto intro: sound_item [of d enc]\<close>)
qed

lemma reads_points:
  assumes "length ps < 2 ^ 64" and "list_all chain_point_ok ps"
  shows "reads decode_find_intersect_points
    (array_bytes (word_of_nat (length ps)) @ concat (map (encode_chain_point []) ps)) ps"
proof -
  have "\<forall>p\<in>set ps. sound decode_chain_point encode_chain_point p"
    using assms(2) chain_point_sound by (simp add: list_all_iff)
  note r = reads_counted(1) [OF assms(1) this]
  have h: "reads (decode_array_head_two_form ProtocolKind.ChainSync) (array_bytes n) (ArrayHead.Definite n)" for n
    using reads_written(2) [of n] by (simp add: reads_def decode_array_head_two_form_def)
  show ?thesis
    unfolding decode_find_intersect_points_def [abs_def] by (rule reads_bind [OF h]) (use r in simp)
qed

lemma chain_sync_wire:
  assumes "chain_sync_ok msg"
  shows "decode_chain_sync_message (encode_chain_sync_message msg) = Ok msg \<and> params_ok (encode_chain_sync_message msg)"
proof (cases msg)
  case (RollForward header tip)
  with assms have h: "params_ok header" and t: "sound decode_tip encode_tip tip" by (simp_all add: tip_sound)
  then have r: "reads (decode_item p) header header" for p by (simp add: reads_item params_ok_def)
  show ?thesis
    unfolding decode_chain_sync_message_def
    by (rule tagged_message [where parts = "[header, encode_tip [] tip]" and n = 3 and tag = 2])
      (use h in \<open>simp_all add: RollForward encode_chain_sync_message_def codec_bytes sound_append [OF t, of "_ @ _"]
         sound_item [OF t] reads_bind [OF r] reads_bind_return [OF sound_reads [OF t]]\<close>)
next
  case (RollBackward point tip)
  with assms have p: "sound decode_chain_point encode_chain_point point" and t: "sound decode_tip encode_tip tip"
    by (simp_all add: tip_sound chain_point_sound)
  show ?thesis
    unfolding decode_chain_sync_message_def
    by (rule tagged_message [where parts = "[encode_chain_point [] point, encode_tip [] tip]" and n = 3 and tag = 3])
      (simp_all add: RollBackward encode_chain_sync_message_def codec_bytes sound_append [OF t, of "_ @ _"]
         sound_append [OF p, of "_ @ _"] sound_item [OF t] sound_item [OF p]
         reads_bind [OF sound_reads [OF p]] reads_bind_return [OF sound_reads [OF t]])
next
  case (FindIntersect points)
  with assms have ok: "length points < 2 ^ 64" "list_all chain_point_ok points" by simp_all
  then have s: "\<forall>p\<in>set points. sound decode_chain_point encode_chain_point p"
    by (simp add: list_all_iff chain_point_sound)
  let ?bs = "array_bytes (word_of_nat (length points)) @ concat (map (encode_chain_point []) points)"
  show ?thesis
    unfolding decode_chain_sync_message_def
    by (rule tagged_message [where parts = "[?bs]" and n = 2 and tag = 4])
      (simp_all add: FindIntersect encode_chain_sync_message_def codec_bytes foldl_sound [OF s]
         reads_counted(2) [OF ok(1) s] reads_bind_return [OF reads_points [OF ok]])
next
  case (IntersectFound point tip)
  with assms have p: "sound decode_chain_point encode_chain_point point" and t: "sound decode_tip encode_tip tip"
    by (simp_all add: tip_sound chain_point_sound)
  show ?thesis
    unfolding decode_chain_sync_message_def
    by (rule tagged_message [where parts = "[encode_chain_point [] point, encode_tip [] tip]" and n = 3 and tag = 5])
      (simp_all add: IntersectFound encode_chain_sync_message_def codec_bytes sound_append [OF t, of "_ @ _"]
         sound_append [OF p, of "_ @ _"] sound_item [OF t] sound_item [OF p]
         reads_bind [OF sound_reads [OF p]] reads_bind_return [OF sound_reads [OF t]])
next
  case (IntersectNotFound tip)
  with assms have t: "sound decode_tip encode_tip tip" by (simp add: tip_sound)
  show ?thesis
    unfolding decode_chain_sync_message_def
    by (rule tagged_message [where parts = "[encode_tip [] tip]" and n = 2 and tag = 6])
      (simp_all add: IntersectNotFound encode_chain_sync_message_def codec_bytes sound_append [OF t, of "_ @ _"]
         sound_item [OF t] reads_bind_return [OF sound_reads [OF t]])
next
  case RequestNext
  show ?thesis
    unfolding decode_chain_sync_message_def
    by (rule tagged_message [where parts = "[]" and n = 1 and tag = 0])
      (simp_all add: RequestNext encode_chain_sync_message_def codec_bytes reads_return)
next
  case AwaitReply
  show ?thesis
    unfolding decode_chain_sync_message_def
    by (rule tagged_message [where parts = "[]" and n = 1 and tag = 1])
      (simp_all add: AwaitReply encode_chain_sync_message_def codec_bytes reads_return)
next
  case Done
  show ?thesis
    unfolding decode_chain_sync_message_def
    by (rule tagged_message [where parts = "[]" and n = 1 and tag = 7])
      (simp_all add: Done encode_chain_sync_message_def codec_bytes reads_return)
qed

lemma fetch_point_sound:
  assumes "fetch_point_ok p"
  shows "sound decode_fetch_point encode_fetch_point p"
proof (cases p)
  case Origin
  have "reads decode_fetch_point (array_bytes 0) FetchPoint.Origin"
    using decode_reads(1) [of ProtocolKind.BlockFetch 0] by (simp add: reads_def decode_fetch_point_def)
  moreover have "params_ok (array_bytes 0)" using item_array [of "[]" 0] by simp
  ultimately show ?thesis unfolding Origin by (intro soundI) (simp_all add: encode_fetch_point_def codec_bytes)
next
  case (Block slot hash)
  with assms have h: "length hash = 32" "reads (decode_bytes q) (string_bytes hash) hash" for q
    by (simp_all add: decode_reads)
  have "reads decode_fetch_point (array_bytes 2 @ uint_bytes slot @ string_bytes hash) (FetchPoint.Block slot hash)"
    unfolding decode_fetch_point_def [abs_def]
    by (rule reads_head(1), simp, rule reads_tag(1)) (use h in \<open>auto simp: reads_def\<close>)
  moreover have "params_ok (array_bytes 2 @ uint_bytes slot @ string_bytes hash)"
    using h by (intro item_pair item_uint item_string) simp
  ultimately show ?thesis unfolding Block by (intro soundI) (simp_all add: encode_fetch_point_def codec_bytes)
qed

lemma block_fetch_wire:
  assumes "block_fetch_ok msg"
  shows "decode_block_fetch_message (encode_block_fetch_message msg) = Ok msg \<and> params_ok (encode_block_fetch_message msg)"
proof (cases msg)
  case (RequestRange r)
  with assms have p: "sound decode_fetch_point encode_fetch_point (range_from r)"
    and q: "sound decode_fetch_point encode_fetch_point (range_to r)" by (simp_all add: fetch_point_sound)
  have "reads (\<lambda>bytes offset. rbind (decode_fetch_point bytes offset) (\<lambda>(to, offset).
      Ok (RequestRange \<lparr>range_from = range_from r, range_to = to\<rparr>, offset))) (encode_fetch_point [] (range_to r)) (RequestRange r)"
    using reads_bind_return [OF sound_reads [OF q], of "\<lambda>to. RequestRange \<lparr>range_from = range_from r, range_to = to\<rparr>"]
    by (cases r) simp
  then have rr: "reads (\<lambda>bytes offset. rbind (decode_fetch_point bytes offset) (\<lambda>(from, offset).
      rbind (decode_fetch_point bytes offset) (\<lambda>(to, offset). Ok (RequestRange \<lparr>range_from = from, range_to = to\<rparr>, offset))))
      (encode_fetch_point [] (range_from r) @ encode_fetch_point [] (range_to r)) (RequestRange r)"
    by (rule reads_bind [OF sound_reads [OF p]])
  show ?thesis
    unfolding decode_block_fetch_message_def
    by (rule tagged_message [where parts = "[encode_fetch_point [] (range_from r), encode_fetch_point [] (range_to r)]"
          and n = 3 and tag = 0])
      (simp_all add: RequestRange encode_block_fetch_message_def codec_bytes sound_append [OF p, of "_ @ _"]
         sound_append [OF q, of "_ @ _"] sound_item [OF p] sound_item [OF q]
rr)
next
  case (Block bytes)
  with assms have h: "params_ok bytes" "reads (decode_item p) bytes bytes" for p by (simp_all add: reads_item params_ok_def)
  show ?thesis
    unfolding decode_block_fetch_message_def
    by (rule tagged_message [where parts = "[bytes]" and n = 2 and tag = 4])
      (simp_all add: Block encode_block_fetch_message_def codec_bytes h reads_bind_return)
next
  case ClientDone
  show ?thesis
    unfolding decode_block_fetch_message_def
    by (rule tagged_message [where parts = "[]" and n = 1 and tag = 1])
      (simp_all add: ClientDone encode_block_fetch_message_def codec_bytes reads_return)
next
  case StartBatch
  show ?thesis
    unfolding decode_block_fetch_message_def
    by (rule tagged_message [where parts = "[]" and n = 1 and tag = 2])
      (simp_all add: StartBatch encode_block_fetch_message_def codec_bytes reads_return)
next
  case NoBlocks
  show ?thesis
    unfolding decode_block_fetch_message_def
    by (rule tagged_message [where parts = "[]" and n = 1 and tag = 3])
      (simp_all add: NoBlocks encode_block_fetch_message_def codec_bytes reads_return)
next
  case BatchDone
  show ?thesis
    unfolding decode_block_fetch_message_def
    by (rule tagged_message [where parts = "[]" and n = 1 and tag = 5])
      (simp_all add: BatchDone encode_block_fetch_message_def codec_bytes reads_return)
qed

lemma keep_alive_wire:
  "decode_keep_alive_message (encode_keep_alive_message msg) = Ok msg \<and> params_ok (encode_keep_alive_message msg)"
proof (cases msg)
  case (KeepAlive c)
  show ?thesis
    unfolding decode_keep_alive_message_def
    by (rule tagged_message [where parts = "[uint_bytes (ucast c)]" and n = 2 and tag = 0])
      (simp_all add: KeepAlive encode_keep_alive_message_def codec_bytes item_uint reads_bind_return [OF decode_small_reads(1)])
next
  case (ResponseKeepAlive c)
  show ?thesis
    unfolding decode_keep_alive_message_def
    by (rule tagged_message [where parts = "[uint_bytes (ucast c)]" and n = 2 and tag = 1])
      (simp_all add: ResponseKeepAlive encode_keep_alive_message_def codec_bytes item_uint
        reads_bind_return [OF decode_small_reads(1)])
next
  case Done
  show ?thesis
    unfolding decode_keep_alive_message_def
    by (rule tagged_message [where parts = "[]" and n = 1 and tag = 2])
      (simp_all add: Done encode_keep_alive_message_def codec_bytes reads_return)
qed

lemma txid_sound:
  assumes "length (txid_id i) = 32"
  shows "sound decode_tx_submission_txid encode_tx_submission_txid i"
proof -
  have h: "reads (decode_bytes q) (string_bytes (txid_id i)) (txid_id i)" for q using assms by (simp add: decode_reads)
  let ?bs = "array_bytes 2 @ uint_bytes (txid_era i) @ string_bytes (txid_id i)"
  have "reads decode_tx_submission_txid ?bs i"
    unfolding decode_tx_submission_txid_def [abs_def]
    by (rule reads_head(1), simp, rule reads_tag(1)) (use h assms in \<open>auto simp: reads_def\<close>)
  moreover have "params_ok ?bs" using assms by (intro item_pair item_uint item_string) simp
  ultimately show ?thesis by (intro soundI) (simp_all add: encode_tx_submission_txid_def codec_bytes)
qed

lemma tx_id_and_size_sound:
  assumes "length (txid_id (tis_tx_id e)) = 32"
  shows "sound decode_tx_id_and_size encode_tx_id_and_size e"
proof -
  note i = txid_sound [OF assms]
  let ?bs = "array_bytes 2 @ encode_tx_submission_txid [] (tis_tx_id e) @ uint_bytes (ucast (tis_size e))"
  have "reads decode_tx_id_and_size ?bs e"
    unfolding decode_tx_id_and_size_def [abs_def]
    by (rule reads_head(1), simp, rule reads_bind [OF sound_reads [OF i]])
      (use decode_small_reads(2) [of TxSubmission2 "''tx size''" "tis_size e"] in \<open>simp add: reads_def\<close>)
  moreover have "params_ok ?bs" by (intro item_pair item_uint sound_item [OF i])
  ultimately show ?thesis
    by (intro soundI) (simp_all add: encode_tx_id_and_size_def codec_bytes sound_append [OF i, of "_ @ _"])
qed

lemma opaque_sound: "params_ok tx \<Longrightarrow> sound (decode_item p) (@) tx"
  by (intro soundI) (simp_all add: reads_item params_ok_def)

lemma sequence_bytes [codec_bytes]:
  "write_seq_header buf = buf @ [0x9f]" "write_seq_footer buf = buf @ [0xff]"
  by (simp_all add: write_seq_header_def write_seq_footer_def write_array_header_def write_break_def cbor_consts)

lemma params_ok_head: "params_ok bs \<Longrightarrow> bs \<noteq> [] \<and> hd bs \<noteq> 0xff"
  using item_not_break [of False bs 0 "length bs"] by (cases bs) (simp_all add: params_ok_def)

lemma reads_seq:
  assumes "\<forall>v\<in>set vs. sound d enc v"
  shows "reads (decode_seq d) (0x9f # concat (map (enc []) vs) @ [0xff]) vs"
proof -
  have "reads (\<lambda>data offset. map_err (MalformedCbor TxSubmission2) (read_array_header data offset)) [0x9f]
      ContainerEncoding.Indefinite"
    by (simp add: reads_def read_array_header_def decode_initial_def read_byte_def peek_byte_def cbor_consts nth_append)
  note h = reads_bind [OF this]
  have r: "reads (\<lambda>data offset. read_until_break (length data - offset) eof d data offset)
      (concat (map (enc []) vs) @ [0xff]) vs" for eof
    by (rule reads_until_break) (use assms in \<open>auto intro: sound_reads [of d enc] dest: params_ok_head [OF sound_item [of d enc]]\<close>)
  have "reads (decode_seq d) ([0x9f] @ concat (map (enc []) vs) @ [0xff]) vs"
    unfolding decode_seq_def [abs_def] by (rule h) (simp add: r)
  then show ?thesis by simp
qed

lemma tx_submission_sequence:
  assumes s: "\<forall>v\<in>set vs. sound d enc v"
    and enc: "encode_tx_submission_message msg = write_seq_footer (foldl enc (write_seq_header (encode_u64 (encode_array_header [] 2) tag)) vs)"
    and msg: "msg = f vs"
    and body: "body (tag, 2) = (\<lambda>bytes offset. rbind (decode_seq d bytes offset) (\<lambda>(vs, offset). Ok (f vs, offset)))"
  shows "decode_tagged p body (encode_tx_submission_message msg) = Ok msg \<and> params_ok (encode_tx_submission_message msg)"
proof (rule tagged_message)
  let ?seq = "0x9f # concat (map (enc []) vs) @ [0xff]"
  show "encode_tx_submission_message msg = array_bytes 2 @ uint_bytes tag @ concat [?seq]"
    by (simp add: enc codec_bytes foldl_sound [OF s])
  show "\<forall>x\<in>set [?seq]. params_ok x"
    using s by (auto intro!: item_sequence sound_item [of d enc])
  show "reads (body (tag, 2)) (concat [?seq]) msg"
    using reads_bind_return [OF reads_seq [OF s]] by (simp add: body msg)
qed simp

lemma tx_submission_wire:
  assumes "tx_submission_ok msg"
  shows "decode_tx_submission_message (encode_tx_submission_message msg) = Ok msg \<and> params_ok (encode_tx_submission_message msg)"
proof (cases msg)
  case (RequestTxIds blocking ack req)
  show ?thesis
    unfolding decode_tx_submission_message_def
    by (rule tagged_message [where parts = "[bool_bytes blocking, uint_bytes (ucast ack), uint_bytes (ucast req)]"
          and n = 4 and tag = 0])
      (simp_all add: RequestTxIds encode_tx_submission_message_def codec_bytes item_uint item_bool
         reads_bind [OF decode_reads(5)] reads_bind [OF decode_small_reads(1)] reads_bind_return [OF decode_small_reads(1)])
next
  case (ReplyTxIds entries)
  with assms have "\<forall>e\<in>set entries. sound decode_tx_id_and_size encode_tx_id_and_size e"
    by (simp add: list_all_iff tx_id_and_size_sound)
  then show ?thesis
    unfolding decode_tx_submission_message_def
    by (rule tx_submission_sequence [where tag = 1]) (auto simp: ReplyTxIds encode_tx_submission_message_def)
next
  case (RequestTxs ids)
  with assms have "\<forall>i\<in>set ids. sound decode_tx_submission_txid encode_tx_submission_txid i"
    by (simp add: list_all_iff txid_sound)
  then show ?thesis
    unfolding decode_tx_submission_message_def
    by (rule tx_submission_sequence [where tag = 2]) (auto simp: RequestTxs encode_tx_submission_message_def)
next
  case (ReplyTxs txs)
  with assms have "\<forall>tx\<in>set txs. sound (decode_item TxSubmission2) (@) tx"
    by (simp add: list_all_iff opaque_sound)
  then show ?thesis
    unfolding decode_tx_submission_message_def
    by (rule tx_submission_sequence [where tag = 3]) (auto simp: ReplyTxs encode_tx_submission_message_def)
next
  case Init
  show ?thesis
    unfolding decode_tx_submission_message_def
    by (rule tagged_message [where parts = "[]" and n = 1 and tag = 6])
      (simp_all add: Init encode_tx_submission_message_def codec_bytes reads_return)
next
  case Done
  show ?thesis
    unfolding decode_tx_submission_message_def
    by (rule tagged_message [where parts = "[]" and n = 1 and tag = 4])
      (simp_all add: Done encode_tx_submission_message_def codec_bytes reads_return)
qed

lemma peer_address_sound:
  assumes "peer_address_ok a"
  shows "sound decode_peer_address encode_peer_address a"
proof (cases a)
  case (V4 addr port)
  let ?bs = "array_bytes 3 @ uint_bytes 0 @ uint_bytes (ucast addr) @ uint_bytes (ucast port)"
  have "reads decode_peer_address ?bs (V4 addr port)"
    unfolding decode_peer_address_def [abs_def]
    by (rule reads_head(1), simp, rule reads_tag(1), simp)
      (rule reads_bind [OF decode_small_reads(2)], rule reads_bind_return [OF decode_small_reads(1)])
  moreover have "params_ok ?bs"
    using item_array [of "[uint_bytes 0, uint_bytes (ucast addr), uint_bytes (ucast port)]" 3] by (simp add: item_uint)
  ultimately show ?thesis unfolding V4 by (intro soundI) (simp_all add: encode_peer_address_def codec_bytes)
next
  case (V6 addr port flowinfo scope)
  with assms have h: "length addr = 16" "reads (decode_bytes q) (string_bytes addr) addr" for q
    by (simp_all add: decode_reads)
  let ?bs = "array_bytes 5 @ uint_bytes 1 @ string_bytes addr @ uint_bytes (ucast port) @ uint_bytes (ucast flowinfo)
    @ uint_bytes (ucast scope)"
  have "reads decode_peer_address ?bs (V6 addr port flowinfo scope)"
    unfolding decode_peer_address_def [abs_def]
    by (rule reads_head(1), simp, rule reads_tag(1), simp, rule reads_bind [OF h(2)], simp add: h(1))
      (rule reads_bind [OF decode_small_reads(1)], rule reads_bind [OF decode_small_reads(2)],
       rule reads_bind_return [OF decode_small_reads(2)])
  moreover have "params_ok ?bs"
    using item_array [of "[uint_bytes 1, string_bytes addr, uint_bytes (ucast port), uint_bytes (ucast flowinfo),
      uint_bytes (ucast scope)]" 5] h(1) by (simp add: item_uint item_string)
  ultimately show ?thesis unfolding V6 by (intro soundI) (simp_all add: encode_peer_address_def codec_bytes)
qed

lemma peer_sharing_wire:
  assumes "peer_sharing_ok msg"
  shows "decode_peer_sharing_message (encode_peer_sharing_message msg) = Ok msg \<and> params_ok (encode_peer_sharing_message msg)"
proof (cases msg)
  case (ShareRequest amount)
  have "unat (ucast amount :: u64) = unat amount"
    using unsigned_less [of amount, where 'a = nat] by (simp add: unat_ucast_narrow)
  then have "(ucast amount :: u64) \<le> 0xff" "ucast (ucast amount :: u64) = amount"
    using unsigned_less [of amount, where 'a = nat] by (simp_all add: word_le_nat_alt word_unat_eq_iff unat_ucast_narrow)
  then have "reads (\<lambda>bytes offset. rbind (decode_u64 ProtocolKind.PeerSharing bytes offset) (\<lambda>(amount_v, offset).
      if 0xff < amount_v then Err (InvalidIntegerRange ProtocolKind.PeerSharing ''amount'' amount_v)
      else Ok (ShareRequest (ucast amount_v), offset))) (uint_bytes (ucast amount)) (ShareRequest amount)"
    using decode_reads(2) [of ProtocolKind.PeerSharing "ucast amount"] by (simp add: reads_def not_less)
  then show ?thesis
    unfolding decode_peer_sharing_message_def
    by (intro tagged_message [where parts = "[uint_bytes (ucast amount)]" and n = 2 and tag = 0])
      (simp_all add: ShareRequest encode_peer_sharing_message_def codec_bytes item_uint)
next
  case (SharePeers peers)
  with assms have ok: "length peers < 2 ^ 64" "\<forall>a\<in>set peers. sound decode_peer_address encode_peer_address a"
    by (simp_all add: list_all_iff peer_address_sound)
  let ?bs = "array_bytes (word_of_nat (length peers)) @ concat (map (encode_peer_address []) peers)"
  have "reads (\<lambda>bytes offset. rbind (decode_array_header ProtocolKind.PeerSharing bytes offset) (\<lambda>(n, offset).
      rbind (read_count (unat n) decode_peer_address bytes offset) (\<lambda>(peers, offset).
      Ok (SharePeers peers, offset)))) ?bs (SharePeers peers)"
    by (rule reads_head(1)) (rule reads_bind_return [OF reads_counted(1) [OF ok]])
  then show ?thesis
    unfolding decode_peer_sharing_message_def
    by (intro tagged_message [where parts = "[?bs]" and n = 2 and tag = 1])
      (simp_all add: SharePeers encode_peer_sharing_message_def codec_bytes foldl_sound [OF ok(2)] reads_counted(2) [OF ok])
next
  case Done
  show ?thesis
    unfolding decode_peer_sharing_message_def
    by (rule tagged_message [where parts = "[]" and n = 1 and tag = 2])
      (simp_all add: Done encode_peer_sharing_message_def codec_bytes reads_return)
qed

section \<open>Blocks and headers inside messages\<close>

lemma compose_rollforward_bytes:
  "compose_rollforward_header era header = array_bytes 2 @ uint_bytes (ucast (chain_sync_wire_era_index era)) @ wrap_tag24 header"
  by (simp add: compose_rollforward_header_def codec_bytes)

lemma decompose_composed:
  assumes "length header < 2 ^ 64"
  shows "decompose_rollforward_header (compose_rollforward_header era header) = Ok (chain_sync_wire_era_index era, header)"
proof -
  let ?i = "ucast (chain_sync_wire_era_index era) :: u64" and ?w = "wrap_tag24 header"
  let ?data = "array_bytes 2 @ uint_bytes ?i @ ?w"
  have "decode_array_header ProtocolKind.ChainSync ?data 0 = Ok (2, length (array_bytes 2))"
    using reads_at [OF decode_reads(1) [of ProtocolKind.ChainSync 2], of "[]" "uint_bytes ?i @ ?w"] by simp
  moreover have "decode_u64 ProtocolKind.ChainSync ?data (length (array_bytes 2)) = Ok (?i, length (array_bytes 2) + length (uint_bytes ?i))"
    using reads_at [OF decode_reads(2) [of ProtocolKind.ChainSync ?i], of "array_bytes 2" ?w] by simp
  moreover have "drop (length (array_bytes 2) + length (uint_bytes ?i)) ?data = ?w" by simp
  moreover have "ucast ?i = chain_sync_wire_era_index era"
    by (simp only: word_unat_eq_iff, subst unat_ucast_narrow) (use unsigned_less [of "chain_sync_wire_era_index era", where 'a = nat] in simp_all)
  ultimately show ?thesis
    unfolding compose_rollforward_bytes decompose_rollforward_header_def using unwrap_wrap_tag24 [OF assms] by simp
qed

lemma composed_items:
  assumes "length bytes < 2 ^ 64"
  shows "params_ok (compose_rollforward_header era bytes)" and "params_ok (compose_blockfetch_block bytes)"
  unfolding compose_rollforward_bytes compose_blockfetch_block_def
  by (intro item_pair item_uint item_tag24 assms, rule item_tag24 [OF assms])

section \<open>Properties\<close>

text \<open>
  A header or block that is served arrives intact: the roll-forward message made of a composed
  header decodes to a message from whose payload the era index and the header bytes are
  recovered, and likewise for the block message and the stored block.
\<close>

theorem served_content_roundtrip:
  assumes "length header < 2 ^ 64" and "length block < 2 ^ 64" and "chain_point_ok (tip_point tip)"
  shows "(case decode_chain_sync_message (encode_chain_sync_message
            (ChainSyncMessage.RollForward (compose_rollforward_header era header) tip)) of
      Ok (ChainSyncMessage.RollForward payload tip') \<Rightarrow>
        tip' = tip \<and> decompose_rollforward_header payload = Ok (chain_sync_wire_era_index era, header)
    | _ \<Rightarrow> False)
    \<and> (case decode_block_fetch_message (encode_block_fetch_message
            (BlockFetchMessage.Block (compose_blockfetch_block block))) of
      Ok (BlockFetchMessage.Block payload) \<Rightarrow> decompose_blockfetch_block payload = Ok block
    | _ \<Rightarrow> False)"
  using chain_sync_wire [of "ChainSyncMessage.RollForward (compose_rollforward_header era header) tip"]
    block_fetch_wire [of "BlockFetchMessage.Block (compose_blockfetch_block block)"]
    composed_items(1) [OF assms(1), of era] composed_items(2) [OF assms(2)] decompose_composed [OF assms(1), of era]
    unwrap_wrap_tag24 [OF assms(2)] assms(3)
  by (simp add: compose_blockfetch_block_def decompose_blockfetch_block_def)

theorem served_content_roundtrip_witness:
  "(case decode_chain_sync_message (encode_chain_sync_message
       (ChainSyncMessage.RollForward (compose_rollforward_header Conway [1, 2]) \<lparr>tip_point = ChainPoint.Origin, tip_block_no = 5\<rparr>)) of
      Ok (ChainSyncMessage.RollForward payload _) \<Rightarrow> decompose_rollforward_header payload = Ok (chain_sync_wire_era_index Conway, [1, 2])
    | _ \<Rightarrow> False)"
  using served_content_roundtrip [of "[1, 2]" "[3]" "\<lparr>tip_point = ChainPoint.Origin, tip_block_no = 5\<rparr>" Conway]
  by (simp split: sum.splits ChainSyncMessage.splits)

end
