(* ===== verification/Wire.thy ===== *)
theory Wire
  imports Session_Handshake Protocol_Codec
begin

text \<open>
  The network stack as a whole: the messages of the five node-to-node protocols, encoded by their
  codecs, cut into frames by the sending session, carried in arbitrary chunks, put together
  by the receiving session and decoded.
\<close>

section \<open>Messages of all protocols\<close>

datatype WireMessage =
    ChainSyncWire ChainSyncMessage
  | BlockFetchWire BlockFetchMessage
  | TxSubmissionWire TxSubmission2Message
  | KeepAliveWire KeepAliveMessage
  | PeerSharingWire PeerSharingMessage

fun wire_protocol :: "WireMessage \<Rightarrow> AcceptedMiniProtocol" where
  "wire_protocol (ChainSyncWire _) = AcceptedMiniProtocol.ChainSync"
| "wire_protocol (BlockFetchWire _) = AcceptedMiniProtocol.BlockFetch"
| "wire_protocol (TxSubmissionWire _) = AcceptedMiniProtocol.TxSubmission"
| "wire_protocol (KeepAliveWire _) = AcceptedMiniProtocol.KeepAlive"
| "wire_protocol (PeerSharingWire _) = AcceptedMiniProtocol.PeerSharing"

fun wire_encode :: "WireMessage \<Rightarrow> bytes" where
  "wire_encode (ChainSyncWire m) = encode_chain_sync_message m"
| "wire_encode (BlockFetchWire m) = encode_block_fetch_message m"
| "wire_encode (TxSubmissionWire m) = encode_tx_submission_message m"
| "wire_encode (KeepAliveWire m) = encode_keep_alive_message m"
| "wire_encode (PeerSharingWire m) = encode_peer_sharing_message m"

definition received :: "('a \<Rightarrow> WireMessage) \<Rightarrow> ('a, NetCodecError) result \<Rightarrow> WireMessage option" where
  "received f r = (case r of Ok m \<Rightarrow> Some (f m) | Err _ \<Rightarrow> None)"

definition wire_decode :: "AcceptedMiniProtocol \<Rightarrow> bytes \<Rightarrow> WireMessage option" where
  "wire_decode proto bytes =
     (case proto of
        AcceptedMiniProtocol.ChainSync \<Rightarrow> received ChainSyncWire (decode_chain_sync_message bytes)
      | AcceptedMiniProtocol.BlockFetch \<Rightarrow> received BlockFetchWire (decode_block_fetch_message bytes)
      | AcceptedMiniProtocol.TxSubmission \<Rightarrow> received TxSubmissionWire (decode_tx_submission_message bytes)
      | AcceptedMiniProtocol.KeepAlive \<Rightarrow> received KeepAliveWire (decode_keep_alive_message bytes)
      | AcceptedMiniProtocol.PeerSharing \<Rightarrow> received PeerSharingWire (decode_peer_sharing_message bytes)
      | _ \<Rightarrow> None)"

fun wire_ok :: "WireMessage \<Rightarrow> bool" where
  "wire_ok (ChainSyncWire m) \<longleftrightarrow> chain_sync_ok m"
| "wire_ok (BlockFetchWire m) \<longleftrightarrow> block_fetch_ok m"
| "wire_ok (TxSubmissionWire m) \<longleftrightarrow> tx_submission_ok m"
| "wire_ok (KeepAliveWire _) \<longleftrightarrow> True"
| "wire_ok (PeerSharingWire m) \<longleftrightarrow> peer_sharing_ok m"

definition idle_receiver :: "ConnectedState \<Rightarrow> bool" where
  "idle_receiver c \<longleftrightarrow> fb_pending (cs_buffer c) = [] \<and> (\<forall>p. get_buffer (cs_proto_buffers c) p = [])"

lemma wire_roundtrip:
  assumes "wire_ok m"
  shows "wire_decode (wire_protocol m) (wire_encode m) = Some m" and "whole_item (wire_encode m)"
proof -
  have "wire_decode (wire_protocol m) (wire_encode m) = Some m \<and> params_ok (wire_encode m)"
    using assms chain_sync_wire block_fetch_wire tx_submission_wire keep_alive_wire peer_sharing_wire
    by (cases m) (simp_all add: wire_decode_def received_def)
  then show "wire_decode (wire_protocol m) (wire_encode m) = Some m" "whole_item (wire_encode m)"
    by (simp_all add: whole_item_def params_ok_def skip_item_Ok)
qed

lemma wire_protocol_not_handshake: "wire_protocol m \<noteq> AcceptedMiniProtocol.Handshake"
  by (cases m) simp_all

lemma idle_reads_nothing:
  assumes "idle_receiver c"
  shows "concat chunks = [] \<Longrightarrow> run_session (Connected c) (map Inbound chunks) = Ok ([], Connected c)"
proof (induction chunks)
  case (Cons chunk chunks)
  have "framed [] [] []" by (simp add: framed_Nil decode_frame_def HEADER_LEN_def)
  moreover have "c\<lparr>cs_buffer := \<lparr>fb_pending = []\<rparr>, cs_proto_buffers := cs_proto_buffers c\<rparr> = c"
    using assms by (cases "cs_buffer c") (simp add: idle_receiver_def)
  ultimately have "step (Connected c) (Inbound []) = Ok ([], Connected c)"
    using step_inbound_dispatch [of c "[]" "[]" "[]"] assms by (simp add: idle_receiver_def)
  with Cons show ?case by simp
qed simp

lemma run_session_append:
  "run_session s (es @ es') = rbind (run_session s es) (\<lambda>(effects, s).
     rbind (run_session s es') (\<lambda>(more, s). Ok (effects @ more, s)))"
proof (induction es arbitrary: s)
  case Nil
  show ?case by (cases "run_session s es'") auto
next
  case (Cons e es)
  then show ?case by (auto simp: rbind_assoc split_def intro!: rbind_cong_Ok)
qed

definition send_wire :: "MuxMode \<Rightarrow> u32 \<Rightarrow> WireMessage \<Rightarrow> ByteChunkIn" where
  "send_wire mode timestamp m = OutboundFrame (wire_protocol m) (wire_encode m) mode timestamp"

lemma one_message:
  assumes "wire_ok m" and "length (wire_encode m) \<le> MAX_OUTBOUND_PAYLOAD_BYTES" and "idle_receiver receiver"
  obtains frames sender' where "step (Connected sender) (send_wire mode timestamp m) = Ok ([SendBytes frames], Connected sender')"
    and "run_session (Connected receiver) [Inbound frames]
      = Ok ([DeliverPeerFrame (wire_protocol m) (wire_encode m)], Connected receiver)"
proof -
  have "get_buffer (cs_proto_buffers receiver) (wire_protocol m) = []" "fb_pending (cs_buffer receiver) = []"
    using assms(3) by (simp_all add: idle_receiver_def)
  from transport_roundtrip [OF wire_roundtrip(2) [OF assms(1)] assms(2) wire_protocol_not_handshake this(2,1)]
  obtain frames sender' where "step (Connected sender) (send_wire mode timestamp m) = Ok ([SendBytes frames], Connected sender')"
    "\<forall>chunks. concat chunks = frames \<longrightarrow> run_session (Connected receiver) (map Inbound chunks)
      = Ok ([DeliverPeerFrame (wire_protocol m) (wire_encode m)], Connected receiver)"
    unfolding send_wire_def by blast
  moreover from this(2) have "run_session (Connected receiver) [Inbound frames]
      = Ok ([DeliverPeerFrame (wire_protocol m) (wire_encode m)], Connected receiver)"
    by (metis append_Nil2 concat.simps list.simps(8) list.simps(9))
  ultimately show thesis using that by blast
qed

lemma messages_one_by_one:
  assumes "idle_receiver receiver"
    and "\<forall>m\<in>set ms. wire_ok m \<and> length (wire_encode m) \<le> MAX_OUTBOUND_PAYLOAD_BYTES"
  shows "\<exists>frames sender'. run_session (Connected sender) (map (send_wire mode timestamp) ms)
        = Ok (map SendBytes frames, Connected sender')
      \<and> run_session (Connected receiver) (map Inbound frames)
        = Ok (map (\<lambda>m. DeliverPeerFrame (wire_protocol m) (wire_encode m)) ms, Connected receiver)"
  using assms(2)
proof (induction ms arbitrary: sender)
  case Nil
  show ?case by (intro exI [of _ "[]"]) simp
next
  case (Cons m ms)
  then have m: "wire_ok m" "length (wire_encode m) \<le> MAX_OUTBOUND_PAYLOAD_BYTES" by simp_all
  from one_message [OF m assms(1), of sender mode timestamp] obtain frames sender1 where
    1: "step (Connected sender) (send_wire mode timestamp m) = Ok ([SendBytes frames], Connected sender1)"
    "run_session (Connected receiver) [Inbound frames]
      = Ok ([DeliverPeerFrame (wire_protocol m) (wire_encode m)], Connected receiver)" by blast
  from Cons.IH [of sender1] Cons.prems obtain rest sender' where
    2: "run_session (Connected sender1) (map (send_wire mode timestamp) ms) = Ok (map SendBytes rest, Connected sender')"
    "run_session (Connected receiver) (map Inbound rest)
      = Ok (map (\<lambda>m. DeliverPeerFrame (wire_protocol m) (wire_encode m)) ms, Connected receiver)" by auto
  from 1 2 run_session_append [of "Connected receiver" "[Inbound frames]" "map Inbound rest"] show ?case
    by (intro exI [of _ "frames # rest"] exI [of _ sender']) simp
qed

text \<open>
  C7. The network stack is transparent: when a connected session sends a list of well-formed
  node-to-node messages, each at most 16 MiB when encoded, a connected session that is between
  messages delivers exactly these messages, in order, one delivery each, on their protocols,
  however the network cuts the byte stream into chunks; every delivered payload decodes to the
  message that was sent, and the receiving session is as before.
\<close>

theorem wire_transparent:
  assumes "idle_receiver receiver"
    and "\<forall>m\<in>set ms. wire_ok m \<and> length (wire_encode m) \<le> MAX_OUTBOUND_PAYLOAD_BYTES"
  shows "\<exists>frames sender'. run_session (Connected sender) (map (send_wire mode timestamp) ms)
        = Ok (map SendBytes frames, Connected sender')
      \<and> (\<forall>chunks. concat chunks = concat frames \<longrightarrow>
          run_session (Connected receiver) (map Inbound chunks)
            = Ok (map (\<lambda>m. DeliverPeerFrame (wire_protocol m) (wire_encode m)) ms, Connected receiver))
      \<and> (\<forall>m\<in>set ms. wire_decode (wire_protocol m) (wire_encode m) = Some m)"
proof -
  obtain frames sender' where f: "run_session (Connected sender) (map (send_wire mode timestamp) ms)
      = Ok (map SendBytes frames, Connected sender')"
    "run_session (Connected receiver) (map Inbound frames)
      = Ok (map (\<lambda>m. DeliverPeerFrame (wire_protocol m) (wire_encode m)) ms, Connected receiver)"
    using messages_one_by_one [OF assms, of sender mode timestamp] by blast
  have "run_session (Connected receiver) (map Inbound chunks)
      = Ok (map (\<lambda>m. DeliverPeerFrame (wire_protocol m) (wire_encode m)) ms, Connected receiver)"
    if c: "concat chunks = concat frames" for chunks
  proof (cases "chunks = [] \<or> frames = []")
    case True
    then have "concat chunks = []" "concat frames = []" using c by auto
    then show ?thesis using f(2) idle_reads_nothing [OF assms(1)] by simp
  next
    case False
    then show ?thesis
      using c f(2) run_inbound_concat [of receiver "hd chunks" "tl chunks"] run_inbound_concat [of receiver "hd frames" "tl frames"]
      by simp
  qed
  with f(1) assms(2) wire_roundtrip(1) show ?thesis by blast
qed

theorem wire_transparent_witness:
  "\<exists>frames sender'. run_session (Connected (ConnectedState_new 14 (n2n 1)))
        (map (send_wire MuxMode.Initiator 0) [KeepAliveWire (KeepAliveMessage.KeepAlive 7), ChainSyncWire RequestNext])
        = Ok (map SendBytes frames, Connected sender')
      \<and> (\<forall>chunks. concat chunks = concat frames \<longrightarrow>
          run_session (Connected (ConnectedState_new 14 (n2n 1))) (map Inbound chunks)
            = Ok ([DeliverPeerFrame AcceptedMiniProtocol.KeepAlive (wire_encode (KeepAliveWire (KeepAliveMessage.KeepAlive 7))),
                   DeliverPeerFrame AcceptedMiniProtocol.ChainSync (wire_encode (ChainSyncWire RequestNext))],
                  Connected (ConnectedState_new 14 (n2n 1))))"
proof -
  let ?ms = "[KeepAliveWire (KeepAliveMessage.KeepAlive 7), ChainSyncWire RequestNext]"
  have "get_buffer ProtoBuffers_new p = []" for p by (cases p) (simp_all add: ProtoBuffers_new_def)
  then have idle: "idle_receiver (ConnectedState_new 14 (n2n 1))"
    by (simp add: idle_receiver_def ConnectedState_new_def FrameBuffer_new_def)
  have "\<forall>m\<in>set ?ms. wire_ok m \<and> length (wire_encode m) \<le> MAX_OUTBOUND_PAYLOAD_BYTES"
    by (simp add: MAX_OUTBOUND_PAYLOAD_BYTES_def encode_keep_alive_message_def encode_chain_sync_message_def
        encode_array_header_def encode_u64_def write_uint_canonical_def write_array_header_def write_argument_def
        canonical_width_def Let_def)
  from wire_transparent [OF idle this, of "ConnectedState_new 14 (n2n 1)" MuxMode.Initiator 0] show ?thesis by auto
qed

end
