(* ===== verification/Ledger_Types.thy ===== *)
theory Ledger_Types
  imports BTree_Map Cbor
begin

text \<open>
  Data shared by the ledger crate: transaction inputs and coins (\<^verbatim>\<open>ade_types/src/tx.rs\<close>),
  staking credentials and certificates' owners (\<^verbatim>\<open>ade_types/src/shelley/cert.rs\<close>) and the
  closed error type (\<^verbatim>\<open>ade_ledger/src/error.rs\<close>). \<open>LedgerError\<close> has the constructors that
  the modelled rules return; the error structs with one or two fields are the arguments of
  the constructors. \<open>TxIn\<close> and \<open>StakeCredential\<close> are map keys, so they carry the order that
  the source derives.
\<close>

section \<open>Keys and amounts\<close>

type_synonym Coin = u64
type_synonym PoolId = Hash28
type_synonym AssetName = bytes

datatype TxIn = TxIn (tx_hash: Hash32) (tx_index: u16)

instantiation TxIn :: linorder
begin

definition less_eq_TxIn :: "TxIn \<Rightarrow> TxIn \<Rightarrow> bool" where
  "less_eq_TxIn a b \<longleftrightarrow> (tx_hash a, tx_index a) \<le> (tx_hash b, tx_index b)"

definition less_TxIn :: "TxIn \<Rightarrow> TxIn \<Rightarrow> bool" where
  "less_TxIn a b \<longleftrightarrow> (tx_hash a, tx_index a) < (tx_hash b, tx_index b)"

instance
proof
  show "x = y" if "x \<le> y" "y \<le> x" for x y :: TxIn
    using that unfolding less_eq_TxIn_def by (metis TxIn.expand order.antisym prod.inject)
qed (auto simp: less_eq_TxIn_def less_TxIn_def)

end

datatype StakeCredential = KeyHash Hash28 | ScriptHash Hash28

fun cred_hash :: "StakeCredential \<Rightarrow> Hash28" where
  "cred_hash (KeyHash h) = h"
| "cred_hash (ScriptHash h) = h"

fun cred_rank :: "StakeCredential \<Rightarrow> nat" where
  "cred_rank (KeyHash h) = 0"
| "cred_rank (ScriptHash h) = 1"

lemma cred_eqI: "cred_rank a = cred_rank b \<Longrightarrow> cred_hash a = cred_hash b \<Longrightarrow> a = b"
  by (cases a; cases b) simp_all

instantiation StakeCredential :: linorder
begin

definition less_eq_StakeCredential :: "StakeCredential \<Rightarrow> StakeCredential \<Rightarrow> bool" where
  "less_eq_StakeCredential a b \<longleftrightarrow> (cred_rank a, cred_hash a) \<le> (cred_rank b, cred_hash b)"

definition less_StakeCredential :: "StakeCredential \<Rightarrow> StakeCredential \<Rightarrow> bool" where
  "less_StakeCredential a b \<longleftrightarrow> (cred_rank a, cred_hash a) < (cred_rank b, cred_hash b)"

instance
proof
  show "x = y" if "x \<le> y" "y \<le> x" for x y :: StakeCredential
    using that unfolding less_eq_StakeCredential_def
    by (metis cred_eqI order.antisym prod.inject)
qed (auto simp: less_eq_StakeCredential_def less_StakeCredential_def)

end

section \<open>Errors\<close>

datatype WitnessAlgorithm = Ed25519 | Ed25519Extended | Bootstrap

datatype CertFailureReason =
    StakeAlreadyRegistered
  | StakeNotRegistered
  | PoolAlreadyRegistered
  | PoolNotRegistered
  | InvalidPoolParams
  | DRepNotRegistered

datatype EpochFailureReason = RewardOverflow | InvalidParameterUpdate | SnapshotRotationFailure

datatype DecodingFailureReason = InvalidStructure | UnexpectedType | TrailingInput

datatype ValidationEnvironmentError =
    MissingConwayDepositParams
  | MissingDRepActivityParam
  | DRepActivityOverflow
  | ReducedCertStateNotValidatable

datatype StructuralFailureReason =
    MissingCollateral
  | CollateralReturnWithoutCollateral
  | TotalCollateralWithoutCollateral
  | CollateralInPreAlonzoEra
  | ReferenceInputsInPreBabbageEra
  | GovernanceFieldInPreConwayEra
  | ProposalFieldInPreConwayEra
  | DonationInPreConwayEra
  | TreasuryInPreConwayEra
  | EmptyInputs
  | EmptyOutputs
  | ZeroFee
  | ZeroCoinOutput

datatype LedgerError =
    InputNotFound TxIn
  | DuplicateInput TxIn
  | Conservation Coin Coin
  | InsufficientFee Coin Coin
  | AssetUnderflow Hash28 bytes
  | MissingWitness Hash28 WitnessAlgorithm
  | InvalidWitness Hash28 WitnessAlgorithm
  | ExpiredTransaction SlotNo SlotNo
  | TransactionNotYetValid SlotNo SlotNo
  | MintWithoutPolicy Hash28
  | InvalidCertificate u16 CertFailureReason
  | EraInvalidCertificate u16 u64
  | LegacyUnregistrationRefundUnresolved
  | EpochTransition EpochNo CardanoEra EpochFailureReason
  | FullBoundaryStateRequired SlotNo
  | BadInputs "TxIn list"
  | NoCollateralInputs
  | InsufficientCollateral int u64 u16 u64
  | CollateralContainsNonADA
  | IncorrectTotalCollateral int u64
  | Decoding usize DecodingFailureReason
  | ValidationEnvironment ValidationEnvironmentError
  | UnsupportedConwayMinUtxoRule Coin
  | NonDisjointRefInputs "TxIn list"
  | MissingRequiredDatums "Hash32 list"
  | MissingRequiredSigners "Hash28 list"
  | WrongNetworkInTxBody u8 u8
  | WrongNetworkInOutput u8 u8
  | ExUnitsTooBigUTxO int int int int
  | StructuralViolation CardanoEra StructuralFailureReason

text \<open>\<^verbatim>\<open>From<CodecError> for LedgerError\<close>: the offset of the failure with a coarser reason.\<close>

fun from_codec_error :: "CodecError \<Rightarrow> LedgerError" where
  "from_codec_error (InvalidCborStructure off d) = Decoding off InvalidStructure"
| "from_codec_error (UnexpectedCborType off e a) = Decoding off UnexpectedType"
| "from_codec_error (TrailingBytes consumed rest) = Decoding consumed TrailingInput"
| "from_codec_error (UnexpectedEof off n) = Decoding off InvalidStructure"
| "from_codec_error (CodecError.UnknownEraTag t) = Decoding 0 UnexpectedType"
| "from_codec_error (UnknownCertTag t off) = Decoding off UnexpectedType"
| "from_codec_error (InvalidLength off d) = Decoding off InvalidStructure"
| "from_codec_error (DuplicateMapKey off) = Decoding off InvalidStructure"

end
