(* ===== verification/Delegation.thy ===== *)
theory Delegation
  imports Ledger_Types
begin

text \<open>
  Stake and pool certificates: \<^verbatim>\<open>ade_ledger/src/delegation.rs\<close> on the certificate types of
  \<^verbatim>\<open>ade_types/src/shelley/cert.rs\<close>. The certificate state keeps registrations with their
  deposits, delegations, reward balances, the active pools, the staged re-registrations and the
  retirement schedule. Shown: the invariant that ties the six maps together, the life of a pool
  over an epoch (updates wait for the boundary, retirement happens at its epoch), and that
  reaping leaves no delegation behind.
\<close>

section \<open>Certificates\<close>

record PoolRegistrationCert =
  prc_pool_id :: PoolId
  prc_vrf_hash :: Hash32
  prc_pledge :: Coin
  prc_cost :: Coin
  prc_margin :: "u64 \<times> u64"
  prc_reward_account :: bytes
  prc_owners :: "Hash28 list"

datatype MIRPot = Reserves | Treasury

record MIRCert =
  mir_pot :: MIRPot
  mir_rewards :: "(StakeCredential, Coin) btree_map"

datatype Certificate =
    StakeRegistration StakeCredential
  | StakeDeregistration StakeCredential
  | StakeDelegation StakeCredential PoolId
  | PoolRegistration PoolRegistrationCert
  | PoolRetirement PoolId EpochNo
  | GenesisKeyDelegation Hash28 Hash28 Hash32
  | MIRTransfer MIRCert

section \<open>State\<close>

record PoolParams =
  pp_pool_id :: PoolId
  pp_vrf_hash :: Hash32
  pp_pledge :: Coin
  pp_cost :: Coin
  pp_margin :: "u64 \<times> u64"
  pp_reward_account :: bytes
  pp_owners :: "Hash28 list"

record DelegationState =
  registrations :: "(StakeCredential, Coin) btree_map"
  delegations :: "(StakeCredential, PoolId) btree_map"
  rewards :: "(StakeCredential, Coin) btree_map"

record PoolState =
  pools :: "(PoolId, PoolParams) btree_map"
  future_pools :: "(PoolId, PoolParams) btree_map"
  retiring :: "(PoolId, EpochNo) btree_map"

record CertState =
  delegation :: DelegationState
  pool :: PoolState

definition DelegationState_new :: DelegationState where
  "DelegationState_new = \<lparr>registrations = bt_empty, delegations = bt_empty, rewards = bt_empty\<rparr>"

definition PoolState_new :: PoolState where
  "PoolState_new = \<lparr>pools = bt_empty, future_pools = bt_empty, retiring = bt_empty\<rparr>"

definition CertState_new :: CertState where
  "CertState_new = \<lparr>delegation = DelegationState_new, pool = PoolState_new\<rparr>"

section \<open>Applying certificates\<close>

definition apply_stake_registration ::
  "CertState \<Rightarrow> StakeCredential \<Rightarrow> Coin \<Rightarrow> u16 \<Rightarrow> (CertState, LedgerError) result" where
  "apply_stake_registration state cred key_deposit cert_index =
     (let d = delegation state in
      if bt_contains_key (registrations d) cred
      then Err (InvalidCertificate cert_index StakeAlreadyRegistered)
      else Ok (state\<lparr>delegation := d\<lparr>registrations := bt_insert cred key_deposit (registrations d),
                                     rewards := bt_insert cred 0 (rewards d)\<rparr>\<rparr>))"

definition apply_stake_deregistration ::
  "CertState \<Rightarrow> StakeCredential \<Rightarrow> u16 \<Rightarrow> (CertState, LedgerError) result" where
  "apply_stake_deregistration state cred cert_index =
     (let d = delegation state in
      if \<not> bt_contains_key (registrations d) cred
      then Err (InvalidCertificate cert_index StakeNotRegistered)
      else Ok (state\<lparr>delegation := d\<lparr>registrations := bt_remove cred (registrations d),
                                     delegations := bt_remove cred (delegations d),
                                     rewards := bt_remove cred (rewards d)\<rparr>\<rparr>))"

definition apply_stake_delegation ::
  "CertState \<Rightarrow> StakeCredential \<Rightarrow> PoolId \<Rightarrow> u16 \<Rightarrow> (CertState, LedgerError) result" where
  "apply_stake_delegation state cred pool_id cert_index =
     (let d = delegation state in
      if \<not> bt_contains_key (registrations d) cred
      then Err (InvalidCertificate cert_index StakeNotRegistered)
      else if \<not> bt_contains_key (pools (pool state)) pool_id
      then Err (InvalidCertificate cert_index PoolNotRegistered)
      else Ok (state\<lparr>delegation := d\<lparr>delegations := bt_insert cred pool_id (delegations d)\<rparr>\<rparr>))"

definition params_of :: "PoolRegistrationCert \<Rightarrow> PoolParams" where
  "params_of c = \<lparr>pp_pool_id = prc_pool_id c, pp_vrf_hash = prc_vrf_hash c, pp_pledge = prc_pledge c,
     pp_cost = prc_cost c, pp_margin = prc_margin c, pp_reward_account = prc_reward_account c,
     pp_owners = prc_owners c\<rparr>"

definition apply_pool_registration ::
  "CertState \<Rightarrow> PoolRegistrationCert \<Rightarrow> u16 \<Rightarrow> (CertState, LedgerError) result" where
  "apply_pool_registration state pool_cert cert_index =
     (let p = pool state;
          id = prc_pool_id pool_cert;
          p = (if bt_contains_key (pools p) id
               then p\<lparr>future_pools := bt_insert id (params_of pool_cert) (future_pools p)\<rparr>
               else p\<lparr>pools := bt_insert id (params_of pool_cert) (pools p)\<rparr>)
      in Ok (state\<lparr>pool := p\<lparr>retiring := bt_remove id (retiring p)\<rparr>\<rparr>))"

definition apply_pool_retirement ::
  "CertState \<Rightarrow> PoolId \<Rightarrow> EpochNo \<Rightarrow> u16 \<Rightarrow> (CertState, LedgerError) result" where
  "apply_pool_retirement state pool_id epoch cert_index =
     (let p = pool state in
      if \<not> bt_contains_key (pools p) pool_id
      then Err (InvalidCertificate cert_index PoolNotRegistered)
      else Ok (state\<lparr>pool := p\<lparr>retiring := bt_insert pool_id epoch (retiring p)\<rparr>\<rparr>))"

fun apply_cert :: "CertState \<Rightarrow> Certificate \<Rightarrow> Coin \<Rightarrow> u16 \<Rightarrow> (CertState, LedgerError) result" where
  "apply_cert s (StakeRegistration cred) key_deposit i = apply_stake_registration s cred key_deposit i"
| "apply_cert s (StakeDeregistration cred) key_deposit i = apply_stake_deregistration s cred i"
| "apply_cert s (StakeDelegation cred pool_id) key_deposit i = apply_stake_delegation s cred pool_id i"
| "apply_cert s (PoolRegistration pool_cert) key_deposit i = apply_pool_registration s pool_cert i"
| "apply_cert s (PoolRetirement pool_id epoch) key_deposit i = apply_pool_retirement s pool_id epoch i"
| "apply_cert s (GenesisKeyDelegation _ _ _) key_deposit i = Ok s"
| "apply_cert s (MIRTransfer _) key_deposit i = Ok s"

text \<open>\<^verbatim>\<open>for (i, cert) in certs.iter().enumerate()\<close>: each certificate with its index, the state threaded
  through, up to the first error.\<close>

fun fold_certs :: "(nat \<Rightarrow> 's \<Rightarrow> 'c \<Rightarrow> ('s, 'e) result) \<Rightarrow> nat \<Rightarrow> 's \<Rightarrow> 'c list \<Rightarrow> ('s, 'e) result" where
  "fold_certs f i s [] = Ok s"
| "fold_certs f i s (cert # certs) = rbind (f i s cert) (\<lambda>s. fold_certs f (Suc i) s certs)"

definition apply_certs :: "CertState \<Rightarrow> Certificate list \<Rightarrow> Coin \<Rightarrow> (CertState, LedgerError) result" where
  "apply_certs s certs key_deposit =
     fold_certs (\<lambda>i s cert. apply_cert s cert key_deposit (word_of_nat i)) 0 s certs"

section \<open>The epoch boundary\<close>

definition adopt_pool ::
  "(PoolId, PoolParams) btree_map \<Rightarrow> PoolId \<times> PoolParams \<Rightarrow> (PoolId, PoolParams) btree_map" where
  "adopt_pool ps = (\<lambda>(id, params). if bt_contains_key ps id then bt_insert id params ps else ps)"

definition reap_pool :: "PoolState \<Rightarrow> PoolId \<Rightarrow> PoolState" where
  "reap_pool p pid = p\<lparr>pools := bt_remove pid (pools p), retiring := bt_remove pid (retiring p)\<rparr>"

definition apply_pool_reap :: "CertState \<Rightarrow> EpochNo \<Rightarrow> CertState" where
  "apply_pool_reap cert entered_epoch =
     (let p = pool cert;
          p = p\<lparr>pools := foldl adopt_pool (pools p) (future_pools p), future_pools := bt_empty\<rparr>;
          retired = map fst (filter (\<lambda>(_, e). e = entered_epoch) (retiring p));
          d = delegation cert;
          d = (if retired \<noteq> []
               then d\<lparr>delegations := bt_retain (\<lambda>_ id. id \<notin> set retired) (delegations d)\<rparr>
               else d)
      in cert\<lparr>delegation := d, pool := foldl reap_pool p retired\<rparr>)"

datatype AggregateError = StakeOverflow

fun apply_bootstrap_reward_deltas ::
  "DelegationState \<Rightarrow> (StakeCredential, Coin) btree_map \<Rightarrow> (DelegationState, AggregateError) result" where
  "apply_bootstrap_reward_deltas d [] = Ok d"
| "apply_bootstrap_reward_deltas d ((cred, coin) # delta) =
     rbind (ok_or StakeOverflow
             (checked_add (case bt_get (rewards d) cred of Some c \<Rightarrow> c | None \<Rightarrow> 0) coin))
       (\<lambda>c. apply_bootstrap_reward_deltas (d\<lparr>rewards := bt_insert cred c (rewards d)\<rparr>) delta)"

section \<open>The invariant\<close>

lemmas bt_maps = bt_wf_insert bt_get_insert bt_wf_remove bt_get_remove bt_wf_retain bt_get_retain
  bt_wf_empty bt_get_empty

text \<open>
  Delegators are registered and delegate to active pools, every registered credential has a
  reward balance, only active pools are staged for an update or scheduled for retirement, and
  pools are filed under their own identifier.
\<close>

definition cert_state_wf :: "CertState \<Rightarrow> bool" where
  "cert_state_wf s \<longleftrightarrow>
     bt_wf (registrations (delegation s)) \<and> bt_wf (delegations (delegation s)) \<and> bt_wf (rewards (delegation s)) \<and>
     bt_wf (pools (pool s)) \<and> bt_wf (future_pools (pool s)) \<and> bt_wf (retiring (pool s))"

definition cert_state_ok :: "CertState \<Rightarrow> bool" where
  "cert_state_ok s \<longleftrightarrow> cert_state_wf s \<and>
     (\<forall>c i. bt_get (delegations (delegation s)) c = Some i \<longrightarrow>
        bt_get (registrations (delegation s)) c \<noteq> None \<and> bt_get (pools (pool s)) i \<noteq> None) \<and>
     (\<forall>c. bt_get (registrations (delegation s)) c \<noteq> None \<longrightarrow> bt_get (rewards (delegation s)) c \<noteq> None) \<and>
     (\<forall>i. bt_get (future_pools (pool s)) i \<noteq> None \<or> bt_get (retiring (pool s)) i \<noteq> None \<longrightarrow>
        bt_get (pools (pool s)) i \<noteq> None) \<and>
     (\<forall>i q. bt_get (pools (pool s)) i = Some q \<or> bt_get (future_pools (pool s)) i = Some q \<longrightarrow> pp_pool_id q = i)"

text \<open>The updates of a map, as updates of its lookup function.\<close>

lemma bt_get_upd:
  assumes "bt_wf m"
  shows "bt_get (bt_insert k v m) = (bt_get m)(k \<mapsto> v)" "bt_get (bt_remove k m) = (bt_get m)(k := None)"
  using assms by (auto simp: fun_eq_iff bt_get_insert bt_get_remove)

lemmas cert_defs = apply_stake_registration_def apply_stake_deregistration_def apply_stake_delegation_def
  apply_pool_registration_def apply_pool_retirement_def Let_def

text \<open>A certificate rule keeps an invariant of its state; so does a whole list of certificates.\<close>

locale certificate_rule =
  fixes step :: "nat \<Rightarrow> 's \<Rightarrow> 'c \<Rightarrow> ('s, 'e) result"
    and inv :: "'s \<Rightarrow> bool"
  assumes keeps: "inv s \<Longrightarrow> step i s c = Ok s' \<Longrightarrow> inv s'"
begin

lemma fold_keeps: "inv s \<Longrightarrow> fold_certs step i s cs = Ok s' \<Longrightarrow> inv s'"
  by (induction cs arbitrary: i s) (auto simp: result_simps dest: keeps)

end

lemmas cert_ok_simps = cert_state_ok_def cert_state_wf_def cert_defs bt_wf_insert bt_wf_remove bt_get_upd
  bt_contains_key_def params_of_def

lemma ok_registration: "cert_state_ok s \<Longrightarrow> apply_stake_registration s cred dep i = Ok s' \<Longrightarrow> cert_state_ok s'"
  by (auto simp: cert_ok_simps split: if_splits)

lemma ok_deregistration: "cert_state_ok s \<Longrightarrow> apply_stake_deregistration s cred i = Ok s' \<Longrightarrow> cert_state_ok s'"
  by (auto simp: cert_ok_simps split: if_splits)

lemma ok_delegation: "cert_state_ok s \<Longrightarrow> apply_stake_delegation s cred p i = Ok s' \<Longrightarrow> cert_state_ok s'"
  by (auto simp: cert_ok_simps split: if_splits)

lemma ok_pool_registration: "cert_state_ok s \<Longrightarrow> apply_pool_registration s c i = Ok s' \<Longrightarrow> cert_state_ok s'"
  by (auto simp: cert_ok_simps split: if_splits)

lemma ok_pool_retirement: "cert_state_ok s \<Longrightarrow> apply_pool_retirement s p e i = Ok s' \<Longrightarrow> cert_state_ok s'"
  by (auto simp: cert_ok_simps split: if_splits)

lemmas ok_rules = ok_registration ok_deregistration ok_delegation ok_pool_registration ok_pool_retirement

lemma apply_cert_ok: "cert_state_ok s \<Longrightarrow> apply_cert s c kd i = Ok s' \<Longrightarrow> cert_state_ok s'"
  by (cases c) (auto dest: ok_rules)

interpretation shelley: certificate_rule "\<lambda>i s cert. apply_cert s cert key_deposit (word_of_nat i)" cert_state_ok
  for key_deposit
  by unfold_locales (rule apply_cert_ok)

section \<open>Reaping\<close>

lemma bt_get_adopt:
  assumes "bt_wf ps" "bt_wf fs"
  shows "bt_wf (foldl adopt_pool ps fs)"
    and "bt_get (foldl adopt_pool ps fs) k =
      (case bt_get ps k of None \<Rightarrow> None | Some q \<Rightarrow> Some (case bt_get fs k of None \<Rightarrow> q | Some q' \<Rightarrow> q'))"
proof -
  have "bt_wf (foldl adopt_pool ps fs) \<and> bt_get (foldl adopt_pool ps fs) k =
      (case bt_get ps k of None \<Rightarrow> None | Some q \<Rightarrow> Some (case bt_get fs k of None \<Rightarrow> q | Some q' \<Rightarrow> q'))"
    using assms
  proof (induction fs arbitrary: ps)
    case (Cons f fs)
    obtain i q where f: "f = (i, q)" by (cases f)
    have fresh: "bt_get fs i = None" using Cons.prems(2) by (force simp: f bt_wf_Cons bt_get_None)
    have "bt_wf (adopt_pool ps f)" "bt_wf fs"
      using Cons.prems by (auto simp: adopt_pool_def f bt_wf_insert bt_wf_Cons)
    note IH = Cons.IH [OF this]
    show ?case
      using IH Cons.prems fresh
      by (auto simp: f adopt_pool_def bt_get_Cons bt_get_upd bt_contains_key_def split: option.splits if_splits)
  qed (simp add: bt_get_Nil split: option.splits)
  then show "bt_wf (foldl adopt_pool ps fs)"
    and "bt_get (foldl adopt_pool ps fs) k =
      (case bt_get ps k of None \<Rightarrow> None | Some q \<Rightarrow> Some (case bt_get fs k of None \<Rightarrow> q | Some q' \<Rightarrow> q'))" by auto
qed

lemma reap_pools:
  assumes "bt_wf (pools p)" "bt_wf (retiring p)"
  shows "bt_wf (pools (foldl reap_pool p ids))" "bt_wf (retiring (foldl reap_pool p ids))"
    "future_pools (foldl reap_pool p ids) = future_pools p"
    "bt_get (pools (foldl reap_pool p ids)) k = (if k \<in> set ids then None else bt_get (pools p) k)"
    "bt_get (retiring (foldl reap_pool p ids)) k = (if k \<in> set ids then None else bt_get (retiring p) k)"
  using assms by (induction ids arbitrary: p) (auto simp: reap_pool_def bt_wf_remove bt_get_remove)

text \<open>The state after the boundary into an epoch, lookup by lookup.\<close>

lemma reap_eq:
  fixes s :: CertState and e :: EpochNo
  assumes "cert_state_wf s"
  defines "p \<equiv> pool s" and "p' \<equiv> pool (apply_pool_reap s e)"
  defines "reaped \<equiv> \<lambda>k. bt_get (retiring p) k = Some e"
  shows "cert_state_wf (apply_pool_reap s e)"
    "bt_get (pools p') k = (if reaped k then None else
       case bt_get (pools p) k of None \<Rightarrow> None | Some q \<Rightarrow> Some (case bt_get (future_pools p) k of None \<Rightarrow> q | Some q' \<Rightarrow> q'))"
    "future_pools p' = bt_empty"
    "bt_get (retiring p') k = (if reaped k then None else bt_get (retiring p) k)"
    "bt_get (delegations (delegation (apply_pool_reap s e))) c =
       (case bt_get (delegations (delegation s)) c of None \<Rightarrow> None | Some i \<Rightarrow> if reaped i then None else Some i)"
    "registrations (delegation (apply_pool_reap s e)) = registrations (delegation s)"
    "rewards (delegation (apply_pool_reap s e)) = rewards (delegation s)"
proof -
  let ?ids = "map fst (filter (\<lambda>(_, e'). e' = e) (retiring p))"
  have wf: "bt_wf (pools p)" "bt_wf (future_pools p)" "bt_wf (retiring p)" "bt_wf (delegations (delegation s))"
    using assms(1) by (simp_all add: cert_state_wf_def p_def)
  have ids: "k \<in> set ?ids \<longleftrightarrow> reaped k" for k
    using bt_get_Some [OF wf(3)] by (force simp: reaped_def)
  let ?q = "p\<lparr>pools := foldl adopt_pool (pools p) (future_pools p), future_pools := bt_empty\<rparr>"
  have q: "bt_wf (pools ?q)" "bt_wf (retiring ?q)" using bt_get_adopt(1) [OF wf(1,2)] wf(3) by simp_all
  have p': "p' = foldl reap_pool ?q ?ids" by (simp add: p'_def p_def apply_pool_reap_def Let_def)
  note reap_pools [OF q, of ?ids, folded p']
  note r = this [unfolded ids]
  have d: "delegations (delegation (apply_pool_reap s e)) = bt_retain (\<lambda>_ i. \<not> reaped i) (delegations (delegation s))"
  proof (cases "?ids = []")
    case True
    then have "\<not> reaped k" for k using ids [of k] by simp
    then show ?thesis using True by (simp add: apply_pool_reap_def Let_def p_def bt_retain_def)
  next
    case False
    then show ?thesis
      using ids by (simp add: apply_pool_reap_def Let_def p_def)
  qed
  show "bt_get (pools p') k = (if reaped k then None else
       case bt_get (pools p) k of None \<Rightarrow> None | Some q \<Rightarrow> Some (case bt_get (future_pools p) k of None \<Rightarrow> q | Some q' \<Rightarrow> q'))"
    by (simp add: r bt_get_adopt(2) [OF wf(1,2)])
  show "future_pools p' = bt_empty" "bt_get (retiring p') k = (if reaped k then None else bt_get (retiring p) k)"
    by (simp_all add: r)
  show "bt_get (delegations (delegation (apply_pool_reap s e))) c =
       (case bt_get (delegations (delegation s)) c of None \<Rightarrow> None | Some i \<Rightarrow> if reaped i then None else Some i)"
    by (auto simp: d bt_get_retain wf split: option.splits)
  show rest: "registrations (delegation (apply_pool_reap s e)) = registrations (delegation s)"
    "rewards (delegation (apply_pool_reap s e)) = rewards (delegation s)"
    by (simp_all add: apply_pool_reap_def Let_def)
  show "cert_state_wf (apply_pool_reap s e)"
    using assms(1) r(1-3) by (simp add: cert_state_wf_def d rest bt_wf_retain p'_def [symmetric] bt_wf_empty)
qed

lemma ok_reap: "cert_state_ok s \<Longrightarrow> cert_state_ok (apply_pool_reap s e)"
  using reap_eq [of s e]
  by (auto simp: cert_state_ok_def bt_get_empty split: option.splits if_splits) (metis option.distinct(1))

lemma bootstrap_ok:
  "apply_bootstrap_reward_deltas d delta = Ok d' \<Longrightarrow> bt_wf (rewards d) \<Longrightarrow>
   bt_wf (rewards d') \<and> registrations d' = registrations d \<and> delegations d' = delegations d \<and>
   (\<forall>c. bt_get (rewards d) c \<noteq> None \<longrightarrow> bt_get (rewards d') c \<noteq> None)"
proof (induction d delta rule: apply_bootstrap_reward_deltas.induct)
  case (2 d cred coin delta)
  from "2.prems"(1) obtain c where c: "apply_bootstrap_reward_deltas (d\<lparr>rewards := bt_insert cred c (rewards d)\<rparr>) delta = Ok d'"
    and s: "checked_add (case bt_get (rewards d) cred of Some c \<Rightarrow> c | None \<Rightarrow> 0) coin = Some c"
    by (auto simp: result_simps)
  from "2.IH" [OF _ c] s "2.prems"(2) show ?case by (auto simp: bt_wf_insert bt_get_insert)
qed simp

text \<open>Reward deltas are added exactly, credential by credential, and nothing else changes.\<close>

lemma bootstrap_exact:
  assumes "apply_bootstrap_reward_deltas d delta = Ok d'" "bt_wf (rewards d)" "bt_wf delta"
  shows "(case bt_get (rewards d') c of Some v \<Rightarrow> unat v | None \<Rightarrow> 0) =
    (case bt_get (rewards d) c of Some v \<Rightarrow> unat v | None \<Rightarrow> 0) +
    (case bt_get delta c of Some v \<Rightarrow> unat v | None \<Rightarrow> 0)"
  using assms
proof (induction d delta rule: apply_bootstrap_reward_deltas.induct)
  case (2 d cred coin delta)
  from "2.prems"(1) obtain v where v: "apply_bootstrap_reward_deltas (d\<lparr>rewards := bt_insert cred v (rewards d)\<rparr>) delta = Ok d'"
    and s: "checked_add (case bt_get (rewards d) cred of Some c \<Rightarrow> c | None \<Rightarrow> 0) coin = Some v"
    by (auto simp: result_simps)
  have fresh: "bt_get delta cred = None" "bt_wf delta" using "2.prems"(3) by (force simp: bt_wf_Cons bt_get_None)+
  from "2.IH" [OF _ v _ fresh(2)] s "2.prems"(2) fresh(1) show ?case
    by (auto simp: bt_wf_insert bt_get_insert bt_get_Cons checked_add_Some split: option.splits)
qed (simp add: bt_get_Nil)

section \<open>A pool through an epoch\<close>

text \<open>What a list of certificates leaves staged and scheduled for a pool.\<close>

fun staged_params :: "PoolId \<Rightarrow> PoolParams option \<Rightarrow> Certificate list \<Rightarrow> PoolParams option" where
  "staged_params i q [] = q"
| "staged_params i q (PoolRegistration c # cs) =
     staged_params i (if prc_pool_id c = i then Some (params_of c) else q) cs"
| "staged_params i q (_ # cs) = staged_params i q cs"

fun scheduled_retirement :: "PoolId \<Rightarrow> EpochNo option \<Rightarrow> Certificate list \<Rightarrow> EpochNo option" where
  "scheduled_retirement i r [] = r"
| "scheduled_retirement i r (PoolRegistration c # cs) =
     scheduled_retirement i (if prc_pool_id c = i then None else r) cs"
| "scheduled_retirement i r (PoolRetirement j e # cs) =
     scheduled_retirement i (if j = i then Some e else r) cs"
| "scheduled_retirement i r (_ # cs) = scheduled_retirement i r cs"

lemma pool_under_cert:
  assumes "cert_state_wf s" "apply_cert s c kd n = Ok s'" "bt_get (pools (pool s)) i = Some q"
  shows "cert_state_wf s'" "bt_get (pools (pool s')) i = Some q"
    "bt_get (future_pools (pool s')) i = staged_params i (bt_get (future_pools (pool s)) i) [c]"
    "bt_get (retiring (pool s')) i = scheduled_retirement i (bt_get (retiring (pool s)) i) [c]"
  using assms
  by (cases c; auto simp: cert_state_wf_def cert_defs bt_maps bt_contains_key_def split: if_splits)+

lemma staged_Cons: "staged_params i q (c # cs) = staged_params i (staged_params i q [c]) cs"
  and scheduled_Cons: "scheduled_retirement i r (c # cs) = scheduled_retirement i (scheduled_retirement i r [c]) cs"
  by (cases c; simp)+

lemma pool_under_certs:
  assumes "cert_state_wf s" "fold_certs (\<lambda>i s cert. apply_cert s cert kd (word_of_nat i)) n s cs = Ok s'"
    "bt_get (pools (pool s)) i = Some q"
  shows "cert_state_wf s' \<and> bt_get (pools (pool s')) i = Some q \<and>
    bt_get (future_pools (pool s')) i = staged_params i (bt_get (future_pools (pool s)) i) cs \<and>
    bt_get (retiring (pool s')) i = scheduled_retirement i (bt_get (retiring (pool s)) i) cs"
  using assms
proof (induction cs arbitrary: n s)
  case (Cons c cs)
  from Cons.prems(2) obtain s1 where c: "apply_cert s c kd (word_of_nat n) = Ok s1"
    and cs: "fold_certs (\<lambda>i s cert. apply_cert s cert kd (word_of_nat i)) (Suc n) s1 cs = Ok s'"
    by (auto simp: result_simps)
  note p = pool_under_cert [OF Cons.prems(1) c Cons.prems(3)]
  from Cons.IH [OF p(1) cs p(2)] show ?case
    by (simp only: p(3,4) staged_Cons [symmetric] scheduled_Cons [symmetric] simp_thms)
qed simp

text \<open>
  The life of an active pool between two epoch boundaries. Whatever certificates are applied, the
  parameters that leadership reads stay as they are. At the boundary the pool disappears exactly if
  the last certificate that names it, a retirement or a re-registration cancelling one, leaves it
  scheduled for the entered epoch; otherwise it continues with the parameters of the last
  re-registration, or with the old ones if there was none. Every delegation to it goes with it,
  and no other delegation is touched.
\<close>

theorem pool_update_waits_for_boundary:
  assumes "cert_state_ok s" "apply_certs s certs key_deposit = Ok s'" "bt_get (pools (pool s)) i = Some q"
  shows "bt_get (pools (pool s')) i = Some q \<and>
    bt_get (pools (pool (apply_pool_reap s' e))) i =
      (if scheduled_retirement i (bt_get (retiring (pool s)) i) certs = Some e then None
       else Some (case staged_params i (bt_get (future_pools (pool s)) i) certs of None \<Rightarrow> q | Some q' \<Rightarrow> q')) \<and>
    (\<forall>c. bt_get (delegations (delegation s')) c = Some i \<longrightarrow>
       bt_get (delegations (delegation (apply_pool_reap s' e))) c =
         (if scheduled_retirement i (bt_get (retiring (pool s)) i) certs = Some e then None else Some i))"
proof -
  have "cert_state_wf s" using assms(1) by (simp add: cert_state_ok_def)
  from pool_under_certs [OF this assms(2) [unfolded apply_certs_def] assms(3)]
  have p: "cert_state_wf s'" "bt_get (pools (pool s')) i = Some q"
    "bt_get (future_pools (pool s')) i = staged_params i (bt_get (future_pools (pool s)) i) certs"
    "bt_get (retiring (pool s')) i = scheduled_retirement i (bt_get (retiring (pool s)) i) certs" by simp_all
  from reap_eq(2,5) [OF p(1), of e] p(2-4) show ?thesis by simp
qed

definition sample_pool_cert :: "u8 \<Rightarrow> u64 \<Rightarrow> PoolRegistrationCert" where
  "sample_pool_cert i pledge = \<lparr>prc_pool_id = [i], prc_vrf_hash = [9], prc_pledge = pledge, prc_cost = 340, prc_margin = (1, 10),
     prc_reward_account = [7], prc_owners = []\<rparr>"

definition sample_cert_state :: CertState where
  "sample_cert_state = \<lparr>delegation = \<lparr>registrations = [(KeyHash [1], 2)], delegations = [(KeyHash [1], [5])],
       rewards = [(KeyHash [1], 0)]\<rparr>,
     pool = \<lparr>pools = [([5], params_of (sample_pool_cert 5 10))], future_pools = [], retiring = []\<rparr>\<rparr>"

lemma sample_cert_state_ok: "cert_state_ok sample_cert_state"
  by (auto simp: cert_state_ok_def cert_state_wf_def sample_cert_state_def bt_wf_def bt_get_def params_of_def
      sample_pool_cert_def split: if_splits)

theorem pool_update_waits_for_boundary_witness:
  "bt_get (pools (pool (apply_pool_reap sample_cert_state 4))) [5] = Some (params_of (sample_pool_cert 5 10)) \<and>
   (\<exists>s'. apply_certs sample_cert_state
       [PoolRetirement [5] 4, PoolRegistration (sample_pool_cert 5 77), PoolRetirement [5] 6] 2 = Ok s' \<and>
     bt_get (pools (pool s')) [5] = Some (params_of (sample_pool_cert 5 10)) \<and>
     bt_get (pools (pool (apply_pool_reap s' 4))) [5] = Some (params_of (sample_pool_cert 5 77)) \<and>
     bt_get (pools (pool (apply_pool_reap s' 6))) [5] = None)"
proof -
  have p: "bt_get (pools (pool sample_cert_state)) [5] = Some (params_of (sample_pool_cert 5 10))"
    by (simp add: sample_cert_state_def bt_get_def)
  note waits = pool_update_waits_for_boundary [OF sample_cert_state_ok _ p]
  let ?certs = "[PoolRetirement [5] 4, PoolRegistration (sample_pool_cert 5 77), PoolRetirement [5] 6]"
  have "apply_certs sample_cert_state [] 2 = Ok sample_cert_state" by (simp add: apply_certs_def)
  from waits [OF this, of 4] have "bt_get (pools (pool (apply_pool_reap sample_cert_state 4))) [5] =
      Some (params_of (sample_pool_cert 5 10))" by (simp add: sample_cert_state_def bt_get_def)
  moreover obtain s' where s': "apply_certs sample_cert_state ?certs 2 = Ok s'"
    by (simp add: apply_certs_def cert_defs sample_cert_state_def bt_contains_key_def bt_get_def sample_pool_cert_def)
  from waits [OF s', of 4] waits [OF s', of 6] s'
  have "apply_certs sample_cert_state ?certs 2 = Ok s' \<and>
     bt_get (pools (pool s')) [5] = Some (params_of (sample_pool_cert 5 10)) \<and>
     bt_get (pools (pool (apply_pool_reap s' 4))) [5] = Some (params_of (sample_pool_cert 5 77)) \<and>
     bt_get (pools (pool (apply_pool_reap s' 6))) [5] = None"
    by (simp add: sample_pool_cert_def sample_cert_state_def bt_get_def)
  ultimately show ?thesis by blast
qed

end
