(* ===== verification/Tx_Codec.thy ===== *)
theory Tx_Codec
  imports Net_Codec Ledger_Types
begin

text \<open>
  The transaction codecs of \<^verbatim>\<open>ade_codec\<close> for the eras up to Mary: \<^verbatim>\<open>byron/tx.rs\<close>,
  \<^verbatim>\<open>shelley/tx.rs\<close>, \<^verbatim>\<open>allegra/tx.rs\<close> and \<^verbatim>\<open>mary/tx.rs\<close>, with the transaction types of
  \<^verbatim>\<open>ade_types\<close>. A \<^verbatim>\<open>BTreeSet\<close> of inputs is the sorted list of its elements. Post-Byron
  bodies are CBOR maps that the decoder reads field by field into optional variables; the
  optional variables of the three eras are the record \<open>tx_fields\<close>. Vectors are reserved from
  the count on the wire, so that a decoder can panic, as in the network codecs.
\<close>

type_synonym 'a tx_reader = "bytes \<Rightarrow> usize \<Rightarrow> ('a \<times> usize, CodecError failure) result"

section \<open>Transaction types\<close>

record ByronTxIn =
  bti_tx_hash :: Hash32
  bti_index :: u32

record ByronTxOut =
  bto_address :: bytes
  bto_coin :: Coin

record ByronTxBody =
  btb_inputs :: "ByronTxIn list"
  btb_outputs :: "ByronTxOut list"
  btb_attributes :: bytes

record ByronWitness =
  bw_witness_type :: u8
  bw_xvk :: bytes
  bw_signature :: bytes

record ByronTx =
  btx_body :: ByronTxBody
  btx_witnesses :: "ByronWitness list"

record ShelleyTxOut =
  sto_address :: bytes
  sto_coin :: Coin

record ShelleyTxBody =
  stb_inputs :: "TxIn list"
  stb_outputs :: "ShelleyTxOut list"
  stb_fee :: Coin
  stb_ttl :: SlotNo
  stb_certs :: "bytes option"
  stb_withdrawals :: "bytes option"
  stb_update :: "bytes option"
  stb_metadata_hash :: "Hash32 option"

record AllegraTxBody =
  atb_inputs :: "TxIn list"
  atb_outputs :: "ShelleyTxOut list"
  atb_fee :: Coin
  atb_ttl :: "SlotNo option"
  atb_certs :: "bytes option"
  atb_withdrawals :: "bytes option"
  atb_update :: "bytes option"
  atb_metadata_hash :: "Hash32 option"
  atb_validity_interval_start :: "SlotNo option"

record MaryTxOut =
  mto_address :: bytes
  mto_coin :: Coin
  mto_multi_asset :: "bytes option"

record MaryTxBody =
  mtb_inputs :: "TxIn list"
  mtb_outputs :: "MaryTxOut list"
  mtb_fee :: Coin
  mtb_ttl :: "SlotNo option"
  mtb_certs :: "bytes option"
  mtb_withdrawals :: "bytes option"
  mtb_update :: "bytes option"
  mtb_metadata_hash :: "Hash32 option"
  mtb_validity_interval_start :: "SlotNo option"
  mtb_mint :: "bytes option"

section \<open>Reading loops\<close>

definition lift_reader :: "'a reader \<Rightarrow> 'a tx_reader" where
  "lift_reader d data offset = map_err Fail (d data offset)"

text \<open>
  \<^verbatim>\<open>while !is_break(data, offset)?\<close>: the elements up to the break byte, which stays unread. Each
  element takes at least one byte, so the bytes left are enough fuel: with none left the test
  for the break fails.
\<close>

primrec read_to_break :: "nat \<Rightarrow> 'a tx_reader \<Rightarrow> 'a list tx_reader" where
  "read_to_break 0 d data offset =
     rbind (map_err Fail (is_break data offset)) (\<lambda>b.
     if b then Ok ([], offset) else Err (Fail (UnexpectedEof offset 1)))"
| "read_to_break (Suc k) d data offset =
     rbind (map_err Fail (is_break data offset)) (\<lambda>b.
     if b then Ok ([], offset)
     else rbind (d data offset) (\<lambda>(v, offset).
          rbind (read_to_break k d data offset) (\<lambda>(vs, offset). Ok (v # vs, offset))))"

text \<open>An array of either form, read into a vector with reserved capacity.\<close>

definition read_vec :: "nat \<Rightarrow> 'a tx_reader \<Rightarrow> 'a list tx_reader" where
  "read_vec elem_size d data offset =
     rbind (map_err Fail (read_array_header data offset)) (\<lambda>(enc, offset).
     case enc of
       ContainerEncoding.Definite n _ \<Rightarrow>
         (if capacity_overflow n elem_size then Err (Panic ''capacity overflow'')
          else read_count (unat n) d data offset)
     | ContainerEncoding.Indefinite \<Rightarrow>
         rbind (read_to_break (length data - offset) d data offset) (\<lambda>(vs, offset). Ok (vs, offset + 1)))"

definition read_definite_vec :: "string \<Rightarrow> nat \<Rightarrow> 'a tx_reader \<Rightarrow> 'a list tx_reader" where
  "read_definite_vec detail elem_size d data offset =
     rbind (map_err Fail (read_array_header data offset)) (\<lambda>(enc, offset).
     case enc of
       ContainerEncoding.Definite n _ \<Rightarrow>
         (if capacity_overflow n elem_size then Err (Panic ''capacity overflow'')
          else read_count (unat n) d data offset)
     | ContainerEncoding.Indefinite \<Rightarrow> Err (Fail (InvalidCborStructure offset detail)))"

fun is_definite :: "ContainerEncoding \<Rightarrow> u64 \<Rightarrow> bool" where
  "is_definite (ContainerEncoding.Definite m _) n = (m = n)"
| "is_definite ContainerEncoding.Indefinite n = False"

definition expect_array :: "u64 \<Rightarrow> string \<Rightarrow> unit reader" where
  "expect_array n detail data offset =
     rbind (read_array_header data offset) (\<lambda>(enc, offset).
     if is_definite enc n then Ok ((), offset) else Err (InvalidCborStructure offset detail))"

definition read_raw_item :: "bytes reader" where
  "read_raw_item data offset =
     rbind (skip_item data offset) (\<lambda>((start, stop), offset). Ok (take (stop - start) (drop start data), offset))"

definition read_hash32 :: "Hash32 reader" where
  "read_hash32 data offset =
     rbind (read_bytes data offset) (\<lambda>((bytes, _), offset).
     if length bytes \<noteq> 32 then Err (InvalidLength (offset - length bytes) ''expected 32-byte hash'')
     else Ok (bytes, offset))"

section \<open>Byron\<close>

text \<open>A CBOR array of two elements inside a byte string under tag 24, read by its own reader from
  the start of the string.\<close>

definition read_embedded :: "string \<Rightarrow> string \<Rightarrow> 'a reader \<Rightarrow> 'a reader" where
  "read_embedded tag_detail inner_detail d data offset =
     rbind (read_tag data offset) (\<lambda>((tag_val, _), offset).
     if tag_val \<noteq> 24 then Err (InvalidCborStructure offset tag_detail)
     else rbind (read_bytes data offset) (\<lambda>((inner_bytes, _), offset).
     rbind (read_array_header inner_bytes 0) (\<lambda>(inner_enc, inner_offset).
     if \<not> is_definite inner_enc 2 then Err (InvalidCborStructure offset inner_detail)
     else rbind (d inner_bytes inner_offset) (\<lambda>(v, _). Ok (v, offset)))))"

definition decode_byron_tx_in :: "ByronTxIn reader" where
  "decode_byron_tx_in data offset =
     rbind (expect_array 2 ''Byron tx input must be array(2)'' data offset) (\<lambda>(_, offset).
     rbind (read_uint data offset) (\<lambda>(_, offset).
     read_embedded ''Byron tx input expected tag(24)'' ''Byron tx input inner must be array(2)''
       (\<lambda>inner_bytes inner_offset.
          rbind (read_hash32 inner_bytes inner_offset) (\<lambda>(h, inner_offset).
          rbind (read_uint inner_bytes inner_offset) (\<lambda>((index, _), inner_offset).
          Ok (\<lparr>bti_tx_hash = h, bti_index = ucast index\<rparr>, inner_offset)))) data offset))"

definition decode_byron_tx_inputs :: "ByronTxIn list tx_reader" where
  "decode_byron_tx_inputs =
     read_definite_vec ''Byron tx inputs must be definite-length array'' 36 (lift_reader decode_byron_tx_in)"

definition decode_byron_tx_out :: "ByronTxOut reader" where
  "decode_byron_tx_out data offset =
     rbind (expect_array 2 ''Byron tx output must be array(2)'' data offset) (\<lambda>(_, offset).
     rbind (read_raw_item data offset) (\<lambda>(address, offset).
     rbind (read_uint data offset) (\<lambda>((coin_val, _), offset).
     Ok (\<lparr>bto_address = address, bto_coin = coin_val\<rparr>, offset))))"

definition decode_byron_tx_outputs :: "ByronTxOut list tx_reader" where
  "decode_byron_tx_outputs =
     read_definite_vec ''Byron tx outputs must be definite-length array'' 32 (lift_reader decode_byron_tx_out)"

definition decode_byron_tx_body :: "ByronTxBody tx_reader" where
  "decode_byron_tx_body data offset =
     rbind (lift_reader (expect_array 3 ''Byron tx body must be array(3)'') data offset) (\<lambda>(_, offset).
     rbind (decode_byron_tx_inputs data offset) (\<lambda>(inputs, offset).
     rbind (decode_byron_tx_outputs data offset) (\<lambda>(outputs, offset).
     rbind (lift_reader read_raw_item data offset) (\<lambda>(attributes, offset).
     Ok (\<lparr>btb_inputs = inputs, btb_outputs = outputs, btb_attributes = attributes\<rparr>, offset)))))"

definition decode_byron_witness :: "ByronWitness reader" where
  "decode_byron_witness data offset =
     rbind (expect_array 2 ''Byron witness must be array(2)'' data offset) (\<lambda>(_, offset).
     rbind (read_uint data offset) (\<lambda>((witness_type, _), offset).
     read_embedded ''Byron witness expected tag(24)'' ''Byron witness inner must be array(2)''
       (\<lambda>inner_bytes inner_offset.
          rbind (read_bytes inner_bytes inner_offset) (\<lambda>((xvk, _), inner_offset).
          rbind (read_bytes inner_bytes inner_offset) (\<lambda>((signature, _), inner_offset).
          Ok (\<lparr>bw_witness_type = ucast witness_type, bw_xvk = xvk, bw_signature = signature\<rparr>, inner_offset))))
       data offset))"

definition decode_byron_tx :: "ByronTx tx_reader" where
  "decode_byron_tx data offset =
     rbind (lift_reader (expect_array 2 ''Byron tx must be array(2) [body, witnesses]'') data offset) (\<lambda>(_, offset).
     rbind (decode_byron_tx_body data offset) (\<lambda>(body, offset).
     rbind (read_definite_vec ''Byron witnesses must be definite-length array'' 56
              (lift_reader decode_byron_witness) data offset) (\<lambda>(witnesses, offset).
     Ok (\<lparr>btx_body = body, btx_witnesses = witnesses\<rparr>, offset))))"

text \<open>\<^verbatim>\<open>PreservedCbor\<close>: an element with the bytes it was read from.\<close>

definition preserved :: "'a tx_reader \<Rightarrow> (bytes \<times> 'a) tx_reader" where
  "preserved d data offset =
     rbind (d data offset) (\<lambda>(v, stop). Ok ((take (stop - offset) (drop offset data), v), stop))"

definition decode_byron_block_txs :: "bytes \<Rightarrow> ((bytes \<times> ByronTx) list, CodecError failure) result" where
  "decode_byron_block_txs body_cbor =
     rbind (lift_reader (expect_array 4 ''Byron block body must be array(4)'') body_cbor 0) (\<lambda>(_, offset).
     rbind (map_err Fail (read_array_header body_cbor offset)) (\<lambda>(tx_enc, offset).
     case tx_enc of
       ContainerEncoding.Definite n _ \<Rightarrow>
         (if capacity_overflow n 120 then Err (Panic ''capacity overflow'')
          else rbind (read_count (unat n) (preserved decode_byron_tx) body_cbor offset) (\<lambda>(txs, _). Ok txs))
     | ContainerEncoding.Indefinite \<Rightarrow>
         rbind (read_to_break (length body_cbor - offset) (preserved decode_byron_tx) body_cbor offset)
           (\<lambda>(txs, _). Ok txs)))"

definition encode_byron_tx_in :: "ByronTxIn \<Rightarrow> bytes \<Rightarrow> bytes" where
  "encode_byron_tx_in i buf =
     (let inner = write_uint_canonical
                    (write_bytes_canonical (write_array_header [] (ContainerEncoding.Definite 2 Inline)) (bti_tx_hash i))
                    (ucast (bti_index i)) in
      write_bytes_canonical
        (write_tag (write_uint_canonical (write_array_header buf (ContainerEncoding.Definite 2 Inline)) 0) 24 I8) inner)"

definition encode_byron_tx_out :: "ByronTxOut \<Rightarrow> bytes \<Rightarrow> bytes" where
  "encode_byron_tx_out out buf =
     write_uint_canonical (write_array_header buf (ContainerEncoding.Definite 2 Inline) @ bto_address out) (bto_coin out)"

definition encode_byron_tx_body :: "ByronTxBody \<Rightarrow> bytes \<Rightarrow> bytes" where
  "encode_byron_tx_body body buf =
     (let buf = write_array_header buf (ContainerEncoding.Definite 3 Inline);
          buf = write_array_header buf (ContainerEncoding.Definite (word_of_nat (length (btb_inputs body))) Inline);
          buf = foldl (\<lambda>b i. encode_byron_tx_in i b) buf (btb_inputs body);
          buf = write_array_header buf (ContainerEncoding.Definite (word_of_nat (length (btb_outputs body))) Inline);
          buf = foldl (\<lambda>b out. encode_byron_tx_out out b) buf (btb_outputs body)
      in buf @ btb_attributes body)"

definition encode_byron_witness :: "ByronWitness \<Rightarrow> bytes \<Rightarrow> bytes" where
  "encode_byron_witness w buf =
     (let inner = write_bytes_canonical
                    (write_bytes_canonical (write_array_header [] (ContainerEncoding.Definite 2 Inline)) (bw_xvk w))
                    (bw_signature w) in
      write_bytes_canonical
        (write_tag (write_uint_canonical (write_array_header buf (ContainerEncoding.Definite 2 Inline))
           (ucast (bw_witness_type w))) 24 I8) inner)"

definition encode_byron_tx :: "ByronTx \<Rightarrow> bytes \<Rightarrow> bytes" where
  "encode_byron_tx tx buf =
     (let buf = write_array_header buf (ContainerEncoding.Definite 2 Inline);
          buf = encode_byron_tx_body (btx_body tx) buf;
          buf = write_array_header buf (ContainerEncoding.Definite (word_of_nat (length (btx_witnesses tx))) Inline)
      in foldl (\<lambda>b w. encode_byron_witness w b) buf (btx_witnesses tx))"

section \<open>Inputs and outputs after Byron\<close>

definition decode_tx_in :: "TxIn reader" where
  "decode_tx_in data offset =
     rbind (expect_array 2 ''tx input must be array(2)'' data offset) (\<lambda>(_, offset).
     rbind (read_hash32 data offset) (\<lambda>(h, offset).
     rbind (read_uint data offset) (\<lambda>((index, _), offset).
     Ok (TxIn h (ucast index), offset))))"

text \<open>The inputs go into a set in the order of the wire; no capacity is reserved.\<close>

definition decode_tx_inputs :: "TxIn list tx_reader" where
  "decode_tx_inputs data offset =
     rbind (map_err Fail (read_array_header data offset)) (\<lambda>(enc, offset).
     rbind (case enc of
              ContainerEncoding.Definite n _ \<Rightarrow> read_count (unat n) (lift_reader decode_tx_in) data offset
            | ContainerEncoding.Indefinite \<Rightarrow>
                rbind (read_to_break (length data - offset) (lift_reader decode_tx_in) data offset)
                  (\<lambda>(vs, offset). Ok (vs, offset + 1)))
       (\<lambda>(ins, offset). Ok (fold insort_insert ins [], offset)))"

definition decode_shelley_tx_out :: "ShelleyTxOut reader" where
  "decode_shelley_tx_out data offset =
     rbind (expect_array 2 ''Shelley tx output must be array(2)'' data offset) (\<lambda>(_, offset).
     rbind (read_bytes data offset) (\<lambda>((address, _), offset).
     rbind (read_uint data offset) (\<lambda>((coin_val, _), offset).
     Ok (\<lparr>sto_address = address, sto_coin = coin_val\<rparr>, offset))))"

definition decode_shelley_tx_outputs :: "ShelleyTxOut list tx_reader" where
  "decode_shelley_tx_outputs = read_vec 32 (lift_reader decode_shelley_tx_out)"

definition decode_mary_tx_out :: "MaryTxOut reader" where
  "decode_mary_tx_out data offset =
     rbind (expect_array 2 ''Mary tx output must be array(2)'' data offset) (\<lambda>(_, offset).
     rbind (read_bytes data offset) (\<lambda>((address, _), offset).
     rbind (peek_major data offset) (\<lambda>major.
     if major = MAJOR_UNSIGNED then
       rbind (read_uint data offset) (\<lambda>((v, _), offset).
       Ok (\<lparr>mto_address = address, mto_coin = v, mto_multi_asset = None\<rparr>, offset))
     else if major = MAJOR_ARRAY then
       rbind (expect_array 2 ''Mary value array must be array(2)'' data offset) (\<lambda>(_, offset).
       rbind (read_uint data offset) (\<lambda>((coin_val, _), offset).
       rbind (read_raw_item data offset) (\<lambda>(ma, offset).
       Ok (\<lparr>mto_address = address, mto_coin = coin_val, mto_multi_asset = Some ma\<rparr>, offset))))
     else Err (UnexpectedCborType offset ''uint or array for Mary value'' major))))"

definition decode_mary_tx_outputs :: "MaryTxOut list tx_reader" where
  "decode_mary_tx_outputs = read_vec 56 (lift_reader decode_mary_tx_out)"

definition encode_tx_in :: "bytes \<Rightarrow> TxIn \<Rightarrow> bytes" where
  "encode_tx_in buf i =
     write_uint_canonical
       (write_bytes_canonical (write_array_header buf (ContainerEncoding.Definite 2 Inline)) (tx_hash i)) (ucast (tx_index i))"

definition encode_tx_inputs :: "bytes \<Rightarrow> TxIn list \<Rightarrow> bytes" where
  "encode_tx_inputs buf inputs =
     (let n = word_of_nat (length inputs) in
      foldl encode_tx_in (write_array_header buf (ContainerEncoding.Definite n (canonical_width n))) inputs)"

definition encode_shelley_tx_out :: "bytes \<Rightarrow> ShelleyTxOut \<Rightarrow> bytes" where
  "encode_shelley_tx_out buf out =
     write_uint_canonical
       (write_bytes_canonical (write_array_header buf (ContainerEncoding.Definite 2 Inline)) (sto_address out)) (sto_coin out)"

definition encode_shelley_tx_outputs :: "bytes \<Rightarrow> ShelleyTxOut list \<Rightarrow> bytes" where
  "encode_shelley_tx_outputs buf outputs =
     (let n = word_of_nat (length outputs) in
      foldl encode_shelley_tx_out (write_array_header buf (ContainerEncoding.Definite n (canonical_width n))) outputs)"

definition encode_mary_tx_out :: "bytes \<Rightarrow> MaryTxOut \<Rightarrow> bytes" where
  "encode_mary_tx_out buf out =
     (let buf = write_bytes_canonical (write_array_header buf (ContainerEncoding.Definite 2 Inline)) (mto_address out) in
      case mto_multi_asset out of
        Some ma \<Rightarrow>
          write_uint_canonical (write_array_header buf (ContainerEncoding.Definite 2 Inline)) (mto_coin out) @ ma
      | None \<Rightarrow> write_uint_canonical buf (mto_coin out))"

definition encode_mary_tx_outputs :: "bytes \<Rightarrow> MaryTxOut list \<Rightarrow> bytes" where
  "encode_mary_tx_outputs buf outputs =
     (let n = word_of_nat (length outputs) in
      foldl encode_mary_tx_out (write_array_header buf (ContainerEncoding.Definite n (canonical_width n))) outputs)"

section \<open>Bodies after Byron\<close>

record 'o tx_fields =
  tf_inputs :: "TxIn list option"
  tf_outputs :: "'o list option"
  tf_fee :: "Coin option"
  tf_ttl :: "SlotNo option"
  tf_certs :: "bytes option"
  tf_withdrawals :: "bytes option"
  tf_update :: "bytes option"
  tf_metadata_hash :: "Hash32 option"
  tf_validity_interval_start :: "SlotNo option"
  tf_mint :: "bytes option"

definition no_fields :: "'o tx_fields" where
  "no_fields = \<lparr>tf_inputs = None, tf_outputs = None, tf_fee = None, tf_ttl = None, tf_certs = None,
     tf_withdrawals = None, tf_update = None, tf_metadata_hash = None, tf_validity_interval_start = None,
     tf_mint = None\<rparr>"

definition read_into :: "('a \<Rightarrow> 'b) \<Rightarrow> 'a tx_reader \<Rightarrow> 'b tx_reader" where
  "read_into upd d data offset = rbind (d data offset) (\<lambda>(v, offset). Ok (upd v, offset))"

text \<open>The loop over the entries of the map.\<close>

primrec read_fields :: "nat \<Rightarrow> (u64 \<Rightarrow> 'f \<Rightarrow> 'f tx_reader) \<Rightarrow> 'f \<Rightarrow> 'f tx_reader" where
  "read_fields 0 field f data offset = Ok (f, offset)"
| "read_fields (Suc n) field f data offset =
     rbind (map_err Fail (read_uint data offset)) (\<lambda>((key, _), offset).
     rbind (field key f data offset) (\<lambda>(f, offset). read_fields n field f data offset))"

definition read_body_fields :: "string \<Rightarrow> (u64 \<Rightarrow> 'o tx_fields \<Rightarrow> 'o tx_fields tx_reader) \<Rightarrow> 'o tx_fields tx_reader" where
  "read_body_fields detail field data offset =
     rbind (map_err Fail (read_map_header data offset)) (\<lambda>(enc, offset).
     case enc of
       ContainerEncoding.Definite n _ \<Rightarrow> read_fields (unat n) field no_fields data offset
     | ContainerEncoding.Indefinite \<Rightarrow> Err (Fail (InvalidCborStructure offset detail)))"

definition shelley_field :: "u64 \<Rightarrow> ShelleyTxOut tx_fields \<Rightarrow> ShelleyTxOut tx_fields tx_reader" where
  "shelley_field key f data offset =
     (if key = 0 then read_into (\<lambda>v. f\<lparr>tf_inputs := Some v\<rparr>) decode_tx_inputs data offset
      else if key = 1 then read_into (\<lambda>v. f\<lparr>tf_outputs := Some v\<rparr>) decode_shelley_tx_outputs data offset
      else if key = 2 then read_into (\<lambda>(v, _). f\<lparr>tf_fee := Some v\<rparr>) (lift_reader read_uint) data offset
      else if key = 3 then read_into (\<lambda>(v, _). f\<lparr>tf_ttl := Some v\<rparr>) (lift_reader read_uint) data offset
      else if key = 4 then read_into (\<lambda>v. f\<lparr>tf_certs := Some v\<rparr>) (lift_reader read_raw_item) data offset
      else if key = 5 then read_into (\<lambda>v. f\<lparr>tf_withdrawals := Some v\<rparr>) (lift_reader read_raw_item) data offset
      else if key = 6 then read_into (\<lambda>v. f\<lparr>tf_update := Some v\<rparr>) (lift_reader read_raw_item) data offset
      else if key = 7 then read_into (\<lambda>v. f\<lparr>tf_metadata_hash := Some v\<rparr>) (lift_reader read_hash32) data offset
      else read_into (\<lambda>_. f) (lift_reader skip_item) data offset)"

definition decode_shelley_tx_body :: "ShelleyTxBody tx_reader" where
  "decode_shelley_tx_body data offset =
     rbind (read_body_fields ''Shelley tx body must be definite-length map'' (shelley_field) data offset) (\<lambda>(f, offset).
     rbind (ok_or (Fail (InvalidCborStructure offset ''Shelley tx body missing inputs (key 0)'')) (tf_inputs f)) (\<lambda>inputs.
     rbind (ok_or (Fail (InvalidCborStructure offset ''Shelley tx body missing outputs (key 1)'')) (tf_outputs f)) (\<lambda>outputs.
     rbind (ok_or (Fail (InvalidCborStructure offset ''Shelley tx body missing fee (key 2)'')) (tf_fee f)) (\<lambda>fee.
     rbind (ok_or (Fail (InvalidCborStructure offset ''Shelley tx body missing ttl (key 3)'')) (tf_ttl f)) (\<lambda>ttl.
     Ok (\<lparr>stb_inputs = inputs,
         stb_outputs = outputs,
         stb_fee = fee,
         stb_ttl = ttl,
         stb_certs = tf_certs f,
         stb_withdrawals = tf_withdrawals f,
         stb_update = tf_update f,
         stb_metadata_hash = tf_metadata_hash f\<rparr>, offset))))))"

definition allegra_field :: "u64 \<Rightarrow> ShelleyTxOut tx_fields \<Rightarrow> ShelleyTxOut tx_fields tx_reader" where
  "allegra_field key f data offset =
     (if key = 0 then read_into (\<lambda>v. f\<lparr>tf_inputs := Some v\<rparr>) decode_tx_inputs data offset
      else if key = 1 then read_into (\<lambda>v. f\<lparr>tf_outputs := Some v\<rparr>) decode_shelley_tx_outputs data offset
      else if key = 2 then read_into (\<lambda>(v, _). f\<lparr>tf_fee := Some v\<rparr>) (lift_reader read_uint) data offset
      else if key = 3 then read_into (\<lambda>(v, _). f\<lparr>tf_ttl := Some v\<rparr>) (lift_reader read_uint) data offset
      else if key = 4 then read_into (\<lambda>v. f\<lparr>tf_certs := Some v\<rparr>) (lift_reader read_raw_item) data offset
      else if key = 5 then read_into (\<lambda>v. f\<lparr>tf_withdrawals := Some v\<rparr>) (lift_reader read_raw_item) data offset
      else if key = 6 then read_into (\<lambda>v. f\<lparr>tf_update := Some v\<rparr>) (lift_reader read_raw_item) data offset
      else if key = 7 then read_into (\<lambda>v. f\<lparr>tf_metadata_hash := Some v\<rparr>) (lift_reader read_hash32) data offset
      else if key = 8 then read_into (\<lambda>(v, _). f\<lparr>tf_validity_interval_start := Some v\<rparr>) (lift_reader read_uint) data offset
      else read_into (\<lambda>_. f) (lift_reader skip_item) data offset)"

definition decode_allegra_tx_body :: "AllegraTxBody tx_reader" where
  "decode_allegra_tx_body data offset =
     rbind (read_body_fields ''Allegra tx body must be definite-length map'' (allegra_field) data offset) (\<lambda>(f, offset).
     rbind (ok_or (Fail (InvalidCborStructure offset ''Allegra tx body missing inputs (key 0)'')) (tf_inputs f)) (\<lambda>inputs.
     rbind (ok_or (Fail (InvalidCborStructure offset ''Allegra tx body missing outputs (key 1)'')) (tf_outputs f)) (\<lambda>outputs.
     rbind (ok_or (Fail (InvalidCborStructure offset ''Allegra tx body missing fee (key 2)'')) (tf_fee f)) (\<lambda>fee.
     Ok (\<lparr>atb_inputs = inputs,
         atb_outputs = outputs,
         atb_fee = fee,
         atb_ttl = tf_ttl f,
         atb_certs = tf_certs f,
         atb_withdrawals = tf_withdrawals f,
         atb_update = tf_update f,
         atb_metadata_hash = tf_metadata_hash f,
         atb_validity_interval_start = tf_validity_interval_start f\<rparr>, offset)))))"

definition mary_field :: "u64 \<Rightarrow> MaryTxOut tx_fields \<Rightarrow> MaryTxOut tx_fields tx_reader" where
  "mary_field key f data offset =
     (if key = 0 then read_into (\<lambda>v. f\<lparr>tf_inputs := Some v\<rparr>) decode_tx_inputs data offset
      else if key = 1 then read_into (\<lambda>v. f\<lparr>tf_outputs := Some v\<rparr>) decode_mary_tx_outputs data offset
      else if key = 2 then read_into (\<lambda>(v, _). f\<lparr>tf_fee := Some v\<rparr>) (lift_reader read_uint) data offset
      else if key = 3 then read_into (\<lambda>(v, _). f\<lparr>tf_ttl := Some v\<rparr>) (lift_reader read_uint) data offset
      else if key = 4 then read_into (\<lambda>v. f\<lparr>tf_certs := Some v\<rparr>) (lift_reader read_raw_item) data offset
      else if key = 5 then read_into (\<lambda>v. f\<lparr>tf_withdrawals := Some v\<rparr>) (lift_reader read_raw_item) data offset
      else if key = 6 then read_into (\<lambda>v. f\<lparr>tf_update := Some v\<rparr>) (lift_reader read_raw_item) data offset
      else if key = 7 then read_into (\<lambda>v. f\<lparr>tf_metadata_hash := Some v\<rparr>) (lift_reader read_hash32) data offset
      else if key = 8 then read_into (\<lambda>(v, _). f\<lparr>tf_validity_interval_start := Some v\<rparr>) (lift_reader read_uint) data offset
      else if key = 9 then read_into (\<lambda>v. f\<lparr>tf_mint := Some v\<rparr>) (lift_reader read_raw_item) data offset
      else read_into (\<lambda>_. f) (lift_reader skip_item) data offset)"

definition decode_mary_tx_body :: "MaryTxBody tx_reader" where
  "decode_mary_tx_body data offset =
     rbind (read_body_fields ''Mary tx body must be definite-length map'' (mary_field) data offset) (\<lambda>(f, offset).
     rbind (ok_or (Fail (InvalidCborStructure offset ''Mary tx body missing inputs (key 0)'')) (tf_inputs f)) (\<lambda>inputs.
     rbind (ok_or (Fail (InvalidCborStructure offset ''Mary tx body missing outputs (key 1)'')) (tf_outputs f)) (\<lambda>outputs.
     rbind (ok_or (Fail (InvalidCborStructure offset ''Mary tx body missing fee (key 2)'')) (tf_fee f)) (\<lambda>fee.
     Ok (\<lparr>mtb_inputs = inputs,
         mtb_outputs = outputs,
         mtb_fee = fee,
         mtb_ttl = tf_ttl f,
         mtb_certs = tf_certs f,
         mtb_withdrawals = tf_withdrawals f,
         mtb_update = tf_update f,
         mtb_metadata_hash = tf_metadata_hash f,
         mtb_validity_interval_start = tf_validity_interval_start f,
         mtb_mint = tf_mint f\<rparr>, offset)))))"

definition opt_count :: "'a option \<Rightarrow> u64" where
  "opt_count x = (if x \<noteq> None then 1 else 0)"

definition opt_field :: "u64 \<Rightarrow> (bytes \<Rightarrow> 'a \<Rightarrow> bytes) \<Rightarrow> 'a option \<Rightarrow> bytes \<Rightarrow> bytes" where
  "opt_field key write x buf = (case x of None \<Rightarrow> buf | Some v \<Rightarrow> write (write_uint_canonical buf key) v)"

definition encode_shelley_tx_body :: "ShelleyTxBody \<Rightarrow> bytes \<Rightarrow> bytes" where
  "encode_shelley_tx_body b buf =
     (let count = 4 + opt_count (stb_certs b) + opt_count (stb_withdrawals b) + opt_count (stb_update b) + opt_count (stb_metadata_hash b);
          buf = write_map_header buf (ContainerEncoding.Definite count (canonical_width count));
          buf = encode_tx_inputs (write_uint_canonical buf 0) (stb_inputs b);
          buf = encode_shelley_tx_outputs (write_uint_canonical buf 1) (stb_outputs b);
          buf = write_uint_canonical (write_uint_canonical buf 2) (stb_fee b);
          buf = write_uint_canonical (write_uint_canonical buf 3) (stb_ttl b);
          buf = opt_field 4 (@) (stb_certs b) buf;
          buf = opt_field 5 (@) (stb_withdrawals b) buf;
          buf = opt_field 6 (@) (stb_update b) buf;
          buf = opt_field 7 write_bytes_canonical (stb_metadata_hash b) buf
      in buf)"

definition encode_allegra_tx_body :: "AllegraTxBody \<Rightarrow> bytes \<Rightarrow> bytes" where
  "encode_allegra_tx_body b buf =
     (let count = 3 + opt_count (atb_ttl b) + opt_count (atb_certs b) + opt_count (atb_withdrawals b) + opt_count (atb_update b) + opt_count (atb_metadata_hash b) + opt_count (atb_validity_interval_start b);
          buf = write_map_header buf (ContainerEncoding.Definite count (canonical_width count));
          buf = encode_tx_inputs (write_uint_canonical buf 0) (atb_inputs b);
          buf = encode_shelley_tx_outputs (write_uint_canonical buf 1) (atb_outputs b);
          buf = write_uint_canonical (write_uint_canonical buf 2) (atb_fee b);
          buf = opt_field 3 write_uint_canonical (atb_ttl b) buf;
          buf = opt_field 4 (@) (atb_certs b) buf;
          buf = opt_field 5 (@) (atb_withdrawals b) buf;
          buf = opt_field 6 (@) (atb_update b) buf;
          buf = opt_field 7 write_bytes_canonical (atb_metadata_hash b) buf;
          buf = opt_field 8 write_uint_canonical (atb_validity_interval_start b) buf
      in buf)"

definition encode_mary_tx_body :: "MaryTxBody \<Rightarrow> bytes \<Rightarrow> bytes" where
  "encode_mary_tx_body b buf =
     (let count = 3 + opt_count (mtb_ttl b) + opt_count (mtb_certs b) + opt_count (mtb_withdrawals b) + opt_count (mtb_update b) + opt_count (mtb_metadata_hash b) + opt_count (mtb_validity_interval_start b) + opt_count (mtb_mint b);
          buf = write_map_header buf (ContainerEncoding.Definite count (canonical_width count));
          buf = encode_tx_inputs (write_uint_canonical buf 0) (mtb_inputs b);
          buf = encode_mary_tx_outputs (write_uint_canonical buf 1) (mtb_outputs b);
          buf = write_uint_canonical (write_uint_canonical buf 2) (mtb_fee b);
          buf = opt_field 3 write_uint_canonical (mtb_ttl b) buf;
          buf = opt_field 4 (@) (mtb_certs b) buf;
          buf = opt_field 5 (@) (mtb_withdrawals b) buf;
          buf = opt_field 6 (@) (mtb_update b) buf;
          buf = opt_field 7 write_bytes_canonical (mtb_metadata_hash b) buf;
          buf = opt_field 8 write_uint_canonical (mtb_validity_interval_start b) buf;
          buf = opt_field 9 (@) (mtb_mint b) buf
      in buf)"

section \<open>Reading back\<close>

text \<open>A \<^verbatim>\<open>BTreeSet\<close> is strictly sorted; building it from its own elements gives it back.\<close>

definition set_wf :: "'a::linorder list \<Rightarrow> bool" where
  "set_wf xs \<longleftrightarrow> sorted_wrt (<) xs"

lemma fold_insort_insert:
  assumes "sorted_wrt (<) (ys @ xs)"
  shows "fold insort_insert xs ys = ys @ xs"
  using assms
proof (induction xs arbitrary: ys)
  case (Cons x xs)
  then have "\<forall>y\<in>set ys. y < x" by (auto simp: sorted_wrt_append)
  then have "insort_insert x ys = ys @ [x]"
    using Cons.prems by (auto simp: insort_insert_key_def sorted_wrt_append intro!: sorted_insort_is_snoc less_imp_le
        dest: strict_sorted_imp_sorted)
  with Cons show ?case by simp
qed simp

lemma fold_insort_insert_set: "set_wf xs \<Longrightarrow> fold insort_insert xs [] = xs"
  using fold_insort_insert [of "[]" xs] by (simp add: set_wf_def)

lemma canonical_width_inline: "n \<le> 23 \<Longrightarrow> canonical_width n = Inline"
  by (simp add: canonical_width_def)

lemma write_appends [codec_bytes]:
  "write_uint_canonical buf v = buf @ uint_bytes v"
  "write_bytes_canonical buf bs = buf @ string_bytes bs"
  "write_array_header buf (ContainerEncoding.Definite n (canonical_width n)) = buf @ array_bytes n"
  "n \<le> 23 \<Longrightarrow> write_array_header buf (ContainerEncoding.Definite n Inline) = buf @ array_bytes n"
proof -
  show uint: "write_uint_canonical buf v = buf @ uint_bytes v" using encode_appends(2) [of buf v] by (simp add: encode_u64_def)
  show "write_bytes_canonical buf bs = buf @ string_bytes bs" using encode_appends(3) [of buf bs] by (simp add: encode_bytes_def)
  show arr: "write_array_header buf (ContainerEncoding.Definite n (canonical_width n)) = buf @ array_bytes n"
    using encode_appends(1) [of buf n] by (simp add: encode_array_header_def)
  show "n \<le> 23 \<Longrightarrow> write_array_header buf (ContainerEncoding.Definite n Inline) = buf @ array_bytes n"
    using arr by (simp add: canonical_width_inline)
qed

lemma reads_lift: "reads d bs v \<Longrightarrow> reads (lift_reader d) bs v"
  by (simp add: reads_def lift_reader_def)

lemma reads_expect_array: "reads (expect_array n detail) (array_bytes n) ()"
  using reads_written(2) [of n] by (simp add: reads_def expect_array_def)

lemma reads_expect: 
  assumes "reads d bs v"
  shows "reads (\<lambda>data offset. rbind (expect_array n detail data offset) (\<lambda>(_, offset). d data offset)) (array_bytes n @ bs) v"
  by (rule reads_bind [OF reads_expect_array, where d' = "\<lambda>_. d"]) (rule assms)

lemma reads_uint: 
  assumes "reads (d v) bs w"
  shows "reads (\<lambda>data offset. rbind (read_uint data offset) (\<lambda>((x, _), offset). d x data offset)) (uint_bytes v @ bs) w"
  using reads_bind [OF reads_written(1) [of v], where d' = "\<lambda>p. d (fst p)" and bs' = bs and w = w] assms
  by (simp add: case_prod_unfold)

lemma reads_string: 
  assumes "length s < 2 ^ 64" "reads (d s) bs w"
  shows "reads (\<lambda>data offset. rbind (read_bytes data offset) (\<lambda>((x, _), offset). d x data offset)) (string_bytes s @ bs) w"
  using reads_bind [OF reads_written_strings(1) [OF assms(1)], where d' = "\<lambda>p. d (fst p)" and bs' = bs and w = w] assms(2)
  by (simp add: case_prod_unfold)

lemma reads_last_uint: "reads (\<lambda>data offset. rbind (read_uint data offset) (\<lambda>((x, _), offset). Ok (f x, offset))) (uint_bytes v) (f v)"
  using reads_uint [of "\<lambda>x data offset. Ok (f x, offset)" v "[]" "f v", OF reads_return] by simp

definition raw_ok :: "bytes \<Rightarrow> bool" where
  "raw_ok raw \<longleftrightarrow> cbor_item False raw 0 (length raw)"

lemma reads_raw_item: "raw_ok raw \<Longrightarrow> reads read_raw_item raw raw"
  using raw_codec.decode_encode [of raw]
  by (simp add: reads_def raw_ok_def read_raw_item_def RawCbor_ade_decode_def RawCbor_ade_encode_def)

lemma reads_hash32: "length h = 32 \<Longrightarrow> reads read_hash32 (string_bytes h) h"
  using reads_written_strings(1) [of h] by (simp add: reads_def read_hash32_def)

lemma u16_through_u64: "ucast (ucast (i :: u16) :: u64) = i"
proof -
  have "unat (ucast i :: u64) = unat i"
    using unsigned_less [of i, where 'a = nat] by (simp add: unat_ucast_narrow)
  then show ?thesis using unsigned_less [of i, where 'a = nat] by (simp add: word_unat_eq_iff unat_ucast_narrow)
qed

lemma u32_through_u64: "ucast (ucast (i :: u32) :: u64) = i"
  using unsigned_less [of i, where 'a = nat] by (simp add: word_unat_eq_iff unat_ucast_narrow)

definition tx_in_bytes :: "TxIn \<Rightarrow> bytes" where
  "tx_in_bytes i = array_bytes 2 @ string_bytes (tx_hash i) @ uint_bytes (ucast (tx_index i))"

lemma encode_tx_in_eq [codec_bytes]: "encode_tx_in buf i = buf @ tx_in_bytes i"
  by (simp add: encode_tx_in_def tx_in_bytes_def codec_bytes)

lemma reads_tx_in: 
  assumes "length (tx_hash i) = 32"
  shows "reads decode_tx_in (tx_in_bytes i) i"
proof -
  have "reads (\<lambda>data offset. rbind (read_uint data offset) (\<lambda>((x, _), offset). Ok (TxIn (tx_hash i) (ucast x), offset)))
      (uint_bytes (ucast (tx_index i))) i"
    using reads_last_uint [of "\<lambda>x. TxIn (tx_hash i) (ucast x)" "ucast (tx_index i)"] by (simp add: u16_through_u64)
  then show ?thesis
    unfolding decode_tx_in_def [abs_def] tx_in_bytes_def
    by (intro reads_expect reads_bind [OF reads_hash32 [OF assms]])
qed

lemma unat_count: "length vs < 2 ^ 64 \<Longrightarrow> unat (word_of_nat (length vs) :: u64) = length vs"
  by (simp add: unat_of_nat)

lemma reads_tx_inputs:
  assumes "length ins < 2 ^ 64" "set_wf ins" "list_all (\<lambda>i. length (tx_hash i) = 32) ins"
  shows "reads decode_tx_inputs (array_bytes (word_of_nat (length ins)) @ concat (map tx_in_bytes ins)) ins"
proof -
  have "reads (read_count (length ins) (lift_reader decode_tx_in)) (concat (map tx_in_bytes ins)) ins"
    using assms(3) by (intro reads_count reads_lift reads_tx_in) (simp add: list_all_iff)
  from reads_bind_return [OF this, of "\<lambda>ins. fold insort_insert ins []"] show ?thesis
    unfolding decode_tx_inputs_def [abs_def]
    by (intro reads_bind [OF reads_map_err [OF reads_written(2)]])
      (simp add: unat_count [OF assms(1)] fold_insort_insert_set [OF assms(2)])
qed

lemma reads_vec:
  assumes "length vs < 2 ^ 64" "\<not> capacity_overflow (word_of_nat (length vs)) k" "\<And>v. v \<in> set vs \<Longrightarrow> reads d (enc v) v"
  shows "reads (read_vec k d) (array_bytes (word_of_nat (length vs)) @ concat (map enc vs)) vs"
  unfolding read_vec_def [abs_def]
  by (rule reads_bind [OF reads_map_err [OF reads_written(2)]])
    (simp add: unat_count [OF assms(1)] assms(2) reads_count [OF assms(3)])

lemma reads_definite_vec:
  assumes "length vs < 2 ^ 64" "\<not> capacity_overflow (word_of_nat (length vs)) k" "\<And>v. v \<in> set vs \<Longrightarrow> reads d (enc v) v"
  shows "reads (read_definite_vec detail k d) (array_bytes (word_of_nat (length vs)) @ concat (map enc vs)) vs"
  unfolding read_definite_vec_def [abs_def]
  by (rule reads_bind [OF reads_map_err [OF reads_written(2)]])
    (simp add: unat_count [OF assms(1)] assms(2) reads_count [OF assms(3)])

end
