(* ===== verification/Tx_Roundtrip.thy ===== *)
theory Tx_Roundtrip
  imports Tx_Codec
begin

text \<open>
  The transaction codecs read back what they write. A map-encoded body is a list of entries; the
  decoder loop applies the entries one after the other (\<open>reads_fields\<close>), whatever their
  number, so that the optional fields of the three eras need no case analysis.
\<close>

section \<open>Map-encoded bodies\<close>

text \<open>An entry of a map: its key, the bytes of its value and what the decoder does to the fields.\<close>

type_synonym 'f entry = "u64 \<times> bytes \<times> ('f \<Rightarrow> 'f)"

definition entry_bytes :: "'f entry list \<Rightarrow> bytes" where
  "entry_bytes es = concat (map (\<lambda>(key, bs, upd). uint_bytes key @ bs) es)"

definition apply_entries :: "'f entry list \<Rightarrow> 'f \<Rightarrow> 'f" where
  "apply_entries es f = fold (\<lambda>(key, bs, upd) f. upd f) es f"

definition entry_ok :: "(u64 \<Rightarrow> 'f \<Rightarrow> 'f tx_reader) \<Rightarrow> 'f entry \<Rightarrow> bool" where
  "entry_ok field e = (case e of (key, bs, upd) \<Rightarrow> \<forall>f. reads (field key f) bs (upd f))"

definition opt_entry :: "u64 \<Rightarrow> ('a \<Rightarrow> bytes) \<Rightarrow> ('a \<Rightarrow> 'f \<Rightarrow> 'f) \<Rightarrow> 'a option \<Rightarrow> 'f entry list" where
  "opt_entry key enc upd x = (case x of None \<Rightarrow> [] | Some v \<Rightarrow> [(key, enc v, upd v)])"

lemma reads_fields:
  "list_all (entry_ok field) es \<Longrightarrow> reads (read_fields (length es) field f) (entry_bytes es) (apply_entries es f)"
proof (induction es arbitrary: f)
  case Nil
  show ?case by (simp add: entry_bytes_def apply_entries_def reads_def)
next
  case (Cons e es)
  obtain key bs upd where e: "e = (key, bs, upd)" by (cases e)
  have "reads (field key f) bs (upd f)" using Cons.prems by (simp add: e entry_ok_def)
  from reads_bind [OF this Cons.IH] Cons.prems
  have step: "reads (\<lambda>data offset. rbind (field key f data offset) (\<lambda>(f, offset). read_fields (length es) field f data offset))
      (bs @ entry_bytes es) (apply_entries es (upd f))" by simp
  from reads_bind [OF reads_map_err [OF reads_written(1) [of key]], where d' = "\<lambda>k data offset.
      rbind (field (fst k) f data offset) (\<lambda>(f, offset). read_fields (length es) field f data offset)", of _ _] step
  show ?case by (simp add: e entry_bytes_def apply_entries_def case_prod_unfold)
qed

lemma reads_body_fields:
  assumes "list_all (entry_ok field) es" "length es < 2 ^ 64"
  shows "reads (read_body_fields detail field) (map_bytes (word_of_nat (length es)) @ entry_bytes es)
    (apply_entries es no_fields)"
  unfolding read_body_fields_def [abs_def]
  by (rule reads_bind [OF reads_map_err [OF reads_map_header]])
    (simp add: unat_count [OF assms(2)] reads_fields [OF assms(1)])

lemma reads_into: "reads d bs v \<Longrightarrow> reads (read_into upd d) bs (upd v)"
  unfolding read_into_def [abs_def] by (rule reads_bind_return)

definition opt_bytes :: "u64 \<Rightarrow> ('a \<Rightarrow> bytes) \<Rightarrow> 'a option \<Rightarrow> bytes" where
  "opt_bytes key enc x = (case x of None \<Rightarrow> [] | Some v \<Rightarrow> uint_bytes key @ enc v)"

lemma opt_entry_simps [simp]:
  "entry_bytes (opt_entry key enc upd x) = opt_bytes key enc x"
  "length (opt_entry key enc upd x) = (if x = None then 0 else 1)"
  by (simp_all add: opt_entry_def opt_bytes_def entry_bytes_def split: option.splits)

lemma opt_field_bytes [codec_bytes]:
  "opt_field key (@) x buf = buf @ opt_bytes key id x"
  "opt_field key write_bytes_canonical x buf = buf @ opt_bytes key string_bytes x"
  "opt_field key write_uint_canonical y buf = buf @ opt_bytes key uint_bytes y"
  by (simp_all add: opt_field_def opt_bytes_def codec_bytes split: option.splits)

lemma entry_bytes_append [simp]: "entry_bytes (es @ es') = entry_bytes es @ entry_bytes es'"
  by (simp add: entry_bytes_def)

lemma apply_entries_append [simp]: "apply_entries (es @ es') f = apply_entries es' (apply_entries es f)"
  by (simp add: apply_entries_def)

lemma apply_entries_Cons: "apply_entries ((k, bs, upd) # es) f = apply_entries es (upd f)"
  by (simp add: apply_entries_def)

lemma apply_entries_Nil: "apply_entries [] f = f"
  by (simp add: apply_entries_def)

lemma opt_entry_ok:
  assumes "\<And>v. x = Some v \<Longrightarrow> entry_ok field (key, enc v, upd v)"
  shows "list_all (entry_ok field) (opt_entry key enc upd x)"
  using assms by (simp add: opt_entry_def split: option.splits)

text \<open>Reading an optional entry into a field that is not set yet sets it to the option.\<close>

lemma apply_opt_entry:
  "tf_ttl f = None \<Longrightarrow> apply_entries (opt_entry k enc (\<lambda>v f. f\<lparr>tf_ttl := Some v\<rparr>) x) f = f\<lparr>tf_ttl := x\<rparr>"
  "tf_certs f = None \<Longrightarrow> apply_entries (opt_entry k enc' (\<lambda>v f. f\<lparr>tf_certs := Some v\<rparr>) y) f = f\<lparr>tf_certs := y\<rparr>"
  "tf_withdrawals f = None \<Longrightarrow>
     apply_entries (opt_entry k enc' (\<lambda>v f. f\<lparr>tf_withdrawals := Some v\<rparr>) y) f = f\<lparr>tf_withdrawals := y\<rparr>"
  "tf_update f = None \<Longrightarrow> apply_entries (opt_entry k enc' (\<lambda>v f. f\<lparr>tf_update := Some v\<rparr>) y) f = f\<lparr>tf_update := y\<rparr>"
  "tf_metadata_hash f = None \<Longrightarrow>
     apply_entries (opt_entry k enc' (\<lambda>v f. f\<lparr>tf_metadata_hash := Some v\<rparr>) y) f = f\<lparr>tf_metadata_hash := y\<rparr>"
  "tf_validity_interval_start f = None \<Longrightarrow>
     apply_entries (opt_entry k enc (\<lambda>v f. f\<lparr>tf_validity_interval_start := Some v\<rparr>) x) f =
     f\<lparr>tf_validity_interval_start := x\<rparr>"
  "tf_mint f = None \<Longrightarrow> apply_entries (opt_entry k enc' (\<lambda>v f. f\<lparr>tf_mint := Some v\<rparr>) y) f = f\<lparr>tf_mint := y\<rparr>"
  by (cases x; cases y; simp add: opt_entry_def apply_entries_def)+

section \<open>The three bodies\<close>

definition inputs_bytes :: "TxIn list \<Rightarrow> bytes" where
  "inputs_bytes ins = array_bytes (word_of_nat (length ins)) @ concat (map tx_in_bytes ins)"

definition inputs_ok :: "TxIn list \<Rightarrow> bool" where
  "inputs_ok ins \<longleftrightarrow> length ins < 2 ^ 64 \<and> set_wf ins \<and> list_all (\<lambda>i. length (tx_hash i) = 32) ins"

definition outputs_bytes :: "('o \<Rightarrow> bytes) \<Rightarrow> 'o list \<Rightarrow> bytes" where
  "outputs_bytes enc outs = array_bytes (word_of_nat (length outs)) @ concat (map enc outs)"

definition opt_ok :: "('a \<Rightarrow> bool) \<Rightarrow> 'a option \<Rightarrow> bool" where
  "opt_ok P x = (case x of None \<Rightarrow> True | Some v \<Rightarrow> P v)"

definition shelley_out_bytes :: "ShelleyTxOut \<Rightarrow> bytes" where
  "shelley_out_bytes out = array_bytes 2 @ string_bytes (sto_address out) @ uint_bytes (sto_coin out)"

definition mary_out_bytes :: "MaryTxOut \<Rightarrow> bytes" where
  "mary_out_bytes out = array_bytes 2 @ string_bytes (mto_address out) @
     (case mto_multi_asset out of
        None \<Rightarrow> uint_bytes (mto_coin out)
      | Some ma \<Rightarrow> array_bytes 2 @ uint_bytes (mto_coin out) @ ma)"

lemma encode_outputs_eq [codec_bytes]:
  "encode_tx_inputs buf ins = buf @ inputs_bytes ins"
  "encode_shelley_tx_outputs buf souts = buf @ outputs_bytes shelley_out_bytes souts"
  "encode_mary_tx_outputs buf mouts = buf @ outputs_bytes mary_out_bytes mouts"
proof -
  have s: "encode_shelley_tx_out b out = b @ shelley_out_bytes out" for b out
    by (simp add: encode_shelley_tx_out_def shelley_out_bytes_def codec_bytes)
  have m: "encode_mary_tx_out b out = b @ mary_out_bytes out" for b out
    by (simp add: encode_mary_tx_out_def mary_out_bytes_def codec_bytes split: option.splits)
  show "encode_tx_inputs buf ins = buf @ inputs_bytes ins"
    by (simp add: encode_tx_inputs_def inputs_bytes_def Let_def codec_bytes foldl_append_with [OF encode_tx_in_eq])
  show "encode_shelley_tx_outputs buf souts = buf @ outputs_bytes shelley_out_bytes souts"
    by (simp add: encode_shelley_tx_outputs_def outputs_bytes_def Let_def codec_bytes foldl_append_with [OF s])
  show "encode_mary_tx_outputs buf mouts = buf @ outputs_bytes mary_out_bytes mouts"
    by (simp add: encode_mary_tx_outputs_def outputs_bytes_def Let_def codec_bytes foldl_append_with [OF m])
qed

lemma reads_shelley_out:
  assumes "length (sto_address out) < 2 ^ 64"
  shows "reads decode_shelley_tx_out (shelley_out_bytes out) out"
proof -
  have "reads (\<lambda>data offset. rbind (read_uint data offset) (\<lambda>((x, _), offset).
      Ok (\<lparr>sto_address = sto_address out, sto_coin = x\<rparr>, offset))) (uint_bytes (sto_coin out)) out"
    using reads_last_uint [of "\<lambda>x. \<lparr>sto_address = sto_address out, sto_coin = x\<rparr>" "sto_coin out"]
    by (cases out) simp
  then show ?thesis
    unfolding decode_shelley_tx_out_def [abs_def] shelley_out_bytes_def
    by (intro reads_expect reads_string [OF assms])
qed

text \<open>Looking at the major type of the next item, without reading it.\<close>

lemma reads_peek:
  assumes "\<And>pre rest. peek_major (pre @ bs @ rest) (length pre) = Ok m" "reads (d m) bs v"
  shows "reads (\<lambda>data offset. rbind (peek_major data offset) (\<lambda>m. d m data offset)) bs v"
  using assms by (simp add: reads_def)

lemma peek_major_written:
  "peek_major (pre @ uint_bytes v @ rest) (length pre) = Ok MAJOR_UNSIGNED"
  "peek_major (pre @ (array_bytes n @ bs) @ rest) (length pre) = Ok MAJOR_ARRAY"
proof -
  have "read_uint (pre @ uint_bytes v @ rest) (length pre) = Ok ((v, canonical_width v), length pre + length (uint_bytes v))"
    using reads_written(1) [of v] by (simp add: reads_def)
  then show "peek_major (pre @ uint_bytes v @ rest) (length pre) = Ok MAJOR_UNSIGNED"
    by (auto simp: read_uint_def peek_major_def decode_initial_def read_byte_def result_simps split: if_splits)
  have "read_array_header (pre @ array_bytes n @ bs @ rest) (length pre) =
      Ok (ContainerEncoding.Definite n (canonical_width n), length pre + length (array_bytes n))"
    using reads_written(2) [of n] by (simp add: reads_def)
  then show "peek_major (pre @ (array_bytes n @ bs) @ rest) (length pre) = Ok MAJOR_ARRAY"
    by (auto simp: read_array_header_def peek_major_def decode_initial_def read_byte_def result_simps split: if_splits)
qed

definition mary_out_ok :: "MaryTxOut \<Rightarrow> bool" where
  "mary_out_ok out \<longleftrightarrow> length (mto_address out) < 2 ^ 64 \<and> opt_ok raw_ok (mto_multi_asset out)"

lemma reads_mary_out:
  assumes "mary_out_ok out"
  shows "reads decode_mary_tx_out (mary_out_bytes out) out"
proof -
  let ?a = "mto_address out"
  have a: "length ?a < 2 ^ 64" using assms by (simp add: mary_out_ok_def)
  let ?amount = "\<lambda>major data offset.
     if major = MAJOR_UNSIGNED then
       rbind (read_uint data offset) (\<lambda>((v, _), offset).
       Ok (\<lparr>mto_address = ?a, mto_coin = v, mto_multi_asset = None\<rparr>, offset))
     else if major = MAJOR_ARRAY then
       rbind (expect_array 2 ''Mary value array must be array(2)'' data offset) (\<lambda>(_, offset).
       rbind (read_uint data offset) (\<lambda>((coin_val, _), offset).
       rbind (read_raw_item data offset) (\<lambda>(ma, offset).
       Ok (\<lparr>mto_address = ?a, mto_coin = coin_val, mto_multi_asset = Some ma\<rparr>, offset))))
     else Err (UnexpectedCborType offset ''uint or array for Mary value'' major)"
  have u: "MAJOR_UNSIGNED \<noteq> MAJOR_ARRAY" by (simp add: cbor_consts)
  have "reads (\<lambda>data offset. rbind (peek_major data offset) (\<lambda>major. ?amount major data offset))
     (case mto_multi_asset out of None \<Rightarrow> uint_bytes (mto_coin out)
      | Some ma \<Rightarrow> array_bytes 2 @ uint_bytes (mto_coin out) @ ma) out"
  proof (cases "mto_multi_asset out")
    case None
    then have "out = \<lparr>mto_address = ?a, mto_coin = mto_coin out, mto_multi_asset = None\<rparr>" by (cases out) simp
    then have "reads (?amount MAJOR_UNSIGNED) (uint_bytes (mto_coin out)) out"
      using reads_last_uint [of "\<lambda>x. \<lparr>mto_address = ?a, mto_coin = x, mto_multi_asset = None\<rparr>" "mto_coin out"] by simp
    with None show ?thesis by (simp add: reads_peek [OF peek_major_written(1)])
  next
    case (Some ma)
    then have out: "\<lparr>mto_address = ?a, mto_coin = mto_coin out, mto_multi_asset = Some ma\<rparr> = out" by (cases out) simp
    have "reads read_raw_item ma ma" using assms Some by (simp add: mary_out_ok_def opt_ok_def reads_raw_item)
    from reads_bind_return [OF this, of "\<lambda>ma. \<lparr>mto_address = ?a, mto_coin = mto_coin out, mto_multi_asset = Some ma\<rparr>"]
    have "reads (?amount MAJOR_ARRAY) (array_bytes 2 @ uint_bytes (mto_coin out) @ ma) out"
      using u unfolding out by (auto intro!: reads_expect reads_uint)
    with Some show ?thesis by (simp add: reads_peek [OF peek_major_written(2)])
  qed
  then show ?thesis
    unfolding decode_mary_tx_out_def [abs_def] mary_out_bytes_def
    by (intro reads_expect reads_string [OF a])
qed

text \<open>Which bodies the codecs carry: inputs as a set of 32-byte hashes, vectors that fit in memory,
  and one CBOR item in each opaque field.\<close>

definition outputs_ok :: "nat \<Rightarrow> ('o \<Rightarrow> bool) \<Rightarrow> 'o list \<Rightarrow> bool" where
  "outputs_ok k P outs \<longleftrightarrow> length outs * k < 2 ^ 63 \<and> 0 < k \<and> list_all P outs"

definition shelley_body_ok :: "ShelleyTxBody \<Rightarrow> bool" where
  "shelley_body_ok b \<longleftrightarrow> inputs_ok (stb_inputs b)
     \<and> outputs_ok 32 (\<lambda>out. length (sto_address out) < 2 ^ 64) (stb_outputs b)
     \<and> opt_ok raw_ok (stb_certs b) \<and> opt_ok raw_ok (stb_withdrawals b) \<and> opt_ok raw_ok (stb_update b)
     \<and> opt_ok (\<lambda>h. length h = 32) (stb_metadata_hash b)"

definition allegra_body_ok :: "AllegraTxBody \<Rightarrow> bool" where
  "allegra_body_ok b \<longleftrightarrow> inputs_ok (atb_inputs b)
     \<and> outputs_ok 32 (\<lambda>out. length (sto_address out) < 2 ^ 64) (atb_outputs b)
     \<and> opt_ok raw_ok (atb_certs b) \<and> opt_ok raw_ok (atb_withdrawals b) \<and> opt_ok raw_ok (atb_update b)
     \<and> opt_ok (\<lambda>h. length h = 32) (atb_metadata_hash b)"

definition mary_body_ok :: "MaryTxBody \<Rightarrow> bool" where
  "mary_body_ok b \<longleftrightarrow> inputs_ok (mtb_inputs b) \<and> outputs_ok 56 mary_out_ok (mtb_outputs b)
     \<and> opt_ok raw_ok (mtb_certs b) \<and> opt_ok raw_ok (mtb_withdrawals b) \<and> opt_ok raw_ok (mtb_update b)
     \<and> opt_ok (\<lambda>h. length h = 32) (mtb_metadata_hash b) \<and> opt_ok raw_ok (mtb_mint b)"

lemma outputs_okD:
  assumes "outputs_ok k P outs"
  shows "length outs < 2 ^ 64" "\<not> capacity_overflow (word_of_nat (length outs)) k" "\<And>out. out \<in> set outs \<Longrightarrow> P out"
proof -
  have "length outs \<le> length outs * k" using assms by (simp add: outputs_ok_def)
  also have "\<dots> < 2 ^ 64" using assms unfolding outputs_ok_def by (elim conjE order.strict_trans) simp
  finally show n: "length outs < 2 ^ 64" .
  show "\<not> capacity_overflow (word_of_nat (length outs)) k"
    using assms by (simp add: capacity_overflow_def unat_count [OF n] outputs_ok_def)
  show "\<And>out. out \<in> set outs \<Longrightarrow> P out" using assms by (auto simp: outputs_ok_def list_all_iff)
qed

lemma reads_inputs: "inputs_ok ins \<Longrightarrow> reads decode_tx_inputs (inputs_bytes ins) ins"
  by (simp add: inputs_ok_def inputs_bytes_def reads_tx_inputs)

lemma reads_shelley_outputs:
  assumes "outputs_ok 32 (\<lambda>out. length (sto_address out) < 2 ^ 64) outs"
  shows "reads decode_shelley_tx_outputs (outputs_bytes shelley_out_bytes outs) outs"
  unfolding decode_shelley_tx_outputs_def outputs_bytes_def
  using outputs_okD [OF assms] by (intro reads_vec reads_lift reads_shelley_out)

lemma reads_mary_outputs:
  assumes "outputs_ok 56 mary_out_ok outs"
  shows "reads decode_mary_tx_outputs (outputs_bytes mary_out_bytes outs) outs"
  unfolding decode_mary_tx_outputs_def outputs_bytes_def
  using outputs_okD [OF assms] by (intro reads_vec reads_lift reads_mary_out)

text \<open>The entries of the three bodies, in the order they are written.\<close>

definition common_entries ::
  "bytes option \<Rightarrow> bytes option \<Rightarrow> bytes option \<Rightarrow> Hash32 option \<Rightarrow> 'o tx_fields entry list" where
  "common_entries certs withdrawals upd metadata =
     opt_entry 4 id (\<lambda>v f. f\<lparr>tf_certs := Some v\<rparr>) certs @
     opt_entry 5 id (\<lambda>v f. f\<lparr>tf_withdrawals := Some v\<rparr>) withdrawals @
     opt_entry 6 id (\<lambda>v f. f\<lparr>tf_update := Some v\<rparr>) upd @
     opt_entry 7 string_bytes (\<lambda>v f. f\<lparr>tf_metadata_hash := Some v\<rparr>) metadata"

definition leading_entries :: "('o \<Rightarrow> bytes) \<Rightarrow> TxIn list \<Rightarrow> 'o list \<Rightarrow> Coin \<Rightarrow> 'o tx_fields entry list" where
  "leading_entries enc ins outs fee =
     [(0, inputs_bytes ins, \<lambda>f. f\<lparr>tf_inputs := Some ins\<rparr>),
      (1, outputs_bytes enc outs, \<lambda>f. f\<lparr>tf_outputs := Some outs\<rparr>),
      (2, uint_bytes fee, \<lambda>f. f\<lparr>tf_fee := Some fee\<rparr>)]"

definition slot_entry :: "u64 \<Rightarrow> (SlotNo \<Rightarrow> 'o tx_fields \<Rightarrow> 'o tx_fields) \<Rightarrow> SlotNo option \<Rightarrow> 'o tx_fields entry list" where
  "slot_entry key upd x = opt_entry key uint_bytes upd x"

definition shelley_entries :: "ShelleyTxBody \<Rightarrow> ShelleyTxOut tx_fields entry list" where
  "shelley_entries b =
     leading_entries shelley_out_bytes (stb_inputs b) (stb_outputs b) (stb_fee b) @
     [(3, uint_bytes (stb_ttl b), \<lambda>f. f\<lparr>tf_ttl := Some (stb_ttl b)\<rparr>)] @
     common_entries (stb_certs b) (stb_withdrawals b) (stb_update b) (stb_metadata_hash b)"

definition allegra_entries :: "AllegraTxBody \<Rightarrow> ShelleyTxOut tx_fields entry list" where
  "allegra_entries b =
     leading_entries shelley_out_bytes (atb_inputs b) (atb_outputs b) (atb_fee b) @
     slot_entry 3 (\<lambda>v f. f\<lparr>tf_ttl := Some v\<rparr>) (atb_ttl b) @
     common_entries (atb_certs b) (atb_withdrawals b) (atb_update b) (atb_metadata_hash b) @
     slot_entry 8 (\<lambda>v f. f\<lparr>tf_validity_interval_start := Some v\<rparr>) (atb_validity_interval_start b)"

definition mary_entries :: "MaryTxBody \<Rightarrow> MaryTxOut tx_fields entry list" where
  "mary_entries b =
     leading_entries mary_out_bytes (mtb_inputs b) (mtb_outputs b) (mtb_fee b) @
     slot_entry 3 (\<lambda>v f. f\<lparr>tf_ttl := Some v\<rparr>) (mtb_ttl b) @
     common_entries (mtb_certs b) (mtb_withdrawals b) (mtb_update b) (mtb_metadata_hash b) @
     slot_entry 8 (\<lambda>v f. f\<lparr>tf_validity_interval_start := Some v\<rparr>) (mtb_validity_interval_start b) @
     opt_entry 9 id (\<lambda>v f. f\<lparr>tf_mint := Some v\<rparr>) (mtb_mint b)"

lemmas entries_defs = shelley_entries_def allegra_entries_def mary_entries_def leading_entries_def common_entries_def
  slot_entry_def

lemma entry_bytes_Cons: "entry_bytes ((key, bs, upd) # es) = uint_bytes key @ bs @ entry_bytes es"
  by (simp add: entry_bytes_def)

lemma entry_bytes_Nil: "entry_bytes [] = []"
  by (simp add: entry_bytes_def)

lemmas entry_simps = entry_bytes_Cons entry_bytes_Nil apply_entries_Cons apply_entries_Nil

lemma encode_body_eq:
  "encode_shelley_tx_body sb buf = buf @ map_bytes (word_of_nat (length (shelley_entries sb))) @ entry_bytes (shelley_entries sb)"
  "encode_allegra_tx_body ab buf = buf @ map_bytes (word_of_nat (length (allegra_entries ab))) @ entry_bytes (allegra_entries ab)"
  "encode_mary_tx_body mb buf = buf @ map_bytes (word_of_nat (length (mary_entries mb))) @ entry_bytes (mary_entries mb)"
  by (simp_all add: encode_shelley_tx_body_def encode_allegra_tx_body_def encode_mary_tx_body_def Let_def codec_bytes
      entries_defs entry_simps opt_count_def add.assoc)

lemma shelley_entries_read: "shelley_body_ok b \<Longrightarrow> list_all (entry_ok shelley_field) (shelley_entries b)"
  unfolding entries_defs list_all_append shelley_body_ok_def opt_ok_def
  by (auto intro!: opt_entry_ok reads_into reads_inputs reads_shelley_outputs reads_lift reads_raw_item reads_hash32
      reads_into [OF reads_lift [OF reads_written(1)], where upd = "\<lambda>(v, _). _ v", simplified]
      simp: entry_ok_def shelley_field_def [abs_def])

lemma allegra_entries_read: "allegra_body_ok b \<Longrightarrow> list_all (entry_ok allegra_field) (allegra_entries b)"
  unfolding entries_defs list_all_append allegra_body_ok_def opt_ok_def
  by (auto intro!: opt_entry_ok reads_into reads_inputs reads_shelley_outputs reads_lift reads_raw_item reads_hash32
      reads_into [OF reads_lift [OF reads_written(1)], where upd = "\<lambda>(v, _). _ v", simplified]
      simp: entry_ok_def allegra_field_def [abs_def])

lemma mary_entries_read: "mary_body_ok b \<Longrightarrow> list_all (entry_ok mary_field) (mary_entries b)"
  unfolding entries_defs list_all_append mary_body_ok_def opt_ok_def
  by (auto intro!: opt_entry_ok reads_into reads_inputs reads_mary_outputs reads_lift reads_raw_item reads_hash32
      reads_into [OF reads_lift [OF reads_written(1)], where upd = "\<lambda>(v, _). _ v", simplified]
      simp: entry_ok_def mary_field_def [abs_def])

lemma entries_applied:
  "apply_entries (shelley_entries sb) no_fields = no_fields\<lparr>tf_inputs := Some (stb_inputs sb),
     tf_outputs := Some (stb_outputs sb), tf_fee := Some (stb_fee sb), tf_ttl := Some (stb_ttl sb),
     tf_certs := stb_certs sb, tf_withdrawals := stb_withdrawals sb, tf_update := stb_update sb,
     tf_metadata_hash := stb_metadata_hash sb\<rparr>"
  "apply_entries (allegra_entries ab) no_fields = no_fields\<lparr>tf_inputs := Some (atb_inputs ab),
     tf_outputs := Some (atb_outputs ab), tf_fee := Some (atb_fee ab), tf_ttl := atb_ttl ab,
     tf_certs := atb_certs ab, tf_withdrawals := atb_withdrawals ab, tf_update := atb_update ab,
     tf_metadata_hash := atb_metadata_hash ab, tf_validity_interval_start := atb_validity_interval_start ab\<rparr>"
  "apply_entries (mary_entries mb) no_fields = no_fields\<lparr>tf_inputs := Some (mtb_inputs mb),
     tf_outputs := Some (mtb_outputs mb), tf_fee := Some (mtb_fee mb), tf_ttl := mtb_ttl mb,
     tf_certs := mtb_certs mb, tf_withdrawals := mtb_withdrawals mb, tf_update := mtb_update mb,
     tf_metadata_hash := mtb_metadata_hash mb, tf_validity_interval_start := mtb_validity_interval_start mb,
     tf_mint := mtb_mint mb\<rparr>"
  by (simp_all add: entries_defs entry_simps no_fields_def apply_opt_entry)

lemma entries_few:
  "length (shelley_entries sb) < 2 ^ 64" "length (allegra_entries ab) < 2 ^ 64" "length (mary_entries mb) < 2 ^ 64"
  by (simp_all add: entries_defs)

lemma reads_shelley_body:
  "shelley_body_ok sb \<Longrightarrow> reads decode_shelley_tx_body (encode_shelley_tx_body sb []) sb"
  using reads_body_fields [OF shelley_entries_read entries_few(1)]
  by (simp add: reads_def encode_body_eq decode_shelley_tx_body_def entries_applied)

lemma reads_allegra_body:
  "allegra_body_ok ab \<Longrightarrow> reads decode_allegra_tx_body (encode_allegra_tx_body ab []) ab"
  using reads_body_fields [OF allegra_entries_read entries_few(2)]
  by (simp add: reads_def encode_body_eq decode_allegra_tx_body_def entries_applied)

lemma reads_mary_body:
  "mary_body_ok mb \<Longrightarrow> reads decode_mary_tx_body (encode_mary_tx_body mb []) mb"
  using reads_body_fields [OF mary_entries_read entries_few(3)]
  by (simp add: reads_def encode_body_eq decode_mary_tx_body_def entries_applied)

section \<open>Byron\<close>

definition byron_in_ok :: "ByronTxIn \<Rightarrow> bool" where
  "byron_in_ok i \<longleftrightarrow> length (bti_tx_hash i) = 32"

definition byron_in_bytes :: "ByronTxIn \<Rightarrow> bytes" where
  "byron_in_bytes i = array_bytes 2 @ uint_bytes 0 @ [0xd8, 0x18] @
     string_bytes (array_bytes 2 @ string_bytes (bti_tx_hash i) @ uint_bytes (ucast (bti_index i)))"

definition byron_out_bytes :: "ByronTxOut \<Rightarrow> bytes" where
  "byron_out_bytes out = array_bytes 2 @ bto_address out @ uint_bytes (bto_coin out)"

definition byron_witness_bytes :: "ByronWitness \<Rightarrow> bytes" where
  "byron_witness_bytes w = array_bytes 2 @ uint_bytes (ucast (bw_witness_type w)) @ [0xd8, 0x18] @
     string_bytes (array_bytes 2 @ string_bytes (bw_xvk w) @ string_bytes (bw_signature w))"

lemma write_tag24_append [codec_bytes]: "write_tag buf 24 I8 = buf @ [0xd8, 0x18]"
  using write_tag24 unfolding write_tag_def by (subst write_argument_append) simp

lemma byron_encode_eq [codec_bytes]:
  "encode_byron_tx_in i buf = buf @ byron_in_bytes i"
  "encode_byron_tx_out out buf = buf @ byron_out_bytes out"
  "encode_byron_witness w buf = buf @ byron_witness_bytes w"
  by (simp_all add: encode_byron_tx_in_def encode_byron_tx_out_def encode_byron_witness_def Let_def codec_bytes
      byron_in_bytes_def byron_out_bytes_def byron_witness_bytes_def)

lemma foldl_append_concat [codec_bytes]: "foldl (\<lambda>b x. b @ g x) buf xs = buf @ concat (map g xs)"
  by (rule foldl_append_with) simp

lemma reads_tag24: "reads read_tag [0xd8, 0x18] (24, I8)"
proof -
  have "reads read_tag (write_tag [] 24 I8) (24, I8)"
  proof (rule reads_encoder)
    have m: "MAJOR_TAG \<le> 7" "width_fits 24 I8" by (simp_all add: cbor_consts width_fits_def)
    then show "read_tag (write_tag buf 24 I8 @ rest) (length buf) = Ok ((24, I8), length (write_tag buf 24 I8))" for buf rest
      by (simp add: read_tag_def write_tag_def decode_initial_written decode_argument_after_initial)
    show "write_tag buf 24 I8 = buf @ write_tag [] 24 I8" for buf
      unfolding write_tag_def by (rule write_argument_append)
  qed
  then show ?thesis by (simp add: write_tag24)
qed

lemma reads_embedded:
  assumes "length (array_bytes 2 @ bs) < 2 ^ 64" "reads inner bs v"
  shows "reads (read_embedded e e' inner) ([0xd8, 0x18] @ string_bytes (array_bytes 2 @ bs)) v"
proof -
  let ?str = "string_bytes (array_bytes 2 @ bs)"
  have h: "read_array_header (array_bytes 2 @ bs) 0 =
      Ok (ContainerEncoding.Definite 2 (canonical_width 2), length (array_bytes 2))"
    using reads_at [OF reads_written(2) [of 2], of "[]" bs] by simp
  have i: "inner (array_bytes 2 @ bs) (length (array_bytes 2)) = Ok (v, length (array_bytes 2) + length bs)"
    using reads_at [OF assms(2), of "array_bytes 2" "[]"] by simp
  have "reads (\<lambda>data offset. rbind (read_bytes data offset) (\<lambda>((inner_bytes, _), offset).
     rbind (read_array_header inner_bytes 0) (\<lambda>(inner_enc, inner_offset).
     if \<not> is_definite inner_enc 2 then Err (InvalidCborStructure offset e')
     else rbind (inner inner_bytes inner_offset) (\<lambda>(v, _). Ok (v, offset))))) ?str v" (is "reads ?d _ _")
    using reads_written_strings(1) [OF assms(1)] by (simp add: reads_def h i)
  from reads_bind [OF reads_tag24, where d' = "\<lambda>p data offset.
      if fst p \<noteq> 24 then Err (InvalidCborStructure offset e) else ?d data offset", of ?str v] this
  show ?thesis unfolding read_embedded_def [abs_def] by (simp add: case_prod_unfold)
qed

lemma length_small_bytes: "length (array_bytes 2) = 1" "length (uint_bytes v) \<le> 9" "length (string_bytes bs) \<le> 9 + length bs"
proof -
  have w: "width_size (canonical_width n) \<le> 9" for n by (simp add: width_size_def canonical_width_def)
  show "length (array_bytes 2) = 1"
    by (simp add: array_bytes_def encode_array_header_def write_array_header_def canonical_width_def write_argument_def Let_def)
  show "length (uint_bytes v) \<le> 9"
    using w [of v] by (simp add: uint_bytes_def encode_u64_def write_uint_canonical_def length_write_argument canonical_width_fits)
  show "length (string_bytes bs) \<le> 9 + length bs"
    using w [of "word_of_nat (length bs)"]
    by (simp add: string_bytes_def encode_bytes_def write_bytes_canonical_def Let_def length_write_argument canonical_width_fits)
qed

lemma byron_records:
  "\<lparr>bti_tx_hash = bti_tx_hash i, bti_index = bti_index i\<rparr> = i"
  "\<lparr>bto_address = bto_address out, bto_coin = bto_coin out\<rparr> = out"
  "\<lparr>btb_inputs = btb_inputs b, btb_outputs = btb_outputs b, btb_attributes = btb_attributes b\<rparr> = b"
  "\<lparr>bw_witness_type = bw_witness_type w, bw_xvk = bw_xvk w, bw_signature = bw_signature w\<rparr> = w"
  "\<lparr>btx_body = btx_body tx, btx_witnesses = btx_witnesses tx\<rparr> = tx"
  by simp_all

lemma reads_byron_in:
  assumes "byron_in_ok i"
  shows "reads decode_byron_tx_in (byron_in_bytes i) i"
proof -
  let ?bs = "string_bytes (bti_tx_hash i) @ uint_bytes (ucast (bti_index i))"
  have "reads (\<lambda>data offset. rbind (read_hash32 data offset) (\<lambda>(h, offset).
      rbind (read_uint data offset) (\<lambda>((index, _), offset). Ok (\<lparr>bti_tx_hash = h, bti_index = ucast index\<rparr>, offset)))) ?bs i"
    using assms reads_last_uint [of "\<lambda>x. \<lparr>bti_tx_hash = bti_tx_hash i, bti_index = ucast x\<rparr>" "ucast (bti_index i)"]
    by (intro reads_bind [OF reads_hash32]) (simp_all add: byron_in_ok_def u32_through_u64 byron_records)
  moreover have "length (array_bytes 2 @ ?bs) < 2 ^ 64"
    using length_small_bytes(2) [of "ucast (bti_index i)"] length_small_bytes(3) [of "bti_tx_hash i"] assms
    by (simp add: length_small_bytes(1) byron_in_ok_def)
  ultimately show ?thesis
    unfolding decode_byron_tx_in_def [abs_def] byron_in_bytes_def
    using reads_uint [of "\<lambda>_. read_embedded _ _ _"] by (intro reads_expect) (force intro: reads_embedded simp: case_prod_unfold)
qed


definition byron_witness_ok :: "ByronWitness \<Rightarrow> bool" where
  "byron_witness_ok w \<longleftrightarrow> length (bw_xvk w) + length (bw_signature w) < 2 ^ 63"

lemma u8_through_u64: "ucast (ucast (i :: u8) :: u64) = i"
  using unsigned_less [of i, where 'a = nat] by (simp add: word_unat_eq_iff unat_ucast_narrow)

lemma reads_byron_witness:
  assumes "byron_witness_ok w"
  shows "reads decode_byron_witness (byron_witness_bytes w) w"
proof -
  let ?bs = "string_bytes (bw_xvk w) @ string_bytes (bw_signature w)"
  let ?inner = "\<lambda>t inner_bytes inner_offset.
          rbind (read_bytes inner_bytes inner_offset) (\<lambda>((xvk, _), inner_offset).
          rbind (read_bytes inner_bytes inner_offset) (\<lambda>((signature, _), inner_offset).
          Ok (\<lparr>bw_witness_type = ucast (t :: u64), bw_xvk = xvk, bw_signature = signature\<rparr>, inner_offset)))"
  have l: "length (bw_xvk w) < 2 ^ 64" "length (bw_signature w) < 2 ^ 64" using assms by (simp_all add: byron_witness_ok_def)
  have "reads (?inner (ucast (bw_witness_type w))) (?bs @ []) w"
    unfolding append_assoc
    by (intro reads_string [OF l(1)] reads_string [OF l(2)]) (simp add: reads_def u8_through_u64 byron_records)
  then have i: "reads (?inner (ucast (bw_witness_type w))) ?bs w" by simp
  have "length (array_bytes 2 @ ?bs) < 2 ^ 64"
    using length_small_bytes(3) [of "bw_xvk w"] length_small_bytes(3) [of "bw_signature w"] assms
    by (simp add: length_small_bytes(1) byron_witness_ok_def)
  from reads_embedded [OF this i] show ?thesis
    unfolding decode_byron_witness_def [abs_def] byron_witness_bytes_def
    by (intro reads_expect reads_uint)
qed

lemma reads_byron_out:
  assumes "raw_ok (bto_address out)"
  shows "reads decode_byron_tx_out (byron_out_bytes out) out"
  unfolding decode_byron_tx_out_def [abs_def] byron_out_bytes_def
  using reads_last_uint [of "\<lambda>x. \<lparr>bto_address = bto_address out, bto_coin = x\<rparr>" "bto_coin out"]
  by (intro reads_expect reads_bind [OF reads_raw_item [OF assms]]) (simp add: byron_records)

definition byron_body_ok :: "ByronTxBody \<Rightarrow> bool" where
  "byron_body_ok b \<longleftrightarrow> list_all byron_in_ok (btb_inputs b) \<and> list_all (\<lambda>out. raw_ok (bto_address out)) (btb_outputs b)
     \<and> raw_ok (btb_attributes b)"

definition byron_tx_ok :: "ByronTx \<Rightarrow> bool" where
  "byron_tx_ok tx \<longleftrightarrow> byron_body_ok (btx_body tx) \<and> list_all byron_witness_ok (btx_witnesses tx)"

text \<open>The array headers of the Byron encoder always have the width of a count below 24.\<close>

definition byron_small :: "ByronTx \<Rightarrow> bool" where
  "byron_small tx \<longleftrightarrow> length (btb_inputs (btx_body tx)) < 24 \<and> length (btb_outputs (btx_body tx)) < 24
     \<and> length (btx_witnesses tx) < 24"

lemma small_header [codec_bytes]:
  "n < 24 \<Longrightarrow> write_array_header buf (ContainerEncoding.Definite (word_of_nat n) Inline) = buf @ array_bytes (word_of_nat n)"
  by (rule write_appends(4)) (simp add: word_le_nat_alt unat_of_nat)

lemma reads_small_vec:
  assumes "length vs < 24" "k \<le> 120" "list_all P vs" "\<And>v. P v \<Longrightarrow> reads d (enc v) v"
  shows "reads (read_definite_vec detail k (lift_reader d)) (array_bytes (word_of_nat (length vs)) @ concat (map enc vs)) vs"
proof (rule reads_definite_vec)
  show l: "length vs < 2 ^ 64" using assms(1) by simp
  have "length vs * k \<le> 24 * 120" using assms(1,2) by (intro mult_le_mono) simp_all
  then show "\<not> capacity_overflow (word_of_nat (length vs)) k" by (simp add: capacity_overflow_def unat_count [OF l])
  show "v \<in> set vs \<Longrightarrow> reads (lift_reader d) (enc v) v" for v using assms(3,4) by (auto simp: list_all_iff intro: reads_lift)
qed

lemma encode_byron_body_eq:
  assumes "length (btb_inputs b) < 24" "length (btb_outputs b) < 24"
  shows "encode_byron_tx_body b buf = buf @ array_bytes 3 @
     (array_bytes (word_of_nat (length (btb_inputs b))) @ concat (map byron_in_bytes (btb_inputs b))) @
     (array_bytes (word_of_nat (length (btb_outputs b))) @ concat (map byron_out_bytes (btb_outputs b))) @ btb_attributes b"
  using assms small_header [of 3]
  by (simp add: encode_byron_tx_body_def Let_def codec_bytes)

lemma reads_byron_body:
  assumes "byron_body_ok b" "length (btb_inputs b) < 24" "length (btb_outputs b) < 24"
  shows "reads decode_byron_tx_body (encode_byron_tx_body b []) b"
proof -
  have i: "reads decode_byron_tx_inputs
      (array_bytes (word_of_nat (length (btb_inputs b))) @ concat (map byron_in_bytes (btb_inputs b))) (btb_inputs b)"
    unfolding decode_byron_tx_inputs_def
    using assms by (intro reads_small_vec [where P = byron_in_ok] reads_byron_in) (simp_all add: byron_body_ok_def)
  have o: "reads decode_byron_tx_outputs
      (array_bytes (word_of_nat (length (btb_outputs b))) @ concat (map byron_out_bytes (btb_outputs b))) (btb_outputs b)"
    unfolding decode_byron_tx_outputs_def
    using assms by (intro reads_small_vec [where P = "\<lambda>out. raw_ok (bto_address out)"] reads_byron_out) (simp_all add: byron_body_ok_def)
  have a: "reads (\<lambda>data offset. rbind (lift_reader read_raw_item data offset) (\<lambda>(attributes, offset).
      Ok (\<lparr>btb_inputs = btb_inputs b, btb_outputs = btb_outputs b, btb_attributes = attributes\<rparr>, offset))) (btb_attributes b) b"
    using reads_bind_return [OF reads_lift [OF reads_raw_item [of "btb_attributes b"]],
        of "\<lambda>x. \<lparr>btb_inputs = btb_inputs b, btb_outputs = btb_outputs b, btb_attributes = x\<rparr>"] assms(1)
    by (simp add: byron_body_ok_def byron_records)
  show ?thesis
    unfolding decode_byron_tx_body_def [abs_def] encode_byron_body_eq [OF assms(2,3)] append_Nil
    by (rule reads_bind [OF reads_lift [OF reads_expect_array]], rule reads_bind [OF i], rule reads_bind [OF o], rule a)
qed

lemma array_header_append: "write_array_header buf e = buf @ write_array_header [] e"
  by (cases e) (simp_all add: write_array_header_def, rule write_argument_append)

lemma encode_byron_body_shape:
  "encode_byron_tx_body b buf = buf @ write_array_header [] (ContainerEncoding.Definite 3 Inline) @
     write_array_header [] (ContainerEncoding.Definite (word_of_nat (length (btb_inputs b))) Inline) @
     concat (map byron_in_bytes (btb_inputs b)) @
     write_array_header [] (ContainerEncoding.Definite (word_of_nat (length (btb_outputs b))) Inline) @
     concat (map byron_out_bytes (btb_outputs b)) @ btb_attributes b"
  by (simp add: encode_byron_tx_body_def Let_def byron_encode_eq foldl_append_concat
      array_header_append [of "buf"] array_header_append [of "_ @ _"])

lemma encode_byron_body_append: "encode_byron_tx_body b buf = buf @ encode_byron_tx_body b []"
  by (simp add: encode_byron_body_shape)

lemma reads_byron_tx:
  assumes "byron_tx_ok tx" "byron_small tx"
  shows "reads decode_byron_tx (encode_byron_tx tx []) tx"
proof -
  let ?b = "btx_body tx" and ?w = "btx_witnesses tx"
  have eq: "encode_byron_tx tx [] = array_bytes 2 @ encode_byron_tx_body ?b [] @
      (array_bytes (word_of_nat (length ?w)) @ concat (map byron_witness_bytes ?w))"
    using assms(2) encode_byron_body_append [of ?b "array_bytes 2"]
    by (simp add: encode_byron_tx_def Let_def codec_bytes byron_small_def)
  have w: "reads (read_definite_vec ''Byron witnesses must be definite-length array'' 56 (lift_reader decode_byron_witness))
      (array_bytes (word_of_nat (length ?w)) @ concat (map byron_witness_bytes ?w)) ?w"
    using assms by (intro reads_small_vec [where P = byron_witness_ok] reads_byron_witness)
      (simp_all add: byron_tx_ok_def byron_small_def)
  have b: "reads decode_byron_tx_body (encode_byron_tx_body ?b []) ?b"
    using assms by (intro reads_byron_body) (simp_all add: byron_tx_ok_def byron_small_def)
  have w': "reads (\<lambda>data offset. rbind (read_definite_vec ''Byron witnesses must be definite-length array'' 56
        (lift_reader decode_byron_witness) data offset) (\<lambda>(w, offset). Ok (\<lparr>btx_body = ?b, btx_witnesses = w\<rparr>, offset)))
      (array_bytes (word_of_nat (length ?w)) @ concat (map byron_witness_bytes ?w)) tx"
    using reads_bind_return [OF w, of "\<lambda>w. \<lparr>btx_body = ?b, btx_witnesses = w\<rparr>"] by (simp add: byron_records)
  show ?thesis
    unfolding decode_byron_tx_def [abs_def] eq
    by (rule reads_bind [OF reads_lift [OF reads_expect_array]], rule reads_bind [OF b], rule w')
qed

text \<open>
  C10. Transactions of every era up to Mary are read back as they were written, wherever they stand in
  the data: post-Byron bodies with any combination of optional fields and any number of inputs and
  outputs that fits in memory, Byron transactions with fewer than 24 inputs, outputs and witnesses.
\<close>

theorem tx_body_roundtrip:
  "(shelley_body_ok sb \<longrightarrow> decode_shelley_tx_body (pre @ encode_shelley_tx_body sb [] @ rest) (length pre) =
      Ok (sb, length pre + length (encode_shelley_tx_body sb []))) \<and>
   (allegra_body_ok ab \<longrightarrow> decode_allegra_tx_body (pre @ encode_allegra_tx_body ab [] @ rest) (length pre) =
      Ok (ab, length pre + length (encode_allegra_tx_body ab []))) \<and>
   (mary_body_ok mb \<longrightarrow> decode_mary_tx_body (pre @ encode_mary_tx_body mb [] @ rest) (length pre) =
      Ok (mb, length pre + length (encode_mary_tx_body mb []))) \<and>
   (byron_tx_ok tx \<and> byron_small tx \<longrightarrow> decode_byron_tx (pre @ encode_byron_tx tx [] @ rest) (length pre) =
      Ok (tx, length pre + length (encode_byron_tx tx [])))"
  by (simp add: reads_at [OF reads_shelley_body] reads_at [OF reads_allegra_body] reads_at [OF reads_mary_body]
      reads_at [OF reads_byron_tx])

definition sample_shelley_body :: ShelleyTxBody where
  "sample_shelley_body = \<lparr>stb_inputs = [TxIn (replicate 32 1) 0, TxIn (replicate 32 1) 7],
     stb_outputs = [\<lparr>sto_address = [0x61], sto_coin = 5\<rparr>], stb_fee = 2, stb_ttl = 100, stb_certs = Some [0x80],
     stb_withdrawals = None, stb_update = None, stb_metadata_hash = None\<rparr>"

definition sample_allegra_body :: AllegraTxBody where
  "sample_allegra_body = \<lparr>atb_inputs = [TxIn (replicate 32 1) 0], atb_outputs = [\<lparr>sto_address = [0x61], sto_coin = 5\<rparr>],
     atb_fee = 2, atb_ttl = None, atb_certs = None, atb_withdrawals = Some [0x80], atb_update = None,
     atb_metadata_hash = Some (replicate 32 9), atb_validity_interval_start = Some 3\<rparr>"

definition sample_mary_body :: MaryTxBody where
  "sample_mary_body = \<lparr>mtb_inputs = [TxIn (replicate 32 1) 0],
     mtb_outputs = [\<lparr>mto_address = [0x61], mto_coin = 5, mto_multi_asset = Some [0x80]\<rparr>],
     mtb_fee = 2, mtb_ttl = Some 8, mtb_certs = None, mtb_withdrawals = None, mtb_update = None,
     mtb_metadata_hash = None, mtb_validity_interval_start = None, mtb_mint = Some [0]\<rparr>"

definition sample_byron_tx :: ByronTx where
  "sample_byron_tx = \<lparr>btx_body = \<lparr>btb_inputs = [\<lparr>bti_tx_hash = replicate 32 1, bti_index = 4\<rparr>],
       btb_outputs = [\<lparr>bto_address = [0x80], bto_coin = 5\<rparr>], btb_attributes = [0x80]\<rparr>,
     btx_witnesses = [\<lparr>bw_witness_type = 0, bw_xvk = [7], bw_signature = [8]\<rparr>]\<rparr>"

lemma raw_ok_small: "raw_ok [0x80]" "raw_ok [0]"
proof -
  have "skip_item [0x80] 0 = Ok ((0, 1), 1)" "skip_item [0] 0 = Ok ((0, 1), 1)" by code_simp+
  then show "raw_ok [0x80]" "raw_ok [0]" by (auto simp: raw_ok_def skip_item_Ok)
qed

lemma sample_bodies_ok:
  "shelley_body_ok sample_shelley_body" "allegra_body_ok sample_allegra_body" "mary_body_ok sample_mary_body"
  "byron_tx_ok sample_byron_tx" "byron_small sample_byron_tx"
  by (simp_all add: sample_shelley_body_def shelley_body_ok_def inputs_ok_def set_wf_def outputs_ok_def opt_ok_def
      less_TxIn_def raw_ok_small sample_allegra_body_def allegra_body_ok_def sample_mary_body_def mary_body_ok_def
      mary_out_ok_def sample_byron_tx_def byron_tx_ok_def byron_body_ok_def byron_in_ok_def byron_witness_ok_def
      byron_small_def)

theorem tx_body_roundtrip_witness:
  "decode_shelley_tx_body (encode_shelley_tx_body sample_shelley_body []) 0 =
     Ok (sample_shelley_body, length (encode_shelley_tx_body sample_shelley_body [])) \<and>
   decode_allegra_tx_body (encode_allegra_tx_body sample_allegra_body []) 0 =
     Ok (sample_allegra_body, length (encode_allegra_tx_body sample_allegra_body [])) \<and>
   decode_mary_tx_body (encode_mary_tx_body sample_mary_body []) 0 =
     Ok (sample_mary_body, length (encode_mary_tx_body sample_mary_body [])) \<and>
   decode_byron_tx (encode_byron_tx sample_byron_tx []) 0 =
     Ok (sample_byron_tx, length (encode_byron_tx sample_byron_tx []))"
  using tx_body_roundtrip [of sample_shelley_body "[]" "[]" sample_allegra_body sample_mary_body sample_byron_tx]
  by (simp add: sample_bodies_ok)

lemma read_count_length: "read_count n d data offset = Ok (vs, e) \<Longrightarrow> length vs = n"
  by (induction n arbitrary: offset vs) (auto simp: result_simps split: prod.splits)

text \<open>
  The Byron encoder writes array counts in the width of small ones: 24 inputs give a header byte
  that announces a one-byte count, and the first byte of the first input is taken for it. What
  was written for a body of 24 inputs is never read back as that body.
\<close>

theorem byron_reencoding_breaks:
  assumes "length (btb_inputs b) = 24"
  shows "decode_byron_tx_body (encode_byron_tx_body b []) 0 \<noteq> Ok (b, e)"
proof
  assume ok: "decode_byron_tx_body (encode_byron_tx_body b []) 0 = Ok (b, e)"
  obtain i rest_in where i: "btb_inputs b = i # rest_in" using assms by (cases "btb_inputs b") auto
  have two: "array_bytes 2 = [0x82]" "array_bytes 3 = [0x83]"
    by (simp_all add: array_bytes_def encode_array_header_def write_array_header_def canonical_width_def write_argument_def
        Let_def cbor_consts)
  have h: "write_array_header [] (ContainerEncoding.Definite 24 Inline) = [0x98]"
    "write_array_header [] (ContainerEncoding.Definite 3 Inline) = [0x83]"
    by (simp_all add: write_array_header_def write_argument_def Let_def cbor_consts)
  have "word_of_nat (length (btb_inputs b)) = (24 :: u64)" by (simp add: assms)
  then obtain rest where enc: "encode_byron_tx_body b [] = [0x83, 0x98, 0x82] @ rest"
    unfolding encode_byron_body_shape by (simp only: h) (simp add: i byron_in_bytes_def two)
  have "expect_array 3 d (encode_byron_tx_body b []) 0 = Ok ((), 1)" for d
    using reads_at [OF reads_expect_array [of 3 d], of "[]" "0x98 # 0x82 # rest"] by (simp add: enc two)
  moreover have "read_array_header (encode_byron_tx_body b []) 1 = Ok (ContainerEncoding.Definite 130 I8, 3)"
    by (simp add: enc read_array_header_def decode_initial_def read_byte_def peek_byte_def decode_argument_def cbor_consts
        drop_bit_eq_div)
  ultimately have "length (btb_inputs b) = 130"
    using ok by (auto simp: decode_byron_tx_body_def lift_reader_def decode_byron_tx_inputs_def read_definite_vec_def
        result_simps dest!: read_count_length split: if_splits prod.splits)
  with assms show False by simp
qed

definition sample_byron_body :: ByronTxBody where
  "sample_byron_body = \<lparr>btb_inputs = replicate 24 \<lparr>bti_tx_hash = replicate 32 1, bti_index = 0\<rparr>,
     btb_outputs = [], btb_attributes = [0xa0]\<rparr>"

theorem byron_reencoding_breaks_witness:
  "decode_byron_tx_body (encode_byron_tx_body sample_byron_body []) 0 \<noteq>
     Ok (sample_byron_body, length (encode_byron_tx_body sample_byron_body []))"
  by (rule byron_reencoding_breaks) (simp add: sample_byron_body_def)

end
