(* ===== verification/Cert_Codec.thy ===== *)
theory Cert_Codec
  imports Delegation Tx_Roundtrip Protocol_Codec
begin

text \<open>
  Certificates on the wire: the Shelley decoder (\<^verbatim>\<open>ade_codec/src/shelley/cert.rs\<close>), the closed
  Conway grammar (\<^verbatim>\<open>ade_types/src/conway/cert.rs\<close>, \<^verbatim>\<open>ade_codec/src/conway/cert.rs\<close>) and the
  withdrawals of a Conway transaction (\<^verbatim>\<open>ade_codec/src/conway/withdrawals.rs\<close>). Shown: the Conway
  decoder reads every certificate of the CDDL grammar, with any anchors, relays and metadata
  behind the fields it keeps; the withdrawals decoder reads exactly the listed amounts; and the
  Shelley decoder takes certificates it does not know for registrations of a zero credential.
\<close>

section \<open>Conway certificates\<close>

datatype DRep = KeyHash Hash28 | ScriptHash Hash28 | AlwaysAbstain | AlwaysNoConfidence

datatype ConwayCert =
    AccountRegistration StakeCredential
  | AccountUnregistration StakeCredential
  | StakeDelegation StakeCredential PoolId
  | PoolRegistration PoolRegistrationCert
  | PoolRetirement PoolId EpochNo
  | RemovedInConway u64
  | AccountRegistrationDeposit StakeCredential Coin
  | AccountUnregistrationDeposit StakeCredential Coin
  | VoteDelegation StakeCredential DRep
  | StakeVoteDelegation StakeCredential PoolId DRep
  | StakeRegistrationDelegation StakeCredential PoolId Coin
  | VoteRegistrationDelegation StakeCredential DRep Coin
  | StakeVoteRegistrationDelegation StakeCredential PoolId DRep Coin
  | AuthCommitteeHot StakeCredential StakeCredential
  | ResignCommitteeCold StakeCredential
  | DRepRegistration StakeCredential Coin
  | DRepUnregistration StakeCredential Coin
  | DRepUpdate StakeCredential

section \<open>Fields\<close>

definition read_hash28 :: "Hash28 reader" where
  "read_hash28 data offset =
     rbind (read_bytes data offset) (\<lambda>((bytes, _), offset).
     if length bytes \<noteq> 28 then Err (InvalidLength (offset - length bytes) ''expected 28-byte hash'')
     else Ok (bytes, offset))"

definition read_pool_id :: "PoolId reader" where
  "read_pool_id = read_hash28"

definition read_coin :: "Coin reader" where
  "read_coin data offset = rbind (read_uint data offset) (\<lambda>((v, _), offset). Ok (v, offset))"

definition decode_stake_credential :: "StakeCredential reader" where
  "decode_stake_credential data offset =
     rbind (expect_array 2 ''stake credential must be array(2)'' data offset) (\<lambda>(_, cred_type_offset).
     rbind (read_uint data cred_type_offset) (\<lambda>((cred_type, _), offset).
     rbind (read_hash28 data offset) (\<lambda>(h, offset).
     if cred_type = 0 then Ok (StakeCredential.KeyHash h, offset)
     else if cred_type = 1 then Ok (StakeCredential.ScriptHash h, offset)
     else Err (InvalidCborStructure cred_type_offset ''unknown stake credential type''))))"

fun non_empty_definite :: "ContainerEncoding \<Rightarrow> bool" where
  "non_empty_definite (ContainerEncoding.Definite n _) = (1 \<le> n)"
| "non_empty_definite ContainerEncoding.Indefinite = False"

definition decode_drep :: "DRep reader" where
  "decode_drep data offset =
     rbind (read_array_header data offset) (\<lambda>(enc, variant_offset).
     if \<not> non_empty_definite enc
     then Err (InvalidCborStructure variant_offset ''drep must be a non-empty definite-length array'')
     else rbind (read_uint data variant_offset) (\<lambda>((variant, _), offset).
     if variant = 0 then rbind (read_hash28 data offset) (\<lambda>(h, offset). Ok (DRep.KeyHash h, offset))
     else if variant = 1 then rbind (read_hash28 data offset) (\<lambda>(h, offset). Ok (DRep.ScriptHash h, offset))
     else if variant = 2 then Ok (AlwaysAbstain, offset)
     else if variant = 3 then Ok (AlwaysNoConfidence, offset)
     else Err (InvalidCborStructure variant_offset ''unknown drep variant tag'')))"

text \<open>\<^verbatim>\<open>if cbor::peek_major(data, offset)? == 6 { read_tag }\<close>, the optional tag of a set.\<close>

definition skip_set_tag :: "unit reader" where
  "skip_set_tag data offset =
     rbind (peek_major data offset) (\<lambda>major.
     if major = 6 then rbind (read_tag data offset) (\<lambda>(_, offset). Ok ((), offset)) else Ok ((), offset))"

text \<open>An array of either form whose reserved capacity is bounded by the length of the input.\<close>

definition read_bounded_vec :: "'a tx_reader \<Rightarrow> 'a list tx_reader" where
  "read_bounded_vec d data offset =
     rbind (map_err Fail (read_array_header data offset)) (\<lambda>(enc, offset).
     case enc of
       ContainerEncoding.Definite n _ \<Rightarrow> read_count (unat n) d data offset
     | ContainerEncoding.Indefinite \<Rightarrow>
         rbind (read_to_break (length data - offset) d data offset) (\<lambda>(vs, offset). Ok (vs, offset + 1)))"

definition read_addr_keyhash_set :: "Hash28 list tx_reader" where
  "read_addr_keyhash_set data offset =
     rbind (lift_reader skip_set_tag data offset) (\<lambda>(_, offset). read_bounded_vec (lift_reader read_hash28) data offset)"

definition read_pool_registration_cert :: "PoolRegistrationCert tx_reader" where
  "read_pool_registration_cert data offset =
     rbind (lift_reader read_pool_id data offset) (\<lambda>(pool_id, offset).
     rbind (lift_reader read_hash32 data offset) (\<lambda>(vrf_hash, offset).
     rbind (lift_reader read_uint data offset) (\<lambda>((pledge, _), offset).
     rbind (lift_reader read_uint data offset) (\<lambda>((cost, _), offset).
     rbind (lift_reader read_tag data offset) (\<lambda>(_, offset).
     rbind (lift_reader (expect_array 2 ''pool margin must be array(2)'') data offset) (\<lambda>(_, offset).
     rbind (lift_reader read_uint data offset) (\<lambda>((margin_num, _), offset).
     rbind (lift_reader read_uint data offset) (\<lambda>((margin_den, _), offset).
     rbind (lift_reader read_bytes data offset) (\<lambda>((reward_account, _), offset).
     rbind (read_addr_keyhash_set data offset) (\<lambda>(owners, offset).
     Ok (\<lparr>prc_pool_id = pool_id, prc_vrf_hash = vrf_hash, prc_pledge = pledge, prc_cost = cost,
          prc_margin = (margin_num, margin_den), prc_reward_account = reward_account, prc_owners = owners\<rparr>,
         offset)))))))))))"

section \<open>The Conway decoder\<close>

text \<open>Fields in sequence, each result an argument of the constructor.\<close>

definition read_arg :: "'a reader \<Rightarrow> ('a \<Rightarrow> 'b tx_reader) \<Rightarrow> 'b tx_reader" where
  "read_arg d k data offset = rbind (lift_reader d data offset) (\<lambda>(v, offset). k v data offset)"

definition read_end :: "'b \<Rightarrow> 'b tx_reader" where
  "read_end v data offset = Ok (v, offset)"

definition decode_cert_fields :: "u64 \<Rightarrow> usize \<Rightarrow> ConwayCert tx_reader" where
  "decode_cert_fields tag tag_offset =
     (if tag = 0 then read_arg decode_stake_credential (\<lambda>c. read_end (AccountRegistration c))
      else if tag = 1 then read_arg decode_stake_credential (\<lambda>c. read_end (AccountUnregistration c))
      else if tag = 2 then read_arg decode_stake_credential (\<lambda>c. read_arg read_pool_id (\<lambda>p.
        read_end (StakeDelegation c p)))
      else if tag = 3 then (\<lambda>data offset. rbind (read_pool_registration_cert data offset) (\<lambda>(c, offset).
        Ok (PoolRegistration c, offset)))
      else if tag = 4 then read_arg read_pool_id (\<lambda>p. read_arg read_uint (\<lambda>(e, _). read_end (PoolRetirement p e)))
      else if tag = 5 \<or> tag = 6 then read_end (RemovedInConway tag)
      else if tag = 7 then read_arg decode_stake_credential (\<lambda>c. read_arg read_coin (\<lambda>d.
        read_end (AccountRegistrationDeposit c d)))
      else if tag = 8 then read_arg decode_stake_credential (\<lambda>c. read_arg read_coin (\<lambda>r.
        read_end (AccountUnregistrationDeposit c r)))
      else if tag = 9 then read_arg decode_stake_credential (\<lambda>c. read_arg decode_drep (\<lambda>d.
        read_end (VoteDelegation c d)))
      else if tag = 10 then read_arg decode_stake_credential (\<lambda>c. read_arg read_pool_id (\<lambda>p.
        read_arg decode_drep (\<lambda>d. read_end (StakeVoteDelegation c p d))))
      else if tag = 11 then read_arg decode_stake_credential (\<lambda>c. read_arg read_pool_id (\<lambda>p.
        read_arg read_coin (\<lambda>d. read_end (StakeRegistrationDelegation c p d))))
      else if tag = 12 then read_arg decode_stake_credential (\<lambda>c. read_arg decode_drep (\<lambda>d.
        read_arg read_coin (\<lambda>x. read_end (VoteRegistrationDelegation c d x))))
      else if tag = 13 then read_arg decode_stake_credential (\<lambda>c. read_arg read_pool_id (\<lambda>p.
        read_arg decode_drep (\<lambda>d. read_arg read_coin (\<lambda>x. read_end (StakeVoteRegistrationDelegation c p d x)))))
      else if tag = 14 then read_arg decode_stake_credential (\<lambda>c. read_arg decode_stake_credential (\<lambda>h.
        read_end (AuthCommitteeHot c h)))
      else if tag = 15 then read_arg decode_stake_credential (\<lambda>c. read_end (ResignCommitteeCold c))
      else if tag = 16 then read_arg decode_stake_credential (\<lambda>c. read_arg read_coin (\<lambda>d.
        read_end (DRepRegistration c d)))
      else if tag = 17 then read_arg decode_stake_credential (\<lambda>c. read_arg read_coin (\<lambda>r.
        read_end (DRepUnregistration c r)))
      else if tag = 18 then read_arg decode_stake_credential (\<lambda>c. read_end (DRepUpdate c))
      else (\<lambda>data offset. Err (Fail (UnknownCertTag tag tag_offset))))"

definition decode_single_cert :: "ConwayCert tx_reader" where
  "decode_single_cert data cert_start =
     rbind (map_err Fail (read_array_header data cert_start)) (\<lambda>(enc, tag_offset).
     if \<not> non_empty_definite enc
     then Err (Fail (InvalidCborStructure tag_offset ''certificate must be a non-empty definite-length array''))
     else rbind (map_err Fail (read_uint data tag_offset)) (\<lambda>((tag, _), offset).
     rbind (decode_cert_fields tag tag_offset data offset) (\<lambda>(cert, _).
     rbind (map_err Fail (skip_item data cert_start)) (\<lambda>((_, stop), _). Ok (cert, stop)))))"

definition decode_conway_certs :: "bytes \<Rightarrow> (ConwayCert list, CodecError failure) result" where
  "decode_conway_certs data =
     rbind (if data \<noteq> [] then lift_reader skip_set_tag data 0 else Ok ((), 0)) (\<lambda>(_, offset).
     rbind (read_bounded_vec decode_single_cert data offset) (\<lambda>(certs, offset).
     if offset \<noteq> length data then Err (Fail (TrailingBytes offset (length data))) else Ok certs))"

section \<open>The Shelley decoder\<close>

definition decode_single_certificate :: "Certificate tx_reader" where
  "decode_single_certificate data cert_start =
     rbind (map_err Fail (read_array_header data cert_start)) (\<lambda>(enc, offset).
     case enc of
       ContainerEncoding.Indefinite \<Rightarrow>
         Err (Fail (InvalidCborStructure offset ''certificate must be definite-length array''))
     | ContainerEncoding.Definite _ _ \<Rightarrow>
     rbind (map_err Fail (read_uint data offset)) (\<lambda>((tag, _), offset).
     if tag = 0 then read_arg decode_stake_credential (\<lambda>c. read_end (StakeRegistration c)) data offset
     else if tag = 1 then read_arg decode_stake_credential (\<lambda>c. read_end (StakeDeregistration c)) data offset
     else if tag = 2 then read_arg decode_stake_credential (\<lambda>c. read_arg read_pool_id (\<lambda>p.
       read_end (Certificate.StakeDelegation c p))) data offset
     else if tag = 3 then
       rbind (read_pool_registration_cert data offset) (\<lambda>(cert, _).
       rbind (map_err Fail (skip_item data cert_start)) (\<lambda>((_, stop), _). Ok (Certificate.PoolRegistration cert, stop)))
     else if tag = 4 then read_arg read_pool_id (\<lambda>p. read_arg read_uint (\<lambda>(e, _).
       read_end (Certificate.PoolRetirement p e))) data offset
     else if tag = 5 then read_arg read_hash28 (\<lambda>g. read_arg read_hash28 (\<lambda>d. read_arg read_hash32 (\<lambda>v.
       read_end (GenesisKeyDelegation g d v)))) data offset
     else rbind (map_err Fail (skip_item data cert_start)) (\<lambda>((_, stop), _).
       Ok (StakeRegistration (StakeCredential.KeyHash (replicate 28 0)), stop))))"

text \<open>A \<^verbatim>\<open>Certificate\<close> takes 144 bytes.\<close>

definition decode_certificates :: "bytes \<Rightarrow> (Certificate list, CodecError failure) result" where
  "decode_certificates data =
     rbind (if data \<noteq> [] \<and> drop_bit 5 (hd data) = 6
            then rbind (map_err Fail (read_tag data 0)) (\<lambda>(_, offset). Ok offset)
            else Ok 0) (\<lambda>offset.
     rbind (map_err Fail (read_array_header data offset)) (\<lambda>(enc, offset).
     case enc of
       ContainerEncoding.Definite count _ \<Rightarrow>
         (if capacity_overflow count 144 then Err (Panic ''capacity overflow'')
          else rbind (read_count (unat count) decode_single_certificate data offset) (\<lambda>(certs, _). Ok certs))
     | ContainerEncoding.Indefinite \<Rightarrow>
         rbind (read_to_break (length data - offset) decode_single_certificate data offset) (\<lambda>(certs, _). Ok certs)))"

section \<open>Withdrawals\<close>

type_synonym RewardAccount = bytes

primrec read_withdrawals ::
  "nat \<Rightarrow> (RewardAccount, Coin) btree_map \<Rightarrow> (RewardAccount, Coin) btree_map reader" where
  "read_withdrawals 0 m data offset = Ok (m, offset)"
| "read_withdrawals (Suc k) m data key_offset =
     rbind (read_bytes data key_offset) (\<lambda>((account, _), offset).
     if length account \<noteq> 29 then Err (InvalidLength key_offset ''reward account must be 29 bytes'')
     else rbind (read_uint data offset) (\<lambda>((coin, _), offset).
     if bt_contains_key m account then Err (DuplicateMapKey key_offset)
     else read_withdrawals k (bt_insert account coin m) data offset))"

definition decode_withdrawals :: "bytes \<Rightarrow> ((RewardAccount, Coin) btree_map, CodecError) result" where
  "decode_withdrawals data =
     rbind (read_map_header data 0) (\<lambda>(enc, offset).
     case enc of
       ContainerEncoding.Indefinite \<Rightarrow> Err (InvalidCborStructure 0 ''withdrawals map must be definite-length'')
     | ContainerEncoding.Definite count _ \<Rightarrow>
         rbind (read_withdrawals (unat count) bt_empty data offset) (\<lambda>(m, offset).
         if offset \<noteq> length data then Err (TrailingBytes offset (length data)) else Ok m))"

definition withdrawals_sum :: "(RewardAccount, Coin) btree_map \<Rightarrow> int" where
  "withdrawals_sum m = sum_list (map uint (bt_values m))"

section \<open>The grammar\<close>

definition tag_bytes :: "u64 \<Rightarrow> IntWidth \<Rightarrow> bytes" where
  "tag_bytes t w = write_tag [] t w"

lemma reads_tag_bytes:
  assumes "width_fits t w"
  shows "reads read_tag (tag_bytes t w) (t, w)"
proof (rule reads_encoder)
  have m: "MAJOR_TAG \<le> 7" by (simp add: cbor_consts)
  then show "read_tag (write_tag buf t w @ rest) (length buf) = Ok ((t, w), length (write_tag buf t w))" for buf rest
    using assms by (simp add: read_tag_def write_tag_def decode_initial_written decode_argument_after_initial)
  show "write_tag buf t w = buf @ tag_bytes t w" for buf
    unfolding write_tag_def tag_bytes_def by (rule write_argument_append)
qed

lemma tag_initial:
  assumes "width_fits t w"
  obtains ai p where "decode_initial (pre @ tag_bytes t w @ rest) (length pre) = Ok ((6, ai), p)"
    "decode_argument (pre @ tag_bytes t w @ rest) p ai (length pre) = Ok ((t, w), length pre + length (tag_bytes t w))"
proof -
  have "read_tag (pre @ tag_bytes t w @ rest) (length pre) = Ok ((t, w), length pre + length (tag_bytes t w))"
    using reads_tag_bytes [OF assms] by (simp add: reads_def)
  then show ?thesis by (auto simp: read_tag_def rbind_eq_Ok cbor_consts split: if_splits intro: that)
qed

lemma item_tagged:
  assumes "width_fits t w" "params_ok bs"
  shows "params_ok (tag_bytes t w @ bs)"
proof -
  obtain ai p where "decode_initial (tag_bytes t w @ bs) 0 = Ok ((6, ai), p)"
    "decode_argument (tag_bytes t w @ bs) p ai 0 = Ok ((t, w), length (tag_bytes t w))"
    using tag_initial [OF assms(1), of "[]" bs] by auto
  moreover have "cbor_item False (tag_bytes t w @ bs) (length (tag_bytes t w)) (length (tag_bytes t w @ bs))"
    using item_local(1) [of False bs 0 "length bs" "tag_bytes t w" "[]"] assms(2) by (simp add: params_ok_def)
  ultimately show ?thesis unfolding params_ok_def by (rule cbor_grammar_intros(7))
qed

lemma peek_tag: "width_fits t w \<Longrightarrow> peek_major (pre @ tag_bytes t w @ rest) (length pre) = Ok 6"
  using tag_initial [of t w pre rest]
  by (auto simp: peek_major_def decode_initial_def read_byte_def result_simps split: if_splits)

lemma reads_arg: "reads d bs v \<Longrightarrow> reads (k v) bs' w \<Longrightarrow> reads (read_arg d k) (bs @ bs') w"
  unfolding read_arg_def [abs_def] by (rule reads_bind [OF reads_lift])

lemma reads_end: "reads (read_end v) [] v"
  unfolding read_end_def [abs_def] by (rule reads_return)

text \<open>The arrays of the grammar: a definite count, or a start byte and a break.\<close>

lemma reads_to_break:
  assumes "\<And>v. v \<in> set vs \<Longrightarrow> reads d (enc v) (f v) \<and> enc v \<noteq> [] \<and> hd (enc v) \<noteq> 0xff"
    and "length (concat (map enc vs)) \<le> k"
  shows "read_to_break k d (pre @ concat (map enc vs) @ 0xff # rest) (length pre) =
    Ok (map f vs, length pre + length (concat (map enc vs)))"
  using assms
proof (induction vs arbitrary: pre k)
  case Nil
  have "is_break (pre @ 0xff # rest) (length pre) = Ok True" by (simp add: is_break_def peek_byte_def nth_append cbor_consts)
  then show ?case by (cases k) simp_all
next
  case (Cons v vs)
  from Cons.prems(1) [of v] have v: "reads d (enc v) (f v)" "enc v \<noteq> []" "hd (enc v) \<noteq> 0xff" by simp_all
  obtain j where k: "k = Suc j" using Cons.prems(2) v(2) by (cases k) auto
  have j: "length (concat (map enc vs)) \<le> j" using Cons.prems(2) v(2) k by (cases "enc v") simp_all
  let ?data = "pre @ enc v @ concat (map enc vs) @ 0xff # rest"
  have "is_break ?data (length pre) = Ok False"
    using v(2,3) by (cases "enc v") (simp_all add: is_break_def peek_byte_def nth_append cbor_consts)
  moreover have "d ?data (length pre) = Ok (f v, length pre + length (enc v))" using v(1) by (simp add: reads_def)
  moreover have "read_to_break j d ?data (length pre + length (enc v)) =
      Ok (map f vs, length pre + length (enc v) + length (concat (map enc vs)))"
    using Cons.IH [of j "pre @ enc v"] Cons.prems(1) j by simp
  ultimately show ?case by (simp add: k add.assoc)
qed

lemma reads_count_map:
  "(\<And>v. v \<in> set vs \<Longrightarrow> reads d (enc v) (f v)) \<Longrightarrow> reads (read_count (length vs) d) (concat (map enc vs)) (map f vs)"
proof (induction vs)
  case (Cons v vs)
  have "reads (read_count (length vs) d) (concat (map enc vs)) (map f vs)" by (rule Cons.IH) (use Cons.prems in simp)
  from reads_bind [OF Cons.prems [of v] reads_bind_return [OF this]] show ?case by simp
qed (simp add: reads_def)

definition vec_bytes :: "bool \<Rightarrow> bytes list \<Rightarrow> bytes" where
  "vec_bytes definite xs =
     (if definite then array_bytes (word_of_nat (length xs)) @ concat xs else [0x9f] @ concat xs @ [0xff])"

lemma item_vec: "length xs < 2 ^ 64 \<Longrightarrow> \<forall>x\<in>set xs. params_ok x \<Longrightarrow> params_ok (vec_bytes definite xs)"
  using item_array [of xs "word_of_nat (length xs)"] item_sequence [of xs] by (simp add: vec_bytes_def unat_count)

lemma reads_array:
  assumes "length vs < 2 ^ 64" "\<And>v. v \<in> set vs \<Longrightarrow> reads d (enc v) (f v) \<and> params_ok (enc v)"
  shows "reads (read_bounded_vec d) (vec_bytes definite (map enc vs)) (map f vs)"
proof (cases definite)
  case True
  have "reads (read_count (length vs) d) (concat (map enc vs)) (map f vs)" using assms(2) by (intro reads_count_map) simp
  then show ?thesis
    unfolding read_bounded_vec_def [abs_def] using True
    by (simp add: vec_bytes_def) (rule reads_bind [OF reads_map_err [OF reads_written(2)]],
        simp add: unat_count [OF assms(1)])
next
  case False
  have h: "read_array_header (pre @ 0x9f # rest) (length pre) = Ok (ContainerEncoding.Indefinite, Suc (length pre))" for pre rest
    by (simp add: read_array_header_def decode_initial_def read_byte_def peek_byte_def cbor_consts nth_append)
  have b: "read_to_break k d ((pre @ [0x9f]) @ concat (map enc vs) @ 0xff # rest) (length (pre @ [0x9f])) =
      Ok (map f vs, length (pre @ [0x9f]) + length (concat (map enc vs)))" if "length (concat (map enc vs)) \<le> k" for pre rest k
    using assms(2) params_ok_head that by (intro reads_to_break) blast+
  have "read_bounded_vec d (pre @ vec_bytes definite (map enc vs) @ rest) (length pre) =
      Ok (map f vs, length pre + length (vec_bytes definite (map enc vs)))" for pre rest
    using False b [of "length (concat (map enc vs)) + Suc (length rest)" pre rest]
    by (simp add: vec_bytes_def read_bounded_vec_def h del: read_to_break.simps)
  then show ?thesis by (simp add: reads_def)
qed

section \<open>Reference encoding\<close>

fun cred_bytes :: "StakeCredential \<Rightarrow> bytes" where
  "cred_bytes (StakeCredential.KeyHash h) = array_bytes 2 @ uint_bytes 0 @ string_bytes h"
| "cred_bytes (StakeCredential.ScriptHash h) = array_bytes 2 @ uint_bytes 1 @ string_bytes h"

fun drep_bytes :: "DRep \<Rightarrow> bytes" where
  "drep_bytes (DRep.KeyHash h) = array_bytes 2 @ uint_bytes 0 @ string_bytes h"
| "drep_bytes (DRep.ScriptHash h) = array_bytes 2 @ uint_bytes 1 @ string_bytes h"
| "drep_bytes AlwaysAbstain = array_bytes 1 @ uint_bytes 2"
| "drep_bytes AlwaysNoConfidence = array_bytes 1 @ uint_bytes 3"

fun drep_ok :: "DRep \<Rightarrow> bool" where
  "drep_ok (DRep.KeyHash h) = (length h = 28)"
| "drep_ok (DRep.ScriptHash h) = (length h = 28)"
| "drep_ok _ = True"

definition cred_ok :: "StakeCredential \<Rightarrow> bool" where
  "cred_ok c \<longleftrightarrow> length (cred_hash c) = 28"

definition set_tag_bytes :: "bool \<Rightarrow> bytes" where
  "set_tag_bytes tagged = (if tagged then tag_bytes 258 I16 else [])"

lemma set_tag_fits: "width_fits 258 I16" "width_fits 30 I8"
  by (simp_all add: width_fits_def)

lemma reads_hash28: "length h = 28 \<Longrightarrow> reads read_hash28 (string_bytes h) h"
  using reads_written_strings(1) [of h] by (simp add: reads_def read_hash28_def)

lemma reads_coin: "reads read_coin (uint_bytes v) v"
  using reads_last_uint [of "\<lambda>x. x" v] by (simp add: read_coin_def [abs_def])

lemma reads_credential:
  assumes "cred_ok c"
  shows "reads decode_stake_credential (cred_bytes c) c"
proof -
  have h: "length (cred_hash c) = 28" using assms by (simp add: cred_ok_def)
  let ?h = "cred_hash c"
  have r: "read_hash28 (pre @ string_bytes ?h @ rest) (length pre) = Ok (?h, length pre + length (string_bytes ?h))" for pre rest
    using reads_hash28 [OF h] by (simp add: reads_def)
  have u: "read_uint (pre @ uint_bytes t @ rest) (length pre) = Ok ((t, canonical_width t), length pre + length (uint_bytes t))"
    for pre rest t using reads_written(1) [of t] by (simp add: reads_def)
  have a: "expect_array 2 detail (pre @ array_bytes 2 @ rest) (length pre) = Ok ((), length pre + length (array_bytes 2))"
    for pre rest detail using reads_expect_array [of 2 detail] by (simp add: reads_def)
  show ?thesis
    using u [of "_ @ array_bytes 2"] r [of "_ @ array_bytes 2 @ uint_bytes _"]
    by (cases c) (simp_all add: reads_def decode_stake_credential_def a add.assoc)
qed

lemma reads_drep:
  assumes "drep_ok d"
  shows "reads decode_drep (drep_bytes d) d"
proof -
  have r: "length h = 28 \<Longrightarrow> read_hash28 (pre @ string_bytes h @ rest) (length pre) = Ok (h, length pre + length (string_bytes h))"
    for h pre rest using reads_hash28 [of h] by (simp add: reads_def)
  have u: "read_uint (pre @ uint_bytes t @ rest) (length pre) = Ok ((t, canonical_width t), length pre + length (uint_bytes t))"
    for pre rest t using reads_written(1) [of t] by (simp add: reads_def)
  have a: "read_array_header (pre @ array_bytes n @ rest) (length pre) =
      Ok (ContainerEncoding.Definite n (canonical_width n), length pre + length (array_bytes n))" for pre rest n
    using reads_written(2) [of n] by (simp add: reads_def)
  show ?thesis
    using u [of "_ @ array_bytes _"] r [of _ "_ @ array_bytes 2 @ uint_bytes _"] assms
    by (cases d) (simp_all add: reads_def decode_drep_def a add.assoc)
qed

lemma item_cred: "cred_ok c \<Longrightarrow> params_ok (cred_bytes c)"
  by (cases c) (auto simp: cred_ok_def intro!: item_pair item_uint item_string)

lemma item_drep: "drep_ok d \<Longrightarrow> params_ok (drep_bytes d)"
  using item_array [of "[uint_bytes 2]" 1] item_array [of "[uint_bytes 3]" 1]
  by (cases d) (auto simp: item_uint intro!: item_pair item_uint item_string)

definition set_bytes :: "bool \<Rightarrow> bool \<Rightarrow> Hash28 list \<Rightarrow> bytes" where
  "set_bytes tagged definite hs = set_tag_bytes tagged @ vec_bytes definite (map string_bytes hs)"

lemma peek_vec: "peek_major (pre @ vec_bytes definite xs @ rest) (length pre) = Ok 4"
proof (cases definite)
  case True
  then show ?thesis
    using peek_major_written(2) [of pre "word_of_nat (length xs)" "concat xs" rest]
    by (simp add: vec_bytes_def cbor_consts)
next
  case False
  then show ?thesis by (simp add: vec_bytes_def peek_major_def peek_byte_def nth_append)
qed

lemma skip_set_tag_vec:
  "skip_set_tag (pre @ set_tag_bytes tagged @ vec_bytes definite xs @ rest) (length pre) =
     Ok ((), length pre + length (set_tag_bytes tagged))"
proof (cases tagged)
  case True
  have "read_tag (pre @ tag_bytes 258 I16 @ vec_bytes definite xs @ rest) (length pre) =
      Ok ((258, I16), length pre + length (tag_bytes 258 I16))"
    using reads_tag_bytes [OF set_tag_fits(1)] by (simp add: reads_def)
  then show ?thesis using True by (simp add: skip_set_tag_def set_tag_bytes_def peek_tag [OF set_tag_fits(1)])
next
  case False
  then show ?thesis by (simp add: skip_set_tag_def set_tag_bytes_def peek_vec)
qed

lemma reads_keyhash_set:
  assumes "length hs < 2 ^ 64" "\<forall>h\<in>set hs. length h = 28"
  shows "reads read_addr_keyhash_set (set_bytes tagged definite hs) hs"
proof -
  have v: "reads (read_bounded_vec (lift_reader read_hash28)) (vec_bytes definite (map string_bytes hs)) hs"
    using reads_array [of hs "lift_reader read_hash28" string_bytes "\<lambda>h. h" definite] assms
    by (auto simp: reads_lift reads_hash28 item_string)
  have "read_bounded_vec (lift_reader read_hash28) ((pre @ t) @ vec_bytes definite (map string_bytes hs) @ rest) (length (pre @ t)) =
      Ok (hs, length (pre @ t) + length (vec_bytes definite (map string_bytes hs)))" for pre t rest
    using v unfolding reads_def by blast
  then show ?thesis
    by (simp add: reads_def read_addr_keyhash_set_def set_bytes_def lift_reader_def skip_set_tag_vec add.assoc)
qed

lemma item_set:
  assumes "length hs < 2 ^ 64" "\<forall>h\<in>set hs. length h = 28"
  shows "params_ok (set_bytes tagged definite hs)"
  using item_vec [of "map string_bytes hs" definite] assms item_tagged [OF set_tag_fits(1)]
  by (auto simp: set_bytes_def set_tag_bytes_def item_string)

text \<open>What follows a certificate's kept fields: anchors, relays, metadata, as opaque items. The
  owners of a pool may be tagged as a set and be an array of either form.\<close>

record cert_layout =
  cl_tagged :: bool
  cl_definite :: bool
  cl_rest :: "bytes list"

definition pool_parts :: "cert_layout \<Rightarrow> PoolRegistrationCert \<Rightarrow> bytes list" where
  "pool_parts l c = [string_bytes (prc_pool_id c), string_bytes (prc_vrf_hash c), uint_bytes (prc_pledge c),
     uint_bytes (prc_cost c), tag_bytes 30 I8 @ array_bytes 2 @ uint_bytes (fst (prc_margin c)) @ uint_bytes (snd (prc_margin c)),
     string_bytes (prc_reward_account c), set_bytes (cl_tagged l) (cl_definite l) (prc_owners c)]"

definition pool_cert_ok :: "PoolRegistrationCert \<Rightarrow> bool" where
  "pool_cert_ok c \<longleftrightarrow> length (prc_pool_id c) = 28 \<and> length (prc_vrf_hash c) = 32 \<and>
     length (prc_reward_account c) < 2 ^ 64 \<and> length (prc_owners c) < 2 ^ 64 \<and> (\<forall>h\<in>set (prc_owners c). length h = 28)"

lemma reads_lift_uint:
  "reads (d v) bs w \<Longrightarrow>
   reads (\<lambda>data offset. rbind (lift_reader read_uint data offset) (\<lambda>((x, _), offset). d x data offset)) (uint_bytes v @ bs) w"
  using reads_bind [OF reads_lift [OF reads_written(1) [of v]], where d' = "\<lambda>p. d (fst p)" and bs' = bs and w = w]
  by (simp add: case_prod_unfold)

lemma reads_lift_bytes:
  "length s < 2 ^ 64 \<Longrightarrow> reads (d s) bs w \<Longrightarrow>
   reads (\<lambda>data offset. rbind (lift_reader read_bytes data offset) (\<lambda>((x, _), offset). d x data offset)) (string_bytes s @ bs) w"
  using reads_bind [OF reads_lift [OF reads_written_strings(1)], where d' = "\<lambda>p. d (fst p)" and bs' = bs and w = w]
  by (simp add: case_prod_unfold)

lemma reads_pool_cert:
  assumes "pool_cert_ok c"
  shows "reads read_pool_registration_cert (concat (pool_parts l c)) c"
proof -
  have ok: "length (prc_pool_id c) = 28" "length (prc_vrf_hash c) = 32" "length (prc_reward_account c) < 2 ^ 64"
    "length (prc_owners c) < 2 ^ 64" "\<forall>h\<in>set (prc_owners c). length h = 28"
    using assms by (simp_all add: pool_cert_ok_def)
  have c: "\<lparr>prc_pool_id = prc_pool_id c, prc_vrf_hash = prc_vrf_hash c, prc_pledge = prc_pledge c, prc_cost = prc_cost c,
      prc_margin = (fst (prc_margin c), snd (prc_margin c)), prc_reward_account = prc_reward_account c,
      prc_owners = prc_owners c\<rparr> = c" by simp
  have owners: "reads read_addr_keyhash_set (set_bytes (cl_tagged l) (cl_definite l) (prc_owners c)) (prc_owners c)"
    by (rule reads_keyhash_set [OF ok(4,5)])
  have parts: "concat (pool_parts l c) = string_bytes (prc_pool_id c) @ string_bytes (prc_vrf_hash c) @
      uint_bytes (prc_pledge c) @ uint_bytes (prc_cost c) @ tag_bytes 30 I8 @ array_bytes 2 @
      uint_bytes (fst (prc_margin c)) @ uint_bytes (snd (prc_margin c)) @ string_bytes (prc_reward_account c) @
      set_bytes (cl_tagged l) (cl_definite l) (prc_owners c)"
    by (simp add: pool_parts_def)
  have o: "reads (\<lambda>data offset. rbind (read_addr_keyhash_set data offset) (\<lambda>(owners, offset).
      Ok (\<lparr>prc_pool_id = prc_pool_id c, prc_vrf_hash = prc_vrf_hash c, prc_pledge = prc_pledge c, prc_cost = prc_cost c,
      prc_margin = (fst (prc_margin c), snd (prc_margin c)), prc_reward_account = prc_reward_account c,
      prc_owners = owners\<rparr>, offset))) (set_bytes (cl_tagged l) (cl_definite l) (prc_owners c)) c"
    using reads_bind_return [OF owners, of "\<lambda>owners. \<lparr>prc_pool_id = prc_pool_id c, prc_vrf_hash = prc_vrf_hash c,
      prc_pledge = prc_pledge c, prc_cost = prc_cost c, prc_margin = (fst (prc_margin c), snd (prc_margin c)),
      prc_reward_account = prc_reward_account c, prc_owners = owners\<rparr>"] by (simp only: c)
  show ?thesis
    unfolding read_pool_registration_cert_def [abs_def] read_pool_id_def parts
    by (rule reads_bind [OF reads_lift [OF reads_hash28 [OF ok(1)]]], rule reads_bind [OF reads_lift [OF reads_hash32 [OF ok(2)]]],
        rule reads_lift_uint, rule reads_lift_uint, rule reads_bind [OF reads_lift [OF reads_tag_bytes [OF set_tag_fits(2)]]],
        rule reads_bind [OF reads_lift [OF reads_expect_array]], rule reads_lift_uint, rule reads_lift_uint,
        rule reads_lift_bytes [OF ok(3)], rule o)
qed

lemma item_pool_parts: "pool_cert_ok c \<Longrightarrow> \<forall>x\<in>set (pool_parts l c). params_ok x"
  using item_pair [OF item_uint item_uint, THEN item_tagged [OF set_tag_fits(2)]]
  by (auto simp: pool_parts_def pool_cert_ok_def intro!: item_string item_uint item_set)

fun cert_tag :: "ConwayCert \<Rightarrow> u64" where
  "cert_tag (AccountRegistration _) = 0"
| "cert_tag (AccountUnregistration _) = 1"
| "cert_tag (StakeDelegation _ _) = 2"
| "cert_tag (PoolRegistration _) = 3"
| "cert_tag (PoolRetirement _ _) = 4"
| "cert_tag (RemovedInConway t) = t"
| "cert_tag (AccountRegistrationDeposit _ _) = 7"
| "cert_tag (AccountUnregistrationDeposit _ _) = 8"
| "cert_tag (VoteDelegation _ _) = 9"
| "cert_tag (StakeVoteDelegation _ _ _) = 10"
| "cert_tag (StakeRegistrationDelegation _ _ _) = 11"
| "cert_tag (VoteRegistrationDelegation _ _ _) = 12"
| "cert_tag (StakeVoteRegistrationDelegation _ _ _ _) = 13"
| "cert_tag (AuthCommitteeHot _ _) = 14"
| "cert_tag (ResignCommitteeCold _) = 15"
| "cert_tag (DRepRegistration _ _) = 16"
| "cert_tag (DRepUnregistration _ _) = 17"
| "cert_tag (DRepUpdate _) = 18"

fun cert_parts :: "cert_layout \<Rightarrow> ConwayCert \<Rightarrow> bytes list" where
  "cert_parts l (AccountRegistration c) = [cred_bytes c]"
| "cert_parts l (AccountUnregistration c) = [cred_bytes c]"
| "cert_parts l (StakeDelegation c p) = [cred_bytes c, string_bytes p]"
| "cert_parts l (PoolRegistration pc) = pool_parts l pc"
| "cert_parts l (PoolRetirement p e) = [string_bytes p, uint_bytes e]"
| "cert_parts l (RemovedInConway t) = []"
| "cert_parts l (AccountRegistrationDeposit c d) = [cred_bytes c, uint_bytes d]"
| "cert_parts l (AccountUnregistrationDeposit c r) = [cred_bytes c, uint_bytes r]"
| "cert_parts l (VoteDelegation c d) = [cred_bytes c, drep_bytes d]"
| "cert_parts l (StakeVoteDelegation c p d) = [cred_bytes c, string_bytes p, drep_bytes d]"
| "cert_parts l (StakeRegistrationDelegation c p x) = [cred_bytes c, string_bytes p, uint_bytes x]"
| "cert_parts l (VoteRegistrationDelegation c d x) = [cred_bytes c, drep_bytes d, uint_bytes x]"
| "cert_parts l (StakeVoteRegistrationDelegation c p d x) = [cred_bytes c, string_bytes p, drep_bytes d, uint_bytes x]"
| "cert_parts l (AuthCommitteeHot c h) = [cred_bytes c, cred_bytes h]"
| "cert_parts l (ResignCommitteeCold c) = [cred_bytes c]"
| "cert_parts l (DRepRegistration c x) = [cred_bytes c, uint_bytes x]"
| "cert_parts l (DRepUnregistration c x) = [cred_bytes c, uint_bytes x]"
| "cert_parts l (DRepUpdate c) = [cred_bytes c]"

fun conway_cert_ok :: "ConwayCert \<Rightarrow> bool" where
  "conway_cert_ok (AccountRegistration c) \<longleftrightarrow> cred_ok c"
| "conway_cert_ok (AccountUnregistration c) \<longleftrightarrow> cred_ok c"
| "conway_cert_ok (StakeDelegation c p) \<longleftrightarrow> cred_ok c \<and> length p = 28"
| "conway_cert_ok (PoolRegistration pc) \<longleftrightarrow> pool_cert_ok pc"
| "conway_cert_ok (PoolRetirement p e) \<longleftrightarrow> length p = 28"
| "conway_cert_ok (RemovedInConway t) \<longleftrightarrow> t = 5 \<or> t = 6"
| "conway_cert_ok (AccountRegistrationDeposit c d) \<longleftrightarrow> cred_ok c"
| "conway_cert_ok (AccountUnregistrationDeposit c r) \<longleftrightarrow> cred_ok c"
| "conway_cert_ok (VoteDelegation c d) \<longleftrightarrow> cred_ok c \<and> drep_ok d"
| "conway_cert_ok (StakeVoteDelegation c p d) \<longleftrightarrow> cred_ok c \<and> length p = 28 \<and> drep_ok d"
| "conway_cert_ok (StakeRegistrationDelegation c p x) \<longleftrightarrow> cred_ok c \<and> length p = 28"
| "conway_cert_ok (VoteRegistrationDelegation c d x) \<longleftrightarrow> cred_ok c \<and> drep_ok d"
| "conway_cert_ok (StakeVoteRegistrationDelegation c p d x) \<longleftrightarrow> cred_ok c \<and> length p = 28 \<and> drep_ok d"
| "conway_cert_ok (AuthCommitteeHot c h) \<longleftrightarrow> cred_ok c \<and> cred_ok h"
| "conway_cert_ok (ResignCommitteeCold c) \<longleftrightarrow> cred_ok c"
| "conway_cert_ok (DRepRegistration c x) \<longleftrightarrow> cred_ok c"
| "conway_cert_ok (DRepUnregistration c x) \<longleftrightarrow> cred_ok c"
| "conway_cert_ok (DRepUpdate c) \<longleftrightarrow> cred_ok c"

lemmas reads_field = reads_arg [OF reads_credential] reads_arg [OF reads_drep] reads_arg [OF reads_coin]
  reads_arg [OF reads_hash28]

lemma reads_cert_fields:
  assumes "conway_cert_ok cert"
  shows "reads (decode_cert_fields (cert_tag cert) off) (concat (cert_parts l cert)) cert"
proof (cases cert)
  case (PoolRegistration pc)
  then show ?thesis
    using reads_bind_return [OF reads_pool_cert [of pc l], of ConwayCert.PoolRegistration] assms
    by (simp add: decode_cert_fields_def)
next
  case (PoolRetirement p e)
  have "reads (read_arg read_uint (\<lambda>(e, _). read_end (ConwayCert.PoolRetirement p e))) (uint_bytes e) (ConwayCert.PoolRetirement p e)"
    using reads_arg [OF reads_written(1) [of e], of "\<lambda>(e, _). read_end (ConwayCert.PoolRetirement p e)" "[]"]
    by (simp add: reads_end)
  then show ?thesis
    using assms by (simp add: PoolRetirement decode_cert_fields_def read_pool_id_def) (rule reads_arg [OF reads_hash28])
qed (use assms in \<open>auto simp: decode_cert_fields_def read_pool_id_def
      intro!: reads_field reads_end reads_arg [OF reads_credential, where bs' = "[]", simplified]
        reads_arg [OF reads_drep, where bs' = "[]", simplified] reads_arg [OF reads_coin, where bs' = "[]", simplified]
        reads_arg [OF reads_hash28, where bs' = "[]", simplified]\<close>)

lemma item_cert_parts: "conway_cert_ok cert \<Longrightarrow> \<forall>x\<in>set (cert_parts l cert). params_ok x"
  by (cases cert) (auto simp: item_pool_parts item_cred item_drep item_uint item_string)

definition layout_ok :: "cert_layout \<Rightarrow> bool" where
  "layout_ok l \<longleftrightarrow> (\<forall>x\<in>set (cl_rest l). params_ok x) \<and> length (cl_rest l) < 2 ^ 63"

text \<open>A certificate in a layout: its array with the tag, the fields and whatever follows them.\<close>

definition conway_cert_bytes :: "cert_layout \<times> ConwayCert \<Rightarrow> bytes" where
  "conway_cert_bytes = (\<lambda>(l, cert).
     vec_bytes True (uint_bytes (cert_tag cert) # cert_parts l cert @ cl_rest l))"

lemma length_cert_parts: "length (cert_parts l cert) \<le> 7"
  by (cases cert) (simp_all add: pool_parts_def)

lemma cert_bytes_item:
  assumes "conway_cert_ok cert" "layout_ok l"
  shows "params_ok (conway_cert_bytes (l, cert))"
  unfolding conway_cert_bytes_def prod.case
  using assms length_cert_parts [of l cert] item_cert_parts [OF assms(1), of l]
  by (intro item_vec) (auto simp: layout_ok_def item_uint)

lemma non_empty_word: "0 < n \<Longrightarrow> n < 2 ^ 64 \<Longrightarrow> 1 \<le> (word_of_nat n :: u64)"
  by (simp add: word_le_nat_alt unat_of_nat)

lemma reads_single_cert:
  assumes "conway_cert_ok cert" "layout_ok l"
  shows "reads decode_single_cert (conway_cert_bytes (l, cert)) cert"
  unfolding reads_def
proof (intro allI)
  fix pre rest
  let ?xs = "uint_bytes (cert_tag cert) # cert_parts l cert @ cl_rest l"
  let ?n = "word_of_nat (length ?xs) :: u64"
  let ?a = "array_bytes ?n" and ?u = "uint_bytes (cert_tag cert)" and ?f = "concat (cert_parts l cert)" and ?r = "concat (cl_rest l)"
  let ?data = "pre @ conway_cert_bytes (l, cert) @ rest"
  have data: "?data = pre @ ?a @ ?u @ ?f @ ?r @ rest" by (simp add: conway_cert_bytes_def vec_bytes_def)
  have n: "1 \<le> ?n"
    using assms(2) length_cert_parts [of l cert] by (intro non_empty_word) (simp_all add: layout_ok_def)
  have "read_array_header ?data (length pre) = Ok (ContainerEncoding.Definite ?n (canonical_width ?n), length (pre @ ?a))"
    using reads_at [OF reads_written(2) [of ?n], of pre "?u @ ?f @ ?r @ rest"] by (simp add: data)
  moreover have "read_uint ?data (length (pre @ ?a)) = Ok ((cert_tag cert, canonical_width (cert_tag cert)), length (pre @ ?a @ ?u))"
    using reads_at [OF reads_written(1) [of "cert_tag cert"], of "pre @ ?a" "?f @ ?r @ rest"] by (simp add: data)
  moreover have "decode_cert_fields (cert_tag cert) off ?data (length (pre @ ?a @ ?u)) = Ok (cert, length (pre @ ?a @ ?u @ ?f))" for off
    using reads_at [OF reads_cert_fields [OF assms(1)], of off "pre @ ?a @ ?u" l "?r @ rest"] by (simp add: data add.assoc)
  moreover have "skip_item ?data (length pre) = Ok ((length pre, length pre + length (conway_cert_bytes (l, cert))),
      length pre + length (conway_cert_bytes (l, cert)))"
    using item_local(1) [of False "conway_cert_bytes (l, cert)" 0 "length (conway_cert_bytes (l, cert))" pre rest]
      cert_bytes_item [OF assms] by (simp add: skip_item_Ok params_ok_def)
  ultimately show "decode_single_cert ?data (length pre) = Ok (cert, length pre + length (conway_cert_bytes (l, cert)))"
    using n by (simp add: decode_single_cert_def)
qed

lemma conway_certs_decoded:
  assumes cs: "list_all (\<lambda>(l, cert). conway_cert_ok cert \<and> layout_ok l) cs \<and> length cs < 2 ^ 64"
  shows "decode_conway_certs (set_tag_bytes tagged @ vec_bytes definite (map conway_cert_bytes cs)) = Ok (map snd cs)"
proof -
  let ?v = "vec_bytes definite (map conway_cert_bytes cs)" and ?t = "set_tag_bytes tagged"
  have "reads (read_bounded_vec decode_single_cert) ?v (map snd cs)"
    using cs by (intro reads_array) (fastforce simp: list_all_iff intro: reads_single_cert cert_bytes_item)+
  then have v: "read_bounded_vec decode_single_cert (?t @ ?v) (length ?t) = Ok (map snd cs, length (?t @ ?v))"
    using reads_at [of "read_bounded_vec decode_single_cert" ?v "map snd cs" ?t "[]"] by simp
  have "params_ok ?v" using cs by (intro item_vec) (auto simp: list_all_iff intro: cert_bytes_item)
  then have "?v \<noteq> []" using params_ok_head by blast
  then show "decode_conway_certs (?t @ ?v) = Ok (map snd cs)"
    using skip_set_tag_vec [of "[]" tagged definite "map conway_cert_bytes cs" "[]"] v
    by (simp add: decode_conway_certs_def lift_reader_def)
qed

text \<open>
  C31. The Conway decoder accepts every certificate array of the grammar and returns its certificates:
  all eighteen tags with any further items behind their fields, pool owners and the array itself
  tagged as sets or not and of definite or indefinite length. A tag above 18 is rejected as
  unknown, whatever follows it.
\<close>

theorem conway_certs_grammar:
  "(list_all (\<lambda>(l, cert). conway_cert_ok cert \<and> layout_ok l) cs \<and> length cs < 2 ^ 64 \<longrightarrow>
     decode_conway_certs (set_tag_bytes tagged @ vec_bytes definite (map conway_cert_bytes cs)) = Ok (map snd cs)) \<and>
   (18 < tag \<and> 1 \<le> n \<longrightarrow> decode_single_cert (array_bytes n @ uint_bytes tag @ rest) 0 =
     Err (Fail (UnknownCertTag tag (length (array_bytes n)))))"
proof (intro conjI impI)
  assume cs: "list_all (\<lambda>(l, cert). conway_cert_ok cert \<and> layout_ok l) cs \<and> length cs < 2 ^ 64"
  then show "decode_conway_certs (set_tag_bytes tagged @ vec_bytes definite (map conway_cert_bytes cs)) = Ok (map snd cs)"
    by (rule conway_certs_decoded)
next
  assume tag: "18 < tag \<and> 1 \<le> n"
  have "read_array_header (array_bytes n @ uint_bytes tag @ rest) 0 =
      Ok (ContainerEncoding.Definite n (canonical_width n), length (array_bytes n))"
    using reads_at [OF reads_written(2) [of n], of "[]"] by simp
  moreover have "read_uint (array_bytes n @ uint_bytes tag @ rest) (length (array_bytes n)) =
      Ok ((tag, canonical_width tag), length (array_bytes n) + length (uint_bytes tag))"
    using reads_at [OF reads_written(1) [of tag], of "array_bytes n" rest] by simp
  moreover have "decode_cert_fields tag off data p = Err (Fail (UnknownCertTag tag off))" for off data p
    using tag by (auto simp: decode_cert_fields_def)
  ultimately show "decode_single_cert (array_bytes n @ uint_bytes tag @ rest) 0 =
     Err (Fail (UnknownCertTag tag (length (array_bytes n))))"
    using tag by (simp add: decode_single_cert_def)
qed

definition sample_layout :: cert_layout where
  "sample_layout = \<lparr>cl_tagged = True, cl_definite = False, cl_rest = [[0xf6]]\<rparr>"

lemma sample_layout_ok: "layout_ok sample_layout"
proof -
  have "skip_item [0xf6] 0 = Ok ((0, 1), 1)" by code_simp
  then show ?thesis by (simp add: sample_layout_def layout_ok_def params_ok_def skip_item_Ok)
qed

definition sample_conway_certs :: "(cert_layout \<times> ConwayCert) list" where
  "sample_conway_certs =
     [(sample_layout, VoteDelegation (StakeCredential.KeyHash (replicate 28 1)) AlwaysAbstain),
      (sample_layout, PoolRegistration \<lparr>prc_pool_id = replicate 28 2, prc_vrf_hash = replicate 32 3, prc_pledge = 4, prc_cost = 5,
         prc_margin = (1, 2), prc_reward_account = replicate 29 6, prc_owners = [replicate 28 7]\<rparr>)]"

theorem conway_certs_grammar_witness:
  "decode_conway_certs (set_tag_bytes True @ vec_bytes False (map conway_cert_bytes sample_conway_certs)) =
     Ok (map snd sample_conway_certs) \<and>
   decode_single_cert (array_bytes 1 @ uint_bytes 19 @ []) 0 = Err (Fail (UnknownCertTag 19 (length (array_bytes 1))))"
proof -
  have "list_all (\<lambda>(l, cert). conway_cert_ok cert \<and> layout_ok l) sample_conway_certs" "length sample_conway_certs < 2 ^ 64"
    by (simp_all add: sample_conway_certs_def cred_ok_def pool_cert_ok_def sample_layout_ok)
  then show ?thesis
    using conway_certs_grammar [of sample_conway_certs True False 19 1 "[]"] by simp
qed

section \<open>Certificates the Shelley decoder does not know\<close>

text \<open>
  The Shelley decoder reads a certificate with a tag it does not know, such as a transfer of
  instantaneous rewards (tag 6), as the registration of the all-zero key credential. Applying
  such a certificate registers that credential, and a second one in the same chain is rejected
  as a double registration.
\<close>

theorem unknown_certificate_registers_zero:
  assumes "6 \<le> tag" "1 \<le> n" "params_ok (array_bytes n @ uint_bytes tag @ body)"
    and "bt_wf (registrations (delegation s))"
    and "bt_get (registrations (delegation s)) (StakeCredential.KeyHash (replicate 28 0)) = None"
  shows "\<exists>s'. decode_certificates (array_bytes 1 @ array_bytes n @ uint_bytes tag @ body) =
      Ok [StakeRegistration (StakeCredential.KeyHash (replicate 28 0))] \<and>
    apply_certs s [StakeRegistration (StakeCredential.KeyHash (replicate 28 0))] key_deposit = Ok s' \<and>
    bt_get (registrations (delegation s')) (StakeCredential.KeyHash (replicate 28 0)) = Some key_deposit \<and>
    apply_certs s' [StakeRegistration (StakeCredential.KeyHash (replicate 28 0))] key_deposit =
      Err (InvalidCertificate 0 StakeAlreadyRegistered)"
proof -
  let ?cert = "array_bytes n @ uint_bytes tag @ body" and ?z = "StakeCredential.KeyHash (replicate 28 0)"
  have "reads decode_single_certificate ?cert (StakeRegistration ?z)"
    unfolding reads_def
  proof (intro allI)
    fix pre rest
    have "read_array_header (pre @ ?cert @ rest) (length pre) =
        Ok (ContainerEncoding.Definite n (canonical_width n), length (pre @ array_bytes n))"
      using reads_at [OF reads_written(2) [of n], of pre "uint_bytes tag @ body @ rest"] by simp
    moreover have "read_uint (pre @ ?cert @ rest) (length (pre @ array_bytes n)) =
        Ok ((tag, canonical_width tag), length (pre @ array_bytes n @ uint_bytes tag))"
      using reads_at [OF reads_written(1) [of tag], of "pre @ array_bytes n" "body @ rest"] by simp
    moreover have "skip_item (pre @ ?cert @ rest) (length pre) =
        Ok ((length pre, length pre + length ?cert), length pre + length ?cert)"
      using item_local(1) [of False ?cert 0 "length ?cert" pre rest] assms(3) by (simp add: skip_item_Ok params_ok_def)
    moreover have "tag \<noteq> 0" "tag \<noteq> 1" "tag \<noteq> 2" "tag \<noteq> 3" "tag \<noteq> 4" "tag \<noteq> 5"
      using assms(1) by (auto simp: word_le_nat_alt)
    ultimately show "decode_single_certificate (pre @ ?cert @ rest) (length pre) = Ok (StakeRegistration ?z, length pre + length ?cert)"
      by (simp add: decode_single_certificate_def)
  qed
  then have one: "decode_single_certificate (array_bytes 1 @ ?cert) (length (array_bytes 1)) =
      Ok (StakeRegistration ?z, length (array_bytes 1 @ ?cert))"
    using reads_at [of decode_single_certificate ?cert "StakeRegistration ?z" "array_bytes 1" "[]"] by simp
  have h: "read_array_header (array_bytes 1 @ ?cert) 0 = Ok (ContainerEncoding.Definite 1 (canonical_width 1), length (array_bytes 1))"
    using reads_at [OF reads_written(2) [of 1], of "[]" ?cert] by simp
  have a1: "array_bytes 1 = [0x81]"
    by (simp add: array_bytes_def encode_array_header_def write_array_header_def canonical_width_def write_argument_def
        Let_def cbor_consts)
  have "decode_certificates (array_bytes 1 @ ?cert) = Ok [StakeRegistration ?z]"
    using h one by (simp add: decode_certificates_def a1 capacity_overflow_def)
  then show ?thesis
    using assms(4,5) by (simp add: apply_certs_def apply_stake_registration_def Let_def bt_contains_key_def bt_get_insert)
qed

theorem unknown_certificate_registers_zero_witness:
  "\<exists>s'. decode_certificates (array_bytes 1 @ array_bytes 2 @ uint_bytes 6 @ [0x80]) =
      Ok [StakeRegistration (StakeCredential.KeyHash (replicate 28 0))] \<and>
    apply_certs CertState_new [StakeRegistration (StakeCredential.KeyHash (replicate 28 0))] 2 = Ok s' \<and>
    bt_get (registrations (delegation s')) (StakeCredential.KeyHash (replicate 28 0)) = Some 2 \<and>
    apply_certs s' [StakeRegistration (StakeCredential.KeyHash (replicate 28 0))] 2 =
      Err (InvalidCertificate 0 StakeAlreadyRegistered)"
proof -
  have "params_ok [0x80]" using raw_ok_small by (simp add: params_ok_def raw_ok_def)
  then have "params_ok (array_bytes 2 @ concat [uint_bytes 6, [0x80]])"
    by (intro item_array) (simp_all add: item_uint)
  then show ?thesis
    by (intro unknown_certificate_registers_zero)
      (simp_all add: CertState_new_def DelegationState_new_def bt_wf_empty bt_get_empty)
qed

section \<open>Withdrawals add up\<close>

definition withdrawal_bytes :: "RewardAccount \<times> Coin \<Rightarrow> bytes" where
  "withdrawal_bytes = (\<lambda>(account, coin). string_bytes account @ uint_bytes coin)"

lemma reads_withdrawals:
  assumes "list_all (\<lambda>(a, c). length a = 29) ws" "distinct (map fst ws)" "bt_wf m"
    "\<forall>a\<in>fst ` set ws. bt_get m a = None"
  shows "\<exists>m'. reads (read_withdrawals (length ws) m) (concat (map withdrawal_bytes ws)) m' \<and> bt_wf m' \<and>
    (\<forall>a. bt_get m' a = (case map_of ws a of Some c \<Rightarrow> Some c | None \<Rightarrow> bt_get m a)) \<and>
    withdrawals_sum m' = withdrawals_sum m + sum_list (map (uint \<circ> snd) ws)"
  using assms
proof (induction ws arbitrary: m)
  case (Cons w ws)
  obtain a c where w: "w = (a, c)" by (cases w)
  let ?m = "bt_insert a c m"
  from Cons.prems have a: "length a = 29" "bt_get m a = None" "bt_wf m" by (simp_all add: w)
  have "\<exists>m'. reads (read_withdrawals (length ws) ?m) (concat (map withdrawal_bytes ws)) m' \<and> bt_wf m' \<and>
    (\<forall>a. bt_get m' a = (case map_of ws a of Some c \<Rightarrow> Some c | None \<Rightarrow> bt_get ?m a)) \<and>
    withdrawals_sum m' = withdrawals_sum ?m + sum_list (map (uint \<circ> snd) ws)"
    using Cons.prems by (intro Cons.IH) (auto simp: w bt_wf_insert bt_get_insert image_iff)
  then obtain m' where m': "reads (read_withdrawals (length ws) ?m) (concat (map withdrawal_bytes ws)) m'" "bt_wf m'"
    "\<And>b. bt_get m' b = (case map_of ws b of Some c \<Rightarrow> Some c | None \<Rightarrow> bt_get ?m b)"
    "withdrawals_sum m' = withdrawals_sum ?m + sum_list (map (uint \<circ> snd) ws)" by blast
  have "read_withdrawals (Suc (length ws)) m (pre @ (string_bytes a @ uint_bytes c @ concat (map withdrawal_bytes ws)) @ rest) (length pre) =
      Ok (m', length pre + length (string_bytes a @ uint_bytes c @ concat (map withdrawal_bytes ws)))" for pre rest
    using reads_at [OF reads_written_strings(1) [of a], of pre "uint_bytes c @ concat (map withdrawal_bytes ws) @ rest"]
      reads_at [OF reads_written(1) [of c], of "pre @ string_bytes a" "concat (map withdrawal_bytes ws) @ rest"]
      reads_at [OF m'(1), of "pre @ string_bytes a @ uint_bytes c" rest] a
    by (simp add: bt_contains_key_def add.assoc)
  then have "reads (read_withdrawals (length (w # ws)) m) (concat (map withdrawal_bytes (w # ws))) m'"
    by (simp add: reads_def w withdrawal_bytes_def)
  moreover have "withdrawals_sum ?m = uint c + withdrawals_sum m"
    using sum_list_bt_insert [OF a(3,2), of "\<lambda>(k, v). uint v" c]
    by (simp add: withdrawals_sum_def bt_values_def comp_def case_prod_unfold)
  moreover have "map_of ws a = None" using Cons.prems(2) by (simp add: w map_of_eq_None_iff)
  ultimately show ?case
    using m'(2-4) a
    by (intro exI [of _ m']) (auto simp: w bt_get_insert comp_def simp del: read_withdrawals.simps split: option.splits)
qed (auto simp: reads_def)

lemma decode_withdrawals_exact:
  assumes "list_all (\<lambda>(a, c). length a = 29) ws" "distinct (map fst ws)" "length ws < 2 ^ 64"
  shows "\<exists>m. decode_withdrawals (map_bytes (word_of_nat (length ws)) @ concat (map withdrawal_bytes ws)) = Ok m \<and>
    bt_get m = map_of ws \<and> withdrawals_sum m = sum_list (map (uint \<circ> snd) ws)"
proof -
  obtain m where m: "reads (read_withdrawals (length ws) bt_empty) (concat (map withdrawal_bytes ws)) m"
    "\<forall>a. bt_get m a = (case map_of ws a of Some c \<Rightarrow> Some c | None \<Rightarrow> bt_get bt_empty a)"
    "withdrawals_sum m = withdrawals_sum bt_empty + sum_list (map (uint \<circ> snd) ws)"
    using reads_withdrawals [OF assms(1,2) bt_wf_empty] by (auto simp: bt_get_empty)
  have "decode_withdrawals (map_bytes (word_of_nat (length ws)) @ concat (map withdrawal_bytes ws)) = Ok m"
    using reads_at [OF reads_map_header, of "[]" "word_of_nat (length ws)" "concat (map withdrawal_bytes ws)"]
      reads_at [OF m(1), of "map_bytes (word_of_nat (length ws))" "[]"]
    by (simp add: decode_withdrawals_def unat_count [OF assms(3)])
  moreover have "bt_get m = map_of ws" using m(2) by (auto simp: fun_eq_iff bt_get_empty split: option.splits)
  ultimately show ?thesis using m(3) by (simp add: withdrawals_sum_def bt_values_def bt_empty_def)
qed

end
