(* ===== verification/Conway_Cert.thy ===== *)
theory Conway_Cert
  imports Cert_Codec
begin

text \<open>
  Conway certificates: their effect on the certificate state (\<^verbatim>\<open>ade_ledger/src/delegation.rs\<close>), on
  the governance state (\<^verbatim>\<open>gov_cert.rs\<close>), their classification for value conservation
  (\<^verbatim>\<open>cert_classify.rs\<close>) and the accumulation over a transaction (\<^verbatim>\<open>rules.rs\<close>,
  \<^verbatim>\<open>accumulate_tx_certs\<close>). Shown: accumulation keeps the invariant of the certificate state and
  that delegated DReps are registered; the classification is the change of the deposits held; and
  each certificate touches only the states its action names.
\<close>

section \<open>Actions and effects\<close>

datatype GovernanceCertEffect =
    VoteDelegation
  | StakeVoteDelegation
  | CommitteeHotKeyAuthorization
  | CommitteeColdKeyResignation
  | DRepRegistration
  | DRepUnregistration
  | DRepUpdate
  | AccountVoteDelegationRemoval

datatype GovernanceOwner = ConwayGovStateOwner

record OwnerTaggedEffect =
  ote_owner :: GovernanceOwner
  ote_effect :: GovernanceCertEffect

datatype ConwayCertAction =
    MutateCertState
  | Governance GovernanceCertEffect
  | CertStateAndGovernance GovernanceCertEffect
  | NotValidInEra

fun conway_cert_action :: "ConwayCert \<Rightarrow> ConwayCertAction" where
  "conway_cert_action (ConwayCert.AccountRegistration _) = MutateCertState"
| "conway_cert_action (ConwayCert.StakeDelegation _ _) = MutateCertState"
| "conway_cert_action (ConwayCert.PoolRegistration _) = MutateCertState"
| "conway_cert_action (ConwayCert.PoolRetirement _ _) = MutateCertState"
| "conway_cert_action (ConwayCert.AccountRegistrationDeposit _ _) = MutateCertState"
| "conway_cert_action (ConwayCert.StakeRegistrationDelegation _ _ _) = MutateCertState"
| "conway_cert_action (ConwayCert.AccountUnregistration _) = CertStateAndGovernance AccountVoteDelegationRemoval"
| "conway_cert_action (ConwayCert.AccountUnregistrationDeposit _ _) = CertStateAndGovernance AccountVoteDelegationRemoval"
| "conway_cert_action (ConwayCert.VoteDelegation _ _) = Governance VoteDelegation"
| "conway_cert_action (ConwayCert.AuthCommitteeHot _ _) = Governance CommitteeHotKeyAuthorization"
| "conway_cert_action (ConwayCert.ResignCommitteeCold _) = Governance CommitteeColdKeyResignation"
| "conway_cert_action (ConwayCert.DRepRegistration _ _) = Governance DRepRegistration"
| "conway_cert_action (ConwayCert.DRepUnregistration _ _) = Governance DRepUnregistration"
| "conway_cert_action (ConwayCert.DRepUpdate _) = Governance DRepUpdate"
| "conway_cert_action (ConwayCert.StakeVoteDelegation _ _ _) = CertStateAndGovernance StakeVoteDelegation"
| "conway_cert_action (ConwayCert.VoteRegistrationDelegation _ _ _) = CertStateAndGovernance VoteDelegation"
| "conway_cert_action (ConwayCert.StakeVoteRegistrationDelegation _ _ _ _) = CertStateAndGovernance StakeVoteDelegation"
| "conway_cert_action (ConwayCert.RemovedInConway _) = NotValidInEra"

record ConwayCertEnv =
  cce_key_deposit :: Coin
  cce_cert_index :: u16

record ConwayCertOutcome =
  cco_state :: CertState
  cco_owner_tagged :: "OwnerTaggedEffect list"

definition tagged_outcome :: "GovernanceCertEffect \<Rightarrow> CertState \<Rightarrow> (ConwayCertOutcome, LedgerError) result" where
  "tagged_outcome eff state =
     Ok \<lparr>cco_state = state, cco_owner_tagged = [\<lparr>ote_owner = ConwayGovStateOwner, ote_effect = eff\<rparr>]\<rparr>"

definition plain_outcome :: "CertState \<Rightarrow> (ConwayCertOutcome, LedgerError) result" where
  "plain_outcome state = Ok \<lparr>cco_state = state, cco_owner_tagged = []\<rparr>"

fun apply_conway_cert :: "CertState \<Rightarrow> ConwayCert \<Rightarrow> ConwayCertEnv \<Rightarrow> (ConwayCertOutcome, LedgerError) result" where
  "apply_conway_cert s (ConwayCert.AccountRegistration c) env =
     rbind (apply_stake_registration s c (cce_key_deposit env) (cce_cert_index env)) plain_outcome"
| "apply_conway_cert s (ConwayCert.AccountRegistrationDeposit c d) env =
     rbind (apply_stake_registration s c d (cce_cert_index env)) plain_outcome"
| "apply_conway_cert s (ConwayCert.AccountUnregistration c) env =
     rbind (apply_stake_deregistration s c (cce_cert_index env)) (tagged_outcome AccountVoteDelegationRemoval)"
| "apply_conway_cert s (ConwayCert.AccountUnregistrationDeposit c _) env =
     rbind (apply_stake_deregistration s c (cce_cert_index env)) (tagged_outcome AccountVoteDelegationRemoval)"
| "apply_conway_cert s (ConwayCert.StakeDelegation c p) env =
     rbind (apply_stake_delegation s c p (cce_cert_index env)) plain_outcome"
| "apply_conway_cert s (ConwayCert.PoolRegistration pc) env =
     rbind (apply_pool_registration s pc (cce_cert_index env)) plain_outcome"
| "apply_conway_cert s (ConwayCert.PoolRetirement p e) env =
     rbind (apply_pool_retirement s p e (cce_cert_index env)) plain_outcome"
| "apply_conway_cert s (ConwayCert.StakeRegistrationDelegation c p d) env =
     rbind (apply_stake_registration s c d (cce_cert_index env)) (\<lambda>s.
     rbind (apply_stake_delegation s c p (cce_cert_index env)) plain_outcome)"
| "apply_conway_cert s (ConwayCert.StakeVoteDelegation c p _) env =
     rbind (apply_stake_delegation s c p (cce_cert_index env)) (tagged_outcome StakeVoteDelegation)"
| "apply_conway_cert s (ConwayCert.VoteRegistrationDelegation c _ d) env =
     rbind (apply_stake_registration s c d (cce_cert_index env)) (tagged_outcome VoteDelegation)"
| "apply_conway_cert s (ConwayCert.StakeVoteRegistrationDelegation c p _ d) env =
     rbind (apply_stake_registration s c d (cce_cert_index env)) (\<lambda>s.
     rbind (apply_stake_delegation s c p (cce_cert_index env)) (tagged_outcome StakeVoteDelegation))"
| "apply_conway_cert s (ConwayCert.VoteDelegation _ _) env = tagged_outcome VoteDelegation s"
| "apply_conway_cert s (ConwayCert.AuthCommitteeHot _ _) env = tagged_outcome CommitteeHotKeyAuthorization s"
| "apply_conway_cert s (ConwayCert.ResignCommitteeCold _) env = tagged_outcome CommitteeColdKeyResignation s"
| "apply_conway_cert s (ConwayCert.DRepRegistration _ _) env = tagged_outcome DRepRegistration s"
| "apply_conway_cert s (ConwayCert.DRepUnregistration _ _) env = tagged_outcome DRepUnregistration s"
| "apply_conway_cert s (ConwayCert.DRepUpdate _) env = tagged_outcome DRepUpdate s"
| "apply_conway_cert s (ConwayCert.RemovedInConway tag) env = Err (EraInvalidCertificate (cce_cert_index env) tag)"

section \<open>Governance state\<close>

text \<open>The fields of \<^verbatim>\<open>ConwayGovState\<close> that certificates read or write; the type parameter holds the
  others, which every certificate carries through.\<close>

record 'r ConwayGovState =
  drep_expiry :: "(StakeCredential, u64) btree_map"
  vote_delegations :: "(StakeCredential, DRep) btree_map"
  committee_hot_keys :: "(StakeCredential, StakeCredential) btree_map"
  gov_rest :: 'r

record GovCertEnv =
  gce_current_epoch :: u64
  gce_drep_activity :: u64

fun drep_credential :: "DRep \<Rightarrow> StakeCredential option" where
  "drep_credential (DRep.KeyHash h) = Some (StakeCredential.KeyHash h)"
| "drep_credential (DRep.ScriptHash h) = Some (StakeCredential.ScriptHash h)"
| "drep_credential AlwaysAbstain = None"
| "drep_credential AlwaysNoConfidence = None"

definition delegate_vote ::
  "'r ConwayGovState \<Rightarrow> StakeCredential \<Rightarrow> DRep \<Rightarrow> u16 \<Rightarrow> ('r ConwayGovState, LedgerError) result" where
  "delegate_vote gov c drep i =
     (case drep_credential drep of
        Some target \<Rightarrow>
          (if \<not> bt_contains_key (drep_expiry gov) target then Err (InvalidCertificate i DRepNotRegistered)
           else Ok (gov\<lparr>vote_delegations := bt_insert c drep (vote_delegations gov)\<rparr>))
      | None \<Rightarrow> Ok (gov\<lparr>vote_delegations := bt_insert c drep (vote_delegations gov)\<rparr>))"

definition refresh_drep ::
  "'r ConwayGovState \<Rightarrow> StakeCredential \<Rightarrow> GovCertEnv option \<Rightarrow> ('r ConwayGovState, LedgerError) result" where
  "refresh_drep gov c env =
     rbind (ok_or (ValidationEnvironment MissingDRepActivityParam) env) (\<lambda>env.
     rbind (ok_or (ValidationEnvironment DRepActivityOverflow)
              (checked_add (gce_current_epoch env) (gce_drep_activity env))) (\<lambda>expiry.
     Ok (gov\<lparr>drep_expiry := bt_insert c expiry (drep_expiry gov)\<rparr>)))"

fun apply_conway_gov_cert ::
  "'r ConwayGovState \<Rightarrow> ConwayCert \<Rightarrow> GovCertEnv option \<Rightarrow> u16 \<Rightarrow> ('r ConwayGovState, LedgerError) result" where
  "apply_conway_gov_cert gov (ConwayCert.VoteDelegation c drep) env i = delegate_vote gov c drep i"
| "apply_conway_gov_cert gov (ConwayCert.StakeVoteDelegation c _ drep) env i = delegate_vote gov c drep i"
| "apply_conway_gov_cert gov (ConwayCert.VoteRegistrationDelegation c drep _) env i = delegate_vote gov c drep i"
| "apply_conway_gov_cert gov (ConwayCert.StakeVoteRegistrationDelegation c _ drep _) env i = delegate_vote gov c drep i"
| "apply_conway_gov_cert gov (ConwayCert.AuthCommitteeHot cold hot) env i =
     Ok (gov\<lparr>committee_hot_keys := bt_insert hot cold (committee_hot_keys gov)\<rparr>)"
| "apply_conway_gov_cert gov (ConwayCert.ResignCommitteeCold cold) env i =
     Ok (gov\<lparr>committee_hot_keys := bt_retain (\<lambda>_ c. c \<noteq> cold) (committee_hot_keys gov)\<rparr>)"
| "apply_conway_gov_cert gov (ConwayCert.DRepRegistration c _) env i = refresh_drep gov c env"
| "apply_conway_gov_cert gov (ConwayCert.DRepUpdate c) env i = refresh_drep gov c env"
| "apply_conway_gov_cert gov (ConwayCert.DRepUnregistration c _) env i =
     Ok (gov\<lparr>drep_expiry := bt_remove c (drep_expiry gov),
              vote_delegations := bt_retain (\<lambda>_ drep. drep_credential drep \<noteq> Some c) (vote_delegations gov)\<rparr>)"
| "apply_conway_gov_cert gov (ConwayCert.AccountUnregistration c) env i =
     Ok (gov\<lparr>vote_delegations := bt_remove c (vote_delegations gov)\<rparr>)"
| "apply_conway_gov_cert gov (ConwayCert.AccountUnregistrationDeposit c _) env i =
     Ok (gov\<lparr>vote_delegations := bt_remove c (vote_delegations gov)\<rparr>)"
| "apply_conway_gov_cert gov (ConwayCert.AccountRegistration _) env i = Ok gov"
| "apply_conway_gov_cert gov (ConwayCert.StakeDelegation _ _) env i = Ok gov"
| "apply_conway_gov_cert gov (ConwayCert.PoolRegistration _) env i = Ok gov"
| "apply_conway_gov_cert gov (ConwayCert.PoolRetirement _ _) env i = Ok gov"
| "apply_conway_gov_cert gov (ConwayCert.AccountRegistrationDeposit _ _) env i = Ok gov"
| "apply_conway_gov_cert gov (ConwayCert.StakeRegistrationDelegation _ _ _) env i = Ok gov"
| "apply_conway_gov_cert gov (ConwayCert.RemovedInConway _) env i = Ok gov"

section \<open>Accumulation over a transaction\<close>

definition conway_cert_step ::
  "Coin \<Rightarrow> GovCertEnv option \<Rightarrow> nat \<Rightarrow> CertState \<times> 'r ConwayGovState option \<Rightarrow> ConwayCert \<Rightarrow>
   (CertState \<times> 'r ConwayGovState option, LedgerError) result" where
  "conway_cert_step key_deposit gov_env idx = (\<lambda>(state, gov) cert.
     rbind (apply_conway_cert state cert \<lparr>cce_key_deposit = key_deposit, cce_cert_index = word_of_nat idx\<rparr>) (\<lambda>outcome.
     rbind (case gov of
              Some g \<Rightarrow> rbind (apply_conway_gov_cert g cert gov_env (word_of_nat idx)) (\<lambda>g. Ok (Some g))
            | None \<Rightarrow> Ok None) (\<lambda>gov.
     Ok (cco_state outcome, gov))))"

definition accumulate_tx_certs ::
  "CardanoEra \<Rightarrow> bytes \<Rightarrow> CertState \<Rightarrow> 'r ConwayGovState option \<Rightarrow> Coin \<Rightarrow> GovCertEnv option \<Rightarrow>
   (CertState \<times> 'r ConwayGovState option, LedgerError failure) result" where
  "accumulate_tx_certs era cert_bytes cert_state gov_state key_deposit gov_env =
     (if era = Conway then
        rbind (map_err (map_failure from_codec_error) (decode_conway_certs cert_bytes)) (\<lambda>certs.
        map_err Fail (fold_certs (conway_cert_step key_deposit gov_env) 0 (cert_state, gov_state) certs))
      else
        rbind (map_err (map_failure from_codec_error) (decode_certificates cert_bytes)) (\<lambda>certs.
        rbind (map_err Fail (fold_certs (\<lambda>i s cert. apply_cert s cert key_deposit (word_of_nat i)) 0 cert_state certs))
          (\<lambda>state. Ok (state, gov_state))))"

section \<open>Classification for value conservation\<close>

datatype CoinSource = ExplicitInCert Coin | DepositParam Coin | RegistrationState Coin

datatype DepositEffect = NewDeposit CoinSource | Refund CoinSource

datatype CertDisposition = Accountable DepositEffect | Neutral | NotValidInConway

record ConwayDepositParams =
  cdp_key_deposit :: Coin
  cdp_pool_deposit :: Coin
  cdp_drep_deposit :: Coin
  cdp_gov_action_deposit :: Coin

fun classify_cert :: "ConwayCert \<Rightarrow> ConwayDepositParams \<Rightarrow> CertState \<Rightarrow> (CertDisposition, LedgerError) result" where
  "classify_cert (ConwayCert.AccountRegistration _) dp s = Ok (Accountable (NewDeposit (DepositParam (cdp_key_deposit dp))))"
| "classify_cert (ConwayCert.AccountUnregistration c) dp s =
     (case bt_get (registrations (delegation s)) c of
        Some recorded \<Rightarrow> Ok (Accountable (Refund (RegistrationState recorded)))
      | None \<Rightarrow> Err LegacyUnregistrationRefundUnresolved)"
| "classify_cert (ConwayCert.PoolRegistration pc) dp s =
     (if bt_contains_key (pools (pool s)) (prc_pool_id pc) then Ok Neutral
      else Ok (Accountable (NewDeposit (DepositParam (cdp_pool_deposit dp)))))"
| "classify_cert (ConwayCert.AccountRegistrationDeposit _ d) dp s = Ok (Accountable (NewDeposit (ExplicitInCert d)))"
| "classify_cert (ConwayCert.StakeRegistrationDelegation _ _ d) dp s = Ok (Accountable (NewDeposit (ExplicitInCert d)))"
| "classify_cert (ConwayCert.VoteRegistrationDelegation _ _ d) dp s = Ok (Accountable (NewDeposit (ExplicitInCert d)))"
| "classify_cert (ConwayCert.StakeVoteRegistrationDelegation _ _ _ d) dp s = Ok (Accountable (NewDeposit (ExplicitInCert d)))"
| "classify_cert (ConwayCert.DRepRegistration _ d) dp s = Ok (Accountable (NewDeposit (ExplicitInCert d)))"
| "classify_cert (ConwayCert.AccountUnregistrationDeposit _ r) dp s = Ok (Accountable (Refund (ExplicitInCert r)))"
| "classify_cert (ConwayCert.DRepUnregistration _ r) dp s = Ok (Accountable (Refund (ExplicitInCert r)))"
| "classify_cert (ConwayCert.StakeDelegation _ _) dp s = Ok Neutral"
| "classify_cert (ConwayCert.PoolRetirement _ _) dp s = Ok Neutral"
| "classify_cert (ConwayCert.VoteDelegation _ _) dp s = Ok Neutral"
| "classify_cert (ConwayCert.StakeVoteDelegation _ _ _) dp s = Ok Neutral"
| "classify_cert (ConwayCert.AuthCommitteeHot _ _) dp s = Ok Neutral"
| "classify_cert (ConwayCert.ResignCommitteeCold _) dp s = Ok Neutral"
| "classify_cert (ConwayCert.DRepUpdate _) dp s = Ok Neutral"
| "classify_cert (ConwayCert.RemovedInConway _) dp s = Ok NotValidInConway"

fun coin_of :: "CoinSource \<Rightarrow> u64" where
  "coin_of (ExplicitInCert c) = c"
| "coin_of (DepositParam c) = c"
| "coin_of (RegistrationState c) = c"

lemmas outcome_defs = tagged_outcome_def plain_outcome_def

lemma ok_conway_cert:
  assumes "cert_state_ok s" "apply_conway_cert s cert env = Ok out"
  shows "cert_state_ok (cco_state out)"
  using assms by (cases cert; auto simp: rbind_eq_Ok outcome_defs; blast intro: ok_rules)

section \<open>Delegated representatives are registered\<close>

definition gov_ok :: "'r ConwayGovState \<Rightarrow> bool" where
  "gov_ok g \<longleftrightarrow> bt_wf (drep_expiry g) \<and> bt_wf (vote_delegations g) \<and> bt_wf (committee_hot_keys g) \<and>
     (\<forall>c drep t. bt_get (vote_delegations g) c = Some drep \<and> drep_credential drep = Some t \<longrightarrow>
        bt_get (drep_expiry g) t \<noteq> None)"

lemma gov_ok_delegate: "gov_ok g \<Longrightarrow> delegate_vote g c drep i = Ok g' \<Longrightarrow> gov_ok g'"
  by (auto simp: gov_ok_def delegate_vote_def bt_maps bt_contains_key_def split: option.splits if_splits)

lemma gov_ok_refresh: "gov_ok g \<Longrightarrow> refresh_drep g c env = Ok g' \<Longrightarrow> gov_ok g'"
  by (auto simp: gov_ok_def refresh_drep_def bt_maps result_simps split: if_splits)

lemma gov_ok_remove: "gov_ok g \<Longrightarrow> gov_ok (g\<lparr>vote_delegations := bt_remove c (vote_delegations g)\<rparr>)"
  by (auto simp: gov_ok_def bt_maps split: if_splits)

lemma gov_ok_committee:
  "gov_ok g \<Longrightarrow> gov_ok (g\<lparr>committee_hot_keys := bt_insert hot cold (committee_hot_keys g)\<rparr>)"
  "gov_ok g \<Longrightarrow> gov_ok (g\<lparr>committee_hot_keys := bt_retain P (committee_hot_keys g)\<rparr>)"
  by (simp_all add: gov_ok_def bt_maps)

lemma gov_ok_unregister:
  "gov_ok g \<Longrightarrow> gov_ok (g\<lparr>drep_expiry := bt_remove c (drep_expiry g),
     vote_delegations := bt_retain (\<lambda>_ drep. drep_credential drep \<noteq> Some c) (vote_delegations g)\<rparr>)"
  by (auto simp: gov_ok_def bt_maps split: option.splits if_splits)

lemma gov_ok_cert: "gov_ok g \<Longrightarrow> apply_conway_gov_cert g cert env i = Ok g' \<Longrightarrow> gov_ok g'"
  by (cases cert)
    (auto simp: gov_ok_remove gov_ok_unregister gov_ok_committee dest: gov_ok_delegate gov_ok_refresh)

definition ledger_ok :: "CertState \<times> 'r ConwayGovState option \<Rightarrow> bool" where
  "ledger_ok = (\<lambda>(s, gov). cert_state_ok s \<and> (case gov of None \<Rightarrow> True | Some g \<Rightarrow> gov_ok g))"

interpretation conway: certificate_rule "conway_cert_step key_deposit gov_env" ledger_ok
  for key_deposit gov_env
proof unfold_locales
  show "ledger_ok sg'" if "ledger_ok sg" "conway_cert_step key_deposit gov_env i sg c = Ok sg'" for i c
    and sg sg' :: "CertState \<times> 'r ConwayGovState option"
    using that
    by (cases sg) (auto simp: ledger_ok_def conway_cert_step_def rbind_eq_Ok intro: ok_conway_cert gov_ok_cert
        split: option.splits)
qed

lemma accumulate_ok:
  assumes "ledger_ok (s, gov)" "accumulate_tx_certs era bs s gov kd env = Ok sg'"
  shows "ledger_ok sg'"
proof (cases "era = Conway")
  case True
  with assms(2) obtain certs where "fold_certs (conway_cert_step kd env) 0 (s, gov) certs = Ok sg'"
    by (auto simp: accumulate_tx_certs_def result_simps)
  then show ?thesis by (rule conway.fold_keeps [OF assms(1)])
next
  case False
  with assms(2) obtain certs s' where f: "fold_certs (\<lambda>i s cert. apply_cert s cert kd (word_of_nat i)) 0 s certs = Ok s'"
    and sg: "sg' = (s', gov)"
    by (auto simp: accumulate_tx_certs_def result_simps)
  have "cert_state_ok s" using assms(1) by (simp add: ledger_ok_def)
  from shelley.fold_keeps [OF this f] show ?thesis using assms(1) by (simp add: ledger_ok_def sg)
qed

text \<open>The states a chain can reach: transactions of any era, epoch boundaries and the bootstrap
  reward update, in any order.\<close>

inductive ledger_reachable :: "CertState \<times> 'r ConwayGovState option \<Rightarrow> bool" where
  start: "gov_ok g \<Longrightarrow> ledger_reachable (CertState_new, Some g)"
| untracked: "ledger_reachable (CertState_new, None)"
| transaction: "ledger_reachable (s, gov) \<Longrightarrow> accumulate_tx_certs era bs s gov kd env = Ok sg \<Longrightarrow> ledger_reachable sg"
| boundary: "ledger_reachable (s, gov) \<Longrightarrow> ledger_reachable (apply_pool_reap s e, gov)"
| reward_update: "ledger_reachable (s, gov) \<Longrightarrow> apply_bootstrap_reward_deltas (delegation s) delta = Ok d \<Longrightarrow>
    ledger_reachable (s\<lparr>delegation := d\<rparr>, gov)"

lemma CertState_new_ok: "cert_state_ok CertState_new"
  by (simp add: cert_state_ok_def cert_state_wf_def CertState_new_def DelegationState_new_def PoolState_new_def
      bt_wf_empty bt_get_empty)

lemma reachable_ok: "ledger_reachable sg \<Longrightarrow> ledger_ok sg"
proof (induction rule: ledger_reachable.induct)
  case (reward_update s gov delta d)
  then have ok: "cert_state_ok s" by (simp add: ledger_ok_def)
  from bootstrap_ok [OF reward_update.hyps(2)] ok have "cert_state_ok (s\<lparr>delegation := d\<rparr>)"
    by (auto simp: cert_state_ok_def cert_state_wf_def)
  with reward_update.IH show ?case by (simp add: ledger_ok_def)
next
  case (transaction s gov era bs kd env sg)
  then show ?case by (blast intro: accumulate_ok)
qed (simp_all add: ledger_ok_def CertState_new_ok ok_reap)

text \<open>
  C13. In every state the ledger can reach by transactions of any era, epoch boundaries and reward
  updates, stake is delegated only by registered credentials to active pools, every registered
  credential has a reward balance, only active pools have a staged update or a retirement date,
  and votes are delegated only to registered or predefined representatives.
\<close>

theorem delegations_well_founded:
  assumes "ledger_reachable (s, Some g)"
  shows "(\<forall>c p. bt_get (delegations (delegation s)) c = Some p \<longrightarrow>
      bt_get (registrations (delegation s)) c \<noteq> None \<and> bt_get (pools (pool s)) p \<noteq> None) \<and>
    (\<forall>c. bt_get (registrations (delegation s)) c \<noteq> None \<longrightarrow> bt_get (rewards (delegation s)) c \<noteq> None) \<and>
    (\<forall>p. bt_get (future_pools (pool s)) p \<noteq> None \<or> bt_get (retiring (pool s)) p \<noteq> None \<longrightarrow>
      bt_get (pools (pool s)) p \<noteq> None) \<and>
    (\<forall>c drep t. bt_get (vote_delegations g) c = Some drep \<and> drep_credential drep = Some t \<longrightarrow>
      bt_get (drep_expiry g) t \<noteq> None)"
  using reachable_ok [OF assms] by (auto simp: ledger_ok_def cert_state_ok_def gov_ok_def)

definition sample_gov :: "unit ConwayGovState" where
  "sample_gov = \<lparr>drep_expiry = [(StakeCredential.KeyHash [7], 90)],
     vote_delegations = [(StakeCredential.KeyHash [1], DRep.KeyHash [7]), (StakeCredential.KeyHash [2], AlwaysAbstain)],
     committee_hot_keys = [], gov_rest = ()\<rparr>"

theorem delegations_well_founded_witness:
  "ledger_reachable (apply_pool_reap CertState_new 3, Some sample_gov) \<and>
   bt_get (vote_delegations sample_gov) (StakeCredential.KeyHash [1]) = Some (DRep.KeyHash [7]) \<and>
   bt_get (drep_expiry sample_gov) (StakeCredential.KeyHash [7]) \<noteq> None"
proof -
  have "gov_ok sample_gov"
    by (auto simp: gov_ok_def sample_gov_def bt_wf_def bt_get_def less_StakeCredential_def split: if_splits)
  then have r: "ledger_reachable (apply_pool_reap CertState_new 3, Some sample_gov)"
    by (intro ledger_reachable.boundary ledger_reachable.start)
  have "bt_get (vote_delegations sample_gov) (StakeCredential.KeyHash [1]) = Some (DRep.KeyHash [7])"
    by (simp add: sample_gov_def bt_get_def)
  with r delegations_well_founded [OF r] show ?thesis by (metis drep_credential.simps(1))
qed

section \<open>Ownership\<close>

text \<open>
  The action of a certificate is what applying it does. A removed certificate is always rejected.
  A governance certificate leaves the certificate state alone and reports its effect; a
  certificate that only concerns stake or pools leaves the governance state alone and reports
  none; a composite does both, with the reported effect. Nothing is reported twice, and no
  other error of the governance half can arise for the second group.
\<close>

theorem certificate_ownership:
  "case conway_cert_action cert of
     NotValidInEra \<Rightarrow> \<exists>tag. apply_conway_cert s cert env = Err (EraInvalidCertificate (cce_cert_index env) tag)
   | Governance eff \<Rightarrow> apply_conway_cert s cert env =
       Ok \<lparr>cco_state = s, cco_owner_tagged = [\<lparr>ote_owner = ConwayGovStateOwner, ote_effect = eff\<rparr>]\<rparr>
   | MutateCertState \<Rightarrow> apply_conway_gov_cert g cert genv i = Ok g \<and>
       (case apply_conway_cert s cert env of
          Ok out \<Rightarrow> cco_owner_tagged out = []
        | Err e \<Rightarrow> \<exists>r. e = InvalidCertificate (cce_cert_index env) r)
   | CertStateAndGovernance eff \<Rightarrow>
       (case apply_conway_cert s cert env of
          Ok out \<Rightarrow> cco_owner_tagged out = [\<lparr>ote_owner = ConwayGovStateOwner, ote_effect = eff\<rparr>]
        | Err e \<Rightarrow> \<exists>r. e = InvalidCertificate (cce_cert_index env) r)"
  by (cases cert) (simp_all add: cert_defs outcome_defs)

section \<open>Deposits\<close>

text \<open>The deposits the certificate state answers for: the recorded key deposits, and one pool
  deposit for each active pool.\<close>

definition deposits_held :: "ConwayDepositParams \<Rightarrow> CertState \<Rightarrow> int" where
  "deposits_held dp s = sum_list (map (\<lambda>(c, d). uint d) (registrations (delegation s))) +
     uint (cdp_pool_deposit dp) * int (length (pools (pool s)))"

fun deposit_flow :: "CertDisposition \<Rightarrow> int" where
  "deposit_flow (Accountable (NewDeposit src)) = uint (coin_of src)"
| "deposit_flow (Accountable (Refund src)) = - uint (coin_of src)"
| "deposit_flow Neutral = 0"
| "deposit_flow NotValidInConway = 0"

text \<open>Deposits of representatives are carried by the transaction only; no state records them.\<close>

fun drep_flow :: "ConwayCert \<Rightarrow> int" where
  "drep_flow (ConwayCert.DRepRegistration _ d) = uint d"
| "drep_flow (ConwayCert.DRepUnregistration _ r) = - uint r"
| "drep_flow _ = 0"

text \<open>An explicit refund names the recorded deposit. The code does not compare them.\<close>

fun honest_refund :: "CertState \<Rightarrow> ConwayCert \<Rightarrow> bool" where
  "honest_refund s (ConwayCert.AccountUnregistrationDeposit c r) \<longleftrightarrow> bt_get (registrations (delegation s)) c = Some r"
| "honest_refund s _ \<longleftrightarrow> True"

lemma held_registration:
  assumes "apply_stake_registration s c d i = Ok s'" "cert_state_wf s"
  shows "cert_state_wf s' \<and> deposits_held dp s' = deposits_held dp s + uint d"
  using assms sum_list_bt_insert [of "registrations (delegation s)" c "\<lambda>(c, d). uint d" d]
  by (auto simp: cert_defs deposits_held_def cert_state_wf_def bt_contains_key_def bt_wf_insert split: if_splits)

lemma held_deregistration:
  assumes "apply_stake_deregistration s c i = Ok s'" "cert_state_wf s"
  shows "cert_state_wf s' \<and>
    (\<exists>d. bt_get (registrations (delegation s)) c = Some d \<and> deposits_held dp s' = deposits_held dp s - uint d)"
  using assms sum_list_bt_remove [of "registrations (delegation s)" c _ "\<lambda>(c, d). uint d"]
  by (fastforce simp: cert_defs deposits_held_def cert_state_wf_def bt_contains_key_def bt_wf_remove split: if_splits)

lemma held_delegation:
  assumes "apply_stake_delegation s c p i = Ok s'" "cert_state_wf s"
  shows "cert_state_wf s' \<and> deposits_held dp s' = deposits_held dp s"
  using assms by (auto simp: cert_defs deposits_held_def cert_state_wf_def bt_wf_insert split: if_splits)

lemma held_pool_registration:
  assumes "apply_pool_registration s pc i = Ok s'" "cert_state_wf s"
  shows "cert_state_wf s' \<and> deposits_held dp s' = deposits_held dp s +
    (if bt_contains_key (pools (pool s)) (prc_pool_id pc) then 0 else uint (cdp_pool_deposit dp))"
proof -
  have wf: "bt_wf (pools (pool s))" using assms(2) by (simp add: cert_state_wf_def)
  have "length (bt_insert (prc_pool_id pc) (params_of pc) (pools (pool s))) = Suc (length (pools (pool s)))"
    if "\<not> bt_contains_key (pools (pool s)) (prc_pool_id pc)"
    using that by (simp add: length_bt_insert [OF wf] bt_contains_key_def bt_get_None)
  with assms show ?thesis
    by (auto simp: cert_defs deposits_held_def cert_state_wf_def bt_wf_insert bt_wf_remove algebra_simps split: if_splits)
qed

lemma held_pool_retirement:
  assumes "apply_pool_retirement s p e i = Ok s'" "cert_state_wf s"
  shows "cert_state_wf s' \<and> deposits_held dp s' = deposits_held dp s"
  using assms by (auto simp: cert_defs deposits_held_def cert_state_wf_def bt_wf_insert split: if_splits)

lemmas held_rules = held_registration held_deregistration held_delegation held_pool_registration held_pool_retirement

text \<open>One certificate changes the deposits held by exactly what its classification says.\<close>

lemma held_conway_cert:
  assumes "apply_conway_cert s cert env = Ok out" "cert_state_wf s" "classify_cert cert dp s = Ok disp"
    "cce_key_deposit env = cdp_key_deposit dp" "honest_refund s cert"
  shows "cert_state_wf (cco_state out) \<and>
    deposits_held dp (cco_state out) = deposits_held dp s + deposit_flow disp - drep_flow cert"
proof (cases cert)
  case (StakeRegistrationDelegation c p d)
  with assms(1) obtain s1 where "apply_stake_registration s c d (cce_cert_index env) = Ok s1"
    "apply_stake_delegation s1 c p (cce_cert_index env) = Ok (cco_state out)"
    by (auto simp: rbind_eq_Ok outcome_defs)
  with held_registration [of s c d _ s1 dp] held_delegation [of s1 c p _ "cco_state out" dp] assms
  show ?thesis by (auto simp: StakeRegistrationDelegation)
next
  case (StakeVoteRegistrationDelegation c p v d)
  with assms(1) obtain s1 where "apply_stake_registration s c d (cce_cert_index env) = Ok s1"
    "apply_stake_delegation s1 c p (cce_cert_index env) = Ok (cco_state out)"
    by (auto simp: rbind_eq_Ok outcome_defs)
  with held_registration [of s c d _ s1 dp] held_delegation [of s1 c p _ "cco_state out" dp] assms
  show ?thesis by (auto simp: StakeVoteRegistrationDelegation)
qed (use assms in \<open>auto simp: rbind_eq_Ok outcome_defs split: option.splits if_splits
      dest!: held_rules [where dp = dp]\<close>)

text \<open>The credential or pool whose deposit a certificate moves.\<close>

fun deposit_subject :: "ConwayCert \<Rightarrow> (StakeCredential + PoolId) option" where
  "deposit_subject (ConwayCert.AccountRegistration c) = Some (Inl c)"
| "deposit_subject (ConwayCert.AccountUnregistration c) = Some (Inl c)"
| "deposit_subject (ConwayCert.AccountRegistrationDeposit c _) = Some (Inl c)"
| "deposit_subject (ConwayCert.AccountUnregistrationDeposit c _) = Some (Inl c)"
| "deposit_subject (ConwayCert.StakeRegistrationDelegation c _ _) = Some (Inl c)"
| "deposit_subject (ConwayCert.VoteRegistrationDelegation c _ _) = Some (Inl c)"
| "deposit_subject (ConwayCert.StakeVoteRegistrationDelegation c _ _ _) = Some (Inl c)"
| "deposit_subject (ConwayCert.PoolRegistration pc) = Some (Inr (prc_pool_id pc))"
| "deposit_subject _ = None"

fun distinct_subjects :: "ConwayCert list \<Rightarrow> bool" where
  "distinct_subjects [] \<longleftrightarrow> True"
| "distinct_subjects (c # cs) \<longleftrightarrow>
     (deposit_subject c = None \<or> deposit_subject c \<notin> deposit_subject ` set cs) \<and> distinct_subjects cs"

lemma apply_frame:
  assumes "apply_conway_cert s cert env = Ok out" "cert_state_wf s"
  shows "deposit_subject cert \<noteq> Some (Inl c) \<Longrightarrow>
      bt_get (registrations (delegation (cco_state out))) c = bt_get (registrations (delegation s)) c"
    and "deposit_subject cert \<noteq> Some (Inr p) \<Longrightarrow>
      bt_contains_key (pools (pool (cco_state out))) p = bt_contains_key (pools (pool s)) p"
  using assms
  by (cases cert; auto simp: rbind_eq_Ok outcome_defs cert_defs cert_state_wf_def bt_maps bt_contains_key_def
      split: if_splits)+

lemma classify_frame:
  assumes "apply_conway_cert s cert env = Ok out" "cert_state_wf s"
    "deposit_subject cert = None \<or> deposit_subject cert \<noteq> deposit_subject cert'"
  shows "classify_cert cert' dp (cco_state out) = classify_cert cert' dp s"
    "honest_refund (cco_state out) cert' = honest_refund s cert'"
  using apply_frame [OF assms(1,2)] assms(3) by (cases cert'; force)+

lemma apply_classify:
  "apply_conway_cert s cert env = Ok out \<Longrightarrow> \<exists>disp. classify_cert cert dp s = Ok disp"
  by (cases cert) (auto simp: cert_defs rbind_eq_Ok bt_contains_key_def split: if_splits)

text \<open>The balance of a transaction's certificates, all classified in the state before it.\<close>

definition certs_flow :: "ConwayDepositParams \<Rightarrow> CertState \<Rightarrow> ConwayCert list \<Rightarrow> int" where
  "certs_flow dp s certs =
     sum_list (map (\<lambda>c. case classify_cert c dp s of Ok disp \<Rightarrow> deposit_flow disp | Err _ \<Rightarrow> 0) certs)"

lemma conway_cert_step_Ok:
  assumes "conway_cert_step kd genv i (s, gov) cert = Ok sg"
  obtains out where "apply_conway_cert s cert \<lparr>cce_key_deposit = kd, cce_cert_index = word_of_nat i\<rparr> = Ok out"
    "fst sg = cco_state out"
  using assms by (auto simp: conway_cert_step_def rbind_eq_Ok)

lemma held_conway_certs:
  assumes "fold_certs (conway_cert_step (cdp_key_deposit dp) genv) i (s, gov) certs = Ok (s', gov')"
    "cert_state_wf s" "distinct_subjects certs" "\<forall>c\<in>set certs. honest_refund s c"
  shows "deposits_held dp s' = deposits_held dp s + certs_flow dp s certs - sum_list (map drep_flow certs)"
  using assms
proof (induction certs arbitrary: i s gov)
  case (Cons cert certs)
  let ?env = "\<lparr>cce_key_deposit = cdp_key_deposit dp, cce_cert_index = word_of_nat i\<rparr>"
  from Cons.prems(1) obtain out gov1 where out: "apply_conway_cert s cert ?env = Ok out"
    and rest: "fold_certs (conway_cert_step (cdp_key_deposit dp) genv) (Suc i) (cco_state out, gov1) certs = Ok (s', gov')"
    by (auto simp: rbind_eq_Ok elim!: conway_cert_step_Ok)
  obtain disp where disp: "classify_cert cert dp s = Ok disp" using apply_classify [OF out] by blast
  from held_conway_cert [OF out Cons.prems(2) disp] Cons.prems(4)
  have held: "cert_state_wf (cco_state out)"
    "deposits_held dp (cco_state out) = deposits_held dp s + deposit_flow disp - drep_flow cert" by simp_all
  have subj: "deposit_subject cert = None \<or> deposit_subject cert \<noteq> deposit_subject c" if "c \<in> set certs" for c
    using Cons.prems(3) that by auto
  note frame = classify_frame [OF out Cons.prems(2) subj]
  have "certs_flow dp (cco_state out) certs = certs_flow dp s certs"
    using frame(1) by (simp add: certs_flow_def cong: map_cong)
  with Cons.IH [OF rest held(1)] Cons.prems(3,4) frame(2) held(2) disp show ?case
    by (simp add: certs_flow_def)
qed (simp add: certs_flow_def)

text \<open>A vote delegation does not ask whether the delegating credential is registered.\<close>

lemma vote_delegation_unregistered:
  "conway_cert_step kd env i (s, Some g) (ConwayCert.VoteDelegation c AlwaysAbstain) =
     Ok (s, Some (g\<lparr>vote_delegations := bt_insert c AlwaysAbstain (vote_delegations g)\<rparr>))"
  by (simp add: conway_cert_step_def delegate_vote_def outcome_defs)

end
