(* ===== verification/Ledger_Value.thy ===== *)
theory Ledger_Value
  imports Ledger_Types
begin

text \<open>
  Values of \<^verbatim>\<open>ade_ledger/src/value.rs\<close>: coin amounts with multi-asset bundles, checked
  addition and subtraction and the conservation check. Both arithmetic loops have the same
  shape, so they share \<open>update_assets\<close> and \<open>update_policies\<close>, which take the checked
  operation and the error it raises; the locale \<open>checked_op\<close> states what the loops need of
  the operation and holds their correctness, and is interpreted for addition and subtraction.
\<close>

section \<open>Data\<close>

type_synonym Assets = "(AssetName, u64) btree_map"
type_synonym MultiAsset = "(Hash28, Assets) btree_map"

record Value =
  val_coin :: Coin
  multi_asset :: MultiAsset

definition from_coin :: "Coin \<Rightarrow> Value" where
  "from_coin c = \<lparr>val_coin = c, multi_asset = bt_empty\<rparr>"

definition prune_zeros :: "MultiAsset \<Rightarrow> MultiAsset" where
  "prune_zeros m = bt_retain (\<lambda>_ assets. assets \<noteq> [])
     (map (\<lambda>(policy, assets). (policy, bt_retain (\<lambda>_ qty. qty \<noteq> 0) assets)) m)"

section \<open>Arithmetic\<close>

text \<open>\<^verbatim>\<open>entry.or_insert(ZERO)\<close> and \<^verbatim>\<open>entry.or_default()\<close> read a missing entry as zero, or empty.\<close>

definition asset_at :: "Assets \<Rightarrow> AssetName \<Rightarrow> u64" where
  "asset_at assets name = (case bt_get assets name of None \<Rightarrow> 0 | Some q \<Rightarrow> q)"

definition policy_at :: "MultiAsset \<Rightarrow> Hash28 \<Rightarrow> Assets" where
  "policy_at m policy = (case bt_get m policy of None \<Rightarrow> bt_empty | Some assets \<Rightarrow> assets)"

fun update_assets ::
  "(u64 \<Rightarrow> u64 \<Rightarrow> u64 option) \<Rightarrow> (AssetName \<Rightarrow> LedgerError) \<Rightarrow> Assets \<Rightarrow> Assets \<Rightarrow> (Assets, LedgerError) result"
where
  "update_assets f err entry [] = Ok entry"
| "update_assets f err entry ((name, qty) # b_assets) =
     rbind (ok_or (err name) (f (asset_at entry name) qty))
       (\<lambda>current. update_assets f err (bt_insert name current entry) b_assets)"

fun update_policies ::
  "(u64 \<Rightarrow> u64 \<Rightarrow> u64 option) \<Rightarrow> (Hash28 \<Rightarrow> AssetName \<Rightarrow> LedgerError) \<Rightarrow> MultiAsset \<Rightarrow> MultiAsset \<Rightarrow>
   (MultiAsset, LedgerError) result"
where
  "update_policies f err res [] = Ok res"
| "update_policies f err res ((policy, b_assets) # b) =
     rbind (update_assets f (err policy) (policy_at res policy) b_assets)
       (\<lambda>entry. update_policies f err (bt_insert policy entry res) b)"

definition multi_asset_add :: "MultiAsset \<Rightarrow> MultiAsset \<Rightarrow> (MultiAsset, LedgerError) result" where
  "multi_asset_add a b =
     rbind (update_policies checked_add (\<lambda>_ _. Conservation 0 0) a b) (\<lambda>m. Ok (prune_zeros m))"

definition multi_asset_sub :: "MultiAsset \<Rightarrow> MultiAsset \<Rightarrow> (MultiAsset, LedgerError) result" where
  "multi_asset_sub a b =
     rbind (update_policies checked_sub AssetUnderflow a b) (\<lambda>m. Ok (prune_zeros m))"

definition value_add :: "Value \<Rightarrow> Value \<Rightarrow> (Value, LedgerError) result" where
  "value_add a b =
     rbind (ok_or (Conservation (val_coin a) (val_coin b)) (checked_add (val_coin a) (val_coin b))) (\<lambda>coin.
     rbind (multi_asset_add (multi_asset a) (multi_asset b)) (\<lambda>ma.
     Ok \<lparr>val_coin = coin, multi_asset = ma\<rparr>))"

definition value_sub :: "Value \<Rightarrow> Value \<Rightarrow> (Value, LedgerError) result" where
  "value_sub a b =
     rbind (ok_or (Conservation (val_coin a) (val_coin b)) (checked_sub (val_coin a) (val_coin b))) (\<lambda>coin.
     rbind (multi_asset_sub (multi_asset a) (multi_asset b)) (\<lambda>ma.
     Ok \<lparr>val_coin = coin, multi_asset = ma\<rparr>))"

definition check_conservation :: "Value \<Rightarrow> Value \<Rightarrow> Coin \<Rightarrow> (unit, LedgerError) result" where
  "check_conservation consumed produced fee =
     rbind (ok_or (Conservation (val_coin consumed) (val_coin produced)) (checked_add (val_coin produced) fee))
       (\<lambda>produced_plus_fee.
     rbind (reject_if (val_coin consumed \<noteq> produced_plus_fee)
              (Conservation (val_coin consumed) produced_plus_fee)) (\<lambda>_.
     reject_if (multi_asset consumed \<noteq> multi_asset produced)
       (Conservation (val_coin consumed) produced_plus_fee)))"

section \<open>Well-formed and canonical bundles\<close>

text \<open>A \<^verbatim>\<open>BTreeMap\<close> of \<^verbatim>\<open>BTreeMap\<close>s is ordered at both levels; a canonical bundle has in
  addition no zero quantity and no empty policy.\<close>

definition ma_wf :: "MultiAsset \<Rightarrow> bool" where
  "ma_wf m \<longleftrightarrow> bt_wf m \<and> list_all (\<lambda>(p, assets). bt_wf assets) m"

definition ma_canonical :: "MultiAsset \<Rightarrow> bool" where
  "ma_canonical m \<longleftrightarrow> ma_wf m \<and>
     list_all (\<lambda>(p, assets). assets \<noteq> [] \<and> list_all (\<lambda>(n, q). q \<noteq> 0) assets) m"

definition qty :: "MultiAsset \<Rightarrow> Hash28 \<Rightarrow> AssetName \<Rightarrow> u64" where
  "qty m policy name = asset_at (policy_at m policy) name"

lemma asset_at_insert: "bt_wf m \<Longrightarrow> asset_at (bt_insert n q m) n' = (if n' = n then q else asset_at m n')"
  by (simp add: asset_at_def bt_get_insert)

lemma asset_at_Nil [simp]: "asset_at [] n = 0"
  by (simp add: asset_at_def bt_get_Nil)

lemma asset_at_Cons: "asset_at ((n, q) # m) n' = (if n' = n then q else asset_at m n')"
  by (simp add: asset_at_def bt_get_Cons)

lemma policy_at_insert: "bt_wf m \<Longrightarrow> policy_at (bt_insert p a m) p' = (if p' = p then a else policy_at m p')"
  by (simp add: policy_at_def bt_get_insert)

lemma policy_at_Cons: "policy_at ((p, a) # m) p' = (if p' = p then a else policy_at m p')"
  by (simp add: policy_at_def bt_get_Cons)

lemma policy_at_Nil [simp]: "policy_at [] p = []"
  by (simp add: policy_at_def bt_get_Nil bt_empty_def)

lemma asset_at_absent: "n \<notin> fst ` set m \<Longrightarrow> asset_at m n = 0"
  by (simp add: asset_at_def bt_get_None [THEN iffD2])

lemma policy_at_absent: "p \<notin> fst ` set m \<Longrightarrow> policy_at m p = []"
  by (simp add: policy_at_def bt_get_None [THEN iffD2] bt_empty_def)

lemma ma_wf_Nil [simp]: "ma_wf []"
  by (simp add: ma_wf_def bt_wf_Nil)

lemma ma_wf_Cons: "ma_wf ((p, a) # m) \<longleftrightarrow> (\<forall>p'\<in>fst ` set m. p < p') \<and> bt_wf a \<and> ma_wf m"
  by (auto simp: ma_wf_def bt_wf_Cons)

lemma set_bt_insert: "bt_wf m \<Longrightarrow> set (bt_insert k v m) \<subseteq> insert (k, v) (set m)"
  by (induction k v m rule: bt_insert.induct) (auto simp: bt_wf_Cons)

lemma ma_wf_insert: "ma_wf m \<Longrightarrow> bt_wf a \<Longrightarrow> ma_wf (bt_insert p a m)"
  using set_bt_insert [of m p a] by (auto simp: ma_wf_def bt_wf_insert list_all_iff)

lemma qty_insert:
  "bt_wf m \<Longrightarrow> qty (bt_insert p a m) p' n = (if p' = p then asset_at a n else qty m p' n)"
  by (simp add: qty_def policy_at_insert)

lemma qty_Cons: "qty ((p, a) # m) p' n = (if p' = p then asset_at a n else qty m p' n)"
  by (simp add: qty_def policy_at_Cons)

lemma ma_wf_policy_at: "ma_wf m \<Longrightarrow> bt_wf (policy_at m p)"
  by (auto simp: ma_wf_def policy_at_def bt_wf_empty list_all_iff bt_get_Some split: option.splits)

section \<open>The loops\<close>

locale checked_op =
  fixes f :: "u64 \<Rightarrow> u64 \<Rightarrow> u64 option"
  assumes right_zero: "f x 0 = Some x"
begin

lemma update_assets_Ok:
  assumes "update_assets f err a b = Ok r" "bt_wf a" "bt_wf b"
  shows "bt_wf r \<and> (\<forall>n. f (asset_at a n) (asset_at b n) = Some (asset_at r n))"
  using assms
proof (induction b arbitrary: a)
  case Nil
  then show ?case by (auto simp: right_zero)
next
  case (Cons e b)
  obtain m q where e: "e = (m, q)" by (cases e)
  from Cons.prems obtain c where c: "f (asset_at a m) q = Some c"
      and r: "update_assets f err (bt_insert m c a) b = Ok r"
    by (auto simp: e result_simps)
  from Cons.prems have "bt_wf (bt_insert m c a)" "bt_wf b" and absent: "asset_at b m = 0"
    by (auto simp: e bt_wf_insert bt_wf_Cons intro: asset_at_absent)
  from Cons.IH [OF r this(1,2)] have "bt_wf r"
      and step: "f (if n = m then c else asset_at a n) (asset_at b n) = Some (asset_at r n)" for n
    using Cons.prems(2) by (simp_all add: asset_at_insert)
  have "asset_at r m = c" using step [of m] absent by (simp add: right_zero)
  then have "f (asset_at a n) (asset_at ((m, q) # b) n) = Some (asset_at r n)" for n
    using step [of n] c by (cases "n = m") (simp_all add: asset_at_Cons)
  with \<open>bt_wf r\<close> show ?case by (simp add: e)
qed

lemma update_assets_Err:
  assumes "update_assets f err a b = Err e" "bt_wf a" "bt_wf b"
  shows "\<exists>n. e = err n \<and> f (asset_at a n) (asset_at b n) = None"
  using assms
proof (induction b arbitrary: a)
  case (Cons x b)
  obtain m q where x: "x = (m, q)" by (cases x)
  show ?case
  proof (cases "f (asset_at a m) q")
    case None
    then show ?thesis using Cons.prems(1) by (auto simp: x asset_at_Cons)
  next
    case (Some c)
    have absent: "asset_at b m = 0" using Cons.prems(3) by (auto simp: x bt_wf_Cons intro: asset_at_absent)
    have "\<exists>n. e = err n \<and> f (asset_at (bt_insert m c a) n) (asset_at b n) = None"
      using Cons.prems Some by (intro Cons.IH) (auto simp: x bt_wf_insert bt_wf_Cons)
    then obtain n where n: "e = err n" "f (asset_at (bt_insert m c a) n) (asset_at b n) = None" by blast
    then have "n \<noteq> m" using absent Cons.prems(2) by (auto simp: asset_at_insert right_zero)
    with n show ?thesis using Cons.prems(2) by (auto simp: x asset_at_Cons asset_at_insert)
  qed
qed simp

lemma update_policies_Ok:
  assumes "update_policies f err a b = Ok r" "ma_wf a" "ma_wf b"
  shows "ma_wf r \<and> (\<forall>p n. f (qty a p n) (qty b p n) = Some (qty r p n))"
  using assms
proof (induction b arbitrary: a)
  case Nil
  then show ?case by (auto simp: right_zero qty_def)
next
  case (Cons x b)
  obtain p bs where x: "x = (p, bs)" by (cases x)
  from Cons.prems obtain c where c: "update_assets f (err p) (policy_at a p) bs = Ok c"
      and r: "update_policies f err (bt_insert p c a) b = Ok r"
    by (auto simp: x result_simps)
  from Cons.prems have b: "bt_wf bs" "ma_wf b" and absent: "policy_at b p = []" and wfa: "bt_wf a"
    by (auto simp: x ma_wf_Cons intro: policy_at_absent) (simp add: ma_wf_def)
  from update_assets_Ok [OF c ma_wf_policy_at [OF Cons.prems(2)] b(1)]
  have wfc: "bt_wf c" and here: "f (qty a p n) (asset_at bs n) = Some (asset_at c n)" for n
    by (simp_all add: qty_def)
  from Cons.IH [OF r ma_wf_insert [OF Cons.prems(2) wfc] b(2)] have "ma_wf r"
      and step: "f (if q = p then asset_at c n else qty a q n) (qty b q n) = Some (qty r q n)" for q n
    by (simp_all only: qty_insert [OF wfa])
  have "qty r p n = asset_at c n" for n using step [of p n] absent by (simp add: right_zero qty_def)
  then have "f (qty a q n) (qty ((p, bs) # b) q n) = Some (qty r q n)" for q n
    using step [of q n] here [of n] by (cases "q = p") (simp_all add: qty_Cons)
  with \<open>ma_wf r\<close> show ?case by (simp add: x)
qed

lemma update_policies_Err:
  assumes "update_policies f err a b = Err e" "ma_wf a" "ma_wf b"
  shows "\<exists>p n. e = err p n \<and> f (qty a p n) (qty b p n) = None"
  using assms
proof (induction b arbitrary: a)
  case (Cons x b)
  obtain p bs where x: "x = (p, bs)" by (cases x)
  from Cons.prems have b: "bt_wf bs" "ma_wf b" and absent: "policy_at b p = []" and wfa: "bt_wf a"
    by (auto simp: x ma_wf_Cons intro: policy_at_absent) (simp add: ma_wf_def)
  note at = ma_wf_policy_at [OF Cons.prems(2)]
  show ?case
  proof (cases "update_assets f (err p) (policy_at a p) bs")
    case (Inl e')
    then show ?thesis using update_assets_Err [OF Inl at b(1)] Cons.prems(1)
      by (auto simp: x qty_def policy_at_Cons intro!: exI [of _ p])
  next
    case (Inr c)
    have "\<exists>q n. e = err q n \<and> f (qty (bt_insert p c a) q n) (qty b q n) = None"
      using Cons.prems Inr update_assets_Ok [OF Inr at b(1)]
      by (intro Cons.IH) (auto simp: x b ma_wf_insert)
    then obtain q n where n: "e = err q n" "f (qty (bt_insert p c a) q n) (qty b q n) = None" by blast
    then have "q \<noteq> p" using absent by (auto simp: qty_def policy_at_insert [OF wfa] right_zero)
    with n show ?thesis by (auto simp: x qty_def policy_at_Cons policy_at_insert [OF wfa])
  qed
qed simp

end

interpretation add_op: checked_op checked_add
  by unfold_locales (simp add: checked_add_Some unsigned_less [where 'b = 64, simplified])

interpretation sub_op: checked_op checked_sub
  by unfold_locales (simp add: checked_sub_def)

section \<open>Canonical form\<close>

lemma bt_wf_map_snd: "bt_wf (map (\<lambda>(k, v). (k, g k v)) m) \<longleftrightarrow> bt_wf m"
  by (simp add: bt_wf_def comp_def case_prod_unfold)

lemma bt_get_map_snd: "bt_get (map (\<lambda>(k, v). (k, g k v)) m) k = map_option (g k) (bt_get m k)"
  by (induction m) (auto simp: bt_get_def)

lemma bt_get_prune:
  assumes "bt_wf m"
  shows "bt_get (prune_zeros m) p =
    (case bt_get m p of None \<Rightarrow> None
     | Some a \<Rightarrow> if bt_retain (\<lambda>_ q. q \<noteq> 0) a \<noteq> [] then Some (bt_retain (\<lambda>_ q. q \<noteq> 0) a) else None)"
  using assms unfolding prune_zeros_def
  by (subst bt_get_retain)
     (simp_all add: bt_wf_map_snd [of "\<lambda>_. bt_retain (\<lambda>_ q. q \<noteq> 0)"]
        bt_get_map_snd [of "\<lambda>_. bt_retain (\<lambda>_ q. q \<noteq> 0)"] split: option.splits)

lemma asset_at_retain: "bt_wf a \<Longrightarrow> asset_at (bt_retain (\<lambda>_ q. q \<noteq> 0) a) n = asset_at a n"
  by (simp add: asset_at_def bt_get_retain split: option.splits)

lemma qty_prune:
  assumes "ma_wf m"
  shows "qty (prune_zeros m) p n = qty m p n"
proof -
  have wf: "bt_wf m" using assms by (simp add: ma_wf_def)
  show ?thesis
  proof (cases "bt_get m p")
    case (Some a)
    with assms have "bt_wf a" using ma_wf_policy_at [OF assms, of p] by (simp add: policy_at_def)
    then show ?thesis using asset_at_retain [of a n]
      by (auto simp: qty_def policy_at_def bt_get_prune [OF wf] Some bt_empty_def)
  qed (simp add: qty_def policy_at_def bt_get_prune [OF wf])
qed

lemma prune_canonical:
  assumes "ma_wf m"
  shows "ma_canonical (prune_zeros m)"
proof -
  let ?g = "\<lambda>(p, a). (p, bt_retain (\<lambda>_ q. q \<noteq> (0::u64)) a)"
  have "bt_wf (map ?g m)" using assms by (simp add: ma_wf_def bt_wf_map_snd [of "\<lambda>_. bt_retain (\<lambda>_ q. q \<noteq> 0)"])
  then have "bt_wf (prune_zeros m)" by (simp add: prune_zeros_def bt_wf_retain)
  moreover have "bt_wf a \<and> a \<noteq> [] \<and> (\<forall>(n, q) \<in> set a. q \<noteq> 0)" if "(p, a) \<in> set (prune_zeros m)" for p a
    using that assms
    by (auto simp: prune_zeros_def bt_retain_def ma_wf_def list_all_iff bt_wf_filter filter_empty_conv)
  ultimately show ?thesis by (fastforce simp: ma_canonical_def ma_wf_def list_all_iff)
qed

lemma canonical_asset:
  assumes "ma_canonical m" "bt_get m p = Some a"
  shows "bt_wf a" "a \<noteq> []" "bt_get a n = Some q \<Longrightarrow> q \<noteq> 0"
proof -
  have "(p, a) \<in> set m" using assms by (simp add: ma_canonical_def ma_wf_def bt_get_Some)
  with assms(1) have *: "bt_wf a \<and> a \<noteq> [] \<and> list_all (\<lambda>(n, q). q \<noteq> 0) a"
    by (auto simp: ma_canonical_def ma_wf_def list_all_iff)
  then show "bt_wf a" "a \<noteq> []" by simp_all
  with * show "bt_get a n = Some q \<Longrightarrow> q \<noteq> 0" by (auto simp: bt_get_Some list_all_iff)
qed

lemma canonical_policy:
  assumes "ma_canonical m" "ma_canonical m'" "\<And>p n. qty m p n = qty m' p n" "bt_get m p = Some a"
  shows "bt_get m' p = Some a"
proof -
  note a = canonical_asset [OF assms(1,4)]
  obtain n q a0 where "a = (n, q) # a0" using a(2) by (cases a) auto
  then have "bt_get a n = Some q" by (simp add: bt_get_Cons)
  with a(3) have "qty m p n \<noteq> 0" by (auto simp: qty_def policy_at_def asset_at_def assms(4))
  then have "qty m' p n \<noteq> 0" using assms(3) by simp
  then obtain a' where a': "bt_get m' p = Some a'"
    by (cases "bt_get m' p") (auto simp: qty_def policy_at_def bt_empty_def)
  have "asset_at a k = asset_at a' k" for k
    using assms(3) [of p k] by (simp add: qty_def policy_at_def assms(4) a')
  then have "bt_get a k = bt_get a' k" for k
    using a(3) [of k] canonical_asset(3) [OF assms(2) a', of k]
    by (cases "bt_get a k"; cases "bt_get a' k") (auto simp: asset_at_def dest: meta_spec [of _ k])
  then have "a = a'" using a(1) canonical_asset(1) [OF assms(2) a'] by (blast intro: bt_get_ext)
  with a' show ?thesis by simp
qed

lemma canonical_ext:
  assumes "ma_canonical m" "ma_canonical m'" "\<And>p n. qty m p n = qty m' p n"
  shows "m = m'"
proof (rule bt_get_ext)
  show "bt_wf m" "bt_wf m'" using assms(1,2) by (simp_all add: ma_canonical_def ma_wf_def)
  show "bt_get m p = bt_get m' p" for p
  proof (cases "bt_get m p")
    case None
    have "bt_get m' p \<noteq> Some a" for a
      using canonical_policy [OF assms(2,1) assms(3) [symmetric], of p a] None by auto
    with None show ?thesis by (cases "bt_get m' p") auto
  next
    case (Some a)
    then show ?thesis using canonical_policy [OF assms Some] by simp
  qed
qed

section \<open>Correctness of the arithmetic\<close>

definition value_wf :: "Value \<Rightarrow> bool" where
  "value_wf v \<longleftrightarrow> ma_wf (multi_asset v)"

definition value_canonical :: "Value \<Rightarrow> bool" where
  "value_canonical v \<longleftrightarrow> ma_canonical (multi_asset v)"

text \<open>The amount of one asset in a value; \<open>None\<close> is the coin.\<close>

definition amount :: "Value \<Rightarrow> (Hash28 \<times> AssetName) option \<Rightarrow> nat" where
  "amount v x = (case x of None \<Rightarrow> unat (val_coin v) | Some (p, n) \<Rightarrow> unat (qty (multi_asset v) p n))"

lemma canonical_imp_wf: "value_canonical v \<Longrightarrow> value_wf v"
  by (simp add: value_canonical_def value_wf_def ma_canonical_def)

lemma value_ext:
  assumes "value_canonical v" "value_canonical w" "\<And>x. amount v x = amount w x"
  shows "v = w"
proof -
  have "val_coin v = val_coin w" using assms(3) [of None] by (simp add: amount_def word_unat_eq_iff)
  moreover have "multi_asset v = multi_asset w"
  proof (rule canonical_ext)
    show "qty (multi_asset v) p n = qty (multi_asset w) p n" for p n
      using assms(3) [of "Some (p, n)"] by (simp add: amount_def word_unat_eq_iff)
  qed (use assms(1,2) in \<open>simp_all add: value_canonical_def\<close>)
  ultimately show ?thesis by simp
qed

lemma value_add_Ok:
  assumes "value_add a b = Ok v" "value_wf a" "value_wf b"
  shows "value_canonical v" "amount v x = amount a x + amount b x" "amount v x < 2 ^ 64"
proof -
  from assms(1) obtain m where m: "update_policies checked_add (\<lambda>_ _. Conservation 0 0) (multi_asset a) (multi_asset b) = Ok m"
      and c: "checked_add (val_coin a) (val_coin b) = Some (val_coin v)" and v: "multi_asset v = prune_zeros m"
    by (auto simp: value_add_def multi_asset_add_def result_simps)
  note up = add_op.update_policies_Ok [OF m assms(2,3) [unfolded value_wf_def]]
  then show "value_canonical v" by (simp add: value_canonical_def v prune_canonical)
  show *: "amount v x = amount a x + amount b x"
    using up c by (auto simp: amount_def v qty_prune unat_simps split: option.splits)
  show "amount v x < 2 ^ 64"
    by (auto simp: amount_def unsigned_less [where 'b = 64, simplified] split: option.splits)
qed

lemma value_add_Err:
  assumes "value_add a b = Err e" "value_wf a" "value_wf b"
  shows "\<exists>x. 2 ^ 64 \<le> amount a x + amount b x"
proof (cases "checked_add (val_coin a) (val_coin b)")
  case None
  then show ?thesis by (intro exI [of _ None]) (simp add: amount_def checked_add_None)
next
  case (Some c)
  with assms(1) have "update_policies checked_add (\<lambda>_ _. Conservation 0 0) (multi_asset a) (multi_asset b) = Err e"
    by (auto simp: value_add_def multi_asset_add_def result_simps)
  from add_op.update_policies_Err [OF this assms(2,3) [unfolded value_wf_def]] obtain p n
    where "checked_add (qty (multi_asset a) p n) (qty (multi_asset b) p n) = None" by blast
  then show ?thesis by (intro exI [of _ "Some (p, n)"]) (simp add: amount_def checked_add_None)
qed

lemma value_sub_Ok:
  assumes "value_sub a b = Ok v" "value_wf a" "value_wf b"
  shows "value_canonical v" "amount a x = amount v x + amount b x"
proof -
  from assms(1) obtain m where m: "update_policies checked_sub AssetUnderflow (multi_asset a) (multi_asset b) = Ok m"
      and c: "checked_sub (val_coin a) (val_coin b) = Some (val_coin v)" and v: "multi_asset v = prune_zeros m"
    by (auto simp: value_sub_def multi_asset_sub_def result_simps)
  note up = sub_op.update_policies_Ok [OF m assms(2,3) [unfolded value_wf_def]]
  then show "value_canonical v" by (simp add: value_canonical_def v prune_canonical)
  show "amount a x = amount v x + amount b x"
    using up c by (auto simp: amount_def v qty_prune unat_simps split: option.splits)
qed

lemma value_sub_Err:
  assumes "value_sub a b = Err e" "value_wf a" "value_wf b"
  shows "\<exists>x. amount a x < amount b x"
proof (cases "checked_sub (val_coin a) (val_coin b)")
  case None
  then show ?thesis by (intro exI [of _ None]) (simp add: amount_def checked_sub_None)
next
  case (Some c)
  with assms(1) have "update_policies checked_sub AssetUnderflow (multi_asset a) (multi_asset b) = Err e"
    by (auto simp: value_sub_def multi_asset_sub_def result_simps)
  from sub_op.update_policies_Err [OF this assms(2,3) [unfolded value_wf_def]] obtain p n
    where "checked_sub (qty (multi_asset a) p n) (qty (multi_asset b) p n) = None" by blast
  then show ?thesis by (intro exI [of _ "Some (p, n)"]) (simp add: amount_def checked_sub_None)
qed

lemma is_ok_iff: "is_ok r \<longleftrightarrow> (\<exists>v. r = Ok v)"
  by (cases r) simp_all

lemma value_add_ok_iff:
  assumes "value_wf a" "value_wf b"
  shows "is_ok (value_add a b) \<longleftrightarrow> (\<forall>x. amount a x + amount b x < 2 ^ 64)"
proof (cases "value_add a b")
  case (Inl e)
  then show ?thesis using value_add_Err [OF Inl assms] by (auto simp: linorder_not_less)
next
  case (Inr v)
  then show ?thesis using value_add_Ok [OF Inr assms] by (metis is_ok_simps(1))
qed

lemma value_sub_ok_iff:
  assumes "value_wf a" "value_wf b"
  shows "is_ok (value_sub a b) \<longleftrightarrow> (\<forall>x. amount b x \<le> amount a x)"
proof (cases "value_sub a b")
  case (Inl e)
  then show ?thesis using value_sub_Err [OF Inl assms] by (auto simp: linorder_not_le)
next
  case (Inr v)
  then show ?thesis using value_sub_Ok [OF Inr assms] by (metis is_ok_simps(1) le_add2)
qed

lemma amount_less: "amount v x < 2 ^ 64"
  by (auto simp: amount_def unsigned_less [where 'b = 64, simplified] split: option.splits)

lemma value_add_unique:
  assumes "value_wf a" "value_wf b"
  shows "value_add a b = Ok v \<longleftrightarrow> value_canonical v \<and> (\<forall>x. amount v x = amount a x + amount b x)"
proof
  assume "value_add a b = Ok v"
  then show "value_canonical v \<and> (\<forall>x. amount v x = amount a x + amount b x)"
    using value_add_Ok assms by blast
next
  assume v: "value_canonical v \<and> (\<forall>x. amount v x = amount a x + amount b x)"
  then have "is_ok (value_add a b)" using value_add_ok_iff [OF assms] amount_less by metis
  then obtain w where w: "value_add a b = Ok w" by (auto simp: is_ok_iff)
  have "w = v" using v value_add_Ok [OF w assms] by (intro value_ext) simp_all
  with w show "value_add a b = Ok v" by simp
qed

lemma value_sub_unique:
  assumes "value_wf a" "value_wf b"
  shows "value_sub a b = Ok v \<longleftrightarrow> value_canonical v \<and> (\<forall>x. amount a x = amount v x + amount b x)"
proof
  assume "value_sub a b = Ok v"
  then show "value_canonical v \<and> (\<forall>x. amount a x = amount v x + amount b x)"
    using value_sub_Ok assms by blast
next
  assume v: "value_canonical v \<and> (\<forall>x. amount a x = amount v x + amount b x)"
  then have "is_ok (value_sub a b)" using value_sub_ok_iff [OF assms] by simp
  then obtain w where w: "value_sub a b = Ok w" by (auto simp: is_ok_iff)
  have "amount w x = amount v x" for x using v value_sub_Ok(2) [OF w assms, of x] by simp
  then have "w = v" using v value_sub_Ok(1) [OF w assms] by (intro value_ext) simp_all
  with w show "value_sub a b = Ok v" by simp
qed

lemma check_conservation_exact:
  assumes "value_canonical a" "value_canonical b"
  shows "check_conservation a b fee = Ok () \<longleftrightarrow>
      (\<forall>x. amount a x = amount b x + (if x = None then unat fee else 0))"
proof -
  have "multi_asset a = multi_asset b \<longleftrightarrow> (\<forall>p n. amount a (Some (p, n)) = amount b (Some (p, n)))"
    using canonical_ext [of "multi_asset a" "multi_asset b"] assms
    by (auto simp: amount_def value_canonical_def word_unat_eq_iff [symmetric])
  moreover have "(\<exists>s. checked_add (val_coin b) fee = Some s \<and> val_coin a = s) \<longleftrightarrow>
      amount a None = amount b None + unat fee"
    using amount_less [of a None] by (auto simp: amount_def checked_add_Some)
  ultimately show ?thesis
    by (auto simp: check_conservation_def result_simps split_option_all)
qed

text \<open>
  C9. Checked arithmetic on values is exact. Addition succeeds exactly when no coin or asset sum
  leaves 64 bits and subtraction exactly when no amount of the subtrahend is larger; the result
  is the one canonical value (no zero quantity, no empty policy) with these amounts, so that
  subtraction undoes addition. On canonical values the conservation check accepts exactly when
  every asset is balanced and the coin is balanced with the fee.
\<close>

theorem value_arithmetic_exact:
  assumes "value_canonical a" "value_canonical b"
  shows "(is_ok (value_add a b) \<longleftrightarrow> (\<forall>x. amount a x + amount b x < 2 ^ 64)) \<and>
    (is_ok (value_sub a b) \<longleftrightarrow> (\<forall>x. amount b x \<le> amount a x)) \<and>
    (\<forall>v. value_add a b = Ok v \<longleftrightarrow> value_canonical v \<and> (\<forall>x. amount v x = amount a x + amount b x)) \<and>
    (\<forall>v. value_add a b = Ok v \<longleftrightarrow> value_canonical v \<and> value_sub v b = Ok a) \<and>
    (\<forall>fee. check_conservation a b fee = Ok () \<longleftrightarrow>
      (\<forall>x. amount a x = amount b x + (if x = None then unat fee else 0)))"
proof -
  note wf = canonical_imp_wf [OF assms(1)] canonical_imp_wf [OF assms(2)]
  note add = value_add_unique [OF wf]
  have sub: "value_add a b = Ok v \<longleftrightarrow> value_canonical v \<and> value_sub v b = Ok a" for v
    unfolding add using value_sub_unique [OF canonical_imp_wf wf(2), of v a] assms(1) by auto
  show ?thesis
    using value_add_ok_iff [OF wf] value_sub_ok_iff [OF wf] add sub check_conservation_exact [OF assms] by blast
qed

definition sample_value :: "u64 \<Rightarrow> Assets \<Rightarrow> Value" where
  "sample_value c assets = \<lparr>val_coin = c, multi_asset = [([1], assets)]\<rparr>"

lemmas value_eval = sample_value_def value_canonical_def ma_canonical_def ma_wf_def bt_wf_def value_add_def
  value_sub_def multi_asset_add_def multi_asset_sub_def checked_add_def checked_sub_def policy_at_def asset_at_def
  bt_get_def prune_zeros_def bt_retain_def

theorem value_arithmetic_exact_witness:
  "value_canonical (sample_value 5 [([7], 3)]) \<and> value_canonical (sample_value 2 [([7], 1), ([9], 4)]) \<and>
   value_add (sample_value 5 [([7], 3)]) (sample_value 2 [([7], 1), ([9], 4)]) =
     Ok (sample_value 7 [([7], 4), ([9], 4)]) \<and>
   value_sub (sample_value 7 [([7], 4), ([9], 4)]) (sample_value 2 [([7], 1), ([9], 4)]) =
     Ok (sample_value 5 [([7], 3)]) \<and>
   value_sub (sample_value 5 [([7], 3)]) (sample_value 2 [([7], 1), ([9], 4)]) = Err (AssetUnderflow [1] [9])"
proof -
  have c: "value_canonical (sample_value 5 [([7], 3)])" "value_canonical (sample_value 2 [([7], 1), ([9], 4)])"
    "value_add (sample_value 5 [([7], 3)]) (sample_value 2 [([7], 1), ([9], 4)]) =
       Ok (sample_value 7 [([7], 4), ([9], 4)])"
    "value_sub (sample_value 5 [([7], 3)]) (sample_value 2 [([7], 1), ([9], 4)]) = Err (AssetUnderflow [1] [9])"
    by (simp_all add: value_eval)
  with value_arithmetic_exact [OF c(1,2)] show ?thesis by blast
qed

end
