(* ===== verification/Overlay_Utxo.thy ===== *)
theory Overlay_Utxo
  imports Ledger_Value
begin

text \<open>
  The UTxO set of \<^verbatim>\<open>ade_ledger/src/utxo.rs\<close> and its overlay store
  (\<^verbatim>\<open>ade_ledger/src/utxo_overlay.rs\<close>): an immutable anchor map with a bounded map of
  differences, where \<open>None\<close> marks a deleted entry. Sharing of the anchor is not observable,
  so the anchor is a field of the state. The store refines a plain ordered map: every
  operation and every observation agrees with the map \<open>to_map\<close>, whatever the split into
  anchor and overlay. The locale \<open>map_store\<close> states what the transaction rules use of the
  store.
\<close>

section \<open>Transaction outputs\<close>

datatype TxOut =
    OutByron bytes Coin
  | OutShelleyMary bytes Value
  | OutAlonzoPlus bytes bytes Coin

fun out_coin :: "TxOut \<Rightarrow> Coin" where
  "out_coin (OutByron a c) = c"
| "out_coin (OutShelleyMary a v) = val_coin v"
| "out_coin (OutAlonzoPlus r a c) = c"

fun address_bytes :: "TxOut \<Rightarrow> bytes" where
  "address_bytes (OutByron a c) = a"
| "address_bytes (OutShelleyMary a v) = a"
| "address_bytes (OutAlonzoPlus r a c) = a"

section \<open>The overlay store\<close>

definition MAX_OVERLAY_ENTRIES :: nat where
  "MAX_OVERLAY_ENTRIES = 100000"

record OverlayUtxo =
  anchor :: "(TxIn, TxOut) btree_map"
  overlay :: "(TxIn, TxOut option) btree_map"
  generation :: u64

definition overlay_new :: OverlayUtxo where
  "overlay_new = \<lparr>anchor = bt_empty, overlay = bt_empty, generation = 0\<rparr>"

definition overlay_from_map :: "(TxIn, TxOut) btree_map \<Rightarrow> OverlayUtxo" where
  "overlay_from_map m = \<lparr>anchor = m, overlay = bt_empty, generation = 0\<rparr>"

definition overlay_get :: "OverlayUtxo \<Rightarrow> TxIn \<Rightarrow> TxOut option" where
  "overlay_get s tx_in =
     (case bt_get (overlay s) tx_in of
        Some (Some out) \<Rightarrow> Some out
      | Some None \<Rightarrow> None
      | None \<Rightarrow> bt_get (anchor s) tx_in)"

definition overlay_contains :: "OverlayUtxo \<Rightarrow> TxIn \<Rightarrow> bool" where
  "overlay_contains s tx_in = (overlay_get s tx_in \<noteq> None)"

text \<open>One step of the loop of \<^verbatim>\<open>to_map\<close>.\<close>

definition apply_slot :: "(TxIn, TxOut) btree_map \<Rightarrow> TxIn \<times> TxOut option \<Rightarrow> (TxIn, TxOut) btree_map" where
  "apply_slot m e = (case snd e of Some out \<Rightarrow> bt_insert (fst e) out m | None \<Rightarrow> bt_remove (fst e) m)"

definition to_map :: "OverlayUtxo \<Rightarrow> (TxIn, TxOut) btree_map" where
  "to_map s = foldl apply_slot (anchor s) (overlay s)"

definition compact :: "OverlayUtxo \<Rightarrow> OverlayUtxo" where
  "compact s = (if overlay s = [] then s else s\<lparr>anchor := to_map s, overlay := bt_empty\<rparr>)"

definition maybe_compact :: "OverlayUtxo \<Rightarrow> OverlayUtxo" where
  "maybe_compact s = (if MAX_OVERLAY_ENTRIES < length (overlay s) then compact s else s)"

definition overlay_insert :: "TxIn \<Rightarrow> TxOut \<Rightarrow> OverlayUtxo \<Rightarrow> OverlayUtxo" where
  "overlay_insert tx_in tx_out s =
     maybe_compact (s\<lparr>overlay := bt_insert tx_in (Some tx_out) (overlay s), generation := generation s + 1\<rparr>)"

definition overlay_remove :: "TxIn \<Rightarrow> OverlayUtxo \<Rightarrow> TxOut option \<times> OverlayUtxo" where
  "overlay_remove tx_in s =
     (let current = overlay_get s tx_in in
      (current,
       if current \<noteq> None
       then maybe_compact (s\<lparr>overlay := bt_insert tx_in None (overlay s), generation := generation s + 1\<rparr>)
       else s))"

text \<open>\<^verbatim>\<open>len\<close> counts in a \<^verbatim>\<open>usize\<close> and starts from the size of the anchor.\<close>

definition len_step :: "(TxIn, TxOut) btree_map \<Rightarrow> u64 \<Rightarrow> TxIn \<times> TxOut option \<Rightarrow> u64" where
  "len_step a n e =
     (case (snd e, bt_contains_key a (fst e)) of
        (Some _, False) \<Rightarrow> n + 1
      | (None, True) \<Rightarrow> n - 1
      | _ \<Rightarrow> n)"

definition overlay_len :: "OverlayUtxo \<Rightarrow> u64" where
  "overlay_len s = foldl (len_step (anchor s)) (word_of_nat (length (anchor s))) (overlay s)"

definition overlay_is_empty :: "OverlayUtxo \<Rightarrow> bool" where
  "overlay_is_empty s = (overlay_len s = 0)"

text \<open>\<^verbatim>\<open>iter\<close>: the streaming merge, as the list of the entries it yields. A consumed overlay
  entry without a value is skipped and the loop goes on.\<close>

function merge_iter ::
  "(TxIn, TxOut) btree_map \<Rightarrow> (TxIn, TxOut option) btree_map \<Rightarrow> (TxIn \<times> TxOut) list"
where
  "merge_iter [] [] = []"
| "merge_iter (a # as) [] = a # merge_iter as []"
| "merge_iter [] ((k, slot) # os) =
     (case slot of Some v \<Rightarrow> (k, v) # merge_iter [] os | None \<Rightarrow> merge_iter [] os)"
| "merge_iter ((ak, av) # as) ((k, slot) # os) =
     (case cmp ak k of
        Less \<Rightarrow> (ak, av) # merge_iter as ((k, slot) # os)
      | Greater \<Rightarrow>
          (case slot of Some v \<Rightarrow> (k, v) # merge_iter ((ak, av) # as) os | None \<Rightarrow> merge_iter ((ak, av) # as) os)
      | Equal \<Rightarrow> (case slot of Some v \<Rightarrow> (k, v) # merge_iter as os | None \<Rightarrow> merge_iter as os))"
  by pat_completeness auto
termination by (relation "measure (\<lambda>(as, os). length as + length os)") auto

definition overlay_iter :: "OverlayUtxo \<Rightarrow> (TxIn \<times> TxOut) list" where
  "overlay_iter s = merge_iter (anchor s) (overlay s)"

definition overlay_values :: "OverlayUtxo \<Rightarrow> TxOut list" where
  "overlay_values s = map snd (overlay_iter s)"

definition overlay_keys :: "OverlayUtxo \<Rightarrow> TxIn list" where
  "overlay_keys s = map fst (overlay_iter s)"

definition overlay_eq :: "OverlayUtxo \<Rightarrow> OverlayUtxo \<Rightarrow> bool" where
  "overlay_eq s t = (to_map s = to_map t)"

section \<open>The UTxO state\<close>

type_synonym UTxOState = OverlayUtxo

definition utxo_insert :: "UTxOState \<Rightarrow> TxIn \<Rightarrow> TxOut \<Rightarrow> UTxOState" where
  "utxo_insert state tx_in tx_out = overlay_insert tx_in tx_out state"

definition utxo_delete :: "UTxOState \<Rightarrow> TxIn \<Rightarrow> (UTxOState \<times> TxOut, LedgerError) result" where
  "utxo_delete state tx_in =
     (let (removed, new_store) = overlay_remove tx_in state in
      rbind (ok_or (InputNotFound tx_in) removed) (\<lambda>tx_out. Ok (new_store, tx_out)))"

definition utxo_lookup :: "UTxOState \<Rightarrow> TxIn \<Rightarrow> TxOut option" where
  "utxo_lookup state tx_in = overlay_get state tx_in"

fun check_dup :: "TxIn list \<Rightarrow> TxIn list \<Rightarrow> (unit, LedgerError) result" where
  "check_dup seen [] = Ok ()"
| "check_dup seen (i # inputs) =
     (if i \<in> set seen then Err (DuplicateInput i) else check_dup (i # seen) inputs)"

definition check_duplicate_inputs :: "TxIn list \<Rightarrow> (unit, LedgerError) result" where
  "check_duplicate_inputs inputs = check_dup [] inputs"

section \<open>Refinement of a map\<close>

definition overlay_wf :: "OverlayUtxo \<Rightarrow> bool" where
  "overlay_wf s \<longleftrightarrow> bt_wf (anchor s) \<and> bt_wf (overlay s) \<and> length (overlay s) \<le> MAX_OVERLAY_ENTRIES"

lemma bt_wf_apply_slot: "bt_wf m \<Longrightarrow> bt_wf (apply_slot m e)"
  by (simp add: apply_slot_def bt_wf_insert bt_wf_remove split: option.splits)

lemma bt_wf_foldl_slot: "bt_wf m \<Longrightarrow> bt_wf (foldl apply_slot m os)"
  by (induction os arbitrary: m) (simp_all add: bt_wf_apply_slot)

lemma bt_get_apply_slot: "bt_wf m \<Longrightarrow> bt_get (apply_slot m (k, slot)) k' = (if k' = k then slot else bt_get m k')"
  by (simp add: apply_slot_def bt_get_insert bt_get_remove split: option.splits)

lemma bt_get_foldl_slot:
  "bt_wf m \<Longrightarrow> bt_wf os \<Longrightarrow>
   bt_get (foldl apply_slot m os) k = (case bt_get os k of None \<Rightarrow> bt_get m k | Some slot \<Rightarrow> slot)"
proof (induction os arbitrary: m)
  case (Cons e os)
  obtain k' slot where e: "e = (k', slot)" by (cases e)
  have "bt_get os k' = None" using Cons.prems(2) by (auto simp: e bt_wf_Cons bt_get_None)
  with Cons show ?case
    by (auto simp: e bt_wf_apply_slot bt_get_apply_slot bt_wf_Cons bt_get_Cons split: option.splits)
qed (simp add: bt_get_Nil)

lemma bt_wf_to_map: "overlay_wf s \<Longrightarrow> bt_wf (to_map s)"
  by (simp add: overlay_wf_def to_map_def bt_wf_foldl_slot)

lemma bt_get_to_map: "overlay_wf s \<Longrightarrow> bt_get (to_map s) k = overlay_get s k"
  by (simp add: overlay_wf_def to_map_def bt_get_foldl_slot overlay_get_def split: option.splits)

lemma cmp_cases:
  "cmp a b = Less \<longleftrightarrow> a < b" "cmp a b = Equal \<longleftrightarrow> a = b" "cmp a b = Greater \<longleftrightarrow> b < a"
  by (auto simp: cmp_def)

lemma merge_iter_key: "e \<in> set (merge_iter a os) \<Longrightarrow> fst e \<in> fst ` set a \<or> fst e \<in> fst ` set os"
  by (induction a os rule: merge_iter.induct) (auto split: option.splits ordering.splits)

lemma merge_iter_keys: "fst ` set (merge_iter a os) \<subseteq> fst ` set a \<union> fst ` set os"
  using merge_iter_key [of _ a os] by blast

lemma bt_wf_merge_iter: "bt_wf a \<Longrightarrow> bt_wf os \<Longrightarrow> bt_wf (merge_iter a os)"
proof (induction a os rule: merge_iter.induct)
  case (2 a as)
  then show ?case using merge_iter_keys [of as "[]"] by (cases a) (fastforce simp: bt_wf_Cons)
next
  case (3 k slot os)
  then show ?case using merge_iter_keys [of "[]" os] by (cases slot) (fastforce simp: bt_wf_Cons)+
next
  case (4 ak av as k slot os)
  have keys: "x \<in> fst ` set as \<union> fst ` set bs" if "x \<in> fst ` set (merge_iter as bs)" for x as bs
    using merge_iter_keys [of as bs] that by blast
  have as: "bt_wf as" "\<And>x. x \<in> fst ` set as \<Longrightarrow> ak < x" and os: "bt_wf os" "\<And>x. x \<in> fst ` set os \<Longrightarrow> k < x"
    using "4.prems" by (auto simp: bt_wf_Cons)
  show ?case
  proof (cases "cmp ak k")
    case Less
    then have "ak < k" by (simp add: cmp_cases)
    then have "\<forall>x\<in>fst ` set (merge_iter as ((k, slot) # os)). ak < x"
      using keys [of _ as "(k, slot) # os"] as(2) os(2) order.strict_trans [OF \<open>ak < k\<close>] by (metis Un_iff image_insert
          insert_iff list.simps(15) fst_conv)
    moreover have "bt_wf (merge_iter as ((k, slot) # os))" using "4.IH"(1) [OF Less] as(1) "4.prems"(2) by simp
    ultimately show ?thesis by (simp add: Less bt_wf_Cons)
  next
    case Greater
    then have "k < ak" by (simp add: cmp_cases)
    then have "\<forall>x\<in>fst ` set (merge_iter ((ak, av) # as) os). k < x"
      using keys [of _ "(ak, av) # as" os] as(2) os(2) order.strict_trans [OF \<open>k < ak\<close>] by (metis Un_iff image_insert
          insert_iff list.simps(15) fst_conv)
    moreover have "bt_wf (merge_iter ((ak, av) # as) os)"
      using "4.IH"(4,5) [OF Greater] "4.prems"(1) os(1) by (cases slot) simp_all
    ultimately show ?thesis by (auto simp: Greater bt_wf_Cons split: option.splits)
  next
    case Equal
    then have "k = ak" by (simp add: cmp_cases)
    then have "\<forall>x\<in>fst ` set (merge_iter as os). k < x"
      using keys [of _ as os] as(2) os(2) by blast
    moreover have "bt_wf (merge_iter as os)"
      using "4.IH"(2,3) [OF Equal] as(1) os(1) by (cases slot) simp_all
    ultimately show ?thesis by (auto simp: Equal bt_wf_Cons split: option.splits)
  qed
qed (simp add: bt_wf_Nil)

lemma bt_get_merge_iter:
  "bt_wf a \<Longrightarrow> bt_wf os \<Longrightarrow>
   bt_get (merge_iter a os) x = (case bt_get os x of None \<Rightarrow> bt_get a x | Some slot \<Rightarrow> slot)"
proof (induction a os rule: merge_iter.induct)
  case (2 a as)
  then show ?case by (cases a) (simp add: bt_get_Cons bt_get_Nil bt_wf_Cons bt_wf_Nil)
next
  case (3 k slot os)
  have "bt_get os k = None" using "3.prems" by (auto simp: bt_wf_Cons bt_get_None)
  with 3 show ?case by (cases slot) (auto simp: bt_get_Cons bt_get_Nil bt_wf_Cons)
next
  case (4 ak av as k slot os)
  have wf: "bt_wf as" "bt_wf os" using "4.prems" by (simp_all add: bt_wf_Cons)
  have fresh: "bt_get as ak = None" "bt_get os k = None" using "4.prems" by (auto simp: bt_wf_Cons bt_get_None)
  have less: "bt_get os y = None" if "y < k" for y using "4.prems"(2) that by (auto simp: bt_wf_Cons bt_get_None)
  show ?case
  proof (cases "cmp ak k")
    case Less
    then have "ak < k" by (simp add: cmp_cases)
    then show ?thesis using "4.IH"(1) [OF Less wf(1) "4.prems"(2)] less [of ak]
      by (auto simp: Less bt_get_Cons split: option.splits)
  next
    case Greater
    then have "k < ak" by (simp add: cmp_cases)
    then have "bt_get as k = None" using "4.prems"(1) by (fastforce simp: bt_wf_Cons bt_get_None)
    with \<open>k < ak\<close> show ?thesis using "4.IH"(4,5) [OF Greater _ "4.prems"(1) wf(2)] fresh
      by (cases slot) (auto simp: Greater bt_get_Cons)
  next
    case Equal
    then have "k = ak" by (simp add: cmp_cases)
    then show ?thesis using "4.IH"(2,3) [OF Equal _ wf] fresh
      by (cases slot) (auto simp: Equal bt_get_Cons split: option.splits)
  qed
qed (simp add: bt_get_Nil)

lemma overlay_iter_to_map: "overlay_wf s \<Longrightarrow> overlay_iter s = to_map s"
  unfolding overlay_iter_def to_map_def overlay_wf_def
  by (rule bt_get_ext) (simp_all add: bt_wf_merge_iter bt_wf_foldl_slot bt_get_merge_iter bt_get_foldl_slot)

lemma len_fold:
  assumes "bt_wf m" "bt_wf os" "\<And>k. k \<in> fst ` set os \<Longrightarrow> k \<in> fst ` set m \<longleftrightarrow> k \<in> fst ` set a"
  shows "foldl (len_step a) (word_of_nat (length m)) os = word_of_nat (length (foldl apply_slot m os))"
  using assms
proof (induction os arbitrary: m)
  case (Cons e os)
  obtain k slot where e: "e = (k, slot)" by (cases e)
  have k: "k \<in> fst ` set m \<longleftrightarrow> k \<in> fst ` set a" using Cons.prems(3) [of k] by (simp add: e)
  have pos: "length m \<noteq> 0" if "k \<in> fst ` set m" using that by (cases m) auto
  have len: "len_step a (word_of_nat (length m)) e = word_of_nat (length (apply_slot m e))"
    using pos by (cases slot; cases "k \<in> fst ` set a")
      (simp_all add: e len_step_def apply_slot_def bt_contains_key_def bt_get_None k
        length_bt_insert [OF Cons.prems(1)] length_bt_remove [OF Cons.prems(1)] of_nat_diff Suc_le_eq)
  have "k' \<in> fst ` set (apply_slot m e) \<longleftrightarrow> k' \<in> fst ` set a" if "k' \<in> fst ` set os" for k'
  proof -
    have "k' \<noteq> k" using that Cons.prems(2) by (auto simp: e bt_wf_Cons)
    then show ?thesis using Cons.prems(3) [of k'] that
        bt_get_apply_slot [OF Cons.prems(1), of k slot k'] bt_get_None [of m k'] bt_get_None [of "apply_slot m e" k']
      by (simp add: e) 
  qed
  then have "foldl (len_step a) (word_of_nat (length (apply_slot m e))) os =
      word_of_nat (length (foldl apply_slot (apply_slot m e) os))"
    using Cons.prems by (intro Cons.IH) (auto simp: e bt_wf_apply_slot bt_wf_Cons)
  then show ?case by (simp add: len)
qed simp

lemma overlay_len_to_map: "overlay_wf s \<Longrightarrow> overlay_len s = word_of_nat (length (to_map s))"
  unfolding overlay_len_def to_map_def overlay_wf_def by (rule len_fold) simp_all

section \<open>Operations on well-formed stores\<close>

lemma overlay_wf_compact: "overlay_wf s \<Longrightarrow> overlay_wf (compact s)"
  by (simp add: compact_def overlay_wf_def to_map_def bt_wf_foldl_slot bt_empty_def bt_wf_Nil)

lemma to_map_maybe_compact: "to_map (maybe_compact s) = to_map s"
  by (simp add: maybe_compact_def compact_def to_map_def bt_empty_def)

lemma to_map_compact: "to_map (compact s) = to_map s"
  by (simp add: compact_def to_map_def bt_empty_def)

lemma overlay_wf_maybe_compact:
  "bt_wf (anchor s) \<Longrightarrow> bt_wf (overlay s) \<Longrightarrow> overlay_wf (maybe_compact s)"
  by (auto simp: maybe_compact_def compact_def overlay_wf_def bt_empty_def bt_wf_Nil to_map_def bt_wf_foldl_slot
      MAX_OVERLAY_ENTRIES_def)

lemma overlay_wf_new: "overlay_wf overlay_new"
  by (simp add: overlay_wf_def overlay_new_def bt_empty_def bt_wf_Nil)

lemma overlay_wf_from_map: "bt_wf m \<Longrightarrow> overlay_wf (overlay_from_map m)"
  by (simp add: overlay_wf_def overlay_from_map_def bt_empty_def bt_wf_Nil)

lemma to_map_from_map [simp]: "to_map (overlay_from_map m) = m"
  by (simp add: to_map_def overlay_from_map_def bt_empty_def)

lemma to_map_set_slot:
  assumes "overlay_wf s"
  shows "to_map (s\<lparr>overlay := bt_insert k slot (overlay s), generation := g\<rparr>) = apply_slot (to_map s) (k, slot)"
  using assms unfolding overlay_wf_def to_map_def
  by (intro bt_get_ext)
    (simp_all add: bt_wf_foldl_slot bt_wf_apply_slot bt_get_foldl_slot bt_wf_insert bt_get_insert bt_get_apply_slot)

lemma overlay_wf_insert: "overlay_wf s \<Longrightarrow> overlay_wf (overlay_insert k v s)"
  unfolding overlay_insert_def by (rule overlay_wf_maybe_compact) (simp_all add: overlay_wf_def bt_wf_insert)

lemma to_map_insert: "overlay_wf s \<Longrightarrow> to_map (overlay_insert k v s) = bt_insert k v (to_map s)"
  by (simp add: overlay_insert_def to_map_maybe_compact to_map_set_slot apply_slot_def)

lemma overlay_wf_remove: "overlay_wf s \<Longrightarrow> overlay_wf (snd (overlay_remove k s))"
  by (auto simp: overlay_remove_def Let_def intro!: overlay_wf_maybe_compact)
     (simp_all add: overlay_wf_def bt_wf_insert)

lemma to_map_remove: "overlay_wf s \<Longrightarrow> to_map (snd (overlay_remove k s)) = bt_remove k (to_map s)"
  using bt_get_to_map [of s k] btr.remove_absent [OF bt_wf_to_map [of s], of k]
  by (auto simp: overlay_remove_def Let_def to_map_maybe_compact to_map_set_slot apply_slot_def)

lemma fst_overlay_remove: "overlay_wf s \<Longrightarrow> fst (overlay_remove k s) = bt_get (to_map s) k"
  by (simp add: overlay_remove_def Let_def bt_get_to_map)

section \<open>What the transaction rules use of the store\<close>

text \<open>A UTxO store has ordered contents; insertion and deletion act on the contents, and
  deletion fails exactly on an absent input. \<open>total f\<close> sums a measure of the live outputs.\<close>

locale utxo_store =
  fixes contents :: "'s \<Rightarrow> (TxIn, TxOut) btree_map"
    and inv :: "'s \<Rightarrow> bool"
    and ins :: "'s \<Rightarrow> TxIn \<Rightarrow> TxOut \<Rightarrow> 's"
    and del :: "'s \<Rightarrow> TxIn \<Rightarrow> ('s \<times> TxOut, LedgerError) result"
  assumes contents_wf: "inv s \<Longrightarrow> bt_wf (contents s)"
    and ins_inv: "inv s \<Longrightarrow> inv (ins s k v)"
    and ins_contents: "inv s \<Longrightarrow> contents (ins s k v) = bt_insert k v (contents s)"
    and del_absent: "inv s \<Longrightarrow> bt_get (contents s) k = None \<Longrightarrow> del s k = Err (InputNotFound k)"
    and del_present: "inv s \<Longrightarrow> bt_get (contents s) k = Some v \<Longrightarrow>
      \<exists>s'. del s k = Ok (s', v) \<and> inv s' \<and> contents s' = bt_remove k (contents s)"
begin

definition total :: "(TxOut \<Rightarrow> nat) \<Rightarrow> 's \<Rightarrow> nat" where
  "total f s = sum_list (map (\<lambda>e. f (snd e)) (contents s))"

lemma del_OkE:
  assumes "del s k = Ok (s', v)" "inv s"
  shows "inv s'" "contents s' = bt_remove k (contents s)" "bt_get (contents s) k = Some v"
  using assms del_absent [OF assms(2), of k] del_present [OF assms(2), of k]
  by (cases "bt_get (contents s) k"; force)+

lemma del_total: "del s k = Ok (s', v) \<Longrightarrow> inv s \<Longrightarrow> total f s = f v + total f s'"
  using del_OkE [of s k s' v] by (simp add: total_def sum_list_bt_remove contents_wf)

lemma ins_total: "inv s \<Longrightarrow> bt_get (contents s) k = None \<Longrightarrow> total f (ins s k v) = f v + total f s"
  by (simp add: total_def ins_contents sum_list_bt_insert contents_wf)

end

lemma utxo_delete_eq:
  assumes "overlay_wf s"
  shows "utxo_delete s k = (case bt_get (to_map s) k of None \<Rightarrow> Err (InputNotFound k)
    | Some v \<Rightarrow> Ok (snd (overlay_remove k s), v))"
  using fst_overlay_remove [OF assms, of k]
  by (cases "overlay_remove k s") (auto simp: utxo_delete_def split: option.splits)

interpretation utxo: utxo_store to_map overlay_wf utxo_insert utxo_delete
proof unfold_locales
  show "\<exists>s'. utxo_delete s k = Ok (s', v) \<and> overlay_wf s' \<and> to_map s' = bt_remove k (to_map s)"
    if "overlay_wf s" "bt_get (to_map s) k = Some v" for s k v
    using that by (simp add: utxo_delete_eq overlay_wf_remove to_map_remove)
qed (simp_all add: bt_wf_to_map utxo_insert_def overlay_wf_insert to_map_insert utxo_delete_eq)

definition total_coin :: "UTxOState \<Rightarrow> nat" where
  "total_coin s = sum_list (map (\<lambda>e. unat (out_coin (snd e))) (overlay_iter s))"

lemma total_coin_total: "overlay_wf s \<Longrightarrow> total_coin s = utxo.total (\<lambda>out. unat (out_coin out)) s"
  by (simp add: total_coin_def utxo.total_def overlay_iter_to_map)

section \<open>Sequences of operations\<close>

datatype UtxoOp = OpInsert TxIn TxOut | OpRemove TxIn | OpCompact

fun overlay_run :: "OverlayUtxo \<Rightarrow> UtxoOp list \<Rightarrow> OverlayUtxo \<times> TxOut option list" where
  "overlay_run s [] = (s, [])"
| "overlay_run s (OpInsert k v # ops) = overlay_run (overlay_insert k v s) ops"
| "overlay_run s (OpRemove k # ops) =
     (let (out, s') = overlay_remove k s; (s'', outs) = overlay_run s' ops in (s'', out # outs))"
| "overlay_run s (OpCompact # ops) = overlay_run (compact s) ops"

text \<open>The same operations on the \<^verbatim>\<open>BTreeMap\<close> the overlay replaces.\<close>

fun map_run :: "(TxIn, TxOut) btree_map \<Rightarrow> UtxoOp list \<Rightarrow> (TxIn, TxOut) btree_map \<times> TxOut option list" where
  "map_run m [] = (m, [])"
| "map_run m (OpInsert k v # ops) = map_run (bt_insert k v m) ops"
| "map_run m (OpRemove k # ops) = (let (m', outs) = map_run (bt_remove k m) ops in (m', bt_get m k # outs))"
| "map_run m (OpCompact # ops) = map_run m ops"

lemma overlay_run_sim:
  "overlay_wf s \<Longrightarrow> overlay_wf (fst (overlay_run s ops)) \<and>
     map_run (to_map s) ops = (to_map (fst (overlay_run s ops)), snd (overlay_run s ops))"
proof (induction s ops rule: overlay_run.induct)
  case (3 s k ops)
  obtain out s' where r: "overlay_remove k s = (out, s')" by (cases "overlay_remove k s")
  have s': "overlay_wf s'" "to_map s' = bt_remove k (to_map s)" "out = bt_get (to_map s) k"
    using "3.prems" overlay_wf_remove [of s k] to_map_remove [of s k] fst_overlay_remove [of s k] r by simp_all
  from "3.IH" [OF r [symmetric] refl s'(1)] show ?case
    by (simp add: r s'(2,3) [symmetric] case_prod_unfold Let_def)
qed (simp_all add: overlay_wf_insert to_map_insert overlay_wf_compact to_map_compact)


text \<open>The number of operations of a run that change the generation.\<close>

fun bumps :: "OverlayUtxo \<Rightarrow> UtxoOp list \<Rightarrow> nat" where
  "bumps s [] = 0"
| "bumps s (OpInsert k v # ops) = Suc (bumps (overlay_insert k v s) ops)"
| "bumps s (OpRemove k # ops) =
     (if overlay_get s k = None then 0 else 1) + bumps (snd (overlay_remove k s)) ops"
| "bumps s (OpCompact # ops) = bumps (compact s) ops"

lemma generation_compact [simp]: "generation (compact s) = generation s" "generation (maybe_compact s) = generation s"
  by (simp_all add: compact_def maybe_compact_def)

lemma generation_run: "generation (fst (overlay_run s ops)) = generation s + word_of_nat (bumps s ops)"
proof (induction s ops rule: overlay_run.induct)
  case (2 s k v ops)
  then show ?case by (simp add: overlay_insert_def)
next
  case (3 s k ops)
  obtain out s' where r: "overlay_remove k s = (out, s')" by (cases "overlay_remove k s")
  then have "generation s' = generation s + (if overlay_get s k = None then 0 else 1)"
    by (auto simp: overlay_remove_def Let_def split: if_splits)
  with "3.IH" [OF r [symmetric] refl] r show ?case by (simp add: case_prod_unfold Let_def)
qed simp_all

lemma bumps_le: "bumps s ops \<le> length ops"
proof (induction s ops rule: bumps.induct)
  case (3 s k ops)
  then show ?case by (simp add: le_SucI)
qed simp_all

lemma bumps_zero: "overlay_wf s \<Longrightarrow> bumps s ops = 0 \<Longrightarrow> to_map (fst (overlay_run s ops)) = to_map s"
proof (induction s ops rule: overlay_run.induct)
  case (3 s k ops)
  then have "overlay_remove k s = (None, s)" by (auto simp: overlay_remove_def split: if_splits)
  with 3 show ?case by (auto simp: case_prod_unfold Let_def)
qed (simp_all add: overlay_wf_compact to_map_compact)

text \<open>
  The generation is a sound key for a cached fingerprint: on one store's history of fewer than
  \<open>2 ^ 64\<close> operations, an unchanged generation means that the live entries are unchanged.
\<close>

theorem generation_tracks_content:
  assumes "overlay_wf s" "length ops < 2 ^ 64" "generation (fst (overlay_run s ops)) = generation s"
  shows "overlay_iter (fst (overlay_run s ops)) = overlay_iter s"
proof -
  have "word_of_nat (bumps s ops) = (0 :: u64)" using assms(3) by (simp add: generation_run)
  then have "2 ^ 64 dvd bumps s ops" by (simp add: word_of_nat_eq_0_iff)
  moreover have "bumps s ops < 2 ^ 64" using bumps_le [of s ops] assms(2) by simp
  ultimately have "bumps s ops = 0" by (auto dest: dvd_imp_le)
  with assms(1) show ?thesis
    using overlay_run_sim [OF assms(1), of ops] by (simp add: overlay_iter_to_map bumps_zero)
qed

definition sample_in :: "u16 \<Rightarrow> TxIn" where
  "sample_in i = TxIn [3] i"

definition sample_ops :: "UtxoOp list" where
  "sample_ops = [OpInsert (sample_in 1) (OutByron [] 9), OpRemove (sample_in 0), OpCompact, OpRemove (sample_in 0)]"

lemmas overlay_eval = sample_in_def sample_ops_def overlay_from_map_def overlay_insert_def overlay_remove_def
  overlay_get_def maybe_compact_def compact_def to_map_def apply_slot_def MAX_OVERLAY_ENTRIES_def bt_get_def
  bt_empty_def bt_remove_def bt_wf_def less_TxIn_def overlay_iter_def


theorem generation_tracks_content_witness:
  "generation (fst (overlay_run (overlay_from_map [(sample_in 0, OutByron [] 5)]) [OpRemove (sample_in 1), OpCompact])) = 0 \<and>
   overlay_iter (fst (overlay_run (overlay_from_map [(sample_in 0, OutByron [] 5)]) [OpRemove (sample_in 1), OpCompact])) =
   overlay_iter (overlay_from_map [(sample_in 0, OutByron [] 5)])"
proof -
  let ?s = "overlay_from_map [(sample_in 0, OutByron [] 5)]"
  have wf: "overlay_wf ?s" by (rule overlay_wf_from_map) (simp add: overlay_eval)
  have g: "generation (fst (overlay_run ?s [OpRemove (sample_in 1), OpCompact])) = generation ?s"
    by (simp add: overlay_eval)
  from generation_tracks_content [OF wf _ g] g show ?thesis by (simp add: overlay_from_map_def)
qed

lemma check_dup_ok: "check_dup seen inputs = Ok () \<longleftrightarrow> distinct inputs \<and> set seen \<inter> set inputs = {}"
  by (induction seen inputs rule: check_dup.induct) auto

lemma check_duplicate_inputs_ok: "check_duplicate_inputs inputs = Ok () \<longleftrightarrow> distinct inputs"
  by (simp add: check_duplicate_inputs_def check_dup_ok)

lemma check_dup_err:
  "check_dup seen inputs = Err e \<Longrightarrow>
   \<exists>xs i ys. inputs = xs @ i # ys \<and> e = DuplicateInput i \<and> i \<in> set seen \<union> set xs \<and> distinct xs \<and> set seen \<inter> set xs = {}"
proof (induction seen inputs rule: check_dup.induct)
  case (2 seen i inputs)
  show ?case
  proof (cases "i \<in> set seen")
    case True
    with 2 show ?thesis by (intro exI [of _ "[]"]) auto
  next
    case False
    with 2 obtain xs j ys where "inputs = xs @ j # ys" "e = DuplicateInput j" "j \<in> set (i # seen) \<union> set xs" "distinct xs"
        "set (i # seen) \<inter> set xs = {}"
      by auto
    with False show ?thesis by (intro exI [of _ "i # xs"] exI [of _ j] exI [of _ ys]) auto
  qed
qed simp

end
