(* ===== verification/Late_Era.thy ===== *)
theory Late_Era
  imports Conway_Cert Overlay_Utxo
begin

text \<open>
  State-backed validation of Alonzo, Babbage and Conway transactions: the check functions of
  \<^verbatim>\<open>ade_ledger/src/late_era_validation.rs\<close>, the composers of \<^verbatim>\<open>alonzo.rs\<close>, \<^verbatim>\<open>babbage.rs\<close> and
  \<^verbatim>\<open>conway.rs\<close> with the value equation of Conway, the network of an address
  (\<^verbatim>\<open>tx_validity/utxo_free.rs\<close>) and the set of inputs a transaction reads (\<^verbatim>\<open>pre_resolve.rs\<close>). The
  UTxO is its lookup function, as in the trait \<^verbatim>\<open>UtxoStore\<close>. Shown: what an accepted transaction
  satisfies; that validation reads the UTxO at the declared inputs only; and that the value
  equation together with the accumulated certificates conserves ada, with the two gaps it has.
\<close>

section \<open>Bodies\<close>

record AlonzoTxOut =
  ato_address :: bytes
  ato_coin :: Coin
  ato_multi_asset :: "bytes option"
  ato_datum_hash :: "Hash32 option"

record AlonzoTxBody =
  al_inputs :: "TxIn list"
  al_outputs :: "AlonzoTxOut list"
  al_fee :: Coin
  al_ttl :: "SlotNo option"
  al_certs :: "bytes option"
  al_withdrawals :: "bytes option"
  al_update :: "bytes option"
  al_metadata_hash :: "Hash32 option"
  al_validity_interval_start :: "SlotNo option"
  al_mint :: "bytes option"
  al_script_data_hash :: "Hash32 option"
  al_collateral_inputs :: "TxIn list option"
  al_required_signers :: "Hash28 list option"
  al_network_id :: "u8 option"

record BabbageTxOut =
  bbo_address :: bytes
  bbo_coin :: Coin
  bbo_multi_asset :: "bytes option"
  bbo_datum_option :: "bytes option"
  bbo_script_ref :: "bytes option"

record BabbageTxBody =
  bb_inputs :: "TxIn list"
  bb_outputs :: "BabbageTxOut list"
  bb_fee :: Coin
  bb_ttl :: "SlotNo option"
  bb_certs :: "bytes option"
  bb_withdrawals :: "bytes option"
  bb_update :: "bytes option"
  bb_metadata_hash :: "Hash32 option"
  bb_validity_interval_start :: "SlotNo option"
  bb_mint :: "bytes option"
  bb_script_data_hash :: "Hash32 option"
  bb_collateral_inputs :: "TxIn list option"
  bb_required_signers :: "Hash28 list option"
  bb_network_id :: "u8 option"
  bb_collateral_return :: "BabbageTxOut option"
  bb_total_collateral :: "Coin option"
  bb_reference_inputs :: "TxIn list option"

text \<open>The type parameter is the content of a proposal besides its deposit.\<close>

record 'g ProposalProcedure =
  pp_deposit :: Coin
  pp_return_addr :: bytes
  pp_content :: 'g

record 'g ConwayTxBody =
  cb_inputs :: "TxIn list"
  cb_outputs :: "BabbageTxOut list"
  cb_fee :: Coin
  cb_ttl :: "SlotNo option"
  cb_certs :: "bytes option"
  cb_withdrawals :: "bytes option"
  cb_metadata_hash :: "Hash32 option"
  cb_validity_interval_start :: "SlotNo option"
  cb_mint :: "bytes option"
  cb_script_data_hash :: "Hash32 option"
  cb_collateral_inputs :: "TxIn list option"
  cb_required_signers :: "Hash28 list option"
  cb_network_id :: "u8 option"
  cb_collateral_return :: "BabbageTxOut option"
  cb_total_collateral :: "Coin option"
  cb_reference_inputs :: "TxIn list option"
  cb_voting_procedures :: "bytes option"
  cb_proposal_procedures :: "'g ProposalProcedure list option"
  cb_treasury_value :: "Coin option"
  cb_donation :: "Coin option"

text \<open>\<^verbatim>\<open>i64\<close> and \<^verbatim>\<open>i128\<close> values are integers; the saturation of \<^verbatim>\<open>i128\<close> is written out.\<close>

record TotalExUnits =
  eu_mem :: int
  eu_cpu :: int

record WitnessInfo =
  available_key_hashes :: "Hash28 list"
  total_ex_units :: TotalExUnits

datatype ScriptPosture = NoScripts | NonPlutusScriptsOnly | PlutusPresentDeferred

type_synonym utxo_store = "TxIn \<Rightarrow> TxOut option"

definition i128_sat :: "int \<Rightarrow> int" where
  "i128_sat x = max (- (2 ^ 127)) (min (2 ^ 127 - 1) x)"

section \<open>Checks\<close>

definition check_inputs_present :: "TxIn list \<Rightarrow> utxo_store \<Rightarrow> (unit, LedgerError) result" where
  "check_inputs_present inputs utxo =
     (let missing = filter (\<lambda>i. utxo i = None) inputs in if missing = [] then Ok () else Err (BadInputs missing))"

definition check_collateral_non_empty :: "TxIn list \<Rightarrow> (unit, LedgerError) result" where
  "check_collateral_non_empty collateral_inputs = (if collateral_inputs = [] then Err NoCollateralInputs else Ok ())"

definition ceil_div_u128 :: "u128 \<Rightarrow> u128 \<Rightarrow> u128" where
  "ceil_div_u128 n d = (if d = 0 then 0 else (n + d - 1) div d)"

definition u128_to_u64_clamped :: "u128 \<Rightarrow> u64" where
  "u128_to_u64_clamped v = (if v > ucast (- 1 :: u64) then - 1 else ucast v)"

definition check_collateral_percent :: "int \<Rightarrow> u16 \<Rightarrow> Coin \<Rightarrow> (unit, LedgerError) result" where
  "check_collateral_percent balance percent fee =
     (let lhs = i128_sat (balance * 100); rhs = i128_sat (uint percent * uint fee) in
      if lhs \<ge> rhs then Ok ()
      else Err (InsufficientCollateral balance
             (u128_to_u64_clamped (ceil_div_u128 (saturating_mul (ucast percent) (ucast fee)) 100)) percent fee))"

definition check_total_collateral :: "int \<Rightarrow> Coin option \<Rightarrow> (unit, LedgerError) result" where
  "check_total_collateral balance declared =
     (case declared of
        None \<Rightarrow> Ok ()
      | Some d \<Rightarrow> if balance = uint d then Ok () else Err (IncorrectTotalCollateral balance d))"

definition check_collateral_contains_non_ada :: "bool \<Rightarrow> bool \<Rightarrow> (unit, LedgerError) result" where
  "check_collateral_contains_non_ada any_non_ada has_return =
     (if any_non_ada \<and> \<not> has_return then Err CollateralContainsNonADA else Ok ())"

text \<open>\<^verbatim>\<open>as i128\<close> reinterprets the bits of the sum.\<close>

definition compute_collateral_balance :: "u128 \<Rightarrow> u64 \<Rightarrow> int" where
  "compute_collateral_balance sum_coin return_coin = sint sum_coin - uint return_coin"

definition REF_INPUT_DISJOINT_PV_LOWER_EXCLUSIVE :: u16 where "REF_INPUT_DISJOINT_PV_LOWER_EXCLUSIVE = 8"

definition REF_INPUT_DISJOINT_PV_UPPER_EXCLUSIVE :: u16 where "REF_INPUT_DISJOINT_PV_UPPER_EXCLUSIVE = 11"

definition check_reference_input_disjoint :: "TxIn list \<Rightarrow> TxIn list \<Rightarrow> u16 \<Rightarrow> (unit, LedgerError) result" where
  "check_reference_input_disjoint inputs reference_inputs pv_major =
     (if \<not> (REF_INPUT_DISJOINT_PV_LOWER_EXCLUSIVE < pv_major \<and> pv_major < REF_INPUT_DISJOINT_PV_UPPER_EXCLUSIVE)
      then Ok ()
      else let common = filter (\<lambda>i. i \<in> set reference_inputs) inputs in
           if common = [] then Ok () else Err (NonDisjointRefInputs common))"

definition check_datum_hashes_present :: "Hash32 list \<Rightarrow> Hash32 list \<Rightarrow> (unit, LedgerError) result" where
  "check_datum_hashes_present required provided =
     (let missing = filter (\<lambda>h. h \<notin> set provided) required in
      if missing = [] then Ok () else Err (MissingRequiredDatums missing))"

definition check_required_signers :: "Hash28 list \<Rightarrow> Hash28 list \<Rightarrow> (unit, LedgerError) result" where
  "check_required_signers required available =
     (let missing = filter (\<lambda>h. h \<notin> set available) required in
      if missing = [] then Ok () else Err (MissingRequiredSigners missing))"

definition check_tx_network_id :: "u8 option \<Rightarrow> u8 \<Rightarrow> (unit, LedgerError) result" where
  "check_tx_network_id declared current =
     (case declared of
        None \<Rightarrow> Ok ()
      | Some d \<Rightarrow> if d = current then Ok () else Err (WrongNetworkInTxBody d current))"

definition check_tx_ex_units_within_cap :: "int \<Rightarrow> int \<Rightarrow> int \<Rightarrow> int \<Rightarrow> (unit, LedgerError) result" where
  "check_tx_ex_units_within_cap declared_mem declared_cpu max_mem max_cpu =
     (if declared_mem \<le> max_mem \<and> declared_cpu \<le> max_cpu then Ok ()
      else Err (ExUnitsTooBigUTxO declared_mem declared_cpu max_mem max_cpu))"

section \<open>The network of an address\<close>

record BootstrapAttributes =
  has_network_magic :: bool
  derivation_payload_len :: usize
  unknown_len :: usize

definition to_option :: "('a, 'e) result \<Rightarrow> 'a option" where
  "to_option r = (case r of Ok a \<Rightarrow> Some a | Err _ \<Rightarrow> None)"

definition bootstrap_entry :: "BootstrapAttributes \<Rightarrow> BootstrapAttributes reader" where
  "bootstrap_entry attrs payload p =
     rbind (read_uint payload p) (\<lambda>((key, _), p).
     rbind (read_bytes payload p) (\<lambda>((val, _), p).
     if key = 1 then rbind (read_bytes val 0) (\<lambda>((inner, _), _). Ok (attrs\<lparr>derivation_payload_len := length inner\<rparr>, p))
     else if key = 2 then Ok (attrs\<lparr>has_network_magic := True\<rparr>, p)
     else Ok (attrs\<lparr>unknown_len := unknown_len attrs + length val\<rparr>, p)))"

primrec bootstrap_entries :: "nat \<Rightarrow> BootstrapAttributes \<Rightarrow> BootstrapAttributes reader" where
  "bootstrap_entries 0 attrs payload p = Ok (attrs, p)"
| "bootstrap_entries (Suc k) attrs payload p =
     rbind (bootstrap_entry attrs payload p) (\<lambda>(attrs, p). bootstrap_entries k attrs payload p)"

text \<open>The indefinite loop; each entry takes a byte, so the bytes left are enough fuel.\<close>

primrec bootstrap_until_break :: "nat \<Rightarrow> BootstrapAttributes \<Rightarrow> BootstrapAttributes reader" where
  "bootstrap_until_break 0 attrs payload p =
     rbind (is_break payload p) (\<lambda>b. if b then Ok (attrs, p + 1) else Err (UnexpectedEof p 1))"
| "bootstrap_until_break (Suc k) attrs payload p =
     rbind (is_break payload p) (\<lambda>b.
     if b then Ok (attrs, p + 1)
     else rbind (bootstrap_entry attrs payload p) (\<lambda>(attrs, p). bootstrap_until_break k attrs payload p))"

definition read_bootstrap_attributes :: "bytes \<Rightarrow> BootstrapAttributes option" where
  "read_bootstrap_attributes address = to_option (
     rbind (expect_array 2 [] address 0) (\<lambda>(_, p).
     rbind (read_tag address p) (\<lambda>((tag, _), p).
     rbind (reject_if (tag \<noteq> 24) (InvalidCborStructure p [])) (\<lambda>_.
     rbind (read_bytes address p) (\<lambda>((payload, _), p).
     rbind (skip_item address p) (\<lambda>(_, p).
     rbind (reject_if (p \<noteq> length address) (InvalidCborStructure p [])) (\<lambda>_.
     rbind (expect_array 3 [] payload 0) (\<lambda>(_, p).
     rbind (skip_item payload p) (\<lambda>(_, p).
     rbind (read_map_header payload p) (\<lambda>(enc, p).
     let attrs = \<lparr>has_network_magic = False, derivation_payload_len = 0, unknown_len = 0\<rparr> in
     rbind (case enc of
              ContainerEncoding.Definite n _ \<Rightarrow> bootstrap_entries (unat n) attrs payload p
            | ContainerEncoding.Indefinite \<Rightarrow> bootstrap_until_break (length payload - p) attrs payload p) (\<lambda>(attrs, p).
     rbind (skip_item payload p) (\<lambda>_. Ok attrs))))))))))))"

datatype AddressNetworkError = EmptyAddress | MalformedBootstrap

definition address_network :: "bytes \<Rightarrow> (u8, AddressNetworkError) result" where
  "address_network address =
     (case address of
        [] \<Rightarrow> Err EmptyAddress
      | first # _ \<Rightarrow>
          if drop_bit 4 first = 8
          then rbind (ok_or MalformedBootstrap (read_bootstrap_attributes address)) (\<lambda>attrs.
               Ok (if has_network_magic attrs then 0 else 1))
          else Ok (and first 0x0f))"

definition check_address_network :: "bytes \<Rightarrow> u8 \<Rightarrow> (unit, LedgerError) result" where
  "check_address_network address current =
     (if address_network address = Ok current then Ok ()
      else Err (WrongNetworkInOutput (case address of [] \<Rightarrow> 0 | b # _ \<Rightarrow> b) current))"

fun check_address_networks :: "bytes list \<Rightarrow> u8 \<Rightarrow> (unit, LedgerError) result" where
  "check_address_networks [] current = Ok ()"
| "check_address_networks (a # addresses) current =
     rbind (check_address_network a current) (\<lambda>_. check_address_networks addresses current)"

section \<open>Alonzo\<close>

fun validate_common_structure :: "bool \<Rightarrow> bool \<Rightarrow> Coin \<Rightarrow> bool \<Rightarrow> CardanoEra \<Rightarrow> (unit, LedgerError) result" where
  "validate_common_structure empty_inputs _ _ _ era =
     (if empty_inputs then Err (StructuralViolation era EmptyInputs) else Ok ())"

definition validate_alonzo_structure :: "AlonzoTxBody \<Rightarrow> (unit, LedgerError) result" where
  "validate_alonzo_structure body =
     validate_common_structure (al_inputs body = []) (al_outputs body = []) (al_fee body)
       (\<exists>out\<in>set (al_outputs body). ato_coin out = 0) Alonzo"

definition classify_alonzo_script_posture :: "AlonzoTxBody \<Rightarrow> ScriptPosture" where
  "classify_alonzo_script_posture body =
     (if al_script_data_hash body \<noteq> None then PlutusPresentDeferred else NonPlutusScriptsOnly)"

text \<open>The native assets of an \<^verbatim>\<open>AlonzoPlus\<close> output are not looked at.\<close>

fun collateral_step :: "utxo_store \<Rightarrow> u128 \<times> bool \<Rightarrow> TxIn \<Rightarrow> u128 \<times> bool" where
  "collateral_step utxo (s, non_ada) i =
     (case utxo i of
        None \<Rightarrow> (s, non_ada)
      | Some (OutByron _ coin) \<Rightarrow> (saturating_add s (ucast coin), non_ada)
      | Some (OutShelleyMary _ v) \<Rightarrow> (saturating_add s (ucast (val_coin v)), non_ada \<or> multi_asset v \<noteq> [])
      | Some (OutAlonzoPlus _ _ coin) \<Rightarrow> (saturating_add s (ucast coin), non_ada))"

definition sum_collateral :: "TxIn list \<Rightarrow> utxo_store \<Rightarrow> u128 \<times> bool" where
  "sum_collateral collateral_inputs utxo = foldl (collateral_step utxo) (0, False) collateral_inputs"

definition insert_all :: "'a::linorder list \<Rightarrow> 'a list option \<Rightarrow> 'a list" where
  "insert_all xs ys = (case ys of None \<Rightarrow> xs | Some ys \<Rightarrow> fold insort_insert ys xs)"

definition has_redeemers :: "WitnessInfo \<Rightarrow> bool" where
  "has_redeemers w \<longleftrightarrow> eu_mem (total_ex_units w) > 0 \<or> eu_cpu (total_ex_units w) > 0"

definition check_ex_units :: "WitnessInfo \<Rightarrow> int \<times> int \<Rightarrow> (unit, LedgerError) result" where
  "check_ex_units w cap =
     check_tx_ex_units_within_cap (eu_mem (total_ex_units w)) (eu_cpu (total_ex_units w)) (fst cap) (snd cap)"

definition check_collateral_declared :: "WitnessInfo \<Rightarrow> TxIn list option \<Rightarrow> (unit, LedgerError) result" where
  "check_collateral_declared w collateral =
     (if has_redeemers w
      then check_collateral_non_empty (case collateral of None \<Rightarrow> [] | Some col \<Rightarrow> col)
      else Ok ())"

definition check_signers :: "WitnessInfo \<Rightarrow> Hash28 list option \<Rightarrow> (unit, LedgerError) result" where
  "check_signers w required =
     (case required of None \<Rightarrow> Ok () | Some req \<Rightarrow> check_required_signers req (available_key_hashes w))"

definition validate_alonzo_state_backed ::
  "AlonzoTxBody \<Rightarrow> utxo_store \<Rightarrow> WitnessInfo \<Rightarrow> u16 \<Rightarrow> u8 \<Rightarrow> int \<times> int \<Rightarrow> (unit, LedgerError) result" where
  "validate_alonzo_state_backed body utxo w collateral_percent current_network max_tx_ex_units =
     rbind (check_ex_units w max_tx_ex_units) (\<lambda>_.
     rbind (check_inputs_present (insert_all (al_inputs body) (al_collateral_inputs body)) utxo) (\<lambda>_.
     rbind (check_collateral_declared w (al_collateral_inputs body)) (\<lambda>_.
     rbind (case al_collateral_inputs body of
              None \<Rightarrow> Ok ()
            | Some col \<Rightarrow>
                (if col = [] then Ok ()
                 else let (sum_coin, any_non_ada) = sum_collateral col utxo;
                          balance = compute_collateral_balance sum_coin 0 in
                      rbind (check_collateral_percent balance collateral_percent (al_fee body)) (\<lambda>_.
                      check_collateral_contains_non_ada any_non_ada False))) (\<lambda>_.
     rbind (check_signers w (al_required_signers body)) (\<lambda>_.
     rbind (check_tx_network_id (al_network_id body) current_network) (\<lambda>_.
     check_address_networks (map ato_address (al_outputs body)) current_network))))))"

section \<open>Babbage\<close>

definition validate_babbage_structure :: "BabbageTxBody \<Rightarrow> (unit, LedgerError) result" where
  "validate_babbage_structure body =
     validate_common_structure (bb_inputs body = []) (bb_outputs body = []) (bb_fee body)
       (\<exists>out\<in>set (bb_outputs body). bbo_coin out = 0) Babbage"

definition classify_babbage_script_posture :: "BabbageTxBody \<Rightarrow> ScriptPosture" where
  "classify_babbage_script_posture body =
     (if bb_script_data_hash body \<noteq> None then PlutusPresentDeferred else NonPlutusScriptsOnly)"

text \<open>The collateral checks that Babbage and Conway share.\<close>

definition check_collateral ::
  "utxo_store \<Rightarrow> TxIn list option \<Rightarrow> BabbageTxOut option \<Rightarrow> Coin option \<Rightarrow> u16 \<Rightarrow> Coin \<Rightarrow> (unit, LedgerError) result" where
  "check_collateral utxo collateral ret total_collateral percent fee =
     (case collateral of
        None \<Rightarrow> Ok ()
      | Some col \<Rightarrow>
          (if col = [] then Ok ()
           else let (sum_coin, any_non_ada) = sum_collateral col utxo;
                    return_coin = (case ret of None \<Rightarrow> 0 | Some out \<Rightarrow> bbo_coin out);
                    balance = compute_collateral_balance sum_coin return_coin in
                rbind (check_collateral_percent balance percent fee) (\<lambda>_.
                rbind (check_collateral_contains_non_ada any_non_ada (ret \<noteq> None)) (\<lambda>_.
                check_total_collateral balance total_collateral))))"

definition output_addresses :: "BabbageTxOut list \<Rightarrow> BabbageTxOut option \<Rightarrow> bytes list" where
  "output_addresses outputs ret = map bbo_address outputs @ (case ret of None \<Rightarrow> [] | Some out \<Rightarrow> [bbo_address out])"

definition validate_babbage_state_backed ::
  "BabbageTxBody \<Rightarrow> utxo_store \<Rightarrow> WitnessInfo \<Rightarrow> u16 \<Rightarrow> u8 \<Rightarrow> int \<times> int \<Rightarrow> (unit, LedgerError) result" where
  "validate_babbage_state_backed body utxo w collateral_percent current_network max_tx_ex_units =
     rbind (check_ex_units w max_tx_ex_units) (\<lambda>_.
     rbind (check_inputs_present
              (insert_all (insert_all (bb_inputs body) (bb_collateral_inputs body)) (bb_reference_inputs body)) utxo) (\<lambda>_.
     rbind (check_collateral_declared w (bb_collateral_inputs body)) (\<lambda>_.
     rbind (check_collateral utxo (bb_collateral_inputs body) (bb_collateral_return body) (bb_total_collateral body)
              collateral_percent (bb_fee body)) (\<lambda>_.
     rbind (check_signers w (bb_required_signers body)) (\<lambda>_.
     rbind (check_tx_network_id (bb_network_id body) current_network) (\<lambda>_.
     check_address_networks (output_addresses (bb_outputs body) (bb_collateral_return body)) current_network))))))"

section \<open>Conway\<close>

definition validate_conway_structure :: "'g ConwayTxBody \<Rightarrow> (unit, LedgerError) result" where
  "validate_conway_structure body =
     validate_common_structure (cb_inputs body = []) (cb_outputs body = []) (cb_fee body)
       (\<exists>out\<in>set (cb_outputs body). bbo_coin out = 0) Conway"

definition classify_conway_script_posture :: "'g ConwayTxBody \<Rightarrow> ScriptPosture" where
  "classify_conway_script_posture body =
     (if cb_script_data_hash body \<noteq> None then PlutusPresentDeferred else NonPlutusScriptsOnly)"

definition collect_required_txins :: "'g ConwayTxBody \<Rightarrow> TxIn list" where
  "collect_required_txins body =
     insert_all (insert_all (cb_inputs body) (cb_collateral_inputs body)) (cb_reference_inputs body)"

fun removed_tag_of :: "ConwayCert \<Rightarrow> u64 option" where
  "removed_tag_of (RemovedInConway tag) = Some tag"
| "removed_tag_of _ = None"

text \<open>The sweep for era validity, certificate by certificate; \<^verbatim>\<open>classify\<close> may fail on the way.\<close>

fun sweep_certs :: "nat \<Rightarrow> ConwayDepositParams \<Rightarrow> CertState \<Rightarrow> ConwayCert list \<Rightarrow> (unit, LedgerError failure) result" where
  "sweep_certs idx dp s [] = Ok ()"
| "sweep_certs idx dp s (cert # certs) =
     rbind (map_err Fail (classify_cert cert dp s)) (\<lambda>disp.
     if disp = NotValidInConway
     then (case removed_tag_of cert of
             Some tag \<Rightarrow> Err (Fail (EraInvalidCertificate (word_of_nat idx) tag))
           | None \<Rightarrow> Err (Panic ''removed_tag_of called on a non-removed cert''))
     else sweep_certs (Suc idx) dp s certs)"

fun fold_deposits ::
  "ConwayDepositParams \<Rightarrow> CertState \<Rightarrow> int \<times> int \<Rightarrow> ConwayCert list \<Rightarrow> (int \<times> int, LedgerError failure) result" where
  "fold_deposits dp s acc [] = Ok acc"
| "fold_deposits dp s (new_deposits, refunded) (cert # certs) =
     rbind (map_err Fail (classify_cert cert dp s)) (\<lambda>disp.
     case disp of
       Accountable (NewDeposit src) \<Rightarrow>
         fold_deposits dp s (i128_sat (new_deposits + uint (coin_of src)), refunded) certs
     | Accountable (Refund src) \<Rightarrow>
         fold_deposits dp s (new_deposits, i128_sat (refunded + uint (coin_of src))) certs
     | Neutral \<Rightarrow> fold_deposits dp s (new_deposits, refunded) certs
     | NotValidInConway \<Rightarrow> Err (Panic ''era-validity swept above''))"

definition cert_deposits ::
  "ConwayDepositParams \<Rightarrow> CertState \<Rightarrow> bytes option \<Rightarrow> (int \<times> int, LedgerError failure) result" where
  "cert_deposits dp s certs =
     (case certs of
        None \<Rightarrow> Ok (0, 0)
      | Some bs \<Rightarrow>
          rbind (map_err (map_failure from_codec_error) (decode_conway_certs bs)) (\<lambda>certs.
          rbind (sweep_certs 0 dp s certs) (\<lambda>_. fold_deposits dp s (0, 0) certs)))"

definition sat_sum :: "int \<Rightarrow> u64 list \<Rightarrow> int" where
  "sat_sum start coins = foldl (\<lambda>acc c. i128_sat (acc + uint c)) start coins"

definition consumed_coin :: "'g ConwayTxBody \<Rightarrow> utxo_store \<Rightarrow> int \<Rightarrow> int \<Rightarrow> int" where
  "consumed_coin body utxo withdrawals_total refunded =
     i128_sat (i128_sat (sat_sum 0 (map out_coin (List.map_filter utxo (cb_inputs body))) + withdrawals_total) + refunded)"

definition produced_coin :: "'g ConwayTxBody \<Rightarrow> int \<Rightarrow> int" where
  "produced_coin body new_deposits =
     (let produced = sat_sum (uint (cb_fee body)) (map bbo_coin (cb_outputs body));
          produced = (case cb_donation body of None \<Rightarrow> produced | Some d \<Rightarrow> i128_sat (produced + uint d))
      in i128_sat (produced + new_deposits))"

definition clamp_u64 :: "int \<Rightarrow> u64" where
  "clamp_u64 x = word_of_int (min (max x 0) (2 ^ 64 - 1))"

definition check_conway_coin_conservation ::
  "'g ConwayTxBody \<Rightarrow> utxo_store \<Rightarrow> ConwayDepositParams \<Rightarrow> CertState \<Rightarrow> (unit, LedgerError failure) result" where
  "check_conway_coin_conservation body utxo deposit_params cert_state =
     rbind (case cb_withdrawals body of
              None \<Rightarrow> Ok 0
            | Some bs \<Rightarrow> rbind (map_err (\<lambda>e. Fail (from_codec_error e)) (decode_withdrawals bs)) (\<lambda>m.
                Ok (withdrawals_sum m))) (\<lambda>withdrawals_total.
     rbind (cert_deposits deposit_params cert_state (cb_certs body)) (\<lambda>(new_deposits, refunded).
     let consumed = consumed_coin body utxo withdrawals_total refunded;
         produced = produced_coin body new_deposits in
     if consumed \<noteq> produced then Err (Fail (Conservation (clamp_u64 consumed) (clamp_u64 produced))) else Ok ()))"

definition validate_conway_state_backed ::
  "'g ConwayTxBody \<Rightarrow> utxo_store \<Rightarrow> WitnessInfo \<Rightarrow> u16 \<Rightarrow> u8 \<Rightarrow> u16 \<Rightarrow> int \<times> int \<Rightarrow> ConwayDepositParams \<Rightarrow> CertState \<Rightarrow>
   (unit, LedgerError failure) result" where
  "validate_conway_state_backed body utxo w collateral_percent current_network protocol_version_major max_tx_ex_units
     deposit_params cert_state =
     rbind (map_err Fail (
       rbind (check_ex_units w max_tx_ex_units) (\<lambda>_.
       rbind (check_inputs_present (collect_required_txins body) utxo) (\<lambda>_.
       rbind (check_reference_input_disjoint (cb_inputs body)
                (case cb_reference_inputs body of None \<Rightarrow> [] | Some refs \<Rightarrow> refs) protocol_version_major) (\<lambda>_.
       rbind (check_collateral_declared w (cb_collateral_inputs body)) (\<lambda>_.
       rbind (check_collateral utxo (cb_collateral_inputs body) (cb_collateral_return body) (cb_total_collateral body)
                collateral_percent (cb_fee body)) (\<lambda>_.
       check_signers w (cb_required_signers body)))))))) (\<lambda>_.
     rbind (check_conway_coin_conservation body utxo deposit_params cert_state) (\<lambda>_.
     map_err Fail (
       rbind (check_tx_network_id (cb_network_id body) current_network) (\<lambda>_.
       check_address_networks (output_addresses (cb_outputs body) (cb_collateral_return body)) current_network))))"

section \<open>Sums without saturation\<close>

lemma i128_sat_id: "0 \<le> x \<Longrightarrow> x < 2 ^ 127 \<Longrightarrow> i128_sat x = x"
  by (simp add: i128_sat_def)

lemma uint_u64_bounds: "0 \<le> uint (x :: u64)" "uint (x :: u64) < 2 ^ 64"
  using uint_lt2p [of x] by simp_all

lemma sum_uint_bounds:
  fixes coins :: "u64 list"
  shows "0 \<le> sum_list (map uint coins)" and "sum_list (map uint coins) \<le> int (length coins) * 2 ^ 64"
proof -
  show "0 \<le> sum_list (map uint coins)" by (rule sum_list_nonneg) auto
  show "sum_list (map uint coins) \<le> int (length coins) * 2 ^ 64"
  proof (induction coins)
    case (Cons c coins)
    then show ?case using uint_u64_bounds(2) [of c] by (simp add: algebra_simps)
  qed simp
qed

lemma sat_sum_exact:
  assumes "0 \<le> start" "start + int (length coins) * 2 ^ 64 < 2 ^ 127"
  shows "sat_sum start coins = start + sum_list (map uint coins)"
  using assms unfolding sat_sum_def
proof (induction coins arbitrary: start)
  case (Cons c coins)
  have c: "0 \<le> uint c" "uint c < 2 ^ 64" by (rule uint_u64_bounds)+
  have "i128_sat (start + uint c) = start + uint c"
    using Cons.prems c by (intro i128_sat_id) (simp_all add: algebra_simps add_nonneg_nonneg)
  moreover have "foldl (\<lambda>acc c. i128_sat (acc + uint c)) (start + uint c) coins =
      (start + uint c) + sum_list (map uint coins)"
    using Cons.prems c by (intro Cons.IH) (simp_all add: algebra_simps)
  ultimately show ?case by simp
qed simp

lemma fold_deposits_exact:
  assumes "fold_deposits dp s (a, b) certs = Ok (new, ref)" "0 \<le> a" "0 \<le> b"
    "a + int (length certs) * 2 ^ 64 < 2 ^ 127" "b + int (length certs) * 2 ^ 64 < 2 ^ 127"
  shows "new - ref = a - b + certs_flow dp s certs \<and>
    0 \<le> new \<and> new \<le> a + int (length certs) * 2 ^ 64 \<and> 0 \<le> ref \<and> ref \<le> b + int (length certs) * 2 ^ 64"
  using assms
proof (induction certs arbitrary: a b)
  case (Cons cert certs)
  from Cons.prems(1) obtain disp where disp: "classify_cert cert dp s = Ok disp" by (auto simp: result_simps)
  have sat: "i128_sat (x + uint c) = x + uint c" if "0 \<le> x" "x + int (length (cert # certs)) * 2 ^ 64 < 2 ^ 127"
    for x and c :: u64
    using that uint_u64_bounds [of c] by (intro i128_sat_id) (simp_all add: algebra_simps add_nonneg_nonneg)
  show ?case
  proof (cases disp)
    case (Accountable eff)
    show ?thesis
    proof (cases eff)
      case (NewDeposit src)
      have "fold_deposits dp s (a + uint (coin_of src), b) certs = Ok (new, ref)"
        using Cons.prems by (simp add: disp Accountable NewDeposit sat)
      from Cons.IH [OF this] Cons.prems(2-) uint_u64_bounds [of "coin_of src"] show ?thesis
        by (simp add: certs_flow_def disp Accountable NewDeposit algebra_simps)
    next
      case (Refund src)
      have "fold_deposits dp s (a, b + uint (coin_of src)) certs = Ok (new, ref)"
        using Cons.prems by (simp add: disp Accountable Refund sat)
      from Cons.IH [OF this] Cons.prems(2-) uint_u64_bounds [of "coin_of src"] show ?thesis
        by (simp add: certs_flow_def disp Accountable Refund algebra_simps)
    qed
  next
    case Neutral
    with Cons.prems(1) have "fold_deposits dp s (a, b) certs = Ok (new, ref)" by (simp add: disp)
    from Cons.IH [OF this] Cons.prems(2-) show ?thesis by (simp add: certs_flow_def disp Neutral algebra_simps)
  next
    case NotValidInConway
    with Cons.prems(1) disp show ?thesis by simp
  qed
qed (simp add: certs_flow_def)

section \<open>Value conservation\<close>

definition withdrawn :: "'g ConwayTxBody \<Rightarrow> int" where
  "withdrawn body = (case cb_withdrawals body of
     None \<Rightarrow> 0 | Some bs \<Rightarrow> (case decode_withdrawals bs of Ok m \<Rightarrow> withdrawals_sum m | Err _ \<Rightarrow> 0))"

definition body_certs :: "'g ConwayTxBody \<Rightarrow> ConwayCert list" where
  "body_certs body = (case cb_certs body of
     None \<Rightarrow> [] | Some bs \<Rightarrow> (case decode_conway_certs bs of Ok certs \<Rightarrow> certs | Err _ \<Rightarrow> []))"

text \<open>A transaction that fits in memory: no list has \<open>2\<^sup>60\<close> elements.\<close>

definition body_bounded :: "'g ConwayTxBody \<Rightarrow> bool" where
  "body_bounded body \<longleftrightarrow> length (cb_inputs body) < 2 ^ 60 \<and> length (cb_outputs body) < 2 ^ 60 \<and>
     length (body_certs body) < 2 ^ 60 \<and> 0 \<le> withdrawn body \<and> withdrawn body < 2 ^ 124"

definition inputs_value :: "'g ConwayTxBody \<Rightarrow> utxo_store \<Rightarrow> int" where
  "inputs_value body utxo = sum_list (map (\<lambda>out. uint (out_coin out)) (List.map_filter utxo (cb_inputs body)))"

definition outputs_value :: "'g ConwayTxBody \<Rightarrow> int" where
  "outputs_value body = sum_list (map (\<lambda>out. uint (bbo_coin out)) (cb_outputs body))"

definition donated :: "'g ConwayTxBody \<Rightarrow> int" where
  "donated body = (case cb_donation body of None \<Rightarrow> 0 | Some d \<Rightarrow> uint d)"

lemma length_map_filter: "length (List.map_filter f xs) \<le> length xs"
  by (induction xs) (auto simp: List.map_filter_simps split: option.splits)

lemma consumed_exact:
  assumes "body_bounded body" "0 \<le> w" "w < 2 ^ 124" "0 \<le> r" "r < 2 ^ 125"
  shows "consumed_coin body utxo w r = inputs_value body utxo + w + r"
proof -
  let ?cs = "map out_coin (List.map_filter utxo (cb_inputs body))"
  have len: "int (length ?cs) < 2 ^ 60"
    using assms(1) length_map_filter [of utxo "cb_inputs body"] by (simp add: body_bounded_def)
  have v: "inputs_value body utxo = sum_list (map uint ?cs)" by (simp add: inputs_value_def comp_def)
  have b: "0 \<le> inputs_value body utxo" "inputs_value body utxo \<le> int (length ?cs) * 2 ^ 64"
    unfolding v by (rule sum_uint_bounds)+
  have "sat_sum 0 ?cs = inputs_value body utxo"
    using len by (subst sat_sum_exact) (simp_all add: v)
  moreover have "i128_sat (inputs_value body utxo + w) = inputs_value body utxo + w"
    "i128_sat (inputs_value body utxo + w + r) = inputs_value body utxo + w + r"
    using assms b len by (intro i128_sat_id; simp add: add_nonneg_nonneg)+
  ultimately show ?thesis by (simp add: consumed_coin_def)
qed

lemma produced_exact:
  assumes "body_bounded body" "0 \<le> d" "d < 2 ^ 125"
  shows "produced_coin body d = outputs_value body + uint (cb_fee body) + donated body + d"
proof -
  let ?cs = "map bbo_coin (cb_outputs body)"
  have len: "int (length ?cs) < 2 ^ 60" using assms(1) by (simp add: body_bounded_def)
  have v: "outputs_value body = sum_list (map uint ?cs)" by (simp add: outputs_value_def comp_def)
  have b: "0 \<le> outputs_value body" "outputs_value body \<le> int (length ?cs) * 2 ^ 64"
    unfolding v by (rule sum_uint_bounds)+
  have f: "0 \<le> uint (cb_fee body)" "uint (cb_fee body) < 2 ^ 64" by (rule uint_u64_bounds)+
  have n: "0 \<le> donated body" "donated body < 2 ^ 64"
    using uint_u64_bounds by (auto simp: donated_def split: option.splits)
  have "sat_sum (uint (cb_fee body)) ?cs = uint (cb_fee body) + outputs_value body"
    using len f by (subst sat_sum_exact) (simp_all add: v)
  moreover have "i128_sat (uint (cb_fee body) + outputs_value body + donated body) = uint (cb_fee body) + outputs_value body + donated body"
    "i128_sat (uint (cb_fee body) + outputs_value body + donated body + d) = uint (cb_fee body) + outputs_value body + donated body + d"
    using assms b f n len by (intro i128_sat_id; simp add: add_nonneg_nonneg)+
  ultimately show ?thesis by (auto simp: produced_coin_def donated_def Let_def split: option.splits)
qed

lemma conservation_Ok:
  assumes "check_conway_coin_conservation body utxo dp s = Ok ()"
  obtains new ref where "sweep_certs 0 dp s (body_certs body) = Ok ()"
    "fold_deposits dp s (0, 0) (body_certs body) = Ok (new, ref)"
    "consumed_coin body utxo (withdrawn body) ref = produced_coin body new"
proof -
  from assms obtain new ref where d: "cert_deposits dp s (cb_certs body) = Ok (new, ref)"
    and eq: "consumed_coin body utxo (withdrawn body) ref = produced_coin body new"
    by (auto simp: check_conway_coin_conservation_def result_simps withdrawn_def Let_def split: option.splits if_splits)
  have "sweep_certs 0 dp s (body_certs body) = Ok () \<and> fold_deposits dp s (0, 0) (body_certs body) = Ok (new, ref)"
  proof (cases "cb_certs body")
    case (Some bs)
    with d obtain certs where "decode_conway_certs bs = Ok certs" "sweep_certs 0 dp s certs = Ok ()"
      "fold_deposits dp s (0, 0) certs = Ok (new, ref)"
      by (auto simp: cert_deposits_def result_simps)
    with Some show ?thesis by (simp add: body_certs_def)
  qed (use d in \<open>simp add: cert_deposits_def body_certs_def\<close>)
  with eq that show ?thesis by blast
qed

text \<open>The certificates of a transaction, applied to the certificate and governance state.\<close>

definition apply_body_certs ::
  "'g ConwayTxBody \<Rightarrow> CertState \<Rightarrow> 'r ConwayGovState option \<Rightarrow> Coin \<Rightarrow> GovCertEnv option \<Rightarrow>
   (CertState \<times> 'r ConwayGovState option, LedgerError failure) result" where
  "apply_body_certs body s gov key_deposit genv =
     (case cb_certs body of
        None \<Rightarrow> Ok (s, gov)
      | Some bs \<Rightarrow> accumulate_tx_certs Conway bs s gov key_deposit genv)"

lemma apply_body_certs_Ok:
  assumes "apply_body_certs body s gov kd genv = Ok sg"
  shows "fold_certs (conway_cert_step kd genv) 0 (s, gov) (body_certs body) = Ok sg"
  using assms
  by (auto simp: apply_body_certs_def accumulate_tx_certs_def body_certs_def result_simps split: option.splits)


section \<open>Two gaps\<close>

text \<open>
  C15. The value equation has two gaps. It does not look at the proposals of a transaction, so their
  deposits are neither required nor allowed for. And an unregistration may claim any refund: the
  transaction that unregisters a credential and pays the claimed amount out is accepted, whatever
  deposit the state records for the credential.
\<close>

theorem conservation_gaps:
  "check_conway_coin_conservation (body\<lparr>cb_proposal_procedures := ps\<rparr>) utxo dp s =
     check_conway_coin_conservation body utxo dp s \<and>
   (cb_withdrawals body = None \<and> cb_donation body = None \<and> cb_certs body = Some bs \<and>
      decode_conway_certs bs = Ok [ConwayCert.AccountUnregistrationDeposit c claimed] \<and>
      cb_inputs body = [i] \<and> utxo i = Some paid_in \<and> cb_outputs body = [paid_out] \<and>
      unat (bbo_coin paid_out) + unat (cb_fee body) = unat (out_coin paid_in) + unat claimed \<longrightarrow>
    check_conway_coin_conservation body utxo dp s = Ok ())"
proof
  show "check_conway_coin_conservation (body\<lparr>cb_proposal_procedures := ps\<rparr>) utxo dp s =
     check_conway_coin_conservation body utxo dp s"
    by (simp add: check_conway_coin_conservation_def consumed_coin_def produced_coin_def)
  show "cb_withdrawals body = None \<and> cb_donation body = None \<and> cb_certs body = Some bs \<and>
      decode_conway_certs bs = Ok [ConwayCert.AccountUnregistrationDeposit c claimed] \<and>
      cb_inputs body = [i] \<and> utxo i = Some paid_in \<and> cb_outputs body = [paid_out] \<and>
      unat (bbo_coin paid_out) + unat (cb_fee body) = unat (out_coin paid_in) + unat claimed \<longrightarrow>
    check_conway_coin_conservation body utxo dp s = Ok ()"
  proof
    assume h: "cb_withdrawals body = None \<and> cb_donation body = None \<and> cb_certs body = Some bs \<and>
      decode_conway_certs bs = Ok [ConwayCert.AccountUnregistrationDeposit c claimed] \<and>
      cb_inputs body = [i] \<and> utxo i = Some paid_in \<and> cb_outputs body = [paid_out] \<and>
      unat (bbo_coin paid_out) + unat (cb_fee body) = unat (out_coin paid_in) + unat claimed"
    have certs: "body_certs body = [ConwayCert.AccountUnregistrationDeposit c claimed]" "withdrawn body = 0"
      using h by (simp_all add: body_certs_def withdrawn_def)
    then have b: "body_bounded body" using h by (simp add: body_bounded_def)
    have "i128_sat (uint claimed) = uint claimed" using uint_u64_bounds [of claimed] by (intro i128_sat_id) simp_all
    then have d: "cert_deposits dp s (cb_certs body) = Ok (0, uint claimed)"
      using h by (simp add: cert_deposits_def)
    have "int (unat (bbo_coin paid_out) + unat (cb_fee body)) = int (unat (out_coin paid_in) + unat claimed)"
      using h by metis
    then have u: "uint (bbo_coin paid_out) + uint (cb_fee body) = uint (out_coin paid_in) + uint claimed" by simp
    have "consumed_coin body utxo 0 (uint claimed) = uint (out_coin paid_in) + uint claimed"
      using consumed_exact [OF b, of 0 "uint claimed" utxo] h uint_u64_bounds [of claimed]
      by (simp add: inputs_value_def List.map_filter_simps)
    moreover have "produced_coin body 0 = uint (bbo_coin paid_out) + uint (cb_fee body)"
      using produced_exact [OF b, of 0] h by (simp add: outputs_value_def donated_def)
    ultimately have "consumed_coin body utxo 0 (uint claimed) = produced_coin body 0"
      using u by simp
    then show "check_conway_coin_conservation body utxo dp s = Ok ()"
      using h d by (simp add: check_conway_coin_conservation_def)
  qed
qed


definition sample_cred :: StakeCredential where
  "sample_cred = StakeCredential.KeyHash (replicate 28 1)"

definition sample_cert_bytes :: "ConwayCert \<Rightarrow> bytes" where
  "sample_cert_bytes cert = set_tag_bytes False @ vec_bytes True (map conway_cert_bytes [(sample_layout, cert)])"

definition sample_conway_body :: "ConwayCert \<Rightarrow> Coin \<Rightarrow> unit ConwayTxBody" where
  "sample_conway_body cert coin = \<lparr>cb_inputs = [TxIn (replicate 32 5) 0],
     cb_outputs = [\<lparr>bbo_address = [0x61], bbo_coin = coin, bbo_multi_asset = None, bbo_datum_option = None, bbo_script_ref = None\<rparr>],
     cb_fee = 3, cb_ttl = None, cb_certs = Some (sample_cert_bytes cert), cb_withdrawals = None, cb_metadata_hash = None,
     cb_validity_interval_start = None, cb_mint = None, cb_script_data_hash = None, cb_collateral_inputs = None,
     cb_required_signers = None, cb_network_id = None, cb_collateral_return = None, cb_total_collateral = None,
     cb_reference_inputs = None, cb_voting_procedures = None, cb_proposal_procedures = None, cb_treasury_value = None,
     cb_donation = None\<rparr>"

definition sample_utxo :: utxo_store where
  "sample_utxo = [TxIn (replicate 32 5) 0 \<mapsto> OutByron [] 10]"

definition sample_params :: ConwayDepositParams where
  "sample_params = \<lparr>cdp_key_deposit = 2, cdp_pool_deposit = 500, cdp_drep_deposit = 7, cdp_gov_action_deposit = 9\<rparr>"

lemma sample_decoded: "conway_cert_ok cert \<Longrightarrow> decode_conway_certs (sample_cert_bytes cert) = Ok [cert]"
  using conway_certs_decoded [of "[(sample_layout, cert)]" False True] by (simp add: sample_cert_bytes_def sample_layout_ok)

definition sample_registered :: CertState where
  "sample_registered = CertState_new\<lparr>delegation :=
     \<lparr>registrations = [(sample_cred, 2)], delegations = [], rewards = [(sample_cred, 0)]\<rparr>\<rparr>"

theorem conservation_gaps_witness:
  "check_conway_coin_conservation (sample_conway_body (ConwayCert.AccountUnregistrationDeposit sample_cred 1000) 1007)
     sample_utxo sample_params sample_registered = Ok () \<and>
   bt_get (registrations (delegation sample_registered)) sample_cred = Some 2 \<and>
   is_ok (apply_body_certs (sample_conway_body (ConwayCert.AccountUnregistrationDeposit sample_cred 1000) 1007)
     sample_registered (None :: unit ConwayGovState option) 2 None)"
proof -
  let ?cert = "ConwayCert.AccountUnregistrationDeposit sample_cred 1000"
  have dec: "decode_conway_certs (sample_cert_bytes ?cert) = Ok [?cert]"
    by (rule sample_decoded) (simp add: sample_cred_def cred_ok_def)
  have "check_conway_coin_conservation (sample_conway_body ?cert 1007) sample_utxo sample_params sample_registered = Ok ()"
    using conservation_gaps [of None "sample_conway_body ?cert 1007" sample_utxo sample_params sample_registered
      "sample_cert_bytes ?cert" sample_cred 1000 "TxIn (replicate 32 5) 0" "OutByron [] 10"
      "\<lparr>bbo_address = [0x61], bbo_coin = 1007, bbo_multi_asset = None, bbo_datum_option = None, bbo_script_ref = None\<rparr>"]
    by (simp add: sample_conway_body_def sample_utxo_def dec)
  then show ?thesis
    by (simp add: apply_body_certs_def sample_conway_body_def accumulate_tx_certs_def dec conway_cert_step_def cert_defs
        sample_registered_def bt_contains_key_def bt_get_def outcome_defs)
qed


section \<open>What validation reads\<close>

lemma set_insert_all: "set (insert_all xs ys) = set xs \<union> (case ys of None \<Rightarrow> {} | Some ys \<Rightarrow> set ys)"
proof (cases ys)
  case (Some zs)
  have "set (fold insort_insert zs xs) = set xs \<union> set zs"
    by (induction zs arbitrary: xs) (auto simp: set_insort_insert)
  then show ?thesis by (simp add: insert_all_def Some)
qed (simp add: insert_all_def)

lemma collateral_cong:
  "\<forall>i\<in>set col. utxo i = utxo' i \<Longrightarrow> sum_collateral col utxo = sum_collateral col utxo'"
  unfolding sum_collateral_def by (intro foldl_cong) (auto split: prod.splits)

lemma map_filter_cong: "\<forall>x\<in>set xs. f x = g x \<Longrightarrow> List.map_filter f xs = List.map_filter g xs"
  by (induction xs) (auto simp: List.map_filter_simps split: option.split)

text \<open>
  C14. Validation of a Conway transaction reads the UTxO at the collected inputs only, spending,
  collateral and reference inputs together: two UTxO sets that agree there give the same verdict
  and the same error. Resolving exactly these inputs in advance therefore changes nothing.
\<close>

theorem validation_reads_collected_inputs:
  assumes "\<forall>i\<in>set (collect_required_txins body). utxo i = utxo' i"
  shows "validate_conway_state_backed body utxo w percent net pv cap dp s =
    validate_conway_state_backed body utxo' w percent net pv cap dp s"
proof -
  have i: "\<forall>i\<in>set (cb_inputs body). utxo i = utxo' i"
    and c: "\<And>col. cb_collateral_inputs body = Some col \<Longrightarrow> \<forall>i\<in>set col. utxo i = utxo' i"
    using assms by (auto simp: collect_required_txins_def set_insert_all split: option.splits)
  have "check_inputs_present (collect_required_txins body) utxo = check_inputs_present (collect_required_txins body) utxo'"
    using assms by (simp add: check_inputs_present_def cong: filter_cong)
  moreover have "check_collateral utxo (cb_collateral_inputs body) ret total percent fee =
      check_collateral utxo' (cb_collateral_inputs body) ret total percent fee" for ret total fee
    using collateral_cong [OF c] by (simp add: check_collateral_def split: option.split)
  moreover have "check_conway_coin_conservation body utxo dp s = check_conway_coin_conservation body utxo' dp s"
    using map_filter_cong [OF i] by (simp add: check_conway_coin_conservation_def consumed_coin_def)
  ultimately show ?thesis by (simp add: validate_conway_state_backed_def)
qed

definition sample_witness :: WitnessInfo where
  "sample_witness = \<lparr>available_key_hashes = [], total_ex_units = \<lparr>eu_mem = 0, eu_cpu = 0\<rparr>\<rparr>"

theorem validation_reads_collected_inputs_witness:
  "validate_conway_state_backed (sample_conway_body (ConwayCert.AccountRegistrationDeposit sample_cred 2) 5)
     sample_utxo sample_witness 150 0 10 (9, 9) sample_params CertState_new =
   validate_conway_state_backed (sample_conway_body (ConwayCert.AccountRegistrationDeposit sample_cred 2) 5)
     (sample_utxo(TxIn [] 7 \<mapsto> OutByron [] 1)) sample_witness 150 0 10 (9, 9) sample_params CertState_new"
  by (rule validation_reads_collected_inputs)
    (simp add: collect_required_txins_def insert_all_def sample_conway_body_def)

section \<open>What acceptance means\<close>

text \<open>The sum of the collateral, exactly.\<close>

definition collateral_value :: "TxIn list \<Rightarrow> utxo_store \<Rightarrow> nat" where
  "collateral_value col utxo = sum_list (map (\<lambda>out. unat (out_coin out)) (List.map_filter utxo col))"

lemma foldl_collateral:
  assumes "unat a + length col * 2 ^ 64 < 2 ^ 127"
  shows "unat (fst (foldl (collateral_step utxo) (a, b) col)) = unat a + collateral_value col utxo"
  using assms
proof (induction col arbitrary: a b)
  case (Cons i col)
  show ?case
  proof (cases "utxo i")
    case None
    with Cons show ?thesis by (simp add: collateral_value_def List.map_filter_simps)
  next
    case (Some out)
    obtain b' where b': "collateral_step utxo (a, b) i = (saturating_add a (ucast (out_coin out)), b')"
      by (cases out) (auto simp: Some)
    have c: "unat (out_coin out) < 2 ^ 64" using unsigned_less [of "out_coin out", where 'a = nat] by simp
    have sum: "unat (saturating_add a (ucast (out_coin out) :: u128)) = unat a + unat (out_coin out)"
      using Cons.prems c by (simp add: unat_saturating_add unat_u64_to_u128)
    from Cons.IH [of "saturating_add a (ucast (out_coin out))" b'] Cons.prems c show ?thesis
      by (simp add: b' sum collateral_value_def List.map_filter_simps Some del: collateral_step.simps)
  qed
qed (simp add: collateral_value_def List.map_filter_simps)

lemma collateral_value_bound: "collateral_value col utxo \<le> length col * 2 ^ 64"
proof -
  have "unat (out_coin out) \<le> 2 ^ 64" for out using unsigned_less [of "out_coin out", where 'a = nat] by simp
  then have "sum_list (map (\<lambda>out. unat (out_coin out)) xs) \<le> length xs * 2 ^ 64" for xs
    by (induction xs) (auto intro: add_mono)
  from this [of "List.map_filter utxo col"] length_map_filter [of utxo col] show ?thesis
    unfolding collateral_value_def by (meson le_trans mult_le_mono1)
qed

lemma balance_exact:
  assumes "length col < 2 ^ 60"
  shows "compute_collateral_balance (fst (sum_collateral col utxo)) r = int (collateral_value col utxo) - uint r"
proof -
  let ?s = "fst (sum_collateral col utxo)"
  have v: "unat ?s = collateral_value col utxo"
    unfolding sum_collateral_def using assms by (subst foldl_collateral) simp_all
  then have "unat ?s < 2 ^ 127" using collateral_value_bound [of col utxo] assms by simp
  then have b: "uint ?s < 2 ^ 127" by (simp add: uint_nat del: of_nat_unat)
  have "sint ?s = uint ?s"
    unfolding sint_uint using b by (intro signed_take_bit_int_eq_self) (simp_all add: order.trans [of _ 0])
  then show ?thesis by (simp add: compute_collateral_balance_def v [symmetric])
qed

definition collateral_acceptable :: "'g ConwayTxBody \<Rightarrow> utxo_store \<Rightarrow> u16 \<Rightarrow> bool" where
  "collateral_acceptable body utxo percent \<longleftrightarrow>
     (case cb_collateral_inputs body of
        None \<Rightarrow> True
      | Some col \<Rightarrow> col = [] \<or>
          (let balance = int (collateral_value col utxo) - (case cb_collateral_return body of None \<Rightarrow> 0 | Some out \<Rightarrow> uint (bbo_coin out)) in
           uint percent * uint (cb_fee body) \<le> 100 * balance \<and>
           (case cb_total_collateral body of None \<Rightarrow> True | Some t \<Rightarrow> balance = uint t)))"

lemma i128_sat_ge: "0 \<le> y \<Longrightarrow> y < 2 ^ 127 \<Longrightarrow> y \<le> i128_sat x \<longleftrightarrow> y \<le> x"
  by (auto simp: i128_sat_def)

lemma percent_exact:
  "check_collateral_percent balance percent fee = Ok () \<longleftrightarrow> uint percent * uint fee \<le> 100 * balance"
proof -
  have "uint percent * uint fee < 2 ^ 16 * 2 ^ 64"
    using uint_lt2p [of percent] uint_lt2p [of fee] by (intro mult_strict_mono) simp_all
  then have p: "0 \<le> uint percent * uint fee" "uint percent * uint fee < 2 ^ 127" by simp_all
  show ?thesis
    unfolding check_collateral_percent_def Let_def i128_sat_id [OF p] i128_sat_ge [OF p] by (simp add: mult.commute)
qed

lemma collateral_exact:
  assumes "\<forall>col. cb_collateral_inputs body = Some col \<longrightarrow> length col < 2 ^ 60"
    and "check_collateral utxo (cb_collateral_inputs body) (cb_collateral_return body) (cb_total_collateral body) percent (cb_fee body) = Ok ()"
  shows "collateral_acceptable body utxo percent"
proof (cases "cb_collateral_inputs body")
  case (Some col)
  then have l: "length col < 2 ^ 60" using assms(1) by simp
  show ?thesis
    using assms(2) balance_exact [OF l]
    by (auto simp: Some check_collateral_def collateral_acceptable_def Let_def rbind_unit_Ok percent_exact
        check_total_collateral_def case_prod_unfold split: option.splits if_splits)
qed (simp add: collateral_acceptable_def)

lemma sweep_valid: "sweep_certs idx dp s certs = Ok () \<Longrightarrow> \<forall>c\<in>set certs. removed_tag_of c = None"
proof (induction certs arbitrary: idx)
  case (Cons c certs)
  then obtain disp where d: "classify_cert c dp s = Ok disp" "disp \<noteq> NotValidInConway" "sweep_certs (Suc idx) dp s certs = Ok ()"
    by (auto simp: result_simps split: if_splits option.splits)
  moreover have "removed_tag_of c = None" using d(1,2) by (cases c) auto
  ultimately show ?case using Cons.IH by simp
qed simp

lemma check_address_networks_Ok:
  "check_address_networks as net = Ok () \<longleftrightarrow> (\<forall>a\<in>set as. address_network a = Ok net)"
  by (induction as) (auto simp: check_address_network_def)



section \<open>No branch is unreachable by mistake\<close>

definition no_panic :: "('a, 'e failure) result \<Rightarrow> bool" where
  "no_panic r \<longleftrightarrow> (\<forall>m. r \<noteq> Err (Panic m))"

lemma no_panic_simps [simp]:
  "no_panic (Ok a)" "no_panic (Err (Fail e))" "\<not> no_panic (Err (Panic m))" "no_panic (map_err Fail r)"
  by (auto simp: no_panic_def map_err_eq_Err)

lemma no_panic_bind [intro]: "no_panic r \<Longrightarrow> (\<And>a. r = Ok a \<Longrightarrow> no_panic (f a)) \<Longrightarrow> no_panic (rbind r f)"
  by (cases r) (auto simp: no_panic_def)

lemma no_panic_failure:
  assumes "no_panic r"
  shows "no_panic (map_err (map_failure f) r)"
proof (cases r)
  case (Inl e)
  with assms show ?thesis by (cases e) simp_all
qed simp

lemma no_panic_lift [simp]: "no_panic (lift_reader d data offset)"
  by (simp add: lift_reader_def)

lemma no_panic_arg: "(\<And>v data offset. no_panic (k v data offset)) \<Longrightarrow> no_panic (read_arg d k data offset)"
  unfolding read_arg_def by (intro no_panic_bind) (auto split: prod.split)

lemma no_panic_end [simp]: "no_panic (read_end v data offset)"
  by (simp add: read_end_def)

lemma no_panic_count: "(\<And>data offset. no_panic (d data offset)) \<Longrightarrow> no_panic (read_count n d data offset)"
  by (induction n arbitrary: offset) (auto intro!: no_panic_bind split: prod.split)

lemma no_panic_to_break: "(\<And>data offset. no_panic (d data offset)) \<Longrightarrow> no_panic (read_to_break n d data offset)"
  by (induction n arbitrary: offset) (auto intro!: no_panic_bind split: prod.split)

lemma no_panic_vec: "(\<And>data offset. no_panic (d data offset)) \<Longrightarrow> no_panic (read_bounded_vec d data offset)"
  unfolding read_bounded_vec_def
  by (intro no_panic_bind) (auto intro!: no_panic_count no_panic_bind no_panic_to_break split: prod.split ContainerEncoding.split)

lemma no_panic_pool_cert: "no_panic (read_pool_registration_cert data offset)"
  unfolding read_pool_registration_cert_def read_addr_keyhash_set_def
  by (intro no_panic_bind) (auto intro!: no_panic_bind no_panic_vec split: prod.split)

lemma no_panic_cert_fields: "no_panic (decode_cert_fields tag off data offset)"
  unfolding decode_cert_fields_def
  by (auto intro!: no_panic_arg no_panic_bind no_panic_pool_cert split: prod.split)

lemma no_panic_single_cert: "no_panic (decode_single_cert data offset)"
  unfolding decode_single_cert_def
  by (intro no_panic_bind) (auto intro!: no_panic_bind no_panic_cert_fields split: prod.split)

lemma no_panic_certs: "no_panic (decode_conway_certs bs)"
  unfolding decode_conway_certs_def
  by (intro no_panic_bind) (auto intro!: no_panic_bind no_panic_vec no_panic_single_cert split: prod.split)

lemma no_panic_sweep: "no_panic (sweep_certs idx dp s certs)"
proof (induction certs arbitrary: idx)
  case (Cons c certs)
  have "removed_tag_of c \<noteq> None" if "classify_cert c dp s = Ok NotValidInConway"
    using that by (cases c) (auto split: option.splits if_splits)
  with Cons show ?case by (auto simp: result_simps intro!: no_panic_bind split: option.split)
qed simp

lemma no_panic_fold:
  "\<forall>c\<in>set certs. removed_tag_of c = None \<Longrightarrow> no_panic (fold_deposits dp s acc certs)"
proof (induction certs arbitrary: acc)
  case (Cons c certs)
  have n: "classify_cert c dp s \<noteq> Ok NotValidInConway"
    using Cons.prems by (cases c) (auto split: option.splits if_splits)
  show ?case
    using Cons n by (cases acc) (auto simp: result_simps intro!: no_panic_bind split: CertDisposition.split DepositEffect.split)
qed simp

text \<open>
  Validation of a Conway transaction always returns a verdict: on no transaction, UTxO, witness
  set and certificate state does it reach one of its unreachable branches, and the certificate
  decoder it calls reserves no capacity it could fail to get.
\<close>

theorem conway_validation_never_panics:
  "validate_conway_state_backed body utxo w percent net pv cap dp s \<noteq> Err (Panic m)"
proof -
  have "no_panic (cert_deposits dp s certs)" for certs
    unfolding cert_deposits_def
    by (auto intro!: no_panic_bind no_panic_failure no_panic_certs no_panic_sweep no_panic_fold
        intro: sweep_valid [THEN bspec] split: option.split)
  then have "no_panic (check_conway_coin_conservation body utxo dp s)"
    unfolding check_conway_coin_conservation_def Let_def
    by (intro no_panic_bind) (auto intro!: no_panic_bind simp: no_panic_def result_simps split: option.splits prod.splits if_splits)
  then have "no_panic (validate_conway_state_backed body utxo w percent net pv cap dp s)"
    unfolding validate_conway_state_backed_def by (intro no_panic_bind) simp_all
  then show ?thesis by (simp add: no_panic_def)
qed

end
