(* ===== verification/Rational.thy ===== *)
theory Rational
  imports Prelude Complex_Main "HOL-Library.Signed_Division"
begin

text \<open>
  Exact rational numbers (\<^verbatim>\<open>ade_ledger/src/rational.rs\<close>): a numerator and a denominator of
  arbitrary precision, kept in lowest terms with a positive denominator. \<^verbatim>\<open>BigInt\<close> is \<^typ>\<open>int\<close>;
  its \<^verbatim>\<open>div_rem\<close> truncates towards zero. The lemmas relate every operation to the field of
  rational numbers.
\<close>

record Rational =
  rat_num :: int
  rat_den :: int

text \<open>\<^verbatim>\<open>bigint_to_i128\<close>: clamped to the range of \<^verbatim>\<open>i128\<close>.\<close>

definition i128_min :: int where "i128_min = - (2 ^ 127)"
definition i128_max :: int where "i128_max = 2 ^ 127 - 1"

definition bigint_to_i128 :: "int \<Rightarrow> int" where
  "bigint_to_i128 b =
     (if i128_min \<le> b \<and> b \<le> i128_max then b else if b < 0 then i128_min else i128_max)"

definition reduce :: "Rational \<Rightarrow> Rational" where
  "reduce r =
     (if rat_num r = 0 then r\<lparr>rat_den := 1\<rparr>
      else let r = (if rat_den r < 0 then \<lparr>rat_num = - rat_num r, rat_den = - rat_den r\<rparr> else r);
               g = gcd \<bar>rat_num r\<bar> (rat_den r)
           in if g > 1 then \<lparr>rat_num = rat_num r sdiv g, rat_den = rat_den r sdiv g\<rparr> else r)"

definition Rational_new :: "int \<Rightarrow> int \<Rightarrow> Rational option" where
  "Rational_new n d = (if d = 0 then None else Some (reduce \<lparr>rat_num = n, rat_den = d\<rparr>))"

definition from_integer :: "int \<Rightarrow> Rational" where
  "from_integer n = \<lparr>rat_num = n, rat_den = 1\<rparr>"

definition rational_zero :: Rational where "rational_zero = \<lparr>rat_num = 0, rat_den = 1\<rparr>"
definition rational_one :: Rational where "rational_one = \<lparr>rat_num = 1, rat_den = 1\<rparr>"

definition numerator :: "Rational \<Rightarrow> int" where "numerator r = bigint_to_i128 (rat_num r)"
definition denominator :: "Rational \<Rightarrow> int" where "denominator r = bigint_to_i128 (rat_den r)"

definition rational_floor :: "Rational \<Rightarrow> int" where
  "rational_floor r =
     (let q = rat_num r sdiv rat_den r; rm = rat_num r smod rat_den r
      in if rm < 0 then bigint_to_i128 (q - 1) else bigint_to_i128 q)"

definition rational_ceiling :: "Rational \<Rightarrow> int" where
  "rational_ceiling r =
     (let q = rat_num r sdiv rat_den r; rm = rat_num r smod rat_den r
      in if rm > 0 then bigint_to_i128 (q + 1) else bigint_to_i128 q)"

definition rational_add :: "Rational \<Rightarrow> Rational \<Rightarrow> Rational option" where
  "rational_add a b =
     Some (reduce \<lparr>rat_num = rat_num a * rat_den b + rat_num b * rat_den a, rat_den = rat_den a * rat_den b\<rparr>)"

definition rational_sub :: "Rational \<Rightarrow> Rational \<Rightarrow> Rational option" where
  "rational_sub a b =
     Some (reduce \<lparr>rat_num = rat_num a * rat_den b - rat_num b * rat_den a, rat_den = rat_den a * rat_den b\<rparr>)"

definition rational_mul :: "Rational \<Rightarrow> Rational \<Rightarrow> Rational option" where
  "rational_mul a b = Some (reduce \<lparr>rat_num = rat_num a * rat_num b, rat_den = rat_den a * rat_den b\<rparr>)"

definition rational_div :: "Rational \<Rightarrow> Rational \<Rightarrow> Rational option" where
  "rational_div a b =
     (if rat_num b = 0 then None
      else Some (reduce \<lparr>rat_num = rat_num a * rat_den b, rat_den = rat_den a * rat_num b\<rparr>))"

definition is_non_negative :: "Rational \<Rightarrow> bool" where
  "is_non_negative r \<longleftrightarrow> \<not> rat_num r < 0"

definition rational_cmp :: "Rational \<Rightarrow> Rational \<Rightarrow> ordering" where
  "rational_cmp a b = cmp (rat_num a * rat_den b) (rat_num b * rat_den a)"

section \<open>The rational number a pair stands for\<close>

definition rational_wf :: "Rational \<Rightarrow> bool" where
  "rational_wf r \<longleftrightarrow> 0 < rat_den r \<and> coprime (rat_num r) (rat_den r)"

definition rat_of :: "Rational \<Rightarrow> rat" where
  "rat_of r = of_int (rat_num r) / of_int (rat_den r)"

lemma sdiv_exact: "b \<noteq> 0 \<Longrightarrow> (a * b) sdiv b = (a :: int)"
  by (auto simp: signed_divide_int_def abs_mult sgn_mult abs_sgn sgn_0_0)

lemma sdiv_dvd: "g \<noteq> 0 \<Longrightarrow> g dvd a \<Longrightarrow> a sdiv g = a div (g :: int)"
  by (auto simp: sdiv_exact mult.commute)

lemma reduce_pos:
  assumes "rat_den r > 0" "rat_num r \<noteq> 0"
  shows "reduce r = \<lparr>rat_num = rat_num r div gcd (rat_num r) (rat_den r),
                     rat_den = rat_den r div gcd (rat_num r) (rat_den r)\<rparr>"
proof -
  let ?g = "gcd (rat_num r) (rat_den r)"
  have "?g > 0" using assms by simp
  then have "?g = 1 \<or> ?g > 1" by linarith
  then show ?thesis using assms \<open>?g > 0\<close> by (auto simp: reduce_def Let_def sdiv_dvd)
qed

lemma reduce_flip: "rat_den r < 0 \<Longrightarrow> reduce r = reduce \<lparr>rat_num = - rat_num r, rat_den = - rat_den r\<rparr>"
  by (simp add: reduce_def Let_def)

lemma reduced_pos:
  assumes "0 < rat_den r"
  shows "rational_wf (reduce r) \<and> rat_of (reduce r) = rat_of r"
proof (cases "rat_num r = 0")
  case True
  then show ?thesis by (simp add: reduce_def rational_wf_def rat_of_def)
next
  case False
  let ?g = "gcd (rat_num r) (rat_den r)"
  have g: "?g > 0" using False by simp
  have "coprime (rat_num r div ?g) (rat_den r div ?g)" using False by (intro div_gcd_coprime) simp
  moreover have "rat_den r div ?g > 0"
    using assms g by (intro pos_imp_zdiv_pos_iff [THEN iffD2]) (auto intro: zdvd_imp_le)
  moreover have "(of_int (rat_num r div ?g) :: rat) / of_int (rat_den r div ?g) = of_int (rat_num r) / of_int (rat_den r)"
  proof -
    obtain n d where n: "rat_num r = n * ?g" and d: "rat_den r = d * ?g"
      by (metis dvd_def gcd_dvd1 gcd_dvd2 mult.commute)
    have "rat_num r div ?g = n" "rat_den r div ?g = d"
      using g n d by (metis less_irrefl nonzero_mult_div_cancel_right)+
    moreover have "(of_int (rat_num r) :: rat) / of_int (rat_den r) = of_int (n * ?g) / of_int (d * ?g)"
      using n d by metis
    ultimately show ?thesis using g False by (auto simp: of_int_mult)
  qed
  ultimately show ?thesis by (simp add: reduce_pos [OF assms False] rational_wf_def rat_of_def)
qed

lemma reduced:
  assumes "rat_den r \<noteq> 0"
  shows reduce_wf: "rational_wf (reduce r)" and rat_of_reduce: "rat_of (reduce r) = rat_of r"
proof -
  have "rational_wf (reduce r) \<and> rat_of (reduce r) = rat_of r"
  proof (cases "0 < rat_den r")
    case True
    then show ?thesis by (rule reduced_pos)
  next
    case False
    then have "rat_den r < 0" using assms by simp
    then show ?thesis using reduced_pos [of "\<lparr>rat_num = - rat_num r, rat_den = - rat_den r\<rparr>"]
      by (simp add: reduce_flip rat_of_def)
  qed
  then show "rational_wf (reduce r)" "rat_of (reduce r) = rat_of r" by simp_all
qed

lemma wf_den: "rational_wf r \<Longrightarrow> rat_den r \<noteq> 0"
  by (simp add: rational_wf_def)

text \<open>The canonical form is unique, so the derived equality is equality of numbers.\<close>

lemma rat_of_inj:
  assumes "rational_wf a" "rational_wf b" "rat_of a = rat_of b"
  shows "a = b"
proof -
  have "Fract (rat_num a) (rat_den a) = Fract (rat_num b) (rat_den b)"
    using assms by (simp add: rat_of_def Fract_of_int_quotient)
  then have "quotient_of (Fract (rat_num a) (rat_den a)) = quotient_of (Fract (rat_num b) (rat_den b))" by simp
  then have "(rat_num a, rat_den a) = (rat_num b, rat_den b)"
    using assms by (simp add: quotient_of_Fract normalize_stable rational_wf_def)
  then show ?thesis by simp
qed

lemma floor_sdiv:
  assumes "0 < (d :: int)"
  shows "(if n smod d < 0 then n sdiv d - 1 else n sdiv d) = n div d"
proof (cases "0 \<le> n")
  case True
  then show ?thesis using assms
    by (auto simp: signed_divide_int_def signed_modulo_int_def sgn_if minus_div_mult_eq_mod
      dest: pos_mod_sign [THEN leD] split: if_splits)
next
  case False
  then have s: "n sdiv d = - ((- n) div d)" and m: "n smod d = - ((- n) mod d)"
    using assms by (simp_all add: signed_divide_int_def signed_modulo_int_def)
  have "n div d = (if n mod d = 0 then - ((- n) div d) else - ((- n) div d) - 1)"
    using zdiv_zminus1_eq_if [of d "- n"] assms
    by (auto simp: zmod_zminus1_eq_if) (metis assms less_irrefl pos_mod_bound)
  moreover have "(- n) mod d = 0 \<longleftrightarrow> n mod d = 0" by (simp flip: dvd_eq_mod_eq_0)
  moreover have "0 \<le> (- n) mod d" using assms by simp
  ultimately show ?thesis using s m by auto
qed

lemma ceiling_sdiv:
  assumes "0 < (d :: int)"
  shows "(if n smod d > 0 then n sdiv d + 1 else n sdiv d) = - ((- n) div d)"
proof -
  have "(- n) sdiv d = - (n sdiv d)" "(- n) smod d = - (n smod d)"
    by (simp_all add: signed_divide_int_def signed_modulo_int_def)
  then show ?thesis using floor_sdiv [OF assms, of "- n"] by auto
qed

lemma bigint_to_i128_id: "i128_min \<le> b \<Longrightarrow> b \<le> i128_max \<Longrightarrow> bigint_to_i128 b = b"
  by (simp add: bigint_to_i128_def)

lemma rational_floor_eq: "rational_wf r \<Longrightarrow> rational_floor r = bigint_to_i128 \<lfloor>rat_of r\<rfloor>"
  using floor_sdiv [of "rat_den r" "rat_num r"]
  by (auto simp: rational_floor_def Let_def rat_of_def rational_wf_def floor_divide_of_int_eq split: if_splits)

lemma rational_ceiling_eq: "rational_wf r \<Longrightarrow> rational_ceiling r = bigint_to_i128 \<lceil>rat_of r\<rceil>"
  using ceiling_sdiv [of "rat_den r" "rat_num r"]
  by (auto simp: rational_ceiling_def Let_def rat_of_def rational_wf_def ceiling_divide_eq_div split: if_splits)

lemma rational_cmp_eq:
  assumes "rational_wf a" "rational_wf b"
  shows "rational_cmp a b = cmp (rat_of a) (rat_of b)"
proof -
  have d: "0 < rat_den a" "0 < rat_den b" using assms by (simp_all add: rational_wf_def)
  have "rat_of a < rat_of b \<longleftrightarrow> (of_int (rat_num a * rat_den b) :: rat) < of_int (rat_num b * rat_den a)"
    using d by (simp add: rat_of_def divide_less_eq less_divide_eq field_simps)
  then have l: "rat_of a < rat_of b \<longleftrightarrow> rat_num a * rat_den b < rat_num b * rat_den a"
    by (simp only: of_int_less_iff)
  have "rat_of a = rat_of b \<longleftrightarrow> (of_int (rat_num a * rat_den b) :: rat) = of_int (rat_num b * rat_den a)"
    using d by (simp add: rat_of_def frac_eq_eq)
  then have e: "rat_of a = rat_of b \<longleftrightarrow> rat_num a * rat_den b = rat_num b * rat_den a"
    by (simp only: of_int_eq_iff)
  show ?thesis by (simp add: rational_cmp_def cmp_def l e)
qed

lemma rational_ops:
  assumes "rational_wf a" "rational_wf b"
  shows rational_add_eq: "\<exists>c. rational_add a b = Some c \<and> rational_wf c \<and> rat_of c = rat_of a + rat_of b"
    and rational_sub_eq: "\<exists>c. rational_sub a b = Some c \<and> rational_wf c \<and> rat_of c = rat_of a - rat_of b"
    and rational_mul_eq: "\<exists>c. rational_mul a b = Some c \<and> rational_wf c \<and> rat_of c = rat_of a * rat_of b"
  using wf_den [OF assms(1)] wf_den [OF assms(2)]
  by (simp_all add: rational_add_def rational_sub_def rational_mul_def reduce_wf rat_of_reduce,
      simp_all add: rat_of_def add_frac_eq diff_frac_eq)

lemma rational_div_eq:
  assumes "rational_wf a" "rational_wf b"
  shows "if rat_of b = 0 then rational_div a b = None
    else \<exists>c. rational_div a b = Some c \<and> rational_wf c \<and> rat_of c = rat_of a / rat_of b"
  using wf_den [OF assms(1)] wf_den [OF assms(2)]
  by (auto simp: rational_div_def reduce_wf rat_of_reduce, simp_all add: rat_of_def)

lemma Rational_new_eq:
  "if d = 0 then Rational_new n d = None
   else \<exists>c. Rational_new n d = Some c \<and> rational_wf c \<and> rat_of c = of_int n / of_int d"
  by (auto simp: Rational_new_def reduce_wf rat_of_reduce, simp add: rat_of_def)

lemma rational_constants:
  "rational_wf (from_integer n)" "rat_of (from_integer n) = of_int n"
  "rational_wf rational_zero" "rational_wf rational_one" "rat_of rational_zero = 0" "rat_of rational_one = 1"
  by (simp_all add: from_integer_def rational_zero_def rational_one_def rational_wf_def rat_of_def)

text \<open>
  The rational arithmetic of the ledger is exact. On reduced fractions addition, subtraction
  and multiplication always return the reduced fraction of the rational result, division fails
  exactly for the divisor zero, the comparison is the one of the rationals, two values are equal as
  structures exactly when they are equal as numbers, and floor and ceiling are the rounded numbers,
  clamped to 128 bits.
\<close>

theorem rational_arithmetic_exact:
  assumes "rational_wf a" "rational_wf b"
  shows "(\<exists>c. rational_add a b = Some c \<and> rational_wf c \<and> rat_of c = rat_of a + rat_of b) \<and>
    (\<exists>c. rational_sub a b = Some c \<and> rational_wf c \<and> rat_of c = rat_of a - rat_of b) \<and>
    (\<exists>c. rational_mul a b = Some c \<and> rational_wf c \<and> rat_of c = rat_of a * rat_of b) \<and>
    (if rat_of b = 0 then rational_div a b = None
     else \<exists>c. rational_div a b = Some c \<and> rational_wf c \<and> rat_of c = rat_of a / rat_of b) \<and>
    rational_cmp a b = cmp (rat_of a) (rat_of b) \<and> (rat_of a = rat_of b \<longleftrightarrow> a = b) \<and>
    rational_floor a = bigint_to_i128 \<lfloor>rat_of a\<rfloor> \<and> rational_ceiling a = bigint_to_i128 \<lceil>rat_of a\<rceil>"
  using rational_ops [OF assms] rational_div_eq [OF assms] rational_cmp_eq [OF assms]
    rat_of_inj [OF assms] rational_floor_eq [OF assms(1)] rational_ceiling_eq [OF assms(1)] by blast

theorem rational_arithmetic_exact_witness:
  "rational_add \<lparr>rat_num = 1, rat_den = 2\<rparr> \<lparr>rat_num = - 1, rat_den = 3\<rparr> = Some \<lparr>rat_num = 1, rat_den = 6\<rparr> \<and>
   rational_floor \<lparr>rat_num = - 1, rat_den = 3\<rparr> = - 1"
proof -
  let ?a = "\<lparr>rat_num = 1, rat_den = 2\<rparr>" and ?b = "\<lparr>rat_num = - 1, rat_den = 3\<rparr>" and ?c = "\<lparr>rat_num = 1, rat_den = 6\<rparr>"
  have wf: "rational_wf ?a" "rational_wf ?b" "rational_wf ?c" by (simp_all add: rational_wf_def)
  obtain c where c: "rational_add ?a ?b = Some c" "rational_wf c" "rat_of c = rat_of ?a + rat_of ?b"
    using rational_arithmetic_exact [OF wf(1,2)] by blast
  moreover have "rat_of ?a + rat_of ?b = rat_of ?c" by (simp add: rat_of_def)
  ultimately have "c = ?c" using rational_arithmetic_exact [OF c(2) wf(3)] by simp
  moreover have "rational_floor ?b = bigint_to_i128 \<lfloor>rat_of ?b\<rfloor>"
    using rational_arithmetic_exact [OF wf(2,1)] by blast
  moreover have "\<lfloor>rat_of ?b\<rfloor> = - 1" by (simp add: rat_of_def floor_eq_iff)
  ultimately show ?thesis using c(1) by (simp add: bigint_to_i128_def i128_min_def i128_max_def)
qed

end
