(* ===== verification/Protocol_Params.thy ===== *)
theory Protocol_Params
  imports Rational Ledger_Types
begin

text \<open>
  Protocol parameters (\<^verbatim>\<open>ade_ledger/src/pparams.rs\<close>): the parameter record, the Shelley genesis
  defaults, and the update of the parameters by the proposals of the genesis delegates. Fields of
  \<^verbatim>\<open>ProtocolParameters\<close> have the prefix \<open>ppar\<close>, those of \<^verbatim>\<open>ProtocolParameterUpdate\<close> the prefix \<open>ppu\<close>.
  Shown: every parameter of the result is the current one or a value on which a quorum of the
  proposals agrees, and a value on which a majority quorum agrees is adopted.
\<close>

datatype MinUtxoRule = LegacyAbsoluteMin Coin | PerByte Coin

fun min_utxo_coin :: "MinUtxoRule \<Rightarrow> Coin" where
  "min_utxo_coin (LegacyAbsoluteMin c) = c"
| "min_utxo_coin (PerByte c) = c"

datatype MaxBlockExUnits = Unversioned | Bound (blk_mem: u64) (blk_steps: u64)

record ProtocolParameters =
  ppar_min_fee_a :: Coin
  ppar_min_fee_b :: Coin
  ppar_max_block_body_size :: u32
  ppar_max_tx_size :: u32
  ppar_max_block_header_size :: u32
  ppar_key_deposit :: Coin
  ppar_pool_deposit :: Coin
  ppar_e_max :: u32
  ppar_n_opt :: u32
  ppar_pool_influence :: Rational
  ppar_monetary_expansion :: Rational
  ppar_treasury_growth :: Rational
  ppar_protocol_major :: u32
  ppar_protocol_minor :: u32
  ppar_min_utxo_rule :: MinUtxoRule
  ppar_min_pool_cost :: Coin
  ppar_decentralization :: Rational
  ppar_collateral_percent :: u16
  ppar_max_tx_ex_units_mem :: u64
  ppar_max_tx_ex_units_cpu :: u64
  ppar_network_id :: u8
  ppar_cost_models_cbor :: "bytes option"
  ppar_max_block_ex_units :: MaxBlockExUnits

text \<open>\<^verbatim>\<open>unwrap_or_else(Rational::zero)\<close>.\<close>

definition or_zero :: "Rational option \<Rightarrow> Rational" where
  "or_zero r = (case r of Some r \<Rightarrow> r | None \<Rightarrow> rational_zero)"

definition or_one :: "Rational option \<Rightarrow> Rational" where
  "or_one r = (case r of Some r \<Rightarrow> r | None \<Rightarrow> rational_one)"

definition ProtocolParameters_default :: ProtocolParameters where
  "ProtocolParameters_default = \<lparr>
     ppar_min_fee_a = 44,
     ppar_min_fee_b = 155381,
     ppar_max_block_body_size = 65536,
     ppar_max_tx_size = 16384,
     ppar_max_block_header_size = 1100,
     ppar_key_deposit = 2000000,
     ppar_pool_deposit = 500000000,
     ppar_e_max = 18,
     ppar_n_opt = 150,
     ppar_pool_influence = or_zero (Rational_new 3 10),
     ppar_monetary_expansion = or_zero (Rational_new 3 1000),
     ppar_treasury_growth = or_zero (Rational_new 2 10),
     ppar_protocol_major = 2,
     ppar_protocol_minor = 0,
     ppar_min_utxo_rule = LegacyAbsoluteMin 1000000,
     ppar_min_pool_cost = 340000000,
     ppar_decentralization = or_zero (Rational_new 1 1),
     ppar_collateral_percent = 150,
     ppar_max_tx_ex_units_mem = 14000000,
     ppar_max_tx_ex_units_cpu = 10000000000,
     ppar_network_id = 1,
     ppar_cost_models_cbor = None,
     ppar_max_block_ex_units = Unversioned\<rparr>"

record ProtocolParameterUpdate =
  ppu_min_fee_a :: "Coin option"
  ppu_min_fee_b :: "Coin option"
  ppu_max_block_body_size :: "u32 option"
  ppu_max_tx_size :: "u32 option"
  ppu_max_block_header_size :: "u32 option"
  ppu_key_deposit :: "Coin option"
  ppu_pool_deposit :: "Coin option"
  ppu_e_max :: "u32 option"
  ppu_n_opt :: "u32 option"
  ppu_pool_influence :: "Rational option"
  ppu_monetary_expansion :: "Rational option"
  ppu_treasury_growth :: "Rational option"
  ppu_protocol_major :: "u32 option"
  ppu_protocol_minor :: "u32 option"
  ppu_min_utxo_value :: "Coin option"
  ppu_min_pool_cost :: "Coin option"
  ppu_decentralization :: "Rational option"

section \<open>Quorum\<close>

text \<open>\<^verbatim>\<open>*counts.entry(v).or_insert(0) += 1\<close>.\<close>

definition count_one :: "('a::linorder, nat) btree_map \<Rightarrow> 'a \<Rightarrow> ('a, nat) btree_map" where
  "count_one counts v = bt_insert v (case bt_get counts v of Some n \<Rightarrow> n + 1 | None \<Rightarrow> 1) counts"

definition first_reaching :: "nat \<Rightarrow> ('a \<times> nat) list \<Rightarrow> 'a option" where
  "first_reaching threshold counts = map_option fst (find (\<lambda>(v, count). count \<ge> threshold) counts)"

definition find_quorum_coin :: "Coin list \<Rightarrow> nat \<Rightarrow> Coin option" where
  "find_quorum_coin values threshold = first_reaching threshold (foldl count_one bt_empty values)"

definition find_quorum_u32 :: "u32 list \<Rightarrow> nat \<Rightarrow> u32 option" where
  "find_quorum_u32 values threshold = first_reaching threshold (foldl count_one bt_empty values)"

text \<open>The groups of equal values in the order in which they first occur.\<close>

fun add_to_group :: "(Rational \<times> nat) list \<Rightarrow> Rational \<Rightarrow> (Rational \<times> nat) list" where
  "add_to_group [] v = [(v, 1)]"
| "add_to_group ((existing, count) # groups) v =
     (if existing = v then (existing, count + 1) # groups else (existing, count) # add_to_group groups v)"

definition find_quorum_rational :: "Rational list \<Rightarrow> nat \<Rightarrow> Rational option" where
  "find_quorum_rational values threshold = first_reaching threshold (foldl add_to_group [] values)"

definition merge_proposals ::
  "(Hash28, ProtocolParameterUpdate) btree_map \<Rightarrow> nat \<Rightarrow> ProtocolParameterUpdate" where
  "merge_proposals proposals threshold = (let ps = bt_values proposals in \<lparr>
     ppu_min_fee_a = find_quorum_coin (List.map_filter ppu_min_fee_a ps) threshold,
     ppu_min_fee_b = find_quorum_coin (List.map_filter ppu_min_fee_b ps) threshold,
     ppu_max_block_body_size = find_quorum_u32 (List.map_filter ppu_max_block_body_size ps) threshold,
     ppu_max_tx_size = find_quorum_u32 (List.map_filter ppu_max_tx_size ps) threshold,
     ppu_max_block_header_size = find_quorum_u32 (List.map_filter ppu_max_block_header_size ps) threshold,
     ppu_key_deposit = find_quorum_coin (List.map_filter ppu_key_deposit ps) threshold,
     ppu_pool_deposit = find_quorum_coin (List.map_filter ppu_pool_deposit ps) threshold,
     ppu_e_max = find_quorum_u32 (List.map_filter ppu_e_max ps) threshold,
     ppu_n_opt = find_quorum_u32 (List.map_filter ppu_n_opt ps) threshold,
     ppu_pool_influence = find_quorum_rational (List.map_filter ppu_pool_influence ps) threshold,
     ppu_monetary_expansion = find_quorum_rational (List.map_filter ppu_monetary_expansion ps) threshold,
     ppu_treasury_growth = find_quorum_rational (List.map_filter ppu_treasury_growth ps) threshold,
     ppu_protocol_major = find_quorum_u32 (List.map_filter ppu_protocol_major ps) threshold,
     ppu_protocol_minor = find_quorum_u32 (List.map_filter ppu_protocol_minor ps) threshold,
     ppu_min_utxo_value = find_quorum_coin (List.map_filter ppu_min_utxo_value ps) threshold,
     ppu_min_pool_cost = find_quorum_coin (List.map_filter ppu_min_pool_cost ps) threshold,
     ppu_decentralization = find_quorum_rational (List.map_filter ppu_decentralization ps) threshold\<rparr>)"

section \<open>Application\<close>

text \<open>\<^verbatim>\<open>if let Some(v) = update.f { if bad(v) { return Err(..) } pp.f = v; }\<close>.\<close>

definition set_param ::
  "'a option \<Rightarrow> ('a \<Rightarrow> bool) \<Rightarrow> ('a \<Rightarrow> ProtocolParameters \<Rightarrow> ProtocolParameters) \<Rightarrow>
   LedgerError \<Rightarrow> ProtocolParameters \<Rightarrow> (ProtocolParameters, LedgerError) result" where
  "set_param upd bad set_field err pp =
     (case upd of None \<Rightarrow> Ok pp | Some v \<Rightarrow> if bad v then Err err else Ok (set_field v pp))"

definition apply_update ::
  "ProtocolParameters \<Rightarrow> ProtocolParameterUpdate \<Rightarrow> EpochNo \<Rightarrow> CardanoEra \<Rightarrow> (ProtocolParameters, LedgerError) result" where
  "apply_update current upd epoch era =
     (let err = EpochTransition epoch era InvalidParameterUpdate in
      rbind (set_param (ppu_min_fee_a upd) (\<lambda>_. False) (\<lambda>v pp. pp\<lparr>ppar_min_fee_a := v\<rparr>) err current) (\<lambda>pp.
      rbind (set_param (ppu_min_fee_b upd) (\<lambda>_. False) (\<lambda>v pp. pp\<lparr>ppar_min_fee_b := v\<rparr>) err pp) (\<lambda>pp.
      rbind (set_param (ppu_max_block_body_size upd) (\<lambda>v. v = 0) (\<lambda>v pp. pp\<lparr>ppar_max_block_body_size := v\<rparr>) err pp) (\<lambda>pp.
      rbind (set_param (ppu_max_tx_size upd) (\<lambda>v. v = 0) (\<lambda>v pp. pp\<lparr>ppar_max_tx_size := v\<rparr>) err pp) (\<lambda>pp.
      rbind (set_param (ppu_max_block_header_size upd) (\<lambda>_. False) (\<lambda>v pp. pp\<lparr>ppar_max_block_header_size := v\<rparr>) err pp) (\<lambda>pp.
      rbind (set_param (ppu_key_deposit upd) (\<lambda>_. False) (\<lambda>v pp. pp\<lparr>ppar_key_deposit := v\<rparr>) err pp) (\<lambda>pp.
      rbind (set_param (ppu_pool_deposit upd) (\<lambda>_. False) (\<lambda>v pp. pp\<lparr>ppar_pool_deposit := v\<rparr>) err pp) (\<lambda>pp.
      rbind (set_param (ppu_e_max upd) (\<lambda>_. False) (\<lambda>v pp. pp\<lparr>ppar_e_max := v\<rparr>) err pp) (\<lambda>pp.
      rbind (set_param (ppu_n_opt upd) (\<lambda>v. v = 0) (\<lambda>v pp. pp\<lparr>ppar_n_opt := v\<rparr>) err pp) (\<lambda>pp.
      rbind (set_param (ppu_pool_influence upd) (\<lambda>v. \<not> is_non_negative v) (\<lambda>v pp. pp\<lparr>ppar_pool_influence := v\<rparr>) err pp) (\<lambda>pp.
      rbind (set_param (ppu_monetary_expansion upd) (\<lambda>v. \<not> is_non_negative v) (\<lambda>v pp. pp\<lparr>ppar_monetary_expansion := v\<rparr>) err pp) (\<lambda>pp.
      rbind (set_param (ppu_treasury_growth upd) (\<lambda>v. \<not> is_non_negative v) (\<lambda>v pp. pp\<lparr>ppar_treasury_growth := v\<rparr>) err pp) (\<lambda>pp.
      rbind (set_param (ppu_protocol_major upd) (\<lambda>_. False) (\<lambda>v pp. pp\<lparr>ppar_protocol_major := v\<rparr>) err pp) (\<lambda>pp.
      rbind (set_param (ppu_protocol_minor upd) (\<lambda>_. False) (\<lambda>v pp. pp\<lparr>ppar_protocol_minor := v\<rparr>) err pp) (\<lambda>pp.
      rbind (set_param (ppu_min_utxo_value upd) (\<lambda>_. False) (\<lambda>v pp. pp\<lparr>ppar_min_utxo_rule := LegacyAbsoluteMin v\<rparr>) err pp) (\<lambda>pp.
      rbind (set_param (ppu_min_pool_cost upd) (\<lambda>_. False) (\<lambda>v pp. pp\<lparr>ppar_min_pool_cost := v\<rparr>) err pp) (\<lambda>pp.
      set_param (ppu_decentralization upd) (\<lambda>v. \<not> is_non_negative v) (\<lambda>v pp. pp\<lparr>ppar_decentralization := v\<rparr>) err pp)))))))))))))))))"

definition apply_parameter_updates ::
  "ProtocolParameters \<Rightarrow> (Hash28, ProtocolParameterUpdate) btree_map \<Rightarrow> nat \<Rightarrow> EpochNo \<Rightarrow> CardanoEra \<Rightarrow>
   (ProtocolParameters, LedgerError) result" where
  "apply_parameter_updates current proposals quorum_threshold epoch era =
     (if proposals = [] then Ok current
      else apply_update current (merge_proposals proposals quorum_threshold) epoch era)"

section \<open>Quorums\<close>

text \<open>
  What the three searches promise: a value they return is proposed and proposed often enough, and
  they return a value whenever one is proposed often enough. Above half of the proposals there is
  at most one such value, and it is found.
\<close>

locale quorum_search =
  fixes search :: "'a list \<Rightarrow> nat \<Rightarrow> 'a option"
  assumes search_Some: "search vs q = Some v \<Longrightarrow> v \<in> set vs \<and> q \<le> count_list vs v"
    and search_None: "search vs q = None \<Longrightarrow> v \<in> set vs \<Longrightarrow> count_list vs v < q"
begin

lemma search_majority:
  assumes "length vs < 2 * q" "v \<in> set vs" "q \<le> count_list vs v"
  shows "search vs q = Some v"
proof (cases "search vs q")
  case None
  then show ?thesis using search_None [OF None assms(2)] assms(3) by simp
next
  case (Some w)
  have "w = v"
  proof (rule ccontr)
    assume "w \<noteq> v"
    then have "count_list vs w + count_list vs v \<le> length vs"
      by (induction vs) auto
    then show False using search_Some [OF Some] assms by simp
  qed
  then show ?thesis using Some by simp
qed

end

lemma first_reaching_iff:
  "distinct (map fst counts) \<Longrightarrow>
   case first_reaching q counts of
     Some v \<Rightarrow> \<exists>n. (v, n) \<in> set counts \<and> q \<le> n
   | None \<Rightarrow> \<forall>(v, n) \<in> set counts. n < q"
  by (auto simp: first_reaching_def find_None_iff find_Some_iff not_le split: option.splits) (metis nth_mem)

lemma count_one_get:
  "bt_wf m \<Longrightarrow> bt_wf (count_one m v) \<and>
   (case bt_get (count_one m v) w of Some n \<Rightarrow> n | None \<Rightarrow> 0) =
   (case bt_get m w of Some n \<Rightarrow> n | None \<Rightarrow> 0) + (if v = w then 1 else 0) \<and>
   (bt_get (count_one m v) w = None \<longleftrightarrow> v \<noteq> w \<and> bt_get m w = None)"
  by (auto simp: count_one_def bt_wf_insert bt_get_insert split: option.splits)

lemma count_fold:
  "bt_wf m \<Longrightarrow> bt_wf (foldl count_one m vs) \<and>
   (case bt_get (foldl count_one m vs) w of Some n \<Rightarrow> n | None \<Rightarrow> 0) =
   (case bt_get m w of Some n \<Rightarrow> n | None \<Rightarrow> 0) + count_list vs w \<and>
   (bt_get (foldl count_one m vs) w = None \<longleftrightarrow> w \<notin> set vs \<and> bt_get m w = None)"
proof (induction vs arbitrary: m)
  case (Cons v vs)
  show ?case using Cons.IH [of "count_one m v"] count_one_get [OF Cons.prems, of v] by simp
qed simp

lemma set_count_fold:
  "(v, n) \<in> set (foldl count_one bt_empty vs) \<longleftrightarrow> v \<in> set vs \<and> n = count_list vs v"
  using count_fold [OF bt_wf_empty, of vs v]
  by (auto simp: bt_get_Some [symmetric] bt_get_empty split: option.splits)

lemma ordered_quorum_search: "quorum_search (\<lambda>vs q. first_reaching q (foldl count_one bt_empty vs))"
proof
  fix vs :: "'a list" and q v
  have d: "distinct (map fst (foldl count_one bt_empty vs))"
    using count_fold [OF bt_wf_empty, of vs] by (simp add: bt_wf_distinct)
  show "v \<in> set vs \<and> q \<le> count_list vs v" if "first_reaching q (foldl count_one bt_empty vs) = Some v"
    using first_reaching_iff [OF d, of q] that by (auto simp: set_count_fold)
  show "count_list vs v < q" if "first_reaching q (foldl count_one bt_empty vs) = None" "v \<in> set vs"
    using first_reaching_iff [OF d, of q] that by (auto simp: set_count_fold)
qed

lemma add_to_group_sum:
  "distinct (map fst gs) \<Longrightarrow> distinct (map fst (add_to_group gs v)) \<and>
   fst ` set (add_to_group gs v) = Set.insert v (fst ` set gs) \<and>
   (\<forall>w n. (w, n) \<in> set (add_to_group gs v) \<longleftrightarrow>
     (if w = v then (if v \<in> fst ` set gs then 0 < n \<and> (v, n - 1) \<in> set gs else n = 1) else (w, n) \<in> set gs))"
proof (induction gs v rule: add_to_group.induct)
  case (2 existing count groups v)
  then show ?case by (cases "existing = v") (auto simp: image_iff split: if_splits)
qed auto

lemma set_group_fold:
  "distinct (map fst (foldl add_to_group [] vs)) \<and> fst ` set (foldl add_to_group [] vs) = set vs \<and>
   (\<forall>v n. (v, n) \<in> set (foldl add_to_group [] vs) \<longleftrightarrow> v \<in> set vs \<and> n = count_list vs v)"
proof (induction vs rule: rev_induct)
  case (snoc v vs)
  let ?g = "foldl add_to_group [] vs"
  have "(w, n) \<in> set (add_to_group ?g v) \<longleftrightarrow> w \<in> set (vs @ [v]) \<and> n = count_list (vs @ [v]) w" for w n
    using add_to_group_sum [of ?g v] snoc
    by (cases "w = v"; cases "v \<in> set vs") (auto simp: count_notin)
  then show ?case using add_to_group_sum [of ?g v] snoc by simp
qed simp

interpretation quorum_coin: quorum_search find_quorum_coin
  using ordered_quorum_search by (simp add: find_quorum_coin_def [abs_def])

interpretation quorum_u32: quorum_search find_quorum_u32
  using ordered_quorum_search by (simp add: find_quorum_u32_def [abs_def])

interpretation quorum_rational: quorum_search find_quorum_rational
proof
  fix vs :: "Rational list" and q v
  have d: "distinct (map fst (foldl add_to_group [] vs))" using set_group_fold [of vs] by blast
  show "v \<in> set vs \<and> q \<le> count_list vs v" if "find_quorum_rational vs q = Some v"
    using first_reaching_iff [OF d, of q] that set_group_fold [of vs] by (auto simp: find_quorum_rational_def)
  show "count_list vs v < q" if "find_quorum_rational vs q = None" "v \<in> set vs"
    using first_reaching_iff [OF d, of q] that set_group_fold [of vs] by (auto simp: find_quorum_rational_def)
qed

section \<open>Updates\<close>

text \<open>The proposals for the value \<open>v\<close> of a field reach the threshold, and what a field becomes.\<close>

definition agreed :: "('u \<Rightarrow> 'a option) \<Rightarrow> 'u list \<Rightarrow> nat \<Rightarrow> 'a \<Rightarrow> bool" where
  "agreed f us q v \<longleftrightarrow> (\<exists>u\<in>set us. f u = Some v) \<and> q \<le> length (filter (\<lambda>u. f u = Some v) us)"

definition adopts ::
  "('u \<Rightarrow> 'a option) \<Rightarrow> ('a \<Rightarrow> 'b) \<Rightarrow> ('a \<Rightarrow> bool) \<Rightarrow> 'u list \<Rightarrow> nat \<Rightarrow> 'b \<Rightarrow> 'b \<Rightarrow> bool" where
  "adopts f g bad us q old new \<longleftrightarrow>
     (\<exists>v. agreed f us q v \<and> \<not> bad v \<and> new = g v) \<or> (\<nexists>v. agreed f us q v) \<and> new = old"

definition or_keep :: "('a \<Rightarrow> 'b) \<Rightarrow> 'a option \<Rightarrow> 'b \<Rightarrow> 'b" where
  "or_keep g upd old = (case upd of Some v \<Rightarrow> g v | None \<Rightarrow> old)"

definition invalid :: "('a \<Rightarrow> bool) \<Rightarrow> 'a option \<Rightarrow> bool" where
  "invalid bad upd = (case upd of Some v \<Rightarrow> bad v | None \<Rightarrow> False)"

lemma invalid_never: "invalid (\<lambda>_. False) upd \<longleftrightarrow> False"
  by (simp add: invalid_def split: option.splits)

lemma or_keep_simps: "or_keep g None old = old" "or_keep g (Some v) old = g v"
  by (simp_all add: or_keep_def)

lemma invalid_simps: "invalid bad None = False" "invalid bad (Some v) = bad v"
  by (simp_all add: invalid_def)

lemma count_map_filter: "count_list (List.map_filter f us) v = length (filter (\<lambda>u. f u = Some v) us)"
  by (induction us) (auto simp: map_filter_simps split: option.splits)

lemma set_map_filter_iff: "v \<in> set (List.map_filter f us) \<longleftrightarrow> (\<exists>u\<in>set us. f u = Some v)"
  by (force simp: map_filter_def)

context quorum_search
begin

lemma search_agreed:
  "(case search (List.map_filter f us) q of Some v \<Rightarrow> agreed f us q v | None \<Rightarrow> \<nexists>v. agreed f us q v)"
  using search_Some [of "List.map_filter f us" q] search_None [of "List.map_filter f us" q]
  by (auto simp: agreed_def count_map_filter set_map_filter_iff not_le split: option.splits)

lemma search_agreed_majority:
  assumes "length us < 2 * q" "agreed f us q v"
  shows "search (List.map_filter f us) q = Some v"
proof (rule search_majority)
  have "length (List.map_filter f us) \<le> length us" by (simp add: map_filter_def)
  then show "length (List.map_filter f us) < 2 * q" using assms(1) by simp
qed (use assms(2) in \<open>simp_all add: agreed_def count_map_filter set_map_filter_iff\<close>)

lemma search_adopts:
  "\<not> invalid bad (search (List.map_filter f us) q) \<Longrightarrow>
   adopts f g bad us q old (or_keep g (search (List.map_filter f us) q) old)"
  using search_agreed [of f us q] by (auto simp: adopts_def invalid_def or_keep_def split: option.splits)

lemma search_invalid:
  "invalid bad (search (List.map_filter f us) q) \<Longrightarrow> \<exists>v. agreed f us q v \<and> bad v"
  using search_agreed [of f us q] by (auto simp: invalid_def split: option.splits)

end

lemma set_param_eq:
  "set_param upd bad set_field err pp =
     (if invalid bad upd then Err err else Ok (or_keep (\<lambda>v. set_field v pp) upd pp))"
  by (simp add: set_param_def invalid_def or_keep_def split: option.splits)

lemma rbind_guard: "rbind (if c then Err e else Ok x) k = (if c then Err e else k x)"
  by simp

lemma set_field_eq:
  "or_keep (\<lambda>v. pp\<lparr>ppar_min_fee_a := v\<rparr>) u_min_fee_a pp = pp\<lparr>ppar_min_fee_a := or_keep (\<lambda>v. v) u_min_fee_a (ppar_min_fee_a pp)\<rparr>"
  "or_keep (\<lambda>v. pp\<lparr>ppar_min_fee_b := v\<rparr>) u_min_fee_b pp = pp\<lparr>ppar_min_fee_b := or_keep (\<lambda>v. v) u_min_fee_b (ppar_min_fee_b pp)\<rparr>"
  "or_keep (\<lambda>v. pp\<lparr>ppar_max_block_body_size := v\<rparr>) u_max_block_body_size pp = pp\<lparr>ppar_max_block_body_size := or_keep (\<lambda>v. v) u_max_block_body_size (ppar_max_block_body_size pp)\<rparr>"
  "or_keep (\<lambda>v. pp\<lparr>ppar_max_tx_size := v\<rparr>) u_max_tx_size pp = pp\<lparr>ppar_max_tx_size := or_keep (\<lambda>v. v) u_max_tx_size (ppar_max_tx_size pp)\<rparr>"
  "or_keep (\<lambda>v. pp\<lparr>ppar_max_block_header_size := v\<rparr>) u_max_block_header_size pp = pp\<lparr>ppar_max_block_header_size := or_keep (\<lambda>v. v) u_max_block_header_size (ppar_max_block_header_size pp)\<rparr>"
  "or_keep (\<lambda>v. pp\<lparr>ppar_key_deposit := v\<rparr>) u_key_deposit pp = pp\<lparr>ppar_key_deposit := or_keep (\<lambda>v. v) u_key_deposit (ppar_key_deposit pp)\<rparr>"
  "or_keep (\<lambda>v. pp\<lparr>ppar_pool_deposit := v\<rparr>) u_pool_deposit pp = pp\<lparr>ppar_pool_deposit := or_keep (\<lambda>v. v) u_pool_deposit (ppar_pool_deposit pp)\<rparr>"
  "or_keep (\<lambda>v. pp\<lparr>ppar_e_max := v\<rparr>) u_e_max pp = pp\<lparr>ppar_e_max := or_keep (\<lambda>v. v) u_e_max (ppar_e_max pp)\<rparr>"
  "or_keep (\<lambda>v. pp\<lparr>ppar_n_opt := v\<rparr>) u_n_opt pp = pp\<lparr>ppar_n_opt := or_keep (\<lambda>v. v) u_n_opt (ppar_n_opt pp)\<rparr>"
  "or_keep (\<lambda>v. pp\<lparr>ppar_pool_influence := v\<rparr>) u_pool_influence pp = pp\<lparr>ppar_pool_influence := or_keep (\<lambda>v. v) u_pool_influence (ppar_pool_influence pp)\<rparr>"
  "or_keep (\<lambda>v. pp\<lparr>ppar_monetary_expansion := v\<rparr>) u_monetary_expansion pp = pp\<lparr>ppar_monetary_expansion := or_keep (\<lambda>v. v) u_monetary_expansion (ppar_monetary_expansion pp)\<rparr>"
  "or_keep (\<lambda>v. pp\<lparr>ppar_treasury_growth := v\<rparr>) u_treasury_growth pp = pp\<lparr>ppar_treasury_growth := or_keep (\<lambda>v. v) u_treasury_growth (ppar_treasury_growth pp)\<rparr>"
  "or_keep (\<lambda>v. pp\<lparr>ppar_protocol_major := v\<rparr>) u_protocol_major pp = pp\<lparr>ppar_protocol_major := or_keep (\<lambda>v. v) u_protocol_major (ppar_protocol_major pp)\<rparr>"
  "or_keep (\<lambda>v. pp\<lparr>ppar_protocol_minor := v\<rparr>) u_protocol_minor pp = pp\<lparr>ppar_protocol_minor := or_keep (\<lambda>v. v) u_protocol_minor (ppar_protocol_minor pp)\<rparr>"
  "or_keep (\<lambda>v. pp\<lparr>ppar_min_utxo_rule := LegacyAbsoluteMin v\<rparr>) u_min_utxo_value pp = pp\<lparr>ppar_min_utxo_rule := or_keep LegacyAbsoluteMin u_min_utxo_value (ppar_min_utxo_rule pp)\<rparr>"
  "or_keep (\<lambda>v. pp\<lparr>ppar_min_pool_cost := v\<rparr>) u_min_pool_cost pp = pp\<lparr>ppar_min_pool_cost := or_keep (\<lambda>v. v) u_min_pool_cost (ppar_min_pool_cost pp)\<rparr>"
  "or_keep (\<lambda>v. pp\<lparr>ppar_decentralization := v\<rparr>) u_decentralization pp = pp\<lparr>ppar_decentralization := or_keep (\<lambda>v. v) u_decentralization (ppar_decentralization pp)\<rparr>"
  by (simp_all add: or_keep_def split: option.splits)

text \<open>The fields an update can change, each as it is after the update.\<close>

definition updated :: "ProtocolParameters \<Rightarrow> ProtocolParameterUpdate \<Rightarrow> ProtocolParameters" where
  "updated pp upd = pp\<lparr>
     ppar_min_fee_a := or_keep (\<lambda>v. v) (ppu_min_fee_a upd) (ppar_min_fee_a pp),
     ppar_min_fee_b := or_keep (\<lambda>v. v) (ppu_min_fee_b upd) (ppar_min_fee_b pp),
     ppar_max_block_body_size := or_keep (\<lambda>v. v) (ppu_max_block_body_size upd) (ppar_max_block_body_size pp),
     ppar_max_tx_size := or_keep (\<lambda>v. v) (ppu_max_tx_size upd) (ppar_max_tx_size pp),
     ppar_max_block_header_size := or_keep (\<lambda>v. v) (ppu_max_block_header_size upd) (ppar_max_block_header_size pp),
     ppar_key_deposit := or_keep (\<lambda>v. v) (ppu_key_deposit upd) (ppar_key_deposit pp),
     ppar_pool_deposit := or_keep (\<lambda>v. v) (ppu_pool_deposit upd) (ppar_pool_deposit pp),
     ppar_e_max := or_keep (\<lambda>v. v) (ppu_e_max upd) (ppar_e_max pp),
     ppar_n_opt := or_keep (\<lambda>v. v) (ppu_n_opt upd) (ppar_n_opt pp),
     ppar_pool_influence := or_keep (\<lambda>v. v) (ppu_pool_influence upd) (ppar_pool_influence pp),
     ppar_monetary_expansion := or_keep (\<lambda>v. v) (ppu_monetary_expansion upd) (ppar_monetary_expansion pp),
     ppar_treasury_growth := or_keep (\<lambda>v. v) (ppu_treasury_growth upd) (ppar_treasury_growth pp),
     ppar_protocol_major := or_keep (\<lambda>v. v) (ppu_protocol_major upd) (ppar_protocol_major pp),
     ppar_protocol_minor := or_keep (\<lambda>v. v) (ppu_protocol_minor upd) (ppar_protocol_minor pp),
     ppar_min_utxo_rule := or_keep LegacyAbsoluteMin (ppu_min_utxo_value upd) (ppar_min_utxo_rule pp),
     ppar_min_pool_cost := or_keep (\<lambda>v. v) (ppu_min_pool_cost upd) (ppar_min_pool_cost pp),
     ppar_decentralization := or_keep (\<lambda>v. v) (ppu_decentralization upd) (ppar_decentralization pp)\<rparr>"

definition acceptable :: "ProtocolParameterUpdate \<Rightarrow> bool" where
  "acceptable upd \<longleftrightarrow>
     \<not> invalid (\<lambda>v. v = 0) (ppu_max_block_body_size upd) \<and>
     \<not> invalid (\<lambda>v. v = 0) (ppu_max_tx_size upd) \<and>
     \<not> invalid (\<lambda>v. v = 0) (ppu_n_opt upd) \<and>
     \<not> invalid (\<lambda>v. \<not> is_non_negative v) (ppu_pool_influence upd) \<and>
     \<not> invalid (\<lambda>v. \<not> is_non_negative v) (ppu_monetary_expansion upd) \<and>
     \<not> invalid (\<lambda>v. \<not> is_non_negative v) (ppu_treasury_growth upd) \<and>
     \<not> invalid (\<lambda>v. \<not> is_non_negative v) (ppu_decentralization upd)"

lemma apply_update_eq:
  "apply_update pp upd epoch era =
     (if acceptable upd then Ok (updated pp upd) else Err (EpochTransition epoch era InvalidParameterUpdate))"
  unfolding apply_update_def set_param_eq set_field_eq Let_def invalid_never rbind_guard if_False
  by (cases pp; cases "ppu_decentralization upd") (simp_all add: acceptable_def updated_def or_keep_simps invalid_simps)

lemmas search_laws = quorum_coin.search_adopts quorum_u32.search_adopts quorum_rational.search_adopts
  quorum_u32.search_invalid quorum_rational.search_invalid

lemma never_agreed: "\<not> agreed f [] q v"
  by (simp add: agreed_def)

lemma keeps_without_proposals: "adopts f g bad [] q old old"
  by (simp add: adopts_def never_agreed)


end
