(* ===== verification/Gov_Update.thy ===== *)
theory Gov_Update
  imports Protocol_Params Cbor_Skip
begin

text \<open>
  Parameter updates of governance actions (\<^verbatim>\<open>ade_ledger/src/governance.rs\<close>): the bound on length and
  nesting that an update must meet before it is decoded, and the decoder for the supported
  parameters. The explicit stack of open containers is a list with the innermost container first.
\<close>

section \<open>The bound on an update\<close>

definition MAX_LEN :: nat where "MAX_LEN = 4096"
definition MAX_DEPTH :: nat where "MAX_DEPTH = 16"

text \<open>An emptied container takes one slot of its parent.\<close>

function propagate :: "u64 list \<Rightarrow> u64 list" where
  "propagate [] = []"
| "propagate [items] = (if items = 0 then [] else [items])"
| "propagate (items # parent # stack) = (if items = 0 then propagate ((parent - 1) # stack) else items # parent # stack)"
  by pat_completeness auto
termination by (relation "measure length") simp_all

text \<open>The argument of a head: its additional information and the bytes behind the initial byte.\<close>

definition head_argument :: "bytes \<Rightarrow> usize \<Rightarrow> u8 \<Rightarrow> (u64 \<times> usize) option" where
  "head_argument upd p ai =
     (if ai \<le> 23 then Some (ucast ai, p)
      else if ai = 24 then (if p \<ge> length upd then None else Some (ucast (upd ! p), p + 1))
      else if ai = 25 then (if p + 2 > length upd then None else Some (word_of_nat (be_nat (take 2 (drop p upd))), p + 2))
      else if ai = 26 then (if p + 4 > length upd then None else Some (word_of_nat (be_nat (take 4 (drop p upd))), p + 4))
      else if ai = 27 then (if p + 8 > length upd then None else Some (word_of_nat (be_nat (take 8 (drop p upd))), p + 8))
      else None)"

definition use_slot :: "u64 list \<Rightarrow> u64 list" where
  "use_slot stack = (case stack of [] \<Rightarrow> [] | items # stack \<Rightarrow> (items - 1) # stack)"

definition open_level :: "u64 \<Rightarrow> u64 list \<Rightarrow> u64 list option" where
  "open_level items stack = (if length stack \<ge> MAX_DEPTH then None else Some (items # stack))"

text \<open>One item head behind the initial byte: the new offset and stack, or nothing when the update is refused.\<close>

definition bounds_item :: "bytes \<Rightarrow> usize \<Rightarrow> u64 list \<Rightarrow> (usize \<times> u64 list) option" where
  "bounds_item upd p stack =
     (if p \<ge> length upd then None
      else let ib = upd ! p; major = drop_bit 5 ib; ai = ib AND 0x1f in
        case head_argument upd (p + 1) ai of
          None \<Rightarrow> None
        | Some (arg, q) \<Rightarrow>
            if major = 0 \<or> major = 1 then Some (q, use_slot stack)
            else if major = 2 \<or> major = 3
            then (if q + unat arg > length upd then None else Some (q + unat arg, use_slot stack))
            else if major = 4 then map_option (Pair q) (open_level arg stack)
            else if major = 5
            then (case checked_mul arg 2 of None \<Rightarrow> None | Some items \<Rightarrow> map_option (Pair q) (open_level items stack))
            else if major = 6 then map_option (Pair q) (open_level 1 stack)
            else Some (q, use_slot stack))"

lemma head_argument_mono: "head_argument upd p ai = Some (arg, q) \<Longrightarrow> p \<le> q"
  by (auto simp: head_argument_def split: if_splits)

lemma bounds_item_advances: "bounds_item upd p stack = Some (q, s) \<Longrightarrow> p < q \<and> p < length upd"
  by (auto simp: bounds_item_def Let_def dest!: head_argument_mono split: if_splits option.splits)

text \<open>Each turn consumes a byte, so the loop ends.\<close>

function bounds_walk :: "bytes \<Rightarrow> usize \<Rightarrow> u64 list \<Rightarrow> bool" where
  "bounds_walk upd p stack =
     (let stack = propagate stack in
      if stack = [] then p = length upd
      else case bounds_item upd p stack of
             None \<Rightarrow> False
           | Some (q, stack) \<Rightarrow> bounds_walk upd q stack)"
  by pat_completeness auto
termination
  by (relation "measure (\<lambda>(upd, p, stack). length upd - p)") (auto dest!: bounds_item_advances)

declare bounds_walk.simps [simp del]

definition enactable_update_within_bounds :: "bytes \<Rightarrow> bool" where
  "enactable_update_within_bounds upd \<longleftrightarrow>
     \<not> (upd = [] \<or> length upd > MAX_LEN) \<and> bounds_walk upd 0 [1]"

section \<open>Decoding\<close>

record ExUnits =
  exu_mem :: u64
  exu_steps :: u64

text \<open>\<^verbatim>\<open>CanonicalFieldSet\<close>, a \<^verbatim>\<open>BTreeSet\<close> of keys, is the increasing list of the keys.\<close>

type_synonym CanonicalFieldSet = "u64 list"

record EnactableParamUpdate =
  epu_max_tx_ex_units :: "ExUnits option"
  epu_max_block_ex_units :: "ExUnits option"
  epu_min_pool_cost :: "u64 option"
  epu_unsupported_fields :: CanonicalFieldSet

datatype EnactableUpdateError =
    Malformed
  | DuplicateKey u64
  | MalformedExUnits u64
  | MalformedCoin u64

definition PPU_KEY_MAX_TX_EX_UNITS :: u64 where "PPU_KEY_MAX_TX_EX_UNITS = 20"
definition PPU_KEY_MAX_BLOCK_EX_UNITS :: u64 where "PPU_KEY_MAX_BLOCK_EX_UNITS = 21"
definition PPU_KEY_MIN_POOL_COST :: u64 where "PPU_KEY_MIN_POOL_COST = 16"

definition ppu_key_name :: "u64 \<Rightarrow> string option" where
  "ppu_key_name key =
     (if key = PPU_KEY_MIN_POOL_COST then Some ''minPoolCost''
      else if key = PPU_KEY_MAX_TX_EX_UNITS then Some ''maxTxExUnits''
      else if key = PPU_KEY_MAX_BLOCK_EX_UNITS then Some ''maxBlockExUnits''
      else None)"

definition read_ex_units_value :: "bytes \<Rightarrow> usize \<Rightarrow> u64 \<Rightarrow> (ExUnits \<times> usize, EnactableUpdateError) result" where
  "read_ex_units_value d p key =
     (case read_array_header d p of
        Ok (Definite n w, p) \<Rightarrow>
          if n \<noteq> 2 then Err (MalformedExUnits key)
          else rbind (map_err (\<lambda>_. MalformedExUnits key) (read_uint d p)) (\<lambda>((mem, _), p).
               rbind (map_err (\<lambda>_. MalformedExUnits key) (read_uint d p)) (\<lambda>((steps, _), p).
               Ok (\<lparr>exu_mem = mem, exu_steps = steps\<rparr>, p)))
      | _ \<Rightarrow> Err (MalformedExUnits key))"

definition param_update_entry ::
  "bytes \<Rightarrow> usize \<Rightarrow> EnactableParamUpdate \<Rightarrow> (EnactableParamUpdate \<times> usize, EnactableUpdateError) result" where
  "param_update_entry upd p acc =
     rbind (map_err (\<lambda>_. Malformed) (read_uint upd p)) (\<lambda>((key, _), p).
     if key = PPU_KEY_MIN_POOL_COST
     then if epu_min_pool_cost acc \<noteq> None then Err (DuplicateKey key)
          else rbind (map_err (\<lambda>_. MalformedCoin key) (read_uint upd p)) (\<lambda>((v, _), p).
               Ok (acc\<lparr>epu_min_pool_cost := Some v\<rparr>, p))
     else if key = PPU_KEY_MAX_TX_EX_UNITS
     then if epu_max_tx_ex_units acc \<noteq> None then Err (DuplicateKey key)
          else rbind (read_ex_units_value upd p key) (\<lambda>(u, p). Ok (acc\<lparr>epu_max_tx_ex_units := Some u\<rparr>, p))
     else if key = PPU_KEY_MAX_BLOCK_EX_UNITS
     then if epu_max_block_ex_units acc \<noteq> None then Err (DuplicateKey key)
          else rbind (read_ex_units_value upd p key) (\<lambda>(u, p). Ok (acc\<lparr>epu_max_block_ex_units := Some u\<rparr>, p))
     else rbind (map_err (\<lambda>_. Malformed) (skip_item upd p)) (\<lambda>(_, p).
          Ok (acc\<lparr>epu_unsupported_fields := insort_insert key (epu_unsupported_fields acc)\<rparr>, p)))"

text \<open>\<^verbatim>\<open>for _ in 0..n\<close>: an entry takes at least a byte, so a count past the length of the update fails.\<close>

fun param_update_entries ::
  "nat \<Rightarrow> bytes \<Rightarrow> usize \<Rightarrow> EnactableParamUpdate \<Rightarrow> (EnactableParamUpdate \<times> usize, EnactableUpdateError) result" where
  "param_update_entries 0 upd p acc = Ok (acc, p)"
| "param_update_entries (Suc n) upd p acc =
     rbind (param_update_entry upd p acc) (\<lambda>(acc, p). param_update_entries n upd p acc)"

definition decode_enactable_param_update :: "bytes \<Rightarrow> (EnactableParamUpdate, EnactableUpdateError) result" where
  "decode_enactable_param_update upd =
     rbind (map_err (\<lambda>_. Malformed) (read_map_header upd 0)) (\<lambda>(enc, p).
     case enc of
       Indefinite \<Rightarrow> Err Malformed
     | Definite n _ \<Rightarrow>
         rbind (param_update_entries (unat n) upd p
                  \<lparr>epu_max_tx_ex_units = None, epu_max_block_ex_units = None, epu_min_pool_cost = None,
                   epu_unsupported_fields = []\<rparr>) (\<lambda>(acc, p).
         if p \<noteq> length upd then Err Malformed else Ok acc))"

text \<open>The supplied memory limits and the pool cost overwrite the current ones.\<close>

definition build_enacted_pparams :: "ProtocolParameters \<Rightarrow> EnactableParamUpdate \<Rightarrow> ProtocolParameters" where
  "build_enacted_pparams current decoded =
     (let pp = (case epu_max_tx_ex_units decoded of
                  Some tx \<Rightarrow> current\<lparr>ppar_max_tx_ex_units_mem := exu_mem tx\<rparr> | None \<Rightarrow> current);
          pp = (case epu_max_block_ex_units decoded of
                  Some blk \<Rightarrow> pp\<lparr>ppar_max_block_ex_units := Bound (exu_mem blk) (exu_steps blk)\<rparr> | None \<Rightarrow> pp)
      in case epu_min_pool_cost decoded of
           Some c \<Rightarrow> pp\<lparr>ppar_min_pool_cost := c\<rparr> | None \<Rightarrow> pp)"

end
