(* ===== verification/Governance.thy ===== *)
theory Governance
  imports Gov_Update Conway_Cert
begin

text \<open>
  Conway governance (\<^verbatim>\<open>ade_ledger/src/governance.rs\<close> and the types of
  \<^verbatim>\<open>ade_types/src/conway/governance.rs\<close>): the check of a proposal against its thresholds, the
  decision what is enacted and what expires, and the application of a decision to the proposals
  with the routing of their deposits. Sets of action identifiers (\<^verbatim>\<open>BTreeSet\<close>) are increasing lists.
  Proposals have the prefix \<open>gas\<close>, the input of the decision the prefix \<open>gi\<close>.
\<close>

section \<open>Proposals\<close>

datatype GovActionId = GovActionId (ga_tx_hash: Hash32) (ga_index: u32)

instantiation GovActionId :: linorder
begin

definition less_eq_GovActionId :: "GovActionId \<Rightarrow> GovActionId \<Rightarrow> bool" where
  "less_eq_GovActionId a b \<longleftrightarrow> (ga_tx_hash a, ga_index a) \<le> (ga_tx_hash b, ga_index b)"

definition less_GovActionId :: "GovActionId \<Rightarrow> GovActionId \<Rightarrow> bool" where
  "less_GovActionId a b \<longleftrightarrow> (ga_tx_hash a, ga_index a) < (ga_tx_hash b, ga_index b)"

instance
proof
  show "x = y" if "x \<le> y" "y \<le> x" for x y :: GovActionId
    using that unfolding less_eq_GovActionId_def by (metis GovActionId.expand order.antisym prod.inject)
qed (auto simp: less_eq_GovActionId_def less_GovActionId_def)

end

datatype Vote = No | Yes | Abstain

datatype GovAction =
    ParameterChange "GovActionId option" bytes "Hash28 option"
  | HardForkInitiation "GovActionId option" "u64 \<times> u64"
  | TreasuryWithdrawals "(bytes \<times> Coin) list" "Hash28 option"
  | NoConfidence "GovActionId option"
  | UpdateCommittee "GovActionId option" "StakeCredential list" "(StakeCredential, u64) btree_map" "u64 \<times> u64"
  | NewConstitution "GovActionId option" bytes
  | InfoAction

record GovActionState =
  gas_action_id :: GovActionId
  gas_committee_votes :: "(StakeCredential \<times> Vote) list"
  gas_drep_votes :: "(StakeCredential \<times> Vote) list"
  gas_spo_votes :: "(Hash28 \<times> Vote) list"
  gas_deposit :: Coin
  gas_return_addr :: bytes
  gas_gov_action :: GovAction
  gas_proposed_in :: EpochNo
  gas_expires_after :: EpochNo

fun drep_rank :: "DRep \<Rightarrow> nat \<times> Hash28" where
  "drep_rank (DRep.KeyHash h) = (0, h)"
| "drep_rank (DRep.ScriptHash h) = (1, h)"
| "drep_rank AlwaysAbstain = (2, [])"
| "drep_rank AlwaysNoConfidence = (3, [])"

lemma drep_rank_inj: "drep_rank a = drep_rank b \<Longrightarrow> a = b"
  by (cases a; cases b) simp_all

instantiation DRep :: linorder
begin

definition less_eq_DRep :: "DRep \<Rightarrow> DRep \<Rightarrow> bool" where
  "less_eq_DRep a b \<longleftrightarrow> drep_rank a \<le> drep_rank b"

definition less_DRep :: "DRep \<Rightarrow> DRep \<Rightarrow> bool" where
  "less_DRep a b \<longleftrightarrow> drep_rank a < drep_rank b"

instance
proof
  show "x = y" if "x \<le> y" "y \<le> x" for x y :: DRep
    using that unfolding less_eq_DRep_def by (metis drep_rank_inj order.antisym)
qed (auto simp: less_eq_DRep_def less_DRep_def)

end

type_synonym DRepStakeDistribution = "(DRep, u64) btree_map"

datatype DormantEpochs = DormantUnversioned | DormantBound u64

datatype PreviousPParamAction = PrevUnversioned | NoPreviousAction | Enacted GovActionId

section \<open>Stake of the representatives\<close>

datatype DormantRequired = DormantRequired

definition drep_unexpired :: "(StakeCredential, u64) btree_map \<Rightarrow> u64 \<Rightarrow> u64 \<Rightarrow> StakeCredential \<Rightarrow> bool" where
  "drep_unexpired expiry dormant current_epoch cred =
     (case bt_get expiry cred of Some e \<Rightarrow> saturating_add e dormant \<ge> current_epoch | None \<Rightarrow> True)"

fun drep_active :: "(StakeCredential, u64) btree_map \<Rightarrow> u64 \<Rightarrow> u64 \<Rightarrow> DRep \<Rightarrow> bool" where
  "drep_active expiry dormant current_epoch AlwaysAbstain = False"
| "drep_active expiry dormant current_epoch (DRep.KeyHash h) =
     drep_unexpired expiry dormant current_epoch (StakeCredential.KeyHash h)"
| "drep_active expiry dormant current_epoch (DRep.ScriptHash h) =
     drep_unexpired expiry dormant current_epoch (StakeCredential.ScriptHash h)"
| "drep_active expiry dormant current_epoch AlwaysNoConfidence = True"

definition active_drep_stake_filtered ::
  "DRepStakeDistribution \<Rightarrow> (StakeCredential, u64) btree_map \<Rightarrow> DormantEpochs \<Rightarrow> u64 \<Rightarrow>
   (DRepStakeDistribution \<times> u64, DormantRequired) result" where
  "active_drep_stake_filtered drep_stake expiry num_dormant current_epoch =
     rbind (case num_dormant of
              DormantBound n \<Rightarrow> Ok n
            | DormantUnversioned \<Rightarrow> if expiry = [] then Ok 0 else Err DormantRequired) (\<lambda>dormant.
     let active = bt_retain (\<lambda>drep _. drep_active expiry dormant current_epoch drep) drep_stake
     in Ok (active, sum_list (bt_values active)))"

section \<open>Ratification\<close>

fun gov_action_threshold_index :: "GovAction \<Rightarrow> nat option \<times> nat option" where
  "gov_action_threshold_index (NoConfidence _) = (Some 0, Some 0)"
| "gov_action_threshold_index (UpdateCommittee _ _ _ _) = (Some 1, Some 1)"
| "gov_action_threshold_index (NewConstitution _ _) = (None, Some 3)"
| "gov_action_threshold_index (HardForkInitiation _ _) = (Some 3, Some 4)"
| "gov_action_threshold_index (ParameterChange _ _ _) = (Some 4, Some 5)"
| "gov_action_threshold_index (TreasuryWithdrawals _ _) = (None, Some 9)"
| "gov_action_threshold_index InfoAction = (None, None)"

text \<open>Multiplication of \<^verbatim>\<open>i128\<close> values, which wraps.\<close>

definition i128_mul :: "int \<Rightarrow> int \<Rightarrow> int" where
  "i128_mul a b = (a * b + 2 ^ 127) mod 2 ^ 128 - 2 ^ 127"

fun needs_committee :: "GovAction \<Rightarrow> bool" where
  "needs_committee (NoConfidence _) = False"
| "needs_committee (UpdateCommittee _ _ _ _) = False"
| "needs_committee _ = True"

definition committee_yes_votes ::
  "GovActionState \<Rightarrow> (StakeCredential, u64) btree_map \<Rightarrow> (StakeCredential, StakeCredential) btree_map \<Rightarrow> nat" where
  "committee_yes_votes proposal active_members hot_keys =
     length (filter (\<lambda>(hot, vote). vote = Yes \<and>
        (case find (\<lambda>(h, _). h = hot) hot_keys of
           Some (_, cold) \<Rightarrow> \<exists>m\<in>set active_members. fst m = cold
         | None \<Rightarrow> True)) (gas_committee_votes proposal))"

definition committee_accepts ::
  "GovActionState \<Rightarrow> (StakeCredential, u64) btree_map \<Rightarrow> Rational \<Rightarrow> u64 \<Rightarrow>
   (StakeCredential, StakeCredential) btree_map \<Rightarrow> bool" where
  "committee_accepts proposal members quorum current_epoch hot_keys =
     (let active = filter (\<lambda>(_, expiry). expiry \<ge> current_epoch) members in
      if needs_committee (gas_gov_action proposal) \<and> members \<noteq> [] \<and> active \<noteq> []
      then let yes = or_zero (Rational_new (int (committee_yes_votes proposal active hot_keys)) (int (length active)))
           in \<not> i128_mul (numerator yes) (denominator quorum) < i128_mul (numerator quorum) (denominator yes)
      else True)"

fun drep_of :: "StakeCredential \<Rightarrow> DRep" where
  "drep_of (StakeCredential.KeyHash h) = DRep.KeyHash h"
| "drep_of (StakeCredential.ScriptHash h) = DRep.ScriptHash h"

definition or_0 :: "u64 option \<Rightarrow> u64" where
  "or_0 c = (case c of Some c \<Rightarrow> c | None \<Rightarrow> 0)"

definition stake_voting :: "Vote \<Rightarrow> ('k \<times> Vote) list \<Rightarrow> ('k \<Rightarrow> u64) \<Rightarrow> u64" where
  "stake_voting v votes lookup = sum_list (map (\<lambda>(k, _). lookup k) (filter (\<lambda>(_, vote). vote = v) votes))"

text \<open>\<^verbatim>\<open>yes_128 * td_128 < tn_128 * total_128\<close>.\<close>

definition below_threshold :: "u64 \<Rightarrow> u64 \<times> u64 \<Rightarrow> u64 \<Rightarrow> bool" where
  "below_threshold yes_stake thresh counted =
     ((ucast yes_stake :: u128) * ucast (snd thresh) < ucast (fst thresh) * ucast counted)"

definition dreps_accept ::
  "GovActionState \<Rightarrow> nat option \<Rightarrow> u64 \<Rightarrow> DRepStakeDistribution \<Rightarrow> (u64 \<times> u64) list \<Rightarrow> bool" where
  "dreps_accept proposal drep_idx total_active drep_stake thresholds =
     (case drep_idx of
        Some idx \<Rightarrow>
          if idx < length thresholds \<and> total_active > 0 \<and> snd (thresholds ! idx) > 0
          then \<not> below_threshold (stake_voting Yes (gas_drep_votes proposal) (\<lambda>c. or_0 (bt_get drep_stake (drep_of c))))
                   (thresholds ! idx) total_active
          else True
      | None \<Rightarrow> True)"

definition pools_accept ::
  "GovActionState \<Rightarrow> nat option \<Rightarrow> (PoolId, Coin) btree_map \<Rightarrow> (u64 \<times> u64) list \<Rightarrow> bool" where
  "pools_accept proposal pool_idx pool_stake thresholds =
     (case pool_idx of
        Some idx \<Rightarrow>
          if idx < length thresholds \<and> snd (thresholds ! idx) > 0
          then let lookup = (\<lambda>h. or_0 (bt_get pool_stake h));
                   yes_stake = stake_voting Yes (gas_spo_votes proposal) lookup;
                   voted = yes_stake + stake_voting No (gas_spo_votes proposal) lookup
               in voted > 0 \<longrightarrow> \<not> below_threshold yes_stake (thresholds ! idx) voted
          else True
      | None \<Rightarrow> True)"

definition check_ratification ::
  "GovActionState \<Rightarrow> nat option \<times> nat option \<Rightarrow> u64 \<Rightarrow> DRepStakeDistribution \<Rightarrow> (PoolId, Coin) btree_map \<Rightarrow>
   (StakeCredential, u64) btree_map \<Rightarrow> Rational \<Rightarrow> (u64 \<times> u64) list \<Rightarrow> (u64 \<times> u64) list \<Rightarrow> u64 \<Rightarrow>
   (StakeCredential, StakeCredential) btree_map \<Rightarrow> bool" where
  "check_ratification proposal action_thresholds total_active drep_stake pool_stake members quorum
     pool_thresholds drep_thresholds current_epoch hot_keys =
     (let (pool_idx, drep_idx) = action_thresholds in
      if \<not> committee_accepts proposal members quorum current_epoch hot_keys then False
      else if \<not> dreps_accept proposal drep_idx total_active drep_stake drep_thresholds then False
      else if \<not> pools_accept proposal pool_idx pool_stake pool_thresholds then False
      else True)"

record RatificationResult =
  rr_ratified :: "GovActionState list"
  rr_expired :: "GovActionState list"
  rr_remaining :: "GovActionState list"

definition evaluate_ratification ::
  "GovActionState list \<Rightarrow> DRepStakeDistribution \<Rightarrow> (PoolId, Coin) btree_map \<Rightarrow> (StakeCredential, u64) btree_map \<Rightarrow>
   Rational \<Rightarrow> (u64 \<times> u64) list \<Rightarrow> (u64 \<times> u64) list \<Rightarrow> u64 \<Rightarrow> (StakeCredential, StakeCredential) btree_map \<Rightarrow>
   (StakeCredential, u64) btree_map \<Rightarrow> DormantEpochs \<Rightarrow> (RatificationResult, DormantRequired) result" where
  "evaluate_ratification proposals drep_stake pool_stake members quorum pool_thresholds drep_thresholds
     current_epoch hot_keys expiry num_dormant =
     rbind (active_drep_stake_filtered drep_stake expiry num_dormant current_epoch) (\<lambda>(active, total_active).
     let step = (\<lambda>acc p.
       if gas_expires_after p < current_epoch then acc\<lparr>rr_expired := rr_expired acc @ [p]\<rparr>
       else if gas_gov_action p = InfoAction then acc\<lparr>rr_remaining := rr_remaining acc @ [p]\<rparr>
       else if check_ratification p (gov_action_threshold_index (gas_gov_action p)) total_active active pool_stake
                 members quorum pool_thresholds drep_thresholds current_epoch hot_keys
       then acc\<lparr>rr_ratified := rr_ratified acc @ [p]\<rparr>
       else acc\<lparr>rr_remaining := rr_remaining acc @ [p]\<rparr>)
     in Ok (foldl step \<lparr>rr_ratified = [], rr_expired = [], rr_remaining = []\<rparr> proposals))"

section \<open>The plan of an epoch boundary\<close>

datatype RemovalCause = RemovedEnacted | PrunedByEnactment | Expired

record RemovedProposal =
  rp_action_id :: GovActionId
  rp_cause :: RemovalCause

datatype DepositReturn =
    ToRewardAccount GovActionId StakeCredential Coin
  | ToTreasury GovActionId Coin
  | NoDeposit GovActionId

datatype PParamsDelta = PParamsUnchanged | PParamsSet ProtocolParameters

datatype PrevPParamActionDelta = PrevUnchanged | PrevSet GovActionId

record ConwayGovernanceEpochPlan =
  plan_proposals :: "GovActionState list"
  plan_removals :: "RemovedProposal list"
  plan_deposit_returns :: "DepositReturn list"
  plan_pparams :: PParamsDelta
  plan_prev_pparam_action :: PrevPParamActionDelta

datatype MalformedGovDetail = ReturnAddrNotRewardAccount

datatype UnsupportedActionKind =
    NotParameterChange
  | UnsupportedPParamField
  | NoEnactableField
  | ChangedSteps
  | OversizedUpdate
  | MalformedUpdate
  | ChainedEnactment
  | CompetingRatifiableActions

datatype DanglingVoteDelegationKind = UnregisteredAccount | UnregisteredDRep

datatype GovernanceTerminal =
    UnsupportedRatifiedAction GovActionId UnsupportedActionKind CanonicalFieldSet
  | UnversionedStateOnEnactPath GovActionId
  | DormantRequired
  | Malformed GovActionId MalformedGovDetail
  | FullBoundaryStateRequired SlotNo
  | BoundaryBaseStakeRequired SlotNo
  | RewardPoolParamsMissing PoolId SlotNo
  | TreasuryOverflow EpochNo
  | RatificationRecordEpochMismatch EpochNo EpochNo
  | RatificationRecordAbsent EpochNo
  | RatificationRecordProposalMissing GovActionId
  | DanglingVoteDelegation StakeCredential DanglingVoteDelegationKind

record ConwayGovernanceEpochInput =
  gi_proposals :: "GovActionState list"
  gi_drep_stake :: DRepStakeDistribution
  gi_pool_stake :: "(PoolId, Coin) btree_map"
  gi_committee_members :: "(StakeCredential, u64) btree_map"
  gi_committee_quorum :: Rational
  gi_pool_thresholds :: "(u64 \<times> u64) list"
  gi_drep_thresholds :: "(u64 \<times> u64) list"
  gi_committee_hot_keys :: "(StakeCredential, StakeCredential) btree_map"
  gi_drep_expiry :: "(StakeCredential, u64) btree_map"
  gi_num_dormant :: DormantEpochs
  gi_current_pparams :: ProtocolParameters
  gi_current_prev_pparam_action :: PreviousPParamAction
  gi_new_epoch :: u64

record EnactedParameterChange =
  epc_action_id :: GovActionId
  epc_superseded_root :: "GovActionId option"
  epc_pparams :: ProtocolParameters

record RatificationDecision =
  rd_enacted :: "EnactedParameterChange option"
  rd_expired :: "GovActionId list"

subsection \<open>Decision\<close>

definition build_parameter_change_enactment ::
  "GovActionState \<Rightarrow> ProtocolParameters \<Rightarrow> (EnactedParameterChange, GovernanceTerminal) result" where
  "build_parameter_change_enactment winner current =
     (let unsupported = (\<lambda>kind. UnsupportedRatifiedAction (gas_action_id winner) kind []) in
      case gas_gov_action winner of
        ParameterChange prev_action upd _ \<Rightarrow>
          rbind (reject_if (\<not> enactable_update_within_bounds upd) (unsupported OversizedUpdate)) (\<lambda>_.
          rbind (map_err (\<lambda>_. unsupported MalformedUpdate) (decode_enactable_param_update upd)) (\<lambda>decoded.
          rbind (reject_if (epu_unsupported_fields decoded \<noteq> [])
                   (UnsupportedRatifiedAction (gas_action_id winner) UnsupportedPParamField
                      (epu_unsupported_fields decoded))) (\<lambda>_.
          rbind (reject_if (epu_max_tx_ex_units decoded = None \<and> epu_max_block_ex_units decoded = None)
                   (unsupported NoEnactableField)) (\<lambda>_.
          rbind (case epu_max_tx_ex_units decoded of
                   Some tx \<Rightarrow> reject_if (exu_steps tx \<noteq> ppar_max_tx_ex_units_cpu current) (unsupported ChangedSteps)
                 | None \<Rightarrow> Ok ()) (\<lambda>_.
          rbind (case epu_max_block_ex_units decoded of
                   Some blk \<Rightarrow>
                     (case ppar_max_block_ex_units current of
                        Bound _ steps \<Rightarrow> reject_if (exu_steps blk \<noteq> steps) (unsupported ChangedSteps)
                      | Unversioned \<Rightarrow> Err (UnversionedStateOnEnactPath (gas_action_id winner)))
                 | None \<Rightarrow> Ok ()) (\<lambda>_.
          Ok \<lparr>epc_action_id = gas_action_id winner, epc_superseded_root = prev_action,
              epc_pparams = build_enacted_pparams current decoded\<rparr>))))))
      | _ \<Rightarrow> Err (unsupported NotParameterChange))"

definition lineage_ok :: "PreviousPParamAction \<Rightarrow> GovActionId option \<Rightarrow> bool" where
  "lineage_ok enacted_root prev_action =
     (case enacted_root of
        NoPreviousAction \<Rightarrow> prev_action = None
      | Enacted r \<Rightarrow> prev_action = Some r
      | PrevUnversioned \<Rightarrow> False)"

text \<open>The scan of the proposals: the identifiers of the accepted parameter changes, and those among them
  that chain onto the enacted root.\<close>

fun scan_candidates ::
  "ConwayGovernanceEpochInput \<Rightarrow> (GovActionState \<Rightarrow> bool) \<Rightarrow> GovActionState list \<Rightarrow>
   GovActionId list \<times> GovActionState list \<Rightarrow> (GovActionId list \<times> GovActionState list, GovernanceTerminal) result" where
  "scan_candidates inp accepted [] acc = Ok acc"
| "scan_candidates inp accepted (p # ps) (ids, candidates) =
     (if gas_gov_action p = InfoAction \<or> \<not> accepted p then scan_candidates inp accepted ps (ids, candidates)
      else case gas_gov_action p of
             ParameterChange prev_action _ _ \<Rightarrow>
               if gi_current_prev_pparam_action inp = PrevUnversioned \<or>
                  ppar_max_block_ex_units (gi_current_pparams inp) = Unversioned
               then Err (UnversionedStateOnEnactPath (gas_action_id p))
               else scan_candidates inp accepted ps
                      (insort_insert (gas_action_id p) ids,
                       if lineage_ok (gi_current_prev_pparam_action inp) prev_action then candidates @ [p] else candidates)
           | _ \<Rightarrow> Err (UnsupportedRatifiedAction (gas_action_id p) NotParameterChange []))"

definition chains_onto :: "GovActionId \<Rightarrow> GovActionId list \<Rightarrow> GovActionState \<Rightarrow> bool" where
  "chains_onto winner accepted_ids p =
     (case gas_gov_action p of
        ParameterChange prev_action _ _ \<Rightarrow> prev_action = Some winner \<and> gas_action_id p \<in> set accepted_ids
      | _ \<Rightarrow> False)"

definition decide_ratification ::
  "ConwayGovernanceEpochInput \<Rightarrow> u64 \<Rightarrow> (RatificationDecision, GovernanceTerminal) result" where
  "decide_ratification inp ratify_epoch =
     rbind (map_err (\<lambda>_. GovernanceTerminal.DormantRequired)
              (active_drep_stake_filtered (gi_drep_stake inp) (gi_drep_expiry inp) (gi_num_dormant inp) ratify_epoch))
       (\<lambda>(active, total_active).
     let sorted = sort_key gas_action_id (gi_proposals inp);
         accepted = (\<lambda>p. check_ratification p (gov_action_threshold_index (gas_gov_action p)) total_active active
           (gi_pool_stake inp) (gi_committee_members inp) (gi_committee_quorum inp) (gi_pool_thresholds inp)
           (gi_drep_thresholds inp) ratify_epoch (gi_committee_hot_keys inp))
     in rbind (scan_candidates inp accepted sorted ([], [])) (\<lambda>(accepted_ids, candidates).
        rbind (case candidates of
                 [] \<Rightarrow> Ok None
               | [winner] \<Rightarrow>
                   rbind (build_parameter_change_enactment winner (gi_current_pparams inp)) (\<lambda>e. Ok (Some e))
               | first # _ \<Rightarrow>
                   Err (UnsupportedRatifiedAction (gas_action_id first) CompetingRatifiableActions [])) (\<lambda>enacted.
        rbind (case enacted of
                 Some e \<Rightarrow>
                   (case find (chains_onto (epc_action_id e) accepted_ids) (gi_proposals inp) of
                      Some p \<Rightarrow> Err (UnsupportedRatifiedAction (gas_action_id p) ChainedEnactment [])
                    | None \<Rightarrow> Ok ())
               | None \<Rightarrow> Ok ()) (\<lambda>_.
        Ok \<lparr>rd_enacted = enacted,
            rd_expired = fold insort_insert
              (map gas_action_id (filter (\<lambda>p. Some (gas_action_id p) \<noteq> map_option epc_action_id enacted \<and>
                                              gas_expires_after p < ratify_epoch) sorted)) []\<rparr>))))"

subsection \<open>Application\<close>

fun gov_action_parent :: "GovAction \<Rightarrow> GovActionId option" where
  "gov_action_parent (ParameterChange prev_action _ _) = prev_action"
| "gov_action_parent (HardForkInitiation prev_action _) = prev_action"
| "gov_action_parent (NoConfidence prev_action) = prev_action"
| "gov_action_parent (UpdateCommittee prev_action _ _ _) = prev_action"
| "gov_action_parent (NewConstitution prev_action _) = prev_action"
| "gov_action_parent (TreasuryWithdrawals _ _) = None"
| "gov_action_parent InfoAction = None"

text \<open>One pass over the proposals, and whether it added one.\<close>

definition close_step :: "GovActionId list \<times> bool \<Rightarrow> GovActionState \<Rightarrow> GovActionId list \<times> bool" where
  "close_step = (\<lambda>(removed, added) p.
     if gas_action_id p \<in> set removed then (removed, added)
     else case gov_action_parent (gas_gov_action p) of
            Some parent \<Rightarrow>
              if parent \<in> set removed then (insort_insert (gas_action_id p) removed, True) else (removed, added)
          | None \<Rightarrow> (removed, added))"

definition close_pass :: "GovActionState list \<Rightarrow> GovActionId list \<Rightarrow> GovActionId list \<times> bool" where
  "close_pass proposals removed = foldl close_step (removed, False) proposals"

definition unremoved :: "GovActionState list \<Rightarrow> GovActionId list \<Rightarrow> nat" where
  "unremoved proposals removed = length (filter (\<lambda>p. gas_action_id p \<notin> set removed) proposals)"

lemma close_fold_mono:
  "set (fst acc) \<subseteq> set (fst (foldl close_step acc ps)) \<and> (snd acc \<longrightarrow> snd (foldl close_step acc ps))"
proof (induction ps arbitrary: acc)
  case (Cons p ps)
  have "set (fst acc) \<subseteq> set (fst (close_step acc p)) \<and> (snd acc \<longrightarrow> snd (close_step acc p))"
    by (cases acc) (auto simp: close_step_def set_insort_insert split: option.splits)
  with Cons [of "close_step acc p"] show ?case by auto
qed simp

lemma close_fold_added:
  "snd (foldl close_step (removed, False) ps) \<Longrightarrow>
   \<exists>p\<in>set ps. gas_action_id p \<notin> set removed \<and> gas_action_id p \<in> set (fst (foldl close_step (removed, False) ps))"
proof (induction ps arbitrary: removed)
  case (Cons p ps)
  have "close_step (removed, False) p = (removed, False) \<or>
    close_step (removed, False) p = (insort_insert (gas_action_id p) removed, True) \<and> gas_action_id p \<notin> set removed"
    by (auto simp: close_step_def split: option.splits)
  then consider (same) "close_step (removed, False) p = (removed, False)"
    | (more) "close_step (removed, False) p = (insort_insert (gas_action_id p) removed, True)"
        "gas_action_id p \<notin> set removed" by blast
  then show ?case
  proof cases
    case same
    then show ?thesis using Cons.IH [of removed] Cons.prems by auto
  next
    case more
    then have "gas_action_id p \<in> set (fst (foldl close_step (removed, False) (p # ps)))"
      using close_fold_mono [of "(insort_insert (gas_action_id p) removed, True)" ps]
      by (auto simp: set_insort_insert)
    with more show ?thesis by auto
  qed
qed simp

lemma close_pass_shrinks:
  assumes "close_pass proposals removed = (removed', True)"
  shows "unremoved proposals removed' < unremoved proposals removed"
proof -
  have sub: "set removed \<subseteq> set removed'"
    using close_fold_mono [of "(removed, False)" proposals] assms by (simp add: close_pass_def)
  obtain p where p: "p \<in> set proposals" "gas_action_id p \<notin> set removed" "gas_action_id p \<in> set removed'"
    using close_fold_added [of removed proposals] assms by (auto simp: close_pass_def)
  have "filter (\<lambda>p. gas_action_id p \<notin> set removed') proposals =
    filter (\<lambda>p. gas_action_id p \<notin> set removed') (filter (\<lambda>p. gas_action_id p \<notin> set removed) proposals)"
    using sub by (auto intro: filter_cong)
  moreover have "length (filter (\<lambda>p. gas_action_id p \<notin> set removed') (filter (\<lambda>p. gas_action_id p \<notin> set removed) proposals))
    < length (filter (\<lambda>p. gas_action_id p \<notin> set removed) proposals)"
    using p by (intro length_filter_less [of p]) auto
  ultimately show ?thesis by (simp add: unremoved_def)
qed

text \<open>The loop to the fixpoint: a pass that adds something leaves fewer proposals unremoved.\<close>

function close_over_descendants :: "GovActionState list \<Rightarrow> GovActionId list \<Rightarrow> GovActionId list" where
  "close_over_descendants proposals removed =
     (case close_pass proposals removed of
        (removed, added) \<Rightarrow> if added then close_over_descendants proposals removed else removed)"
  by pat_completeness auto
termination
  by (relation "measure (\<lambda>(proposals, removed). unremoved proposals removed)") (auto dest: sym close_pass_shrinks)

declare close_over_descendants.simps [simp del]

text \<open>\<^verbatim>\<open>epoch_accumulator::reward_account_credential\<close>: bit 4 of the header tells a script hash.\<close>

definition reward_account_credential :: "bytes \<Rightarrow> StakeCredential option" where
  "reward_account_credential account =
     (if length account \<noteq> 29 then None
      else if account ! 0 AND 0x10 \<noteq> 0 then Some (StakeCredential.ScriptHash (drop 1 account))
      else Some (StakeCredential.KeyHash (drop 1 account)))"

definition route_deposit ::
  "(StakeCredential \<Rightarrow> bool) \<Rightarrow> GovActionState \<Rightarrow> (DepositReturn, GovernanceTerminal) result" where
  "route_deposit is_registered p =
     (if gas_deposit p = 0 then Ok (NoDeposit (gas_action_id p))
      else case reward_account_credential (gas_return_addr p) of
             Some cred \<Rightarrow>
               if is_registered cred then Ok (ToRewardAccount (gas_action_id p) cred (gas_deposit p))
               else Ok (ToTreasury (gas_action_id p) (gas_deposit p))
           | None \<Rightarrow> Err (GovernanceTerminal.Malformed (gas_action_id p) ReturnAddrNotRewardAccount))"

text \<open>The current parameter changes that share the root the winner supersedes.\<close>

definition competes :: "EnactedParameterChange \<Rightarrow> GovActionId list \<Rightarrow> GovActionState \<Rightarrow> bool" where
  "competes e expired p =
     (if gas_action_id p = epc_action_id e \<or> gas_action_id p \<in> set expired then False
      else case gas_gov_action p of
             ParameterChange prev_action _ _ \<Rightarrow> prev_action = epc_superseded_root e
           | _ \<Rightarrow> False)"

definition pruned_ids :: "RatificationDecision \<Rightarrow> GovActionState list \<Rightarrow> GovActionId list \<Rightarrow> GovActionId list" where
  "pruned_ids decision current expired =
     (case rd_enacted decision of
        None \<Rightarrow> []
      | Some e \<Rightarrow>
          let pruned = fold insort_insert (map gas_action_id (filter (competes e expired) current)) [];
              closed = close_over_descendants current (fold insort_insert expired pruned)
          in filter (\<lambda>i. i \<notin> set expired) closed)"

definition removal_cause ::
  "GovActionId list \<Rightarrow> GovActionId option \<Rightarrow> GovActionId list \<Rightarrow> GovActionId \<Rightarrow> RemovalCause option" where
  "removal_cause expired winner pruned i =
     (if i \<in> set expired then Some Expired
      else if winner = Some i then Some RemovedEnacted
      else if i \<in> set pruned then Some PrunedByEnactment
      else None)"

fun settle ::
  "(GovActionId \<Rightarrow> RemovalCause option) \<Rightarrow> (StakeCredential \<Rightarrow> bool) \<Rightarrow> GovActionState list \<Rightarrow>
   (RemovedProposal list \<times> DepositReturn list, GovernanceTerminal) result" where
  "settle cause_of is_registered [] = Ok ([], [])"
| "settle cause_of is_registered (p # ps) =
     (case cause_of (gas_action_id p) of
        None \<Rightarrow> settle cause_of is_registered ps
      | Some cause \<Rightarrow>
          rbind (route_deposit is_registered p) (\<lambda>ret.
          rbind (settle cause_of is_registered ps) (\<lambda>(removals, returns).
          Ok (\<lparr>rp_action_id = gas_action_id p, rp_cause = cause\<rparr> # removals, ret # returns))))"

definition apply_decision ::
  "RatificationDecision \<Rightarrow> GovActionState list \<Rightarrow> (StakeCredential \<Rightarrow> bool) \<Rightarrow>
   (ConwayGovernanceEpochPlan, GovernanceTerminal) result" where
  "apply_decision decision current is_registered =
     (let winner = map_option epc_action_id (rd_enacted decision);
          named = rd_expired decision @ (case winner of None \<Rightarrow> [] | Some i \<Rightarrow> [i])
      in case find (\<lambda>i. \<not> (\<exists>p\<in>set current. gas_action_id p = i)) named of
           Some i \<Rightarrow> Err (RatificationRecordProposalMissing i)
         | None \<Rightarrow>
             let expired = close_over_descendants current (rd_expired decision);
                 pruned = pruned_ids decision current expired
             in rbind (settle (removal_cause expired winner pruned) is_registered (sort_key gas_action_id current))
                  (\<lambda>(removals, returns).
                let removed = map rp_action_id removals in
                Ok \<lparr>plan_proposals = filter (\<lambda>p. gas_action_id p \<notin> set removed) current,
                    plan_removals = removals,
                    plan_deposit_returns = returns,
                    plan_pparams = (case rd_enacted decision of Some e \<Rightarrow> PParamsSet (epc_pparams e) | None \<Rightarrow> PParamsUnchanged),
                    plan_prev_pparam_action = (case winner of Some i \<Rightarrow> PrevSet i | None \<Rightarrow> PrevUnchanged)\<rparr>))"

definition plan_conway_governance_epoch ::
  "ConwayGovernanceEpochInput \<Rightarrow> (StakeCredential \<Rightarrow> bool) \<Rightarrow> (ConwayGovernanceEpochPlan, GovernanceTerminal) result" where
  "plan_conway_governance_epoch inp is_registered =
     rbind (decide_ratification inp (saturating_sub (gi_new_epoch inp) 1)) (\<lambda>decision.
     apply_decision decision (gi_proposals inp) is_registered)"

end
