(* ===== verification/Epoch_State.thy ===== *)
theory Epoch_State
  imports Governance Overlay_Utxo Era_Schedule
begin

text \<open>
  The state of the ledger (\<^verbatim>\<open>ade_ledger/src/state.rs\<close>) and the stake snapshots and rewards of
  \<^verbatim>\<open>ade_ledger/src/epoch.rs\<close>. Snapshot fields have the prefix \<open>ss\<close>, the frozen pool parameters \<open>spp\<close>,
  the epoch state \<open>est\<close> and the ledger state \<open>lst\<close>. The fields of \<^verbatim>\<open>ConwayGovState\<close> that certificates do not
  touch are the record \<open>GovRest\<close>, so the governance state of the ledger is \<open>GovRest ConwayGovState\<close>.
  \<^verbatim>\<open>BTreeSet\<close> values are increasing lists, \<^verbatim>\<open>i128\<close> values are integers.
\<close>

section \<open>Snapshots\<close>

record SnapshotPoolParams =
  spp_pledge :: Coin
  spp_cost :: Coin
  spp_margin :: "u64 \<times> u64"
  spp_reward_account :: StakeCredential
  spp_self_delegated_owners :: "Hash28 list"

record StakeSnapshot =
  ss_delegations :: "(StakeCredential, PoolId \<times> Coin) btree_map"
  ss_pool_stakes :: "(PoolId, Coin) btree_map"
  ss_pool_params :: "(PoolId, SnapshotPoolParams) btree_map"

definition StakeSnapshot_new :: StakeSnapshot where
  "StakeSnapshot_new = \<lparr>ss_delegations = bt_empty, ss_pool_stakes = bt_empty, ss_pool_params = bt_empty\<rparr>"

text \<open>\<^verbatim>\<open>iter.fold(0u64, |acc, c| acc.saturating_add(c))\<close>.\<close>

definition sat_total :: "u64 list \<Rightarrow> u64" where
  "sat_total coins = foldl saturating_add 0 coins"

definition total_active_stake :: "StakeSnapshot \<Rightarrow> u64" where
  "total_active_stake s = sat_total (map snd (bt_values (ss_delegations s)))"

definition self_delegated_owner_stake :: "StakeSnapshot \<Rightarrow> PoolId \<Rightarrow> Hash28 list \<Rightarrow> u64" where
  "self_delegated_owner_stake s pool_id owners =
     sat_total (map snd (filter (\<lambda>(delegated_to, _). delegated_to = pool_id)
       (List.map_filter (\<lambda>owner. bt_get (ss_delegations s) (StakeCredential.KeyHash owner))
         (fold insort_insert owners []))))"

record SnapshotState =
  snap_mark :: StakeSnapshot
  snap_set :: StakeSnapshot
  snap_go :: StakeSnapshot

definition SnapshotState_new :: SnapshotState where
  "SnapshotState_new = \<lparr>snap_mark = StakeSnapshot_new, snap_set = StakeSnapshot_new, snap_go = StakeSnapshot_new\<rparr>"

datatype EpochStakeSnapshots = SnapshotsAuthoritative SnapshotState | SnapshotsReducedUnavailable

fun snapshots_as_authoritative :: "EpochStakeSnapshots \<Rightarrow> SnapshotState option" where
  "snapshots_as_authoritative (SnapshotsAuthoritative s) = Some s"
| "snapshots_as_authoritative SnapshotsReducedUnavailable = None"

definition rotate_snapshots :: "SnapshotState \<Rightarrow> StakeSnapshot \<Rightarrow> SnapshotState" where
  "rotate_snapshots current new_mark =
     \<lparr>snap_mark = new_mark, snap_set = snap_mark current, snap_go = snap_set current\<rparr>"

section \<open>The ledger state\<close>

datatype RatificationSource = Frozen | ImportedFromSnapshot

datatype UnenactableReason =
    ReasonUnsupportedRatifiedAction GovActionId UnsupportedActionKind CanonicalFieldSet
  | ReasonUnversionedStateOnEnactPath GovActionId
  | ReasonDormantRequired

datatype RatificationOutcome = Decided RatificationDecision | Unenactable UnenactableReason

record RatificationRecord =
  rec_frozen_at :: EpochNo
  rec_source :: RatificationSource
  rec_frozen_proposals :: "GovActionId list"
  rec_drep_distribution :: "(DRep, Coin) btree_map"
  rec_pool_distribution :: "(PoolId, Coin) btree_map"
  rec_outcome :: RatificationOutcome

datatype RatificationState = RatificationUnversioned | Recorded RatificationRecord

record GovRest =
  gr_proposals :: "GovActionState list"
  gr_committee :: "(StakeCredential, u64) btree_map"
  gr_committee_quorum :: "u64 \<times> u64"
  gr_gov_action_lifetime :: u64
  gr_pool_voting_thresholds :: "(u64 \<times> u64) list"
  gr_drep_voting_thresholds :: "(u64 \<times> u64) list"
  gr_num_dormant :: DormantEpochs
  gr_prev_pparam_action :: PreviousPParamAction
  gr_ratification :: RatificationState

record EpochState =
  est_epoch :: EpochNo
  est_slot :: SlotNo
  est_snapshots :: EpochStakeSnapshots
  est_reserves :: Coin
  est_treasury :: Coin
  est_block_production :: "(PoolId, u64) btree_map"
  est_epoch_fees :: Coin
  est_donation_pot :: Coin

definition tx_donation_contribution :: "Coin option \<Rightarrow> bool \<Rightarrow> Coin" where
  "tx_donation_contribution donation phase2_valid =
     (case (phase2_valid, donation) of (True, Some d) \<Rightarrow> d | _ \<Rightarrow> 0)"

datatype CertStateProjection = CertAuthoritative CertState | CertReducedUnavailable

datatype GovStateProjection = GovAuthoritative "GovRest ConwayGovState option" | GovReducedUnavailable

fun cert_require_full :: "CertStateProjection \<Rightarrow> SlotNo \<Rightarrow> (CertState, GovernanceTerminal) result" where
  "cert_require_full (CertAuthoritative c) point = Ok c"
| "cert_require_full CertReducedUnavailable point = Err (GovernanceTerminal.FullBoundaryStateRequired point)"

fun gov_require_full :: "GovStateProjection \<Rightarrow> SlotNo \<Rightarrow> (GovRest ConwayGovState option, GovernanceTerminal) result" where
  "gov_require_full (GovAuthoritative g) point = Ok g"
| "gov_require_full GovReducedUnavailable point = Err (GovernanceTerminal.FullBoundaryStateRequired point)"

record ConwayOnlyDepositParams =
  cod_drep_deposit :: Coin
  cod_gov_action_deposit :: Coin
  cod_drep_activity :: u64

record LedgerState =
  lst_utxo_state :: UTxOState
  lst_epoch_state :: EpochState
  lst_protocol_params :: ProtocolParameters
  lst_era :: CardanoEra
  lst_track_utxo :: bool
  lst_cert_state :: CertStateProjection
  lst_max_lovelace_supply :: u64
  lst_gov_state :: GovStateProjection
  lst_conway_deposit_params :: "ConwayOnlyDepositParams option"

definition conway_deposit_view :: "LedgerState \<Rightarrow> (ConwayDepositParams, ValidationEnvironmentError) result" where
  "conway_deposit_view s =
     (case lst_conway_deposit_params s of
        Some c \<Rightarrow> Ok \<lparr>cdp_key_deposit = ppar_key_deposit (lst_protocol_params s),
                    cdp_pool_deposit = ppar_pool_deposit (lst_protocol_params s),
                    cdp_drep_deposit = cod_drep_deposit c, cdp_gov_action_deposit = cod_gov_action_deposit c\<rparr>
      | None \<Rightarrow> Err MissingConwayDepositParams)"

definition gov_cert_env :: "LedgerState \<Rightarrow> (GovCertEnv, ValidationEnvironmentError) result" where
  "gov_cert_env s =
     (case lst_conway_deposit_params s of
        Some c \<Rightarrow> Ok \<lparr>gce_current_epoch = est_epoch (lst_epoch_state s), gce_drep_activity = cod_drep_activity c\<rparr>
      | None \<Rightarrow> Err MissingDRepActivityParam)"

section \<open>Epoch boundaries and the schedule\<close>

record EpochAgreementViolation =
  eav_slot :: SlotNo
  eav_ledger_epoch :: EpochNo
  eav_schedule_epoch :: EpochNo

definition check_epoch_agreement ::
  "EpochNo \<Rightarrow> SlotNo \<Rightarrow> EraSchedule \<Rightarrow> (unit, EpochAgreementViolation) result" where
  "check_epoch_agreement ledger_epoch slot schedule =
     (case locate schedule slot of
        Err _ \<Rightarrow> Ok ()
      | Ok loc \<Rightarrow>
          if loc_epoch loc = ledger_epoch then Ok ()
          else Err \<lparr>eav_slot = slot, eav_ledger_epoch = ledger_epoch, eav_schedule_epoch = loc_epoch loc\<rparr>)"

definition detect_epoch_transition :: "EpochNo \<Rightarrow> SlotNo \<Rightarrow> EraSchedule \<Rightarrow> EpochNo option" where
  "detect_epoch_transition current_epoch slot schedule =
     (case locate schedule slot of
        Err _ \<Rightarrow> None
      | Ok loc \<Rightarrow> if loc_epoch loc > current_epoch then Some (loc_epoch loc) else None)"

end
