(* ===== verification/Gov_Plan.thy ===== *)
theory Gov_Plan
  imports Governance "HOL-Library.Multiset"
begin

text \<open>
  What the governance plan of an epoch boundary does: the closure loop computes the descendants of a
  set of proposals, and the application of a decision removes exactly the enacted proposal, the
  expired ones, the competitors of the enacted one and their descendants, and returns the deposit
  of each of them once.
\<close>

section \<open>Descendants\<close>

inductive descends :: "GovActionState list \<Rightarrow> GovActionId set \<Rightarrow> GovActionId \<Rightarrow> bool"
  for ps :: "GovActionState list" and roots :: "GovActionId set" where
  start: "i \<in> roots \<Longrightarrow> descends ps roots i"
| child: "p \<in> set ps \<Longrightarrow> gov_action_parent (gas_gov_action p) = Some i \<Longrightarrow> descends ps roots i \<Longrightarrow>
    descends ps roots (gas_action_id p)"

lemma descends_closed:
  assumes "descends ps roots i" "roots \<subseteq> S"
    and "\<And>p j. p \<in> set ps \<Longrightarrow> gov_action_parent (gas_gov_action p) = Some j \<Longrightarrow> j \<in> S \<Longrightarrow> gas_action_id p \<in> S"
  shows "i \<in> S"
  using assms by (induction rule: descends.induct) auto

lemma descends_mono: "descends ps roots i \<Longrightarrow> roots \<subseteq> roots' \<Longrightarrow> descends ps roots' i"
  by (induction rule: descends.induct) (auto intro: descends.intros)

lemma descends_idem: "descends ps {i. descends ps roots i} i \<longleftrightarrow> descends ps roots i"
proof
  show "descends ps roots i" if "descends ps {i. descends ps roots i} i"
    using that by (induction rule: descends.induct) (auto intro: descends.intros)
qed (auto intro: descends.start)

lemma close_step_sound:
  "set (fst acc) \<subseteq> {i. descends ps roots i} \<Longrightarrow> p \<in> set ps \<Longrightarrow>
   set (fst (close_step acc p)) \<subseteq> {i. descends ps roots i}"
  by (cases acc) (auto simp: close_step_def set_insort_insert intro: descends.child split: option.splits if_splits)

lemma close_fold_sound:
  "set (fst acc) \<subseteq> {i. descends ps roots i} \<Longrightarrow> set qs \<subseteq> set ps \<Longrightarrow>
   set (fst (foldl close_step acc qs)) \<subseteq> {i. descends ps roots i}"
  by (induction qs arbitrary: acc) (simp_all add: close_step_sound)

lemma close_step_idle:
  assumes "snd (close_step (r, b) p) = False"
  shows "close_step (r, b) p = (r, False)"
    and "gov_action_parent (gas_gov_action p) = Some i \<Longrightarrow> i \<in> set r \<Longrightarrow> gas_action_id p \<in> set r"
  using assms by (auto simp: close_step_def split: option.splits if_splits)

lemma close_fold_idle:
  "snd (foldl close_step (r, b) qs) = False \<Longrightarrow> fst (foldl close_step (r, b) qs) = r \<and>
   (\<forall>p\<in>set qs. \<forall>i. gov_action_parent (gas_gov_action p) = Some i \<longrightarrow> i \<in> set r \<longrightarrow> gas_action_id p \<in> set r)"
proof (induction qs arbitrary: r b)
  case (Cons p qs)
  have "snd (close_step (r, b) p) = False"
    using close_fold_mono [of "close_step (r, b) p" qs] Cons.prems by auto
  note idle = close_step_idle [OF this]
  show ?case using Cons.IH [of r False] Cons.prems idle by auto
qed simp

lemma set_close_over_descendants:
  "set (close_over_descendants ps r) = {i. descends ps (set r) i}"
proof (induction ps r rule: close_over_descendants.induct)
  case (1 ps r)
  obtain r' added where p: "close_pass ps r = (r', added)" by (cases "close_pass ps r")
  have r': "set r' \<subseteq> {i. descends ps (set r) i}" "set r \<subseteq> set r'"
    using close_fold_sound [of "(r, False)" ps "set r" ps] close_fold_mono [of "(r, False)" ps] p
    by (auto simp: close_pass_def intro: descends.start)
  show ?case
  proof (cases added)
    case True
    then have "set (close_over_descendants ps r) = {i. descends ps (set r') i}"
      using 1 p by (simp add: close_over_descendants.simps [of ps r])
    moreover have "descends ps (set r') i \<longleftrightarrow> descends ps (set r) i" for i
      using r' descends_mono [of ps "set r'" i "{i. descends ps (set r) i}"] descends_mono [of ps "set r" i "set r'"]
      by (auto simp: descends_idem)
    ultimately show ?thesis by simp
  next
    case False
    then have "fst (foldl close_step (r, False) ps) = r" "r' = r"
      using close_fold_idle [of r False ps] p by (auto simp: close_pass_def)
    moreover have "i \<in> set r" if "descends ps (set r) i" for i
      using that close_fold_idle [of r False ps] p False
      by (rule_tac descends_closed [OF that]) (auto simp: close_pass_def)
    ultimately show ?thesis
      using False p by (auto simp: close_over_descendants.simps [of ps r] intro: descends.start)
  qed
qed

section \<open>Applying a decision\<close>

text \<open>The competitors of the enacted action, and what leaves the set of proposals.\<close>

definition rivals :: "RatificationDecision \<Rightarrow> GovActionState list \<Rightarrow> GovActionId set" where
  "rivals d ps = {gas_action_id p | p e upd policy. p \<in> set ps \<and> rd_enacted d = Some e \<and>
     gas_action_id p \<noteq> epc_action_id e \<and> gas_gov_action p = ParameterChange (epc_superseded_root e) upd policy}"

definition leaves :: "RatificationDecision \<Rightarrow> GovActionState list \<Rightarrow> GovActionId \<Rightarrow> bool" where
  "leaves d ps i \<longleftrightarrow> map_option epc_action_id (rd_enacted d) = Some i \<or>
     descends ps (set (rd_expired d) \<union> rivals d ps) i"

fun returned :: "DepositReturn \<Rightarrow> nat" where
  "returned (ToRewardAccount _ _ amount) = unat amount"
| "returned (ToTreasury _ amount) = unat amount"
| "returned (NoDeposit _) = 0"

definition deposits :: "GovActionState list \<Rightarrow> nat" where
  "deposits ps = sum_list (map (\<lambda>p. unat (gas_deposit p)) ps)"

lemma deposits_split: "deposits ps = deposits (filter P ps) + deposits (filter (\<lambda>p. \<not> P p) ps)"
  by (induction ps) (auto simp: deposits_def)

lemma route_deposit_returns: "route_deposit reg p = Ok ret \<Longrightarrow> returned ret = unat (gas_deposit p)"
  by (auto simp: route_deposit_def split: if_splits option.splits)

lemma settle_removes:
  "settle c reg ps = Ok (removals, returns) \<Longrightarrow>
   map rp_action_id removals = map gas_action_id (filter (\<lambda>p. c (gas_action_id p) \<noteq> None) ps) \<and>
   list_all (\<lambda>r. c (rp_action_id r) = Some (rp_cause r)) removals \<and>
   map returned returns = map (\<lambda>p. unat (gas_deposit p)) (filter (\<lambda>p. c (gas_action_id p) \<noteq> None) ps)"
proof (induction ps arbitrary: removals returns)
  case (Cons p ps)
  then show ?case
    by (cases "c (gas_action_id p)")
      (fastforce simp: result_simps rbind_pair_Ok dest: route_deposit_returns)+
qed simp

lemma set_fold_insort: "set (fold insort_insert xs ys) = set xs \<union> set ys"
  by (induction xs arbitrary: ys) (auto simp: set_insort_insert)

lemma descends_union_closed:
  "descends ps ({i. descends ps A i} \<union> B) i \<longleftrightarrow> descends ps (A \<union> B) i"
proof
  show "descends ps (A \<union> B) i" if "descends ps ({i. descends ps A i} \<union> B) i"
    using that by (induction rule: descends.induct) (auto intro: descends.intros descends_mono)
  show "descends ps ({i. descends ps A i} \<union> B) i" if "descends ps (A \<union> B) i"
    using that by (rule descends_mono) (auto intro: descends.start)
qed

lemma competes_iff:
  "competes e expired p \<longleftrightarrow> gas_action_id p \<noteq> epc_action_id e \<and> gas_action_id p \<notin> set expired \<and>
   (\<exists>upd policy. gas_gov_action p = ParameterChange (epc_superseded_root e) upd policy)"
  by (cases "gas_gov_action p") (auto simp: competes_def)

lemma pruned_or_expired:
  fixes d ps
  defines "expired \<equiv> close_over_descendants ps (rd_expired d)"
  shows "i \<in> set expired \<or> i \<in> set (pruned_ids d ps expired) \<longleftrightarrow>
    descends ps (set (rd_expired d) \<union> rivals d ps) i"
proof (cases "rd_enacted d")
  case None
  then show ?thesis by (simp add: pruned_ids_def rivals_def expired_def set_close_over_descendants)
next
  case (Some e)
  let ?X = "{i. descends ps (set (rd_expired d)) i}"
  have x: "set expired = ?X" by (simp add: expired_def set_close_over_descendants)
  have "gas_action_id ` set (filter (competes e expired) ps) \<union> ?X = rivals d ps \<union> ?X"
    by (auto simp: competes_iff rivals_def Some x)
  then have "set expired \<union> set (pruned_ids d ps expired) = {i. descends ps (?X \<union> rivals d ps) i} \<union> ?X"
    by (auto simp: pruned_ids_def Some Let_def set_close_over_descendants set_fold_insort x Un_commute)
  moreover have "?X \<subseteq> {i. descends ps (set (rd_expired d) \<union> rivals d ps) i}"
    using descends_mono [of ps "set (rd_expired d)" _ "set (rd_expired d) \<union> rivals d ps"] by auto
  ultimately show ?thesis by (auto simp: descends_union_closed)
qed

lemma removal_cause_leaves:
  fixes d ps
  defines "expired \<equiv> close_over_descendants ps (rd_expired d)"
  shows "removal_cause expired (map_option epc_action_id (rd_enacted d)) (pruned_ids d ps expired) i \<noteq> None \<longleftrightarrow>
    leaves d ps i"
  using pruned_or_expired [of i ps d] by (auto simp: removal_cause_def leaves_def expired_def)

lemma apply_decision_exact:
  assumes "apply_decision d ps is_registered = Ok plan"
  shows "plan_proposals plan = filter (\<lambda>p. \<not> leaves d ps (gas_action_id p)) ps \<and>
    map rp_action_id (plan_removals plan) =
      map gas_action_id (filter (\<lambda>p. leaves d ps (gas_action_id p)) (sort_key gas_action_id ps)) \<and>
    deposits ps = deposits (plan_proposals plan) + sum_list (map returned (plan_deposit_returns plan))"
proof -
  let ?expired = "close_over_descendants ps (rd_expired d)"
  let ?c = "removal_cause ?expired (map_option epc_action_id (rd_enacted d)) (pruned_ids d ps ?expired)"
  let ?gone = "\<lambda>p. leaves d ps (gas_action_id p)"
  obtain removals returns where s: "settle ?c is_registered (sort_key gas_action_id ps) = Ok (removals, returns)"
    and plan: "plan_proposals plan = filter (\<lambda>p. gas_action_id p \<notin> set (map rp_action_id removals)) ps"
      "plan_removals plan = removals" "plan_deposit_returns plan = returns"
    using assms by (auto simp: apply_decision_def Let_def result_simps rbind_pair_Ok split: option.splits)
  have f: "filter (\<lambda>p. ?c (gas_action_id p) \<noteq> None) qs = filter ?gone qs" for qs
    by (rule filter_cong) (simp_all only: removal_cause_leaves)
  note settled = settle_removes [OF s, unfolded f]
  have "gas_action_id p \<notin> set (map rp_action_id removals) \<longleftrightarrow> \<not> ?gone p" if "p \<in> set ps" for p
    using settled that by auto
  then have kept: "plan_proposals plan = filter (\<lambda>p. \<not> ?gone p) ps"
    unfolding plan by (intro filter_cong) auto
  have "mset (sort_key gas_action_id ps) = mset ps" by simp
  then have "mset (filter ?gone (sort_key gas_action_id ps)) = mset (filter ?gone ps)"
    by (simp only: mset_filter)
  then have "sum_list (map returned returns) = deposits (filter ?gone ps)"
    using settled by (simp add: deposits_def flip: sum_mset_sum_list)
  moreover have "deposits ps = deposits (filter ?gone ps) + deposits (filter (\<lambda>p. \<not> ?gone p) ps)"
    by (rule deposits_split)
  ultimately show ?thesis using settled kept plan by simp
qed


definition sample_proposal :: "u32 \<Rightarrow> GovActionId option \<Rightarrow> EpochNo \<Rightarrow> GovActionState" where
  "sample_proposal i parent expires = \<lparr>gas_action_id = GovActionId [1] i, gas_committee_votes = [], gas_drep_votes = [],
     gas_spo_votes = [], gas_deposit = 100, gas_return_addr = 0xe0 # replicate 28 7,
     gas_gov_action = NoConfidence parent, gas_proposed_in = 1, gas_expires_after = expires\<rparr>"

definition sample_proposals :: "GovActionState list" where
  "sample_proposals = [sample_proposal 2 (Some (GovActionId [1] 1)) 9, sample_proposal 1 None 3, sample_proposal 0 None 9]"

definition sample_decision :: RatificationDecision where
  "sample_decision = \<lparr>rd_enacted = None, rd_expired = [GovActionId [1] 1]\<rparr>"


section \<open>Decisions\<close>

text \<open>A proposal that passes its thresholds at the epoch of the decision.\<close>

definition accepted_at :: "ConwayGovernanceEpochInput \<Rightarrow> u64 \<Rightarrow> GovActionState \<Rightarrow> bool" where
  "accepted_at inp epoch p \<longleftrightarrow> gas_gov_action p \<noteq> InfoAction \<and>
     (\<exists>active total. active_drep_stake_filtered (gi_drep_stake inp) (gi_drep_expiry inp) (gi_num_dormant inp) epoch =
        Ok (active, total) \<and>
      check_ratification p (gov_action_threshold_index (gas_gov_action p)) total active
        (gi_pool_stake inp) (gi_committee_members inp) (gi_committee_quorum inp) (gi_pool_thresholds inp)
        (gi_drep_thresholds inp) epoch (gi_committee_hot_keys inp))"

text \<open>A parameter change that extends the enacted root.\<close>

definition extends_root :: "ConwayGovernanceEpochInput \<Rightarrow> GovActionState \<Rightarrow> bool" where
  "extends_root inp p \<longleftrightarrow>
     (\<exists>prev upd policy. gas_gov_action p = ParameterChange prev upd policy \<and>
        lineage_ok (gi_current_prev_pparam_action inp) prev)"

definition is_parameter_change :: "GovActionState \<Rightarrow> bool" where
  "is_parameter_change p \<longleftrightarrow> (\<exists>prev upd policy. gas_gov_action p = ParameterChange prev upd policy)"

lemma scan_candidates_Ok:
  "scan_candidates inp accepted ps (ids0, cands0) = Ok (ids, cands) \<Longrightarrow>
   cands = cands0 @ filter (\<lambda>p. accepted p \<and> extends_root inp p) ps \<and>
   set ids = set ids0 \<union> gas_action_id ` {p \<in> set ps. gas_gov_action p \<noteq> InfoAction \<and> accepted p} \<and>
   (\<forall>p\<in>set ps. gas_gov_action p \<noteq> InfoAction \<and> accepted p \<longrightarrow> is_parameter_change p)"
proof (induction ps arbitrary: ids0 cands0)
  case (Cons p ps)
  show ?case
  proof (cases "gas_gov_action p = InfoAction \<or> \<not> accepted p")
    case True
    then show ?thesis using Cons.IH [of ids0 cands0] Cons.prems by (auto simp: extends_root_def)
  next
    case False
    then obtain prev upd policy where a: "gas_gov_action p = ParameterChange prev upd policy"
      using Cons.prems by (cases "gas_gov_action p") auto
    have "scan_candidates inp accepted ps (insort_insert (gas_action_id p) ids0,
        if lineage_ok (gi_current_prev_pparam_action inp) prev then cands0 @ [p] else cands0) = Ok (ids, cands)"
      using Cons.prems False a by (auto split: if_splits)
    from Cons.IH [OF this] False a show ?thesis
      by (auto simp: extends_root_def is_parameter_change_def set_insort_insert)
  qed
qed simp

lemma build_enactment_Ok:
  assumes "build_parameter_change_enactment p cur = Ok e"
  shows "epc_action_id e = gas_action_id p \<and>
    (\<exists>upd policy. gas_gov_action p = ParameterChange (epc_superseded_root e) upd policy) \<and>
    (\<exists>dec. epc_pparams e = build_enacted_pparams cur dec \<and>
      (\<forall>tx. epu_max_tx_ex_units dec = Some tx \<longrightarrow> exu_steps tx = ppar_max_tx_ex_units_cpu cur) \<and>
      (\<forall>blk. epu_max_block_ex_units dec = Some blk \<longrightarrow>
         (\<exists>m. ppar_max_block_ex_units cur = Bound m (exu_steps blk))))"
  using assms
  by (cases "gas_gov_action p")
    (auto simp: build_parameter_change_enactment_def Let_def result_simps
       split: option.splits MaxBlockExUnits.splits intro!: exI)

text \<open>The parameters an enactment may change, with the steps kept.\<close>

definition only_limits_change :: "ProtocolParameters \<Rightarrow> ProtocolParameters \<Rightarrow> bool" where
  "only_limits_change cur pp \<longleftrightarrow>
     (\<exists>mem blk cost. pp = cur\<lparr>ppar_max_tx_ex_units_mem := mem, ppar_max_block_ex_units := blk, ppar_min_pool_cost := cost\<rparr> \<and>
        (ppar_max_block_ex_units cur = Unversioned \<longrightarrow> blk = Unversioned) \<and>
        (\<forall>m steps. ppar_max_block_ex_units cur = Bound m steps \<longrightarrow> (\<exists>m'. blk = Bound m' steps)))"

lemma enacted_only_limits:
  assumes "build_parameter_change_enactment p cur = Ok e"
  shows "only_limits_change cur (epc_pparams e)"
proof -
  obtain dec where d: "epc_pparams e = build_enacted_pparams cur dec"
    "\<And>blk. epu_max_block_ex_units dec = Some blk \<Longrightarrow> \<exists>m. ppar_max_block_ex_units cur = Bound m (exu_steps blk)"
    using build_enactment_Ok [OF assms] by blast
  let ?mem = "case epu_max_tx_ex_units dec of Some tx \<Rightarrow> exu_mem tx | None \<Rightarrow> ppar_max_tx_ex_units_mem cur"
  let ?blk = "case epu_max_block_ex_units dec of Some b \<Rightarrow> Bound (exu_mem b) (exu_steps b) | None \<Rightarrow> ppar_max_block_ex_units cur"
  let ?cost = "case epu_min_pool_cost dec of Some c \<Rightarrow> c | None \<Rightarrow> ppar_min_pool_cost cur"
  have "epc_pparams e = cur\<lparr>ppar_max_tx_ex_units_mem := ?mem, ppar_max_block_ex_units := ?blk, ppar_min_pool_cost := ?cost\<rparr>"
    by (simp add: d(1) build_enacted_pparams_def Let_def split: option.splits)
  moreover have "ppar_max_block_ex_units cur = Unversioned \<longrightarrow> ?blk = Unversioned"
    "ppar_max_block_ex_units cur = Bound m steps \<longrightarrow> (\<exists>m'. ?blk = Bound m' steps)" for m steps
    using d(2) by (auto split: option.splits)
  ultimately show ?thesis unfolding only_limits_change_def by blast
qed

lemma chains_onto_iff:
  "chains_onto w ids p \<longleftrightarrow> is_parameter_change p \<and> gov_action_parent (gas_gov_action p) = Some w \<and> gas_action_id p \<in> set ids"
  by (cases "gas_gov_action p") (auto simp: chains_onto_def is_parameter_change_def)

lemma decide_ratification_Ok:
  assumes "decide_ratification inp epoch = Ok d"
  shows "(\<forall>p\<in>set (gi_proposals inp). accepted_at inp epoch p \<longrightarrow> is_parameter_change p) \<and>
    (filter (\<lambda>p. accepted_at inp epoch p \<and> extends_root inp p) (sort_key gas_action_id (gi_proposals inp)) = [] \<and>
       rd_enacted d = None \<or>
     (\<exists>w e. filter (\<lambda>p. accepted_at inp epoch p \<and> extends_root inp p) (sort_key gas_action_id (gi_proposals inp)) = [w] \<and>
        rd_enacted d = Some e \<and> build_parameter_change_enactment w (gi_current_pparams inp) = Ok e)) \<and>
    (\<forall>e. rd_enacted d = Some e \<longrightarrow> (\<forall>p\<in>set (gi_proposals inp). accepted_at inp epoch p \<longrightarrow>
       gov_action_parent (gas_gov_action p) \<noteq> Some (epc_action_id e))) \<and>
    set (rd_expired d) = {gas_action_id p | p. p \<in> set (gi_proposals inp) \<and> gas_expires_after p < epoch \<and>
       map_option epc_action_id (rd_enacted d) \<noteq> Some (gas_action_id p)}"
proof -
  obtain active total where act: "active_drep_stake_filtered (gi_drep_stake inp) (gi_drep_expiry inp)
      (gi_num_dormant inp) epoch = Ok (active, total)"
    using assms by (auto simp: decide_ratification_def result_simps)
  let ?acc = "\<lambda>p. check_ratification p (gov_action_threshold_index (gas_gov_action p)) total active
    (gi_pool_stake inp) (gi_committee_members inp) (gi_committee_quorum inp) (gi_pool_thresholds inp)
    (gi_drep_thresholds inp) epoch (gi_committee_hot_keys inp)"
  let ?sorted = "sort_key gas_action_id (gi_proposals inp)"
  have acc: "accepted_at inp epoch p \<longleftrightarrow> gas_gov_action p \<noteq> InfoAction \<and> ?acc p" for p
    by (auto simp: accepted_at_def act)
  obtain ids cands where scan: "scan_candidates inp ?acc ?sorted ([], []) = Ok (ids, cands)"
    using assms by (auto simp: decide_ratification_def act Let_def result_simps)
  note sc = scan_candidates_Ok [OF scan, simplified]
  have cands: "cands = filter (\<lambda>p. accepted_at inp epoch p \<and> extends_root inp p) ?sorted"
    using sc by (auto simp: acc extends_root_def intro!: filter_cong)
  have ids: "set ids = gas_action_id ` {p \<in> set (gi_proposals inp). accepted_at inp epoch p}"
    using sc by (simp add: acc)
  have all_pc: "\<forall>p\<in>set (gi_proposals inp). accepted_at inp epoch p \<longrightarrow> is_parameter_change p"
    using sc by (simp add: acc)
  have shape: "cands = [] \<and> rd_enacted d = None \<or>
      (\<exists>w e. cands = [w] \<and> rd_enacted d = Some e \<and> build_parameter_change_enactment w (gi_current_pparams inp) = Ok e)"
    using assms by (auto simp: decide_ratification_def act Let_def scan result_simps split: list.splits option.splits)
  have find: "\<forall>e. rd_enacted d = Some e \<longrightarrow> find (chains_onto (epc_action_id e) ids) (gi_proposals inp) = None"
    using assms by (auto simp: decide_ratification_def act Let_def scan result_simps split: list.splits option.splits)
  have expired: "rd_expired d = fold insort_insert (map gas_action_id (filter (\<lambda>p. Some (gas_action_id p) \<noteq>
      map_option epc_action_id (rd_enacted d) \<and> gas_expires_after p < epoch) ?sorted)) []"
    using assms by (auto simp: decide_ratification_def act Let_def scan result_simps)
  show ?thesis
    using all_pc shape find ids cands
    by (fastforce simp: find_None_iff chains_onto_iff expired set_fold_insort)
qed


lemmas update_eval = decode_enactable_param_update_def read_map_header_def read_uint_def read_array_header_def
  decode_initial_def read_byte_def peek_byte_def decode_argument_def cbor_consts param_update_entry_def
  read_ex_units_value_def PPU_KEY_MIN_POOL_COST_def PPU_KEY_MAX_TX_EX_UNITS_def PPU_KEY_MAX_BLOCK_EX_UNITS_def

lemmas bounds_eval = enactable_update_within_bounds_def MAX_LEN_def MAX_DEPTH_def bounds_walk.simps bounds_item_def
  head_argument_def Let_def open_level_def use_slot_def checked_mul_def

definition sample_update :: "GovActionState" where
  "sample_update = (sample_proposal 5 None 9)\<lparr>gas_gov_action :=
     ParameterChange None [0xa1, 0x14, 0x82, 0x07, 0x09] None\<rparr>"

definition sample_gov_input :: ConwayGovernanceEpochInput where
  "sample_gov_input = \<lparr>gi_proposals = [sample_update, sample_proposal 2 None 3], gi_drep_stake = [(AlwaysNoConfidence, 10)],
     gi_pool_stake = [], gi_committee_members = [], gi_committee_quorum = rational_one, gi_pool_thresholds = [],
     gi_drep_thresholds = [(1, 2)], gi_committee_hot_keys = [], gi_drep_expiry = [], gi_num_dormant = DormantBound 0,
     gi_current_pparams = ProtocolParameters_default\<lparr>ppar_max_block_ex_units := Bound 1 2, ppar_max_tx_ex_units_cpu := 9\<rparr>,
     gi_current_prev_pparam_action = NoPreviousAction, gi_new_epoch = 5\<rparr>"


section \<open>Updates\<close>

text \<open>
  An accepted update that changes the minimal pool cost alone is refused as having no enactable
  field, although the minimal pool cost is one of the supported parameters.
\<close>

theorem min_pool_cost_alone_refused:
  assumes "gas_gov_action p = ParameterChange prev upd policy" "enactable_update_within_bounds upd"
    and "decode_enactable_param_update upd = Ok dec"
    and "epu_unsupported_fields dec = []" "epu_max_tx_ex_units dec = None" "epu_max_block_ex_units dec = None"
  shows "epu_min_pool_cost dec = Some c \<longrightarrow>
    build_parameter_change_enactment p cur = Err (UnsupportedRatifiedAction (gas_action_id p) NoEnactableField [])"
  using assms by (simp add: build_parameter_change_enactment_def)

theorem min_pool_cost_alone_refused_witness:
  "\<exists>dec. decode_enactable_param_update [0xa1, 0x10, 0x18, 0x64] = Ok dec \<and>
     epu_min_pool_cost dec = Some 100 \<and>
     build_parameter_change_enactment
       (sample_update\<lparr>gas_gov_action := ParameterChange None [0xa1, 0x10, 0x18, 0x64] None\<rparr>)
       ProtocolParameters_default =
     Err (UnsupportedRatifiedAction (gas_action_id sample_update) NoEnactableField [])"
proof -
  let ?u = "[0xa1, 0x10, 0x18, 0x64] :: bytes"
  let ?p = "sample_update\<lparr>gas_gov_action := ParameterChange None ?u None\<rparr>"
  have b: "enactable_update_within_bounds ?u" by (simp add: bounds_eval)
  have "decode_enactable_param_update ?u = Ok \<lparr>epu_max_tx_ex_units = None, epu_max_block_ex_units = None,
      epu_min_pool_cost = Some 100, epu_unsupported_fields = []\<rparr>" (is "_ = Ok ?dec")
    by (simp add: update_eval)
  from b this min_pool_cost_alone_refused [of ?p None ?u None ?dec 100 ProtocolParameters_default]
  show ?thesis by simp
qed

section \<open>The closure loop ends\<close>

lemma close_over_descendants_iterates:
  "\<exists>n \<le> unremoved ps r. close_over_descendants ps r = ((\<lambda>r. fst (close_pass ps r)) ^^ n) r \<and>
     \<not> snd (close_pass ps (close_over_descendants ps r))"
proof (induction ps r rule: close_over_descendants.induct)
  case (1 ps r)
  obtain r' added where p: "close_pass ps r = (r', added)" by (cases "close_pass ps r")
  show ?case
  proof (cases added)
    case True
    then obtain n where n: "n \<le> unremoved ps r'"
        "close_over_descendants ps r' = ((\<lambda>r. fst (close_pass ps r)) ^^ n) r'"
        "\<not> snd (close_pass ps (close_over_descendants ps r'))"
      using 1 [OF p [symmetric]] by auto
    moreover have "close_over_descendants ps r = close_over_descendants ps r'"
      using p True by (simp add: close_over_descendants.simps [of ps r])
    moreover have "Suc n \<le> unremoved ps r" using n(1) close_pass_shrinks p True by fastforce
    ultimately show ?thesis using p by (intro exI [of _ "Suc n"]) (simp add: funpow_Suc_right del: funpow.simps)
  next
    case False
    then have "close_over_descendants ps r = r"
      using p close_fold_idle [of r False ps] by (auto simp: close_over_descendants.simps [of ps r] close_pass_def)
    then show ?thesis using p False by (intro exI [of _ 0]) simp
  qed
qed

text \<open>
  C29. The loop of \<^verbatim>\<open>close_over_descendants\<close>, which the source runs until a pass adds nothing, ends
  after at most as many adding passes as there are proposals, whatever the parent links are (cycles
  included), and its result is then exactly the set of descendants of the removed proposals: the
  removed ones, their children, the children of those, and nothing else.
\<close>

theorem descendant_closure_terminates:
  "(\<exists>n \<le> length ps. close_over_descendants ps r = ((\<lambda>r. fst (close_pass ps r)) ^^ n) r \<and>
      close_pass ps (close_over_descendants ps r) = (close_over_descendants ps r, False)) \<and>
   set (close_over_descendants ps r) = {i. descends ps (set r) i}"
proof -
  let ?res = "close_over_descendants ps r"
  obtain n where n: "n \<le> unremoved ps r" "?res = ((\<lambda>r. fst (close_pass ps r)) ^^ n) r" "\<not> snd (close_pass ps ?res)"
    using close_over_descendants_iterates by blast
  have "fst (close_pass ps ?res) = ?res" using n(3) close_fold_idle [of ?res False ps] by (simp add: close_pass_def)
  then have "close_pass ps ?res = (?res, False)" using n(3) by (simp add: prod_eq_iff)
  moreover have "n \<le> length ps" using n(1) by (simp add: unremoved_def le_trans)
  ultimately show ?thesis using n(2) set_close_over_descendants [of ps r] by blast
qed

end
