(* ===== verification/Frozen_Ratification.thy ===== *)
theory Frozen_Ratification
  imports Epoch_State Gov_Plan
begin

text \<open>
  Ratification frozen at an epoch boundary and applied at the next one
  (\<^verbatim>\<open>ade_ledger/src/governance/frozen.rs\<close>): the stake distributions of representatives and pools, the
  record of the decision, its application, and the import of a snapshot's finished ratification.
  The borrowed views of the source are the fields of \<open>FrozenRatificationInput\<close>.
\<close>

record BoundaryBaseStake =
  bbs_boundary_point :: SlotNo
  bbs_canonical_credential_stake :: "(StakeCredential, Coin) btree_map"

record FrozenRatificationInput =
  fri_mark :: StakeSnapshot
  fri_delegated_at_snap :: "PoolId list"
  fri_utxo_stake :: "(StakeCredential, Coin) btree_map"
  fri_delegation :: DelegationState
  fri_gov :: "GovRest ConwayGovState"
  fri_pparams :: ProtocolParameters
  fri_epoch :: EpochNo

definition at_boundary ::
  "LedgerState \<Rightarrow> BoundaryBaseStake \<Rightarrow> PoolId list \<Rightarrow> (FrozenRatificationInput option, GovernanceTerminal) result" where
  "at_boundary nxt base delegated_at_snap =
     (let point = est_slot (lst_epoch_state nxt) in
      rbind (ok_or (GovernanceTerminal.FullBoundaryStateRequired point)
               (snapshots_as_authoritative (est_snapshots (lst_epoch_state nxt)))) (\<lambda>snaps.
      rbind (cert_require_full (lst_cert_state nxt) point) (\<lambda>cert.
      rbind (gov_require_full (lst_gov_state nxt) point) (\<lambda>gov.
      case gov of
        None \<Rightarrow> Ok None
      | Some gov \<Rightarrow>
          Ok (Some \<lparr>fri_mark = snap_mark snaps, fri_delegated_at_snap = delegated_at_snap,
                    fri_utxo_stake = bbs_canonical_credential_stake base, fri_delegation = delegation cert,
                    fri_gov = gov, fri_pparams = lst_protocol_params nxt,
                    fri_epoch = est_epoch (lst_epoch_state nxt)\<rparr>)))))"

section \<open>Distributions\<close>

text \<open>\<^verbatim>\<open>let e = out.entry(k).or_insert(Coin(0)); e.0 = e.0.saturating_add(c);\<close>.\<close>

definition add_coin :: "'k::linorder \<Rightarrow> Coin \<Rightarrow> ('k, Coin) btree_map \<Rightarrow> ('k, Coin) btree_map" where
  "add_coin k c m = bt_insert k (saturating_add (or_0 (bt_get m k)) c) m"

fun deposits_by_return_credential ::
  "GovActionState list \<Rightarrow> (StakeCredential, Coin) btree_map \<Rightarrow> ((StakeCredential, Coin) btree_map, GovernanceTerminal) result" where
  "deposits_by_return_credential [] acc = Ok acc"
| "deposits_by_return_credential (p # ps) acc =
     rbind (ok_or (GovernanceTerminal.Malformed (gas_action_id p) ReturnAddrNotRewardAccount)
              (reward_account_credential (gas_return_addr p))) (\<lambda>cred.
     deposits_by_return_credential ps (add_coin cred (gas_deposit p) acc))"

fun count_vote_delegations ::
  "FrozenRatificationInput \<Rightarrow> (StakeCredential, Coin) btree_map \<Rightarrow> (StakeCredential \<times> DRep) list \<Rightarrow>
   (DRep, Coin) btree_map \<Rightarrow> ((DRep, Coin) btree_map, GovernanceTerminal) result" where
  "count_vote_delegations inp deps [] acc = Ok acc"
| "count_vote_delegations inp deps ((cred, drep) # rest) acc =
     (if \<not> bt_contains_key (registrations (fri_delegation inp)) cred
      then Err (DanglingVoteDelegation cred UnregisteredAccount)
      else if (case drep_credential drep of
                 Some target \<Rightarrow> \<not> bt_contains_key (drep_expiry (fri_gov inp)) target
               | None \<Rightarrow> False)
      then Err (DanglingVoteDelegation cred UnregisteredDRep)
      else let stake = saturating_add (saturating_add (or_0 (bt_get (fri_utxo_stake inp) cred))
                          (or_0 (bt_get (rewards (fri_delegation inp)) cred))) (or_0 (bt_get deps cred))
           in count_vote_delegations inp deps rest (add_coin drep stake acc))"

definition derive_frozen_drep_distribution ::
  "FrozenRatificationInput \<Rightarrow> ((DRep, Coin) btree_map, GovernanceTerminal) result" where
  "derive_frozen_drep_distribution inp =
     rbind (deposits_by_return_credential (gr_proposals (gov_rest (fri_gov inp))) bt_empty) (\<lambda>deps.
     count_vote_delegations inp deps (vote_delegations (fri_gov inp)) bt_empty)"

definition add_pool_deposit ::
  "(StakeCredential, PoolId) btree_map \<Rightarrow> (PoolId, Coin) btree_map \<Rightarrow> StakeCredential \<times> Coin \<Rightarrow> (PoolId, Coin) btree_map" where
  "add_pool_deposit dels m = (\<lambda>(cred, deposit).
     case bt_get dels cred of
       None \<Rightarrow> m
     | Some p \<Rightarrow> (case bt_get m p of None \<Rightarrow> m | Some stake \<Rightarrow> bt_insert p (saturating_add stake deposit) m))"

definition derive_frozen_pool_distribution ::
  "FrozenRatificationInput \<Rightarrow> ((PoolId, Coin) btree_map, GovernanceTerminal) result" where
  "derive_frozen_pool_distribution inp =
     (let present = foldl (\<lambda>m p. if bt_contains_key m p then m else bt_insert p 0 m)
                      (ss_pool_stakes (fri_mark inp)) (fri_delegated_at_snap inp)
      in rbind (deposits_by_return_credential (gr_proposals (gov_rest (fri_gov inp))) bt_empty) (\<lambda>deps.
         Ok (foldl (add_pool_deposit (delegations (fri_delegation inp))) present deps)))"

section \<open>The record\<close>

fun from_terminal :: "GovernanceTerminal \<Rightarrow> (UnenactableReason, GovernanceTerminal) result" where
  "from_terminal (UnsupportedRatifiedAction i kind keys) = Ok (ReasonUnsupportedRatifiedAction i kind keys)"
| "from_terminal (UnversionedStateOnEnactPath i) = Ok (ReasonUnversionedStateOnEnactPath i)"
| "from_terminal GovernanceTerminal.DormantRequired = Ok ReasonDormantRequired"
| "from_terminal other = Err other"

fun reason_terminal :: "UnenactableReason \<Rightarrow> GovernanceTerminal" where
  "reason_terminal (ReasonUnsupportedRatifiedAction i kind keys) = UnsupportedRatifiedAction i kind keys"
| "reason_terminal (ReasonUnversionedStateOnEnactPath i) = UnversionedStateOnEnactPath i"
| "reason_terminal ReasonDormantRequired = GovernanceTerminal.DormantRequired"

definition decide_input ::
  "FrozenRatificationInput \<Rightarrow> (DRep, Coin) btree_map \<Rightarrow> (PoolId, Coin) btree_map \<Rightarrow> ConwayGovernanceEpochInput" where
  "decide_input inp dreps pool_dist =
     (let gov = fri_gov inp; r = gov_rest gov in
      \<lparr>gi_proposals = gr_proposals r, gi_drep_stake = dreps, gi_pool_stake = pool_dist,
       gi_committee_members = gr_committee r,
       gi_committee_quorum = or_one (Rational_new (uint (fst (gr_committee_quorum r)))
                                                  (uint (max (snd (gr_committee_quorum r)) 1))),
       gi_pool_thresholds = gr_pool_voting_thresholds r, gi_drep_thresholds = gr_drep_voting_thresholds r,
       gi_committee_hot_keys = committee_hot_keys gov, gi_drep_expiry = drep_expiry gov,
       gi_num_dormant = gr_num_dormant r, gi_current_pparams = fri_pparams inp,
       gi_current_prev_pparam_action = gr_prev_pparam_action r, gi_new_epoch = saturating_add (fri_epoch inp) 1\<rparr>)"

definition ratify_frozen :: "FrozenRatificationInput \<Rightarrow> (RatificationRecord, GovernanceTerminal) result" where
  "ratify_frozen inp =
     rbind (derive_frozen_drep_distribution inp) (\<lambda>dreps.
     rbind (derive_frozen_pool_distribution inp) (\<lambda>pool_dist.
     rbind (case decide_ratification (decide_input inp dreps pool_dist) (fri_epoch inp) of
              Ok decision \<Rightarrow> Ok (Decided decision)
            | Err terminal \<Rightarrow> rbind (from_terminal terminal) (\<lambda>reason. Ok (Unenactable reason))) (\<lambda>outcome.
     Ok \<lparr>rec_frozen_at = fri_epoch inp, rec_source = Frozen,
         rec_frozen_proposals = fold insort_insert (map gas_action_id (gr_proposals (gov_rest (fri_gov inp)))) [],
         rec_drep_distribution = dreps, rec_pool_distribution = pool_dist, rec_outcome = outcome\<rparr>)))"

definition apply_ratification_record ::
  "RatificationRecord \<Rightarrow> EpochNo \<Rightarrow> GovActionState list \<Rightarrow> (StakeCredential \<Rightarrow> bool) \<Rightarrow>
   (ConwayGovernanceEpochPlan, GovernanceTerminal) result" where
  "apply_ratification_record record new_epoch current is_registered_now =
     (if checked_add (rec_frozen_at record) 1 \<noteq> Some new_epoch
      then Err (RatificationRecordEpochMismatch (rec_frozen_at record) new_epoch)
      else case rec_outcome record of
             Decided decision \<Rightarrow> apply_decision decision current is_registered_now
           | Unenactable reason \<Rightarrow> Err (reason_terminal reason))"

section \<open>Import\<close>

record SnapshotRatification =
  sr_proposals :: "GovActionId list"
  sr_drep_distribution :: "(DRep, Coin) btree_map"
  sr_pool_distribution :: "(PoolId, Coin) btree_map"
  sr_enacted :: "GovActionState list"
  sr_expired :: "GovActionId list"
  sr_delayed :: bool
  sr_enacted_pparams :: ProtocolParameters
  sr_enacted_pparam_root :: "GovActionId option"

datatype RatificationImportRefusal =
    DelayedWithoutUnenactableAction
  | EnactedParametersMismatch
  | EnactedRootMismatch "GovActionId option" "GovActionId option"

definition parameter_change :: "GovAction \<Rightarrow> bool" where
  "parameter_change a = (case a of ParameterChange _ _ _ \<Rightarrow> True | _ \<Rightarrow> False)"

definition import_outcome ::
  "SnapshotRatification \<Rightarrow> ProtocolParameters \<Rightarrow> (RatificationOutcome, RatificationImportRefusal) result" where
  "import_outcome snap current_pparams =
     (case sr_enacted snap of
        [] \<Rightarrow> Ok (Decided \<lparr>rd_enacted = None, rd_expired = sr_expired snap\<rparr>)
      | [one] \<Rightarrow>
          (case build_parameter_change_enactment one current_pparams of
             Ok e \<Rightarrow> Ok (Decided \<lparr>rd_enacted = Some e, rd_expired = sr_expired snap\<rparr>)
           | Err t \<Rightarrow> rbind (map_err (\<lambda>_. EnactedParametersMismatch) (from_terminal t)) (\<lambda>r. Ok (Unenactable r)))
      | _ # second # _ \<Rightarrow>
          (case find (\<lambda>p. \<not> parameter_change (gas_gov_action p)) (sort_key gas_action_id (sr_enacted snap)) of
             Some p \<Rightarrow> Ok (Unenactable (ReasonUnsupportedRatifiedAction (gas_action_id p) NotParameterChange []))
           | None \<Rightarrow> Ok (Unenactable (ReasonUnsupportedRatifiedAction (gas_action_id second) ChainedEnactment []))))"

definition import_snapshot_ratification ::
  "EpochNo \<Rightarrow> SnapshotRatification \<Rightarrow> ProtocolParameters \<Rightarrow> GovActionId option \<Rightarrow>
   (RatificationRecord, RatificationImportRefusal) result" where
  "import_snapshot_ratification frozen_at snap current_pparams current_root =
     rbind (import_outcome snap current_pparams) (\<lambda>outcome.
     rbind (case outcome of
              Decided d \<Rightarrow>
                rbind (reject_if (sr_delayed snap) DelayedWithoutUnenactableAction) (\<lambda>_.
                let (built, new_root) = (case rd_enacted d of
                                       Some e \<Rightarrow> (epc_pparams e, Some (epc_action_id e))
                                     | None \<Rightarrow> (current_pparams, current_root)) in
                rbind (reject_if (built \<noteq> sr_enacted_pparams snap) EnactedParametersMismatch) (\<lambda>_.
                reject_if (new_root \<noteq> sr_enacted_pparam_root snap)
                  (EnactedRootMismatch new_root (sr_enacted_pparam_root snap))))
            | Unenactable _ \<Rightarrow> Ok ()) (\<lambda>_.
     Ok \<lparr>rec_frozen_at = frozen_at, rec_source = ImportedFromSnapshot, rec_frozen_proposals = sr_proposals snap,
         rec_drep_distribution = sr_drep_distribution snap, rec_pool_distribution = sr_pool_distribution snap,
         rec_outcome = outcome\<rparr>))"

record DistributionDifferential =
  dd_matching :: nat
  dd_differing :: nat
  dd_only_self :: nat
  dd_only_reference :: nat

definition differential_of ::
  "('k::linorder, 'v) btree_map \<Rightarrow> ('k, 'v) btree_map \<Rightarrow> DistributionDifferential" where
  "differential_of a b =
     (let d = foldl (\<lambda>d (k, v).
            case bt_get b k of
              Some w \<Rightarrow> if w = v then d\<lparr>dd_matching := dd_matching d + 1\<rparr> else d\<lparr>dd_differing := dd_differing d + 1\<rparr>
            | None \<Rightarrow> d\<lparr>dd_only_self := dd_only_self d + 1\<rparr>)
          \<lparr>dd_matching = 0, dd_differing = 0, dd_only_self = 0, dd_only_reference = 0\<rparr> a
      in d\<lparr>dd_only_reference := length (filter (\<lambda>k. \<not> bt_contains_key a k) (bt_keys b))\<rparr>)"

definition differential_is_exact :: "DistributionDifferential \<Rightarrow> bool" where
  "differential_is_exact d \<longleftrightarrow> dd_differing d = 0 \<and> dd_only_self d = 0 \<and> dd_only_reference d = 0"

section \<open>A frozen decision is applied\<close>

lemma find_missing:
  "set (map gas_action_id ps) \<subseteq> set (map gas_action_id current) \<Longrightarrow> set named \<subseteq> set (map gas_action_id ps) \<Longrightarrow>
   find (\<lambda>i. \<not> (\<exists>p\<in>set current. gas_action_id p = i)) named = None"
  by (fastforce simp: find_None_iff)

lemma route_deposit_total: "length (gas_return_addr p) = 29 \<Longrightarrow> \<exists>r. route_deposit reg p = Ok r"
  by (auto simp: route_deposit_def reward_account_credential_def)

lemma settle_total:
  "\<forall>p\<in>set ps. length (gas_return_addr p) = 29 \<Longrightarrow> \<exists>r. settle c reg ps = Ok r"
proof (induction ps)
  case (Cons p ps)
  then obtain removals returns ret where "settle c reg ps = Ok (removals, returns)" "route_deposit reg p = Ok ret"
    using route_deposit_total [of p reg] by auto
  then show ?case by (auto split: option.splits)
qed simp

lemma apply_decision_total:
  assumes "set (rd_expired d) \<union> set_option (map_option epc_action_id (rd_enacted d)) \<subseteq> gas_action_id ` set current"
    and "\<forall>p\<in>set current. length (gas_return_addr p) = 29"
  shows "\<exists>plan. apply_decision d current reg = Ok plan"
proof -
  have "find (\<lambda>i. \<not> (\<exists>p\<in>set current. gas_action_id p = i))
      (rd_expired d @ (case map_option epc_action_id (rd_enacted d) of None \<Rightarrow> [] | Some i \<Rightarrow> [i])) = None"
    using assms(1) by (cases "rd_enacted d") (auto simp: find_None_iff)
  moreover obtain removals returns where
    "settle (removal_cause (close_over_descendants current (rd_expired d)) (map_option epc_action_id (rd_enacted d))
      (pruned_ids d current (close_over_descendants current (rd_expired d)))) reg (sort_key gas_action_id current) =
      Ok (removals, returns)"
    using settle_total [of "sort_key gas_action_id current"] assms(2) by (metis set_sort prod.exhaust)
  ultimately show ?thesis by (simp add: apply_decision_def Let_def)
qed

lemma decision_names_proposals:
  assumes "decide_ratification inp epoch = Ok d"
  shows "set (rd_expired d) \<union> set_option (map_option epc_action_id (rd_enacted d)) \<subseteq> gas_action_id ` set (gi_proposals inp)"
proof -
  note ok = decide_ratification_Ok [OF assms]
  have "epc_action_id e \<in> gas_action_id ` set (gi_proposals inp)" if "rd_enacted d = Some e" for e
  proof -
    obtain w where w: "filter (\<lambda>p. accepted_at inp epoch p \<and> extends_root inp p)
        (sort_key gas_action_id (gi_proposals inp)) = [w]"
      "build_parameter_change_enactment w (gi_current_pparams inp) = Ok e"
      using ok \<open>rd_enacted d = Some e\<close> by auto
    have "w \<in> set (filter (\<lambda>p. accepted_at inp epoch p \<and> extends_root inp p) (sort_key gas_action_id (gi_proposals inp)))"
      by (simp only: w(1)) simp
    then show ?thesis using build_enactment_Ok [OF w(2)] by auto
  qed
  with ok show ?thesis by auto
qed

lemma ratify_frozen_Ok:
  assumes "ratify_frozen inp = Ok record"
  shows "\<exists>dreps pool_dist. rec_frozen_at record = fri_epoch inp \<and>
    derive_frozen_drep_distribution inp = Ok dreps \<and> derive_frozen_pool_distribution inp = Ok pool_dist \<and>
    (\<forall>d. rec_outcome record = Decided d \<longrightarrow>
       decide_ratification (decide_input inp dreps pool_dist) (fri_epoch inp) = Ok d)"
proof -
  obtain dreps pool_dist where d: "derive_frozen_drep_distribution inp = Ok dreps"
    "derive_frozen_pool_distribution inp = Ok pool_dist"
    using assms by (auto simp: ratify_frozen_def rbind_eq_Ok)
  show ?thesis
  proof (cases "decide_ratification (decide_input inp dreps pool_dist) (fri_epoch inp)")
    case (Inl t)
    then show ?thesis using assms d by (auto simp: ratify_frozen_def rbind_eq_Ok)
  next
    case (Inr dec)
    then show ?thesis using assms d by (auto simp: ratify_frozen_def)
  qed
qed

lemma decide_input_proposals: "gi_proposals (decide_input inp dreps pool_dist) = gr_proposals (gov_rest (fri_gov inp))"
  by (simp add: decide_input_def Let_def)


definition sample_info :: GovActionState where
  "sample_info = (sample_proposal 1 None 3)\<lparr>gas_gov_action := InfoAction\<rparr>"

definition sample_frozen :: FrozenRatificationInput where
  "sample_frozen = \<lparr>fri_mark = StakeSnapshot_new, fri_delegated_at_snap = [[3]],
     fri_utxo_stake = [(StakeCredential.KeyHash [1], 40)],
     fri_delegation = \<lparr>registrations = [(StakeCredential.KeyHash [1], 2)], delegations = [], rewards = [(StakeCredential.KeyHash [1], 5)]\<rparr>,
     fri_gov = \<lparr>drep_expiry = [], vote_delegations = [(StakeCredential.KeyHash [1], AlwaysNoConfidence)], committee_hot_keys = [],
       gov_rest = \<lparr>gr_proposals = [sample_info], gr_committee = [], gr_committee_quorum = (2, 3), gr_gov_action_lifetime = 6,
         gr_pool_voting_thresholds = [(1, 2)], gr_drep_voting_thresholds = [(2, 3)], gr_num_dormant = DormantBound 0,
         gr_prev_pparam_action = NoPreviousAction, gr_ratification = RatificationUnversioned\<rparr>\<rparr>,
     fri_pparams = ProtocolParameters_default, fri_epoch = 5\<rparr>"


section \<open>Dangling vote delegations\<close>

lemma count_vote_delegations_dangling:
  assumes "(cred, drep) \<in> set vds" "\<not> bt_contains_key (registrations (fri_delegation inp)) cred"
  shows "\<exists>c k. count_vote_delegations inp deps vds acc = Err (DanglingVoteDelegation c k)"
  using assms(1)
proof (induction vds arbitrary: acc)
  case (Cons vd vds)
  show ?case
  proof (cases vd)
    case (Pair c d)
    then show ?thesis using Cons assms(2) by (auto simp: Let_def)
  qed
qed simp

lemma deposits_total:
  "\<forall>p\<in>set ps. length (gas_return_addr p) = 29 \<Longrightarrow> \<exists>m. deposits_by_return_credential ps acc = Ok m"
  by (induction ps arbitrary: acc) (auto simp: reward_account_credential_def)

text \<open>
  C30. A vote delegation by a credential that is not registered is accepted by both halves of the
  certificate rules, and from then on no ratification can be frozen: the next epoch boundary stops
  with a dangling vote delegation.
\<close>

theorem unregistered_vote_delegation_halts_boundary:
  assumes "bt_get (registrations (delegation s)) cred = None" "bt_wf (vote_delegations (fri_gov inp))"
    and "apply_conway_gov_cert (fri_gov inp) (ConwayCert.VoteDelegation cred drep) env i = Ok gov'"
    and "\<forall>p\<in>set (gr_proposals (gov_rest gov')). length (gas_return_addr p) = 29"
  shows "(\<exists>out. apply_conway_cert s (ConwayCert.VoteDelegation cred drep) cenv = Ok out \<and> cco_state out = s) \<and>
    (\<exists>c k. ratify_frozen (inp\<lparr>fri_gov := gov', fri_delegation := delegation s\<rparr>) = Err (DanglingVoteDelegation c k))"
proof
  show "\<exists>out. apply_conway_cert s (ConwayCert.VoteDelegation cred drep) cenv = Ok out \<and> cco_state out = s"
    by (simp add: outcome_defs)
  have "vote_delegations gov' = bt_insert cred drep (vote_delegations (fri_gov inp))"
    using assms(3) by (auto simp: delegate_vote_def result_simps split: option.splits if_splits)
  then have "bt_get (vote_delegations gov') cred = Some drep" "bt_wf (vote_delegations gov')"
    using assms(2) by (simp_all add: bt_get_insert bt_wf_insert)
  then have "(cred, drep) \<in> set (vote_delegations gov')" by (simp add: bt_get_Some)
  moreover obtain m where "deposits_by_return_credential (gr_proposals (gov_rest gov')) bt_empty = Ok m"
    using deposits_total [OF assms(4)] by blast
  ultimately show "\<exists>c k. ratify_frozen (inp\<lparr>fri_gov := gov', fri_delegation := delegation s\<rparr>) = Err (DanglingVoteDelegation c k)"
    using count_vote_delegations_dangling [of cred drep "vote_delegations gov'"
        "inp\<lparr>fri_gov := gov', fri_delegation := delegation s\<rparr>" m bt_empty] assms(1)
    by (auto simp: ratify_frozen_def derive_frozen_drep_distribution_def bt_contains_key_def)
qed

theorem unregistered_vote_delegation_halts_boundary_witness:
  "\<exists>gov' c k. apply_conway_gov_cert (fri_gov sample_frozen) (ConwayCert.VoteDelegation (StakeCredential.KeyHash [9]) AlwaysAbstain) None 0 = Ok gov' \<and>
     ratify_frozen (sample_frozen\<lparr>fri_gov := gov', fri_delegation := delegation CertState_new\<rparr>) = Err (DanglingVoteDelegation c k)"
proof -
  obtain gov' where g: "apply_conway_gov_cert (fri_gov sample_frozen)
      (ConwayCert.VoteDelegation (StakeCredential.KeyHash [9]) AlwaysAbstain) None 0 = Ok gov'"
    and rest: "gov_rest gov' = gov_rest (fri_gov sample_frozen)"
    by (simp add: delegate_vote_def)
  have "bt_get (registrations (delegation CertState_new)) (StakeCredential.KeyHash [9]) = None"
    by (simp add: CertState_new_def DelegationState_new_def bt_get_empty)
  moreover have "bt_wf (vote_delegations (fri_gov sample_frozen))" by (simp add: sample_frozen_def bt_wf_def)
  moreover have "\<forall>p\<in>set (gr_proposals (gov_rest gov')). length (gas_return_addr p) = 29"
    by (simp add: rest sample_frozen_def sample_info_def sample_proposal_def)
  ultimately show ?thesis
    using unregistered_vote_delegation_halts_boundary [OF _ _ g] g by blast
qed

end
