(* ===== verification/Stake_Ref.thy ===== *)
theory Stake_Ref
  imports Overlay_Utxo Cbor
begin

text \<open>
  Which stake credential an output counts for: the address decoder
  (\<^verbatim>\<open>ade_codec/src/address/mod.rs\<close>), the decoder of chain pointers for every era
  (\<^verbatim>\<open>address/pointer.rs\<close>), the resolution of pointers (\<^verbatim>\<open>ade_ledger/src/pointer_resolve.rs\<close>), the
  classification of outputs (\<^verbatim>\<open>stake_ref.rs\<close>) and the reduced record of an output
  (\<^verbatim>\<open>reduced_utxo.rs\<close>). A cursor into a byte slice is the rest of the slice behind it.
\<close>

section \<open>Addresses\<close>

datatype Address =
    AddrBase bytes
  | AddrPointer bytes
  | AddrEnterprise bytes
  | AddrByron bytes
  | AddrReward bytes

fun address_as_bytes :: "Address \<Rightarrow> bytes" where
  "address_as_bytes (AddrBase b) = b"
| "address_as_bytes (AddrPointer b) = b"
| "address_as_bytes (AddrEnterprise b) = b"
| "address_as_bytes (AddrByron b) = b"
| "address_as_bytes (AddrReward b) = b"

definition decode_address :: "bytes \<Rightarrow> (Address, CodecError) result" where
  "decode_address data =
     (if data = [] then Err (UnexpectedEof 0 1)
      else let addr_type = drop_bit 4 (data ! 0) in
        if addr_type \<in> {0, 1, 2, 3} then Ok (AddrBase data)
        else if addr_type \<in> {4, 5} then Ok (AddrPointer data)
        else if addr_type \<in> {6, 7} then Ok (AddrEnterprise data)
        else if addr_type = 8 then Ok (AddrByron data)
        else if addr_type \<in> {14, 15} then Ok (AddrReward data)
        else Err (InvalidCborStructure 0 ''unknown address type in header byte''))"

text \<open>\<^verbatim>\<open>CardanoEra\<close> derives its order from the discriminants.\<close>

definition era_at_least :: "CardanoEra \<Rightarrow> CardanoEra \<Rightarrow> bool" where
  "era_at_least a b \<longleftrightarrow> era_as_u8 b \<le> era_as_u8 a"

section \<open>Pointers\<close>

record Ptr =
  ptr_slot :: u32
  ptr_tx_index :: u16
  ptr_cert_index :: u16

datatype PointerDecodeError =
    NotAPointerAddress
  | TooShort
  | TruncatedVarint
  | OverWidth
  | TrailingBytes

text \<open>\<^verbatim>\<open>(result << 7) | (byte & 0x7f)\<close>.\<close>

definition add_group :: "u64 \<Rightarrow> u8 \<Rightarrow> u64" where
  "add_group acc byte = push_bit 7 acc OR ucast (byte AND 0x7f)"

fun width_groups ::
  "nat \<Rightarrow> u8 \<Rightarrow> u8 \<Rightarrow> bytes \<Rightarrow> u64 \<Rightarrow> nat \<Rightarrow> (u64 \<times> bytes, PointerDecodeError) result" where
  "width_groups max_groups surplus_mask first [] acc groups = Err TruncatedVarint"
| "width_groups max_groups surplus_mask first (byte # rest) acc groups =
     (let groups = groups + 1; acc = add_group acc byte in
      if byte AND 0x80 = 0
      then if groups = max_groups \<and> first AND surplus_mask \<noteq> 0 then Err OverWidth else Ok (acc, rest)
      else if groups = max_groups then Err OverWidth
      else width_groups max_groups surplus_mask first rest acc groups)"

definition decode_width_bounded :: "bytes \<Rightarrow> nat \<Rightarrow> (u64 \<times> bytes, PointerDecodeError) result" where
  "decode_width_bounded tail bits =
     (let max_groups = (bits + 6) div 7;
          ms_bits = bits - 7 * (max_groups - 1);
          allowed = ucast ((push_bit ms_bits 1 :: u16) - 1) :: u8;
          surplus_mask = 0x7f AND NOT allowed
      in case tail of
           [] \<Rightarrow> Err TruncatedVarint
         | first # _ \<Rightarrow> width_groups max_groups surplus_mask first tail 0 0)"

definition decode_pointer_strict :: "bytes \<Rightarrow> (Ptr, PointerDecodeError) result" where
  "decode_pointer_strict tail =
     rbind (decode_width_bounded tail 32) (\<lambda>(slot, rest).
     rbind (decode_width_bounded rest 16) (\<lambda>(tx, rest).
     rbind (decode_width_bounded rest 16) (\<lambda>(cert, rest).
     if rest \<noteq> [] then Err PointerDecodeError.TrailingBytes
     else Ok \<lparr>ptr_slot = ucast slot, ptr_tx_index = ucast tx, ptr_cert_index = ucast cert\<rparr>)))"

fun wrapping_groups :: "bytes \<Rightarrow> u64 \<Rightarrow> (u64 \<times> bytes, PointerDecodeError) result" where
  "wrapping_groups [] acc = Err TruncatedVarint"
| "wrapping_groups (byte # rest) acc =
     (if byte AND 0x80 = 0 then Ok (add_group acc byte, rest) else wrapping_groups rest (add_group acc byte))"

definition decode_u64_wrapping :: "bytes \<Rightarrow> (u64 \<times> bytes, PointerDecodeError) result" where
  "decode_u64_wrapping tail = wrapping_groups tail 0"

definition normalize_ptr :: "u64 \<Rightarrow> u64 \<Rightarrow> u64 \<Rightarrow> Ptr" where
  "normalize_ptr slot tx cert =
     (if slot \<le> 0xffffffff \<and> tx \<le> 0xffff \<and> cert \<le> 0xffff
      then \<lparr>ptr_slot = ucast slot, ptr_tx_index = ucast tx, ptr_cert_index = ucast cert\<rparr>
      else \<lparr>ptr_slot = 0, ptr_tx_index = 0, ptr_cert_index = 0\<rparr>)"

definition decode_pointer_normalized :: "bytes \<Rightarrow> CardanoEra \<Rightarrow> (Ptr, PointerDecodeError) result" where
  "decode_pointer_normalized tail era =
     rbind (decode_u64_wrapping tail) (\<lambda>(slot, rest).
     rbind (decode_u64_wrapping rest) (\<lambda>(tx, rest).
     rbind (decode_u64_wrapping rest) (\<lambda>(cert, rest).
     if rest \<noteq> [] \<and> era_at_least era Babbage then Err PointerDecodeError.TrailingBytes
     else Ok (normalize_ptr slot tx cert))))"

definition decode_pointer_tail :: "bytes \<Rightarrow> CardanoEra \<Rightarrow> (Ptr, PointerDecodeError) result" where
  "decode_pointer_tail tail era =
     (if era_at_least era Conway then decode_pointer_strict tail else decode_pointer_normalized tail era)"

definition decode_pointer_address :: "bytes \<Rightarrow> CardanoEra \<Rightarrow> (Ptr, PointerDecodeError) result" where
  "decode_pointer_address addr era =
     (if addr = [] then Err TooShort
      else let addr_type = drop_bit 4 (addr ! 0) in
        if addr_type \<noteq> 4 \<and> addr_type \<noteq> 5 then Err NotAPointerAddress
        else if length addr < 29 then Err TooShort
        else decode_pointer_tail (drop 29 addr) era)"

subsection \<open>Resolution\<close>

type_synonym PointerMap = "(u32 \<times> u16 \<times> u16, StakeCredential) btree_map"

definition pointer_insert ::
  "PointerMap \<Rightarrow> u32 \<Rightarrow> u16 \<Rightarrow> u16 \<Rightarrow> StakeCredential \<Rightarrow> bool \<times> PointerMap" where
  "pointer_insert m slot tx_i cert_i cred =
     (case bt_get m (slot, tx_i, cert_i) of
        None \<Rightarrow> (True, bt_insert (slot, tx_i, cert_i) cred m)
      | Some _ \<Rightarrow> (False, m))"

definition pointer_resolve :: "PointerMap \<Rightarrow> Ptr \<Rightarrow> StakeCredential option" where
  "pointer_resolve m p = bt_get m (ptr_slot p, ptr_tx_index p, ptr_cert_index p)"

section \<open>Stake references\<close>

record PointerRef =
  pref_slot :: u64
  pref_tx_index :: u64
  pref_cert_index :: u64

datatype StakeRefReject =
    RejectEmpty
  | UnknownAddressType
  | MalformedBase
  | MalformedPointer
  | RewardAddressNotValidAsOutput

datatype StakeRefClass =
    RefBase StakeCredential
  | RefPointer PointerRef
  | RefNull
  | RefReject StakeRefReject

fun varint_groups :: "bytes \<Rightarrow> u64 \<Rightarrow> (u64 \<times> bytes) option" where
  "varint_groups [] acc = None"
| "varint_groups (byte # rest) acc =
     (case checked_mul acc 128 of
        None \<Rightarrow> None
      | Some shifted \<Rightarrow>
          (case checked_add shifted (ucast (byte AND 0x7f)) of
             None \<Rightarrow> None
           | Some acc \<Rightarrow> if byte AND 0x80 = 0 then Some (acc, rest) else varint_groups rest acc))"

definition decode_varint :: "bytes \<Rightarrow> (u64 \<times> bytes) option" where
  "decode_varint tail = varint_groups tail 0"

definition decode_pointer_coords :: "bytes \<Rightarrow> PointerRef option" where
  "decode_pointer_coords tail =
     Option.bind (decode_varint tail) (\<lambda>(slot, rest).
     Option.bind (decode_varint rest) (\<lambda>(tx_i, rest).
     Option.bind (decode_varint rest) (\<lambda>(cert_i, rest).
     if rest \<noteq> [] then None
     else Some \<lparr>pref_slot = slot, pref_tx_index = tx_i, pref_cert_index = cert_i\<rparr>)))"

definition classify_output_stake_ref :: "bytes \<Rightarrow> CardanoEra \<Rightarrow> StakeRefClass" where
  "classify_output_stake_ref addr era =
     (case decode_address addr of
        Err (UnexpectedEof _ _) \<Rightarrow> RefReject RejectEmpty
      | Err _ \<Rightarrow> RefReject UnknownAddressType
      | Ok (AddrBase b) \<Rightarrow>
          if length b \<noteq> 57 then RefReject MalformedBase
          else let h = take 28 (drop 29 b) in
            if drop_bit 5 (b ! 0) AND 1 = 1 then RefBase (StakeCredential.ScriptHash h)
            else RefBase (StakeCredential.KeyHash h)
      | Ok (AddrPointer b) \<Rightarrow>
          if era_at_least era Conway then RefNull
          else if length b < 29 then RefReject MalformedPointer
          else (case decode_pointer_coords (drop 29 b) of
                  Some p \<Rightarrow> RefPointer p
                | None \<Rightarrow> RefReject MalformedPointer)
      | Ok (AddrEnterprise _) \<Rightarrow> RefNull
      | Ok (AddrByron _) \<Rightarrow> RefNull
      | Ok (AddrReward _) \<Rightarrow> RefReject RewardAddressNotValidAsOutput)"

subsection \<open>Reduced outputs\<close>

datatype ReducedStakeRef = ReducedBase StakeCredential | NonContributing

definition TAG_NON_CONTRIBUTING :: u8 where "TAG_NON_CONTRIBUTING = 0"
definition TAG_BASE_KEY :: u8 where "TAG_BASE_KEY = 1"
definition TAG_BASE_SCRIPT :: u8 where "TAG_BASE_SCRIPT = 2"

fun encode_reduced_ref :: "ReducedStakeRef \<Rightarrow> bytes" where
  "encode_reduced_ref NonContributing = [TAG_NON_CONTRIBUTING]"
| "encode_reduced_ref (ReducedBase (StakeCredential.KeyHash h)) = TAG_BASE_KEY # h"
| "encode_reduced_ref (ReducedBase (StakeCredential.ScriptHash h)) = TAG_BASE_SCRIPT # h"

definition decode_reduced_ref :: "bytes \<Rightarrow> (ReducedStakeRef \<times> nat) option" where
  "decode_reduced_ref bs =
     (case bs of
        [] \<Rightarrow> None
      | tag # rest \<Rightarrow>
          if tag = TAG_NON_CONTRIBUTING then Some (NonContributing, 1)
          else if tag = TAG_BASE_KEY \<or> tag = TAG_BASE_SCRIPT
          then (if length bs < 29 then None
                else let h = take 28 rest in
                  Some (ReducedBase (if tag = TAG_BASE_KEY then StakeCredential.KeyHash h else StakeCredential.ScriptHash h), 29))
          else None)"

definition reduce_txout :: "TxOut \<Rightarrow> Coin \<times> ReducedStakeRef" where
  "reduce_txout out =
     (out_coin out,
      case classify_output_stake_ref (address_bytes out) Conway of
        RefBase cred \<Rightarrow> ReducedBase cred
      | _ \<Rightarrow> NonContributing)"

definition encode_reduced_record :: "TxIn \<Rightarrow> Coin \<Rightarrow> ReducedStakeRef \<Rightarrow> bytes" where
  "encode_reduced_record txin coin reduced =
     tx_hash txin @ be_bytes 2 (unat (tx_index txin)) @ u64_to_be_bytes coin @ encode_reduced_ref reduced"

section \<open>The pointer decoders agree\<close>

lemma and_7f: "byte AND 0x7f = take_bit 7 (byte :: u8)"
  by (simp add: take_bit_eq_mask mask_eq_exp_minus_1)

lemma unat_and_7f: "unat (byte AND 0x7f :: u8) < 128"
  using take_bit_nat_less_exp [of 7 "unat byte"] by (simp add: and_7f unsigned_take_bit_eq)

lemma unat_add_group:
  assumes "unat acc * 128 < 2 ^ 64"
  shows "unat (add_group acc byte) = unat acc * 128 + unat (byte AND 0x7f)"
proof -
  let ?low = "ucast (byte AND 0x7f) :: u64"
  have low: "unat ?low = unat (byte AND 0x7f)" using unat_and_7f [of byte] by (simp add: unat_ucast_narrow)
  have "push_bit 7 acc AND ?low = 0"
    unfolding and_7f by (rule bit_word_eqI) (auto simp: bit_simps)
  then have "add_group acc byte = push_bit 7 acc + ?low"
    by (simp add: add_group_def disjunctive_add_eq_or)
  moreover have "unat (push_bit 7 acc) = unat acc * 128"
    using assms by (simp add: push_bit_eq_mult unat_word_ariths mult.commute)
  moreover have "unat acc * 128 + unat ?low < 2 ^ 64"
  proof -
    have "2 ^ 64 = (2 ^ 57 :: nat) * 128" by simp
    with assms have "unat acc < 2 ^ 57" by simp
    then have "unat acc * 128 + 128 \<le> 2 ^ 57 * 128" by simp
    with unat_and_7f [of byte] low show ?thesis by simp
  qed
  ultimately show ?thesis by (simp add: unat_word_ariths low)
qed

lemma width_groups_wrapping:
  "width_groups max_groups sm first bs acc groups = Ok r \<Longrightarrow> wrapping_groups bs acc = Ok r"
  by (induction max_groups sm first bs acc groups rule: width_groups.induct) (auto simp: Let_def split: if_splits)

text \<open>The value behind \<open>groups\<close> groups of which the first is \<open>first\<close>.\<close>

definition group_bound :: "u8 \<Rightarrow> nat \<Rightarrow> nat" where
  "group_bound first groups = (unat (first AND 0x7f) + 1) * 128 ^ (groups - 1)"

lemma width_groups_bound:
  assumes "width_groups max_groups sm first bs acc groups = Ok (v, rest)"
    and "groups < max_groups" "max_groups \<le> 5"
    and "groups = 0 \<and> acc = 0 \<and> first = hd bs \<or> 0 < groups \<and> unat acc < group_bound first groups"
  shows "\<exists>k. 0 < k \<and> k \<le> max_groups \<and> unat v < group_bound first k \<and> (k = max_groups \<longrightarrow> first AND sm = 0)"
  using assms
proof (induction max_groups sm first bs acc groups rule: width_groups.induct)
  case (2 max_groups sm first byte rest' acc groups)
  have "group_bound first groups \<le> 128 * 128 ^ 3" if "0 < groups"
  proof -
    have "(128 :: nat) ^ (groups - 1) \<le> 128 ^ 3" using "2.prems" by (intro power_increasing) simp_all
    then show ?thesis using unat_and_7f [of first] unfolding group_bound_def by (intro mult_mono) simp_all
  qed
  then have small: "unat acc * 128 < 2 ^ 64" using "2.prems"(4) by auto
  have next_bound: "unat (add_group acc byte) < group_bound first (groups + 1)"
  proof (cases groups)
    case 0
    then show ?thesis using "2.prems"(4) small by (auto simp: unat_add_group group_bound_def)
  next
    case (Suc g)
    then have "unat acc < group_bound first groups" using "2.prems"(4) by simp
    then have "unat acc * 128 + unat (byte AND 0x7f) < group_bound first groups * 128"
      using unat_and_7f [of byte] by linarith
    then show ?thesis using Suc by (simp add: unat_add_group [OF small] group_bound_def algebra_simps)
  qed
  show ?case
  proof (cases "byte AND 0x80 = 0")
    case True
    then have "v = add_group acc byte" "groups + 1 = max_groups \<longrightarrow> first AND sm = 0"
      using "2.prems"(1) by (auto simp: Let_def split: if_splits)
    then show ?thesis using next_bound "2.prems"(2) by (intro exI [of _ "groups + 1"]) auto
  next
    case False
    then have "groups + 1 \<noteq> max_groups"
      "width_groups max_groups sm first rest' (add_group acc byte) (groups + 1) = Ok (v, rest)"
      using "2.prems"(1) by (auto simp: Let_def split: if_splits)
    then show ?thesis using "2.IH" [OF refl refl False] "2.prems"(2,3) next_bound by auto
  qed
qed simp

lemma unat_and_small: "unat (w AND 3 :: u8) < 4" "unat (w AND 0xf :: u8) < 16"
proof -
  have "w AND 3 = take_bit 2 w" "w AND 0xf = take_bit 4 w" by (simp_all add: take_bit_eq_mask mask_eq_exp_minus_1)
  then show "unat (w AND 3) < 4" "unat (w AND 0xf) < 16"
    using take_bit_nat_less_exp [of 2 "unat w"] take_bit_nat_less_exp [of 4 "unat w"]
    by (simp_all add: unsigned_take_bit_eq)
qed

lemma group_bound_top:
  "w AND 0x7c = 0 \<Longrightarrow> unat (w AND 0x7f :: u8) < 4" "w AND 0x70 = 0 \<Longrightarrow> unat (w AND 0x7f) < 16"
proof -
  have "w AND (0x7c OR 3) = (w AND 0x7c) OR (w AND 3)" "w AND (0x70 OR 0xf) = (w AND 0x70) OR (w AND 0xf)"
    by (rule bit.conj_disj_distrib)+
  then show "w AND 0x7c = 0 \<Longrightarrow> unat (w AND 0x7f) < 4" "w AND 0x70 = 0 \<Longrightarrow> unat (w AND 0x7f) < 16"
    using unat_and_small [of w] by simp_all
qed

lemma width_groups_value:
  assumes "width_groups max_groups sm first (first # bs) 0 0 = Ok (v, rest)"
    and "max_groups = 3 \<and> sm = 0x7c \<and> bits = 16 \<or> max_groups = 5 \<and> sm = 0x70 \<and> bits = 32"
  shows "unat v < 2 ^ bits"
proof -
  obtain k where k: "0 < k" "k \<le> max_groups" "unat v < group_bound first k" "k = max_groups \<longrightarrow> first AND sm = 0"
    using width_groups_bound [OF assms(1)] assms(2) by auto
  have f: "unat (first AND 0x7f) + 1 \<le> 128" using unat_and_7f [of first] by simp
  have "group_bound first k \<le> 2 ^ bits"
  proof (cases "k = max_groups")
    case True
    then show ?thesis using assms(2) k(4) group_bound_top [of first] by (auto simp: group_bound_def)
  next
    case False
    then have "k - 1 \<le> max_groups - 2" using k by simp
    then have "group_bound first k \<le> 128 * 128 ^ (max_groups - 2)"
      unfolding group_bound_def using f by (intro mult_mono power_increasing) simp_all
    also have "\<dots> \<le> 2 ^ bits" using assms(2) by auto
    finally show ?thesis .
  qed
  with k(3) show ?thesis by simp
qed

lemma decode_width_bounded_Ok:
  assumes "decode_width_bounded tail bits = Ok (v, rest)" "bits = 16 \<or> bits = 32"
  shows "decode_u64_wrapping tail = Ok (v, rest) \<and> unat v < 2 ^ bits"
proof -
  obtain first bs where tail: "tail = first # bs" using assms by (cases tail) (auto simp: decode_width_bounded_def)
  have masks: "0x7f AND NOT (ucast ((push_bit 2 1 :: u16) - 1)) = (0x7c :: u8)"
    "0x7f AND NOT (ucast ((push_bit 4 1 :: u16) - 1)) = (0x70 :: u8)" by code_simp+
  have sizes: "(16 + 6) div 7 = (3 :: nat)" "16 - 7 * (3 - 1) = (2 :: nat)" "(32 + 6) div 7 = (5 :: nat)"
    "32 - 7 * (5 - 1) = (4 :: nat)" by simp_all
  have "decode_width_bounded (first # bs) 16 = width_groups 3 0x7c first (first # bs) 0 0"
    "decode_width_bounded (first # bs) 32 = width_groups 5 0x70 first (first # bs) 0 0"
    unfolding decode_width_bounded_def Let_def sizes masks by (simp_all only: list.case)
  then obtain max_groups sm where w: "width_groups max_groups sm first (first # bs) 0 0 = Ok (v, rest)"
    and m: "max_groups = 3 \<and> sm = 0x7c \<and> bits = 16 \<or> max_groups = 5 \<and> sm = 0x70 \<and> bits = 32"
    using assms unfolding tail by metis
  show ?thesis using width_groups_value [OF w m] width_groups_wrapping [OF w]
    by (simp add: decode_u64_wrapping_def tail)
qed

text \<open>
  A pointer that the strict decoder of Conway accepts is decoded to the same pointer by the decoder
  of every earlier era, so moving the era boundary never changes what an accepted pointer means.
\<close>

theorem pointer_decoders_agree:
  assumes "decode_pointer_strict tail = Ok p"
  shows "decode_pointer_tail tail era = Ok p"
proof -
  obtain slot r1 tx r2 cert where
    d: "decode_width_bounded tail 32 = Ok (slot, r1)" "decode_width_bounded r1 16 = Ok (tx, r2)"
      "decode_width_bounded r2 16 = Ok (cert, [])"
    and p: "p = \<lparr>ptr_slot = ucast slot, ptr_tx_index = ucast tx, ptr_cert_index = ucast cert\<rparr>"
    using assms by (auto simp: decode_pointer_strict_def result_simps rbind_pair_Ok split: if_splits)
  note ok = decode_width_bounded_Ok [OF d(1)] decode_width_bounded_Ok [OF d(2)] decode_width_bounded_Ok [OF d(3)]
  have "slot \<le> 0xffffffff" "tx \<le> 0xffff" "cert \<le> 0xffff" using ok by (simp_all add: word_le_nat_alt)
  then have "decode_pointer_normalized tail era = Ok p"
    using ok by (simp add: decode_pointer_normalized_def normalize_ptr_def p)
  with assms show ?thesis by (simp add: decode_pointer_tail_def)
qed

theorem pointer_decoders_agree_witness:
  "decode_pointer_strict [0x81, 0x00, 0x02, 0x03] = Ok \<lparr>ptr_slot = 128, ptr_tx_index = 2, ptr_cert_index = 3\<rparr> \<and>
   decode_pointer_tail [0x81, 0x00, 0x02, 0x03] Mary = Ok \<lparr>ptr_slot = 128, ptr_tx_index = 2, ptr_cert_index = 3\<rparr>"
proof -
  have "decode_pointer_strict [0x81, 0x00, 0x02, 0x03] = Ok \<lparr>ptr_slot = 128, ptr_tx_index = 2, ptr_cert_index = 3\<rparr>"
    by code_simp
  with pointer_decoders_agree [OF this, of Mary] show ?thesis by simp
qed

lemma reduced_ref_roundtrip:
  assumes "\<And>h. r = ReducedBase (StakeCredential.KeyHash h) \<or> r = ReducedBase (StakeCredential.ScriptHash h) \<Longrightarrow> length h = 28"
  shows "decode_reduced_ref (encode_reduced_ref r @ rest) = Some (r, length (encode_reduced_ref r))"
  using assms
  by (cases r rule: encode_reduced_ref.cases)
    (auto simp: decode_reduced_ref_def TAG_NON_CONTRIBUTING_def TAG_BASE_KEY_def TAG_BASE_SCRIPT_def)

end
