(* ===== verification/Epoch_Boundary.thy ===== *)
theory Epoch_Boundary
  imports Frozen_Ratification Stake_Ref
begin

text \<open>
  The epoch boundary (\<^verbatim>\<open>ade_ledger/src/rules.rs\<close> 145-217 and 746-1629): rewards of the epoch from the
  go snapshot, their distribution to the reward accounts, the new stake snapshot, the reaping of
  pools, the application of the frozen governance decision, the pots, and the freezing of the next
  ratification. Arithmetic on \<^verbatim>\<open>u64\<close> without an explicit checked or saturating operation wraps, as it
  does in a release build. The counters that the source only adds up for a log line are left out.
\<close>

section \<open>The pots of an epoch\<close>

text \<open>\<^verbatim>\<open>r.floor().max(0) as u64\<close>.\<close>

definition floor_u64 :: "Rational \<Rightarrow> u64" where
  "floor_u64 r = word_of_int (max (rational_floor r) 0)"

definition epoch_eta :: "Rational \<Rightarrow> u64 \<Rightarrow> u64 \<Rightarrow> Rational" where
  "epoch_eta d total_blocks_produced active_slots_per_epoch =
     (let d_threshold = or_one (Rational_new 4 5) in
      if i128_mul (numerator d) (denominator d_threshold) \<ge> i128_mul (numerator d_threshold) (denominator d)
      then rational_one
      else let one_minus_d = or_one (rational_sub rational_one d);
               expected_rat = or_one (rational_mul one_minus_d (from_integer (uint active_slots_per_epoch)));
               expected_blocks = word_of_int (max (rational_floor expected_rat) 1) :: u64
           in if total_blocks_produced \<ge> expected_blocks then rational_one
              else if expected_blocks > 0
              then or_one (Rational_new (uint total_blocks_produced) (uint expected_blocks))
              else rational_one)"

definition monetary_expansion_of :: "Coin \<Rightarrow> Rational \<Rightarrow> Rational \<Rightarrow> u64" where
  "monetary_expansion_of reserves rho eta =
     (case Option.bind (rational_mul (from_integer (uint reserves)) rho) (\<lambda>r. rational_mul r eta) of
        Some r \<Rightarrow> floor_u64 r
      | None \<Rightarrow> 0)"

definition treasury_share :: "Coin \<Rightarrow> Rational \<Rightarrow> u64" where
  "treasury_share total_reward tau =
     (case rational_mul (from_integer (uint total_reward)) tau of Some r \<Rightarrow> floor_u64 r | None \<Rightarrow> 0)"

section \<open>The reward of a pool\<close>

text \<open>What the loop over the pools reads; \<open>rc_registered\<close> is the registration test of the source, over
  the override or the registrations before the boundary.\<close>

record RewardContext =
  rc_protocol_major :: u32
  rc_pool_influence :: Rational
  rc_n_opt :: u32
  rc_total_stake :: u64
  rc_total_active_stake :: u64
  rc_pool_reward_pot :: u64
  rc_block_production :: "(PoolId, u64) btree_map"
  rc_total_blocks_produced :: u64
  rc_go :: StakeSnapshot
  rc_registered :: "StakeCredential \<Rightarrow> bool"
  rc_slot :: SlotNo

record RewardTotals =
  rt_total_pool_rewards :: u64
  rt_total_member_rewards :: u64
  rt_rewarded_pool_count :: nat
  rt_reward_deltas :: "(StakeCredential, Coin) btree_map"

text \<open>\<^verbatim>\<open>if a.numerator() * b.denominator() > b.numerator() * a.denominator() { b } else { a }\<close>.\<close>

definition capped :: "Rational \<Rightarrow> Rational \<Rightarrow> Rational" where
  "capped a b =
     (if i128_mul (numerator a) (denominator b) > i128_mul (numerator b) (denominator a) then b else a)"

definition pool_bracket :: "Rational \<Rightarrow> Rational \<Rightarrow> Rational \<Rightarrow> Rational \<Rightarrow> Rational option" where
  "pool_bracket z sigma_prime s_prime a0 =
     (let factor4 = Option.bind (rational_sub z sigma_prime) (\<lambda>d. rational_div d z);
          factor3 = Option.bind factor4 (\<lambda>f4. Option.bind (rational_mul s_prime f4) (\<lambda>sf4.
                      Option.bind (rational_sub sigma_prime sf4) (\<lambda>num. rational_div num z)));
          pledge_bonus = Option.bind factor3 (\<lambda>f3. Option.bind (rational_mul s_prime a0) (\<lambda>r. rational_mul r f3))
      in Option.bind pledge_bonus (rational_add sigma_prime))"

text \<open>\<^verbatim>\<open>(pot as u128 * stake as u128 / total as u128 * 10 / 13) as u64\<close>.\<close>

definition fallback_max_pool :: "u64 \<Rightarrow> u64 \<Rightarrow> u64 \<Rightarrow> u64" where
  "fallback_max_pool pot stake total_stake =
     ucast ((ucast pot * ucast stake div ucast total_stake * 10 div 13) :: 128 word)"

definition max_pool_reward :: "RewardContext \<Rightarrow> Coin \<Rightarrow> SnapshotPoolParams \<Rightarrow> u64" where
  "max_pool_reward c pool_stake params =
     (let sigma = or_zero (Rational_new (uint pool_stake) (uint (rc_total_stake c)));
          a0 = rc_pool_influence c;
          z = or_zero (Rational_new 1 (uint (rc_n_opt c)));
          sigma_prime = capped sigma z;
          s_prime = capped (or_zero (Rational_new (uint (spp_pledge params)) (uint (rc_total_stake c)))) z;
          one_plus_a0 = or_one (rational_add rational_one a0);
          fallback = fallback_max_pool (rc_pool_reward_pot c) pool_stake (rc_total_stake c)
      in case pool_bracket z sigma_prime s_prime a0 of
           None \<Rightarrow> fallback
         | Some br \<Rightarrow>
             (case Option.bind (rational_mul (from_integer (uint (rc_pool_reward_pot c))) br)
                     (\<lambda>r. rational_div r one_plus_a0) of
                Some r \<Rightarrow> floor_u64 r
              | None \<Rightarrow> fallback))"

definition apparent_performance :: "RewardContext \<Rightarrow> u64 \<Rightarrow> Coin \<Rightarrow> Rational" where
  "apparent_performance c blocks_produced pool_stake =
     (if rc_total_blocks_produced c > 0 \<and> pool_stake > 0
      then or_one (Rational_new (i128_mul (uint blocks_produced) (uint (rc_total_active_stake c)))
                                (i128_mul (uint (rc_total_blocks_produced c)) (uint pool_stake)))
      else rational_one)"

definition pool_reward :: "RewardContext \<Rightarrow> u64 \<Rightarrow> Rational \<Rightarrow> u64" where
  "pool_reward c max_pool performance =
     (case rational_mul (from_integer (uint max_pool)) performance of
        Some r \<Rightarrow> floor_u64 r
      | None \<Rightarrow> max_pool)"

section \<open>The split between leader and members\<close>

definition is_pool_owner :: "RewardContext \<Rightarrow> SnapshotPoolParams \<Rightarrow> StakeCredential \<Rightarrow> bool" where
  "is_pool_owner c params cred =
     (if rc_protocol_major c \<ge> 4
      then (case cred of StakeCredential.KeyHash h \<Rightarrow> h \<in> set (spp_self_delegated_owners params) | _ \<Rightarrow> False)
      else spp_reward_account params = cred)"

definition owner_stake_of :: "RewardContext \<Rightarrow> PoolId \<Rightarrow> SnapshotPoolParams \<Rightarrow> u64" where
  "owner_stake_of c pool_id params =
     (if rc_protocol_major c \<ge> 4
      then self_delegated_owner_stake (rc_go c) pool_id (spp_self_delegated_owners params)
      else or_0 (map_option snd (bt_get (ss_delegations (rc_go c)) (spp_reward_account params))))"

definition leader_reward :: "u64 \<Rightarrow> Coin \<Rightarrow> Rational \<Rightarrow> Rational \<Rightarrow> u64" where
  "leader_reward f_minus_c cost margin op_share =
     (let one_minus_m = or_one (rational_sub rational_one margin);
          leader_term = (case rational_add margin (or_zero (rational_mul one_minus_m op_share)) of
                           Some t \<Rightarrow> t | None \<Rightarrow> margin)
      in cost + (case rational_mul (from_integer (uint f_minus_c)) leader_term of Some r \<Rightarrow> floor_u64 r | None \<Rightarrow> 0))"

definition member_reward :: "Rational \<Rightarrow> Coin \<Rightarrow> Coin \<Rightarrow> u64" where
  "member_reward member_factor pool_stake stake =
     (case rational_mul member_factor (or_zero (Rational_new (uint stake) (uint pool_stake))) of
        Some r \<Rightarrow> floor_u64 r
      | None \<Rightarrow> 0)"

text \<open>The loop over the delegators; the accumulator is the sum and the reward deltas.\<close>

definition pay_member ::
  "RewardContext \<Rightarrow> SnapshotPoolParams \<Rightarrow> Rational \<Rightarrow> Coin \<Rightarrow> u64 \<times> (StakeCredential, Coin) btree_map \<Rightarrow>
   StakeCredential \<times> Coin \<Rightarrow> u64 \<times> (StakeCredential, Coin) btree_map" where
  "pay_member c params member_factor pool_stake = (\<lambda>(distributed, deltas) (cred, stake).
     if is_pool_owner c params cred \<or> stake = 0 \<or> rc_protocol_major c \<le> 6 \<and> \<not> rc_registered c cred
     then (distributed, deltas)
     else let reward = member_reward member_factor pool_stake stake in
       if reward > 0 then (distributed + reward, add_coin cred reward deltas) else (distributed, deltas))"

definition delegator_stakes :: "StakeSnapshot \<Rightarrow> PoolId \<Rightarrow> (StakeCredential, Coin) btree_map" where
  "delegator_stakes go pool_id =
     map (\<lambda>(cred, _, coin). (cred, coin)) (filter (\<lambda>(_, pid, _). pid = pool_id) (ss_delegations go))"

text \<open>The distribution of a pool's reward that exceeds or does not exceed its cost.\<close>

definition distribute_pool_reward ::
  "RewardContext \<Rightarrow> PoolId \<Rightarrow> Coin \<Rightarrow> SnapshotPoolParams \<Rightarrow> u64 \<Rightarrow> RewardTotals \<Rightarrow> RewardTotals" where
  "distribute_pool_reward c pool_id pool_stake params pool_max acc =
     (let op_cred = spp_reward_account params;
          distribute_leader = (rc_protocol_major c \<le> 6 \<longrightarrow> rc_registered c op_cred)
      in if pool_max \<le> spp_cost params
         then if \<not> distribute_leader
              then acc\<lparr>rt_rewarded_pool_count := rt_rewarded_pool_count acc + 1\<rparr>
              else acc\<lparr>rt_reward_deltas := add_coin op_cred pool_max (rt_reward_deltas acc),
                       rt_total_pool_rewards := saturating_add (rt_total_pool_rewards acc) pool_max,
                       rt_rewarded_pool_count := rt_rewarded_pool_count acc + 1\<rparr>
         else let f_minus_c = pool_max - spp_cost params;
                  margin = or_zero (Rational_new (uint (fst (spp_margin params))) (uint (snd (spp_margin params))));
                  op_share = or_zero (Rational_new (uint (owner_stake_of c pool_id params)) (uint pool_stake));
                  leader = leader_reward f_minus_c (spp_cost params) margin op_share;
                  acc = (if distribute_leader
                         then acc\<lparr>rt_reward_deltas := add_coin op_cred leader (rt_reward_deltas acc),
                                  rt_total_pool_rewards := saturating_add (rt_total_pool_rewards acc) leader\<rparr>
                         else acc);
                  one_minus_m = or_one (rational_sub rational_one margin);
                  member_factor = or_zero (rational_mul (from_integer (uint f_minus_c)) one_minus_m);
                  (distributed, deltas) =
                    (if pool_stake > 0
                     then foldl (pay_member c params member_factor pool_stake) (0, rt_reward_deltas acc)
                            (delegator_stakes (rc_go c) pool_id)
                     else (0, rt_reward_deltas acc))
              in acc\<lparr>rt_reward_deltas := deltas,
                     rt_total_member_rewards := saturating_add (rt_total_member_rewards acc) distributed,
                     rt_rewarded_pool_count := rt_rewarded_pool_count acc + 1\<rparr>)"

definition reward_one_pool ::
  "RewardContext \<Rightarrow> RewardTotals \<Rightarrow> PoolId \<times> Coin \<Rightarrow> (RewardTotals, GovernanceTerminal) result" where
  "reward_one_pool c acc = (\<lambda>(pool_id, pool_stake).
     let blocks_produced = or_0 (bt_get (rc_block_production c) pool_id) in
     if blocks_produced = 0 then Ok acc
     else rbind (ok_or (RewardPoolParamsMissing pool_id (rc_slot c)) (bt_get (ss_pool_params (rc_go c)) pool_id))
       (\<lambda>params.
     let performance = apparent_performance c blocks_produced pool_stake;
         max_pool = max_pool_reward c pool_stake params
     in if max_pool = 0 then Ok acc
        else if rc_protocol_major c \<ge> 4 \<and> spp_pledge params > 0 \<and>
                spp_pledge params > self_delegated_owner_stake (rc_go c) pool_id (spp_self_delegated_owners params)
        then Ok acc
        else let pool_max = pool_reward c max_pool performance in
          if pool_max = 0 then Ok acc
          else Ok (distribute_pool_reward c pool_id pool_stake params pool_max acc)))"

fun reward_pools ::
  "RewardContext \<Rightarrow> RewardTotals \<Rightarrow> (PoolId \<times> Coin) list \<Rightarrow> (RewardTotals, GovernanceTerminal) result" where
  "reward_pools c acc [] = Ok acc"
| "reward_pools c acc (p # ps) = rbind (reward_one_pool c acc p) (\<lambda>acc. reward_pools c acc ps)"

definition RewardTotals_zero :: RewardTotals where
  "RewardTotals_zero = \<lparr>rt_total_pool_rewards = 0, rt_total_member_rewards = 0, rt_rewarded_pool_count = 0,
     rt_reward_deltas = bt_empty\<rparr>"

definition compute_epoch_rewards :: "RewardContext \<Rightarrow> (RewardTotals, GovernanceTerminal) result" where
  "compute_epoch_rewards c =
     (if rc_total_stake c > 0 \<and> rc_total_active_stake c > 0 \<and> rc_pool_reward_pot c > 0
      then reward_pools c RewardTotals_zero (ss_pool_stakes (rc_go c))
      else Ok RewardTotals_zero)"

section \<open>Crediting the rewards\<close>

definition credit_reward ::
  "(StakeCredential \<Rightarrow> bool) \<Rightarrow> u64 \<times> DelegationState \<Rightarrow> StakeCredential \<times> Coin \<Rightarrow> u64 \<times> DelegationState" where
  "credit_reward registered = (\<lambda>(delta_t2, d) (cred, reward).
     if registered cred then (delta_t2, d\<lparr>rewards := add_coin cred reward (rewards d)\<rparr>)
     else (saturating_add delta_t2 reward, d))"

definition apply_reward_update ::
  "(StakeCredential \<Rightarrow> bool) \<Rightarrow> (StakeCredential, Coin) btree_map \<Rightarrow> DelegationState \<Rightarrow> u64 \<times> DelegationState" where
  "apply_reward_update registered deltas d = foldl (credit_reward registered) (0, d) deltas"

section \<open>The new snapshot\<close>

definition snapshot_pool_params ::
  "(PoolId, PoolParams) btree_map \<Rightarrow> (StakeCredential, PoolId) btree_map \<Rightarrow> (PoolId, SnapshotPoolParams) btree_map" where
  "snapshot_pool_params ps dels =
     List.map_filter (\<lambda>(pool_id, params).
       map_option (\<lambda>account. (pool_id,
         \<lparr>spp_pledge = pp_pledge params, spp_cost = pp_cost params, spp_margin = pp_margin params,
          spp_reward_account = account,
          spp_self_delegated_owners = fold insort_insert
            (filter (\<lambda>owner. bt_get dels (StakeCredential.KeyHash owner) = Some pool_id) (pp_owners params)) []\<rparr>))
         (reward_account_credential (pp_reward_account params))) ps"

definition mark_one ::
  "(StakeCredential, Coin) btree_map \<Rightarrow> DelegationState \<Rightarrow>
   (StakeCredential, PoolId \<times> Coin) btree_map \<times> (PoolId, Coin) btree_map \<Rightarrow> StakeCredential \<times> PoolId \<Rightarrow>
   (StakeCredential, PoolId \<times> Coin) btree_map \<times> (PoolId, Coin) btree_map" where
  "mark_one base_utxo d = (\<lambda>(dels, stakes) (cred, pool_id).
     let stake = saturating_add (or_0 (bt_get base_utxo cred)) (or_0 (bt_get (rewards d) cred)) in
     if stake = 0 then (dels, stakes)
     else (bt_insert cred (pool_id, stake) dels, add_coin pool_id stake stakes))"

definition build_boundary_mark_snapshot ::
  "BoundaryBaseStake \<Rightarrow> DelegationState \<Rightarrow> (PoolId, PoolParams) btree_map \<Rightarrow> StakeSnapshot" where
  "build_boundary_mark_snapshot base d ps =
     (let (dels, stakes) = foldl (mark_one (bbs_canonical_credential_stake base) d) (bt_empty, bt_empty) (delegations d)
      in \<lparr>ss_delegations = dels, ss_pool_stakes = stakes, ss_pool_params = snapshot_pool_params ps (delegations d)\<rparr>)"

text \<open>The mark of the eras before Conway: reward balances only, pool stakes zero.\<close>

definition reward_only_mark :: "DelegationState \<Rightarrow> (PoolId, PoolParams) btree_map \<Rightarrow> StakeSnapshot" where
  "reward_only_mark d ps =
     \<lparr>ss_delegations = map (\<lambda>(cred, p). (cred, (p, or_0 (bt_get (rewards d) cred)))) (delegations d),
      ss_pool_stakes = foldl (\<lambda>m p. if bt_contains_key m p then m else bt_insert p 0 m) bt_empty
                         (bt_values (delegations d)),
      ss_pool_params = snapshot_pool_params ps (delegations d)\<rparr>"

section \<open>Reaping\<close>

definition refund_pool ::
  "Coin \<Rightarrow> (PoolId, PoolParams) btree_map \<Rightarrow> u64 \<times> DelegationState \<Rightarrow> PoolId \<Rightarrow> u64 \<times> DelegationState" where
  "refund_pool pool_deposit ps = (\<lambda>(to_treasury, d) pool_id.
     case Option.bind (bt_get ps pool_id) (\<lambda>params. reward_account_credential (pp_reward_account params)) of
       None \<Rightarrow> (to_treasury, d)
     | Some cred \<Rightarrow>
         if bt_contains_key (registrations d) cred
         then (to_treasury, d\<lparr>rewards := add_coin cred pool_deposit (rewards d)\<rparr>)
         else (saturating_add to_treasury pool_deposit, d))"

definition boundary_pool_reap :: "CertState \<Rightarrow> Coin \<Rightarrow> EpochNo \<Rightarrow> u64 \<times> CertState" where
  "boundary_pool_reap cert pool_deposit new_epoch =
     (let p = pool cert;
          p = p\<lparr>pools := foldl adopt_pool (pools p) (future_pools p), future_pools := bt_empty\<rparr>;
          retired = map fst (filter (\<lambda>(_, e). e = new_epoch) (retiring p));
          (to_treasury, d) = foldl (refund_pool pool_deposit (pools p)) (0, delegation cert) retired;
          d = (if retired \<noteq> []
               then d\<lparr>delegations := bt_retain (\<lambda>_ i. i \<notin> set retired) (delegations d)\<rparr>
               else d)
      in (to_treasury, \<lparr>delegation = d, pool = foldl reap_pool p retired\<rparr>))"

section \<open>Governance\<close>

definition return_deposit :: "u64 \<times> DelegationState \<Rightarrow> DepositReturn \<Rightarrow> u64 \<times> DelegationState" where
  "return_deposit = (\<lambda>(to_treasury, d) ret.
     case ret of
       ToRewardAccount _ cred coin \<Rightarrow> (to_treasury, d\<lparr>rewards := add_coin cred coin (rewards d)\<rparr>)
     | ToTreasury _ coin \<Rightarrow> (saturating_add to_treasury coin, d)
     | NoDeposit _ \<Rightarrow> (to_treasury, d))"

definition boundary_gov_plan ::
  "LedgerState \<Rightarrow> CertState \<Rightarrow> GovRest ConwayGovState option \<Rightarrow> EpochNo \<Rightarrow>
   (ConwayGovernanceEpochPlan option, GovernanceTerminal) result" where
  "boundary_gov_plan st cert gov new_epoch =
     (case (lst_era st, gov) of
        (Conway, Some g) \<Rightarrow>
          (case gr_ratification (gov_rest g) of
             RatificationUnversioned \<Rightarrow> Err (RatificationRecordAbsent new_epoch)
           | Recorded r \<Rightarrow>
               rbind (apply_ratification_record r new_epoch (gr_proposals (gov_rest g))
                        (bt_contains_key (registrations (delegation cert)))) (\<lambda>plan. Ok (Some plan)))
      | _ \<Rightarrow> Ok None)"

definition next_gov_state ::
  "GovRest ConwayGovState \<Rightarrow> ConwayGovernanceEpochPlan \<Rightarrow> GovRest ConwayGovState" where
  "next_gov_state gov plan =
     gov\<lparr>gov_rest := (gov_rest gov)\<lparr>gr_proposals := plan_proposals plan,
           gr_prev_pparam_action := (case plan_prev_pparam_action plan of
                                       PrevSet i \<Rightarrow> Enacted i
                                     | PrevUnchanged \<Rightarrow> gr_prev_pparam_action (gov_rest gov))\<rparr>\<rparr>"

section \<open>The boundary\<close>

record EpochBoundaryAccounting =
  eba_delta_r1 :: u64
  eba_delta_r2 :: u64
  eba_delta_t1 :: u64
  eba_delta_t2 :: u64
  eba_total_reward :: u64
  eba_pool_reward_pot :: u64
  eba_sum_rewards :: u64
  eba_rewarded_pool_count :: u64
  eba_eta_numerator :: u64
  eba_eta_denominator :: u64
  eba_epoch_fees :: u64
  eba_mir_reserves_to_treasury :: u64
  eba_mir_reserves_to_accounts :: u64
  eba_mir_treasury_to_accounts :: u64

definition is_cred_registered ::
  "(StakeCredential, unit) btree_map option \<Rightarrow> DelegationState \<Rightarrow> StakeCredential \<Rightarrow> bool" where
  "is_cred_registered override d cred =
     (case override of Some regs \<Rightarrow> bt_contains_key regs cred | None \<Rightarrow> bt_contains_key (registrations d) cred)"

definition boundary_total_stake :: "LedgerState \<Rightarrow> StakeSnapshot \<Rightarrow> u64" where
  "boundary_total_stake st go =
     (if ppar_protocol_major (lst_protocol_params st) < 4 then sat_total (bt_values (ss_pool_stakes go))
      else saturating_sub (lst_max_lovelace_supply st) (est_reserves (lst_epoch_state st)))"

definition boundary_mark ::
  "LedgerState \<Rightarrow> BoundaryBaseStake option \<Rightarrow> DelegationState \<Rightarrow> (PoolId, PoolParams) btree_map \<Rightarrow>
   (StakeSnapshot, GovernanceTerminal) result" where
  "boundary_mark st base d ps =
     (case base of
        Some base \<Rightarrow> Ok (build_boundary_mark_snapshot base d ps)
      | None \<Rightarrow>
          if lst_era st = Conway then Err (BoundaryBaseStakeRequired (est_slot (lst_epoch_state st)))
          else Ok (reward_only_mark d ps))"

text \<open>Step 3 of the ratification life cycle: the record of the epoch just entered.\<close>

definition freeze_next ::
  "LedgerState \<Rightarrow> BoundaryBaseStake option \<Rightarrow> PoolId list \<Rightarrow> (LedgerState, GovernanceTerminal) result" where
  "freeze_next new_state base delegated_at_snap =
     (if lst_era new_state \<noteq> Conway then Ok new_state
      else rbind (ok_or (BoundaryBaseStakeRequired (est_slot (lst_epoch_state new_state))) base) (\<lambda>base.
        rbind (at_boundary new_state base delegated_at_snap) (\<lambda>inp.
        case inp of
          None \<Rightarrow> Ok new_state
        | Some inp \<Rightarrow>
            rbind (ratify_frozen inp) (\<lambda>record.
            Ok (case lst_gov_state new_state of
                  GovAuthoritative (Some g) \<Rightarrow>
                    new_state\<lparr>lst_gov_state :=
                      GovAuthoritative (Some (g\<lparr>gov_rest := (gov_rest g)\<lparr>gr_ratification := Recorded record\<rparr>\<rparr>))\<rparr>
                | _ \<Rightarrow> new_state)))))"

text \<open>The pots of the epoch that ends: expansion, total reward, treasury share and the pot of the pools.\<close>

definition boundary_blocks :: "LedgerState \<Rightarrow> u64" where
  "boundary_blocks st = sum_list (bt_values (est_block_production (lst_epoch_state st)))"

definition boundary_eta :: "LedgerState \<Rightarrow> u64 \<Rightarrow> Rational" where
  "boundary_eta st slots = epoch_eta (ppar_decentralization (lst_protocol_params st)) (boundary_blocks st) slots"

definition boundary_delta_r1 :: "LedgerState \<Rightarrow> u64 \<Rightarrow> u64" where
  "boundary_delta_r1 st slots =
     monetary_expansion_of (est_reserves (lst_epoch_state st)) (ppar_monetary_expansion (lst_protocol_params st))
       (boundary_eta st slots)"

definition boundary_total_reward :: "LedgerState \<Rightarrow> u64 \<Rightarrow> u64" where
  "boundary_total_reward st slots =
     saturating_add (boundary_delta_r1 st slots) (est_epoch_fees (lst_epoch_state st))"

definition boundary_delta_t1 :: "LedgerState \<Rightarrow> u64 \<Rightarrow> u64" where
  "boundary_delta_t1 st slots =
     treasury_share (boundary_total_reward st slots) (ppar_treasury_growth (lst_protocol_params st))"

definition boundary_pool_pot :: "LedgerState \<Rightarrow> u64 \<Rightarrow> u64" where
  "boundary_pool_pot st slots = saturating_sub (boundary_total_reward st slots) (boundary_delta_t1 st slots)"

definition boundary_reward_context ::
  "LedgerState \<Rightarrow> StakeSnapshot \<Rightarrow> (StakeCredential \<Rightarrow> bool) \<Rightarrow> u64 \<Rightarrow> RewardContext" where
  "boundary_reward_context st go registered slots =
     (let es = lst_epoch_state st; pp = lst_protocol_params st in
      \<lparr>rc_protocol_major = ppar_protocol_major pp, rc_pool_influence = ppar_pool_influence pp,
       rc_n_opt = ppar_n_opt pp, rc_total_stake = boundary_total_stake st go,
       rc_total_active_stake = sat_total (bt_values (ss_pool_stakes go)),
       rc_pool_reward_pot = boundary_pool_pot st slots, rc_block_production = est_block_production es,
       rc_total_blocks_produced = boundary_blocks st, rc_go = go, rc_registered = registered, rc_slot = est_slot es\<rparr>)"

text \<open>Deposits returned by the governance plan, and the treasury before the donations.\<close>

definition boundary_deposit_returns ::
  "GovRest ConwayGovState option \<Rightarrow> ConwayGovernanceEpochPlan option \<Rightarrow> DelegationState \<Rightarrow> u64 \<times> DelegationState" where
  "boundary_deposit_returns gov gov_plan d =
     (case (gov, gov_plan) of
        (Some _, Some plan) \<Rightarrow> foldl return_deposit (0, d) (plan_deposit_returns plan)
      | _ \<Rightarrow> (0, d))"

definition boundary_gov_state ::
  "GovRest ConwayGovState option \<Rightarrow> ConwayGovernanceEpochPlan option \<Rightarrow> GovRest ConwayGovState option" where
  "boundary_gov_state gov gov_plan =
     (case (gov, gov_plan) of (Some g, Some plan) \<Rightarrow> Some (next_gov_state g plan) | _ \<Rightarrow> gov)"

definition boundary_treasury :: "LedgerState \<Rightarrow> u64 \<Rightarrow> u64 \<Rightarrow> u64 \<Rightarrow> u64 \<Rightarrow> u64" where
  "boundary_treasury st treasury_delta delta_t2 poolreap_to_treasury gov_deposit_to_treasury =
     saturating_add (saturating_add (saturating_add (saturating_add (est_treasury (lst_epoch_state st))
       treasury_delta) delta_t2) poolreap_to_treasury) gov_deposit_to_treasury"

definition apply_epoch_boundary_with_registrations ::
  "LedgerState \<Rightarrow> EpochNo \<Rightarrow> (StakeCredential, unit) btree_map option \<Rightarrow> BoundaryBaseStake option \<Rightarrow> u64 \<Rightarrow>
   (LedgerState \<times> EpochBoundaryAccounting, GovernanceTerminal) result" where
  "apply_epoch_boundary_with_registrations st new_epoch registration_override boundary_base_stake active_slots_per_epoch =
     (let es = lst_epoch_state st; pp = lst_protocol_params st; slot = est_slot es in
      rbind (ok_or (GovernanceTerminal.FullBoundaryStateRequired slot) (snapshots_as_authoritative (est_snapshots es))) (\<lambda>snaps.
      rbind (cert_require_full (lst_cert_state st) slot) (\<lambda>cert.
      rbind (gov_require_full (lst_gov_state st) slot) (\<lambda>gov.
      rbind (boundary_gov_plan st cert gov new_epoch) (\<lambda>gov_plan.
      let eta = boundary_eta st active_slots_per_epoch;
          delta_r1 = boundary_delta_r1 st active_slots_per_epoch;
          treasury_delta = boundary_delta_t1 st active_slots_per_epoch;
          pool_reward_pot = boundary_pool_pot st active_slots_per_epoch;
          registered = is_cred_registered registration_override (delegation cert)
      in
      rbind (compute_epoch_rewards (boundary_reward_context st (snap_go snaps) registered active_slots_per_epoch)) (\<lambda>totals.
      let (delta_t2, d) = apply_reward_update registered (rt_reward_deltas totals) (delegation cert) in
      rbind (boundary_mark st boundary_base_stake d (pools (pool cert))) (\<lambda>new_mark.
      let (poolreap_to_treasury, cert') = boundary_pool_reap \<lparr>delegation = d, pool = pool cert\<rparr>
             (ppar_pool_deposit pp) new_epoch;
          (gov_deposit_to_treasury, d') = boundary_deposit_returns gov gov_plan (delegation cert');
          sum_rewards = saturating_add (rt_total_pool_rewards totals) (rt_total_member_rewards totals);
          delta_r2 = saturating_sub pool_reward_pot sum_rewards
      in
      rbind (ok_or (TreasuryOverflow new_epoch)
               (checked_add (boundary_treasury st treasury_delta delta_t2 poolreap_to_treasury gov_deposit_to_treasury)
                 (est_donation_pot es))) (\<lambda>new_treasury.
      let accounting = \<lparr>eba_delta_r1 = delta_r1, eba_delta_r2 = delta_r2, eba_delta_t1 = treasury_delta,
             eba_delta_t2 = delta_t2, eba_total_reward = boundary_total_reward st active_slots_per_epoch,
             eba_pool_reward_pot = pool_reward_pot,
             eba_sum_rewards = sum_rewards, eba_rewarded_pool_count = word_of_nat (rt_rewarded_pool_count totals),
             eba_eta_numerator = word_of_int \<bar>numerator eta\<bar>,
             eba_eta_denominator = max (word_of_int \<bar>denominator eta\<bar>) 1,
             eba_epoch_fees = est_epoch_fees es, eba_mir_reserves_to_treasury = 0,
             eba_mir_reserves_to_accounts = 0, eba_mir_treasury_to_accounts = 0\<rparr>;
          new_state = st\<lparr>lst_epoch_state := es\<lparr>est_epoch := new_epoch,
                est_snapshots := SnapshotsAuthoritative (rotate_snapshots snaps new_mark),
                est_reserves := saturating_add (saturating_sub (est_reserves es) delta_r1) delta_r2,
                est_treasury := new_treasury, est_block_production := bt_empty, est_epoch_fees := 0,
                est_donation_pot := 0\<rparr>,
             lst_protocol_params := (case map_option plan_pparams gov_plan of
                                       Some (PParamsSet new_pp) \<Rightarrow> new_pp
                                     | _ \<Rightarrow> pp),
             lst_cert_state := CertAuthoritative (cert'\<lparr>delegation := d'\<rparr>),
             lst_gov_state := GovAuthoritative (boundary_gov_state gov gov_plan)\<rparr>
      in
      rbind (freeze_next new_state boundary_base_stake (fold insort_insert (bt_values (delegations d)) [])) (\<lambda>new_state.
      Ok (new_state, accounting))))))))))"

section \<open>Crossing\<close>

definition add_base_stake ::
  "(StakeCredential, Coin) btree_map \<Rightarrow> TxOut \<Rightarrow> (StakeCredential, Coin) btree_map" where
  "add_base_stake base out =
     (case reduce_txout out of (coin, ReducedBase cred) \<Rightarrow> add_coin cred coin base | _ \<Rightarrow> base)"

definition derive_boundary_base_stake :: "LedgerState \<Rightarrow> BoundaryBaseStake option" where
  "derive_boundary_base_stake st =
     (if lst_era st \<noteq> Conway \<or> \<not> lst_track_utxo st then None
      else Some \<lparr>bbs_boundary_point = est_slot (lst_epoch_state st),
                 bbs_canonical_credential_stake =
                   foldl add_base_stake bt_empty (overlay_values (lst_utxo_state st))\<rparr>)"

definition SHELLEY_EPOCH_LENGTH :: u64 where "SHELLEY_EPOCH_LENGTH = 432000"

definition apply_epoch_boundary_full ::
  "LedgerState \<Rightarrow> EpochNo \<Rightarrow> (LedgerState \<times> EpochBoundaryAccounting, GovernanceTerminal) result" where
  "apply_epoch_boundary_full st new_epoch =
     apply_epoch_boundary_with_registrations st new_epoch None (derive_boundary_base_stake st)
       (SHELLEY_EPOCH_LENGTH div 20)"

definition apply_reduced_epoch_boundary :: "LedgerState \<Rightarrow> EpochNo \<Rightarrow> LedgerState" where
  "apply_reduced_epoch_boundary st new_epoch =
     st\<lparr>lst_epoch_state := (lst_epoch_state st)\<lparr>est_epoch := new_epoch,
          est_snapshots := SnapshotsReducedUnavailable, est_block_production := bt_empty,
          est_epoch_fees := 0, est_donation_pot := 0\<rparr>,
        lst_cert_state := CertReducedUnavailable, lst_gov_state := GovReducedUnavailable\<rparr>"

text \<open>The variants of \<^verbatim>\<open>LedgerError\<close> that crossing a boundary can give.\<close>

datatype CrossingError =
    DormantStateRequired
  | GovernanceBoundaryTerminal GovernanceTerminal
  | EpochAgreement EpochAgreementViolation

fun crossing_error_from :: "GovernanceTerminal \<Rightarrow> CrossingError" where
  "crossing_error_from GovernanceTerminal.DormantRequired = DormantStateRequired"
| "crossing_error_from other = GovernanceBoundaryTerminal other"

definition dispatch_epoch_boundary ::
  "LedgerState \<Rightarrow> EpochNo \<Rightarrow> (LedgerState \<times> EpochBoundaryAccounting option, CrossingError) result" where
  "dispatch_epoch_boundary st new_epoch =
     (if lst_era st = Conway \<and> \<not> lst_track_utxo st then Ok (apply_reduced_epoch_boundary st new_epoch, None)
      else rbind (map_err crossing_error_from (apply_epoch_boundary_full st new_epoch))
             (\<lambda>(new_state, acct). Ok (new_state, Some acct)))"

definition cross_epoch_boundary_for_slot ::
  "LedgerState \<Rightarrow> SlotNo \<Rightarrow> EraSchedule \<Rightarrow> (LedgerState \<times> EpochBoundaryAccounting option, CrossingError) result" where
  "cross_epoch_boundary_for_slot st slot schedule =
     rbind (case detect_epoch_transition (est_epoch (lst_epoch_state st)) slot schedule of
              Some new_epoch \<Rightarrow> dispatch_epoch_boundary st new_epoch
            | None \<Rightarrow> Ok (st, None)) (\<lambda>crossed.
     rbind (map_err EpochAgreement
              (check_epoch_agreement (est_epoch (lst_epoch_state (fst crossed))) slot schedule)) (\<lambda>_.
     Ok crossed))"

end
