(* ===== verification/Boundary_Pots.thy ===== *)
theory Boundary_Pots
  imports Epoch_Boundary
begin

text \<open>
  Where the lovelace of an epoch boundary goes. Each loop of \<open>Epoch_Boundary\<close> that pays something
  out (members, reward accounts, refunds of pools, returned deposits) is an instance of the locale
  \<open>coin_flow\<close>, which sums what it moves as long as nothing reaches \<open>2 ^ 64\<close>. On top of it: bounds of
  the rational arithmetic (the expansion is within the reserves, the rewards of all pools within the
  pot although the performance of one pool is not capped), and from them that a boundary conserves
  the supply and that no overflow stops it.
\<close>

section \<open>Rounding\<close>

lemma rational_results:
  "rational_wf a \<Longrightarrow> rational_wf b \<Longrightarrow> rational_add a b = Some c \<Longrightarrow> rational_wf c \<and> rat_of c = rat_of a + rat_of b"
  "rational_wf a \<Longrightarrow> rational_wf b \<Longrightarrow> rational_sub a b = Some c \<Longrightarrow> rational_wf c \<and> rat_of c = rat_of a - rat_of b"
  "rational_wf a \<Longrightarrow> rational_wf b \<Longrightarrow> rational_mul a b = Some c \<Longrightarrow> rational_wf c \<and> rat_of c = rat_of a * rat_of b"
  "rational_wf a \<Longrightarrow> rational_wf b \<Longrightarrow> rational_div a b = Some c \<Longrightarrow> rational_wf c \<and> rat_of c = rat_of a / rat_of b \<and> rat_of b \<noteq> 0"
  using rational_add_eq [of a b] rational_sub_eq [of a b] rational_mul_eq [of a b] rational_div_eq [of a b]
  by (auto split: if_splits)

lemma rational_total:
  "rational_wf a \<Longrightarrow> rational_wf b \<Longrightarrow> \<exists>c. rational_add a b = Some c"
  "rational_wf a \<Longrightarrow> rational_wf b \<Longrightarrow> \<exists>c. rational_sub a b = Some c"
  "rational_wf a \<Longrightarrow> rational_wf b \<Longrightarrow> \<exists>c. rational_mul a b = Some c"
  "rational_wf a \<Longrightarrow> rational_wf b \<Longrightarrow> rat_of b \<noteq> 0 \<Longrightarrow> \<exists>c. rational_div a b = Some c"
  using rational_add_eq [of a b] rational_sub_eq [of a b] rational_mul_eq [of a b] rational_div_eq [of a b]
  by (auto split: if_splits)

text \<open>A machine integer as a rational.\<close>

definition rat_u :: "'a::len word \<Rightarrow> rat" where
  "rat_u w = of_nat (unat w)"

lemma rat_u_int: "of_int (uint w) = rat_u w"
  by (simp add: rat_u_def)

lemma rat_u_nonneg: "0 \<le> rat_u w"
  unfolding rat_u_def by (rule of_nat_0_le_iff)

lemma rat_u_less: "rat_u (w :: u64) < 2 ^ 64"
proof -
  have "unat w < 2 ^ 64" using unsigned_less [of w, where 'a = nat] by simp
  then have "(of_nat (unat w) :: rat) < of_nat (2 ^ 64)" by (simp only: of_nat_less_iff)
  then show ?thesis by (simp add: rat_u_def)
qed

lemmas rat_u_bounds = rat_u_nonneg rat_u_less

lemma rat_u_mono: "rat_u a \<le> rat_u b \<longleftrightarrow> unat a \<le> unat b" "rat_u a < rat_u b \<longleftrightarrow> unat a < unat b"
  unfolding rat_u_def by (simp_all only: of_nat_le_iff of_nat_less_iff)

lemma rat_u_zero: "rat_u w = 0 \<longleftrightarrow> w = 0" "rat_u (0 :: 'a::len word) = 0"
  unfolding rat_u_def by (simp_all only: of_nat_eq_0_iff unat_eq_0 unat_0)

lemma rat_of_integer: "rational_wf (from_integer (uint w))" "rat_of (from_integer (uint w)) = rat_u w"
  using rational_constants(1,2) by (simp_all only: rat_u_int)

lemma floor_u64_le:
  assumes "rational_wf r" "rat_of r < 2 ^ 64"
  shows "rat_u (floor_u64 r) \<le> max 0 (rat_of r)"
proof (cases "rat_of r < 0")
  case True
  then have "\<lfloor>rat_of r\<rfloor> < 0" by simp
  then have "rational_floor r \<le> 0"
    using rational_floor_eq [OF assms(1)] by (auto simp: bigint_to_i128_def i128_min_def i128_max_def)
  then have "floor_u64 r = 0" by (simp add: floor_u64_def max_def)
  then show ?thesis by (simp add: rat_u_zero)
next
  case False
  then have f: "0 \<le> \<lfloor>rat_of r\<rfloor>" "\<lfloor>rat_of r\<rfloor> < 2 ^ 64" using assms(2) by (simp_all add: floor_less_iff)
  then have "rational_floor r = \<lfloor>rat_of r\<rfloor>"
    using rational_floor_eq [OF assms(1)] by (simp add: bigint_to_i128_def i128_min_def i128_max_def)
  then have "uint (floor_u64 r) = \<lfloor>rat_of r\<rfloor>"
    using f by (simp add: floor_u64_def uint_word_of_int)
  then have "rat_u (floor_u64 r) = of_int \<lfloor>rat_of r\<rfloor>" by (simp only: rat_u_int [symmetric])
  then show ?thesis using False by simp
qed

lemma rational_new_cases:
  "rational_wf (or_zero (Rational_new n d)) \<and> rat_of (or_zero (Rational_new n d)) = of_int n / of_int d"
  "rational_wf (or_one (Rational_new n d)) \<and> rat_of (or_one (Rational_new n d)) = (if d = 0 then 1 else of_int n / of_int d)"
  using Rational_new_eq [of d n] rational_constants
  by (auto simp: or_zero_def or_one_def split: if_splits)

lemma ratio_u:
  fixes a :: "'a::len word" and b :: "'b::len word"
  shows "rational_wf (or_zero (Rational_new (uint a) (uint b)))"
    and "rat_of (or_zero (Rational_new (uint a) (uint b))) = rat_u a / rat_u b"
  using rational_new_cases(1) [of "uint a" "uint b"] by (simp_all only: rat_u_int)

section \<open>The pots\<close>

lemma epoch_eta_bounds:
  "rational_wf (epoch_eta d blocks slots)" "0 \<le> rat_of (epoch_eta d blocks slots)" "rat_of (epoch_eta d blocks slots) \<le> 1"
proof -
  have "0 \<le> rat_of (or_one (Rational_new (uint blocks) (uint e))) \<and> rat_of (or_one (Rational_new (uint blocks) (uint e))) \<le> 1"
    if "\<not> e \<le> blocks" for e
  proof -
    have "rat_u blocks \<le> rat_u e" using that by (simp add: rat_u_mono word_le_nat_alt)
    moreover have "rat_of (or_one (Rational_new (uint blocks) (uint e))) = (if uint e = 0 then 1 else rat_u blocks / rat_u e)"
      using rational_new_cases(2) [of "uint blocks" "uint e"] by (simp only: rat_u_int)
    ultimately show ?thesis using rat_u_bounds(1) [of blocks] rat_u_bounds(1) [of e] by (auto simp: divide_le_eq_1)
  qed
  then show "rational_wf (epoch_eta d blocks slots)" "0 \<le> rat_of (epoch_eta d blocks slots)" "rat_of (epoch_eta d blocks slots) \<le> 1"
    using rational_constants rational_new_cases(2) by (auto simp: epoch_eta_def Let_def)
qed

lemma rational_mul_integer:
  assumes "rational_wf r"
  shows "\<exists>x. rational_mul (from_integer (uint w)) r = Some x \<and> rational_wf x \<and> rat_of x = rat_u w * rat_of r"
  using rational_mul_eq [OF rat_of_integer(1) [of w] assms] by (simp only: rat_of_integer(2))

text \<open>A share of at most one of an amount, rounded down, is at most the amount.\<close>

lemma floor_share:
  assumes "rational_wf x" "rat_of x = rat_u (w :: u64) * q" "q \<le> 1"
  shows "unat (floor_u64 x) \<le> unat w"
proof -
  have le: "rat_of x \<le> rat_u w" using assms rat_u_bounds(1) [of w] by (simp add: mult_left_le)
  then have "rat_of x < 2 ^ 64" using rat_u_bounds(2) [of w] by linarith
  from floor_u64_le [OF assms(1) this] have "rat_u (floor_u64 x) \<le> max 0 (rat_of x)" .
  also have "\<dots> \<le> rat_u w" using le rat_u_bounds(1) [of w] by simp
  finally show ?thesis by (simp only: rat_u_mono)
qed

lemma monetary_expansion_le:
  assumes "rational_wf rho" "0 \<le> rat_of rho" "rat_of rho \<le> 1" "rational_wf eta" "0 \<le> rat_of eta" "rat_of eta \<le> 1"
  shows "unat (monetary_expansion_of reserves rho eta) \<le> unat reserves"
proof -
  obtain x where x: "rational_mul (from_integer (uint reserves)) rho = Some x" "rational_wf x"
    "rat_of x = rat_u reserves * rat_of rho"
    using rational_mul_integer [OF assms(1)] by blast
  obtain y where y: "rational_mul x eta = Some y" "rational_wf y" "rat_of y = rat_of x * rat_of eta"
    using rational_mul_eq [OF x(2) assms(4)] by blast
  have "rat_of rho * rat_of eta \<le> 1" using assms by (intro mult_le_one) auto
  moreover have "rat_of y = rat_u reserves * (rat_of rho * rat_of eta)" using x(3) y(3) by simp
  ultimately show ?thesis using floor_share [OF y(2), of reserves] x(1) y(1) by (auto simp: monetary_expansion_of_def)
qed

lemma treasury_share_le:
  assumes "rational_wf tau" "rat_of tau \<le> 1"
  shows "unat (treasury_share t tau) \<le> unat t"
  using rational_mul_integer [OF assms(1), of t] floor_share assms(2) by (auto simp: treasury_share_def)

section \<open>The bound on the reward of a pool\<close>

lemma reduce_narrow:
  assumes "0 \<le> n" "0 < d"
  shows "0 \<le> rat_num (reduce \<lparr>rat_num = n, rat_den = d\<rparr>)" "rat_num (reduce \<lparr>rat_num = n, rat_den = d\<rparr>) \<le> n"
    "rat_den (reduce \<lparr>rat_num = n, rat_den = d\<rparr>) \<le> d"
proof -
  have "0 < gcd n d" using assms by simp
  moreover have "n div g \<le> n \<and> d div g \<le> d \<and> 0 \<le> n div g" if "0 < g" for g
    using that assms zdiv_mono2 [of n 1 g] zdiv_mono2 [of d 1 g] by (simp add: pos_imp_zdiv_nonneg_iff)
  ultimately have "n div gcd n d \<le> n \<and> d div gcd n d \<le> d \<and> 0 \<le> n div gcd n d" by blast
  then show "0 \<le> rat_num (reduce \<lparr>rat_num = n, rat_den = d\<rparr>)" "rat_num (reduce \<lparr>rat_num = n, rat_den = d\<rparr>) \<le> n"
    "rat_den (reduce \<lparr>rat_num = n, rat_den = d\<rparr>) \<le> d"
    using assms reduce_pos [of "\<lparr>rat_num = n, rat_den = d\<rparr>"]
    by (cases "n = 0"; simp add: reduce_def)+
qed

definition narrow :: "int \<Rightarrow> int \<Rightarrow> Rational \<Rightarrow> bool" where
  "narrow n d r \<longleftrightarrow> 0 \<le> rat_num r \<and> rat_num r \<le> n \<and> rat_den r \<le> d \<and> rational_wf r"

lemma narrow_new:
  assumes "0 \<le> a" "a \<le> n" "0 \<le> b" "b \<le> d" "1 \<le> d"
  shows "narrow n d (or_zero (Rational_new a b))"
  using assms reduce_narrow [of a b] rational_new_cases(1) [of a b] rational_constants(3)
  by (cases "b = 0") (auto simp: narrow_def Rational_new_def or_zero_def, simp_all add: rational_zero_def)

lemma i128_mul_exact: "0 \<le> a \<Longrightarrow> 0 \<le> b \<Longrightarrow> a * b < 2 ^ 127 \<Longrightarrow> i128_mul a b = a * b"
  by (simp add: i128_mul_def)

lemma narrow_parts:
  assumes "narrow n d r" "n < 2 ^ 127" "d < 2 ^ 127"
  shows "numerator r = rat_num r" "denominator r = rat_den r" "0 \<le> rat_num r" "0 < rat_den r"
  using assms by (auto simp: narrow_def numerator_def denominator_def rational_wf_def bigint_to_i128_def i128_min_def i128_max_def)

lemma capped_min:
  assumes "narrow (2 ^ 64) (2 ^ 64) a" "narrow 1 (2 ^ 32) b"
  shows "rational_wf (capped a b)" "rat_of (capped a b) = min (rat_of a) (rat_of b)"
proof -
  note a = narrow_parts [OF assms(1)] and b = narrow_parts [OF assms(2)]
  have "rat_num a * rat_den b \<le> 2 ^ 64 * 2 ^ 32"
    by (rule mult_mono) (use assms a b in \<open>auto simp: narrow_def\<close>)
  moreover have "rat_num b * rat_den a \<le> 1 * 2 ^ 64"
    by (rule mult_mono) (use assms a b in \<open>auto simp: narrow_def\<close>)
  ultimately have "i128_mul (numerator a) (denominator b) = rat_num a * rat_den b"
    "i128_mul (numerator b) (denominator a) = rat_num b * rat_den a"
    using a b by (simp_all add: i128_mul_exact)
  then have "capped a b = (if rational_cmp a b = Greater then b else a)"
    by (auto simp: capped_def rational_cmp_def cmp_def)
  moreover have "rational_cmp a b = cmp (rat_of a) (rat_of b)"
    using assms by (intro rational_cmp_eq) (auto simp: narrow_def)
  ultimately show "rational_wf (capped a b)" "rat_of (capped a b) = min (rat_of a) (rat_of b)"
    using assms by (auto simp: narrow_def cmp_def min_def)
qed

lemma floor_bound:
  assumes "rational_wf r" "rat_of r \<le> b" "0 \<le> b" "b \<le> rat_u (w :: u64)"
  shows "rat_u (floor_u64 r) \<le> b"
proof -
  have "rat_of r < 2 ^ 64" using assms rat_u_less [of w] by linarith
  then show ?thesis using floor_u64_le [OF assms(1)] assms(2,3) by (meson max.boundedI order_trans)
qed

lemma share_nonneg: "0 \<le> rat_u a * (rat_u b / rat_u c)"
  by (intro mult_nonneg_nonneg divide_nonneg_nonneg rat_u_nonneg)

lemma share_le_one: "unat a \<le> unat b \<Longrightarrow> rat_u a / rat_u b \<le> 1"
  using rat_u_nonneg [of b] by (cases "rat_u b = 0") (simp_all add: rat_u_mono divide_le_eq_1 less_le)

lemma share_le: "unat b \<le> unat c \<Longrightarrow> rat_u a * (rat_u b / rat_u c) \<le> rat_u a"
  by (intro mult_left_le share_le_one rat_u_nonneg)

text \<open>The bracket of the reward formula is at most \<open>(1 + a0)\<close> times the capped stake: the pledge
  bonus is a share of at most \<open>a0\<close> of it.\<close>

lemma bracket_bound:
  fixes z x y a :: rat
  assumes "0 < z" "0 \<le> x" "x \<le> z" "0 \<le> y" "y \<le> z" "0 \<le> a"
  shows "x + y * a * ((x - y * ((z - x) / z)) / z) \<le> x * (1 + a)"
proof -
  have "(x - y * ((z - x) / z)) \<le> x" using assms by simp
  then have "y * ((x - y * ((z - x) / z)) / z) \<le> y * (x / z)"
    using assms by (intro mult_left_mono divide_right_mono) auto
  also have "\<dots> = x * (y / z)" by simp
  also have "\<dots> \<le> x * 1" using assms by (intro mult_left_mono) (auto simp: divide_le_eq_1)
  finally have "y * ((x - y * ((z - x) / z)) / z) \<le> x" by simp
  then have "a * (y * ((x - y * ((z - x) / z)) / z)) \<le> a * x" using assms(6) by (rule mult_left_mono)
  then show ?thesis by (simp add: algebra_simps)
qed

lemma pool_bracket_value:
  assumes "rational_wf z" "rational_wf x" "rational_wf y" "rational_wf a0" "rat_of z \<noteq> 0"
  shows "\<exists>br. pool_bracket z x y a0 = Some br \<and> rational_wf br \<and>
    rat_of br = rat_of x + rat_of y * rat_of a0 * ((rat_of x - rat_of y * ((rat_of z - rat_of x) / rat_of z)) / rat_of z)"
proof -
  obtain d where d: "rational_sub z x = Some d" "rational_wf d" "rat_of d = rat_of z - rat_of x"
    using rational_sub_eq [OF assms(1,2)] by blast
  obtain f4 where f4: "rational_div d z = Some f4" "rational_wf f4" "rat_of f4 = rat_of d / rat_of z"
    using rational_div_eq [OF d(2) assms(1)] assms(5) by auto
  obtain sf4 where sf4: "rational_mul y f4 = Some sf4" "rational_wf sf4" "rat_of sf4 = rat_of y * rat_of f4"
    using rational_mul_eq [OF assms(3) f4(2)] by blast
  obtain n where n: "rational_sub x sf4 = Some n" "rational_wf n" "rat_of n = rat_of x - rat_of sf4"
    using rational_sub_eq [OF assms(2) sf4(2)] by blast
  obtain f3 where f3: "rational_div n z = Some f3" "rational_wf f3" "rat_of f3 = rat_of n / rat_of z"
    using rational_div_eq [OF n(2) assms(1)] assms(5) by auto
  obtain r where r: "rational_mul y a0 = Some r" "rational_wf r" "rat_of r = rat_of y * rat_of a0"
    using rational_mul_eq [OF assms(3,4)] by blast
  obtain pb where pb: "rational_mul r f3 = Some pb" "rational_wf pb" "rat_of pb = rat_of r * rat_of f3"
    using rational_mul_eq [OF r(2) f3(2)] by blast
  obtain br where br: "rational_add x pb = Some br" "rational_wf br" "rat_of br = rat_of x + rat_of pb"
    using rational_add_eq [OF assms(2) pb(2)] by blast
  have "pool_bracket z x y a0 = Some br"
    by (simp add: pool_bracket_def Let_def d(1) f4(1) sf4(1) n(1) f3(1) r(1) pb(1) br(1))
  then show ?thesis using br(2,3) pb(3) r(3) f3(3) n(3) sf4(3) f4(3) d(3) by simp
qed

lemma fallback_max_pool_le:
  assumes "supply \<noteq> 0" "unat stake \<le> unat supply"
  shows "rat_u (fallback_max_pool pot stake supply) \<le> rat_u pot * (rat_u stake / rat_u supply)"
proof -
  let ?x = "ucast pot * ucast stake div ucast supply * 10 div 13 :: 128 word"
  let ?q = "unat pot * unat stake div unat supply"
  have lt: "unat w < 2 ^ 64" for w :: u64 using unsigned_less [of w, where 'a = nat] by simp
  have u: "unat (ucast w :: 128 word) = unat w" for w :: u64
    using lt [of w] by (simp add: unsigned_ucast_eq take_bit_nat_eq_self_iff)
  have "unat pot * unat stake < 2 ^ 64 * 2 ^ 64" using lt by (intro mult_strict_mono) auto
  then have p: "unat (ucast pot * ucast stake :: 128 word) = unat pot * unat stake"
    by (simp add: unat_word_ariths u)
  have "?q \<le> unat pot * unat supply div unat supply" using assms(2) by (intro div_le_mono mult_left_mono) auto
  then have q: "?q \<le> unat pot" using assms(1) by (simp add: unat_eq_0)
  then have "?q * 10 < 2 ^ 128" using lt [of pot] by simp
  then have x: "unat ?x = ?q * 10 div 13"
    using p by (simp add: unat_word_ariths unat_div u)
  have "unat ?x \<le> ?q" unfolding x by simp
  moreover have "unat (fallback_max_pool pot stake supply) = unat ?x"
    using calculation q lt [of pot] unfolding fallback_max_pool_def
    by (simp add: unsigned_ucast_eq take_bit_nat_eq_self_iff)
  ultimately have "rat_u (fallback_max_pool pot stake supply) \<le> of_nat ?q"
    unfolding rat_u_def by (simp only: of_nat_le_iff)
  also have "\<dots> \<le> of_nat (unat pot * unat stake) / of_nat (unat supply)" by (rule of_nat_div_le_of_nat)
  finally show ?thesis by (simp add: rat_u_def)
qed

lemma max_pool_le:
  assumes "rational_wf (rc_pool_influence c)" "0 \<le> rat_of (rc_pool_influence c)"
    and "rc_total_stake c \<noteq> 0" "unat stake \<le> unat (rc_total_stake c)"
  shows "rat_u (max_pool_reward c stake params) \<le> rat_u (rc_pool_reward_pot c) * (rat_u stake / rat_u (rc_total_stake c))"
proof -
  let ?T = "rc_total_stake c" and ?a0 = "rc_pool_influence c" and ?pot = "rc_pool_reward_pot c"
  let ?z = "or_zero (Rational_new 1 (uint (rc_n_opt c)))"
  let ?sigma = "or_zero (Rational_new (uint stake) (uint ?T))" and ?s = "or_zero (Rational_new (uint (spp_pledge params)) (uint ?T))"
  let ?x = "capped ?sigma ?z" and ?y = "capped ?s ?z"
  let ?one = "or_one (rational_add rational_one ?a0)"
  have u64: "uint (w :: u64) \<le> 2 ^ 64" for w using uint_lt2p [of w] by simp
  have "uint (rc_n_opt c) \<le> 2 ^ 32" using uint_lt2p [of "rc_n_opt c"] by simp
  then have z: "narrow 1 (2 ^ 32) ?z" by (intro narrow_new) auto
  have sg: "narrow (2 ^ 64) (2 ^ 64) ?sigma" "narrow (2 ^ 64) (2 ^ 64) ?s" using u64 by (auto intro!: narrow_new)
  note x = capped_min [OF sg(1) z] and y = capped_min [OF sg(2) z]
  have T: "0 < rat_u ?T" using assms(3) rat_u_zero(1) [of ?T] rat_u_nonneg [of ?T] by linarith
  have fb: "rat_u (fallback_max_pool ?pot stake ?T) \<le> rat_u ?pot * (rat_u stake / rat_u ?T)"
    using fallback_max_pool_le [OF assms(3,4)] .
  show ?thesis
  proof (cases "rat_of ?z = 0")
    case True
    have "rational_wf ?z" using z by (simp add: narrow_def)
    then have "rational_div d ?z = None" if "rational_wf d" for d
      using rational_div_eq [OF that, of ?z] True by simp
    moreover obtain d where "rational_sub ?z ?x = Some d" "rational_wf d"
      using rational_sub_eq [OF \<open>rational_wf ?z\<close> x(1)] by blast
    ultimately have "pool_bracket ?z ?x ?y ?a0 = None" by (simp add: pool_bracket_def Let_def)
    then show ?thesis using fb by (simp add: max_pool_reward_def Let_def)
  next
    case False
    have zw: "rational_wf ?z" using z by (simp add: narrow_def)
    have zp: "0 < rat_of ?z" using False z by (auto simp: narrow_def rat_of_def rational_wf_def less_le)
    have nn: "0 \<le> rat_of ?sigma" "0 \<le> rat_of ?s" using sg by (auto simp: narrow_def rat_of_def rational_wf_def)
    obtain br where br: "pool_bracket ?z ?x ?y ?a0 = Some br" "rational_wf br"
      and v: "rat_of br = rat_of ?x + rat_of ?y * rat_of ?a0 * ((rat_of ?x - rat_of ?y * ((rat_of ?z - rat_of ?x) / rat_of ?z)) / rat_of ?z)"
      using pool_bracket_value [OF zw x(1) y(1) assms(1) False] by blast
    have "rat_of br \<le> rat_of ?x * (1 + rat_of ?a0)"
      unfolding v by (rule bracket_bound) (use zp nn assms(2) in \<open>auto simp: x(2) y(2)\<close>)
    also have "\<dots> \<le> rat_of ?sigma * (1 + rat_of ?a0)"
      by (rule mult_right_mono) (use assms(2) in \<open>auto simp: x(2)\<close>)
    finally have bb: "rat_of br / (1 + rat_of ?a0) \<le> rat_u stake / rat_u ?T"
      using assms(2) by (simp add: pos_divide_le_eq ratio_u(2))
    obtain one where o: "rational_add rational_one ?a0 = Some one" "rational_wf one" "rat_of one = 1 + rat_of ?a0"
      using rational_add_eq [OF rational_constants(4) assms(1)] rational_constants(6) by auto
    obtain m where m: "rational_mul (from_integer (uint ?pot)) br = Some m" "rational_wf m" "rat_of m = rat_u ?pot * rat_of br"
      using rational_mul_integer [OF br(2)] by blast
    have "rat_of one \<noteq> 0" using o(3) assms(2) by simp
    then obtain r where r: "rational_div m one = Some r" "rational_wf r" "rat_of r = rat_of m / rat_of one"
      using rational_div_eq [OF m(2) o(2)] by auto
    have le: "rat_of r \<le> rat_u ?pot * (rat_u stake / rat_u ?T)"
      using mult_left_mono [OF bb rat_u_nonneg [of ?pot]] by (simp add: r(3) m(3) o(3))
    have "rat_u (floor_u64 r) \<le> rat_u ?pot * (rat_u stake / rat_u ?T)"
      by (rule floor_bound [OF r(2) le share_nonneg share_le [OF assms(4)]])
    then show ?thesis
      using br(1) o(1) m(1) r(1) by (simp add: max_pool_reward_def Let_def or_one_def)
  qed
qed

text \<open>What a pool can get of the pot: its part of the blocks, of the active part of the stake.\<close>

definition pool_quota :: "RewardContext \<Rightarrow> u64 \<Rightarrow> rat" where
  "pool_quota c blocks =
     rat_u (rc_pool_reward_pot c) * (rat_u (rc_total_active_stake c) / rat_u (rc_total_stake c)) *
     (rat_u blocks / rat_u (rc_total_blocks_produced c))"

lemma performance_value:
  assumes "unat tb < 2 ^ 63" "unat blocks \<le> unat tb" "tb \<noteq> 0" "stake \<noteq> 0"
    and "tb = rc_total_blocks_produced c"
  shows "rational_wf (apparent_performance c blocks stake)"
    "rat_of (apparent_performance c blocks stake) =
       (rat_u blocks * rat_u (rc_total_active_stake c)) / (rat_u tb * rat_u stake)"
proof -
  have lt: "uint (w :: u64) < 2 ^ 64" for w using uint_lt2p [of w] by simp
  have "int (unat tb) < int (2 ^ 63)" "int (unat blocks) \<le> int (unat tb)"
    using assms(1,2) by (simp_all only: of_nat_less_iff of_nat_le_iff)
  then have "uint tb < 2 ^ 63" "uint blocks \<le> uint tb" by simp_all
  then have b: "uint tb \<le> 2 ^ 63 - 1" "uint blocks \<le> 2 ^ 63 - 1" by simp_all
  have e: "i128_mul (uint x) (uint y) = uint x * uint y" if "uint x \<le> 2 ^ 63 - 1" for x y :: u64
  proof -
    have "uint x * uint y \<le> (2 ^ 63 - 1) * 2 ^ 64" using that lt [of y] by (intro mult_mono) auto
    then show ?thesis by (intro i128_mul_exact) auto
  qed
  have pos: "0 < tb" "0 < stake" using assms(3,4) by (simp_all add: word_greater_zero_iff)
  have "uint tb * uint stake \<noteq> 0" using assms(3,4) by (simp add: uint_0_iff)
  then show "rational_wf (apparent_performance c blocks stake)"
    "rat_of (apparent_performance c blocks stake) =
       (rat_u blocks * rat_u (rc_total_active_stake c)) / (rat_u tb * rat_u stake)"
    using rational_new_cases(2) [of "uint blocks * uint (rc_total_active_stake c)" "uint tb * uint stake"] pos
    unfolding apparent_performance_def assms(5) [symmetric] e [OF b(1)] e [OF b(2)]
    by (simp_all only: if_True of_int_mult rat_u_int simp_thms if_False)
qed

lemma pool_reward_le:
  assumes "rational_wf (rc_pool_influence c)" "0 \<le> rat_of (rc_pool_influence c)"
    and "rc_total_stake c \<noteq> 0" "unat stake \<le> unat (rc_total_active_stake c)"
    and "unat (rc_total_active_stake c) \<le> unat (rc_total_stake c)"
    and "stake \<noteq> 0" "rc_total_blocks_produced c \<noteq> 0" "unat blocks \<le> unat (rc_total_blocks_produced c)"
    and "unat (rc_total_blocks_produced c) < 2 ^ 63"
  shows "rat_u (pool_reward c (max_pool_reward c stake params) (apparent_performance c blocks stake)) \<le> pool_quota c blocks"
proof -
  let ?pot = "rc_pool_reward_pot c" and ?T = "rc_total_stake c" and ?A = "rc_total_active_stake c"
    and ?tb = "rc_total_blocks_produced c" and ?m = "max_pool_reward c stake params"
  note perf = performance_value [OF assms(9,8,7,6) refl]
  have nz: "rat_u stake \<noteq> 0" "rat_u ?tb \<noteq> 0" "rat_u ?T \<noteq> 0" using assms by (simp_all add: rat_u_zero)
  have m: "rat_u ?m \<le> rat_u ?pot * (rat_u stake / rat_u ?T)"
    using assms by (intro max_pool_le) auto
  obtain r where r: "rational_mul (from_integer (uint ?m)) (apparent_performance c blocks stake) = Some r"
    "rational_wf r" "rat_of r = rat_u ?m * ((rat_u blocks * rat_u ?A) / (rat_u ?tb * rat_u stake))"
    using rational_mul_integer [OF perf(1)] perf(2) by auto
  have "rat_of r \<le> rat_u ?pot * (rat_u stake / rat_u ?T) * ((rat_u blocks * rat_u ?A) / (rat_u ?tb * rat_u stake))"
    unfolding r(3) using m rat_u_nonneg by (intro mult_right_mono divide_nonneg_nonneg mult_nonneg_nonneg)
  also have "\<dots> = pool_quota c blocks" using nz by (simp add: pool_quota_def field_simps)
  finally have le: "rat_of r \<le> pool_quota c blocks" .
  have q: "0 \<le> pool_quota c blocks" "pool_quota c blocks \<le> rat_u ?pot"
  proof -
    show "0 \<le> pool_quota c blocks"
      unfolding pool_quota_def using rat_u_nonneg by (intro mult_nonneg_nonneg divide_nonneg_nonneg)
    have "pool_quota c blocks \<le> rat_u ?pot * (rat_u ?A / rat_u ?T)"
      unfolding pool_quota_def using share_nonneg share_le_one [OF assms(8)] by (intro mult_left_le)
    then show "pool_quota c blocks \<le> rat_u ?pot" using share_le [OF assms(5)] by (rule order_trans)
  qed
  show ?thesis using floor_bound [OF r(2) le q] r(1) by (simp add: pool_reward_def)
qed

section \<open>Flows of coin\<close>

text \<open>
  The loops of the boundary move coin into a pot or an account step by step. Such a step keeps a
  condition and adds its amount to what is held as long as the sum stays below \<open>2 ^ 64\<close>, where
  saturation and wrap-around begin; so does the whole loop.
\<close>

locale coin_flow =
  fixes step :: "'s \<Rightarrow> 'a \<Rightarrow> 's" and held :: "'s \<Rightarrow> nat" and moved :: "'a \<Rightarrow> nat" and ok :: "'s \<Rightarrow> bool"
  assumes step_moves: "ok s \<Longrightarrow> held s + moved x < 2 ^ 64 \<Longrightarrow> ok (step s x) \<and> held (step s x) = held s + moved x"
begin

lemma loop_moves:
  "ok s \<Longrightarrow> held s + sum_list (map moved xs) < 2 ^ 64 \<Longrightarrow>
   ok (foldl step s xs) \<and> held (foldl step s xs) = held s + sum_list (map moved xs)"
proof (induction xs arbitrary: s)
  case (Cons x xs)
  have "ok (step s x) \<and> held (step s x) = held s + moved x"
    using Cons.prems by (intro step_moves) auto
  then show ?case using Cons.IH [of "step s x"] Cons.prems(2) by simp
qed simp

end

definition coin_sum :: "('k \<times> Coin) list \<Rightarrow> nat" where
  "coin_sum m = sum_list (map (\<lambda>e. unat (snd e)) m)"

lemma coin_sum_get: "bt_wf m \<Longrightarrow> bt_get m k = Some v \<Longrightarrow> coin_sum m = unat v + coin_sum (bt_remove k m)"
  using sum_list_bt_remove [of m k v "\<lambda>e. unat (snd e)"] by (simp add: coin_sum_def)

lemma coin_sum_fresh: "bt_wf m \<Longrightarrow> bt_get m k = None \<Longrightarrow> coin_sum (bt_insert k v m) = unat v + coin_sum m"
  using sum_list_bt_insert [of m k "\<lambda>e. unat (snd e)" v] by (simp add: coin_sum_def)

lemma coin_sum_add:
  assumes "bt_wf m" "coin_sum m + unat c < 2 ^ 64"
  shows "bt_wf (add_coin k c m)" "coin_sum (add_coin k c m) = coin_sum m + unat c"
proof -
  show "bt_wf (add_coin k c m)" using assms(1) by (simp add: add_coin_def bt_wf_insert)
  show "coin_sum (add_coin k c m) = coin_sum m + unat c"
  proof (cases "bt_get m k")
    case None
    then show ?thesis using assms by (simp add: add_coin_def or_0_def coin_sum_fresh unat_saturating_add)
  next
    case (Some v)
    let ?m = "bt_remove k m"
    have m: "coin_sum m = unat v + coin_sum ?m" using coin_sum_get [OF assms(1) Some] .
    have "add_coin k c m = bt_insert k (saturating_add v c) ?m"
      using assms(1) Some
      by (intro bt_get_ext) (auto simp: add_coin_def or_0_def bt_wf_insert bt_wf_remove bt_get_upd fun_eq_iff)
    then have "coin_sum (add_coin k c m) = unat (saturating_add v c) + coin_sum ?m"
      using assms(1) by (simp add: coin_sum_fresh bt_wf_remove bt_get_remove)
    then show ?thesis using m assms(2) by (simp add: unat_saturating_add)
  qed
qed

lemma unat_sat_total: "unat (sat_total xs) \<le> sum_list (map unat xs)"
proof -
  have "unat (foldl saturating_add a xs) \<le> unat a + sum_list (map unat xs)" for a
  proof (induction xs arbitrary: a)
    case (Cons x xs)
    from Cons [of "saturating_add a x"] show ?case by (simp add: unat_saturating_add)
  qed simp
  from this [of 0] show ?thesis by (simp add: sat_total_def)
qed

lemma sat_total_exact: "sum_list (map unat xs) < 2 ^ 64 \<Longrightarrow> unat (sat_total xs) = sum_list (map unat xs)"
proof -
  have "unat a + sum_list (map unat xs) < 2 ^ 64 \<Longrightarrow> unat (foldl saturating_add a xs) = unat a + sum_list (map unat xs)"
    for a :: u64 and xs
    by (induction xs arbitrary: a) (simp_all add: unat_saturating_add)
  from this [of 0 xs] show "sum_list (map unat xs) < 2 ^ 64 \<Longrightarrow> ?thesis" by (simp add: sat_total_def)
qed

section \<open>Owners and members of a pool\<close>

text \<open>The stake of a credential in a pool.\<close>

definition stake_in :: "StakeSnapshot \<Rightarrow> PoolId \<Rightarrow> StakeCredential \<Rightarrow> nat" where
  "stake_in go p cred = (case bt_get (ss_delegations go) cred of Some (q, t) \<Rightarrow> if q = p then unat t else 0 | None \<Rightarrow> 0)"

lemma delegator_stakes_sum:
  assumes "bt_wf (ss_delegations go)"
  shows "sum_list (map (\<lambda>(cred, t). if P cred then unat t else 0) (delegator_stakes go p)) =
    (\<Sum>cred \<in> fst ` set (ss_delegations go). if P cred then stake_in go p cred else 0)"
proof -
  let ?g = "\<lambda>cred. if P cred then stake_in go p cred else 0"
  have f: "sum_list (map (\<lambda>(cred, t). if P cred then unat t else 0)
      (map (\<lambda>(cred, _, coin). (cred, coin)) (filter (\<lambda>(_, pid, _). pid = p) m))) =
      sum_list (map (\<lambda>(cred, q, t). if q = p \<and> P cred then unat t else 0) m)"
    for m :: "(StakeCredential \<times> PoolId \<times> Coin) list"
    by (induction m) auto
  have "map (\<lambda>(cred, q, t). if q = p \<and> P cred then unat t else 0) (ss_delegations go) = map ?g (map fst (ss_delegations go))"
    by (auto simp: stake_in_def bt_get_Some [OF assms, THEN iffD2])
  then show ?thesis
    using bt_wf_distinct [OF assms] by (simp only: delegator_stakes_def f sum_list_distinct_conv_sum_set set_map)
qed

lemma bt_get_dom: "bt_get m k = Some v \<Longrightarrow> k \<in> fst ` set m"
  using bt_get_None [of m k] by auto

lemma distinct_insorts: "distinct ys \<Longrightarrow> distinct (fold insort_insert xs ys)"
  by (induction xs arbitrary: ys) (simp_all add: distinct_insort_insert)

lemma owner_stake_sum:
  assumes "bt_wf (ss_delegations go)"
  shows "unat (self_delegated_owner_stake go p owners) \<le>
    (\<Sum>cred \<in> fst ` set (ss_delegations go). if cred \<in> StakeCredential.KeyHash ` set owners then stake_in go p cred else 0)"
proof -
  let ?os = "fold insort_insert owners []"
  let ?K = "StakeCredential.KeyHash ` set owners" and ?D = "fst ` set (ss_delegations go)"
  have os: "set ?os = set owners" "distinct ?os"
    by (simp_all add: set_fold_insort distinct_insorts)
  have e: "sum_list (map unat (map snd (filter (\<lambda>(delegated_to, _). delegated_to = p)
       (List.map_filter (\<lambda>owner. bt_get (ss_delegations go) (StakeCredential.KeyHash owner)) xs)))) =
     sum_list (map (\<lambda>o'. stake_in go p (StakeCredential.KeyHash o')) xs)" for xs
    by (induction xs) (auto simp: map_filter_simps stake_in_def split: option.splits)
  have "unat (self_delegated_owner_stake go p owners) \<le> sum_list (map (\<lambda>o'. stake_in go p (StakeCredential.KeyHash o')) ?os)"
    unfolding self_delegated_owner_stake_def e [symmetric] by (rule unat_sat_total)
  also have "\<dots> = (\<Sum>o' \<in> set owners. stake_in go p (StakeCredential.KeyHash o'))"
    using os by (simp add: sum_list_distinct_conv_sum_set)
  also have "\<dots> = (\<Sum>cred \<in> ?K. stake_in go p cred)"
    by (simp add: sum.reindex inj_on_def)
  also have "\<dots> = (\<Sum>cred \<in> ?D \<inter> ?K. stake_in go p cred)"
    by (rule sum.mono_neutral_right) (auto simp: stake_in_def split: option.splits dest: bt_get_dom)
  also have "\<dots> = (\<Sum>cred \<in> ?D. if cred \<in> ?K then stake_in go p cred else 0)"
    by (rule sum.inter_restrict) simp
  finally show ?thesis .
qed

text \<open>A snapshot whose pool stakes are the sums of the stakes delegated to the pools.\<close>

definition snapshot_consistent :: "StakeSnapshot \<Rightarrow> bool" where
  "snapshot_consistent go \<longleftrightarrow> bt_wf (ss_delegations go) \<and> bt_wf (ss_pool_stakes go) \<and>
     (\<forall>(p, s) \<in> set (ss_pool_stakes go). unat s = sum_list (map (\<lambda>e. unat (snd e)) (delegator_stakes go p)))"

lemma owners_and_members:
  assumes "snapshot_consistent go" "(p, stake) \<in> set (ss_pool_stakes go)"
  shows "unat (self_delegated_owner_stake go p owners) +
    sum_list (map (\<lambda>(cred, t). if cred \<in> StakeCredential.KeyHash ` set owners then 0 else unat t) (delegator_stakes go p))
    \<le> unat stake"
proof -
  have wf: "bt_wf (ss_delegations go)" and s: "unat stake = sum_list (map (\<lambda>(cred, t). if True then unat t else 0) (delegator_stakes go p))"
    using assms by (auto simp: snapshot_consistent_def split_def)
  let ?K = "StakeCredential.KeyHash ` set owners"
  have mem: "(\<lambda>(cred, t). if cred \<in> ?K then 0 else unat t) = (\<lambda>(cred, t :: u64). if cred \<notin> ?K then unat t else 0)"
    by (auto simp: fun_eq_iff)
  have split: "sum f D = (\<Sum>x \<in> D. if x \<in> K then f x else 0) + (\<Sum>x \<in> D. if x \<notin> K then f x else 0)"
    for D K :: "StakeCredential set" and f :: "StakeCredential \<Rightarrow> nat"
    unfolding sum.distrib [symmetric] by (rule sum.cong) auto
  have "unat stake = sum (stake_in go p) (fst ` set (ss_delegations go))"
    unfolding s delegator_stakes_sum [OF wf] by simp
  then show ?thesis
    unfolding mem delegator_stakes_sum [OF wf]
      split [of "stake_in go p" "fst ` set (ss_delegations go)" ?K]
    using owner_stake_sum [OF wf, of p owners] by simp
qed

section \<open>The split of a pool's reward\<close>

lemma or_zero_mul:
  "rational_wf a \<Longrightarrow> rational_wf b \<Longrightarrow> rational_wf (or_zero (rational_mul a b)) \<and> rat_of (or_zero (rational_mul a b)) = rat_of a * rat_of b"
  using rational_mul_eq [of a b] by (auto simp: or_zero_def)

lemma or_one_sub:
  "rational_wf a \<Longrightarrow> rational_wf b \<Longrightarrow> rational_wf (or_one (rational_sub a b)) \<and> rat_of (or_one (rational_sub a b)) = rat_of a - rat_of b"
  using rational_sub_eq [of a b] by (auto simp: or_one_def)

lemma leader_floor:
  assumes "rational_wf m" "0 \<le> rat_of m" "rat_of m \<le> 1" "unat own \<le> unat stake"
  defines "share \<equiv> or_zero (Rational_new (uint own) (uint stake))"
  shows "\<exists>r. leader_reward x cost m share = cost + r \<and>
    rat_u r \<le> rat_u x * (rat_of m + (1 - rat_of m) * (rat_u own / rat_u stake))"
proof -
  have share: "rational_wf share" "rat_of share = rat_u own / rat_u stake" unfolding share_def by (rule ratio_u)+
  let ?one_minus = "or_one (rational_sub rational_one m)"
  have om: "rational_wf ?one_minus" "rat_of ?one_minus = 1 - rat_of m"
    using or_one_sub [OF rational_constants(4) assms(1)] rational_constants(6) by simp_all
  note term_mul = or_zero_mul [OF om(1) share(1)]
  obtain t where t: "rational_add m (or_zero (rational_mul ?one_minus share)) = Some t" "rational_wf t"
    "rat_of t = rat_of m + (1 - rat_of m) * (rat_u own / rat_u stake)"
    using rational_add_eq [OF assms(1), of "or_zero (rational_mul ?one_minus share)"] term_mul om(2) share(2) by auto
  obtain r where r: "rational_mul (from_integer (uint x)) t = Some r" "rational_wf r" "rat_of r = rat_u x * rat_of t"
    using rational_mul_integer [OF t(2)] by blast
  have s: "0 \<le> rat_u own / rat_u stake" "rat_u own / rat_u stake \<le> 1"
    using share_le_one [OF assms(4)] by (auto intro: divide_nonneg_nonneg rat_u_nonneg)
  have "(1 - rat_of m) * (rat_u own / rat_u stake) \<le> (1 - rat_of m) * 1"
    using s assms(3) by (intro mult_left_mono) auto
  then have "rat_of t \<le> 1" "0 \<le> rat_of t"
    using s assms(2,3) unfolding t(3) by (auto intro: add_nonneg_nonneg mult_nonneg_nonneg simp del: times_divide_eq_right)
  then have "rat_u (floor_u64 r) \<le> rat_u x * rat_of t"
    using rat_u_nonneg [of x] by (intro floor_bound [OF r(2), of _ x]) (auto simp: r(3) mult_left_le)
  then show ?thesis
    using t(1,3) r(1) by (auto simp: leader_reward_def Let_def)
qed

lemma member_floor:
  assumes "rational_wf mf" "rat_of mf = rat_u (x :: u64) * q" "0 \<le> q" "q \<le> 1" "unat t \<le> unat stake"
  shows "rat_u (member_reward mf stake t) \<le> rat_u x * q * (rat_u t / rat_u stake)"
proof -
  let ?share = "or_zero (Rational_new (uint t) (uint stake))"
  have share: "rational_wf ?share" "rat_of ?share = rat_u t / rat_u stake" by (rule ratio_u)+
  obtain r where r: "rational_mul mf ?share = Some r" "rational_wf r" "rat_of r = rat_of mf * rat_of ?share"
    using rational_mul_eq [OF assms(1) share(1)] by blast
  let ?b = "rat_u x * q * (rat_u t / rat_u stake)"
  have xq: "0 \<le> rat_u x * q" "rat_u x * q \<le> rat_u x"
    using assms(3,4) rat_u_nonneg [of x] by (auto intro: mult_left_le)
  have "0 \<le> rat_u t / rat_u stake" by (intro divide_nonneg_nonneg rat_u_nonneg)
  then have "0 \<le> ?b" "?b \<le> rat_u x"
    using xq share_le_one [OF assms(5)] by (auto simp del: times_divide_eq_right intro: order_trans [OF mult_left_le])
  then have "rat_u (floor_u64 r) \<le> ?b"
    by (intro floor_bound [OF r(2), of _ x]) (simp_all add: r(3) share(2) assms(2))
  then show ?thesis using r(1) by (simp add: member_reward_def)
qed

lemma members_floor:
  assumes "rational_wf mf" "rat_of mf = rat_u (x :: u64) * q" "0 \<le> q" "q \<le> 1" "sum_list (map unat ts) \<le> unat stake"
  shows "(of_nat (sum_list (map (\<lambda>t. unat (member_reward mf stake t)) ts)) :: rat) \<le>
    rat_u x * q * (of_nat (sum_list (map unat ts)) / rat_u stake)"
  using assms(5)
proof (induction ts)
  case (Cons t ts)
  have "rat_u (member_reward mf stake t) \<le> rat_u x * q * (rat_u t / rat_u stake)"
    using Cons.prems by (intro member_floor [OF assms(1-4)]) auto
  then show ?case using Cons by (simp add: rat_u_def add_divide_distrib distrib_left)
qed simp

text \<open>Leader and members together get at most the reward of the pool.\<close>

lemma split_le:
  assumes m: "rational_wf m" "0 \<le> rat_of m" "rat_of m \<le> 1"
    and stakes: "unat own + sum_list (map unat ts) \<le> unat stake" "stake \<noteq> 0"
    and mf: "rational_wf mf" "rat_of mf = rat_u x * (1 - rat_of m)"
    and cost: "unat cost + unat x < 2 ^ 64"
  shows "unat (leader_reward x cost m (or_zero (Rational_new (uint own) (uint stake)))) +
    sum_list (map (\<lambda>t. unat (member_reward mf stake t)) ts) \<le> unat cost + unat x"
proof -
  let ?S = "rat_u stake" and ?q = "1 - rat_of m"
  have S: "0 < ?S" using stakes(2) rat_u_zero(1) [of stake] rat_u_nonneg [of stake] by linarith
  obtain r where r: "leader_reward x cost m (or_zero (Rational_new (uint own) (uint stake))) = cost + r"
      "rat_u r \<le> rat_u x * (rat_of m + ?q * (rat_u own / ?S))"
    using leader_floor [OF m, of own stake x cost] stakes(1) by auto
  have "(of_nat (sum_list (map (\<lambda>t. unat (member_reward mf stake t)) ts)) :: rat) \<le>
      rat_u x * ?q * (of_nat (sum_list (map unat ts)) / ?S)"
    using stakes(1) m by (intro members_floor [OF mf]) auto
  then have "rat_u r + of_nat (sum_list (map (\<lambda>t. unat (member_reward mf stake t)) ts)) \<le>
      rat_u x * (rat_of m + ?q * ((rat_u own + of_nat (sum_list (map unat ts))) / ?S))"
    using r(2) by (simp add: algebra_simps add_divide_distrib)
  also have "\<dots> \<le> rat_u x * (rat_of m + ?q * 1)"
  proof (intro mult_left_mono add_left_mono)
    have "(of_nat (unat own + sum_list (map unat ts)) :: rat) \<le> of_nat (unat stake)"
      using stakes(1) by (simp only: of_nat_le_iff)
    then show "(rat_u own + of_nat (sum_list (map unat ts))) / ?S \<le> 1" using S by (simp add: rat_u_def)
  qed (use m rat_u_nonneg [of x] in auto)
  also have "\<dots> = rat_u x" by simp
  finally have "(of_nat (unat r + sum_list (map (\<lambda>t. unat (member_reward mf stake t)) ts)) :: rat) \<le> of_nat (unat x)"
    by (simp add: rat_u_def)
  then have "unat r + sum_list (map (\<lambda>t. unat (member_reward mf stake t)) ts) \<le> unat x" by (simp only: of_nat_le_iff)
  moreover have "unat (cost + r) = unat cost + unat r" using calculation cost by (simp add: unat_word_ariths)
  ultimately show ?thesis by (simp add: r(1))
qed

text \<open>The loop over the members of a pool.\<close>

definition paid :: "RewardContext \<Rightarrow> SnapshotPoolParams \<Rightarrow> Rational \<Rightarrow> Coin \<Rightarrow> StakeCredential \<times> Coin \<Rightarrow> nat" where
  "paid c params mf stake = (\<lambda>(cred, t).
     if is_pool_owner c params cred \<or> t = 0 \<or> rc_protocol_major c \<le> 6 \<and> \<not> rc_registered c cred then 0
     else unat (member_reward mf stake t))"

interpretation pay: coin_flow "pay_member c params mf stake" "\<lambda>s. coin_sum (snd s)" "paid c params mf stake"
  "\<lambda>s. bt_wf (snd s) \<and> coin_sum (snd s) = base + unat (fst s)" for c params mf stake base
proof
  fix s :: "u64 \<times> (StakeCredential, Coin) btree_map" and x
  assume ok: "bt_wf (snd s) \<and> coin_sum (snd s) = base + unat (fst s)"
    and lt: "coin_sum (snd s) + paid c params mf stake x < 2 ^ 64"
  obtain d m cred t where s: "s = (d, m)" and x: "x = (cred, t)" by (cases s, cases x)
  let ?r = "member_reward mf stake t"
  show "(bt_wf (snd (pay_member c params mf stake s x)) \<and>
      coin_sum (snd (pay_member c params mf stake s x)) = base + unat (fst (pay_member c params mf stake s x))) \<and>
    coin_sum (snd (pay_member c params mf stake s x)) = coin_sum (snd s) + paid c params mf stake x"
  proof (cases "is_pool_owner c params cred \<or> t = 0 \<or> rc_protocol_major c \<le> 6 \<and> \<not> rc_registered c cred \<or> ?r = 0")
    case True
    then show ?thesis using ok by (auto simp: pay_member_def paid_def s x Let_def)
  next
    case False
    then have p: "paid c params mf stake x = unat ?r"
      "pay_member c params mf stake s x = (d + ?r, add_coin cred ?r m)"
      by (auto simp: pay_member_def paid_def s x word_greater_zero_iff Let_def)
    have "unat (d + ?r) = unat d + unat ?r" using ok lt by (simp add: p(1) s unat_word_ariths)
    then show ?thesis unfolding p using ok lt [unfolded p] coin_sum_add [of m ?r cred] by (simp add: s)
  qed
qed

lemma paid_sum_le:
  assumes "rc_protocol_major c \<ge> 4"
  shows "sum_list (map (paid c params mf stake) ds) \<le>
    sum_list (map (\<lambda>t. unat (member_reward mf stake t))
      (map snd (filter (\<lambda>(cred, t). cred \<notin> StakeCredential.KeyHash ` set (spp_self_delegated_owners params)) ds)))"
proof (induction ds)
  case (Cons e ds)
  obtain cred t where e: "e = (cred, t)" by (cases e)
  have "is_pool_owner c params cred \<longleftrightarrow> cred \<in> StakeCredential.KeyHash ` set (spp_self_delegated_owners params)"
    using assms by (auto simp: is_pool_owner_def split: StakeCredential.splits)
  then show ?case using Cons by (auto simp: e paid_def)
qed simp

definition totals_ok :: "RewardTotals \<Rightarrow> bool" where
  "totals_ok acc \<longleftrightarrow> bt_wf (rt_reward_deltas acc) \<and>
     coin_sum (rt_reward_deltas acc) = unat (rt_total_pool_rewards acc) + unat (rt_total_member_rewards acc)"

lemma nonowner_sum:
  "sum_list (map unat (map snd (filter (\<lambda>(cred, t). cred \<notin> K) ds))) =
   sum_list (map (\<lambda>(cred, t). if cred \<in> K then 0 else unat t) ds)"
  by (induction ds) auto

lemma pool_split_le:
  fixes c params p stake pool_max
  defines "x \<equiv> pool_max - spp_cost params"
  defines "m \<equiv> or_zero (Rational_new (uint (fst (spp_margin params))) (uint (snd (spp_margin params))))"
  defines "own \<equiv> self_delegated_owner_stake (rc_go c) p (spp_self_delegated_owners params)"
  defines "mf \<equiv> or_zero (rational_mul (from_integer (uint x)) (or_one (rational_sub rational_one m)))"
  assumes go: "snapshot_consistent (rc_go c)" "(p, stake) \<in> set (ss_pool_stakes (rc_go c))" "stake \<noteq> 0"
    and major: "rc_protocol_major c \<ge> 4" and margin: "fst (spp_margin params) \<le> snd (spp_margin params)"
    and more: "\<not> pool_max \<le> spp_cost params"
  shows "unat (leader_reward x (spp_cost params) m (or_zero (Rational_new (uint own) (uint stake)))) +
    sum_list (map (paid c params mf stake) (delegator_stakes (rc_go c) p)) \<le> unat pool_max"
proof -
  have cx: "unat (spp_cost params) + unat x = unat pool_max" using more by (simp add: x_def unat_sub word_le_nat_alt)
  have m: "rational_wf m" "0 \<le> rat_of m" "rat_of m \<le> 1"
    using ratio_u [of "fst (spp_margin params)" "snd (spp_margin params)"]
      share_le_one [of "fst (spp_margin params)" "snd (spp_margin params)"] margin
    by (auto simp: m_def word_le_nat_alt intro: divide_nonneg_nonneg rat_u_nonneg)
  have om: "rational_wf (or_one (rational_sub rational_one m))" "rat_of (or_one (rational_sub rational_one m)) = 1 - rat_of m"
    using or_one_sub [OF rational_constants(4) m(1)] rational_constants(6) by simp_all
  have mf: "rational_wf mf" "rat_of mf = rat_u x * (1 - rat_of m)"
    using or_zero_mul [OF rat_of_integer(1) [of x] om(1)] om(2) rat_of_integer(2) [of x] by (simp_all add: mf_def)
  have stakes: "unat own + sum_list (map unat (map snd (filter
      (\<lambda>(cred, t). cred \<notin> StakeCredential.KeyHash ` set (spp_self_delegated_owners params))
      (delegator_stakes (rc_go c) p)))) \<le> unat stake"
    unfolding nonowner_sum own_def by (rule owners_and_members [OF go(1,2)])
  have "unat (spp_cost params) + unat x < 2 ^ 64" using cx unsigned_less [of pool_max, where 'a = nat] by simp
  from split_le [OF m stakes go(3) mf this] paid_sum_le [OF major, of params mf stake "delegator_stakes (rc_go c) p"]
  show ?thesis unfolding cx by linarith
qed

lemma distribute_moves:
  assumes ok: "totals_ok acc" and room: "coin_sum (rt_reward_deltas acc) + unat pool_max < 2 ^ 64"
    and go: "snapshot_consistent (rc_go c)" "(p, stake) \<in> set (ss_pool_stakes (rc_go c))" "stake \<noteq> 0"
    and major: "rc_protocol_major c \<ge> 4" and margin: "fst (spp_margin params) \<le> snd (spp_margin params)"
  shows "totals_ok (distribute_pool_reward c p stake params pool_max acc) \<and>
    coin_sum (rt_reward_deltas (distribute_pool_reward c p stake params pool_max acc)) \<le>
      coin_sum (rt_reward_deltas acc) + unat pool_max"
proof (cases "pool_max \<le> spp_cost params")
  case True
  then show ?thesis
    using ok room coin_sum_add [of "rt_reward_deltas acc" pool_max "spp_reward_account params"]
    by (auto simp: distribute_pool_reward_def Let_def totals_ok_def unat_saturating_add)
next
  case False
  let ?x = "pool_max - spp_cost params" and ?op = "spp_reward_account params"
  let ?m = "or_zero (Rational_new (uint (fst (spp_margin params))) (uint (snd (spp_margin params))))"
  let ?own = "self_delegated_owner_stake (rc_go c) p (spp_self_delegated_owners params)"
  let ?L = "leader_reward ?x (spp_cost params) ?m (or_zero (Rational_new (uint ?own) (uint stake)))"
  let ?mf = "or_zero (rational_mul (from_integer (uint ?x)) (or_one (rational_sub rational_one ?m)))"
  let ?ds = "delegator_stakes (rc_go c) p" and ?leads = "rc_protocol_major c \<le> 6 \<longrightarrow> rc_registered c ?op"
  let ?m1 = "if ?leads then add_coin ?op ?L (rt_reward_deltas acc) else rt_reward_deltas acc"
  let ?tp = "if ?leads then saturating_add (rt_total_pool_rewards acc) ?L else rt_total_pool_rewards acc"
  let ?fin = "foldl (pay_member c params ?mf stake) (0, ?m1) ?ds"
  have le: "unat ?L + sum_list (map (paid c params ?mf stake) ?ds) \<le> unat pool_max"
    using pool_split_le [OF go major margin False] .
  have m1: "bt_wf ?m1" "coin_sum ?m1 = unat ?tp + unat (rt_total_member_rewards acc)"
      "coin_sum ?m1 \<le> coin_sum (rt_reward_deltas acc) + unat ?L"
    using ok room le coin_sum_add [of "rt_reward_deltas acc" ?L ?op]
    by (auto simp: totals_ok_def unat_saturating_add)
  have fin: "bt_wf (snd ?fin)" "coin_sum (snd ?fin) = coin_sum ?m1 + unat (fst ?fin)"
      "coin_sum (snd ?fin) = coin_sum ?m1 + sum_list (map (paid c params ?mf stake) ?ds)"
    using pay.loop_moves [of "(0, ?m1)" "coin_sum ?m1" c params ?mf stake ?ds] m1 room le by auto
  have "distribute_pool_reward c p stake params pool_max acc =
      acc\<lparr>rt_reward_deltas := snd ?fin, rt_total_pool_rewards := ?tp,
          rt_total_member_rewards := saturating_add (rt_total_member_rewards acc) (fst ?fin),
          rt_rewarded_pool_count := rt_rewarded_pool_count acc + 1\<rparr>"
    using False go(3) major
    by (simp add: distribute_pool_reward_def Let_def owner_stake_of_def word_greater_zero_iff split_def)
  then show ?thesis using fin m1 room le by (simp add: totals_ok_def unat_saturating_add)
qed

section \<open>The rewards of an epoch\<close>

lemma unat_sum_list: "sum_list (map unat ws) < 2 ^ 64 \<Longrightarrow> unat (sum_list ws :: u64) = sum_list (map unat ws)"
proof (induction ws)
  case (Cons w ws)
  then show ?case by (simp add: unat_word_ariths)
qed simp

lemma sum_lookup_le:
  fixes m :: "('k::linorder, u64) btree_map"
  assumes "bt_wf m" "distinct ks"
  shows "sum_list (map (\<lambda>k. unat (or_0 (bt_get m k))) ks) \<le> sum_list (map unat (bt_values m))"
proof -
  let ?f = "\<lambda>k. unat (or_0 (bt_get m k))"
  have "map unat (bt_values m) = map ?f (map fst m)"
    by (auto simp: bt_values_def or_0_def bt_get_Some [OF assms(1), THEN iffD2])
  then have "sum_list (map unat (bt_values m)) = (\<Sum>k \<in> fst ` set m. ?f k)"
    using bt_wf_distinct [OF assms(1)] by (simp only: sum_list_distinct_conv_sum_set set_map)
  moreover have "sum_list (map ?f ks) = (\<Sum>k \<in> set ks. ?f k)"
    using assms(2) by (simp add: sum_list_distinct_conv_sum_set)
  moreover have "(\<Sum>k \<in> set ks. ?f k) = (\<Sum>k \<in> set ks \<inter> fst ` set m. ?f k)"
    by (rule sum.mono_neutral_right) (auto simp: or_0_def split: option.splits dest: bt_get_dom)
  moreover have "\<dots> \<le> (\<Sum>k \<in> fst ` set m. ?f k)" by (rule sum_mono2) auto
  ultimately show ?thesis by simp
qed

definition blocks_of :: "RewardContext \<Rightarrow> PoolId \<Rightarrow> u64" where
  "blocks_of c p = or_0 (bt_get (rc_block_production c) p)"

text \<open>What the reward calculation relies on.\<close>

definition reward_ready :: "RewardContext \<Rightarrow> bool" where
  "reward_ready c \<longleftrightarrow>
     4 \<le> rc_protocol_major c \<and> rational_wf (rc_pool_influence c) \<and> 0 \<le> rat_of (rc_pool_influence c) \<and>
     snapshot_consistent (rc_go c) \<and>
     list_all (\<lambda>(_, params). fst (spp_margin params) \<le> snd (spp_margin params)) (ss_pool_params (rc_go c)) \<and>
     bt_wf (ss_pool_params (rc_go c)) \<and> bt_wf (rc_block_production c) \<and>
     sum_list (map unat (bt_values (rc_block_production c))) < 2 ^ 63 \<and>
     rc_total_blocks_produced c = sum_list (bt_values (rc_block_production c)) \<and>
     rc_total_active_stake c = sat_total (bt_values (ss_pool_stakes (rc_go c))) \<and>
     sum_list (map unat (bt_values (ss_pool_stakes (rc_go c)))) \<le> unat (rc_total_stake c)"

lemma reward_ready_totals:
  assumes "reward_ready c"
  shows "unat (rc_total_blocks_produced c) = sum_list (map unat (bt_values (rc_block_production c)))"
    and "unat (rc_total_active_stake c) = sum_list (map unat (bt_values (ss_pool_stakes (rc_go c))))"
proof -
  show "unat (rc_total_blocks_produced c) = sum_list (map unat (bt_values (rc_block_production c)))"
    using assms by (simp add: reward_ready_def unat_sum_list)
  have "sum_list (map unat (bt_values (ss_pool_stakes (rc_go c)))) < 2 ^ 64"
    using assms unsigned_less [of "rc_total_stake c", where 'a = nat] by (simp add: reward_ready_def)
  then show "unat (rc_total_active_stake c) = sum_list (map unat (bt_values (ss_pool_stakes (rc_go c))))"
    using assms by (simp add: reward_ready_def sat_total_exact)
qed

lemma quota_nonneg: "0 \<le> pool_quota c b"
  unfolding pool_quota_def by (intro mult_nonneg_nonneg share_nonneg divide_nonneg_nonneg rat_u_nonneg)

lemma quotas_le_pot:
  assumes "reward_ready c"
  shows "sum_list (map (\<lambda>e. pool_quota c (blocks_of c (fst e))) (ss_pool_stakes (rc_go c))) \<le> rat_u (rc_pool_reward_pot c)"
proof -
  let ?tb = "rc_total_blocks_produced c" and ?k = "rat_u (rc_pool_reward_pot c) * (rat_u (rc_total_active_stake c) / rat_u (rc_total_stake c))"
  have q: "sum_list (map (\<lambda>e. pool_quota c (blocks_of c (fst e))) es) =
      ?k * (of_nat (sum_list (map (\<lambda>k. unat (blocks_of c k)) (map fst es))) / rat_u ?tb)" for es :: "(PoolId \<times> Coin) list"
    by (induction es) (simp_all add: pool_quota_def rat_u_def add_divide_distrib distrib_left)
  have "sum_list (map (\<lambda>k. unat (blocks_of c k)) (map fst (ss_pool_stakes (rc_go c)))) \<le> unat ?tb"
    using assms sum_lookup_le [of "rc_block_production c" "map fst (ss_pool_stakes (rc_go c))"] reward_ready_totals(1) [OF assms]
    by (simp add: reward_ready_def snapshot_consistent_def bt_wf_distinct blocks_of_def)
  then have "(of_nat (sum_list (map (\<lambda>k. unat (blocks_of c k)) (map fst (ss_pool_stakes (rc_go c))))) :: rat) \<le> rat_u ?tb"
    unfolding rat_u_def by (simp only: of_nat_le_iff)
  then have "of_nat (sum_list (map (\<lambda>k. unat (blocks_of c k)) (map fst (ss_pool_stakes (rc_go c))))) / rat_u ?tb \<le> 1"
    using rat_u_nonneg [of ?tb] by (cases "rat_u ?tb = 0") (simp_all add: divide_le_eq_1 less_le)
  then have "?k * (of_nat (sum_list (map (\<lambda>k. unat (blocks_of c k)) (map fst (ss_pool_stakes (rc_go c))))) / rat_u ?tb) \<le> ?k"
    by (rule mult_left_le [OF _ share_nonneg])
  also have "?k \<le> rat_u (rc_pool_reward_pot c)"
    using assms reward_ready_totals(2) [OF assms] by (intro share_le) (simp add: reward_ready_def)
  finally show ?thesis unfolding q .
qed

text \<open>A pool that is paid has stake, and gets at most its quota.\<close>

lemma paid_pool_quota:
  assumes ready: "reward_ready c" and T: "rc_total_stake c \<noteq> 0" and e: "(p, stake) \<in> set (ss_pool_stakes (rc_go c))"
    and earned: "blocks_of c p \<noteq> 0" "max_pool_reward c stake params \<noteq> 0"
  shows "stake \<noteq> 0"
    and "rat_u (pool_reward c (max_pool_reward c stake params) (apparent_performance c (blocks_of c p) stake)) \<le>
      pool_quota c (blocks_of c p)"
proof -
  have mem: "stake \<in> set (bt_values (ss_pool_stakes (rc_go c)))" using e by (force simp: bt_values_def)
  have st: "unat stake \<le> unat (rc_total_active_stake c)"
    using member_le_sum_list [of "unat stake" "map unat (bt_values (ss_pool_stakes (rc_go c)))"] mem
      reward_ready_totals(2) [OF ready] by auto
  have act: "unat (rc_total_active_stake c) \<le> unat (rc_total_stake c)"
    using ready reward_ready_totals(2) [OF ready] by (simp add: reward_ready_def)
  show "stake \<noteq> 0"
  proof
    assume "stake = 0"
    then have "rat_u (max_pool_reward c stake params) \<le> 0"
      using max_pool_le [OF _ _ T, of stake params] ready by (simp add: reward_ready_def rat_u_zero)
    then show False
      using earned(2) rat_u_zero(1) [of "max_pool_reward c stake params"] rat_u_nonneg [of "max_pool_reward c stake params"]
      by linarith
  qed
  have bl: "unat (blocks_of c p) \<le> unat (rc_total_blocks_produced c)"
    using sum_lookup_le [of "rc_block_production c" "[p]"] ready reward_ready_totals(1) [OF ready]
    by (simp add: reward_ready_def blocks_of_def)
  then have tb: "rc_total_blocks_produced c \<noteq> 0" using earned(1) by (auto simp: unat_eq_0)
  have "unat (rc_total_blocks_produced c) < 2 ^ 63"
    using ready reward_ready_totals(1) [OF ready] by (simp add: reward_ready_def)
  with ready T st act \<open>stake \<noteq> 0\<close> tb bl
  show "rat_u (pool_reward c (max_pool_reward c stake params) (apparent_performance c (blocks_of c p) stake)) \<le>
      pool_quota c (blocks_of c p)"
    by (intro pool_reward_le) (simp_all add: reward_ready_def)
qed

lemma reward_one_pool_moves:
  assumes ready: "reward_ready c" and T: "rc_total_stake c \<noteq> 0" and e: "e \<in> set (ss_pool_stakes (rc_go c))"
    and ok: "totals_ok acc" and room: "of_nat (coin_sum (rt_reward_deltas acc)) + pool_quota c (blocks_of c (fst e)) \<le> rat_u (rc_pool_reward_pot c)"
    and r: "reward_one_pool c acc e = Ok acc'"
  shows "totals_ok acc' \<and> of_nat (coin_sum (rt_reward_deltas acc')) \<le>
    of_nat (coin_sum (rt_reward_deltas acc)) + pool_quota c (blocks_of c (fst e))"
proof -
  obtain p stake where pe: "e = (p, stake)" by (cases e)
  have same: ?thesis if "acc' = acc" using that ok quota_nonneg [of c "blocks_of c (fst e)"] by simp
  consider "acc' = acc" | params where "bt_get (ss_pool_params (rc_go c)) p = Some params" "blocks_of c p \<noteq> 0"
      "max_pool_reward c stake params \<noteq> 0"
      "acc' = distribute_pool_reward c p stake params
         (pool_reward c (max_pool_reward c stake params) (apparent_performance c (blocks_of c p) stake)) acc"
    using r by (auto simp: reward_one_pool_def pe blocks_of_def Let_def result_simps split: if_splits option.splits)
  then show ?thesis
  proof cases
    case 2
    let ?f = "pool_reward c (max_pool_reward c stake params) (apparent_performance c (blocks_of c p) stake)"
    note q = paid_pool_quota [OF ready T e [unfolded pe] 2(2,3)]
    have "(of_nat (coin_sum (rt_reward_deltas acc) + unat ?f) :: rat) \<le> rat_u (rc_pool_reward_pot c)"
      using q(2) room by (simp add: pe rat_u_def)
    then have "coin_sum (rt_reward_deltas acc) + unat ?f \<le> unat (rc_pool_reward_pot c)"
      unfolding rat_u_def by (simp only: of_nat_le_iff)
    then have lt: "coin_sum (rt_reward_deltas acc) + unat ?f < 2 ^ 64"
      using unsigned_less [of "rc_pool_reward_pot c", where 'a = nat] by simp
    have "(p, params) \<in> set (ss_pool_params (rc_go c))"
      using 2(1) ready by (simp add: reward_ready_def bt_get_Some)
    then have "fst (spp_margin params) \<le> snd (spp_margin params)"
      using ready by (force simp: reward_ready_def list_all_iff)
    from distribute_moves [OF ok lt _ e [unfolded pe] q(1) _ this] ready
    have "totals_ok acc'" "coin_sum (rt_reward_deltas acc') \<le> coin_sum (rt_reward_deltas acc) + unat ?f"
      unfolding 2(4) by (auto simp: reward_ready_def)
    moreover from this(2) have "(of_nat (coin_sum (rt_reward_deltas acc')) :: rat) \<le> of_nat (coin_sum (rt_reward_deltas acc) + unat ?f)"
      by (simp only: of_nat_le_iff)
    ultimately show ?thesis using q(2) by (simp add: rat_u_def pe)
  qed (rule same)
qed

lemma reward_pools_moves:
  assumes "reward_ready c" "rc_total_stake c \<noteq> 0" "set es \<subseteq> set (ss_pool_stakes (rc_go c))" "totals_ok acc"
    and "of_nat (coin_sum (rt_reward_deltas acc)) + sum_list (map (\<lambda>e. pool_quota c (blocks_of c (fst e))) es) \<le> rat_u (rc_pool_reward_pot c)"
    and "reward_pools c acc es = Ok acc'"
  shows "totals_ok acc' \<and> of_nat (coin_sum (rt_reward_deltas acc')) \<le> rat_u (rc_pool_reward_pot c)"
  using assms(3-)
proof (induction es arbitrary: acc)
  case (Cons e es)
  from Cons.prems(4) obtain acc1 where a: "reward_one_pool c acc e = Ok acc1" "reward_pools c acc1 es = Ok acc'"
    by (auto simp: result_simps)
  have rest: "0 \<le> sum_list (map (\<lambda>e. pool_quota c (blocks_of c (fst e))) es)"
    by (rule sum_list_nonneg) (auto simp: quota_nonneg)
  have "totals_ok acc1 \<and> of_nat (coin_sum (rt_reward_deltas acc1)) \<le>
      of_nat (coin_sum (rt_reward_deltas acc)) + pool_quota c (blocks_of c (fst e))"
    using Cons.prems rest by (intro reward_one_pool_moves [OF assms(1,2) _ _ _ a(1)]) auto
  then show ?case using Cons.prems(1,3) by (intro Cons.IH [OF _ _ _ a(2)]) auto
qed simp

lemma epoch_rewards_bounded:
  assumes "reward_ready c" "compute_epoch_rewards c = Ok totals"
  shows "totals_ok totals" "coin_sum (rt_reward_deltas totals) \<le> unat (rc_pool_reward_pot c)"
proof -
  have zero: "totals_ok RewardTotals_zero" "coin_sum (rt_reward_deltas RewardTotals_zero) = 0"
    by (simp_all add: totals_ok_def RewardTotals_zero_def bt_wf_Nil coin_sum_def bt_empty_def)
  have "totals_ok totals \<and> of_nat (coin_sum (rt_reward_deltas totals)) \<le> rat_u (rc_pool_reward_pot c)"
  proof (cases "rc_total_stake c > 0 \<and> rc_total_active_stake c > 0 \<and> rc_pool_reward_pot c > 0")
    case True
    then show ?thesis
      using assms(2) zero quotas_le_pot [OF assms(1)]
      by (intro reward_pools_moves [OF assms(1), of "ss_pool_stakes (rc_go c)" RewardTotals_zero])
        (auto simp: compute_epoch_rewards_def word_greater_zero_iff)
  next
    case False
    then have "totals = RewardTotals_zero" using assms(2) by (auto simp: compute_epoch_rewards_def)
    then show ?thesis using zero rat_u_nonneg [of "rc_pool_reward_pot c"] by simp
  qed
  then show "totals_ok totals" "coin_sum (rt_reward_deltas totals) \<le> unat (rc_pool_reward_pot c)"
    unfolding rat_u_def by (simp_all only: of_nat_le_iff)
qed

section \<open>Crediting, reaping and returning deposits\<close>

text \<open>What a pot and the reward accounts hold together; the loops change nothing but the balances.\<close>

definition pot_and_rewards :: "u64 \<times> DelegationState \<Rightarrow> nat" where
  "pot_and_rewards s = unat (fst s) + coin_sum (rewards (snd s))"

definition same_but_rewards :: "DelegationState \<Rightarrow> u64 \<times> DelegationState \<Rightarrow> bool" where
  "same_but_rewards d0 s \<longleftrightarrow> bt_wf (rewards (snd s)) \<and> registrations (snd s) = registrations d0 \<and>
     delegations (snd s) = delegations d0"

lemma pot_credit:
  assumes "same_but_rewards d0 (t, d)" "pot_and_rewards (t, d) + unat coin < 2 ^ 64"
  shows "same_but_rewards d0 (t, d\<lparr>rewards := add_coin cred coin (rewards d)\<rparr>) \<and>
      pot_and_rewards (t, d\<lparr>rewards := add_coin cred coin (rewards d)\<rparr>) = pot_and_rewards (t, d) + unat coin"
    and "same_but_rewards d0 (saturating_add t coin, d) \<and>
      pot_and_rewards (saturating_add t coin, d) = pot_and_rewards (t, d) + unat coin"
  using assms coin_sum_add [of "rewards d" coin cred]
  by (simp_all add: same_but_rewards_def pot_and_rewards_def unat_saturating_add)

interpretation credit: coin_flow "credit_reward registered" pot_and_rewards "\<lambda>e. unat (snd e)" "same_but_rewards d0"
  for registered d0
  by unfold_locales (auto simp: credit_reward_def split_def dest: pot_credit)

definition refund_of :: "Coin \<Rightarrow> (PoolId, PoolParams) btree_map \<Rightarrow> PoolId \<Rightarrow> nat" where
  "refund_of pool_deposit ps p =
     (case Option.bind (bt_get ps p) (\<lambda>params. reward_account_credential (pp_reward_account params)) of
        Some _ \<Rightarrow> unat pool_deposit | None \<Rightarrow> 0)"

interpretation refund: coin_flow "refund_pool pool_deposit ps" pot_and_rewards "refund_of pool_deposit ps" "same_but_rewards d0"
  for pool_deposit ps d0
  by unfold_locales (auto simp: refund_pool_def refund_of_def split_def split: option.splits dest: pot_credit)

interpretation deposit_return: coin_flow return_deposit pot_and_rewards returned "same_but_rewards d0" for d0
  by unfold_locales (auto simp: return_deposit_def split_def split: DepositReturn.splits dest: pot_credit)

lemma length_adopt: "bt_wf ps \<Longrightarrow> length (foldl adopt_pool ps fs) = length ps"
proof (induction fs arbitrary: ps)
  case (Cons f fs)
  have "bt_wf (adopt_pool ps f)" "length (adopt_pool ps f) = length ps"
    using Cons.prems by (auto simp: adopt_pool_def bt_wf_insert length_bt_insert bt_contains_key_def split: prod.splits dest: bt_get_dom)
  then show ?case using Cons.IH by simp
qed simp

lemma length_reap:
  "bt_wf (pools p) \<Longrightarrow> distinct ids \<Longrightarrow> set ids \<subseteq> fst ` set (pools p) \<Longrightarrow>
   length (pools (foldl reap_pool p ids)) + length ids = length (pools p)"
proof (induction ids arbitrary: p)
  case (Cons i ids)
  let ?p = "reap_pool p i"
  have wf: "bt_wf (pools ?p)" using Cons.prems by (simp add: reap_pool_def bt_wf_remove)
  have "fst ` set (pools ?p) = fst ` set (pools p) - {i}" by (force simp: reap_pool_def bt_remove_def)
  then have "set ids \<subseteq> fst ` set (pools ?p)" using Cons.prems by auto
  moreover have "length (pools ?p) + 1 = length (pools p)"
    using Cons.prems by (cases "pools p") (auto simp: reap_pool_def length_bt_remove)
  ultimately show ?case using Cons.IH [OF wf] Cons.prems(2) by simp
qed simp

text \<open>Every pool that retires is active, and the reward accounts of active and staged pools have 29 bytes.\<close>

definition reap_ready :: "CertState \<Rightarrow> bool" where
  "reap_ready cert \<longleftrightarrow> cert_state_wf cert \<and>
     set (bt_keys (retiring (pool cert))) \<subseteq> set (bt_keys (pools (pool cert))) \<and>
     list_all (\<lambda>(_, q). length (pp_reward_account q) = 29) (pools (pool cert) @ future_pools (pool cert))"

text \<open>The pools that retire, and the sum of their refunds.\<close>

lemma retired_refunds:
  fixes e :: EpochNo
  assumes ready: "reap_ready cert"
  defines "ps \<equiv> foldl adopt_pool (pools (pool cert)) (future_pools (pool cert))"
    and "ids \<equiv> map fst (filter (\<lambda>(_, e'). e' = e) (retiring (pool cert)))"
  shows "distinct ids" "set ids \<subseteq> fst ` set ps" "sum_list (map (refund_of pd ps) ids) = unat pd * length ids"
proof -
  have wf: "bt_wf (pools (pool cert))" "bt_wf (future_pools (pool cert))" "bt_wf (retiring (pool cert))"
    using ready by (simp_all add: reap_ready_def cert_state_wf_def)
  note adopt = bt_get_adopt [OF wf(1,2), folded ps_def]
  show "distinct ids" using bt_wf_distinct [OF bt_wf_filter [OF wf(3)]] by (simp add: ids_def)
  have "set ids \<subseteq> fst ` set (pools (pool cert))" using ready by (force simp: reap_ready_def bt_keys_def ids_def)
  moreover have "k \<in> fst ` set ps \<longleftrightarrow> k \<in> fst ` set (pools (pool cert))" for k
    using adopt(2) [of k] bt_get_None [of ps k] bt_get_None [of "pools (pool cert)" k] by (auto split: option.splits)
  ultimately show sub: "set ids \<subseteq> fst ` set ps" by blast
  have "refund_of pd ps i = unat pd" if "i \<in> set ids" for i
  proof -
    have "i \<in> fst ` set ps" using that sub by blast
    then obtain q where q: "bt_get ps i = Some q" using bt_get_None [of ps i] by (cases "bt_get ps i") auto
    then have "(i, q) \<in> set (pools (pool cert) @ future_pools (pool cert))"
      using adopt(2) [of i] bt_get_Some [OF wf(1), of i] bt_get_Some [OF wf(2), of i] by (auto split: option.splits)
    then have "length (pp_reward_account q) = 29" using ready by (force simp: reap_ready_def list_all_iff)
    then show ?thesis using q by (simp add: refund_of_def reward_account_credential_def)
  qed
  then show "sum_list (map (refund_of pd ps) ids) = unat pd * length ids"
    by (simp add: sum_list_triv cong: map_cong)
qed

lemma pool_reap_conserves:
  assumes ready: "reap_ready cert" and r: "boundary_pool_reap cert pd e = (t, cert')"
    and room: "coin_sum (rewards (delegation cert)) + unat pd * length (pools (pool cert)) < 2 ^ 64"
  shows "unat t + coin_sum (rewards (delegation cert')) + unat pd * length (pools (pool cert')) =
      coin_sum (rewards (delegation cert)) + unat pd * length (pools (pool cert))"
    and "registrations (delegation cert') = registrations (delegation cert)" "bt_wf (rewards (delegation cert'))"
proof -
  let ?p = "(pool cert)\<lparr>pools := foldl adopt_pool (pools (pool cert)) (future_pools (pool cert)), future_pools := bt_empty\<rparr>"
  let ?ids = "map fst (filter (\<lambda>(_, e'). e' = e) (retiring (pool cert)))"
  let ?fin = "foldl (refund_pool pd (pools ?p)) (0, delegation cert) ?ids"
  have wf: "bt_wf (pools (pool cert))" "bt_wf (future_pools (pool cert))" "bt_wf (rewards (delegation cert))"
    using ready by (simp_all add: reap_ready_def cert_state_wf_def)
  note ids = retired_refunds(1,2) [OF ready, where e = e] retired_refunds(3) [OF ready, where e = e and pd = pd]
  have len: "length (pools (foldl reap_pool ?p ?ids)) + length ?ids = length (pools (pool cert))"
    using length_reap [of ?p ?ids] ids bt_get_adopt(1) [OF wf(1,2)] length_adopt [OF wf(1)] by simp
  have "unat pd * length ?ids \<le> unat pd * length (pools (pool cert))" using len by (intro mult_left_mono) auto
  moreover have start: "same_but_rewards (delegation cert) (0, delegation cert)"
      "pot_and_rewards (0, delegation cert) = coin_sum (rewards (delegation cert))"
    using wf(3) by (simp_all add: same_but_rewards_def pot_and_rewards_def)
  moreover have amount: "sum_list (map (refund_of pd (pools ?p)) ?ids) = unat pd * length ?ids"
    using ids(3) by simp
  ultimately have "pot_and_rewards (0, delegation cert) + sum_list (map (refund_of pd (pools ?p)) ?ids) < 2 ^ 64"
    using room by (simp only: start(2) amount)
  note fin = refund.loop_moves [OF start(1) this, unfolded amount start(2)]
  have res: "t = fst ?fin" "pool cert' = foldl reap_pool ?p ?ids" "rewards (delegation cert') = rewards (snd ?fin)"
    "registrations (delegation cert') = registrations (snd ?fin)"
    using r by (auto simp: boundary_pool_reap_def Let_def split_def split: if_splits)
  show "unat t + coin_sum (rewards (delegation cert')) + unat pd * length (pools (pool cert')) =
      coin_sum (rewards (delegation cert)) + unat pd * length (pools (pool cert))"
    using fin len [symmetric] by (simp add: res pot_and_rewards_def algebra_simps)
  show "registrations (delegation cert') = registrations (delegation cert)" "bt_wf (rewards (delegation cert'))"
    using fin by (simp_all add: res same_but_rewards_def)
qed

section \<open>The boundary conserves ada\<close>

lemma freeze_next_cases:
  assumes "freeze_next s base snap = Ok s'"
  obtains "s' = s"
  | g r where "lst_gov_state s = GovAuthoritative (Some g)"
      "s' = s\<lparr>lst_gov_state := GovAuthoritative (Some (g\<lparr>gov_rest := (gov_rest g)\<lparr>gr_ratification := Recorded r\<rparr>\<rparr>))\<rparr>"
proof (cases "\<exists>g. lst_gov_state s = GovAuthoritative (Some g)")
  case True
  then obtain g where "lst_gov_state s = GovAuthoritative (Some g)" by blast
  then show thesis
    using assms that by (auto simp: freeze_next_def result_simps split: if_splits option.splits)
next
  case False
  then have "s' = s"
    using assms by (cases "lst_gov_state s"; auto simp: freeze_next_def result_simps split: if_splits option.splits)
  then show thesis by (rule that(1))
qed

lemma freeze_next_keeps:
  assumes "freeze_next s base snap = Ok s'"
  shows "lst_epoch_state s' = lst_epoch_state s" "lst_cert_state s' = lst_cert_state s" "lst_utxo_state s' = lst_utxo_state s"
    "lst_gov_state s = GovAuthoritative g \<Longrightarrow>
       \<exists>g'. lst_gov_state s' = GovAuthoritative g' \<and>
         map_option (\<lambda>g. gr_proposals (gov_rest g)) g' = map_option (\<lambda>g. gr_proposals (gov_rest g)) g"
  using assms by (rule freeze_next_cases; auto)+

text \<open>All the ada of a ledger: the pots, the reward balances, the deposits of keys, pools and proposals,
  and the unspent outputs. A pool holds the deposit \<open>pd\<close>.\<close>

definition proposal_deposits :: "GovRest ConwayGovState option \<Rightarrow> nat" where
  "proposal_deposits gov = (case gov of Some g \<Rightarrow> deposits (gr_proposals (gov_rest g)) | None \<Rightarrow> 0)"

definition total_ada :: "Coin \<Rightarrow> LedgerState \<Rightarrow> nat" where
  "total_ada pd st =
     (case (lst_cert_state st, lst_gov_state st) of
        (CertAuthoritative cert, GovAuthoritative gov) \<Rightarrow>
          unat (est_reserves (lst_epoch_state st)) + unat (est_treasury (lst_epoch_state st)) +
          unat (est_epoch_fees (lst_epoch_state st)) + unat (est_donation_pot (lst_epoch_state st)) +
          coin_sum (rewards (delegation cert)) + coin_sum (registrations (delegation cert)) +
          unat pd * length (pools (pool cert)) + proposal_deposits gov + total_coin (lst_utxo_state st)
      | _ \<Rightarrow> 0)"

definition unit_interval :: "Rational \<Rightarrow> bool" where
  "unit_interval r \<longleftrightarrow> rational_wf r \<and> 0 \<le> rat_of r \<and> rat_of r \<le> 1"

text \<open>What the boundary relies on: parameters in their ranges, a consistent snapshot whose stake is in
  circulation, a sane block count, a well-formed certificate state, and a supply of less than \<open>2 ^ 64\<close>.\<close>

definition boundary_ready :: "LedgerState \<Rightarrow> bool" where
  "boundary_ready st \<longleftrightarrow>
     (case (est_snapshots (lst_epoch_state st), lst_cert_state st) of
        (SnapshotsAuthoritative snaps, CertAuthoritative cert) \<Rightarrow>
          let pp = lst_protocol_params st; go = snap_go snaps in
          unit_interval (ppar_monetary_expansion pp) \<and> unit_interval (ppar_treasury_growth pp) \<and>
          rational_wf (ppar_pool_influence pp) \<and> 0 \<le> rat_of (ppar_pool_influence pp) \<and>
          4 \<le> ppar_protocol_major pp \<and> snapshot_consistent go \<and> bt_wf (ss_pool_params go) \<and>
          list_all (\<lambda>(_, params). fst (spp_margin params) \<le> snd (spp_margin params)) (ss_pool_params go) \<and>
          sum_list (map unat (bt_values (ss_pool_stakes go))) \<le>
            unat (lst_max_lovelace_supply st) - unat (est_reserves (lst_epoch_state st)) \<and>
          bt_wf (est_block_production (lst_epoch_state st)) \<and>
          sum_list (map unat (bt_values (est_block_production (lst_epoch_state st)))) < 2 ^ 63 \<and>
          reap_ready cert \<and> total_ada (ppar_pool_deposit pp) st < 2 ^ 64
      | _ \<Rightarrow> False)"

lemma ready_context:
  assumes "boundary_ready st" "est_snapshots (lst_epoch_state st) = SnapshotsAuthoritative snaps"
  shows "reward_ready (boundary_reward_context st (snap_go snaps) registered slots)"
  using assms
  by (auto simp: boundary_ready_def reward_ready_def boundary_reward_context_def boundary_total_stake_def
      boundary_blocks_def Let_def unat_saturating_sub split: CertStateProjection.splits)

lemma plan_deposits:
  assumes "boundary_gov_plan st cert gov e = Ok plan"
  shows "proposal_deposits gov = proposal_deposits (boundary_gov_state gov plan) +
    (case (gov, plan) of (Some _, Some plan) \<Rightarrow> sum_list (map returned (plan_deposit_returns plan)) | _ \<Rightarrow> 0)"
  using assms
  by (auto simp: boundary_gov_plan_def boundary_gov_state_def next_gov_state_def proposal_deposits_def result_simps
      apply_ratification_record_def dest!: apply_decision_exact
      split: CardanoEra.splits option.splits RatificationState.splits RatificationOutcome.splits if_splits)

text \<open>The intermediate results of a boundary that succeeds.\<close>

record BoundaryTrace =
  bx_snaps :: SnapshotState
  bx_cert :: CertState
  bx_gov :: "GovRest ConwayGovState option"
  bx_plan :: "ConwayGovernanceEpochPlan option"
  bx_totals :: RewardTotals
  bx_delta_t2 :: u64
  bx_credited :: DelegationState
  bx_poolreap :: u64
  bx_reaped :: CertState
  bx_gov_returns :: u64
  bx_returned :: DelegationState

definition boundary_moves ::
  "LedgerState \<Rightarrow> EpochNo \<Rightarrow> (StakeCredential, unit) btree_map option \<Rightarrow> u64 \<Rightarrow> BoundaryTrace \<Rightarrow> bool" where
  "boundary_moves st e override slots x \<longleftrightarrow>
     (let registered = is_cred_registered override (delegation (bx_cert x)) in
      est_snapshots (lst_epoch_state st) = SnapshotsAuthoritative (bx_snaps x) \<and>
      lst_cert_state st = CertAuthoritative (bx_cert x) \<and> lst_gov_state st = GovAuthoritative (bx_gov x) \<and>
      boundary_gov_plan st (bx_cert x) (bx_gov x) e = Ok (bx_plan x) \<and>
      compute_epoch_rewards (boundary_reward_context st (snap_go (bx_snaps x)) registered slots) = Ok (bx_totals x) \<and>
      apply_reward_update registered (rt_reward_deltas (bx_totals x)) (delegation (bx_cert x)) = (bx_delta_t2 x, bx_credited x) \<and>
      boundary_pool_reap \<lparr>delegation = bx_credited x, pool = pool (bx_cert x)\<rparr> (ppar_pool_deposit (lst_protocol_params st)) e =
        (bx_poolreap x, bx_reaped x) \<and>
      boundary_deposit_returns (bx_gov x) (bx_plan x) (delegation (bx_reaped x)) = (bx_gov_returns x, bx_returned x))"

definition boundary_result :: "LedgerState \<Rightarrow> EpochNo \<Rightarrow> u64 \<Rightarrow> BoundaryTrace \<Rightarrow> LedgerState \<Rightarrow> bool" where
  "boundary_result st e slots x st' \<longleftrightarrow>
     (let es = lst_epoch_state st; es' = lst_epoch_state st' in
      checked_add (boundary_treasury st (boundary_delta_t1 st slots) (bx_delta_t2 x) (bx_poolreap x) (bx_gov_returns x))
        (est_donation_pot es) = Some (est_treasury es') \<and>
      est_reserves es' = saturating_add (saturating_sub (est_reserves es) (boundary_delta_r1 st slots))
        (saturating_sub (boundary_pool_pot st slots)
          (saturating_add (rt_total_pool_rewards (bx_totals x)) (rt_total_member_rewards (bx_totals x)))) \<and>
      est_epoch_fees es' = 0 \<and> est_donation_pot es' = 0 \<and> est_epoch es' = e \<and>
      lst_cert_state st' = CertAuthoritative ((bx_reaped x)\<lparr>delegation := bx_returned x\<rparr>) \<and>
      lst_utxo_state st' = lst_utxo_state st \<and>
      (\<exists>g'. lst_gov_state st' = GovAuthoritative g' \<and> map_option (\<lambda>g. gr_proposals (gov_rest g)) g' =
         map_option (\<lambda>g. gr_proposals (gov_rest g)) (boundary_gov_state (bx_gov x) (bx_plan x))))"

lemma boundary_trace_exists:
  assumes "apply_epoch_boundary_with_registrations st e override base slots = Ok (st', acct)"
  shows "\<exists>x. boundary_moves st e override slots x \<and> boundary_result st e slots x st'"
proof -
  obtain snaps where snaps: "est_snapshots (lst_epoch_state st) = SnapshotsAuthoritative snaps"
    using assms by (cases "est_snapshots (lst_epoch_state st)") (auto simp: apply_epoch_boundary_with_registrations_def Let_def result_simps)
  obtain cert where cert: "lst_cert_state st = CertAuthoritative cert"
    using assms by (cases "lst_cert_state st") (auto simp: apply_epoch_boundary_with_registrations_def Let_def result_simps)
  obtain gov where gov: "lst_gov_state st = GovAuthoritative gov"
    using assms by (cases "lst_gov_state st") (auto simp: apply_epoch_boundary_with_registrations_def Let_def result_simps)
  obtain plan where plan: "boundary_gov_plan st cert gov e = Ok plan"
    using assms by (auto simp: apply_epoch_boundary_with_registrations_def Let_def result_simps snaps cert gov)
  let ?reg = "is_cred_registered override (delegation cert)"
  obtain totals where totals: "compute_epoch_rewards (boundary_reward_context st (snap_go snaps) ?reg slots) = Ok totals"
    using assms by (auto simp: apply_epoch_boundary_with_registrations_def Let_def result_simps snaps cert gov plan)
  obtain t2 d where d: "apply_reward_update ?reg (rt_reward_deltas totals) (delegation cert) = (t2, d)" by fastforce
  obtain t3 cert' where reap: "boundary_pool_reap \<lparr>delegation = d, pool = pool cert\<rparr> (ppar_pool_deposit (lst_protocol_params st)) e = (t3, cert')"
    by fastforce
  obtain t4 d' where ret: "boundary_deposit_returns gov plan (delegation cert') = (t4, d')" by fastforce
  obtain mark treasury s where rest: "checked_add (boundary_treasury st (boundary_delta_t1 st slots) t2 t3 t4) (est_donation_pot (lst_epoch_state st)) = Some treasury"
     "freeze_next s base (fold insort_insert (bt_values (delegations d)) []) = Ok st'"
     "s = st\<lparr>lst_epoch_state := (lst_epoch_state st)\<lparr>est_epoch := e,
                est_snapshots := SnapshotsAuthoritative (rotate_snapshots snaps mark),
                est_reserves := saturating_add (saturating_sub (est_reserves (lst_epoch_state st)) (boundary_delta_r1 st slots))
                  (saturating_sub (boundary_pool_pot st slots)
                    (saturating_add (rt_total_pool_rewards totals) (rt_total_member_rewards totals))),
                est_treasury := treasury, est_block_production := bt_empty, est_epoch_fees := 0,
                est_donation_pot := 0\<rparr>,
             lst_protocol_params := (case map_option plan_pparams plan of
                                       Some (PParamsSet new_pp) \<Rightarrow> new_pp
                                     | _ \<Rightarrow> lst_protocol_params st),
             lst_cert_state := CertAuthoritative (cert'\<lparr>delegation := d'\<rparr>),
             lst_gov_state := GovAuthoritative (boundary_gov_state gov plan)\<rparr>"
    using assms
    by (auto simp: apply_epoch_boundary_with_registrations_def Let_def result_simps snaps cert gov plan totals d reap ret)
  note keeps = freeze_next_keeps [OF rest(2)]
  let ?x = "\<lparr>bx_snaps = snaps, bx_cert = cert, bx_gov = gov, bx_plan = plan, bx_totals = totals,
      bx_delta_t2 = t2, bx_credited = d, bx_poolreap = t3, bx_reaped = cert', bx_gov_returns = t4, bx_returned = d'\<rparr>"
  have "boundary_moves st e override slots ?x"
    by (simp add: boundary_moves_def Let_def snaps cert gov plan totals d reap ret)
  moreover have "boundary_result st e slots ?x st'"
    unfolding boundary_result_def using keeps by (simp add: Let_def rest(1,3))
  ultimately show ?thesis by blast
qed

lemma pots_exact:
  assumes "unit_interval (ppar_monetary_expansion (lst_protocol_params st))"
    "unit_interval (ppar_treasury_growth (lst_protocol_params st))"
    "unat (est_reserves (lst_epoch_state st)) + unat (est_epoch_fees (lst_epoch_state st)) < 2 ^ 64"
  shows "unat (boundary_delta_r1 st slots) \<le> unat (est_reserves (lst_epoch_state st))"
    "unat (boundary_delta_t1 st slots) \<le> unat (boundary_delta_r1 st slots) + unat (est_epoch_fees (lst_epoch_state st))"
    "unat (boundary_pool_pot st slots) =
       unat (boundary_delta_r1 st slots) + unat (est_epoch_fees (lst_epoch_state st)) - unat (boundary_delta_t1 st slots)"
proof -
  show r1: "unat (boundary_delta_r1 st slots) \<le> unat (est_reserves (lst_epoch_state st))"
    using assms(1) epoch_eta_bounds unfolding boundary_delta_r1_def boundary_eta_def
    by (intro monetary_expansion_le) (auto simp: unit_interval_def)
  then have tr: "unat (boundary_total_reward st slots) = unat (boundary_delta_r1 st slots) + unat (est_epoch_fees (lst_epoch_state st))"
    using assms(3) by (simp add: boundary_total_reward_def unat_saturating_add)
  show "unat (boundary_delta_t1 st slots) \<le> unat (boundary_delta_r1 st slots) + unat (est_epoch_fees (lst_epoch_state st))"
    using treasury_share_le [of "ppar_treasury_growth (lst_protocol_params st)" "boundary_total_reward st slots"] assms(2) tr
    by (simp add: boundary_delta_t1_def unit_interval_def)
  show "unat (boundary_pool_pot st slots) =
       unat (boundary_delta_r1 st slots) + unat (est_epoch_fees (lst_epoch_state st)) - unat (boundary_delta_t1 st slots)"
    by (simp add: boundary_pool_pot_def unat_saturating_sub tr)
qed

text \<open>The rewards, the reaped pools and the returned deposits, with their conservation equations.\<close>

lemma reward_update_conserves:
  assumes "apply_reward_update registered deltas d0 = (t2, d)" "bt_wf (rewards d0)" "coin_sum (rewards d0) + coin_sum deltas < 2 ^ 64"
  shows "unat t2 + coin_sum (rewards d) = coin_sum (rewards d0) + coin_sum deltas" "bt_wf (rewards d)"
    "registrations d = registrations d0" "delegations d = delegations d0"
  using credit.loop_moves [of d0 "(0, d0)" deltas registered] assms
  by (simp_all add: apply_reward_update_def pot_and_rewards_def same_but_rewards_def coin_sum_def)

lemma deposit_returns_conserve:
  assumes "boundary_deposit_returns gov plan d = (t4, d')" "bt_wf (rewards d)"
    and "back = (case (gov, plan) of (Some _, Some plan) \<Rightarrow> sum_list (map returned (plan_deposit_returns plan)) | _ \<Rightarrow> 0)"
    and "coin_sum (rewards d) + back < 2 ^ 64"
  shows "unat t4 + coin_sum (rewards d') = coin_sum (rewards d) + back" "registrations d' = registrations d"
proof -
  have "unat t4 + coin_sum (rewards d') = coin_sum (rewards d) + back \<and> registrations d' = registrations d"
  proof (cases "\<exists>g p. gov = Some g \<and> plan = Some p")
    case True
    then obtain g p where gp: "gov = Some g" "plan = Some p" by blast
    then show ?thesis
      using deposit_return.loop_moves [of d "(0, d)" "plan_deposit_returns p"] assms
      by (simp add: boundary_deposit_returns_def pot_and_rewards_def same_but_rewards_def)
  next
    case False
    then show ?thesis using assms by (auto simp: boundary_deposit_returns_def split: option.splits)
  qed
  then show "unat t4 + coin_sum (rewards d') = coin_sum (rewards d) + back" "registrations d' = registrations d" by auto
qed

text \<open>Every step of a boundary conserves what it moves, and nothing reaches \<open>2 ^ 64\<close>.\<close>

lemma boundary_flows:
  assumes ready: "boundary_ready st" and moves: "boundary_moves st e override slots x"
  defines "pd \<equiv> ppar_pool_deposit (lst_protocol_params st)" and "es \<equiv> lst_epoch_state st"
    and "S \<equiv> coin_sum (rt_reward_deltas (bx_totals x))"
    and "back \<equiv> case (bx_gov x, bx_plan x) of (Some _, Some plan) \<Rightarrow> sum_list (map returned (plan_deposit_returns plan)) | _ \<Rightarrow> 0"
  shows "unat (bx_delta_t2 x) + coin_sum (rewards (bx_credited x)) = coin_sum (rewards (delegation (bx_cert x))) + S"
    and "unat (bx_poolreap x) + coin_sum (rewards (delegation (bx_reaped x))) + unat pd * length (pools (pool (bx_reaped x))) =
      coin_sum (rewards (bx_credited x)) + unat pd * length (pools (pool (bx_cert x)))"
    and "unat (bx_gov_returns x) + coin_sum (rewards (bx_returned x)) = coin_sum (rewards (delegation (bx_reaped x))) + back"
    and "registrations (bx_returned x) = registrations (delegation (bx_cert x))"
    and "proposal_deposits (bx_gov x) = proposal_deposits (boundary_gov_state (bx_gov x) (bx_plan x)) + back"
    and "unat (boundary_delta_r1 st slots) \<le> unat (est_reserves es)"
    and "S + unat (boundary_delta_t1 st slots) \<le> unat (boundary_delta_r1 st slots) + unat (est_epoch_fees es)"
    and "S = unat (rt_total_pool_rewards (bx_totals x)) + unat (rt_total_member_rewards (bx_totals x))"
    and "unat (boundary_pool_pot st slots) =
      unat (boundary_delta_r1 st slots) + unat (est_epoch_fees es) - unat (boundary_delta_t1 st slots)"
    and "unat (est_reserves es) + unat (est_treasury es) + unat (est_epoch_fees es) + unat (est_donation_pot es) +
      coin_sum (rewards (delegation (bx_cert x))) + unat pd * length (pools (pool (bx_cert x))) + proposal_deposits (bx_gov x) < 2 ^ 64"
proof -
  note x = moves [unfolded boundary_moves_def Let_def, folded pd_def es_def]
  have limit: "total_ada pd st < 2 ^ 64" and params: "unit_interval (ppar_monetary_expansion (lst_protocol_params st))"
      "unit_interval (ppar_treasury_growth (lst_protocol_params st))" and reapable: "reap_ready (bx_cert x)"
    using ready x by (auto simp: boundary_ready_def Let_def pd_def es_def)
  then show sup: "unat (est_reserves es) + unat (est_treasury es) + unat (est_epoch_fees es) + unat (est_donation_pot es) +
      coin_sum (rewards (delegation (bx_cert x))) + unat pd * length (pools (pool (bx_cert x))) + proposal_deposits (bx_gov x) < 2 ^ 64"
    using x by (simp add: total_ada_def es_def)
  then have "unat (est_reserves (lst_epoch_state st)) + unat (est_epoch_fees (lst_epoch_state st)) < 2 ^ 64" by (simp add: es_def)
  note pots = pots_exact [OF params this, of slots, folded es_def]
  show "unat (boundary_delta_r1 st slots) \<le> unat (est_reserves es)" "unat (boundary_pool_pot st slots) =
      unat (boundary_delta_r1 st slots) + unat (est_epoch_fees es) - unat (boundary_delta_t1 st slots)" by (rule pots)+
  have totals: "totals_ok (bx_totals x)" and S: "S \<le> unat (boundary_pool_pot st slots)"
    using epoch_rewards_bounded [OF ready_context [OF ready]] x by (auto simp: boundary_reward_context_def Let_def S_def es_def)
  then show "S = unat (rt_total_pool_rewards (bx_totals x)) + unat (rt_total_member_rewards (bx_totals x))"
    by (simp add: totals_ok_def S_def)
  show "S + unat (boundary_delta_t1 st slots) \<le> unat (boundary_delta_r1 st slots) + unat (est_epoch_fees es)"
    using S pots by linarith
  have wf: "bt_wf (rewards (delegation (bx_cert x)))" using reapable by (simp add: reap_ready_def cert_state_wf_def)
  have "coin_sum (rewards (delegation (bx_cert x))) + S < 2 ^ 64" using S sup pots by linarith
  note credited = reward_update_conserves [OF _ wf this [unfolded S_def], of _ "bx_delta_t2 x" "bx_credited x", folded S_def]
  show c: "unat (bx_delta_t2 x) + coin_sum (rewards (bx_credited x)) = coin_sum (rewards (delegation (bx_cert x))) + S"
    using credited(1) x by blast
  let ?cert = "\<lparr>delegation = bx_credited x, pool = pool (bx_cert x)\<rparr>"
  have "reap_ready ?cert" using reapable credited(2-4) x by (auto simp: reap_ready_def cert_state_wf_def)
  moreover have "coin_sum (rewards (delegation ?cert)) + unat pd * length (pools (pool ?cert)) < 2 ^ 64"
    using c S sup pots by simp
  ultimately have reaped: "unat (bx_poolreap x) + coin_sum (rewards (delegation (bx_reaped x))) + unat pd * length (pools (pool (bx_reaped x))) =
      coin_sum (rewards (bx_credited x)) + unat pd * length (pools (pool (bx_cert x)))"
      "registrations (delegation (bx_reaped x)) = registrations (bx_credited x)" "bt_wf (rewards (delegation (bx_reaped x)))"
    using pool_reap_conserves [of ?cert pd e "bx_poolreap x" "bx_reaped x"] x by auto
  show "unat (bx_poolreap x) + coin_sum (rewards (delegation (bx_reaped x))) + unat pd * length (pools (pool (bx_reaped x))) =
      coin_sum (rewards (bx_credited x)) + unat pd * length (pools (pool (bx_cert x)))" by (rule reaped(1))
  show kept: "proposal_deposits (bx_gov x) = proposal_deposits (boundary_gov_state (bx_gov x) (bx_plan x)) + back"
    unfolding back_def using x by (intro plan_deposits) blast
  have "coin_sum (rewards (delegation (bx_reaped x))) + back < 2 ^ 64" using reaped(1) c kept S sup pots by linarith
  with deposit_returns_conserve [OF _ reaped(3) back_def [THEN meta_eq_to_obj_eq]] x
  have ret: "unat (bx_gov_returns x) + coin_sum (rewards (bx_returned x)) = coin_sum (rewards (delegation (bx_reaped x))) + back"
    "registrations (bx_returned x) = registrations (delegation (bx_reaped x))" by blast+
  show "unat (bx_gov_returns x) + coin_sum (rewards (bx_returned x)) = coin_sum (rewards (delegation (bx_reaped x))) + back"
    by (rule ret(1))
  show "registrations (bx_returned x) = registrations (delegation (bx_cert x))" using ret(2) reaped(2) credited(3) x by metis
qed

lemma boundary_pots:
  assumes ready: "boundary_ready st" and moves: "boundary_moves st e override slots x"
  defines "es \<equiv> lst_epoch_state st" and "S \<equiv> coin_sum (rt_reward_deltas (bx_totals x))"
    and "tr \<equiv> boundary_treasury st (boundary_delta_t1 st slots) (bx_delta_t2 x) (bx_poolreap x) (bx_gov_returns x)"
  shows "unat tr = unat (est_treasury es) + unat (boundary_delta_t1 st slots) +
      unat (bx_delta_t2 x) + unat (bx_poolreap x) + unat (bx_gov_returns x)"
    and "unat tr + unat (est_donation_pot es) < 2 ^ 64"
    and "unat (saturating_add (saturating_sub (est_reserves es) (boundary_delta_r1 st slots))
        (saturating_sub (boundary_pool_pot st slots)
          (saturating_add (rt_total_pool_rewards (bx_totals x)) (rt_total_member_rewards (bx_totals x))))) +
        S + unat (boundary_delta_t1 st slots) = unat (est_reserves es) + unat (est_epoch_fees es)"
  using boundary_flows [OF ready moves]
  by (simp_all add: tr_def es_def S_def boundary_treasury_def unat_saturating_add unat_saturating_sub)

lemma boundary_conserves:
  assumes ready: "boundary_ready st"
    and ok: "apply_epoch_boundary_with_registrations st e override base slots = Ok (st', acct)"
  shows "total_ada (ppar_pool_deposit (lst_protocol_params st)) st' = total_ada (ppar_pool_deposit (lst_protocol_params st)) st"
proof -
  let ?pd = "ppar_pool_deposit (lst_protocol_params st)"
  obtain x where moves: "boundary_moves st e override slots x" and result: "boundary_result st e slots x st'"
    using boundary_trace_exists [OF ok] by blast
  note x = moves [unfolded boundary_moves_def Let_def] and r = result [unfolded boundary_result_def Let_def]
  have "proposal_deposits g' = proposal_deposits (boundary_gov_state (bx_gov x) (bx_plan x))"
    if "map_option (\<lambda>g. gr_proposals (gov_rest g)) g' = map_option (\<lambda>g. gr_proposals (gov_rest g)) (boundary_gov_state (bx_gov x) (bx_plan x))" for g'
    using that by (cases g'; cases "boundary_gov_state (bx_gov x) (bx_plan x)") (auto simp: proposal_deposits_def)
  then obtain g' where g': "lst_gov_state st' = GovAuthoritative g'"
    "proposal_deposits g' = proposal_deposits (boundary_gov_state (bx_gov x) (bx_plan x))" using r by blast
  have before: "lst_cert_state st = CertAuthoritative (bx_cert x)" "lst_gov_state st = GovAuthoritative (bx_gov x)"
    using x by blast+
  have "lst_cert_state st' = CertAuthoritative ((bx_reaped x)\<lparr>delegation := bx_returned x\<rparr>)"
    "lst_utxo_state st' = lst_utxo_state st" "est_epoch_fees (lst_epoch_state st') = 0" "est_donation_pot (lst_epoch_state st') = 0"
    "unat (est_treasury (lst_epoch_state st')) = unat (boundary_treasury st (boundary_delta_t1 st slots) (bx_delta_t2 x)
       (bx_poolreap x) (bx_gov_returns x)) + unat (est_donation_pot (lst_epoch_state st))"
    "est_reserves (lst_epoch_state st') = saturating_add (saturating_sub (est_reserves (lst_epoch_state st)) (boundary_delta_r1 st slots))
        (saturating_sub (boundary_pool_pot st slots)
          (saturating_add (rt_total_pool_rewards (bx_totals x)) (rt_total_member_rewards (bx_totals x))))"
    using r by (auto simp: checked_add_Some)
  then show ?thesis
    using boundary_flows(1-5) [OF ready moves] boundary_pots(1,3) [OF ready moves]
    by (simp add: total_ada_def before g')
qed

lemma reward_pools_total:
  assumes "\<forall>p \<in> set ps. bt_get (ss_pool_params (rc_go c)) (fst p) \<noteq> None"
  shows "\<exists>acc'. reward_pools c acc ps = Ok acc'"
  using assms
proof (induction ps arbitrary: acc)
  case (Cons p ps)
  obtain id stake where p: "p = (id, stake)" by fastforce
  then obtain params where "bt_get (ss_pool_params (rc_go c)) id = Some params" using Cons.prems by auto
  then have "\<exists>acc'. reward_one_pool c acc p = Ok acc'"
    by (simp add: reward_one_pool_def p Let_def rbind_def ok_or_def)
  then obtain acc' where "reward_one_pool c acc p = Ok acc'" ..
  then show ?case using Cons by (simp add: result_simps)
qed simp

lemma compute_epoch_rewards_total:
  assumes "\<forall>p \<in> set (ss_pool_stakes (rc_go c)). bt_get (ss_pool_params (rc_go c)) (fst p) \<noteq> None"
  shows "\<exists>totals. compute_epoch_rewards c = Ok totals"
  using reward_pools_total [OF assms] by (simp add: compute_epoch_rewards_def)

lemma boundary_total:
  assumes ready: "boundary_ready st" and era: "lst_era st \<noteq> Conway"
    and snaps: "est_snapshots (lst_epoch_state st) = SnapshotsAuthoritative snaps"
    and gov: "lst_gov_state st = GovAuthoritative gov"
    and params: "\<forall>p \<in> set (ss_pool_stakes (snap_go snaps)). bt_get (ss_pool_params (snap_go snaps)) (fst p) \<noteq> None"
  shows "\<exists>st' acct. apply_epoch_boundary_with_registrations st e override base slots = Ok (st', acct) \<and>
    est_epoch (lst_epoch_state st') = e"
proof -
  obtain cert where cert: "lst_cert_state st = CertAuthoritative cert"
    using ready snaps by (cases "lst_cert_state st") (auto simp: boundary_ready_def)
  have plan: "boundary_gov_plan st cert gov e = Ok None" using era by (auto simp: boundary_gov_plan_def split: CardanoEra.splits)
  let ?reg = "is_cred_registered override (delegation cert)"
  obtain totals where totals: "compute_epoch_rewards (boundary_reward_context st (snap_go snaps) ?reg slots) = Ok totals"
    using compute_epoch_rewards_total [of "boundary_reward_context st (snap_go snaps) ?reg slots"] params
    by (auto simp: boundary_reward_context_def Let_def)
  obtain t2 d where d: "apply_reward_update ?reg (rt_reward_deltas totals) (delegation cert) = (t2, d)" by fastforce
  obtain t3 cert' where reap: "boundary_pool_reap \<lparr>delegation = d, pool = pool cert\<rparr> (ppar_pool_deposit (lst_protocol_params st)) e = (t3, cert')"
    by fastforce
  obtain t4 d' where ret: "boundary_deposit_returns gov None (delegation cert') = (t4, d')" by fastforce
  let ?x = "\<lparr>bx_snaps = snaps, bx_cert = cert, bx_gov = gov, bx_plan = None, bx_totals = totals,
      bx_delta_t2 = t2, bx_credited = d, bx_poolreap = t3, bx_reaped = cert', bx_gov_returns = t4, bx_returned = d'\<rparr>"
  have "boundary_moves st e override slots ?x"
    by (simp add: boundary_moves_def Let_def snaps cert gov plan totals d reap ret)
  from boundary_pots(2) [OF ready this]
  obtain tr where tr: "checked_add (boundary_treasury st (boundary_delta_t1 st slots) t2 t3 t4) (est_donation_pot (lst_epoch_state st)) = Some tr"
    by (auto simp: checked_add_def)
  obtain mark where "boundary_mark st base d (pools (pool cert)) = Ok mark"
    using era by (cases base) (auto simp: boundary_mark_def)
  then show ?thesis
    by (simp add: apply_epoch_boundary_with_registrations_def Let_def result_simps snaps cert gov plan totals d reap ret tr
        freeze_next_def era)
qed

section \<open>A boundary of a small ledger\<close>

text \<open>One pool of two delegators, which retires at the boundary into epoch 2.\<close>

definition sample_snapshots :: SnapshotState where
  "sample_snapshots = \<lparr>snap_mark = StakeSnapshot_new, snap_set = StakeSnapshot_new,
         snap_go = \<lparr>ss_delegations = [(StakeCredential.KeyHash [1], [7], 400), (StakeCredential.KeyHash [2], [7], 100)],
                    ss_pool_stakes = [([7], 500)],
                    ss_pool_params = [([7], \<lparr>spp_pledge = 0, spp_cost = 10, spp_margin = (1, 10),
                       spp_reward_account = StakeCredential.KeyHash [1], spp_self_delegated_owners = [[1]]\<rparr>)]\<rparr>\<rparr>"

definition sample_boundary :: LedgerState where
  "sample_boundary = \<lparr>
     lst_utxo_state = overlay_new,
     lst_epoch_state = \<lparr>est_epoch = 1, est_slot = 99,
       est_snapshots = SnapshotsAuthoritative sample_snapshots,
       est_reserves = 10000, est_treasury = 50, est_block_production = [([7], 3)], est_epoch_fees = 20, est_donation_pot = 5\<rparr>,
     lst_protocol_params = ProtocolParameters_default\<lparr>ppar_protocol_major := 7, ppar_pool_deposit := 100,
       ppar_decentralization := rational_zero, ppar_monetary_expansion := \<lparr>rat_num = 1, rat_den = 2\<rparr>,
       ppar_treasury_growth := \<lparr>rat_num = 1, rat_den = 5\<rparr>, ppar_pool_influence := rational_zero, ppar_n_opt := 1\<rparr>,
     lst_era = Mary, lst_track_utxo = False,
     lst_cert_state = CertAuthoritative \<lparr>delegation = \<lparr>registrations = [(StakeCredential.KeyHash [1], 2)],
         delegations = [(StakeCredential.KeyHash [1], [7])], rewards = [(StakeCredential.KeyHash [1], 30)]\<rparr>,
       pool = \<lparr>pools = [([7], \<lparr>pp_pool_id = [7], pp_vrf_hash = [], pp_pledge = 0, pp_cost = 10, pp_margin = (1, 10),
                  pp_reward_account = 0xe0 # replicate 28 1, pp_owners = [[1]]\<rparr>)], future_pools = [], retiring = [([7], 2)]\<rparr>\<rparr>,
     lst_max_lovelace_supply = 11000, lst_gov_state = GovAuthoritative None, lst_conway_deposit_params = None\<rparr>"

lemma sample_boundary_ready: "boundary_ready sample_boundary"
proof -
  have "total_coin overlay_new = 0" by code_simp
  moreover have "StakeCredential.KeyHash [1] < StakeCredential.KeyHash [2]" by code_simp
  ultimately show ?thesis
    by (simp add: boundary_ready_def sample_boundary_def sample_snapshots_def Let_def unit_interval_def rational_wf_def rat_of_def
        rational_zero_def snapshot_consistent_def bt_wf_def reap_ready_def cert_state_wf_def total_ada_def bt_values_def
        bt_keys_def coin_sum_def proposal_deposits_def delegator_stakes_def)
qed

lemma sample_boundary_total: "total_ada 100 sample_boundary = 10207"
proof -
  have "total_coin overlay_new = 0" by code_simp
  then show ?thesis
    by (simp add: sample_boundary_def total_ada_def coin_sum_def proposal_deposits_def)
qed

lemma sample_pool_deposit: "ppar_pool_deposit (lst_protocol_params sample_boundary) = 100"
  by (simp add: sample_boundary_def)

lemma sample_boundary_data:
  "lst_era sample_boundary \<noteq> Conway" "est_snapshots (lst_epoch_state sample_boundary) = SnapshotsAuthoritative sample_snapshots"
  "lst_gov_state sample_boundary = GovAuthoritative None"
  "\<forall>p \<in> set (ss_pool_stakes (snap_go sample_snapshots)). bt_get (ss_pool_params (snap_go sample_snapshots)) (fst p) \<noteq> None"
  by (simp_all add: sample_boundary_def sample_snapshots_def bt_get_def)

lemma sample_boundary_runs:
  "\<exists>st' acct. apply_epoch_boundary_with_registrations sample_boundary 2 None None 10 = Ok (st', acct) \<and>
     est_epoch (lst_epoch_state st') = 2"
  by (rule boundary_total [OF sample_boundary_ready sample_boundary_data(1-3)]) (rule sample_boundary_data(4))






end
