(* ===== verification/Wal.thy ===== *)
theory Wal
  imports Tx_Codec Consensus_Types
begin

text \<open>
  The write-ahead log (\<^verbatim>\<open>ade_ledger/src/wal\<close>): its entries and their codec (\<^verbatim>\<open>event.rs\<close>), the replay
  from the anchor (\<^verbatim>\<open>replay.rs\<close>) and the chain walk every store has by default
  (\<^verbatim>\<open>WalStore::verify_chain\<close> in \<^verbatim>\<open>store_trait.rs\<close>, of which \<^verbatim>\<open>read_all\<close> gives the argument). The two errors of
  the storage backend, \<^verbatim>\<open>Io\<close> and \<^verbatim>\<open>CorruptCrc\<close>, cannot arise here and are left out. Shown: entries survive
  their encoding, the two walks agree, and replay recovers the chain of an honest log exactly when
  no rollback is followed by a deeper one.
\<close>

section \<open>Entries\<close>

datatype BlockVerdictTag = Valid | Invalid

datatype RollbackReason = ForkChoiceWin | PeerRollBackward

datatype SnapshotPhase = Mark | Set | Go

record RollbackPoint =
  rp_slot :: SlotNo
  rp_hash :: Hash32
  rp_block_no :: BlockNo

text \<open>The fields are in the order of the source: \<open>AdmitBlock prior_fp block_hash slot verdict post_fp\<close>,
  \<open>SeedEpochConsensusInputsImported anchor_fp sidecar_hash epoch_no\<close>, \<open>RollBack to_point reason
  prior_tip selected_tip\<close>, and \<open>EpochConsensusViewActivated target_epoch network_magic era
  transition_point source_checkpoint_commitment snapshot_phase nonce_commitment
  stake_view_canonical_hash view_canonical_hash\<close>.\<close>

datatype WalEntry =
    AdmitBlock Hash32 Hash32 SlotNo BlockVerdictTag Hash32
  | SeedEpochConsensusInputsImported Hash32 Hash32 EpochNo
  | RollBack RollbackPoint RollbackReason RollbackPoint RollbackPoint
  | EpochConsensusViewActivated EpochNo u32 CardanoEra Point Hash32 SnapshotPhase Hash32 Hash32 Hash32

datatype WalError =
    Decode CodecError
  | Structural string
  | ChainBreak u64 Hash32 Hash32
  | BlockBytesMissing Hash32
  | DuplicateProvenance
  | ProvenanceAnchorMismatch Hash32 Hash32
  | RollbackTargetNotInChain u64 u64

definition TAG_ADMIT_BLOCK :: u64 where "TAG_ADMIT_BLOCK = 0"
definition TAG_ROLLBACK :: u64 where "TAG_ROLLBACK = 1"
definition TAG_SEED_EPOCH_CONSENSUS_INPUTS_IMPORTED :: u64 where "TAG_SEED_EPOCH_CONSENSUS_INPUTS_IMPORTED = 3"
definition TAG_EPOCH_CONSENSUS_VIEW_ACTIVATED :: u64 where "TAG_EPOCH_CONSENSUS_VIEW_ACTIVATED = 4"

lemmas wal_tags = TAG_ADMIT_BLOCK_def TAG_ROLLBACK_def TAG_SEED_EPOCH_CONSENSUS_INPUTS_IMPORTED_def
  TAG_EPOCH_CONSENSUS_VIEW_ACTIVATED_def

fun snapshot_phase_wire :: "SnapshotPhase \<Rightarrow> u64" where
  "snapshot_phase_wire Mark = 0"
| "snapshot_phase_wire Set = 1"
| "snapshot_phase_wire Go = 2"

definition snapshot_phase_from_wire :: "u64 \<Rightarrow> SnapshotPhase option" where
  "snapshot_phase_from_wire code =
     (if code = 0 then Some Mark else if code = 1 then Some Set else if code = 2 then Some Go else None)"

fun rollback_reason_wire_code :: "RollbackReason \<Rightarrow> u64" where
  "rollback_reason_wire_code ForkChoiceWin = 0"
| "rollback_reason_wire_code PeerRollBackward = 1"

definition rollback_reason_from_wire_code :: "u64 \<Rightarrow> RollbackReason option" where
  "rollback_reason_from_wire_code code =
     (if code = 0 then Some ForkChoiceWin else if code = 1 then Some PeerRollBackward else None)"

fun verdict_wire_code :: "BlockVerdictTag \<Rightarrow> u64" where
  "verdict_wire_code Valid = 0"
| "verdict_wire_code Invalid = 1"

definition verdict_from_wire_code :: "u64 \<Rightarrow> BlockVerdictTag option" where
  "verdict_from_wire_code code = (if code = 0 then Some Valid else if code = 1 then Some Invalid else None)"

definition CardanoEra_ALL :: "CardanoEra list" where
  "CardanoEra_ALL = [ByronEbb, ByronRegular, Shelley, Allegra, Mary, Alonzo, Babbage, Conway]"

datatype ActivationReplayOutcome = Idempotent | Conflict

fun activation_replay_outcome :: "WalEntry \<Rightarrow> WalEntry \<Rightarrow> ActivationReplayOutcome option" where
  "activation_replay_outcome (EpochConsensusViewActivated e1 m1 r1 p1 c1 s1 n1 k1 v1)
     (EpochConsensusViewActivated e2 m2 r2 p2 c2 s2 n2 k2 v2) =
     (if e1 = e2
      then Some (if EpochConsensusViewActivated e1 m1 r1 p1 c1 s1 n1 k1 v1 = EpochConsensusViewActivated e2 m2 r2 p2 c2 s2 n2 k2 v2
                 then Idempotent else Conflict)
      else None)"
| "activation_replay_outcome _ _ = None"

section \<open>The codec of an entry\<close>

definition write_array :: "bytes \<Rightarrow> u64 \<Rightarrow> bytes" where
  "write_array buf n = write_array_header buf (ContainerEncoding.Definite n (canonical_width n))"

definition write_rollback_point :: "bytes \<Rightarrow> RollbackPoint \<Rightarrow> bytes" where
  "write_rollback_point buf p =
     write_uint_canonical (write_bytes_canonical (write_uint_canonical buf (rp_slot p)) (rp_hash p)) (rp_block_no p)"

fun encode_wal_entry :: "WalEntry \<Rightarrow> bytes" where
  "encode_wal_entry (AdmitBlock prior_fp block_hash slot verdict post_fp) =
     (let buf = write_array [] 2;
          buf = write_uint_canonical buf TAG_ADMIT_BLOCK;
          buf = write_array buf 5;
          buf = write_bytes_canonical buf prior_fp;
          buf = write_bytes_canonical buf block_hash;
          buf = write_uint_canonical buf slot;
          buf = write_uint_canonical buf (verdict_wire_code verdict)
      in write_bytes_canonical buf post_fp)"
| "encode_wal_entry (SeedEpochConsensusInputsImported anchor_fp sidecar_hash epoch_no) =
     (let buf = write_array [] 2;
          buf = write_uint_canonical buf TAG_SEED_EPOCH_CONSENSUS_INPUTS_IMPORTED;
          buf = write_array buf 3;
          buf = write_bytes_canonical buf anchor_fp;
          buf = write_bytes_canonical buf sidecar_hash
      in write_uint_canonical buf epoch_no)"
| "encode_wal_entry (RollBack to_point reason prior_tip selected_tip) =
     (let buf = write_array [] 2;
          buf = write_uint_canonical buf TAG_ROLLBACK;
          buf = write_array buf 10;
          buf = write_rollback_point buf to_point;
          buf = write_uint_canonical buf (rollback_reason_wire_code reason);
          buf = write_rollback_point buf prior_tip
      in write_rollback_point buf selected_tip)"
| "encode_wal_entry (EpochConsensusViewActivated target_epoch network_magic era transition_point
     source_checkpoint_commitment snapshot_phase nonce_commitment stake_view_canonical_hash view_canonical_hash) =
     (let buf = write_array [] 2;
          buf = write_uint_canonical buf TAG_EPOCH_CONSENSUS_VIEW_ACTIVATED;
          buf = write_array buf 10;
          buf = write_uint_canonical buf target_epoch;
          buf = write_uint_canonical buf (ucast network_magic);
          buf = write_uint_canonical buf (ucast (era_as_u8 era));
          buf = write_uint_canonical buf (pt_slot transition_point);
          buf = write_bytes_canonical buf (pt_hash transition_point);
          buf = write_bytes_canonical buf source_checkpoint_commitment;
          buf = write_uint_canonical buf (snapshot_phase_wire snapshot_phase);
          buf = write_bytes_canonical buf nonce_commitment;
          buf = write_bytes_canonical buf stake_view_canonical_hash
      in write_bytes_canonical buf view_canonical_hash)"

type_synonym 'a wal_reader = "bytes \<Rightarrow> usize \<Rightarrow> ('a \<times> usize, WalError) result"

definition expect_definite_array :: "u64 \<Rightarrow> string \<Rightarrow> unit wal_reader" where
  "expect_definite_array expected_len label data offset =
     rbind (map_err Decode (read_array_header data offset)) (\<lambda>(enc, offset).
     case enc of
       ContainerEncoding.Definite n _ \<Rightarrow>
         if n = expected_len then Ok ((), offset)
         else Err (Structural
           (if label = ''entry wrapper'' then ''entry wrapper had wrong array length''
            else if label = ''AdmitBlock payload'' then ''AdmitBlock payload had wrong array length''
            else ''unknown array shape''))
     | ContainerEncoding.Indefinite \<Rightarrow> Err (Structural ''indefinite-length array not allowed in WAL''))"

definition wal_read_uint :: "u64 wal_reader" where
  "wal_read_uint data offset = rbind (map_err Decode (read_uint data offset)) (\<lambda>((v, _), offset). Ok (v, offset))"

definition wal_read_hash32 :: "Hash32 wal_reader" where
  "wal_read_hash32 data offset =
     rbind (map_err Decode (read_bytes data offset)) (\<lambda>((h, _), offset).
     if length h \<noteq> 32 then Err (Structural ''expected 32-byte hash'') else Ok (h, offset))"

definition read_rollback_point :: "RollbackPoint wal_reader" where
  "read_rollback_point data offset =
     rbind (wal_read_uint data offset) (\<lambda>(slot, offset).
     rbind (wal_read_hash32 data offset) (\<lambda>(hash, offset).
     rbind (wal_read_uint data offset) (\<lambda>(block_no, offset).
     Ok (\<lparr>rp_slot = slot, rp_hash = hash, rp_block_no = block_no\<rparr>, offset))))"

text \<open>\<^verbatim>\<open>T::from_wire_code(code).ok_or(WalError::Structural { reason })\<close>.\<close>

definition wal_read_code :: "(u64 \<Rightarrow> 'a option) \<Rightarrow> string \<Rightarrow> 'a wal_reader" where
  "wal_read_code from reason data offset =
     rbind (wal_read_uint data offset) (\<lambda>(code, offset).
     rbind (ok_or (Structural reason) (from code)) (\<lambda>v. Ok (v, offset)))"

definition decode_admit_block :: "WalEntry wal_reader" where
  "decode_admit_block data offset =
     rbind (expect_definite_array 5 ''AdmitBlock payload'' data offset) (\<lambda>(_, offset).
     rbind (wal_read_hash32 data offset) (\<lambda>(prior_fp, offset).
     rbind (wal_read_hash32 data offset) (\<lambda>(block_hash, offset).
     rbind (wal_read_uint data offset) (\<lambda>(slot, offset).
     rbind (wal_read_code verdict_from_wire_code ''unknown verdict code'' data offset) (\<lambda>(verdict, offset).
     rbind (wal_read_hash32 data offset) (\<lambda>(post_fp, offset).
     Ok (AdmitBlock prior_fp block_hash slot verdict post_fp, offset)))))))"

definition decode_seed_import :: "WalEntry wal_reader" where
  "decode_seed_import data offset =
     rbind (expect_definite_array 3 ''SeedEpochConsensusInputsImported payload'' data offset) (\<lambda>(_, offset).
     rbind (wal_read_hash32 data offset) (\<lambda>(anchor_fp, offset).
     rbind (wal_read_hash32 data offset) (\<lambda>(sidecar_hash, offset).
     rbind (wal_read_uint data offset) (\<lambda>(epoch_no, offset).
     Ok (SeedEpochConsensusInputsImported anchor_fp sidecar_hash epoch_no, offset)))))"

definition decode_rollback :: "WalEntry wal_reader" where
  "decode_rollback data offset =
     rbind (expect_definite_array 10 ''RollBack payload'' data offset) (\<lambda>(_, offset).
     rbind (read_rollback_point data offset) (\<lambda>(to_point, offset).
     rbind (wal_read_code rollback_reason_from_wire_code ''unknown rollback reason code'' data offset) (\<lambda>(reason, offset).
     rbind (read_rollback_point data offset) (\<lambda>(prior_tip, offset).
     rbind (read_rollback_point data offset) (\<lambda>(selected_tip, offset).
     Ok (RollBack to_point reason prior_tip selected_tip, offset))))))"

definition network_magic_from :: "u64 \<Rightarrow> u32 option" where
  "network_magic_from v = (if v > 0xffffffff then None else Some (ucast v))"

definition era_from_code :: "u64 \<Rightarrow> CardanoEra option" where
  "era_from_code code = find (\<lambda>e. ucast (era_as_u8 e) = code) CardanoEra_ALL"

definition decode_activation :: "WalEntry wal_reader" where
  "decode_activation data offset =
     rbind (expect_definite_array 10 ''EpochConsensusViewActivated payload'' data offset) (\<lambda>(_, offset).
     rbind (wal_read_uint data offset) (\<lambda>(target_epoch, offset).
     rbind (wal_read_code network_magic_from ''network_magic out of u32 range'' data offset) (\<lambda>(network_magic, offset).
     rbind (wal_read_code era_from_code ''unknown era code'' data offset) (\<lambda>(era, offset).
     rbind (wal_read_uint data offset) (\<lambda>(slot, offset).
     rbind (wal_read_hash32 data offset) (\<lambda>(transition_hash, offset).
     rbind (wal_read_hash32 data offset) (\<lambda>(source_checkpoint_commitment, offset).
     rbind (wal_read_code snapshot_phase_from_wire ''unknown snapshot phase code'' data offset) (\<lambda>(snapshot_phase, offset).
     rbind (wal_read_hash32 data offset) (\<lambda>(nonce_commitment, offset).
     rbind (wal_read_hash32 data offset) (\<lambda>(stake_view_canonical_hash, offset).
     rbind (wal_read_hash32 data offset) (\<lambda>(view_canonical_hash, offset).
     Ok (EpochConsensusViewActivated target_epoch network_magic era
           \<lparr>pt_slot = slot, pt_hash = transition_hash\<rparr> source_checkpoint_commitment snapshot_phase
           nonce_commitment stake_view_canonical_hash view_canonical_hash, offset))))))))))))"

definition decode_wal_entry_at :: "WalEntry wal_reader" where
  "decode_wal_entry_at data offset =
     rbind (expect_definite_array 2 ''entry wrapper'' data offset) (\<lambda>(_, offset).
     rbind (wal_read_uint data offset) (\<lambda>(tag, offset).
     if tag = TAG_ADMIT_BLOCK then decode_admit_block data offset
     else if tag = TAG_SEED_EPOCH_CONSENSUS_INPUTS_IMPORTED then decode_seed_import data offset
     else if tag = TAG_ROLLBACK then decode_rollback data offset
     else if tag = TAG_EPOCH_CONSENSUS_VIEW_ACTIVATED then decode_activation data offset
     else Err (Structural ''unknown wal entry tag'')))"

definition decode_wal_entry :: "bytes \<Rightarrow> (WalEntry \<times> usize, WalError) result" where
  "decode_wal_entry data = decode_wal_entry_at data 0"

section \<open>Superseded entries\<close>

text \<open>The active stack is a list with its top first.\<close>

fun pop_above :: "u64 \<Rightarrow> bool list \<times> (nat \<times> u64) list \<Rightarrow> bool list \<times> (nat \<times> u64) list" where
  "pop_above to_slot (superseded, []) = (superseded, [])"
| "pop_above to_slot (superseded, (idx, s) # active) =
     (if s > to_slot then pop_above to_slot (superseded[idx := True], active)
      else (superseded, (idx, s) # active))"

fun supersede_walk ::
  "nat \<Rightarrow> bool list \<times> (nat \<times> u64) list \<Rightarrow> WalEntry list \<Rightarrow> (bool list \<times> (nat \<times> u64) list, WalError) result" where
  "supersede_walk i st [] = Ok st"
| "supersede_walk i (superseded, active) (AdmitBlock _ _ slot _ _ # es) =
     supersede_walk (Suc i) (superseded, (i, slot) # active) es"
| "supersede_walk i st (RollBack to_point _ _ _ # es) =
     (let (superseded, active) = pop_above (rp_slot to_point) st in
      case active of
        (_, s) # _ \<Rightarrow>
          if s = rp_slot to_point then supersede_walk (Suc i) (superseded, active) es
          else Err (RollbackTargetNotInChain (word_of_nat i) (rp_slot to_point))
      | [] \<Rightarrow> Err (RollbackTargetNotInChain (word_of_nat i) (rp_slot to_point)))"
| "supersede_walk i st (SeedEpochConsensusInputsImported _ _ _ # es) = supersede_walk (Suc i) st es"
| "supersede_walk i st (EpochConsensusViewActivated _ _ _ _ _ _ _ _ _ # es) = supersede_walk (Suc i) st es"

definition compute_superseded :: "WalEntry list \<Rightarrow> (bool list, WalError) result" where
  "compute_superseded entries =
     rbind (supersede_walk 0 (replicate (length entries) False, []) entries) (\<lambda>(superseded, _). Ok superseded)"

section \<open>Replay and verification\<close>

record RecoveredBootstrapProvenance =
  rbp_anchor_fp :: Hash32
  rbp_sidecar_hash :: Hash32
  rbp_epoch_no :: EpochNo

record ReplayOutcome =
  ro_tail_fp :: Hash32
  ro_provenance :: "RecoveredBootstrapProvenance option"
  ro_admit_count :: u64

text \<open>The mutable variables of the replay loop.\<close>

record ReplayState =
  rs_prev_post_fp :: Hash32
  rs_provenance :: "RecoveredBootstrapProvenance option"
  rs_admit_count :: u64
  rs_point_fp :: "(u64 \<times> Hash32, Hash32) btree_map"

fun replay_entry ::
  "Hash32 \<Rightarrow> (Hash32, bytes) btree_map \<Rightarrow> bool list \<Rightarrow> nat \<Rightarrow> ReplayState \<Rightarrow> WalEntry \<Rightarrow> (ReplayState, WalError) result" where
  "replay_entry anchor block_bytes superseded index st (AdmitBlock prior_fp block_hash slot _ post_fp) =
     (if superseded ! index then Ok st
      else if prior_fp \<noteq> rs_prev_post_fp st then Err (ChainBreak (word_of_nat index) (rs_prev_post_fp st) prior_fp)
      else if \<not> bt_contains_key block_bytes block_hash then Err (BlockBytesMissing block_hash)
      else Ok (st\<lparr>rs_point_fp := bt_insert (slot, block_hash) post_fp (rs_point_fp st),
                  rs_prev_post_fp := post_fp, rs_admit_count := rs_admit_count st + 1\<rparr>))"
| "replay_entry anchor block_bytes superseded index st (RollBack to_point _ _ _) =
     (case bt_get (rs_point_fp st) (rp_slot to_point, rp_hash to_point) of
        Some fp \<Rightarrow> Ok (st\<lparr>rs_prev_post_fp := fp\<rparr>)
      | None \<Rightarrow> Err (RollbackTargetNotInChain (word_of_nat index) (rp_slot to_point)))"
| "replay_entry anchor block_bytes superseded index st (SeedEpochConsensusInputsImported anchor_fp sidecar_hash epoch_no) =
     (if rs_provenance st \<noteq> None then Err DuplicateProvenance
      else if anchor_fp \<noteq> anchor then Err (ProvenanceAnchorMismatch anchor anchor_fp)
      else Ok (st\<lparr>rs_provenance := Some \<lparr>rbp_anchor_fp = anchor_fp, rbp_sidecar_hash = sidecar_hash, rbp_epoch_no = epoch_no\<rparr>\<rparr>))"
| "replay_entry anchor block_bytes superseded index st (EpochConsensusViewActivated _ _ _ _ _ _ _ _ _) = Ok st"

fun replay_walk ::
  "Hash32 \<Rightarrow> (Hash32, bytes) btree_map \<Rightarrow> bool list \<Rightarrow> nat \<Rightarrow> ReplayState \<Rightarrow> WalEntry list \<Rightarrow> (ReplayState, WalError) result" where
  "replay_walk anchor block_bytes superseded index st [] = Ok st"
| "replay_walk anchor block_bytes superseded index st (e # es) =
     rbind (replay_entry anchor block_bytes superseded index st e)
       (\<lambda>st. replay_walk anchor block_bytes superseded (Suc index) st es)"

definition ReplayState_init :: "Hash32 \<Rightarrow> ReplayState" where
  "ReplayState_init anchor = \<lparr>rs_prev_post_fp = anchor, rs_provenance = None, rs_admit_count = 0, rs_point_fp = bt_empty\<rparr>"

definition replay_from_anchor ::
  "Hash32 \<Rightarrow> WalEntry list \<Rightarrow> (Hash32, bytes) btree_map \<Rightarrow> (ReplayOutcome, WalError) result" where
  "replay_from_anchor anchor entries block_bytes =
     rbind (compute_superseded entries) (\<lambda>superseded.
     rbind (replay_walk anchor block_bytes superseded 0 (ReplayState_init anchor) entries) (\<lambda>st.
     Ok \<lparr>ro_tail_fp = rs_prev_post_fp st, ro_provenance = rs_provenance st, ro_admit_count = rs_admit_count st\<rparr>))"

text \<open>The walk of \<^verbatim>\<open>verify_chain\<close> keeps the fingerprint and the points only.\<close>

fun verify_entry ::
  "bool list \<Rightarrow> nat \<Rightarrow> Hash32 \<times> (u64 \<times> Hash32, Hash32) btree_map \<Rightarrow> WalEntry \<Rightarrow>
   (Hash32 \<times> (u64 \<times> Hash32, Hash32) btree_map, WalError) result" where
  "verify_entry superseded index (prev_post_fp, point_fp) (AdmitBlock prior_fp block_hash slot _ post_fp) =
     (if superseded ! index then Ok (prev_post_fp, point_fp)
      else if prior_fp \<noteq> prev_post_fp then Err (ChainBreak (word_of_nat index) prev_post_fp prior_fp)
      else Ok (post_fp, bt_insert (slot, block_hash) post_fp point_fp))"
| "verify_entry superseded index (prev_post_fp, point_fp) (RollBack to_point _ _ _) =
     (case bt_get point_fp (rp_slot to_point, rp_hash to_point) of
        Some fp \<Rightarrow> Ok (fp, point_fp)
      | None \<Rightarrow> Err (RollbackTargetNotInChain (word_of_nat index) (rp_slot to_point)))"
| "verify_entry superseded index st (SeedEpochConsensusInputsImported _ _ _) = Ok st"
| "verify_entry superseded index st (EpochConsensusViewActivated _ _ _ _ _ _ _ _ _) = Ok st"

fun verify_walk ::
  "bool list \<Rightarrow> nat \<Rightarrow> Hash32 \<times> (u64 \<times> Hash32, Hash32) btree_map \<Rightarrow> WalEntry list \<Rightarrow>
   (Hash32 \<times> (u64 \<times> Hash32, Hash32) btree_map, WalError) result" where
  "verify_walk superseded index st [] = Ok st"
| "verify_walk superseded index st (e # es) =
     rbind (verify_entry superseded index st e) (\<lambda>st. verify_walk superseded (Suc index) st es)"

definition verify_chain :: "WalEntry list \<Rightarrow> Hash32 \<Rightarrow> (unit, WalError) result" where
  "verify_chain entries anchor_fp =
     rbind (compute_superseded entries) (\<lambda>superseded.
     rbind (verify_walk superseded 0 (anchor_fp, bt_empty) entries) (\<lambda>_. Ok ()))"

section \<open>Entries survive their encoding\<close>

definition hash_ok :: "Hash32 \<Rightarrow> bool" where
  "hash_ok h \<longleftrightarrow> length h = 32"

fun wal_entry_ok :: "WalEntry \<Rightarrow> bool" where
  "wal_entry_ok (AdmitBlock prior_fp block_hash slot verdict post_fp) \<longleftrightarrow> hash_ok prior_fp \<and> hash_ok block_hash \<and> hash_ok post_fp"
| "wal_entry_ok (SeedEpochConsensusInputsImported anchor_fp sidecar_hash epoch_no) \<longleftrightarrow> hash_ok anchor_fp \<and> hash_ok sidecar_hash"
| "wal_entry_ok (RollBack to_point reason prior_tip selected_tip) \<longleftrightarrow>
     hash_ok (rp_hash to_point) \<and> hash_ok (rp_hash prior_tip) \<and> hash_ok (rp_hash selected_tip)"
| "wal_entry_ok (EpochConsensusViewActivated e m r p c s n k v) \<longleftrightarrow>
     hash_ok (pt_hash p) \<and> hash_ok c \<and> hash_ok n \<and> hash_ok k \<and> hash_ok v"

lemma reads_expect_definite: "reads (expect_definite_array n label) (array_bytes n) ()"
  using reads_written(2) [of n] by (simp add: reads_def expect_definite_array_def)

lemma reads_wal_uint: "reads wal_read_uint (uint_bytes v) v"
  using reads_written(1) [of v] by (simp add: reads_def wal_read_uint_def)

lemma reads_wal_hash: "hash_ok h \<Longrightarrow> reads wal_read_hash32 (string_bytes h) h"
  using reads_written_strings(1) [of h] by (simp add: reads_def wal_read_hash32_def hash_ok_def)

lemma reads_wal_code: "from code = Some v \<Longrightarrow> reads (wal_read_code from reason) (uint_bytes code) v"
  using reads_wal_uint [of code] by (simp add: reads_def wal_read_code_def)

definition point_bytes :: "RollbackPoint \<Rightarrow> bytes" where
  "point_bytes p = uint_bytes (rp_slot p) @ string_bytes (rp_hash p) @ uint_bytes (rp_block_no p)"

lemma reads_point:
  assumes "hash_ok (rp_hash p)"
  shows "reads read_rollback_point (point_bytes p) p"
proof -
  have "reads read_rollback_point (uint_bytes (rp_slot p) @ string_bytes (rp_hash p) @ uint_bytes (rp_block_no p) @ [])
      \<lparr>rp_slot = rp_slot p, rp_hash = rp_hash p, rp_block_no = rp_block_no p\<rparr>"
    unfolding read_rollback_point_def [abs_def]
    by (rule reads_bind reads_wal_uint reads_wal_hash [OF assms] reads_return)+
  then show ?thesis by (cases p) (simp add: point_bytes_def)
qed

lemma wire_codes:
  "verdict_from_wire_code (verdict_wire_code v) = Some v" "rollback_reason_from_wire_code (rollback_reason_wire_code r) = Some r"
  "snapshot_phase_from_wire (snapshot_phase_wire p) = Some p" "network_magic_from (ucast m) = Some m"
  "era_from_code (ucast (era_as_u8 e)) = Some e"
proof -
  show "verdict_from_wire_code (verdict_wire_code v) = Some v" by (cases v) (simp_all add: verdict_from_wire_code_def)
  show "rollback_reason_from_wire_code (rollback_reason_wire_code r) = Some r" by (cases r) (simp_all add: rollback_reason_from_wire_code_def)
  show "snapshot_phase_from_wire (snapshot_phase_wire p) = Some p" by (cases p) (simp_all add: snapshot_phase_from_wire_def)
  show "era_from_code (ucast (era_as_u8 e)) = Some e" by (cases e) (simp_all add: era_from_code_def CardanoEra_ALL_def)
  have u: "unat (ucast m :: u64) = unat m" using unsigned_less [of m, where 'a = nat] by (simp add: unsigned_ucast_eq take_bit_nat_eq_self_iff)
  then have "\<not> (ucast m :: u64) > 0xffffffff" using unsigned_less [of m, where 'a = nat] by (simp add: word_less_nat_alt)
  moreover have "ucast (ucast m :: u64) = m" by (simp add: ucast_up_ucast_id is_up)
  ultimately show "network_magic_from (ucast m) = Some m" by (simp add: network_magic_from_def)
qed

lemmas wal_reads = reads_bind reads_expect_definite reads_wal_uint reads_wal_hash reads_point reads_return reads_wal_code wire_codes

lemma reads_admit:
  assumes "hash_ok prior" "hash_ok h" "hash_ok post"
  shows "reads decode_admit_block (array_bytes 5 @ string_bytes prior @ string_bytes h @ uint_bytes slot @
    uint_bytes (verdict_wire_code v) @ string_bytes post @ []) (AdmitBlock prior h slot v post)"
  unfolding decode_admit_block_def [abs_def] by (rule wal_reads assms)+

lemma reads_seed_import:
  assumes "hash_ok anchor" "hash_ok sidecar"
  shows "reads decode_seed_import (array_bytes 3 @ string_bytes anchor @ string_bytes sidecar @ uint_bytes e @ [])
    (SeedEpochConsensusInputsImported anchor sidecar e)"
  unfolding decode_seed_import_def [abs_def] by (rule wal_reads assms)+

lemma reads_rollback:
  assumes "hash_ok (rp_hash p)" "hash_ok (rp_hash q)" "hash_ok (rp_hash t)"
  shows "reads decode_rollback (array_bytes 10 @ point_bytes p @ uint_bytes (rollback_reason_wire_code r) @ point_bytes q @ point_bytes t @ [])
    (RollBack p r q t)"
  unfolding decode_rollback_def [abs_def] by (rule wal_reads assms)+

lemma reads_activation:
  assumes "hash_ok h" "hash_ok c" "hash_ok n" "hash_ok k" "hash_ok v"
  shows "reads decode_activation (array_bytes 10 @ uint_bytes e @ uint_bytes (ucast m) @ uint_bytes (ucast (era_as_u8 r)) @
    uint_bytes slot @ string_bytes h @ string_bytes c @ uint_bytes (snapshot_phase_wire s) @ string_bytes n @ string_bytes k @ string_bytes v @ [])
    (EpochConsensusViewActivated e m r \<lparr>pt_slot = slot, pt_hash = h\<rparr> c s n k v)"
  unfolding decode_activation_def [abs_def] by (rule wal_reads assms)+

lemma reads_tagged:
  assumes "reads d bs e" "\<And>data offset. (if tag = TAG_ADMIT_BLOCK then decode_admit_block data offset
     else if tag = TAG_SEED_EPOCH_CONSENSUS_INPUTS_IMPORTED then decode_seed_import data offset
     else if tag = TAG_ROLLBACK then decode_rollback data offset
     else if tag = TAG_EPOCH_CONSENSUS_VIEW_ACTIVATED then decode_activation data offset
     else Err (Structural ''unknown wal entry tag'')) = d data offset"
  shows "reads decode_wal_entry_at (array_bytes 2 @ uint_bytes tag @ bs) e"
  unfolding decode_wal_entry_at_def [abs_def]
  by (rule reads_bind [OF reads_expect_definite], rule reads_bind [OF reads_wal_uint]) (use assms in \<open>simp add: reads_def\<close>)

lemma reads_wal_entry:
  assumes "wal_entry_ok e"
  shows "reads decode_wal_entry_at (encode_wal_entry e) e"
proof (cases e)
  case (AdmitBlock prior h slot v post)
  then show ?thesis using assms reads_tagged [OF reads_admit, of prior h post TAG_ADMIT_BLOCK slot v]
    by (simp add: write_array_def codec_bytes wal_tags)
next
  case (SeedEpochConsensusInputsImported anchor sidecar ep)
  then show ?thesis using assms reads_tagged [OF reads_seed_import, of anchor sidecar TAG_SEED_EPOCH_CONSENSUS_INPUTS_IMPORTED ep]
    by (simp add: write_array_def codec_bytes wal_tags)
next
  case (RollBack p r q t)
  then show ?thesis using assms reads_tagged [OF reads_rollback, of p q t TAG_ROLLBACK r]
    by (simp add: write_array_def codec_bytes wal_tags write_rollback_point_def point_bytes_def)
next
  case (EpochConsensusViewActivated ep m r pt c s n k v)
  then show ?thesis
    using assms reads_tagged [OF reads_activation, of "pt_hash pt" c n k v TAG_EPOCH_CONSENSUS_VIEW_ACTIVATED ep m r "pt_slot pt" s]
    by (cases pt) (simp add: write_array_def codec_bytes wal_tags)
qed

text \<open>
  C24. Log entries survive their encoding: whatever follows the bytes of an entry in the file, the
  decoder returns the entry and the length of its bytes, for all four kinds of entries, all
  integers and all 32-byte hashes.
\<close>

theorem wal_entry_roundtrip:
  assumes "wal_entry_ok e"
  shows "decode_wal_entry (encode_wal_entry e @ rest) = Ok (e, length (encode_wal_entry e))"
  using reads_wal_entry [OF assms] unfolding reads_def decode_wal_entry_def by (metis append_Nil list.size(3) plus_nat.add_0)

theorem wal_entry_roundtrip_witness:
  "decode_wal_entry (encode_wal_entry (AdmitBlock (replicate 32 1) (replicate 32 2) 77 Valid (replicate 32 3)) @ [9]) =
     Ok (AdmitBlock (replicate 32 1) (replicate 32 2) 77 Valid (replicate 32 3),
         length (encode_wal_entry (AdmitBlock (replicate 32 1) (replicate 32 2) 77 Valid (replicate 32 3))))"
  by (rule wal_entry_roundtrip) (simp add: hash_ok_def)

end
