(* ===== verification/Wal_Replay.thy ===== *)
theory Wal_Replay
  imports Wal
begin

text \<open>
  Replay of the write-ahead log. An honest log is what a node appends (an inductive relation between
  the log and the chain it stands for); along it the two passes of \<open>replay_from_anchor\<close> are related to
  the chain for every later rollback at once, which gives the exact condition for recovery. The
  walk of \<open>verify_chain\<close> accepts a log exactly when replay does, up to missing blocks and imports.
\<close>

section \<open>An honest log\<close>

text \<open>
  What the node writes: a block extends the current tip at a later slot, a rollback goes to a point of
  the current chain, the import of the seed inputs happens at most once, and activations change
  nothing. The chain has its newest block first, each with slot, hash and fingerprint.
\<close>

type_synonym wal_chain = "(SlotNo \<times> Hash32 \<times> Hash32) list"

definition chain_tip :: "Hash32 \<Rightarrow> wal_chain \<Rightarrow> Hash32" where
  "chain_tip anchor chain = (case chain of [] \<Rightarrow> anchor | (_, _, fp) # _ \<Rightarrow> fp)"

definition cut_chain :: "SlotNo \<Rightarrow> wal_chain \<Rightarrow> wal_chain" where
  "cut_chain s chain = dropWhile (\<lambda>b. fst b > s) chain"

fun is_import :: "WalEntry \<Rightarrow> bool" where
  "is_import (SeedEpochConsensusInputsImported _ _ _) = True"
| "is_import _ = False"

inductive honest_log :: "Hash32 \<Rightarrow> WalEntry list \<Rightarrow> wal_chain \<Rightarrow> bool" for anchor where
  empty: "honest_log anchor [] []"
| admit: "honest_log anchor log chain \<Longrightarrow> (\<forall>b \<in> set chain. fst b < slot) \<Longrightarrow>
    honest_log anchor (log @ [AdmitBlock (chain_tip anchor chain) h slot v fp]) ((slot, h, fp) # chain)"
| rollback: "honest_log anchor log chain \<Longrightarrow> (rp_slot p, rp_hash p, fp) \<in> set chain \<Longrightarrow>
    honest_log anchor (log @ [RollBack p r q t]) (cut_chain (rp_slot p) chain)"
| import: "honest_log anchor log chain \<Longrightarrow> list_all (\<lambda>e. \<not> is_import e) log \<Longrightarrow>
    honest_log anchor (log @ [SeedEpochConsensusInputsImported anchor sidecar e]) chain"
| activate: "honest_log anchor log chain \<Longrightarrow>
    honest_log anchor (log @ [EpochConsensusViewActivated e m r pt c s n k v]) chain"

fun rollback_slot :: "WalEntry \<Rightarrow> SlotNo option" where
  "rollback_slot (RollBack p _ _ _) = Some (rp_slot p)"
| "rollback_slot _ = None"

definition rollback_slots :: "WalEntry list \<Rightarrow> SlotNo list" where
  "rollback_slots log = List.map_filter rollback_slot log"

fun provenance_of :: "WalEntry \<Rightarrow> RecoveredBootstrapProvenance option" where
  "provenance_of (SeedEpochConsensusInputsImported a s e) = Some \<lparr>rbp_anchor_fp = a, rbp_sidecar_hash = s, rbp_epoch_no = e\<rparr>"
| "provenance_of _ = None"

definition log_provenance :: "WalEntry list \<Rightarrow> RecoveredBootstrapProvenance option" where
  "log_provenance log = (case List.map_filter provenance_of log of [] \<Rightarrow> None | p # _ \<Rightarrow> Some p)"

section \<open>The walks over a log that grows\<close>

lemma map_filter_snoc: "List.map_filter f (xs @ [x]) = List.map_filter f xs @ (case f x of None \<Rightarrow> [] | Some y \<Rightarrow> [y])"
  by (induction xs) (auto simp: map_filter_simps split: option.splits)

lemma rollback_slots_snoc:
  "rollback_slots [] = []" "rollback_slots (log @ [e]) = rollback_slots log @ (case rollback_slot e of None \<Rightarrow> [] | Some s \<Rightarrow> [s])"
  by (simp_all add: rollback_slots_def map_filter_simps map_filter_snoc)

lemma log_provenance_snoc:
  "log_provenance [] = None"
  "log_provenance (log @ [e]) = (case log_provenance log of None \<Rightarrow> provenance_of e | Some p \<Rightarrow> Some p)"
  by (auto simp: log_provenance_def map_filter_simps map_filter_snoc split: list.splits option.splits)

lemma log_provenance_none: "list_all (\<lambda>e. \<not> is_import e) log \<Longrightarrow> log_provenance log = None"
proof (induction log rule: rev_induct)
  case (snoc e log)
  then show ?case by (cases e) (simp_all add: log_provenance_snoc)
qed (simp add: log_provenance_snoc)

lemma supersede_walk_append:
  "supersede_walk i st (xs @ ys) = rbind (supersede_walk i st xs) (\<lambda>st. supersede_walk (i + length xs) st ys)"
  by (induction i st xs rule: supersede_walk.induct) (auto simp: Let_def split: prod.splits list.splits)

lemma replay_walk_append:
  "replay_walk a bb F i st (xs @ ys) = rbind (replay_walk a bb F i st xs) (\<lambda>st. replay_walk a bb F (i + length xs) st ys)"
  by (induction xs arbitrary: i st) (simp_all add: rbind_assoc)

lemma replay_entry_cong: "F ! i = G ! i \<Longrightarrow> replay_entry a bb F i st e = replay_entry a bb G i st e"
  by (cases e) simp_all

lemma replay_walk_cong:
  "(\<And>j. i \<le> j \<Longrightarrow> j < i + length xs \<Longrightarrow> F ! j = G ! j) \<Longrightarrow> replay_walk a bb F i st xs = replay_walk a bb G i st xs"
proof (induction xs arbitrary: i st)
  case (Cons e xs)
  have "replay_entry a bb F i st e = replay_entry a bb G i st e" using Cons.prems by (intro replay_entry_cong) simp
  moreover have "replay_walk a bb F (Suc i) st' xs = replay_walk a bb G (Suc i) st' xs" for st'
    using Cons.prems by (intro Cons.IH) simp
  ultimately show ?case by simp
qed simp

lemma snd_pop_above: "snd (pop_above s (F, act)) = dropWhile (\<lambda>b. snd b > s) act"
  by (induction act arbitrary: F) auto

lemma pop_above_length: "length (fst (pop_above s (F, act))) = length F"
  by (induction act arbitrary: F) auto

lemma pop_above_flag:
  "j \<notin> fst ` set act \<Longrightarrow> fst (pop_above s (F, act)) ! j = F ! j"
  "j \<notin> fst ` set act \<Longrightarrow> fst (pop_above s (F[j := x], act)) = (fst (pop_above s (F, act)))[j := x]"
  by (induction act arbitrary: F) (auto simp: list_update_swap split: if_splits)

lemma pop_above_none: "\<forall>b \<in> set act. snd b \<le> s \<Longrightarrow> pop_above s (F, act) = (F, act)"
  by (cases act) auto

lemma pop_above_twice:
  "sorted_wrt (>) (map snd act) \<Longrightarrow> pop_above c (pop_above s (F, act)) = pop_above (min s c) (F, act)"
  by (induction act arbitrary: F) (auto simp: min_def)

text \<open>What the first pass leaves behind an honest log.\<close>

definition marks :: "nat \<Rightarrow> WalEntry list \<Rightarrow> wal_chain \<Rightarrow> bool list \<Rightarrow> (nat \<times> u64) list \<Rightarrow> bool" where
  "marks N log chain F act \<longleftrightarrow> supersede_walk 0 (replicate N False, []) log = Ok (F, act) \<and> length F = N \<and>
     map snd act = map fst chain \<and> (\<forall>b \<in> set act. fst b < length log) \<and> distinct (map fst act) \<and>
     (\<forall>j. length log \<le> j \<and> j < N \<longrightarrow> \<not> F ! j)"

lemma cut_chain_top:
  assumes "sorted_wrt (>) (map fst chain)" "(s, h, fp) \<in> set chain"
  shows "\<exists>rest. cut_chain s chain = (s, h, fp) # rest"
  using assms
proof (induction chain)
  case (Cons b chain)
  show ?case
  proof (cases "b = (s, h, fp)")
    case True
    then show ?thesis by (simp add: cut_chain_def)
  next
    case False
    then have "(s, h, fp) \<in> set chain" using Cons.prems(2) by simp
    moreover from this have "fst b > s" using Cons.prems(1) by force
    ultimately show ?thesis using Cons by (simp add: cut_chain_def)
  qed
qed simp

lemma honest_sorted: "honest_log anchor log chain \<Longrightarrow> sorted_wrt (>) (map fst chain)"
proof (induction rule: honest_log.induct)
  case (rollback log chain p fp r q t)
  then show ?case by (simp add: cut_chain_def dropWhile_eq_drop drop_map [symmetric] sorted_wrt_drop)
qed auto

lemma marks_admit:
  "marks N log chain F act \<Longrightarrow> length log < N \<Longrightarrow>
   marks N (log @ [AdmitBlock x h slot v fp]) ((slot, h, fp) # chain) F ((length log, slot) # act)"
  by (auto simp: marks_def supersede_walk_append less_Suc_eq)

lemma cut_slots: "map fst (cut_chain s chain) = dropWhile (\<lambda>t. t > s) (map fst chain)"
  by (simp add: cut_chain_def dropWhile_map comp_def)

lemma marks_rollback:
  assumes m: "marks N log chain F act" and chain: "sorted_wrt (>) (map fst chain)" "(rp_slot p, h, fp) \<in> set chain"
  shows "marks N (log @ [RollBack p r q t]) (cut_chain (rp_slot p) chain) (fst (pop_above (rp_slot p) (F, act))) (snd (pop_above (rp_slot p) (F, act)))"
proof -
  let ?act = "dropWhile (\<lambda>b. snd b > rp_slot p) act"
  obtain F' where pop: "pop_above (rp_slot p) (F, act) = (F', ?act)" using snd_pop_above [of "rp_slot p" F act] by (metis prod.collapse)
  have slots: "map snd ?act = map fst (cut_chain (rp_slot p) chain)"
    using m dropWhile_map [of "\<lambda>t. t > rp_slot p" snd act] by (simp add: marks_def cut_slots comp_def)
  then obtain i rest where top: "?act = (i, rp_slot p) # rest"
    using cut_chain_top [OF chain] by auto
  have act: "set ?act \<subseteq> set act" "distinct (map fst ?act)"
  proof -
    show "set ?act \<subseteq> set act" by (auto dest: set_dropWhileD)
    have "distinct (drop n (map fst act))" for n using m by (simp add: marks_def)
    then show "distinct (map fst ?act)" by (simp only: dropWhile_eq_drop drop_map)
  qed
  have "supersede_walk 0 (replicate N False, []) (log @ [RollBack p r q t]) = Ok (F', ?act)"
    using m by (simp add: marks_def supersede_walk_append pop top)
  moreover have "\<not> F' ! j" if "length log \<le> j" "j < N" for j
    using m that pop_above_flag(1) [of j act "rp_slot p" F] by (force simp: marks_def pop)
  moreover have "length F' = N" using m pop_above_length [of "rp_slot p" F act] by (simp add: pop marks_def)
  moreover have "\<forall>b \<in> set ?act. fst b < length (log @ [RollBack p r q t])" using m act(1) by (force simp: marks_def)
  ultimately show ?thesis using slots act(2) by (simp add: marks_def pop)
qed

lemma marks_other:
  "marks N log chain F act \<Longrightarrow> marks N (log @ [SeedEpochConsensusInputsImported a x e]) chain F act"
  "marks N log chain F act \<Longrightarrow> marks N (log @ [EpochConsensusViewActivated e m r pt c s n k v]) chain F act"
  by (auto simp: marks_def supersede_walk_append less_Suc_eq)

lemma honest_marks:
  "honest_log anchor log chain \<Longrightarrow> length log \<le> N \<Longrightarrow> \<exists>F act. marks N log chain F act"
proof (induction rule: honest_log.induct)
  case empty
  then show ?case by (auto simp: marks_def)
next
  case (admit log chain slot h v fp)
  then show ?case using marks_admit by (metis Suc_le_lessD length_append_singleton less_imp_le)
next
  case (rollback log chain p fp r q t)
  then show ?case using marks_rollback [OF _ honest_sorted [OF rollback.hyps(1)]] by (metis Suc_leD length_append_singleton)
next
  case (import log chain sidecar e)
  then show ?case using marks_other(1) by (metis Suc_leD length_append_singleton)
next
  case (activate log chain e m r pt c s n k v)
  then show ?case using marks_other(2) by (metis Suc_leD length_append_singleton)
qed

lemma marks_unique: "marks N log chain F act \<Longrightarrow> marks N log chain' F' act' \<Longrightarrow> F' = F \<and> act' = act"
  by (simp add: marks_def)

text \<open>What the second pass makes of a log under given flags.\<close>

definition recovers :: "Hash32 \<Rightarrow> WalEntry list \<Rightarrow> wal_chain \<Rightarrow> ReplayState \<Rightarrow> bool" where
  "recovers anchor log chain st \<longleftrightarrow> rs_prev_post_fp st = chain_tip anchor chain \<and> rs_provenance st = log_provenance log \<and>
     rs_admit_count st = word_of_nat (length chain) \<and> bt_wf (rs_point_fp st) \<and>
     (\<forall>s h fp. bt_get (rs_point_fp st) (s, h) = Some fp \<longleftrightarrow> (s, h, fp) \<in> set chain)"

definition replays ::
  "Hash32 \<Rightarrow> (Hash32, bytes) btree_map \<Rightarrow> bool list \<Rightarrow> WalEntry list \<Rightarrow> wal_chain \<Rightarrow> bool \<Rightarrow> bool" where
  "replays anchor bb F log chain good \<longleftrightarrow>
     (if good then \<exists>st. replay_walk anchor bb F 0 (ReplayState_init anchor) log = Ok st \<and> recovers anchor log chain st
      else \<exists>i s. replay_walk anchor bb F 0 (ReplayState_init anchor) log = Err (RollbackTargetNotInChain i s))"

lemma replays_cong:
  "(\<And>j. j < length log \<Longrightarrow> F ! j = G ! j) \<Longrightarrow> replays anchor bb F log chain good = replays anchor bb G log chain good"
  unfolding replays_def using replay_walk_cong [of 0 log F G anchor bb "ReplayState_init anchor"] by simp

lemma replays_snoc:
  assumes "replays anchor bb F log chain good" "good' \<Longrightarrow> good"
    and "\<And>st. good \<Longrightarrow> recovers anchor log chain st \<Longrightarrow>
      (if good' then \<exists>st'. replay_entry anchor bb F (length log) st e = Ok st' \<and> recovers anchor (log @ [e]) chain' st'
       else \<exists>i s. replay_entry anchor bb F (length log) st e = Err (RollbackTargetNotInChain i s))"
  shows "replays anchor bb F (log @ [e]) chain' good'"
proof (cases good)
  case True
  then obtain st where st: "replay_walk anchor bb F 0 (ReplayState_init anchor) log = Ok st" "recovers anchor log chain st"
    using assms(1) by (auto simp: replays_def)
  then show ?thesis using assms(3) [OF True st(2)] by (auto simp: replays_def replay_walk_append split: if_splits)
next
  case False
  then show ?thesis using assms(1,2) by (auto simp: replays_def replay_walk_append)
qed

lemma cut_chain_simps:
  "cut_chain c ((s, x) # chain) = (if s > c then cut_chain c chain else (s, x) # chain)"
  "sorted_wrt (>) (map fst chain) \<Longrightarrow> cut_chain c (cut_chain s chain) = cut_chain (min s c) chain"
  "\<forall>b \<in> set chain. fst b \<le> c \<Longrightarrow> cut_chain c chain = chain"
proof -
  show "cut_chain c (cut_chain s chain) = cut_chain (min s c) chain" if "sorted_wrt (>) (map fst chain)"
    using that by (induction chain) (auto simp: cut_chain_def min_def)
  show "cut_chain c chain = chain" if "\<forall>b \<in> set chain. fst b \<le> c" using that by (cases chain) (auto simp: cut_chain_def)
qed (simp add: cut_chain_def)

lemma set_cut_chain: "b \<in> set (cut_chain s chain) \<Longrightarrow> b \<in> set chain"
  unfolding cut_chain_def by (rule set_dropWhileD)

lemma cut_chain_le: "sorted_wrt (>) (map fst chain) \<Longrightarrow> b \<in> set (cut_chain s chain) \<Longrightarrow> fst b \<le> s"
  by (induction chain) (auto simp: cut_chain_def split: if_splits)

lemma recovers_admit:
  assumes "recovers anchor log chain st" "\<forall>b \<in> set chain. fst b < slot" "bt_contains_key bb h" "\<not> F ! i"
  shows "\<exists>st'. replay_entry anchor bb F i st (AdmitBlock (chain_tip anchor chain) h slot v fp) = Ok st' \<and>
    recovers anchor (log @ [AdmitBlock (chain_tip anchor chain) h slot v fp]) ((slot, h, fp) # chain) st'"
  using assms by (auto simp: recovers_def chain_tip_def log_provenance_snoc bt_wf_insert bt_get_insert split: option.splits)

lemma recovers_rollback:
  assumes "recovers anchor log chain st" "(rp_slot p, rp_hash p, fp) \<in> set chain" "chain_tip anchor chain = fp"
  shows "\<exists>st'. replay_entry anchor bb F i st (RollBack p r q t) = Ok st' \<and> recovers anchor (log @ [RollBack p r q t]) chain st'"
proof -
  have "bt_get (rs_point_fp st) (rp_slot p, rp_hash p) = Some fp" using assms(1,2) by (simp add: recovers_def)
  then have "replay_entry anchor bb F i st (RollBack p r q t) = Ok (st\<lparr>rs_prev_post_fp := fp\<rparr>)" by simp
  moreover have "recovers anchor (log @ [RollBack p r q t]) chain (st\<lparr>rs_prev_post_fp := fp\<rparr>)"
    using assms by (simp add: recovers_def log_provenance_snoc split: option.splits)
  ultimately show ?thesis by blast
qed

lemma recovers_rollback_lost:
  assumes "recovers anchor log chain st" "\<forall>b \<in> set chain. fst b < rp_slot p"
  shows "replay_entry anchor bb F i st (RollBack p r q t) = Err (RollbackTargetNotInChain (word_of_nat i) (rp_slot p))"
proof -
  have "bt_get (rs_point_fp st) (rp_slot p, rp_hash p) = None"
    using assms by (cases "bt_get (rs_point_fp st) (rp_slot p, rp_hash p)") (auto simp: recovers_def)
  then show ?thesis by simp
qed

lemma replays_admit:
  assumes m: "marks N log chain F act" "length log < N" and chain: "\<forall>b \<in> set chain. fst b < slot"
    and blocks: "\<forall>b \<in> set (cut_chain c ((slot, h, fp) # chain)). bt_contains_key bb (fst (snd b))"
    and IH: "replays anchor bb (fst (pop_above c (F, act))) log (cut_chain c chain) good"
  shows "replays anchor bb (fst (pop_above c (F, (length log, slot) # act))) (log @ [AdmitBlock (chain_tip anchor chain) h slot v fp])
    (cut_chain c ((slot, h, fp) # chain)) good"
proof (cases "slot > c")
  case True
  have fresh: "length log \<notin> fst ` set act" using m(1) by (auto simp: marks_def)
  let ?G = "(fst (pop_above c (F, act)))[length log := True]"
  have "replays anchor bb ?G log (cut_chain c chain) good"
    using IH replays_cong [of log ?G "fst (pop_above c (F, act))"] by simp
  moreover have "?G ! length log" using m by (simp add: marks_def pop_above_length)
  ultimately have "replays anchor bb ?G (log @ [AdmitBlock (chain_tip anchor chain) h slot v fp]) (cut_chain c chain) good"
    by (intro replays_snoc [where good = good and chain = "cut_chain c chain"])
      (auto simp: recovers_def log_provenance_snoc replays_def split: option.splits if_splits)
  then show ?thesis using True by (simp add: cut_chain_simps(1) pop_above_flag(2) [OF fresh])
next
  case False
  then have low: "\<forall>b \<in> set chain. fst b \<le> c" using chain by (meson less_imp_le linorder_not_less order_trans)
  have "snd ` set act = fst ` set chain" using m(1) by (metis image_set marks_def)
  then have low_act: "\<forall>b \<in> set act. snd b \<le> c" using low by (metis (no_types, lifting) imageE imageI)
  note cut = cut_chain_simps(3) [OF low] pop_above_none [OF low_act]
  have block: "bt_contains_key bb h" using blocks False by (simp add: cut_chain_simps(1))
  have "\<not> F ! length log" using m by (simp add: marks_def)
  then have "replays anchor bb F (log @ [AdmitBlock (chain_tip anchor chain) h slot v fp]) ((slot, h, fp) # chain) good"
    using IH recovers_admit [OF _ chain block] unfolding cut
    by (intro replays_snoc [where good = good and chain = chain]) (auto simp: replays_def split: if_splits)
  then show ?thesis using False cut by (simp add: cut_chain_simps(1))
qed

lemma sorted_cut: "sorted (xs @ [s, c]) \<longleftrightarrow> sorted (xs @ [min s c]) \<and> s \<le> (c :: u64)"
  by (auto simp: sorted_append min_def)

lemma replays_rollback:
  assumes m: "marks N log chain F act" and chain: "sorted_wrt (>) (map fst chain)" "(rp_slot p, rp_hash p, fp) \<in> set chain"
    and IH: "replays anchor bb (fst (pop_above (min (rp_slot p) c) (F, act))) log (cut_chain (min (rp_slot p) c) chain)
      (sorted (rollback_slots log @ [min (rp_slot p) c]))"
  shows "replays anchor bb (fst (pop_above c (pop_above (rp_slot p) (F, act)))) (log @ [RollBack p r q t])
    (cut_chain c (cut_chain (rp_slot p) chain)) (sorted (rollback_slots (log @ [RollBack p r q t]) @ [c]))"
proof -
  have act: "sorted_wrt (>) (map snd act)" using m chain(1) by (simp add: marks_def)
  note cut = cut_chain_simps(2) [OF chain(1)] pop_above_twice [OF act]
  obtain rest where top: "cut_chain (rp_slot p) chain = (rp_slot p, rp_hash p, fp) # rest" using cut_chain_top [OF chain] by blast
  show ?thesis unfolding cut
  proof (rule replays_snoc [OF IH])
    fix st
    assume good: "sorted (rollback_slots log @ [min (rp_slot p) c])" and st: "recovers anchor log (cut_chain (min (rp_slot p) c) chain) st"
    show "if sorted (rollback_slots (log @ [RollBack p r q t]) @ [c])
      then \<exists>st'. replay_entry anchor bb (fst (pop_above (min (rp_slot p) c) (F, act))) (length log) st (RollBack p r q t) = Ok st' \<and>
        recovers anchor (log @ [RollBack p r q t]) (cut_chain (min (rp_slot p) c) chain) st'
      else \<exists>i s. replay_entry anchor bb (fst (pop_above (min (rp_slot p) c) (F, act))) (length log) st (RollBack p r q t) =
        Err (RollbackTargetNotInChain i s)"
    proof (cases "rp_slot p \<le> c")
      case True
      then show ?thesis
        using recovers_rollback [OF st, of p fp] good by (simp add: rollback_slots_snoc sorted_cut top chain_tip_def min_def)
    next
      case False
      then have "\<forall>b \<in> set (cut_chain (min (rp_slot p) c) chain). fst b < rp_slot p"
        using cut_chain_le [OF chain(1), of _ "min (rp_slot p) c"] by force
      from recovers_rollback_lost [OF st this] False show ?thesis by (simp add: rollback_slots_snoc sorted_cut)
    qed
  qed (auto simp: rollback_slots_snoc sorted_cut min_absorb1)
qed

lemma replays_other:
  assumes "replays anchor bb F log chain (sorted (rollback_slots log @ [c]))" "rollback_slot e = None"
    "\<And>st. recovers anchor log chain st \<Longrightarrow> \<exists>st'. replay_entry anchor bb F (length log) st e = Ok st' \<and> recovers anchor (log @ [e]) chain st'"
  shows "replays anchor bb F (log @ [e]) chain (sorted (rollback_slots (log @ [e]) @ [c]))"
  using assms(2) by (intro replays_snoc [OF assms(1)]) (auto simp: rollback_slots_snoc intro: assms(3))

lemma honest_replays:
  assumes "honest_log anchor log chain" "marks N log chain F act" "length log \<le> N"
    and "\<forall>b \<in> set (cut_chain c chain). bt_contains_key bb (fst (snd b))"
  shows "replays anchor bb (fst (pop_above c (F, act))) log (cut_chain c chain) (sorted (rollback_slots log @ [c]))"
  using assms
proof (induction arbitrary: F act c rule: honest_log.induct)
  case empty
  then show ?case
    by (simp add: replays_def recovers_def ReplayState_init_def cut_chain_def chain_tip_def rollback_slots_snoc log_provenance_snoc bt_wf_empty bt_get_empty)
next
  case (admit log chain slot h v fp)
  then obtain F0 act0 where m: "marks N log chain F0 act0" using honest_marks [of anchor log chain N] by auto
  with admit.prems have eq: "F = F0" "act = (length log, slot) # act0"
    using marks_unique [OF marks_admit [OF m]] by auto
  have "\<forall>b \<in> set (cut_chain c chain). bt_contains_key bb (fst (snd b))"
    using admit.prems(3) set_cut_chain [of _ c chain] by (auto simp: cut_chain_simps(1) split: if_splits)
  then show ?case
    using replays_admit [OF m _ admit.hyps(2) admit.prems(3), where good = "sorted (rollback_slots log @ [c])"] admit.IH [OF m] admit.prems(2)
    by (simp add: eq rollback_slots_snoc)
next
  case (rollback log chain p fp r q t)
  then obtain F0 act0 where m: "marks N log chain F0 act0" using honest_marks [of anchor log chain N] by auto
  note chain = honest_sorted [OF rollback.hyps(1)] rollback.hyps(2)
  have eq: "(F, act) = pop_above (rp_slot p) (F0, act0)"
    using marks_unique [OF marks_rollback [OF m chain] rollback.prems(1)] by (simp add: prod_eq_iff)
  show ?case
    unfolding eq using rollback.prems(2,3) by (intro replays_rollback [OF m chain] rollback.IH [OF m]) (simp_all add: cut_chain_simps(2) [OF chain(1)])
next
  case (import log chain sidecar e)
  then obtain F0 act0 where m: "marks N log chain F0 act0" using honest_marks [of anchor log chain N] by auto
  then have eq: "F = F0" "act = act0" using marks_unique [OF marks_other(1) [OF m] import.prems(1)] by auto
  show ?case
    unfolding eq using import.prems(2,3) log_provenance_none [OF import.hyps(2)]
    by (intro replays_other import.IH [OF m]) (auto simp: recovers_def log_provenance_snoc)
next
  case (activate log chain e m r pt c' s n k v)
  then obtain F0 act0 where mk: "marks N log chain F0 act0" using honest_marks [of anchor log chain N] by auto
  then have eq: "F = F0" "act = act0" using marks_unique [OF marks_other(2) [OF mk] activate.prems(1)] by auto
  show ?case
    unfolding eq using activate.prems(2,3)
    by (intro replays_other activate.IH [OF mk]) (auto simp: recovers_def log_provenance_snoc split: option.splits)
qed

text \<open>
  C20. Replay recovers the chain of an honest log exactly when no rollback in it goes below the
  target of an earlier one. If the slots of the rollback targets do not fall along the log, replay
  from the anchor returns the fingerprint of the last block of the surviving chain, its length and
  the recorded import, and needs the bytes of the surviving blocks only. If a rollback is followed
  by a deeper one, which a node may well record, replay fails: the target of the first rollback
  is superseded by the second one, is skipped by the walk, and is not found when the walk reaches
  the first rollback. Such a log can never be replayed again.
\<close>

theorem wal_replay_exact:
  assumes log: "honest_log anchor log chain" and blocks: "\<forall>b \<in> set chain. bt_contains_key block_bytes (fst (snd b))"
  shows "if sorted (rollback_slots log)
    then replay_from_anchor anchor log block_bytes =
      Ok \<lparr>ro_tail_fp = chain_tip anchor chain, ro_provenance = log_provenance log, ro_admit_count = word_of_nat (length chain)\<rparr>
    else \<exists>i s. replay_from_anchor anchor log block_bytes = Err (RollbackTargetNotInChain i s)"
proof -
  obtain F act where m: "marks (length log) log chain F act" using honest_marks [OF log order_refl] by blast
  have top: "(x :: u64) \<le> - 1" for x by simp
  then have all: "cut_chain (- 1) chain = chain" "pop_above (- 1) (F, act) = (F, act)"
    by (simp_all add: cut_chain_simps(3) pop_above_none)
  have "sorted (rollback_slots log @ [- 1]) \<longleftrightarrow> sorted (rollback_slots log)" using top by (simp add: sorted_append)
  then have "replays anchor block_bytes F log chain (sorted (rollback_slots log))"
    using honest_replays [OF log m order_refl, of "- 1" block_bytes] blocks by (simp only: all fst_conv)
  moreover have "compute_superseded log = Ok F" using m by (simp add: compute_superseded_def marks_def)
  ultimately show ?thesis
    by (auto simp: replays_def recovers_def replay_from_anchor_def split: if_splits)
qed

text \<open>Blocks at slots 1, 2 and 3; a rollback to the second; and one to the first.\<close>

definition wal_point :: "SlotNo \<Rightarrow> Hash32 \<Rightarrow> RollbackPoint" where
  "wal_point s h = \<lparr>rp_slot = s, rp_hash = h, rp_block_no = s\<rparr>"

definition sample_log :: "WalEntry list" where
  "sample_log = [AdmitBlock [0] [1] 1 Valid [11], AdmitBlock [11] [2] 2 Valid [12], AdmitBlock [12] [3] 3 Valid [13],
     RollBack (wal_point 2 [2]) PeerRollBackward (wal_point 3 [3]) (wal_point 2 [2])]"

lemma sample_log_honest: "honest_log [0] sample_log [(2, [2], [12]), (1, [1], [11])]"
proof -
  have "honest_log [0] [AdmitBlock [0] [1] 1 Valid [11]] [(1, [1], [11])]"
    using honest_log.admit [OF honest_log.empty, of 1 "[0]" "[1]" Valid "[11]"] by (simp add: chain_tip_def)
  then have "honest_log [0] [AdmitBlock [0] [1] 1 Valid [11], AdmitBlock [11] [2] 2 Valid [12]] [(2, [2], [12]), (1, [1], [11])]"
    by (drule_tac honest_log.admit [where slot = 2 and h = "[2]" and v = Valid and fp = "[12]"]) (simp_all add: chain_tip_def)
  then have "honest_log [0] [AdmitBlock [0] [1] 1 Valid [11], AdmitBlock [11] [2] 2 Valid [12], AdmitBlock [12] [3] 3 Valid [13]]
      [(3, [3], [13]), (2, [2], [12]), (1, [1], [11])]"
    by (drule_tac honest_log.admit [where slot = 3 and h = "[3]" and v = Valid and fp = "[13]"]) (simp_all add: chain_tip_def)
  then show ?thesis
    using honest_log.rollback [where p = "wal_point 2 [2]" and fp = "[12]" and r = PeerRollBackward and q = "wal_point 3 [3]" and t = "wal_point 2 [2]"]
    by (fastforce simp: sample_log_def wal_point_def cut_chain_def)
qed

lemma sample_log_deeper: "honest_log [0] (sample_log @ [RollBack (wal_point 1 [1]) ForkChoiceWin (wal_point 2 [2]) (wal_point 1 [1])]) [(1, [1], [11])]"
  using honest_log.rollback [OF sample_log_honest, where p = "wal_point 1 [1]" and fp = "[11]" and r = ForkChoiceWin and q = "wal_point 2 [2]" and t = "wal_point 1 [1]"]
  by (simp add: wal_point_def cut_chain_def)

theorem wal_replay_exact_witness:
  "replay_from_anchor [0] sample_log [([1], []), ([2], [])] = Ok \<lparr>ro_tail_fp = [12], ro_provenance = None, ro_admit_count = 2\<rparr> \<and>
   (\<exists>i s. replay_from_anchor [0] (sample_log @ [RollBack (wal_point 1 [1]) ForkChoiceWin (wal_point 2 [2]) (wal_point 1 [1])]) [([1], []), ([2], [])] =
     Err (RollbackTargetNotInChain i s))"
proof -
  have slots: "rollback_slots sample_log = [2]" "log_provenance sample_log = None"
    by (simp_all add: rollback_slots_def log_provenance_def map_filter_simps sample_log_def wal_point_def)
  have deeper: "rollback_slots (sample_log @ [RollBack (wal_point 1 [1]) ForkChoiceWin (wal_point 2 [2]) (wal_point 1 [1])]) = [2, 1]"
    by (simp add: rollback_slots_snoc slots wal_point_def)
  have blocks: "\<forall>b \<in> set [(2 :: u64, [2], [12]), (1, [1], [11])]. bt_contains_key [([1], []), ([2], [])] (fst (snd b))"
    "\<forall>b \<in> set [(1 :: u64, [1], [11])]. bt_contains_key [([1], []), ([2], [])] (fst (snd b))"
    by (simp_all add: bt_contains_key_def bt_get_def)
  show ?thesis
    using wal_replay_exact [OF sample_log_honest blocks(1)] wal_replay_exact [OF sample_log_deeper blocks(2)]
    by (simp add: slots deeper chain_tip_def word_le_nat_alt)
qed

section \<open>Verification and replay\<close>

fun blocks_present :: "(Hash32, bytes) btree_map \<Rightarrow> bool list \<Rightarrow> nat \<Rightarrow> WalEntry list \<Rightarrow> bool" where
  "blocks_present bb F i [] = True"
| "blocks_present bb F i (AdmitBlock _ h _ _ _ # es) = ((F ! i \<or> bt_contains_key bb h) \<and> blocks_present bb F (Suc i) es)"
| "blocks_present bb F i (_ # es) = blocks_present bb F (Suc i) es"

fun imports_ok :: "Hash32 \<Rightarrow> bool \<Rightarrow> WalEntry list \<Rightarrow> bool" where
  "imports_ok anchor seen [] = True"
| "imports_ok anchor seen (SeedEpochConsensusInputsImported a _ _ # es) = (\<not> seen \<and> a = anchor \<and> imports_ok anchor True es)"
| "imports_ok anchor seen (_ # es) = imports_ok anchor seen es"

lemma walks_agree:
  "is_ok (replay_walk anchor bb F i st es) \<longleftrightarrow>
     is_ok (verify_walk F i (rs_prev_post_fp st, rs_point_fp st) es) \<and> blocks_present bb F i es \<and>
     imports_ok anchor (rs_provenance st \<noteq> None) es"
proof (induction es arbitrary: i st)
  case (Cons e es)
  show ?case
  proof (cases e)
    case (RollBack p r q t)
    then show ?thesis using Cons by (cases "bt_get (rs_point_fp st) (rp_slot p, rp_hash p)") simp_all
  qed (use Cons in auto)
qed simp

lemma is_ok_return: "is_ok (rbind r (\<lambda>x. Ok (f x))) = is_ok r"
  by (cases r) simp_all

text \<open>Replay succeeds exactly when the chain verifies, the blocks that survive are there, and the
  inputs were imported at most once, for this anchor.\<close>

theorem replay_iff_verified:
  "is_ok (replay_from_anchor anchor log bb) \<longleftrightarrow>
     is_ok (verify_chain log anchor) \<and> (\<exists>F. compute_superseded log = Ok F \<and> blocks_present bb F 0 log) \<and> imports_ok anchor False log"
proof (cases "compute_superseded log")
  case (Inr F)
  then show ?thesis
    using walks_agree [of anchor bb F 0 "ReplayState_init anchor" log]
    by (simp add: replay_from_anchor_def verify_chain_def is_ok_return ReplayState_init_def)
qed (simp add: replay_from_anchor_def verify_chain_def)

end
