(* ===== verification/Early_Rules.thy ===== *)
theory Early_Rules
  imports Boundary_Pots Tx_Roundtrip Cert_Codec Crypto_Verify
begin

text \<open>
  The transaction rules of the eras up to Mary (\<^verbatim>\<open>byron.rs\<close>, \<^verbatim>\<open>shelley.rs\<close>, \<^verbatim>\<open>mary.rs\<close> in \<^verbatim>\<open>ade_ledger/src\<close>),
  the decoders of the witness sets of a block, and the translation of the ledger state from one era
  to the next (\<^verbatim>\<open>hfc.rs\<close>). Ed25519 and Blake2b are those of \<open>Crypto\<close>; Blake2b-224, which hashes keys,
  is the argument \<open>blake2b_224\<close>. A failure inside a codec is kept as a codec error and converted once,
  at the end, as \<^verbatim>\<open>?\<close> would convert it at each step.
\<close>

section \<open>Witness sets\<close>

record VKeyWitness =
  vkw_vkey :: bytes
  vkw_signature :: bytes

text \<open>The decoding failure of a witness that is no pair is the one \<^verbatim>\<open>InvalidCborStructure\<close> converts to.\<close>

definition decode_vkey_witness :: "VKeyWitness tx_reader" where
  "decode_vkey_witness data offset =
     rbind (map_err Fail (read_array_header data offset)) (\<lambda>(enc, offset).
     if \<not> is_definite enc 2 then Err (Fail (InvalidCborStructure offset ''vkey witness''))
     else rbind (map_err Fail (read_bytes data offset)) (\<lambda>((vkey, _), offset).
          rbind (map_err Fail (read_bytes data offset)) (\<lambda>((signature, _), offset).
          Ok (\<lparr>vkw_vkey = vkey, vkw_signature = signature\<rparr>, offset))))"

definition decode_vkey_witnesses :: "VKeyWitness list tx_reader" where
  "decode_vkey_witnesses = read_vec 48 decode_vkey_witness"

text \<open>Loops over the entries of a map that thread a variable, for a count or up to the break byte.\<close>

primrec fold_count :: "nat \<Rightarrow> ('s \<Rightarrow> 's tx_reader) \<Rightarrow> 's \<Rightarrow> 's tx_reader" where
  "fold_count 0 f s data offset = Ok (s, offset)"
| "fold_count (Suc n) f s data offset = rbind (f s data offset) (\<lambda>(s, offset). fold_count n f s data offset)"

primrec fold_to_break :: "nat \<Rightarrow> ('s \<Rightarrow> 's tx_reader) \<Rightarrow> 's \<Rightarrow> 's tx_reader" where
  "fold_to_break 0 f s data offset =
     rbind (map_err Fail (is_break data offset)) (\<lambda>b.
     if b then Ok (s, offset) else Err (Fail (UnexpectedEof offset 1)))"
| "fold_to_break (Suc k) f s data offset =
     rbind (map_err Fail (is_break data offset)) (\<lambda>b.
     if b then Ok (s, offset)
     else rbind (f s data offset) (\<lambda>(s, offset). fold_to_break k f s data offset))"

definition read_witness_map :: "(VKeyWitness list \<Rightarrow> VKeyWitness list tx_reader) \<Rightarrow> VKeyWitness list tx_reader" where
  "read_witness_map process data offset =
     rbind (map_err Fail (read_map_header data offset)) (\<lambda>(enc, offset).
     case enc of
       ContainerEncoding.Definite n _ \<Rightarrow> fold_count (unat n) process [] data offset
     | ContainerEncoding.Indefinite \<Rightarrow>
         rbind (fold_to_break (length data - offset) process [] data offset) (\<lambda>(ws, offset). Ok (ws, offset + 1)))"

definition witness_entry :: "VKeyWitness list \<Rightarrow> VKeyWitness list tx_reader" where
  "witness_entry ws data offset =
     rbind (map_err Fail (read_uint data offset)) (\<lambda>((key, _), offset).
     if key = 0 then decode_vkey_witnesses data offset
     else rbind (map_err Fail (skip_item data offset)) (\<lambda>(_, offset). Ok (ws, offset)))"

definition decode_single_witness_set :: "VKeyWitness list tx_reader" where
  "decode_single_witness_set = read_witness_map witness_entry"

text \<open>In Conway the array of witnesses may be under a tag.\<close>

definition conway_witness_entry :: "VKeyWitness list \<Rightarrow> VKeyWitness list tx_reader" where
  "conway_witness_entry ws data offset =
     rbind (map_err Fail (read_uint data offset)) (\<lambda>((key, _), offset).
     if key = 0
     then rbind (if offset < length data \<and> (drop_bit 5 (data ! offset)) AND 7 = 6
                 then rbind (map_err Fail (read_tag data offset)) (\<lambda>(_, offset). Ok offset)
                 else Ok offset) (\<lambda>offset. decode_vkey_witnesses data offset)
     else rbind (map_err Fail (skip_item data offset)) (\<lambda>(_, offset). Ok (ws, offset)))"

definition decode_conway_single_witness_set :: "VKeyWitness list tx_reader" where
  "decode_conway_single_witness_set = read_witness_map conway_witness_entry"

text \<open>The array of a block; what follows it is not looked at.\<close>

definition read_block_array :: "'a tx_reader \<Rightarrow> bytes \<Rightarrow> ('a list, CodecError failure) result" where
  "read_block_array d data =
     rbind (map_err Fail (read_array_header data 0)) (\<lambda>(enc, offset).
     rbind (case enc of
              ContainerEncoding.Definite n _ \<Rightarrow> read_count (unat n) d data offset
            | ContainerEncoding.Indefinite \<Rightarrow> read_to_break (length data - offset) d data offset)
       (\<lambda>(vs, _). Ok vs))"

definition ledger_err :: "('a, CodecError failure) result \<Rightarrow> ('a, LedgerError failure) result" where
  "ledger_err = map_err (map_failure from_codec_error)"

definition decode_tx_bodies_from_block :: "bytes \<Rightarrow> ((bytes \<times> ShelleyTxBody) list, LedgerError failure) result" where
  "decode_tx_bodies_from_block tx_bodies = ledger_err (read_block_array (preserved decode_shelley_tx_body) tx_bodies)"

definition decode_witness_sets_from_block :: "bytes \<Rightarrow> (VKeyWitness list list, LedgerError failure) result" where
  "decode_witness_sets_from_block witness_sets = ledger_err (read_block_array decode_single_witness_set witness_sets)"

definition decode_conway_vkey_witness_sets :: "bytes \<Rightarrow> (VKeyWitness list list, LedgerError failure) result" where
  "decode_conway_vkey_witness_sets witness_sets_cbor =
     ledger_err (read_block_array decode_conway_single_witness_set witness_sets_cbor)"

definition decode_conway_vkey_witness_set_single :: "bytes \<Rightarrow> (VKeyWitness list, LedgerError failure) result" where
  "decode_conway_vkey_witness_set_single witness_set_cbor =
     rbind (ledger_err (decode_conway_single_witness_set witness_set_cbor 0)) (\<lambda>(ws, _). Ok ws)"

section \<open>Spending\<close>

text \<open>The loop over the inputs, the same in Byron and Shelley, the sum of the outputs and the insertion
  of the outputs.\<close>

fun consume_inputs :: "UTxOState \<Rightarrow> Coin \<Rightarrow> TxIn list \<Rightarrow> (UTxOState \<times> Coin, LedgerError) result" where
  "consume_inputs state consumed [] = Ok (state, consumed)"
| "consume_inputs state consumed (tx_in # ins) =
     rbind (utxo_delete state tx_in) (\<lambda>(new_state, tx_out).
     rbind (ok_or (Conservation consumed 0) (checked_add consumed (out_coin tx_out))) (\<lambda>consumed.
     consume_inputs new_state consumed ins))"

fun sum_outputs :: "Coin \<Rightarrow> Coin list \<Rightarrow> (Coin, LedgerError) result" where
  "sum_outputs acc [] = Ok acc"
| "sum_outputs acc (c # cs) =
     rbind (ok_or (Conservation 0 acc) (checked_add acc c)) (\<lambda>acc. sum_outputs acc cs)"

fun insert_outputs :: "Hash32 \<Rightarrow> nat \<Rightarrow> UTxOState \<Rightarrow> TxOut list \<Rightarrow> UTxOState" where
  "insert_outputs tx_id idx state [] = state"
| "insert_outputs tx_id idx state (out # outs) =
     insert_outputs tx_id (Suc idx) (utxo_insert state (TxIn tx_id (word_of_nat idx)) out) outs"

text \<open>The minimum of an output: a per-byte rule is refused, as soon as there is an output.\<close>

fun check_min_utxo :: "MinUtxoRule \<Rightarrow> Coin \<Rightarrow> Coin list \<Rightarrow> (unit, LedgerError) result" where
  "check_min_utxo rule consumed_coin [] = Ok ()"
| "check_min_utxo (LegacyAbsoluteMin m) consumed_coin (c # cs) =
     (if c < m \<and> m > 0 then Err (Conservation consumed_coin c)
      else check_min_utxo (LegacyAbsoluteMin m) consumed_coin cs)"
| "check_min_utxo (PerByte coins_per_byte) consumed_coin (c # cs) = Err (UnsupportedConwayMinUtxoRule coins_per_byte)"

definition shelley_min_fee :: "nat \<Rightarrow> ProtocolParameters \<Rightarrow> Coin" where
  "shelley_min_fee tx_size_bytes pparams =
     saturating_add (saturating_mul (ppar_min_fee_a pparams) (word_of_nat tx_size_bytes)) (ppar_min_fee_b pparams)"

section \<open>Byron\<close>

definition byron_min_fee :: "nat \<Rightarrow> ProtocolParameters \<Rightarrow> Coin" where
  "byron_min_fee tx_size_bytes pparams =
     saturating_add (saturating_mul (ppar_min_fee_a pparams) (word_of_nat tx_size_bytes)) (ppar_min_fee_b pparams)"

definition byron_tx_in :: "ByronTxIn \<Rightarrow> TxIn" where
  "byron_tx_in i = TxIn (bti_tx_hash i) (ucast (bti_index i))"

definition check_byron_duplicate_inputs :: "ByronTxBody \<Rightarrow> (unit, LedgerError) result" where
  "check_byron_duplicate_inputs body = check_dup [] (map byron_tx_in (btb_inputs body))"

definition resolve_byron_inputs :: "UTxOState \<Rightarrow> ByronTxBody \<Rightarrow> (UTxOState \<times> Coin, LedgerError) result" where
  "resolve_byron_inputs utxo_state body = consume_inputs utxo_state 0 (map byron_tx_in (btb_inputs body))"

definition compute_byron_outputs_value :: "ByronTxBody \<Rightarrow> (Coin, LedgerError) result" where
  "compute_byron_outputs_value body = sum_outputs 0 (map bto_coin (btb_outputs body))"

definition check_byron_output_validity :: "ByronTxBody \<Rightarrow> (unit, LedgerError) result" where
  "check_byron_output_validity body = reject_if (list_ex (\<lambda>out. bto_coin out = 0) (btb_outputs body)) (Conservation 0 0)"

fun verify_witnesses ::
  "('w \<Rightarrow> (bytes, CryptoError) result) \<Rightarrow> ('w \<Rightarrow> (bytes, CryptoError) result) \<Rightarrow>
   (bytes \<Rightarrow> bytes \<Rightarrow> (bool, CryptoError) result) \<Rightarrow> ('w \<Rightarrow> LedgerError) \<Rightarrow> 'w list \<Rightarrow> (unit, LedgerError) result" where
  "verify_witnesses key sig verify err [] = Ok ()"
| "verify_witnesses key sig verify err (w # ws) =
     rbind (map_err (\<lambda>_. err w) (key w)) (\<lambda>vk.
     rbind (map_err (\<lambda>_. err w) (sig w)) (\<lambda>s.
     rbind (map_err (\<lambda>_. err w) (verify vk s)) (\<lambda>valid.
     if \<not> valid then Err (err w) else verify_witnesses key sig verify err ws)))"

definition check_byron_witnesses ::
  "Crypto \<Rightarrow> (bytes \<Rightarrow> Hash28) \<Rightarrow> ByronTxBody \<Rightarrow> ByronWitness list \<Rightarrow> Hash32 \<Rightarrow> (unit, LedgerError) result" where
  "check_byron_witnesses c blake2b_224 body witnesses tx_body_hash =
     rbind (verify_witnesses (\<lambda>w. ByronExtendedVerificationKey_from_bytes (bw_xvk w))
              (\<lambda>w. Ed25519Signature_from_bytes (bw_signature w))
              (\<lambda>xvk sig. verify_byron_bootstrap c xvk tx_body_hash sig)
              (\<lambda>w. InvalidWitness (blake2b_224 (bw_xvk w)) WitnessAlgorithm.Bootstrap) witnesses) (\<lambda>_.
     reject_if (btb_inputs body \<noteq> [] \<and> witnesses = []) (MissingWitness (replicate 28 0) WitnessAlgorithm.Bootstrap))"

definition extract_byron_tx_body_wire :: "bytes \<Rightarrow> (bytes, CodecError) result" where
  "extract_byron_tx_body_wire tx_wire_bytes =
     rbind (read_array_header tx_wire_bytes 0) (\<lambda>(_, body_start).
     rbind (skip_item tx_wire_bytes body_start) (\<lambda>(_, body_end).
     Ok (take (body_end - body_start) (drop body_start tx_wire_bytes))))"

definition validate_byron_tx ::
  "Crypto \<Rightarrow> (bytes \<Rightarrow> Hash28) \<Rightarrow> ProtocolParameters \<Rightarrow> UTxOState \<Rightarrow> bytes \<times> ByronTx \<Rightarrow> (UTxOState, LedgerError) result" where
  "validate_byron_tx c blake2b_224 pparams utxo_state = (\<lambda>(tx_wire_bytes, tx).
     let body = btx_body tx in
     rbind (check_byron_duplicate_inputs body) (\<lambda>_.
     rbind (resolve_byron_inputs utxo_state body) (\<lambda>(new_utxo, consumed).
     rbind (compute_byron_outputs_value body) (\<lambda>produced.
     rbind (check_byron_output_validity body) (\<lambda>_.
     rbind (ok_or (Conservation consumed produced) (checked_sub consumed produced)) (\<lambda>fee.
     rbind (map_err from_codec_error (extract_byron_tx_body_wire tx_wire_bytes)) (\<lambda>tx_body_wire.
     let min_fee = byron_min_fee (length tx_wire_bytes) pparams in
     rbind (reject_if (fee < min_fee) (InsufficientFee min_fee fee)) (\<lambda>_.
     let tx_id = blake2b_256 c tx_body_wire in
     rbind (check_byron_witnesses c blake2b_224 body (btx_witnesses tx) tx_id) (\<lambda>_.
     Ok (insert_outputs tx_id 0 new_utxo
           (map (\<lambda>out. OutByron (bto_address out) (bto_coin out)) (btb_outputs body))))))))))))"

section \<open>Shelley\<close>

definition resolve_shelley_inputs :: "UTxOState \<Rightarrow> ShelleyTxBody \<Rightarrow> (UTxOState \<times> Coin, LedgerError) result" where
  "resolve_shelley_inputs utxo_state tx_body = consume_inputs utxo_state 0 (stb_inputs tx_body)"

definition compute_shelley_outputs_coin :: "ShelleyTxBody \<Rightarrow> (Coin, LedgerError) result" where
  "compute_shelley_outputs_coin tx_body = sum_outputs 0 (map sto_coin (stb_outputs tx_body))"

definition verify_shelley_witnesses ::
  "Crypto \<Rightarrow> (bytes \<Rightarrow> Hash28) \<Rightarrow> VKeyWitness list \<Rightarrow> Hash32 \<Rightarrow> (unit, LedgerError) result" where
  "verify_shelley_witnesses c blake2b_224 witnesses tx_body_hash =
     verify_witnesses (\<lambda>w. Ed25519VerificationKey_from_bytes (vkw_vkey w))
       (\<lambda>w. Ed25519Signature_from_bytes (vkw_signature w))
       (\<lambda>vk sig. verify_ed25519 c vk tx_body_hash sig)
       (\<lambda>w. InvalidWitness (blake2b_224 (vkw_vkey w)) WitnessAlgorithm.Ed25519) witnesses"

definition validate_shelley_tx ::
  "Crypto \<Rightarrow> (bytes \<Rightarrow> Hash28) \<Rightarrow> ProtocolParameters \<Rightarrow> SlotNo \<Rightarrow> UTxOState \<Rightarrow> (bytes \<times> ShelleyTxBody) \<times> VKeyWitness list \<Rightarrow>
   (UTxOState, LedgerError) result" where
  "validate_shelley_tx c blake2b_224 pparams current_slot utxo_state = (\<lambda>((tx_body_wire, tx_body), witnesses).
     rbind (reject_if (current_slot > stb_ttl tx_body) (ExpiredTransaction current_slot (stb_ttl tx_body))) (\<lambda>_.
     rbind (resolve_shelley_inputs utxo_state tx_body) (\<lambda>(new_utxo, consumed_coin).
     rbind (compute_shelley_outputs_coin tx_body) (\<lambda>produced_coin.
     rbind (check_min_utxo (ppar_min_utxo_rule pparams) consumed_coin (map sto_coin (stb_outputs tx_body))) (\<lambda>_.
     let fee = stb_fee tx_body; min_fee = shelley_min_fee (length tx_body_wire) pparams in
     rbind (reject_if (fee < min_fee) (InsufficientFee min_fee fee)) (\<lambda>_.
     rbind (ok_or (Conservation consumed_coin produced_coin) (checked_add produced_coin fee)) (\<lambda>produced_plus_fee.
     rbind (reject_if (consumed_coin \<noteq> produced_plus_fee) (Conservation consumed_coin produced_plus_fee)) (\<lambda>_.
     let tx_id = blake2b_256 c tx_body_wire in
     rbind (verify_shelley_witnesses c blake2b_224 witnesses tx_id) (\<lambda>_.
     Ok (insert_outputs tx_id 0 new_utxo
           (map (\<lambda>out. OutShelleyMary (sto_address out) (from_coin (sto_coin out))) (stb_outputs tx_body))))))))))))"

section \<open>Mary\<close>

definition mary_tx_out_to_value :: "MaryTxOut \<Rightarrow> Value" where
  "mary_tx_out_to_value out = \<lparr>val_coin = mto_coin out, multi_asset = bt_empty\<rparr>"

fun out_value :: "TxOut \<Rightarrow> Value" where
  "out_value (OutByron _ coin) = from_coin coin"
| "out_value (OutShelleyMary _ v) = v"
| "out_value (OutAlonzoPlus _ _ coin) = from_coin coin"

fun consume_values :: "UTxOState \<Rightarrow> Value \<Rightarrow> TxIn list \<Rightarrow> (UTxOState \<times> Value, LedgerError) result" where
  "consume_values state consumed [] = Ok (state, consumed)"
| "consume_values state consumed (tx_in # ins) =
     rbind (utxo_delete state tx_in) (\<lambda>(new_state, tx_out).
     rbind (value_add consumed (out_value tx_out)) (\<lambda>consumed. consume_values new_state consumed ins))"

definition resolve_mary_inputs :: "UTxOState \<Rightarrow> MaryTxBody \<Rightarrow> (UTxOState \<times> Value, LedgerError) result" where
  "resolve_mary_inputs utxo_state tx_body = consume_values utxo_state (from_coin 0) (mtb_inputs tx_body)"

fun sum_values :: "Value \<Rightarrow> Value list \<Rightarrow> (Value, LedgerError) result" where
  "sum_values acc [] = Ok acc"
| "sum_values acc (v # vs) = rbind (value_add acc v) (\<lambda>acc. sum_values acc vs)"

definition compute_mary_outputs_value :: "MaryTxBody \<Rightarrow> (Value, LedgerError) result" where
  "compute_mary_outputs_value tx_body = sum_values (from_coin 0) (map mary_tx_out_to_value (mtb_outputs tx_body))"

text \<open>The mint field is kept as bytes and not decoded: both branches of the source give the empty bundle.\<close>

definition parse_mint_field :: "MaryTxBody \<Rightarrow> (MultiAsset, LedgerError) result" where
  "parse_mint_field tx_body = (case mtb_mint tx_body of None \<Rightarrow> Ok bt_empty | Some _ \<Rightarrow> Ok bt_empty)"

definition check_mary_conservation :: "Value \<Rightarrow> Value \<Rightarrow> Coin \<Rightarrow> MultiAsset \<Rightarrow> (unit, LedgerError) result" where
  "check_mary_conservation consumed produced fee minted =
     rbind (ok_or (Conservation (val_coin consumed) (val_coin produced)) (checked_add (val_coin produced) fee)) (\<lambda>produced_plus_fee.
     rbind (reject_if (val_coin consumed \<noteq> produced_plus_fee) (Conservation (val_coin consumed) produced_plus_fee)) (\<lambda>_.
     rbind (value_add \<lparr>val_coin = 0, multi_asset = multi_asset consumed\<rparr> \<lparr>val_coin = 0, multi_asset = minted\<rparr>) (\<lambda>consumed_plus_minted.
     reject_if (multi_asset consumed_plus_minted \<noteq> multi_asset produced) (Conservation (val_coin consumed) produced_plus_fee))))"

definition validate_mary_tx ::
  "Crypto \<Rightarrow> ProtocolParameters \<Rightarrow> SlotNo \<Rightarrow> UTxOState \<Rightarrow> bytes \<times> MaryTxBody \<Rightarrow> (UTxOState, LedgerError) result" where
  "validate_mary_tx c pparams current_slot utxo_state = (\<lambda>(tx_body_wire, tx_body).
     rbind (case mtb_ttl tx_body of
              Some ttl \<Rightarrow> reject_if (current_slot > ttl) (ExpiredTransaction current_slot ttl)
            | None \<Rightarrow> Ok ()) (\<lambda>_.
     rbind (case mtb_validity_interval_start tx_body of
              Some start \<Rightarrow> reject_if (current_slot < start) (TransactionNotYetValid current_slot start)
            | None \<Rightarrow> Ok ()) (\<lambda>_.
     rbind (resolve_mary_inputs utxo_state tx_body) (\<lambda>(new_utxo, consumed_value).
     rbind (compute_mary_outputs_value tx_body) (\<lambda>produced_value.
     rbind (check_min_utxo (ppar_min_utxo_rule pparams) (val_coin consumed_value) (map mto_coin (mtb_outputs tx_body))) (\<lambda>_.
     rbind (parse_mint_field tx_body) (\<lambda>minted.
     let fee = mtb_fee tx_body; min_fee = shelley_min_fee (length tx_body_wire) pparams in
     rbind (reject_if (fee < min_fee) (InsufficientFee min_fee fee)) (\<lambda>_.
     rbind (check_mary_conservation consumed_value produced_value fee minted) (\<lambda>_.
     Ok (insert_outputs (blake2b_256 c tx_body_wire) 0 new_utxo
           (map (\<lambda>out. OutShelleyMary (mto_address out) (mary_tx_out_to_value out)) (mtb_outputs tx_body))))))))))))"

definition check_mint_policies :: "MultiAsset \<Rightarrow> (Hash28, unit) btree_map \<Rightarrow> (unit, LedgerError) result" where
  "check_mint_policies minted available_scripts =
     (case find (\<lambda>policy_id. \<not> bt_contains_key available_scripts policy_id) (bt_keys minted) of
        Some policy_id \<Rightarrow> Err (MintWithoutPolicy policy_id)
      | None \<Rightarrow> Ok ())"

section \<open>Blocks\<close>

fun apply_txs :: "(UTxOState \<Rightarrow> 'tx \<Rightarrow> (UTxOState, LedgerError) result) \<Rightarrow> UTxOState \<Rightarrow> 'tx list \<Rightarrow> (UTxOState, LedgerError) result" where
  "apply_txs rule state [] = Ok state"
| "apply_txs rule state (tx # txs) = rbind (rule state tx) (\<lambda>state. apply_txs rule state txs)"

text \<open>Both block rules keep everything but the outputs and reset certificates and governance.\<close>

definition with_utxo :: "LedgerState \<Rightarrow> UTxOState \<Rightarrow> LedgerState" where
  "with_utxo state utxo_state =
     state\<lparr>lst_utxo_state := utxo_state, lst_cert_state := CertAuthoritative CertState_new, lst_gov_state := GovAuthoritative None\<rparr>"

definition validate_byron_block ::
  "Crypto \<Rightarrow> (bytes \<Rightarrow> Hash28) \<Rightarrow> LedgerState \<Rightarrow> bytes \<Rightarrow> (LedgerState, LedgerError failure) result" where
  "validate_byron_block c blake2b_224 state body =
     rbind (ledger_err (decode_byron_block_txs body)) (\<lambda>txs.
     rbind (map_err Fail (apply_txs (validate_byron_tx c blake2b_224 (lst_protocol_params state)) (lst_utxo_state state) txs))
       (\<lambda>utxo_state. Ok (with_utxo state utxo_state)))"

text \<open>Transactions without a witness set of their own get the empty list.\<close>

definition pair_witnesses :: "'a list \<Rightarrow> VKeyWitness list list \<Rightarrow> ('a \<times> VKeyWitness list) list" where
  "pair_witnesses txs sets = map (\<lambda>i. (txs ! i, if i < length sets then sets ! i else [])) [0..<length txs]"

definition validate_shelley_block ::
  "Crypto \<Rightarrow> (bytes \<Rightarrow> Hash28) \<Rightarrow> LedgerState \<Rightarrow> bytes \<Rightarrow> bytes \<Rightarrow> SlotNo \<Rightarrow> (LedgerState, LedgerError failure) result" where
  "validate_shelley_block c blake2b_224 state tx_bodies witness_sets current_slot =
     rbind (decode_tx_bodies_from_block tx_bodies) (\<lambda>tx_bodies.
     rbind (decode_witness_sets_from_block witness_sets) (\<lambda>witness_sets.
     rbind (map_err Fail (apply_txs (validate_shelley_tx c blake2b_224 (lst_protocol_params state) current_slot)
              (lst_utxo_state state) (pair_witnesses tx_bodies witness_sets)))
       (\<lambda>utxo_state. Ok (with_utxo state utxo_state))))"

section \<open>Era translations\<close>

text \<open>A translation fails with the payload of \<^verbatim>\<open>LedgerError::Translation\<close>.\<close>

datatype TranslationFailureReason = InvalidSourceState | MissingGenesisParameter | UtxoConversionFailure

datatype TranslationError = TranslationError CardanoEra CardanoEra TranslationFailureReason

definition TOTAL_SUPPLY :: u64 where "TOTAL_SUPPLY = 45000000000000000"

definition initial_shelley_reserves :: "UTxOState \<Rightarrow> Coin" where
  "initial_shelley_reserves utxo_state =
     saturating_sub TOTAL_SUPPLY (sat_total (map out_coin (overlay_values utxo_state)))"

definition translate_byron_to_shelley :: "LedgerState \<Rightarrow> (LedgerState, TranslationError) result" where
  "translate_byron_to_shelley st =
     (if \<not> is_byron (lst_era st) then Err (TranslationError (lst_era st) Shelley InvalidSourceState)
      else Ok (st\<lparr>lst_epoch_state :=
                    \<lparr>est_epoch = est_epoch (lst_epoch_state st), est_slot = est_slot (lst_epoch_state st),
                     est_snapshots = SnapshotsAuthoritative SnapshotState_new,
                     est_reserves = initial_shelley_reserves (lst_utxo_state st), est_treasury = 0,
                     est_block_production = bt_empty, est_epoch_fees = 0, est_donation_pot = 0\<rparr>,
                  lst_protocol_params := ProtocolParameters_default, lst_era := Shelley,
                  lst_gov_state := GovAuthoritative None, lst_conway_deposit_params := None\<rparr>))"

text \<open>The later translations differ in the two eras only.\<close>

definition translate_step :: "CardanoEra \<Rightarrow> CardanoEra \<Rightarrow> LedgerState \<Rightarrow> (LedgerState, TranslationError) result" where
  "translate_step from_era to_era st =
     (if lst_era st \<noteq> from_era then Err (TranslationError (lst_era st) to_era InvalidSourceState)
      else Ok (st\<lparr>lst_era := to_era, lst_gov_state := GovAuthoritative None, lst_conway_deposit_params := None\<rparr>))"

definition translate_shelley_to_allegra :: "LedgerState \<Rightarrow> (LedgerState, TranslationError) result" where
  "translate_shelley_to_allegra = translate_step Shelley Allegra"

definition translate_allegra_to_mary :: "LedgerState \<Rightarrow> (LedgerState, TranslationError) result" where
  "translate_allegra_to_mary = translate_step Allegra Mary"

definition translate_mary_to_alonzo :: "LedgerState \<Rightarrow> (LedgerState, TranslationError) result" where
  "translate_mary_to_alonzo = translate_step Mary Alonzo"

definition translate_alonzo_to_babbage :: "LedgerState \<Rightarrow> (LedgerState, TranslationError) result" where
  "translate_alonzo_to_babbage = translate_step Alonzo Babbage"

definition translate_babbage_to_conway :: "LedgerState \<Rightarrow> (LedgerState, TranslationError) result" where
  "translate_babbage_to_conway = translate_step Babbage Conway"

definition translate_era :: "LedgerState \<Rightarrow> CardanoEra \<Rightarrow> (LedgerState, TranslationError) result" where
  "translate_era st target_era =
     (if is_byron (lst_era st) \<and> target_era = Shelley then translate_byron_to_shelley st
      else case (lst_era st, target_era) of
        (Shelley, Allegra) \<Rightarrow> translate_shelley_to_allegra st
      | (Allegra, Mary) \<Rightarrow> translate_allegra_to_mary st
      | (Mary, Alonzo) \<Rightarrow> translate_mary_to_alonzo st
      | (Alonzo, Babbage) \<Rightarrow> translate_alonzo_to_babbage st
      | (Babbage, Conway) \<Rightarrow> translate_babbage_to_conway st
      | (from_era, to_era) \<Rightarrow> Err (TranslationError from_era to_era InvalidSourceState))"

section \<open>Spending is exact\<close>

text \<open>The outputs that deleting a list of inputs gives back.\<close>

fun delete_all :: "UTxOState \<Rightarrow> TxIn list \<Rightarrow> (UTxOState \<times> TxOut list, LedgerError) result" where
  "delete_all s [] = Ok (s, [])"
| "delete_all s (i # ins) =
     rbind (utxo_delete s i) (\<lambda>(s, out). rbind (delete_all s ins) (\<lambda>(s, outs). Ok (s, out # outs)))"

definition coins_of :: "TxOut list \<Rightarrow> nat" where
  "coins_of outs = sum_list (map (\<lambda>out. unat (out_coin out)) outs)"

lemma consume_inputs_exact:
  "consume_inputs s c ins = Ok (s', c') \<Longrightarrow> \<exists>outs. delete_all s ins = Ok (s', outs) \<and> unat c' = unat c + coins_of outs"
proof (induction ins arbitrary: s c)
  case (Cons i ins)
  then obtain s1 out c1 where step: "utxo_delete s i = Ok (s1, out)" "checked_add c (out_coin out) = Some c1"
    "consume_inputs s1 c1 ins = Ok (s', c')" by (auto simp: result_simps)
  then obtain outs where "delete_all s1 ins = Ok (s', outs)" "unat c' = unat c1 + coins_of outs" using Cons.IH by blast
  then show ?case using step by (auto simp: checked_add_Some coins_of_def)
qed (simp add: coins_of_def)

lemma sum_outputs_exact: "sum_outputs c cs = Ok c' \<Longrightarrow> unat c' = unat c + sum_list (map unat cs)"
proof (induction c cs rule: sum_outputs.induct)
  case (2 c x cs)
  then show ?case by (auto simp: result_simps checked_add_Some)
qed simp

lemma out_coin_value: "out_coin out = val_coin (out_value out)"
  by (cases out) (simp_all add: from_coin_def)

lemma value_add_coin: "value_add a b = Ok v \<Longrightarrow> unat (val_coin v) = unat (val_coin a) + unat (val_coin b)"
  by (auto simp: value_add_def result_simps checked_add_Some)

lemma consume_values_exact:
  "consume_values s v ins = Ok (s', v') \<Longrightarrow>
   \<exists>outs. delete_all s ins = Ok (s', outs) \<and> unat (val_coin v') = unat (val_coin v) + coins_of outs"
proof (induction ins arbitrary: s v)
  case (Cons i ins)
  then obtain s1 out v1 where step: "utxo_delete s i = Ok (s1, out)" "value_add v (out_value out) = Ok v1"
    "consume_values s1 v1 ins = Ok (s', v')" by (auto simp: result_simps)
  then obtain outs where "delete_all s1 ins = Ok (s', outs)" "unat (val_coin v') = unat (val_coin v1) + coins_of outs" using Cons.IH by blast
  then show ?case using step value_add_coin [OF step(2)] by (auto simp: coins_of_def out_coin_value)
qed (simp add: coins_of_def)

lemma sum_values_exact: "sum_values v vs = Ok v' \<Longrightarrow> unat (val_coin v') = unat (val_coin v) + sum_list (map (\<lambda>v. unat (val_coin v)) vs)"
proof (induction v vs rule: sum_values.induct)
  case (2 v x vs)
  then show ?case by (auto simp: result_simps dest: value_add_coin)
qed simp

text \<open>Deleted inputs were there, each once, and nothing else changes.\<close>

lemma delete_all_exact:
  assumes "delete_all s ins = Ok (s', outs)" "overlay_wf s"
  shows "overlay_wf s' \<and> distinct ins \<and> map Some outs = map (bt_get (to_map s)) ins \<and>
    (\<forall>k. bt_get (to_map s') k = (if k \<in> set ins then None else bt_get (to_map s) k)) \<and>
    total_coin s = total_coin s' + coins_of outs"
  using assms
proof (induction ins arbitrary: s outs)
  case (Cons i ins)
  then obtain s1 out outs' where step: "utxo_delete s i = Ok (s1, out)" "delete_all s1 ins = Ok (s', outs')" "outs = out # outs'"
    by (auto simp: result_simps)
  note del = utxo.del_OkE [OF step(1) Cons.prems(2)] utxo.del_total [OF step(1) Cons.prems(2), of "\<lambda>out. unat (out_coin out)"]
  have wf: "bt_wf (to_map s)" using Cons.prems(2) by (rule bt_wf_to_map)
  have ih: "overlay_wf s'" "distinct ins" "map Some outs' = map (bt_get (to_map s1)) ins"
    "\<forall>k. bt_get (to_map s') k = (if k \<in> set ins then None else bt_get (to_map s1) k)" "total_coin s1 = total_coin s' + coins_of outs'"
    using Cons.IH [OF step(2) del(1)] by blast+
  have get: "bt_get (to_map s1) k = (if k = i then None else bt_get (to_map s) k)" for k
    using del(2) wf by (simp add: bt_get_remove)
  have "i \<notin> set ins"
  proof
    assume "i \<in> set ins"
    then have "bt_get (to_map s1) i \<in> set (map Some outs')" using ih(3) by (metis (no_types) image_eqI image_set)
    then show False using get by auto
  qed
  moreover from this have "map (bt_get (to_map s1)) ins = map (bt_get (to_map s)) ins" using get by auto
  moreover have "total_coin s = total_coin s' + coins_of (out # outs')"
    using del(1,4) ih(5) Cons.prems(2) by (simp add: total_coin_total coins_of_def)
  ultimately show ?case using ih del(3) get step(3) by auto
qed (simp add: coins_of_def)

lemma word16_index: "i < 65536 \<Longrightarrow> j < 65536 \<Longrightarrow> (word_of_nat i :: u16) = word_of_nat j \<longleftrightarrow> i = j"
  by (simp add: word_unat_eq_iff unat_of_nat)

lemma insert_outputs_exact:
  assumes "overlay_wf s" "n + length outs \<le> 65536" "\<forall>j < 65536. n \<le> j \<longrightarrow> bt_get (to_map s) (TxIn tid (word_of_nat j)) = None"
  shows "overlay_wf (insert_outputs tid n s outs) \<and>
    total_coin (insert_outputs tid n s outs) = total_coin s + coins_of outs \<and>
    (\<forall>k. tx_hash k \<noteq> tid \<longrightarrow> bt_get (to_map (insert_outputs tid n s outs)) k = bt_get (to_map s) k)"
  using assms
proof (induction outs arbitrary: n s)
  case (Cons out outs)
  let ?k = "TxIn tid (word_of_nat n)"
  have wf: "overlay_wf (utxo_insert s ?k out)" using Cons.prems(1) by (rule utxo.ins_inv)
  have get: "bt_get (to_map (utxo_insert s ?k out)) k = (if k = ?k then Some out else bt_get (to_map s) k)" for k
    using Cons.prems(1) by (simp add: utxo.ins_contents bt_get_insert bt_wf_to_map)
  have "total_coin (utxo_insert s ?k out) = unat (out_coin out) + total_coin s"
    using utxo.ins_total [of s ?k "\<lambda>out. unat (out_coin out)" out] Cons.prems wf by (simp add: total_coin_total)
  moreover have "\<forall>j < 65536. Suc n \<le> j \<longrightarrow> bt_get (to_map (utxo_insert s ?k out)) (TxIn tid (word_of_nat j)) = None"
    using Cons.prems(2,3) by (auto simp: get word16_index)
  ultimately show ?case
    using Cons.IH [OF wf] Cons.prems(2) by (auto simp: get coins_of_def)
qed (simp add: coins_of_def)

text \<open>
  What the three transaction rules have in common: the inputs are deleted, the outputs inserted under
  the identifier of the transaction, and the difference is a fee that the rule allows.
\<close>

locale utxo_rule =
  fixes rule :: "UTxOState \<Rightarrow> 'tx \<Rightarrow> (UTxOState, LedgerError) result"
    and spends :: "'tx \<Rightarrow> TxIn list" and tid :: "'tx \<Rightarrow> Hash32" and creates :: "'tx \<Rightarrow> TxOut list"
    and fee_ok :: "'tx \<Rightarrow> nat \<Rightarrow> bool"
  assumes rule_effect: "rule s tx = Ok s' \<Longrightarrow> \<exists>s1 outs fee. delete_all s (spends tx) = Ok (s1, outs) \<and>
    s' = insert_outputs (tid tx) 0 s1 (creates tx) \<and> fee_ok tx fee \<and> coins_of outs = coins_of (creates tx) + fee"
begin

definition fresh :: "UTxOState \<Rightarrow> 'tx \<Rightarrow> bool" where
  "fresh s tx \<longleftrightarrow> length (creates tx) \<le> 65536 \<and> (\<forall>k. tx_hash k = tid tx \<longrightarrow> bt_get (to_map s) k = None)"

lemma tx_conserves:
  assumes "rule s tx = Ok s'" "overlay_wf s" "fresh s tx"
  shows "\<exists>fee. fee_ok tx fee \<and> total_coin s = total_coin s' + fee \<and> overlay_wf s' \<and> distinct (spends tx) \<and>
    (\<forall>i \<in> set (spends tx). bt_get (to_map s) i \<noteq> None) \<and>
    (\<forall>k. tx_hash k \<noteq> tid tx \<longrightarrow> bt_get (to_map s') k = (if k \<in> set (spends tx) then None else bt_get (to_map s) k))"
proof -
  obtain s1 outs fee where eff: "delete_all s (spends tx) = Ok (s1, outs)" "s' = insert_outputs (tid tx) 0 s1 (creates tx)"
    "fee_ok tx fee" "coins_of outs = coins_of (creates tx) + fee" using rule_effect [OF assms(1)] by blast
  have del: "overlay_wf s1" "distinct (spends tx)" "map Some outs = map (bt_get (to_map s)) (spends tx)"
    "\<forall>k. bt_get (to_map s1) k = (if k \<in> set (spends tx) then None else bt_get (to_map s) k)" "total_coin s = total_coin s1 + coins_of outs"
    using delete_all_exact [OF eff(1) assms(2)] by blast+
  have "\<forall>i \<in> set (spends tx). bt_get (to_map s) i \<noteq> None"
    using del(3) by (metis (no_types, lifting) image_iff image_set list.set_map option.distinct(1))
  moreover have "\<forall>j < 65536. 0 \<le> j \<longrightarrow> bt_get (to_map s1) (TxIn (tid tx) (word_of_nat j)) = None"
    using del(4) assms(3) by (simp add: fresh_def)
  ultimately show ?thesis
    using insert_outputs_exact [OF del(1), of 0 "creates tx" "tid tx"] assms(3) eff(2-4) del
    by (intro exI [of _ fee]) (auto simp: fresh_def)
qed

lemma txs_conserve:
  assumes "apply_txs rule s txs = Ok s'" "overlay_wf s" "\<forall>tx \<in> set txs. fresh s tx" "distinct (map tid txs)"
  shows "\<exists>fees. list_all2 fee_ok txs fees \<and> total_coin s = total_coin s' + sum_list fees \<and> overlay_wf s'"
  using assms
proof (induction txs arbitrary: s)
  case (Cons tx txs)
  then obtain s1 where step: "rule s tx = Ok s1" "apply_txs rule s1 txs = Ok s'" by (auto simp: result_simps)
  obtain fee where fee: "fee_ok tx fee" "total_coin s = total_coin s1 + fee" "overlay_wf s1"
    "\<forall>k. tx_hash k \<noteq> tid tx \<longrightarrow> bt_get (to_map s1) k = (if k \<in> set (spends tx) then None else bt_get (to_map s) k)"
    using tx_conserves [OF step(1) Cons.prems(2)] Cons.prems(3) by force
  have "fresh s1 t" if t: "t \<in> set txs" for t
  proof -
    have "tid t \<noteq> tid tx" using t Cons.prems(4) by (metis distinct.simps(2) image_eqI list.simps(9) set_map)
    then show ?thesis using t fee(4) Cons.prems(3) by (simp add: fresh_def)
  qed
  then obtain fees where "list_all2 fee_ok txs fees" "total_coin s1 = total_coin s' + sum_list fees" "overlay_wf s'"
    using Cons.IH [OF step(2) fee(3)] Cons.prems(4) by fastforce
  then show ?case using fee(1,2) by (intro exI [of _ "fee # fees"]) simp
qed simp

end

section \<open>The rules conserve ada\<close>

definition byron_fee_ok :: "ProtocolParameters \<Rightarrow> bytes \<times> ByronTx \<Rightarrow> nat \<Rightarrow> bool" where
  "byron_fee_ok pparams tx fee \<longleftrightarrow> unat (byron_min_fee (length (fst tx)) pparams) \<le> fee"

definition byron_tid :: "Crypto \<Rightarrow> bytes \<times> ByronTx \<Rightarrow> Hash32" where
  "byron_tid c tx = (case extract_byron_tx_body_wire (fst tx) of Ok wire \<Rightarrow> blake2b_256 c wire | Err _ \<Rightarrow> [])"

interpretation byron: utxo_rule "validate_byron_tx c blake2b_224 pparams"
  "\<lambda>tx. map byron_tx_in (btb_inputs (btx_body (snd tx)))" "byron_tid c"
  "\<lambda>tx. map (\<lambda>out. OutByron (bto_address out) (bto_coin out)) (btb_outputs (btx_body (snd tx)))"
  "byron_fee_ok pparams" for c blake2b_224 pparams
proof
  fix s :: UTxOState and tx s'
  assume ok: "validate_byron_tx c blake2b_224 pparams s tx = Ok s'"
  obtain wire t where tx: "tx = (wire, t)" by fastforce
  from ok obtain s1 consumed produced fee body_wire where steps:
    "resolve_byron_inputs s (btx_body t) = Ok (s1, consumed)" "compute_byron_outputs_value (btx_body t) = Ok produced"
    "checked_sub consumed produced = Some fee" "extract_byron_tx_body_wire wire = Ok body_wire"
    "\<not> fee < byron_min_fee (length wire) pparams"
    "s' = insert_outputs (blake2b_256 c body_wire) 0 s1 (map (\<lambda>out. OutByron (bto_address out) (bto_coin out)) (btb_outputs (btx_body t)))"
    by (auto simp: validate_byron_tx_def tx Let_def result_simps)
  obtain outs where "delete_all s (map byron_tx_in (btb_inputs (btx_body t))) = Ok (s1, outs)" "unat consumed = coins_of outs"
    using consume_inputs_exact [OF steps(1) [unfolded resolve_byron_inputs_def]] by auto
  moreover have "unat produced = coins_of (map (\<lambda>out. OutByron (bto_address out) (bto_coin out)) (btb_outputs (btx_body t)))"
    using sum_outputs_exact [of 0] steps(2) by (simp add: compute_byron_outputs_value_def coins_of_def comp_def)
  moreover have "unat consumed = unat produced + unat fee" using steps(3) by (auto simp: checked_sub_Some)
  ultimately show "\<exists>s1 outs fee. delete_all s (map byron_tx_in (btb_inputs (btx_body (snd tx)))) = Ok (s1, outs) \<and>
      s' = insert_outputs (byron_tid c tx) 0 s1 (map (\<lambda>out. OutByron (bto_address out) (bto_coin out)) (btb_outputs (btx_body (snd tx)))) \<and>
      byron_fee_ok pparams tx fee \<and>
      coins_of outs = coins_of (map (\<lambda>out. OutByron (bto_address out) (bto_coin out)) (btb_outputs (btx_body (snd tx)))) + fee"
    using steps(4-6) by (intro exI [of _ s1] exI [of _ outs] exI [of _ "unat fee"])
      (simp add: tx byron_tid_def byron_fee_ok_def word_less_nat_alt)
qed

definition declared_fee_ok :: "ProtocolParameters \<Rightarrow> nat \<Rightarrow> Coin \<Rightarrow> nat \<Rightarrow> bool" where
  "declared_fee_ok pparams bytes_len declared fee \<longleftrightarrow> fee = unat declared \<and> unat (shelley_min_fee bytes_len pparams) \<le> fee"

interpretation shelley: utxo_rule "validate_shelley_tx c blake2b_224 pparams slot"
  "\<lambda>tx. stb_inputs (snd (fst tx))" "\<lambda>tx. blake2b_256 c (fst (fst tx))"
  "\<lambda>tx. map (\<lambda>out. OutShelleyMary (sto_address out) (from_coin (sto_coin out))) (stb_outputs (snd (fst tx)))"
  "\<lambda>tx. declared_fee_ok pparams (length (fst (fst tx))) (stb_fee (snd (fst tx)))" for c blake2b_224 pparams slot
proof
  fix s :: UTxOState and tx s'
  assume ok: "validate_shelley_tx c blake2b_224 pparams slot s tx = Ok s'"
  obtain wire t ws where tx: "tx = ((wire, t), ws)" by (metis prod.exhaust)
  from ok obtain s1 consumed produced where steps:
    "resolve_shelley_inputs s t = Ok (s1, consumed)" "compute_shelley_outputs_coin t = Ok produced"
    "\<not> stb_fee t < shelley_min_fee (length wire) pparams" "checked_add produced (stb_fee t) = Some consumed"
    "s' = insert_outputs (blake2b_256 c wire) 0 s1 (map (\<lambda>out. OutShelleyMary (sto_address out) (from_coin (sto_coin out))) (stb_outputs t))"
    by (auto simp: validate_shelley_tx_def tx Let_def result_simps)
  obtain outs where "delete_all s (stb_inputs t) = Ok (s1, outs)" "unat consumed = coins_of outs"
    using consume_inputs_exact [OF steps(1) [unfolded resolve_shelley_inputs_def]] by auto
  moreover have "unat produced = coins_of (map (\<lambda>out. OutShelleyMary (sto_address out) (from_coin (sto_coin out))) (stb_outputs t))"
    using sum_outputs_exact [of 0] steps(2) by (simp add: compute_shelley_outputs_coin_def coins_of_def comp_def from_coin_def)
  moreover have "unat consumed = unat produced + unat (stb_fee t)" using steps(4) by (auto simp: checked_add_Some)
  ultimately show "\<exists>s1 outs fee. delete_all s (stb_inputs (snd (fst tx))) = Ok (s1, outs) \<and>
      s' = insert_outputs (blake2b_256 c (fst (fst tx))) 0 s1
        (map (\<lambda>out. OutShelleyMary (sto_address out) (from_coin (sto_coin out))) (stb_outputs (snd (fst tx)))) \<and>
      declared_fee_ok pparams (length (fst (fst tx))) (stb_fee (snd (fst tx))) fee \<and>
      coins_of outs = coins_of (map (\<lambda>out. OutShelleyMary (sto_address out) (from_coin (sto_coin out))) (stb_outputs (snd (fst tx)))) + fee"
    using steps(3,5) by (intro exI [of _ s1] exI [of _ outs] exI [of _ "unat (stb_fee t)"])
      (simp add: tx declared_fee_ok_def word_less_nat_alt)
qed

interpretation mary: utxo_rule "validate_mary_tx c pparams slot"
  "\<lambda>tx. mtb_inputs (snd tx)" "\<lambda>tx. blake2b_256 c (fst tx)"
  "\<lambda>tx. map (\<lambda>out. OutShelleyMary (mto_address out) (mary_tx_out_to_value out)) (mtb_outputs (snd tx))"
  "\<lambda>tx. declared_fee_ok pparams (length (fst tx)) (mtb_fee (snd tx))" for c pparams slot
proof
  fix s :: UTxOState and tx s'
  assume ok: "validate_mary_tx c pparams slot s tx = Ok s'"
  obtain wire t where tx: "tx = (wire, t)" by fastforce
  from ok obtain s1 consumed produced minted where steps:
    "resolve_mary_inputs s t = Ok (s1, consumed)" "compute_mary_outputs_value t = Ok produced"
    "\<not> mtb_fee t < shelley_min_fee (length wire) pparams" "check_mary_conservation consumed produced (mtb_fee t) minted = Ok ()"
    "s' = insert_outputs (blake2b_256 c wire) 0 s1 (map (\<lambda>out. OutShelleyMary (mto_address out) (mary_tx_out_to_value out)) (mtb_outputs t))"
    by (auto simp: validate_mary_tx_def tx Let_def result_simps)
  obtain outs where "delete_all s (mtb_inputs t) = Ok (s1, outs)" "unat (val_coin consumed) = coins_of outs"
    using consume_values_exact [OF steps(1) [unfolded resolve_mary_inputs_def]] by (auto simp: from_coin_def)
  moreover have "unat (val_coin produced) = coins_of (map (\<lambda>out. OutShelleyMary (mto_address out) (mary_tx_out_to_value out)) (mtb_outputs t))"
    using sum_values_exact [of "from_coin 0"] steps(2) by (simp add: compute_mary_outputs_value_def coins_of_def comp_def from_coin_def)
  moreover have "unat (val_coin consumed) = unat (val_coin produced) + unat (mtb_fee t)"
    using steps(4) by (auto simp: check_mary_conservation_def result_simps checked_add_Some)
  ultimately show "\<exists>s1 outs fee. delete_all s (mtb_inputs (snd tx)) = Ok (s1, outs) \<and>
      s' = insert_outputs (blake2b_256 c (fst tx)) 0 s1
        (map (\<lambda>out. OutShelleyMary (mto_address out) (mary_tx_out_to_value out)) (mtb_outputs (snd tx))) \<and>
      declared_fee_ok pparams (length (fst tx)) (mtb_fee (snd tx)) fee \<and>
      coins_of outs = coins_of (map (\<lambda>out. OutShelleyMary (mto_address out) (mary_tx_out_to_value out)) (mtb_outputs (snd tx))) + fee"
    using steps(3,5) by (intro exI [of _ s1] exI [of _ outs] exI [of _ "unat (mtb_fee t)"])
      (simp add: tx declared_fee_ok_def word_less_nat_alt)
qed

text \<open>A block of Byron transactions: what the outputs lose is fees, none below the minimum.\<close>

theorem byron_block_conserves_ada:
  assumes "validate_byron_block c blake2b_224 st body = Ok st'" "decode_byron_block_txs body = Ok txs" "overlay_wf (lst_utxo_state st)"
    "\<forall>tx \<in> set txs. byron.fresh c (lst_utxo_state st) tx" "distinct (map (byron_tid c) txs)"
  shows "\<exists>fees. list_all2 (byron_fee_ok (lst_protocol_params st)) txs fees \<and>
    total_coin (lst_utxo_state st) = total_coin (lst_utxo_state st') + sum_list fees"
proof -
  obtain u where "apply_txs (validate_byron_tx c blake2b_224 (lst_protocol_params st)) (lst_utxo_state st) txs = Ok u" "lst_utxo_state st' = u"
    using assms(1,2) by (auto simp: validate_byron_block_def ledger_err_def with_utxo_def result_simps)
  then show ?thesis using byron.txs_conserve [of c blake2b_224 _ "lst_utxo_state st" txs u] assms(3-5) by blast
qed

lemma fst_pair_witnesses: "map fst (pair_witnesses txs sets) = txs"
  by (simp add: pair_witnesses_def comp_def map_nth)

lemma declared_fees:
  "list_all2 (\<lambda>tx. declared_fee_ok pparams (len tx) (declared tx)) txs fees \<Longrightarrow>
   fees = map (\<lambda>tx. unat (declared tx)) txs \<and> (\<forall>tx \<in> set txs. shelley_min_fee (len tx) pparams \<le> declared tx)"
  by (induction rule: list_all2_induct) (simp_all add: declared_fee_ok_def word_le_nat_alt)

text \<open>
  C21. A Shelley block that is accepted takes from the unspent outputs exactly the fees that its transactions
  declare, none of which is below the minimum for the size of the body. The transactions have to have distinct
  identifiers that no unspent output carries, and at most 65536 outputs each: a longer list would wrap the
  16-bit index.
\<close>

theorem shelley_block_conserves_ada:
  assumes "validate_shelley_block c blake2b_224 st bodies sets slot = Ok st'" "decode_tx_bodies_from_block bodies = Ok txs"
    and "overlay_wf (lst_utxo_state st)" "distinct (map (\<lambda>(wire, _). blake2b_256 c wire) txs)"
    and "\<forall>(wire, body) \<in> set txs. length (stb_outputs body) \<le> 65536 \<and>
      (\<forall>k. tx_hash k = blake2b_256 c wire \<longrightarrow> bt_get (to_map (lst_utxo_state st)) k = None)"
  shows "total_coin (lst_utxo_state st) = total_coin (lst_utxo_state st') + sum_list (map (\<lambda>(_, body). unat (stb_fee body)) txs) \<and>
    (\<forall>(wire, body) \<in> set txs. shelley_min_fee (length wire) (lst_protocol_params st) \<le> stb_fee body) \<and>
    overlay_wf (lst_utxo_state st')"
proof -
  from assms(1,2) obtain ws where ok: "apply_txs (validate_shelley_tx c blake2b_224 (lst_protocol_params st) slot) (lst_utxo_state st)
      (pair_witnesses txs ws) = Ok (lst_utxo_state st')"
    by (auto simp: validate_shelley_block_def with_utxo_def result_simps)
  let ?txs = "pair_witnesses txs ws"
  have t: "set txs = fst ` set ?txs" by (metis fst_pair_witnesses set_map)
  have "map (\<lambda>tx. blake2b_256 c (fst (fst tx))) ?txs = map (\<lambda>t. blake2b_256 c (fst t)) (map fst ?txs)" by (simp add: comp_def)
  then have d: "distinct (map (\<lambda>tx. blake2b_256 c (fst (fst tx))) ?txs)"
    using assms(4) by (simp add: fst_pair_witnesses case_prod_unfold)
  have "\<forall>tx \<in> set ?txs. shelley.fresh c (lst_utxo_state st) tx"
    using assms(5) by (auto simp: t shelley.fresh_def case_prod_unfold)
  from shelley.txs_conserve [OF ok assms(3) this d] obtain fees where
    "list_all2 (\<lambda>tx. declared_fee_ok (lst_protocol_params st) (length (fst (fst tx))) (stb_fee (snd (fst tx)))) ?txs fees"
    and sum: "total_coin (lst_utxo_state st) = total_coin (lst_utxo_state st') + sum_list fees" "overlay_wf (lst_utxo_state st')"
    by blast
  from declared_fees [OF this(1)] have f: "fees = map (\<lambda>tx. unat (stb_fee (snd (fst tx)))) ?txs"
    "\<forall>tx \<in> set ?txs. shelley_min_fee (length (fst (fst tx))) (lst_protocol_params st) \<le> stb_fee (snd (fst tx))" by auto
  have "fees = map (\<lambda>t. unat (stb_fee (snd t))) (map fst ?txs)" using f(1) by (simp add: comp_def)
  then show ?thesis using f(2) sum by (auto simp: t fst_pair_witnesses case_prod_unfold)
qed

text \<open>The block of one transaction that spends an output of 15 lovelace into one of 10, with a fee of 5 and no witness.\<close>

lemma reads_preserved: "reads d bs v \<Longrightarrow> reads (preserved d) bs (bs, v)"
  by (simp add: reads_def preserved_def)

lemma written_bodies_decode:
  assumes "length bodies < 2 ^ 64" "\<forall>b \<in> set bodies. shelley_body_ok b"
  shows "decode_tx_bodies_from_block (array_bytes (word_of_nat (length bodies)) @ concat (map (\<lambda>b. encode_shelley_tx_body b []) bodies)) =
    Ok (map (\<lambda>b. (encode_shelley_tx_body b [], b)) bodies)"
proof -
  have "reads (read_count (length bodies) (preserved decode_shelley_tx_body))
      (concat (map (\<lambda>b. encode_shelley_tx_body b []) bodies)) (map (\<lambda>b. (encode_shelley_tx_body b [], b)) bodies)"
    using assms(2) by (intro reads_count_map reads_preserved reads_shelley_body) simp
  then show ?thesis
    using reads_at [OF reads_written(2), of "[]"] reads_at [of "read_count (length bodies) (preserved decode_shelley_tx_body)"
        _ _ "array_bytes (word_of_nat (length bodies))" "[]"] assms(1)
    by (simp add: decode_tx_bodies_from_block_def read_block_array_def ledger_err_def unat_count)
qed

definition sample_shelley_tx :: ShelleyTxBody where
  "sample_shelley_tx = \<lparr>stb_inputs = [TxIn (replicate 32 1) 0], stb_outputs = [\<lparr>sto_address = [0x61], sto_coin = 10\<rparr>],
     stb_fee = 5, stb_ttl = 100, stb_certs = None, stb_withdrawals = None, stb_update = None, stb_metadata_hash = None\<rparr>"

definition sample_tx_bodies :: bytes where
  "sample_tx_bodies = array_bytes 1 @ encode_shelley_tx_body sample_shelley_tx []"

definition sample_hashes :: Crypto where
  "sample_hashes = \<lparr>cr_kes = sample_crypto, cr_vrf_verify = (\<lambda>_ _ _. None)\<rparr>"

definition sample_utxo :: UTxOState where
  "sample_utxo = utxo_insert overlay_new (TxIn (replicate 32 1) 0) (OutByron [] 15)"

definition sample_shelley_ledger :: LedgerState where
  "sample_shelley_ledger = sample_boundary\<lparr>lst_utxo_state := sample_utxo,
     lst_protocol_params := ProtocolParameters_default\<lparr>ppar_min_fee_a := 0, ppar_min_fee_b := 2, ppar_min_utxo_rule := LegacyAbsoluteMin 1\<rparr>\<rparr>"

lemma sample_bodies_decode:
  "decode_tx_bodies_from_block sample_tx_bodies = Ok [(encode_shelley_tx_body sample_shelley_tx [], sample_shelley_tx)]"
proof -
  have "shelley_body_ok sample_shelley_tx"
    by (simp add: sample_shelley_tx_def shelley_body_ok_def inputs_ok_def set_wf_def outputs_ok_def opt_ok_def)
  then show ?thesis using written_bodies_decode [of "[sample_shelley_tx]"] by (simp add: sample_tx_bodies_def)
qed

lemma sample_sets_decode: "decode_witness_sets_from_block [0x80] = Ok []"
  by code_simp

lemma sample_utxo_facts:
  "overlay_wf sample_utxo" "to_map sample_utxo = [(TxIn (replicate 32 1) 0, OutByron [] 15)]" "total_coin sample_utxo = 15"
proof -
  have e: "to_map overlay_new = []" by code_simp
  show wf: "overlay_wf sample_utxo" by (simp add: sample_utxo_def utxo.ins_inv overlay_wf_new)
  show "to_map sample_utxo = [(TxIn (replicate 32 1) 0, OutByron [] 15)]"
    by (simp add: sample_utxo_def utxo.ins_contents overlay_wf_new e)
  then show "total_coin sample_utxo = 15" using wf by (simp add: total_coin_total utxo.total_def)
qed

lemma sample_tx_id: "blake2b_256 sample_hashes (encode_shelley_tx_body sample_shelley_tx []) \<noteq> replicate 32 1"
proof
  assume "blake2b_256 sample_hashes (encode_shelley_tx_body sample_shelley_tx []) = replicate 32 1"
  then have "hd (encode_shelley_tx_body sample_shelley_tx []) = 1"
    by (cases "encode_shelley_tx_body sample_shelley_tx []") (auto simp: sample_hashes_def sample_crypto_def numeral_eq_Suc)
  then show False by code_simp
qed

lemma sample_shelley_accepted:
  "\<exists>st'. validate_shelley_block sample_hashes blake2b_224 sample_shelley_ledger sample_tx_bodies [0x80] 50 = Ok st'"
proof -
  let ?k = "TxIn (replicate 32 1) 0"
  have "bt_get (to_map sample_utxo) ?k = Some (OutByron [] 15)" by (simp add: sample_utxo_facts bt_get_def)
  then obtain s1 where "utxo_delete sample_utxo ?k = Ok (s1, OutByron [] 15)"
    using utxo.del_present [OF sample_utxo_facts(1)] by blast
  then show ?thesis
    by (simp add: validate_shelley_block_def sample_bodies_decode sample_sets_decode pair_witnesses_def validate_shelley_tx_def
        sample_shelley_ledger_def sample_shelley_tx_def resolve_shelley_inputs_def compute_shelley_outputs_coin_def Let_def
        verify_shelley_witnesses_def shelley_min_fee_def result_simps checked_add_def saturating_add_def saturating_mul_def)
qed

theorem shelley_block_conserves_ada_witness:
  "\<exists>st'. validate_shelley_block sample_hashes (\<lambda>_. []) sample_shelley_ledger sample_tx_bodies [0x80] 50 = Ok st' \<and>
     total_coin (lst_utxo_state st') = 10"
proof -
  obtain st' where ok: "validate_shelley_block sample_hashes (\<lambda>_. []) sample_shelley_ledger sample_tx_bodies [0x80] 50 = Ok st'"
    using sample_shelley_accepted by blast
  have u: "lst_utxo_state sample_shelley_ledger = sample_utxo" by (simp add: sample_shelley_ledger_def)
  have "bt_get (to_map sample_utxo) k = None" if "tx_hash k = blake2b_256 sample_hashes (encode_shelley_tx_body sample_shelley_tx [])" for k
    using that sample_tx_id by (cases k) (auto simp: sample_utxo_facts bt_get_def)
  then have "total_coin (lst_utxo_state st') = 10"
    using shelley_block_conserves_ada [OF ok sample_bodies_decode] u sample_utxo_facts by (simp add: sample_shelley_tx_def)
  then show ?thesis using ok by blast
qed

text \<open>
  C23. A Shelley transaction is accepted with some list of witnesses exactly when it is accepted with none, and
  with the same result: each witness that is present is verified, but no input asks for one.
\<close>

theorem shelley_witnesses_optional:
  "(\<exists>witnesses. validate_shelley_tx c blake2b_224 pparams slot s ((wire, body), witnesses) = Ok s') \<longleftrightarrow>
   validate_shelley_tx c blake2b_224 pparams slot s ((wire, body), []) = Ok s'"
proof
  assume "\<exists>witnesses. validate_shelley_tx c blake2b_224 pparams slot s ((wire, body), witnesses) = Ok s'"
  then show "validate_shelley_tx c blake2b_224 pparams slot s ((wire, body), []) = Ok s'"
    by (auto simp: validate_shelley_tx_def Let_def result_simps verify_shelley_witnesses_def)
qed blast

lemma sum_values_amount:
  assumes "sum_values v vs = Ok v'" "value_wf v" "\<forall>w \<in> set vs. value_wf w"
  shows "value_wf v'" "amount v' x = amount v x + sum_list (map (\<lambda>w. amount w x) vs)"
  using assms
proof (induction vs arbitrary: v)
  case (Cons w vs)
  {
    case 1
    then obtain u where u: "value_add v w = Ok u" "sum_values u vs = Ok v'" by (auto simp: result_simps)
    then show ?case using Cons.IH(1) [OF u(2)] value_add_Ok(1) [OF u(1)] 1 by (auto intro: canonical_imp_wf)
  next
    case 2
    then obtain u where u: "value_add v w = Ok u" "sum_values u vs = Ok v'" by (auto simp: result_simps)
    then show ?case using Cons.IH(2) [OF u(2)] value_add_Ok(1,2) [OF u(1)] 2
      by (auto intro: canonical_imp_wf simp: add.assoc)
  }
qed simp_all

lemma consume_values_amount:
  assumes "consume_values s v ins = Ok (s', v')" "value_wf v" "overlay_wf s"
    and "\<forall>out \<in> set (bt_values (to_map s)). value_wf (out_value out)"
  shows "value_wf v' \<and> amount v x \<le> amount v' x \<and> (\<forall>i \<in> set ins. \<forall>out. bt_get (to_map s) i = Some out \<longrightarrow> amount (out_value out) x \<le> amount v' x)"
  using assms
proof (induction ins arbitrary: s v)
  case (Cons i ins)
  then obtain s1 out v1 where step: "utxo_delete s i = Ok (s1, out)" "value_add v (out_value out) = Ok v1"
    "consume_values s1 v1 ins = Ok (s', v')" by (auto simp: result_simps)
  note del = utxo.del_OkE [OF step(1) Cons.prems(3)]
  have wf: "bt_wf (to_map s)" using Cons.prems(3) by (rule bt_wf_to_map)
  have "out \<in> set (bt_values (to_map s))" using del(3) bt_get_Some [OF wf] by (force simp: bt_values_def)
  then have ov: "value_wf (out_value out)" using Cons.prems(4) by blast
  note v1 = value_add_Ok [OF step(2) Cons.prems(2) ov]
  have get: "bt_get (to_map s1) k = (if k = i then None else bt_get (to_map s) k)" for k using del(2) wf by (simp add: bt_get_remove)
  have "set (bt_values (to_map s1)) \<subseteq> set (bt_values (to_map s))"
    using del(2) wf by (auto simp: bt_values_def bt_remove_retain bt_retain_def)
  then have ih: "value_wf v'" "amount v1 x \<le> amount v' x"
    "\<forall>i \<in> set ins. \<forall>out. bt_get (to_map s1) i = Some out \<longrightarrow> amount (out_value out) x \<le> amount v' x"
    using Cons.IH [OF step(3) canonical_imp_wf [OF v1(1)] del(1)] Cons.prems(4) by blast+
  then have "amount (out_value o') x \<le> amount v' x" if "j \<in> set (i # ins)" "bt_get (to_map s) j = Some o'" for j o'
    using that v1(2) [of x] get del(3) by (cases "j = i") auto
  then show ?case using ih v1(2) [of x] by simp
qed simp

lemma amount_coin_only: "amount \<lparr>val_coin = n, multi_asset = bt_empty\<rparr> (Some a) = 0"
  by (cases a) (simp add: amount_def qty_def bt_empty_def)

lemma coin_only_wf: "value_wf \<lparr>val_coin = n, multi_asset = bt_empty\<rparr>"
  by (simp add: value_wf_def ma_wf_def bt_wf_def bt_empty_def)

lemma sum_list_zeros: "(\<forall>x \<in> set xs. f x = (0 :: nat)) \<Longrightarrow> sum_list (map f xs) = 0"
  by (induction xs) simp_all

text \<open>Neither the mint field nor the assets of an output are decoded, so a transaction that would spend a
  native token has nothing to balance it with: an accepted one spends outputs without tokens only.\<close>

theorem mary_refuses_tokens:
  assumes "validate_mary_tx c pparams slot s (wire, body) = Ok s'" "overlay_wf s"
    and "\<forall>out \<in> set (bt_values (to_map s)). value_wf (out_value out)"
    and "i \<in> set (mtb_inputs body)" "bt_get (to_map s) i = Some out"
  shows "amount (out_value out) (Some asset) = 0"
proof -
  from assms(1) obtain s1 consumed produced cm where steps:
    "consume_values s (from_coin 0) (mtb_inputs body) = Ok (s1, consumed)"
    "sum_values (from_coin 0) (map mary_tx_out_to_value (mtb_outputs body)) = Ok produced"
    "value_add \<lparr>val_coin = 0, multi_asset = multi_asset consumed\<rparr> \<lparr>val_coin = 0, multi_asset = bt_empty\<rparr> = Ok cm"
    "multi_asset cm = multi_asset produced"
    by (auto simp: validate_mary_tx_def Let_def result_simps resolve_mary_inputs_def compute_mary_outputs_value_def
        check_mary_conservation_def parse_mint_field_def split: option.splits)
  have spent: "value_wf consumed" "amount (out_value out) (Some asset) \<le> amount consumed (Some asset)"
    using consume_values_amount [OF steps(1) _ assms(2,3), of "Some asset"] assms(4,5) coin_only_wf by (auto simp: from_coin_def)
  have "amount produced (Some asset) = 0"
    using sum_values_amount(2) [OF steps(2), of "Some asset"] coin_only_wf amount_coin_only
    by (auto simp: from_coin_def mary_tx_out_to_value_def comp_def intro!: sum_list_zeros)
  moreover have "amount cm (Some asset) = amount consumed (Some asset)"
    using value_add_Ok(2) [OF steps(3) _ coin_only_wf, of "Some asset"] spent(1) amount_coin_only [of 0 asset]
    by (cases asset) (simp add: value_wf_def amount_def)
  moreover have "amount cm (Some asset) = amount produced (Some asset)" using steps(4) by (cases asset) (simp add: amount_def)
  ultimately show ?thesis using spent(2) by simp
qed

section \<open>Era translations keep the ledger\<close>

fun next_era :: "CardanoEra \<Rightarrow> CardanoEra option" where
  "next_era ByronEbb = Some Shelley"
| "next_era ByronRegular = Some Shelley"
| "next_era Shelley = Some Allegra"
| "next_era Allegra = Some Mary"
| "next_era Mary = Some Alonzo"
| "next_era Alonzo = Some Babbage"
| "next_era Babbage = Some Conway"
| "next_era Conway = None"

lemma initial_reserves_exact:
  assumes "total_coin u \<le> unat TOTAL_SUPPLY"
  shows "unat (initial_shelley_reserves u) + total_coin u = unat TOTAL_SUPPLY"
proof -
  let ?coins = "map out_coin (overlay_values u)"
  have tc: "total_coin u = sum_list (map unat ?coins)" by (simp add: total_coin_def overlay_values_def comp_def)
  then have "unat (sat_total ?coins) = total_coin u" using assms by (subst sat_total_exact) (simp_all add: TOTAL_SUPPLY_def)
  then show ?thesis using assms by (simp add: initial_shelley_reserves_def unat_simps)
qed

text \<open>
  C22. A translation succeeds exactly into the next era and fails with the two eras otherwise. It keeps the
  unspent outputs and the certificate state, clears governance, and keeps every pot; the translation out of
  Byron starts the pots instead, with reserves that complete the outputs to the maximal supply.
\<close>

theorem era_translation_exact:
  "case translate_era st target of
     Ok st' \<Rightarrow> next_era (lst_era st) = Some target \<and> lst_era st' = target \<and>
       lst_utxo_state st' = lst_utxo_state st \<and> lst_cert_state st' = lst_cert_state st \<and> lst_gov_state st' = GovAuthoritative None \<and>
       (if is_byron (lst_era st)
        then est_treasury (lst_epoch_state st') = 0 \<and> est_epoch_fees (lst_epoch_state st') = 0 \<and>
          est_donation_pot (lst_epoch_state st') = 0 \<and>
          (total_coin (lst_utxo_state st) \<le> unat TOTAL_SUPPLY \<longrightarrow>
             unat (est_reserves (lst_epoch_state st')) + total_coin (lst_utxo_state st') = unat TOTAL_SUPPLY)
        else lst_epoch_state st' = lst_epoch_state st \<and> lst_protocol_params st' = lst_protocol_params st)
   | Err e \<Rightarrow> next_era (lst_era st) \<noteq> Some target \<and> e = TranslationError (lst_era st) target InvalidSourceState"
  by (cases "lst_era st"; cases target)
    (simp_all add: translate_era_def is_byron_def translate_byron_to_shelley_def translate_step_def translate_shelley_to_allegra_def
      translate_allegra_to_mary_def translate_mary_to_alonzo_def translate_alonzo_to_babbage_def translate_babbage_to_conway_def
      initial_reserves_exact)

lemma sample_byron_empty: "total_coin (lst_utxo_state (sample_boundary\<lparr>lst_era := ByronRegular\<rparr>)) = 0"
proof -
  have "total_coin overlay_new = 0" by code_simp
  then show ?thesis by (simp add: sample_boundary_def)
qed

theorem era_translation_exact_witness:
  "case translate_era (sample_boundary\<lparr>lst_era := ByronRegular\<rparr>) Shelley of
     Ok st' \<Rightarrow> unat (est_reserves (lst_epoch_state st')) = 45000000000000000 | Err _ \<Rightarrow> False"
  using era_translation_exact [of "sample_boundary\<lparr>lst_era := ByronRegular\<rparr>" Shelley] sample_byron_empty
  by (cases "translate_era (sample_boundary\<lparr>lst_era := ByronRegular\<rparr>) Shelley") (auto simp: is_byron_def TOTAL_SUPPLY_def)

end
