(* ===== verification/Spec2Isabelle.thy ===== *)
theory Spec2Isabelle
  imports Timing_Anchor Fork_Choice Leader_Check Wire Late_Era Boundary_Crossing Wal_Replay Early_Rules
begin

text \<open>
  A verification development for the pure core of Ade, a Cardano block-producing node in Rust:
  consensus (\<^verbatim>\<open>ade_core/src/consensus\<close>), the KES scheme and the verification surface it
  uses (\<^verbatim>\<open>ade_crypto/src\<close>), the CBOR layer (\<^verbatim>\<open>ade_codec/src\<close>), the node-to-node network
  stack (\<^verbatim>\<open>ade_network/src\<close>) and the ledger from values and certificates to the epoch boundary
  (\<^verbatim>\<open>ade_ledger/src\<close>). All paths are below \<^verbatim>\<open>src/crates\<close>.

  \<^bold>\<open>The program and how its parts interact.\<close> A header from the wire is a CBOR item inside a block
  envelope. Consensus projects it to a \<^verbatim>\<open>HeaderInput\<close> and runs \<^verbatim>\<open>validate_and_apply_header\<close>,
  which asks the era schedule for epoch and forecast horizon, the ledger view for stake and
  registered keys, the VRF and KES verifiers for the signatures and the fixed-point threshold
  for leadership, and then advances the chain-dependent state (op-cert counters and nonces).
  Fork choice compares candidate fragments and may roll back, but not below the immutable tip.
  The producer runs the same threshold through \<^verbatim>\<open>verify_and_evaluate_leader\<close>, signs with an
  evolving KES key and takes its time from an authority bound to the durable bootstrap facts.

  Peers talk over one byte stream per connection. The session reducer cuts it into multiplexer
  frames, negotiates a version, reassembles the messages of each mini-protocol and segments what
  is sent; the wire codecs turn messages into CBOR items and back, and a pure transition function
  per mini-protocol decides which message may come next and what it means.

  The ledger keeps unspent outputs in an overlay over a shared anchor, certificate and governance
  state in ordered maps, and everything an epoch needs in its epoch state. A transaction is decoded,
  validated against the state, and its certificates change delegation, pools, votes and deposits.
  At an epoch boundary the ledger pays the rewards of the epoch from the oldest stake snapshot, takes
  a new one, reaps pools, applies the governance decision that was frozen one epoch before, settles
  reserves and treasury, and freezes the decision of the epoch it enters. The boundary is due when
  the era schedule locates a slot in a later epoch. Blocks of the first eras go through rules of their own,
  and a hard fork translates the state to the next era. Admitted blocks and rollbacks are recorded in a
  write-ahead log of fingerprints, from which a restarted node recovers its chain.

  \<^bold>\<open>Theories and the code they model.\<close>
  \<^item> \<open>Prelude\<close>: Rust integers as words, \<^verbatim>\<open>Result\<close> as a sum with \<open>rbind\<close> for \<^verbatim>\<open>?\<close>, checked and
    saturating arithmetic, \<^verbatim>\<open>Ordering\<close>, big-endian bytes, and the two simp collections
    \<open>unat_simps\<close> and \<open>result_simps\<close>.
  \<^item> \<open>Consensus_Types\<close>: \<^verbatim>\<open>era.rs\<close>, \<^verbatim>\<open>errors.rs\<close>, \<^verbatim>\<open>events.rs\<close>, \<^verbatim>\<open>header_summary.rs\<close>.
  \<^item> \<open>Era_Schedule\<close> and \<open>Timing_Anchor\<close>: \<^verbatim>\<open>era_schedule.rs\<close>. Each \<^verbatim>\<open>for\<close> loop is a recursive
    walk over the remaining eras. Shown: time and slot are inverse, monotone and one geometry;
    \<open>locate\<close> decomposes a slot; extensions are conservative; the compact anchor refines the full
    schedule; an established authority is bound to its facts; the commitment binds the timing.
  \<^item> \<open>BTree_Map\<close>: the standard library's ordered map, with its laws as a locale.
  \<^item> \<open>Praos_State\<close>: \<^verbatim>\<open>praos_state.rs\<close>, \<^verbatim>\<open>nonce.rs\<close>, \<^verbatim>\<open>op_cert.rs\<close>. Shown: counters are
    monotone, and the next epoch nonce is frozen at the boundary.
  \<^item> \<open>Fork_Choice\<close>: \<^verbatim>\<open>candidate.rs\<close>, \<^verbatim>\<open>fork_choice.rs\<close>, \<^verbatim>\<open>rollback.rs\<close>. Shown: selection is
    maximal and independent of order and batching, and no run of selections and rollbacks (an
    inductive step relation) crosses the immutable tip.
  \<^item> \<open>Vrf_Fixed_Point\<close> and \<open>Vrf_Cert\<close>: \<^verbatim>\<open>vrf_cert.rs\<close>. Shown: the value of each 128-bit
    primitive over the naturals and the monotonicity of the leader predicate.
  \<^item> \<open>Kes_Sum\<close> and \<open>Crypto_Verify\<close>: \<^verbatim>\<open>kes_sum\<close>, \<^verbatim>\<open>ed25519.rs\<close>, \<^verbatim>\<open>vrf.rs\<close>, \<^verbatim>\<open>kes.rs\<close>.
    Shown: the life cycle of a key for every depth and the round trips of its encodings.
  \<^item> \<open>Header_Validate\<close>: \<^verbatim>\<open>ledger_view.rs\<close>, \<^verbatim>\<open>kes_check.rs\<close>, \<^verbatim>\<open>header_validate.rs\<close>. Shown:
    what an accepted header satisfies, what a run of headers keeps, what each rejection means, and
    what the \<^verbatim>\<open>TrustDurable\<close> mode drops.
  \<^item> \<open>Leader_Check\<close>: \<^verbatim>\<open>leader_schedule.rs\<close>, \<^verbatim>\<open>leader_check.rs\<close>, \<^verbatim>\<open>opcert_validate.rs\<close>.
    Shown: producer and validator agree, and a producer on schedule passes the KES check.
  \<^item> \<open>Cbor\<close> and \<open>Cbor_Skip\<close>: \<^verbatim>\<open>cbor/mod.rs\<close>, \<^verbatim>\<open>tag24.rs\<close>, \<^verbatim>\<open>envelope.rs\<close>,
    \<^verbatim>\<open>primitives.rs\<close>. Shown: round trips in both directions, and that the iterative skip
    implements an inductive grammar of encoded items. The primitive codecs share one locale.
  \<^item> \<open>Mini_Protocol\<close>, \<open>Chain_Sync\<close>, \<open>Block_Fetch\<close>, \<open>Tx_Submission\<close>, \<open>Keep_Alive\<close>, \<open>Peer_Sharing\<close>: the
    transition functions of the directories of these names. Two locales state the agency
    discipline and that conversations consist of exchanges; each protocol interprets them. Shown:
    the accepted conversations are exactly the documented ones.
  \<^item> \<open>Net_Codec\<close>, \<open>Handshake_Codec\<close>, \<open>Protocol_Codec\<close>: \<^verbatim>\<open>codec/error.rs\<close>, \<^verbatim>\<open>codec/primitives.rs\<close>, the
    two handshake codecs and the codecs of the five protocols. A decoder may fail or panic. Shown:
    messages survive the wire, encodings are single items, and where the decoder panics.
  \<^item> \<open>Handshake\<close>: \<^verbatim>\<open>handshake\<close>. Shown: the highest common version is selected.
  \<^item> \<open>Mux_Frame\<close>: \<^verbatim>\<open>mux/frame.rs\<close>, \<^verbatim>\<open>session/demux.rs\<close>. Shown: the frames of a stream do not
    depend on its chunks.
  \<^item> \<open>Session\<close>, \<open>Session_Transport\<close>, \<open>Session_Handshake\<close>: \<^verbatim>\<open>session/event.rs\<close>, \<^verbatim>\<open>state.rs\<close>,
    \<^verbatim>\<open>core.rs\<close>. Shown: conservation of every protocol's stream, independence of chunks, the
    handshake gate and the agreement of both sides.
  \<^item> \<open>Wire\<close>: the composition of codecs and sessions. Shown: a sent list of messages is the received one.
  \<^item> \<open>Tx_Codec\<close> and \<open>Tx_Roundtrip\<close>: the transaction codecs of Byron, Shelley, Allegra and Mary
    (\<^verbatim>\<open>byron/tx.rs\<close>, \<^verbatim>\<open>shelley/tx.rs\<close>, \<^verbatim>\<open>allegra/tx.rs\<close>, \<^verbatim>\<open>mary/tx.rs\<close>) with their capacity panics. Shown: bodies are
    decoded as encoded.
  \<^item> \<open>Ledger_Types\<close>, \<open>Ledger_Value\<close>, \<open>Overlay_Utxo\<close>: \<^verbatim>\<open>tx.rs\<close>, \<^verbatim>\<open>value.rs\<close>, \<^verbatim>\<open>utxo.rs\<close>, \<^verbatim>\<open>utxo_overlay.rs\<close>.
    Shown: multi-asset arithmetic is exact, and the overlay with its compaction refines the plain map.
  \<^item> \<open>Delegation\<close>, \<open>Cert_Codec\<close>, \<open>Conway_Cert\<close>: \<^verbatim>\<open>delegation.rs\<close>, the certificate and withdrawal codecs, \<^verbatim>\<open>gov_cert.rs\<close>,
    \<^verbatim>\<open>cert_classify.rs\<close> and the accumulation in \<^verbatim>\<open>rules.rs\<close>. Shown: the decoders accept exactly a grammar;
    staged pool parameters and retirements take effect at their boundary; an invariant of all
    reachable certificate states (an inductive step relation).
  \<^item> \<open>Late_Era\<close>: \<^verbatim>\<open>late_era_validation.rs\<close>, \<^verbatim>\<open>alonzo.rs\<close>, \<^verbatim>\<open>babbage.rs\<close>, \<^verbatim>\<open>conway.rs\<close>, \<^verbatim>\<open>pre_resolve.rs\<close>. Shown:
    what an accepted transaction satisfies, that it conserves ada, where the value equation has
    gaps, and that validation reads only the collected inputs.
  \<^item> \<open>Rational\<close> and \<open>Protocol_Params\<close>: \<^verbatim>\<open>rational.rs\<close>, \<^verbatim>\<open>pparams.rs\<close>. Shown: exact arithmetic over \<open>rat\<close>, and that
    a parameter changes only to a valid value with a quorum. The three quorum searches share one
    locale.
  \<^item> \<open>Gov_Update\<close>, \<open>Governance\<close>, \<open>Gov_Plan\<close>: \<^verbatim>\<open>governance.rs\<close>: the bounded decoder of parameter updates, vote
    count, decision and its application. Shown: what a decision may enact, which proposals an
    application removes and that each deposit is returned once, and that the closure over
    descendants ends.
  \<^item> \<open>Stake_Ref\<close>: \<^verbatim>\<open>address/mod.rs\<close>, \<^verbatim>\<open>address/pointer.rs\<close>, \<^verbatim>\<open>pointer_resolve.rs\<close>, \<^verbatim>\<open>stake_ref.rs\<close>, \<^verbatim>\<open>reduced_utxo.rs\<close>.
    Shown: the pointer decoders agree and the reduced record survives its encoding.
  \<^item> \<open>Epoch_State\<close> and \<open>Frozen_Ratification\<close>: \<^verbatim>\<open>epoch.rs\<close>, \<^verbatim>\<open>state.rs\<close>, \<^verbatim>\<open>governance/frozen.rs\<close>. Shown: a
    decision frozen at one boundary applies at the next, and which certificate stops the freeze.
  \<^item> \<open>Epoch_Boundary\<close>, \<open>Boundary_Pots\<close>, \<open>Boundary_Crossing\<close>: the boundary of \<^verbatim>\<open>rules.rs\<close> with the mark of
    \<^verbatim>\<open>epoch_accumulator.rs\<close>. Every loop that pays out interprets the locale \<open>coin_flow\<close>. Shown: a
    boundary conserves the supply and cannot overflow, its snapshot is consistent, and crossing
    follows the schedule.
  \<^item> \<open>Early_Rules\<close>: \<^verbatim>\<open>byron.rs\<close>, \<^verbatim>\<open>shelley.rs\<close>, \<^verbatim>\<open>mary.rs\<close>, \<^verbatim>\<open>hfc.rs\<close>. The three transaction rules interpret the
    locale \<open>utxo_rule\<close>. Shown: accepted blocks take exactly the fees from the outputs, no witness is
    required in Shelley, no native token can be spent in Mary, and what an era translation keeps.
  \<^item> \<open>Wal\<close> and \<open>Wal_Replay\<close>: \<^verbatim>\<open>wal/event.rs\<close>, \<^verbatim>\<open>wal/error.rs\<close>, \<^verbatim>\<open>wal/replay.rs\<close>, \<^verbatim>\<open>wal/store_trait.rs\<close>. The logs that a node
    writes are an inductive relation between a log and the chain it stands for. Shown: entries survive their
    encoding, and exactly which of these logs can be replayed.

  \<^bold>\<open>Bounds.\<close> Loops with a constant number of iterations are recursions or folds
  over that many steps; the others recurse on their data or on a proved measure (\<open>skip_walk\<close> and the
  drain loops of the session: the bytes left). \<open>read_until_break\<close> counts down the bytes left, which
  every element shortens, and so does \<open>fold_to_break\<close>. \<open>close_over_descendants\<close> recurses on the proposals that are not yet removed.
  Integers keep their width; arithmetic without a checked or saturating operation wraps, as in a
  release build. Offsets into byte slices are natural numbers, because a slice is shorter than
  \<open>2 ^ 63\<close> bytes. The fractions of \<open>Rational\<close> are unbounded, as the source's are.

  \<^bold>\<open>Parameters.\<close> Ed25519, Blake2b and the VRF come from third-party crates. They are fields of the
  records \<open>KesCrypto\<close> and \<open>Crypto\<close> or function arguments; where a property needs a law, it is
  stated by \<open>kes_crypto_ok\<close> (sizes, and that signing then verifying succeeds), and a concrete
  instance in the witnesses shows that it can hold.

  \<^bold>\<open>Not modelled.\<close> The canonical encodings of consensus state over the crate \<^verbatim>\<open>minicbor\<close>, the
  block codecs and the transaction codecs from Alonzo on, the node-to-client protocols, the servers and
  the transport of the network crate, the rules that decode and apply whole blocks from Allegra on, the
  epoch accumulator with its durable journal, the snapshot importers, the runtime and the node binary
  (storage, sockets, logging), script evaluation and the test harnesses.
\<close>

section \<open>Properties that span the mini-protocols\<close>

text \<open>
  C36. Agency: in every one of the five mini-protocols, each message a conversation accepts was sent
  by the party that the documentation says holds agency in the state reached before it, never
  by nobody, and under a version of at most 100. In particular nothing is accepted after the
  protocol is done.
\<close>

theorem mini_protocol_agency:
  "agency_discipline chain_sync_transition chain_sync_holder ChainSyncAgency.Neither 100
   \<and> agency_discipline block_fetch_transition block_fetch_holder BlockFetchAgency.Neither 100
   \<and> agency_discipline tx_submission2_transition tx_submission_holder TxSubmission2Agency.Neither 100
   \<and> agency_discipline keep_alive_transition keep_alive_holder KeepAliveAgency.Neither 100
   \<and> agency_discipline peer_sharing_transition peer_sharing_holder PeerSharingAgency.Neither 100"
  by (intro conjI chain_sync.discipline block_fetch.discipline tx_submission.discipline keep_alive.discipline
      peer_sharing.discipline)

text \<open>
  Request and reply: a keep-alive conversation comes back to rest exactly when it is a sequence
  of pings, each answered with its own cookie, and a peer-sharing conversation exactly when it
  is a sequence of requests, each answered with at most the requested number of peers; the events
  are those of the exchanges, in order.
\<close>

theorem request_reply_languages:
  assumes "version \<le> 100"
  shows "(run_protocol keep_alive_transition version ClientIdle ams = Ok (ClientIdle, outs)
      \<longleftrightarrow> conversation keep_alive_exchange ams outs)
    \<and> (run_protocol peer_sharing_transition version PeerSharingState.Idle bms = Ok (PeerSharingState.Idle, outs')
      \<longleftrightarrow> conversation peer_sharing_exchange bms outs')"
  using keep_alive.run_iff_conversation [OF assms] peer_sharing.run_iff_conversation [OF assms] by blast

theorem request_reply_languages_witness:
  "run_protocol keep_alive_transition 14 ClientIdle
     [(KeepAliveAgency.Client, KeepAliveMessage.KeepAlive 3), (KeepAliveAgency.Server, ResponseKeepAlive 3)]
     = Ok (ClientIdle, [KeepAliveOutput.Event (PingSent 3), KeepAliveOutput.Event (PongReceived 3)])"
proof -
  have "conversation keep_alive_exchange
      ([(KeepAliveAgency.Client, KeepAliveMessage.KeepAlive 3), (KeepAliveAgency.Server, ResponseKeepAlive 3)] @ [])
      ([KeepAliveOutput.Event (PingSent 3), KeepAliveOutput.Event (PongReceived 3)] @ [])"
    by (intro conversation.step keep_alive_exchange.intros conversation.empty)
  with request_reply_languages [of 14] show ?thesis by simp
qed

end
